(* ===== verification/Prelude.thy ===== *)
theory Prelude
  imports Main "HOL-Library.List_Lexorder" "HOL-Library.Char_ord" "HOL-Library.Code_Target_Nat"
begin

text \<open>
  Shared vocabulary of the development: transactions that may fail, tables of rows with a key,
  decimal numbers and URI escapes as strings.

  A \<open>txn\<close> is the body of one \<open>db.transaction\<close>: a function of the state that either
  raises (\<open>Inl\<close>, the transaction is rolled back and the caller keeps the state it had) or
  returns a value with the new state (\<open>Inr\<close>). Nested transactions join the outer one, so
  they are plain composition. A table is the list of its rows in \<open>rowid\<close> order.

  Strings are lists of \<open>char\<close>, one per UTF-16 code unit below 256.
\<close>

section \<open>Hint collections\<close>

named_theorems txn_simps "unfolding of the transaction combinators"
named_theorems frame "which parts of the state an operation leaves alone"

section \<open>Transactions\<close>

type_synonym ('e, 's, 'a) txn = "'s \<Rightarrow> 'e + ('a \<times> 's)"

definition retE :: "'a \<Rightarrow> ('e, 's, 'a) txn" where
  "retE x = (\<lambda>s. Inr (x, s))"

definition failE :: "'e \<Rightarrow> ('e, 's, 'a) txn" where
  "failE e = (\<lambda>s. Inl e)"

definition bindE :: "('e, 's, 'a) txn \<Rightarrow> ('a \<Rightarrow> ('e, 's, 'b) txn) \<Rightarrow> ('e, 's, 'b) txn" where
  "bindE m f = (\<lambda>s. case m s of Inl e \<Rightarrow> Inl e | Inr (x, s') \<Rightarrow> f x s')"

definition getE :: "('s \<Rightarrow> 'a) \<Rightarrow> ('e, 's, 'a) txn" where
  "getE f = (\<lambda>s. Inr (f s, s))"

definition modE :: "('s \<Rightarrow> 's) \<Rightarrow> ('e, 's, unit) txn" where
  "modE f = (\<lambda>s. Inr ((), f s))"

definition requireE :: "bool \<Rightarrow> 'e \<Rightarrow> ('e, 's, unit) txn" where
  "requireE b e = (if b then retE () else failE e)"

definition whenE :: "bool \<Rightarrow> ('e, 's, unit) txn \<Rightarrow> ('e, 's, unit) txn" where
  "whenE b m = (if b then m else retE ())"

text \<open>Evaluation runs a sequence only on a state it knows.\<close>

lemma bindE_apply [code]: "bindE m f s = (case m s of Inl e \<Rightarrow> Inl e | Inr (x, s') \<Rightarrow> f x s')"
  by (simp add: bindE_def)

text \<open>A \<open>for\<close> loop over a list computed before the loop, collecting the results.\<close>

fun forE :: "'x list \<Rightarrow> ('x \<Rightarrow> ('e, 's, 'a) txn) \<Rightarrow> ('e, 's, 'a list) txn" where
  "forE [] f s = Inr ([], s)"
| "forE (x # xs) f s =
     (case f x s of
        Inl e \<Rightarrow> Inl e
      | Inr (y, s1) \<Rightarrow>
          (case forE xs f s1 of Inl e \<Rightarrow> Inl e | Inr (ys, s2) \<Rightarrow> Inr (y # ys, s2)))"

text \<open>The results of the iterations that produced one.\<close>

definition somes :: "'a option list \<Rightarrow> 'a list" where
  "somes xs = List.map_filter id xs"

lemma retE_Inr [simp, txn_simps]: "retE x s = Inr (y, s') \<longleftrightarrow> y = x \<and> s' = s"
  by (auto simp: retE_def)

lemma retE_not_Inl [simp]: "retE x s \<noteq> Inl e"
  by (simp add: retE_def)

lemma failE_not_Inr [simp, txn_simps]: "failE e s \<noteq> Inr r"
  by (simp add: failE_def)

lemma failE_Inl [simp]: "failE e s = Inl e' \<longleftrightarrow> e' = e"
  by (auto simp: failE_def)

lemma bindE_Inr [txn_simps]:
  "bindE m f s = Inr (y, s') \<longleftrightarrow> (\<exists>x s1. m s = Inr (x, s1) \<and> f x s1 = Inr (y, s'))"
  by (auto simp: bindE_def split: sum.splits)

lemma bindE_Inl [txn_simps]:
  "bindE m f s = Inl e \<longleftrightarrow> m s = Inl e \<or> (\<exists>x s1. m s = Inr (x, s1) \<and> f x s1 = Inl e)"
  by (auto simp: bindE_def split: sum.splits)

lemma bindE_run:
  "m s = Inr (x, s1) \<Longrightarrow> bindE m f s = f x s1"
  "m s = Inl e \<Longrightarrow> bindE m f s = Inl e"
  by (simp_all add: bindE_def)

lemma getE_Inr [simp, txn_simps]: "getE f s = Inr (y, s') \<longleftrightarrow> y = f s \<and> s' = s"
  by (auto simp: getE_def)

lemma modE_Inr [simp, txn_simps]: "modE f s = Inr (y, s') \<longleftrightarrow> s' = f s"
  by (auto simp: modE_def)

lemma getE_modE_not_Inl [simp]: "getE f s \<noteq> Inl e" "modE g s \<noteq> Inl e"
  by (simp_all add: getE_def modE_def)

lemma requireE_Inr [simp, txn_simps]: "requireE b e s = Inr (y, s') \<longleftrightarrow> b \<and> s' = s"
  by (simp add: requireE_def)

lemma requireE_Inl [simp, txn_simps]: "requireE b e s = Inl e' \<longleftrightarrow> \<not> b \<and> e' = e"
  by (auto simp: requireE_def)

lemma whenE_Inr [txn_simps]:
  "whenE b m s = Inr (y, s') \<longleftrightarrow> (if b then m s = Inr (y, s') else s' = s)"
  by (simp add: whenE_def)

lemma succeeds: "\<not> isl m \<Longrightarrow> \<exists>x s. m = Inr (x, s)"
  by (cases m) auto

text \<open>Running a transaction on a concrete state.\<close>

lemmas txn_run = bindE_def retE_def failE_def getE_def modE_def requireE_def whenE_def

text \<open>An invariant every successful run of a transaction keeps.\<close>

definition keeps :: "('s \<Rightarrow> bool) \<Rightarrow> ('e, 's, 'a) txn \<Rightarrow> bool" where
  "keeps P m \<longleftrightarrow> (\<forall>s x s'. P s \<longrightarrow> m s = Inr (x, s') \<longrightarrow> P s')"

lemma keepsI [intro?]: "(\<And>s x s'. P s \<Longrightarrow> m s = Inr (x, s') \<Longrightarrow> P s') \<Longrightarrow> keeps P m"
  by (auto simp: keeps_def)

lemma keepsD: "keeps P m \<Longrightarrow> m s = Inr (x, s') \<Longrightarrow> P s \<Longrightarrow> P s'"
  by (auto simp: keeps_def)

lemma keeps_pure [intro, simp]:
  "keeps P (retE x)" "keeps P (failE e)" "keeps P (getE f)" "keeps P (requireE b e)"
  by (auto simp: keeps_def)

lemma keeps_bindE [intro]:
  "keeps P m \<Longrightarrow> (\<And>x. keeps P (f x)) \<Longrightarrow> keeps P (bindE m f)"
  unfolding keeps_def bindE_Inr by blast

lemma keeps_whenE [intro]: "(b \<Longrightarrow> keeps P m) \<Longrightarrow> keeps P (whenE b m)"
  by (auto simp: keeps_def whenE_def)

lemma keeps_modE [intro]: "(\<And>s. P s \<Longrightarrow> P (f s)) \<Longrightarrow> keeps P (modE f)"
  by (auto simp: keeps_def)

lemma keeps_if [intro]: "(b \<Longrightarrow> keeps P m) \<Longrightarrow> (\<not> b \<Longrightarrow> keeps P n) \<Longrightarrow> keeps P (if b then m else n)"
  by simp

lemma forE_induct_state:
  assumes step: "\<And>x s y s'. x \<in> set xs \<Longrightarrow> P s \<Longrightarrow> f x s = Inr (y, s') \<Longrightarrow> P s'"
    and "P s" and "forE xs f s = Inr (ys, s')"
  shows "P s'"
  using assms
proof (induction xs arbitrary: s ys)
  case Nil
  then show ?case by simp
next
  case (Cons x xs)
  then obtain y s1 ys' where "f x s = Inr (y, s1)" "forE xs f s1 = Inr (ys', s')"
    by (auto split: sum.splits)
  with Cons.IH [of s1 ys'] Cons.prems show ?case by (meson list.set_intros)
qed

lemma keeps_forE [intro]:
  assumes "\<And>x. x \<in> set xs \<Longrightarrow> keeps P (f x)"
  shows "keeps P (forE xs f)"
proof
  fix s ys s'
  assume P: "P s" and run: "forE xs f s = Inr (ys, s')"
  show "P s'"
  proof (rule forE_induct_state [where P = P and f = f and xs = xs and s = s])
    show "P t'" if "x \<in> set xs" "P t" "f x t = Inr (y, t')" for x t y t'
      using that assms by (blast dest: keepsD)
  qed (use P run in auto)
qed

section \<open>Tables\<close>

definition lookup_row :: "('r \<Rightarrow> 'k) \<Rightarrow> 'k \<Rightarrow> 'r list \<Rightarrow> 'r option" where
  "lookup_row key k rows = List.find (\<lambda>r. key r = k) rows"

text \<open>\<open>UPDATE \<dots> SET f WHERE P\<close>\<close>

definition update_rows :: "('r \<Rightarrow> bool) \<Rightarrow> ('r \<Rightarrow> 'r) \<Rightarrow> 'r list \<Rightarrow> 'r list" where
  "update_rows P f rows = map (\<lambda>r. if P r then f r else r) rows"

text \<open>The \<open>changes\<close> of an \<open>UPDATE\<close>: how many rows its condition selects.\<close>

definition changes :: "('r \<Rightarrow> bool) \<Rightarrow> 'r list \<Rightarrow> nat" where
  "changes P rows = length (filter P rows)"

lemma find_Some_iff_mem: "List.find P xs = Some x \<Longrightarrow> x \<in> set xs \<and> P x"
  by (induction xs) (auto split: if_splits)

lemma find_None_iff_mem: "List.find P xs = None \<longleftrightarrow> (\<forall>x \<in> set xs. \<not> P x)"
  by (induction xs) auto

lemma lookup_row_Some: "lookup_row key k rows = Some r \<Longrightarrow> r \<in> set rows \<and> key r = k"
  unfolding lookup_row_def by (rule find_Some_iff_mem)

lemma lookup_row_None: "lookup_row key k rows = None \<longleftrightarrow> (\<forall>r \<in> set rows. key r \<noteq> k)"
  unfolding lookup_row_def by (rule find_None_iff_mem)

lemma lookup_row_mem:
  "distinct (map key rows) \<Longrightarrow> r \<in> set rows \<Longrightarrow> lookup_row key (key r) rows = Some r"
  by (induction rows) (auto simp: lookup_row_def dest: rev_image_eqI)

lemma lookup_row_append:
  "lookup_row key k (rows @ [r]) =
     (case lookup_row key k rows of None \<Rightarrow> if key r = k then Some r else None | Some x \<Rightarrow> Some x)"
  by (induction rows) (auto simp: lookup_row_def)

lemma set_update_rows: "set (update_rows P f rows) = (\<lambda>r. if P r then f r else r) ` set rows"
  by (simp add: update_rows_def)

lemma length_update_rows [simp]: "length (update_rows P f rows) = length rows"
  by (simp add: update_rows_def)

lemma map_key_update_rows [simp]:
  "(\<And>r. key (f r) = key r) \<Longrightarrow> map key (update_rows P f rows) = map key rows"
  by (simp add: update_rows_def)

lemma lookup_row_update:
  assumes "\<And>r. key (f r) = key r"
  shows "lookup_row key k (update_rows P f rows) =
     map_option (\<lambda>r. if P r then f r else r) (lookup_row key k rows)"
  using assms by (induction rows) (auto simp: lookup_row_def update_rows_def)

lemma distinct_key_unique:
  "distinct (map key rows) \<Longrightarrow> r \<in> set rows \<Longrightarrow> r' \<in> set rows \<Longrightarrow> key r = key r' \<Longrightarrow> r = r'"
  by (metis lookup_row_mem option.inject)

lemma changes_unique:
  assumes "distinct (map key rows)" "r \<in> set rows" "P r" "\<And>r'. P r' \<Longrightarrow> key r' = key r"
  shows "changes P rows = 1"
proof -
  have only: "x = r" if "x \<in> set rows" "P x" for x
    by (rule distinct_key_unique [OF assms(1) that(1) assms(2) assms(4) [OF that(2)]])
  have "distinct (filter P rows)"
    using assms(1) by (simp add: distinct_map)
  moreover have "set (filter P rows) = {r}"
  proof
    show "set (filter P rows) \<subseteq> {r}" using only by force
    show "{r} \<subseteq> set (filter P rows)" using assms(2,3) by simp
  qed
  ultimately have "length (filter P rows) = card {r}"
    by (metis distinct_card)
  then show ?thesis by (simp add: changes_def)
qed

text \<open>
  The interface of a table: the list of its rows inside a larger state (\<open>get\<close>, \<open>put\<close>,
  as a record field gives them) and the column that is its primary key.
\<close>

locale keyed_table =
  fixes get :: "'s \<Rightarrow> 'r list"
    and put :: "('r list \<Rightarrow> 'r list) \<Rightarrow> 's \<Rightarrow> 's"
    and key :: "'r \<Rightarrow> 'k"
  assumes get_put: "get (put f s) = f (get s)"
begin

lemma lookup_after_insert:
  "lookup_row key k (get s) = None \<Longrightarrow> key r = k \<Longrightarrow>
   lookup_row key k (get (put (\<lambda>rs. rs @ [r]) s)) = Some r"
  by (simp add: get_put lookup_row_append)

lemma lookup_after_insert_other:
  "key r \<noteq> k \<Longrightarrow> lookup_row key k (get (put (\<lambda>rs. rs @ [r]) s)) = lookup_row key k (get s)"
  by (simp add: get_put lookup_row_append split: option.splits)

lemma lookup_after_update:
  "(\<And>r. key (f r) = key r) \<Longrightarrow> lookup_row key k (get s) = Some r \<Longrightarrow>
   lookup_row key k (get (put (update_rows (\<lambda>x. key x = k) f) s)) = Some (f r)"
  using lookup_row_Some [of key k "get s" r] by (simp add: get_put lookup_row_update)

lemma lookup_after_update_other:
  "(\<And>r. key (f r) = key r) \<Longrightarrow> k' \<noteq> k \<Longrightarrow>
   lookup_row key k' (get (put (update_rows (\<lambda>x. key x = k) f) s)) = lookup_row key k' (get s)"
  using lookup_row_Some [of key k' "get s"]
  by (cases "lookup_row key k' (get s)") (auto simp: get_put lookup_row_update)

lemma insert_keeps_distinct:
  "distinct (map key (get s)) \<Longrightarrow> lookup_row key (key r) (get s) = None \<Longrightarrow>
   distinct (map key (get (put (\<lambda>rs. rs @ [r]) s)))"
  by (auto simp: get_put lookup_row_None)

lemma update_keeps_distinct:
  "(\<And>r. key (f r) = key r) \<Longrightarrow> distinct (map key (get s)) \<Longrightarrow>
   distinct (map key (get (put (update_rows P f) s)))"
  by (simp add: get_put)

end

section \<open>Decimal numbers\<close>

definition digit_char :: "nat \<Rightarrow> char" where
  "digit_char d = char_of (48 + d)"

fun nat_str :: "nat \<Rightarrow> string" where
  "nat_str n = (if n < 10 then [digit_char n] else nat_str (n div 10) @ [digit_char (n mod 10)])"

declare nat_str.simps [simp del]

definition str_nat :: "string \<Rightarrow> nat" where
  "str_nat cs = foldl (\<lambda>n c. 10 * n + (of_char c - 48)) 0 cs"

lemma of_char_digit [simp]: "d < 10 \<Longrightarrow> of_char (digit_char d) = (48 + d :: nat)"
  by (simp add: digit_char_def)

lemma str_nat_nat_str [simp]: "str_nat (nat_str n) = n"
proof (induction n rule: nat_str.induct)
  case (1 n)
  then show ?case
    by (cases "n < 10") (simp_all add: nat_str.simps [of n] str_nat_def)
qed

lemma nat_str_inject [simp]: "nat_str m = nat_str n \<longleftrightarrow> m = n"
  by (metis str_nat_nat_str)

lemma nat_str_digits: "c \<in> set (nat_str n) \<Longrightarrow> 48 \<le> (of_char c :: nat) \<and> (of_char c :: nat) < 58"
proof (induction n rule: nat_str.induct)
  case (1 n)
  show ?case
  proof (cases "n < 10")
    case True
    with "1.prems" show ?thesis by (simp add: nat_str.simps [of n])
  next
    case False
    with "1.prems" consider "c \<in> set (nat_str (n div 10))" | "c = digit_char (n mod 10)"
      by (auto simp: nat_str.simps [of n])
    then show ?thesis
    proof cases
      case 1
      with "1.IH" [OF False] show ?thesis by simp
    next
      case 2
      then show ?thesis by simp
    qed
  qed
qed

lemma nat_str_no_colon [simp]: "CHR '':'' \<notin> set (nat_str n)"
  using nat_str_digits [of "CHR '':''" n] by auto

lemma nat_str_not_Nil [simp]: "nat_str n \<noteq> []"
  by (subst nat_str.simps) simp

text \<open>Splitting at the last occurrence of a separator is unique.\<close>

lemma append_sep_inject:
  assumes "x \<notin> set b" "x \<notin> set b'"
  shows "a @ x # b = a' @ x # b' \<longleftrightarrow> a = a' \<and> b = b'"
proof
  assume eq: "a @ x # b = a' @ x # b'"
  then have "rev b @ x # rev a = rev b' @ x # rev a'"
    by (metis append.assoc append_Cons append_Nil rev.simps(2) rev_append)
  then have "takeWhile (\<lambda>c. c \<noteq> x) (rev b @ x # rev a) = takeWhile (\<lambda>c. c \<noteq> x) (rev b' @ x # rev a')"
    by simp
  moreover have "takeWhile (\<lambda>c. c \<noteq> x) (rev b @ x # rev a) = rev b"
    using assms(1) by (subst takeWhile_append2) auto
  moreover have "takeWhile (\<lambda>c. c \<noteq> x) (rev b' @ x # rev a') = rev b'"
    using assms(2) by (subst takeWhile_append2) auto
  ultimately have "b = b'" by simp
  with eq show "a = a' \<and> b = b'" by simp
qed simp

end
