(* ===== verification/Json.thy ===== *)
theory Json
  imports Prelude "HOL-Library.Multiset" "HOL-Library.AList"
begin

text \<open>
  JSON values as the run database stores them, and \<open>stableStringify\<close> of
  \<open>src/mms/run/json.ts\<close>: the text written for a value has its object keys sorted and its
  undefined members dropped. \<open>stored\<close> is the value that reading that text back gives.
  Numbers are integers (nothing the run database stores is fractional); the keys of an object
  are distinct, as JavaScript keeps them.
\<close>

section \<open>Values\<close>

datatype json =
    JUndef
  | JNull
  | JBool bool
  | JNum int
  | JStr string
  | JArr "json list"
  | JObj "(string \<times> json) list"

text \<open>\<open>(value as \<dots> | null)?.key\<close>: \<open>None\<close> is \<open>undefined\<close>.\<close>

fun jfield :: "json \<Rightarrow> string \<Rightarrow> json option" where
  "jfield (JObj kvs) k = map_of kvs k"
| "jfield _ k = None"

definition jstring :: "json option \<Rightarrow> string option" where
  "jstring v = (case v of Some (JStr x) \<Rightarrow> Some x | _ \<Rightarrow> None)"

definition jstrings :: "json option \<Rightarrow> string list" where
  "jstrings v = (case v of Some (JArr xs) \<Rightarrow> List.map_filter (\<lambda>x. jstring (Some x)) xs | _ \<Rightarrow> [])"

definition jnum :: "json option \<Rightarrow> int" where
  "jnum v = (case v of Some (JNum n) \<Rightarrow> n | _ \<Rightarrow> 0)"

text \<open>\<open>{ ...object, ...patch }\<close> where a \<open>null\<close> of the patch removes its key.\<close>

fun jpatch :: "(string \<times> json) list \<Rightarrow> (string \<times> json) list \<Rightarrow> (string \<times> json) list" where
  "jpatch kvs [] = kvs"
| "jpatch kvs ((k, v) # ps) =
     jpatch (if v = JNull then filter (\<lambda>kv. fst kv \<noteq> k) kvs else AList.update k v kvs) ps"

fun jmembers :: "json \<Rightarrow> (string \<times> json) list" where
  "jmembers (JObj kvs) = kvs"
| "jmembers _ = []"

section \<open>Stable text\<close>

definition hex_char :: "nat \<Rightarrow> char" where
  "hex_char d = char_of (if d < 10 then 48 + d else 87 + d)"

text \<open>The escapes of \<open>JSON.stringify\<close>.\<close>

definition quote_char :: "char \<Rightarrow> string" where
  "quote_char c = (let n = of_char c in
     if n = (34::nat) then [char_of (92::nat), c]
     else if n = 92 then [c, c]
     else if n = 8 then [char_of (92::nat), CHR ''b'']
     else if n = 12 then [char_of (92::nat), CHR ''f'']
     else if n = 10 then [char_of (92::nat), CHR ''n'']
     else if n = 13 then [char_of (92::nat), CHR ''r'']
     else if n = 9 then [char_of (92::nat), CHR ''t'']
     else if n < 32 then [char_of (92::nat), CHR ''u'', CHR ''0'', CHR ''0'', hex_char (n div 16), hex_char (n mod 16)]
     else [c])"

definition quote :: "string \<Rightarrow> string" where
  "quote x = [char_of (34::nat)] @ concat (map quote_char x) @ [char_of (34::nat)]"

definition int_str :: "int \<Rightarrow> string" where
  "int_str n = (if n < 0 then CHR ''-'' # nat_str (nat (- n)) else nat_str (nat n))"

fun join :: "string \<Rightarrow> string list \<Rightarrow> string" where
  "join sep [] = []"
| "join sep [x] = x"
| "join sep (x # y # ys) = x @ sep @ join sep (y # ys)"

definition member_text :: "string \<times> string option \<Rightarrow> string option" where
  "member_text m = (case snd m of None \<Rightarrow> None | Some x \<Rightarrow> Some (quote (fst m) @ '':'' @ x))"

lemma size_member: "kv \<in> set kvs \<Longrightarrow> size (snd kv) < Suc (size_list (size_prod (\<lambda>_. 0) size) kvs)"
  by (induction kvs) (auto simp: less_Suc_eq_le split: prod.splits)

function serialize :: "json \<Rightarrow> string option" where
  "serialize JUndef = None"
| "serialize JNull = Some ''null''"
| "serialize (JBool b) = Some (if b then ''true'' else ''false'')"
| "serialize (JNum n) = Some (int_str n)"
| "serialize (JStr x) = Some (quote x)"
| "serialize (JArr xs) =
     Some (''['' @ join '','' (map (\<lambda>x. case serialize x of None \<Rightarrow> ''null'' | Some y \<Rightarrow> y) xs) @ '']'')"
| "serialize (JObj kvs) =
     Some (''{'' @ join '','' (List.map_filter member_text
       (sort_key fst (map (\<lambda>kv. (fst kv, serialize (snd kv))) kvs))) @ ''}'')"
  by pat_completeness auto
termination
  by (relation "measure size") (auto simp: size_list_estimation' less_Suc_eq_le intro: le_trans dest: size_member)

definition stable_stringify :: "json \<Rightarrow> string" where
  "stable_stringify v = (case serialize v of None \<Rightarrow> ''null'' | Some x \<Rightarrow> x)"

text \<open>The value \<open>JSON.parse(stableStringify(v))\<close>.\<close>

function canon :: "json \<Rightarrow> json option" where
  "canon JUndef = None"
| "canon JNull = Some JNull"
| "canon (JBool b) = Some (JBool b)"
| "canon (JNum n) = Some (JNum n)"
| "canon (JStr x) = Some (JStr x)"
| "canon (JArr xs) = Some (JArr (map (\<lambda>x. case canon x of None \<Rightarrow> JNull | Some y \<Rightarrow> y) xs))"
| "canon (JObj kvs) =
     Some (JObj (List.map_filter (\<lambda>m. map_option (Pair (fst m)) (snd m))
       (sort_key fst (map (\<lambda>kv. (fst kv, canon (snd kv))) kvs))))"
  by pat_completeness auto
termination
  by (relation "measure size") (auto simp: size_list_estimation' less_Suc_eq_le intro: le_trans dest: size_member)

definition stored :: "json \<Rightarrow> json" where
  "stored v = (case canon v of None \<Rightarrow> JNull | Some x \<Rightarrow> x)"


section \<open>Laws\<close>

lemma jfield_jpatch:
  "distinct (map fst ps) \<Longrightarrow>
   map_of (jpatch kvs ps) k =
     (case map_of ps k of None \<Rightarrow> map_of kvs k | Some JNull \<Rightarrow> None | Some v \<Rightarrow> Some v)"
proof (induction kvs ps rule: jpatch.induct)
  case (1 kvs)
  then show ?case by simp
next
  case (2 kvs k' v ps)
  have drop: "map_of (filter (\<lambda>kv. fst kv \<noteq> k') kvs) k = (if k = k' then None else map_of kvs k)"
    by (induction kvs) auto
  have none: "map_of ps k' = None"
    using 2(2) by (simp add: map_of_eq_None_iff)
  show ?case
  proof (cases "k = k'")
    case True
    with 2 drop none show ?thesis by (cases v) (simp_all add: update_conv')
  next
    case False
    with 2 drop show ?thesis by (cases "map_of ps k") (simp_all add: update_conv')
  qed
qed

lemma sort_key_map: "sort_key f (map g xs) = map g (sort_key (\<lambda>x. f (g x)) xs)"
proof (induction xs)
  case (Cons x xs)
  have "insort_key f (g x) (map g ys) = map g (insort_key (\<lambda>x. f (g x)) x ys)" for ys
    by (induction ys) auto
  with Cons show ?case by simp
qed simp

lemma sort_key_sorted: "sorted (map f xs) \<Longrightarrow> sort_key f xs = xs"
  by (induction xs) (auto intro: insort_is_Cons)

lemma sorted_map_filter_keys:
  "sorted (map f xs) \<Longrightarrow> (\<And>x y. g x = Some y \<Longrightarrow> f' y = f x) \<Longrightarrow> sorted (map f' (List.map_filter g xs))"
  by (induction xs) (auto simp: map_filter_simps map_filter_def split: option.splits)

lemma map_filter_map: "List.map_filter g (map h xs) = List.map_filter (\<lambda>x. g (h x)) xs"
  by (simp add: List.map_filter_def filter_map comp_def)

lemma map_filter_map_filter:
  "List.map_filter g (List.map_filter h xs) = List.map_filter (\<lambda>x. Option.bind (h x) g) xs"
  by (induction xs) (auto simp: map_filter_simps split: option.splits)

lemma map_filter_cong':
  "(\<And>x. x \<in> set xs \<Longrightarrow> g x = h x) \<Longrightarrow> List.map_filter g xs = List.map_filter h xs"
  by (induction xs) (auto simp: map_filter_simps split: option.splits)

lemma canon_None: "canon v = None \<longleftrightarrow> v = JUndef"
  by (cases v) auto

lemma serialize_None: "serialize v = None \<longleftrightarrow> v = JUndef"
  by (cases v) auto

lemma serialize_object:
  "serialize (JObj kvs) = Some (''{'' @ join '','' (List.map_filter
     (\<lambda>kv. member_text (fst kv, serialize (snd kv))) (sort_key fst kvs)) @ ''}'')"
  by (simp add: sort_key_map map_filter_map)

lemma canon_object:
  "canon (JObj kvs) =
     Some (JObj (List.map_filter (\<lambda>kv. map_option (Pair (fst kv)) (canon (snd kv))) (sort_key fst kvs)))"
  by (simp add: sort_key_map map_filter_map)

lemmas json_object_simps = serialize_object canon_object

lemma serialize_canon: "canon v = Some w \<Longrightarrow> serialize w = serialize v"
proof (induction v arbitrary: w rule: canon.induct)
  case (6 xs)
  have "(case serialize (case canon x of None \<Rightarrow> JNull | Some y \<Rightarrow> y) of None \<Rightarrow> ''null'' | Some y \<Rightarrow> y)
      = (case serialize x of None \<Rightarrow> ''null'' | Some y \<Rightarrow> y)" if "x \<in> set xs" for x
    using 6(1) [OF that] canon_None [of x] by (auto split: option.splits)
  with 6(2) show ?case by (auto simp: comp_def intro!: arg_cong [where f = "join _"])
next
  case (7 kvs)
  let ?ks = "sort_key fst kvs"
  let ?g = "\<lambda>kv. map_option (Pair (fst kv)) (canon (snd kv))"
  from 7(2) have w: "w = JObj (List.map_filter ?g ?ks)"
    unfolding canon_object by simp
  have "sorted (map fst (List.map_filter ?g ?ks))"
    by (rule sorted_map_filter_keys [where f = fst]) auto
  then have same: "sort_key fst (List.map_filter ?g ?ks) = List.map_filter ?g ?ks"
    by (rule sort_key_sorted)
  have "Option.bind (?g kv) (\<lambda>kv. member_text (fst kv, serialize (snd kv)))
      = member_text (fst kv, serialize (snd kv))" if "kv \<in> set ?ks" for kv
    using that 7(1) [of kv] canon_None [of "snd kv"]
    by (cases "canon (snd kv)") (auto simp: member_text_def serialize_None split: option.splits)
  then have "List.map_filter (\<lambda>kv. member_text (fst kv, serialize (snd kv))) (List.map_filter ?g ?ks)
      = List.map_filter (\<lambda>kv. member_text (fst kv, serialize (snd kv))) ?ks"
    unfolding map_filter_map_filter by (rule map_filter_cong')
  then show ?case
    unfolding w serialize_object same by simp
qed auto

text \<open>Two objects with the same members, in any order, have the same sorted members.\<close>

lemma sort_key_mset:
  assumes "mset kvs = mset kvs'" "distinct (map fst kvs)"
  shows "sort_key fst kvs = sort_key fst kvs'"
proof (rule sort_key_inj_key_eq)
  show "mset kvs = mset (sort_key fst kvs')" using assms(1) by simp
  show "inj_on fst (set kvs)" using assms(2) by (simp add: distinct_map)
qed simp

lemma serialize_key_order:
  assumes "mset kvs = mset kvs'" "distinct (map fst kvs)"
  shows "serialize (JObj kvs) = serialize (JObj kvs')"
  unfolding serialize_object by (simp only: sort_key_mset [OF assms])

end
