(* ===== verification/RunTypes.thy ===== *)
theory RunTypes
  imports Json
begin

text \<open>
  The data of the run engine (\<open>src/mms/run/types.ts\<close>): run, attempt, effect, inbox and
  delegation records with their statuses, the effect kind table, deterministic ids, and the
  narrowing of access levels. A record's fields carry a two-letter prefix (\<open>rr_\<close> run,
  \<open>at_\<close> attempt, \<open>ef_\<close> effect, \<open>ib_\<close> inbox, \<open>dg_\<close> delegation, ...); an optional
  member is an \<open>option\<close>. ISO timestamps (all written by \<open>toISOString\<close>, so ordered as
  their text) are milliseconds since the epoch.
\<close>

section \<open>Errors\<close>

datatype store_error =
    StorageFull | StorageCorrupt | StaleWrite | BadRequest | Internal | Conflict | DowngradeUnsupported

section \<open>Runs\<close>

datatype run_status =
    RQueued | RStarting | RRunning | RFinalizing | RPaused
  | RCompleted | RInterrupted | RFailed | RCancelled | RUncertain

text \<open>\<open>paused\<close> is not terminal.\<close>

fun terminal_run :: "run_status \<Rightarrow> bool" where
  "terminal_run RCompleted = True"
| "terminal_run RInterrupted = True"
| "terminal_run RFailed = True"
| "terminal_run RCancelled = True"
| "terminal_run RUncertain = True"
| "terminal_run _ = False"

datatype attempt_status = APending | ARunning | ACompleted | AInterrupted | AFailed | ACancelled | ASuperseded

datatype attempt_reason = Initial | SteerRestart | Retry | Recovery

datatype pause_end = EndResume | EndResumeNow | EndUserMessage | EndCancel | EndStop | EndDeleted

datatype resume_by = Auto | User

record run_pause =
  pa_until :: nat
  pa_estimated :: bool
  pa_provider :: "string option"
  pa_limitKind :: "string option"
  pa_count :: nat
  pa_autoResume :: bool
  pa_resumeItemId :: "string option"
  pa_resumeRequested :: "resume_by option"
  pa_stale :: bool
  pa_endedBy :: "pause_end option"

datatype interrupted_by = ByUser | ByAgent | ByDaemonRestart | ByProvider | ByBotWall

datatype undo_strategy = NativeRollback | Checkpoint

datatype stop_how = StopInterrupt | StopSettleLocally

record run_outcome =
  oc_error :: "string option"
  oc_errorCode :: "string option"
  oc_usageLimitUntil :: "nat option"
  oc_interruptedBy :: "interrupted_by option"
  oc_uncertainReason :: "string option"
  oc_stopRequested :: "bool option"
  oc_stopRequestedByAgent :: "unit option"
  oc_sentByAgent :: "unit option"
  oc_agentHops :: "nat option"
  oc_continuationOf :: "string option"
  oc_pause :: "run_pause option"
  oc_resumedFromPause :: "resume_by option"
  oc_undoStrategy :: "undo_strategy option"
  oc_stopStrategy :: "stop_how option"

definition empty_outcome :: run_outcome where
  "empty_outcome = \<lparr>oc_error = None, oc_errorCode = None, oc_usageLimitUntil = None,
     oc_interruptedBy = None, oc_uncertainReason = None, oc_stopRequested = None,
     oc_stopRequestedByAgent = None, oc_sentByAgent = None, oc_agentHops = None,
     oc_continuationOf = None, oc_pause = None, oc_resumedFromPause = None,
     oc_undoStrategy = None, oc_stopStrategy = None\<rparr>"

text \<open>\<open>b\<close> where it is present, else \<open>a\<close>: one member of a spread \<open>{ ...a, ...b }\<close>.\<close>

definition or_else :: "'a option \<Rightarrow> 'a option \<Rightarrow> 'a option" where
  "or_else b a = (case b of None \<Rightarrow> a | Some x \<Rightarrow> Some x)"

definition merge_outcome :: "run_outcome \<Rightarrow> run_outcome \<Rightarrow> run_outcome" where
  "merge_outcome a b = \<lparr>
     oc_error = or_else (oc_error b) (oc_error a),
     oc_errorCode = or_else (oc_errorCode b) (oc_errorCode a),
     oc_usageLimitUntil = or_else (oc_usageLimitUntil b) (oc_usageLimitUntil a),
     oc_interruptedBy = or_else (oc_interruptedBy b) (oc_interruptedBy a),
     oc_uncertainReason = or_else (oc_uncertainReason b) (oc_uncertainReason a),
     oc_stopRequested = or_else (oc_stopRequested b) (oc_stopRequested a),
     oc_stopRequestedByAgent = or_else (oc_stopRequestedByAgent b) (oc_stopRequestedByAgent a),
     oc_sentByAgent = or_else (oc_sentByAgent b) (oc_sentByAgent a),
     oc_agentHops = or_else (oc_agentHops b) (oc_agentHops a),
     oc_continuationOf = or_else (oc_continuationOf b) (oc_continuationOf a),
     oc_pause = or_else (oc_pause b) (oc_pause a),
     oc_resumedFromPause = or_else (oc_resumedFromPause b) (oc_resumedFromPause a),
     oc_undoStrategy = or_else (oc_undoStrategy b) (oc_undoStrategy a),
     oc_stopStrategy = or_else (oc_stopStrategy b) (oc_stopStrategy a)\<rparr>"

definition the_outcome :: "run_outcome option \<Rightarrow> run_outcome" where
  "the_outcome oc = (case oc of None \<Rightarrow> empty_outcome | Some x \<Rightarrow> x)"

datatype access_level = Lineage | Read | Manage

text \<open>A \<open>runs\<close> row: the \<open>RunRecord\<close> and the row's \<open>stop_generation\<close> column.\<close>

record run_record =
  rr_runId :: string
  rr_threadId :: string
  rr_ordinal :: nat
  rr_status :: run_status
  rr_epoch :: nat
  rr_activeAttemptId :: "string option"
  rr_source :: string
  rr_clientRequestId :: "string option"
  rr_userMessageId :: "string option"
  rr_requestedAt :: nat
  rr_startedAt :: "nat option"
  rr_completedAt :: "nat option"
  rr_outcome :: "run_outcome option"
  rr_heartbeatAt :: "nat option"
  rr_accessGrant :: "access_level option"
  rr_stopGeneration :: nat

record provider_ref =
  pr_provider :: string
  pr_instanceId :: "string option"
  pr_model :: "string option"
  pr_sessionId :: "string option"
  pr_nativeTurnId :: "string option"

record attempt_record =
  at_attemptId :: string
  at_runId :: string
  at_ordinal :: nat
  at_reason :: attempt_reason
  at_status :: attempt_status
  at_providerRef :: "provider_ref option"
  at_executionBinding :: "json option"
  at_startedAt :: "nat option"
  at_completedAt :: "nat option"

datatype receipt_status = Accepted | Rejected | Ignored

record receipt_record =
  rc_clientRequestId :: string
  rc_threadId :: string
  rc_commandKind :: string
  rc_status :: receipt_status
  rc_result :: json
  rc_createdAt :: nat

definition LOCAL_ACTION_SOURCES :: "string list" where
  "LOCAL_ACTION_SOURCES = [''undo'', ''revert'', ''clear'', ''compact'']"

text \<open>Whether a Stop ended the run, a person's or an agent's.\<close>

definition stopped_by_person :: "run_outcome option \<Rightarrow> bool" where
  "stopped_by_person oc = (case oc of None \<Rightarrow> False
     | Some x \<Rightarrow> oc_interruptedBy x = Some ByUser \<or> oc_interruptedBy x = Some ByAgent)"

section \<open>Effects\<close>

datatype effect_kind =
    TurnStart | TurnInterrupt | TurnSteer | RequestRespond
  | CheckpointCapture | TitleGenerate | WorkspaceCleanup | RunResume

datatype effect_class = ProcessBound | ReplaySafe

datatype effect_status = EPending | ERunning | ESucceeded | EFailed | ECancelled

fun terminal_effect :: "effect_status \<Rightarrow> bool" where
  "terminal_effect ESucceeded = True"
| "terminal_effect EFailed = True"
| "terminal_effect ECancelled = True"
| "terminal_effect _ = False"

datatype effect_lane = LThread | LTitle | LControl | LResume

record effect_kind_spec =
  ks_class :: effect_class
  ks_timeoutMs :: nat
  ks_reserved :: bool
  ks_lane :: "effect_lane option"
  ks_maxAttempts :: "nat option"

definition DEFAULT_EFFECT_MAX_ATTEMPTS :: nat where
  "DEFAULT_EFFECT_MAX_ATTEMPTS = 5"

datatype lane_class = LcTurn | LcControl | LcReplaySafe

definition CONTROL_EFFECT_KINDS :: "effect_kind list" where
  "CONTROL_EFFECT_KINDS = [TurnInterrupt, TurnSteer, RequestRespond]"

definition effect_lane_class :: "effect_kind \<Rightarrow> lane_class" where
  "effect_lane_class kind =
     (if kind = TurnStart then LcTurn
      else if kind \<in> set CONTROL_EFFECT_KINDS then LcControl else LcReplaySafe)"

fun EFFECT_KIND_SPEC :: "effect_kind \<Rightarrow> effect_kind_spec" where
  "EFFECT_KIND_SPEC TurnStart =
     \<lparr>ks_class = ProcessBound, ks_timeoutMs = 6 * 60 * 60000, ks_reserved = False, ks_lane = None, ks_maxAttempts = Some 1\<rparr>"
| "EFFECT_KIND_SPEC TurnInterrupt =
     \<lparr>ks_class = ProcessBound, ks_timeoutMs = 30000, ks_reserved = False, ks_lane = Some LControl, ks_maxAttempts = None\<rparr>"
| "EFFECT_KIND_SPEC TurnSteer =
     \<lparr>ks_class = ProcessBound, ks_timeoutMs = 30000, ks_reserved = False, ks_lane = Some LControl, ks_maxAttempts = Some 1\<rparr>"
| "EFFECT_KIND_SPEC RequestRespond =
     \<lparr>ks_class = ProcessBound, ks_timeoutMs = 30000, ks_reserved = False, ks_lane = Some LControl, ks_maxAttempts = Some 1\<rparr>"
| "EFFECT_KIND_SPEC CheckpointCapture =
     \<lparr>ks_class = ReplaySafe, ks_timeoutMs = 2 * 60000, ks_reserved = True, ks_lane = None, ks_maxAttempts = None\<rparr>"
| "EFFECT_KIND_SPEC TitleGenerate =
     \<lparr>ks_class = ReplaySafe, ks_timeoutMs = 60000, ks_reserved = True, ks_lane = Some LTitle, ks_maxAttempts = None\<rparr>"
| "EFFECT_KIND_SPEC WorkspaceCleanup =
     \<lparr>ks_class = ReplaySafe, ks_timeoutMs = 5 * 60000, ks_reserved = True, ks_lane = None, ks_maxAttempts = None\<rparr>"
| "EFFECT_KIND_SPEC RunResume =
     \<lparr>ks_class = ReplaySafe, ks_timeoutMs = 60000, ks_reserved = False, ks_lane = Some LResume, ks_maxAttempts = None\<rparr>"

record effect_record =
  ef_effectId :: string
  ef_threadId :: string
  ef_runId :: "string option"
  ef_kind :: effect_kind
  ef_class :: effect_class
  ef_status :: effect_status
  ef_payload :: json
  ef_attempts :: nat
  ef_maxAttempts :: nat
  ef_timeoutMs :: nat
  ef_availableAt :: nat
  ef_leaseOwner :: "string option"
  ef_leaseExpiresAt :: "nat option"
  ef_lastError :: "string option"
  ef_createdAt :: nat
  ef_updatedAt :: nat
  ef_completedAt :: "nat option"

record daemon_epoch =
  ep_epoch :: nat
  ep_pid :: nat
  ep_startedAt :: nat
  ep_heartbeatAt :: nat
  ep_endedAt :: "nat option"

datatype tool_status = TStarted | TCommitted | TFailed | TOutcomeUnknown

record tool_invocation =
  ti_invocationId :: string
  ti_runId :: string
  ti_attemptId :: string
  ti_tool :: string
  ti_idempotent :: bool
  ti_status :: tool_status
  ti_argsDigest :: string
  ti_startedAt :: nat
  ti_completedAt :: "nat option"

section \<open>Lineage, delegations and the inbox\<close>

datatype lineage_relationship = Subagent | Fork

record lineage_record =
  ln_threadId :: string
  ln_parentThreadId :: string
  ln_parentRunId :: string
  ln_relationship :: lineage_relationship
  ln_createdAt :: nat

datatype delegation_status = DRunning | DResultAvailable | DAcknowledged | DCancelled | DFailed

datatype delegation_wake = WakeAlways | WakeSettledOnly

datatype mode_ceiling = Plan | DefaultMode

datatype delegation_workspace = Isolated | Shared

record delegation_result =
  dr_runStatus :: run_status
  dr_text :: "string option"
  dr_error :: "string option"
  dr_runId :: "string option"

record delegation_record =
  dg_delegationId :: string
  dg_parentRunId :: string
  dg_parentThreadId :: string
  dg_childThreadId :: string
  dg_childRunId :: string
  dg_provider :: "string option"
  dg_model :: "string option"
  dg_promptDigest :: string
  dg_wake :: delegation_wake
  dg_status :: delegation_status
  dg_result :: "delegation_result option"
  dg_createdAt :: nat
  dg_completedAt :: "nat option"
  dg_modeCeiling :: "mode_ceiling option"
  dg_accessLevel :: "access_level option"
  dg_workspace :: "delegation_workspace option"
  dg_role :: "string option"

datatype inbox_kind = ChildResult | RestartNote | ReconcileNotice | PrUpdate

datatype inbox_status = IPending | IDelivered | IAcknowledged

record inbox_record =
  ib_inboxId :: string
  ib_threadId :: string
  ib_runId :: "string option"
  ib_kind :: inbox_kind
  ib_payload :: json
  ib_status :: inbox_status
  ib_createdAt :: nat
  ib_deliveredBy :: "string option"

definition is_retired_inbox_row :: "inbox_record \<Rightarrow> bool" where
  "is_retired_inbox_row row \<longleftrightarrow> ib_kind row = PrUpdate"

definition is_child_question_row :: "inbox_record \<Rightarrow> bool" where
  "is_child_question_row row \<longleftrightarrow>
     ib_kind row = ReconcileNotice \<and> jfield (ib_payload row) ''kind'' = Some (JStr ''child_question'')"

definition is_wake_turn_payload :: "json \<Rightarrow> bool" where
  "is_wake_turn_payload p \<longleftrightarrow> jfield p ''kind'' = Some (JStr ''wake'')"

definition is_bot_turn_payload :: "json \<Rightarrow> bool" where
  "is_bot_turn_payload p \<longleftrightarrow>
     jfield p ''kind'' = Some (JStr ''bot'') \<and> jstring (jfield p ''runId'') \<noteq> None \<and>
     jstring (jfield p ''threadId'') \<noteq> None \<and> jstring (jfield p ''activationId'') \<noteq> None \<and>
     (case jfield p ''dispatchN'' of Some (JNum n) \<Rightarrow> \<bar>n\<bar> \<le> 9007199254740991 | _ \<Rightarrow> False)"

definition has_unknown_turn_payload_kind :: "json \<Rightarrow> string list \<Rightarrow> bool" where
  "has_unknown_turn_payload_kind p known =
     (case jstring (jfield p ''kind'') of None \<Rightarrow> False | Some k \<Rightarrow> k \<notin> set known)"

definition is_send_turn_payload :: "json \<Rightarrow> bool" where
  "is_send_turn_payload p \<longleftrightarrow>
     jstring (jfield p ''runId'') \<noteq> None \<and> jstring (jfield p ''threadId'') \<noteq> None \<and>
     (case jfield p ''input'' of None \<Rightarrow> False | Some JUndef \<Rightarrow> False | Some JNull \<Rightarrow> False | Some _ \<Rightarrow> True)"

datatype transfer_type = TransferFork | TransferMergeBack

datatype transfer_status = XPending | XConsumed | XSuperseded | XFailed

record transfer_record =
  tr_transferId :: string
  tr_type :: transfer_type
  tr_sourceThreadId :: string
  tr_targetThreadId :: string
  tr_sourceRunOrdinal :: nat
  tr_status :: transfer_status
  tr_payload :: "(string \<times> json) list"
  tr_createdAt :: nat
  tr_consumedAt :: "nat option"

end
