(* ===== verification/RunIds.thy ===== *)
theory RunIds
  imports RunTypes
begin

text \<open>
  The deterministic ids of runs, attempts and effect lease owners. A run id embeds the thread id
  through \<open>encodeURIComponent\<close>, modelled on code units below 256 (their UTF-8 bytes, percent
  escaped), with its inverse; the id of a run determines its thread and ordinal.
\<close>

section \<open>encodeURIComponent\<close>

definition unreserved :: "nat \<Rightarrow> bool" where
  "unreserved n \<longleftrightarrow> (65 \<le> n \<and> n \<le> 90) \<or> (97 \<le> n \<and> n \<le> 122) \<or> (48 \<le> n \<and> n \<le> 57) \<or>
     n \<in> {45, 95, 46, 33, 126, 42, 39, 40, 41}"

definition hex_upper :: "nat \<Rightarrow> char" where
  "hex_upper d = char_of (if d < 10 then 48 + d else 55 + d)"

definition percent :: "nat \<Rightarrow> string" where
  "percent b = [CHR ''%'', hex_upper (b div 16), hex_upper (b mod 16)]"

definition encode_unit :: "char \<Rightarrow> string" where
  "encode_unit c = (let n = of_char c in
     if unreserved n then [c]
     else if n < 128 then percent n
     else percent (192 + n div 64) @ percent (128 + n mod 64))"

definition encode_uri_component :: "string \<Rightarrow> string" where
  "encode_uri_component x = concat (map encode_unit x)"

definition hex_value :: "char \<Rightarrow> nat" where
  "hex_value c = (let n = of_char c in if n < 58 then n - 48 else n - 55)"

fun decode_uri_component :: "string \<Rightarrow> string" where
  "decode_uri_component (c # a # b # rest) =
     (if c = CHR ''%'' then
        let n = 16 * hex_value a + hex_value b in
        if n < 128 then char_of n # decode_uri_component rest
        else (case rest of
                _ # a' # b' # rest' \<Rightarrow>
                  char_of ((n - 192) * 64 + (16 * hex_value a' + hex_value b' - 128)) # decode_uri_component rest'
              | _ \<Rightarrow> [])
      else c # decode_uri_component (a # b # rest))"
| "decode_uri_component cs = cs"

lemma hex_value_upper [simp]: "d < 16 \<Longrightarrow> hex_value (hex_upper d) = d"
  by (simp add: hex_value_def hex_upper_def Let_def)

lemma unreserved_not_percent: "unreserved (of_char c) \<Longrightarrow> c \<noteq> CHR ''%''"
  by (auto simp: unreserved_def)

lemma decode_plain: "c \<noteq> CHR ''%'' \<Longrightarrow> decode_uri_component (c # xs) = c # decode_uri_component xs"
  by (cases "c # xs" rule: decode_uri_component.cases) auto

lemma decode_encode_unit:
  "decode_uri_component (encode_unit c @ xs) = c # decode_uri_component xs"
proof -
  have n: "of_char c < (256::nat)"
    using mod_less_divisor [of 256 "of_char c"] by simp
  show ?thesis
  proof (cases "unreserved (of_char c)")
    case True
    then show ?thesis
      using decode_plain [of c] by (simp add: encode_unit_def unreserved_not_percent)
  next
    case False
    show ?thesis
    proof (cases "of_char c < (128::nat)")
      case True
      with False show ?thesis by (simp add: encode_unit_def percent_def Let_def)
    next
      case big: False
      let ?n = "of_char c :: nat"
      have d: "?n div 64 < 4" using n by (intro less_mult_imp_div_less) simp
      have hi: "16 * ((192 + ?n div 64) div 16) + (192 + ?n div 64) mod 16 = 192 + ?n div 64" by simp
      have lo: "16 * ((128 + ?n mod 64) div 16) + (128 + ?n mod 64) mod 16 = 128 + ?n mod 64" by simp
      have b: "(192 + ?n div 64) div 16 < 16" "(128 + ?n mod 64) div 16 < 16"
        using d by linarith+
      have "(192 + ?n div 64 - 192) * 64 + (128 + ?n mod 64 - 128) = ?n" by simp
      with False big b hi lo show ?thesis
        by (simp add: encode_unit_def percent_def Let_def)
    qed
  qed
qed

lemma decode_encode [simp]: "decode_uri_component (encode_uri_component x) = x"
  by (induction x) (simp_all add: encode_uri_component_def decode_encode_unit)

lemma encode_inject [simp]: "encode_uri_component x = encode_uri_component y \<longleftrightarrow> x = y"
  by (metis decode_encode)

section \<open>Ids\<close>

definition run_id :: "string \<Rightarrow> nat \<Rightarrow> string" where
  "run_id threadId ordinal =
     ''run:thread:'' @ encode_uri_component threadId @ '':ordinal:'' @ nat_str ordinal"

definition attempt_id :: "string \<Rightarrow> nat \<Rightarrow> string" where
  "attempt_id runId ordinal = ''attempt:'' @ runId @ '':'' @ nat_str ordinal"

definition lease_owner :: "nat \<Rightarrow> nat \<Rightarrow> string" where
  "lease_owner epoch pid = nat_str epoch @ '':'' @ nat_str pid"

lemma run_id_split: "run_id t n = (''run:thread:'' @ encode_uri_component t @ '':ordinal'') @ CHR '':'' # nat_str n"
  by (simp add: run_id_def)

lemma run_id_inject [simp]: "run_id t n = run_id t' n' \<longleftrightarrow> t = t' \<and> n = n'"
  unfolding run_id_split
  by (subst append_sep_inject) auto

lemma attempt_id_inject [simp]: "attempt_id r n = attempt_id r' n' \<longleftrightarrow> r = r' \<and> n = n'"
proof -
  have "attempt_id r n = (''attempt:'' @ r) @ CHR '':'' # nat_str n" for r n
    by (simp add: attempt_id_def)
  then have "attempt_id r n = attempt_id r' n' \<longleftrightarrow>
      (''attempt:'' @ r) @ CHR '':'' # nat_str n = (''attempt:'' @ r') @ CHR '':'' # nat_str n'"
    by (simp only:)
  then show ?thesis by (subst (asm) append_sep_inject) auto
qed

lemma lease_owner_inject [simp]: "lease_owner e p = lease_owner e' p' \<longleftrightarrow> e = e' \<and> p = p'"
  by (simp add: lease_owner_def append_sep_inject)

section \<open>Access levels and mode ceilings are linear orders\<close>

fun access_rank :: "access_level \<Rightarrow> nat" where
  "access_rank Lineage = 0"
| "access_rank Read = 1"
| "access_rank Manage = 2"

lemma access_rank_inject: "access_rank a = access_rank b \<Longrightarrow> a = b"
  by (cases a; cases b) auto

instantiation access_level :: linorder
begin

definition less_eq_access_level :: "access_level \<Rightarrow> access_level \<Rightarrow> bool" where
  "less_eq_access_level a b \<longleftrightarrow> access_rank a \<le> access_rank b"

definition less_access_level :: "access_level \<Rightarrow> access_level \<Rightarrow> bool" where
  "less_access_level a b \<longleftrightarrow> access_rank a < access_rank b"

instance
  by standard (auto simp: less_eq_access_level_def less_access_level_def access_rank_inject)

end

text \<open>\<open>narrowAgentAccess\<close>: the narrowest of the levels that are present.\<close>

fun narrow_agent_access :: "access_level option list \<Rightarrow> access_level option \<Rightarrow> access_level option" where
  "narrow_agent_access [] narrowest = narrowest"
| "narrow_agent_access (None # ls) narrowest = narrow_agent_access ls narrowest"
| "narrow_agent_access (Some l # ls) narrowest =
     narrow_agent_access ls
       (case narrowest of None \<Rightarrow> Some l | Some m \<Rightarrow> if access_rank l < access_rank m then Some l else Some m)"

lemma narrow_agent_access_Min:
  "narrow_agent_access ls m =
     (let present = set_option m \<union> {l. Some l \<in> set ls} in
      if present = {} then None else Some (Min present))"
proof (induction ls m rule: narrow_agent_access.induct)
  case (1 m)
  then show ?case by (cases m) auto
next
  case (2 ls m)
  then show ?case by simp
next
  case (3 l ls m)
  have fin: "finite {x. Some x \<in> set ls}"
    by (rule finite_subset [of _ "the ` set ls"]) (force simp: image_iff)+
  have eq: "{x. x = l \<or> Some x \<in> set ls} = insert l {x. Some x \<in> set ls}" by auto
  show ?case
  proof (cases m)
    case None
    with 3 eq show ?thesis by (simp add: Let_def)
  next
    case (Some k)
    have n: "min l k = (if access_rank l < access_rank k then l else k)"
      by (auto simp: min_def less_eq_access_level_def access_rank_inject)
    have "Min (insert (min l k) {x. Some x \<in> set ls}) = Min (insert k (insert l {x. Some x \<in> set ls}))"
      using fin by (cases "{x. Some x \<in> set ls} = {}") (simp_all add: ac_simps)
    moreover have "narrow_agent_access (Some l # ls) (Some k) = narrow_agent_access ls (Some (min l k))"
      using n by simp
    moreover have "narrow_agent_access ls (Some (min l k)) =
        Some (Min (insert (min l k) {x. Some x \<in> set ls}))"
      using 3 Some n by (cases "access_rank l < access_rank k") (simp_all add: Let_def)
    ultimately show ?thesis using Some eq by (simp add: Let_def insert_commute del: narrow_agent_access.simps)
  qed
qed

fun narrow_ceiling :: "mode_ceiling option list \<Rightarrow> mode_ceiling option" where
  "narrow_ceiling ceilings =
     (if Some Plan \<in> set ceilings then Some Plan
      else if Some DefaultMode \<in> set ceilings then Some DefaultMode else None)"

end
