(* ===== verification/ApprovalTypes.thy ===== *)
theory ApprovalTypes
  imports RunIds
begin

text \<open>
  Permission modes (\<open>src/shared/permissionMode.ts\<close>) and the data of approval requests and standing rules
  (\<open>src/mms/run/ThreadApprovals.ts\<close>).
\<close>

section \<open>Permission modes\<close>

text \<open>Strictest first.\<close>

datatype permission_mode = ModeAsk | ModeAcceptEdits | ModeAuto | ModeFull

datatype permission_action = ActCommand | ActEdit | ActTool

fun mode_index :: "permission_mode \<Rightarrow> nat" where
  "mode_index ModeAsk = 0"
| "mode_index ModeAcceptEdits = 1"
| "mode_index ModeAuto = 2"
| "mode_index ModeFull = 3"

definition is_stricter :: "permission_mode \<Rightarrow> permission_mode \<Rightarrow> bool" where
  "is_stricter a b \<longleftrightarrow> mode_index a < mode_index b"

text \<open>A fold over the modes given, skipping the absent ones; the default when there is none.\<close>

fun narrow_from :: "permission_mode option \<Rightarrow> permission_mode option list \<Rightarrow> permission_mode" where
  "narrow_from strictest [] = (case strictest of None \<Rightarrow> ModeAcceptEdits | Some m \<Rightarrow> m)"
| "narrow_from strictest (None # ms) = narrow_from strictest ms"
| "narrow_from strictest (Some m # ms) =
     narrow_from (case strictest of None \<Rightarrow> Some m | Some x \<Rightarrow> if is_stricter m x then Some m else Some x) ms"

definition narrow_permission_mode :: "permission_mode option list \<Rightarrow> permission_mode" where
  "narrow_permission_mode modes = narrow_from None modes"

definition permission_mode_allows :: "permission_mode \<Rightarrow> permission_action \<Rightarrow> bool" where
  "permission_mode_allows mode act \<longleftrightarrow>
     mode = ModeFull \<or> (mode = ModeAcceptEdits \<or> mode = ModeAuto) \<and> act = ActEdit"

instantiation permission_mode :: linorder
begin

definition less_eq_permission_mode :: "permission_mode \<Rightarrow> permission_mode \<Rightarrow> bool" where
  "less_eq_permission_mode a b \<longleftrightarrow> mode_index a \<le> mode_index b"

definition less_permission_mode :: "permission_mode \<Rightarrow> permission_mode \<Rightarrow> bool" where
  "less_permission_mode a b \<longleftrightarrow> mode_index a < mode_index b"

instance
proof
  fix a b c :: permission_mode
  show "a \<le> b \<Longrightarrow> b \<le> a \<Longrightarrow> a = b"
    unfolding less_eq_permission_mode_def by (cases a; cases b) simp_all
qed (auto simp: less_eq_permission_mode_def less_permission_mode_def)

end

lemma narrow_from_Min:
  "strictest = Some m \<Longrightarrow> narrow_from strictest ms = Min (insert m (set (somes ms)))"
proof (induction ms arbitrary: strictest m)
  case (Cons a ms)
  show ?case
  proof (cases a)
    case (Some x)
    let ?y = "if is_stricter x m then x else m"
    have "is_stricter x m \<longleftrightarrow> x < m" by (simp add: is_stricter_def less_permission_mode_def)
    then have y: "?y = min x m" by (auto simp: min_def)
    have "narrow_from strictest (a # ms) = Min (insert ?y (set (somes ms)))"
      using Cons Some by simp
    also have "\<dots> = Min (insert m (set (somes (a # ms))))"
      unfolding y using Some by (cases "set (somes ms) = {}") (simp_all add: somes_def map_filter_simps min.assoc min.commute min.left_commute)
    finally show ?thesis .
  qed (use Cons in \<open>simp add: somes_def map_filter_simps\<close>)
qed (simp add: somes_def map_filter_simps)

section \<open>Requests\<close>

datatype approval_decision = DAllow | DReject

datatype approval_scope = ScopeOnce | ScopeAlways

datatype answer_path = PathLive | PathContinue

record approval_option =
  ao_id :: string
  ao_label :: string
  ao_decision :: approval_decision
  ao_scope :: "approval_scope option"

record approval_question =
  aq_id :: string
  aq_prompt :: string
  aq_options :: "approval_option list"
  aq_allowMultiple :: bool

text \<open>\<open>Record<string, string | string[]>\<close>: distinct keys in insertion order.\<close>

datatype answer_value = OneAnswer string | ManyAnswers "string list"

type_synonym answers = "(string \<times> answer_value) list"

datatype client_kind = ViaGui | ViaCli | ViaBridge | ViaInternal

datatype answered_by =
    AnsweredUser (ab_via: "client_kind option") (ab_node: "string option")
  | AnsweredAgent (ab_threadId: string) (ab_runId: string) (ab_toolCallId: "string option")

datatype approval_status = PPending | PAnswered | PCancelled

text \<open>A row of \<open>approval_requests\<close>.\<close>

record approval_row =
  ap_requestId :: string
  ap_threadId :: string
  ap_runId :: "string option"
  ap_instanceId :: string
  ap_provider :: string
  ap_action :: permission_action
  ap_permissionKey :: string
  ap_fingerprint :: "string option"
  ap_questions :: "approval_question list"
  ap_reason :: "string option"
  ap_permissionMode :: "permission_mode option"
  ap_answerPath :: answer_path
  ap_uncertain :: bool
  ap_uncertainTools :: "string list option"
  ap_status :: approval_status
  ap_answers :: "answers option"
  ap_decision :: "approval_decision option"
  ap_decisionScope :: "approval_scope option"
  ap_feedback :: "string option"
  ap_answeredBy :: "answered_by option"
  ap_cancelReason :: "string option"
  ap_continuationRunId :: "string option"
  ap_grantConsumedAt :: "nat option"
  ap_deliveredAt :: "nat option"
  ap_createdAt :: nat
  ap_settledAt :: "nat option"

text \<open>A row of \<open>approval_rules\<close>: a standing "Always for this thread".\<close>

record approval_rule =
  ru_threadId :: string
  ru_fingerprint :: string
  ru_permissionKey :: string
  ru_action :: permission_action
  ru_summary :: string
  ru_grantedUnder :: permission_mode
  ru_sourceRequestId :: "string option"
  ru_createdAt :: nat

end
