(* ===== verification/RunState.thy ===== *)
theory RunState
  imports ApprovalTypes
begin

text \<open>
  The state of the run database (\<open>src/mms/run/db\<close>, \<open>RunStore.ts\<close>): one list of rows per
  table, in \<open>rowid\<close> order, the clock, the supply of random ids, the in-memory settle queue of the
  \<open>RunStore\<close> and the two callbacks a host installs on it. \<open>appendEvent\<close> is here because every
  component appends to the event log; the tables are interpretations of \<open>keyed_table\<close>.
\<close>

datatype inbox_change = ChangeStatus | ChangePayload

datatype event_payload =
    EvRun run_record
  | EvAttempt attempt_record
  | EvEffect effect_record
  | EvInbox inbox_record inbox_change
  | EvDelegation delegation_record
  | EvLineage lineage_record
  | EvTransfer transfer_record
  | EvTool tool_invocation
  | EvResult string string
  | EvJson json

record thread_event =
  ev_seq :: nat
  ev_threadId :: string
  ev_runId :: "string option"
  ev_type :: string
  ev_payload :: event_payload
  ev_createdAt :: nat

record store =
  clock :: nat
  uuids :: "nat \<Rightarrow> string"
  next_uuid :: nat
  runs :: "run_record list"
  attempts :: "attempt_record list"
  receipts :: "receipt_record list"
  events :: "thread_event list"
  next_seq :: nat
  effects :: "effect_record list"
  inbox :: "inbox_record list"
  delegations :: "delegation_record list"
  lineage :: "lineage_record list"
  approvals :: "approval_row list"
  approval_rules :: "approval_rule list"
  transfers :: "transfer_record list"
  tools :: "tool_invocation list"
  epochs :: "daemon_epoch list"
  stop_generations :: "(string \<times> nat) list"
  settle_queue :: "string list"
  provider_background :: "string \<Rightarrow> bool option"
  unread_steers :: "string \<Rightarrow> bool option"

text \<open>
  \<open>provider_background\<close> and \<open>unread_steers\<close> are the host's callbacks: \<open>None\<close> is a
  callback that throws.
\<close>

definition empty_store :: "nat \<Rightarrow> (nat \<Rightarrow> string) \<Rightarrow> store" where
  "empty_store now uuid = \<lparr>clock = now, uuids = uuid, next_uuid = 0, runs = [], attempts = [],
     receipts = [], events = [], next_seq = 1, effects = [], inbox = [], delegations = [],
     lineage = [], approvals = [], approval_rules = [], transfers = [], tools = [], epochs = [], stop_generations = [],
     settle_queue = [], provider_background = (\<lambda>_. Some False), unread_steers = (\<lambda>_. Some False)\<rparr>"

type_synonym 'a run_txn = "(store_error, store, 'a) txn"

section \<open>The tables\<close>

interpretation runs_table: keyed_table runs runs_update rr_runId
  by unfold_locales simp

interpretation attempts_table: keyed_table attempts attempts_update at_attemptId
  by unfold_locales simp

interpretation receipts_table: keyed_table receipts receipts_update rc_clientRequestId
  by unfold_locales simp

interpretation effects_table: keyed_table effects effects_update ef_effectId
  by unfold_locales simp

interpretation inbox_table: keyed_table inbox inbox_update ib_inboxId
  by unfold_locales simp

interpretation delegations_table: keyed_table delegations delegations_update dg_delegationId
  by unfold_locales simp

interpretation lineage_table: keyed_table lineage lineage_update ln_threadId
  by unfold_locales simp

interpretation transfers_table: keyed_table transfers transfers_update tr_transferId
  by unfold_locales simp

interpretation tools_table: keyed_table tools tools_update ti_invocationId
  by unfold_locales simp

definition get_run :: "string \<Rightarrow> store \<Rightarrow> run_record option" where
  "get_run runId s = lookup_row rr_runId runId (runs s)"

definition get_attempt :: "string \<Rightarrow> store \<Rightarrow> attempt_record option" where
  "get_attempt attemptId s = lookup_row at_attemptId attemptId (attempts s)"

definition get_receipt :: "string \<Rightarrow> store \<Rightarrow> receipt_record option" where
  "get_receipt clientRequestId s = lookup_row rc_clientRequestId clientRequestId (receipts s)"

definition get_effect :: "string \<Rightarrow> store \<Rightarrow> effect_record option" where
  "get_effect effectId s = lookup_row ef_effectId effectId (effects s)"

definition get_inbox :: "string \<Rightarrow> store \<Rightarrow> inbox_record option" where
  "get_inbox inboxId s = lookup_row ib_inboxId inboxId (inbox s)"

definition get_delegation :: "string \<Rightarrow> store \<Rightarrow> delegation_record option" where
  "get_delegation delegationId s = lookup_row dg_delegationId delegationId (delegations s)"

definition get_lineage :: "string \<Rightarrow> store \<Rightarrow> lineage_record option" where
  "get_lineage threadId s = lookup_row ln_threadId threadId (lineage s)"

lemmas get_defs = get_run_def get_attempt_def get_receipt_def get_effect_def get_inbox_def
  get_delegation_def get_lineage_def

section \<open>The event log\<close>

text \<open>
  Listeners are told after the commit and cannot undo it; the appended row is what they see.
\<close>

definition append_event :: "string \<Rightarrow> string option \<Rightarrow> string \<Rightarrow> event_payload \<Rightarrow> store \<Rightarrow> store" where
  "append_event threadId runId type payload s =
     s\<lparr>events := events s @ [\<lparr>ev_seq = next_seq s, ev_threadId = threadId, ev_runId = runId,
          ev_type = type, ev_payload = payload, ev_createdAt = clock s\<rparr>],
       next_seq := Suc (next_seq s)\<rparr>"

lemma append_event_frame [simp, frame]:
  "clock (append_event t r ty p s) = clock s"
  "uuids (append_event t r ty p s) = uuids s"
  "next_uuid (append_event t r ty p s) = next_uuid s"
  "runs (append_event t r ty p s) = runs s"
  "attempts (append_event t r ty p s) = attempts s"
  "receipts (append_event t r ty p s) = receipts s"
  "effects (append_event t r ty p s) = effects s"
  "inbox (append_event t r ty p s) = inbox s"
  "delegations (append_event t r ty p s) = delegations s"
  "lineage (append_event t r ty p s) = lineage s"
  "approvals (append_event t r ty p s) = approvals s"
  "approval_rules (append_event t r ty p s) = approval_rules s"
  "transfers (append_event t r ty p s) = transfers s"
  "tools (append_event t r ty p s) = tools s"
  "epochs (append_event t r ty p s) = epochs s"
  "stop_generations (append_event t r ty p s) = stop_generations s"
  "settle_queue (append_event t r ty p s) = settle_queue s"
  "provider_background (append_event t r ty p s) = provider_background s"
  "unread_steers (append_event t r ty p s) = unread_steers s"
  by (simp_all add: append_event_def)

text \<open>The event log as an abstract append-only sequence.\<close>

definition log_ok :: "store \<Rightarrow> bool" where
  "log_ok s \<longleftrightarrow> sorted_wrt (<) (map ev_seq (events s)) \<and> (\<forall>e \<in> set (events s). ev_seq e < next_seq s)"

lemma log_ok_append_event: "log_ok s \<Longrightarrow> log_ok (append_event t r ty p s)"
  by (auto simp: log_ok_def append_event_def sorted_wrt_append less_SucI)

lemma events_append_event_prefix: "\<exists>e. events (append_event t r ty p s) = events s @ [e]"
  by (simp add: append_event_def)

section \<open>Host callbacks\<close>

definition provider_background_work :: "string \<Rightarrow> store \<Rightarrow> bool" where
  "provider_background_work threadId s = (provider_background s threadId = Some True)"

definition has_unread_steers :: "string \<Rightarrow> store \<Rightarrow> bool" where
  "has_unread_steers threadId s = (unread_steers s threadId = Some True)"

section \<open>Ordering and limits of queries\<close>

text \<open>\<open>ORDER BY created_at, rowid\<close>: a stable sort of rows kept in \<open>rowid\<close> order.\<close>

definition by_created :: "('r \<Rightarrow> nat) \<Rightarrow> 'r list \<Rightarrow> 'r list" where
  "by_created created rows = sort_key created rows"

lemma set_by_created [simp]: "set (by_created c rows) = set rows"
  by (simp add: by_created_def)

text \<open>\<open>limit\<close>: \<open>None\<close> is no limit; a limit below 1 is refused.\<close>

definition row_limit :: "int option \<Rightarrow> store_error + nat option" where
  "row_limit value = (case value of None \<Rightarrow> Inr None
     | Some n \<Rightarrow> if n < 1 \<or> n > 9007199254740991 then Inl BadRequest else Inr (Some (nat n)))"

definition take_limit :: "nat option \<Rightarrow> 'a list \<Rightarrow> 'a list" where
  "take_limit n rows = (case n of None \<Rightarrow> rows | Some k \<Rightarrow> take k rows)"

end
