(* ===== verification/StatusTables.thy ===== *)
theory StatusTables
  imports RunTypes
begin

text \<open>
  The \<open>TRANSITIONS\<close> tables of the run engine (\<open>Inbox.ts\<close>, \<open>Delegations.ts\<close>,
  \<open>handoff/Transfers.ts\<close>) and of the tool ledger, as instances of two interfaces: a status
  table whose final statuses allow no move, and a ranked one in which every move makes progress.
\<close>

section \<open>The interfaces\<close>

definition moves_to :: "('st \<Rightarrow> 'st list) \<Rightarrow> 'st \<Rightarrow> 'st \<Rightarrow> bool" where
  "moves_to moves a b \<longleftrightarrow> (\<lambda>x y. y \<in> set (moves x))\<^sup>*\<^sup>* a b"

lemma moves_to_refl [simp, intro]: "moves_to moves a a"
  by (simp add: moves_to_def)

lemma moves_to_step: "moves_to moves a b \<Longrightarrow> c \<in> set (moves b) \<Longrightarrow> moves_to moves a c"
  unfolding moves_to_def by (rule rtranclp.rtrancl_into_rtrancl)

lemma moves_to_trans: "moves_to moves a b \<Longrightarrow> moves_to moves b c \<Longrightarrow> moves_to moves a c"
  unfolding moves_to_def by (rule rtranclp_trans)

locale status_table =
  fixes moves :: "'st \<Rightarrow> 'st list"
    and final :: "'st \<Rightarrow> bool"
  assumes final_no_moves: "final s \<Longrightarrow> moves s = []"
begin

lemma final_stays: "moves_to moves s s' \<Longrightarrow> final s \<Longrightarrow> s' = s"
  unfolding moves_to_def by (induction rule: rtranclp_induct) (auto simp: final_no_moves)

lemma move_not_final: "s' \<in> set (moves s) \<Longrightarrow> \<not> final s"
  using final_no_moves by fastforce

end

locale ranked_table = status_table moves final for moves :: "'st \<Rightarrow> 'st list" and final +
  fixes rank :: "'st \<Rightarrow> nat"
  assumes move_lowers: "s' \<in> set (moves s) \<Longrightarrow> rank s' < rank s"
begin

lemma moves_lower: "moves_to moves s s' \<Longrightarrow> s' \<noteq> s \<Longrightarrow> rank s' < rank s"
  unfolding moves_to_def
proof (induction rule: rtranclp_induct)
  case (step y z)
  then show ?case using move_lowers [of z y] by (cases "y = s") auto
qed simp

lemma no_return: "moves_to moves s s' \<Longrightarrow> moves_to moves s' s \<Longrightarrow> s' = s"
  using moves_lower [of s s'] moves_lower [of s' s] by (cases "s' = s") auto

end

section \<open>The tables\<close>

fun inbox_moves :: "inbox_status \<Rightarrow> inbox_status list" where
  "inbox_moves IPending = [IDelivered, IAcknowledged]"
| "inbox_moves IDelivered = [IAcknowledged, IPending]"
| "inbox_moves IAcknowledged = []"

interpretation inbox_moves: status_table inbox_moves "\<lambda>st. st = IAcknowledged"
  by unfold_locales simp

fun delegation_moves :: "delegation_status \<Rightarrow> delegation_status list" where
  "delegation_moves DRunning = [DResultAvailable, DCancelled, DFailed]"
| "delegation_moves DResultAvailable = [DAcknowledged, DCancelled]"
| "delegation_moves DAcknowledged = []"
| "delegation_moves DCancelled = []"
| "delegation_moves DFailed = [DAcknowledged]"

fun delegation_rank :: "delegation_status \<Rightarrow> nat" where
  "delegation_rank DRunning = 2"
| "delegation_rank DResultAvailable = 1"
| "delegation_rank DFailed = 1"
| "delegation_rank DAcknowledged = 0"
| "delegation_rank DCancelled = 0"

interpretation delegation_moves: ranked_table delegation_moves
  "\<lambda>st. st = DAcknowledged \<or> st = DCancelled" delegation_rank
proof unfold_locales
  fix s s' assume "s' \<in> set (delegation_moves s)"
  then show "delegation_rank s' < delegation_rank s" by (cases s) auto
qed auto

fun transfer_moves :: "transfer_status \<Rightarrow> transfer_status list" where
  "transfer_moves XPending = [XConsumed, XSuperseded, XFailed]"
| "transfer_moves XConsumed = []"
| "transfer_moves XSuperseded = []"
| "transfer_moves XFailed = []"

interpretation transfer_moves: ranked_table transfer_moves
  "\<lambda>st. st \<noteq> XPending" "\<lambda>st. if st = XPending then 1 else 0"
proof unfold_locales
  fix s s' assume "s' \<in> set (transfer_moves s)"
  then show "(if s' = XPending then 1 else 0) < (if s = XPending then 1 else (0::nat))" by (cases s) auto
next
  fix s assume "s \<noteq> XPending"
  then show "transfer_moves s = []" by (cases s) auto
qed

end
