(* ===== verification/InboxBase.thy ===== *)
theory InboxBase
  imports RunState StatusTables
begin

text \<open>
  The part of \<open>src/mms/run/Inbox.ts\<close> that never re-evaluates the hold of a waiting task:
  appending a row, reading rows, and counting how often a row has been pending.
\<close>

definition distinct_first :: "'a list \<Rightarrow> 'a list" where
  "distinct_first xs = rev (remdups (rev xs))"

lemma set_distinct_first [simp]: "set (distinct_first xs) = set xs"
  by (simp add: distinct_first_def)

section \<open>Writing\<close>

definition inbox_recorded :: "inbox_record \<Rightarrow> inbox_change \<Rightarrow> store \<Rightarrow> store" where
  "inbox_recorded record change s =
     append_event (ib_threadId record) (ib_runId record) ''inbox.status'' (EvInbox record change) s"

definition inbox_append ::
  "string \<Rightarrow> string option \<Rightarrow> inbox_kind \<Rightarrow> json \<Rightarrow> string option \<Rightarrow> inbox_record run_txn" where
  "inbox_append threadId runId kind payload inboxId s =
     (let id = (case inboxId of Some i \<Rightarrow> i | None \<Rightarrow> ''inbox:'' @ uuids s (next_uuid s));
          s1 = (case inboxId of Some i \<Rightarrow> s | None \<Rightarrow> s\<lparr>next_uuid := Suc (next_uuid s)\<rparr>);
          record = \<lparr>ib_inboxId = id, ib_threadId = threadId, ib_runId = runId, ib_kind = kind,
            ib_payload = stored payload, ib_status = IPending, ib_createdAt = clock s,
            ib_deliveredBy = None\<rparr>
      in if get_inbox id s \<noteq> None then Inl Conflict
         else Inr (record, inbox_recorded record ChangeStatus (s1\<lparr>inbox := inbox s1 @ [record]\<rparr>)))"

section \<open>Reading\<close>

definition get_many :: "string list \<Rightarrow> store \<Rightarrow> inbox_record list" where
  "get_many ids s = List.map_filter (\<lambda>id. get_inbox id s) ids"

definition list_by_status :: "string \<Rightarrow> inbox_status \<Rightarrow> store \<Rightarrow> inbox_record list" where
  "list_by_status threadId status s =
     by_created ib_createdAt (filter (\<lambda>r. ib_threadId r = threadId \<and> ib_status r = status) (inbox s))"

definition list_pending :: "string \<Rightarrow> store \<Rightarrow> inbox_record list" where
  "list_pending threadId s = list_by_status threadId IPending s"

definition list_for_thread :: "string \<Rightarrow> store \<Rightarrow> inbox_record list" where
  "list_for_thread threadId s = by_created ib_createdAt (filter (\<lambda>r. ib_threadId r = threadId) (inbox s))"

definition list_threads_with_pending :: "store \<Rightarrow> string list" where
  "list_threads_with_pending s =
     distinct_first (map ib_threadId (filter (\<lambda>r. ib_status r = IPending) (inbox s)))"

definition list_for_delegation :: "string \<Rightarrow> store \<Rightarrow> inbox_record list" where
  "list_for_delegation delegationId s =
     by_created ib_createdAt (filter (\<lambda>r. ib_kind r = ChildResult \<and>
       jfield (ib_payload r) ''delegationId'' = Some (JStr delegationId)) (inbox s))"

datatype child_row_kind = ChildResults | ChildQuestions

definition list_for_child_thread :: "string \<Rightarrow> child_row_kind option \<Rightarrow> store \<Rightarrow> inbox_record list" where
  "list_for_child_thread childThreadId kind s =
     by_created ib_createdAt (filter (\<lambda>r.
       jfield (ib_payload r) ''childThreadId'' = Some (JStr childThreadId) \<and>
       (case kind of Some ChildResults \<Rightarrow> ib_kind r = ChildResult
        | Some ChildQuestions \<Rightarrow> is_child_question_row r
        | None \<Rightarrow> ib_kind r = ChildResult \<or> is_child_question_row r)) (inbox s))"

definition list_open_child_questions :: "store \<Rightarrow> inbox_record list" where
  "list_open_child_questions s =
     by_created ib_createdAt (filter (\<lambda>r. is_child_question_row r \<and> ib_status r \<noteq> IAcknowledged) (inbox s))"

definition list_delivered_by_run :: "string \<Rightarrow> store \<Rightarrow> inbox_record list" where
  "list_delivered_by_run runId s =
     by_created ib_createdAt (filter (\<lambda>r. ib_status r = IDelivered \<and>
       (case ib_deliveredBy r of None \<Rightarrow> False | Some by \<Rightarrow>
          (case get_effect by s of None \<Rightarrow> False | Some e \<Rightarrow>
             ef_runId e = Some runId \<and>
             (ef_kind e \<noteq> TurnSteer \<or> jfield (ib_payload r) ''steerTakenBy'' = Some (JStr by))))) (inbox s))"

text \<open>\<open>LIKE 'queue:%'\<close> ignores the case of ASCII letters.\<close>

definition ascii_lower :: "char \<Rightarrow> char" where
  "ascii_lower c = (let n = of_char c in if 65 \<le> n \<and> n \<le> (90::nat) then char_of (n + 32) else c)"

definition is_queue_delivery :: "string \<Rightarrow> bool" where
  "is_queue_delivery x \<longleftrightarrow> take 6 (map ascii_lower x) = ''queue:''"

definition list_delivered_by_queue :: "store \<Rightarrow> inbox_record list" where
  "list_delivered_by_queue s =
     by_created ib_createdAt (filter (\<lambda>r. ib_status r = IDelivered \<and>
       (case ib_deliveredBy r of None \<Rightarrow> False | Some by \<Rightarrow> is_queue_delivery by)) (inbox s))"

definition list_delivered_with_effect :: "store \<Rightarrow> inbox_record list" where
  "list_delivered_with_effect s =
     by_created ib_createdAt (filter (\<lambda>r. ib_status r = IDelivered \<and> ib_deliveredBy r \<noteq> None) (inbox s))"

fun is_pending_event :: "string \<Rightarrow> event_payload \<Rightarrow> bool" where
  "is_pending_event inboxId (EvInbox r ChangeStatus) = (ib_inboxId r = inboxId \<and> ib_status r = IPending)"
| "is_pending_event inboxId _ = False"

definition pending_events :: "string \<Rightarrow> string \<Rightarrow> store \<Rightarrow> nat" where
  "pending_events inboxId threadId s = length (filter (\<lambda>e. ev_threadId e = threadId \<and>
     ev_type e = ''inbox.status'' \<and> is_pending_event inboxId (ev_payload e)) (events s))"

definition releases :: "json \<Rightarrow> int" where
  "releases payload = jnum (jfield payload ''releases'')"

definition pending_count :: "string \<Rightarrow> string \<Rightarrow> store \<Rightarrow> int" where
  "pending_count inboxId threadId s =
     int (pending_events inboxId threadId s) -
     (case get_inbox inboxId s of None \<Rightarrow> 0 | Some r \<Rightarrow> releases (ib_payload r))"

section \<open>Laws\<close>

lemma inbox_append_Inr:
  assumes "inbox_append t r k p i s = Inr (row, s')"
  shows "inbox s' = inbox s @ [row]" "ib_threadId row = t" "ib_status row = IPending"
    "ib_kind row = k" "ib_payload row = stored p" "get_inbox (ib_inboxId row) s = None"
    "ib_deliveredBy row = None" "ib_runId row = r"
  using assms by (auto simp: inbox_append_def inbox_recorded_def Let_def split: if_splits option.splits)

lemma inbox_append_frame [frame]:
  assumes "inbox_append t r k p i s = Inr (row, s')"
  shows "clock s' = clock s" "uuids s' = uuids s" "runs s' = runs s" "attempts s' = attempts s"
    "effects s' = effects s" "delegations s' = delegations s" "lineage s' = lineage s"
    "settle_queue s' = settle_queue s" "provider_background s' = provider_background s"
    "unread_steers s' = unread_steers s" "approvals s' = approvals s" "next_uuid s \<le> next_uuid s'"
    "stop_generations s' = stop_generations s"
  using assms by (auto simp: inbox_append_def inbox_recorded_def Let_def split: if_splits option.splits)

text \<open>The random ids still to come are not in use.\<close>

definition fresh_uuids :: "store \<Rightarrow> bool" where
  "fresh_uuids s \<longleftrightarrow> inj (uuids s) \<and>
     (\<forall>n r. next_uuid s \<le> n \<longrightarrow> r \<in> set (inbox s) \<longrightarrow> ib_inboxId r \<noteq> ''inbox:'' @ uuids s n)"

lemma inbox_append_fresh:
  assumes "fresh_uuids s"
  shows "\<exists>row s'. inbox_append t r k p None s = Inr (row, s') \<and> fresh_uuids s'"
proof -
  have free: "get_inbox (''inbox:'' @ uuids s (next_uuid s)) s = None"
    using assms by (auto simp: fresh_uuids_def get_inbox_def lookup_row_None)
  have "fresh_uuids s'" if run: "inbox_append t r k p None s = Inr (row, s')" for row s'
  proof -
    let ?id = "\<lambda>n. ''inbox:'' @ uuids s n"
    from run have new: "inbox s' = inbox s @ [row]" "ib_inboxId row = ?id (next_uuid s)"
        "next_uuid s' = Suc (next_uuid s)" "uuids s' = uuids s"
      by (auto simp: inbox_append_def inbox_recorded_def Let_def split: if_splits)
    have "inj (uuids s)" using assms by (simp add: fresh_uuids_def)
    then have "?id (next_uuid s) \<noteq> ?id n" if "Suc (next_uuid s) \<le> n" for n
      using that by (simp add: inj_eq)
    then show ?thesis
      using assms new by (auto simp: fresh_uuids_def)
  qed
  then show ?thesis using free by (auto simp: inbox_append_def Let_def)
qed

end
