(* ===== verification/RunStore.thy ===== *)
theory RunStore
  imports RunState "HOL-Library.Product_Lexorder"
begin

text \<open>
  \<open>src/mms/run/RunStore.ts\<close> and \<open>stopGeneration.ts\<close>: runs, attempts, receipts and thread
  events. Every mutation is a transaction; a run's status moves by compare-and-set on its epoch
  and a terminal status is final. \<open>runs_ok\<close> is the invariant of the \<open>runs\<close> table, \<open>run_evolves\<close>
  what one operation may do to the run stored under an id.
\<close>

section \<open>Stop generations\<close>

definition current_stop_generation :: "string \<Rightarrow> store \<Rightarrow> nat" where
  "current_stop_generation threadId s =
     (case map_of (stop_generations s) threadId of None \<Rightarrow> 0 | Some g \<Rightarrow> g)"

fun bump_stop_generations :: "string list \<Rightarrow> store \<Rightarrow> (string \<times> nat) list \<times> store" where
  "bump_stop_generations [] s = ([], s)"
| "bump_stop_generations (threadId # threadIds) s =
     (let g = Suc (current_stop_generation threadId s);
          s1 = s\<lparr>stop_generations := AList.update threadId g (stop_generations s)\<rparr>;
          (bumped, s2) = bump_stop_generations threadIds s1
      in (if threadId \<in> set threadIds then bumped else (threadId, g) # bumped, s2))"

definition run_stop_generation :: "string \<Rightarrow> store \<Rightarrow> nat" where
  "run_stop_generation runId s = (case get_run runId s of None \<Rightarrow> 0 | Some r \<Rightarrow> rr_stopGeneration r)"

definition is_run_admission_stale :: "string \<Rightarrow> store \<Rightarrow> bool" where
  "is_run_admission_stale runId s = (case get_run runId s of None \<Rightarrow> False
     | Some r \<Rightarrow> rr_stopGeneration r < current_stop_generation (rr_threadId r) s)"

section \<open>Runs\<close>

definition max_nat :: "nat list \<Rightarrow> nat" where
  "max_nat ns = foldr max ns 0"

record run_input =
  ri_threadId :: string
  ri_source :: string
  ri_clientRequestId :: "string option"
  ri_userMessageId :: "string option"
  ri_requestedAt :: "nat option"
  ri_outcome :: "run_outcome option"

definition create_run :: "run_input \<Rightarrow> run_record run_txn" where
  "create_run input s =
     (let ordinal = max_nat (map rr_ordinal (filter (\<lambda>r. rr_threadId r = ri_threadId input) (runs s))) + 1;
          record = \<lparr>rr_runId = run_id (ri_threadId input) ordinal, rr_threadId = ri_threadId input,
            rr_ordinal = ordinal, rr_status = RQueued, rr_epoch = 0, rr_activeAttemptId = None,
            rr_source = ri_source input, rr_clientRequestId = ri_clientRequestId input,
            rr_userMessageId = ri_userMessageId input,
            rr_requestedAt = (case ri_requestedAt input of None \<Rightarrow> clock s | Some at \<Rightarrow> at),
            rr_startedAt = None, rr_completedAt = None, rr_outcome = ri_outcome input,
            rr_heartbeatAt = None, rr_accessGrant = None,
            rr_stopGeneration = current_stop_generation (ri_threadId input) s\<rparr>
      in if \<exists>r \<in> set (runs s). rr_runId r = rr_runId record \<or>
              (rr_threadId r = rr_threadId record \<and> rr_ordinal r = rr_ordinal record)
         then Inl Conflict
         else Inr (record, append_event (rr_threadId record) (Some (rr_runId record)) ''run.created'' (EvRun record)
                (s\<lparr>runs := runs s @ [record]\<rparr>)))"

definition create_attempt :: "string \<Rightarrow> attempt_reason \<Rightarrow> attempt_record run_txn" where
  "create_attempt runId reason s =
     (case get_run runId s of
        None \<Rightarrow> Inl BadRequest
      | Some run \<Rightarrow>
          if terminal_run (rr_status run) then Inl BadRequest
          else
            let ordinal = max_nat (map at_ordinal (filter (\<lambda>a. at_runId a = rr_runId run) (attempts s))) + 1;
                record = \<lparr>at_attemptId = attempt_id (rr_runId run) ordinal, at_runId = rr_runId run,
                  at_ordinal = ordinal, at_reason = reason, at_status = APending,
                  at_providerRef = None, at_executionBinding = None,
                  at_startedAt = None, at_completedAt = None\<rparr>
            in if \<exists>a \<in> set (attempts s). at_attemptId a = at_attemptId record \<or>
                    (at_runId a = at_runId record \<and> at_ordinal a = at_ordinal record)
               then Inl Conflict
               else Inr (record, append_event (rr_threadId run) (Some (rr_runId run)) ''attempt.created'' (EvAttempt record)
                      (s\<lparr>attempts := attempts s @ [record],
                         runs := update_rows (\<lambda>r. rr_runId r = rr_runId run)
                                   (\<lambda>r. r\<lparr>rr_activeAttemptId := Some (at_attemptId record)\<rparr>) (runs s)\<rparr>)))"

text \<open>\<open>RunPatch\<close>: an outer \<open>None\<close> is an absent member.\<close>

record run_patch =
  rp_startedAt :: "nat option option"
  rp_completedAt :: "nat option option"
  rp_outcome :: "run_outcome option option"
  rp_activeAttemptId :: "string option option"
  rp_userMessageId :: "string option option"

definition no_patch :: run_patch where
  "no_patch = \<lparr>rp_startedAt = None, rp_completedAt = None, rp_outcome = None,
     rp_activeAttemptId = None, rp_userMessageId = None\<rparr>"

definition patched :: "'a option \<Rightarrow> 'a \<Rightarrow> 'a" where
  "patched p old = (case p of None \<Rightarrow> old | Some new \<Rightarrow> new)"

definition safe_int :: "int \<Rightarrow> bool" where
  "safe_int n \<longleftrightarrow> \<bar>n\<bar> \<le> 9007199254740991"

definition require_cas_target :: "string \<Rightarrow> int \<Rightarrow> store \<Rightarrow> store_error + run_record" where
  "require_cas_target runId expectedEpoch s =
     (if \<not> safe_int expectedEpoch \<or> expectedEpoch < 0 then Inl BadRequest
      else case get_run runId s of
        None \<Rightarrow> Inl BadRequest
      | Some current \<Rightarrow>
          if int (rr_epoch current) \<noteq> expectedEpoch then Inl StaleWrite
          else if terminal_run (rr_status current) then Inl BadRequest
          else Inr current)"

definition cas_set :: "run_record \<Rightarrow> run_record \<Rightarrow> run_record" where
  "cas_set next r = r\<lparr>rr_status := rr_status next, rr_epoch := Suc (rr_epoch r),
     rr_activeAttemptId := rr_activeAttemptId next, rr_userMessageId := rr_userMessageId next,
     rr_startedAt := rr_startedAt next, rr_completedAt := rr_completedAt next,
     rr_outcome := rr_outcome next\<rparr>"

definition write_cas :: "run_record \<Rightarrow> int \<Rightarrow> run_record run_txn" where
  "write_cas next expectedEpoch s =
     (let P = (\<lambda>r. rr_runId r = rr_runId next \<and> int (rr_epoch r) = expectedEpoch) in
      if changes P (runs s) \<noteq> 1 then Inl StaleWrite
      else Inr (next, append_event (rr_threadId next) (Some (rr_runId next)) ''run.status'' (EvRun next)
             (s\<lparr>runs := update_rows P (cas_set next) (runs s)\<rparr>)))"

definition cas_run_status :: "string \<Rightarrow> int \<Rightarrow> run_status \<Rightarrow> run_patch \<Rightarrow> run_record run_txn" where
  "cas_run_status runId expectedEpoch status patch s =
     (case require_cas_target runId expectedEpoch s of
        Inl e \<Rightarrow> Inl e
      | Inr current \<Rightarrow>
          write_cas (current\<lparr>rr_status := status, rr_epoch := Suc (rr_epoch current),
              rr_startedAt := patched (rp_startedAt patch) (rr_startedAt current),
              rr_completedAt := patched (rp_completedAt patch) (rr_completedAt current),
              rr_outcome := patched (rp_outcome patch) (rr_outcome current),
              rr_activeAttemptId := patched (rp_activeAttemptId patch) (rr_activeAttemptId current),
              rr_userMessageId := patched (rp_userMessageId patch) (rr_userMessageId current)\<rparr>)
            expectedEpoch s)"

definition cas_run_outcome :: "string \<Rightarrow> int \<Rightarrow> run_outcome \<Rightarrow> run_record run_txn" where
  "cas_run_outcome runId expectedEpoch outcomePatch s =
     (case require_cas_target runId expectedEpoch s of
        Inl e \<Rightarrow> Inl e
      | Inr current \<Rightarrow>
          write_cas (current\<lparr>rr_epoch := Suc (rr_epoch current),
              rr_outcome := Some (merge_outcome (the_outcome (rr_outcome current)) outcomePatch)\<rparr>)
            expectedEpoch s)"

definition set_run_access_grant :: "string \<Rightarrow> access_level \<Rightarrow> store \<Rightarrow> access_level option \<times> store" where
  "set_run_access_grant runId level s =
     (case get_run runId s of
        None \<Rightarrow> (None, s)
      | Some row \<Rightarrow>
          let next = (case narrow_agent_access [rr_accessGrant row, Some level] None of
                        None \<Rightarrow> Lineage | Some l \<Rightarrow> l)
          in (Some next,
              if rr_accessGrant row \<noteq> Some next
              then s\<lparr>runs := update_rows (\<lambda>r. rr_runId r = runId) (\<lambda>r. r\<lparr>rr_accessGrant := Some next\<rparr>) (runs s)\<rparr>
              else s))"

definition touch_heartbeat :: "string \<Rightarrow> nat \<Rightarrow> store \<Rightarrow> bool \<times> store" where
  "touch_heartbeat runId now s =
     (let P = (\<lambda>r. rr_runId r = runId \<and> \<not> terminal_run (rr_status r)) in
      (changes P (runs s) = 1, s\<lparr>runs := update_rows P (\<lambda>r. r\<lparr>rr_heartbeatAt := Some now\<rparr>) (runs s)\<rparr>))"

section \<open>Queries on runs\<close>

definition active_status :: "run_status \<Rightarrow> bool" where
  "active_status st \<longleftrightarrow> st = RStarting \<or> st = RRunning \<or> st = RFinalizing"

text \<open>\<open>ORDER BY ordinal LIMIT 2\<close>: more than one such run is an invariant violation.\<close>

definition only_run :: "(run_record \<Rightarrow> bool) \<Rightarrow> string \<Rightarrow> store \<Rightarrow> store_error + run_record option" where
  "only_run P threadId s =
     (case take 2 (sort_key rr_ordinal (filter (\<lambda>r. rr_threadId r = threadId \<and> P r) (runs s))) of
        [] \<Rightarrow> Inr None
      | [r] \<Rightarrow> Inr (Some r)
      | _ \<Rightarrow> Inl Conflict)"

definition get_active_run :: "string \<Rightarrow> store \<Rightarrow> store_error + run_record option" where
  "get_active_run threadId s = only_run (\<lambda>r. active_status (rr_status r)) threadId s"

definition get_paused_run :: "string \<Rightarrow> store \<Rightarrow> store_error + run_record option" where
  "get_paused_run threadId s = only_run (\<lambda>r. rr_status r = RPaused) threadId s"

definition list_queued_runs :: "string \<Rightarrow> store \<Rightarrow> run_record list" where
  "list_queued_runs threadId s =
     sort_key rr_ordinal (filter (\<lambda>r. rr_threadId r = threadId \<and> rr_status r = RQueued) (runs s))"

definition list_runs :: "string \<Rightarrow> int option \<Rightarrow> store \<Rightarrow> store_error + run_record list" where
  "list_runs threadId lim s =
     (case row_limit lim of
        Inl e \<Rightarrow> Inl e
      | Inr n \<Rightarrow> Inr (take_limit n (rev (sort_key rr_ordinal (filter (\<lambda>r. rr_threadId r = threadId) (runs s))))))"

definition list_non_terminal_runs :: "store \<Rightarrow> run_record list" where
  "list_non_terminal_runs s =
     sort_key (\<lambda>r. (rr_threadId r, rr_ordinal r)) (filter (\<lambda>r. \<not> terminal_run (rr_status r)) (runs s))"

definition list_interrupted_by_restart_since :: "nat \<Rightarrow> store \<Rightarrow> run_record list" where
  "list_interrupted_by_restart_since since s =
     sort_key (\<lambda>r. (rr_threadId r, rr_ordinal r))
       (filter (\<lambda>r. rr_status r = RInterrupted \<and>
            (case rr_completedAt r of None \<Rightarrow> False | Some at \<Rightarrow> since \<le> at) \<and>
            oc_interruptedBy (the_outcome (rr_outcome r)) = Some ByDaemonRestart) (runs s))"

section \<open>Attempts\<close>

definition set_attempt_binding :: "string \<Rightarrow> json \<Rightarrow> json run_txn" where
  "set_attempt_binding attemptId binding s =
     (case get_attempt attemptId s of
        None \<Rightarrow> Inl BadRequest
      | Some current \<Rightarrow>
          (case at_executionBinding current of
             Some b \<Rightarrow> Inr (b, s)
           | None \<Rightarrow> Inr (binding, s\<lparr>attempts := update_rows (\<lambda>a. at_attemptId a = attemptId)
                        (\<lambda>a. a\<lparr>at_executionBinding := Some (stored binding)\<rparr>) (attempts s)\<rparr>)))"

definition set_attempt_status ::
  "string \<Rightarrow> attempt_status \<Rightarrow> provider_ref option option \<Rightarrow> nat option option \<Rightarrow> nat option option \<Rightarrow> attempt_record run_txn" where
  "set_attempt_status attemptId status providerRef startedAt completedAt s =
     (case get_attempt attemptId s of
        None \<Rightarrow> Inl BadRequest
      | Some current \<Rightarrow>
          let next = current\<lparr>at_status := status,
                at_providerRef := patched providerRef (at_providerRef current),
                at_startedAt := patched startedAt (at_startedAt current),
                at_completedAt := patched completedAt (at_completedAt current)\<rparr>;
              s1 = s\<lparr>attempts := update_rows (\<lambda>a. at_attemptId a = at_attemptId next)
                      (\<lambda>a. a\<lparr>at_status := at_status next, at_providerRef := at_providerRef next,
                             at_startedAt := at_startedAt next, at_completedAt := at_completedAt next\<rparr>) (attempts s)\<rparr>
          in case get_run (at_runId next) s1 of
               None \<Rightarrow> Inl BadRequest
             | Some run \<Rightarrow> Inr (next,
                 append_event (rr_threadId run) (Some (rr_runId run)) ''attempt.status'' (EvAttempt next) s1))"

definition list_attempts :: "string \<Rightarrow> store \<Rightarrow> attempt_record list" where
  "list_attempts runId s = sort_key at_ordinal (filter (\<lambda>a. at_runId a = runId) (attempts s))"

section \<open>Receipts and events\<close>

definition put_receipt :: "receipt_record \<Rightarrow> receipt_record run_txn" where
  "put_receipt record s =
     (if get_receipt (rc_clientRequestId record) s \<noteq> None then Inl Conflict
      else Inr (record, s\<lparr>receipts := receipts s @ [record\<lparr>rc_result := stored (rc_result record)\<rparr>]\<rparr>))"

definition has_agent_action :: "string \<Rightarrow> string \<Rightarrow> store \<Rightarrow> bool" where
  "has_agent_action threadId action s =
     list_ex (\<lambda>e. ev_threadId e = threadId \<and> ev_type e = ''agent.action'' \<and>
        (case ev_payload e of EvJson p \<Rightarrow> jfield p ''action'' = Some (JStr action) | _ \<Rightarrow> False)) (events s)"

definition list_unfinished_thread_creations :: "nat \<Rightarrow> store \<Rightarrow> receipt_record list" where
  "list_unfinished_thread_creations since s =
     sort_key (\<lambda>r. (rc_createdAt r, rc_clientRequestId r))
       (filter (\<lambda>r. rc_commandKind r = ''thread_create'' \<and> since \<le> rc_createdAt r \<and>
          \<not> (case jstring (jfield (rc_result r) ''threadId'') of None \<Rightarrow> False
             | Some t \<Rightarrow> has_agent_action t ''created_thread'' s)) (receipts s))"

definition list_events :: "string \<Rightarrow> int \<Rightarrow> int option \<Rightarrow> store \<Rightarrow> store_error + thread_event list" where
  "list_events threadId afterSeq lim s =
     (if \<not> safe_int afterSeq \<or> afterSeq < 0 then Inl BadRequest
      else case row_limit lim of
        Inl e \<Rightarrow> Inl e
      | Inr n \<Rightarrow> Inr (take_limit n (sort_key ev_seq
            (filter (\<lambda>e. ev_threadId e = threadId \<and> afterSeq < int (ev_seq e)) (events s)))))"

definition max_seq :: "string \<Rightarrow> store \<Rightarrow> nat" where
  "max_seq threadId s = max_nat (map ev_seq (filter (\<lambda>e. ev_threadId e = threadId) (events s)))"


section \<open>The invariant of the runs table\<close>

definition runs_ok :: "store \<Rightarrow> bool" where
  "runs_ok s \<longleftrightarrow> distinct (map rr_runId (runs s)) \<and>
     (\<forall>r \<in> set (runs s). rr_runId r = run_id (rr_threadId r) (rr_ordinal r))"

lemma runs_okD:
  "runs_ok s \<Longrightarrow> distinct (map rr_runId (runs s))"
  "runs_ok s \<Longrightarrow> r \<in> set (runs s) \<Longrightarrow> rr_runId r = run_id (rr_threadId r) (rr_ordinal r)"
  by (auto simp: runs_ok_def)

lemma runs_ok_cong: "runs s' = runs s \<Longrightarrow> runs_ok s' = runs_ok s"
  by (simp add: runs_ok_def)

lemma max_nat_ge: "n \<in> set ns \<Longrightarrow> n \<le> max_nat ns"
  by (induction ns) (auto simp: max_nat_def)

lemma new_ordinal_fresh:
  "r \<in> set rows \<Longrightarrow> P r \<Longrightarrow> ord r \<noteq> Suc (max_nat (map ord (filter P rows)))"
  using max_nat_ge [of "ord r" "map ord (filter P rows)"] by auto

lemma create_run_ok:
  assumes "runs_ok s"
  shows "\<exists>r s'. create_run input s = Inr (r, s')"
proof -
  let ?n = "Suc (max_nat (map rr_ordinal (filter (\<lambda>r. rr_threadId r = ri_threadId input) (runs s))))"
  have "rr_runId r \<noteq> run_id (ri_threadId input) ?n \<and>
      (rr_threadId r = ri_threadId input \<longrightarrow> rr_ordinal r \<noteq> ?n)" if "r \<in> set (runs s)" for r
    using new_ordinal_fresh [OF that, of "\<lambda>r. rr_threadId r = ri_threadId input" rr_ordinal]
      runs_okD(2) [OF assms that] by auto
  then show ?thesis by (simp add: create_run_def Let_def)
qed

lemma create_run_Inr:
  assumes "create_run input s = Inr (r, s')"
  shows "runs s' = runs s @ [r]" "rr_status r = RQueued" "rr_threadId r = ri_threadId input"
    "rr_source r = ri_source input" "rr_runId r = run_id (rr_threadId r) (rr_ordinal r)"
    "\<forall>x \<in> set (runs s). rr_runId x \<noteq> rr_runId r" "rr_outcome r = ri_outcome input"
    "rr_epoch r = 0" "rr_stopGeneration r = current_stop_generation (rr_threadId r) s"
  using assms by (auto simp: create_run_def Let_def split: if_splits)

lemma create_run_frame [frame]:
  assumes "create_run input s = Inr (r, s')"
  shows "clock s' = clock s" "uuids s' = uuids s" "next_uuid s' = next_uuid s"
    "attempts s' = attempts s" "effects s' = effects s" "inbox s' = inbox s"
    "delegations s' = delegations s" "lineage s' = lineage s" "settle_queue s' = settle_queue s"
    "provider_background s' = provider_background s" "unread_steers s' = unread_steers s"
    "approvals s' = approvals s" "stop_generations s' = stop_generations s"
  using assms by (auto simp: create_run_def Let_def split: if_splits)

lemma runs_ok_create_run: "runs_ok s \<Longrightarrow> create_run input s = Inr (r, s') \<Longrightarrow> runs_ok s'"
  using create_run_Inr [of input s r s'] by (auto simp: runs_ok_def)

lemma runs_ok_update:
  assumes "runs_ok s" "runs s' = update_rows P f (runs s)"
    and "\<And>r. rr_runId (f r) = rr_runId r \<and> rr_threadId (f r) = rr_threadId r \<and> rr_ordinal (f r) = rr_ordinal r"
  shows "runs_ok s'"
  using assms by (auto simp: runs_ok_def set_update_rows)

section \<open>What may happen to a stored run\<close>

text \<open>A run without its access grant, the one field that may still narrow after the run ended.\<close>

definition but_grant :: "run_record \<Rightarrow> run_record" where
  "but_grant r = r\<lparr>rr_accessGrant := None\<rparr>"

lemma but_grant_fields:
  assumes "but_grant a = but_grant b"
  shows "rr_status a = rr_status b" "rr_epoch a = rr_epoch b" "rr_outcome a = rr_outcome b"
    "rr_completedAt a = rr_completedAt b"
  using assms by (cases a; cases b; simp add: but_grant_def)+

lemma but_grant_granted [simp]: "but_grant (r\<lparr>rr_accessGrant := g\<rparr>) = but_grant r"
  by (simp add: but_grant_def)

definition run_evolves :: "run_record \<Rightarrow> run_record \<Rightarrow> bool" where
  "run_evolves r r' \<longleftrightarrow>
     rr_runId r' = rr_runId r \<and> rr_threadId r' = rr_threadId r \<and> rr_ordinal r' = rr_ordinal r \<and>
     rr_source r' = rr_source r \<and> rr_clientRequestId r' = rr_clientRequestId r \<and>
     rr_requestedAt r' = rr_requestedAt r \<and> rr_epoch r \<le> rr_epoch r' \<and>
     (rr_epoch r' = rr_epoch r \<longrightarrow> rr_status r' = rr_status r \<and> rr_outcome r' = rr_outcome r \<and>
        rr_completedAt r' = rr_completedAt r) \<and>
     (terminal_run (rr_status r) \<longrightarrow> but_grant r' = but_grant r)"

definition store_evolves :: "store \<Rightarrow> store \<Rightarrow> bool" where
  "store_evolves s s' \<longleftrightarrow>
     (\<forall>id r. get_run id s = Some r \<longrightarrow> (\<exists>r'. get_run id s' = Some r' \<and> run_evolves r r'))"

lemma run_evolves_refl [simp]: "run_evolves r r"
  by (simp add: run_evolves_def)

lemma run_evolves_trans:
  assumes "run_evolves a b" "run_evolves b c"
  shows "run_evolves a c"
proof (cases "terminal_run (rr_status a)")
  case True
  then have "but_grant b = but_grant a" "terminal_run (rr_status b)"
    using assms(1) but_grant_fields(1) [of b a] by (auto simp: run_evolves_def)
  with assms True show ?thesis by (auto simp: run_evolves_def)
qed (use assms in \<open>auto simp: run_evolves_def\<close>)

lemma store_evolves_same [intro]: "runs s' = runs s \<Longrightarrow> store_evolves s s'"
  by (simp add: store_evolves_def get_run_def)

lemma store_evolves_refl [simp, intro]: "store_evolves s s"
  by (rule store_evolves_same) simp

lemma store_evolves_trans [trans]:
  "store_evolves s s' \<Longrightarrow> store_evolves s' s'' \<Longrightarrow> store_evolves s s''"
  unfolding store_evolves_def by (meson run_evolves_trans)

lemma store_evolves_snoc: "runs s' = runs s @ [r] \<Longrightarrow> store_evolves s s'"
  by (auto simp: store_evolves_def get_run_def lookup_row_append)

lemma store_evolves_update:
  assumes "runs s' = update_rows P f (runs s)"
    and "\<And>r. rr_runId (f r) = rr_runId r"
    and "\<And>r. get_run (rr_runId r) s = Some r \<Longrightarrow> P r \<Longrightarrow> run_evolves r (f r)"
  shows "store_evolves s s'"
proof -
  have "\<exists>r'. get_run i s' = Some r' \<and> run_evolves r r'" if r: "get_run i s = Some r" for i r
  proof -
    have "rr_runId r = i" using r by (auto simp: get_run_def dest: lookup_row_Some)
    then have "P r \<Longrightarrow> run_evolves r (f r)" using assms(3) r by blast
    with r assms(1,2) show ?thesis by (auto simp: get_run_def lookup_row_update)
  qed
  then show ?thesis by (simp add: store_evolves_def)
qed

lemma changes_1_unique:
  assumes "changes P rows = 1" "x \<in> set rows" "P x" "y \<in> set rows" "P y"
  shows "x = y"
proof -
  from assms(1) obtain z where "filter P rows = [z]"
    by (auto simp: changes_def length_Suc_conv)
  moreover have "x \<in> set (filter P rows)" "y \<in> set (filter P rows)"
    using assms by simp_all
  ultimately show ?thesis by (simp only: list.set) blast
qed

lemma require_cas_target_Inr:
  "require_cas_target runId e s = Inr r \<longleftrightarrow>
     safe_int e \<and> get_run runId s = Some r \<and> int (rr_epoch r) = e \<and> \<not> terminal_run (rr_status r)"
  by (auto simp: require_cas_target_def split: option.splits)

lemma write_cas_evolves:
  assumes w: "write_cas next e s = Inr (x, s')"
    and t: "require_cas_target runId e s = Inr current"
    and id: "rr_runId next = rr_runId current"
  shows "store_evolves s s'"
proof -
  let ?P = "\<lambda>r. rr_runId r = rr_runId next \<and> int (rr_epoch r) = e"
  from w have one: "changes ?P (runs s) = 1" and rs: "runs s' = update_rows ?P (cas_set next) (runs s)"
    by (auto simp: write_cas_def Let_def split: if_splits)
  from t have cur: "current \<in> set (runs s)" "?P current" "\<not> terminal_run (rr_status current)"
    using lookup_row_Some [of rr_runId runId "runs s" current] id
    by (auto simp: require_cas_target_Inr get_run_def)
  show ?thesis
  proof (rule store_evolves_update [OF rs])
    fix r assume "get_run (rr_runId r) s = Some r" "?P r"
    then have "r \<in> set (runs s)" "?P r" by (auto simp: get_run_def dest: lookup_row_Some)
    then have "r = current" using changes_1_unique [OF one] cur by blast
    with cur show "run_evolves r (cas_set next r)" by (simp add: run_evolves_def cas_set_def)
  qed (simp add: cas_set_def)
qed

lemma cas_run_status_evolves: "cas_run_status runId e st p s = Inr (r, s') \<Longrightarrow> store_evolves s s'"
  by (auto simp: cas_run_status_def split: sum.splits elim!: write_cas_evolves)

lemma cas_run_outcome_evolves: "cas_run_outcome runId e oc s = Inr (r, s') \<Longrightarrow> store_evolves s s'"
  by (auto simp: cas_run_outcome_def split: sum.splits elim!: write_cas_evolves)

lemma create_run_evolves: "create_run i s = Inr (r, s') \<Longrightarrow> store_evolves s s'"
  by (rule store_evolves_snoc [OF create_run_Inr(1)])

lemma store_evolves_set_field:
  assumes "runs s' = update_rows P f (runs s)" "\<And>r. run_evolves r (f r)" "\<And>r. rr_runId (f r) = rr_runId r"
  shows "store_evolves s s'"
  using assms by (auto intro: store_evolves_update)

lemma create_attempt_Inr:
  assumes "create_attempt runId reason s = Inr (a, s')"
  shows "\<exists>run. get_run runId s = Some run \<and> \<not> terminal_run (rr_status run) \<and>
      runs s' = update_rows (\<lambda>r. rr_runId r = rr_runId run) (\<lambda>r. r\<lparr>rr_activeAttemptId := Some (at_attemptId a)\<rparr>) (runs s)"
  using assms by (auto simp: create_attempt_def Let_def split: option.splits if_splits)

lemma create_attempt_evolves: "create_attempt runId reason s = Inr (a, s') \<Longrightarrow> store_evolves s s'"
proof (drule create_attempt_Inr, elim exE conjE)
  fix run assume run: "get_run runId s = Some run" "\<not> terminal_run (rr_status run)"
    and rs: "runs s' = update_rows (\<lambda>r. rr_runId r = rr_runId run) (\<lambda>r. r\<lparr>rr_activeAttemptId := Some (at_attemptId a)\<rparr>) (runs s)"
  have "rr_runId run = runId" using run(1) by (auto simp: get_run_def dest: lookup_row_Some)
  with run show "store_evolves s s'"
    by (intro store_evolves_update [OF rs]) (auto simp: run_evolves_def)
qed

lemma set_run_access_grant_runs:
  "set_run_access_grant runId l s = (x, s') \<Longrightarrow>
   runs s' = runs s \<or> (\<exists>g. runs s' = update_rows (\<lambda>r. rr_runId r = runId) (\<lambda>r. r\<lparr>rr_accessGrant := Some g\<rparr>) (runs s))"
  by (cases "get_run runId s"; cases "narrow_agent_access [Option.bind (get_run runId s) rr_accessGrant, Some l] None")
    (auto simp: set_run_access_grant_def Let_def split: if_splits)

lemma set_run_access_grant_evolves: "set_run_access_grant runId l s = (x, s') \<Longrightarrow> store_evolves s s'"
  by (drule set_run_access_grant_runs)
    (auto intro: store_evolves_same elim!: store_evolves_set_field simp: run_evolves_def)

lemma touch_heartbeat_evolves: "touch_heartbeat runId now s = (x, s') \<Longrightarrow> store_evolves s s'"
  by (rule store_evolves_update
      [where P = "\<lambda>r. rr_runId r = runId \<and> \<not> terminal_run (rr_status r)" and f = "\<lambda>r. r\<lparr>rr_heartbeatAt := Some now\<rparr>"])
    (auto simp: touch_heartbeat_def Let_def run_evolves_def)

lemma set_attempt_status_runs: "set_attempt_status a st p b c s = Inr (x, s') \<Longrightarrow> runs s' = runs s"
  by (auto simp: set_attempt_status_def Let_def split: option.splits)

section \<open>Properties\<close>

text \<open>
  A new run always gets a free id and the next ordinal of its thread: on a store whose run ids
  are unique and derived from thread and ordinal, \<open>createRun\<close> never conflicts, the run is queued at
  epoch 0, later than every run of the thread, admitted at the thread's current stop generation.
\<close>

theorem create_run_next:
  assumes "runs_ok s"
  shows "\<exists>r s'. create_run input s = Inr (r, s') \<and> runs_ok s' \<and>
    get_run (rr_runId r) s = None \<and> get_run (rr_runId r) s' = Some r \<and>
    rr_status r = RQueued \<and> rr_epoch r = 0 \<and> rr_threadId r = ri_threadId input \<and>
    rr_stopGeneration r = current_stop_generation (ri_threadId input) s \<and>
    (\<forall>x \<in> set (runs s). rr_threadId x = ri_threadId input \<longrightarrow> rr_ordinal x < rr_ordinal r)"
proof -
  obtain r s' where run: "create_run input s = Inr (r, s')" using create_run_ok [OF assms] by blast
  note new = create_run_Inr [OF run]
  have "rr_ordinal r = Suc (max_nat (map rr_ordinal (filter (\<lambda>x. rr_threadId x = ri_threadId input) (runs s))))"
    using run by (auto simp: create_run_def Let_def split: if_splits)
  then have "rr_ordinal x < rr_ordinal r" if "x \<in> set (runs s)" "rr_threadId x = ri_threadId input" for x
    using max_nat_ge [of "rr_ordinal x" "map rr_ordinal (filter (\<lambda>x. rr_threadId x = ri_threadId input) (runs s))"] that
    by auto
  moreover have "get_run (rr_runId r) s = None"
    using new(6) by (auto simp: get_run_def lookup_row_None)
  moreover from this have "get_run (rr_runId r) s' = Some r"
    using new(1) by (simp add: get_run_def lookup_row_append)
  ultimately show ?thesis
    using run new runs_ok_create_run [OF assms run] by auto
qed

definition example_input :: run_input where
  "example_input = \<lparr>ri_threadId = ''t'', ri_source = ''gui'', ri_clientRequestId = None,
     ri_userMessageId = None, ri_requestedAt = None, ri_outcome = None\<rparr>"

lemma create_run_next_witness:
  "\<exists>r s'. create_run example_input (empty_store 7 nat_str) = Inr (r, s') \<and> runs_ok s'"
  using create_run_next [of "empty_store 7 nat_str" example_input]
  by (auto simp: runs_ok_def empty_store_def)

lemma cas_stores:
  assumes ok: "runs_ok s" and w: "write_cas next e s = Inr (x, s')"
    and t: "require_cas_target runId e s = Inr current" and i: "rr_runId next = rr_runId current"
  shows "\<exists>r. get_run runId s' = Some r \<and> int (rr_epoch r) = e + 1 \<and> rr_status r = rr_status next"
proof -
  let ?P = "\<lambda>r. rr_runId r = rr_runId next \<and> int (rr_epoch r) = e"
  have rs: "runs s' = update_rows ?P (cas_set next) (runs s)"
    using w by (auto simp: write_cas_def Let_def split: if_splits)
  have c: "get_run runId s = Some current" "int (rr_epoch current) = e"
    using t by (auto simp: require_cas_target_Inr)
  have "rr_runId (cas_set next r) = rr_runId r" for r by (simp add: cas_set_def)
  then have "get_run runId s' = Some (cas_set next current)"
    using c i by (simp add: get_run_def rs lookup_row_update)
  then show ?thesis using c(2) by (simp add: cas_set_def)
qed

lemma cas_epoch:
  assumes "runs_ok s"
  shows "cas_run_status runId e st p s = Inr (r, s') \<Longrightarrow>
      \<exists>x. get_run runId s' = Some x \<and> int (rr_epoch x) = e + 1 \<and> rr_status x = st"
    and "cas_run_outcome runId e oc s = Inr (r, s') \<Longrightarrow>
      \<exists>x. get_run runId s' = Some x \<and> int (rr_epoch x) = e + 1"
  using cas_stores [OF assms] by (fastforce simp: cas_run_status_def cas_run_outcome_def split: sum.splits)+

lemma cas_stale:
  assumes "get_run runId s = Some r" "e < int (rr_epoch r)" "0 \<le> e" "safe_int e"
  shows "cas_run_status runId e st p s = Inl StaleWrite" "cas_run_outcome runId e oc s = Inl StaleWrite"
  using assms by (simp_all add: cas_run_status_def cas_run_outcome_def require_cas_target_def)

text \<open>
  C11: Of two writers that read a run at the same epoch at most one wins: once a compare-and-set at an
  epoch succeeded, every later one at that epoch is refused as \<open>stale_write\<close>, whatever happened to
  the store in between.
\<close>

theorem cas_single_winner:
  assumes "runs_ok s"
    and "cas_run_status runId e st p s = Inr (r, s1) \<or> cas_run_outcome runId e oc s = Inr (r, s1)" "store_evolves s1 s2"
  shows "cas_run_status runId e st' p' s2 = Inl StaleWrite \<and> cas_run_outcome runId e oc' s2 = Inl StaleWrite"
proof -
  obtain x where x: "get_run runId s1 = Some x" "int (rr_epoch x) = e + 1"
    using cas_epoch [OF assms(1)] assms(2) by blast
  with assms(3) obtain y where y: "get_run runId s2 = Some y" "rr_epoch x \<le> rr_epoch y"
    by (auto simp: store_evolves_def run_evolves_def)
  obtain c where "require_cas_target runId e s = Inr c"
    using assms(2) by (auto simp: cas_run_status_def cas_run_outcome_def split: sum.splits)
  then have "0 \<le> e" "safe_int e" by (auto simp: require_cas_target_Inr)
  with cas_stale [OF y(1)] x(2) y(2) show ?thesis by simp
qed

definition example_run :: "store" where
  "example_run = (case create_run example_input (empty_store 7 nat_str) of Inr (r, s) \<Rightarrow> s | Inl _ \<Rightarrow> empty_store 0 nat_str)"

lemma example_run_eq: "\<exists>r. create_run example_input (empty_store 7 nat_str) = Inr (r, example_run)"
  by (simp add: example_run_def create_run_def empty_store_def Let_def)

lemma example_run_ok: "runs_ok example_run"
  using example_run_eq runs_ok_create_run [of "empty_store 7 nat_str" example_input]
  by (auto simp: runs_ok_def empty_store_def)

lemma cas_single_winner_witness:
  "\<exists>r s1 r' s2. cas_run_status ''run:thread:t:ordinal:1'' 0 RStarting no_patch example_run = Inr (r, s1) \<and>
     cas_run_status ''run:thread:t:ordinal:1'' 0 RCancelled no_patch s1 = Inl StaleWrite \<and>
     cas_run_outcome ''run:thread:t:ordinal:1'' 0 empty_outcome example_run = Inr (r', s2) \<and>
     cas_run_outcome ''run:thread:t:ordinal:1'' 0 empty_outcome s2 = Inl StaleWrite"
proof -
  have "\<not> isl (cas_run_status ''run:thread:t:ordinal:1'' 0 RStarting no_patch example_run)"
    "\<not> isl (cas_run_outcome ''run:thread:t:ordinal:1'' 0 empty_outcome example_run)"
    by code_simp+
  then obtain r s1 r' s2 where w: "cas_run_status ''run:thread:t:ordinal:1'' 0 RStarting no_patch example_run = Inr (r, s1)"
    "cas_run_outcome ''run:thread:t:ordinal:1'' 0 empty_outcome example_run = Inr (r', s2)"
    using succeeds by blast
  show ?thesis
    using cas_single_winner [OF example_run_ok disjI1 [OF w(1)] store_evolves_refl, where st' = RCancelled and p' = no_patch]
      cas_single_winner [OF example_run_ok disjI2 [OF w(2)] store_evolves_refl, where oc' = empty_outcome] w
    by blast
qed

section \<open>The Stop fence\<close>

definition generations_ok :: "store \<Rightarrow> bool" where
  "generations_ok s \<longleftrightarrow> list_all (\<lambda>r. rr_stopGeneration r \<le> current_stop_generation (rr_threadId r) s) (runs s)"

lemma bump_stop_generations_Pair:
  "bump_stop_generations ts s = (b, s') \<Longrightarrow>
     runs s' = runs s \<and> current_stop_generation t s' = current_stop_generation t s + count_list ts t"
proof (induction ts s arbitrary: b s' rule: bump_stop_generations.induct)
  case (1 s)
  then show ?case by simp
next
  case (2 u us s)
  let ?s1 = "s\<lparr>stop_generations := AList.update u (Suc (current_stop_generation u s)) (stop_generations s)\<rparr>"
  obtain b1 s1 where rest: "bump_stop_generations us ?s1 = (b1, s1)" by force
  with 2(2) have "s' = s1" by (auto simp: Let_def split: if_splits)
  moreover have "current_stop_generation t ?s1 = current_stop_generation t s + (if t = u then 1 else 0)"
    by (simp add: current_stop_generation_def update_conv')
  ultimately show ?case using 2(1) [OF refl refl rest] by auto
qed

text \<open>
  The Stop fence: after a Stop raised the generation of a set of threads, a stored run is stale
  exactly when its thread was stopped or it was stale already, and a run created afterwards is not.
\<close>

theorem stop_fence:
  assumes ok: "generations_ok s" and bump: "bump_stop_generations ts s = (bumped, s')"
    and r: "get_run runId s = Some r"
    and new: "create_run input s' = Inr (n, s'')"
  shows "(is_run_admission_stale runId s' \<longleftrightarrow> rr_threadId r \<in> set ts \<or> is_run_admission_stale runId s) \<and>
    \<not> is_run_admission_stale (rr_runId n) s''"
proof
  have mem: "r \<in> set (runs s)" "rr_runId r = runId"
    using r by (auto simp: get_run_def dest: lookup_row_Some)
  have le: "rr_stopGeneration r \<le> current_stop_generation (rr_threadId r) s"
    using ok mem by (simp add: generations_ok_def list_all_iff)
  have after: "runs s' = runs s" "current_stop_generation t s' = current_stop_generation t s + count_list ts t" for t
    using bump_stop_generations_Pair [OF bump] by blast+
  have "count_list ts t = 0 \<longleftrightarrow> t \<notin> set ts" for t
    by (simp add: count_list_0_iff)
  then show "is_run_admission_stale runId s' \<longleftrightarrow> rr_threadId r \<in> set ts \<or> is_run_admission_stale runId s"
    using r le after by (auto simp: is_run_admission_stale_def get_run_def not_less)
      (metis add_cancel_left_right le_less_trans less_add_same_cancel1 neq0_conv not_le)+
  note c = create_run_Inr [OF new] and f = create_run_frame [OF new]
  have "lookup_row rr_runId (rr_runId n) (runs s') = None"
    using c(6) by (simp add: lookup_row_None)
  then have "get_run (rr_runId n) s'' = Some n"
    using c(1) by (simp add: get_run_def lookup_row_append)
  then show "\<not> is_run_admission_stale (rr_runId n) s''"
    using c(9) f by (simp add: is_run_admission_stale_def current_stop_generation_def)
qed

lemma stop_fence_witness:
  "is_run_admission_stale ''run:thread:t:ordinal:1'' (snd (bump_stop_generations [''u'', ''t''] example_run)) \<and>
   \<not> is_run_admission_stale ''run:thread:t:ordinal:1'' example_run"
proof -
  obtain b s' where b: "bump_stop_generations [''u'', ''t''] example_run = (b, s')" by force
  have g: "generations_ok example_run" by code_simp
  have "\<exists>r. get_run ''run:thread:t:ordinal:1'' example_run = Some r \<and> rr_threadId r = ''t''"
    by (simp add: example_run_def create_run_def empty_store_def Let_def get_run_def lookup_row_def
        example_input_def run_id_def max_nat_def) code_simp
  then obtain r where r: "get_run ''run:thread:t:ordinal:1'' example_run = Some r" "rr_threadId r = ''t''"
    by blast
  have "runs_ok s'"
    using example_run_ok bump_stop_generations_Pair [OF b] by (simp add: runs_ok_def)
  then obtain n s'' where n: "create_run example_input s' = Inr (n, s'')" using create_run_ok by blast
  have "is_run_admission_stale ''run:thread:t:ordinal:1'' s'"
    using stop_fence [OF g b r(1) n] r(2) by simp
  moreover have "\<not> is_run_admission_stale ''run:thread:t:ordinal:1'' example_run" by code_simp
  ultimately show ?thesis unfolding b snd_conv by blast
qed

end
