(* ===== verification/Delegations.thy ===== *)
theory Delegations
  imports InboxBase RunStore
begin

text \<open>
  \<open>src/mms/run/Delegations.ts\<close>: lineage and delegation rows, the compare-and-set move of a
  delegation and the publication of its result. Leaving \<open>running\<close> calls \<open>store.settleHold\<close>,
  whose loop is defined in theory \<open>Hold\<close> over these operations; \<open>set_delegation_status\<close> and
  \<open>publish\<close> take that call as their first argument. Inside the loop (the \<open>settling\<close> flag is set)
  the call only queues the thread, which is \<open>enqueue_settle\<close>.
\<close>

section \<open>Text helpers of JavaScript\<close>

definition is_space :: "char \<Rightarrow> bool" where
  "is_space c = (let n = of_char c :: nat in (9 \<le> n \<and> n \<le> 13) \<or> n = 32 \<or> n = 160)"

text \<open>\<open>!text.trim()\<close>\<close>

definition is_blank :: "string \<Rightarrow> bool" where
  "is_blank x = list_all is_space x"

definition DELEGATION_RESULT_MAX_CHARS :: nat where
  "DELEGATION_RESULT_MAX_CHARS = 64000"

section \<open>Lineage\<close>

definition create_lineage ::
  "string \<Rightarrow> string \<Rightarrow> string \<Rightarrow> lineage_relationship \<Rightarrow> lineage_record run_txn" where
  "create_lineage threadId parentThreadId parentRunId relationship s =
     (if get_lineage threadId s \<noteq> None then Inl Conflict
      else if threadId = parentThreadId then Inl BadRequest
      else let record = \<lparr>ln_threadId = threadId, ln_parentThreadId = parentThreadId,
             ln_parentRunId = parentRunId, ln_relationship = relationship, ln_createdAt = clock s\<rparr>
           in Inr (record, append_event threadId None ''thread.lineage'' (EvLineage record)
                (s\<lparr>lineage := lineage s @ [record]\<rparr>)))"

definition list_child_threads :: "string \<Rightarrow> store \<Rightarrow> lineage_record list" where
  "list_child_threads parentThreadId s =
     by_created ln_createdAt (filter (\<lambda>l. ln_parentThreadId l = parentThreadId) (lineage s))"

definition list_lineage :: "lineage_relationship \<Rightarrow> store \<Rightarrow> lineage_record list" where
  "list_lineage relationship s =
     by_created ln_createdAt (filter (\<lambda>l. ln_relationship l = relationship) (lineage s))"

section \<open>Delegation rows\<close>

definition delegation_recorded :: "delegation_record \<Rightarrow> store \<Rightarrow> store" where
  "delegation_recorded record s =
     append_event (dg_parentThreadId record) (Some (dg_parentRunId record)) ''delegation.status''
       (EvDelegation record) s"

record delegation_input =
  di_delegationId :: "string option"
  di_parentRunId :: string
  di_parentThreadId :: string
  di_childThreadId :: string
  di_childRunId :: string
  di_provider :: "string option"
  di_model :: "string option"
  di_prompt :: string
  di_wake :: delegation_wake
  di_modeCeiling :: "mode_ceiling option"
  di_accessLevel :: "access_level option"
  di_workspace :: "delegation_workspace option"
  di_role :: "string option"

text \<open>\<open>digest\<close> is the SHA-256 of \<open>node:crypto\<close>, a parameter.\<close>

definition create_delegation :: "(string \<Rightarrow> string) \<Rightarrow> delegation_input \<Rightarrow> delegation_record run_txn" where
  "create_delegation digest input s =
     (let id = (case di_delegationId input of Some i \<Rightarrow> i | None \<Rightarrow> ''delegation:'' @ uuids s (next_uuid s));
          s1 = (case di_delegationId input of Some i \<Rightarrow> s | None \<Rightarrow> s\<lparr>next_uuid := Suc (next_uuid s)\<rparr>);
          record = \<lparr>dg_delegationId = id, dg_parentRunId = di_parentRunId input,
            dg_parentThreadId = di_parentThreadId input, dg_childThreadId = di_childThreadId input,
            dg_childRunId = di_childRunId input, dg_provider = di_provider input,
            dg_model = di_model input, dg_promptDigest = digest (di_prompt input),
            dg_wake = di_wake input, dg_status = DRunning, dg_result = None,
            dg_createdAt = clock s, dg_completedAt = None, dg_modeCeiling = di_modeCeiling input,
            dg_accessLevel = di_accessLevel input, dg_workspace = di_workspace input,
            dg_role = di_role input\<rparr>
      in if get_delegation id s \<noteq> None then Inl Conflict
         else Inr (record, delegation_recorded record (s1\<lparr>delegations := delegations s1 @ [record]\<rparr>)))"

definition list_for_parent_run :: "string \<Rightarrow> store \<Rightarrow> delegation_record list" where
  "list_for_parent_run parentRunId s =
     by_created dg_createdAt (filter (\<lambda>d. dg_parentRunId d = parentRunId) (delegations s))"

definition list_for_parent_thread :: "string \<Rightarrow> store \<Rightarrow> delegation_record list" where
  "list_for_parent_thread parentThreadId s =
     by_created dg_createdAt (filter (\<lambda>d. dg_parentThreadId d = parentThreadId) (delegations s))"

definition list_for_child :: "string \<Rightarrow> store \<Rightarrow> delegation_record list" where
  "list_for_child childThreadId s =
     by_created dg_createdAt (filter (\<lambda>d. dg_childThreadId d = childThreadId) (delegations s))"

definition get_by_child_run :: "string \<Rightarrow> store \<Rightarrow> delegation_record option" where
  "get_by_child_run childRunId s = List.find (\<lambda>d. dg_childRunId d = childRunId) (delegations s)"

section \<open>Moving a delegation\<close>

type_synonym settle_call = "string \<Rightarrow> store \<Rightarrow> store_error + store"

definition enqueue_settle :: settle_call where
  "enqueue_settle threadId s =
     Inr (if threadId \<in> set (settle_queue s) then s else s\<lparr>settle_queue := settle_queue s @ [threadId]\<rparr>)"

definition set_delegation_status ::
  "settle_call \<Rightarrow> string \<Rightarrow> delegation_status \<Rightarrow> delegation_status \<Rightarrow> delegation_result option option \<Rightarrow>
   nat option option \<Rightarrow> delegation_record run_txn" where
  "set_delegation_status settle delegationId from to result completedAt s =
     (case get_delegation delegationId s of
        None \<Rightarrow> Inl BadRequest
      | Some current \<Rightarrow>
          if dg_status current \<noteq> from then Inl StaleWrite
          else if to \<notin> set (delegation_moves (dg_status current)) then Inl BadRequest
          else
            let next = current\<lparr>dg_status := to, dg_result := patched result (dg_result current),
                  dg_completedAt := patched completedAt (dg_completedAt current)\<rparr>;
                P = (\<lambda>d. dg_delegationId d = dg_delegationId next \<and> dg_status d = from)
            in if changes P (delegations s) \<noteq> 1 then Inl StaleWrite
               else
                 let s1 = delegation_recorded next (s\<lparr>delegations := update_rows P
                       (\<lambda>d. d\<lparr>dg_status := dg_status next, dg_result := dg_result next,
                              dg_completedAt := dg_completedAt next\<rparr>) (delegations s)\<rparr>)
                 in if from = DRunning
                    then (case settle (dg_parentThreadId next) s1 of Inl e \<Rightarrow> Inl e | Inr s2 \<Rightarrow> Inr (next, s2))
                    else Inr (next, s1))"

section \<open>Publishing a result\<close>

definition status_str :: "run_status \<Rightarrow> string" where
  "status_str st = (case st of RQueued \<Rightarrow> ''queued'' | RStarting \<Rightarrow> ''starting'' | RRunning \<Rightarrow> ''running''
     | RFinalizing \<Rightarrow> ''finalizing'' | RPaused \<Rightarrow> ''paused'' | RCompleted \<Rightarrow> ''completed''
     | RInterrupted \<Rightarrow> ''interrupted'' | RFailed \<Rightarrow> ''failed'' | RCancelled \<Rightarrow> ''cancelled''
     | RUncertain \<Rightarrow> ''uncertain'')"

definition interrupted_by_str :: "interrupted_by \<Rightarrow> string" where
  "interrupted_by_str by = (case by of ByUser \<Rightarrow> ''user'' | ByAgent \<Rightarrow> ''agent''
     | ByDaemonRestart \<Rightarrow> ''daemon_restart'' | ByProvider \<Rightarrow> ''provider'' | ByBotWall \<Rightarrow> ''bot_wall'')"

definition opt_member :: "string \<Rightarrow> string option \<Rightarrow> (string \<times> json) list" where
  "opt_member k v = (case v of None \<Rightarrow> [] | Some x \<Rightarrow> [(k, JStr x)])"

definition result_json :: "delegation_result \<Rightarrow> json" where
  "result_json r = JObj ([(''runStatus'', JStr (status_str (dr_runStatus r)))] @
     opt_member ''text'' (dr_text r) @ opt_member ''error'' (dr_error r) @ opt_member ''runId'' (dr_runId r))"

definition child_result_payload :: "delegation_record \<Rightarrow> delegation_result \<Rightarrow> json" where
  "child_result_payload d result = JObj [
     (''delegationId'', JStr (dg_delegationId d)), (''childThreadId'', JStr (dg_childThreadId d)),
     (''childRunId'', JStr (dg_childRunId d)), (''result'', result_json result)]"

definition publish :: "settle_call \<Rightarrow> delegation_record \<Rightarrow> delegation_result \<Rightarrow> delegation_record run_txn" where
  "publish settle d result s =
     (if map_option dg_status (get_delegation (dg_delegationId d) s) \<noteq> Some DRunning then Inl StaleWrite
      else
        case inbox_append (dg_parentThreadId d) (Some (dg_parentRunId d)) ChildResult
               (child_result_payload d result) None s of
          Inl e \<Rightarrow> Inl e
        | Inr (row, s1) \<Rightarrow>
            set_delegation_status settle (dg_delegationId d) DRunning
              (if dr_runStatus result = RCompleted then DResultAvailable else DFailed)
              (Some (Some result)) (Some (Some (clock s1))) s1)"

text \<open>The stored result of a terminal child run.\<close>

definition child_result :: "run_record \<Rightarrow> string option \<Rightarrow> delegation_result" where
  "child_result run resultText =
     (let text = map_option (take DELEGATION_RESULT_MAX_CHARS) resultText;
          oc = the_outcome (rr_outcome run)
      in if rr_status run = RCompleted
         then \<lparr>dr_runStatus = rr_status run, dr_text = Some (case text of None \<Rightarrow> [] | Some x \<Rightarrow> x),
                dr_error = None, dr_runId = None\<rparr>
         else \<lparr>dr_runStatus = rr_status run,
                dr_text = (case text of None \<Rightarrow> None | Some x \<Rightarrow> if x = [] then None else Some x),
                dr_error = Some (case oc_error oc of Some e \<Rightarrow> e
                  | None \<Rightarrow> (case oc_uncertainReason oc of Some e \<Rightarrow> e
                    | None \<Rightarrow> (case oc_interruptedBy oc of Some by \<Rightarrow> ''interrupted by '' @ interrupted_by_str by
                      | None \<Rightarrow> status_str (rr_status run)))),
                dr_runId = None\<rparr>)"

end
