(* ===== verification/Hold.thy ===== *)
theory Hold
  imports Delegations
begin

text \<open>
  \<open>src/mms/run/delegation/hold.ts\<close>, \<open>delegation/sources.ts\<close> and \<open>RunStore.settleHold\<close>: the
  rule by which a delegation into a subagent stays \<open>running\<close> for as long as the subagent is busy
  and is published once it is not. \<open>child_busy\<close> is the predicate, \<open>settle_waiting\<close> publishes the
  tasks that wait on one thread, \<open>drain_settle\<close> is the work loop of \<open>settleHold\<close>. A call made
  while the loop runs only queues its thread (\<open>enqueue_settle\<close>).
\<close>

section \<open>Sources of runs\<close>

definition FOLLOW_UP_SOURCES :: "string list" where
  "FOLLOW_UP_SOURCES = [''gui'', ''cli'', ''remote'', ''internal'']"

definition is_follow_up_source :: "string \<Rightarrow> bool" where
  "is_follow_up_source source = (source \<in> set FOLLOW_UP_SOURCES)"

definition FENCED_SOURCES :: "string list" where
  "FENCED_SOURCES = [''delegation'', ''wake'', ''steer-late'', ''provider-continuation'',
     ''integration'', ''resume'', ''resume_now'']"

definition is_fenced_source :: "string option \<Rightarrow> bool" where
  "is_fenced_source source = (case source of None \<Rightarrow> False | Some x \<Rightarrow> x \<in> set FENCED_SOURCES)"

definition PAUSE_HELD_SOURCES :: "string list" where
  "PAUSE_HELD_SOURCES = [''schedule'']"

definition is_pause_held_source :: "string option \<Rightarrow> bool" where
  "is_pause_held_source source = (case source of None \<Rightarrow> False | Some x \<Rightarrow> x \<in> set PAUSE_HELD_SOURCES)"

definition RESUME_SOURCES :: "string list" where
  "RESUME_SOURCES = [''resume'', ''resume_now'']"

definition is_resume_source :: "string option \<Rightarrow> bool" where
  "is_resume_source source = (case source of None \<Rightarrow> False | Some x \<Rightarrow> x \<in> set RESUME_SOURCES)"

definition RESULT_SOURCES :: "string list" where
  "RESULT_SOURCES = [''delegation'', ''wake'', ''provider-continuation'', ''steer-late'',
     ''steer-followup'', ''resume'', ''resume_now''] @ FOLLOW_UP_SOURCES"

section \<open>Whether a thread is busy\<close>

record busy_inputs =
  ci_runningOutboundDelegation :: bool
  ci_unconsumedInbox :: bool
  ci_inFlightEffects :: bool
  ci_providerBackgroundWork :: bool
  ci_unreadSteers :: bool

definition is_child_busy :: "run_status list \<Rightarrow> busy_inputs \<Rightarrow> bool" where
  "is_child_busy statuses inputs \<longleftrightarrow>
     list_ex (\<lambda>st. \<not> terminal_run st) statuses \<or> ci_runningOutboundDelegation inputs \<or>
     ci_unconsumedInbox inputs \<or> ci_inFlightEffects inputs \<or> ci_providerBackgroundWork inputs \<or>
     ci_unreadSteers inputs"

definition has_live_run :: "string \<Rightarrow> store \<Rightarrow> bool" where
  "has_live_run threadId s = list_ex (\<lambda>r. rr_threadId r = threadId \<and> \<not> terminal_run (rr_status r)) (runs s)"

definition is_exhausted_row :: "inbox_record \<Rightarrow> bool" where
  "is_exhausted_row row \<longleftrightarrow> jfield (ib_payload row) ''deliveryFailed'' = Some (JBool True)"

text \<open>The run of the effect that delivered a row.\<close>

definition delivering_run :: "effect_record option \<Rightarrow> store \<Rightarrow> run_record option" where
  "delivering_run e s = Option.bind (Option.bind e ef_runId) (\<lambda>runId. get_run runId s)"

definition is_legacy_steer_row :: "inbox_record \<Rightarrow> store \<Rightarrow> bool" where
  "is_legacy_steer_row row s =
     (case ib_deliveredBy row of
        None \<Rightarrow> False
      | Some by \<Rightarrow>
          if by = [] then False
          else if jfield (ib_payload row) ''steerHeldBy'' \<noteq> None \<or> jfield (ib_payload row) ''steerTakenBy'' \<noteq> None
          then False
          else case get_effect by s of
            None \<Rightarrow> False
          | Some e \<Rightarrow>
              if ef_kind e \<noteq> TurnSteer \<or> ef_status e \<noteq> ESucceeded then False
              else map_option rr_status (delivering_run (Some e) s) = Some RCompleted)"

definition delivery_stopped_by_user :: "inbox_record \<Rightarrow> store \<Rightarrow> bool" where
  "delivery_stopped_by_user row s =
     (case ib_deliveredBy row of
        None \<Rightarrow> False
      | Some by \<Rightarrow>
          if by = [] then False
          else case delivering_run (get_effect by s) s of
            None \<Rightarrow> False
          | Some run \<Rightarrow> terminal_run (rr_status run) \<and> stopped_by_person (rr_outcome run))"

definition is_actionable_row :: "inbox_record \<Rightarrow> store \<Rightarrow> bool" where
  "is_actionable_row row s =
     (if ib_status row = IAcknowledged then False
      else if is_exhausted_row row then False
      else if ib_status row \<noteq> IDelivered then True
      else if ib_deliveredBy row = None then False
      else \<not> delivery_stopped_by_user row s \<and> \<not> is_legacy_steer_row row s)"

definition actionable_inbox :: "string \<Rightarrow> store \<Rightarrow> bool" where
  "actionable_inbox threadId s =
     list_ex (\<lambda>row. is_actionable_row row s)
       (list_by_status threadId IPending s @ list_by_status threadId IDelivered s)"

definition delivery_effect :: "effect_record \<Rightarrow> bool" where
  "delivery_effect e \<longleftrightarrow> (ef_status e = EPending \<or> ef_status e = ERunning) \<and>
     (ef_kind e = TurnSteer \<or> (ef_kind e = TurnStart \<and> is_wake_turn_payload (ef_payload e)))"

definition has_in_flight_delivery_effect :: "string \<Rightarrow> store \<Rightarrow> bool" where
  "has_in_flight_delivery_effect threadId s =
     list_ex (\<lambda>e. ef_threadId e = threadId \<and> delivery_effect e) (effects s)"

definition has_running_outbound :: "string \<Rightarrow> store \<Rightarrow> bool" where
  "has_running_outbound threadId s =
     list_ex (\<lambda>d. dg_parentThreadId d = threadId \<and> dg_status d = DRunning) (delegations s)"

definition child_busy_inputs :: "string \<Rightarrow> store \<Rightarrow> busy_inputs" where
  "child_busy_inputs threadId s =
     (let outbound = has_running_outbound threadId s;
          unconsumed = actionable_inbox threadId s;
          inFlight = has_in_flight_delivery_effect threadId s;
          unread = (if outbound \<or> unconsumed \<or> inFlight then False else has_unread_steers threadId s);
          background = (if outbound \<or> unconsumed \<or> inFlight \<or> unread then False
                        else provider_background_work threadId s)
      in \<lparr>ci_runningOutboundDelegation = outbound, ci_unconsumedInbox = unconsumed,
          ci_inFlightEffects = inFlight, ci_providerBackgroundWork = background, ci_unreadSteers = unread\<rparr>)"

definition child_busy :: "string \<Rightarrow> store \<Rightarrow> bool" where
  "child_busy threadId s =
     (if has_live_run threadId s then True else is_child_busy [] (child_busy_inputs threadId s))"

section \<open>The result a task publishes\<close>

definition is_result_run :: "run_record \<Rightarrow> string \<Rightarrow> bool" where
  "is_result_run run ownRunId =
     (if \<not> terminal_run (rr_status run) \<or> rr_source run \<notin> set RESULT_SOURCES then False
      else rr_startedAt run \<noteq> None \<or> rr_runId run = ownRunId)"

text \<open>\<open>listRuns\<close> without a limit: newest first.\<close>

definition all_runs :: "string \<Rightarrow> store \<Rightarrow> run_record list" where
  "all_runs threadId s = rev (sort_key rr_ordinal (filter (\<lambda>r. rr_threadId r = threadId) (runs s)))"

definition latest_result_run :: "delegation_record \<Rightarrow> store \<Rightarrow> run_record option" where
  "latest_result_run d s =
     List.find (\<lambda>run. is_result_run run (dg_childRunId d)) (all_runs (dg_childThreadId d) s)"

text \<open>The first argument is how many continuations may still be followed: 5 at the start.\<close>

fun waitable_run :: "nat \<Rightarrow> run_record \<Rightarrow> store \<Rightarrow> bool" where
  "waitable_run 0 run s =
     (rr_source run = ''mcp'' \<or> oc_sentByAgent (the_outcome (rr_outcome run)) \<noteq> None)"
| "waitable_run (Suc k) run s =
     (if rr_source run = ''mcp'' \<or> oc_sentByAgent (the_outcome (rr_outcome run)) \<noteq> None then True
      else case oc_continuationOf (the_outcome (rr_outcome run)) of
        None \<Rightarrow> False
      | Some earlier \<Rightarrow>
          if earlier = [] then False
          else case get_run earlier s of None \<Rightarrow> False | Some continued \<Rightarrow> waitable_run k continued s)"

definition is_subagent :: "string \<Rightarrow> store \<Rightarrow> bool" where
  "is_subagent threadId s \<longleftrightarrow> map_option ln_relationship (get_lineage threadId s) = Some Subagent"

definition record_run_result_text :: "run_record \<Rightarrow> string option \<Rightarrow> store \<Rightarrow> store" where
  "record_run_result_text run text s =
     (case text of
        None \<Rightarrow> s
      | Some x \<Rightarrow>
          if is_blank x then s
          else if \<not> waitable_run 5 run s \<and> rr_source run \<notin> set RESULT_SOURCES then s
          else if \<not> waitable_run 5 run s \<and> \<not> is_subagent (rr_threadId run) s then s
          else append_event (rr_threadId run) (Some (rr_runId run)) ''run.result''
                 (EvResult (rr_runId run) (take DELEGATION_RESULT_MAX_CHARS x)) s)"

definition is_run_result :: "string \<Rightarrow> thread_event \<Rightarrow> bool" where
  "is_run_result threadId e \<longleftrightarrow> ev_threadId e = threadId \<and> ev_type e = ''run.result''"

fun delete_each_run_result :: "string \<Rightarrow> string list \<Rightarrow> store \<Rightarrow> nat \<times> store" where
  "delete_each_run_result threadId [] s = (0, s)"
| "delete_each_run_result threadId (runId # runIds) s =
     (let P = (\<lambda>e. is_run_result threadId e \<and> ev_runId e = Some runId);
          (removed, s') = delete_each_run_result threadId runIds (s\<lparr>events := filter (\<lambda>e. \<not> P e) (events s)\<rparr>)
      in (length (filter P (events s)) + removed, s'))"

definition delete_run_results :: "string \<Rightarrow> string list option \<Rightarrow> store \<Rightarrow> nat \<times> store" where
  "delete_run_results threadId runIds s =
     (case runIds of
        Some ids \<Rightarrow> if ids = [] then (0, s) else delete_each_run_result threadId ids s
      | None \<Rightarrow> (length (filter (is_run_result threadId) (events s)),
          s\<lparr>events := filter (\<lambda>e. \<not> is_run_result threadId e) (events s)\<rparr>))"

fun result_text :: "event_payload \<Rightarrow> string option" where
  "result_text (EvResult runId text) = Some text"
| "result_text (EvJson payload) = jstring (jfield payload ''text'')"
| "result_text _ = None"

definition read_run_result_text :: "string \<Rightarrow> string \<Rightarrow> store \<Rightarrow> string option" where
  "read_run_result_text threadId runId s =
     (case rev (sort_key ev_seq (filter (\<lambda>e. is_run_result threadId e \<and> ev_runId e = Some runId) (events s))) of
        [] \<Rightarrow> None
      | e # _ \<Rightarrow> result_text (ev_payload e))"

definition NO_FINAL_MESSAGE :: string where
  "NO_FINAL_MESSAGE = ''Subagent finished without a final message.''"

definition result_of :: "run_record \<Rightarrow> store \<Rightarrow> delegation_result" where
  "result_of run s =
     (let text = read_run_result_text (rr_threadId run) (rr_runId run) s;
          result = child_result run text
      in (if rr_status run = RCompleted \<and> (case text of None \<Rightarrow> True | Some x \<Rightarrow> is_blank x)
          then result\<lparr>dr_text := Some NO_FINAL_MESSAGE\<rparr> else result)\<lparr>dr_runId := Some (rr_runId run)\<rparr>)"

definition delivery_failure_result :: "inbox_record \<Rightarrow> run_record option \<Rightarrow> delegation_result" where
  "delivery_failure_result row run =
     (let attempts = (case jfield (ib_payload row) ''attempts'' of
             Some (JNum n) \<Rightarrow> '' after '' @ int_str n @ '' attempts'' | _ \<Rightarrow> []);
          cause = (case jstring (jfield (ib_payload row) ''lastError'') of
             None \<Rightarrow> [] | Some e \<Rightarrow> if e = [] then [] else '': '' @ e)
      in \<lparr>dr_runStatus = RFailed, dr_text = None,
          dr_error = Some (''A notice the subagent was waiting on could not be delivered'' @ attempts @ cause),
          dr_runId = map_option rr_runId run\<rparr>)"

definition NO_FINISHED_RUN :: delegation_result where
  "NO_FINISHED_RUN = \<lparr>dr_runStatus = RFailed, dr_text = None,
     dr_error = Some ''The subagent has no finished run.'', dr_runId = None\<rparr>"

definition waiting_result :: "inbox_record list \<Rightarrow> delegation_record \<Rightarrow> store \<Rightarrow> delegation_result" where
  "waiting_result exhausted d s =
     (let source = latest_result_run d s in
      case List.find (\<lambda>row. dg_createdAt d \<le> ib_createdAt row) exhausted of
        Some row \<Rightarrow> delivery_failure_result row source
      | None \<Rightarrow> (case source of Some run \<Rightarrow> result_of run s | None \<Rightarrow> NO_FINISHED_RUN))"

section \<open>Settling one thread\<close>

definition waits_on :: "string \<Rightarrow> delegation_record \<Rightarrow> bool" where
  "waits_on childThreadId d \<longleftrightarrow> dg_childThreadId d = childThreadId \<and> dg_status d = DRunning"

text \<open>One iteration of the loop over the thread's delegations.\<close>

definition publish_waiting ::
  "inbox_record list \<Rightarrow> delegation_record \<Rightarrow> delegation_record option run_txn" where
  "publish_waiting exhausted candidate s =
     (case get_delegation (dg_delegationId candidate) s of
        None \<Rightarrow> Inr (None, s)
      | Some d \<Rightarrow>
          if dg_status d \<noteq> DRunning then Inr (None, s)
          else case publish enqueue_settle d (waiting_result exhausted d s) s of
            Inl e \<Rightarrow> Inl e
          | Inr (p, s') \<Rightarrow> Inr (Some p, s'))"

definition settle_waiting :: "string \<Rightarrow> delegation_record list run_txn" where
  "settle_waiting childThreadId s =
     (if \<not> list_ex (waits_on childThreadId) (delegations s) then Inr ([], s)
      else if \<not> is_subagent childThreadId s then Inr ([], s)
      else if child_busy childThreadId s then Inr ([], s)
      else
        let exhausted = filter is_exhausted_row (list_by_status childThreadId IDelivered s) in
        case forE (list_for_child childThreadId s) (publish_waiting exhausted) s of
          Inl e \<Rightarrow> Inl e
        | Inr (ps, s') \<Rightarrow> Inr (somes ps, s'))"


section \<open>One publication\<close>

lemma changes_update:
  assumes "\<And>r. P r \<Longrightarrow> Q r \<and> \<not> Q (f r)"
  shows "length (filter Q (update_rows P f rows)) + changes P rows = length (filter Q rows)"
  using assms by (induction rows) (auto simp: update_rows_def changes_def)

lemma changes_pos: "changes P rows = 1 \<Longrightarrow> \<exists>r \<in> set rows. P r"
  by (metis changes_def filter_False list.size(3) zero_neq_one)

definition running_delegations :: "store \<Rightarrow> nat" where
  "running_delegations s = length (filter (\<lambda>d. dg_status d = DRunning) (delegations s))"

definition with_result :: "delegation_result \<Rightarrow> nat \<Rightarrow> delegation_record \<Rightarrow> delegation_record" where
  "with_result r now d = d\<lparr>dg_status := (if dr_runStatus r = RCompleted then DResultAvailable else DFailed),
     dg_result := Some r, dg_completedAt := Some now\<rparr>"

lemma with_result_simps [simp]:
  "dg_delegationId (with_result r n d) = dg_delegationId d"
  "dg_parentThreadId (with_result r n d) = dg_parentThreadId d"
  "dg_parentRunId (with_result r n d) = dg_parentRunId d"
  "dg_childThreadId (with_result r n d) = dg_childThreadId d"
  "dg_childRunId (with_result r n d) = dg_childRunId d"
  "dg_createdAt (with_result r n d) = dg_createdAt d"
  "dg_status (with_result r n d) \<noteq> DRunning"
  "dg_status (with_result r n d) \<in> set (delegation_moves DRunning)"
  by (simp_all add: with_result_def)

definition task_row :: "string \<Rightarrow> delegation_record \<Rightarrow> bool" where
  "task_row delegationId d \<longleftrightarrow> dg_delegationId d = delegationId \<and> dg_status d = DRunning"

lemma set_delegation_status_Inr:
  assumes "set_delegation_status settle dId from to result at s = Inr (p, s')"
  obtains current where "get_delegation dId s = Some current" "dg_status current = from"
    "to \<in> set (delegation_moves from)"
    "p = current\<lparr>dg_status := to, dg_result := patched result (dg_result current),
        dg_completedAt := patched at (dg_completedAt current)\<rparr>"
    "changes (\<lambda>d. dg_delegationId d = dId \<and> dg_status d = from) (delegations s) = 1"
    "let s1 = delegation_recorded p (s\<lparr>delegations := update_rows
           (\<lambda>d. dg_delegationId d = dId \<and> dg_status d = from)
           (\<lambda>d. d\<lparr>dg_status := dg_status p, dg_result := dg_result p, dg_completedAt := dg_completedAt p\<rparr>)
           (delegations s)\<rparr>)
     in if from = DRunning then settle (dg_parentThreadId current) s1 = Inr s' else s' = s1"
proof -
  from assms obtain current where c: "get_delegation dId s = Some current" "dg_status current = from"
      "to \<in> set (delegation_moves from)"
    by (auto simp: set_delegation_status_def split: option.splits if_splits)
  have i: "dg_delegationId current = dId"
    using c(1) lookup_row_Some by (force simp: get_delegation_def)
  show thesis
    by (rule that [OF c])
      (use assms c i in \<open>auto simp: set_delegation_status_def Let_def split: if_splits sum.splits\<close>)
qed

lemma enqueue_settle_Inr:
  assumes "enqueue_settle t s = Inr s'"
  obtains q where "s' = s\<lparr>settle_queue := q\<rparr>" "set q = insert t (set (settle_queue s))"
proof -
  let ?q = "if t \<in> set (settle_queue s) then settle_queue s else settle_queue s @ [t]"
  show thesis
    by (rule that [of ?q]) (use assms in \<open>auto simp: enqueue_settle_def split: if_splits\<close>)
qed

lemma publish_Inr:
  assumes "publish enqueue_settle d r s = Inr (p, s')" "get_delegation (dg_delegationId d) s = Some d"
  obtains row where "inbox s' = inbox s @ [row]" "ib_threadId row = dg_parentThreadId d"
    "ib_status row = IPending" "ib_kind row = ChildResult"
    "ib_payload row = stored (child_result_payload d r)"
    "dg_status d = DRunning" "p = with_result r (clock s) d"
    "changes (task_row (dg_delegationId d)) (delegations s) = 1"
    "delegations s' = update_rows (task_row (dg_delegationId d)) (with_result r (clock s)) (delegations s)"
    "clock s' = clock s" "runs s' = runs s" "attempts s' = attempts s" "effects s' = effects s"
    "lineage s' = lineage s" "provider_background s' = provider_background s"
    "unread_steers s' = unread_steers s" "approvals s' = approvals s"
    "stop_generations s' = stop_generations s" "set (settle_queue s) \<subseteq> set (settle_queue s')"
    "get_inbox (ib_inboxId row) s = None" "ib_deliveredBy row = None"
proof -
  let ?to = "if dr_runStatus r = RCompleted then DResultAvailable else DFailed"
  from assms obtain row s1 where run: "dg_status d = DRunning"
      "inbox_append (dg_parentThreadId d) (Some (dg_parentRunId d)) ChildResult (child_result_payload d r) None s = Inr (row, s1)"
      "set_delegation_status enqueue_settle (dg_delegationId d) DRunning ?to (Some (Some r)) (Some (Some (clock s1))) s1 = Inr (p, s')"
    by (auto simp: publish_def split: if_splits sum.splits)
  note row = inbox_append_Inr [OF run(2)] and fr = inbox_append_frame [OF run(2)]
  have cur: "get_delegation (dg_delegationId d) s1 = Some d"
    using assms(2) fr by (simp add: get_delegation_def)
  let ?P = "\<lambda>x. dg_delegationId x = dg_delegationId d \<and> dg_status x = DRunning"
  obtain current where c: "get_delegation (dg_delegationId d) s1 = Some current"
      "p = current\<lparr>dg_status := ?to, dg_result := patched (Some (Some r)) (dg_result current),
         dg_completedAt := patched (Some (Some (clock s1))) (dg_completedAt current)\<rparr>"
      "changes ?P (delegations s1) = 1"
      "let s2 = delegation_recorded p (s1\<lparr>delegations := update_rows ?P
           (\<lambda>d. d\<lparr>dg_status := dg_status p, dg_result := dg_result p, dg_completedAt := dg_completedAt p\<rparr>)
           (delegations s1)\<rparr>)
       in if DRunning = DRunning then enqueue_settle (dg_parentThreadId current) s2 = Inr s' else s' = s2"
    by (rule set_delegation_status_Inr [OF run(3)]) blast
  have p: "p = with_result r (clock s) d"
    using c(1,2) cur fr(1) by (simp add: with_result_def patched_def)
  have task: "?P = task_row (dg_delegationId d)"
    by (simp add: task_row_def fun_eq_iff)
  have f: "(\<lambda>d. d\<lparr>dg_status := dg_status p, dg_result := dg_result p, dg_completedAt := dg_completedAt p\<rparr>)
      = with_result r (clock s)"
    by (simp add: p with_result_def fun_eq_iff)
  let ?s2 = "delegation_recorded p (s1\<lparr>delegations := update_rows
      (task_row (dg_delegationId d)) (with_result r (clock s)) (delegations s1)\<rparr>)"
  have "enqueue_settle (dg_parentThreadId current) ?s2 = Inr s'"
    using c(4) unfolding f task Let_def by simp
  then obtain q where "s' = ?s2\<lparr>settle_queue := q\<rparr>"
      "set q = insert (dg_parentThreadId current) (set (settle_queue ?s2))"
    by (rule enqueue_settle_Inr)
  then have s': "s' = (delegation_recorded p (s1\<lparr>delegations := update_rows
      (task_row (dg_delegationId d)) (with_result r (clock s)) (delegations s1)\<rparr>))\<lparr>settle_queue := q\<rparr>"
      "set (settle_queue s) \<subseteq> set q"
    using fr by (auto simp: delegation_recorded_def)
  show thesis
    by (rule that [of row])
      (use row fr s' p run(1) c(3) in \<open>simp_all add: delegation_recorded_def task\<close>)
qed


section \<open>Publications\<close>

text \<open>What the loop does to the store: publications, one after the other, and queueing threads.\<close>

inductive publishing :: "store \<Rightarrow> store \<Rightarrow> bool" where
  publishing_refl: "publishing s s"
| publishing_queue: "publishing s s' \<Longrightarrow> publishing s (s'\<lparr>settle_queue := q\<rparr>)"
| publishing_step: "publishing s s' \<Longrightarrow> get_delegation (dg_delegationId d) s' = Some d \<Longrightarrow>
     publish enqueue_settle d r s' = Inr (p, s'') \<Longrightarrow> publishing s s''"

lemma publishing_trans:
  assumes "publishing s' s''" "publishing s s'"
  shows "publishing s s''"
  using assms by (induction rule: publishing.induct) (blast intro: publishing.intros)+

lemma publishing_frame:
  assumes "publishing s s'"
  shows "clock s' = clock s" "runs s' = runs s" "attempts s' = attempts s" "effects s' = effects s"
    "lineage s' = lineage s" "provider_background s' = provider_background s"
    "unread_steers s' = unread_steers s" "approvals s' = approvals s"
    "stop_generations s' = stop_generations s"
  using assms by (induction rule: publishing.induct) (auto elim!: publish_Inr)

lemma publishing_inbox:
  assumes "publishing s s'"
  shows "\<exists>rows. inbox s' = inbox s @ rows \<and> (\<forall>r \<in> set rows. ib_deliveredBy r = None \<and> ib_status r = IPending)"
    and "distinct (map ib_inboxId (inbox s)) \<Longrightarrow> distinct (map ib_inboxId (inbox s'))"
  using assms
proof (induction rule: publishing.induct)
  case (publishing_step s s' d r p s'')
  obtain row where new: "inbox s'' = inbox s' @ [row]" "get_inbox (ib_inboxId row) s' = None"
      "ib_deliveredBy row = None" "ib_status row = IPending"
    by (rule publish_Inr [OF publishing_step.hyps(3,2)]) blast
  {
    case 1
    then show ?case using publishing_step.IH(1) new by fastforce
  next
    case 2
    then show ?case
      using publishing_step.IH(2) new by (auto simp: get_inbox_def lookup_row_None)
  }
qed auto

lemma publishing_store_evolves: "publishing s s' \<Longrightarrow> store_evolves s s'"
  by (rule store_evolves_same) (rule publishing_frame)

text \<open>What the run engine needs of the task and inbox tables so that no publication fails.\<close>

definition task_ok :: "store \<Rightarrow> bool" where
  "task_ok s \<longleftrightarrow> distinct (map dg_delegationId (delegations s)) \<and> fresh_uuids s"

lemma task_ok_queue [simp]: "task_ok (s\<lparr>settle_queue := q\<rparr>) = task_ok s"
  by (simp add: task_ok_def fresh_uuids_def)

lemma task_row_changes:
  assumes "distinct (map dg_delegationId (delegations s))" "d \<in> set (delegations s)" "dg_status d = DRunning"
  shows "changes (\<lambda>x. dg_delegationId x = dg_delegationId d \<and> dg_status x = DRunning) (delegations s) = 1"
  by (rule changes_unique [OF assms(1,2)]) (use assms(3) in auto)

lemma publish_total:
  assumes ok: "task_ok s" and d: "get_delegation (dg_delegationId d) s = Some d" "dg_status d = DRunning"
  shows "\<exists>p s'. publish enqueue_settle d r s = Inr (p, s') \<and> task_ok s'"
proof -
  obtain row s1 where a: "inbox_append (dg_parentThreadId d) (Some (dg_parentRunId d)) ChildResult
      (child_result_payload d r) None s = Inr (row, s1)" "fresh_uuids s1"
    using inbox_append_fresh ok unfolding task_ok_def by blast
  note fr = inbox_append_frame [OF a(1)]
  have mem: "d \<in> set (delegations s1)"
    using d(1) fr by (auto simp: get_delegation_def dest: lookup_row_Some)
  have dist: "distinct (map dg_delegationId (delegations s1))"
    using ok fr by (simp add: task_ok_def)
  have "get_delegation (dg_delegationId d) s1 = Some d"
    using d fr by (simp add: get_delegation_def)
  with d a task_row_changes [OF dist mem d(2)] fr show ?thesis
    using dist by (auto simp: publish_def set_delegation_status_def Let_def enqueue_settle_def
        delegation_recorded_def task_ok_def fresh_uuids_def)
qed

lemma publishing_task_ok:
  assumes "publishing s s'" "task_ok s"
  shows "task_ok s'"
  using assms
proof (induction rule: publishing.induct)
  case (publishing_step s s' d r p s'')
  then have "dg_status d = DRunning" by (auto elim: publish_Inr)
  with publish_total [of s' d r] publishing_step show ?case by auto
qed auto

text \<open>A thread that was busy stays busy, and no delegation starts running.\<close>

lemma child_busy_iff:
  "child_busy t s \<longleftrightarrow> has_live_run t s \<or> has_running_outbound t s \<or> actionable_inbox t s \<or>
     has_in_flight_delivery_effect t s \<or> has_unread_steers t s \<or> provider_background_work t s"
  by (auto simp: child_busy_def is_child_busy_def child_busy_inputs_def Let_def)

lemma actionable_inbox_iff:
  "actionable_inbox t s \<longleftrightarrow> (\<exists>row \<in> set (inbox s). ib_threadId row = t \<and> is_actionable_row row s)"
proof -
  have "is_actionable_row row s \<longleftrightarrow>
      (ib_status row = IPending \<or> ib_status row = IDelivered) \<and> is_actionable_row row s" for row
    by (cases "ib_status row") (auto simp: is_actionable_row_def)
  then show ?thesis
    unfolding actionable_inbox_def list_by_status_def list_ex_iff set_append set_by_created set_filter
    by blast
qed

lemma stored_child_result:
  "jfield (stored (child_result_payload d r)) k =
     map_of [(''childRunId'', JStr (dg_childRunId d)), (''childThreadId'', JStr (dg_childThreadId d)),
       (''delegationId'', JStr (dg_delegationId d)), (''result'', stored (result_json r))] k"
proof -
  have "sort_key fst [(''delegationId'', JStr (dg_delegationId d)), (''childThreadId'', JStr (dg_childThreadId d)),
      (''childRunId'', JStr (dg_childRunId d)), (''result'', result_json r)] =
    [(''childRunId'', JStr (dg_childRunId d)), (''childThreadId'', JStr (dg_childThreadId d)),
      (''delegationId'', JStr (dg_delegationId d)), (''result'', result_json r)]"
    by simp
  moreover obtain v where "canon (result_json r) = Some v"
    using canon_None [of "result_json r"] by (cases "canon (result_json r)") (auto simp: result_json_def)
  ultimately show ?thesis
    unfolding stored_def child_result_payload_def canon_object
    by (simp add: map_filter_simps)
qed

lemma publish_row_actionable:
  assumes "publish enqueue_settle d r s = Inr (p, s')" "get_delegation (dg_delegationId d) s = Some d"
  shows "actionable_inbox (dg_parentThreadId d) s'"
proof -
  obtain row where "inbox s' = inbox s @ [row]" "ib_threadId row = dg_parentThreadId d"
      "ib_status row = IPending" "ib_payload row = stored (child_result_payload d r)"
    by (rule publish_Inr [OF assms]) blast
  moreover from this have "is_actionable_row row s'"
    by (simp add: is_actionable_row_def is_exhausted_row_def stored_child_result)
  ultimately show ?thesis by (auto simp: actionable_inbox_iff)
qed

lemma is_actionable_row_cong:
  "runs s' = runs s \<Longrightarrow> effects s' = effects s \<Longrightarrow> is_actionable_row row s' = is_actionable_row row s"
  by (simp add: is_actionable_row_def delivery_stopped_by_user_def is_legacy_steer_row_def
      delivering_run_def get_run_def get_effect_def cong: option.case_cong)

lemma child_busy_queue [simp]: "child_busy t (s\<lparr>settle_queue := q\<rparr>) = child_busy t s"
  using is_actionable_row_cong [of "s\<lparr>settle_queue := q\<rparr>" s]
  by (simp add: child_busy_iff has_live_run_def has_running_outbound_def actionable_inbox_iff
      has_in_flight_delivery_effect_def has_unread_steers_def provider_background_work_def)

lemma publish_keeps_busy:
  assumes run: "publish enqueue_settle d r s = Inr (p, s')" "get_delegation (dg_delegationId d) s = Some d"
    and busy: "child_busy t s"
  shows "child_busy t s'"
proof (cases "t = dg_parentThreadId d")
  case True
  then show ?thesis
    using publish_row_actionable [OF run] by (simp add: child_busy_iff)
next
  case False
  obtain row where o: "inbox s' = inbox s @ [row]"
    "delegations s' = update_rows (task_row (dg_delegationId d)) (with_result r (clock s)) (delegations s)"
    "changes (task_row (dg_delegationId d)) (delegations s) = 1" "dg_status d = DRunning"
    "runs s' = runs s" "effects s' = effects s" "provider_background s' = provider_background s"
    "unread_steers s' = unread_steers s"
    by (rule publish_Inr [OF run]) blast
  have mem: "d \<in> set (delegations s)" "task_row (dg_delegationId d) d"
    using run(2) o(4) by (auto simp: get_delegation_def task_row_def dest: lookup_row_Some)
  have keep: "x \<in> set (delegations s')" if "x \<in> set (delegations s)" "dg_parentThreadId x = t" for x
  proof -
    have "\<not> task_row (dg_delegationId d) x"
      using changes_1_unique [OF o(3) mem that(1)] that(2) False by blast
    with that(1) show ?thesis unfolding o(2) set_update_rows by force
  qed
  have "has_running_outbound t s \<Longrightarrow> has_running_outbound t s'"
    using keep by (auto simp: has_running_outbound_def list_ex_iff)
  moreover have "actionable_inbox t s \<Longrightarrow> actionable_inbox t s'"
    using o is_actionable_row_cong [of s' s] by (auto simp: actionable_inbox_iff)
  ultimately show ?thesis
    using busy o by (auto simp: child_busy_iff has_live_run_def has_in_flight_delivery_effect_def
        has_unread_steers_def provider_background_work_def)
qed

lemma publishing_busy: "publishing s s' \<Longrightarrow> child_busy t s \<Longrightarrow> child_busy t s'"
  by (induction rule: publishing.induct) (auto intro: publish_keeps_busy)

lemma publishing_running:
  assumes "publishing s s'" "d' \<in> set (delegations s')" "dg_status d' = DRunning"
  shows "d' \<in> set (delegations s)"
  using assms
proof (induction rule: publishing.induct)
  case (publishing_step s s' d r p s'')
  from publishing_step.hyps(2,3) have "delegations s'' =
      update_rows (task_row (dg_delegationId d)) (with_result r (clock s')) (delegations s')"
    by (auto elim: publish_Inr)
  with publishing_step.prems have "d' \<in> set (delegations s')"
    by (auto simp: set_update_rows split: if_splits)
  with publishing_step.IH publishing_step.prems(2) show ?case by blast
qed auto

section \<open>Settled threads\<close>

text \<open>No task waits on a subagent that is not busy.\<close>

definition settled :: "string \<Rightarrow> store \<Rightarrow> bool" where
  "settled t s \<longleftrightarrow> (is_subagent t s \<and> \<not> child_busy t s \<longrightarrow> \<not> list_ex (waits_on t) (delegations s))"

lemma publishing_settled:
  assumes "publishing s s'" "settled t s"
  shows "settled t s'"
  unfolding settled_def
proof
  assume "is_subagent t s' \<and> \<not> child_busy t s'"
  then have "is_subagent t s \<and> \<not> child_busy t s"
    using publishing_busy [OF assms(1)] publishing_frame(5) [OF assms(1)]
    by (auto simp: is_subagent_def get_lineage_def)
  with assms(2) have "\<not> list_ex (waits_on t) (delegations s)"
    by (simp add: settled_def)
  then show "\<not> list_ex (waits_on t) (delegations s')"
    using publishing_running [OF assms(1)] by (auto simp: list_ex_iff waits_on_def)
qed


section \<open>Settling one thread\<close>

lemma get_delegation_self:
  "get_delegation dId s = Some d \<Longrightarrow> get_delegation (dg_delegationId d) s = Some d"
  using lookup_row_Some [of dg_delegationId dId "delegations s" d] by (simp add: get_delegation_def)

lemma publish_waiting_publishing:
  "publish_waiting ex c s = Inr (x, s') \<Longrightarrow> publishing s s'"
  by (auto simp: publish_waiting_def split: option.splits if_splits sum.splits
      intro: publishing_refl publishing_step dest: get_delegation_self)

lemma publish_waiting_total:
  "task_ok s \<Longrightarrow> \<exists>x s'. publish_waiting ex c s = Inr (x, s')"
proof (cases "get_delegation (dg_delegationId c) s")
  case (Some d)
  assume "task_ok s"
  with publish_total [of s d "waiting_result ex d s"] get_delegation_self [OF Some] Some
  show ?thesis by (cases "dg_status d = DRunning") (auto simp: publish_waiting_def)
qed (auto simp: publish_waiting_def)

text \<open>An iteration leaves its candidate not running.\<close>

lemma publish_waiting_done:
  assumes "publish_waiting ex c s = Inr (x, s')" "task_ok s"
    and d: "d \<in> set (delegations s')" "dg_delegationId d = dg_delegationId c"
  shows "dg_status d \<noteq> DRunning"
proof
  assume running: "dg_status d = DRunning"
  have "d \<in> set (delegations s)"
    by (rule publishing_running [OF publish_waiting_publishing [OF assms(1)] d(1) running])
  then have cur: "get_delegation (dg_delegationId c) s = Some d"
    using assms(2) d(2) lookup_row_mem [of dg_delegationId "delegations s" d]
    by (simp add: task_ok_def get_delegation_def)
  with assms(1) running obtain p where "publish enqueue_settle d (waiting_result ex d s) s = Inr (p, s')"
    by (auto simp: publish_waiting_def split: sum.splits)
  with get_delegation_self [OF cur] have
    "delegations s' = update_rows (task_row (dg_delegationId d)) (with_result (waiting_result ex d s) (clock s)) (delegations s)"
    by (auto elim: publish_Inr)
  with d obtain x where x: "x \<in> set (delegations s)"
      "d = (if task_row (dg_delegationId d) x then with_result (waiting_result ex d s) (clock s) x else x)"
    by (auto simp: set_update_rows)
  show False
  proof (cases "task_row (dg_delegationId d) x")
    case True
    with x(2) with_result_simps(7) running show False by metis
  next
    case False
    with x(2) running show False by (auto simp: task_row_def)
  qed
qed

lemma publish_waiting_progress:
  assumes "publish_waiting ex c s = Inr (x, s')"
  shows "running_delegations s' < running_delegations s \<or> (s' = s \<and> x = None)"
proof (cases "get_delegation (dg_delegationId c) s")
  case None
  then show ?thesis using assms by (simp add: publish_waiting_def)
next
  case (Some d)
  show ?thesis
  proof (cases "dg_status d = DRunning")
    case True
    with assms Some obtain p where pub: "publish enqueue_settle d (waiting_result ex d s) s = Inr (p, s')"
      by (auto simp: publish_waiting_def split: sum.splits)
    let ?r = "waiting_result ex d s"
    have "changes (task_row (dg_delegationId d)) (delegations s) = 1"
      "delegations s' = update_rows (task_row (dg_delegationId d)) (with_result ?r (clock s)) (delegations s)"
      using get_delegation_self [OF Some] pub by (auto elim: publish_Inr)
    with changes_update [of "task_row (dg_delegationId d)" "\<lambda>d. dg_status d = DRunning"
        "with_result ?r (clock s)" "delegations s"]
    show ?thesis by (simp add: running_delegations_def task_row_def)
  qed (use assms Some in \<open>simp add: publish_waiting_def\<close>)
qed

lemma publish_loop:
  assumes "forE cs (publish_waiting ex) s = Inr (xs, s')"
  shows "publishing s s'"
    and "running_delegations s' < running_delegations s \<or> (s' = s \<and> somes xs = [])"
    and "task_ok s \<Longrightarrow> c \<in> set cs \<Longrightarrow> d \<in> set (delegations s') \<Longrightarrow>
      dg_delegationId d = dg_delegationId c \<Longrightarrow> dg_status d \<noteq> DRunning"
  using assms
proof (induction cs arbitrary: s xs)
  case Nil
  {
    case 1
    then show ?case by (simp add: publishing_refl)
  next
    case 2
    then show ?case by (simp add: somes_def map_filter_simps)
  next
    case 3
    then show ?case by simp
  }
next
  case (Cons a cs)
  have split: "\<exists>x s1 ys. publish_waiting ex a s = Inr (x, s1) \<and> forE cs (publish_waiting ex) s1 = Inr (ys, s') \<and> xs = x # ys"
    if "forE (a # cs) (publish_waiting ex) s = Inr (xs, s')" for s xs
    using that by (auto split: sum.splits)
  {
    case 1
    obtain x s1 ys where s: "publish_waiting ex a s = Inr (x, s1)"
      "forE cs (publish_waiting ex) s1 = Inr (ys, s')"
      using split [OF 1] by blast
    show ?case
      by (rule publishing_trans [OF Cons.IH(1) [OF s(2)] publish_waiting_publishing [OF s(1)]])
  next
    case 2
    obtain x s1 ys where s: "publish_waiting ex a s = Inr (x, s1)"
      "forE cs (publish_waiting ex) s1 = Inr (ys, s')" "xs = x # ys"
      using split [OF 2] by blast
    show ?case
      using publish_waiting_progress [OF s(1)] Cons.IH(2) [OF s(2)]
      by (auto simp: s(3) somes_def map_filter_simps)
  next
    case 3
    obtain x s1 ys where s: "publish_waiting ex a s = Inr (x, s1)"
      "forE cs (publish_waiting ex) s1 = Inr (ys, s')"
      using split [OF 3(5)] by blast
    have ok: "task_ok s1"
      by (rule publishing_task_ok [OF publish_waiting_publishing [OF s(1)] 3(1)])
    show ?case
    proof (cases "c = a")
      case True
      show ?thesis
      proof
        assume running: "dg_status d = DRunning"
        have "d \<in> set (delegations s1)"
          by (rule publishing_running [OF Cons.IH(1) [OF s(2)] 3(3) running])
        with publish_waiting_done [OF s(1) 3(1)] 3(4) True running show False by simp
      qed
    next
      case False
      with 3 show ?thesis using Cons.IH(3) [OF ok _ _ _ s(2)] by simp
    qed
  }
qed

lemma publish_loop_total:
  "task_ok s \<Longrightarrow> \<exists>xs s'. forE cs (publish_waiting ex) s = Inr (xs, s')"
proof (induction cs arbitrary: s)
  case (Cons c cs)
  from publish_waiting_total [OF Cons.prems] obtain x s1 where x: "publish_waiting ex c s = Inr (x, s1)"
    by blast
  have "task_ok s1"
    by (rule publishing_task_ok [OF publish_waiting_publishing [OF x] Cons.prems])
  with Cons.IH obtain xs s' where "forE cs (publish_waiting ex) s1 = Inr (xs, s')" by blast
  with x show ?case by simp
qed simp

lemma settle_waiting_publishing: "settle_waiting t s = Inr (ps, s') \<Longrightarrow> publishing s s'"
  by (auto simp: settle_waiting_def Let_def split: if_splits sum.splits
      intro: publishing_refl publish_loop(1))

lemma publish_waiting_queue:
  "publish_waiting ex c s = Inr (x, s') \<Longrightarrow> set (settle_queue s) \<subseteq> set (settle_queue s')"
  by (auto simp: publish_waiting_def split: option.splits if_splits sum.splits
      dest: get_delegation_self elim: publish_Inr)

lemma settle_waiting_queue:
  assumes "settle_waiting t s = Inr (ps, s')"
  shows "set (settle_queue s) \<subseteq> set (settle_queue s')"
proof -
  have "set (settle_queue s) \<subseteq> set (settle_queue s')"
    if "forE cs (publish_waiting ex) s = Inr (xs, s')" for cs ex xs
    by (rule forE_induct_state [OF _ _ that, where P = "\<lambda>u. set (settle_queue s) \<subseteq> set (settle_queue u)"])
      (use publish_waiting_queue in blast)+
  with assms show ?thesis
    by (auto simp: settle_waiting_def Let_def split: if_splits sum.splits)
qed

lemma settle_waiting_total: "task_ok s \<Longrightarrow> \<exists>ps s'. settle_waiting t s = Inr (ps, s')"
  using publish_loop_total [of s "list_for_child t s"]
  by (auto simp: settle_waiting_def Let_def split: sum.splits) (metis sum.distinct(1))

lemma settle_waiting_progress:
  "settle_waiting t s = Inr (ps, s') \<Longrightarrow> running_delegations s' < running_delegations s \<or> s' = s"
  using publish_loop(2) by (fastforce simp: settle_waiting_def Let_def split: if_splits sum.splits)

lemma settle_waiting_settles:
  assumes run: "settle_waiting t s = Inr (ps, s')" and ok: "task_ok s"
  shows "settled t s'"
proof (cases "list_ex (waits_on t) (delegations s) \<and> is_subagent t s \<and> \<not> child_busy t s")
  case True
  then obtain xs where loop: "forE (list_for_child t s)
      (publish_waiting (filter is_exhausted_row (list_by_status t IDelivered s))) s = Inr (xs, s')"
    using run by (auto simp: settle_waiting_def Let_def split: sum.splits)
  have "\<not> waits_on t d" if d: "d \<in> set (delegations s')" for d
  proof
    assume w: "waits_on t d"
    then have "d \<in> set (delegations s)"
      using publishing_running [OF publish_loop(1) [OF loop] d] by (simp add: waits_on_def)
    with w have "d \<in> set (list_for_child t s)"
      by (simp add: list_for_child_def waits_on_def)
    from publish_loop(3) [OF loop ok this d] w show False by (simp add: waits_on_def)
  qed
  then show ?thesis by (simp add: settled_def list_ex_iff)
next
  case False
  then have "s' = s" using run by (auto simp: settle_waiting_def split: if_splits)
  with False show ?thesis by (auto simp: settled_def)
qed

section \<open>The work loop\<close>

function drain_settle :: "store \<Rightarrow> store_error + store" where
  "drain_settle s =
     (case settle_queue s of
        [] \<Rightarrow> Inr s
      | nxt # rest \<Rightarrow>
          (case settle_waiting nxt (s\<lparr>settle_queue := rest\<rparr>) of
             Inl e \<Rightarrow> Inl e
           | Inr (published, s') \<Rightarrow> drain_settle s'))"
  by pat_completeness auto

termination
proof (relation "measures [running_delegations, \<lambda>s. length (settle_queue s)]")
  fix s nxt rest r published s'
  assume "settle_queue s = nxt # rest" "settle_waiting nxt (s\<lparr>settle_queue := rest\<rparr>) = Inr r" "(published, s') = r"
  then show "(s', s) \<in> measures [running_delegations, \<lambda>s. length (settle_queue s)]"
    using settle_waiting_progress [of nxt "s\<lparr>settle_queue := rest\<rparr>" published s']
    by (auto simp: running_delegations_def)
qed simp

declare drain_settle.simps [simp del]

definition settle_hold :: settle_call where
  "settle_hold threadId s =
     (case enqueue_settle threadId s of Inl e \<Rightarrow> Inl e | Inr s1 \<Rightarrow> drain_settle s1)"

lemma drain_settle_publishing: "drain_settle s = Inr s' \<Longrightarrow> publishing s s'"
proof (induction s rule: drain_settle.induct)
  case (1 s)
  show ?case
  proof (cases "settle_queue s")
    case Nil
    with 1(2) show ?thesis by (simp add: drain_settle.simps [of s] publishing_refl)
  next
    case (Cons t rest)
    with 1(2) obtain ps s1 where step: "settle_waiting t (s\<lparr>settle_queue := rest\<rparr>) = Inr (ps, s1)"
      "drain_settle s1 = Inr s'"
      by (auto simp: drain_settle.simps [of s] split: sum.splits)
    have "publishing s (s\<lparr>settle_queue := rest\<rparr>)"
      by (rule publishing_queue [OF publishing_refl])
    with 1(1) [OF Cons step(1) refl step(2)] settle_waiting_publishing [OF step(1)]
    show ?thesis by (meson publishing_trans)
  qed
qed

lemma drain_settle_total: "task_ok s \<Longrightarrow> \<exists>s'. drain_settle s = Inr s' \<and> settle_queue s' = []"
proof (induction s rule: drain_settle.induct)
  case (1 s)
  show ?case
  proof (cases "settle_queue s")
    case Nil
    then show ?thesis by (simp add: drain_settle.simps [of s])
  next
    case (Cons t rest)
    let ?s = "s\<lparr>settle_queue := rest\<rparr>"
    have ok: "task_ok ?s" using 1(2) by simp
    with settle_waiting_total obtain ps s1 where step: "settle_waiting t ?s = Inr (ps, s1)" by blast
    with 1(1) [OF Cons step refl] publishing_task_ok [OF settle_waiting_publishing [OF step] ok] Cons
    show ?thesis by (simp add: drain_settle.simps [of s])
  qed
qed

lemma drain_settle_settles:
  "drain_settle s = Inr s' \<Longrightarrow> task_ok s \<Longrightarrow> t \<in> set (settle_queue s) \<Longrightarrow> settled t s'"
proof (induction s rule: drain_settle.induct)
  case (1 s)
  then obtain u rest where q: "settle_queue s = u # rest" by (cases "settle_queue s") auto
  let ?s = "s\<lparr>settle_queue := rest\<rparr>"
  from q 1(2) obtain ps s1 where step: "settle_waiting u ?s = Inr (ps, s1)" "drain_settle s1 = Inr s'"
    by (auto simp: drain_settle.simps [of s] split: sum.splits)
  have ok: "task_ok ?s" using 1(3) by simp
  have pub: "publishing s1 s'" by (rule drain_settle_publishing [OF step(2)])
  show ?case
  proof (cases "t = u")
    case True
    show ?thesis
      unfolding True by (rule publishing_settled [OF pub settle_waiting_settles [OF step(1) ok]])
  next
    case False
    with 1(4) q settle_waiting_queue [OF step(1)] have "t \<in> set (settle_queue s1)" by auto
    then show ?thesis
      by (rule 1(1) [OF q step(1) refl step(2) publishing_task_ok [OF settle_waiting_publishing [OF step(1)] ok]])
  qed
qed

end
