(* ===== verification/Settling.thy ===== *)
theory Settling
  imports Hold
begin

text \<open>
  The contract of \<open>store.settleHold\<close>, which every operation that changes what \<open>child_busy\<close> reads
  relies on, as two locales: \<open>settle_provider\<close> (a call only publishes waiting tasks and does not
  fail), which both the queueing call inside the loop and the full call satisfy, and \<open>settling\<close>
  (afterwards the thread is settled), which the full call satisfies. The compare-and-set move of a
  delegation is proved once against it.
\<close>

section \<open>All threads settled\<close>

definition all_settled :: "store \<Rightarrow> bool" where
  "all_settled s \<longleftrightarrow> list_all (\<lambda>d. settled (dg_childThreadId d) s) (delegations s)"

lemma settled_no_task: "\<not> list_ex (waits_on t) (delegations s) \<Longrightarrow> settled t s"
  by (simp add: settled_def)

lemma all_settled_iff: "all_settled s \<longleftrightarrow> (\<forall>t. settled t s)"
proof
  assume all: "all_settled s"
  show "\<forall>t. settled t s"
  proof
    fix t
    show "settled t s"
    proof (cases "list_ex (waits_on t) (delegations s)")
      case True
      then obtain d where "d \<in> set (delegations s)" "dg_childThreadId d = t"
        by (auto simp: list_ex_iff waits_on_def)
      with all show ?thesis by (auto simp: all_settled_def list_all_iff)
    qed (rule settled_no_task)
  qed
qed (simp add: all_settled_def list_all_iff)

definition settled_except :: "string set \<Rightarrow> store \<Rightarrow> bool" where
  "settled_except X s \<longleftrightarrow> (\<forall>t. t \<notin> X \<longrightarrow> settled t s)"

lemma settled_except_empty: "settled_except {} s = all_settled s"
  by (simp add: settled_except_def all_settled_iff)

lemma settled_exceptI: "all_settled s \<Longrightarrow> settled_except X s"
  by (simp add: settled_except_def all_settled_iff)

text \<open>Threads whose inputs only got busier stay settled.\<close>

lemma settled_mono:
  assumes "settled t s" "lineage s' = lineage s" "child_busy t s \<Longrightarrow> child_busy t s'"
    and "\<And>d. d \<in> set (delegations s') \<Longrightarrow> waits_on t d \<Longrightarrow> list_ex (waits_on t) (delegations s)"
  shows "settled t s'"
  using assms by (auto simp: settled_def is_subagent_def get_lineage_def list_ex_iff)

text \<open>The parts of the store that \<open>child_busy\<close> and \<open>settled\<close> read.\<close>

definition same_hold_inputs :: "store \<Rightarrow> store \<Rightarrow> bool" where
  "same_hold_inputs s s' \<longleftrightarrow> runs s' = runs s \<and> effects s' = effects s \<and> inbox s' = inbox s \<and>
     delegations s' = delegations s \<and> lineage s' = lineage s \<and>
     provider_background s' = provider_background s \<and> unread_steers s' = unread_steers s"

lemma child_busy_same: "same_hold_inputs s s' \<Longrightarrow> child_busy t s' = child_busy t s"
  using is_actionable_row_cong [of s' s]
  by (simp add: same_hold_inputs_def child_busy_iff has_live_run_def has_running_outbound_def
      actionable_inbox_iff has_in_flight_delivery_effect_def has_unread_steers_def provider_background_work_def)

lemma settled_same: "same_hold_inputs s s' \<Longrightarrow> settled t s' = settled t s"
  using child_busy_same [of s s' t]
  by (simp add: settled_def is_subagent_def get_lineage_def same_hold_inputs_def)

lemma all_settled_same: "same_hold_inputs s s' \<Longrightarrow> all_settled s' = all_settled s"
  by (simp add: all_settled_iff settled_same)

section \<open>The contract of a settle call\<close>

fun settle_threads :: "settle_call \<Rightarrow> string list \<Rightarrow> store \<Rightarrow> store_error + store" where
  "settle_threads settle [] s = Inr s"
| "settle_threads settle (t # ts) s =
     (case settle t s of Inl e \<Rightarrow> Inl e | Inr s' \<Rightarrow> settle_threads settle ts s')"

locale settle_provider =
  fixes settle :: settle_call
  assumes settle_publishing: "settle t s = Inr s' \<Longrightarrow> publishing s s'"
    and settle_total: "task_ok s \<Longrightarrow> \<exists>s'. settle t s = Inr s'"
begin

lemma settle_keeps:
  assumes "settle t s = Inr s'"
  shows "runs s' = runs s" "effects s' = effects s" "lineage s' = lineage s"
    "task_ok s \<Longrightarrow> task_ok s'" "settled u s \<Longrightarrow> settled u s'"
  using settle_publishing [OF assms]
  by (simp_all add: publishing_frame publishing_task_ok publishing_settled)

lemma settle_each_publishing: "settle_threads settle ts s = Inr s' \<Longrightarrow> publishing s s'"
proof (induction ts arbitrary: s)
  case (Cons t ts)
  then obtain s1 where "settle t s = Inr s1" "settle_threads settle ts s1 = Inr s'"
    by (auto split: sum.splits)
  with Cons.IH settle_publishing show ?case by (blast intro: publishing_trans)
qed (simp add: publishing_refl)

lemma settle_each_total: "task_ok s \<Longrightarrow> \<exists>s'. settle_threads settle ts s = Inr s'"
proof (induction ts arbitrary: s)
  case (Cons t ts)
  from settle_total [OF Cons.prems] obtain s1 where s: "settle t s = Inr s1" by blast
  with Cons.IH settle_keeps(4) [OF s Cons.prems] show ?case by fastforce
qed simp

lemma status_runs:
  "set_delegation_status settle dId from to r at s = Inr (p, s') \<Longrightarrow>
   runs s' = runs s \<and> effects s' = effects s \<and> lineage s' = lineage s"
  by (erule set_delegation_status_Inr)
    (auto simp: Let_def delegation_recorded_def settle_keeps split: if_splits)

lemma status_total:
  assumes ok: "task_ok s" and d: "get_delegation dId s = Some d" "dg_status d = from"
    and move: "to \<in> set (delegation_moves from)"
  shows "\<exists>p s'. set_delegation_status settle dId from to r at s = Inr (p, s')"
proof -
  have i: "dg_delegationId d = dId" "d \<in> set (delegations s)"
    using d(1) lookup_row_Some by (force simp: get_delegation_def)+
  have one: "changes (\<lambda>x. dg_delegationId x = dId \<and> dg_status x = from) (delegations s) = 1"
    by (rule changes_unique [of dg_delegationId _ d]) (use ok i d(2) in \<open>auto simp: task_ok_def\<close>)
  let ?p = "d\<lparr>dg_status := to, dg_result := patched r (dg_result d), dg_completedAt := patched at (dg_completedAt d)\<rparr>"
  let ?s1 = "delegation_recorded ?p (s\<lparr>delegations := update_rows
      (\<lambda>x. dg_delegationId x = dId \<and> dg_status x = from)
      (\<lambda>x. x\<lparr>dg_status := to, dg_result := patched r (dg_result d), dg_completedAt := patched at (dg_completedAt d)\<rparr>)
      (delegations s)\<rparr>)"
  have "task_ok ?s1"
    using ok by (simp add: task_ok_def fresh_uuids_def delegation_recorded_def)
  with settle_total obtain s' where "settle (dg_parentThreadId d) ?s1 = Inr s'" by blast
  with d move one i show ?thesis
    by (cases "from = DRunning") (simp_all add: set_delegation_status_def Let_def)
qed

lemma status_task_ok:
  assumes "set_delegation_status settle dId from to r at s = Inr (p, s')" "task_ok s"
  shows "task_ok s'"
proof (rule set_delegation_status_Inr [OF assms(1)])
  fix current
  let ?s1 = "delegation_recorded p (s\<lparr>delegations := update_rows (\<lambda>d. dg_delegationId d = dId \<and> dg_status d = from)
      (\<lambda>d. d\<lparr>dg_status := dg_status p, dg_result := dg_result p, dg_completedAt := dg_completedAt p\<rparr>)
      (delegations s)\<rparr>)"
  assume s': "let s1 = ?s1 in if from = DRunning then settle (dg_parentThreadId current) s1 = Inr s' else s' = s1"
  have "task_ok ?s1"
    using assms(2) by (simp add: task_ok_def fresh_uuids_def delegation_recorded_def)
  with s' show "task_ok s'"
    by (auto simp: Let_def settle_keeps split: if_splits)
qed

end

locale settling = settle_provider +
  assumes settle_settles: "settle t s = Inr s' \<Longrightarrow> task_ok s \<Longrightarrow> settled t s'"
begin

lemma settle_removes:
  assumes "settle t s = Inr s'" "task_ok s" "settled_except (insert t X) s"
  shows "settled_except X s'"
  unfolding settled_except_def
proof (intro allI impI)
  fix u assume "u \<notin> X"
  show "settled u s'"
  proof (cases "u = t")
    case True
    then show ?thesis using settle_settles [OF assms(1,2)] by simp
  next
    case False
    with assms(3) \<open>u \<notin> X\<close> have "settled u s" by (simp add: settled_except_def)
    then show ?thesis by (rule settle_keeps(5) [OF assms(1)])
  qed
qed

lemma settle_restores:
  "settle t s = Inr s' \<Longrightarrow> task_ok s \<Longrightarrow> settled_except {t} s \<Longrightarrow> all_settled s'"
  using settle_removes [of t s s' "{}"] by (simp add: settled_except_empty)

text \<open>
  A delegation that leaves \<open>running\<close> by any move can only free the delegating thread, which the
  call settles; one that moves from another status frees nobody.
\<close>

lemma status_settled:
  assumes run: "set_delegation_status settle dId from to r at s = Inr (p, s')"
    and ok: "task_ok s" and all: "settled_except X s"
  shows "settled_except X s'"
proof (rule set_delegation_status_Inr [OF run])
  fix current
  let ?P = "\<lambda>d. dg_delegationId d = dId \<and> dg_status d = from"
  let ?f = "\<lambda>d. d\<lparr>dg_status := dg_status p, dg_result := dg_result p, dg_completedAt := dg_completedAt p\<rparr>"
  let ?s1 = "delegation_recorded p (s\<lparr>delegations := update_rows ?P ?f (delegations s)\<rparr>)"
  assume c: "get_delegation dId s = Some current" "dg_status current = from"
    and move: "to \<in> set (delegation_moves from)"
    and p: "p = current\<lparr>dg_status := to, dg_result := patched r (dg_result current),
        dg_completedAt := patched at (dg_completedAt current)\<rparr>"
    and one: "changes ?P (delegations s) = 1"
    and s': "let s1 = ?s1 in if from = DRunning then settle (dg_parentThreadId current) s1 = Inr s' else s' = s1"
  have cur: "current \<in> set (delegations s)" "?P current"
    using c lookup_row_Some by (force simp: get_delegation_def)+
  have only: "d = current" if "d \<in> set (delegations s)" "?P d" for d
    by (rule changes_1_unique [OF one that cur])
  have to: "to \<noteq> DRunning" using move by (cases "from") auto
  have ok1: "task_ok ?s1"
    using ok by (simp add: task_ok_def fresh_uuids_def delegation_recorded_def)
  have waits: "list_ex (waits_on u) (delegations s)"
    if "d \<in> set (delegations ?s1)" "waits_on u d" for u d
    using that p to by (auto simp: delegation_recorded_def set_update_rows waits_on_def list_ex_iff split: if_splits)
  have busy: "child_busy u ?s1" if "child_busy u s" "from = DRunning \<Longrightarrow> u \<noteq> dg_parentThreadId current" for u
  proof -
    have "has_running_outbound u ?s1" if o: "has_running_outbound u s"
    proof -
      from o obtain d where d: "d \<in> set (delegations s)" "dg_parentThreadId d = u" "dg_status d = DRunning"
        by (auto simp: has_running_outbound_def list_ex_iff)
      have "\<not> ?P d"
        using only [OF d(1)] d(2,3) cur(2) \<open>from = DRunning \<Longrightarrow> u \<noteq> dg_parentThreadId current\<close> by auto
      then have "d \<in> set (delegations ?s1)"
        using d(1) by (force simp: delegation_recorded_def set_update_rows)
      with d show ?thesis by (auto simp: has_running_outbound_def list_ex_iff)
    qed
    then show ?thesis
      using \<open>child_busy u s\<close> is_actionable_row_cong [of ?s1 s]
      by (auto simp: child_busy_iff has_live_run_def actionable_inbox_iff has_in_flight_delivery_effect_def
          has_unread_steers_def provider_background_work_def delegation_recorded_def)
  qed
  have keep: "settled u ?s1" if "u \<notin> X" "from = DRunning \<Longrightarrow> u \<noteq> dg_parentThreadId current" for u
    by (rule settled_mono [of u s])
      (use all that(1) busy [OF _ that(2)] waits in \<open>auto simp: settled_except_def delegation_recorded_def\<close>)
  show "settled_except X s'"
  proof (cases "from = DRunning")
    case True
    with s' have "settle (dg_parentThreadId current) ?s1 = Inr s'" by (simp add: Let_def)
    moreover have "settled_except (insert (dg_parentThreadId current) X) ?s1"
      using keep by (simp add: settled_except_def)
    ultimately show ?thesis using settle_removes [OF _ ok1] by blast
  next
    case False
    with s' keep show ?thesis by (simp add: Let_def settled_except_def)
  qed
qed

text \<open>Settling one thread after the other.\<close>

lemma settle_each:
  assumes "settle_threads settle ts s = Inr s'" "task_ok s" "settled_except (set ts \<union> X) s"
  shows "settled_except X s' \<and> publishing s s'"
  using assms
proof (induction ts arbitrary: s)
  case Nil
  then show ?case by (simp add: publishing_refl)
next
  case (Cons t ts)
  then obtain s1 where s: "settle t s = Inr s1" "settle_threads settle ts s1 = Inr s'"
    by (auto split: sum.splits)
  have "settled_except (set ts \<union> X) s1"
    using settle_removes [OF s(1) Cons.prems(2)] Cons.prems(3) by simp
  with Cons.IH [OF s(2) settle_keeps(4) [OF s(1) Cons.prems(2)]] settle_publishing [OF s(1)]
  show ?case by (blast intro: publishing_trans)
qed

end

section \<open>The two calls satisfy it\<close>

interpretation queueing: settle_provider enqueue_settle
proof
  fix t s s' assume "enqueue_settle t s = Inr s'"
  then show "publishing s s'"
    by (rule enqueue_settle_Inr) (simp add: publishing_queue publishing_refl)
qed (simp add: enqueue_settle_def)

interpretation holding: settling settle_hold
proof
  fix t s
  show "publishing s s'" if r: "settle_hold t s = Inr s'" for s'
  proof -
    from r obtain s1 where s: "enqueue_settle t s = Inr s1" "drain_settle s1 = Inr s'"
      by (auto simp: settle_hold_def split: sum.splits)
    show ?thesis
      by (rule publishing_trans [OF drain_settle_publishing [OF s(2)] queueing.settle_publishing [OF s(1)]])
  qed
  show "\<exists>s'. settle_hold t s = Inr s'" if ok: "task_ok s"
  proof -
    obtain s1 where s: "enqueue_settle t s = Inr s1" "task_ok s1"
      using queueing.settle_total [OF ok] queueing.settle_keeps(4) [OF _ ok] by blast
    with drain_settle_total [OF s(2)] show ?thesis by (auto simp: settle_hold_def)
  qed
  show "settled t s'" if r: "settle_hold t s = Inr s'" and ok: "task_ok s" for s'
  proof -
    from r obtain s1 where s: "enqueue_settle t s = Inr s1" "drain_settle s1 = Inr s'"
      by (auto simp: settle_hold_def split: sum.splits)
    have "t \<in> set (settle_queue s1)"
      using s(1) by (auto elim: enqueue_settle_Inr)
    then show ?thesis
      by (rule drain_settle_settles [OF s(2) queueing.settle_keeps(4) [OF s(1) ok]])
  qed
qed

section \<open>Properties of the hold\<close>

lemma settle_hold_run:
  assumes "task_ok s"
  shows "\<exists>s'. settle_hold t s = Inr s' \<and> settle_queue s' = []"
proof -
  obtain s1 where s1: "enqueue_settle t s = Inr s1" "task_ok s1"
    using queueing.settle_total [OF assms] queueing.settle_keeps(4) [OF _ assms] by blast
  with drain_settle_total [OF s1(2)] show ?thesis by (simp add: settle_hold_def)
qed

text \<open>
  C1: The settle loop terminates without an error and publishes enough: if every thread but one is
  settled (no task waits on an idle subagent), then after \<open>settleHold\<close> of that one every thread is,
  the work queue is empty, and only tasks, inbox rows and events have changed.
\<close>

theorem settle_hold_contract:
  assumes "task_ok s" "settled_except {t} s"
  shows "\<exists>s'. settle_hold t s = Inr s' \<and> all_settled s' \<and> settle_queue s' = [] \<and> task_ok s' \<and>
    runs s' = runs s \<and> effects s' = effects s \<and> lineage s' = lineage s"
proof -
  obtain s' where s': "settle_hold t s = Inr s'" "settle_queue s' = []"
    using settle_hold_run [OF assms(1)] by blast
  with holding.settle_restores [OF s'(1) assms] holding.settle_keeps [OF s'(1)] assms(1)
  show ?thesis by auto
qed

text \<open>A waiting task of an idle subagent, for the examples.\<close>

definition waiting_example :: store where
  "waiting_example = (empty_store 9 nat_str)\<lparr>
     lineage := [\<lparr>ln_threadId = ''c'', ln_parentThreadId = ''p'', ln_parentRunId = ''r'',
        ln_relationship = Subagent, ln_createdAt = 1\<rparr>],
     delegations := [\<lparr>dg_delegationId = ''d'', dg_parentRunId = ''r'', dg_parentThreadId = ''p'',
        dg_childThreadId = ''c'', dg_childRunId = ''k'', dg_provider = None, dg_model = None,
        dg_promptDigest = [], dg_wake = WakeAlways, dg_status = DRunning, dg_result = None,
        dg_createdAt = 2, dg_completedAt = None, dg_modeCeiling = None, dg_accessLevel = None,
        dg_workspace = None, dg_role = None\<rparr>]\<rparr>"

lemma waiting_example_ok: "task_ok waiting_example"
  by (simp add: waiting_example_def task_ok_def fresh_uuids_def empty_store_def inj_def)

lemma waiting_example_settled: "settled_except {''c''} waiting_example"
  by (simp add: settled_except_def settled_def waiting_example_def waits_on_def)

lemma settle_hold_contract_witness:
  "\<not> all_settled waiting_example \<and> (\<exists>s'. settle_hold ''c'' waiting_example = Inr s' \<and> all_settled s')"
proof
  show "\<not> all_settled waiting_example" by code_simp
  show "\<exists>s'. settle_hold ''c'' waiting_example = Inr s' \<and> all_settled s'"
    using settle_hold_contract [OF waiting_example_ok waiting_example_settled] by blast
qed

text \<open>A task of a busy subagent is not touched, wherever the loop goes.\<close>

lemma settle_waiting_busy:
  assumes run: "settle_waiting t s = Inr (ps, s')" and ok: "task_ok s"
    and d: "d \<in> set (delegations s)" "child_busy (dg_childThreadId d) s"
  shows "d \<in> set (delegations s')"
proof (cases "s' = s")
  case False
  with run have idle: "\<not> child_busy t s" and loop: "\<exists>xs. forE (list_for_child t s)
      (publish_waiting (filter is_exhausted_row (list_by_status t IDelivered s))) s = Inr (xs, s')"
    by (auto simp: settle_waiting_def Let_def split: if_splits sum.splits)
  let ?f = "publish_waiting (filter is_exhausted_row (list_by_status t IDelivered s))"
  from loop obtain xs where loop: "forE (list_for_child t s) ?f s = Inr (xs, s')" by blast
  have "task_ok s' \<and> d \<in> set (delegations s')"
  proof (rule forE_induct_state [OF _ _ loop, where P = "\<lambda>u. task_ok u \<and> d \<in> set (delegations u)"])
    fix c u x u'
    assume c: "c \<in> set (list_for_child t s)" and u: "task_ok u \<and> d \<in> set (delegations u)"
      and step: "?f c u = Inr (x, u')"
    have other: "dg_delegationId c \<noteq> dg_delegationId d"
    proof
      assume "dg_delegationId c = dg_delegationId d"
      then have "c = d"
        using ok d(1) c by (intro distinct_key_unique [of dg_delegationId "delegations s"])
          (auto simp: task_ok_def list_for_child_def)
      with c d(2) idle show False by (simp add: list_for_child_def)
    qed
    have "d \<in> set (delegations u')"
    proof (cases "u' = u")
      case False
      with step obtain d1 p where d1: "get_delegation (dg_delegationId c) u = Some d1"
        and pub: "publish enqueue_settle d1 (waiting_result (filter is_exhausted_row (list_by_status t IDelivered s)) d1 u) u = Inr (p, u')"
        by (auto simp: publish_waiting_def split: option.splits if_splits sum.splits)
      have "dg_delegationId d1 = dg_delegationId c"
        using d1 by (auto simp: get_delegation_def dest: lookup_row_Some)
      moreover have "delegations u' = update_rows (task_row (dg_delegationId d1))
          (with_result (waiting_result (filter is_exhausted_row (list_by_status t IDelivered s)) d1 u) (clock u)) (delegations u)"
        by (rule publish_Inr [OF pub get_delegation_self [OF d1]]) simp
      ultimately show ?thesis
        using u other by (force simp: set_update_rows task_row_def)
    qed (use u in simp)
    with u publishing_task_ok [OF publish_waiting_publishing [OF step]] show "task_ok u' \<and> d \<in> set (delegations u')"
      by blast
  qed (use ok d in blast)
  then show ?thesis by blast
qed (use d in simp)

lemma drain_settle_busy:
  "drain_settle s = Inr s' \<Longrightarrow> task_ok s \<Longrightarrow> d \<in> set (delegations s) \<Longrightarrow>
   child_busy (dg_childThreadId d) s \<Longrightarrow> d \<in> set (delegations s')"
proof (induction s rule: drain_settle.induct)
  case (1 s)
  show ?case
  proof (cases "settle_queue s")
    case Nil
    with 1 show ?thesis by (simp add: drain_settle.simps [of s])
  next
    case (Cons t rest)
    let ?s = "s\<lparr>settle_queue := rest\<rparr>"
    from 1(2) Cons obtain ps s1 where step: "settle_waiting t ?s = Inr (ps, s1)" "drain_settle s1 = Inr s'"
      by (auto simp: drain_settle.simps [of s] split: sum.splits)
    have ok: "task_ok ?s" "d \<in> set (delegations ?s)" "child_busy (dg_childThreadId d) ?s"
      using 1(3-5) by simp_all
    note pub = settle_waiting_publishing [OF step(1)]
    show ?thesis
      by (rule 1(1) [OF Cons step(1) refl step(2) publishing_task_ok [OF pub ok(1)]
            settle_waiting_busy [OF step(1) ok] publishing_busy [OF pub ok(3)]])
  qed
qed

text \<open>
  C2: The hold is safe: a task whose subagent is busy (a live run, a running task of its own, a notice
  to read, a delivery in flight, an unread steer or background work) is not published, whatever
  thread \<open>settleHold\<close> is called for and whatever other tasks it publishes on the way.
\<close>

theorem busy_task_held:
  assumes "task_ok s" "d \<in> set (delegations s)" "child_busy (dg_childThreadId d) s"
    and "settle_hold t s = Inr s'"
  shows "d \<in> set (delegations s') \<and> child_busy (dg_childThreadId d) s'"
proof -
  obtain s1 where s1: "enqueue_settle t s = Inr s1" "drain_settle s1 = Inr s'"
    using assms(4) by (auto simp: settle_hold_def split: sum.splits)
  then obtain q where "s1 = s\<lparr>settle_queue := q\<rparr>" by (auto elim: enqueue_settle_Inr)
  then show ?thesis
    using drain_settle_busy [OF s1(2), of d] publishing_busy [OF drain_settle_publishing [OF s1(2)]] assms(1-3)
    by simp
qed

definition busy_example :: store where
  "busy_example = waiting_example\<lparr>unread_steers := (\<lambda>t. Some (t = ''c''))\<rparr>"

lemma busy_task_held_witness:
  "\<exists>s'. settle_hold ''c'' busy_example = Inr s' \<and> set (delegations busy_example) \<subseteq> set (delegations s')"
proof -
  have ok: "task_ok busy_example"
    using waiting_example_ok by (simp add: busy_example_def task_ok_def fresh_uuids_def)
  then obtain s' where s': "settle_hold ''c'' busy_example = Inr s'" using settle_hold_run by blast
  have "child_busy (dg_childThreadId d) busy_example" if "d \<in> set (delegations busy_example)" for d
    using that by (auto simp: child_busy_iff busy_example_def waiting_example_def has_unread_steers_def)
  with busy_task_held [OF ok _ _ s'] s' show ?thesis by blast
qed

text \<open>How many results a task has left in an inbox.\<close>

definition result_rows :: "string \<Rightarrow> store \<Rightarrow> nat" where
  "result_rows i s = length (list_for_delegation i s)"

lemma result_rows_append:
  assumes "inbox s' = inbox s @ [row]" "ib_kind row = ChildResult" "ib_payload row = stored (child_result_payload d r)"
  shows "result_rows i s' = result_rows i s + (if i = dg_delegationId d then 1 else 0)"
  using assms by (simp add: result_rows_def list_for_delegation_def by_created_def stored_child_result)

lemma publishing_once:
  assumes "publishing s s'" "task_ok s" "get_delegation i s = Some d"
  shows "(get_delegation i s' = Some d \<and> result_rows i s' = result_rows i s) \<or>
    (dg_status d = DRunning \<and> result_rows i s' = Suc (result_rows i s) \<and>
     (\<exists>r n. get_delegation i s' = Some (with_result r n d)))"
  using assms
proof (induction rule: publishing.induct)
  case (publishing_queue s s' q)
  then show ?case by (simp add: get_delegation_def result_rows_def list_for_delegation_def)
next
  case (publishing_step s s' e r p s'')
  obtain row where o: "inbox s'' = inbox s' @ [row]" "ib_kind row = ChildResult"
      "ib_payload row = stored (child_result_payload e r)" "dg_status e = DRunning"
      "delegations s'' = update_rows (task_row (dg_delegationId e)) (with_result r (clock s')) (delegations s')"
    by (rule publish_Inr [OF publishing_step.hyps(3,2)]) blast
  have count: "result_rows i s'' = result_rows i s' + (if i = dg_delegationId e then 1 else 0)"
    by (rule result_rows_append [OF o(1-3)])
  have get: "get_delegation i s'' = map_option
      (\<lambda>x. if task_row (dg_delegationId e) x then with_result r (clock s') x else x) (get_delegation i s')"
    by (simp add: get_delegation_def o(5) lookup_row_update)
  from publishing_step.IH [OF publishing_step.prems] show ?case
  proof (elim disjE conjE exE)
    assume old: "get_delegation i s' = Some d" "result_rows i s' = result_rows i s"
    have d: "dg_delegationId d = i" using old(1) by (auto simp: get_delegation_def dest: lookup_row_Some)
    show ?thesis
    proof (cases "i = dg_delegationId e")
      case True
      with old(1) publishing_step.hyps(2) have "d = e" by simp
      with True old count get o(4) d show ?thesis by (auto simp: task_row_def)
    next
      case False
      with old count get d show ?thesis by (simp add: task_row_def)
    qed
  next
    fix r' n assume new: "dg_status d = DRunning" "result_rows i s' = Suc (result_rows i s)"
      "get_delegation i s' = Some (with_result r' n d)"
    have "i \<noteq> dg_delegationId e"
      using new(3) publishing_step.hyps(2) o(4) with_result_simps(7) [of r' n d] by auto
    with new count get show ?thesis by (auto simp: task_row_def)
  qed
qed simp

text \<open>
  C3: Each task is published at most once, with exactly one inbox row: across a \<open>settleHold\<close> a task
  either stays as it was and no result row is added for it, or it was running, now carries a result
  in status \<open>result_available\<close> or \<open>failed\<close>, and exactly one \<open>child_result\<close> row was added for it.
\<close>

theorem published_once:
  assumes "task_ok s" "settle_hold t s = Inr s'" "get_delegation i s = Some d"
  shows "(get_delegation i s' = Some d \<and> result_rows i s' = result_rows i s) \<or>
    (dg_status d = DRunning \<and> result_rows i s' = Suc (result_rows i s) \<and>
     (\<exists>r n. get_delegation i s' = Some (d\<lparr>dg_status := if dr_runStatus r = RCompleted then DResultAvailable else DFailed,
        dg_result := Some r, dg_completedAt := Some n\<rparr>)))"
  using publishing_once [OF holding.settle_publishing [OF assms(2)] assms(1,3)]
  by (simp add: with_result_def)

lemma published_once_witness:
  "\<exists>s' d. settle_hold ''c'' waiting_example = Inr s' \<and> get_delegation ''d'' s' = Some d \<and>
     dg_status d = DFailed \<and> result_rows ''d'' s' = 1"
proof -
  obtain d0 where d0: "get_delegation ''d'' waiting_example = Some d0" "waits_on ''c'' d0"
    by (simp add: get_delegation_def lookup_row_def waiting_example_def waits_on_def)
  obtain s' where s': "settle_hold ''c'' waiting_example = Inr s'" "all_settled s'" "lineage s' = lineage waiting_example"
    using settle_hold_run [OF waiting_example_ok] holding.settle_restores [OF _ waiting_example_ok waiting_example_settled]
      holding.settle_keeps(3) by blast
  have run: "(case settle_hold ''c'' waiting_example of Inl e \<Rightarrow> False | Inr s \<Rightarrow>
      map_option dg_status (get_delegation ''d'' s) = Some DFailed)" by code_simp
  have zero: "result_rows ''d'' waiting_example = 0" by code_simp
  from run s'(1) obtain d where "get_delegation ''d'' s' = Some d" "dg_status d = DFailed" by auto
  with published_once [OF waiting_example_ok s'(1) d0(1)] d0(2) zero s'(1) show ?thesis
    by (auto simp: waits_on_def)
qed

end
