(* ===== verification/Inbox.thy ===== *)
theory Inbox
  imports Settling
begin

text \<open>
  The rest of \<open>src/mms/run/Inbox.ts\<close>: moving rows between \<open>pending\<close>, \<open>delivered\<close> and
  \<open>acknowledged\<close>, changing their owner and payload. Every one of these writes re-evaluates the
  tasks waiting on the threads it touched; \<open>held\<close> is the invariant they keep.
\<close>

section \<open>Operations\<close>

definition settle_txn :: "string \<Rightarrow> unit run_txn" where
  "settle_txn t s = (case settle_hold t s of Inl e \<Rightarrow> Inl e | Inr s' \<Rightarrow> Inr ((), s'))"

text \<open>\<open>for (const threadId of new Set(moved.map(row => row.threadId))) settleHold(threadId)\<close>\<close>

definition settle_moved :: "inbox_record list \<Rightarrow> inbox_record list run_txn" where
  "settle_moved moved s =
     (case settle_threads settle_hold (distinct_first (map ib_threadId moved)) s of
        Inl e \<Rightarrow> Inl e | Inr s' \<Rightarrow> Inr (moved, s'))"

definition move_row ::
  "inbox_status \<Rightarrow> inbox_status list \<Rightarrow> string option option \<Rightarrow> string \<Rightarrow> inbox_record option run_txn" where
  "move_row to from deliveredBy inboxId s =
     (case get_inbox inboxId s of
        None \<Rightarrow> Inl BadRequest
      | Some current \<Rightarrow>
          if ib_status current \<notin> set from \<or> to \<notin> set (inbox_moves (ib_status current)) then Inr (None, s)
          else
            let by = patched deliveredBy (ib_deliveredBy current);
                P = (\<lambda>r. ib_inboxId r = inboxId \<and> ib_status r = ib_status current);
                next = current\<lparr>ib_status := to, ib_deliveredBy := by\<rparr>
            in if changes P (inbox s) \<noteq> 1 then Inl StaleWrite
               else Inr (Some next, inbox_recorded next ChangeStatus
                 (s\<lparr>inbox := update_rows P (\<lambda>r. r\<lparr>ib_status := to, ib_deliveredBy := by\<rparr>) (inbox s)\<rparr>)))"

definition inbox_move ::
  "string list \<Rightarrow> inbox_status \<Rightarrow> inbox_status list \<Rightarrow> string option option \<Rightarrow> inbox_record list run_txn" where
  "inbox_move ids to from deliveredBy =
     bindE (forE ids (move_row to from deliveredBy)) (\<lambda>moved. settle_moved (somes moved))"

definition mark_delivered :: "string list \<Rightarrow> string option \<Rightarrow> inbox_record list run_txn" where
  "mark_delivered ids deliveredBy = inbox_move ids IDelivered [IPending] (Some deliveredBy)"

definition mark_acknowledged :: "string list \<Rightarrow> inbox_record list run_txn" where
  "mark_acknowledged ids = inbox_move ids IAcknowledged [IPending, IDelivered] None"

definition mark_pending_again :: "string list \<Rightarrow> inbox_record list run_txn" where
  "mark_pending_again ids = inbox_move ids IPending [IDelivered] (Some None)"

definition patch_payload :: "string \<Rightarrow> (string \<times> json) list \<Rightarrow> inbox_record run_txn" where
  "patch_payload inboxId patch s =
     (case get_inbox inboxId s of
        None \<Rightarrow> Inl BadRequest
      | Some current \<Rightarrow>
          let payload = stored (JObj (jpatch (jmembers (ib_payload current)) patch));
              next = current\<lparr>ib_payload := payload\<rparr>
          in bindE (settle_txn (ib_threadId next)) (\<lambda>_. retE next)
               (inbox_recorded next ChangePayload
                 (s\<lparr>inbox := update_rows (\<lambda>r. ib_inboxId r = inboxId) (\<lambda>r. r\<lparr>ib_payload := payload\<rparr>) (inbox s)\<rparr>)))"

definition release_row :: "string option \<Rightarrow> string \<Rightarrow> string option run_txn" where
  "release_row from inboxId s =
     (case get_inbox inboxId s of
        None \<Rightarrow> Inr (None, s)
      | Some current \<Rightarrow>
          if ib_status current \<noteq> IDelivered then Inr (None, s)
          else if from \<noteq> None \<and> ib_deliveredBy current \<noteq> from then Inr (None, s)
          else bindE (patch_payload inboxId [(''releases'', JNum (releases (ib_payload current) + 1))])
                 (\<lambda>_. bindE (mark_pending_again [inboxId]) (\<lambda>_. retE (Some inboxId))) s)"

definition release :: "string list \<Rightarrow> string option \<Rightarrow> string list run_txn" where
  "release ids from = bindE (forE ids (release_row from)) (\<lambda>moved. retE (somes moved))"

definition release_run_deliveries :: "string \<Rightarrow> string list run_txn" where
  "release_run_deliveries runId s = release (map ib_inboxId (list_delivered_by_run runId s)) None s"

definition detach_row :: "string \<Rightarrow> string \<Rightarrow> unit run_txn" where
  "detach_row from inboxId s =
     (case get_inbox inboxId s of
        None \<Rightarrow> Inr ((), s)
      | Some current \<Rightarrow>
          if ib_status current \<noteq> IDelivered \<or> ib_deliveredBy current \<noteq> Some from then Inr ((), s)
          else settle_txn (ib_threadId current) (inbox_recorded (current\<lparr>ib_deliveredBy := None\<rparr>) ChangePayload
            (s\<lparr>inbox := update_rows (\<lambda>r. ib_inboxId r = inboxId \<and> ib_status r = IDelivered)
                 (\<lambda>r. r\<lparr>ib_deliveredBy := None\<rparr>) (inbox s)\<rparr>)))"

definition detach_delivery :: "string list \<Rightarrow> string \<Rightarrow> unit run_txn" where
  "detach_delivery ids from = bindE (forE ids (detach_row from)) (\<lambda>_. retE ())"

text \<open>The three marks of a steer: a payload patch of the rows the effect still delivers.\<close>

definition mark_steer_row :: "(string \<times> json) list \<Rightarrow> string \<Rightarrow> string \<Rightarrow> unit run_txn" where
  "mark_steer_row patch effectId inboxId s =
     (case get_inbox inboxId s of
        None \<Rightarrow> Inr ((), s)
      | Some current \<Rightarrow>
          if ib_status current = IDelivered \<and> ib_deliveredBy current = Some effectId
          then bindE (patch_payload inboxId patch) (\<lambda>_. retE ()) s
          else Inr ((), s))"

definition mark_steer_held :: "string list \<Rightarrow> string \<Rightarrow> unit run_txn" where
  "mark_steer_held ids effectId =
     bindE (forE ids (mark_steer_row [(''steerHeldBy'', JStr effectId)] effectId)) (\<lambda>_. retE ())"

definition unmark_steer_taken :: "string list \<Rightarrow> string \<Rightarrow> unit run_txn" where
  "unmark_steer_taken ids effectId =
     bindE (forE ids (mark_steer_row [(''steerTakenBy'', JNull)] effectId)) (\<lambda>_. retE ())"

definition mark_steer_taken :: "string list \<Rightarrow> string \<Rightarrow> unit run_txn" where
  "mark_steer_taken ids effectId =
     bindE (forE ids (mark_steer_row [(''steerTakenBy'', JStr effectId)] effectId)) (\<lambda>_. retE ())"

definition record_row_visibility :: "(string \<times> bool) list \<Rightarrow> inbox_record \<Rightarrow> unit run_txn" where
  "record_row_visibility items row =
     (if ib_kind row \<noteq> ChildResult then retE ()
      else case List.find (\<lambda>item. jfield (ib_payload row) ''delegationId'' = Some (JStr (fst item))) items of
        None \<Rightarrow> retE ()
      | Some item \<Rightarrow> bindE (patch_payload (ib_inboxId row) [(''noticeShown'', JBool (snd item))]) (\<lambda>_. retE ()))"

definition record_notice_visibility :: "inbox_record list \<Rightarrow> (string \<times> bool) list \<Rightarrow> unit run_txn" where
  "record_notice_visibility rows items = bindE (forE rows (record_row_visibility items)) (\<lambda>_. retE ())"

definition redirect_row :: "string \<Rightarrow> string option \<Rightarrow> string \<Rightarrow> inbox_record option run_txn" where
  "redirect_row deliveredBy from inboxId s =
     (case get_inbox inboxId s of
        None \<Rightarrow> Inr (None, s)
      | Some current \<Rightarrow>
          if ib_status current \<noteq> IDelivered \<or> ib_deliveredBy current = Some deliveredBy then Inr (None, s)
          else if from \<noteq> None \<and> ib_deliveredBy current \<noteq> from then Inr (None, s)
          else
            let next = current\<lparr>ib_deliveredBy := Some deliveredBy\<rparr>
            in Inr (Some next, inbox_recorded next ChangePayload
                 (s\<lparr>inbox := update_rows (\<lambda>r. ib_inboxId r = inboxId \<and> ib_status r = IDelivered)
                      (\<lambda>r. r\<lparr>ib_deliveredBy := Some deliveredBy\<rparr>) (inbox s)\<rparr>)))"

definition redirect_delivery :: "string list \<Rightarrow> string \<Rightarrow> string option \<Rightarrow> inbox_record list run_txn" where
  "redirect_delivery ids deliveredBy from =
     bindE (forE ids (redirect_row deliveredBy from)) (\<lambda>moved. settle_moved (somes moved))"

definition withdraw_retired_rows :: "inbox_record list run_txn" where
  "withdraw_retired_rows s =
     (let ids = map ib_inboxId (by_created ib_createdAt
            (filter (\<lambda>r. is_retired_inbox_row r \<and> ib_status r \<noteq> IAcknowledged) (inbox s)))
      in if ids = [] then Inr ([], s) else mark_acknowledged ids s)"

section \<open>The invariant\<close>

definition inbox_ok :: "store \<Rightarrow> bool" where
  "inbox_ok s \<longleftrightarrow> distinct (map ib_inboxId (inbox s))"

text \<open>Unique ids, no publication that could fail, and every thread outside \<open>X\<close> settled.\<close>

definition held :: "string set \<Rightarrow> store \<Rightarrow> bool" where
  "held X s \<longleftrightarrow> task_ok s \<and> inbox_ok s \<and> settled_except X s"

text \<open>A write of inbox rows of the threads in \<open>T\<close> and nothing else.\<close>

definition thread_rows :: "string \<Rightarrow> store \<Rightarrow> inbox_record list" where
  "thread_rows t s = filter (\<lambda>r. ib_threadId r = t) (inbox s)"

definition writes_inbox :: "string set \<Rightarrow> store \<Rightarrow> store \<Rightarrow> bool" where
  "writes_inbox T s s' \<longleftrightarrow>
     runs s' = runs s \<and> effects s' = effects s \<and> delegations s' = delegations s \<and>
     lineage s' = lineage s \<and> provider_background s' = provider_background s \<and>
     unread_steers s' = unread_steers s \<and> uuids s' = uuids s \<and> next_uuid s' = next_uuid s \<and>
     map ib_inboxId (inbox s') = map ib_inboxId (inbox s) \<and>
     (\<forall>t. t \<notin> T \<longrightarrow> thread_rows t s' = thread_rows t s)"

lemma writes_inbox_refl [simp]: "writes_inbox T s s"
  by (simp add: writes_inbox_def)

lemma writes_inbox_trans:
  "writes_inbox T s s' \<Longrightarrow> writes_inbox T' s' s'' \<Longrightarrow> writes_inbox (T \<union> T') s s''"
  by (simp add: writes_inbox_def)

lemma writes_inbox_recorded [simp]: "writes_inbox T s (inbox_recorded r c s') = writes_inbox T s s'"
  by (simp add: writes_inbox_def inbox_recorded_def thread_rows_def)

lemma writes_inbox_update:
  assumes "\<And>r. ib_inboxId (f r) = ib_inboxId r \<and> ib_threadId (f r) = ib_threadId r"
    and "\<And>r. r \<in> set (inbox s) \<Longrightarrow> P r \<Longrightarrow> ib_threadId r \<in> T"
  shows "writes_inbox T s (s\<lparr>inbox := update_rows P f (inbox s)\<rparr>)"
proof -
  have "filter (\<lambda>r. ib_threadId r = t) (update_rows P f rows) = filter (\<lambda>r. ib_threadId r = t) rows"
    if "t \<notin> T" "set rows \<subseteq> set (inbox s)" for t rows
    using that(2)
  proof (induction rows)
    case (Cons r rows)
    then show ?case
      using assms that(1) by (auto simp: update_rows_def)
  qed (simp add: update_rows_def)
  then show ?thesis
    using assms(1) by (simp add: writes_inbox_def thread_rows_def)
qed

lemma writes_inbox_ok:
  assumes "writes_inbox T s s'"
  shows "task_ok s' = task_ok s" "inbox_ok s' = inbox_ok s"
proof -
  have "(\<forall>r \<in> set (inbox s'). ib_inboxId r \<noteq> x) = (\<forall>r \<in> set (inbox s). ib_inboxId r \<noteq> x)" for x
    using assms unfolding writes_inbox_def by (metis (no_types) in_set_conv_nth length_map nth_map)
  then show "task_ok s' = task_ok s"
    using assms by (simp add: task_ok_def fresh_uuids_def writes_inbox_def Ball_def)
  show "inbox_ok s' = inbox_ok s"
    using assms by (simp add: inbox_ok_def writes_inbox_def)
qed

lemma writes_inbox_busy:
  assumes "writes_inbox T s s'" "t \<notin> T"
  shows "child_busy t s' = child_busy t s"
proof -
  have "set (thread_rows t s') = set (thread_rows t s)"
    using assms by (simp add: writes_inbox_def)
  then have "(\<exists>row \<in> set (inbox s'). ib_threadId row = t \<and> Q row) = (\<exists>row \<in> set (inbox s). ib_threadId row = t \<and> Q row)" for Q
    by (auto simp: thread_rows_def)
  moreover have "is_actionable_row row s' = is_actionable_row row s" for row
    using assms(1) by (intro is_actionable_row_cong) (simp_all add: writes_inbox_def)
  ultimately show ?thesis
    using assms(1) by (simp add: writes_inbox_def child_busy_iff has_live_run_def has_running_outbound_def
        actionable_inbox_iff has_in_flight_delivery_effect_def has_unread_steers_def provider_background_work_def)
qed

lemma writes_inbox_settled:
  assumes "writes_inbox T s s'" "settled_except X s"
  shows "settled_except (T \<union> X) s'"
  unfolding settled_except_def
proof (intro allI impI)
  fix t assume "t \<notin> T \<union> X"
  with writes_inbox_busy [OF assms(1), of t] show "settled t s'"
    using assms by (auto simp: settled_except_def settled_def writes_inbox_def is_subagent_def get_lineage_def)
qed

lemma publishing_inbox_ok: "publishing s s' \<Longrightarrow> inbox_ok s \<Longrightarrow> inbox_ok s'"
  by (simp add: inbox_ok_def publishing_inbox(2))

lemma publishing_held: "publishing s s' \<Longrightarrow> held X s \<Longrightarrow> held X s'"
  using publishing_settled [of s s'] by (auto simp: held_def publishing_task_ok publishing_inbox_ok settled_except_def)

text \<open>A write of one thread's rows followed by the settle call keeps the invariant.\<close>

lemma held_settle:
  assumes "held X s" "writes_inbox {t} s s1" "settle_hold t s1 = Inr s2"
  shows "held X s2"
proof -
  have ok: "task_ok s1" "inbox_ok s1"
    using writes_inbox_ok [OF assms(2)] assms(1) by (simp_all add: held_def)
  have "settled_except (insert t X) s1"
    using writes_inbox_settled [OF assms(2)] assms(1) by (auto simp: held_def)
  with holding.settle_removes [OF assms(3) ok(1)] holding.settle_keeps(4) [OF assms(3) ok(1)]
    publishing_inbox_ok [OF holding.settle_publishing [OF assms(3)] ok(2)]
  show ?thesis by (simp add: held_def)
qed

lemma held_settle_total:
  assumes "held X s" "writes_inbox {t} s s1"
  shows "\<exists>s2. settle_hold t s1 = Inr s2"
  using holding.settle_total writes_inbox_ok(1) [OF assms(2)] assms(1) by (simp add: held_def)

section \<open>The operations keep it\<close>

lemma row_thread:
  assumes "inbox_ok s" "get_inbox inboxId s = Some current" "r \<in> set (inbox s)" "ib_inboxId r = inboxId"
  shows "r = current"
  using assms lookup_row_Some [of ib_inboxId inboxId "inbox s" current]
    distinct_key_unique [of ib_inboxId "inbox s" r current]
  by (simp add: inbox_ok_def get_inbox_def)

lemma move_row_writes:
  assumes "move_row to from by inboxId s = Inr (x, s')" "inbox_ok s"
  shows "writes_inbox (ib_threadId ` set_option x) s s'"
proof (cases "get_inbox inboxId s")
  case None
  with assms show ?thesis by (simp add: move_row_def)
next
  case (Some current)
  show ?thesis
  proof (cases "x")
    case None
    with assms Some show ?thesis by (auto simp: move_row_def Let_def split: if_splits)
  next
    case (Some row)
    with assms \<open>get_inbox inboxId s = Some current\<close> have
      "ib_threadId row = ib_threadId current"
      "s' = inbox_recorded row ChangeStatus (s\<lparr>inbox := update_rows (\<lambda>r. ib_inboxId r = inboxId \<and> ib_status r = ib_status current)
         (\<lambda>r. r\<lparr>ib_status := to, ib_deliveredBy := patched by (ib_deliveredBy current)\<rparr>) (inbox s)\<rparr>)"
      by (auto simp: move_row_def Let_def split: if_splits)
    with row_thread [OF assms(2) \<open>get_inbox inboxId s = Some current\<close>] Some show ?thesis
      by (auto intro!: writes_inbox_update)
  qed
qed

lemma redirect_row_writes:
  assumes "redirect_row by from inboxId s = Inr (x, s')" "inbox_ok s"
  shows "writes_inbox (ib_threadId ` set_option x) s s'"
proof (cases "get_inbox inboxId s")
  case None
  with assms show ?thesis by (simp add: redirect_row_def)
next
  case current: (Some current)
  show ?thesis
  proof (cases "x")
    case None
    with assms current show ?thesis by (auto simp: redirect_row_def Let_def split: if_splits)
  next
    case (Some row)
    with assms current have
      "ib_threadId row = ib_threadId current"
      "s' = inbox_recorded row ChangePayload (s\<lparr>inbox := update_rows (\<lambda>r. ib_inboxId r = inboxId \<and> ib_status r = IDelivered)
         (\<lambda>r. r\<lparr>ib_deliveredBy := Some by\<rparr>) (inbox s)\<rparr>)"
      by (auto simp: redirect_row_def Let_def split: if_splits)
    with row_thread [OF assms(2) current] Some show ?thesis
      by (auto intro!: writes_inbox_update)
  qed
qed

lemma somes_Cons: "somes (x # xs) = (case x of None \<Rightarrow> somes xs | Some y \<Rightarrow> y # somes xs)"
  by (simp add: somes_def map_filter_simps split: option.splits)

lemma rows_loop_writes:
  assumes step: "\<And>i s x s'. f i s = Inr (x, s') \<Longrightarrow> inbox_ok s \<Longrightarrow> writes_inbox (ib_threadId ` set_option x) s s'"
    and "forE ids f s = Inr (xs, s')" "inbox_ok s"
  shows "writes_inbox (ib_threadId ` set (somes xs)) s s'"
  using assms(2,3)
proof (induction ids arbitrary: s xs)
  case Nil
  then show ?case by simp
next
  case (Cons i ids)
  then obtain x s1 ys where run: "f i s = Inr (x, s1)" "forE ids f s1 = Inr (ys, s')" "xs = x # ys"
    by (auto split: sum.splits)
  have w: "writes_inbox (ib_threadId ` set_option x) s s1"
    by (rule step [OF run(1) Cons.prems(2)])
  have "writes_inbox (ib_threadId ` set (somes ys)) s1 s'"
    using Cons.IH [OF run(2)] writes_inbox_ok(2) [OF w] Cons.prems(2) by simp
  from writes_inbox_trans [OF w this] show ?case
    unfolding run(3) by (cases x) (simp_all add: somes_Cons)
qed

lemma settle_moved_held:
  assumes w: "writes_inbox (ib_threadId ` set moved) s s1" and "held X s"
    and run: "settle_moved moved s1 = Inr (x, s2)"
  shows "held X s2"
proof -
  let ?T = "distinct_first (map ib_threadId moved)"
  from run have each: "settle_threads settle_hold ?T s1 = Inr s2"
    by (auto simp: settle_moved_def split: sum.splits)
  have ok: "task_ok s1" "inbox_ok s1"
    using writes_inbox_ok [OF w] \<open>held X s\<close> by (simp_all add: held_def)
  have "settled_except (set ?T \<union> X) s1"
    using writes_inbox_settled [OF w] \<open>held X s\<close> by (simp add: held_def)
  from holding.settle_each [OF each ok(1) this] publishing_task_ok [of s1 s2] publishing_inbox_ok [of s1 s2] ok show ?thesis
    by (simp add: held_def publishing_task_ok publishing_inbox_ok)
qed

lemma keeps_rows_loop:
  assumes "\<And>i s x s'. f i s = Inr (x, s') \<Longrightarrow> inbox_ok s \<Longrightarrow> writes_inbox (ib_threadId ` set_option x) s s'"
  shows "keeps (held X) (bindE (forE ids f) (\<lambda>moved. settle_moved (somes moved)))"
proof (rule keepsI)
  fix s x s' assume h: "held X s" "bindE (forE ids f) (\<lambda>moved. settle_moved (somes moved)) s = Inr (x, s')"
  then obtain xs s1 where run: "forE ids f s = Inr (xs, s1)" "settle_moved (somes xs) s1 = Inr (x, s')"
    unfolding bindE_Inr by blast
  have ok: "inbox_ok s" using h(1) by (simp add: held_def)
  have "writes_inbox (ib_threadId ` set (somes xs)) s s1"
  proof (rule rows_loop_writes [where f = f])
    show "writes_inbox (ib_threadId ` set_option x) s s'"
      if "f i s = Inr (x, s')" "inbox_ok s" for i s x s'
      using assms that by blast
  qed (fact run(1) ok)+
  then show "held X s'" by (rule settle_moved_held [OF _ h(1) run(2)])
qed

lemma inbox_move_held [intro]: "keeps (held X) (inbox_move ids to from by)"
  unfolding inbox_move_def by (rule keeps_rows_loop) (rule move_row_writes)

lemma redirect_delivery_held [intro]: "keeps (held X) (redirect_delivery ids by from)"
  unfolding redirect_delivery_def by (rule keeps_rows_loop) (rule redirect_row_writes)

lemmas move_defs = mark_delivered_def mark_acknowledged_def mark_pending_again_def

lemma moves_held [intro]:
  "keeps (held X) (mark_delivered ids by)" "keeps (held X) (mark_acknowledged ids)" "keeps (held X) (mark_pending_again ids)"
  by (auto simp: move_defs)

lemma patch_payload_held [intro]: "keeps (held X) (patch_payload inboxId patch)"
proof
  fix s x s' assume h: "held X s" "patch_payload inboxId patch s = Inr (x, s')"
  from h(2) obtain current where current: "get_inbox inboxId s = Some current"
    by (auto simp: patch_payload_def split: option.splits)
  let ?p = "stored (JObj (jpatch (jmembers (ib_payload current)) patch))"
  let ?s1 = "inbox_recorded (current\<lparr>ib_payload := ?p\<rparr>) ChangePayload
    (s\<lparr>inbox := update_rows (\<lambda>r. ib_inboxId r = inboxId) (\<lambda>r. r\<lparr>ib_payload := ?p\<rparr>) (inbox s)\<rparr>)"
  have "writes_inbox {ib_threadId current} s ?s1"
    using row_thread [OF _ current] h(1) by (auto simp: held_def intro!: writes_inbox_update)
  moreover have "settle_hold (ib_threadId current) ?s1 = Inr s'"
    using h(2) current by (auto simp: patch_payload_def Let_def bindE_Inr settle_txn_def split: sum.splits)
  ultimately show "held X s'" by (rule held_settle [OF h(1)])
qed

lemma keeps_unit_loop:
  assumes "\<And>i. keeps P (f i)"
  shows "keeps P (bindE (forE ids f) (\<lambda>xs. retE (g xs)))"
  by (rule keeps_bindE) (auto intro: keeps_forE assms)

lemma release_row_held [intro]: "keeps (held X) (release_row from inboxId)"
proof
  fix s x s' assume h: "held X s" "release_row from inboxId s = Inr (x, s')"
  have k: "keeps (held X) (bindE (patch_payload inboxId p) (\<lambda>_. bindE (mark_pending_again [inboxId]) (\<lambda>_. retE (Some inboxId))))" for p
    by (intro keeps_bindE patch_payload_held moves_held keeps_pure)
  show "held X s'"
  proof (cases "s' = s")
    case False
    with h(2) obtain p where "bindE (patch_payload inboxId p) (\<lambda>_. bindE (mark_pending_again [inboxId]) (\<lambda>_. retE (Some inboxId))) s = Inr (x, s')"
      by (auto simp: release_row_def split: option.splits if_splits)
    then show ?thesis by (rule keepsD [OF k _ h(1)])
  qed (use h in simp)
qed

lemma detach_row_held [intro]: "keeps (held X) (detach_row from inboxId)"
proof
  fix s x s' assume h: "held X s" "detach_row from inboxId s = Inr (x, s')"
  show "held X s'"
  proof (cases "s' = s")
    case False
    with h(2) obtain current where current: "get_inbox inboxId s = Some current"
      by (auto simp: detach_row_def split: option.splits)
    let ?s1 = "inbox_recorded (current\<lparr>ib_deliveredBy := None\<rparr>) ChangePayload
       (s\<lparr>inbox := update_rows (\<lambda>r. ib_inboxId r = inboxId \<and> ib_status r = IDelivered)
            (\<lambda>r. r\<lparr>ib_deliveredBy := None\<rparr>) (inbox s)\<rparr>)"
    have "writes_inbox {ib_threadId current} s ?s1"
      using row_thread [OF _ current] h(1) by (auto simp: held_def intro!: writes_inbox_update)
    moreover have "settle_hold (ib_threadId current) ?s1 = Inr s'"
      using h(2) current False by (auto simp: detach_row_def settle_txn_def split: sum.splits if_splits)
    ultimately show ?thesis by (rule held_settle [OF h(1)])
  qed (use h in simp)
qed

lemma mark_steer_row_held [intro]: "keeps (held X) (mark_steer_row patch effectId inboxId)"
proof
  fix s x s' assume h: "held X s" "mark_steer_row patch effectId inboxId s = Inr (x, s')"
  have k: "keeps (held X) (bindE (patch_payload inboxId patch) (\<lambda>_. retE ()))"
    by (intro keeps_bindE patch_payload_held keeps_pure)
  show "held X s'"
  proof (cases "s' = s")
    case False
    with h(2) have "bindE (patch_payload inboxId patch) (\<lambda>_. retE ()) s = Inr (x, s')"
      by (auto simp: mark_steer_row_def split: option.splits if_splits)
    then show ?thesis by (rule keepsD [OF k _ h(1)])
  qed (use h in simp)
qed

lemma record_row_visibility_held [intro]: "keeps (held X) (record_row_visibility items row)"
  by (auto simp: record_row_visibility_def split: option.splits)

lemma inbox_writes_held [intro]:
  "keeps (held X) (release ids owner)" "keeps (held X) (detach_delivery ids oldOwner)"
  "keeps (held X) (mark_steer_held ids effectId)" "keeps (held X) (unmark_steer_taken ids effectId)"
  "keeps (held X) (mark_steer_taken ids effectId)" "keeps (held X) (record_notice_visibility rows items)"
  unfolding release_def detach_delivery_def mark_steer_held_def unmark_steer_taken_def
    mark_steer_taken_def record_notice_visibility_def
  by (rule keeps_unit_loop; blast)+

lemma withdraw_retired_rows_held: "keeps (held X) withdraw_retired_rows"
proof
  fix s x s' assume "held X s" "withdraw_retired_rows s = Inr (x, s')"
  then show "held X s'"
    using keepsD [OF moves_held(2)] by (auto simp: withdraw_retired_rows_def Let_def split: if_splits)
qed

lemma release_run_deliveries_held: "keeps (held X) (release_run_deliveries runId)"
  using inbox_writes_held(1) by (auto simp: keeps_def release_run_deliveries_def)

end
