(* ===== verification/EffectOutbox.thy ===== *)
theory EffectOutbox
  imports Inbox
begin

text \<open>
  \<open>src/mms/run/EffectOutbox.ts\<close>: the durable outbox. An effect is enqueued \<open>pending\<close>, claimed
  under a lease (FIFO inside its lane), and settled by compare-and-set on the status and lease owner
  it was read with. Every status write but a claim re-evaluates the tasks waiting on the thread.
  The effect table is in \<open>rowid\<close> order, so a row's position stands for its \<open>rowid\<close>. The kind table
  is the production one and reserved kinds are refused (both can be overridden by tests only).
  Subscribers, told after the commit, are not modelled.
\<close>

definition EFFECT_LEASE_GRACE_MS :: nat where
  "EFFECT_LEASE_GRACE_MS = 15000"

definition BACKOFF_BASE_MS :: nat where
  "BACKOFF_BASE_MS = 100"

definition BACKOFF_MAX_MS :: nat where
  "BACKOFF_MAX_MS = 30000"

definition effect_backoff_ms :: "nat \<Rightarrow> nat" where
  "effect_backoff_ms n = min BACKOFF_MAX_MS (BACKOFF_BASE_MS * 2 ^ (n - 1))"

datatype settlement = Settled effect_record | NotSettled "effect_status option"

section \<open>Enqueue\<close>

definition kind_str :: "effect_kind \<Rightarrow> string" where
  "kind_str kind = (case kind of TurnStart \<Rightarrow> ''turn.start'' | TurnInterrupt \<Rightarrow> ''turn.interrupt''
     | TurnSteer \<Rightarrow> ''turn.steer'' | RequestRespond \<Rightarrow> ''request.respond''
     | CheckpointCapture \<Rightarrow> ''checkpoint.capture'' | TitleGenerate \<Rightarrow> ''title.generate''
     | WorkspaceCleanup \<Rightarrow> ''workspace.cleanup'' | RunResume \<Rightarrow> ''run.resume'')"

definition effect_recorded :: "effect_record \<Rightarrow> store \<Rightarrow> store" where
  "effect_recorded e s = append_event (ef_threadId e) (ef_runId e) ''effect.status'' (EvEffect e) s"

definition next_effect_id :: "string \<Rightarrow> string option \<Rightarrow> effect_kind \<Rightarrow> store \<Rightarrow> string" where
  "next_effect_id threadId runId kind s =
     (let n = (case runId of
            Some r \<Rightarrow> if r \<noteq> [] then length (filter (\<lambda>e. ef_runId e = Some r \<and> ef_kind e = kind) (effects s))
                      else length (filter (\<lambda>e. ef_threadId e = threadId \<and> ef_runId e = None \<and> ef_kind e = kind) (effects s))
          | None \<Rightarrow> length (filter (\<lambda>e. ef_threadId e = threadId \<and> ef_runId e = None \<and> ef_kind e = kind) (effects s)))
      in ''effect:'' @ (case runId of Some r \<Rightarrow> r | None \<Rightarrow> threadId) @ '':'' @ kind_str kind @ '':'' @ nat_str (n + 1))"

record effect_input =
  ei_effectId :: "string option"
  ei_threadId :: string
  ei_runId :: "string option"
  ei_kind :: effect_kind
  ei_payload :: json
  ei_availableAt :: "nat option"

definition new_effect :: "effect_input \<Rightarrow> store \<Rightarrow> effect_record" where
  "new_effect input s =
     (let spec = EFFECT_KIND_SPEC (ei_kind input) in
      \<lparr>ef_effectId = (case ei_effectId input of Some i \<Rightarrow> i
          | None \<Rightarrow> next_effect_id (ei_threadId input) (ei_runId input) (ei_kind input) s),
       ef_threadId = ei_threadId input, ef_runId = ei_runId input, ef_kind = ei_kind input,
       ef_class = ks_class spec, ef_status = EPending, ef_payload = stored (ei_payload input),
       ef_attempts = 0,
       ef_maxAttempts = (case ks_maxAttempts spec of Some m \<Rightarrow> m | None \<Rightarrow> DEFAULT_EFFECT_MAX_ATTEMPTS),
       ef_timeoutMs = ks_timeoutMs spec,
       ef_availableAt = (case ei_availableAt input of Some at \<Rightarrow> at | None \<Rightarrow> clock s),
       ef_leaseOwner = None, ef_leaseExpiresAt = None, ef_lastError = None,
       ef_createdAt = clock s, ef_updatedAt = clock s, ef_completedAt = None\<rparr>)"

definition enqueue :: "effect_input \<Rightarrow> effect_record run_txn" where
  "enqueue input s =
     (if ks_reserved (EFFECT_KIND_SPEC (ei_kind input)) then Inl BadRequest
      else
        let e = new_effect input s in
        case get_effect (ef_effectId e) s of
          Some old \<Rightarrow> Inr (old, s)
        | None \<Rightarrow> Inr (e, effect_recorded e (s\<lparr>effects := effects s @ [e]\<rparr>)))"

section \<open>Claim\<close>

definition lane_of :: "effect_kind \<Rightarrow> effect_lane" where
  "lane_of kind = (case ks_lane (EFFECT_KIND_SPEC kind) of Some l \<Rightarrow> l | None \<Rightarrow> LThread)"

definition same_lane :: "effect_record \<Rightarrow> effect_record \<Rightarrow> bool" where
  "same_lane a b \<longleftrightarrow> ef_threadId a = ef_threadId b \<and> lane_of (ef_kind a) = lane_of (ef_kind b)"

text \<open>Running under a lease that has not expired.\<close>

definition live :: "nat \<Rightarrow> effect_record \<Rightarrow> bool" where
  "live now e \<longleftrightarrow> ef_status e = ERunning \<and> (case ef_leaseExpiresAt e of None \<Rightarrow> False | Some t \<Rightarrow> now < t)"

definition blocks :: "nat \<Rightarrow> effect_record list \<Rightarrow> nat \<Rightarrow> nat \<Rightarrow> bool" where
  "blocks now rows i j \<longleftrightarrow> j \<noteq> i \<and> same_lane (rows ! j) (rows ! i) \<and>
     (live now (rows ! j) \<or> (ef_status (rows ! j) = EPending \<and> j < i))"

definition claimable :: "nat \<Rightarrow> lane_class list option \<Rightarrow> effect_record list \<Rightarrow> nat \<Rightarrow> bool" where
  "claimable now lanes rows i \<longleftrightarrow>
     ef_status (rows ! i) = EPending \<and> ef_availableAt (rows ! i) \<le> now \<and>
     (case lanes of None \<Rightarrow> True | Some ls \<Rightarrow> effect_lane_class (ef_kind (rows ! i)) \<in> set ls) \<and>
     \<not> list_ex (blocks now rows i) [0..<length rows]"

definition claim_candidate :: "nat \<Rightarrow> lane_class list option \<Rightarrow> effect_record list \<Rightarrow> nat option" where
  "claim_candidate now lanes rows =
     (case sort_key (\<lambda>i. (ef_availableAt (rows ! i), i)) (filter (claimable now lanes rows) [0..<length rows]) of
        [] \<Rightarrow> None | i # _ \<Rightarrow> Some i)"

definition claimed :: "string \<Rightarrow> nat \<Rightarrow> effect_record \<Rightarrow> effect_record" where
  "claimed owner now e = e\<lparr>ef_status := ERunning, ef_attempts := Suc (ef_attempts e),
     ef_leaseOwner := Some owner, ef_updatedAt := now,
     ef_leaseExpiresAt := Some (now + ef_timeoutMs e + EFFECT_LEASE_GRACE_MS)\<rparr>"

definition claim_next :: "string \<Rightarrow> nat \<Rightarrow> lane_class list option \<Rightarrow> store \<Rightarrow> effect_record option \<times> store" where
  "claim_next owner now lanes s =
     (if lanes = Some [] then (None, s)
      else case claim_candidate now lanes (effects s) of
        None \<Rightarrow> (None, s)
      | Some i \<Rightarrow>
          let e = claimed owner now (effects s ! i) in
          (Some e, effect_recorded e
            (s\<lparr>effects := update_rows (\<lambda>x. ef_effectId x = ef_effectId e) (claimed owner now) (effects s)\<rparr>)))"

definition renew_lease :: "string \<Rightarrow> string \<Rightarrow> nat \<Rightarrow> store \<Rightarrow> bool \<times> store" where
  "renew_lease effectId owner now s =
     (case get_effect effectId s of
        None \<Rightarrow> (False, s)
      | Some e \<Rightarrow>
          if ef_status e \<noteq> ERunning \<or> ef_leaseOwner e \<noteq> Some owner then (False, s)
          else
            let P = (\<lambda>x. ef_effectId x = effectId \<and> ef_status x = ERunning \<and> ef_leaseOwner x = Some owner) in
            (changes P (effects s) = 1,
             s\<lparr>effects := update_rows P (\<lambda>x. x\<lparr>
                 ef_leaseExpiresAt := Some (now + (ef_timeoutMs e + EFFECT_LEASE_GRACE_MS)),
                 ef_updatedAt := now\<rparr>) (effects s)\<rparr>))"

section \<open>Status writes\<close>

definition effect_write :: "effect_record \<Rightarrow> effect_record \<Rightarrow> effect_record run_txn" where
  "effect_write current next s =
     (let P = (\<lambda>x. ef_effectId x = ef_effectId current \<and> ef_status x = ef_status current \<and>
                   ef_leaseOwner x = ef_leaseOwner current);
          f = (\<lambda>x. x\<lparr>ef_status := ef_status next, ef_attempts := ef_attempts next,
                 ef_availableAt := ef_availableAt next, ef_leaseOwner := ef_leaseOwner next,
                 ef_leaseExpiresAt := ef_leaseExpiresAt next, ef_lastError := ef_lastError next,
                 ef_updatedAt := ef_updatedAt next, ef_completedAt := ef_completedAt next\<rparr>)
      in if changes P (effects s) \<noteq> 1 then Inl StaleWrite
         else bindE (settle_txn (ef_threadId next)) (\<lambda>_. retE next)
                (effect_recorded next (s\<lparr>effects := update_rows P f (effects s)\<rparr>)))"

definition retry_or_fail :: "effect_record \<Rightarrow> nat \<Rightarrow> string \<Rightarrow> effect_record run_txn" where
  "retry_or_fail current now error =
     (if ef_maxAttempts current \<le> ef_attempts current
      then effect_write current (current\<lparr>ef_status := EFailed, ef_lastError := Some error,
             ef_leaseExpiresAt := None, ef_updatedAt := now, ef_completedAt := Some now\<rparr>)
      else effect_write current (current\<lparr>ef_status := EPending, ef_lastError := Some error,
             ef_availableAt := now + effect_backoff_ms (ef_attempts current), ef_leaseOwner := None,
             ef_leaseExpiresAt := None, ef_updatedAt := now\<rparr>))"

definition cancel_record :: "effect_record \<Rightarrow> nat \<Rightarrow> string \<Rightarrow> effect_record run_txn" where
  "cancel_record current now reason =
     effect_write current (current\<lparr>ef_status := ECancelled, ef_lastError := Some reason,
       ef_leaseExpiresAt := None, ef_updatedAt := now, ef_completedAt := Some now\<rparr>)"

text \<open>The common guard of \<open>succeed\<close>, \<open>fail\<close> and \<open>defer\<close>: only the lease owner settles.\<close>

definition owned_by :: "string \<Rightarrow> effect_record \<Rightarrow> bool" where
  "owned_by owner e \<longleftrightarrow> ef_status e = ERunning \<and> ef_leaseOwner e = Some owner"

definition settle_effect ::
  "string \<Rightarrow> (effect_record \<Rightarrow> bool) \<Rightarrow> (effect_record \<Rightarrow> effect_record run_txn) \<Rightarrow> settlement run_txn" where
  "settle_effect effectId ok write s =
     (case get_effect effectId s of
        None \<Rightarrow> Inr (NotSettled None, s)
      | Some current \<Rightarrow>
          if \<not> ok current then Inr (NotSettled (Some (ef_status current)), s)
          else bindE (write current) (\<lambda>e. retE (Settled e)) s)"

definition effect_succeed :: "string \<Rightarrow> string \<Rightarrow> nat \<Rightarrow> settlement run_txn" where
  "effect_succeed effectId owner now = settle_effect effectId (owned_by owner)
     (\<lambda>current. effect_write current (current\<lparr>ef_status := ESucceeded, ef_leaseExpiresAt := None,
        ef_updatedAt := now, ef_completedAt := Some now\<rparr>))"

definition effect_fail :: "string \<Rightarrow> string \<Rightarrow> nat \<Rightarrow> string \<Rightarrow> settlement run_txn" where
  "effect_fail effectId owner now error = settle_effect effectId (owned_by owner)
     (\<lambda>current. retry_or_fail current now error)"

definition effect_defer :: "string \<Rightarrow> string \<Rightarrow> nat \<Rightarrow> nat \<Rightarrow> string \<Rightarrow> settlement run_txn" where
  "effect_defer effectId owner now availableAt reason = settle_effect effectId (owned_by owner)
     (\<lambda>current. effect_write current (current\<lparr>ef_status := EPending, ef_attempts := ef_attempts current - 1,
        ef_availableAt := availableAt, ef_leaseOwner := None, ef_leaseExpiresAt := None,
        ef_lastError := Some reason, ef_updatedAt := now\<rparr>))"

definition effect_cancel :: "string \<Rightarrow> nat \<Rightarrow> string \<Rightarrow> string option \<Rightarrow> settlement run_txn" where
  "effect_cancel effectId now reason owner = settle_effect effectId
     (\<lambda>current. (ef_status current = EPending \<or> ef_status current = ERunning) \<and>
        (case owner of None \<Rightarrow> True | Some o' \<Rightarrow> owned_by o' current))
     (\<lambda>current. cancel_record current now reason)"

section \<open>Reads\<close>

definition effects_for_thread :: "string \<Rightarrow> effect_status option \<Rightarrow> store \<Rightarrow> effect_record list" where
  "effects_for_thread threadId status s =
     filter (\<lambda>e. ef_threadId e = threadId \<and> (case status of None \<Rightarrow> True | Some st \<Rightarrow> ef_status e = st)) (effects s)"

definition effects_for_run :: "string \<Rightarrow> store \<Rightarrow> effect_record list" where
  "effects_for_run runId s = filter (\<lambda>e. ef_runId e = Some runId) (effects s)"

definition running_effects :: "store \<Rightarrow> effect_record list" where
  "running_effects s = filter (\<lambda>e. ef_status e = ERunning) (effects s)"

definition pending_effects :: "nat \<Rightarrow> store \<Rightarrow> effect_record list" where
  "pending_effects lim s = take lim (sort_key ef_availableAt (filter (\<lambda>e. ef_status e = EPending) (effects s)))"

definition next_future_available_at :: "nat \<Rightarrow> store \<Rightarrow> nat option" where
  "next_future_available_at now s =
     (case map ef_availableAt (filter (\<lambda>e. ef_status e = EPending \<and> now < ef_availableAt e) (effects s)) of
        [] \<Rightarrow> None | t # ts \<Rightarrow> Some (foldl min t ts))"

section \<open>Sweeps\<close>

definition expired :: "nat \<Rightarrow> effect_record \<Rightarrow> bool" where
  "expired now e \<longleftrightarrow> ef_status e = ERunning \<and> (case ef_leaseExpiresAt e of None \<Rightarrow> False | Some t \<Rightarrow> t \<le> now)"

definition reclaim_expired :: "nat \<Rightarrow> string list run_txn" where
  "reclaim_expired now s =
     (let due = filter (expired now) (effects s) in
      bindE (forE due (\<lambda>e. retry_or_fail e now ''lease expired'')) (\<lambda>_. retE (map ef_effectId due)) s)"

definition cancel_process_bound :: "string \<Rightarrow> nat \<Rightarrow> effect_record list run_txn" where
  "cancel_process_bound reason now s =
     forE (filter (\<lambda>e. ef_class e = ProcessBound \<and> (ef_status e = EPending \<or> ef_status e = ERunning)) (effects s))
       (\<lambda>e. cancel_record e now reason) s"

definition requeue_running_replay_safe :: "nat \<Rightarrow> effect_record list run_txn" where
  "requeue_running_replay_safe now s =
     forE (filter (\<lambda>e. ef_class e = ReplaySafe \<and> ef_status e = ERunning) (effects s))
       (\<lambda>e. effect_write e (e\<lparr>ef_status := EPending, ef_availableAt := now, ef_leaseOwner := None,
          ef_leaseExpiresAt := None, ef_updatedAt := now\<rparr>)) s"

end
