(* ===== verification/OutboxLaws.thy ===== *)
theory OutboxLaws
  imports EffectOutbox
begin

text \<open>
  What the outbox operations guarantee: status writes go through one compare-and-set
  (\<open>effect_write\<close>), sweeps over rows read beforehand never meet a stale row, a claim is exclusive
  in its lane, and every operation keeps \<open>outbox_ok\<close>: effect ids are unique, an effect delivers rows
  of its own thread only, and no task waits on an idle subagent.
\<close>

section \<open>The invariant\<close>

definition effect_ok :: "store \<Rightarrow> bool" where
  "effect_ok s \<longleftrightarrow> distinct (map ef_effectId (effects s))"

text \<open>The effect that delivers a row, and the run of that effect, are of the row's thread.\<close>

definition delivered_locally :: "inbox_record \<Rightarrow> store \<Rightarrow> bool" where
  "delivered_locally row s \<longleftrightarrow>
     (case Option.bind (ib_deliveredBy row) (\<lambda>by. get_effect by s) of
        None \<Rightarrow> True
      | Some e \<Rightarrow> ef_threadId e = ib_threadId row \<and>
          (case delivering_run (Some e) s of None \<Rightarrow> True | Some r \<Rightarrow> rr_threadId r = ib_threadId row))"

definition delivery_local :: "store \<Rightarrow> bool" where
  "delivery_local s \<longleftrightarrow> list_all (\<lambda>row. delivered_locally row s) (inbox s)"

definition outbox_ok :: "store \<Rightarrow> bool" where
  "outbox_ok s \<longleftrightarrow> held {} s \<and> effect_ok s \<and> delivery_local s"

lemma delivery_localD:
  assumes "delivery_local s" "row \<in> set (inbox s)" "ib_deliveredBy row = Some by" "get_effect by s = Some e"
  shows "ef_threadId e = ib_threadId row" "delivering_run (Some e) s = Some r \<Longrightarrow> rr_threadId r = ib_threadId row"
proof -
  have "delivered_locally row s" using assms(1,2) by (simp add: delivery_local_def list_all_iff)
  with assms(3,4) show "ef_threadId e = ib_threadId row"
    "delivering_run (Some e) s = Some r \<Longrightarrow> rr_threadId r = ib_threadId row"
    by (simp_all add: delivered_locally_def)
qed

lemma delivered_locally_cong:
  "runs s' = runs s \<Longrightarrow> effects s' = effects s \<Longrightarrow> delivered_locally row s' = delivered_locally row s"
  by (simp add: delivered_locally_def delivering_run_def get_run_def get_effect_def cong: option.case_cong)

lemma publishing_delivery_local:
  assumes "publishing s s'" "delivery_local s"
  shows "delivery_local s'"
proof -
  obtain rows where rows: "inbox s' = inbox s @ rows" "\<forall>r \<in> set rows. ib_deliveredBy r = None \<and> ib_status r = IPending"
    using publishing_inbox(1) [OF assms(1)] by blast
  have "delivered_locally r s' = delivered_locally r s" for r
    using publishing_frame [OF assms(1)] by (intro delivered_locally_cong) simp_all
  with rows assms(2) show ?thesis
    by (auto simp: delivery_local_def list_all_iff) (simp add: delivered_locally_def)
qed

lemma publishing_outbox_ok: "publishing s s' \<Longrightarrow> outbox_ok s \<Longrightarrow> outbox_ok s'"
  by (simp add: outbox_ok_def publishing_held publishing_delivery_local effect_ok_def publishing_frame)

section \<open>One status write\<close>

text \<open>\<open>next\<close> is \<open>current\<close> but for the columns a status write may set.\<close>

definition same_effect :: "effect_record \<Rightarrow> effect_record \<Rightarrow> bool" where
  "same_effect current nxt \<longleftrightarrow> nxt = current\<lparr>ef_status := ef_status nxt, ef_attempts := ef_attempts nxt,
     ef_availableAt := ef_availableAt nxt, ef_leaseOwner := ef_leaseOwner nxt,
     ef_leaseExpiresAt := ef_leaseExpiresAt nxt, ef_lastError := ef_lastError nxt,
     ef_updatedAt := ef_updatedAt nxt, ef_completedAt := ef_completedAt nxt\<rparr>"

lemma same_effectD:
  assumes "same_effect c n"
  shows "ef_effectId n = ef_effectId c" "ef_threadId n = ef_threadId c" "ef_runId n = ef_runId c"
    "ef_kind n = ef_kind c" "ef_class n = ef_class c" "ef_payload n = ef_payload c"
    "ef_maxAttempts n = ef_maxAttempts c" "ef_timeoutMs n = ef_timeoutMs c"
proof -
  note e = assms [unfolded same_effect_def]
  show "ef_effectId n = ef_effectId c" by (subst e) simp
  show "ef_threadId n = ef_threadId c" by (subst e) simp
  show "ef_runId n = ef_runId c" by (subst e) simp
  show "ef_kind n = ef_kind c" by (subst e) simp
  show "ef_class n = ef_class c" by (subst e) simp
  show "ef_payload n = ef_payload c" by (subst e) simp
  show "ef_maxAttempts n = ef_maxAttempts c" by (subst e) simp
  show "ef_timeoutMs n = ef_timeoutMs c" by (subst e) simp
qed

definition put_effect :: "effect_record \<Rightarrow> store \<Rightarrow> store" where
  "put_effect n s = s\<lparr>effects := map (\<lambda>x. if ef_effectId x = ef_effectId n then n else x) (effects s)\<rparr>"

lemma effect_ok_unique:
  "effect_ok s \<Longrightarrow> x \<in> set (effects s) \<Longrightarrow> y \<in> set (effects s) \<Longrightarrow> ef_effectId x = ef_effectId y \<Longrightarrow> x = y"
  unfolding effect_ok_def by (rule distinct_key_unique)

lemma get_effect_mem: "get_effect i s = Some e \<Longrightarrow> e \<in> set (effects s) \<and> ef_effectId e = i"
  unfolding get_effect_def by (rule lookup_row_Some)

lemma mem_get_effect: "effect_ok s \<Longrightarrow> e \<in> set (effects s) \<Longrightarrow> get_effect (ef_effectId e) s = Some e"
  by (simp add: effect_ok_def get_effect_def lookup_row_mem)

lemma effect_write_put:
  assumes ok: "effect_ok s" and c: "c \<in> set (effects s)" and n: "same_effect c n"
  shows "effect_write c n s =
     bindE (settle_txn (ef_threadId c)) (\<lambda>_. retE n) (effect_recorded n (put_effect n s))"
proof -
  let ?P = "\<lambda>x. ef_effectId x = ef_effectId c \<and> ef_status x = ef_status c \<and> ef_leaseOwner x = ef_leaseOwner c"
  let ?f = "\<lambda>x. x\<lparr>ef_status := ef_status n, ef_attempts := ef_attempts n,
     ef_availableAt := ef_availableAt n, ef_leaseOwner := ef_leaseOwner n,
     ef_leaseExpiresAt := ef_leaseExpiresAt n, ef_lastError := ef_lastError n,
     ef_updatedAt := ef_updatedAt n, ef_completedAt := ef_completedAt n\<rparr>"
  have "changes ?P (effects s) = 1"
    by (rule changes_unique [of ef_effectId _ c]) (use ok c in \<open>auto simp: effect_ok_def\<close>)
  moreover have "update_rows ?P ?f (effects s) =
      map (\<lambda>x. if ef_effectId x = ef_effectId n then n else x) (effects s)"
    unfolding update_rows_def
  proof (rule map_cong [OF refl])
    fix x assume x: "x \<in> set (effects s)"
    show "(if ?P x then ?f x else x) = (if ef_effectId x = ef_effectId n then n else x)"
      using effect_ok_unique [OF ok x c] n same_effectD(1) [OF n]
      by (cases "ef_effectId x = ef_effectId c") (auto simp: same_effect_def)
  qed
  ultimately show ?thesis
    using same_effectD(2) [OF n] by (simp add: effect_write_def Let_def put_effect_def)
qed

lemma effects_recorded [simp]: "effects (effect_recorded e s) = effects s"
  by (simp add: effect_recorded_def)

lemma put_effect_ok: "effect_ok s \<Longrightarrow> effect_ok (put_effect n s)"
proof -
  have "map ef_effectId (effects (put_effect n s)) = map ef_effectId (effects s)"
    by (simp add: put_effect_def)
  then show "effect_ok s \<Longrightarrow> effect_ok (put_effect n s)" by (simp add: effect_ok_def)
qed

lemma get_put_effect:
  "get_effect i (put_effect n s) =
     (if i = ef_effectId n then (if get_effect i s = None then None else Some n) else get_effect i s)"
proof -
  have "lookup_row ef_effectId i (map (\<lambda>x. if ef_effectId x = ef_effectId n then n else x) rows) =
      (if i = ef_effectId n then (if lookup_row ef_effectId i rows = None then None else Some n)
       else lookup_row ef_effectId i rows)" for rows
    by (induction rows) (auto simp: lookup_row_def)
  then show ?thesis by (simp add: get_effect_def put_effect_def)
qed

lemma delivering_run_put [simp]: "delivering_run e (put_effect n s) = delivering_run e s"
  by (simp add: delivering_run_def get_run_def put_effect_def)

lemma put_effect_busy:
  assumes ok: "effect_ok s" "delivery_local s" and c: "c \<in> set (effects s)" and n: "same_effect c n"
    and t: "t \<noteq> ef_threadId c"
  shows "child_busy t (put_effect n s) = child_busy t s"
proof -
  have act: "is_actionable_row row (put_effect n s) = is_actionable_row row s"
    if row: "row \<in> set (inbox s)" "ib_threadId row = t" for row
  proof -
    have other: "get_effect by (put_effect n s) = get_effect by s" if "ib_deliveredBy row = Some by" for "by"
    proof (cases "by = ef_effectId n")
      case True
      then have "get_effect by s = Some c"
        using mem_get_effect [OF ok(1) c] same_effectD(1) [OF n] by simp
      with delivery_localD(1) [OF ok(2) row(1) that] row(2) t show ?thesis by simp
    qed (simp add: get_put_effect)
    have "get_run r (put_effect n s) = get_run r s" for r
      by (simp add: get_run_def put_effect_def)
    with other show ?thesis
      by (simp add: is_actionable_row_def delivery_stopped_by_user_def is_legacy_steer_row_def
          delivering_run_def cong: option.case_cong)
  qed
  have "(\<exists>e \<in> set (effects (put_effect n s)). ef_threadId e = t \<and> delivery_effect e) =
      (\<exists>e \<in> set (effects s). ef_threadId e = t \<and> delivery_effect e)"
  proof -
    have "ef_threadId x = ef_threadId c" if "x \<in> set (effects s)" "ef_effectId x = ef_effectId n" for x
      using effect_ok_unique [OF ok(1) that(1) c] that(2) same_effectD(1) [OF n] by simp
    then show ?thesis
      using t same_effectD(2) [OF n] by (fastforce simp: put_effect_def)
  qed
  moreover have "inbox (put_effect n s) = inbox s" by (simp add: put_effect_def)
  ultimately show ?thesis
    using act by (auto simp: child_busy_iff has_live_run_def has_running_outbound_def actionable_inbox_iff
        has_in_flight_delivery_effect_def has_unread_steers_def provider_background_work_def
        list_ex_iff put_effect_def)
qed

lemma put_effect_local:
  assumes "effect_ok s" "delivery_local s" "c \<in> set (effects s)" "same_effect c n"
  shows "delivery_local (put_effect n s)"
  unfolding delivery_local_def list_all_iff
proof
  fix row assume "row \<in> set (inbox (put_effect n s))"
  then have row: "row \<in> set (inbox s)" by (simp add: put_effect_def)
  show "delivered_locally row (put_effect n s)"
  proof (cases "ib_deliveredBy row = Some (ef_effectId n)")
    case True
    then have "get_effect (ef_effectId n) s = Some c"
      using mem_get_effect [OF assms(1,3)] same_effectD(1) [OF assms(4)] by simp
    moreover have "delivering_run (Some n) s = delivering_run (Some c) s"
      using same_effectD(3) [OF assms(4)] by (simp add: delivering_run_def)
    ultimately show ?thesis
      using delivery_localD [OF assms(2) row True] True same_effectD(2) [OF assms(4)]
      by (auto simp: delivered_locally_def get_put_effect split: option.splits)
  next
    case False
    then have "delivered_locally row (put_effect n s) = delivered_locally row s"
      by (cases "ib_deliveredBy row") (auto simp: delivered_locally_def get_put_effect split: option.split)
    with assms(2) row show ?thesis by (simp add: delivery_local_def list_all_iff)
  qed
qed

lemma recorded_same_hold: "same_hold_inputs s (effect_recorded e s)"
  by (simp add: same_hold_inputs_def effect_recorded_def)

lemma outbox_recorded [simp]: "outbox_ok (effect_recorded e s) = outbox_ok s"
  using all_settled_same [OF recorded_same_hold, of e s]
    delivered_locally_cong [of "effect_recorded e s" s]
  by (simp add: outbox_ok_def held_def settled_except_empty task_ok_def fresh_uuids_def inbox_ok_def effect_ok_def
      delivery_local_def effect_recorded_def)

text \<open>The write and what follows it.\<close>

lemma effect_write_outbox:
  assumes ok: "outbox_ok s" and c: "c \<in> set (effects s)" and n: "same_effect c n"
  shows "\<exists>s'. effect_write c n s = Inr (n, s') \<and> outbox_ok s' \<and>
    effects s' = map (\<lambda>x. if ef_effectId x = ef_effectId n then n else x) (effects s) \<and>
    runs s' = runs s \<and> publishing (effect_recorded n (put_effect n s)) s'"
proof -
  let ?s1 = "effect_recorded n (put_effect n s)"
  have e: "effect_ok s" "delivery_local s" "task_ok s" "inbox_ok s" "all_settled s"
    using ok by (simp_all add: outbox_ok_def held_def settled_except_empty)
  have t1: "task_ok ?s1" "inbox_ok ?s1" "effect_ok ?s1"
    using e put_effect_ok [OF e(1), of n]
    by (simp_all add: task_ok_def fresh_uuids_def inbox_ok_def effect_recorded_def put_effect_def effect_ok_def)
  have l1: "delivery_local ?s1"
    using put_effect_local [OF e(1,2) c n] delivered_locally_cong [of ?s1 "put_effect n s"]
    by (simp add: delivery_local_def effect_recorded_def)
  have "settled_except {ef_threadId c} ?s1"
    unfolding settled_except_def
  proof (intro allI impI)
    fix t assume "t \<notin> {ef_threadId c}"
    then have "child_busy t (put_effect n s) = child_busy t s"
      using put_effect_busy [OF e(1,2) c n] by simp
    then show "settled t ?s1"
      unfolding settled_same [OF recorded_same_hold]
      using e(5) by (auto simp: all_settled_iff settled_def is_subagent_def get_lineage_def put_effect_def)
  qed
  moreover obtain s' where s': "settle_hold (ef_threadId c) ?s1 = Inr s'"
    using holding.settle_total [OF t1(1)] by blast
  ultimately have "all_settled s'"
    using holding.settle_restores [OF s' t1(1)] by blast
  moreover have pub: "publishing ?s1 s'" by (rule holding.settle_publishing [OF s'])
  ultimately have "outbox_ok s'"
    using publishing_task_ok [OF pub t1(1)] publishing_inbox_ok [OF pub t1(2)] t1(3)
      publishing_delivery_local [OF pub l1] publishing_frame [OF pub]
    by (simp add: outbox_ok_def held_def settled_except_empty effect_ok_def)
  with s' pub publishing_frame [OF pub] show ?thesis
    unfolding effect_write_put [OF e(1) c n]
    by (simp add: bindE_def settle_txn_def retE_def effect_recorded_def put_effect_def)
qed

section \<open>Sweeps\<close>

text \<open>A loop of status writes over rows read before the loop: every write finds its row unchanged.\<close>

lemma effect_sweep:
  assumes "outbox_ok s" "set es \<subseteq> set (effects s)" "distinct es"
    and "\<And>e. e \<in> set es \<Longrightarrow> same_effect e (g e)"
  shows "\<exists>s'. forE es (\<lambda>e. effect_write e (g e)) s = Inr (map g es, s') \<and> outbox_ok s' \<and>
    effects s' = map (\<lambda>x. if x \<in> set es then g x else x) (effects s) \<and> runs s' = runs s"
  using assms
proof (induction es arbitrary: s)
  case Nil
  then show ?case by simp
next
  case (Cons e es)
  have eok: "effect_ok s" using Cons.prems(1) by (simp add: outbox_ok_def)
  have e: "e \<in> set (effects s)" "same_effect e (g e)" using Cons.prems by simp_all
  obtain s1 where s1: "effect_write e (g e) s = Inr (g e, s1)" "outbox_ok s1"
    "effects s1 = map (\<lambda>x. if ef_effectId x = ef_effectId (g e) then g e else x) (effects s)" "runs s1 = runs s"
    using effect_write_outbox [OF Cons.prems(1) e] by blast
  have id: "(ef_effectId x = ef_effectId (g e)) = (x = e)" if "x \<in> set (effects s)" for x
    using effect_ok_unique [OF eok that e(1)] same_effectD(1) [OF e(2)] by auto
  have eff: "effects s1 = map (\<lambda>x. if x = e then g e else x) (effects s)"
    unfolding s1(3) using id by simp
  have "set es \<subseteq> set (effects s1)"
    using Cons.prems(2,3) unfolding eff by force
  then obtain s' where s': "forE es (\<lambda>e. effect_write e (g e)) s1 = Inr (map g es, s')" "outbox_ok s'"
    "effects s' = map (\<lambda>x. if x \<in> set es then g x else x) (effects s1)" "runs s' = runs s1"
    using Cons.IH [OF s1(2)] Cons.prems by auto
  have "g e \<notin> set es"
  proof
    assume "g e \<in> set es"
    then have "g e \<in> set (effects s)" using Cons.prems(2) by auto
    with id [of "g e"] have "g e = e" by simp
    with \<open>g e \<in> set es\<close> Cons.prems(3) show False by simp
  qed
  then have "effects s' = map (\<lambda>x. if x \<in> set (e # es) then g x else x) (effects s)"
    unfolding s'(3) eff map_map by (intro map_cong refl) (use Cons.prems(3) in \<open>auto simp: comp_def\<close>)
  with s1(1,2,4) s'(1,2,4) show ?case by simp
qed

lemma retry_or_fail_write:
  "retry_or_fail e now err = effect_write e
     (if ef_maxAttempts e \<le> ef_attempts e
      then e\<lparr>ef_status := EFailed, ef_lastError := Some err, ef_leaseExpiresAt := None,
             ef_updatedAt := now, ef_completedAt := Some now\<rparr>
      else e\<lparr>ef_status := EPending, ef_lastError := Some err,
             ef_availableAt := now + effect_backoff_ms (ef_attempts e), ef_leaseOwner := None,
             ef_leaseExpiresAt := None, ef_updatedAt := now\<rparr>)"
  by (simp add: retry_or_fail_def)

lemma distinct_effects: "effect_ok s \<Longrightarrow> distinct (filter P (effects s))"
  by (simp add: effect_ok_def distinct_map)

lemma settle_effect_outbox:
  assumes ok: "outbox_ok s" and w: "\<And>c. write c = effect_write c (g c)" "\<And>c. same_effect c (g c)"
    and run: "settle_effect effectId P write s = Inr (x, s')"
  shows "outbox_ok s' \<and> runs s' = runs s"
proof (cases "get_effect effectId s")
  case None
  with ok run show ?thesis by (simp add: settle_effect_def)
next
  case (Some c)
  then have "c \<in> set (effects s)" by (rule get_effect_mem [THEN conjunct1])
  with effect_write_outbox [OF ok _ w(2) [of c]] w(1) [of c] Some ok run show ?thesis
    by (auto simp: settle_effect_def bindE_def retE_def split: if_splits)
qed

lemma settles_outbox:
  assumes "outbox_ok s"
  shows "effect_succeed i owner now s = Inr (x, s') \<Longrightarrow> outbox_ok s' \<and> runs s' = runs s"
    and "effect_fail i owner now err s = Inr (x, s') \<Longrightarrow> outbox_ok s' \<and> runs s' = runs s"
    and "effect_defer i owner now at why s = Inr (x, s') \<Longrightarrow> outbox_ok s' \<and> runs s' = runs s"
    and "effect_cancel i now why by s = Inr (x, s') \<Longrightarrow> outbox_ok s' \<and> runs s' = runs s"
  unfolding effect_succeed_def effect_fail_def effect_defer_def effect_cancel_def
    retry_or_fail_write cancel_record_def
  by (erule settle_effect_outbox [OF assms, rotated 2], rule refl, simp add: same_effect_def)+

section \<open>Enqueue and claim\<close>

lemma put_effect_busy_same:
  assumes ok: "effect_ok s" and c: "c \<in> set (effects s)" and n: "same_effect c n"
    and d: "delivery_effect n = delivery_effect c" "(ef_status n = ESucceeded) = (ef_status c = ESucceeded)"
  shows "child_busy t (put_effect n s) = child_busy t s"
proof -
  have id: "(ef_effectId x = ef_effectId n) = (x = c)" if "x \<in> set (effects s)" for x
    using effect_ok_unique [OF ok that c] same_effectD(1) [OF n] by auto
  have eff: "effects (put_effect n s) = map (\<lambda>x. if x = c then n else x) (effects s)"
    using id by (simp add: put_effect_def)
  have rows: "get_effect by (put_effect n s) = map_option (\<lambda>x. if x = c then n else x) (get_effect by s)" for "by"
    using get_effect_mem [of "by" s] id by (cases "get_effect by s") (auto simp: get_put_effect)
  have run: "get_run r (put_effect n s) = get_run r s" for r
    by (simp add: get_run_def put_effect_def)
  have "is_actionable_row row (put_effect n s) = is_actionable_row row s" for row
    using d(2) same_effectD(3,4) [OF n]
    by (auto simp: is_actionable_row_def delivery_stopped_by_user_def is_legacy_steer_row_def rows
        delivering_run_def run split: option.splits)
  moreover have "(\<exists>e \<in> set (effects (put_effect n s)). ef_threadId e = t \<and> delivery_effect e) =
      (\<exists>e \<in> set (effects s). ef_threadId e = t \<and> delivery_effect e)"
    unfolding eff using d(1) same_effectD(2) [OF n] c by auto
  ultimately show ?thesis
    by (auto simp: child_busy_iff has_live_run_def has_running_outbound_def actionable_inbox_iff
        has_in_flight_delivery_effect_def has_unread_steers_def provider_background_work_def
        list_ex_iff put_effect_def)
qed

lemma put_effect_outbox:
  assumes ok: "outbox_ok s" and c: "c \<in> set (effects s)" and n: "same_effect c n"
    and d: "delivery_effect n = delivery_effect c" "(ef_status n = ESucceeded) = (ef_status c = ESucceeded)"
  shows "outbox_ok (put_effect n s)"
proof -
  have e: "effect_ok s" "delivery_local s" using ok by (simp_all add: outbox_ok_def)
  have "settled t (put_effect n s) = settled t s" for t
    using put_effect_busy_same [OF e(1) c n d]
    by (simp add: settled_def is_subagent_def get_lineage_def put_effect_def)
  then show ?thesis
    using ok put_effect_ok [OF e(1), of n] put_effect_local [OF e c n]
    by (simp add: outbox_ok_def held_def settled_except_empty all_settled_iff)
      (simp add: task_ok_def fresh_uuids_def inbox_ok_def put_effect_def)
qed

lemma claim_candidate_Some:
  assumes "claim_candidate now lanes rows = Some i"
  shows "i < length rows" "claimable now lanes rows i"
proof -
  have "i \<in> set (filter (claimable now lanes rows) [0..<length rows])"
    using assms unfolding claim_candidate_def
    by (metis (no_types, lifting) list.case_eq_if list.set_sel(1) option.distinct(1) option.inject set_sort)
  then show "i < length rows" "claimable now lanes rows i" by auto
qed

lemma claim_candidate_None:
  "claim_candidate now lanes rows = None \<longleftrightarrow> (\<forall>i < length rows. \<not> claimable now lanes rows i)"
proof -
  have "claim_candidate now lanes rows = None \<longleftrightarrow> filter (claimable now lanes rows) [0..<length rows] = []"
    unfolding claim_candidate_def by (metis (no_types, lifting) list.case_eq_if option.distinct(1) sort_key_simps(1) set_empty set_sort)
  then show ?thesis by (auto simp: filter_empty_conv)
qed

lemma claimed_same [simp]: "same_effect e (claimed owner now e)"
  by (simp add: same_effect_def claimed_def)

lemma claim_next_Some:
  assumes "claim_next owner now lanes s = (Some e, s')" and ok: "effect_ok s"
  obtains i where "claim_candidate now lanes (effects s) = Some i" "i < length (effects s)"
    "claimable now lanes (effects s) i" "e = claimed owner now (effects s ! i)"
    "s' = effect_recorded e (put_effect e s)"
proof -
  from assms(1) obtain i where i: "claim_candidate now lanes (effects s) = Some i"
    "e = claimed owner now (effects s ! i)"
    "s' = effect_recorded e (s\<lparr>effects := update_rows (\<lambda>x. ef_effectId x = ef_effectId e) (claimed owner now) (effects s)\<rparr>)"
    by (auto simp: claim_next_def Let_def split: if_splits option.splits)
  note c = claim_candidate_Some [OF i(1)]
  have "update_rows (\<lambda>x. ef_effectId x = ef_effectId e) (claimed owner now) (effects s) =
      map (\<lambda>x. if ef_effectId x = ef_effectId e then e else x) (effects s)"
    unfolding update_rows_def
  proof (rule map_cong [OF refl])
    fix x assume "x \<in> set (effects s)"
    then show "(if ef_effectId x = ef_effectId e then claimed owner now x else x) =
        (if ef_effectId x = ef_effectId e then e else x)"
      using effect_ok_unique [OF ok, of x "effects s ! i"] c(1) by (auto simp: i(2) claimed_def)
  qed
  then have "s' = effect_recorded e (put_effect e s)"
    unfolding i(3) put_effect_def by (simp only:)
  with that i(1,2) c show thesis by blast
qed

lemma claim_next_outbox:
  assumes "claim_next owner now lanes s = (x, s')" "outbox_ok s"
  shows "outbox_ok s' \<and> runs s' = runs s"
proof (cases x)
  case None
  with assms show ?thesis by (auto simp: claim_next_def Let_def split: if_splits option.splits)
next
  case (Some e)
  have ok: "effect_ok s" using assms(2) by (simp add: outbox_ok_def)
  obtain i where i: "i < length (effects s)" "claimable now lanes (effects s) i"
      "e = claimed owner now (effects s ! i)" "s' = effect_recorded e (put_effect e s)"
    using claim_next_Some [OF assms(1) [unfolded Some] ok] by blast
  have "outbox_ok (put_effect e s)"
    unfolding i(3)
    by (rule put_effect_outbox [OF assms(2) nth_mem [OF i(1)] claimed_same])
      (use i(2) in \<open>auto simp: claimable_def claimed_def delivery_effect_def\<close>)
  then show ?thesis unfolding i(4) by (simp add: effect_recorded_def put_effect_def outbox_recorded [unfolded effect_recorded_def])
qed

lemma renew_lease_put:
  assumes "renew_lease i owner now s = (b, s')" "effect_ok s"
  shows "s' = s \<and> \<not> b \<or> b \<and> (\<exists>c. c \<in> set (effects s) \<and> owned_by owner c \<and>
     s' = put_effect (c\<lparr>ef_leaseExpiresAt := Some (now + (ef_timeoutMs c + EFFECT_LEASE_GRACE_MS)), ef_updatedAt := now\<rparr>) s)"
proof (cases "\<exists>c. get_effect i s = Some c \<and> owned_by owner c")
  case False
  with assms show ?thesis by (auto simp: renew_lease_def owned_by_def split: option.splits if_splits)
next
  case True
  then obtain c where c: "get_effect i s = Some c" "owned_by owner c" by blast
  then have mem: "c \<in> set (effects s)" "ef_effectId c = i" using get_effect_mem by blast+
  let ?P = "\<lambda>x. ef_effectId x = i \<and> ef_status x = ERunning \<and> ef_leaseOwner x = Some owner"
  let ?f = "\<lambda>x. x\<lparr>ef_leaseExpiresAt := Some (now + (ef_timeoutMs c + EFFECT_LEASE_GRACE_MS)), ef_updatedAt := now\<rparr>"
  have one: "changes ?P (effects s) = 1"
    by (rule changes_unique [of ef_effectId _ c])
      (use assms(2) c mem in \<open>auto simp: effect_ok_def owned_by_def\<close>)
  have "update_rows ?P ?f (effects s) =
      map (\<lambda>x. if ef_effectId x = ef_effectId (?f c) then ?f c else x) (effects s)"
    unfolding update_rows_def
  proof (rule map_cong [OF refl])
    fix x assume "x \<in> set (effects s)"
    then show "(if ?P x then ?f x else x) = (if ef_effectId x = ef_effectId (?f c) then ?f c else x)"
      using effect_ok_unique [OF assms(2) _ mem(1), of x] c(2) mem(2) by (auto simp: owned_by_def)
  qed
  with assms(1) c mem one show ?thesis
    by (auto simp: renew_lease_def put_effect_def owned_by_def Let_def)
qed

lemma renew_lease_outbox:
  assumes "renew_lease i owner now s = (b, s')" "outbox_ok s"
  shows "outbox_ok s' \<and> runs s' = runs s"
proof -
  have ok: "effect_ok s" using assms(2) by (simp add: outbox_ok_def)
  from renew_lease_put [OF assms(1) ok] show ?thesis
  proof (elim disjE conjE exE)
    fix c :: effect_record
    let ?n = "c\<lparr>ef_leaseExpiresAt := Some (now + (ef_timeoutMs c + EFFECT_LEASE_GRACE_MS)), ef_updatedAt := now\<rparr>"
    assume c: "c \<in> set (effects s)" and s': "s' = put_effect ?n s"
    have "outbox_ok (put_effect ?n s)"
      by (rule put_effect_outbox [OF assms(2) c]) (auto simp: same_effect_def delivery_effect_def)
    with s' show ?thesis by (simp add: put_effect_def)
  qed (use assms in simp)
qed

lemma enqueue_Inr:
  assumes "enqueue input s = Inr (e, s')"
  shows "\<not> ks_reserved (EFFECT_KIND_SPEC (ei_kind input))"
    and "(get_effect (ef_effectId e) s = Some e \<and> s' = s) \<or>
      (get_effect (ef_effectId e) s = None \<and> e = new_effect input s \<and>
       s' = effect_recorded e (s\<lparr>effects := effects s @ [e]\<rparr>))"
proof -
  have self: "get_effect i s = Some x \<Longrightarrow> get_effect (ef_effectId x) s = Some x" for i x
    using get_effect_mem [of i s x] by simp
  show "\<not> ks_reserved (EFFECT_KIND_SPEC (ei_kind input))"
    using assms by (auto simp: enqueue_def split: if_splits)
  show "(get_effect (ef_effectId e) s = Some e \<and> s' = s) \<or>
      (get_effect (ef_effectId e) s = None \<and> e = new_effect input s \<and>
       s' = effect_recorded e (s\<lparr>effects := effects s @ [e]\<rparr>))"
    using assms self by (auto simp: enqueue_def Let_def split: if_splits option.splits)
qed

text \<open>A new effect must not take the id of one that rows were delivered by before.\<close>

lemma enqueue_outbox:
  assumes run: "enqueue input s = Inr (e, s')" and ok: "outbox_ok s"
    and fresh: "\<forall>row \<in> set (inbox s). ib_deliveredBy row \<noteq> Some (ef_effectId e)"
  shows "outbox_ok s' \<and> runs s' = runs s"
  using enqueue_Inr(2) [OF run]
proof (elim disjE conjE)
  assume none: "get_effect (ef_effectId e) s = None" and s': "s' = effect_recorded e (s\<lparr>effects := effects s @ [e]\<rparr>)"
  let ?s1 = "s\<lparr>effects := effects s @ [e]\<rparr>"
  have get: "get_effect i ?s1 = (if i = ef_effectId e then Some e else get_effect i s)" for i
    using none by (auto simp: get_effect_def lookup_row_append split: option.split)
  have run': "get_run r ?s1 = get_run r s" for r by (simp add: get_run_def)
  have other: "get_effect by ?s1 = get_effect by s"
    if "row \<in> set (inbox s)" "ib_deliveredBy row = Some by" for row "by"
    using that fresh by (auto simp: get)
  have act: "is_actionable_row row ?s1 = is_actionable_row row s" if "row \<in> set (inbox s)" for row
    using other [OF that] by (simp add: is_actionable_row_def delivery_stopped_by_user_def is_legacy_steer_row_def
        delivering_run_def run' cong: option.case_cong)
  have loc: "delivered_locally row ?s1 = delivered_locally row s" if "row \<in> set (inbox s)" for row
    using other [OF that] by (cases "ib_deliveredBy row")
      (simp_all add: delivered_locally_def delivering_run_def run' cong: option.case_cong)
  have "child_busy t ?s1" if "child_busy t s" for t
    using that act by (auto simp: child_busy_iff has_live_run_def has_running_outbound_def actionable_inbox_iff
        has_in_flight_delivery_effect_def has_unread_steers_def provider_background_work_def list_ex_iff)
  then have "settled t ?s1" for t
    using ok by (auto simp: outbox_ok_def held_def settled_except_empty all_settled_iff settled_def is_subagent_def get_lineage_def)
  moreover have "effect_ok ?s1"
    using ok none by (auto simp: outbox_ok_def effect_ok_def get_effect_def lookup_row_None)
  ultimately have "outbox_ok ?s1"
    using ok loc by (simp add: outbox_ok_def held_def settled_except_empty all_settled_iff task_ok_def fresh_uuids_def inbox_ok_def
        delivery_local_def list_all_iff)
  then show ?thesis unfolding s' by (simp add: effect_recorded_def outbox_recorded [unfolded effect_recorded_def])
qed (use ok in simp)

end
