(* ===== verification/OutboxSteps.thy ===== *)
theory OutboxSteps
  imports OutboxLaws
begin

text \<open>
  The outbox as a state machine: \<open>effect_step\<close> is what one operation may do to one effect,
  \<open>outbox_step\<close> one operation on the store; with the properties of \<open>EffectOutbox.ts\<close>.
\<close>

section \<open>What happens to an effect\<close>

inductive effect_step :: "effect_record \<Rightarrow> effect_record \<Rightarrow> bool" where
  step_none: "effect_step e e"
| step_claim: "ef_status e = EPending \<Longrightarrow> effect_step e (claimed owner now e)"
| step_renew: "ef_status e = ERunning \<Longrightarrow>
     effect_step e (e\<lparr>ef_leaseExpiresAt := Some t, ef_updatedAt := now\<rparr>)"
| step_succeed: "ef_status e = ERunning \<Longrightarrow>
     effect_step e (e\<lparr>ef_status := ESucceeded, ef_leaseExpiresAt := None, ef_updatedAt := now, ef_completedAt := Some now\<rparr>)"
| step_give_up: "ef_status e = ERunning \<Longrightarrow> ef_maxAttempts e \<le> ef_attempts e \<Longrightarrow>
     effect_step e (e\<lparr>ef_status := EFailed, ef_lastError := Some err, ef_leaseExpiresAt := None,
       ef_updatedAt := now, ef_completedAt := Some now\<rparr>)"
| step_retry: "ef_status e = ERunning \<Longrightarrow> ef_attempts e < ef_maxAttempts e \<Longrightarrow>
     effect_step e (e\<lparr>ef_status := EPending, ef_lastError := Some err, ef_availableAt := at,
       ef_leaseOwner := None, ef_leaseExpiresAt := None, ef_updatedAt := now\<rparr>)"
| step_defer: "ef_status e = ERunning \<Longrightarrow>
     effect_step e (e\<lparr>ef_status := EPending, ef_attempts := ef_attempts e - 1, ef_availableAt := at,
       ef_leaseOwner := None, ef_leaseExpiresAt := None, ef_lastError := Some err, ef_updatedAt := now\<rparr>)"
| step_cancel: "ef_status e = EPending \<or> ef_status e = ERunning \<Longrightarrow>
     effect_step e (e\<lparr>ef_status := ECancelled, ef_lastError := Some err, ef_leaseExpiresAt := None,
       ef_updatedAt := now, ef_completedAt := Some now\<rparr>)"
| step_requeue: "ef_status e = ERunning \<Longrightarrow> ef_class e = ReplaySafe \<Longrightarrow>
     effect_step e (e\<lparr>ef_status := EPending, ef_availableAt := at, ef_leaseOwner := None,
       ef_leaseExpiresAt := None, ef_updatedAt := now\<rparr>)"

inductive_cases effect_stepE: "effect_step e e'"

fun effect_moves :: "effect_status \<Rightarrow> effect_status list" where
  "effect_moves EPending = [ERunning, ECancelled]"
| "effect_moves ERunning = [EPending, ERunning, ESucceeded, EFailed, ECancelled]"
| "effect_moves _ = []"

interpretation effect_moves: status_table effect_moves terminal_effect
proof
  fix s show "terminal_effect s \<Longrightarrow> effect_moves s = []" by (cases s) auto
qed

lemma effect_step_same: "effect_step e e' \<Longrightarrow> same_effect e e'"
  by (erule effect_stepE) (auto simp: same_effect_def claimed_def)

lemma effect_step_moves: "effect_step e e' \<Longrightarrow> e' = e \<or> ef_status e' \<in> set (effect_moves (ef_status e))"
  by (erule effect_stepE) (auto simp: claimed_def)

lemma effect_step_terminal: "effect_step e e' \<Longrightarrow> terminal_effect (ef_status e) \<Longrightarrow> e' = e"
  by (erule effect_stepE) auto

text \<open>The counter of attempts of a process-bound effect: a pending one has an attempt left, a running one has used one.\<close>

definition attempts_bounded :: "effect_record \<Rightarrow> bool" where
  "attempts_bounded e \<longleftrightarrow> ef_class e = ReplaySafe \<or>
     (ef_attempts e \<le> ef_maxAttempts e \<and> (ef_status e = EPending \<longrightarrow> ef_attempts e < ef_maxAttempts e) \<and>
      (ef_status e = ERunning \<longrightarrow> 0 < ef_attempts e))"

lemma effect_step_attempts: "effect_step e e' \<Longrightarrow> attempts_bounded e \<Longrightarrow> attempts_bounded e'"
  by (erule effect_stepE) (auto simp: attempts_bounded_def claimed_def)

lemma new_effect_attempts: "attempts_bounded (new_effect input s)"
  by (cases "ei_kind input") (simp_all add: attempts_bounded_def new_effect_def Let_def DEFAULT_EFFECT_MAX_ATTEMPTS_def)

definition effects_step :: "store \<Rightarrow> store \<Rightarrow> bool" where
  "effects_step s s' \<longleftrightarrow> (\<exists>g new. effects s' = map g (effects s) @ new \<and>
     (\<forall>e \<in> set (effects s). effect_step e (g e)) \<and> (\<forall>e \<in> set new. attempts_bounded e))"

lemma effects_step_map:
  "effects s' = map g (effects s) \<Longrightarrow> (\<And>e. e \<in> set (effects s) \<Longrightarrow> effect_step e (g e)) \<Longrightarrow> effects_step s s'"
  unfolding effects_step_def by (intro exI [of _ g] exI [of _ "[]"]) simp

lemma effects_step_if:
  assumes "effects s' = map (\<lambda>e. if P e then g e else e) (effects s)" "\<And>e. P e \<Longrightarrow> effect_step e (g e)"
  shows "effects_step s s'"
  by (rule effects_step_map [OF assms(1)]) (auto intro: step_none assms(2))

lemma effects_step_same: "effects s' = effects s \<Longrightarrow> effects_step s s'"
  by (rule effects_step_map [where g = id]) (simp_all add: step_none)

lemma effects_step_put:
  assumes "effect_ok s" "c \<in> set (effects s)" "effect_step c n"
    and "effects s' = map (\<lambda>x. if ef_effectId x = ef_effectId n then n else x) (effects s)"
  shows "effects_step s s'"
proof (rule effects_step_map [OF assms(4)])
  fix e assume "e \<in> set (effects s)"
  then show "effect_step e (if ef_effectId e = ef_effectId n then n else e)"
    using effect_ok_unique [OF assms(1) _ assms(2)] assms(3) same_effectD(1) [OF effect_step_same [OF assms(3)]]
    by (auto intro: step_none)
qed

lemma effects_step_get:
  assumes "effects_step s s'" "effect_ok s" "get_effect i s = Some e"
  shows "\<exists>e'. get_effect i s' = Some e' \<and> effect_step e e'"
proof -
  obtain g new where g: "effects s' = map g (effects s) @ new" "\<forall>e \<in> set (effects s). effect_step e (g e)"
    using assms(1) by (auto simp: effects_step_def)
  have "lookup_row ef_effectId i (map g rows @ new) = Some (g e)"
    if "lookup_row ef_effectId i rows = Some e" "\<forall>e \<in> set rows. effect_step e (g e)" for rows
    using that
  proof (induction rows)
    case (Cons x rows)
    then have "ef_effectId (g x) = ef_effectId x"
      using same_effectD(1) [OF effect_step_same] by auto
    with Cons show ?case by (auto simp: lookup_row_def split: if_splits)
  qed (simp add: lookup_row_def)
  then show ?thesis
    using assms(3) g get_effect_mem [OF assms(3)] by (auto simp: get_effect_def)
qed

section \<open>The operations as steps\<close>

lemma settle_effect_step:
  assumes ok: "outbox_ok s" and w: "\<And>c. write c = effect_write c (g c)"
    and st: "\<And>c. P c \<Longrightarrow> effect_step c (g c)"
    and run: "settle_effect effectId P write s = Inr (x, s')"
  shows "effects_step s s'"
proof (cases "get_effect effectId s")
  case None
  with run show ?thesis by (simp add: settle_effect_def effects_step_same)
next
  case (Some c)
  have eok: "effect_ok s" using ok by (simp add: outbox_ok_def)
  have mem: "c \<in> set (effects s)" using get_effect_mem [OF Some] by simp
  show ?thesis
  proof (cases "P c")
    case True
    from effect_write_outbox [OF ok mem effect_step_same [OF st [OF True]]] Some run True
    have "effects s' = map (\<lambda>x. if ef_effectId x = ef_effectId (g c) then g c else x) (effects s)"
      by (auto simp: settle_effect_def w bindE_def retE_def)
    then show ?thesis by (rule effects_step_put [OF eok mem st [OF True]])
  next
    case False
    with Some run show ?thesis by (simp add: settle_effect_def effects_step_same)
  qed
qed

lemma retry_step:
  "ef_status c = ERunning \<Longrightarrow> effect_step c
     (if ef_maxAttempts c \<le> ef_attempts c
      then c\<lparr>ef_status := EFailed, ef_lastError := Some err, ef_leaseExpiresAt := None,
             ef_updatedAt := now, ef_completedAt := Some now\<rparr>
      else c\<lparr>ef_status := EPending, ef_lastError := Some err,
             ef_availableAt := now + effect_backoff_ms (ef_attempts c), ef_leaseOwner := None,
             ef_leaseExpiresAt := None, ef_updatedAt := now\<rparr>)"
  by (auto intro: step_give_up step_retry)

lemma settles_step:
  assumes ok: "outbox_ok s"
  shows "effect_succeed i owner now s = Inr (x, s') \<Longrightarrow> effects_step s s'"
    and "effect_fail i owner now err s = Inr (x, s') \<Longrightarrow> effects_step s s'"
    and "effect_defer i owner now at why s = Inr (x, s') \<Longrightarrow> effects_step s s'"
    and "effect_cancel i now why by s = Inr (x, s') \<Longrightarrow> effects_step s s'"
proof -
  show "effects_step s s'" if "effect_succeed i owner now s = Inr (x, s')"
    by (rule settle_effect_step [OF ok refl _ that [unfolded effect_succeed_def]])
      (simp add: owned_by_def step_succeed)
  show "effects_step s s'" if "effect_fail i owner now err s = Inr (x, s')"
    by (rule settle_effect_step [OF ok retry_or_fail_write _ that [unfolded effect_fail_def]])
      (simp only: owned_by_def retry_step)
  show "effects_step s s'" if "effect_defer i owner now at why s = Inr (x, s')"
    by (rule settle_effect_step [OF ok refl _ that [unfolded effect_defer_def]])
      (unfold owned_by_def, blast intro: step_defer)
  show "effects_step s s'" if "effect_cancel i now why by s = Inr (x, s')"
    by (rule settle_effect_step [OF ok cancel_record_def _ that [unfolded effect_cancel_def]])
      (blast intro: step_cancel)
qed

lemma claim_step:
  assumes "claim_next owner now lanes s = (x, s')" "outbox_ok s"
  shows "effects_step s s'"
proof (cases x)
  case None
  with assms show ?thesis by (auto simp: claim_next_def Let_def effects_step_same split: if_splits option.splits)
next
  case (Some e)
  have ok: "effect_ok s" using assms(2) by (simp add: outbox_ok_def)
  obtain i where i: "i < length (effects s)" "claimable now lanes (effects s) i"
      "e = claimed owner now (effects s ! i)" "s' = effect_recorded e (put_effect e s)"
    using claim_next_Some [OF assms(1) [unfolded Some] ok] by blast
  show ?thesis
    by (rule effects_step_put [OF ok nth_mem [OF i(1)]])
      (use i(2) in \<open>auto simp: i(3,4) claimable_def put_effect_def intro: step_claim\<close>)
qed

lemma renew_step:
  assumes "renew_lease i owner now s = (b, s')" "outbox_ok s"
  shows "effects_step s s'"
proof -
  have ok: "effect_ok s" using assms(2) by (simp add: outbox_ok_def)
  from renew_lease_put [OF assms(1) ok] show ?thesis
  proof (elim disjE conjE exE)
    fix c :: effect_record
    let ?n = "c\<lparr>ef_leaseExpiresAt := Some (now + (ef_timeoutMs c + EFFECT_LEASE_GRACE_MS)), ef_updatedAt := now\<rparr>"
    assume c: "c \<in> set (effects s)" "owned_by owner c" and s': "s' = put_effect ?n s"
    have "effect_step c ?n" by (rule step_renew) (use c(2) in \<open>simp add: owned_by_def\<close>)
    then show ?thesis
      by (rule effects_step_put [OF ok c(1)]) (simp add: s' put_effect_def)
  qed (simp add: effects_step_same)
qed

lemma enqueue_step: "enqueue input s = Inr (e, s') \<Longrightarrow> effects_step s s'"
proof -
  assume "enqueue input s = Inr (e, s')"
  from enqueue_Inr(2) [OF this] show ?thesis
  proof (elim disjE conjE)
    assume "e = new_effect input s" "s' = effect_recorded e (s\<lparr>effects := effects s @ [e]\<rparr>)"
    then have "effects s' = map id (effects s) @ [e]" "attempts_bounded e"
      by (simp_all add: new_effect_attempts)
    then show ?thesis unfolding effects_step_def by (fastforce intro: step_none)
  qed (simp add: effects_step_same)
qed

text \<open>The sweeps, with what they leave.\<close>

definition reclaimed :: "nat \<Rightarrow> effect_record \<Rightarrow> effect_record" where
  "reclaimed now e =
     (if ef_maxAttempts e \<le> ef_attempts e
      then e\<lparr>ef_status := EFailed, ef_lastError := Some ''lease expired'', ef_leaseExpiresAt := None,
             ef_updatedAt := now, ef_completedAt := Some now\<rparr>
      else e\<lparr>ef_status := EPending, ef_lastError := Some ''lease expired'',
             ef_availableAt := now + effect_backoff_ms (ef_attempts e), ef_leaseOwner := None,
             ef_leaseExpiresAt := None, ef_updatedAt := now\<rparr>)"

lemma filter_member_if: "x \<in> set rows \<Longrightarrow> (if x \<in> set (filter P rows) then a else b) = (if P x then a else b)"
  by simp

lemma reclaim_expired_Inr:
  assumes ok: "outbox_ok s"
  shows "\<exists>s'. reclaim_expired now s = Inr (map ef_effectId (filter (expired now) (effects s)), s') \<and> outbox_ok s' \<and>
    effects s' = map (\<lambda>e. if expired now e then reclaimed now e else e) (effects s) \<and> runs s' = runs s"
proof -
  have eok: "effect_ok s" using ok by (simp add: outbox_ok_def)
  have w: "(\<lambda>e. retry_or_fail e now ''lease expired'') = (\<lambda>e. effect_write e (reclaimed now e))"
    by (simp add: fun_eq_iff reclaimed_def retry_or_fail_write)
  have "same_effect e (reclaimed now e)" for e by (simp add: reclaimed_def same_effect_def)
  then obtain s' where s': "forE (filter (expired now) (effects s)) (\<lambda>e. effect_write e (reclaimed now e)) s =
        Inr (map (reclaimed now) (filter (expired now) (effects s)), s')" "outbox_ok s'"
      "effects s' = map (\<lambda>x. if x \<in> set (filter (expired now) (effects s)) then reclaimed now x else x) (effects s)"
      "runs s' = runs s"
    using effect_sweep [OF ok _ distinct_effects [OF eok], of "expired now" "reclaimed now"] by auto
  then show ?thesis
    by (simp add: reclaim_expired_def Let_def w bindE_def retE_def)
qed

definition boot_cancelled :: "string \<Rightarrow> nat \<Rightarrow> effect_record \<Rightarrow> effect_record" where
  "boot_cancelled reason now e = e\<lparr>ef_status := ECancelled, ef_lastError := Some reason,
     ef_leaseExpiresAt := None, ef_updatedAt := now, ef_completedAt := Some now\<rparr>"

definition boot_requeued :: "nat \<Rightarrow> effect_record \<Rightarrow> effect_record" where
  "boot_requeued now e = e\<lparr>ef_status := EPending, ef_availableAt := now, ef_leaseOwner := None,
     ef_leaseExpiresAt := None, ef_updatedAt := now\<rparr>"

lemma cancel_process_bound_Inr:
  assumes ok: "outbox_ok s"
  shows "\<exists>es s'. cancel_process_bound reason now s = Inr (es, s') \<and> outbox_ok s' \<and> runs s' = runs s \<and>
    effects s' = map (\<lambda>e. if ef_class e = ProcessBound \<and> (ef_status e = EPending \<or> ef_status e = ERunning)
      then boot_cancelled reason now e else e) (effects s)"
proof -
  let ?P = "\<lambda>e. ef_class e = ProcessBound \<and> (ef_status e = EPending \<or> ef_status e = ERunning)"
  have eok: "effect_ok s" using ok by (simp add: outbox_ok_def)
  have "same_effect e (boot_cancelled reason now e)" for e by (simp add: boot_cancelled_def same_effect_def)
  then obtain s' where s': "forE (filter ?P (effects s)) (\<lambda>e. effect_write e (boot_cancelled reason now e)) s =
        Inr (map (boot_cancelled reason now) (filter ?P (effects s)), s')" "outbox_ok s'"
      "effects s' = map (\<lambda>x. if x \<in> set (filter ?P (effects s)) then boot_cancelled reason now x else x) (effects s)"
      "runs s' = runs s"
    using effect_sweep [OF ok _ distinct_effects [OF eok], of ?P "boot_cancelled reason now"] by auto
  then show ?thesis
    by (simp add: cancel_process_bound_def cancel_record_def boot_cancelled_def)
qed

lemma requeue_Inr:
  assumes ok: "outbox_ok s"
  shows "\<exists>es s'. requeue_running_replay_safe now s = Inr (es, s') \<and> outbox_ok s' \<and> runs s' = runs s \<and>
    effects s' = map (\<lambda>e. if ef_class e = ReplaySafe \<and> ef_status e = ERunning
      then boot_requeued now e else e) (effects s)"
proof -
  let ?P = "\<lambda>e. ef_class e = ReplaySafe \<and> ef_status e = ERunning"
  have eok: "effect_ok s" using ok by (simp add: outbox_ok_def)
  have "same_effect e (boot_requeued now e)" for e by (simp add: boot_requeued_def same_effect_def)
  then obtain s' where s': "forE (filter ?P (effects s)) (\<lambda>e. effect_write e (boot_requeued now e)) s =
        Inr (map (boot_requeued now) (filter ?P (effects s)), s')" "outbox_ok s'"
      "effects s' = map (\<lambda>x. if x \<in> set (filter ?P (effects s)) then boot_requeued now x else x) (effects s)"
      "runs s' = runs s"
    using effect_sweep [OF ok _ distinct_effects [OF eok], of ?P "boot_requeued now"] by auto
  then show ?thesis
    by (simp add: requeue_running_replay_safe_def boot_requeued_def)
qed

text \<open>One operation of the outbox. An enqueue must not reuse the id a row was delivered by.\<close>

inductive outbox_step :: "store \<Rightarrow> store \<Rightarrow> bool" where
  os_enqueue: "enqueue input s = Inr (e, s') \<Longrightarrow>
     \<forall>row \<in> set (inbox s). ib_deliveredBy row \<noteq> Some (ef_effectId e) \<Longrightarrow> outbox_step s s'"
| os_claim: "claim_next owner now lanes s = (x, s') \<Longrightarrow> outbox_step s s'"
| os_renew: "renew_lease i owner now s = (b, s') \<Longrightarrow> outbox_step s s'"
| os_succeed: "effect_succeed i owner now s = Inr (y, s') \<Longrightarrow> outbox_step s s'"
| os_fail: "effect_fail i owner now err s = Inr (y, s') \<Longrightarrow> outbox_step s s'"
| os_defer: "effect_defer i owner now at err s = Inr (y, s') \<Longrightarrow> outbox_step s s'"
| os_cancel: "effect_cancel i now err by s = Inr (y, s') \<Longrightarrow> outbox_step s s'"
| os_reclaim: "reclaim_expired now s = Inr (ids, s') \<Longrightarrow> outbox_step s s'"
| os_boot_cancel: "cancel_process_bound err now s = Inr (es, s') \<Longrightarrow> outbox_step s s'"
| os_boot_requeue: "requeue_running_replay_safe now s = Inr (es, s') \<Longrightarrow> outbox_step s s'"

lemma outbox_step_keeps:
  assumes "outbox_step s s'" "outbox_ok s"
  shows "outbox_ok s' \<and> runs s' = runs s \<and> effects_step s s'"
  using assms
proof (induction rule: outbox_step.induct)
  case (os_enqueue input s e s')
  then show ?case using enqueue_outbox enqueue_step by blast
next
  case (os_claim owner now lanes s x s')
  then show ?case using claim_next_outbox claim_step by blast
next
  case (os_renew i owner now s b s')
  then show ?case using renew_lease_outbox renew_step by blast
next
  case (os_reclaim now s ids s')
  have "effect_step e (reclaimed now e)" if "expired now e" for e
    unfolding reclaimed_def by (rule retry_step) (use that in \<open>simp add: expired_def\<close>)
  with reclaim_expired_Inr [OF os_reclaim(2), of now] os_reclaim(1) show ?case
    by (auto intro: effects_step_if)
next
  case (os_boot_cancel err now s es s')
  have "effect_step e (boot_cancelled err now e)"
    if "ef_class e = ProcessBound \<and> (ef_status e = EPending \<or> ef_status e = ERunning)" for e
    unfolding boot_cancelled_def by (rule step_cancel) (use that in blast)
  with cancel_process_bound_Inr [OF os_boot_cancel(2), of err now] os_boot_cancel(1) show ?case
    by (auto intro: effects_step_if)
next
  case (os_boot_requeue now s es s')
  have "effect_step e (boot_requeued now e)" if "ef_class e = ReplaySafe \<and> ef_status e = ERunning" for e
    unfolding boot_requeued_def by (rule step_requeue) (use that in auto)
  with requeue_Inr [OF os_boot_requeue(2), of now] os_boot_requeue(1) show ?case
    by (auto intro: effects_step_if)
next
  case (os_succeed i owner now s y s')
  with settles_outbox(1) [OF os_succeed(2,1)] settles_step(1) [OF os_succeed(2,1)] show ?case by simp
next
  case (os_fail i owner now err s y s')
  with settles_outbox(2) [OF os_fail(2,1)] settles_step(2) [OF os_fail(2,1)] show ?case by simp
next
  case (os_defer i owner now at err s y s')
  with settles_outbox(3) [OF os_defer(2,1)] settles_step(3) [OF os_defer(2,1)] show ?case by simp
next
  case (os_cancel i now err "by" s y s')
  with settles_outbox(4) [OF os_cancel(2,1)] settles_step(4) [OF os_cancel(2,1)] show ?case by simp
qed

lemma outbox_steps_keep:
  assumes "outbox_step\<^sup>*\<^sup>* s s'" "outbox_ok s"
  shows "outbox_ok s' \<and> runs s' = runs s \<and>
    (list_all attempts_bounded (effects s) \<longrightarrow> list_all attempts_bounded (effects s')) \<and>
    (\<forall>i e. get_effect i s = Some e \<longrightarrow> terminal_effect (ef_status e) \<longrightarrow> get_effect i s' = Some e)"
  using assms
proof (induction rule: rtranclp_induct)
  case base
  then show ?case by simp
next
  case (step s1 s2)
  then have ok: "outbox_ok s1" by blast
  note k = outbox_step_keeps [OF step(2) ok]
  have bounded: "list_all attempts_bounded (effects s2)" if "list_all attempts_bounded (effects s1)"
    using k that effect_step_attempts by (fastforce simp: effects_step_def list_all_iff)
  have final: "get_effect i s2 = Some e" if "get_effect i s1 = Some e" "terminal_effect (ef_status e)" for i e
    using effects_step_get [OF conjunct2 [OF conjunct2 [OF k]] _ that(1)] ok that(2) effect_step_terminal
    by (auto simp: outbox_ok_def)
  show ?case using step(3) [OF step(4)] k bounded final by auto
qed


section \<open>How often an effect is claimed\<close>

fun outbox_trace :: "store \<Rightarrow> store list \<Rightarrow> bool" where
  "outbox_trace s [] = True"
| "outbox_trace s (s' # ss) \<longleftrightarrow> outbox_step s s' \<and> outbox_trace s' ss"

text \<open>A claim takes an effect from pending to running; only a deferral puts it back with an attempt less.\<close>

definition claims_it :: "string \<Rightarrow> store \<Rightarrow> store \<Rightarrow> bool" where
  "claims_it i s s' \<longleftrightarrow> map_option ef_status (get_effect i s) = Some EPending \<and>
     map_option ef_status (get_effect i s') = Some ERunning"

definition defers_it :: "string \<Rightarrow> store \<Rightarrow> store \<Rightarrow> bool" where
  "defers_it i s s' \<longleftrightarrow> (\<exists>e e'. get_effect i s = Some e \<and> get_effect i s' = Some e' \<and>
     ef_status e = ERunning \<and> ef_status e' = EPending \<and> ef_attempts e' < ef_attempts e)"

fun steps_where :: "(store \<Rightarrow> store \<Rightarrow> bool) \<Rightarrow> store \<Rightarrow> store list \<Rightarrow> nat" where
  "steps_where Q s [] = 0"
| "steps_where Q s (s' # ss) = (if Q s s' then 1 else 0) + steps_where Q s' ss"

lemma effect_step_counted:
  assumes "effect_step e e'" "ef_status e = ERunning \<Longrightarrow> 0 < ef_attempts e"
  shows "ef_attempts e + (if ef_status e = EPending \<and> ef_status e' = ERunning then 1 else 0) =
    ef_attempts e' + (if ef_status e = ERunning \<and> ef_status e' = EPending \<and> ef_attempts e' < ef_attempts e then 1 else 0)"
  using assms(1) by (rule effect_stepE) (use assms(2) in \<open>auto simp: claimed_def\<close>)

lemma trace_counted:
  assumes "outbox_trace s ss" "outbox_ok s" "list_all attempts_bounded (effects s)" "get_effect i s = Some e" "ef_class e = ProcessBound"
  shows "steps_where (claims_it i) s ss + ef_attempts e \<le> ef_maxAttempts e + steps_where (defers_it i) s ss"
  using assms
proof (induction ss arbitrary: s e)
  case Nil
  then have "e \<in> set (effects s)" using get_effect_mem by blast
  with Nil show ?case by (auto simp: attempts_bounded_def list_all_iff)
next
  case (Cons s1 ss)
  then have step: "outbox_step s s1" and ok: "outbox_ok s" "effect_ok s" by (simp_all add: outbox_ok_def)
  have k: "outbox_ok s1" "effects_step s s1" using outbox_step_keeps [OF step ok(1)] by simp_all
  obtain e1 where e1: "get_effect i s1 = Some e1" "effect_step e e1"
    using effects_step_get [OF k(2) ok(2) Cons.prems(4)] by blast
  have "list_all attempts_bounded (effects s1)"
    using outbox_steps_keep [OF r_into_rtranclp [of outbox_step, OF step] ok(1)] Cons.prems(3) by simp
  moreover have same: "ef_class e1 = ef_class e" "ef_maxAttempts e1 = ef_maxAttempts e"
    using e1(2) by (auto elim!: effect_stepE simp: claimed_def)
  ultimately have rest: "steps_where (claims_it i) s1 ss + ef_attempts e1 \<le> ef_maxAttempts e + steps_where (defers_it i) s1 ss"
    using Cons.IH [OF _ k(1) _ e1(1)] Cons.prems(1,5) by simp
  have "e \<in> set (effects s)" using get_effect_mem [OF Cons.prems(4)] by simp
  then have "ef_status e = ERunning \<Longrightarrow> 0 < ef_attempts e"
    using Cons.prems(3,5) by (auto simp: attempts_bounded_def list_all_iff)
  note counted = effect_step_counted [OF e1(2) this]
  have "claims_it i s s1 \<longleftrightarrow> ef_status e = EPending \<and> ef_status e1 = ERunning"
    "defers_it i s s1 \<longleftrightarrow> ef_status e = ERunning \<and> ef_status e1 = EPending \<and> ef_attempts e1 < ef_attempts e"
    using Cons.prems(4) e1(1) by (simp_all add: claims_it_def defers_it_def)
  with counted rest show ?case by (simp split: if_splits)
qed

lemma trace_steps: "outbox_trace s ss \<Longrightarrow> outbox_step\<^sup>*\<^sup>* s (last (s # ss))"
proof (induction ss arbitrary: s)
  case (Cons s1 ss)
  then have "outbox_step s s1" "outbox_step\<^sup>*\<^sup>* s1 (last (s1 # ss))" by simp_all
  then show ?case by (simp add: converse_rtranclp_into_rtranclp)
qed simp

section \<open>Properties of the outbox\<close>

lemma outbox_ok_empty: "inj u \<Longrightarrow> outbox_ok (empty_store n u)"
  by (simp add: outbox_ok_def held_def task_ok_def fresh_uuids_def inbox_ok_def effect_ok_def
      delivery_local_def empty_store_def settled_except_def settled_no_task)

text \<open>Two turns of one thread, enqueued one after the other.\<close>

definition turn_input :: effect_input where
  "turn_input = \<lparr>ei_effectId = None, ei_threadId = ''t'', ei_runId = Some ''r'', ei_kind = TurnStart,
     ei_payload = JNull, ei_availableAt = None\<rparr>"

definition outbox_example :: store where
  "outbox_example = (case bindE (enqueue turn_input) (\<lambda>_. enqueue turn_input) (empty_store 5 nat_str) of
     Inl e \<Rightarrow> empty_store 5 nat_str | Inr (e, s) \<Rightarrow> s)"

lemma enqueue_no_inbox: "enqueue input s = Inr (e, s') \<Longrightarrow> inbox s' = inbox s"
  using enqueue_Inr(2) [of input s e s'] by (auto simp: effect_recorded_def)

lemma outbox_example_ok: "outbox_ok outbox_example"
proof -
  have "\<not> isl (bindE (enqueue turn_input) (\<lambda>_. enqueue turn_input) (empty_store 5 nat_str))"
    by code_simp
  then obtain e2 where all: "bindE (enqueue turn_input) (\<lambda>_. enqueue turn_input) (empty_store 5 nat_str) = Inr (e2, outbox_example)"
    by (auto simp: outbox_example_def dest!: succeeds)
  then obtain e1 s1 where run: "enqueue turn_input (empty_store 5 nat_str) = Inr (e1, s1)"
    "enqueue turn_input s1 = Inr (e2, outbox_example)"
    unfolding bindE_Inr by blast
  have e: "inbox (empty_store 5 nat_str) = []" "outbox_ok (empty_store 5 nat_str)"
    by (simp add: empty_store_def, rule outbox_ok_empty, simp add: inj_def)
  have "outbox_ok s1" using enqueue_outbox [OF run(1) e(2)] e(1) by simp
  then show ?thesis
    using enqueue_outbox [OF run(2)] enqueue_no_inbox [OF run(1)] e(1) by simp
qed

text \<open>
  C5: A claim is exclusive and first-in first-out: the claimed effect is running under the caller's
  lease, no other effect of its lane is live at that moment, and no effect that was enqueued before
  it in that lane is still pending, not even one waiting out a delay.
\<close>

theorem claim_exclusive:
  assumes "effect_ok s" "claim_next owner now lanes s = (Some e, s')"
  shows "get_effect (ef_effectId e) s' = Some e \<and> owned_by owner e \<and> live now e \<and>
    (\<forall>x \<in> set (effects s'). same_lane x e \<and> live now x \<longrightarrow> x = e) \<and>
    (\<forall>x \<in> set (takeWhile (\<lambda>x. ef_effectId x \<noteq> ef_effectId e) (effects s')).
        same_lane x e \<longrightarrow> ef_status x \<noteq> EPending)"
proof -
  obtain i where i: "i < length (effects s)" "claimable now lanes (effects s) i"
      "e = claimed owner now (effects s ! i)" "s' = effect_recorded e (put_effect e s)"
    using claim_next_Some [OF assms(2,1)] by blast
  have id: "ef_effectId (effects s ! j) = ef_effectId e \<longleftrightarrow> j = i" if "j < length (effects s)" for j
    using assms(1) that i(1) nth_eq_iff_index_eq [of "map ef_effectId (effects s)" j i]
    by (simp add: effect_ok_def i(3) claimed_def)
  have eff: "effects s' = (effects s)[i := e]"
    unfolding i(4) effects_recorded
    by (rule nth_equalityI) (use id in \<open>auto simp: put_effect_def nth_list_update\<close>)
  have free: "\<not> blocks now (effects s) i j" if "j < length (effects s)" for j
    using i(2) that by (simp add: claimable_def list_ex_iff)
  have lane: "same_lane x e = same_lane x (effects s ! i)" for x
    by (simp add: same_lane_def i(3) claimed_def)
  have own: "owned_by owner e" "live now e"
    by (simp_all add: i(3) claimed_def owned_by_def live_def EFFECT_LEASE_GRACE_MS_def)
  have alone: "x = e" if x: "x \<in> set (effects s')" "same_lane x e" "live now x" for x
  proof -
    obtain j where j: "j < length (effects s)" "x = effects s' ! j"
      using x(1) by (auto simp: in_set_conv_nth eff)
    show ?thesis
    proof (cases "j = i")
      case False
      with j x free [OF j(1)] lane show ?thesis by (simp add: blocks_def eff)
    qed (use j eff in simp)
  qed
  have first: "ef_status x \<noteq> EPending"
    if x: "x \<in> set (takeWhile (\<lambda>x. ef_effectId x \<noteq> ef_effectId e) (effects s'))" "same_lane x e" for x
  proof -
    have "effects s' = take i (effects s) @ e # drop (Suc i) (effects s)"
      using i(1) by (simp add: eff upd_conv_take_nth_drop)
    moreover have "takeWhile (\<lambda>x. ef_effectId x \<noteq> ef_effectId e) (take i (effects s) @ e # drop (Suc i) (effects s)) = take i (effects s)"
      using id i(1) by (subst takeWhile_append2) (auto simp: in_set_conv_nth)
    ultimately have "x \<in> set (take i (effects s))"
      using x(1) by simp
    then obtain j where j: "j < i" "x = effects s ! j"
      using i(1) by (auto simp: in_set_conv_nth)
    with free [of j] i(1) x(2) lane show ?thesis by (auto simp: blocks_def)
  qed
  have "e \<in> set (effects s')" using i(1) by (simp add: eff set_update_memI)
  moreover have "effect_ok s'" using put_effect_ok [OF assms(1), of e] by (simp add: i(4) effect_ok_def)
  ultimately have "get_effect (ef_effectId e) s' = Some e" by (intro mem_get_effect)
  with own alone first show ?thesis by blast
qed

lemma claim_exclusive_witness:
  "\<exists>e s'. claim_next ''w'' 5 None outbox_example = (Some e, s') \<and> owned_by ''w'' e \<and>
     fst (claim_next ''w'' 5 None s') = None"
proof -
  have "fst (claim_next ''w'' 5 None outbox_example) \<noteq> None" by code_simp
  then obtain e s' where c: "claim_next ''w'' 5 None outbox_example = (Some e, s')"
    by (metis option.exhaust prod.collapse)
  have "fst (claim_next ''w'' 5 None (snd (claim_next ''w'' 5 None outbox_example))) = None" by code_simp
  then have "fst (claim_next ''w'' 5 None s') = None" by (simp only: c snd_conv)
  moreover have "effect_ok outbox_example" using outbox_example_ok by (simp add: outbox_ok_def)
  ultimately show ?thesis using claim_exclusive [OF _ c] c by blast
qed

text \<open>
  C6: No effect starves for a reason other than its lane: a claim (of given lane classes, as the workers make it, or
  of any) comes back empty only if every due pending effect of those classes has, in its own lane, a live effect or an
  earlier pending one.
\<close>

theorem claim_not_idle:
  assumes "claim_next owner now lanes s = (None, s')"
    and "i < length (effects s)" "ef_status (effects s ! i) = EPending" "ef_availableAt (effects s ! i) \<le> now"
    and "\<forall>ls. lanes = Some ls \<longrightarrow> effect_lane_class (ef_kind (effects s ! i)) \<in> set ls"
  shows "s' = s \<and> (\<exists>j < length (effects s). j \<noteq> i \<and> same_lane (effects s ! j) (effects s ! i) \<and>
    (live now (effects s ! j) \<or> (ef_status (effects s ! j) = EPending \<and> j < i)))"
proof -
  have "lanes \<noteq> Some []" using assms(5) by auto
  then have none: "claim_candidate now lanes (effects s) = None" "s' = s"
    using assms(1) by (auto simp: claim_next_def Let_def split: option.splits)
  then have "\<not> claimable now lanes (effects s) i"
    using assms(2) by (simp add: claim_candidate_None)
  then show ?thesis
    using assms(3-5) none(2) by (auto simp: claimable_def list_ex_iff blocks_def split: option.splits)
qed

lemma claim_not_idle_witness:
  "\<exists>j < 2. j \<noteq> (1::nat) \<and> live 5 (effects (snd (claim_next ''w'' 5 (Some [LcTurn]) outbox_example)) ! j)"
proof -
  let ?s = "snd (claim_next ''w'' 5 (Some [LcTurn]) outbox_example)"
  have run: "claim_next ''w'' 5 (Some [LcTurn]) ?s = (None, snd (claim_next ''w'' 5 (Some [LcTurn]) ?s))"
    by (rule prod_eqI) (simp_all, code_simp)
  have h: "1 < length (effects ?s)" "ef_status (effects ?s ! 1) = EPending" "ef_availableAt (effects ?s ! 1) \<le> 5"
      "effect_lane_class (ef_kind (effects ?s ! 1)) = LcTurn" "length (effects ?s) = 2" "\<not> (ef_status (effects ?s ! 0) = EPending)"
    by code_simp+
  from claim_not_idle [OF run h(1-3)] show ?thesis using h(4-6) by (auto simp: less_2_cases_iff)
qed

text \<open>
  C7: Settlement is compare-and-set on the lease: the owner of a running effect settles it once, the
  effect then has its final status, and every later settlement (any owner, success, failure, deferral or cancel)
  reports that status and changes nothing; whoever does not hold the lease, and whoever settles an effect that is not
  running, is refused with its status and changes nothing.
\<close>

theorem settle_once:
  assumes "outbox_ok s" "get_effect i s = Some e"
  shows "(ef_status e = ERunning \<and> ef_leaseOwner e = Some owner \<longrightarrow>
      (\<exists>e' s'. effect_succeed i owner now s = Inr (Settled e', s') \<and> get_effect i s' = Some e' \<and>
        ef_status e' = ESucceeded \<and> outbox_ok s' \<and>
        effect_succeed i other later s' = Inr (NotSettled (Some ESucceeded), s') \<and>
        effect_fail i other later err s' = Inr (NotSettled (Some ESucceeded), s') \<and>
        effect_defer i other later at err s' = Inr (NotSettled (Some ESucceeded), s') \<and>
        effect_cancel i later err by s' = Inr (NotSettled (Some ESucceeded), s'))) \<and>
    (ef_status e \<noteq> ERunning \<or> ef_leaseOwner e \<noteq> Some other \<longrightarrow>
      effect_succeed i other now s = Inr (NotSettled (Some (ef_status e)), s) \<and>
      effect_fail i other now err s = Inr (NotSettled (Some (ef_status e)), s) \<and>
      effect_defer i other now at err s = Inr (NotSettled (Some (ef_status e)), s) \<and>
      effect_cancel i now err (Some other) s = Inr (NotSettled (Some (ef_status e)), s))"
proof (intro conjI impI)
  assume own: "ef_status e = ERunning \<and> ef_leaseOwner e = Some owner"
  let ?e = "e\<lparr>ef_status := ESucceeded, ef_leaseExpiresAt := None, ef_updatedAt := now, ef_completedAt := Some now\<rparr>"
  have mem: "e \<in> set (effects s)" "ef_effectId e = i" using get_effect_mem [OF assms(2)] by blast+
  have "same_effect e ?e" by (simp add: same_effect_def)
  from effect_write_outbox [OF assms(1) mem(1) this] obtain s' where s':
    "effect_write e ?e s = Inr (?e, s')" "outbox_ok s'"
    "effects s' = map (\<lambda>x. if ef_effectId x = ef_effectId ?e then ?e else x) (effects s)"
    by blast
  have "?e \<in> set (effects s')" unfolding s'(3) using mem(1) by force
  then have get: "get_effect i s' = Some ?e"
    using mem_get_effect [of s' ?e] s'(2) mem(2) by (simp add: outbox_ok_def)
  have "effect_succeed i owner now s = Inr (Settled ?e, s')"
    using assms(2) own s'(1) by (simp add: effect_succeed_def settle_effect_def owned_by_def bindE_def retE_def)
  with get s'(2) show "\<exists>e' s'. effect_succeed i owner now s = Inr (Settled e', s') \<and> get_effect i s' = Some e' \<and>
        ef_status e' = ESucceeded \<and> outbox_ok s' \<and>
        effect_succeed i other later s' = Inr (NotSettled (Some ESucceeded), s') \<and>
        effect_fail i other later err s' = Inr (NotSettled (Some ESucceeded), s') \<and>
        effect_defer i other later at err s' = Inr (NotSettled (Some ESucceeded), s') \<and>
        effect_cancel i later err by s' = Inr (NotSettled (Some ESucceeded), s')"
    by (simp add: effect_succeed_def effect_fail_def effect_defer_def effect_cancel_def settle_effect_def owned_by_def)
qed (use assms(2) in \<open>auto simp: effect_succeed_def effect_fail_def effect_defer_def effect_cancel_def settle_effect_def owned_by_def\<close>)

lemma settle_once_witness:
  "\<exists>s e' s'. effect_succeed ''effect:r:turn.start:1'' ''v'' 8 s = Inr (NotSettled (Some ERunning), s) \<and>
     effect_succeed ''effect:r:turn.start:1'' ''w'' 8 s = Inr (Settled e', s') \<and>
     effect_fail ''effect:r:turn.start:1'' ''v'' 9 [] s' = Inr (NotSettled (Some ESucceeded), s')"
proof -
  let ?s = "snd (claim_next ''w'' 5 None outbox_example)"
  have ok: "outbox_ok ?s"
    using claim_next_outbox [OF _ outbox_example_ok] by (metis prod.collapse)
  have "case get_effect ''effect:r:turn.start:1'' ?s of None \<Rightarrow> False | Some e \<Rightarrow> ef_status e = ERunning \<and> ef_leaseOwner e = Some ''w''"
    by code_simp
  then obtain e where e: "get_effect ''effect:r:turn.start:1'' ?s = Some e" "ef_status e = ERunning" "ef_leaseOwner e = Some ''w''"
    by (auto split: option.splits)
  have other: "ef_leaseOwner e \<noteq> Some ''v''" by (simp add: e(3))
  have "effect_succeed ''effect:r:turn.start:1'' ''v'' 8 ?s = Inr (NotSettled (Some ERunning), ?s)"
    using settle_once [OF ok e(1), of "''w''" 8 "''v''" 9 "[]"] other unfolding e(2) by blast
  moreover have "\<exists>e' s'. effect_succeed ''effect:r:turn.start:1'' ''w'' 8 ?s = Inr (Settled e', s') \<and>
      effect_fail ''effect:r:turn.start:1'' ''v'' 9 [] s' = Inr (NotSettled (Some ESucceeded), s')"
    using settle_once [OF ok e(1), of "''w''" 8 "''v''" 9 "[]"] e(2,3) by blast
  ultimately show ?thesis by blast
qed

text \<open>
  Reclaiming expired leases never fails and leaves none: every expired effect is pending again
  after its backoff, or failed exactly when its attempts are used up, and no other effect changes.
\<close>

theorem reclaim_expired_complete:
  assumes "outbox_ok s"
  shows "\<exists>s'. reclaim_expired now s = Inr (map ef_effectId (filter (expired now) (effects s)), s') \<and>
    outbox_ok s' \<and> list_all (\<lambda>e. \<not> expired now e) (effects s') \<and>
    effects s' = map (\<lambda>e. if expired now e then reclaimed now e else e) (effects s) \<and>
    (\<forall>e. ef_status (reclaimed now e) = (if ef_maxAttempts e \<le> ef_attempts e then EFailed else EPending))"
  using reclaim_expired_Inr [OF assms, of now]
  by (fastforce simp: list_all_iff reclaimed_def expired_def)

lemma reclaim_expired_complete_witness:
  "\<exists>s' ids. reclaim_expired 99999999 (snd (claim_next ''w'' 5 None outbox_example)) = Inr (ids, s') \<and>
     list_all (\<lambda>e. \<not> expired 99999999 e) (effects s') \<and> ids \<noteq> []"
proof -
  let ?s = "snd (claim_next ''w'' 5 None outbox_example)"
  have ok: "outbox_ok ?s"
    using claim_next_outbox [OF _ outbox_example_ok] by (metis prod.collapse)
  have "map ef_effectId (filter (expired 99999999) (effects ?s)) \<noteq> []" by code_simp
  with reclaim_expired_complete [OF ok, of 99999999] show ?thesis by blast
qed

text \<open>
  C8: Any sequence of outbox operations (enqueue, claim, renewal, settlement, cancel, reclaim, the boot sweeps) keeps
  every thread settled, never changes an effect that has ended, and claims a process-bound effect (a turn, a stop, a
  steer, an answer) at most as often as its limit of attempts allows, not counting the claims that ended in a
  deferral.
\<close>

theorem outbox_runs_safely:
  assumes "outbox_trace s ss" "outbox_ok s" "list_all attempts_bounded (effects s)"
  shows "outbox_ok (last (s # ss)) \<and>
    (\<forall>i e. get_effect i s = Some e \<and> terminal_effect (ef_status e) \<longrightarrow> get_effect i (last (s # ss)) = Some e) \<and>
    (\<forall>i e. get_effect i s = Some e \<and> ef_class e = ProcessBound \<longrightarrow>
      steps_where (claims_it i) s ss + ef_attempts e \<le> ef_maxAttempts e + steps_where (defers_it i) s ss)"
  using outbox_steps_keep [OF trace_steps [OF assms(1)] assms(2)] trace_counted [OF assms] by blast

lemma outbox_runs_safely_witness:
  "steps_where (claims_it ''effect:r:turn.start:1'') outbox_example [snd (claim_next ''w'' 5 None outbox_example)] = 1 \<and>
   list_ex (\<lambda>e. ef_effectId e = ''effect:r:turn.start:1'' \<and> 1 + ef_attempts e \<le> ef_maxAttempts e) (effects outbox_example)"
proof -
  let ?i = "''effect:r:turn.start:1''" and ?s = "snd (claim_next ''w'' 5 None outbox_example)"
  have trace: "outbox_trace outbox_example [?s]"
    by simp (rule os_claim [of "''w''" 5 None _ "fst (claim_next ''w'' 5 None outbox_example)"], simp)
  have bounded: "list_all attempts_bounded (effects outbox_example)" by code_simp
  have facts: "map_option ef_status (get_effect ?i outbox_example) = Some EPending" "map_option ef_status (get_effect ?i ?s) = Some ERunning"
    "map_option ef_class (get_effect ?i outbox_example) = Some ProcessBound"
    by code_simp+
  then obtain e where e: "get_effect ?i outbox_example = Some e" "ef_class e = ProcessBound" by blast
  have one: "steps_where (claims_it ?i) outbox_example [?s] = 1" "steps_where (defers_it ?i) outbox_example [?s] = 0"
    using facts by (auto simp: claims_it_def defers_it_def)
  have "steps_where (claims_it ?i) outbox_example [?s] + ef_attempts e \<le> ef_maxAttempts e + steps_where (defers_it ?i) outbox_example [?s]"
    using outbox_runs_safely [OF trace outbox_example_ok bounded] e by blast
  with one get_effect_mem [OF e(1)] show ?thesis by (auto simp: list_ex_iff)
qed

text \<open>
  Boot leaves nothing running: after the two boot sweeps every effect that was bound to the dead
  process has ended, every replay-safe one that was running is pending and available at once.
\<close>

theorem boot_sweeps:
  assumes "outbox_ok s"
  shows "\<exists>es s'. bindE (cancel_process_bound why now) (\<lambda>_. requeue_running_replay_safe now) s = Inr (es, s') \<and>
    outbox_ok s' \<and> length (effects s') = length (effects s) \<and>
    list_all (\<lambda>e. ef_status e \<noteq> ERunning \<and> (ef_class e = ReplaySafe \<or> terminal_effect (ef_status e))) (effects s')"
proof -
  obtain es s1 where s1: "cancel_process_bound why now s = Inr (es, s1)" "outbox_ok s1"
    "effects s1 = map (\<lambda>e. if ef_class e = ProcessBound \<and> (ef_status e = EPending \<or> ef_status e = ERunning)
      then boot_cancelled why now e else e) (effects s)"
    using cancel_process_bound_Inr [OF assms, of why now] by blast
  obtain es2 s2 where s2: "requeue_running_replay_safe now s1 = Inr (es2, s2)" "outbox_ok s2"
    "effects s2 = map (\<lambda>e. if ef_class e = ReplaySafe \<and> ef_status e = ERunning then boot_requeued now e else e) (effects s1)"
    using requeue_Inr [OF s1(2), of now] by blast
  have one: "ef_status y \<noteq> ERunning \<and> (ef_class y = ReplaySafe \<or> terminal_effect (ef_status y))"
    if "x = (if ef_class e = ProcessBound \<and> (ef_status e = EPending \<or> ef_status e = ERunning) then boot_cancelled why now e else e)"
      "y = (if ef_class x = ReplaySafe \<and> ef_status x = ERunning then boot_requeued now x else x)" for e x y
    using that by (cases "ef_status e"; cases "ef_class e") (auto simp: boot_cancelled_def boot_requeued_def)
  have "list_all (\<lambda>e. ef_status e \<noteq> ERunning \<and> (ef_class e = ReplaySafe \<or> terminal_effect (ef_status e))) (effects s2)"
    unfolding list_all_iff
  proof
    fix y assume "y \<in> set (effects s2)"
    then obtain x where x: "x \<in> set (effects s1)"
      "y = (if ef_class x = ReplaySafe \<and> ef_status x = ERunning then boot_requeued now x else x)"
      unfolding s2(3) set_map by blast
    from x(1) obtain e where
      "x = (if ef_class e = ProcessBound \<and> (ef_status e = EPending \<or> ef_status e = ERunning) then boot_cancelled why now e else e)"
      unfolding s1(3) set_map by blast
    then show "ef_status y \<noteq> ERunning \<and> (ef_class y = ReplaySafe \<or> terminal_effect (ef_status y))"
      using x(2) by (rule one)
  qed
  moreover have "length (effects s2) = length (effects s)" by (simp add: s2(3) s1(3))
  ultimately show ?thesis using s1(1) s2(1,2) by (auto simp: bindE_def)
qed

lemma boot_sweeps_witness:
  "\<exists>es s'. bindE (cancel_process_bound ''restart'' 9) (\<lambda>_. requeue_running_replay_safe 9)
       (snd (claim_next ''w'' 5 None outbox_example)) = Inr (es, s') \<and> length (effects s') = 2 \<and>
     list_all (\<lambda>e. ef_status e \<noteq> ERunning) (effects s')"
proof -
  let ?s = "snd (claim_next ''w'' 5 None outbox_example)"
  have ok: "outbox_ok ?s"
    using claim_next_outbox [OF _ outbox_example_ok] by (metis prod.collapse)
  have "length (effects ?s) = 2" by code_simp
  with boot_sweeps [OF ok, of "''restart''" 9] show ?thesis by (auto simp: list_all_iff)
qed

end
