(* ===== verification/InboxLaws.thy ===== *)
theory InboxLaws
  imports OutboxLaws
begin

text \<open>
  What an inbox operation may do to the rows: \<open>inbox_evolves\<close> (a row keeps its identity and moves
  only along \<open>TRANSITIONS\<close>) holds of every operation, \<open>owners_kept\<close> (no row gets a new owner)
  of all but the two that hand rows over. With \<open>owners_kept\<close> an operation keeps \<open>outbox_ok\<close>.
\<close>

section \<open>The two relations\<close>

definition row_evolves :: "inbox_record \<Rightarrow> inbox_record \<Rightarrow> bool" where
  "row_evolves r r' \<longleftrightarrow> ib_inboxId r' = ib_inboxId r \<and> ib_threadId r' = ib_threadId r \<and>
     ib_runId r' = ib_runId r \<and> ib_kind r' = ib_kind r \<and> ib_createdAt r' = ib_createdAt r \<and>
     moves_to inbox_moves (ib_status r) (ib_status r')"

definition inbox_evolves :: "store \<Rightarrow> store \<Rightarrow> bool" where
  "inbox_evolves s s' \<longleftrightarrow> runs s' = runs s \<and> effects s' = effects s \<and> lineage s' = lineage s \<and>
     (\<forall>i r. get_inbox i s = Some r \<longrightarrow> (\<exists>r'. get_inbox i s' = Some r' \<and> row_evolves r r'))"

definition owners_kept :: "store \<Rightarrow> store \<Rightarrow> bool" where
  "owners_kept s s' \<longleftrightarrow> runs s' = runs s \<and> effects s' = effects s \<and>
     (\<forall>r' \<in> set (inbox s'). ib_deliveredBy r' = None \<or>
        (\<exists>r \<in> set (inbox s). ib_threadId r = ib_threadId r' \<and> ib_deliveredBy r = ib_deliveredBy r'))"

lemma row_evolves_refl [simp]: "row_evolves r r"
  by (simp add: row_evolves_def)

lemma row_evolves_trans: "row_evolves r r' \<Longrightarrow> row_evolves r' r'' \<Longrightarrow> row_evolves r r''"
  unfolding row_evolves_def by (auto intro: moves_to_trans)

lemma inbox_evolves_refl [simp]: "inbox_evolves s s"
  by (simp add: inbox_evolves_def)

lemma inbox_evolves_trans: "inbox_evolves s s' \<Longrightarrow> inbox_evolves s' s'' \<Longrightarrow> inbox_evolves s s''"
  unfolding inbox_evolves_def by (metis row_evolves_trans)

lemma owners_kept_refl [simp]: "owners_kept s s"
  by (auto simp: owners_kept_def)

lemma owners_kept_trans: "owners_kept s s' \<Longrightarrow> owners_kept s' s'' \<Longrightarrow> owners_kept s s''"
  unfolding owners_kept_def by (metis (no_types, lifting))

lemma owners_kept_local:
  assumes "owners_kept s s'" "delivery_local s"
  shows "delivery_local s'"
  unfolding delivery_local_def list_all_iff
proof
  fix r' assume "r' \<in> set (inbox s')"
  then have "ib_deliveredBy r' = None \<or>
      (\<exists>r \<in> set (inbox s). ib_threadId r = ib_threadId r' \<and> ib_deliveredBy r = ib_deliveredBy r')"
    using assms(1) by (simp add: owners_kept_def)
  then show "delivered_locally r' s'"
  proof (elim disjE bexE conjE)
    fix r assume 2: "r \<in> set (inbox s)" "ib_threadId r = ib_threadId r'" "ib_deliveredBy r = ib_deliveredBy r'"
    have "delivered_locally r' s' = delivered_locally r' s"
      using assms(1) by (intro delivered_locally_cong) (simp_all add: owners_kept_def)
    also have "\<dots> = delivered_locally r s"
      using 2 by (simp add: delivered_locally_def cong: option.case_cong)
    finally show ?thesis using assms(2) 2(1) by (simp add: delivery_local_def list_all_iff)
  qed (simp add: delivered_locally_def)
qed

lemma outbox_ok_step:
  assumes "owners_kept s s'" "outbox_ok s" "held {} s'"
  shows "outbox_ok s'"
  using assms owners_kept_local by (auto simp: outbox_ok_def effect_ok_def owners_kept_def)

section \<open>The primitives\<close>

lemma evolves_update:
  assumes "\<And>r. r \<in> set (inbox s) \<Longrightarrow> P r \<Longrightarrow> row_evolves r (f r)"
    and "\<And>r. ib_inboxId (f r) = ib_inboxId r"
  shows "inbox_evolves s (inbox_recorded x c (s\<lparr>inbox := update_rows P f (inbox s)\<rparr>))"
  using assms lookup_row_Some by (fastforce simp: inbox_evolves_def get_inbox_def inbox_recorded_def lookup_row_update)

lemma owners_update:
  assumes "\<And>r. r \<in> set (inbox s) \<Longrightarrow> P r \<Longrightarrow> ib_threadId (f r) = ib_threadId r \<and>
      (ib_deliveredBy (f r) = None \<or> ib_deliveredBy (f r) = ib_deliveredBy r)"
  shows "owners_kept s (inbox_recorded x c (s\<lparr>inbox := update_rows P f (inbox s)\<rparr>))"
  using assms by (fastforce simp: owners_kept_def inbox_recorded_def set_update_rows)

lemma evolves_append:
  assumes "runs s' = runs s" "effects s' = effects s" "lineage s' = lineage s" "inbox s' = inbox s @ rows"
    "\<forall>r \<in> set rows. ib_deliveredBy r = None"
  shows "inbox_evolves s s'" "owners_kept s s'"
proof -
  have "lookup_row key k (xs @ ys) = (case lookup_row key k xs of None \<Rightarrow> lookup_row key k ys | Some x \<Rightarrow> Some x)"
    for key :: "inbox_record \<Rightarrow> string" and k xs ys
    by (induction xs) (auto simp: lookup_row_def)
  then show "inbox_evolves s s'"
    using assms by (auto simp: inbox_evolves_def get_inbox_def)
  show "owners_kept s s'"
    using assms by (auto simp: owners_kept_def)
qed

lemma evolves_publishing:
  assumes "publishing s s'"
  shows "inbox_evolves s s'" "owners_kept s s'"
proof -
  obtain rows where "inbox s' = inbox s @ rows" "\<forall>r \<in> set rows. ib_deliveredBy r = None \<and> ib_status r = IPending"
    using publishing_inbox(1) [OF assms] by blast
  with evolves_append [of s' s rows] publishing_frame [OF assms]
  show "inbox_evolves s s'" "owners_kept s s'" by simp_all
qed

lemma settle_txn_publishing: "settle_txn t s = Inr (x, s') \<Longrightarrow> publishing s s'"
  using holding.settle_publishing by (auto simp: settle_txn_def split: sum.splits)

lemma settle_moved_publishing: "settle_moved rows s = Inr (x, s') \<Longrightarrow> publishing s s'"
  using holding.settle_each_publishing by (auto simp: settle_moved_def split: sum.splits)

section \<open>The operations\<close>

text \<open>A relation that holds of every run of an operation, as an invariant of its state.\<close>

definition always :: "(store \<Rightarrow> store \<Rightarrow> bool) \<Rightarrow> 'a run_txn \<Rightarrow> bool" where
  "always R m \<longleftrightarrow> (\<forall>s x s'. m s = Inr (x, s') \<longrightarrow> R s s')"

lemma alwaysI: "(\<And>s x s'. m s = Inr (x, s') \<Longrightarrow> R s s') \<Longrightarrow> always R m"
  by (auto simp: always_def)

lemma alwaysD: "always R m \<Longrightarrow> m s = Inr (x, s') \<Longrightarrow> R s s'"
  by (auto simp: always_def)

locale preorder_relation =
  fixes R :: "store \<Rightarrow> store \<Rightarrow> bool"
  assumes refl: "R s s"
    and trans: "R s s' \<Longrightarrow> R s' s'' \<Longrightarrow> R s s''"
begin

lemma always_ret: "always R (retE x)" "always R (getE f)" "always R (requireE b e)"
  by (auto simp: always_def intro: refl)

lemma always_bind: "always R m \<Longrightarrow> (\<And>x. always R (f x)) \<Longrightarrow> always R (bindE m f)"
  unfolding always_def bindE_Inr by (blast intro: trans)

lemma always_when: "always R m \<Longrightarrow> always R (whenE b m)"
  by (auto simp: always_def whenE_def refl)

lemma always_forE:
  assumes "\<And>x. always R (f x)"
  shows "always R (forE xs f)"
proof (rule alwaysI)
  fix s ys s' assume "forE xs f s = Inr (ys, s')"
  then show "R s s'"
  proof (induction xs arbitrary: s ys)
    case (Cons x xs)
    then obtain y s1 zs where "f x s = Inr (y, s1)" "forE xs f s1 = Inr (zs, s')"
      by (auto split: sum.splits)
    with Cons.IH assms show ?case by (blast intro: trans dest: alwaysD)
  qed (simp add: refl)
qed

lemma always_loop: "(\<And>x. always R (f x)) \<Longrightarrow> (\<And>ys. always R (g ys)) \<Longrightarrow> always R (bindE (forE xs f) g)"
  by (rule always_bind) (rule always_forE, blast+)

end

interpretation evolving: preorder_relation inbox_evolves
  by unfold_locales (blast intro: inbox_evolves_refl inbox_evolves_trans)+

interpretation keeping: preorder_relation owners_kept
  by unfold_locales (blast intro: owners_kept_refl owners_kept_trans)+

lemma settle_always:
  "always inbox_evolves (settle_txn t)" "always owners_kept (settle_txn t)"
  "always inbox_evolves (settle_moved rows)" "always owners_kept (settle_moved rows)"
  by (auto intro!: alwaysI intro: evolves_publishing settle_txn_publishing settle_moved_publishing)

lemma get_inbox_id: "get_inbox i s = Some r \<Longrightarrow> r \<in> set (inbox s) \<and> ib_inboxId r = i"
  unfolding get_inbox_def by (rule lookup_row_Some)

lemma move_row_always:
  "always inbox_evolves (move_row to from by i)"
  "by = None \<or> by = Some None \<Longrightarrow> always owners_kept (move_row to from by i)"
proof -
  have split: "s' = s \<or> (\<exists>current x. get_inbox i s = Some current \<and> to \<in> set (inbox_moves (ib_status current)) \<and>
      s' = inbox_recorded x ChangeStatus (s\<lparr>inbox := update_rows
        (\<lambda>r. ib_inboxId r = i \<and> ib_status r = ib_status current)
        (\<lambda>r. r\<lparr>ib_status := to, ib_deliveredBy := patched by (ib_deliveredBy current)\<rparr>) (inbox s)\<rparr>) \<and>
      changes (\<lambda>r. ib_inboxId r = i \<and> ib_status r = ib_status current) (inbox s) = 1)"
    if "move_row to from by i s = Inr (x, s')" for s x s'
    using that by (auto simp: move_row_def Let_def split: option.splits if_splits)
  show "always inbox_evolves (move_row to from by i)"
  proof (rule alwaysI)
    fix s x s' assume "move_row to from by i s = Inr (x, s')"
    from split [OF this] show "inbox_evolves s s'"
      by (auto intro!: evolves_update simp: row_evolves_def intro: moves_to_step [OF moves_to_refl])
  qed
  show "always owners_kept (move_row to from by i)" if by_None: "by = None \<or> by = Some None"
  proof (rule alwaysI)
    fix s x s' assume "move_row to from by i s = Inr (x, s')"
    from split [OF this] show "owners_kept s s'"
    proof (elim disjE exE conjE)
      fix current y :: inbox_record
      let ?P = "\<lambda>r. ib_inboxId r = i \<and> ib_status r = ib_status current"
      assume current: "get_inbox i s = Some current" and one: "changes ?P (inbox s) = 1"
        and s': "s' = inbox_recorded y ChangeStatus (s\<lparr>inbox := update_rows ?P
          (\<lambda>r. r\<lparr>ib_status := to, ib_deliveredBy := patched by (ib_deliveredBy current)\<rparr>) (inbox s)\<rparr>)"
      have only: "r = current" if "r \<in> set (inbox s)" "?P r" for r
        using changes_1_unique [OF one that] get_inbox_id [OF current] by blast
      show "owners_kept s s'"
        unfolding s'
      proof (rule owners_update)
        fix r assume "r \<in> set (inbox s)" "?P r"
        then have "r = current" by (rule only)
        with by_None show "ib_threadId (r\<lparr>ib_status := to, ib_deliveredBy := patched by (ib_deliveredBy current)\<rparr>) = ib_threadId r \<and>
            (ib_deliveredBy (r\<lparr>ib_status := to, ib_deliveredBy := patched by (ib_deliveredBy current)\<rparr>) = None \<or>
             ib_deliveredBy (r\<lparr>ib_status := to, ib_deliveredBy := patched by (ib_deliveredBy current)\<rparr>) = ib_deliveredBy r)"
          by (auto simp: patched_def)
      qed
    qed simp
  qed
qed

lemma inbox_move_always:
  "always inbox_evolves (inbox_move ids to from by)"
  "by = None \<or> by = Some None \<Longrightarrow> always owners_kept (inbox_move ids to from by)"
  unfolding inbox_move_def
  by (intro evolving.always_loop keeping.always_loop move_row_always settle_always; assumption)+

lemma moves_always:
  "always inbox_evolves (mark_delivered ids by)"
  "always inbox_evolves (mark_acknowledged ids)" "always owners_kept (mark_acknowledged ids)"
  "always inbox_evolves (mark_pending_again ids)" "always owners_kept (mark_pending_again ids)"
  unfolding move_defs by (rule inbox_move_always; simp)+

lemma patch_payload_always:
  "always inbox_evolves (patch_payload i patch)" "always owners_kept (patch_payload i patch)"
proof -
  have split: "\<exists>s1. inbox_evolves s s1 \<and> owners_kept s s1 \<and> publishing s1 s'"
    if run: "patch_payload i patch s = Inr (x, s')" for s x s'
  proof -
    from run obtain current where current: "get_inbox i s = Some current"
      by (auto simp: patch_payload_def split: option.splits)
    let ?p = "stored (JObj (jpatch (jmembers (ib_payload current)) patch))"
    let ?s1 = "inbox_recorded (current\<lparr>ib_payload := ?p\<rparr>) ChangePayload
      (s\<lparr>inbox := update_rows (\<lambda>r. ib_inboxId r = i) (\<lambda>r. r\<lparr>ib_payload := ?p\<rparr>) (inbox s)\<rparr>)"
    have "publishing ?s1 s'"
      using run current settle_txn_publishing by (auto simp: patch_payload_def Let_def bindE_Inr)
    moreover have "inbox_evolves s ?s1" by (rule evolves_update) (auto simp: row_evolves_def)
    moreover have "owners_kept s ?s1" by (rule owners_update) auto
    ultimately show ?thesis by blast
  qed
  show "always inbox_evolves (patch_payload i patch)"
    by (rule alwaysI) (blast dest: split intro: inbox_evolves_trans evolves_publishing)
  show "always owners_kept (patch_payload i patch)"
    by (rule alwaysI) (blast dest: split intro: owners_kept_trans evolves_publishing)
qed

text \<open>An operation that looks at one row and then runs \<open>m\<close> or does nothing.\<close>

lemma always_guarded:
  assumes "\<And>s x s'. f s = Inr (x, s') \<Longrightarrow> s' = s \<or> (\<exists>p y. m p s = Inr (y, s'))" "\<And>p. always R (m p)" "R s s" "f s = Inr (x, s')"
  shows "R s s'"
  using assms by (blast dest: alwaysD)

lemma release_row_always:
  "always inbox_evolves (release_row from i)" "always owners_kept (release_row from i)"
proof -
  let ?m = "\<lambda>p. bindE (patch_payload i p) (\<lambda>_. bindE (mark_pending_again [i]) (\<lambda>_. retE (Some i)))"
  have split: "s' = s \<or> (\<exists>p y. ?m p s = Inr (y, s'))" if "release_row from i s = Inr (x, s')" for s x s'
    using that by (auto simp: release_row_def split: option.splits if_splits)
  have "always inbox_evolves (?m p)" "always owners_kept (?m p)" for p
    by (intro evolving.always_bind keeping.always_bind patch_payload_always moves_always
        evolving.always_ret keeping.always_ret)+
  then show "always inbox_evolves (release_row from i)" "always owners_kept (release_row from i)"
    by (auto intro!: alwaysI dest!: split dest: alwaysD)
qed

lemma mark_steer_row_always:
  "always inbox_evolves (mark_steer_row patch e i)" "always owners_kept (mark_steer_row patch e i)"
proof -
  let ?m = "bindE (patch_payload i patch) (\<lambda>_. retE ())"
  have split: "s' = s \<or> (\<exists>y. ?m s = Inr (y, s'))" if "mark_steer_row patch e i s = Inr (x, s')" for s x s'
    using that by (auto simp: mark_steer_row_def split: option.splits if_splits)
  have "always inbox_evolves ?m" "always owners_kept ?m"
    by (intro evolving.always_bind keeping.always_bind patch_payload_always evolving.always_ret keeping.always_ret)+
  then show "always inbox_evolves (mark_steer_row patch e i)" "always owners_kept (mark_steer_row patch e i)"
    by (auto intro!: alwaysI dest!: split dest: alwaysD)
qed

lemma detach_row_always:
  "always inbox_evolves (detach_row from i)" "always owners_kept (detach_row from i)"
proof -
  let ?s1 = "\<lambda>current s. inbox_recorded (current\<lparr>ib_deliveredBy := None\<rparr>) ChangePayload
      (s\<lparr>inbox := update_rows (\<lambda>r. ib_inboxId r = i \<and> ib_status r = IDelivered) (\<lambda>r. r\<lparr>ib_deliveredBy := None\<rparr>) (inbox s)\<rparr>)"
  have split: "s' = s \<or> (\<exists>current. publishing (?s1 current s) s')" if "detach_row from i s = Inr (x, s')" for s x s'
    using that settle_txn_publishing by (auto simp: detach_row_def split: option.splits if_splits)
  have "inbox_evolves s (?s1 current s)" "owners_kept s (?s1 current s)" for s current
    by (rule evolves_update owners_update; simp add: row_evolves_def)+
  then have "inbox_evolves s s' \<and> owners_kept s s'" if "detach_row from i s = Inr (x, s')" for s x s'
    using split [OF that] inbox_evolves_trans owners_kept_trans evolves_publishing
    by (metis (no_types, lifting) inbox_evolves_refl owners_kept_refl)
  then show "always inbox_evolves (detach_row from i)" "always owners_kept (detach_row from i)"
    by (auto intro!: alwaysI)
qed

lemma redirect_row_always: "always inbox_evolves (redirect_row by from i)"
  by (auto intro!: alwaysI evolves_update simp: redirect_row_def Let_def row_evolves_def
      split: option.splits if_splits)

lemma record_row_visibility_always:
  "always inbox_evolves (record_row_visibility items row)" "always owners_kept (record_row_visibility items row)"
  unfolding record_row_visibility_def
  by (auto split: option.splits intro: evolving.always_bind keeping.always_bind patch_payload_always
      evolving.always_ret keeping.always_ret)

lemma inbox_ops_always:
  "always inbox_evolves (release ids owner)" "always owners_kept (release ids owner)"
  "always inbox_evolves (detach_delivery ids oldOwner)" "always owners_kept (detach_delivery ids oldOwner)"
  "always inbox_evolves (mark_steer_held ids e)" "always owners_kept (mark_steer_held ids e)"
  "always inbox_evolves (unmark_steer_taken ids e)" "always owners_kept (unmark_steer_taken ids e)"
  "always inbox_evolves (mark_steer_taken ids e)" "always owners_kept (mark_steer_taken ids e)"
  "always inbox_evolves (record_notice_visibility rows items)" "always owners_kept (record_notice_visibility rows items)"
  "always inbox_evolves (redirect_delivery ids newOwner owner)"
  unfolding release_def detach_delivery_def mark_steer_held_def unmark_steer_taken_def
    mark_steer_taken_def record_notice_visibility_def redirect_delivery_def
  by (intro evolving.always_loop keeping.always_loop release_row_always detach_row_always
      mark_steer_row_always record_row_visibility_always redirect_row_always settle_always
      evolving.always_ret keeping.always_ret)+

section \<open>The inbox as a state machine\<close>

inductive inbox_step :: "store \<Rightarrow> store \<Rightarrow> bool" where
  is_append: "inbox_append t r k p None s = Inr (row, s') \<Longrightarrow> inbox_step s s'"
| is_delivered: "mark_delivered ids by s = Inr (x, s') \<Longrightarrow> inbox_step s s'"
| is_acknowledged: "mark_acknowledged ids s = Inr (x, s') \<Longrightarrow> inbox_step s s'"
| is_pending: "mark_pending_again ids s = Inr (x, s') \<Longrightarrow> inbox_step s s'"
| is_patch: "patch_payload i patch s = Inr (y, s') \<Longrightarrow> inbox_step s s'"
| is_release: "release ids owner s = Inr (is, s') \<Longrightarrow> inbox_step s s'"
| is_release_run: "release_run_deliveries runId s = Inr (is, s') \<Longrightarrow> inbox_step s s'"
| is_detach: "detach_delivery ids oldOwner s = Inr (u, s') \<Longrightarrow> inbox_step s s'"
| is_steer_held: "mark_steer_held ids e s = Inr (u, s') \<Longrightarrow> inbox_step s s'"
| is_steer_untaken: "unmark_steer_taken ids e s = Inr (u, s') \<Longrightarrow> inbox_step s s'"
| is_steer_taken: "mark_steer_taken ids e s = Inr (u, s') \<Longrightarrow> inbox_step s s'"
| is_visibility: "record_notice_visibility rows items s = Inr (u, s') \<Longrightarrow> inbox_step s s'"
| is_redirect: "redirect_delivery ids newOwner owner s = Inr (x, s') \<Longrightarrow> inbox_step s s'"
| is_withdraw: "withdraw_retired_rows s = Inr (x, s') \<Longrightarrow> inbox_step s s'"

lemma withdraw_always: "always inbox_evolves withdraw_retired_rows" "always owners_kept withdraw_retired_rows"
  by (auto intro!: alwaysI simp: withdraw_retired_rows_def Let_def split: if_splits
      dest: alwaysD [OF moves_always(2)] alwaysD [OF moves_always(3)])

lemma release_run_always:
  "always inbox_evolves (release_run_deliveries runId)" "always owners_kept (release_run_deliveries runId)"
  using inbox_ops_always(1,2) by (auto simp: always_def release_run_deliveries_def)

lemma inbox_append_held:
  assumes run: "inbox_append t r k p None s = Inr (row, s')" and ok: "held X s"
  shows "held X s'"
proof -
  note new = inbox_append_Inr [OF run] and fr = inbox_append_frame [OF run]
  have act: "is_actionable_row x s' = is_actionable_row x s" for x
    using fr by (intro is_actionable_row_cong) simp_all
  have "child_busy u s'" if "child_busy u s" for u
    using that act new(1) fr by (auto simp: child_busy_iff has_live_run_def has_running_outbound_def
        actionable_inbox_iff has_in_flight_delivery_effect_def has_unread_steers_def provider_background_work_def)
  then have "settled u s'" if "settled u s" for u
    using that fr by (intro settled_mono [OF that]) (auto simp: list_ex_iff)
  moreover have "fresh_uuids s'"
    using inbox_append_fresh [of s t r k p] run ok by (auto simp: held_def task_ok_def)
  moreover have "inbox_ok s'"
    using ok new(1,6) by (auto simp: held_def inbox_ok_def get_inbox_def lookup_row_None)
  ultimately show ?thesis
    using ok fr by (simp add: held_def task_ok_def settled_except_def)
qed

lemma inbox_append_evolves:
  assumes "inbox_append t r k p None s = Inr (row, s')"
  shows "inbox_evolves s s'" "owners_kept s s'"
  using evolves_append [of s' s "[row]"] inbox_append_frame [OF assms] inbox_append_Inr [OF assms] by simp_all

lemma inbox_step_keeps: "inbox_step s s' \<Longrightarrow> inbox_evolves s s' \<and> (held X s \<longrightarrow> held X s')"
  by (erule inbox_step.cases)
    (blast intro: inbox_append_evolves inbox_append_held keepsD [OF moves_held(1)] keepsD [OF moves_held(2)]
      keepsD [OF moves_held(3)] keepsD [OF patch_payload_held] keepsD [OF release_run_deliveries_held]
      keepsD [OF withdraw_retired_rows_held] keepsD [OF redirect_delivery_held]
      keepsD [OF inbox_writes_held(1)] keepsD [OF inbox_writes_held(2)] keepsD [OF inbox_writes_held(3)]
      keepsD [OF inbox_writes_held(4)] keepsD [OF inbox_writes_held(5)] keepsD [OF inbox_writes_held(6)]
      alwaysD [OF moves_always(1)] alwaysD [OF moves_always(2)] alwaysD [OF moves_always(4)]
      alwaysD [OF patch_payload_always(1)] alwaysD [OF inbox_ops_always(1)] alwaysD [OF inbox_ops_always(3)]
      alwaysD [OF inbox_ops_always(5)] alwaysD [OF inbox_ops_always(7)] alwaysD [OF inbox_ops_always(9)]
      alwaysD [OF inbox_ops_always(11)] alwaysD [OF inbox_ops_always(13)]
      alwaysD [OF withdraw_always(1)] alwaysD [OF release_run_always(1)])+

lemma inbox_steps_keep:
  assumes "inbox_step\<^sup>*\<^sup>* s s'"
  shows "inbox_evolves s s' \<and> (held {} s \<longrightarrow> held {} s')"
  using assms
proof (induction rule: rtranclp_induct)
  case (step s1 s2)
  with inbox_step_keeps [OF step(2), of "{}"] show ?case by (blast intro: inbox_evolves_trans)
qed simp

text \<open>
  C9: Along any sequence of inbox operations a row keeps its identity (thread, run, kind, time), its
  status moves only along the table (an acknowledged row stays acknowledged), no run or effect is
  touched, and no task is ever left waiting on an idle subagent.
\<close>

theorem inbox_runs_safely:
  assumes "inbox_step\<^sup>*\<^sup>* s s'" "held {} s" "get_inbox i s = Some r"
  shows "all_settled s' \<and> (\<exists>r'. get_inbox i s' = Some r' \<and> row_evolves r r' \<and>
    (ib_status r = IAcknowledged \<longrightarrow> ib_status r' = IAcknowledged))"
proof -
  have k: "inbox_evolves s s'" "held {} s'" using inbox_steps_keep [OF assms(1)] assms(2) by blast+
  obtain r' where r': "get_inbox i s' = Some r'" "row_evolves r r'"
    using k(1) assms(3) by (auto simp: inbox_evolves_def)
  moreover have "ib_status r' = IAcknowledged" if "ib_status r = IAcknowledged"
    using inbox_moves.final_stays [of "ib_status r" "ib_status r'"] r'(2) that by (simp add: row_evolves_def)
  moreover have "all_settled s'" using k(2) by (simp add: held_def settled_except_empty)
  ultimately show ?thesis by blast
qed

text \<open>A thread with one delivered notice, for the examples.\<close>

definition inbox_example :: store where
  "inbox_example = (empty_store 5 nat_str)\<lparr>inbox := [\<lparr>ib_inboxId = ''i'', ib_threadId = ''t'', ib_runId = None,
     ib_kind = ReconcileNotice, ib_payload = JObj [], ib_status = IPending, ib_createdAt = 1, ib_deliveredBy = None\<rparr>]\<rparr>"

lemma inbox_example_held: "held {} inbox_example"
  by (simp add: held_def inbox_example_def empty_store_def task_ok_def fresh_uuids_def inbox_ok_def inj_def
      settled_except_def settled_no_task)

lemma inbox_runs_safely_witness:
  "\<exists>x s' r'. mark_acknowledged [''i''] inbox_example = Inr (x, s') \<and> get_inbox ''i'' s' = Some r' \<and> all_settled s'"
proof -
  have "\<not> isl (mark_acknowledged [''i''] inbox_example)" by code_simp
  then obtain x s' where run: "mark_acknowledged [''i''] inbox_example = Inr (x, s')" using succeeds by blast
  have "get_inbox ''i'' inbox_example \<noteq> None" by code_simp
  then obtain r where r: "get_inbox ''i'' inbox_example = Some r" by blast
  have "inbox_step\<^sup>*\<^sup>* inbox_example s'"
    by (rule r_into_rtranclp [of inbox_step]) (rule is_acknowledged [OF run])
  from inbox_runs_safely [OF this inbox_example_held r] run show ?thesis by blast
qed

end
