(* ===== verification/Terminal.thy ===== *)
theory Terminal
  imports InboxLaws
begin

text \<open>
  \<open>src/mms/run/terminal.ts\<close>: the one terminal write of a run, shared by the engine, boot recovery
  and the reconciler, with \<open>cancelApprovalRows\<close> of \<open>ThreadApprovals.ts\<close> which it calls. The write
  ends the run and its live attempt, keeps its final text, closes its open requests, leaves the
  notice the run owes its thread, acknowledges the rows it delivered and only then judges the tasks
  waiting on the thread.
\<close>

section \<open>Approval requests\<close>

definition cancel_approval_row :: "string \<Rightarrow> nat \<Rightarrow> approval_row \<Rightarrow> approval_row option run_txn" where
  "cancel_approval_row reason at row s =
     (let P = (\<lambda>a. ap_requestId a = ap_requestId row \<and> ap_status a = PPending) in
      if changes P (approvals s) \<noteq> 1 then Inr (None, s)
      else
        let next = row\<lparr>ap_status := PCancelled, ap_cancelReason := Some reason, ap_settledAt := Some at\<rparr>
        in Inr (Some next, append_event (ap_threadId next) (ap_runId next) ''approval.cancelled''
             (EvJson (JObj [(''requestId'', JStr (ap_requestId next)), (''reason'', JStr reason)]))
             (s\<lparr>approvals := update_rows P (\<lambda>a. a\<lparr>ap_status := PCancelled, ap_cancelReason := Some reason,
                 ap_settledAt := Some at\<rparr>) (approvals s)\<rparr>)))"

text \<open>\<open>where\<close> is the condition on the requests to close.\<close>

definition cancel_approval_rows :: "(approval_row \<Rightarrow> bool) \<Rightarrow> string \<Rightarrow> approval_row list run_txn" where
  "cancel_approval_rows cond reason s =
     bindE (forE (by_created ap_createdAt (filter (\<lambda>a. ap_status a = PPending \<and> cond a) (approvals s)))
              (cancel_approval_row reason (clock s)))
       (\<lambda>closed. retE (somes closed)) s"

section \<open>The terminal write\<close>

definition LIVE_ATTEMPT_STATUSES :: "attempt_status list" where
  "LIVE_ATTEMPT_STATUSES = [APending, ARunning]"

fun attempt_status_of :: "run_status \<Rightarrow> attempt_status" where
  "attempt_status_of RCompleted = ACompleted"
| "attempt_status_of RInterrupted = AInterrupted"
| "attempt_status_of RFailed = AFailed"
| "attempt_status_of RCancelled = ACancelled"
| "attempt_status_of _ = AInterrupted"

definition INTEGRATION_NOTICE_TYPES :: "string list" where
  "INTEGRATION_NOTICE_TYPES = [''integration_completed'', ''integration_failed'']"

definition interrupted_integration_notice :: "run_record \<Rightarrow> store \<Rightarrow> (inbox_kind \<times> json) option" where
  "interrupted_integration_notice run s =
     (if rr_source run \<noteq> ''integration'' \<or> rr_status run = RCompleted \<or>
         oc_interruptedBy (the_outcome (rr_outcome run)) = Some ByUser then None
      else if list_ex (\<lambda>r. ib_threadId r = rr_threadId run \<and> ib_runId r = Some (rr_runId run) \<and>
             ib_kind r = ReconcileNotice \<and>
             (case jstring (jfield (ib_payload r) ''type'') of None \<Rightarrow> False
              | Some ty \<Rightarrow> ty \<in> set INTEGRATION_NOTICE_TYPES)) (inbox s) then None
      else
        let payload = (case List.find (\<lambda>e. ef_runId e = Some (rr_runId run) \<and> ef_kind e = TurnStart) (effects s) of
               None \<Rightarrow> JNull | Some e \<Rightarrow> ef_payload e);
            delegationId = (if jfield payload ''kind'' = Some (JStr ''integration'')
               then (case jstring (jfield payload ''delegationId'') of Some d \<Rightarrow> if d = [] then None else Some d | None \<Rightarrow> None)
               else None);
            task = (case delegationId of Some d \<Rightarrow> ''delegated task '' @ d | None \<Rightarrow> ''a delegated task'')
        in Some (ReconcileNotice, JObj ([(''type'', JStr ''integration_failed''), (''interrupted'', JBool True)] @
             opt_member ''delegationId'' delegationId @
             [(''text'', JStr (''Integration of '' @ task @
                '' was interrupted before its outcome was known; check the workspace.''))])))"

definition acknowledge_task :: "inbox_record \<Rightarrow> unit run_txn" where
  "acknowledge_task row s =
     (if ib_kind row \<noteq> ChildResult then Inr ((), s)
      else case Option.bind (jstring (jfield (ib_payload row) ''delegationId'')) (\<lambda>i. get_delegation i s) of
        None \<Rightarrow> Inr ((), s)
      | Some d \<Rightarrow>
          if jfield (ib_payload row) ''noticeShown'' = Some (JBool True) \<and>
             (dg_status d = DResultAvailable \<or> dg_status d = DFailed)
          then bindE (set_delegation_status settle_hold (dg_delegationId d) (dg_status d) DAcknowledged None None)
                 (\<lambda>_. retE ()) s
          else Inr ((), s))"

definition acknowledge_rows :: "inbox_record list \<Rightarrow> unit run_txn" where
  "acknowledge_rows rows =
     (if rows = [] then retE ()
      else bindE (mark_acknowledged (map ib_inboxId rows))
             (\<lambda>_. bindE (forE rows acknowledge_task) (\<lambda>_. retE ())))"

definition acknowledge_delivered_rows :: "run_record \<Rightarrow> unit run_txn" where
  "acknowledge_delivered_rows run s =
     (if rr_status run \<noteq> RCompleted then Inr ((), s)
      else acknowledge_rows (list_delivered_by_run (rr_runId run) s) s)"

text \<open>The outcome a terminal write stores; \<open>None\<close> leaves the stored one.\<close>

definition terminal_outcome :: "run_outcome option \<Rightarrow> run_outcome option \<Rightarrow> run_outcome option" where
  "terminal_outcome old new =
     (if new = None \<and> old = None then None
      else
        let merged = merge_outcome (the_outcome old) (the_outcome new);
            agentStop = oc_interruptedBy (the_outcome new) = Some ByUser \<and>
              oc_stopRequestedByAgent (the_outcome old) \<noteq> None
        in Some (if agentStop then merged\<lparr>oc_interruptedBy := Some ByAgent\<rparr> else merged))"

definition end_attempt :: "run_record \<Rightarrow> nat \<Rightarrow> unit run_txn" where
  "end_attempt run completedAt s =
     (case Option.bind (rr_activeAttemptId run) (\<lambda>a. get_attempt a s) of
        None \<Rightarrow> Inr ((), s)
      | Some attempt \<Rightarrow>
          if at_status attempt \<in> set LIVE_ATTEMPT_STATUSES
          then bindE (set_attempt_status (at_attemptId attempt) (attempt_status_of (rr_status run))
                        None None (Some (Some completedAt))) (\<lambda>_. retE ()) s
          else Inr ((), s))"

definition append_notice :: "run_record \<Rightarrow> (inbox_kind \<times> json) option \<Rightarrow> unit run_txn" where
  "append_notice run notice s =
     (case (case notice of Some n \<Rightarrow> Some n | None \<Rightarrow> interrupted_integration_notice run s) of
        None \<Rightarrow> Inr ((), s)
      | Some (kind, payload) \<Rightarrow>
          bindE (inbox_append (rr_threadId run) (Some (rr_runId run)) kind payload None) (\<lambda>_. retE ()) s)"

definition write_terminal_run ::
  "run_record \<Rightarrow> int \<Rightarrow> run_status \<Rightarrow> run_outcome option \<Rightarrow> nat \<Rightarrow> string option \<Rightarrow>
   (inbox_kind \<times> json) option \<Rightarrow> run_record run_txn" where
  "write_terminal_run run expectedEpoch status outcome completedAt resultText notice =
     bindE (cas_run_status (rr_runId run) expectedEpoch status
              (no_patch\<lparr>rp_completedAt := Some (Some completedAt),
                 rp_outcome := map_option Some (terminal_outcome (rr_outcome run) outcome)\<rparr>)) (\<lambda>next.
     bindE (end_attempt next completedAt) (\<lambda>_.
     bindE (modE (record_run_result_text next resultText)) (\<lambda>_.
     bindE (whenE (status \<noteq> RUncertain \<and> oc_interruptedBy (the_outcome outcome) \<noteq> Some ByDaemonRestart)
              (bindE (cancel_approval_rows (\<lambda>a. ap_runId a = Some (rr_runId next)) ''turn_ended'') (\<lambda>_. retE ()))) (\<lambda>_.
     bindE (append_notice next notice) (\<lambda>_.
     bindE (acknowledge_delivered_rows next) (\<lambda>_.
     bindE (settle_txn (rr_threadId next)) (\<lambda>_. retE next)))))))"

end
