(* ===== verification/TerminalLaws.thy ===== *)
theory TerminalLaws
  imports Terminal
begin

text \<open>
  The terminal write keeps the invariant of the outbox and never fails for a live run: between the
  compare-and-set and the last settle call only the run's own thread may be unsettled
  (\<open>outbox_except\<close>), and every step in between is total.
\<close>

definition outbox_except :: "string set \<Rightarrow> store \<Rightarrow> bool" where
  "outbox_except X s \<longleftrightarrow> held X s \<and> effect_ok s \<and> delivery_local s"

lemma outbox_except_empty: "outbox_except {} s = outbox_ok s"
  by (simp add: outbox_except_def outbox_ok_def)

lemma outbox_except_step:
  "owners_kept s s' \<Longrightarrow> outbox_except X s \<Longrightarrow> held Y s' \<Longrightarrow> outbox_except Y s'"
  using owners_kept_local by (auto simp: outbox_except_def effect_ok_def owners_kept_def)

section \<open>Writes that touch nothing the hold reads\<close>

definition hold_quiet :: "store \<Rightarrow> store \<Rightarrow> bool" where
  "hold_quiet s s' \<longleftrightarrow> same_hold_inputs s s' \<and> uuids s' = uuids s \<and> next_uuid s' = next_uuid s"

lemma hold_quiet_refl [simp]: "hold_quiet s s"
  by (simp add: hold_quiet_def same_hold_inputs_def)

lemma hold_quiet_trans: "hold_quiet s s' \<Longrightarrow> hold_quiet s' s'' \<Longrightarrow> hold_quiet s s''"
  by (simp add: hold_quiet_def same_hold_inputs_def)

interpretation quiet: preorder_relation hold_quiet
  by unfold_locales (blast intro: hold_quiet_refl hold_quiet_trans)+

lemma hold_quiet_runs: "hold_quiet s s' \<Longrightarrow> runs s' = runs s"
  by (simp add: hold_quiet_def same_hold_inputs_def)

lemma hold_quiet_except:
  assumes "hold_quiet s s'"
  shows "outbox_except X s' = outbox_except X s"
proof -
  have "settled t s' = settled t s" for t
    using assms by (simp add: hold_quiet_def settled_same)
  moreover have "delivered_locally row s' = delivered_locally row s" for row
    using assms by (intro delivered_locally_cong) (simp_all add: hold_quiet_def same_hold_inputs_def)
  ultimately show ?thesis
    using assms by (simp add: outbox_except_def held_def settled_except_def task_ok_def fresh_uuids_def
        inbox_ok_def effect_ok_def delivery_local_def hold_quiet_def same_hold_inputs_def)
qed

lemma end_attempt_quiet: "always hold_quiet (end_attempt run at)"
  by (auto intro!: alwaysI simp: end_attempt_def bindE_Inr set_attempt_status_def Let_def hold_quiet_def
      same_hold_inputs_def split: option.splits if_splits)

lemma record_run_result_quiet: "always hold_quiet (modE (record_run_result_text run text))"
  by (auto intro!: alwaysI simp: record_run_result_text_def hold_quiet_def same_hold_inputs_def split: option.splits)

lemma cancel_approval_rows_quiet: "always hold_quiet (cancel_approval_rows cond reason)"
proof -
  have "always hold_quiet (cancel_approval_row reason at row)" for at row
    by (auto intro!: alwaysI simp: cancel_approval_row_def Let_def hold_quiet_def same_hold_inputs_def split: if_splits)
  then have k: "always hold_quiet (bindE (forE rows (cancel_approval_row reason at)) (\<lambda>closed. retE (somes closed)))" for rows at
    by (intro quiet.always_loop quiet.always_ret)
  show ?thesis
  proof (rule alwaysI)
    fix s x s' assume "cancel_approval_rows cond reason s = Inr (x, s')"
    then show "hold_quiet s s'" unfolding cancel_approval_rows_def by (rule alwaysD [OF k])
  qed
qed

section \<open>The notice and the acknowledgements\<close>

lemma inbox_append_except:
  assumes run: "inbox_append t r k p None s = Inr (row, s')" and ok: "outbox_except X s"
  shows "outbox_except X s'"
  using outbox_except_step [OF inbox_append_evolves(2) [OF run] ok] inbox_append_held [OF run] ok
  by (auto simp: outbox_except_def)

lemma append_notice_keeps: "keeps (outbox_except X) (append_notice run notice)"
proof (rule keepsI)
  fix s x s' assume h: "outbox_except X s" "append_notice run notice s = Inr (x, s')"
  show "outbox_except X s'"
  proof (cases "case notice of Some n \<Rightarrow> Some n | None \<Rightarrow> interrupted_integration_notice run s")
    case None
    with h show ?thesis by (simp add: append_notice_def)
  next
    case (Some n)
    obtain kind payload where "n = (kind, payload)" by (cases n)
    with h(2) Some obtain row where
      "inbox_append (rr_threadId run) (Some (rr_runId run)) kind payload None s = Inr (row, s')"
      by (auto simp: append_notice_def bindE_Inr)
    then show ?thesis by (rule inbox_append_except [OF _ h(1)])
  qed
qed

lemma status_owners: "always owners_kept (set_delegation_status settle_hold dId from to r at)"
proof (rule alwaysI)
  fix s p s' assume run: "set_delegation_status settle_hold dId from to r at s = Inr (p, s')"
  show "owners_kept s s'"
  proof (rule set_delegation_status_Inr [OF run])
    fix current
    let ?s1 = "delegation_recorded p (s\<lparr>delegations := update_rows (\<lambda>d. dg_delegationId d = dId \<and> dg_status d = from)
        (\<lambda>d. d\<lparr>dg_status := dg_status p, dg_result := dg_result p, dg_completedAt := dg_completedAt p\<rparr>) (delegations s)\<rparr>)"
    assume s': "let s1 = ?s1 in if from = DRunning then settle_hold (dg_parentThreadId current) s1 = Inr s' else s' = s1"
    have one: "owners_kept s ?s1" by (auto simp: owners_kept_def delegation_recorded_def)
    show "owners_kept s s'"
    proof (cases "from = DRunning")
      case True
      with s' have "publishing ?s1 s'" by (simp add: Let_def holding.settle_publishing)
      then show ?thesis using one by (blast intro: owners_kept_trans evolves_publishing)
    qed (use s' one in \<open>simp add: Let_def\<close>)
  qed
qed

lemma status_inbox_ok:
  assumes "set_delegation_status settle_hold dId from to r at s = Inr (p, s')" "inbox_ok s"
  shows "inbox_ok s'"
proof (rule set_delegation_status_Inr [OF assms(1)])
  fix current
  let ?s1 = "delegation_recorded p (s\<lparr>delegations := update_rows (\<lambda>d. dg_delegationId d = dId \<and> dg_status d = from)
      (\<lambda>d. d\<lparr>dg_status := dg_status p, dg_result := dg_result p, dg_completedAt := dg_completedAt p\<rparr>) (delegations s)\<rparr>)"
  assume s': "let s1 = ?s1 in if from = DRunning then settle_hold (dg_parentThreadId current) s1 = Inr s' else s' = s1"
  have ok1: "inbox_ok ?s1" using assms(2) by (simp add: inbox_ok_def delegation_recorded_def)
  show "inbox_ok s'"
  proof (cases "from = DRunning")
    case True
    with s' have "publishing ?s1 s'" by (simp add: Let_def holding.settle_publishing)
    then show ?thesis using ok1 by (rule publishing_inbox_ok)
  qed (use s' ok1 in \<open>simp add: Let_def\<close>)
qed

lemma status_except: "keeps (outbox_except X) (set_delegation_status settle_hold dId from to r at)"
proof (rule keepsI)
  fix s p s' assume h: "outbox_except X s" "set_delegation_status settle_hold dId from to r at s = Inr (p, s')"
  have "held X s'"
    using h(1) holding.status_task_ok [OF h(2)] status_inbox_ok [OF h(2)] holding.status_settled [OF h(2)]
    by (simp add: outbox_except_def held_def)
  with alwaysD [OF status_owners h(2)] h(1) show "outbox_except X s'" by (rule outbox_except_step)
qed

lemma acknowledge_task_keeps: "keeps (outbox_except X) (acknowledge_task row)"
proof (rule keepsI)
  fix s x s' assume h: "outbox_except X s" "acknowledge_task row s = Inr (x, s')"
  show "outbox_except X s'"
  proof (cases "s' = s")
    case False
    with h(2) obtain dId old p where
      "set_delegation_status settle_hold dId old DAcknowledged None None s = Inr (p, s')"
      by (auto simp: acknowledge_task_def bindE_Inr split: option.splits if_splits)
    then show ?thesis by (rule keepsD [OF status_except _ h(1)])
  qed (use h in simp)
qed

lemma mark_acknowledged_except: "keeps (outbox_except X) (mark_acknowledged ids)"
proof (rule keepsI)
  fix s x s' assume h: "outbox_except X s" "mark_acknowledged ids s = Inr (x, s')"
  have "held X s'" by (rule keepsD [OF moves_held(2) h(2)]) (use h(1) in \<open>simp add: outbox_except_def\<close>)
  with alwaysD [OF moves_always(3) h(2)] h(1) show "outbox_except X s'" by (rule outbox_except_step)
qed

lemma acknowledge_rows_keeps: "keeps (outbox_except X) (acknowledge_rows rows)"
  unfolding acknowledge_rows_def
  by (intro keeps_if keeps_bindE keeps_forE mark_acknowledged_except acknowledge_task_keeps keeps_pure)

lemma acknowledge_delivered_rows_keeps: "keeps (outbox_except X) (acknowledge_delivered_rows run)"
proof (rule keepsI)
  fix s x s' assume "outbox_except X s" "acknowledge_delivered_rows run s = Inr (x, s')"
  then show "outbox_except X s'"
    using keepsD [OF acknowledge_rows_keeps] by (auto simp: acknowledge_delivered_rows_def split: if_splits)
qed

section \<open>The compare-and-set\<close>

lemma cas_run_status_Inr:
  assumes run: "cas_run_status runId e st p s = Inr (next, s')" and ok: "runs_ok s"
  obtains r where "get_run runId s = Some r" "\<not> terminal_run (rr_status r)" "int (rr_epoch r) = e"
    "next = r\<lparr>rr_status := st, rr_epoch := Suc (rr_epoch r),
       rr_startedAt := patched (rp_startedAt p) (rr_startedAt r),
       rr_completedAt := patched (rp_completedAt p) (rr_completedAt r),
       rr_outcome := patched (rp_outcome p) (rr_outcome r),
       rr_activeAttemptId := patched (rp_activeAttemptId p) (rr_activeAttemptId r),
       rr_userMessageId := patched (rp_userMessageId p) (rr_userMessageId r)\<rparr>"
    "s' = append_event (rr_threadId next) (Some (rr_runId next)) ''run.status'' (EvRun next)
       (s\<lparr>runs := map (\<lambda>x. if x = r then next else x) (runs s)\<rparr>)"
proof -
  from run obtain r where r: "require_cas_target runId e s = Inr r"
    by (auto simp: cas_run_status_def split: sum.splits)
  let ?n = "r\<lparr>rr_status := st, rr_epoch := Suc (rr_epoch r),
       rr_startedAt := patched (rp_startedAt p) (rr_startedAt r),
       rr_completedAt := patched (rp_completedAt p) (rr_completedAt r),
       rr_outcome := patched (rp_outcome p) (rr_outcome r),
       rr_activeAttemptId := patched (rp_activeAttemptId p) (rr_activeAttemptId r),
       rr_userMessageId := patched (rp_userMessageId p) (rr_userMessageId r)\<rparr>"
  let ?P = "\<lambda>x. rr_runId x = rr_runId ?n \<and> int (rr_epoch x) = e"
  have w: "write_cas ?n e s = Inr (next, s')"
    using run r by (simp add: cas_run_status_def)
  have t: "get_run runId s = Some r" "int (rr_epoch r) = e" "\<not> terminal_run (rr_status r)"
    using r by (simp_all add: require_cas_target_Inr)
  have mem: "r \<in> set (runs s)" using t(1) by (auto simp: get_run_def dest: lookup_row_Some)
  have "update_rows ?P (cas_set ?n) (runs s) = map (\<lambda>x. if x = r then ?n else x) (runs s)"
    unfolding update_rows_def
  proof (rule map_cong [OF refl])
    fix x assume "x \<in> set (runs s)"
    then have "?P x \<longleftrightarrow> x = r"
      using distinct_key_unique [OF runs_okD(1) [OF ok], of x r] mem t(2) by auto
    then show "(if ?P x then cas_set ?n x else x) = (if x = r then ?n else x)"
      by (simp add: cas_set_def)
  qed
  then have "next = ?n" "s' = append_event (rr_threadId next) (Some (rr_runId next)) ''run.status'' (EvRun next)
       (s\<lparr>runs := map (\<lambda>x. if x = r then next else x) (runs s)\<rparr>)"
    using w by (auto simp: write_cas_def Let_def split: if_splits)
  with that t show thesis by blast
qed

lemma get_run_map:
  assumes "runs_ok s" "r \<in> set (runs s)" "rr_runId n = rr_runId r"
    "runs s' = map (\<lambda>x. if x = r then n else x) (runs s)"
  shows "get_run i s' = (if i = rr_runId r then Some n else get_run i s)"
proof -
  have "lookup_row rr_runId i (map (\<lambda>x. if x = r then n else x) rows) =
      (if i = rr_runId r \<and> r \<in> set rows then Some n else lookup_row rr_runId i rows)"
    if "distinct (map rr_runId rows)" for rows
    using that
  proof (induction rows)
    case (Cons x rows)
    then show ?case
      using assms(3) by (cases "x = r") (auto simp: lookup_row_def image_iff)
  qed (simp add: lookup_row_def)
  from this [OF runs_okD(1) [OF assms(1)]] assms(2,4) show ?thesis
    by (simp add: get_run_def)
qed

text \<open>Ending or moving a run can free its own thread only.\<close>

lemma cas_except:
  assumes ok: "outbox_except {} s" "runs_ok s" and run: "cas_run_status runId e st p s = Inr (next, s')"
  shows "outbox_except {rr_threadId next} s'" "runs_ok s'" "get_run runId s' = Some next" "rr_status next = st"
    "rr_runId next = runId"
proof -
  obtain r where r: "get_run runId s = Some r" "\<not> terminal_run (rr_status r)"
    "rr_runId next = rr_runId r" "rr_threadId next = rr_threadId r" "rr_ordinal next = rr_ordinal r" "rr_status next = st"
    "s' = append_event (rr_threadId next) (Some (rr_runId next)) ''run.status'' (EvRun next)
       (s\<lparr>runs := map (\<lambda>x. if x = r then next else x) (runs s)\<rparr>)"
    by (rule cas_run_status_Inr [OF run ok(2)]) simp
  have mem: "r \<in> set (runs s)" "rr_runId r = runId"
    using r(1) by (auto simp: get_run_def dest: lookup_row_Some)
  have runs': "runs s' = map (\<lambda>x. if x = r then next else x) (runs s)" by (simp add: r(7))
  have get: "get_run i s' = (if i = rr_runId r then Some next else get_run i s)" for i
    by (rule get_run_map [OF ok(2) mem(1) r(3) runs'])
  show "get_run runId s' = Some next" "rr_status next = st" "rr_runId next = runId"
    using get mem(2) r(3,6) by simp_all
  show "runs_ok s'"
  proof -
    have "map rr_runId (runs s') = map rr_runId (runs s)" using r(3) by (simp add: runs')
    moreover have "\<forall>x \<in> set (runs s'). rr_runId x = run_id (rr_threadId x) (rr_ordinal x)"
      using ok(2) r(3,4,5) by (auto simp: runs_ok_def runs')
    ultimately show ?thesis using ok(2) by (simp add: runs_ok_def)
  qed
  have eff: "get_effect i s' = get_effect i s" "effects s' = effects s" "inbox s' = inbox s" for i
    by (simp_all add: r(7) get_effect_def)
  have del: "delivering_run e s' = (case delivering_run e s of None \<Rightarrow> None
      | Some x \<Rightarrow> Some (if x = r then next else x))" for e
  proof (cases "Option.bind e ef_runId")
    case (Some i)
    then show ?thesis
      using get_run_map [OF ok(2) mem(1) r(3) runs', of i] r(1) mem(2) lookup_row_Some [of rr_runId i "runs s"]
      by (auto simp: delivering_run_def get_run_def split: option.split)
  qed (simp add: delivering_run_def)
  have loc: "delivered_locally row s' = delivered_locally row s" for row
    using r(4) by (auto simp: delivered_locally_def eff del split: option.split)
  have act: "is_actionable_row row s' = is_actionable_row row s"
    if row: "row \<in> set (inbox s)" "ib_threadId row \<noteq> rr_threadId r" for row
  proof -
    have "delivering_run (get_effect by s) s' = delivering_run (get_effect by s) s"
      if "ib_deliveredBy row = Some by" for "by"
    proof (cases "get_effect by s")
      case (Some e)
      have "delivering_run (Some e) s \<noteq> Some r"
        using delivery_localD(2) [OF _ row(1) that Some, of r] ok(1) row(2) by (auto simp: outbox_except_def)
      with Some show ?thesis by (simp add: del split: option.split)
    qed (simp add: delivering_run_def)
    then show ?thesis
      by (auto simp: is_actionable_row_def delivery_stopped_by_user_def is_legacy_steer_row_def eff split: option.splits)
  qed
  have busy: "child_busy u s' = child_busy u s" if "u \<noteq> rr_threadId r" for u
  proof -
    have "has_live_run u s' = has_live_run u s"
      using that r(4) by (auto simp: has_live_run_def runs' list_ex_iff)
    moreover have "actionable_inbox u s' = actionable_inbox u s"
      using act that by (auto simp: actionable_inbox_iff eff)
    ultimately show ?thesis
      by (simp add: child_busy_iff has_running_outbound_def has_in_flight_delivery_effect_def
          has_unread_steers_def provider_background_work_def r(7))
  qed
  have "settled u s'" if "u \<noteq> rr_threadId r" for u
    using busy [OF that] ok(1) that
    by (auto simp: outbox_except_def held_def settled_except_def settled_def is_subagent_def get_lineage_def r(7))
  then show "outbox_except {rr_threadId next} s'"
    using ok(1) loc by (simp add: outbox_except_def held_def settled_except_def task_ok_def fresh_uuids_def
        inbox_ok_def effect_ok_def delivery_local_def r(4)) (simp add: r(7))
qed

section \<open>The whole write\<close>

lemma settle_txn_except:
  assumes "settle_txn t s = Inr (x, s')" "outbox_except (insert t X) s"
  shows "outbox_except X s'"
proof -
  have run: "settle_hold t s = Inr s'"
    using assms(1) by (auto simp: settle_txn_def split: sum.splits)
  have ok: "task_ok s" "inbox_ok s" "settled_except (insert t X) s"
    using assms(2) by (simp_all add: outbox_except_def held_def)
  have "held X s'"
    using holding.settle_removes [OF run ok(1,3)] holding.settle_keeps(4) [OF run ok(1)]
      publishing_inbox_ok [OF holding.settle_publishing [OF run] ok(2)]
    by (simp add: held_def)
  with alwaysD [OF settle_always(2) assms(1)] assms(2) show ?thesis by (rule outbox_except_step)
qed

text \<open>The steps between the compare-and-set and the last settle call.\<close>

definition terminal_tail ::
  "run_record \<Rightarrow> nat \<Rightarrow> string option \<Rightarrow> bool \<Rightarrow> (inbox_kind \<times> json) option \<Rightarrow> unit run_txn" where
  "terminal_tail next completedAt resultText cancels notice =
     bindE (end_attempt next completedAt) (\<lambda>_.
     bindE (modE (record_run_result_text next resultText)) (\<lambda>_.
     bindE (whenE cancels
              (bindE (cancel_approval_rows (\<lambda>a. ap_runId a = Some (rr_runId next)) ''turn_ended'') (\<lambda>_. retE ()))) (\<lambda>_.
     bindE (append_notice next notice) (\<lambda>_.
     acknowledge_delivered_rows next))))"

lemma bindE_assoc: "bindE (bindE m f) g = bindE m (\<lambda>x. bindE (f x) g)"
  by (auto simp: bindE_def fun_eq_iff split: sum.split)

lemma write_terminal_run_tail:
  "write_terminal_run run e st outcome at text notice =
     bindE (cas_run_status (rr_runId run) e st
              (no_patch\<lparr>rp_completedAt := Some (Some at),
                 rp_outcome := map_option Some (terminal_outcome (rr_outcome run) outcome)\<rparr>)) (\<lambda>next.
     bindE (terminal_tail next at text
              (st \<noteq> RUncertain \<and> oc_interruptedBy (the_outcome outcome) \<noteq> Some ByDaemonRestart) notice) (\<lambda>_.
     bindE (settle_txn (rr_threadId next)) (\<lambda>_. retE next)))"
  by (simp add: write_terminal_run_def terminal_tail_def bindE_assoc)

lemma quiet_keeps: "always hold_quiet m \<Longrightarrow> keeps (outbox_except X) m"
  using hold_quiet_except by (auto simp: keeps_def dest: alwaysD)

lemma terminal_tail_keeps: "keeps (outbox_except X) (terminal_tail next at text cancels notice)"
  unfolding terminal_tail_def
  by (intro keeps_bindE keeps_whenE quiet_keeps end_attempt_quiet record_run_result_quiet
      cancel_approval_rows_quiet append_notice_keeps acknowledge_delivered_rows_keeps keeps_pure)

text \<open>Nothing in the tail writes the runs table.\<close>

definition same_runs :: "store \<Rightarrow> store \<Rightarrow> bool" where
  "same_runs s s' \<longleftrightarrow> runs s' = runs s"

interpretation running: preorder_relation same_runs
  by unfold_locales (simp_all add: same_runs_def)

lemma same_runs_weaken:
  "always hold_quiet m \<Longrightarrow> always same_runs m" "always owners_kept m \<Longrightarrow> always same_runs m"
  by (auto simp: always_def same_runs_def hold_quiet_runs owners_kept_def)

lemma append_notice_runs: "always same_runs (append_notice run notice)"
  by (auto intro!: alwaysI simp: append_notice_def same_runs_def bindE_Inr
      split: option.splits prod.splits dest: inbox_append_frame)

lemma acknowledge_runs: "always same_runs (acknowledge_delivered_rows run)"
proof (rule alwaysI)
  fix s x s' assume run: "acknowledge_delivered_rows run s = Inr (x, s')"
  have task: "always same_runs (acknowledge_task row)" for row
    using alwaysD [OF status_owners]
    by (auto intro!: alwaysI simp: acknowledge_task_def same_runs_def bindE_Inr owners_kept_def split: option.splits if_splits)
  have "always same_runs (acknowledge_rows rows)" for rows
    unfolding acknowledge_rows_def
    using moves_always(3) same_runs_weaken(2)
    by (cases "rows = []") (auto intro!: running.always_ret running.always_bind running.always_forE task)
  from alwaysD [OF this] run show "same_runs s s'"
    by (auto simp: acknowledge_delivered_rows_def running.refl split: if_splits)
qed

lemma terminal_tail_runs: "always same_runs (terminal_tail next at text cancels notice)"
  unfolding terminal_tail_def
  by (intro running.always_bind running.always_when same_runs_weaken(1) [OF end_attempt_quiet]
      same_runs_weaken(1) [OF record_run_result_quiet] same_runs_weaken(1) [OF cancel_approval_rows_quiet]
      append_notice_runs acknowledge_runs running.always_ret)

lemma write_terminal_run_Inr:
  assumes ok: "outbox_ok s" "runs_ok s" and run: "write_terminal_run r e st oc at text notice s = Inr (next, s')"
  shows "outbox_ok s'" "runs_ok s'" "get_run (rr_runId r) s' = Some next" "rr_status next = st" "store_evolves s s'"
proof -
  let ?p = "no_patch\<lparr>rp_completedAt := Some (Some at), rp_outcome := map_option Some (terminal_outcome (rr_outcome r) oc)\<rparr>"
  let ?c = "st \<noteq> RUncertain \<and> oc_interruptedBy (the_outcome oc) \<noteq> Some ByDaemonRestart"
  from run obtain s1 y s2 where steps: "cas_run_status (rr_runId r) e st ?p s = Inr (next, s1)"
    "terminal_tail next at text ?c notice s1 = Inr (y, s2)" "settle_txn (rr_threadId next) s2 = Inr ((), s')"
    unfolding write_terminal_run_tail bindE_Inr by auto
  note cas = cas_except [OF _ ok(2) steps(1)]
  have s1: "outbox_except {rr_threadId next} s1" using cas(1) ok(1) by (simp add: outbox_except_empty)
  have s2: "outbox_except {rr_threadId next} s2" by (rule keepsD [OF terminal_tail_keeps steps(2) s1])
  then show "outbox_ok s'"
    using settle_txn_except [OF steps(3), of "{}"] by (simp add: outbox_except_empty)
  have same: "runs s' = runs s1"
    using alwaysD [OF terminal_tail_runs steps(2)] alwaysD [OF settle_always(2) steps(3)]
    by (simp add: same_runs_def owners_kept_def)
  show "runs_ok s'" "get_run (rr_runId r) s' = Some next" "rr_status next = st"
    using cas(2-4) ok(1) same by (simp_all add: outbox_except_empty runs_ok_def get_run_def)
  have "store_evolves s1 s'" by (rule store_evolves_same) (rule same)
  with cas_run_status_evolves [OF steps(1)] show "store_evolves s s'" by (rule store_evolves_trans)
qed

section \<open>It never fails for a live run\<close>

definition attempts_ok :: "store \<Rightarrow> bool" where
  "attempts_ok s \<longleftrightarrow> list_all (\<lambda>a. get_run (at_runId a) s \<noteq> None) (attempts s)"

lemma move_row_total:
  assumes "inbox_ok s" "get_inbox i s \<noteq> None"
  shows "\<exists>x s'. move_row to from by i s = Inr (x, s')"
proof -
  from assms(2) obtain r where r: "get_inbox i s = Some r" by blast
  have "changes (\<lambda>x. ib_inboxId x = i \<and> ib_status x = ib_status r) (inbox s) = 1"
    by (rule changes_unique [of ib_inboxId _ r]) (use assms(1) get_inbox_id [OF r] in \<open>auto simp: inbox_ok_def\<close>)
  with r show ?thesis by (simp add: move_row_def Let_def)
qed

lemma move_rows_total:
  assumes "inbox_ok s" "\<And>i. i \<in> set ids \<Longrightarrow> get_inbox i s \<noteq> None"
  shows "\<exists>xs s'. forE ids (move_row to from by) s = Inr (xs, s')"
  using assms
proof (induction ids arbitrary: s)
  case (Cons i ids)
  then obtain x s1 where x: "move_row to from by i s = Inr (x, s1)"
    using move_row_total [of s i] by (meson list.set_intros(1))
  have "inbox_ok s1"
    using writes_inbox_ok(2) [OF move_row_writes [OF x Cons.prems(1)]] Cons.prems(1) by simp
  moreover have "get_inbox j s1 \<noteq> None" if "j \<in> set ids" for j
    using alwaysD [OF move_row_always(1) x] Cons.prems(2) [of j] that by (auto simp: inbox_evolves_def)
  ultimately obtain xs s' where "forE ids (move_row to from by) s1 = Inr (xs, s')"
    using Cons.IH by blast
  with x show ?case by simp
qed simp

lemma inbox_move_total:
  assumes "held X s" "\<And>i. i \<in> set ids \<Longrightarrow> get_inbox i s \<noteq> None"
  shows "\<exists>rows s'. inbox_move ids to from by s = Inr (rows, s')"
proof -
  have ok: "inbox_ok s" "task_ok s" using assms(1) by (simp_all add: held_def)
  obtain xs s1 where run: "forE ids (move_row to from by) s = Inr (xs, s1)"
    using move_rows_total [OF ok(1) assms(2)] by blast
  have "task_ok s1"
    using writes_inbox_ok(1) [OF rows_loop_writes [where f = "move_row to from by", OF move_row_writes run ok(1)]] ok(2)
    by simp
  then obtain s2 where "settle_threads settle_hold (distinct_first (map ib_threadId (somes xs))) s1 = Inr s2"
    using holding.settle_each_total by blast
  with run show ?thesis by (simp add: inbox_move_def bindE_def settle_moved_def)
qed

lemma list_delivered_mem: "row \<in> set (list_delivered_by_run runId s) \<Longrightarrow> row \<in> set (inbox s)"
  by (auto simp: list_delivered_by_run_def)

lemma acknowledge_delivered_rows_total:
  assumes "outbox_except X s"
  shows "\<exists>x s'. acknowledge_delivered_rows run s = Inr (x, s')"
proof -
  have task: "\<exists>x s'. acknowledge_task row u = Inr (x, s')" if u: "outbox_except X u" for row u
  proof -
    have tk: "task_ok u" using u by (simp add: outbox_except_def held_def)
    show ?thesis
    proof (cases "Option.bind (jstring (jfield (ib_payload row) ''delegationId'')) (\<lambda>i. get_delegation i u)")
      case (Some d)
      then obtain i where "get_delegation i u = Some d" by (auto simp: Option.bind_eq_Some_conv)
      then have d: "get_delegation (dg_delegationId d) u = Some d" by (rule get_delegation_self)
      have "\<exists>p s'. set_delegation_status settle_hold (dg_delegationId d) (dg_status d) DAcknowledged None None u = Inr (p, s')"
        if "dg_status d = DResultAvailable \<or> dg_status d = DFailed"
        by (rule holding.status_total [OF tk d refl]) (use that in auto)
      then show ?thesis
        using Some by (auto simp: acknowledge_task_def bindE_def retE_def)
    qed (simp add: acknowledge_task_def)
  qed
  have loop: "\<exists>xs s'. forE rows acknowledge_task u = Inr (xs, s')" if "outbox_except X u" for rows u
    using that
  proof (induction rows arbitrary: u)
    case (Cons row rows)
    obtain x u1 where x: "acknowledge_task row u = Inr (x, u1)" using task [OF Cons.prems] by blast
    with Cons.IH [OF keepsD [OF acknowledge_task_keeps x Cons.prems]] show ?case by auto
  qed simp
  let ?rows = "list_delivered_by_run (rr_runId run) s"
  have "get_inbox (ib_inboxId row) s \<noteq> None" if "row \<in> set (inbox s)" for row
    using that by (auto simp: get_inbox_def lookup_row_None)
  then have "get_inbox i s \<noteq> None" if "i \<in> set (map ib_inboxId ?rows)" for i
    using that list_delivered_mem by auto
  moreover have "held X s" using assms by (simp add: outbox_except_def)
  ultimately obtain moved s1 where ack: "mark_acknowledged (map ib_inboxId ?rows) s = Inr (moved, s1)"
    unfolding mark_acknowledged_def using inbox_move_total by blast
  with loop [OF keepsD [OF mark_acknowledged_except ack assms], of ?rows] show ?thesis
    by (auto simp: acknowledge_delivered_rows_def acknowledge_rows_def bindE_def retE_def)
qed

lemma cancel_approval_rows_total: "\<exists>x s'. cancel_approval_rows cond reason s = Inr (x, s')"
proof -
  have "\<exists>xs s'. forE rows (cancel_approval_row reason at) s = Inr (xs, s')" for rows at s
  proof (induction rows arbitrary: s)
    case (Cons row rows)
    have "\<exists>x s1. cancel_approval_row reason at row s = Inr (x, s1)"
      by (simp add: cancel_approval_row_def Let_def)
    with Cons show ?case by (metis (no_types, lifting) forE.simps(2) old.prod.case sum.simps(6))
  qed simp
  then show ?thesis by (metis (no_types, lifting) cancel_approval_rows_def bindE_run(1) retE_def)
qed

lemma append_notice_total:
  assumes "outbox_except X s"
  shows "\<exists>x s'. append_notice run notice s = Inr (x, s')"
proof -
  have "fresh_uuids s" using assms by (simp add: outbox_except_def held_def task_ok_def)
  then have "\<exists>row s'. inbox_append t r k p None s = Inr (row, s')" for t r k p
    using inbox_append_fresh by blast
  then show ?thesis
    by (auto simp: append_notice_def bindE_def retE_def split: option.split prod.split sum.split)
      (metis sum.distinct(1))+
qed

lemma end_attempt_total:
  assumes "attempts_ok s"
  shows "\<exists>x s'. end_attempt run at s = Inr (x, s')"
proof (cases "Option.bind (rr_activeAttemptId run) (\<lambda>a. get_attempt a s)")
  case (Some a)
  then have a: "a \<in> set (attempts s)" "get_attempt (at_attemptId a) s = Some a"
    by (auto simp: Option.bind_eq_Some_conv get_attempt_def dest: lookup_row_Some)
  have "get_run i (s\<lparr>attempts := x\<rparr>) = get_run i s" for i x by (simp add: get_run_def)
  moreover obtain r where "get_run (at_runId a) s = Some r"
    using assms a(1) by (auto simp: attempts_ok_def list_all_iff)
  ultimately show ?thesis
    using Some a(2) by (simp add: end_attempt_def set_attempt_status_def bindE_def retE_def Let_def)
qed (simp add: end_attempt_def)

lemma terminal_tail_total:
  assumes ok: "outbox_except X s" "attempts_ok s"
  shows "\<exists>x s'. terminal_tail next at text cancels notice s = Inr (x, s')"
proof -
  obtain x1 s1 where s1: "end_attempt next at s = Inr (x1, s1)" using end_attempt_total [OF ok(2)] by blast
  note k1 = keepsD [OF quiet_keeps [OF end_attempt_quiet] s1 ok(1)]
  let ?s2 = "record_run_result_text next text s1"
  have s2: "modE (record_run_result_text next text) s1 = Inr ((), ?s2)" by simp
  note k2 = keepsD [OF quiet_keeps [OF record_run_result_quiet] s2 k1]
  let ?m = "whenE cancels (bindE (cancel_approval_rows (\<lambda>a. ap_runId a = Some (rr_runId next)) ''turn_ended'') (\<lambda>_. retE ()))"
  obtain ys s3' where "cancel_approval_rows (\<lambda>a. ap_runId a = Some (rr_runId next)) ''turn_ended'' ?s2 = Inr (ys, s3')"
    using cancel_approval_rows_total by blast
  then have "\<exists>s3. ?m ?s2 = Inr ((), s3)"
    by (cases cancels) (simp_all add: whenE_def bindE_def retE_def)
  then obtain s3 where s3: "?m ?s2 = Inr ((), s3)" by blast
  have "keeps (outbox_except X) ?m"
    by (intro keeps_whenE keeps_bindE quiet_keeps cancel_approval_rows_quiet keeps_pure)
  note k3 = keepsD [OF this s3 k2]
  obtain x4 s4 where s4: "append_notice next notice s3 = Inr (x4, s4)" using append_notice_total [OF k3] by blast
  note k4 = keepsD [OF append_notice_keeps s4 k3]
  obtain x5 s5 where s5: "acknowledge_delivered_rows next s4 = Inr (x5, s5)"
    using acknowledge_delivered_rows_total [OF k4] by blast
  show ?thesis
    unfolding terminal_tail_def using s1 s2 s3 s4 s5 by (simp add: bindE_run)
qed

lemma cas_run_status_total:
  assumes "runs_ok s" "get_run runId s = Some r" "\<not> terminal_run (rr_status r)" "rr_epoch r \<le> 9007199254740991"
  shows "\<exists>next s'. cas_run_status runId (int (rr_epoch r)) st p s = Inr (next, s')"
proof -
  have mem: "r \<in> set (runs s)" "rr_runId r = runId"
    using assms(2) by (auto simp: get_run_def dest: lookup_row_Some)
  have "changes (\<lambda>x. rr_runId x = rr_runId r \<and> rr_epoch x = rr_epoch r) (runs s) = 1"
    by (rule changes_unique [of rr_runId _ r]) (use runs_okD(1) [OF assms(1)] mem in auto)
  moreover have "require_cas_target runId (int (rr_epoch r)) s = Inr r"
    using assms by (simp add: require_cas_target_Inr safe_int_def)
  ultimately show ?thesis
    by (simp add: cas_run_status_def write_cas_def Let_def)
qed

lemma cas_keeps_attempts:
  assumes run: "cas_run_status runId e st p s = Inr (next, s')" and ok: "runs_ok s" "attempts_ok s"
  shows "attempts_ok s'"
proof -
  have "attempts s' = attempts s"
    by (rule cas_run_status_Inr [OF run ok(1)]) simp
  moreover have "get_run i s' \<noteq> None" if "get_run i s \<noteq> None" for i
    using cas_run_status_evolves [OF run] that by (auto simp: store_evolves_def)
  ultimately show ?thesis using ok(2) by (auto simp: attempts_ok_def list_all_iff)
qed

lemma write_terminal_run_total:
  assumes ok: "outbox_ok s" "runs_ok s" "attempts_ok s"
    and r: "get_run (rr_runId run) s = Some r" "\<not> terminal_run (rr_status r)" "rr_epoch r \<le> 9007199254740991"
  shows "\<exists>next s'. write_terminal_run run (int (rr_epoch r)) st oc at text notice s = Inr (next, s')"
proof -
  let ?p = "no_patch\<lparr>rp_completedAt := Some (Some at), rp_outcome := map_option Some (terminal_outcome (rr_outcome run) oc)\<rparr>"
  let ?c = "st \<noteq> RUncertain \<and> oc_interruptedBy (the_outcome oc) \<noteq> Some ByDaemonRestart"
  obtain nxt s1 where s1: "cas_run_status (rr_runId run) (int (rr_epoch r)) st ?p s = Inr (nxt, s1)"
    using cas_run_status_total [OF ok(2) r] by blast
  have k1: "outbox_except {rr_threadId nxt} s1"
    using cas_except(1) [OF _ ok(2) s1] ok(1) by (simp add: outbox_except_empty)
  obtain x s2 where s2: "terminal_tail nxt at text ?c notice s1 = Inr (x, s2)"
    using terminal_tail_total [OF k1 cas_keeps_attempts [OF s1 ok(2,3)]] by blast
  have "task_ok s2"
    using keepsD [OF terminal_tail_keeps s2 k1] by (simp add: outbox_except_def held_def)
  then obtain s3 where "settle_hold (rr_threadId nxt) s2 = Inr s3" using holding.settle_total by blast
  with s1 s2 show ?thesis
    unfolding write_terminal_run_tail by (simp add: bindE_run settle_txn_def retE_def)
qed

section \<open>Properties of the terminal write\<close>

lemma write_terminal_run_other:
  assumes ok: "runs_ok s" and run: "write_terminal_run r e st oc at text notice s = Inr (next, s')" and i: "i \<noteq> rr_runId r"
  shows "get_run i s' = get_run i s"
proof -
  let ?p = "no_patch\<lparr>rp_completedAt := Some (Some at), rp_outcome := map_option Some (terminal_outcome (rr_outcome r) oc)\<rparr>"
  let ?c = "st \<noteq> RUncertain \<and> oc_interruptedBy (the_outcome oc) \<noteq> Some ByDaemonRestart"
  from run obtain s1 y s2 where steps: "cas_run_status (rr_runId r) e st ?p s = Inr (next, s1)"
    "terminal_tail next at text ?c notice s1 = Inr (y, s2)" "settle_txn (rr_threadId next) s2 = Inr ((), s')"
    unfolding write_terminal_run_tail bindE_Inr by auto
  have same: "runs s' = runs s1"
    using alwaysD [OF terminal_tail_runs steps(2)] alwaysD [OF settle_always(2) steps(3)]
    by (simp add: same_runs_def owners_kept_def)
  obtain x where x: "get_run (rr_runId r) s = Some x" "rr_runId next = rr_runId x"
    "runs s1 = map (\<lambda>y. if y = x then next else y) (runs s)"
    by (rule cas_run_status_Inr [OF steps(1) ok]) simp
  have mem: "x \<in> set (runs s)" "rr_runId x = rr_runId r"
    using x(1) by (auto simp: get_run_def dest: lookup_row_Some)
  have "get_run i s1 = get_run i s"
    using get_run_map [OF ok mem(1) x(2,3)] mem(2) i by simp
  with same show ?thesis by (simp add: get_run_def)
qed

text \<open>
  C4: The terminal write of a live run never fails and completes the run: it gets the given final
  status, its rows and attempt are written in the same step, no other run is changed, and afterwards no
  task anywhere waits on an idle subagent.
\<close>

theorem terminal_write_completes:
  assumes "outbox_ok s" "runs_ok s" "attempts_ok s"
    and "get_run (rr_runId run) s = Some r" "\<not> terminal_run (rr_status r)" "rr_epoch r \<le> 9007199254740991"
  shows "\<exists>next s'. write_terminal_run run (int (rr_epoch r)) st oc at text notice s = Inr (next, s') \<and>
    get_run (rr_runId run) s' = Some next \<and> rr_status next = st \<and> outbox_ok s' \<and> runs_ok s' \<and>
    (\<forall>i. i \<noteq> rr_runId run \<longrightarrow> get_run i s' = get_run i s)"
proof -
  obtain nxt s' where run: "write_terminal_run run (int (rr_epoch r)) st oc at text notice s = Inr (nxt, s')"
    using write_terminal_run_total [OF assms] by blast
  note w = write_terminal_run_Inr [OF assms(1,2) run]
  with run write_terminal_run_other [OF assms(2) run] show ?thesis by blast
qed

lemma example_run_outbox: "outbox_ok example_run"
proof -
  obtain r where run: "create_run example_input (empty_store 7 nat_str) = Inr (r, example_run)"
    using example_run_eq by blast
  note f = create_run_frame [OF run]
  have e: "outbox_ok (empty_store 7 nat_str)"
    by (simp add: outbox_ok_def held_def task_ok_def fresh_uuids_def inbox_ok_def effect_ok_def inj_def
      delivery_local_def empty_store_def settled_except_def settled_no_task)
  have d: "delegations example_run = []" "inbox example_run = []" "effects example_run = []"
    using f by (simp_all add: empty_store_def)
  show ?thesis
    using e f d by (simp add: outbox_ok_def held_def task_ok_def fresh_uuids_def inbox_ok_def effect_ok_def
      delivery_local_def settled_except_def settled_no_task)
qed

lemma terminal_write_completes_witness:
  "\<exists>run next s'. get_run ''run:thread:t:ordinal:1'' example_run = Some run \<and>
     write_terminal_run run 0 RCompleted None 8 (Some ''done'') None example_run = Inr (next, s') \<and>
     rr_status next = RCompleted \<and> outbox_ok s'"
proof -
  have a: "attempts_ok example_run" by code_simp
  have "case get_run ''run:thread:t:ordinal:1'' example_run of None \<Rightarrow> False
    | Some r \<Rightarrow> \<not> terminal_run (rr_status r) \<and> rr_epoch r = 0 \<and> rr_runId r = ''run:thread:t:ordinal:1''" by code_simp
  then obtain r where r: "get_run ''run:thread:t:ordinal:1'' example_run = Some r" "\<not> terminal_run (rr_status r)"
    "rr_epoch r = 0" "rr_runId r = ''run:thread:t:ordinal:1''"
    by (auto split: option.splits)
  have "get_run (rr_runId r) example_run = Some r" using r by simp
  from terminal_write_completes [OF example_run_outbox example_run_ok a this r(2)] r show ?thesis
    by fastforce
qed

end
