(* ===== verification/Ledger.thy ===== *)
theory Ledger
  imports RunStore StatusTables
begin

text \<open>
  The small ledgers of the run database: context transfers between threads
  (\<open>handoff/Transfers.ts\<close>), the tool-invocation ledger (\<open>ToolInvocations.ts\<close> with the registry
  \<open>tools/idempotency.ts\<close>) and the daemon generations (\<open>DaemonEpoch.ts\<close>). Each writes a row
  once and settles it once; the step relation \<open>ledger_step\<close> collects their operations.
\<close>

section \<open>Context transfers\<close>

text \<open>\<open>{ ...current.payload, ...patch }\<close>\<close>

definition jmerge :: "(string \<times> json) list \<Rightarrow> (string \<times> json) list \<Rightarrow> (string \<times> json) list" where
  "jmerge kvs patch = foldl (\<lambda>acc kv. AList.update (fst kv) (snd kv) acc) kvs patch"

definition stored_members :: "(string \<times> json) list \<Rightarrow> (string \<times> json) list" where
  "stored_members kvs = jmembers (stored (JObj kvs))"

definition get_transfer :: "string \<Rightarrow> store \<Rightarrow> transfer_record option" where
  "get_transfer transferId s = lookup_row tr_transferId transferId (transfers s)"

definition transfer_recorded :: "transfer_record \<Rightarrow> store \<Rightarrow> store" where
  "transfer_recorded record s =
     (let s1 = append_event (tr_targetThreadId record) None ''transfer.status'' (EvTransfer record) s
      in if tr_sourceThreadId record \<noteq> tr_targetThreadId record
         then append_event (tr_sourceThreadId record) None ''transfer.status'' (EvTransfer record) s1
         else s1)"

record transfer_input =
  xi_type :: transfer_type
  xi_sourceThreadId :: string
  xi_targetThreadId :: string
  xi_sourceRunOrdinal :: nat
  xi_payload :: "(string \<times> json) list"

text \<open>The row keeps the stored form of the payload; the event and the caller get the record.\<close>

definition transfer_row :: "transfer_record \<Rightarrow> transfer_record" where
  "transfer_row record = record\<lparr>tr_payload := stored_members (tr_payload record)\<rparr>"

definition create_transfer :: "transfer_input \<Rightarrow> transfer_record run_txn" where
  "create_transfer input s =
     (let record = \<lparr>tr_transferId = ''transfer:'' @ uuids s (next_uuid s), tr_type = xi_type input,
            tr_sourceThreadId = xi_sourceThreadId input, tr_targetThreadId = xi_targetThreadId input,
            tr_sourceRunOrdinal = xi_sourceRunOrdinal input, tr_status = XPending,
            tr_payload = xi_payload input, tr_createdAt = clock s, tr_consumedAt = None\<rparr>
      in if get_transfer (tr_transferId record) s \<noteq> None then Inl Conflict
         else Inr (record, transfer_recorded record
           (s\<lparr>next_uuid := Suc (next_uuid s), transfers := transfers s @ [transfer_row record]\<rparr>)))"

definition transfers_for_thread :: "string \<Rightarrow> store \<Rightarrow> transfer_record list" where
  "transfers_for_thread threadId s = by_created tr_createdAt
     (filter (\<lambda>t. tr_targetThreadId t = threadId \<or> tr_sourceThreadId t = threadId) (transfers s))"

definition pending_transfers :: "string \<Rightarrow> transfer_type option \<Rightarrow> store \<Rightarrow> transfer_record list" where
  "pending_transfers targetThreadId type s =
     filter (\<lambda>t. type = None \<or> type = Some (tr_type t))
       (by_created tr_createdAt
         (filter (\<lambda>t. tr_targetThreadId t = targetThreadId \<and> tr_status t = XPending) (transfers s)))"

definition transfers_between :: "transfer_type \<Rightarrow> string \<Rightarrow> string \<Rightarrow> store \<Rightarrow> transfer_record list" where
  "transfers_between type sourceThreadId targetThreadId s = by_created tr_createdAt
     (filter (\<lambda>t. tr_type t = type \<and> tr_sourceThreadId t = sourceThreadId \<and>
        tr_targetThreadId t = targetThreadId) (transfers s))"

text \<open>The \<open>UPDATE\<close> is guarded on the status that was read in the same transaction.\<close>

definition set_transfer_status ::
  "string \<Rightarrow> transfer_status \<Rightarrow> transfer_status \<Rightarrow> (string \<times> json) list option \<Rightarrow> transfer_record run_txn" where
  "set_transfer_status transferId old new payloadPatch s =
     (case get_transfer transferId s of
        None \<Rightarrow> Inl BadRequest
      | Some current \<Rightarrow>
          if tr_status current \<noteq> old then Inl StaleWrite
          else if new \<notin> set (transfer_moves (tr_status current)) then Inl BadRequest
          else
            let record = current\<lparr>tr_status := new,
                  tr_payload := (case payloadPatch of None \<Rightarrow> tr_payload current
                     | Some p \<Rightarrow> jmerge (tr_payload current) p),
                  tr_consumedAt := (if new = XPending then None else Some (clock s))\<rparr>
            in Inr (record, transfer_recorded record
                 (s\<lparr>transfers := update_rows (\<lambda>t. tr_transferId t = transferId \<and> tr_status t = old)
                      (\<lambda>t. t\<lparr>tr_status := new, tr_payload := stored_members (tr_payload record),
                         tr_consumedAt := tr_consumedAt record\<rparr>) (transfers s)\<rparr>)))"

definition patch_transfer_payload :: "string \<Rightarrow> (string \<times> json) list \<Rightarrow> transfer_record run_txn" where
  "patch_transfer_payload transferId payloadPatch s =
     (case get_transfer transferId s of
        None \<Rightarrow> Inl BadRequest
      | Some current \<Rightarrow>
          let record = current\<lparr>tr_payload := jmerge (tr_payload current) payloadPatch\<rparr>
          in Inr (record, transfer_recorded record
               (s\<lparr>transfers := update_rows (\<lambda>t. tr_transferId t = transferId)
                    (\<lambda>t. t\<lparr>tr_payload := stored_members (tr_payload record)\<rparr>) (transfers s)\<rparr>)))"

text \<open>A patch does not look at the status: a transfer that was consumed or failed takes it as well.\<close>

lemma patch_ignores_status:
  "get_transfer transferId s = Some t \<Longrightarrow> \<exists>t' s'. patch_transfer_payload transferId patch s = Inr (t', s') \<and> tr_status t' = tr_status t"
  by (simp add: patch_transfer_payload_def Let_def)

section \<open>The tool-invocation ledger\<close>

definition IDEMPOTENT_TOOLS :: "string list" where
  "IDEMPOTENT_TOOLS = [''read_file'', ''list_dir'', ''ls'', ''git_status'', ''git_diff'', ''web_search'',
     ''web_fetch'', ''browser_observe'', ''browser_find'', ''browser_extract'', ''browser_screenshot'',
     ''browser_tabs'', ''list_tasks'', ''list_subagents'', ''list_delegations'', ''list_computers'',
     ''integrate_delegation'', ''integrate_subagent'', ''thread_read'', ''queue_list'', ''consult'',
     ''escalate'']"

definition NON_IDEMPOTENT_TOOLS :: "string list" where
  "NON_IDEMPOTENT_TOOLS = [''bash'', ''run_command'', ''write_file'', ''edit_file'', ''browser_act'',
     ''browser_open'', ''create_task'', ''update_task'', ''create_subagent'', ''create_subagents'',
     ''recall_subagent'', ''delegate_task'', ''continue_subagent'', ''answer_subagent'', ''task_status'',
     ''task_cancel'', ''present_plan'', ''ask_user'', ''queue_enqueue'']"

definition is_idempotent_tool :: "string \<Rightarrow> bool option \<Rightarrow> bool" where
  "is_idempotent_tool name readOnlyHint =
     (if name \<in> set IDEMPOTENT_TOOLS then True
      else if name \<in> set NON_IDEMPOTENT_TOOLS then False
      else readOnlyHint = Some True)"

definition get_tool :: "string \<Rightarrow> store \<Rightarrow> tool_invocation option" where
  "get_tool invocationId s = lookup_row ti_invocationId invocationId (tools s)"

definition thread_of :: "string \<Rightarrow> store \<Rightarrow> store_error + string" where
  "thread_of runId s = (case get_run runId s of None \<Rightarrow> Inl BadRequest | Some run \<Rightarrow> Inr (rr_threadId run))"

definition tool_recorded :: "string \<Rightarrow> tool_invocation \<Rightarrow> store \<Rightarrow> store" where
  "tool_recorded threadId record s =
     append_event threadId (Some (ti_runId record)) ''tool.status'' (EvTool record) s"

record tool_input =
  to_invocationId :: string
  to_runId :: string
  to_attemptId :: string
  to_tool :: string
  to_argsDigest :: string
  to_now :: nat
  to_readOnlyHint :: "bool option"
  to_idempotent :: "bool option"

definition start_tool :: "tool_input \<Rightarrow> tool_invocation run_txn" where
  "start_tool input s =
     (case thread_of (to_runId input) s of
        Inl e \<Rightarrow> Inl e
      | Inr threadId \<Rightarrow>
          let record = \<lparr>ti_invocationId = to_invocationId input, ti_runId = to_runId input,
                ti_attemptId = to_attemptId input, ti_tool = to_tool input,
                ti_idempotent = (case to_idempotent input of
                   None \<Rightarrow> is_idempotent_tool (to_tool input) (to_readOnlyHint input) | Some b \<Rightarrow> b),
                ti_status = TStarted, ti_argsDigest = to_argsDigest input, ti_startedAt = to_now input,
                ti_completedAt = None\<rparr>
          in if get_tool (to_invocationId input) s \<noteq> None then Inl Conflict
             else Inr (record, tool_recorded threadId record (s\<lparr>tools := tools s @ [record]\<rparr>)))"

definition settle_tool :: "tool_status \<Rightarrow> string \<Rightarrow> nat \<Rightarrow> tool_invocation option run_txn" where
  "settle_tool status invocationId now s =
     (case get_tool invocationId s of
        None \<Rightarrow> Inr (None, s)
      | Some current \<Rightarrow>
          if ti_status current \<noteq> TStarted then Inr (None, s)
          else let hit = (\<lambda>t. ti_invocationId t = invocationId \<and> ti_status t = TStarted);
                   s1 = s\<lparr>tools := update_rows hit
                     (\<lambda>t. t\<lparr>ti_status := status, ti_completedAt := Some now\<rparr>) (tools s)\<rparr>
               in if changes hit (tools s) \<noteq> 1 then Inr (None, s1)
                  else case thread_of (ti_runId current) s1 of
                    Inl e \<Rightarrow> Inl e
                  | Inr threadId \<Rightarrow>
                      let record = current\<lparr>ti_status := status, ti_completedAt := Some now\<rparr>
                      in Inr (Some record, tool_recorded threadId record s1))"

definition commit_tool :: "string \<Rightarrow> nat \<Rightarrow> tool_invocation option run_txn" where
  "commit_tool = settle_tool TCommitted"

definition failed_tool :: "string \<Rightarrow> nat \<Rightarrow> tool_invocation option run_txn" where
  "failed_tool = settle_tool TFailed"

definition mark_outcome_unknown :: "string \<Rightarrow> nat \<Rightarrow> tool_invocation option run_txn" where
  "mark_outcome_unknown = settle_tool TOutcomeUnknown"

definition tools_for_run :: "string \<Rightarrow> store \<Rightarrow> tool_invocation list" where
  "tools_for_run runId s = filter (\<lambda>t. ti_runId t = runId) (tools s)"

definition started_tools :: "string \<Rightarrow> store \<Rightarrow> tool_invocation list" where
  "started_tools runId s = filter (\<lambda>t. ti_runId t = runId \<and> ti_status t = TStarted) (tools s)"

definition started_non_idempotent :: "string list \<Rightarrow> store \<Rightarrow> tool_invocation list" where
  "started_non_idempotent runIds s =
     filter (\<lambda>t. ti_status t = TStarted \<and> \<not> ti_idempotent t \<and> ti_runId t \<in> set runIds) (tools s)"

section \<open>Daemon generations\<close>

text \<open>The newest row: epochs are unique, so \<open>ORDER BY epoch DESC LIMIT 1\<close> has one answer.\<close>

definition current_epoch :: "store \<Rightarrow> daemon_epoch option" where
  "current_epoch s = List.find (\<lambda>e. ep_epoch e = max_nat (map ep_epoch (epochs s))) (epochs s)"

text \<open>\<open>AUTOINCREMENT\<close>: rows are never deleted, so the new key is one more than the largest.\<close>

definition begin_epoch :: "nat \<Rightarrow> nat \<Rightarrow> store \<Rightarrow> (nat \<times> daemon_epoch option \<times> bool) \<times> store" where
  "begin_epoch pid now s =
     (let previous = current_epoch s;
          epoch = Suc (max_nat (map ep_epoch (epochs s)))
      in ((epoch, previous, (case previous of None \<Rightarrow> False | Some p \<Rightarrow> ep_endedAt p = None)),
          s\<lparr>epochs := epochs s @ [\<lparr>ep_epoch = epoch, ep_pid = pid, ep_startedAt = now,
             ep_heartbeatAt = now, ep_endedAt = None\<rparr>]\<rparr>))"

definition live_epoch :: "nat \<Rightarrow> daemon_epoch \<Rightarrow> bool" where
  "live_epoch epoch e \<longleftrightarrow> ep_epoch e = epoch \<and> ep_endedAt e = None"

definition heartbeat_epoch :: "nat \<Rightarrow> nat \<Rightarrow> store \<Rightarrow> bool \<times> store" where
  "heartbeat_epoch epoch now s =
     (changes (live_epoch epoch) (epochs s) = 1,
      s\<lparr>epochs := update_rows (live_epoch epoch) (\<lambda>e. e\<lparr>ep_heartbeatAt := now\<rparr>) (epochs s)\<rparr>)"

definition end_epoch :: "nat \<Rightarrow> nat \<Rightarrow> store \<Rightarrow> bool \<times> store" where
  "end_epoch epoch now s =
     (changes (live_epoch epoch) (epochs s) = 1,
      s\<lparr>epochs := update_rows (live_epoch epoch)
         (\<lambda>e. e\<lparr>ep_endedAt := Some now, ep_heartbeatAt := now\<rparr>) (epochs s)\<rparr>)"


section \<open>Epochs increase and a crash is detected\<close>

definition epochs_ok :: "store \<Rightarrow> bool" where
  "epochs_ok s \<longleftrightarrow> sorted_wrt (<) (map ep_epoch (epochs s))"

lemma max_nat_snoc:
  assumes "\<And>x. x \<in> set xs \<Longrightarrow> x < y"
  shows "max_nat (xs @ [y]) = y"
proof -
  have "foldr max xs (y::nat) = y"
    using assms by (induction xs) (auto simp: max_def intro: less_imp_le)
  then show ?thesis by (simp add: max_nat_def)
qed

lemma epochs_below: "e \<in> set (epochs s) \<Longrightarrow> ep_epoch e < Suc (max_nat (map ep_epoch (epochs s)))"
  using max_nat_ge [of "ep_epoch e" "map ep_epoch (epochs s)"] by (simp add: le_imp_less_Suc)

lemma epochs_ok_begin: "epochs_ok s \<Longrightarrow> epochs_ok (snd (begin_epoch pid now s))"
  using epochs_below [of _ s] by (auto simp: epochs_ok_def begin_epoch_def Let_def sorted_wrt_append)

lemma epochs_ok_update:
  "(\<And>e. ep_epoch (f e) = ep_epoch e) \<Longrightarrow> epochs_ok s \<Longrightarrow> epochs_ok (s\<lparr>epochs := update_rows P f (epochs s)\<rparr>)"
  by (simp add: epochs_ok_def)

lemma update_rows_snoc:
  "(\<And>e. e \<in> set xs \<Longrightarrow> \<not> P e) \<Longrightarrow> update_rows P f (xs @ [x]) = xs @ [if P x then f x else x]"
  by (induction xs) (auto simp: update_rows_def)

lemma changes_snoc: "(\<And>e. e \<in> set xs \<Longrightarrow> \<not> P e) \<Longrightarrow> P x \<Longrightarrow> changes P (xs @ [x]) = 1"
  by (induction xs) (auto simp: changes_def)

lemma current_epoch_snoc:
  assumes "epochs s = es @ [e]" "\<And>x. x \<in> set es \<Longrightarrow> ep_epoch x < ep_epoch e"
  shows "current_epoch s = Some e" "max_nat (map ep_epoch (epochs s)) = ep_epoch e"
proof -
  show m: "max_nat (map ep_epoch (epochs s)) = ep_epoch e"
    using assms max_nat_snoc [of "map ep_epoch es" "ep_epoch e"] by auto
  have "List.find (\<lambda>x. ep_epoch x = ep_epoch e) (es @ [e]) = Some e"
    using assms(2) by (induction es) force+
  with m assms(1) show "current_epoch s = Some e" by (simp add: current_epoch_def)
qed

text \<open>
  Daemon generations: every boot gets an epoch above all earlier ones, so its lease owner name
  differs from that of every earlier daemon, and the next boot sees exactly whether this one ended
  cleanly: after a clean end it reports no crash, without one it does.
\<close>

theorem boot_detects_crash:
  assumes "epochs_ok s" "begin_epoch pid now s = ((e, p, c), s1)"
    and "heartbeat_epoch e h s1 = (beat, s2)"
    and "s3 = (if clean then snd (end_epoch e t s2) else s2)"
    and "begin_epoch pid' now' s3 = ((e', p', c'), s4)"
  shows "beat \<and> c' = (\<not> clean) \<and> map_option ep_epoch p' = Some e \<and> e < e' \<and> epochs_ok s4 \<and>
    (\<forall>x \<in> set (epochs s). ep_epoch x < e \<and> lease_owner (ep_epoch x) q \<noteq> lease_owner e pid)"
proof -
  let ?n = "\<lparr>ep_epoch = e, ep_pid = pid, ep_startedAt = now, ep_heartbeatAt = now, ep_endedAt = None\<rparr>"
  from assms(2) have e: "e = Suc (max_nat (map ep_epoch (epochs s)))" and s1: "s1 = s\<lparr>epochs := epochs s @ [?n]\<rparr>"
    by (auto simp: begin_epoch_def Let_def)
  have below: "ep_epoch x < e" if "x \<in> set (epochs s)" for x
    using epochs_below [OF that] e by simp
  then have other: "\<not> live_epoch e x" if "x \<in> set (epochs s)" for x
    using that by (auto simp: live_epoch_def)
  have live: "live_epoch e ?n" by (simp add: live_epoch_def)
  have s2: "epochs s2 = epochs s @ [?n\<lparr>ep_heartbeatAt := h\<rparr>]" and beat
    using assms(3) s1 other live
    by (auto simp: heartbeat_epoch_def update_rows_snoc changes_snoc)
  define n3 where "n3 = (if clean then ?n\<lparr>ep_endedAt := Some t, ep_heartbeatAt := t\<rparr> else ?n\<lparr>ep_heartbeatAt := h\<rparr>)"
  have s3: "epochs s3 = epochs s @ [n3]"
    using assms(4) s2 other by (auto simp: end_epoch_def n3_def update_rows_snoc live_epoch_def)
  have cur: "current_epoch s3 = Some n3" "max_nat (map ep_epoch (epochs s3)) = e"
    using current_epoch_snoc [OF s3] below by (auto simp: n3_def)
  have "epochs_ok s3"
    using assms(1) s3 below by (auto simp: epochs_ok_def sorted_wrt_append n3_def)
  then have "epochs_ok s4"
    using epochs_ok_begin [of s3 pid' now'] assms(5) by simp
  moreover have "e' = Suc e" "p' = Some n3" "c' = (ep_endedAt n3 = None)"
    using cur assms(5) by (auto simp: begin_epoch_def Let_def)
  moreover have "ep_endedAt n3 = None \<longleftrightarrow> \<not> clean" "ep_epoch n3 = e"
    by (simp_all add: n3_def)
  moreover have "lease_owner (ep_epoch x) q \<noteq> lease_owner e pid" if "x \<in> set (epochs s)" for x
    using below [OF that] by simp
  ultimately show ?thesis
    using below \<open>beat\<close> by simp
qed

theorem boot_detects_crash_witness:
  "let s = empty_store 0 (\<lambda>_. []); b = begin_epoch 7 1 s; hb = heartbeat_epoch 1 2 (snd b);
       b' = begin_epoch 8 3 (snd hb)
   in snd (snd (fst b')) \<and> fst (fst b) < fst (fst b') \<and> epochs_ok (snd b')"
proof -
  let ?s = "empty_store 0 (\<lambda>_. [])"
  have ok: "epochs_ok ?s" by (simp add: epochs_ok_def empty_store_def)
  obtain e p c s1 where b0: "begin_epoch 7 1 ?s = ((e, p, c), s1)" by (metis prod.collapse)
  moreover have "fst (fst (begin_epoch 7 1 ?s)) = 1"
    by (simp add: begin_epoch_def empty_store_def max_nat_def Let_def)
  ultimately have b: "begin_epoch 7 1 ?s = ((1, p, c), s1)" by simp
  obtain beat s2 where h: "heartbeat_epoch 1 2 s1 = (beat, s2)" by fastforce
  obtain e' p' c' s4 where b': "begin_epoch 8 3 s2 = ((e', p', c'), s4)" by (metis prod.collapse)
  from boot_detects_crash [OF ok b h, of s2 False, simplified, OF b'] b h b' show ?thesis
    by (simp add: Let_def)
qed

section \<open>The ledgers settle once\<close>

definition ledger_ok :: "store \<Rightarrow> bool" where
  "ledger_ok s \<longleftrightarrow> epochs_ok s \<and> distinct (map tr_transferId (transfers s)) \<and>
     distinct (map ti_invocationId (tools s))"

inductive ledger_step :: "store \<Rightarrow> store \<Rightarrow> bool" where
  ls_create: "create_transfer input s = Inr (t, s') \<Longrightarrow> ledger_step s s'"
| ls_status: "set_transfer_status i old new p s = Inr (t, s') \<Longrightarrow> ledger_step s s'"
| ls_patch: "patch_transfer_payload i p s = Inr (t, s') \<Longrightarrow> ledger_step s s'"
| ls_start: "start_tool tool s = Inr (t, s') \<Longrightarrow> ledger_step s s'"
| ls_commit: "commit_tool i now s = Inr (r, s') \<Longrightarrow> ledger_step s s'"
| ls_failed: "failed_tool i now s = Inr (r, s') \<Longrightarrow> ledger_step s s'"
| ls_unknown: "mark_outcome_unknown i now s = Inr (r, s') \<Longrightarrow> ledger_step s s'"
| ls_begin: "begin_epoch pid now s = (r, s') \<Longrightarrow> ledger_step s s'"
| ls_heartbeat: "heartbeat_epoch e now s = (b, s') \<Longrightarrow> ledger_step s s'"
| ls_end: "end_epoch e now s = (b, s') \<Longrightarrow> ledger_step s s'"

inductive_cases ledger_stepE: "ledger_step s s'"

text \<open>What may happen to a stored transfer and to a stored tool call.\<close>

definition transfer_moves_on :: "transfer_record \<Rightarrow> transfer_record \<Rightarrow> bool" where
  "transfer_moves_on t t' \<longleftrightarrow> tr_transferId t' = tr_transferId t \<and> tr_type t' = tr_type t \<and>
     tr_sourceThreadId t' = tr_sourceThreadId t \<and> tr_targetThreadId t' = tr_targetThreadId t \<and>
     tr_sourceRunOrdinal t' = tr_sourceRunOrdinal t \<and> tr_createdAt t' = tr_createdAt t \<and>
     moves_to transfer_moves (tr_status t) (tr_status t') \<and>
     (tr_status t \<noteq> XPending \<longrightarrow> tr_consumedAt t' = tr_consumedAt t)"

definition tool_moves_on :: "tool_invocation \<Rightarrow> tool_invocation \<Rightarrow> bool" where
  "tool_moves_on t t' \<longleftrightarrow> t' = t \<or>
     (ti_status t = TStarted \<and> (\<exists>st now. st \<noteq> TStarted \<and> t' = t\<lparr>ti_status := st, ti_completedAt := Some now\<rparr>))"

definition ledger_moves_on :: "store \<Rightarrow> store \<Rightarrow> bool" where
  "ledger_moves_on s s' \<longleftrightarrow>
     (\<forall>i t. get_transfer i s = Some t \<longrightarrow> (\<exists>t'. get_transfer i s' = Some t' \<and> transfer_moves_on t t')) \<and>
     (\<forall>i t. get_tool i s = Some t \<longrightarrow> (\<exists>t'. get_tool i s' = Some t' \<and> tool_moves_on t t'))"


lemma transfer_moves_on_refl [simp, intro]: "transfer_moves_on t t"
  by (simp add: transfer_moves_on_def)

lemma transfer_moves_on_trans:
  assumes "transfer_moves_on a b" "transfer_moves_on b c"
  shows "transfer_moves_on a c"
proof -
  have "tr_status b \<noteq> XPending" if "tr_status a \<noteq> XPending"
    using transfer_moves.final_stays [of "tr_status a" "tr_status b"] that assms(1)
    by (simp add: transfer_moves_on_def)
  with assms show ?thesis
    by (auto simp: transfer_moves_on_def intro: moves_to_trans)
qed

lemma tool_moves_on_refl [simp, intro]: "tool_moves_on t t"
  by (simp add: tool_moves_on_def)

lemma tool_moves_on_trans: "tool_moves_on a b \<Longrightarrow> tool_moves_on b c \<Longrightarrow> tool_moves_on a c"
  unfolding tool_moves_on_def by fastforce

lemma ledger_moves_on_refl [simp, intro]: "ledger_moves_on s s"
  by (auto simp: ledger_moves_on_def)

lemma ledger_moves_on_trans: "ledger_moves_on a b \<Longrightarrow> ledger_moves_on b c \<Longrightarrow> ledger_moves_on a c"
  unfolding ledger_moves_on_def
  by (meson transfer_moves_on_trans tool_moves_on_trans)

lemma transfer_recorded_frame [simp, frame]:
  "transfers (transfer_recorded r s) = transfers s" "tools (transfer_recorded r s) = tools s"
  "epochs (transfer_recorded r s) = epochs s" "runs (transfer_recorded r s) = runs s"
  by (simp_all add: transfer_recorded_def Let_def)

lemma tool_recorded_frame [simp, frame]:
  "transfers (tool_recorded t r s) = transfers s" "tools (tool_recorded t r s) = tools s"
  "epochs (tool_recorded t r s) = epochs s" "runs (tool_recorded t r s) = runs s"
  by (simp_all add: tool_recorded_def)

lemma ledger_moves_on_same:
  "transfers s' = transfers s \<Longrightarrow> tools s' = tools s \<Longrightarrow> ledger_moves_on s s'"
  by (auto simp: ledger_moves_on_def get_transfer_def get_tool_def)

text \<open>A row that is added, and a row that is rewritten along its table.\<close>

lemma ledger_add_transfer:
  assumes "get_transfer (tr_transferId t) s = None" "transfers s' = transfers s @ [t]" "tools s' = tools s"
  shows "ledger_moves_on s s'"
  using assms by (auto simp: ledger_moves_on_def get_transfer_def get_tool_def lookup_row_append)

lemma ledger_add_tool:
  assumes "get_tool (ti_invocationId t) s = None" "tools s' = tools s @ [t]" "transfers s' = transfers s"
  shows "ledger_moves_on s s'"
  using assms by (auto simp: ledger_moves_on_def get_transfer_def get_tool_def lookup_row_append)

lemma ledger_update_transfer:
  assumes "\<And>t. t \<in> set (transfers s) \<Longrightarrow> P t \<Longrightarrow> transfer_moves_on t (f t)"
    and "\<And>t. tr_transferId (f t) = tr_transferId t"
    and "transfers s' = update_rows P f (transfers s)" "tools s' = tools s"
  shows "ledger_moves_on s s'"
  using assms lookup_row_Some [of tr_transferId _ "transfers s"]
  by (auto simp: ledger_moves_on_def get_transfer_def get_tool_def lookup_row_update)

lemma ledger_update_tool:
  assumes "\<And>t. t \<in> set (tools s) \<Longrightarrow> P t \<Longrightarrow> tool_moves_on t (f t)"
    and "\<And>t. ti_invocationId (f t) = ti_invocationId t"
    and "tools s' = update_rows P f (tools s)" "transfers s' = transfers s"
  shows "ledger_moves_on s s'"
  using assms lookup_row_Some [of ti_invocationId _ "tools s"]
  by (auto simp: ledger_moves_on_def get_transfer_def get_tool_def lookup_row_update)

lemma settle_tool_keeps:
  assumes "settle_tool st i now s = Inr (r, s')" "st \<noteq> TStarted" "ledger_ok s"
  shows "ledger_moves_on s s' \<and> ledger_ok s'"
proof -
  let ?hit = "\<lambda>t. ti_invocationId t = i \<and> ti_status t = TStarted"
  let ?f = "\<lambda>t. t\<lparr>ti_status := st, ti_completedAt := Some now\<rparr>"
  have "s' = s \<or> (tools s' = update_rows ?hit ?f (tools s) \<and> transfers s' = transfers s \<and> epochs s' = epochs s)"
    using assms(1) by (auto simp: settle_tool_def Let_def split: option.splits if_splits sum.splits)
  then show ?thesis
  proof
    assume s': "tools s' = update_rows ?hit ?f (tools s) \<and> transfers s' = transfers s \<and> epochs s' = epochs s"
    have "ledger_moves_on s s'"
      by (rule ledger_update_tool [where P = ?hit and f = ?f]) (use s' assms(2) in \<open>auto simp: tool_moves_on_def\<close>)
    with s' assms(3) show ?thesis by (simp add: ledger_ok_def epochs_ok_def)
  qed (use assms(3) in auto)
qed

lemma set_transfer_status_keeps:
  assumes "set_transfer_status i old new p s = Inr (t, s')" "ledger_ok s"
  shows "ledger_moves_on s s' \<and> ledger_ok s'"
proof -
  let ?P = "\<lambda>t. tr_transferId t = i \<and> tr_status t = old"
  obtain f where s': "transfers s' = update_rows ?P f (transfers s)" "tools s' = tools s" "epochs s' = epochs s"
    and move: "new \<in> set (transfer_moves old)"
    and f: "f = (\<lambda>x. x\<lparr>tr_status := new, tr_payload := stored_members (tr_payload t), tr_consumedAt := tr_consumedAt t\<rparr>)"
    using assms(1) by (auto simp: set_transfer_status_def Let_def split: option.splits if_splits)
  have "old = XPending"
    using move transfer_moves.move_not_final [of new old] by auto
  then have "transfer_moves_on x (f x)" if "?P x" for x
    using that move moves_to_step [OF moves_to_refl, of new transfer_moves XPending]
    by (simp add: f transfer_moves_on_def)
  then have "ledger_moves_on s s'"
    by (intro ledger_update_transfer [OF _ _ s'(1,2)]) (auto simp: f)
  with s' assms(2) show ?thesis by (simp add: ledger_ok_def epochs_ok_def f)
qed

lemma ledger_step_keeps:
  assumes "ledger_step s s'" "ledger_ok s"
  shows "ledger_moves_on s s' \<and> ledger_ok s'"
  using assms
proof (induction rule: ledger_step.induct)
  case (ls_create input s t s')
  then have free: "get_transfer (tr_transferId (transfer_row t)) s = None"
    and s': "transfers s' = transfers s @ [transfer_row t]" "tools s' = tools s" "epochs s' = epochs s"
    by (auto simp: create_transfer_def Let_def transfer_row_def split: if_splits)
  have "tr_transferId (transfer_row t) \<notin> tr_transferId ` set (transfers s)"
    using free by (auto simp: get_transfer_def lookup_row_None)
  with s' ls_create(2) ledger_add_transfer [OF free s'(1,2)] show ?case
    by (simp add: ledger_ok_def epochs_ok_def)
next
  case (ls_patch i p s t s')
  have "ledger_moves_on s s'"
    by (rule ledger_update_transfer [where P = "\<lambda>t. tr_transferId t = i" and
          f = "\<lambda>x. x\<lparr>tr_payload := stored_members (tr_payload t)\<rparr>"])
      (use ls_patch in \<open>auto simp: patch_transfer_payload_def Let_def transfer_moves_on_def split: option.splits\<close>)
  then show ?case
    using ls_patch by (auto simp: patch_transfer_payload_def Let_def ledger_ok_def epochs_ok_def split: option.splits)
next
  case (ls_start tool s t s')
  then have free: "get_tool (ti_invocationId t) s = None"
    and s': "tools s' = tools s @ [t]" "transfers s' = transfers s" "epochs s' = epochs s"
    by (auto simp: start_tool_def Let_def split: if_splits sum.splits)
  have "ti_invocationId t \<notin> ti_invocationId ` set (tools s)"
    using free by (auto simp: get_tool_def lookup_row_None)
  with s' ls_start(2) ledger_add_tool [OF free s'(1,2)] show ?case
    by (simp add: ledger_ok_def epochs_ok_def)
next
  case (ls_begin pid now s r s')
  then have "transfers s' = transfers s" "tools s' = tools s"
    by (auto simp: begin_epoch_def Let_def)
  moreover have "epochs_ok s'"
    using ls_begin epochs_ok_begin [of s pid now] by (simp add: ledger_ok_def)
  ultimately show ?case using ls_begin by (simp add: ledger_moves_on_same ledger_ok_def)
next
  case (ls_heartbeat e now s b s')
  then show ?case
    by (auto simp: heartbeat_epoch_def ledger_ok_def intro!: ledger_moves_on_same epochs_ok_update)
next
  case (ls_end e now s b s')
  then show ?case
    by (auto simp: end_epoch_def ledger_ok_def intro!: ledger_moves_on_same epochs_ok_update)
qed (auto simp: commit_tool_def failed_tool_def mark_outcome_unknown_def
      dest: settle_tool_keeps set_transfer_status_keeps)

lemma ledger_steps_keep:
  "ledger_step\<^sup>*\<^sup>* s s' \<Longrightarrow> ledger_ok s \<Longrightarrow> ledger_moves_on s s' \<and> ledger_ok s'"
  by (induction rule: rtranclp_induct) (blast dest: ledger_step_keeps intro: ledger_moves_on_trans)+

lemma ledger_tools_keep:
  assumes "ledger_moves_on s s'" "get_tool i s = Some t"
  shows "(\<exists>v c. get_tool i s' = Some (t\<lparr>ti_status := v, ti_completedAt := c\<rparr>)) \<and>
    (ti_status t \<noteq> TStarted \<longrightarrow> get_tool i s' = Some t)"
proof -
  obtain t' where t': "get_tool i s' = Some t'" "tool_moves_on t t'"
    using assms unfolding ledger_moves_on_def by blast
  have "t = t\<lparr>ti_status := ti_status t, ti_completedAt := ti_completedAt t\<rparr>" by simp
  with t' show ?thesis unfolding tool_moves_on_def by metis
qed

lemma ledger_transfers_keep:
  assumes "ledger_moves_on s s'" "get_transfer i s = Some t"
  shows "(\<exists>v c pl. get_transfer i s' = Some (t\<lparr>tr_status := v, tr_consumedAt := c, tr_payload := pl\<rparr>)) \<and>
    (tr_status t \<noteq> XPending \<longrightarrow> (\<exists>pl. get_transfer i s' = Some (t\<lparr>tr_payload := pl\<rparr>)))"
proof -
  obtain t' where t': "get_transfer i s' = Some t'" "transfer_moves_on t t'"
    using assms unfolding ledger_moves_on_def by blast
  then have "t' = t\<lparr>tr_status := tr_status t', tr_consumedAt := tr_consumedAt t', tr_payload := tr_payload t'\<rparr>"
    by (cases t; cases t'; simp add: transfer_moves_on_def)
  moreover have "tr_status t' = tr_status t \<and> tr_consumedAt t' = tr_consumedAt t" if "tr_status t \<noteq> XPending"
    using t'(2) that transfer_moves.final_stays by (auto simp: transfer_moves_on_def)
  moreover have "t\<lparr>tr_status := tr_status t, tr_consumedAt := tr_consumedAt t, tr_payload := pl\<rparr> = t\<lparr>tr_payload := pl\<rparr>" for pl
    by simp
  ultimately show ?thesis using t'(1) by metis
qed

lemma settled_tool_refused:
  "get_tool i s = Some t \<Longrightarrow> ti_status t \<noteq> TStarted \<Longrightarrow> settle_tool st i now s = Inr (None, s)"
  by (simp add: settle_tool_def)

lemma ended_transfer_refused:
  assumes "get_transfer i s = Some t" "tr_status t \<noteq> XPending"
  shows "isl (set_transfer_status i old new p s)"
proof -
  have "transfer_moves (tr_status t) = []"
    by (rule transfer_moves.final_no_moves) (rule assms(2))
  with assms(1) show ?thesis by (cases "tr_status t = old") (simp_all add: set_transfer_status_def)
qed

text \<open>
  C13: The ledgers settle once: along any sequence of ledger operations a stored tool call keeps every field but its
  status and end, and once it has ended (committed, failed or of unknown outcome) never changes again; a stored
  transfer keeps its id, type, threads, run and creation time, and once it has left \<open>pending\<close> its status and
  time as well, and nobody can move it again.
\<close>

theorem ledger_settles_once:
  assumes "ledger_step\<^sup>*\<^sup>* s s'" "ledger_ok s"
  shows "(\<forall>i t. get_tool i s = Some t \<longrightarrow>
      (\<exists>v c. get_tool i s' = Some (t\<lparr>ti_status := v, ti_completedAt := c\<rparr>)) \<and>
      (ti_status t \<noteq> TStarted \<longrightarrow> get_tool i s' = Some t \<and> settle_tool st i now s' = Inr (None, s'))) \<and>
    (\<forall>i t. get_transfer i s = Some t \<longrightarrow>
      (\<exists>v c pl. get_transfer i s' = Some (t\<lparr>tr_status := v, tr_consumedAt := c, tr_payload := pl\<rparr>)) \<and>
      (tr_status t \<noteq> XPending \<longrightarrow>
        (\<exists>pl. get_transfer i s' = Some (t\<lparr>tr_payload := pl\<rparr>)) \<and> isl (set_transfer_status i old new p s')))"
proof -
  have moves: "ledger_moves_on s s'"
    using ledger_steps_keep [OF assms] by simp
  note tool = ledger_tools_keep [OF moves] and transfer = ledger_transfers_keep [OF moves]
  show ?thesis
  proof (intro conjI allI impI)
    fix i t assume t: "get_tool i s = Some t"
    show "\<exists>v c. get_tool i s' = Some (t\<lparr>ti_status := v, ti_completedAt := c\<rparr>)" using tool [OF t] by blast
    assume "ti_status t \<noteq> TStarted"
    then show "get_tool i s' = Some t" "settle_tool st i now s' = Inr (None, s')"
      using tool [OF t] settled_tool_refused by blast+
  next
    fix i t assume t: "get_transfer i s = Some t"
    show "\<exists>v c pl. get_transfer i s' = Some (t\<lparr>tr_status := v, tr_consumedAt := c, tr_payload := pl\<rparr>)"
      using transfer [OF t] by blast
    assume f: "tr_status t \<noteq> XPending"
    then obtain pl where pl: "get_transfer i s' = Some (t\<lparr>tr_payload := pl\<rparr>)" using transfer [OF t] by blast
    then show "\<exists>pl. get_transfer i s' = Some (t\<lparr>tr_payload := pl\<rparr>)" by blast
    show "isl (set_transfer_status i old new p s')" by (rule ended_transfer_refused [OF pl]) (simp add: f)
  qed
qed

definition ledger_example :: store where
  "ledger_example =
     (case create_run example_input (empty_store 5 (\<lambda>_. ''u'')) of
        Inl e \<Rightarrow> empty_store 5 (\<lambda>_. ''u'')
      | Inr (r, s) \<Rightarrow>
          (case start_tool \<lparr>to_invocationId = ''call'', to_runId = rr_runId r, to_attemptId = ''a'',
               to_tool = ''bash'', to_argsDigest = ''d'', to_now = 6, to_readOnlyHint = None,
               to_idempotent = None\<rparr> s of
             Inl e \<Rightarrow> s | Inr (t, s) \<Rightarrow> s))"

definition ledger_committed :: store where
  "ledger_committed = (case commit_tool ''call'' 9 ledger_example of Inl e \<Rightarrow> ledger_example | Inr (t, s) \<Rightarrow> s)"

theorem ledger_settles_once_witness:
  "\<exists>t. get_tool ''call'' ledger_committed = Some t \<and> ti_status t = TCommitted \<and>
     failed_tool ''call'' 11 ledger_committed = Inr (None, ledger_committed)"
proof -
  have ok: "ledger_ok ledger_committed"
    by (simp add: ledger_ok_def epochs_ok_def) code_simp
  have "map_option ti_status (get_tool ''call'' ledger_committed) = Some TCommitted"
    by code_simp
  then obtain t where "get_tool ''call'' ledger_committed = Some t" "ti_status t = TCommitted" by auto
  then show ?thesis
    using ledger_settles_once [OF rtranclp.rtrancl_refl ok, of TFailed 11]
    by (auto simp: failed_tool_def)
qed

end
