(* ===== verification/Policy.thy ===== *)
theory Policy
  imports Hold
begin

text \<open>
  Decisions from a provider's capabilities and a run (\<open>CommandPolicy.ts\<close>), and the count of agent
  messages in a row that a run carries on (\<open>agentHops.ts\<close>).
\<close>

section \<open>Capabilities\<close>

datatype steer_cap = SteerNative | SteerInterruptRestart | SteerQueueOnly

datatype events_cap = EventsRich | EventsSparse

text \<open>The capability keys that the run engine's decisions read.\<close>

record capabilities =
  cp_steer :: steer_cap
  cp_interrupt :: bool
  cp_events :: events_cap

section \<open>CommandPolicy\<close>

datatype steer_choice = StNative | StInterruptRestart | StQueue | StLateSteerNewRun

definition steer_strategy :: "capabilities \<Rightarrow> run_record option \<Rightarrow> steer_choice" where
  "steer_strategy caps run =
     (case run of
        None \<Rightarrow> StLateSteerNewRun
      | Some r \<Rightarrow>
          if rr_status r = RFinalizing \<or> rr_status r = RPaused \<or> terminal_run (rr_status r) then StLateSteerNewRun
          else if rr_status r = RQueued then StQueue
          else if cp_steer caps = SteerNative then StNative
          else if cp_steer caps = SteerInterruptRestart \<and> cp_interrupt caps then StInterruptRestart
          else StQueue)"

datatype stop_choice = SpInterrupt | SpSettleLocally | SpNoop

definition stop_strategy :: "capabilities \<Rightarrow> run_record option \<Rightarrow> stop_choice" where
  "stop_strategy caps run =
     (case run of
        None \<Rightarrow> SpNoop
      | Some r \<Rightarrow>
          if terminal_run (rr_status r) then SpNoop
          else if rr_status r = RQueued \<or> rr_status r = RPaused then SpSettleLocally
          else if cp_interrupt caps then SpInterrupt else SpSettleLocally)"

definition SPARSE_EVENTS_HEARTBEAT_FACTOR :: nat where
  "SPARSE_EVENTS_HEARTBEAT_FACTOR = 6"

definition heartbeat_tolerance_ms :: "capabilities \<Rightarrow> nat \<Rightarrow> nat" where
  "heartbeat_tolerance_ms caps baseMs =
     (if cp_events caps = EventsSparse then baseMs * SPARSE_EVENTS_HEARTBEAT_FACTOR else baseMs)"

section \<open>Agent hops\<close>

definition CARRY_ON_SOURCES :: "string list" where
  "CARRY_ON_SOURCES = [''wake'', ''provider-continuation'']"

definition inherited_agent_hops ::
  "string \<Rightarrow> string \<Rightarrow> string option \<Rightarrow> store \<Rightarrow> store_error + nat option" where
  "inherited_agent_hops threadId source continuationOf s =
     (let earlier =
        (case continuationOf of
           Some c \<Rightarrow>
             if c \<noteq> [] \<and> is_resume_source (Some source) then Inr (get_run c s)
             else if source \<in> set CARRY_ON_SOURCES
             then map_sum id (\<lambda>rs. case rs of [] \<Rightarrow> None | r # _ \<Rightarrow> Some r) (list_runs threadId (Some 1) s)
             else Inr None
         | None \<Rightarrow>
             if source \<in> set CARRY_ON_SOURCES
             then map_sum id (\<lambda>rs. case rs of [] \<Rightarrow> None | r # _ \<Rightarrow> Some r) (list_runs threadId (Some 1) s)
             else Inr None)
      in map_sum id (\<lambda>run.
           case Option.bind (Option.bind run rr_outcome) oc_agentHops of
             None \<Rightarrow> None | Some hops \<Rightarrow> if 0 < hops then Some hops else None) earlier)"

section \<open>Laws\<close>

text \<open>A run without a live turn takes neither a native steer nor an interrupt.\<close>

lemma no_live_turn_policy:
  assumes "rr_status r = RQueued \<or> rr_status r = RPaused \<or> terminal_run (rr_status r)"
  shows "steer_strategy caps (Some r) \<in> {StQueue, StLateSteerNewRun}" "stop_strategy caps (Some r) \<noteq> SpInterrupt"
  using assms by (auto simp: steer_strategy_def stop_strategy_def)

lemma inherited_agent_hops_pos:
  "inherited_agent_hops t src c s = Inr (Some hops) \<Longrightarrow> 0 < hops"
  by (auto simp: inherited_agent_hops_def Let_def map_sum_def
      split: option.splits if_splits sum.splits list.splits)

lemma list_runs_Inr: "\<exists>rs. list_runs t (Some 1) s = Inr rs"
  by (simp add: list_runs_def row_limit_def)

lemma inherited_agent_hops_Inr: "\<exists>hops. inherited_agent_hops t src c s = Inr hops"
  using list_runs_Inr [of t s] by (auto simp: inherited_agent_hops_def Let_def split: option.splits)

end
