(* ===== verification/Notice.thy ===== *)
theory Notice
  imports InboxBase Delegations "HOL-Library.Sublist"
begin

text \<open>
  The text a parent is told about its inbox rows (\<open>delegation/notice.ts\<close>): a finished task carries
  its result inline, at most \<open>NOTICE_TASK_CHARS\<close> of it and \<open>NOTICE_WAKE_CHARS\<close> for all tasks of
  one notice. The titles, pending questions and result reports come from the host (\<open>NoticeContext\<close>).
  The ellipsis that marks a cut headline is the one character of the notices outside the string type:
  it is the parameter \<open>ellipsis\<close>.
\<close>

definition NOTICE_TASK_CHARS :: nat where
  "NOTICE_TASK_CHARS = 4000"

definition NOTICE_WAKE_CHARS :: nat where
  "NOTICE_WAKE_CHARS = 16000"

record notice_context =
  nc_titleOf :: "string \<Rightarrow> string option"
  nc_questionPrompts :: "string \<Rightarrow> string list option"
  nc_resultReport :: "json \<Rightarrow> string option"
  nc_ellipsis :: string

record notice_item =
  ni_delegationId :: string
  ni_childThreadId :: string
  ni_title :: "string option"
  ni_runStatus :: string
  ni_fullyShown :: bool

section \<open>Strings\<close>

text \<open>\<open>text.trim()\<close>, \<open>text.replace(/\s+/g, ' ')\<close> and a template's \<open>${value}\<close>.\<close>

definition trim :: "string \<Rightarrow> string" where
  "trim x = rev (dropWhile is_space (rev (dropWhile is_space x)))"

fun squeeze :: "string \<Rightarrow> string" where
  "squeeze [] = []"
| "squeeze (c # cs) =
     (if \<not> is_space c then c # squeeze cs
      else case cs of
             [] \<Rightarrow> '' ''
           | d # _ \<Rightarrow> if is_space d then squeeze cs else '' '' @ squeeze cs)"

definition shown_field :: "json \<Rightarrow> string \<Rightarrow> string" where
  "shown_field v k = (case jstring (jfield v k) of None \<Rightarrow> ''undefined'' | Some x \<Rightarrow> x)"

definition line_break :: string where
  "line_break = [CHR 0x0A]"

definition quoted :: "string \<Rightarrow> string" where
  "quoted x = CHR 0x22 # x @ [CHR 0x22]"

definition notice_head :: "notice_context \<Rightarrow> string \<Rightarrow> string" where
  "notice_head ctx text =
     (let flat = trim (squeeze text) in
      if 200 < length flat then take 200 flat @ nc_ellipsis ctx else flat)"

definition who_is :: "notice_context \<Rightarrow> string \<Rightarrow> string" where
  "who_is ctx childThreadId =
     (case nc_titleOf ctx childThreadId of
        Some title \<Rightarrow>
          if title = [] then ''Subagent thread '' @ childThreadId
          else ''Subagent '' @ quoted title @ '' (thread '' @ childThreadId @ '')''
      | None \<Rightarrow> ''Subagent thread '' @ childThreadId)"

section \<open>One row\<close>

definition question_notice :: "notice_context \<Rightarrow> json \<Rightarrow> string" where
  "question_notice ctx payload =
     (let child = shown_field payload ''childThreadId'';
          request = shown_field payload ''requestId'';
          prompts = (case nc_questionPrompts ctx request of None \<Rightarrow> [] | Some ps \<Rightarrow> ps);
          asking = (if prompts = [] then [] else line_break @ join line_break (map (notice_head ctx) prompts))
      in who_is ctx child @ '' is waiting for an answer to question '' @ request @ ''.'' @ asking @ line_break @
         ''Answer it with answer_subagent (subagent '' @
         quoted (case nc_titleOf ctx child of None \<Rightarrow> child | Some t \<Rightarrow> t) @
         '', requestId '' @ request @ ''), or ask the user.'')"

definition notice_text :: "notice_context \<Rightarrow> inbox_record \<Rightarrow> string" where
  "notice_text ctx row =
     (if is_child_question_row row then question_notice ctx (ib_payload row)
      else
        let child = jstring (jfield (ib_payload row) ''childThreadId'') in
        if jfield (ib_payload row) ''kind'' = Some (JStr ''delegation_stopped'') \<and> child \<noteq> None \<and> child \<noteq> Some []
        then who_is ctx (the child) @ '' was stopped before it finished task '' @
          shown_field (ib_payload row) ''delegationId'' @ ''.''
        else case jstring (jfield (ib_payload row) ''text'') of
               None \<Rightarrow> ''Mousse notice '' @ ib_inboxId row @ ''.''
             | Some x \<Rightarrow> if is_blank x then ''Mousse notice '' @ ib_inboxId row @ ''.'' else trim x)"

text \<open>The result text a \<open>child_result\<close> row offers: the answer, or for a failed task what it said or why.\<close>

definition result_body :: "json \<Rightarrow> string" where
  "result_body result =
     (let text = jstring (jfield result ''text''); error = jstring (jfield result ''error'') in
      if jfield result ''runStatus'' = Some (JStr ''completed'')
      then (case text of None \<Rightarrow> [] | Some x \<Rightarrow> x)
      else case (if text = Some [] then None else text) of
             Some x \<Rightarrow> x
           | None \<Rightarrow> (case error of None \<Rightarrow> [] | Some e \<Rightarrow> e))"

definition payload_result :: "json \<Rightarrow> json" where
  "payload_result payload = (case jfield payload ''result'' of None \<Rightarrow> JUndef | Some r \<Rightarrow> r)"

definition task_headline :: "notice_context \<Rightarrow> json \<Rightarrow> string" where
  "task_headline ctx payload =
     (let result = payload_result payload;
          who = who_is ctx (shown_field payload ''childThreadId'');
          task = shown_field payload ''delegationId'';
          error = jstring (jfield result ''error'');
          text = jstring (jfield result ''text'')
      in if jfield result ''runStatus'' = Some (JStr ''completed'') then who @ '' finished task '' @ task @ ''.''
         else who @ '' ended task '' @ task @ '' ('' @ shown_field result ''runStatus'' @
           (case error of
              Some e \<Rightarrow> if e \<noteq> [] \<and> text \<noteq> None \<and> text \<noteq> Some [] then '': '' @ notice_head ctx e else []
            | None \<Rightarrow> []) @ '').'')"

definition task_message :: "notice_context \<Rightarrow> json \<Rightarrow> string \<Rightarrow> string" where
  "task_message ctx payload shown =
     (let body = result_body (payload_result payload);
          headline = task_headline ctx payload;
          text = (if is_blank shown then headline else headline @ line_break @ shown);
          message =
            (if length shown = length body
             then text @ line_break @ (if is_blank shown then ''It left no message.'' else ''Full result above.'')
             else text @ line_break @ ''[Result cut at '' @ nat_str (length shown) @ '' of '' @ nat_str (length body) @
               '' characters; call task_status with '' @ shown_field payload ''delegationId'' @ '' for the rest.]'')
      in case nc_resultReport ctx payload of
           None \<Rightarrow> message
         | Some report \<Rightarrow> if report = [] then message else message @ line_break @ report)"

section \<open>The whole notice\<close>

text \<open>The rows in order, with the characters of result text that are still allowed.\<close>

fun plan_rows :: "notice_context \<Rightarrow> nat \<Rightarrow> inbox_record list \<Rightarrow> string list \<times> notice_item list" where
  "plan_rows ctx budget [] = ([], [])"
| "plan_rows ctx budget (row # rows) =
     (if ib_kind row \<noteq> ChildResult
      then (case plan_rows ctx budget rows of (lines, items) \<Rightarrow> (notice_text ctx row # lines, items))
      else
        let payload = ib_payload row;
            child = shown_field payload ''childThreadId'';
            body = result_body (payload_result payload);
            shown = take (min NOTICE_TASK_CHARS budget) body;
            item = \<lparr>ni_delegationId = shown_field payload ''delegationId'', ni_childThreadId = child,
              ni_title = nc_titleOf ctx child, ni_runStatus = shown_field (payload_result payload) ''runStatus'',
              ni_fullyShown = (length shown = length body)\<rparr>
        in case plan_rows ctx (budget - length shown) rows of
             (lines, items) \<Rightarrow> (task_message ctx payload shown # lines, item # items))"

definition plan_wake_notice :: "notice_context \<Rightarrow> inbox_record list \<Rightarrow> string \<times> notice_item list" where
  "plan_wake_notice ctx rows =
     (case plan_rows ctx NOTICE_WAKE_CHARS rows of
        (lines, items) \<Rightarrow> (join (line_break @ line_break) lines, items))"

definition format_inbox_notice :: "notice_context \<Rightarrow> inbox_record \<Rightarrow> string" where
  "format_inbox_notice ctx row = fst (plan_wake_notice ctx [row])"

definition format_wake_notice :: "notice_context \<Rightarrow> inbox_record list \<Rightarrow> string" where
  "format_wake_notice ctx rows = fst (plan_wake_notice ctx rows)"

definition no_context :: "string \<Rightarrow> notice_context" where
  "no_context ellipsis = \<lparr>nc_titleOf = (\<lambda>_. None), nc_questionPrompts = (\<lambda>_. None),
     nc_resultReport = (\<lambda>_. None), nc_ellipsis = ellipsis\<rparr>"


section \<open>What a notice shows\<close>

definition task_rows :: "inbox_record list \<Rightarrow> inbox_record list" where
  "task_rows rows = filter (\<lambda>row. ib_kind row = ChildResult) rows"

definition body_of :: "inbox_record \<Rightarrow> string" where
  "body_of row = result_body (payload_result (ib_payload row))"

lemma task_rows_simps [simp]:
  "task_rows [] = []"
  "task_rows (row # rows) = (if ib_kind row = ChildResult then row # task_rows rows else task_rows rows)"
  by (simp_all add: task_rows_def)

lemma plan_rows_task:
  assumes "plan_rows ctx budget (row # rows) = (lines, items)" "ib_kind row = ChildResult"
  obtains i ls js where
    "plan_rows ctx (budget - min (length (body_of row)) (min NOTICE_TASK_CHARS budget)) rows = (ls, js)"
    "items = i # js"
    "lines = task_message ctx (ib_payload row) (take (min NOTICE_TASK_CHARS budget) (body_of row)) # ls"
    "ni_fullyShown i \<longleftrightarrow> min (length (body_of row)) (min NOTICE_TASK_CHARS budget) = length (body_of row)"
    "ni_delegationId i = shown_field (ib_payload row) ''delegationId''"
proof -
  let ?shown = "take (min NOTICE_TASK_CHARS budget) (body_of row)"
  obtain ls js where rest: "plan_rows ctx (budget - length ?shown) rows = (ls, js)" by fastforce
  define item where "item = \<lparr>ni_delegationId = shown_field (ib_payload row) ''delegationId'',
        ni_childThreadId = shown_field (ib_payload row) ''childThreadId'',
        ni_title = nc_titleOf ctx (shown_field (ib_payload row) ''childThreadId''),
        ni_runStatus = shown_field (payload_result (ib_payload row)) ''runStatus'',
        ni_fullyShown = (length ?shown = length (body_of row))\<rparr>"
  have eq: "(lines, items) = (task_message ctx (ib_payload row) ?shown # ls, item # js)"
    unfolding assms(1) [symmetric] plan_rows.simps(2) Let_def body_of_def [symmetric] rest prod.case item_def
    using assms(2) by (simp only: if_False not_not simp_thms)
  have "ni_fullyShown item = (length ?shown = length (body_of row))"
    "ni_delegationId item = shown_field (ib_payload row) ''delegationId''"
    unfolding item_def notice_item.select_convs by (rule refl)+
  then show thesis
    using that [of ls js item] eq rest by (simp add: min.commute)
qed

lemma plan_rows_other:
  assumes "plan_rows ctx budget (row # rows) = (lines, items)" "ib_kind row \<noteq> ChildResult"
  obtains ls where "plan_rows ctx budget rows = (ls, items)" "lines = notice_text ctx row # ls"
proof -
  obtain ls js where rest: "plan_rows ctx budget rows = (ls, js)" by fastforce
  have "(lines, items) = (notice_text ctx row # ls, js)"
    unfolding assms(1) [symmetric] plan_rows.simps(2) rest prod.case
    using assms(2) by (simp only: if_True simp_thms)
  with that rest show thesis by simp
qed

lemma plan_rows_tasks:
  "plan_rows ctx budget rows = (lines, items) \<Longrightarrow>
   map ni_delegationId items = map (\<lambda>row. shown_field (ib_payload row) ''delegationId'') (task_rows rows)"
proof (induction rows arbitrary: budget lines items)
  case (Cons row rows)
  show ?case
  proof (cases "ib_kind row = ChildResult")
    case True
    show ?thesis
      by (rule plan_rows_task [OF Cons.prems True]) (use Cons.IH True in simp)
  next
    case False
    show ?thesis
      by (rule plan_rows_other [OF Cons.prems False]) (use Cons.IH False in simp)
  qed
qed simp

lemma plan_rows_length:
  "plan_rows ctx budget rows = (lines, items) \<Longrightarrow> length items = length (task_rows rows)"
  using plan_rows_tasks by (metis length_map)

lemma plan_rows_budget:
  "plan_rows ctx budget rows = (lines, items) \<Longrightarrow>
   (\<Sum>(i, row) \<leftarrow> zip items (task_rows rows). if ni_fullyShown i then length (body_of row) else 0) \<le> budget \<and>
   (\<forall>(i, row) \<in> set (zip items (task_rows rows)). ni_fullyShown i \<longrightarrow> length (body_of row) \<le> NOTICE_TASK_CHARS)"
proof (induction rows arbitrary: budget lines items)
  case (Cons row rows)
  show ?case
  proof (cases "ib_kind row = ChildResult")
    case True
    let ?n = "min (length (body_of row)) (min NOTICE_TASK_CHARS budget)"
    obtain ls js i where rest: "plan_rows ctx (budget - ?n) rows = (ls, js)"
      and i: "items = i # js" "ni_fullyShown i \<longleftrightarrow> ?n = length (body_of row)"
      by (rule plan_rows_task [OF Cons.prems True])
    have n: "?n = length (body_of row) \<and> length (body_of row) \<le> NOTICE_TASK_CHARS \<and> length (body_of row) \<le> budget"
      if "ni_fullyShown i"
    proof -
      have "?n = length (body_of row)" using i(2) that by blast
      then show ?thesis by (metis min.boundedE min.orderI)
    qed
    note ih = Cons.IH [OF rest]
    show ?thesis
    proof (cases "ni_fullyShown i")
      case True
      note b = n [OF True]
      have "(\<Sum>(i, row) \<leftarrow> zip js (task_rows rows). if ni_fullyShown i then length (body_of row) else 0) \<le>
          budget - length (body_of row)"
        using ih b by metis
      then have "length (body_of row) +
          (\<Sum>(i, row) \<leftarrow> zip js (task_rows rows). if ni_fullyShown i then length (body_of row) else 0) \<le> budget"
        using b by linarith
      with b ih True \<open>ib_kind row = ChildResult\<close> show ?thesis by (simp add: i(1))
    next
      case False
      have "(\<Sum>(i, row) \<leftarrow> zip js (task_rows rows). if ni_fullyShown i then length (body_of row) else 0) \<le> budget"
        using ih by (meson diff_le_self order_trans)
      with ih False \<open>ib_kind row = ChildResult\<close> show ?thesis by (simp add: i(1))
    qed
  next
    case False
    obtain ls where rest: "plan_rows ctx budget rows = (ls, items)"
      by (rule plan_rows_other [OF Cons.prems(1) False])
    from Cons.IH [OF rest] False show ?thesis by simp
  qed
qed simp

lemma plan_rows_all_shown:
  "plan_rows ctx budget rows = (lines, items) \<Longrightarrow>
   sum_list (map (length \<circ> body_of) (task_rows rows)) \<le> budget \<Longrightarrow>
   (\<forall>row \<in> set (task_rows rows). length (body_of row) \<le> NOTICE_TASK_CHARS) \<Longrightarrow>
   list_all ni_fullyShown items"
proof (induction rows arbitrary: budget lines items)
  case (Cons row rows)
  show ?case
  proof (cases "ib_kind row = ChildResult")
    case True
    have fits: "min (length (body_of row)) (min NOTICE_TASK_CHARS budget) = length (body_of row)"
      using Cons.prems(2,3) True by simp
    obtain ls js i where rest: "plan_rows ctx (budget - length (body_of row)) rows = (ls, js)"
      and "items = i # js" "ni_fullyShown i"
      by (rule plan_rows_task [OF Cons.prems(1) True, unfolded fits]) simp
    moreover have "list_all ni_fullyShown js"
      by (rule Cons.IH [OF rest]) (use Cons.prems(2,3) True in auto)
    ultimately show ?thesis by auto
  next
    case False
    obtain ls where rest: "plan_rows ctx budget rows = (ls, items)"
      by (rule plan_rows_other [OF Cons.prems(1) False])
    from Cons.IH [OF rest] Cons.prems(2,3) False show ?thesis by simp
  qed
qed simp

lemma sublist_middle: "sublist y (x @ y @ z)"
  by (simp add: sublist_appendI)

lemma sublist_middle2: "sublist y (a @ b @ y @ z)"
  using sublist_middle [of y "a @ b" z] by simp

lemma task_message_shows: "\<not> is_blank shown \<Longrightarrow> sublist shown (task_message ctx payload shown)"
  by (simp add: task_message_def Let_def sublist_middle2 split: option.split)

lemma plan_rows_shows:
  "plan_rows ctx budget rows = (lines, items) \<Longrightarrow> (i, row) \<in> set (zip items (task_rows rows)) \<Longrightarrow>
   ni_fullyShown i \<Longrightarrow> \<not> is_blank (body_of row) \<Longrightarrow> \<exists>l \<in> set lines. sublist (body_of row) l"
proof (induction rows arbitrary: budget lines items)
  case (Cons r rows)
  show ?case
  proof (cases "ib_kind r = ChildResult")
    case True
    let ?shown = "take (min NOTICE_TASK_CHARS budget) (body_of r)"
    obtain ls js j where rest: "plan_rows ctx (budget - length ?shown) rows = (ls, js)"
      and j: "items = j # js" "lines = task_message ctx (ib_payload r) ?shown # ls"
      "ni_fullyShown j \<longleftrightarrow> length ?shown = length (body_of r)"
      unfolding length_take by (rule plan_rows_task [OF Cons.prems(1) True])
    show ?thesis
    proof (cases "(i, row) \<in> set (zip js (task_rows rows))")
      case True
      with Cons.IH [OF rest] Cons.prems(3,4) j(2) show ?thesis by auto
    next
      case False
      with Cons.prems(2) True j(1) have "i = j" "row = r" by auto
      with j(3) Cons.prems(3) have "?shown = body_of row" by auto
      with j(2) Cons.prems(4) task_message_shows [of "body_of row" ctx "ib_payload r"] \<open>row = r\<close>
      show ?thesis by auto
    qed
  next
    case False
    obtain ls where rest: "plan_rows ctx budget rows = (ls, items)" "lines = notice_text ctx r # ls"
      by (rule plan_rows_other [OF Cons.prems(1) False])
    from Cons.IH [OF rest(1)] Cons.prems(2-4) False rest(2) show ?thesis by auto
  qed
qed simp

lemma sublist_join: "l \<in> set ls \<Longrightarrow> sublist l (join sep ls)"
proof (induction sep ls rule: join.induct)
  case (3 sep x y ys)
  show ?case
  proof (cases "l = x")
    case True
    then show ?thesis by simp
  next
    case False
    with 3 have "sublist l (join sep (y # ys))" by simp
    then obtain a b where "join sep (y # ys) = a @ l @ b" by (auto simp: sublist_def)
    then have "join sep (x # y # ys) = (x @ sep @ a) @ l @ b" by simp
    then show ?thesis by (metis sublist_middle)
  qed
qed auto

text \<open>
  A notice tells the truth about what it shows: its items are the finished tasks in order, a task
  is marked fully shown only if its whole result is in the text, the results shown whole stay within
  the budgets, and when all results fit the budgets every one of them is shown whole.
\<close>

theorem notice_shows_results:
  assumes "plan_wake_notice ctx rows = (text, items)"
  shows "map ni_delegationId items = map (\<lambda>row. shown_field (ib_payload row) ''delegationId'') (task_rows rows) \<and>
    (\<forall>(i, row) \<in> set (zip items (task_rows rows)).
       ni_fullyShown i \<longrightarrow> length (body_of row) \<le> NOTICE_TASK_CHARS \<and> (is_blank (body_of row) \<or> sublist (body_of row) text)) \<and>
    (\<Sum>(i, row) \<leftarrow> zip items (task_rows rows). if ni_fullyShown i then length (body_of row) else 0) \<le> NOTICE_WAKE_CHARS \<and>
    ((\<forall>row \<in> set (task_rows rows). length (body_of row) \<le> NOTICE_TASK_CHARS) \<and>
       sum_list (map (length \<circ> body_of) (task_rows rows)) \<le> NOTICE_WAKE_CHARS \<longrightarrow> list_all ni_fullyShown items)"
proof -
  obtain ls where plan: "plan_rows ctx NOTICE_WAKE_CHARS rows = (ls, items)" "text = join (line_break @ line_break) ls"
    using assms by (auto simp: plan_wake_notice_def split: prod.splits)
  have "is_blank (body_of row) \<or> sublist (body_of row) text"
    if "(i, row) \<in> set (zip items (task_rows rows))" "ni_fullyShown i" for i row
    using plan_rows_shows [OF plan(1) that] sublist_join plan(2) sublist_order.order_trans by blast
  with plan_rows_tasks [OF plan(1)] plan_rows_budget [OF plan(1)] plan_rows_all_shown [OF plan(1)]
  show ?thesis by blast
qed

definition notice_example :: "inbox_record list" where
  "notice_example = [\<lparr>ib_inboxId = ''i'', ib_threadId = ''t'', ib_runId = None, ib_kind = ChildResult,
     ib_payload = JObj [(''childThreadId'', JStr ''c''), (''delegationId'', JStr ''d''),
       (''result'', JObj [(''runStatus'', JStr ''completed''), (''text'', JStr ''All tests pass.'')])],
     ib_status = IPending, ib_createdAt = 1, ib_deliveredBy = None\<rparr>]"

theorem notice_shows_results_witness:
  "\<exists>text items. plan_wake_notice (no_context []) notice_example = (text, items) \<and>
     list_all ni_fullyShown items \<and> map ni_delegationId items = [''d'']"
proof -
  obtain shown items where p: "plan_wake_notice (no_context []) notice_example = (shown, items)" by fastforce
  have e: "(\<forall>row \<in> set (task_rows notice_example). length (body_of row) \<le> NOTICE_TASK_CHARS) \<and>
    sum_list (map (length \<circ> body_of) (task_rows notice_example)) \<le> NOTICE_WAKE_CHARS \<and>
    map (\<lambda>row. shown_field (ib_payload row) ''delegationId'') (task_rows notice_example) = [''d'']"
    by code_simp
  from notice_shows_results [OF p] e p show ?thesis by auto
qed

end
