(* ===== verification/Wake.thy ===== *)
theory Wake
  imports Policy Notice TerminalLaws
begin

text \<open>
  Delivery of inbox rows (\<open>delegation/wake.ts\<close>, reconciler rule 4): an idle thread with pending rows
  gets one \<open>wake\<close> run whose \<open>turn.start\<close> effect delivers them, a live run that takes native steer
  gets one \<open>turn.steer\<close>; rows whose delivery failed go back to pending a bounded number of times.

  A \<open>job\<close> is code that runs outside a transaction and opens several of its own: what a step has
  committed stays committed when a later one throws.
\<close>

section \<open>Jobs\<close>

type_synonym 'a job = "store \<Rightarrow> (store_error + 'a) \<times> store"

text \<open>One transaction whose errors of the given codes are caught (the transaction is rolled back).\<close>

definition catching :: "store_error list \<Rightarrow> 'a run_txn \<Rightarrow> 'a option run_txn" where
  "catching codes m s = (case m s of
     Inl e \<Rightarrow> if e \<in> set codes then Inr (None, s) else Inl e
   | Inr (x, s') \<Rightarrow> Inr (Some x, s'))"

text \<open>A transaction as a whole job, and a loop with one transaction for each element.\<close>

definition commit :: "'a run_txn \<Rightarrow> 'a job" where
  "commit m s = (case m s of Inl e \<Rightarrow> (Inl e, s) | Inr (x, s') \<Rightarrow> (Inr x, s'))"

definition then_job :: "'a job \<Rightarrow> ('a \<Rightarrow> 'b job) \<Rightarrow> 'b job" where
  "then_job m f s = (case m s of (Inl e, s') \<Rightarrow> (Inl e, s') | (Inr x, s') \<Rightarrow> f x s')"

fun commit_each :: "'x list \<Rightarrow> ('x \<Rightarrow> 'a run_txn) \<Rightarrow> 'a list job" where
  "commit_each [] f s = (Inr [], s)"
| "commit_each (x # xs) f s =
     (case f x s of
        Inl e \<Rightarrow> (Inl e, s)
      | Inr (y, s1) \<Rightarrow>
          (case commit_each xs f s1 of
             (Inl e, s2) \<Rightarrow> (Inl e, s2)
           | (Inr ys, s2) \<Rightarrow> (Inr (y # ys), s2)))"

section \<open>Pending wakes\<close>

definition is_pending_wake :: "string option \<Rightarrow> effect_record \<Rightarrow> bool" where
  "is_pending_wake threadId e \<longleftrightarrow> ef_kind e = TurnStart \<and> ef_status e = EPending \<and>
     jfield (ef_payload e) ''kind'' = Some (JStr ''wake'') \<and>
     (case threadId of None \<Rightarrow> True | Some t \<Rightarrow> t = [] \<or> ef_threadId e = t)"

definition pending_wake_effects :: "string option \<Rightarrow> store \<Rightarrow> effect_record list" where
  "pending_wake_effects threadId s = filter (is_pending_wake threadId) (effects s)"

definition payload_inbox_ids :: "json \<Rightarrow> string list" where
  "payload_inbox_ids payload = jstrings (jfield payload ''inboxIds'')"

definition payload_run_id :: "json \<Rightarrow> string" where
  "payload_run_id payload = (case jstring (jfield payload ''runId'') of None \<Rightarrow> [] | Some r \<Rightarrow> r)"

definition wake_cancelled :: "effect_record \<Rightarrow> (string \<times> json) list \<Rightarrow> store \<Rightarrow> store" where
  "wake_cancelled e more_members s =
     append_event (ef_threadId e) (Some (payload_run_id (ef_payload e))) ''reconcile.wake_cancelled''
       (EvJson (JObj ([(''effectId'', JStr (ef_effectId e)), (''runId'', JStr (payload_run_id (ef_payload e))),
          (''inboxIds'', JArr (map JStr (payload_inbox_ids (ef_payload e))))] @ more_members))) s"

definition cancel_wake_run :: "nat \<Rightarrow> string \<Rightarrow> unit run_txn" where
  "cancel_wake_run now runId s =
     (case get_run runId s of
        None \<Rightarrow> Inr ((), s)
      | Some run \<Rightarrow>
          if rr_status run = RQueued
          then bindE (write_terminal_run run (int (rr_epoch run)) RCancelled None now None None) (\<lambda>_. retE ()) s
          else Inr ((), s))"

definition cancel_one_wake :: "nat \<Rightarrow> effect_record \<Rightarrow> string option run_txn" where
  "cancel_one_wake now e s =
     (if map_option ef_status (get_effect (ef_effectId e) s) \<noteq> Some EPending then Inr (None, s)
      else
        bindE (effect_cancel (ef_effectId e) now ''acknowledged_before_wake'' None) (\<lambda>_.
        bindE (cancel_wake_run now (payload_run_id (ef_payload e))) (\<lambda>_.
        bindE (modE (wake_cancelled e [])) (\<lambda>_.
        retE (Some (payload_run_id (ef_payload e)))))) s)"

definition all_acknowledged :: "effect_record \<Rightarrow> store \<Rightarrow> bool" where
  "all_acknowledged e s \<longleftrightarrow> (let rows = get_many (payload_inbox_ids (ef_payload e)) s in
     rows \<noteq> [] \<and> list_all (\<lambda>row. ib_status row = IAcknowledged) rows)"

text \<open>Inside a caller's transaction, and as a job of its own.\<close>

definition cancel_acknowledged_wakes_in :: "nat \<Rightarrow> string option \<Rightarrow> string list run_txn" where
  "cancel_acknowledged_wakes_in now threadId s =
     bindE (forE (pending_wake_effects threadId s)
              (\<lambda>e s. if all_acknowledged e s then cancel_one_wake now e s else Inr (None, s)))
       (\<lambda>rs. retE (somes rs)) s"

definition cancel_acknowledged_wakes :: "nat \<Rightarrow> string option \<Rightarrow> string list job" where
  "cancel_acknowledged_wakes now threadId s =
     then_job (commit_each (pending_wake_effects threadId s)
        (\<lambda>e s. if all_acknowledged e s
               then bindE (catching [StaleWrite, BadRequest] (cancel_one_wake now e))
                      (\<lambda>r. retE (case r of None \<Rightarrow> None | Some x \<Rightarrow> x)) s
               else Inr (None, s)))
       (\<lambda>rs. commit (retE (somes rs))) s"

definition cancel_queued_wake :: "nat \<Rightarrow> effect_record \<Rightarrow> string run_txn" where
  "cancel_queued_wake now e =
     bindE (effect_cancel (ef_effectId e) now ''thread_paused'' None) (\<lambda>_.
     bindE (cancel_wake_run now (payload_run_id (ef_payload e))) (\<lambda>_.
     bindE (release (payload_inbox_ids (ef_payload e)) (Some (ef_effectId e))) (\<lambda>_.
     bindE (modE (wake_cancelled e [(''reason'', JStr ''thread_paused'')])) (\<lambda>_.
     retE (payload_run_id (ef_payload e))))))"

definition cancel_queued_wakes :: "nat \<Rightarrow> string \<Rightarrow> string list run_txn" where
  "cancel_queued_wakes now threadId s =
     forE (pending_wake_effects (Some threadId) s) (cancel_queued_wake now) s"

definition has_queued_wake :: "string \<Rightarrow> store \<Rightarrow> bool" where
  "has_queued_wake threadId s =
     list_ex (\<lambda>r. rr_threadId r = threadId \<and> rr_status r = RQueued \<and> rr_source r = ''wake'') (runs s)"

section \<open>Redelivery\<close>

definition MAX_INBOX_REDELIVERIES :: int where
  "MAX_INBOX_REDELIVERIES = 3"

definition REDELIVERY_BACKOFF_BASE_MS :: nat where
  "REDELIVERY_BACKOFF_BASE_MS = 2000"

definition REDELIVERY_BACKOFF_MAX_MS :: nat where
  "REDELIVERY_BACKOFF_MAX_MS = 30000"

definition redelivery_delay_ms :: "int \<Rightarrow> nat" where
  "redelivery_delay_ms tries =
     (if tries \<le> 1 then 0
      else min (REDELIVERY_BACKOFF_BASE_MS * 2 ^ nat (tries - 2)) REDELIVERY_BACKOFF_MAX_MS)"

definition completed_or :: "nat option \<Rightarrow> nat \<Rightarrow> nat" where
  "completed_or at other = (case at of Some t \<Rightarrow> t | None \<Rightarrow> other)"

definition delivery_failure :: "effect_record \<Rightarrow> inbox_record \<Rightarrow> store \<Rightarrow> (nat \<times> string) option" where
  "delivery_failure e row s =
     (let run = get_run (case ef_runId e of None \<Rightarrow> [] | Some r \<Rightarrow> r) s;
          marks = jfield (ib_payload row) in
      if ef_status e = EFailed \<or> ef_status e = ECancelled
      then Some (completed_or (ef_completedAt e) (ef_updatedAt e),
             case ef_lastError e of
               Some err \<Rightarrow> err
             | None \<Rightarrow> ''delivery '' @ (if ef_status e = EFailed then ''failed'' else ''cancelled''))
      else if ef_kind e = TurnSteer \<and> ef_status e = ESucceeded \<and> map_option rr_status run = Some RCompleted \<and>
              marks ''steerHeldBy'' = Some (JStr (ef_effectId e)) \<and>
              marks ''steerTakenBy'' \<noteq> Some (JStr (ef_effectId e))
      then Some (completed_or (Option.bind run rr_completedAt) (ef_updatedAt e), ''the steer was never read'')
      else if ef_kind e \<noteq> TurnStart \<and> ef_kind e \<noteq> TurnSteer then None
      else case run of
        None \<Rightarrow> None
      | Some r \<Rightarrow>
          if \<not> terminal_run (rr_status r) \<or> rr_status r = RCompleted then None
          else if stopped_by_person (rr_outcome r) then None
          else Some (completed_or (rr_completedAt r) (ef_updatedAt e),
            case Option.bind (rr_outcome r) oc_error of
              Some err \<Rightarrow> err
            | None \<Rightarrow> ''the delivering run '' @ status_str (rr_status r)))"

text \<open>The delivery of a row gave up: the row keeps what happened and the owner is told.\<close>

definition give_up :: "inbox_record \<Rightarrow> int \<Rightarrow> string \<Rightarrow> unit run_txn" where
  "give_up row tries error =
     bindE (patch_payload (ib_inboxId row) [(''deliveryFailed'', JBool True), (''attempts'', JNum tries),
        (''lastError'', JStr error)]) (\<lambda>_.
     modE (append_event (ib_threadId row) (ib_runId row) ''reconcile.delivery_failed''
       (EvJson (JObj [(''inboxId'', JStr (ib_inboxId row)),
          (''delegationId'', case jfield (ib_payload row) ''delegationId'' of None \<Rightarrow> JNull | Some v \<Rightarrow> v),
          (''attempts'', JNum tries), (''lastError'', JStr error)]))))"

definition restore_row :: "nat option \<Rightarrow> inbox_record \<Rightarrow> string option run_txn" where
  "restore_row now row s =
     (case Option.bind (ib_deliveredBy row) (\<lambda>by. get_effect by s) of
        None \<Rightarrow> Inr (None, s)
      | Some e \<Rightarrow>
          (case delivery_failure e row s of
             None \<Rightarrow> Inr (None, s)
           | Some (failedAt, error) \<Rightarrow>
               if is_exhausted_row row then Inr (None, s)
               else
                 let tries = pending_count (ib_inboxId row) (ib_threadId row) s in
                 if MAX_INBOX_REDELIVERIES < tries
                 then bindE (give_up row tries error) (\<lambda>_. retE None) s
                 else if (case now of None \<Rightarrow> False
                            | Some t \<Rightarrow> int t - int failedAt < int (redelivery_delay_ms tries))
                 then Inr (None, s)
                 else bindE (mark_pending_again [ib_inboxId row]) (\<lambda>_. retE (Some (ib_inboxId row))) s))"

definition restore_undelivered_rows :: "nat option \<Rightarrow> string list run_txn" where
  "restore_undelivered_rows now s =
     bindE (forE (list_delivered_with_effect s) (restore_row now)) (\<lambda>rs. retE (somes rs)) s"

section \<open>Waking and steering\<close>

definition wants_steer :: "inbox_record \<Rightarrow> store \<Rightarrow> bool" where
  "wants_steer row s =
     (if ib_kind row \<noteq> ChildResult then True
      else map_option dg_wake (Option.bind (jstring (jfield (ib_payload row) ''delegationId''))
             (\<lambda>i. get_delegation i s)) = Some WakeAlways)"

datatype woken = Woke string | Steered string

definition row_ids :: "inbox_record list \<Rightarrow> string list" where
  "row_ids rows = map ib_inboxId rows"

definition wake_payload :: "string \<Rightarrow> string \<Rightarrow> inbox_record list \<Rightarrow> json" where
  "wake_payload threadId runId rows = JObj [(''kind'', JStr ''wake''), (''threadId'', JStr threadId),
     (''runId'', JStr runId), (''inboxIds'', JArr (map JStr (row_ids rows)))]"

definition wake_run_input :: "string \<Rightarrow> inbox_record list \<Rightarrow> nat option \<Rightarrow> run_input" where
  "wake_run_input threadId rows hops =
     \<lparr>ri_threadId = threadId, ri_source = ''wake'',
      ri_clientRequestId = Some (''wake:'' @ (case rows of [] \<Rightarrow> [] | r # _ \<Rightarrow> ib_inboxId r)),
      ri_userMessageId = None, ri_requestedAt = None,
      ri_outcome = (case hops of None \<Rightarrow> None | Some n \<Rightarrow> Some (empty_outcome\<lparr>oc_agentHops := Some n\<rparr>))\<rparr>"

definition start_wake :: "string \<Rightarrow> inbox_record list \<Rightarrow> woken option run_txn" where
  "start_wake threadId rows s =
     (case inherited_agent_hops threadId ''wake'' None s of
        Inl e \<Rightarrow> Inl e
      | Inr hops \<Rightarrow>
          bindE (create_run (wake_run_input threadId rows hops)) (\<lambda>run.
          let payload = wake_payload threadId (rr_runId run) rows in
          bindE (enqueue \<lparr>ei_effectId = None, ei_threadId = threadId, ei_runId = Some (rr_runId run),
              ei_kind = TurnStart, ei_payload = payload, ei_availableAt = None\<rparr>) (\<lambda>wake.
          bindE (mark_delivered (row_ids rows) (Some (ef_effectId wake))) (\<lambda>_.
          bindE (modE (append_event threadId (Some (rr_runId run)) ''reconcile.wake'' (EvJson payload))) (\<lambda>_.
          retE (Some (Woke (rr_runId run))))))) s)"

text \<open>\<open>caps_for\<close> is the host's callback: \<open>None\<close> is a callback that throws.\<close>

type_synonym capabilities_for = "string \<Rightarrow> capabilities option option"

definition start_steer :: "string \<Rightarrow> string \<Rightarrow> run_record \<Rightarrow> inbox_record list \<Rightarrow> woken option run_txn" where
  "start_steer ellipsis threadId active rows =
     bindE (enqueue \<lparr>ei_effectId = None, ei_threadId = threadId, ei_runId = Some (rr_runId active),
         ei_kind = TurnSteer,
         ei_payload = JObj [(''runId'', JStr (rr_runId active)), (''threadId'', JStr threadId),
           (''text'', JStr (format_wake_notice (no_context ellipsis) rows)),
           (''inboxIds'', JArr (map JStr (row_ids rows)))],
         ei_availableAt = None\<rparr>) (\<lambda>e.
     bindE (mark_delivered (row_ids rows) (Some (ef_effectId e))) (\<lambda>_.
     bindE (modE (append_event threadId (Some (rr_runId active)) ''reconcile.wake_steer''
       (EvJson (JObj [(''effectId'', JStr (ef_effectId e)), (''inboxIds'', JArr (map JStr (row_ids rows)))])))) (\<lambda>_.
     retE (Some (Steered (ef_effectId e))))))"

definition steer_active :: "string \<Rightarrow> capabilities_for \<Rightarrow> string \<Rightarrow> run_record \<Rightarrow> inbox_record list \<Rightarrow> woken option run_txn" where
  "steer_active ellipsis caps_for threadId active rows s =
     (if Option.bind (rr_outcome active) oc_stopRequested = Some True then Inr (None, s)
      else case caps_for threadId of
        None \<Rightarrow> Inl Internal
      | Some None \<Rightarrow> Inr (None, s)
      | Some (Some caps) \<Rightarrow>
          if steer_strategy caps (Some active) \<noteq> StNative then Inr (None, s)
          else if \<not> list_all (\<lambda>row. wants_steer row s) rows then Inr (None, s)
          else start_steer ellipsis threadId active rows s)"

definition deliver_rows :: "string \<Rightarrow> capabilities_for \<Rightarrow> string \<Rightarrow> inbox_record list \<Rightarrow> woken option run_txn" where
  "deliver_rows ellipsis caps_for threadId rows s =
     (if rows = [] then Inr (None, s)
      else case get_paused_run threadId s of
        Inl e \<Rightarrow> Inl e
      | Inr (Some _) \<Rightarrow> Inr (None, s)
      | Inr None \<Rightarrow>
          (case get_active_run threadId s of
             Inl e \<Rightarrow> Inl e
           | Inr None \<Rightarrow> if has_queued_wake threadId s then Inr (None, s) else start_wake threadId rows s
           | Inr (Some active) \<Rightarrow> steer_active ellipsis caps_for threadId active rows s))"

definition wake_thread :: "string \<Rightarrow> capabilities_for \<Rightarrow> string \<Rightarrow> woken option run_txn" where
  "wake_thread ellipsis caps_for threadId s =
     (let pending = list_pending threadId s;
          retired = filter is_retired_inbox_row pending;
          rows = filter (\<lambda>row. \<not> is_retired_inbox_row row) pending in
      bindE (whenE (retired \<noteq> []) (bindE (mark_acknowledged (row_ids retired)) (\<lambda>_. retE ()))) (\<lambda>_.
        deliver_rows ellipsis caps_for threadId rows) s)"

record wake_report =
  wr_wakes :: "string list"
  wr_steers :: "string list"
  wr_cancelled :: "string list"
  wr_restored :: "string list"

fun woken_runs :: "woken \<Rightarrow> string option" where
  "woken_runs (Woke r) = Some r"
| "woken_runs (Steered e) = None"

fun woken_steers :: "woken \<Rightarrow> string option" where
  "woken_steers (Woke r) = None"
| "woken_steers (Steered e) = Some e"

definition wake_threads :: "string \<Rightarrow> capabilities_for \<Rightarrow> nat \<Rightarrow> wake_report job" where
  "wake_threads ellipsis caps_for now =
     then_job (commit (restore_undelivered_rows (Some now))) (\<lambda>restored.
     then_job (cancel_acknowledged_wakes now None) (\<lambda>cancelled s.
     then_job (commit_each (list_threads_with_pending s)
                (\<lambda>t. catching [StaleWrite, Conflict] (wake_thread ellipsis caps_for t))) (\<lambda>rs.
     commit (retE (let done = somes (map (\<lambda>r. Option.bind r id) rs) in
       \<lparr>wr_wakes = List.map_filter woken_runs done, wr_steers = List.map_filter woken_steers done,
        wr_cancelled = cancelled, wr_restored = restored\<rparr>))) s))"

section \<open>Boot\<close>

definition recover_wake :: "nat \<Rightarrow> run_record \<Rightarrow> string option run_txn" where
  "recover_wake now run s =
     (let starts = filter (\<lambda>e. ef_kind e = TurnStart) (effects_for_run (rr_runId run) s) in
      if list_ex (\<lambda>e. ef_status e = EPending \<or> ef_status e = ERunning) starts then Inr (None, s)
      else
        bindE (write_terminal_run run (int (rr_epoch run)) RCancelled
          (Some (empty_outcome\<lparr>oc_interruptedBy := Some ByDaemonRestart\<rparr>)) now None None) (\<lambda>_.
        bindE (mark_pending_again (concat (map (\<lambda>e. if is_wake_turn_payload (ef_payload e)
            then payload_inbox_ids (ef_payload e) else []) starts))) (\<lambda>_.
        retE (Some (rr_runId run)))) s)"

definition recover_wakes_on_boot :: "nat \<Rightarrow> string list run_txn" where
  "recover_wakes_on_boot now s =
     bindE (forE (filter (\<lambda>r. rr_status r = RQueued \<and> rr_source r = ''wake'') (list_non_terminal_runs s))
              (recover_wake now)) (\<lambda>rs.
     bindE (restore_undelivered_rows None) (\<lambda>_. retE (somes rs))) s"

end
