(* ===== verification/Restore.thy ===== *)
theory Restore
  imports Wake
begin

text \<open>
  What rule 4 promises about rows whose delivery failed: each goes back to pending, or its delivery is
  given up for good, and no other row is touched.
\<close>

section \<open>A row nobody touches\<close>

text \<open>The other rows of an inbox operation: unchanged, with the same count of deliveries.\<close>

definition untouched :: "string \<Rightarrow> store \<Rightarrow> store \<Rightarrow> bool" where
  "untouched j s s' \<longleftrightarrow> runs s' = runs s \<and> effects s' = effects s \<and>
     (\<forall>r. get_inbox j s = Some r \<longrightarrow>
        get_inbox j s' = Some r \<and> (\<forall>t. pending_events j t s' = pending_events j t s))"

interpretation untouched: preorder_relation "untouched j"
  by unfold_locales (simp_all add: untouched_def)

lemma pending_events_append:
  "pending_events j t (append_event t' r ty p s) =
     pending_events j t s + (if t' = t \<and> ty = ''inbox.status'' \<and> is_pending_event j p then 1 else 0)"
  by (simp add: pending_events_def append_event_def)

lemma pending_events_cong: "events s' = events s \<Longrightarrow> pending_events j t s' = pending_events j t s"
  by (simp add: pending_events_def)

lemma not_pending_event [simp]:
  "is_pending_event j (EvDelegation d) = False" "is_pending_event j (EvJson v) = False"
  "is_pending_event j (EvInbox r ChangePayload) = False"
  by simp_all

lemma untouched_publishing:
  assumes "publishing s s'"
  shows "untouched j s s'"
  using assms
proof (induction rule: publishing.induct)
  case (publishing_queue s s' q)
  moreover have "untouched j s' (s'\<lparr>settle_queue := q\<rparr>)"
    by (simp add: untouched_def get_inbox_def pending_events_def)
  ultimately show ?case by (blast intro: untouched.trans)
next
  case (publishing_step s s' d r p s'')
  obtain row s1 where run: "inbox_append (dg_parentThreadId d) (Some (dg_parentRunId d)) ChildResult
        (child_result_payload d r) None s' = Inr (row, s1)"
      "set_delegation_status enqueue_settle (dg_delegationId d) DRunning
        (if dr_runStatus r = RCompleted then DResultAvailable else DFailed) (Some (Some r)) (Some (Some (clock s1))) s1 = Inr (p, s'')"
    using publishing_step.hyps(3) by (auto simp: publish_def split: if_splits sum.splits)
  have new: "inbox s1 = inbox s' @ [row]" "get_inbox (ib_inboxId row) s' = None"
    "events s1 = events s' @ [\<lparr>ev_seq = next_seq s', ev_threadId = ib_threadId row, ev_runId = ib_runId row,
       ev_type = ''inbox.status'', ev_payload = EvInbox row ChangeStatus, ev_createdAt = clock s'\<rparr>]"
    using run(1) by (auto simp: inbox_append_def inbox_recorded_def append_event_def Let_def split: if_splits)
  obtain current :: delegation_record where "let s2 = delegation_recorded p (s1\<lparr>delegations := update_rows
           (\<lambda>x. dg_delegationId x = dg_delegationId d \<and> dg_status x = DRunning)
           (\<lambda>x. x\<lparr>dg_status := dg_status p, dg_result := dg_result p, dg_completedAt := dg_completedAt p\<rparr>)
           (delegations s1)\<rparr>)
     in if DRunning = DRunning then enqueue_settle (dg_parentThreadId current) s2 = Inr s'' else s'' = s2"
    by (rule set_delegation_status_Inr [OF run(2)]) (rule that, assumption)
  then obtain q ds where s'': "s'' = (delegation_recorded p (s1\<lparr>delegations := ds\<rparr>))\<lparr>settle_queue := q\<rparr>"
    by (auto simp: Let_def elim: enqueue_settle_Inr)
  have fr: "runs s'' = runs s'" "effects s'' = effects s'"
    using publishing_frame [OF publishing.publishing_step [OF publishing.publishing_refl publishing_step.hyps(2,3)]]
    by simp_all
  have "untouched j s' s''"
    unfolding untouched_def
  proof (intro conjI allI impI fr)
    fix x assume x: "get_inbox j s' = Some x"
    with new(1) show "get_inbox j s'' = Some x"
      by (simp add: s'' delegation_recorded_def get_inbox_def lookup_row_append)
    have "ib_inboxId row \<noteq> j" using x new(2) by auto
    then have "pending_events j t s1 = pending_events j t s'" for t
      by (simp add: pending_events_def new(3))
    moreover have "pending_events j t s'' = pending_events j t s1" for t
    proof -
      have "pending_events j t s'' = pending_events j t (delegation_recorded p (s1\<lparr>delegations := ds\<rparr>))"
        by (simp add: s'' pending_events_def)
      also have "\<dots> = pending_events j t (s1\<lparr>delegations := ds\<rparr>)"
        by (simp add: delegation_recorded_def pending_events_append)
      also have "\<dots> = pending_events j t s1" by (simp add: pending_events_def)
      finally show ?thesis .
    qed
    ultimately show "pending_events j t s'' = pending_events j t s'" for t by simp
  qed
  with publishing_step.IH show ?case by (rule untouched.trans)
qed (simp add: untouched.refl)

lemma untouched_recorded:
  assumes "i \<noteq> j" "ib_inboxId x = i" "\<And>r. ib_inboxId (f r) = ib_inboxId r" "\<And>r. P r \<Longrightarrow> ib_inboxId r = i"
  shows "untouched j s (inbox_recorded x c (s\<lparr>inbox := update_rows P f (inbox s)\<rparr>))"
proof -
  have "get_inbox j s = Some r \<Longrightarrow> get_inbox j (s\<lparr>inbox := update_rows P f (inbox s)\<rparr>) = Some r" for r
    using assms lookup_row_Some [of ib_inboxId j "inbox s" r]
    by (auto simp: get_inbox_def lookup_row_update)
  moreover have "\<not> is_pending_event j (EvInbox x c)"
    using assms(1,2) by (cases c) auto
  ultimately show ?thesis
    by (auto simp: untouched_def inbox_recorded_def get_inbox_def pending_events_append)
      (simp_all add: pending_events_def)
qed

lemma move_row_untouched:
  assumes "i \<noteq> j"
  shows "always (untouched j) (move_row to from by i)"
proof (rule alwaysI)
  fix s x s' assume run: "move_row to from by i s = Inr (x, s')"
  show "untouched j s s'"
  proof (cases "get_inbox i s")
    case None
    with run show ?thesis by (simp add: move_row_def)
  next
    case (Some c)
    with run get_inbox_id [OF Some] assms show ?thesis
      by (auto simp: move_row_def Let_def untouched.refl split: if_splits intro!: untouched_recorded)
  qed
qed

lemma settle_untouched: "always (untouched j) (settle_txn t)" "always (untouched j) (settle_moved rows)"
  by (auto intro!: alwaysI untouched_publishing intro: settle_txn_publishing settle_moved_publishing)

lemma inbox_move_untouched: "j \<notin> set ids \<Longrightarrow> always (untouched j) (inbox_move ids to from by)"
proof (rule alwaysI)
  fix s x s' assume j: "j \<notin> set ids" and run: "inbox_move ids to from by s = Inr (x, s')"
  obtain ys s1 where s1: "forE ids (move_row to from by) s = Inr (ys, s1)" "settle_moved (somes ys) s1 = Inr (x, s')"
    using run by (auto simp: inbox_move_def bindE_Inr)
  have "untouched j s s1"
    by (rule forE_induct_state [OF _ _ s1(1), where P = "untouched j s"])
      (use j in \<open>auto simp: untouched.refl intro: untouched.trans alwaysD [OF move_row_untouched]\<close>)
  with alwaysD [OF settle_untouched(2) s1(2)] show "untouched j s s'" by (blast intro: untouched.trans)
qed

lemma patch_payload_untouched: "i \<noteq> j \<Longrightarrow> always (untouched j) (patch_payload i patch)"
proof (rule alwaysI)
  fix s x s' assume j: "i \<noteq> j" and run: "patch_payload i patch s = Inr (x, s')"
  obtain c where c: "get_inbox i s = Some c" using run by (auto simp: patch_payload_def split: option.splits)
  let ?p = "stored (JObj (jpatch (jmembers (ib_payload c)) patch))"
  let ?s1 = "inbox_recorded (c\<lparr>ib_payload := ?p\<rparr>) ChangePayload
      (s\<lparr>inbox := update_rows (\<lambda>r. ib_inboxId r = i) (\<lambda>r. r\<lparr>ib_payload := ?p\<rparr>) (inbox s)\<rparr>)"
  have "untouched j s ?s1"
    by (rule untouched_recorded) (use j get_inbox_id [OF c] in auto)
  moreover have "publishing ?s1 s'"
    using run c settle_txn_publishing by (auto simp: patch_payload_def Let_def bindE_Inr)
  ultimately show "untouched j s s'" by (blast intro: untouched.trans untouched_publishing)
qed

lemma append_json_untouched: "always (untouched j) (modE (append_event t r ty (EvJson v)))"
  by (auto intro!: alwaysI simp: untouched_def get_inbox_def pending_events_append)


section \<open>The row itself\<close>

lemma map_of_filter_key: "map_of (filter (\<lambda>kv. fst kv = k) kvs) k = map_of kvs k"
  by (induction kvs) auto

lemma map_of_sort_key: "map_of (sort_key fst kvs) k = map_of kvs k"
  using sort_key_stable [of fst k kvs] by (metis map_of_filter_key)

lemma jfield_stored:
  assumes "map_of kvs k = Some v" "canon v = Some w"
  shows "jfield (stored (JObj kvs)) k = Some w"
proof -
  have "map_of (List.map_filter (\<lambda>kv. map_option (Pair (fst kv)) (canon (snd kv))) xs) k = Some w"
    if "map_of xs k = Some v" for xs
    using that by (induction xs) (auto simp: map_filter_simps assms(2) split: option.splits if_splits)
  then show ?thesis
    using assms(1) by (simp add: stored_def canon_object map_of_sort_key del: canon.simps)
qed

lemma move_row_run:
  assumes "inbox_ok s" "get_inbox i s = Some r" "ib_status r \<in> set from" "to \<in> set (inbox_moves (ib_status r))"
  shows "\<exists>s'. move_row to from by i s = Inr (Some (r\<lparr>ib_status := to, ib_deliveredBy := patched by (ib_deliveredBy r)\<rparr>), s') \<and>
    get_inbox i s' = Some (r\<lparr>ib_status := to, ib_deliveredBy := patched by (ib_deliveredBy r)\<rparr>)"
proof -
  let ?P = "\<lambda>x. ib_inboxId x = i \<and> ib_status x = ib_status r"
  have "changes ?P (inbox s) = 1"
    by (rule changes_unique [of ib_inboxId _ r]) (use assms(1) get_inbox_id [OF assms(2)] in \<open>auto simp: inbox_ok_def\<close>)
  moreover have "lookup_row ib_inboxId i (update_rows ?P
      (\<lambda>x. x\<lparr>ib_status := to, ib_deliveredBy := patched by (ib_deliveredBy r)\<rparr>) (inbox s)) =
      Some (r\<lparr>ib_status := to, ib_deliveredBy := patched by (ib_deliveredBy r)\<rparr>)"
    using assms(2) get_inbox_id [OF assms(2)] by (simp add: lookup_row_update get_inbox_def)
  ultimately show ?thesis
    using assms by (simp add: move_row_def Let_def inbox_recorded_def get_inbox_def)
qed

lemma mark_pending_row:
  assumes ok: "outbox_ok s" and r: "get_inbox i s = Some r" "ib_status r = IDelivered"
  shows "\<exists>x s'. mark_pending_again [i] s = Inr (x, s') \<and> outbox_ok s' \<and>
    get_inbox i s' = Some (r\<lparr>ib_status := IPending, ib_deliveredBy := None\<rparr>)"
proof -
  have h: "held {} s" "inbox_ok s" using ok by (simp_all add: outbox_ok_def held_def)
  have "\<exists>x s'. mark_pending_again [i] s = Inr (x, s')"
    unfolding move_defs by (rule inbox_move_total [OF h(1)]) (use r(1) in simp)
  then obtain x s' where run: "mark_pending_again [i] s = Inr (x, s')" by blast
  obtain s1 where s1: "move_row IPending [IDelivered] (Some None) i s = Inr (Some (r\<lparr>ib_status := IPending, ib_deliveredBy := None\<rparr>), s1)"
    "get_inbox i s1 = Some (r\<lparr>ib_status := IPending, ib_deliveredBy := None\<rparr>)"
    using move_row_run [OF h(2) r(1), of "[IDelivered]" IPending "Some None"] r(2) by (auto simp: patched_def)
  have "settle_moved [r\<lparr>ib_status := IPending, ib_deliveredBy := None\<rparr>] s1 = Inr (x, s')"
    using run s1(1) by (simp add: move_defs inbox_move_def bindE_run(1) somes_def map_filter_simps bindE_Inr)
  with alwaysD [OF settle_untouched(2)] s1(2)
  have "get_inbox i s' = Some (r\<lparr>ib_status := IPending, ib_deliveredBy := None\<rparr>)"
    by (auto simp: untouched_def)
  with run outbox_ok_step [OF alwaysD [OF moves_always(5) run] ok keepsD [OF moves_held(3) run h(1)]] show ?thesis
    by blast
qed

lemma patch_row:
  assumes ok: "outbox_ok s" and r: "get_inbox i s = Some r"
  shows "\<exists>x s'. patch_payload i p s = Inr (x, s') \<and> outbox_ok s' \<and>
    get_inbox i s' = Some (r\<lparr>ib_payload := stored (JObj (jpatch (jmembers (ib_payload r)) p))\<rparr>)"
proof -
  let ?p = "stored (JObj (jpatch (jmembers (ib_payload r)) p))"
  let ?s1 = "inbox_recorded (r\<lparr>ib_payload := ?p\<rparr>) ChangePayload
      (s\<lparr>inbox := update_rows (\<lambda>r. ib_inboxId r = i) (\<lambda>r. r\<lparr>ib_payload := ?p\<rparr>) (inbox s)\<rparr>)"
  have h: "held {} s" using ok by (simp add: outbox_ok_def)
  have "writes_inbox {ib_threadId r} s ?s1"
    using row_thread [OF _ r] h by (auto simp: held_def intro!: writes_inbox_update)
  then have "task_ok ?s1" using h by (simp add: held_def writes_inbox_ok)
  then obtain s' where "settle_hold (ib_threadId r) ?s1 = Inr s'" using holding.settle_total by blast
  then have st: "settle_txn (ib_threadId r) ?s1 = Inr ((), s')" by (simp add: settle_txn_def)
  then have run: "patch_payload i p s = Inr (r\<lparr>ib_payload := ?p\<rparr>, s')"
    using r by (simp add: patch_payload_def Let_def bindE_run(1) retE_def)
  have "get_inbox i ?s1 = Some (r\<lparr>ib_payload := ?p\<rparr>)"
    using r get_inbox_id [OF r] by (simp add: get_inbox_def inbox_recorded_def lookup_row_update)
  with alwaysD [OF settle_untouched(1) st] have "get_inbox i s' = Some (r\<lparr>ib_payload := ?p\<rparr>)"
    by (auto simp: untouched_def)
  with run outbox_ok_step [OF alwaysD [OF patch_payload_always(2) run] ok keepsD [OF patch_payload_held run h]] show ?thesis
    by blast
qed

lemma outbox_ok_append [simp]: "outbox_ok (append_event t r ty (EvJson v) s) = outbox_ok s"
proof -
  have a: "same_hold_inputs s (append_event t r ty (EvJson v) s)"
    by (simp add: same_hold_inputs_def)
  have "delivered_locally row (append_event t r ty (EvJson v) s) = delivered_locally row s" for row
    by (rule delivered_locally_cong) simp_all
  with all_settled_same [OF a] show ?thesis
    by (simp add: outbox_ok_def held_def settled_except_empty task_ok_def fresh_uuids_def inbox_ok_def effect_ok_def
        delivery_local_def)
qed

lemma give_up_row:
  assumes ok: "outbox_ok s" and r: "get_inbox i s = Some r" "ib_inboxId row = i"
  shows "\<exists>s' r'. give_up row tries err s = Inr ((), s') \<and> outbox_ok s' \<and> get_inbox i s' = Some r' \<and>
    is_exhausted_row r' \<and> ib_status r' = ib_status r"
proof -
  let ?patch = "[(''deliveryFailed'', JBool True), (''attempts'', JNum tries), (''lastError'', JStr err)]"
  obtain x s1 where s1: "patch_payload i ?patch s = Inr (x, s1)" "outbox_ok s1"
    "get_inbox i s1 = Some (r\<lparr>ib_payload := stored (JObj (jpatch (jmembers (ib_payload r)) ?patch))\<rparr>)"
    using patch_row [OF ok r(1)] by blast
  have "map_of (jpatch (jmembers (ib_payload r)) ?patch) ''deliveryFailed'' = Some (JBool True)"
    by (subst jfield_jpatch) simp_all
  then have "jfield (stored (JObj (jpatch (jmembers (ib_payload r)) ?patch))) ''deliveryFailed'' = Some (JBool True)"
    by (rule jfield_stored) simp
  with s1 r(2) show ?thesis
    by (simp add: give_up_def bindE_run(1) modE_def is_exhausted_row_def get_inbox_def)
qed


section \<open>One row, then all of them\<close>

text \<open>What happens to a row: left alone, given back, or given up.\<close>

datatype redelivery = LeaveRow | GiveBack | GiveUp int string

definition redelivery_of :: "nat option \<Rightarrow> inbox_record \<Rightarrow> store \<Rightarrow> redelivery" where
  "redelivery_of now row s =
     (case Option.bind (ib_deliveredBy row) (\<lambda>by. get_effect by s) of
        None \<Rightarrow> LeaveRow
      | Some e \<Rightarrow>
          (case delivery_failure e row s of
             None \<Rightarrow> LeaveRow
           | Some (failedAt, error) \<Rightarrow>
               if is_exhausted_row row then LeaveRow
               else
                 let tries = pending_count (ib_inboxId row) (ib_threadId row) s in
                 if MAX_INBOX_REDELIVERIES < tries then GiveUp tries error
                 else if (case now of None \<Rightarrow> False
                            | Some t \<Rightarrow> int t - int failedAt < int (redelivery_delay_ms tries)) then LeaveRow
                 else GiveBack))"

definition redelivered :: "redelivery \<Rightarrow> inbox_record \<Rightarrow> inbox_record \<Rightarrow> bool" where
  "redelivered what row row' \<longleftrightarrow>
     (case what of
        LeaveRow \<Rightarrow> row' = row
      | GiveBack \<Rightarrow> row' = row\<lparr>ib_status := IPending, ib_deliveredBy := None\<rparr>
      | GiveUp tries error \<Rightarrow> is_exhausted_row row' \<and> ib_status row' = ib_status row)"

lemma restore_row_cases:
  "restore_row now row =
     (\<lambda>s. case redelivery_of now row s of
        LeaveRow \<Rightarrow> Inr (None, s)
      | GiveUp tries error \<Rightarrow> bindE (give_up row tries error) (\<lambda>_. retE None) s
      | GiveBack \<Rightarrow> bindE (mark_pending_again [ib_inboxId row]) (\<lambda>_. retE (Some (ib_inboxId row))) s)"
  by (auto simp: fun_eq_iff restore_row_def redelivery_of_def Let_def split: option.split)

lemma restore_row_untouched: "ib_inboxId row \<noteq> j \<Longrightarrow> always (untouched j) (restore_row now row)"
proof (rule alwaysI)
  fix s x s' assume j: "ib_inboxId row \<noteq> j" and run: "restore_row now row s = Inr (x, s')"
  have "always (untouched j) (bindE (give_up row tries error) (\<lambda>_. retE (None :: string option)))" for tries error
    unfolding give_up_def
    by (intro untouched.always_bind patch_payload_untouched append_json_untouched untouched.always_ret j)
  moreover have "always (untouched j) (bindE (mark_pending_again [ib_inboxId row]) (\<lambda>_. retE (Some (ib_inboxId row))))"
    unfolding move_defs
    by (intro untouched.always_bind inbox_move_untouched untouched.always_ret) (use j in simp)
  ultimately show "untouched j s s'"
    using run untouched.refl by (auto simp: restore_row_cases always_def split: redelivery.splits)
qed

lemma restore_row_run:
  assumes ok: "outbox_ok s" and row: "get_inbox (ib_inboxId row) s = Some row" "ib_status row = IDelivered"
  shows "\<exists>s' row'. restore_row now row s =
      Inr (if redelivery_of now row s = GiveBack then Some (ib_inboxId row) else None, s') \<and> outbox_ok s' \<and>
      get_inbox (ib_inboxId row) s' = Some row' \<and> redelivered (redelivery_of now row s) row row' \<and>
      runs s' = runs s \<and> effects s' = effects s"
proof (cases "redelivery_of now row s")
  case LeaveRow
  with ok row show ?thesis by (simp add: restore_row_cases redelivered_def)
next
  case GiveBack
  obtain x s' where s': "mark_pending_again [ib_inboxId row] s = Inr (x, s')" "outbox_ok s'"
    "get_inbox (ib_inboxId row) s' = Some (row\<lparr>ib_status := IPending, ib_deliveredBy := None\<rparr>)"
    using mark_pending_row [OF ok row] by blast
  with GiveBack alwaysD [OF moves_always(5) s'(1)] show ?thesis
    by (simp add: restore_row_cases bindE_run(1) retE_def redelivered_def owners_kept_def)
next
  case (GiveUp tries error)
  obtain s' r' where s': "give_up row tries error s = Inr ((), s')" "outbox_ok s'"
    "get_inbox (ib_inboxId row) s' = Some r'" "is_exhausted_row r'" "ib_status r' = ib_status row"
    using give_up_row [OF ok row(1) refl] by blast
  have "always inbox_evolves (patch_payload i p)" "always inbox_evolves (modE (append_event t r ty (EvJson v)))" for i p t r ty v
    using patch_payload_always(1) by (auto intro!: alwaysI simp: inbox_evolves_def get_inbox_def)
  then have "always inbox_evolves (give_up row tries error)"
    unfolding give_up_def by (intro evolving.always_bind)
  with s'(1) have "runs s' = runs s" "effects s' = effects s"
    by (auto simp: inbox_evolves_def dest: alwaysD)
  with s' GiveUp show ?thesis
    by (auto simp: restore_row_cases bindE_run(1) retE_def redelivered_def)
qed

lemma untouched_redelivery:
  assumes "untouched (ib_inboxId row) s s'" "get_inbox (ib_inboxId row) s = Some row"
  shows "redelivery_of now row s' = redelivery_of now row s"
proof -
  have u: "runs s' = runs s" "effects s' = effects s" "get_inbox (ib_inboxId row) s' = Some row"
    "\<And>t. pending_events (ib_inboxId row) t s' = pending_events (ib_inboxId row) t s"
    using assms by (auto simp: untouched_def)
  have "delivery_failure e row s' = delivery_failure e row s" for e
    using u(1) by (simp add: delivery_failure_def get_run_def)
  moreover have "get_effect i s' = get_effect i s" for i
    using u(2) by (simp add: get_effect_def)
  moreover have "pending_count (ib_inboxId row) t s' = pending_count (ib_inboxId row) t s" for t
    using u(3,4) assms(2) by (simp add: pending_count_def)
  ultimately show ?thesis unfolding redelivery_of_def by (simp only:)
qed

lemma restore_rows_run:
  assumes "outbox_ok s" "distinct (map ib_inboxId rows)"
    and "\<forall>row \<in> set rows. get_inbox (ib_inboxId row) s = Some row \<and> ib_status row = IDelivered"
  shows "\<exists>xs s'. forE rows (restore_row now) s = Inr (xs, s') \<and> outbox_ok s' \<and>
    somes xs = map ib_inboxId (filter (\<lambda>row. redelivery_of now row s = GiveBack) rows) \<and>
    (\<forall>row \<in> set rows. \<exists>row'. get_inbox (ib_inboxId row) s' = Some row' \<and> redelivered (redelivery_of now row s) row row') \<and>
    (\<forall>j. j \<notin> ib_inboxId ` set rows \<longrightarrow> untouched j s s') \<and> runs s' = runs s \<and> effects s' = effects s"
  using assms
proof (induction rows arbitrary: s)
  case Nil
  then show ?case by (simp add: somes_def map_filter_simps untouched.refl)
next
  case (Cons row rows)
  have head: "get_inbox (ib_inboxId row) s = Some row" "ib_status row = IDelivered"
    using Cons.prems(3) by simp_all
  note ex = restore_row_run [OF Cons.prems(1) head, of now]
  then obtain s1 where ex1: "\<exists>row1. restore_row now row s =
      Inr (if redelivery_of now row s = GiveBack then Some (ib_inboxId row) else None, s1) \<and> outbox_ok s1 \<and>
      get_inbox (ib_inboxId row) s1 = Some row1 \<and> redelivered (redelivery_of now row s) row row1 \<and>
      runs s1 = runs s \<and> effects s1 = effects s" by (rule exE)
  then obtain row1 where s1: "restore_row now row s =
      Inr (if redelivery_of now row s = GiveBack then Some (ib_inboxId row) else None, s1)" "outbox_ok s1"
      "get_inbox (ib_inboxId row) s1 = Some row1" "redelivered (redelivery_of now row s) row row1"
      "runs s1 = runs s" "effects s1 = effects s"
    by (elim exE conjE)
  have u1: "untouched j s s1" if "ib_inboxId row \<noteq> j" for j
    by (rule alwaysD [OF restore_row_untouched [OF that] s1(1)])
  have rest: "untouched (ib_inboxId r) s s1" "get_inbox (ib_inboxId r) s = Some r" "ib_status r = IDelivered"
    if "r \<in> set rows" for r
  proof -
    from that Cons.prems(2) have "ib_inboxId row \<noteq> ib_inboxId r" by auto
    then show "untouched (ib_inboxId r) s s1" by (rule u1)
    show "get_inbox (ib_inboxId r) s = Some r" "ib_status r = IDelivered"
      using Cons.prems(3) that by simp_all
  qed
  have same: "redelivery_of now r s1 = redelivery_of now r s" if "r \<in> set rows" for r
    by (rule untouched_redelivery [OF rest(1,2) [OF that]])
  have rows: "\<forall>r \<in> set rows. get_inbox (ib_inboxId r) s1 = Some r \<and> ib_status r = IDelivered"
    using rest by (simp add: untouched_def)
  have d: "distinct (map ib_inboxId rows)" using Cons.prems(2) by simp
  obtain xs s' where s': "forE rows (restore_row now) s1 = Inr (xs, s')" "outbox_ok s'"
      "somes xs = map ib_inboxId (filter (\<lambda>row. redelivery_of now row s1 = GiveBack) rows)"
      "\<forall>r \<in> set rows. \<exists>r'. get_inbox (ib_inboxId r) s' = Some r' \<and> redelivered (redelivery_of now r s1) r r'"
      "\<forall>j. j \<notin> ib_inboxId ` set rows \<longrightarrow> untouched j s1 s'"
      "runs s' = runs s1" "effects s' = effects s1"
    using Cons.IH [OF s1(2) d rows] by (elim exE conjE)
  have "ib_inboxId row \<notin> ib_inboxId ` set rows" using Cons.prems(2) by simp
  with s'(5) s1(3) have kept: "get_inbox (ib_inboxId row) s' = Some row1"
    by (simp add: untouched_def)
  have ids: "filter (\<lambda>row. redelivery_of now row s1 = GiveBack) rows =
      filter (\<lambda>row. redelivery_of now row s = GiveBack) rows"
    by (rule filter_cong) (simp_all add: same)
  have others: "untouched j s s'" if "j \<notin> ib_inboxId ` set (row # rows)" for j
    using that u1 [of j] s'(5) by (intro untouched.trans [of j s s1 s']) auto
  show ?case
  proof (intro exI conjI)
    show "forE (row # rows) (restore_row now) s =
        Inr ((if redelivery_of now row s = GiveBack then Some (ib_inboxId row) else None) # xs, s')"
      by (simp only: forE.simps s1(1) s'(1) sum.case prod.case)
    show "somes ((if redelivery_of now row s = GiveBack then Some (ib_inboxId row) else None) # xs) =
        map ib_inboxId (filter (\<lambda>row. redelivery_of now row s = GiveBack) (row # rows))"
      using s'(3) ids by (simp add: somes_def map_filter_simps)
    show "\<forall>r \<in> set (row # rows). \<exists>r'. get_inbox (ib_inboxId r) s' = Some r' \<and>
        redelivered (redelivery_of now r s) r r'"
      using s'(4) same kept s1(4) by simp
    show "\<forall>j. j \<notin> ib_inboxId ` set (row # rows) \<longrightarrow> untouched j s s'"
      using others by blast
  qed (simp_all add: s'(2,6,7) s1(5,6))
qed

lemma delivered_rows:
  assumes "outbox_ok s"
  shows "distinct (map ib_inboxId (list_delivered_with_effect s))"
    "\<forall>row \<in> set (list_delivered_with_effect s). get_inbox (ib_inboxId row) s = Some row \<and> ib_status row = IDelivered"
    "set (list_delivered_with_effect s) = {row \<in> set (inbox s). ib_status row = IDelivered \<and> ib_deliveredBy row \<noteq> None}"
proof -
  have d: "distinct (map ib_inboxId (inbox s))"
    using assms by (simp add: outbox_ok_def held_def inbox_ok_def)
  show set: "set (list_delivered_with_effect s) =
      {row \<in> set (inbox s). ib_status row = IDelivered \<and> ib_deliveredBy row \<noteq> None}"
    by (auto simp: list_delivered_with_effect_def by_created_def)
  from d show "\<forall>row \<in> set (list_delivered_with_effect s).
      get_inbox (ib_inboxId row) s = Some row \<and> ib_status row = IDelivered"
    by (simp add: set get_inbox_def lookup_row_mem)
  from d have "inj_on ib_inboxId (set (inbox s))" "distinct (inbox s)" by (simp_all add: distinct_map)
  then show "distinct (map ib_inboxId (list_delivered_with_effect s))"
    by (auto simp: distinct_map set intro: inj_on_subset) (simp add: list_delivered_with_effect_def by_created_def)
qed

text \<open>
  C12: Redelivery is complete and touches nothing else.  \<open>restoreUndeliveredRows\<close> always succeeds and
  answers exactly the rows it gave back; every delivered row whose delivery failed goes back to
  pending with no owner, or, after \<open>MAX_INBOX_REDELIVERIES\<close> deliveries, keeps its status and is marked
  \<open>deliveryFailed\<close>, or waits for its backoff; which of the three depends on the state before the
  rule only, not on the order of the rows. Runs, effects and all other rows are as they were.
\<close>

theorem restore_complete:
  assumes "outbox_ok s"
  shows "\<exists>s'. restore_undelivered_rows now s =
      Inr (map ib_inboxId (filter (\<lambda>row. redelivery_of now row s = GiveBack) (list_delivered_with_effect s)), s') \<and>
    outbox_ok s' \<and> runs s' = runs s \<and> effects s' = effects s \<and>
    (\<forall>row \<in> set (list_delivered_with_effect s). \<exists>row'. get_inbox (ib_inboxId row) s' = Some row' \<and>
       redelivered (redelivery_of now row s) row row') \<and>
    (\<forall>j row. get_inbox j s = Some row \<and> row \<notin> set (list_delivered_with_effect s) \<longrightarrow> get_inbox j s' = Some row)"
proof -
  note rows = delivered_rows [OF assms]
  obtain xs s' where s': "forE (list_delivered_with_effect s) (restore_row now) s = Inr (xs, s')" "outbox_ok s'"
      "somes xs = map ib_inboxId (filter (\<lambda>row. redelivery_of now row s = GiveBack) (list_delivered_with_effect s))"
      "\<forall>r \<in> set (list_delivered_with_effect s).
         \<exists>r'. get_inbox (ib_inboxId r) s' = Some r' \<and> redelivered (redelivery_of now r s) r r'"
      "\<forall>j. j \<notin> ib_inboxId ` set (list_delivered_with_effect s) \<longrightarrow> untouched j s s'"
      "runs s' = runs s" "effects s' = effects s"
    using restore_rows_run [OF assms rows(1,2), of now] by (elim exE conjE)
  have "get_inbox j s' = Some row"
    if row: "get_inbox j s = Some row" "row \<notin> set (list_delivered_with_effect s)" for j row
  proof -
    have "j \<notin> ib_inboxId ` set (list_delivered_with_effect s)"
      using row rows(2) by auto
    with s'(5) row(1) show ?thesis by (simp add: untouched_def)
  qed
  with s' show ?thesis
    by (simp add: restore_undelivered_rows_def bindE_run(1) retE_def)
qed

text \<open>A thread with one notice whose delivery failed.\<close>

definition restore_example :: store where
  "restore_example = (empty_store 5 nat_str)\<lparr>
     inbox := [\<lparr>ib_inboxId = ''i'', ib_threadId = ''t'', ib_runId = None, ib_kind = ReconcileNotice,
       ib_payload = JObj [], ib_status = IDelivered, ib_createdAt = 1, ib_deliveredBy = Some ''e''\<rparr>],
     effects := [\<lparr>ef_effectId = ''e'', ef_threadId = ''t'', ef_runId = None, ef_kind = TurnStart,
       ef_class = ProcessBound, ef_status = EFailed, ef_payload = JNull, ef_attempts = 1, ef_maxAttempts = 1,
       ef_timeoutMs = 1, ef_availableAt = 1, ef_leaseOwner = None, ef_leaseExpiresAt = None, ef_lastError = None,
       ef_createdAt = 1, ef_updatedAt = 2, ef_completedAt = Some 2\<rparr>]\<rparr>"

lemma restore_example_ok: "outbox_ok restore_example"
  by (simp add: outbox_ok_def restore_example_def empty_store_def held_def task_ok_def fresh_uuids_def inbox_ok_def
      effect_ok_def delivery_local_def delivered_locally_def delivering_run_def get_effect_def lookup_row_def inj_def
      settled_except_def settled_no_task)

lemma restore_complete_witness:
  "\<exists>s'. restore_undelivered_rows None restore_example = Inr ([''i''], s') \<and>
     map_option ib_status (get_inbox ''i'' s') = Some IPending"
proof -
  have ids: "map ib_inboxId (filter (\<lambda>row. redelivery_of None row restore_example = GiveBack)
      (list_delivered_with_effect restore_example)) = [''i'']" by code_simp
  have row: "list_all (\<lambda>row. ib_inboxId row = ''i'' \<and> redelivery_of None row restore_example = GiveBack)
      (list_delivered_with_effect restore_example) \<and> list_delivered_with_effect restore_example \<noteq> []" by code_simp
  from restore_complete [OF restore_example_ok, of None] row show ?thesis
    unfolding ids by (auto simp: list_all_iff redelivered_def neq_Nil_conv)
qed

text \<open>
  Boot leaves no undelivered row behind: after \<open>restoreUndeliveredRows\<close> with no clock, a row that
  was in the store and is still delivered either has a delivery that has not failed or carries the
  \<open>deliveryFailed\<close> mark.
\<close>

theorem boot_restores_all:
  assumes "outbox_ok s"
  shows "\<exists>ids s'. restore_undelivered_rows None s = Inr (ids, s') \<and>
    (\<forall>j row e. get_inbox j s \<noteq> None \<and> get_inbox j s' = Some row \<and> ib_status row = IDelivered \<and>
       Option.bind (ib_deliveredBy row) (\<lambda>by. get_effect by s') = Some e \<longrightarrow>
       delivery_failure e row s' = None \<or> is_exhausted_row row)"
proof -
  note rows = delivered_rows [OF assms]
  obtain xs s' where s': "forE (list_delivered_with_effect s) (restore_row None) s = Inr (xs, s')"
      "\<forall>r \<in> set (list_delivered_with_effect s).
         \<exists>r'. get_inbox (ib_inboxId r) s' = Some r' \<and> redelivered (redelivery_of None r s) r r'"
      "\<forall>j. j \<notin> ib_inboxId ` set (list_delivered_with_effect s) \<longrightarrow> untouched j s s'"
      "runs s' = runs s" "effects s' = effects s"
    using restore_rows_run [OF assms rows(1,2), of None] by (elim exE conjE)
  have same: "get_effect i s' = get_effect i s" "delivery_failure e r s' = delivery_failure e r s" for i e r
    using s'(4,5) by (simp_all add: get_effect_def delivery_failure_def get_run_def)
  have "delivery_failure e row s' = None \<or> is_exhausted_row row"
    if row: "get_inbox j s \<noteq> None" "get_inbox j s' = Some row" "ib_status row = IDelivered"
      "Option.bind (ib_deliveredBy row) (\<lambda>by. get_effect by s') = Some e" for j row e
  proof -
    from row(1) obtain r where r: "get_inbox j s = Some r" by blast
    note id = get_inbox_id [OF r]
    show ?thesis
    proof (cases "r \<in> set (list_delivered_with_effect s)")
      case True
      with s'(2) id row(2) have "redelivered (redelivery_of None r s) r row" by auto
      with row(3,4) show ?thesis
        by (auto simp: redelivered_def redelivery_of_def same Let_def split: if_splits option.splits)
    next
      case False
      then have "j \<notin> ib_inboxId ` set (list_delivered_with_effect s)"
        using r rows(2) by auto
      with s'(3) r row(2) have "row = r" by (simp add: untouched_def)
      with False row(3,4) id show ?thesis by (auto simp: rows(3))
    qed
  qed
  with s'(1) show ?thesis
    by (auto simp: restore_undelivered_rows_def bindE_run(1) retE_def)
qed

lemma boot_restores_all_witness:
  "\<exists>ids s'. restore_undelivered_rows None restore_example = Inr (ids, s')"
  using boot_restores_all [OF restore_example_ok] by blast

end
