(* ===== verification/Reconciler.thy ===== *)
theory Reconciler
  imports Ledger Restore
begin

text \<open>
  The reconciler (\<open>src/mms/run/Reconciler.ts\<close>, \<open>strandedRuns.ts\<close>): one pass over six rules that
  bring the stored state back to what can still happen. Each rule is a job; \<open>rule\<close> catches what it
  throws, so that one rule cannot stop the others.

  Parameters: \<open>caps_for\<close> is the host's capability callback (\<open>None\<close> throws), \<open>describe\<close> gives the
  message of an error, \<open>ellipsis\<close> is the character notices are cut with, and \<open>prune\<close> is the
  credential store (\<open>None\<close> without one, \<open>Some None\<close> when it throws).
\<close>

definition DEFAULT_HEARTBEAT_MS :: nat where
  "DEFAULT_HEARTBEAT_MS = 10000"

definition FORCED_INTERRUPT_AFTER_MS :: nat where
  "FORCED_INTERRUPT_AFTER_MS = 10000"

definition NO_TURN_PAYLOAD_ERROR :: string where
  "NO_TURN_PAYLOAD_ERROR = ''no turn payload after restart''"

definition RECONCILER_THREAD_ID :: string where
  "RECONCILER_THREAD_ID = ''__reconciler__''"

section \<open>One repair\<close>

fun effect_status_str :: "effect_status \<Rightarrow> string" where
  "effect_status_str EPending = ''pending''"
| "effect_status_str ERunning = ''running''"
| "effect_status_str ESucceeded = ''succeeded''"
| "effect_status_str EFailed = ''failed''"
| "effect_status_str ECancelled = ''cancelled''"

definition repaired :: "run_record \<Rightarrow> string \<Rightarrow> (string \<times> json) list \<Rightarrow> run_record \<Rightarrow> store \<Rightarrow> store" where
  "repaired run type details result s =
     append_event (rr_threadId run) (Some (rr_runId run)) type
       (EvJson (JObj (details @ [(''runId'', JStr (rr_runId run)), (''fromStatus'', JStr (status_str (rr_status run))),
          (''status'', JStr (status_str (rr_status result)))]))) s"

text \<open>\<open>Some id\<close> when the repair was done, \<open>None\<close> when a concurrent writer won.\<close>

definition repair_run :: "run_record \<Rightarrow> string \<Rightarrow> (string \<times> json) list \<Rightarrow> run_record run_txn \<Rightarrow> string option run_txn" where
  "repair_run run type details write =
     bindE (catching [StaleWrite, BadRequest]
              (bindE write (\<lambda>result. modE (repaired run type details result))))
       (\<lambda>done. retE (case done of None \<Rightarrow> None | Some _ \<Rightarrow> Some (rr_runId run)))"

definition repair_all :: "run_record list \<Rightarrow> (run_record \<Rightarrow> string option run_txn) \<Rightarrow> string list job" where
  "repair_all rs f = then_job (commit_each rs f) (\<lambda>done. commit (retE (somes done)))"

section \<open>Rule 1: expired leases\<close>

definition lease_expired :: "string \<Rightarrow> unit run_txn" where
  "lease_expired effectId s =
     (case get_effect effectId s of
        None \<Rightarrow> Inl Internal
      | Some e \<Rightarrow> Inr ((), append_event (ef_threadId e) (ef_runId e) ''reconcile.expired_lease''
          (EvJson (JObj [(''effectId'', JStr effectId), (''status'', JStr (effect_status_str (ef_status e))),
             (''attempts'', JNum (int (ef_attempts e)))])) s))"

definition expired_leases :: "nat \<Rightarrow> string list run_txn" where
  "expired_leases now =
     bindE (reclaim_expired now) (\<lambda>ids. bindE (forE ids lease_expired) (\<lambda>_. retE ids))"

section \<open>Rule 2: stale runs\<close>

definition stale_after_ms :: "nat \<Rightarrow> capabilities_for \<Rightarrow> run_record \<Rightarrow> nat" where
  "stale_after_ms heartbeatMs caps_for run =
     (if rr_source run \<in> set LOCAL_ACTION_SOURCES then 2 * heartbeatMs
      else 2 * (case caps_for (rr_threadId run) of
             Some (Some caps) \<Rightarrow> heartbeat_tolerance_ms caps heartbeatMs
           | _ \<Rightarrow> heartbeatMs))"

definition last_sign :: "run_record \<Rightarrow> nat" where
  "last_sign run = (case rr_heartbeatAt run of
     Some at \<Rightarrow> at
   | None \<Rightarrow> (case rr_startedAt run of Some at \<Rightarrow> at | None \<Rightarrow> rr_requestedAt run))"

definition silent_too_long :: "nat \<Rightarrow> capabilities_for \<Rightarrow> nat \<Rightarrow> run_record \<Rightarrow> bool" where
  "silent_too_long heartbeatMs caps_for now run \<longleftrightarrow>
     int (stale_after_ms heartbeatMs caps_for run) < int now - int (last_sign run)"

definition has_running_effect :: "run_record \<Rightarrow> store \<Rightarrow> bool" where
  "has_running_effect run s = list_ex (\<lambda>e. ef_status e = ERunning) (effects_for_run (rr_runId run) s)"

definition stale_outcome :: run_outcome where
  "stale_outcome = empty_outcome\<lparr>oc_interruptedBy := Some ByProvider, oc_error := Some ''no terminal event''\<rparr>"

definition repair_stale_run :: "nat \<Rightarrow> capabilities_for \<Rightarrow> nat \<Rightarrow> run_record \<Rightarrow> string option run_txn" where
  "repair_stale_run heartbeatMs caps_for now run s =
     (if \<not> silent_too_long heartbeatMs caps_for now run then Inr (None, s)
      else if has_running_effect run s then Inr (None, s)
      else repair_run run ''reconcile.stale_run'' [(''lastHeartbeatAt'', JNum (int (last_sign run)))]
             (write_terminal_run run (int (rr_epoch run)) RInterrupted (Some stale_outcome) now None None) s)"

definition stale_runs :: "nat \<Rightarrow> capabilities_for \<Rightarrow> nat \<Rightarrow> string list job" where
  "stale_runs heartbeatMs caps_for now s =
     repair_all (filter (\<lambda>r. rr_status r = RRunning \<or> rr_status r = RFinalizing) (list_non_terminal_runs s))
       (repair_stale_run heartbeatMs caps_for now) s"

section \<open>Rule 3: stops that did not end their run\<close>

text \<open>The first \<open>run.status\<close> event of the run that carries \<open>stopRequested\<close>.\<close>

definition stop_requested_at :: "run_record \<Rightarrow> store \<Rightarrow> nat option" where
  "stop_requested_at run s =
     map_option ev_createdAt (List.find (\<lambda>e. ev_runId e = Some (rr_runId run) \<and> ev_type e = ''run.status'' \<and>
        (case ev_payload e of EvRun r \<Rightarrow> Option.bind (rr_outcome r) oc_stopRequested = Some True | _ \<Rightarrow> False))
       (sort_key ev_seq (events s)))"

definition last_option :: "'a list \<Rightarrow> 'a option" where
  "last_option xs = (if xs = [] then None else Some (last xs))"

definition latest_interrupt :: "run_record \<Rightarrow> store \<Rightarrow> effect_record option" where
  "latest_interrupt run s =
     last_option (filter (\<lambda>e. ef_kind e = TurnInterrupt) (effects_for_run (rr_runId run) s))"

definition stop_over_since :: "run_record \<Rightarrow> store \<Rightarrow> nat option" where
  "stop_over_since run s =
     (case latest_interrupt run s of
        None \<Rightarrow> stop_requested_at run s
      | Some e \<Rightarrow> if terminal_effect (ef_status e) then Some (completed_or (ef_completedAt e) (ef_updatedAt e)) else None)"

definition force_interrupt :: "nat \<Rightarrow> run_record \<Rightarrow> string option run_txn" where
  "force_interrupt now run s =
     (if Option.bind (rr_outcome run) oc_stopRequested \<noteq> Some True then Inr (None, s)
      else case stop_over_since run s of
        None \<Rightarrow> Inr (None, s)
      | Some since \<Rightarrow>
          if int now - int since \<le> int FORCED_INTERRUPT_AFTER_MS then Inr (None, s)
          else repair_run run ''reconcile.forced_interrupt''
                 [(''severity'', JStr ''warning''),
                  (''interruptEffectId'', case latest_interrupt run s of None \<Rightarrow> JNull | Some e \<Rightarrow> JStr (ef_effectId e)),
                  (''interruptStatus'', case latest_interrupt run s of None \<Rightarrow> JNull
                     | Some e \<Rightarrow> JStr (effect_status_str (ef_status e))),
                  (''since'', JNum (int since))]
                 (write_terminal_run run (int (rr_epoch run)) RInterrupted
                    (Some (empty_outcome\<lparr>oc_interruptedBy := Some ByUser\<rparr>)) now None None) s)"

definition forced_interrupts :: "nat \<Rightarrow> string list job" where
  "forced_interrupts now s = repair_all (list_non_terminal_runs s) (force_interrupt now) s"

section \<open>Rule 5: queued runs that nothing will start\<close>

record stranded_turn =
  sr_run :: run_record
  sr_effectId :: string
  sr_payload :: "json option"

definition turn_starts :: "run_record \<Rightarrow> store \<Rightarrow> effect_record list" where
  "turn_starts run s = filter (\<lambda>e. ef_kind e = TurnStart) (effects_for_run (rr_runId run) s)"

definition stranded_run :: "run_record \<Rightarrow> store \<Rightarrow> store_error + stranded_turn option" where
  "stranded_run run s =
     (let starts = turn_starts run s in
      if rr_status run \<noteq> RQueued then Inr None
      else case last_option starts of
        None \<Rightarrow> Inr None
      | Some latest \<Rightarrow>
          if ef_status latest \<noteq> ECancelled then Inr None
          else if list_ex (\<lambda>e. ef_status e = EPending \<or> ef_status e = ERunning) starts then Inr None
          else case get_active_run (rr_threadId run) s of
            Inl e \<Rightarrow> Inl e
          | Inr (Some _) \<Rightarrow> Inr None
          | Inr None \<Rightarrow>
              let payload = ef_payload latest in
              if is_send_turn_payload payload
              then if jfield payload ''queueItemId'' \<noteq> None then Inr None
                   else Inr (Some \<lparr>sr_run = run, sr_effectId = ef_effectId latest, sr_payload = Some payload\<rparr>)
              else if jstring (jfield payload ''kind'') \<noteq> None then Inr None
              else Inr (Some \<lparr>sr_run = run, sr_effectId = ef_effectId latest, sr_payload = None\<rparr>))"

definition stranded_queued_runs :: "stranded_turn list run_txn" where
  "stranded_queued_runs s =
     bindE (forE (list_non_terminal_runs s)
              (\<lambda>run s. case stranded_run run s of Inl e \<Rightarrow> Inl e | Inr x \<Rightarrow> Inr (x, s)))
       (\<lambda>found. retE (somes found)) s"

datatype restarted = Restarted string | StrandedCancelled string

definition restart_queued_run :: "stranded_turn \<Rightarrow> json \<Rightarrow> string run_txn" where
  "restart_queued_run st payload =
     bindE (enqueue \<lparr>ei_effectId = None, ei_threadId = rr_threadId (sr_run st), ei_runId = Some (rr_runId (sr_run st)),
         ei_kind = TurnStart, ei_payload = payload, ei_availableAt = None\<rparr>) (\<lambda>e.
     bindE (modE (append_event (rr_threadId (sr_run st)) (Some (rr_runId (sr_run st))) ''reconcile.restarted_queued_run''
         (EvJson (JObj [(''runId'', JStr (rr_runId (sr_run st))), (''effectId'', JStr (ef_effectId e)),
            (''previousEffectId'', JStr (sr_effectId st))])))) (\<lambda>_.
     retE (rr_runId (sr_run st))))"

definition recover_stranded :: "nat \<Rightarrow> stranded_turn \<Rightarrow> restarted option run_txn" where
  "recover_stranded now st =
     (case sr_payload st of
        Some payload \<Rightarrow>
          bindE (catching [StaleWrite, Conflict] (restart_queued_run st payload)) (\<lambda>r. retE (map_option Restarted r))
      | None \<Rightarrow>
          bindE (repair_run (sr_run st) ''reconcile.cancelled_stranded_run'' [(''effectId'', JStr (sr_effectId st))]
                   (write_terminal_run (sr_run st) (int (rr_epoch (sr_run st))) RCancelled
                      (Some (empty_outcome\<lparr>oc_error := Some NO_TURN_PAYLOAD_ERROR\<rparr>)) now None None))
            (\<lambda>r. retE (map_option StrandedCancelled r)))"

fun restarted_run :: "restarted \<Rightarrow> string option" where
  "restarted_run (Restarted r) = Some r"
| "restarted_run (StrandedCancelled r) = None"

fun cancelled_run :: "restarted \<Rightarrow> string option" where
  "cancelled_run (Restarted r) = None"
| "cancelled_run (StrandedCancelled r) = Some r"

definition queued_starts :: "nat \<Rightarrow> (string list \<times> string list) job" where
  "queued_starts now =
     then_job (commit stranded_queued_runs) (\<lambda>found.
     then_job (commit_each found (recover_stranded now)) (\<lambda>done.
     commit (retE (List.map_filter restarted_run (somes done), List.map_filter cancelled_run (somes done)))))"

section \<open>Rule 6: tools whose run has ended\<close>

definition started_of_terminal :: "store \<Rightarrow> (tool_invocation \<times> run_record) list" where
  "started_of_terminal s =
     concat (map (\<lambda>t. map (\<lambda>r. (t, r)) (filter (\<lambda>r. rr_runId r = ti_runId t \<and> terminal_run (rr_status r)) (runs s)))
       (filter (\<lambda>t. ti_status t = TStarted) (tools s)))"

definition mark_lost_tool :: "nat \<Rightarrow> tool_invocation \<times> run_record \<Rightarrow> string option run_txn" where
  "mark_lost_tool now found =
     (case found of (t, run) \<Rightarrow>
        bindE (mark_outcome_unknown (ti_invocationId t) now) (\<lambda>marked.
        case marked of
          None \<Rightarrow> retE None
        | Some record \<Rightarrow>
            bindE (modE (append_event (rr_threadId run) (Some (ti_runId record)) ''reconcile.tool_outcome_unknown''
                (EvJson (JObj [(''invocationId'', JStr (ti_invocationId t)), (''tool'', JStr (ti_tool record)),
                   (''runStatus'', JStr (status_str (rr_status run)))])))) (\<lambda>_.
            retE (Some (ti_invocationId t)))))"

definition tools_on_terminal_runs :: "nat \<Rightarrow> string list job" where
  "tools_on_terminal_runs now s =
     then_job (commit_each (started_of_terminal s) (mark_lost_tool now)) (\<lambda>done. commit (retE (somes done))) s"

section \<open>A pass\<close>

definition rule_failed :: "string \<Rightarrow> string \<Rightarrow> store \<Rightarrow> store" where
  "rule_failed name message s =
     append_event RECONCILER_THREAD_ID None ''reconcile.rule_failed''
       (EvJson (JObj [(''rule'', JStr name), (''error'', JStr message)])) s"

definition rule :: "(store_error \<Rightarrow> string) \<Rightarrow> string \<Rightarrow> 'a \<Rightarrow> 'a job \<Rightarrow> store \<Rightarrow> 'a \<times> store" where
  "rule describe name none job s =
     (case job s of (Inl e, s') \<Rightarrow> (none, rule_failed name (describe e) s') | (Inr x, s') \<Rightarrow> (x, s'))"

record repair_report =
  rp_expiredLeases :: "string list"
  rp_staleRuns :: "string list"
  rp_forcedInterrupts :: "string list"
  rp_wakes :: wake_report
  rp_queuedStarts :: "string list"
  rp_strandedCancelled :: "string list"
  rp_outcomeUnknownTools :: "string list"
  rp_prunedCredentials :: "nat option"

definition no_wakes :: wake_report where
  "no_wakes = \<lparr>wr_wakes = [], wr_steers = [], wr_cancelled = [], wr_restored = []\<rparr>"

definition prune_rule :: "(store_error \<Rightarrow> string) \<Rightarrow> nat option option \<Rightarrow> store \<Rightarrow> nat option \<times> store" where
  "prune_rule describe prune s =
     (case prune of
        None \<Rightarrow> (None, s)
      | Some (Some n) \<Rightarrow> (Some n, s)
      | Some None \<Rightarrow> (Some 0, rule_failed ''prune_credentials'' (describe Internal) s))"

definition run_once ::
  "(store_error \<Rightarrow> string) \<Rightarrow> string \<Rightarrow> nat \<Rightarrow> capabilities_for \<Rightarrow> nat option option \<Rightarrow> nat \<Rightarrow>
   store \<Rightarrow> repair_report \<times> store" where
  "run_once describe ellipsis heartbeatMs caps_for prune now s0 =
     (let (expired, s1) = rule describe ''expired_leases'' [] (commit (expired_leases now)) s0;
          (stale, s2) = rule describe ''stale_runs'' [] (stale_runs heartbeatMs caps_for now) s1;
          (forced, s3) = rule describe ''forced_interrupts'' [] (forced_interrupts now) s2;
          (wakes, s4) = rule describe ''wakes'' no_wakes (wake_threads ellipsis caps_for now) s3;
          ((started, stranded), s5) = rule describe ''queued_starts'' ([], []) (queued_starts now) s4;
          (unknown, s6) = rule describe ''tools_on_terminal_runs'' [] (tools_on_terminal_runs now) s5;
          (pruned, s7) = prune_rule describe prune s6
      in (\<lparr>rp_expiredLeases = expired, rp_staleRuns = stale, rp_forcedInterrupts = forced, rp_wakes = wakes,
            rp_queuedStarts = started, rp_strandedCancelled = stranded, rp_outcomeUnknownTools = unknown,
            rp_prunedCredentials = pruned\<rparr>, s7))"

end
