(* ===== verification/Repairs.thy ===== *)
theory Repairs
  imports Reconciler
begin

text \<open>
  What the reconciler's repairs do: a repair ends one live run with \<open>write_terminal_run\<close> and touches
  no other run and no effect, so the repairs of one rule do not depend on each other. The contract
  of such a rule is the locale \<open>repairing\<close>; rules 2 and 3 provide it.
\<close>

section \<open>A terminal write leaves effects and attempt owners\<close>

definition work_kept :: "store \<Rightarrow> store \<Rightarrow> bool" where
  "work_kept s s' \<longleftrightarrow> runs s' = runs s \<and> effects s' = effects s \<and>
     map at_runId (attempts s') = map at_runId (attempts s)"

interpretation working: preorder_relation work_kept
  by unfold_locales (simp_all add: work_kept_def)

lemma publishing_work: "publishing s s' \<Longrightarrow> work_kept s s'"
  by (simp add: work_kept_def publishing_frame)

lemma work_append: "inbox_append t r k p i s = Inr (row, s') \<Longrightarrow> work_kept s s'"
  using inbox_append_frame [of t r k p i s row s'] by (simp add: work_kept_def)

lemma work_always:
  "always work_kept (end_attempt run at)"
  "always work_kept (modE (record_run_result_text run text))"
  "always work_kept (append_notice run notice)"
  "always work_kept (settle_txn t)"
  "always work_kept (settle_moved rows)"
proof -
  have at: "map at_runId (update_rows P f as) = map at_runId as" if "\<And>a. at_runId (f a) = at_runId a" for P f as
    using that by (simp add: update_rows_def)
  show "always work_kept (end_attempt run at)"
    by (auto intro!: alwaysI simp: end_attempt_def bindE_Inr set_attempt_status_def Let_def work_kept_def at
        split: option.splits if_splits)
  show "always work_kept (modE (record_run_result_text run text))"
    by (auto intro!: alwaysI simp: record_run_result_text_def work_kept_def split: option.splits)
  show "always work_kept (append_notice run notice)"
    by (auto intro!: alwaysI simp: append_notice_def bindE_Inr work_append working.refl
        split: option.splits prod.splits)
  show "always work_kept (settle_txn t)" "always work_kept (settle_moved rows)"
    by (auto intro!: alwaysI publishing_work intro: settle_txn_publishing settle_moved_publishing)
qed

lemma work_cancel_approvals: "always work_kept (cancel_approval_rows cond reason)"
proof -
  have "always work_kept (cancel_approval_row reason at row)" for at row
    by (auto intro!: alwaysI simp: cancel_approval_row_def Let_def work_kept_def split: if_splits)
  then have "always work_kept (bindE (forE rows (cancel_approval_row reason at)) (\<lambda>closed. retE (somes closed)))" for rows at
    by (intro working.always_loop working.always_ret)
  then show ?thesis unfolding always_def cancel_approval_rows_def by blast
qed

lemma work_status: "always work_kept (set_delegation_status settle_hold dId from to r at)"
proof (rule alwaysI)
  fix s p s' assume run: "set_delegation_status settle_hold dId from to r at s = Inr (p, s')"
  show "work_kept s s'"
  proof (rule set_delegation_status_Inr [OF run])
    fix current
    let ?s1 = "delegation_recorded p (s\<lparr>delegations := update_rows (\<lambda>d. dg_delegationId d = dId \<and> dg_status d = from)
        (\<lambda>d. d\<lparr>dg_status := dg_status p, dg_result := dg_result p, dg_completedAt := dg_completedAt p\<rparr>) (delegations s)\<rparr>)"
    assume s': "let s1 = ?s1 in if from = DRunning then settle_hold (dg_parentThreadId current) s1 = Inr s' else s' = s1"
    have one: "work_kept s ?s1" by (simp add: work_kept_def delegation_recorded_def)
    show "work_kept s s'"
    proof (cases "from = DRunning")
      case True
      with s' have "publishing ?s1 s'" by (simp add: Let_def holding.settle_publishing)
      then show ?thesis using one by (blast intro: working.trans publishing_work)
    qed (use s' one in \<open>simp add: Let_def\<close>)
  qed
qed

lemma work_move_row: "always work_kept (move_row to from by i)"
  by (auto intro!: alwaysI simp: move_row_def Let_def inbox_recorded_def work_kept_def split: option.splits if_splits)

lemma work_acknowledge: "always work_kept (acknowledge_delivered_rows run)"
proof (rule alwaysI)
  fix s x s' assume run: "acknowledge_delivered_rows run s = Inr (x, s')"
  have task: "always work_kept (acknowledge_task row)" for row
  proof (rule alwaysI)
    fix s x s' assume "acknowledge_task row s = Inr (x, s')"
    then show "work_kept s s'"
      by (auto simp: acknowledge_task_def bindE_Inr retE_def working.refl split: option.splits if_splits
          dest: alwaysD [OF work_status])
  qed
  have "always work_kept (mark_acknowledged ids)" for ids
    unfolding mark_acknowledged_def inbox_move_def
    by (intro working.always_bind working.always_forE working.always_ret work_move_row work_always)
  then have "always work_kept (acknowledge_rows rows)" for rows
    unfolding acknowledge_rows_def
    by (cases "rows = []") (auto intro!: working.always_ret working.always_bind working.always_forE task)
  from alwaysD [OF this] run show "work_kept s s'"
    by (auto simp: acknowledge_delivered_rows_def working.refl split: if_splits)
qed

lemma work_tail: "always work_kept (terminal_tail next at text cancels notice)"
  unfolding terminal_tail_def
  by (intro working.always_bind working.always_when work_always work_cancel_approvals work_acknowledge working.always_ret)

section \<open>One repair\<close>

definition live_run :: "run_record \<Rightarrow> store \<Rightarrow> bool" where
  "live_run run s \<longleftrightarrow> get_run (rr_runId run) s = Some run \<and> \<not> terminal_run (rr_status run)"

text \<open>The invariant of the whole store; a live run's epoch is an integer the code can compare exactly.\<close>

definition engine_ok :: "store \<Rightarrow> bool" where
  "engine_ok s \<longleftrightarrow> outbox_ok s \<and> runs_ok s \<and> attempts_ok s \<and>
     list_all (\<lambda>r. terminal_run (rr_status r) \<or> rr_epoch r \<le> 9007199254740991) (runs s)"

definition ended_only :: "run_record \<Rightarrow> run_status \<Rightarrow> run_outcome \<Rightarrow> store \<Rightarrow> store \<Rightarrow> bool" where
  "ended_only run st oc s s' \<longleftrightarrow> engine_ok s' \<and> effects s' = effects s \<and>
     (\<exists>x. get_run (rr_runId run) s' = Some x \<and> rr_status x = st \<and>
        rr_outcome x = terminal_outcome (rr_outcome run) (Some oc)) \<and>
     (\<forall>i. i \<noteq> rr_runId run \<longrightarrow> get_run i s' = get_run i s)"

lemma get_run_mem: "get_run i s = Some r \<Longrightarrow> r \<in> set (runs s) \<and> rr_runId r = i"
  unfolding get_run_def by (rule lookup_row_Some)

lemma mem_get_run: "runs_ok s \<Longrightarrow> r \<in> set (runs s) \<Longrightarrow> get_run (rr_runId r) s = Some r"
  using lookup_row_mem [OF runs_okD(1)] by (simp add: get_run_def)

lemma write_terminal_run_work:
  assumes ok: "runs_ok s" "attempts_ok s"
    and run: "write_terminal_run run e st (Some oc) at text notice s = Inr (x, s')" and r: "get_run (rr_runId run) s = Some run"
  shows "effects s' = effects s" "attempts_ok s'" "rr_outcome x = terminal_outcome (rr_outcome run) (Some oc)"
proof -
  let ?p = "no_patch\<lparr>rp_completedAt := Some (Some at), rp_outcome := map_option Some (terminal_outcome (rr_outcome run) (Some oc))\<rparr>"
  let ?c = "st \<noteq> RUncertain \<and> oc_interruptedBy (the_outcome (Some oc)) \<noteq> Some ByDaemonRestart"
  from run obtain s1 y s2 where steps: "cas_run_status (rr_runId run) e st ?p s = Inr (x, s1)"
    "terminal_tail x at text ?c notice s1 = Inr (y, s2)" "settle_txn (rr_threadId x) s2 = Inr ((), s')"
    unfolding write_terminal_run_tail bindE_Inr by auto
  have w: "work_kept s1 s'"
    by (rule working.trans [OF alwaysD [OF work_tail steps(2)] alwaysD [OF work_always(4) steps(3)]])
  have a1: "attempts_ok s1" by (rule cas_keeps_attempts [OF steps(1) ok])
  show "effects s' = effects s"
    by (rule cas_run_status_Inr [OF steps(1) ok(1)]) (use w in \<open>simp add: work_kept_def\<close>)
  have "get_run i s' = get_run i s1" for i using w by (simp add: work_kept_def get_run_def)
  moreover have "at_runId ` set (attempts s') = at_runId ` set (attempts s1)"
    using w by (simp add: work_kept_def flip: set_map)
  moreover have "attempts_ok u \<longleftrightarrow> (\<forall>i \<in> at_runId ` set (attempts u). get_run i u \<noteq> None)" for u
    unfolding attempts_ok_def list_all_iff by blast
  ultimately show "attempts_ok s'" using a1 by (simp only:)
  have "rr_outcome x = patched (rp_outcome ?p) (rr_outcome run)"
    by (rule cas_run_status_Inr [OF steps(1) ok(1)]) (use r in simp)
  then show "rr_outcome x = terminal_outcome (rr_outcome run) (Some oc)"
    by (simp add: patched_def terminal_outcome_def Let_def)
qed

lemma end_run:
  assumes ok: "engine_ok s" and live: "live_run run s" and st: "terminal_run st"
  shows "\<exists>x s'. write_terminal_run run (int (rr_epoch run)) st (Some oc) at text notice s = Inr (x, s') \<and>
    ended_only run st oc s s' \<and> rr_status x = st"
proof -
  have k: "outbox_ok s" "runs_ok s" "attempts_ok s" using ok by (simp_all add: engine_ok_def)
  have r: "get_run (rr_runId run) s = Some run" "\<not> terminal_run (rr_status run)"
    using live by (simp_all add: live_run_def)
  then have e: "rr_epoch run \<le> 9007199254740991"
    using ok get_run_mem [OF r(1)] by (auto simp: engine_ok_def list_all_iff)
  obtain x s' where w: "write_terminal_run run (int (rr_epoch run)) st (Some oc) at text notice s = Inr (x, s')"
    using write_terminal_run_total [OF k r e] by blast
  note i = write_terminal_run_Inr [OF k(1,2) w] and work = write_terminal_run_work [OF k(2,3) w r(1)]
    and other = write_terminal_run_other [OF k(2) w]
  have "terminal_run (rr_status y) \<or> rr_epoch y \<le> 9007199254740991" if "y \<in> set (runs s')" for y
  proof (cases "rr_runId y = rr_runId run")
    case True
    with mem_get_run [OF i(2) that] i(3,4) st show ?thesis by simp
  next
    case False
    with mem_get_run [OF i(2) that] other have "get_run (rr_runId y) s = Some y" by simp
    with ok get_run_mem show ?thesis by (fastforce simp: engine_ok_def list_all_iff)
  qed
  with i work other have "ended_only run st oc s s'"
    by (auto simp: ended_only_def engine_ok_def list_all_iff)
  with w i(4) show ?thesis by blast
qed

lemma ended_only_append:
  assumes "ended_only run st oc s s'"
  shows "ended_only run st oc s (append_event t r ty (EvJson v) s')"
proof -
  have "get_run i (append_event t r ty (EvJson v) s') = get_run i s'" for i by (simp add: get_run_def)
  then show ?thesis
    using assms by (simp add: ended_only_def engine_ok_def attempts_ok_def runs_ok_def)
qed

lemma repair_run_live:
  assumes "engine_ok s" "live_run run s" "terminal_run st"
  shows "\<exists>s'. repair_run run type details
      (write_terminal_run run (int (rr_epoch run)) st (Some oc) at None None) s = Inr (Some (rr_runId run), s') \<and>
    ended_only run st oc s s'"
proof -
  obtain x s' where "write_terminal_run run (int (rr_epoch run)) st (Some oc) at None None s = Inr (x, s')"
    "ended_only run st oc s s'"
    using end_run [OF assms] by blast
  then show ?thesis
    by (simp add: repair_run_def catching_def bindE_run modE_def retE_def repaired_def ended_only_append)
qed

section \<open>A rule of independent repairs\<close>

locale repairing =
  fixes repair :: "run_record \<Rightarrow> string option run_txn"
    and st :: run_status and oc :: run_outcome
  assumes ends: "terminal_run st"
    and repairs: "engine_ok s \<Longrightarrow> live_run run s \<Longrightarrow> repair run s = Inr (None, s) \<or>
      (\<exists>s'. repair run s = Inr (Some (rr_runId run), s') \<and> ended_only run st oc s s')"
begin

lemma repair_each:
  assumes "engine_ok s" "distinct (map rr_runId rs)" "\<forall>run \<in> set rs. live_run run s"
  shows "\<exists>ys s'. commit_each rs repair s = (Inr ys, s') \<and> engine_ok s' \<and> effects s' = effects s \<and>
    set (somes ys) \<subseteq> rr_runId ` set rs \<and>
    (\<forall>run \<in> set rs. if rr_runId run \<in> set (somes ys)
       then \<exists>x. get_run (rr_runId run) s' = Some x \<and> rr_status x = st \<and>
              rr_outcome x = terminal_outcome (rr_outcome run) (Some oc)
       else get_run (rr_runId run) s' = Some run) \<and>
    (\<forall>i. i \<notin> rr_runId ` set rs \<longrightarrow> get_run i s' = get_run i s)"
  using assms
proof (induction rs arbitrary: s)
  case Nil
  then show ?case by (simp add: somes_def map_filter_simps)
next
  case (Cons run rs)
  have live: "live_run run s" using Cons.prems(3) by simp
  obtain y s1 where s1: "repair run s = Inr (y, s1)" "engine_ok s1" "effects s1 = effects s"
    "\<forall>i. i \<noteq> rr_runId run \<longrightarrow> get_run i s1 = get_run i s"
    "(y = None \<and> get_run (rr_runId run) s1 = Some run) \<or>
     (y = Some (rr_runId run) \<and> (\<exists>x. get_run (rr_runId run) s1 = Some x \<and> rr_status x = st \<and>
        rr_outcome x = terminal_outcome (rr_outcome run) (Some oc)))"
    using repairs [OF Cons.prems(1) live] Cons.prems(1) live
    by (elim disjE exE conjE) (auto simp: ended_only_def live_run_def)
  have other: "rr_runId r \<noteq> rr_runId run" if "r \<in> set rs" for r
    using Cons.prems(2) imageI [OF that, of rr_runId] by (metis distinct.simps(2) list.simps(9) set_map)
  have rest: "\<forall>r \<in> set rs. live_run r s1"
  proof
    fix r assume r: "r \<in> set rs"
    with Cons.prems(3) s1(4) other [OF r] show "live_run r s1" by (simp add: live_run_def)
  qed
  have d: "distinct (map rr_runId rs)" "rr_runId run \<notin> rr_runId ` set rs" using Cons.prems(2) by simp_all
  obtain ys s' where s': "commit_each rs repair s1 = (Inr ys, s')" "engine_ok s'" "effects s' = effects s1"
    "set (somes ys) \<subseteq> rr_runId ` set rs"
    "\<forall>run \<in> set rs. if rr_runId run \<in> set (somes ys)
       then \<exists>x. get_run (rr_runId run) s' = Some x \<and> rr_status x = st \<and>
              rr_outcome x = terminal_outcome (rr_outcome run) (Some oc)
       else get_run (rr_runId run) s' = Some run"
    "\<forall>i. i \<notin> rr_runId ` set rs \<longrightarrow> get_run i s' = get_run i s1"
    using Cons.IH [OF s1(2) d(1) rest] by (elim exE conjE)
  have run: "get_run (rr_runId run) s' = get_run (rr_runId run) s1" using s'(6) d(2) by blast
  have new: "rr_runId run \<notin> set (somes ys)" using s'(4) d(2) by blast
  show ?case
  proof (intro exI conjI)
    show "commit_each (run # rs) repair s = (Inr (y # ys), s')" by (simp add: s1(1) s'(1))
    show "set (somes (y # ys)) \<subseteq> rr_runId ` set (run # rs)"
      using s'(4) s1(5) by (auto simp: somes_def map_filter_simps)
    show "\<forall>r \<in> set (run # rs). if rr_runId r \<in> set (somes (y # ys))
       then \<exists>x. get_run (rr_runId r) s' = Some x \<and> rr_status x = st \<and>
              rr_outcome x = terminal_outcome (rr_outcome r) (Some oc)
       else get_run (rr_runId r) s' = Some r"
      using s'(5) s1(5) run new other by (auto simp: somes_def map_filter_simps)
    show "\<forall>i. i \<notin> rr_runId ` set (run # rs) \<longrightarrow> get_run i s' = get_run i s"
      using s'(6) s1(4) by simp
  qed (simp_all add: s'(2,3) s1(3))
qed

text \<open>The rule over the runs it looks at.\<close>

lemma repair_all_runs:
  assumes "engine_ok s" "distinct (map rr_runId rs)" "\<forall>run \<in> set rs. live_run run s"
  shows "\<exists>ids s'. repair_all rs repair s = (Inr ids, s') \<and> engine_ok s' \<and> effects s' = effects s \<and>
    set ids \<subseteq> rr_runId ` set rs \<and>
    (\<forall>run \<in> set rs. if rr_runId run \<in> set ids
       then \<exists>x. get_run (rr_runId run) s' = Some x \<and> rr_status x = st \<and>
              rr_outcome x = terminal_outcome (rr_outcome run) (Some oc)
       else get_run (rr_runId run) s' = Some run) \<and>
    (\<forall>i. i \<notin> rr_runId ` set rs \<longrightarrow> get_run i s' = get_run i s)"
proof -
  obtain ys s' where "commit_each rs repair s = (Inr ys, s') \<and> engine_ok s' \<and> effects s' = effects s \<and>
    set (somes ys) \<subseteq> rr_runId ` set rs \<and>
    (\<forall>run \<in> set rs. if rr_runId run \<in> set (somes ys)
       then \<exists>x. get_run (rr_runId run) s' = Some x \<and> rr_status x = st \<and>
              rr_outcome x = terminal_outcome (rr_outcome run) (Some oc)
       else get_run (rr_runId run) s' = Some run) \<and>
    (\<forall>i. i \<notin> rr_runId ` set rs \<longrightarrow> get_run i s' = get_run i s)"
    using repair_each [OF assms] by (elim exE)
  then show ?thesis
    by (intro exI [of _ "somes ys"] exI [of _ s']) (simp add: repair_all_def then_job_def commit_def retE_def)
qed

end

text \<open>Such a rule whose decision reads only the run and the effects: it repairs exactly the runs due.\<close>

locale deciding = repairing +
  fixes due :: "run_record \<Rightarrow> store \<Rightarrow> bool"
  assumes due: "engine_ok s \<Longrightarrow> live_run run s \<Longrightarrow> due run s \<longleftrightarrow> repair run s \<noteq> Inr (None, s)"
    and due_cong: "effects s' = effects s \<Longrightarrow> due run s' = due run s"
begin

lemma decided:
  assumes "engine_ok s" "distinct (map rr_runId rs)" "\<forall>run \<in> set rs. live_run run s"
    and "commit_each rs repair s = (Inr ys, s')"
  shows "somes ys = map rr_runId (filter (\<lambda>run. due run s) rs)"
  using assms
proof (induction rs arbitrary: s ys)
  case Nil
  then show ?case by (simp add: somes_def map_filter_simps)
next
  case (Cons run rs)
  obtain y s1 zs where run: "repair run s = Inr (y, s1)" "commit_each rs repair s1 = (Inr zs, s')" "ys = y # zs"
    using Cons.prems(4) by (auto split: sum.splits prod.splits)
  have live: "live_run run s" using Cons.prems(3) by simp
  have y: "y = (if due run s then Some (rr_runId run) else None)" and one: "engine_ok s1" "effects s1 = effects s"
    "\<And>i. i \<noteq> rr_runId run \<Longrightarrow> get_run i s1 = get_run i s"
    using repairs [OF Cons.prems(1) live] due [OF Cons.prems(1) live] run(1) Cons.prems(1)
    by (elim disjE exE conjE; simp add: ended_only_def)+
  have "rr_runId r \<noteq> rr_runId run" if "r \<in> set rs" for r
    using Cons.prems(2) imageI [OF that, of rr_runId] by (metis distinct.simps(2) list.simps(9) set_map)
  then have "\<forall>r \<in> set rs. live_run r s1"
    using Cons.prems(3) one(3) by (simp add: live_run_def)
  with Cons.IH [OF one(1) _ _ run(2)] Cons.prems(2)
  have "somes zs = map rr_runId (filter (\<lambda>run. due run s1) rs)" by simp
  then show ?case
    by (simp add: run(3) y somes_def map_filter_simps due_cong [OF one(2)])
qed

end

section \<open>Rules 2 and 3\<close>

definition stale_due :: "nat \<Rightarrow> capabilities_for \<Rightarrow> nat \<Rightarrow> run_record \<Rightarrow> store \<Rightarrow> bool" where
  "stale_due heartbeatMs caps_for now run s \<longleftrightarrow>
     silent_too_long heartbeatMs caps_for now run \<and> \<not> has_running_effect run s"

lemma some_not_none: "Inr (Some x, s') \<noteq> (Inr (None, s) :: 'e + 'a option \<times> 's)"
  by simp

interpretation stale: deciding "repair_stale_run heartbeatMs caps_for now" RInterrupted stale_outcome
  "stale_due heartbeatMs caps_for now"
  for heartbeatMs caps_for now
proof unfold_locales
  fix s run assume ok: "engine_ok s" and live: "live_run run s"
  note r = repair_run_live [OF ok live, of RInterrupted "''reconcile.stale_run''"
      "[(''lastHeartbeatAt'', JNum (int (last_sign run)))]" stale_outcome now]
  from r show "repair_stale_run heartbeatMs caps_for now run s = Inr (None, s) \<or>
      (\<exists>s'. repair_stale_run heartbeatMs caps_for now run s = Inr (Some (rr_runId run), s') \<and>
        ended_only run RInterrupted stale_outcome s s')"
    by (simp add: repair_stale_run_def)
  from r show "stale_due heartbeatMs caps_for now run s \<longleftrightarrow>
      repair_stale_run heartbeatMs caps_for now run s \<noteq> Inr (None, s)"
    by (auto simp: repair_stale_run_def stale_due_def)
qed (simp_all add: stale_due_def has_running_effect_def effects_for_run_def)

definition user_stop :: run_outcome where
  "user_stop = empty_outcome\<lparr>oc_interruptedBy := Some ByUser\<rparr>"

interpretation forced: repairing "force_interrupt now" RInterrupted user_stop for now
proof unfold_locales
  fix s run assume ok: "engine_ok s" and live: "live_run run s"
  note r = repair_run_live [OF ok live, of RInterrupted "''reconcile.forced_interrupt''" _ user_stop now]
  show "force_interrupt now run s = Inr (None, s) \<or>
      (\<exists>s'. force_interrupt now run s = Inr (Some (rr_runId run), s') \<and> ended_only run RInterrupted user_stop s s')"
    using r by (simp add: force_interrupt_def user_stop_def split: option.split)
qed simp

lemma non_terminal_runs:
  assumes "engine_ok s"
  shows "distinct (map rr_runId (list_non_terminal_runs s))" "\<forall>run \<in> set (list_non_terminal_runs s). live_run run s"
proof -
  have ok: "runs_ok s" using assms by (simp add: engine_ok_def)
  have "inj_on rr_runId (set (runs s))" "distinct (runs s)"
    using runs_okD(1) [OF ok] by (simp_all add: distinct_map)
  then show "distinct (map rr_runId (list_non_terminal_runs s))"
    by (auto simp: distinct_map list_non_terminal_runs_def intro: inj_on_subset)
  show "\<forall>run \<in> set (list_non_terminal_runs s). live_run run s"
    using mem_get_run [OF ok] by (simp add: live_run_def list_non_terminal_runs_def)
qed

section \<open>Properties\<close>

lemma stale_outcome_stored:
  "oc_error (the_outcome (terminal_outcome old (Some stale_outcome))) = Some ''no terminal event''"
  "oc_interruptedBy (the_outcome (terminal_outcome old (Some stale_outcome))) = Some ByProvider"
  by (simp_all add: terminal_outcome_def Let_def the_outcome_def stale_outcome_def merge_outcome_def or_else_def
      empty_outcome_def)

text \<open>
  C14: Rule 2 of the reconciler is exact: it never fails, and it interrupts precisely the running or
  finalizing runs that have been silent for longer than their window and have no running effect; each
  of them ends interrupted by the provider with the error \<open>no terminal event\<close>, and every other run and
  every effect stays as it was.
\<close>

theorem stale_runs_complete:
  assumes "engine_ok s"
  shows "\<exists>ids s'. stale_runs heartbeatMs caps_for now s = (Inr ids, s') \<and> engine_ok s' \<and> effects s' = effects s \<and>
    (\<forall>i r. get_run i s = Some r \<longrightarrow>
      (if (rr_status r = RRunning \<or> rr_status r = RFinalizing) \<and>
          silent_too_long heartbeatMs caps_for now r \<and> \<not> has_running_effect r s
       then i \<in> set ids \<and> (\<exists>x. get_run i s' = Some x \<and> rr_status x = RInterrupted \<and>
              oc_error (the_outcome (rr_outcome x)) = Some ''no terminal event'' \<and>
              oc_interruptedBy (the_outcome (rr_outcome x)) = Some ByProvider)
       else i \<notin> set ids \<and> get_run i s' = Some r))"
proof -
  let ?rs = "filter (\<lambda>r. rr_status r = RRunning \<or> rr_status r = RFinalizing) (list_non_terminal_runs s)"
  have rs: "distinct (map rr_runId ?rs)" "\<forall>run \<in> set ?rs. live_run run s"
    using non_terminal_runs [OF assms] by (auto simp: distinct_map_filter)
  obtain ys s' where e: "commit_each ?rs (repair_stale_run heartbeatMs caps_for now) s = (Inr ys, s')" "engine_ok s'"
    "effects s' = effects s" "set (somes ys) \<subseteq> rr_runId ` set ?rs"
    "\<forall>run \<in> set ?rs. if rr_runId run \<in> set (somes ys)
       then \<exists>x. get_run (rr_runId run) s' = Some x \<and> rr_status x = RInterrupted \<and>
              rr_outcome x = terminal_outcome (rr_outcome run) (Some stale_outcome)
       else get_run (rr_runId run) s' = Some run"
    "\<forall>i. i \<notin> rr_runId ` set ?rs \<longrightarrow> get_run i s' = get_run i s"
    using stale.repair_each [where heartbeatMs = heartbeatMs and caps_for = caps_for and now = now, OF assms rs] by (elim exE conjE)
  have ids: "somes ys = map rr_runId (filter (\<lambda>run. stale_due heartbeatMs caps_for now run s) ?rs)"
    by (rule stale.decided [OF assms rs e(1)])
  have ok: "runs_ok s" using assms by (simp add: engine_ok_def)
  have mem: "i \<in> rr_runId ` {x \<in> set ?rs. P x} \<longleftrightarrow> (rr_status r = RRunning \<or> rr_status r = RFinalizing) \<and> P r"
    if r: "get_run i s = Some r" for i r P
  proof -
    have "x = r" if "x \<in> set (runs s)" "rr_runId x = i" for x
      using mem_get_run [OF ok that(1)] that(2) r by simp
    with get_run_mem [OF r] show ?thesis by (auto simp: list_non_terminal_runs_def)
  qed
  show ?thesis
  proof (intro exI conjI allI impI)
    show "stale_runs heartbeatMs caps_for now s = (Inr (somes ys), s')"
      by (simp add: stale_runs_def repair_all_def then_job_def commit_def retE_def e(1))
    fix i r assume r: "get_run i s = Some r"
    have in_ids: "i \<in> set (somes ys) \<longleftrightarrow> (rr_status r = RRunning \<or> rr_status r = RFinalizing) \<and>
        silent_too_long heartbeatMs caps_for now r \<and> \<not> has_running_effect r s"
      using mem [OF r, of "\<lambda>run. stale_due heartbeatMs caps_for now run s"] by (simp add: ids stale_due_def)
    have here: "r \<in> set ?rs" if "i \<in> rr_runId ` set ?rs"
      using mem [OF r, of "\<lambda>_. True"] that get_run_mem [OF r] by (auto simp: list_non_terminal_runs_def)
    have i: "rr_runId r = i" using get_run_mem [OF r] by simp
    have sub: "i \<in> set (somes ys) \<Longrightarrow> i \<in> rr_runId ` set ?rs" by (auto simp: ids)
    show "if (rr_status r = RRunning \<or> rr_status r = RFinalizing) \<and>
          silent_too_long heartbeatMs caps_for now r \<and> \<not> has_running_effect r s
       then i \<in> set (somes ys) \<and> (\<exists>x. get_run i s' = Some x \<and> rr_status x = RInterrupted \<and>
              oc_error (the_outcome (rr_outcome x)) = Some ''no terminal event'' \<and>
              oc_interruptedBy (the_outcome (rr_outcome x)) = Some ByProvider)
       else i \<notin> set (somes ys) \<and> get_run i s' = Some r"
    proof (cases "i \<in> set (somes ys)")
      case True
      with e(5) here [OF sub] i obtain x where "get_run i s' = Some x" "rr_status x = RInterrupted"
        "rr_outcome x = terminal_outcome (rr_outcome r) (Some stale_outcome)" by fastforce
      with True in_ids show ?thesis by (simp add: stale_outcome_stored)
    next
      case False
      have "get_run i s' = Some r"
        using e(5,6) here i r False by (cases "i \<in> rr_runId ` set ?rs") auto
      with False in_ids show ?thesis by auto
    qed
  qed (simp_all add: e(2,3))
qed

lemma commit_each_mem:
  assumes "commit_each rs f s = (Inr ys, s')" "y \<in> set ys"
  shows "\<exists>x \<in> set rs. \<exists>s1 s2. f x s1 = Inr (y, s2)"
  using assms
proof (induction rs arbitrary: s ys)
  case (Cons x xs)
  then show ?case by (auto split: sum.splits prod.splits) blast+
qed simp

lemma user_stop_stored:
  "oc_interruptedBy (the_outcome (terminal_outcome old (Some user_stop))) =
     Some (if oc_stopRequestedByAgent (the_outcome old) = None then ByUser else ByAgent)"
  by (simp add: terminal_outcome_def Let_def the_outcome_def user_stop_def merge_outcome_def or_else_def
      empty_outcome_def)

text \<open>
  Rule 3 of the reconciler never fails and only ends runs that were asked to stop: each run it
  returns was live with \<open>stopRequested\<close> and ends interrupted by the user (or by the agent that
  asked), every other run and every effect stays as it was.
\<close>

theorem forced_interrupts_safe:
  assumes "engine_ok s"
  shows "\<exists>ids s'. forced_interrupts now s = (Inr ids, s') \<and> engine_ok s' \<and> effects s' = effects s \<and>
    (\<forall>i \<in> set ids. \<exists>r x. get_run i s = Some r \<and> \<not> terminal_run (rr_status r) \<and>
       Option.bind (rr_outcome r) oc_stopRequested = Some True \<and>
       get_run i s' = Some x \<and> rr_status x = RInterrupted \<and>
       oc_interruptedBy (the_outcome (rr_outcome x)) =
         Some (if oc_stopRequestedByAgent (the_outcome (rr_outcome r)) = None then ByUser else ByAgent)) \<and>
    (\<forall>i. i \<notin> set ids \<longrightarrow> get_run i s' = get_run i s)"
proof -
  let ?rs = "list_non_terminal_runs s"
  note rs = non_terminal_runs [OF assms]
  obtain ys s' where e: "commit_each ?rs (force_interrupt now) s = (Inr ys, s')" "engine_ok s'"
    "effects s' = effects s" "set (somes ys) \<subseteq> rr_runId ` set ?rs"
    "\<forall>run \<in> set ?rs. if rr_runId run \<in> set (somes ys)
       then \<exists>x. get_run (rr_runId run) s' = Some x \<and> rr_status x = RInterrupted \<and>
              rr_outcome x = terminal_outcome (rr_outcome run) (Some user_stop)
       else get_run (rr_runId run) s' = Some run"
    "\<forall>i. i \<notin> rr_runId ` set ?rs \<longrightarrow> get_run i s' = get_run i s"
    using forced.repair_each [where now = now, OF assms rs] by (elim exE conjE)
  have live: "get_run (rr_runId run) s = Some run" "\<not> terminal_run (rr_status run)" if "run \<in> set ?rs" for run
    using rs(2) that by (simp_all add: live_run_def)
  have asked: "\<exists>run \<in> set ?rs. rr_runId run = i \<and> Option.bind (rr_outcome run) oc_stopRequested = Some True"
    if "i \<in> set (somes ys)" for i
  proof -
    from that have "Some i \<in> set ys" by (auto simp: somes_def map_filter_def)
    from commit_each_mem [OF e(1) this] obtain run s1 s2 where run: "run \<in> set ?rs" "force_interrupt now run s1 = Inr (Some i, s2)"
      by blast
    have "Option.bind (rr_outcome run) oc_stopRequested = Some True" using run(2) by (auto simp: force_interrupt_def split: if_splits)
    moreover have "rr_runId run = i"
      using run(2) by (auto simp: force_interrupt_def repair_run_def bindE_Inr retE_def split: if_splits option.splits)
    ultimately show ?thesis using run(1) by blast
  qed
  have ended: "\<exists>r x. get_run i s = Some r \<and> \<not> terminal_run (rr_status r) \<and>
      Option.bind (rr_outcome r) oc_stopRequested = Some True \<and>
      get_run i s' = Some x \<and> rr_status x = RInterrupted \<and>
      oc_interruptedBy (the_outcome (rr_outcome x)) =
        Some (if oc_stopRequestedByAgent (the_outcome (rr_outcome r)) = None then ByUser else ByAgent)"
    if i: "i \<in> set (somes ys)" for i
  proof -
    from i obtain r where r: "r \<in> set ?rs" "rr_runId r = i" "Option.bind (rr_outcome r) oc_stopRequested = Some True"
      using asked by blast
    with e(5) i obtain x where x: "get_run i s' = Some x" "rr_status x = RInterrupted"
      "rr_outcome x = terminal_outcome (rr_outcome r) (Some user_stop)" by fastforce
    from live [OF r(1)] r(2,3) x(1,2) show ?thesis
      by (intro exI [of _ r] exI [of _ x]) (simp add: x(3) user_stop_stored)
  qed
  have rest: "get_run i s' = get_run i s" if i: "i \<notin> set (somes ys)" for i
  proof (cases "i \<in> rr_runId ` set ?rs")
    case True
    then obtain r where r: "r \<in> set ?rs" "rr_runId r = i" by blast
    with e(5) i live(1) [OF r(1)] show ?thesis by fastforce
  qed (use e(6) in blast)
  have "forced_interrupts now s = (Inr (somes ys), s')"
    by (simp add: forced_interrupts_def repair_all_def then_job_def commit_def retE_def e(1))
  with e(2,3) ended rest show ?thesis by blast
qed

text \<open>A thread with a silent running run that was asked to stop, and one call of a tool of an ended run.\<close>

definition stopping_run :: run_record where
  "stopping_run = \<lparr>rr_runId = run_id ''t'' 2, rr_threadId = ''t'', rr_ordinal = 2, rr_status = RRunning, rr_epoch = 2,
         rr_activeAttemptId = None, rr_source = ''user'', rr_clientRequestId = None, rr_userMessageId = None,
         rr_requestedAt = 3, rr_startedAt = Some 4, rr_completedAt = None,
         rr_outcome = Some (empty_outcome\<lparr>oc_stopRequested := Some True\<rparr>), rr_heartbeatAt = Some 5,
         rr_accessGrant = None, rr_stopGeneration = 0\<rparr>"

definition repair_example :: store where
  "repair_example = (empty_store 5 nat_str)\<lparr>
     runs := [\<lparr>rr_runId = run_id ''t'' 1, rr_threadId = ''t'', rr_ordinal = 1, rr_status = RCompleted, rr_epoch = 3,
         rr_activeAttemptId = None, rr_source = ''user'', rr_clientRequestId = None, rr_userMessageId = None,
         rr_requestedAt = 1, rr_startedAt = Some 1, rr_completedAt = Some 2, rr_outcome = None, rr_heartbeatAt = None,
         rr_accessGrant = None, rr_stopGeneration = 0\<rparr>,
       stopping_run],
     tools := [\<lparr>ti_invocationId = ''c'', ti_runId = run_id ''t'' 1, ti_attemptId = ''a'', ti_tool = ''bash'',
       ti_idempotent = False, ti_status = TStarted, ti_argsDigest = [], ti_startedAt = 2, ti_completedAt = None\<rparr>],
     events := [\<lparr>ev_seq = 1, ev_threadId = ''t'', ev_runId = Some (run_id ''t'' 2), ev_type = ''run.status'',
       ev_payload = EvRun stopping_run, ev_createdAt = 6\<rparr>], next_seq := 2\<rparr>"

lemma repair_example_ok: "engine_ok repair_example"
proof -
  have "outbox_ok repair_example"
    by (simp add: outbox_ok_def repair_example_def empty_store_def held_def task_ok_def fresh_uuids_def inbox_ok_def
      effect_ok_def delivery_local_def inj_def settled_except_def settled_no_task)
  moreover have "distinct (map rr_runId (runs repair_example))" by code_simp
  then have "runs_ok repair_example"
    by (simp add: runs_ok_def repair_example_def stopping_run_def)
  ultimately show ?thesis
    by (simp add: engine_ok_def repair_example_def stopping_run_def attempts_ok_def empty_store_def)
qed

lemma stale_runs_complete_witness:
  "\<exists>s'. stale_runs 10000 (\<lambda>_. Some None) 99999 repair_example = (Inr [run_id ''t'' 2], s') \<and>
     map_option rr_status (get_run (run_id ''t'' 2) s') = Some RInterrupted"
proof -
  let ?due = "\<lambda>r. (rr_status r = RRunning \<or> rr_status r = RFinalizing) \<and>
    silent_too_long 10000 (\<lambda>_. Some None) 99999 r \<and> \<not> has_running_effect r repair_example"
  have "case get_run (run_id ''t'' 2) repair_example of None \<Rightarrow> False | Some r \<Rightarrow> ?due r" by code_simp
  then obtain r where r: "get_run (run_id ''t'' 2) repair_example = Some r" "?due r" by (auto split: option.splits)
  have "fst (stale_runs 10000 (\<lambda>_. Some None) 99999 repair_example) = Inr [run_id ''t'' 2]" by code_simp
  with stale_runs_complete [OF repair_example_ok, of 10000 "\<lambda>_. Some None" 99999] r show ?thesis
    by fastforce
qed

lemma forced_interrupts_safe_witness:
  "\<exists>s'. forced_interrupts 99999 repair_example = (Inr [run_id ''t'' 2], s') \<and>
     map_option rr_status (get_run (run_id ''t'' 2) s') = Some RInterrupted \<and>
     get_run (run_id ''t'' 1) s' = get_run (run_id ''t'' 1) repair_example"
proof -
  have "fst (forced_interrupts 99999 repair_example) = Inr [run_id ''t'' 2]" by code_simp
  moreover have "run_id ''t'' 1 \<noteq> run_id ''t'' 2" by code_simp
  ultimately show ?thesis
    using forced_interrupts_safe [OF repair_example_ok, of 99999] by fastforce
qed

section \<open>Rule 6\<close>

definition lost_tool :: "store \<Rightarrow> tool_invocation \<Rightarrow> bool" where
  "lost_tool s t \<longleftrightarrow> ti_status t = TStarted \<and>
     (case get_run (ti_runId t) s of None \<Rightarrow> False | Some r \<Rightarrow> terminal_run (rr_status r))"

definition lost :: "nat \<Rightarrow> tool_invocation \<Rightarrow> tool_invocation" where
  "lost now t = t\<lparr>ti_status := TOutcomeUnknown, ti_completedAt := Some now\<rparr>"

lemma filter_run:
  assumes "runs_ok s"
  shows "filter (\<lambda>r. rr_runId r = i \<and> P r) (runs s) =
    (case get_run i s of None \<Rightarrow> [] | Some r \<Rightarrow> if P r then [r] else [])"
proof -
  have "filter (\<lambda>r. rr_runId r = i \<and> P r) rs =
      (case lookup_row rr_runId i rs of None \<Rightarrow> [] | Some r \<Rightarrow> if P r then [r] else [])"
    if "distinct (map rr_runId rs)" for rs
    using that
  proof (induction rs)
    case (Cons a rs)
    show ?case
    proof (cases "rr_runId a = i")
      case True
      then have "filter (\<lambda>r. rr_runId r = i \<and> P r) rs = []"
        using Cons.prems imageI [of _ "set rs" rr_runId]
        unfolding filter_empty_conv by (metis distinct.simps(2) list.simps(9) set_map)
      with True show ?thesis by (simp add: lookup_row_def)
    qed (use Cons in \<open>simp add: lookup_row_def\<close>)
  qed (simp add: lookup_row_def)
  with runs_okD(1) [OF assms] show ?thesis by (simp add: get_run_def)
qed

lemma started_of_terminal_lost:
  assumes "runs_ok s"
  shows "map fst (started_of_terminal s) = filter (lost_tool s) (tools s)"
    "\<forall>(t, r) \<in> set (started_of_terminal s). get_run (ti_runId t) s = Some r"
proof -
  have "map fst (concat (map (\<lambda>t. map (\<lambda>r. (t, r)) (filter (\<lambda>r. rr_runId r = ti_runId t \<and> terminal_run (rr_status r)) (runs s)))
      (filter (\<lambda>t. ti_status t = TStarted) ts))) = filter (lost_tool s) ts" for ts
    by (induction ts) (auto simp: lost_tool_def filter_run [OF assms] split: option.splits)
  then show "map fst (started_of_terminal s) = filter (lost_tool s) (tools s)"
    by (simp add: started_of_terminal_def)
  show "\<forall>(t, r) \<in> set (started_of_terminal s). get_run (ti_runId t) s = Some r"
    using mem_get_run [OF assms] by (auto simp: started_of_terminal_def) (metis)
qed

lemma mark_lost_tool_run:
  assumes "distinct (map ti_invocationId (tools s))" "t \<in> set (tools s)" "ti_status t = TStarted"
    "get_run (ti_runId t) s = Some r"
  shows "\<exists>s'. mark_lost_tool now (t, r) s = Inr (Some (ti_invocationId t), s') \<and> runs s' = runs s \<and>
    tools s' = map (\<lambda>x. if x = t then lost now x else x) (tools s)"
proof -
  let ?hit = "\<lambda>x. ti_invocationId x = ti_invocationId t \<and> ti_status x = TStarted"
  have one: "changes ?hit (tools s) = 1"
    by (rule changes_unique [of ti_invocationId _ t]) (use assms in auto)
  have "?hit x \<longleftrightarrow> x = t" if "x \<in> set (tools s)" for x
    using distinct_key_unique [OF assms(1) that assms(2)] assms(3) by auto
  then have upd: "update_rows ?hit (lost now) (tools s) = map (\<lambda>x. if x = t then lost now x else x) (tools s)"
    by (simp add: update_rows_def)
  have get: "get_tool (ti_invocationId t) s = Some t"
    using lookup_row_mem [OF assms(1,2)] by (simp add: get_tool_def)
  have run: "get_run i (s\<lparr>tools := ts\<rparr>) = get_run i s" for i ts by (simp add: get_run_def)
  have "settle_tool TOutcomeUnknown (ti_invocationId t) now s = Inr (Some (lost now t),
      tool_recorded (rr_threadId r) (lost now t) (s\<lparr>tools := update_rows ?hit (lost now) (tools s)\<rparr>))"
    using get assms(3,4) one by (simp add: settle_tool_def Let_def thread_of_def run lost_def [abs_def])
  then show ?thesis
    by (simp add: mark_lost_tool_def mark_outcome_unknown_def bindE_run modE_def retE_def upd tool_recorded_def)
qed

lemma mark_lost_each:
  assumes "distinct (map ti_invocationId (tools s))" "distinct (map fst found)"
    and "\<forall>(t, r) \<in> set found. t \<in> set (tools s) \<and> ti_status t = TStarted \<and> get_run (ti_runId t) s = Some r"
  shows "\<exists>s'. commit_each found (mark_lost_tool now) s =
      (Inr (map (\<lambda>(t, r). Some (ti_invocationId t)) found), s') \<and> runs s' = runs s \<and>
    tools s' = map (\<lambda>x. if x \<in> fst ` set found then lost now x else x) (tools s)"
  using assms
proof (induction found arbitrary: s)
  case (Cons p found)
  obtain t r where p: "p = (t, r)" by (cases p)
  have t: "t \<in> set (tools s)" "ti_status t = TStarted" "get_run (ti_runId t) s = Some r"
    using Cons.prems(3) by (simp_all add: p)
  obtain s1 where s1: "mark_lost_tool now (t, r) s = Inr (Some (ti_invocationId t), s1)" "runs s1 = runs s"
    "tools s1 = map (\<lambda>x. if x = t then lost now x else x) (tools s)"
    using mark_lost_tool_run [OF Cons.prems(1) t] by blast
  have d: "distinct (map ti_invocationId (tools s1))"
  proof -
    have "map ti_invocationId (tools s1) = map ti_invocationId (tools s)" by (simp add: s1(3) lost_def)
    with Cons.prems(1) show ?thesis by simp
  qed
  have ne: "x \<noteq> t" if "(x, y) \<in> set found" for x y
    using Cons.prems(2) that by (force simp: p)
  have rest: "\<forall>(x, y) \<in> set found. x \<in> set (tools s1) \<and> ti_status x = TStarted \<and> get_run (ti_runId x) s1 = Some y"
    using Cons.prems(3) ne s1(2) by (fastforce simp: s1(3) get_run_def)
  obtain s' where s': "commit_each found (mark_lost_tool now) s1 = (Inr (map (\<lambda>(t, r). Some (ti_invocationId t)) found), s')"
    "runs s' = runs s1" "tools s' = map (\<lambda>x. if x \<in> fst ` set found then lost now x else x) (tools s1)"
    using Cons.IH [OF d _ rest] Cons.prems(2) by auto
  have "lost now t \<notin> fst ` set found"
    using rest by (fastforce simp: lost_def)
  then have "tools s' = map (\<lambda>x. if x \<in> fst ` set (p # found) then lost now x else x) (tools s)"
    using ne by (auto simp: s'(3) s1(3) p)
  with s'(1,2) s1(1,2) show ?case by (simp add: p)
qed simp

text \<open>
  Rule 6 of the reconciler is complete: it never fails, every tool call that was still \<open>started\<close>
  when its run had ended becomes \<open>outcome_unknown\<close>, is returned, and no other call and no run changes;
  afterwards no started call belongs to an ended run.
\<close>

theorem lost_tools_marked:
  assumes "runs_ok s" "distinct (map ti_invocationId (tools s))"
  shows "\<exists>s'. tools_on_terminal_runs now s = (Inr (map ti_invocationId (filter (lost_tool s) (tools s))), s') \<and>
    runs s' = runs s \<and> tools s' = map (\<lambda>t. if lost_tool s t then lost now t else t) (tools s) \<and>
    (\<forall>t \<in> set (tools s'). \<not> lost_tool s' t)"
proof -
  note found = started_of_terminal_lost [OF assms(1)]
  have mem: "fst ` set (started_of_terminal s) = {t \<in> set (tools s). lost_tool s t}"
    using arg_cong [OF found(1), of set] by (auto simp flip: set_map)
  have d: "distinct (map fst (started_of_terminal s))"
    using assms(2) by (simp add: found(1) distinct_map)
  have each: "\<forall>(t, r) \<in> set (started_of_terminal s).
      t \<in> set (tools s) \<and> ti_status t = TStarted \<and> get_run (ti_runId t) s = Some r"
    using found(2) mem by (force simp: lost_tool_def)
  obtain s' where s': "commit_each (started_of_terminal s) (mark_lost_tool now) s =
      (Inr (map (\<lambda>(t, r). Some (ti_invocationId t)) (started_of_terminal s)), s')" "runs s' = runs s"
    "tools s' = map (\<lambda>x. if x \<in> fst ` set (started_of_terminal s) then lost now x else x) (tools s)"
    using mark_lost_each [OF assms(2) d each] by blast
  have tools: "tools s' = map (\<lambda>t. if lost_tool s t then lost now t else t) (tools s)"
    using s'(3) by (simp add: mem)
  have "somes (map (\<lambda>(t, r). Some (ti_invocationId t)) xs) = map ti_invocationId (map fst xs)"
    for xs :: "(tool_invocation \<times> run_record) list"
    by (induction xs) (auto simp: somes_def map_filter_simps)
  then have "tools_on_terminal_runs now s = (Inr (map ti_invocationId (filter (lost_tool s) (tools s))), s')"
    by (simp add: tools_on_terminal_runs_def then_job_def commit_def retE_def s'(1) flip: found(1))
  moreover have "\<not> lost_tool s' t" if "t \<in> set (tools s')" for t
    using that by (auto simp: tools lost_tool_def lost_def get_run_def s'(2))
  ultimately show ?thesis using s'(2) tools by blast
qed

lemma lost_tools_marked_witness:
  "\<exists>s'. tools_on_terminal_runs 9 repair_example = (Inr [''c''], s') \<and> (\<forall>t \<in> set (tools s'). \<not> lost_tool s' t)"
proof -
  have "runs_ok repair_example" using repair_example_ok by (simp add: engine_ok_def)
  moreover have "distinct (map ti_invocationId (tools repair_example))" by (simp add: repair_example_def)
  moreover have "map ti_invocationId (filter (lost_tool repair_example) (tools repair_example)) = [''c'']" by code_simp
  ultimately show ?thesis using lost_tools_marked [of repair_example 9] by auto
qed

end
