(* ===== verification/Approvals.thy ===== *)
theory Approvals
  imports Terminal Notice
begin

text \<open>
  Approval requests (\<open>src/mms/run/ThreadApprovals.ts\<close>, \<open>approvalRights.ts\<close>): who may answer one, the one
  place one is settled, the standing rules an answer makes, the delivery of answers to the run that
  continues, recovery at boot and the one-shot continuation grants. The redaction of secrets is a
  parameter: it is a list of regular expressions of \<open>src/shared/errors.ts\<close>.
\<close>

section \<open>Who may answer\<close>

datatype project_access = ProjectAllowed bool | ProjectThrows

record agent_approval_access =
  aa_level :: access_level
  aa_answerApprovals :: bool
  aa_projectAllowed :: "string \<Rightarrow> project_access"

datatype answerer =
    UserAnswerer (an_via: "client_kind option") (an_node: "string option") (an_maxPermissionMode: "permission_mode option")
  | AgentAnswerer (an_threadId: string) (an_runId: string) (an_permissionMode: permission_mode)
      (an_toolCallId: "string option") (an_access: "agent_approval_access option")

datatype approval_refusal =
    OwnRequest | PersonOnly | PersonTurn | NotParent | ApprovalsDisabled | ProjectNotAllowed | ModeForbids
  | AgentNoStandingGrant | BridgeNoStandingGrant | DeviceModeForbids

definition truthy :: "string option \<Rightarrow> bool" where
  "truthy v \<longleftrightarrow> v \<noteq> None \<and> v \<noteq> Some []"

definition LINEAGE_MAX_DEPTH :: nat where
  "LINEAGE_MAX_DEPTH = 64"

text \<open>The threads above one, nearest first; the fuel is the depth the code stops at.\<close>

fun ancestors_from :: "nat \<Rightarrow> string \<Rightarrow> string list \<Rightarrow> store \<Rightarrow> string list" where
  "ancestors_from 0 current out s = out"
| "ancestors_from (Suc n) current out s =
     (case get_lineage current s of
        None \<Rightarrow> out
      | Some link \<Rightarrow>
          if ln_parentThreadId link \<in> set out then out
          else ancestors_from n (ln_parentThreadId link) (out @ [ln_parentThreadId link]) s)"

definition ancestors_of :: "string \<Rightarrow> store \<Rightarrow> string list" where
  "ancestors_of threadId s = ancestors_from LINEAGE_MAX_DEPTH threadId [] s"

definition is_own_subagent :: "string \<Rightarrow> string \<Rightarrow> store \<Rightarrow> bool" where
  "is_own_subagent threadId parent s =
     (case get_lineage threadId s of
        None \<Rightarrow> False
      | Some link \<Rightarrow> ln_parentThreadId link = parent \<and> ln_relationship link = Subagent)"

definition access_refusal :: "string \<Rightarrow> string \<Rightarrow> agent_approval_access option \<Rightarrow> store \<Rightarrow> approval_refusal option" where
  "access_refusal requestThread agent acc s =
     (case acc of
        None \<Rightarrow> Some NotParent
      | Some a \<Rightarrow>
          if aa_level a \<noteq> Manage then Some NotParent
          else if (case get_lineage requestThread s of None \<Rightarrow> False | Some link \<Rightarrow> ln_relationship link = Subagent)
          then Some NotParent
          else
            let above = ancestors_of requestThread s; mine = ancestors_of agent s in
            if agent \<in> set above \<or> requestThread \<in> set mine \<or> list_ex (\<lambda>i. i \<in> set mine) above then Some NotParent
            else if \<not> aa_answerApprovals a then Some ApprovalsDisabled
            else if aa_projectAllowed a requestThread \<noteq> ProjectAllowed True then Some ProjectNotAllowed
            else None)"

definition user_refusal ::
  "client_kind option \<Rightarrow> string option \<Rightarrow> permission_mode option \<Rightarrow> permission_action \<Rightarrow> string option \<Rightarrow>
   approval_decision \<Rightarrow> approval_scope option \<Rightarrow> approval_refusal option" where
  "user_refusal via node maxMode act reason decision scope =
     (if via = Some ViaBridge \<and> decision = DAllow \<and> scope = Some ScopeAlways
      then if \<not> truthy node then Some BridgeNoStandingGrant
        else if truthy reason \<or> \<not> permission_mode_allows (case maxMode of None \<Rightarrow> ModeAsk | Some m \<Rightarrow> m) act
        then Some DeviceModeForbids
        else None
      else None)"

text \<open>\<open>None\<close> is \<open>{ ok: true }\<close>.\<close>

definition can_answer_approval ::
  "string \<Rightarrow> permission_action \<Rightarrow> string option \<Rightarrow> answerer \<Rightarrow> approval_decision \<Rightarrow> approval_scope option \<Rightarrow> store \<Rightarrow>
   approval_refusal option" where
  "can_answer_approval threadId act reason who decision scope s =
     (case who of
        UserAnswerer via node maxMode \<Rightarrow> user_refusal via node maxMode act reason decision scope
      | AgentAnswerer agent run mode call acc \<Rightarrow>
          if threadId = agent then Some OwnRequest
          else if truthy reason then Some PersonOnly
          else case (if is_own_subagent threadId agent s then None else access_refusal threadId agent acc s) of
            Some r \<Rightarrow> Some r
          | None \<Rightarrow>
              if \<not> permission_mode_allows mode act then Some ModeForbids
              else if decision = DAllow \<and> scope = Some ScopeAlways then Some AgentNoStandingGrant
              else None)"

section \<open>What an answer means\<close>

definition first_question :: "approval_question list \<Rightarrow> approval_question option" where
  "first_question qs = (case qs of [] \<Rightarrow> None | q # _ \<Rightarrow> Some q)"

definition answers_for :: "approval_question list \<Rightarrow> approval_decision \<Rightarrow> answers" where
  "answers_for qs decision =
     (case first_question qs of
        None \<Rightarrow> []
      | Some q \<Rightarrow>
          (case List.find (\<lambda>p. ao_decision p = decision \<and> ao_scope p \<noteq> Some ScopeAlways) (aq_options q) of
             None \<Rightarrow> [] | Some opt \<Rightarrow> [(aq_id q, OneAnswer (ao_id opt))]))"

text \<open>\<open>Array.isArray(raw) ? raw[0] : raw\<close>\<close>

definition chosen_of :: "answer_value option \<Rightarrow> string option" where
  "chosen_of v = (case v of None \<Rightarrow> None | Some (OneAnswer x) \<Rightarrow> Some x
     | Some (ManyAnswers xs) \<Rightarrow> (case xs of [] \<Rightarrow> None | x # _ \<Rightarrow> Some x))"

definition meaning_of :: "approval_question list \<Rightarrow> answers \<Rightarrow> approval_decision \<times> approval_scope option" where
  "meaning_of qs ans =
     (case first_question qs of
        None \<Rightarrow> (DReject, None)
      | Some q \<Rightarrow>
          (case List.find (\<lambda>p. Some (ao_id p) = chosen_of (map_of ans (aq_id q))) (aq_options q) of
             None \<Rightarrow> (DReject, None) | Some opt \<Rightarrow> (ao_decision opt, ao_scope opt)))"

definition non_empty :: "string \<Rightarrow> string option" where
  "non_empty x = (if x = [] then None else Some x)"

definition feedback_of :: "answers \<Rightarrow> string option" where
  "feedback_of ans =
     (case map_of ans ''feedback'' of Some (OneAnswer x) \<Rightarrow> map_option (take 2000) (non_empty (trim x)) | _ \<Rightarrow> None)"

definition custom_answer_of :: "approval_question list \<Rightarrow> answers \<Rightarrow> string option" where
  "custom_answer_of qs ans =
     (case first_question qs of
        None \<Rightarrow> None
      | Some q \<Rightarrow>
          (case map_of ans (aq_id q) of
             Some (OneAnswer x) \<Rightarrow>
               let chosen = trim x in
               if chosen = [] \<or> list_ex (\<lambda>p. ao_id p = chosen) (aq_options q) then None else Some (take 2000 chosen)
           | _ \<Rightarrow> None))"

definition AGENT_NOTE_CHARS :: nat where
  "AGENT_NOTE_CHARS = 200"

definition agent_note_of :: "(string \<Rightarrow> string) \<Rightarrow> approval_question list \<Rightarrow> answers \<Rightarrow> string" where
  "agent_note_of redact qs ans =
     (case or_else (feedback_of ans) (custom_answer_of qs ans) of
        None \<Rightarrow> [] | Some raw \<Rightarrow> take AGENT_NOTE_CHARS (trim (squeeze (redact raw))))"

definition agent_rejection_feedback :: "string \<Rightarrow> string \<Rightarrow> string" where
  "agent_rejection_feedback agentThreadId note =
     ''Rejected by an agent in thread '' @ agentThreadId @ '', not by the user.'' @
     (if note = [] then [] else '' Its note: '' @ [char_of (34::nat)] @ note @ [char_of (34::nat)])"

definition once_allow_option :: "approval_question list \<Rightarrow> approval_option option" where
  "once_allow_option qs =
     (case first_question qs of
        None \<Rightarrow> None
      | Some q \<Rightarrow> List.find (\<lambda>p. ao_decision p = DAllow \<and> ao_scope p \<noteq> Some ScopeAlways) (aq_options q))"

fun stored_answerer :: "answerer \<Rightarrow> answered_by" where
  "stored_answerer (UserAnswerer via node mode) = AnsweredUser via (if truthy node then node else None)"
| "stored_answerer (AgentAnswerer threadId run mode call acc) = AnsweredAgent threadId run (if truthy call then call else None)"

fun is_user :: "answerer \<Rightarrow> bool" where
  "is_user (UserAnswerer _ _ _) = True"
| "is_user (AgentAnswerer _ _ _ _ _) = False"

section \<open>Rows and events\<close>

definition get_approval :: "string \<Rightarrow> store \<Rightarrow> approval_row option" where
  "get_approval requestId s = lookup_row ap_requestId requestId (approvals s)"

definition select_approvals :: "(approval_row \<Rightarrow> bool) \<Rightarrow> store \<Rightarrow> approval_row list" where
  "select_approvals cond s = by_created ap_createdAt (filter cond (approvals s))"

definition approval_event :: "string \<Rightarrow> approval_row \<Rightarrow> (string \<times> json) list \<Rightarrow> store \<Rightarrow> store" where
  "approval_event type row payload =
     append_event (ap_threadId row) (ap_runId row) type (EvJson (JObj ((''requestId'', JStr (ap_requestId row)) # payload)))"

text \<open>\<open>UPDATE approval_requests SET \<dots> WHERE request_id = ? AND cond\<close>\<close>

definition update_approval :: "string \<Rightarrow> (approval_row \<Rightarrow> bool) \<Rightarrow> (approval_row \<Rightarrow> approval_row) \<Rightarrow> store \<Rightarrow> store" where
  "update_approval requestId cond f s =
     s\<lparr>approvals := update_rows (\<lambda>a. ap_requestId a = requestId \<and> cond a) f (approvals s)\<rparr>"

definition approval_changes :: "string \<Rightarrow> (approval_row \<Rightarrow> bool) \<Rightarrow> store \<Rightarrow> nat" where
  "approval_changes requestId cond s = changes (\<lambda>a. ap_requestId a = requestId \<and> cond a) (approvals s)"

fun decision_text :: "approval_decision \<Rightarrow> string" where
  "decision_text DAllow = ''allow''" | "decision_text DReject = ''reject''"

fun scope_text :: "approval_scope \<Rightarrow> string" where
  "scope_text ScopeOnce = ''once''" | "scope_text ScopeAlways = ''always''"

fun path_text :: "answer_path \<Rightarrow> string" where
  "path_text PathLive = ''live''" | "path_text PathContinue = ''continue''"

fun action_text :: "permission_action \<Rightarrow> string" where
  "action_text ActCommand = ''command''" | "action_text ActEdit = ''edit''" | "action_text ActTool = ''tool''"

fun mode_text :: "permission_mode \<Rightarrow> string" where
  "mode_text ModeAsk = ''ask''" | "mode_text ModeAcceptEdits = ''accept_edits''" | "mode_text ModeAuto = ''auto''"
| "mode_text ModeFull = ''full''"

fun via_text :: "client_kind \<Rightarrow> string" where
  "via_text ViaGui = ''gui''" | "via_text ViaCli = ''cli''" | "via_text ViaBridge = ''bridge''" | "via_text ViaInternal = ''internal''"

definition opt_str :: "string \<Rightarrow> string option \<Rightarrow> (string \<times> json) list" where
  "opt_str k v = (case v of None \<Rightarrow> [] | Some x \<Rightarrow> [(k, JStr x)])"

fun answered_by_json :: "answered_by \<Rightarrow> json" where
  "answered_by_json (AnsweredUser via node) =
     JObj ([(''kind'', JStr ''user'')] @ opt_str ''via'' (map_option via_text via) @ opt_str ''node'' node)"
| "answered_by_json (AnsweredAgent threadId run call) =
     JObj ([(''kind'', JStr ''agent''), (''threadId'', JStr threadId), (''runId'', JStr run)] @ opt_str ''toolCallId'' call)"

record new_approval =
  na_requestId :: string
  na_threadId :: string
  na_runId :: "string option"
  na_instanceId :: string
  na_provider :: string
  na_action :: permission_action
  na_permissionKey :: string
  na_fingerprint :: "string option"
  na_questions :: "approval_question list"
  na_reason :: "string option"
  na_answerPath :: "answer_path option"
  na_permissionMode :: "permission_mode option"

definition create_approval :: "new_approval \<Rightarrow> approval_row run_txn" where
  "create_approval input s =
     (let row = \<lparr>ap_requestId = na_requestId input, ap_threadId = na_threadId input, ap_runId = na_runId input,
        ap_instanceId = na_instanceId input, ap_provider = na_provider input, ap_action = na_action input,
        ap_permissionKey = na_permissionKey input, ap_fingerprint = na_fingerprint input, ap_questions = na_questions input,
        ap_reason = na_reason input, ap_permissionMode = na_permissionMode input,
        ap_answerPath = (case na_answerPath input of None \<Rightarrow> PathLive | Some p \<Rightarrow> p), ap_uncertain = False,
        ap_uncertainTools = None, ap_status = PPending, ap_answers = None, ap_decision = None, ap_decisionScope = None,
        ap_feedback = None, ap_answeredBy = None, ap_cancelReason = None, ap_continuationRunId = None,
        ap_grantConsumedAt = None, ap_deliveredAt = None, ap_createdAt = clock s, ap_settledAt = None\<rparr> in
      if get_approval (na_requestId input) s \<noteq> None then Inl Conflict
      else Inr (row, approval_event ''approval.pending'' row
        [(''action'', JStr (action_text (ap_action row))), (''permissionKey'', JStr (ap_permissionKey row)),
         (''answerPath'', JStr (path_text (ap_answerPath row)))] (s\<lparr>approvals := approvals s @ [row]\<rparr>)))"

definition list_pending_approvals :: "string option \<Rightarrow> store \<Rightarrow> approval_row list" where
  "list_pending_approvals threadId =
     select_approvals (\<lambda>a. ap_status a = PPending \<and> (case threadId of None \<Rightarrow> True | Some t \<Rightarrow> ap_threadId a = t))"

text \<open>The newest \<open>limit\<close> rows of the thread, oldest first.\<close>

definition approvals_for_thread :: "string \<Rightarrow> nat \<Rightarrow> store \<Rightarrow> approval_row list" where
  "approvals_for_thread threadId limit s =
     rev (take limit (rev (by_created ap_createdAt (filter (\<lambda>a. ap_threadId a = threadId) (approvals s)))))"

definition pending_for_run :: "string \<Rightarrow> store \<Rightarrow> approval_row list" where
  "pending_for_run runId = select_approvals (\<lambda>a. ap_status a = PPending \<and> ap_runId a = Some runId)"

definition list_undelivered :: "store \<Rightarrow> approval_row list" where
  "list_undelivered = select_approvals (\<lambda>a. ap_status a = PAnswered \<and> ap_deliveredAt a = None)"

definition delivered_to_run :: "string \<Rightarrow> store \<Rightarrow> approval_row list" where
  "delivered_to_run runId = select_approvals (\<lambda>a. ap_continuationRunId a = Some runId)"

definition approval_progress :: "approval_row \<Rightarrow> store \<Rightarrow> (nat \<times> nat) option" where
  "approval_progress row s =
     (if ap_answerPath row \<noteq> PathContinue then None
      else case ap_runId row of
        None \<Rightarrow> None
      | Some runId \<Rightarrow>
          if runId = [] then None
          else let rows = select_approvals (\<lambda>a. ap_runId a = Some runId \<and> ap_answerPath a = PathContinue \<and>
                 (ap_status a = PPending \<or> ap_status a = PAnswered \<and> ap_deliveredAt a = None)) s
               in Some (length (filter (\<lambda>a. ap_status a = PAnswered) rows), length rows))"

end
