(* ===== verification/QueueItems.thy ===== *)
theory QueueItems
  imports Approvals Json "HOL-Library.Product_Lexorder"
begin

text \<open>
  The messages queued on a thread (\<open>src/mms/queue/ThreadMessageQueue.ts\<close>, the types of
  \<open>src/shared/types.ts\<close>): the item, how a stored queue is read (\<open>normalizeQueuedMessages\<close>), the
  order of the queue and the revision a caller reads. Fields carry the prefix \<open>q_\<close>; an optional field
  that is \<open>undefined\<close> is \<open>None\<close>. \<open>coll\<close> is the collation key of \<open>localeCompare\<close> and
  \<open>digest\<close> the SHA-256 digest in hexadecimal; both are parameters. Orders are integers, as every
  order the code writes is.
\<close>

section \<open>Data\<close>

text \<open>\<open>BuiltInChatMode | SkillChatMode\<close>; a skill mode is kept as the object it is.\<close>

datatype chat_mode = NamedMode string | SkillMode "(string \<times> json) list"

datatype queue_intent = IntentNormal | IntentSteer

datatype queue_state = QPending | QSteering | QClaimed | QDrained | QRemoved

record queue_claim =
  cl_ownerPid :: int
  cl_ownerToken :: string
  cl_claimedAt :: string
  cl_source :: "string option"

record agent_origin =
  ag_threadId :: string
  ag_runId :: string
  ag_hops :: "int option"

datatype queue_origin =
    FromSchedule (qo_jobId: string) (qo_occurrenceKey: string) (qo_jobName: "string option") (qo_selection: "json option")
  | FromAgent agent_origin

record queued_message =
  q_id :: string
  q_threadId :: string
  q_content :: string
  q_workflowInvocationId :: "string option"
  q_mode :: "chat_mode option"
  q_images :: "json list option"
  q_enqueuedAt :: string
  q_order :: int
  q_intent :: queue_intent
  q_state :: queue_state
  q_claim :: "queue_claim option"
  q_source :: "string option"
  q_internal :: bool
  q_runId :: "string option"
  q_continuationOfRunId :: "string option"
  q_inboxIds :: "string list option"
  q_subagentNotice :: "json list option"
  q_stopGeneration :: "int option"
  q_permissionMode :: "permission_mode option"
  q_sentFrom :: "string option"
  q_steerRunId :: "string option"
  q_origin :: "queue_origin option"

text \<open>
  \<open>QueueConflictError\<close> carries a stable code, \<open>QueueValidationError\<close> and \<open>QueueAccessError\<close>
  a message; a \<open>QDomain\<close> error is a \<open>DomainRpcError\<close> by its code, a \<open>QFault\<close> a plain
  \<open>Error\<close>.
\<close>

datatype queue_conflict_code =
    RevisionMismatch | QueueItemNotFound | ItemSteering | RunNotActive | RunPaused | CeilingExceeded
  | QuestionsPending | RunNotReady | ItemStarted | RequestConflict | CommandFailed

datatype queue_error =
    QConflict queue_conflict_code
  | QValidation string
  | QAccess string
  | QDomain string
  | QFault string

section \<open>Modes and identifiers\<close>

fun jtruthy :: "json option \<Rightarrow> bool" where
  "jtruthy None = False"
| "jtruthy (Some JUndef) = False"
| "jtruthy (Some JNull) = False"
| "jtruthy (Some (JBool b)) = b"
| "jtruthy (Some (JNum n)) = (n \<noteq> 0)"
| "jtruthy (Some (JStr x)) = (x \<noteq> [])"
| "jtruthy (Some (JArr _)) = True"
| "jtruthy (Some (JObj _)) = True"

text \<open>A member of an object; a member that is \<open>undefined\<close> reads as an absent one.\<close>

definition jget :: "json \<Rightarrow> string \<Rightarrow> json option" where
  "jget j k = (case jfield j k of Some JUndef \<Rightarrow> None | v \<Rightarrow> v)"

definition DEFAULT_CHAT_MODE :: chat_mode where
  "DEFAULT_CHAT_MODE = NamedMode ''agent''"

definition normalize_chat_mode :: "json \<Rightarrow> chat_mode" where
  "normalize_chat_mode mode =
     (if \<not> jtruthy (Some mode) then DEFAULT_CHAT_MODE
      else case mode of
          JStr x \<Rightarrow> NamedMode x
        | JObj kvs \<Rightarrow> if jget mode ''type'' = Some (JStr ''skill'') \<and> jtruthy (jget mode ''skillId'') then SkillMode kvs
                      else DEFAULT_CHAT_MODE
        | _ \<Rightarrow> DEFAULT_CHAT_MODE)"

fun mode_json :: "chat_mode \<Rightarrow> json" where
  "mode_json (NamedMode x) = JStr x"
| "mode_json (SkillMode kvs) = JObj kvs"

fun permission_mode_text :: "permission_mode \<Rightarrow> string" where
  "permission_mode_text ModeAsk = ''ask''"
| "permission_mode_text ModeAcceptEdits = ''accept_edits''"
| "permission_mode_text ModeAuto = ''auto''"
| "permission_mode_text ModeFull = ''full''"

definition PERMISSION_MODES :: "permission_mode list" where
  "PERMISSION_MODES = [ModeAsk, ModeAcceptEdits, ModeAuto, ModeFull]"

text \<open>\<open>isPermissionMode\<close>: the mode a text names, if it names one.\<close>

definition is_permission_mode :: "json option \<Rightarrow> permission_mode option" where
  "is_permission_mode raw =
     (case raw of Some (JStr x) \<Rightarrow> List.find (\<lambda>m. permission_mode_text m = x) PERMISSION_MODES | _ \<Rightarrow> None)"

definition is_hex :: "char \<Rightarrow> bool" where
  "is_hex c = (let n = of_char (ascii_lower c) in 48 \<le> n \<and> n \<le> (57::nat) \<or> 97 \<le> n \<and> n \<le> 102)"

text \<open>\<open>WORKFLOW_UUID_PATTERN\<close>, without regard to case.\<close>

definition is_workflow_uuid :: "string \<Rightarrow> bool" where
  "is_workflow_uuid x \<longleftrightarrow>
     length x = 36 \<and>
     list_all (\<lambda>(i, c). if i \<in> {8, 13, 18, 23} then c = CHR ''-''
        else is_hex c \<and> (i = 14 \<longrightarrow> c \<in> set ''12345678'') \<and> (i = 19 \<longrightarrow> ascii_lower c \<in> set ''89ab''))
       (enumerate 0 x)"

text \<open>\<open>Number.isSafeInteger(n) && n >= 0\<close>\<close>

definition MAX_SAFE_INTEGER :: int where
  "MAX_SAFE_INTEGER = 9007199254740991"

definition counts :: "json option \<Rightarrow> int option" where
  "counts v = (case v of Some (JNum n) \<Rightarrow> if 0 \<le> n \<and> n \<le> MAX_SAFE_INTEGER then Some n else None | _ \<Rightarrow> None)"

text \<open>A non-empty text, as \<open>typeof v === 'string' && v\<close>.\<close>

definition text_of :: "json option \<Rightarrow> string option" where
  "text_of v = (case v of Some (JStr x) \<Rightarrow> if x = [] then None else Some x | _ \<Rightarrow> None)"

section \<open>Reading a stored queue\<close>

definition normalize_claim :: "string \<Rightarrow> json option \<Rightarrow> queue_claim option" where
  "normalize_claim now raw =
     (case raw of None \<Rightarrow> None | Some claim \<Rightarrow>
        case (jget claim ''ownerPid'', jget claim ''ownerToken'') of
          (Some (JNum pid), Some (JStr token)) \<Rightarrow>
            if pid \<le> 0 \<or> trim token = [] then None
            else Some \<lparr>cl_ownerPid = pid, cl_ownerToken = token,
              cl_claimedAt = (case text_of (jget claim ''claimedAt'') of None \<Rightarrow> now | Some t \<Rightarrow> t),
              cl_source = jstring (jget claim ''source'')\<rparr>
        | _ \<Rightarrow> None)"

definition valid_selection :: "json \<Rightarrow> bool" where
  "valid_selection v \<longleftrightarrow>
     jstring (jget v ''llmProvider'') \<noteq> None \<and> jstring (jget v ''model'') \<noteq> None \<and>
     (jget v ''instanceId'' = None \<or> jstring (jget v ''instanceId'') \<noteq> None)"

definition normalize_origin :: "json option \<Rightarrow> queue_origin option" where
  "normalize_origin raw =
     (case raw of None \<Rightarrow> None | Some v \<Rightarrow>
        if jget v ''kind'' = Some (JStr ''agent'') then
          (case (text_of (jget v ''threadId''), text_of (jget v ''runId'')) of
             (Some t, Some r) \<Rightarrow> Some (FromAgent \<lparr>ag_threadId = t, ag_runId = r, ag_hops = counts (jget v ''hops'')\<rparr>)
           | _ \<Rightarrow> None)
        else if jget v ''kind'' \<noteq> Some (JStr ''schedule'') then None
        else
          (case (text_of (jget v ''jobId''), text_of (jget v ''occurrenceKey'')) of
             (Some job, Some key) \<Rightarrow> Some (FromSchedule job key (text_of (jget v ''jobName''))
               (case jget v ''selection'' of
                  Some sel \<Rightarrow> if valid_selection sel then Some sel else None
                | None \<Rightarrow> None))
           | _ \<Rightarrow> None))"

fun state_text :: "queue_state \<Rightarrow> string" where
  "state_text QPending = ''pending''"
| "state_text QSteering = ''steering''"
| "state_text QClaimed = ''claimed''"
| "state_text QDrained = ''drained''"
| "state_text QRemoved = ''removed''"

definition recognized_state :: "json option \<Rightarrow> queue_state option" where
  "recognized_state v =
     (case v of Some (JStr x) \<Rightarrow> List.find (\<lambda>st. state_text st = x) [QPending, QSteering, QClaimed, QDrained, QRemoved]
      | _ \<Rightarrow> None)"

fun intent_text :: "queue_intent \<Rightarrow> string" where
  "intent_text IntentNormal = ''normal''"
| "intent_text IntentSteer = ''steer''"

definition all_texts :: "json option \<Rightarrow> string list option" where
  "all_texts v = (case v of
     Some (JArr xs) \<Rightarrow> if xs \<noteq> [] \<and> list_all (\<lambda>x. jstring (Some x) \<noteq> None) xs then Some (jstrings v) else None
   | _ \<Rightarrow> None)"

definition jarray :: "json option \<Rightarrow> json list option" where
  "jarray v = (case v of Some (JArr xs) \<Rightarrow> Some xs | _ \<Rightarrow> None)"

text \<open>
  One entry: \<open>Inl\<close> refuses the whole queue, \<open>Inr None\<close> drops the entry. \<open>n\<close> is the
  number of items kept before it.
\<close>

definition invalid_receipt :: "json \<Rightarrow> bool" where
  "invalid_receipt j \<longleftrightarrow>
     (case jget j ''workflowInvocationId'' of
        None \<Rightarrow> False
      | Some (JStr x) \<Rightarrow> \<not> is_workflow_uuid x \<or> jget j ''intent'' = Some (JStr ''steer'')
      | Some _ \<Rightarrow> True)"

definition read_item :: "string \<Rightarrow> nat \<Rightarrow> json \<Rightarrow> string \<Rightarrow> string \<Rightarrow> string \<Rightarrow> queue_state \<Rightarrow> queued_message" where
  "read_item now n j itemId threadId content state =
     \<lparr>q_id = itemId, q_threadId = threadId, q_content = content,
      q_workflowInvocationId = jstring (jget j ''workflowInvocationId''),
      q_mode = map_option normalize_chat_mode (jget j ''mode''),
      q_images = jarray (jget j ''images''),
      q_enqueuedAt = (case text_of (jget j ''enqueuedAt'') of None \<Rightarrow> now | Some t \<Rightarrow> t),
      q_order = (case jget j ''order'' of Some (JNum k) \<Rightarrow> k | _ \<Rightarrow> int n),
      q_intent = (if jget j ''intent'' = Some (JStr ''steer'') then IntentSteer else IntentNormal),
      q_state = state,
      q_claim = (if state = QClaimed then normalize_claim now (jget j ''claim'') else None),
      q_source = jstring (jget j ''source''),
      q_internal = (jget j ''internal'' = Some (JBool True)),
      q_runId = text_of (jget j ''runId''),
      q_continuationOfRunId = text_of (jget j ''continuationOfRunId''),
      q_inboxIds = all_texts (jget j ''inboxIds''),
      q_subagentNotice = (case jarray (jget j ''subagentNotice'') of Some [] \<Rightarrow> None | v \<Rightarrow> v),
      q_stopGeneration = counts (jget j ''stopGeneration''),
      q_permissionMode = is_permission_mode (jget j ''permissionMode''),
      q_sentFrom = Option.bind (jget j ''sentFrom'') (\<lambda>v. text_of (jget v ''node'')),
      q_steerRunId = (if state = QSteering then text_of (jget j ''steerRunId'') else None),
      q_origin = normalize_origin (jget j ''origin'')\<rparr>"

definition normalize_entry ::
  "string \<Rightarrow> string option \<Rightarrow> nat \<Rightarrow> json \<Rightarrow> queue_error + queued_message option" where
  "normalize_entry now threadId n j =
     (case (jget j ''id'', jget j ''threadId'', jget j ''content'') of
        (Some (JStr itemId), Some (JStr thread), Some (JStr content)) \<Rightarrow>
          if trim itemId = [] \<or> trim thread = [] \<or> truthy threadId \<and> threadId \<noteq> Some thread then Inr None
          else if invalid_receipt j then Inl (QValidation ''Invalid workflow queue receipt; refusing ordinary prompt fallback'')
          else
            let recognized = recognized_state (jget j ''state'') in
            if recognized = Some QDrained \<or> recognized = Some QRemoved then Inr None
            else Inr (Some (read_item now n j itemId thread content (case recognized of None \<Rightarrow> QPending | Some st \<Rightarrow> st)))
      | _ \<Rightarrow> Inr None)"

fun normalize_entries ::
  "string \<Rightarrow> string option \<Rightarrow> nat \<Rightarrow> json list \<Rightarrow> queue_error + queued_message list" where
  "normalize_entries now threadId n [] = Inr []"
| "normalize_entries now threadId n (j # js) =
     (case normalize_entry now threadId n j of
        Inl e \<Rightarrow> Inl e
      | Inr None \<Rightarrow> normalize_entries now threadId n js
      | Inr (Some q) \<Rightarrow> map_sum id (\<lambda>qs. q # qs) (normalize_entries now threadId (Suc n) js))"

section \<open>The order of the queue\<close>

definition queue_key :: "(string \<Rightarrow> string) \<Rightarrow> queued_message \<Rightarrow> int \<times> string \<times> string" where
  "queue_key coll q = (q_order q, coll (q_enqueuedAt q), coll (q_id q))"

definition sort_queue :: "(string \<Rightarrow> string) \<Rightarrow> queued_message list \<Rightarrow> queued_message list" where
  "sort_queue coll items = sort_key (queue_key coll) items"

definition normalize_queued_messages ::
  "(string \<Rightarrow> string) \<Rightarrow> string \<Rightarrow> json \<Rightarrow> string option \<Rightarrow> queue_error + queued_message list" where
  "normalize_queued_messages coll now raw threadId =
     (case raw of
        JArr entries \<Rightarrow> map_sum id (sort_queue coll) (normalize_entries now threadId 0 entries)
      | _ \<Rightarrow> Inr [])"

definition waiting :: "queued_message \<Rightarrow> bool" where
  "waiting q \<longleftrightarrow> q_state q = QPending \<or> q_state q = QSteering"

definition list_pending_queue :: "(string \<Rightarrow> string) \<Rightarrow> queued_message list \<Rightarrow> queued_message list" where
  "list_pending_queue coll items = sort_queue coll (filter waiting items)"

definition list_claimed_queue :: "(string \<Rightarrow> string) \<Rightarrow> queued_message list \<Rightarrow> queued_message list" where
  "list_claimed_queue coll items = sort_queue coll (filter (\<lambda>q. q_state q = QClaimed) items)"

section \<open>What is stored\<close>

text \<open>
  The object of an item, as it is handed to \<open>normalizeQueuedMessages\<close> again and written to
  \<open>queue.json\<close>: the members that are defined.
\<close>

definition opt_text_member :: "string \<Rightarrow> json option \<Rightarrow> (string \<times> json) list" where
  "opt_text_member k v = (case v of None \<Rightarrow> [] | Some x \<Rightarrow> [(k, x)])"

definition claim_json :: "queue_claim \<Rightarrow> json" where
  "claim_json c = JObj ([(''ownerPid'', JNum (cl_ownerPid c)), (''ownerToken'', JStr (cl_ownerToken c)),
     (''claimedAt'', JStr (cl_claimedAt c))] @ opt_text_member ''source'' (map_option JStr (cl_source c)))"

fun origin_json :: "queue_origin \<Rightarrow> json" where
  "origin_json (FromSchedule job key name sel) =
     JObj ([(''kind'', JStr ''schedule''), (''jobId'', JStr job), (''occurrenceKey'', JStr key)] @
       opt_text_member ''jobName'' (map_option JStr name) @ opt_text_member ''selection'' sel)"
| "origin_json (FromAgent a) =
     JObj ([(''kind'', JStr ''agent''), (''threadId'', JStr (ag_threadId a)), (''runId'', JStr (ag_runId a))] @
       opt_text_member ''hops'' (map_option JNum (ag_hops a)))"

definition item_json :: "queued_message \<Rightarrow> json" where
  "item_json q = JObj (
     [(''id'', JStr (q_id q)), (''threadId'', JStr (q_threadId q)), (''content'', JStr (q_content q))] @
     opt_text_member ''workflowInvocationId'' (map_option JStr (q_workflowInvocationId q)) @
     opt_text_member ''mode'' (map_option mode_json (q_mode q)) @
     opt_text_member ''images'' (map_option JArr (q_images q)) @
     [(''enqueuedAt'', JStr (q_enqueuedAt q)), (''order'', JNum (q_order q)),
      (''intent'', JStr (intent_text (q_intent q))), (''state'', JStr (state_text (q_state q)))] @
     opt_text_member ''claim'' (map_option claim_json (q_claim q)) @
     opt_text_member ''source'' (map_option JStr (q_source q)) @
     opt_text_member ''internal'' (if q_internal q then Some (JBool True) else None) @
     opt_text_member ''runId'' (map_option JStr (q_runId q)) @
     opt_text_member ''continuationOfRunId'' (map_option JStr (q_continuationOfRunId q)) @
     opt_text_member ''inboxIds'' (map_option (\<lambda>ids. JArr (map JStr ids)) (q_inboxIds q)) @
     opt_text_member ''subagentNotice'' (map_option JArr (q_subagentNotice q)) @
     opt_text_member ''stopGeneration'' (map_option JNum (q_stopGeneration q)) @
     opt_text_member ''permissionMode'' (map_option (\<lambda>m. JStr (permission_mode_text m)) (q_permissionMode q)) @
     opt_text_member ''sentFrom'' (map_option (\<lambda>node. JObj [(''node'', JStr node)]) (q_sentFrom q)) @
     opt_text_member ''steerRunId'' (map_option JStr (q_steerRunId q)) @
     opt_text_member ''origin'' (map_option origin_json (q_origin q)))"

definition renormalize ::
  "(string \<Rightarrow> string) \<Rightarrow> string \<Rightarrow> string \<Rightarrow> queued_message list \<Rightarrow> queue_error + queued_message list" where
  "renormalize coll now threadId items =
     normalize_queued_messages coll now (JArr (map item_json items)) (Some threadId)"

section \<open>The revision of a queue\<close>

text \<open>\<open>JSON.stringify\<close>: unlike the stored text of the run database, members keep their order.\<close>

function json_text :: "json \<Rightarrow> string option" where
  "json_text JUndef = None"
| "json_text JNull = Some ''null''"
| "json_text (JBool b) = Some (if b then ''true'' else ''false'')"
| "json_text (JNum n) = Some (int_str n)"
| "json_text (JStr x) = Some (quote x)"
| "json_text (JArr xs) =
     Some (''['' @ join '','' (map (\<lambda>x. case json_text x of None \<Rightarrow> ''null'' | Some y \<Rightarrow> y) xs) @ '']'')"
| "json_text (JObj kvs) =
     Some (''{'' @ join '','' (List.map_filter member_text (map (\<lambda>kv. (fst kv, json_text (snd kv))) kvs)) @ ''}'')"
  by pat_completeness auto
termination
  by (relation "measure size") (auto simp: size_list_estimation' less_Suc_eq_le intro: le_trans dest: size_member)

definition stringify :: "json \<Rightarrow> string" where
  "stringify v = (case json_text v of None \<Rightarrow> ''undefined'' | Some x \<Rightarrow> x)"

fun origin_label :: "queue_origin \<Rightarrow> string" where
  "origin_label (FromSchedule _ _ _ _) = ''schedule''"
| "origin_label (FromAgent a) = ''agent:'' @ ag_threadId a"

definition or_null :: "json option \<Rightarrow> json" where
  "or_null v = (case v of None \<Rightarrow> JNull | Some x \<Rightarrow> x)"

definition revision_row :: "(string \<Rightarrow> string) \<Rightarrow> queued_message \<Rightarrow> json" where
  "revision_row digest q = JArr [JStr (q_id q), JNum (q_order q), JStr (intent_text (q_intent q)), JStr (state_text (q_state q)),
     or_null (map_option mode_json (q_mode q)),
     or_null (map_option (\<lambda>m. JStr (permission_mode_text m)) (q_permissionMode q)),
     or_null (map_option (\<lambda>og. JStr (origin_label og)) (q_origin q)),
     JStr (digest (q_content q))]"

definition visible_pending :: "(string \<Rightarrow> string) \<Rightarrow> queued_message list \<Rightarrow> queued_message list" where
  "visible_pending coll items = filter (\<lambda>q. \<not> q_internal q) (list_pending_queue coll items)"

definition queue_revision :: "(string \<Rightarrow> string) \<Rightarrow> (string \<Rightarrow> string) \<Rightarrow> queued_message list \<Rightarrow> string" where
  "queue_revision coll digest items =
     take 16 (digest (stringify (JArr (map (revision_row digest) (visible_pending coll items)))))"

definition assert_queue_revision ::
  "(string \<Rightarrow> string) \<Rightarrow> (string \<Rightarrow> string) \<Rightarrow> queued_message list \<Rightarrow> string option \<Rightarrow> queue_error + unit" where
  "assert_queue_revision coll digest items expected =
     (case expected of None \<Rightarrow> Inr ()
      | Some r \<Rightarrow> if queue_revision coll digest items \<noteq> r then Inl (QConflict RevisionMismatch) else Inr ())"

end
