(* ===== verification/QueueOps.thy ===== *)
theory QueueOps
  imports QueueItems
begin

text \<open>
  The operations on a queue (\<open>src/mms/queue/ThreadMessageQueue.ts\<close>), one definition per function, in
  the order of the file. A queue is the list of its items; an operation that throws gives \<open>Inl\<close>.
  \<open>now\<close> is the current time and \<open>uuid\<close> the identifier \<open>uuidv4\<close> gives.
\<close>

section \<open>Adding\<close>

record enqueue_input =
  in_id :: "string option"
  in_atFront :: bool
  in_continuationOfRunId :: "string option"
  in_threadId :: string
  in_content :: string
  in_workflowInvocationId :: "string option"
  in_mode :: "chat_mode option"
  in_images :: "json list option"
  in_intent :: "queue_intent option"
  in_source :: "string option"
  in_internal :: bool
  in_runId :: "string option"
  in_inboxIds :: "string list option"
  in_subagentNotice :: "json list option"
  in_stopGeneration :: "int option"
  in_permissionMode :: "permission_mode option"
  in_origin :: "queue_origin option"
  in_sentFrom :: "string option"

definition next_order :: "queued_message list \<Rightarrow> int" where
  "next_order items = (if items = [] then 0 else Max (set (map q_order items)) + 1)"

definition front_order :: "queued_message list \<Rightarrow> int" where
  "front_order items = (if items = [] then 0 else Min (set (map q_order items)) - 1)"

text \<open>\<open>v ? { key: v } : {}\<close> for a text, and for a list.\<close>

definition non_blank :: "string option \<Rightarrow> string option" where
  "non_blank v = (if truthy v then v else None)"

definition non_nil :: "'a list option \<Rightarrow> 'a list option" where
  "non_nil v = (if v = Some [] then None else v)"

definition norm_mode :: "chat_mode \<Rightarrow> chat_mode" where
  "norm_mode m = normalize_chat_mode (mode_json m)"

definition has_images :: "json list option \<Rightarrow> bool" where
  "has_images imgs \<longleftrightarrow> non_nil imgs \<noteq> None"

definition new_item :: "string \<Rightarrow> string \<Rightarrow> queued_message list \<Rightarrow> enqueue_input \<Rightarrow> queued_message" where
  "new_item now uuid items input =
     \<lparr>q_id = (case non_blank (in_id input) of None \<Rightarrow> uuid | Some x \<Rightarrow> x),
      q_threadId = in_threadId input, q_content = in_content input,
      q_workflowInvocationId = in_workflowInvocationId input,
      q_mode = map_option norm_mode (in_mode input),
      q_images = map_option (filter (\<lambda>img. jtruthy (jget img ''data'') \<and> jtruthy (jget img ''mimeType''))) (in_images input),
      q_enqueuedAt = now,
      q_order = (if in_atFront input then front_order items else next_order items),
      q_intent = (case in_intent input of None \<Rightarrow> IntentNormal | Some i \<Rightarrow> i),
      q_state = QPending, q_claim = None,
      q_source = in_source input, q_internal = in_internal input,
      q_runId = non_blank (in_runId input),
      q_continuationOfRunId = non_blank (in_continuationOfRunId input),
      q_inboxIds = non_nil (in_inboxIds input),
      q_subagentNotice = non_nil (in_subagentNotice input),
      q_stopGeneration = in_stopGeneration input,
      q_permissionMode = in_permissionMode input,
      q_sentFrom = in_sentFrom input,
      q_steerRunId = None,
      q_origin = in_origin input\<rparr>"

definition enqueue_message ::
  "(string \<Rightarrow> string) \<Rightarrow> string \<Rightarrow> string \<Rightarrow> queued_message list \<Rightarrow> enqueue_input \<Rightarrow>
   queue_error + queued_message list \<times> queued_message" where
  "enqueue_message coll now uuid items input =
     (let fresh =
        (case if truthy (in_id input) then List.find (\<lambda>q. Some (q_id q) = in_id input) items else None of
           Some existing \<Rightarrow> Inr (items, existing)
         | None \<Rightarrow>
             let item = new_item now uuid items input in Inr (sort_queue coll (items @ [item]), item))
      in
      if trim (in_content input) = [] \<and> \<not> has_images (in_images input)
      then Inl (QValidation ''Queued message content is required.'')
      else if trim (in_threadId input) = [] then Inl (QValidation ''threadId is required.'')
      else case non_blank (in_workflowInvocationId input) of
          None \<Rightarrow> fresh
        | Some w \<Rightarrow>
            if \<not> is_workflow_uuid w \<or> in_intent input = Some IntentSteer
            then Inl (QValidation ''Workflow commands cannot become steering input'')
            else case List.find (\<lambda>q. q_workflowInvocationId q = Some w) items of
                Some existing \<Rightarrow>
                  if q_threadId existing \<noteq> in_threadId input \<or> q_content existing \<noteq> in_content input
                  then Inl (QValidation ''Workflow queue identity conflict'')
                  else Inr (items, existing)
              | None \<Rightarrow> fresh)"

section \<open>Removing and reordering\<close>

definition find_item :: "string \<Rightarrow> queued_message list \<Rightarrow> queued_message option" where
  "find_item itemId items = lookup_row q_id itemId items"

definition without :: "string \<Rightarrow> queued_message list \<Rightarrow> queued_message list" where
  "without itemId items = filter (\<lambda>q. q_id q \<noteq> itemId) items"

text \<open>\<open>next[items.findIndex(\<dots>)] = item\<close>: the first item with the id is replaced.\<close>

fun put_item :: "string \<Rightarrow> queued_message \<Rightarrow> queued_message list \<Rightarrow> queued_message list" where
  "put_item itemId item [] = []"
| "put_item itemId item (q # qs) = (if q_id q = itemId then item # qs else q # put_item itemId item qs)"

definition remove_queued_message ::
  "queued_message list \<Rightarrow> string \<Rightarrow> queued_message list \<times> queued_message option" where
  "remove_queued_message items itemId =
     (case find_item itemId items of
        None \<Rightarrow> (items, None)
      | Some removed \<Rightarrow>
          if q_state removed = QClaimed \<or> q_internal removed then (items, None)
          else (without itemId items, Some removed))"

text \<open>\<open>new Map(pending.map(\<dots>))\<close>: of two entries with one key the later one counts.\<close>

definition by_id :: "queued_message list \<Rightarrow> string \<Rightarrow> queued_message option" where
  "by_id pending itemId = map_of (rev (map (\<lambda>q. (q_id q, q)) pending)) itemId"

definition slotted :: "queued_message list \<Rightarrow> string list \<Rightarrow> queued_message list" where
  "slotted pending orderedIds =
     List.map_filter (\<lambda>(itemId, slot). map_option (\<lambda>q. q\<lparr>q_order := slot\<rparr>) (by_id pending itemId))
       (zip orderedIds (map q_order pending))"

definition user_held :: "queued_message \<Rightarrow> bool" where
  "user_held q \<longleftrightarrow> q_state q = QClaimed \<or> q_internal q"

definition reorder_queued_messages ::
  "(string \<Rightarrow> string) \<Rightarrow> queued_message list \<Rightarrow> string list \<Rightarrow> queue_error + queued_message list" where
  "reorder_queued_messages coll items orderedIds =
     (let pending = visible_pending coll items;
          pendingIds = map q_id pending in
      if length orderedIds \<noteq> length pendingIds \<or> \<not> distinct orderedIds
      then Inl (QValidation ''Reorder requires a permutation of all pending queue item ids (no missing, extra, or duplicates).'')
      else case List.find (\<lambda>x. x \<notin> set pendingIds) orderedIds of
          Some x \<Rightarrow> Inl (QValidation (''Unknown queue item id in reorder: '' @ x))
        | None \<Rightarrow> Inr (sort_queue coll (filter user_held items @ slotted pending orderedIds)))"

section \<open>Editing and promoting\<close>

text \<open>\<open>origin\<close>: absent, \<open>null\<close>, or the agent the text is from.\<close>

datatype origin_patch = KeepOrigin | DropOrigin | SetOrigin agent_origin

record message_patch =
  mp_content :: "string option"
  mp_mode :: "chat_mode option"
  mp_origin :: origin_patch
  mp_permissionMode :: "permission_mode option"
  mp_sentFrom :: "string option"
  mp_dropRun :: bool

definition edit_refusal :: "queued_message \<Rightarrow> string option" where
  "edit_refusal q =
     (if q_internal q then Some (''Queue item '' @ q_id q @ '' is internal.'')
      else if truthy (q_workflowInvocationId q) then Some ''A workflow command cannot be edited.''
      else if non_nil (q_inboxIds q) \<noteq> None then Some ''A queued subagent result is rebuilt when it runs; it cannot be edited.''
      else if q_state q = QClaimed then Some (''Queue item '' @ q_id q @ '' already started and can no longer be edited.'')
      else if q_state q \<noteq> QPending \<and> q_state q \<noteq> QSteering then Some (''Queue item '' @ q_id q @ '' is not pending.'')
      else None)"

definition edited_content :: "queued_message \<Rightarrow> message_patch \<Rightarrow> queue_error + string" where
  "edited_content current patch =
     (case mp_content patch of
        None \<Rightarrow> Inr (q_content current)
      | Some raw \<Rightarrow>
          if trim raw = [] \<and> \<not> has_images (q_images current) then Inl (QValidation ''Queued message content is required.'')
          else Inr (trim raw))"

definition patched_item :: "queued_message \<Rightarrow> message_patch \<Rightarrow> string \<Rightarrow> queued_message" where
  "patched_item current patch content =
     current\<lparr>q_content := content,
       q_runId := (if mp_dropRun patch then None else q_runId current),
       q_mode := (case mp_mode patch of None \<Rightarrow> q_mode current | Some m \<Rightarrow> Some (norm_mode m)),
       q_origin := (case mp_origin patch of KeepOrigin \<Rightarrow> q_origin current | DropOrigin \<Rightarrow> None | SetOrigin a \<Rightarrow> Some (FromAgent a)),
       q_permissionMode := (case mp_permissionMode patch of None \<Rightarrow> q_permissionMode current | Some m \<Rightarrow> Some m),
       q_sentFrom := (case mp_sentFrom patch of None \<Rightarrow> q_sentFrom current | Some node \<Rightarrow> Some node)\<rparr>"

definition edit_queued_message ::
  "(string \<Rightarrow> string) \<Rightarrow> queued_message list \<Rightarrow> string \<Rightarrow> message_patch \<Rightarrow>
   queue_error + queued_message list \<times> queued_message" where
  "edit_queued_message coll items itemId patch =
     (case find_item itemId items of
        None \<Rightarrow> Inl (QConflict QueueItemNotFound)
      | Some current \<Rightarrow>
          if q_state current = QSteering then Inl (QConflict ItemSteering)
          else case edit_refusal current of
              Some refusal \<Rightarrow> Inl (QValidation refusal)
            | None \<Rightarrow>
                (case edited_content current patch of
                   Inl e \<Rightarrow> Inl e
                 | Inr content \<Rightarrow>
                     let item = patched_item current patch content
                     in Inr (sort_queue coll (put_item itemId item items), item)))"

definition promoted_item :: "queued_message \<Rightarrow> string option \<Rightarrow> permission_mode option \<Rightarrow> queued_message" where
  "promoted_item current steerRunId mode =
     current\<lparr>q_intent := IntentSteer, q_state := QSteering, q_claim := None,
       q_steerRunId := (if truthy steerRunId then steerRunId else q_steerRunId current),
       q_permissionMode := (case mode of None \<Rightarrow> q_permissionMode current | Some m \<Rightarrow> Some m)\<rparr>"

definition promote_queued_message_to_steer ::
  "(string \<Rightarrow> string) \<Rightarrow> queued_message list \<Rightarrow> string \<Rightarrow> string option \<Rightarrow> permission_mode option \<Rightarrow>
   queue_error + queued_message list \<times> queued_message" where
  "promote_queued_message_to_steer coll items itemId steerRunId mode =
     (case find_item itemId items of
        None \<Rightarrow> Inl (QValidation (''Queue item not found: '' @ itemId))
      | Some current \<Rightarrow>
          if truthy (q_workflowInvocationId current)
          then Inl (QValidation ''A workflow command cannot be promoted to steering input'')
          else if q_internal current then Inl (QValidation (''Queue item '' @ itemId @ '' is internal.''))
          else if \<not> waiting current then Inl (QValidation (''Queue item '' @ itemId @ '' is not pending.''))
          else
            let item = promoted_item current steerRunId mode
            in Inr (sort_queue coll (put_item itemId item items), item))"

definition create_steer_item ::
  "string \<Rightarrow> string \<Rightarrow> string \<Rightarrow> string \<Rightarrow> string option \<Rightarrow> queue_error + queued_message" where
  "create_steer_item now uuid threadId content source =
     (if trim content = [] then Inl (QValidation ''Steer content is required.'')
      else Inr \<lparr>q_id = uuid, q_threadId = threadId, q_content = trim content, q_workflowInvocationId = None,
        q_mode = None, q_images = None, q_enqueuedAt = now, q_order = 0, q_intent = IntentSteer, q_state = QSteering,
        q_claim = None, q_source = source, q_internal = False, q_runId = None, q_continuationOfRunId = None,
        q_inboxIds = None, q_subagentNotice = None, q_stopGeneration = None, q_permissionMode = None,
        q_sentFrom = None, q_steerRunId = None, q_origin = None\<rparr>)"

section \<open>Claiming\<close>

record claim_owner =
  ow_pid :: int
  ow_token :: string
  ow_claimedAt :: "string option"
  ow_source :: "string option"

definition drainable :: "queued_message \<Rightarrow> bool" where
  "drainable q \<longleftrightarrow> q_intent q = IntentNormal \<and> q_state q = QPending"

definition next_normal :: "(string \<Rightarrow> string) \<Rightarrow> queued_message list \<Rightarrow> queued_message option" where
  "next_normal coll items = List.find drainable (list_pending_queue coll items)"

definition claim_of :: "string \<Rightarrow> claim_owner \<Rightarrow> queue_claim" where
  "claim_of now owner = \<lparr>cl_ownerPid = ow_pid owner, cl_ownerToken = ow_token owner,
     cl_claimedAt = (case ow_claimedAt owner of None \<Rightarrow> now | Some t \<Rightarrow> t), cl_source = ow_source owner\<rparr>"

definition claim_next_normal ::
  "(string \<Rightarrow> string) \<Rightarrow> string \<Rightarrow> queued_message list \<Rightarrow> claim_owner \<Rightarrow> queued_message list \<times> queued_message option" where
  "claim_next_normal coll now items owner =
     (case next_normal coll items of
        None \<Rightarrow> (sort_queue coll items, None)
      | Some q \<Rightarrow>
          let claimed = q\<lparr>q_state := QClaimed, q_claim := Some (claim_of now owner)\<rparr>
          in (sort_queue coll (map (\<lambda>x. if q_id x = q_id q then claimed else x) items), Some claimed))"

definition claim_passes :: "string option \<Rightarrow> queued_message \<Rightarrow> bool" where
  "claim_passes token q \<longleftrightarrow> (case token of None \<Rightarrow> True
     | Some t \<Rightarrow> (case q_claim q of None \<Rightarrow> False | Some c \<Rightarrow> cl_ownerToken c = t))"

definition released_item :: "queued_message \<Rightarrow> queued_message" where
  "released_item q = q\<lparr>q_state := QPending, q_claim := None\<rparr>"

definition release_claim ::
  "(string \<Rightarrow> string) \<Rightarrow> queued_message list \<Rightarrow> string \<Rightarrow> string option \<Rightarrow> queued_message list \<times> queued_message option" where
  "release_claim coll items itemId token =
     (case find_item itemId items of
        None \<Rightarrow> (items, None)
      | Some current \<Rightarrow>
          if q_state current \<noteq> QClaimed \<or> \<not> claim_passes token current then (items, None)
          else (sort_queue coll (put_item itemId (released_item current) items), Some (released_item current)))"

definition complete_claim ::
  "queued_message list \<Rightarrow> string \<Rightarrow> string option \<Rightarrow> queued_message list \<times> queued_message option" where
  "complete_claim items itemId token =
     (case find_item itemId items of
        None \<Rightarrow> (items, None)
      | Some current \<Rightarrow>
          if q_state current \<noteq> QClaimed \<or> \<not> claim_passes token current then (items, None)
          else (without itemId items, Some current))"

text \<open>The loop of \<open>reclaimAbandonedClaims\<close>: what stays, what was released, what was completed.\<close>

fun reclaim_items ::
  "(queue_claim \<Rightarrow> bool) \<Rightarrow> (queued_message \<Rightarrow> bool) \<Rightarrow> queued_message list \<Rightarrow>
   queued_message list \<times> queued_message list \<times> queued_message list" where
  "reclaim_items isLive accepted [] = ([], [], [])"
| "reclaim_items isLive accepted (q # qs) =
     (let (kept, released, completed) = reclaim_items isLive accepted qs in
      if q_state q \<noteq> QClaimed then (q # kept, released, completed)
      else if accepted q then (kept, released, q # completed)
      else if (case q_claim q of None \<Rightarrow> False | Some c \<Rightarrow> isLive c) then (q # kept, released, completed)
      else (released_item q # kept, released_item q # released, completed))"

definition reclaim_abandoned_claims ::
  "(string \<Rightarrow> string) \<Rightarrow> (queue_claim \<Rightarrow> bool) \<Rightarrow> (queued_message \<Rightarrow> bool) \<Rightarrow> queued_message list \<Rightarrow>
   queued_message list \<times> queued_message list \<times> queued_message list" where
  "reclaim_abandoned_claims coll isLive accepted items =
     (let (kept, released, completed) = reclaim_items isLive accepted items in (sort_queue coll kept, released, completed))"

definition drain_next_normal ::
  "(string \<Rightarrow> string) \<Rightarrow> queued_message list \<Rightarrow> queued_message list \<times> queued_message option" where
  "drain_next_normal coll items =
     (case next_normal coll items of
        None \<Rightarrow> (sort_queue coll items, None)
      | Some q \<Rightarrow> (sort_queue coll (without (q_id q) items), Some q))"

section \<open>Steers and clearing\<close>

definition drop_steer_items :: "queued_message list \<Rightarrow> string list option \<Rightarrow> queued_message list" where
  "drop_steer_items items ids =
     (case non_nil ids of
        None \<Rightarrow> filter (\<lambda>q. q_intent q \<noteq> IntentSteer) items
      | Some dropped \<Rightarrow> filter (\<lambda>q. \<not> (q_intent q = IntentSteer \<and> q_id q \<in> set dropped)) items)"

definition demoted_item :: "queued_message \<Rightarrow> queued_message" where
  "demoted_item q = q\<lparr>q_steerRunId := None, q_intent := IntentNormal, q_state := QPending, q_claim := None\<rparr>"

definition demote_steer_items ::
  "(string \<Rightarrow> string) \<Rightarrow> queued_message list \<Rightarrow> string list option \<Rightarrow> queued_message list" where
  "demote_steer_items coll items ids =
     sort_queue coll (map (\<lambda>q.
       if q_intent q \<noteq> IntentSteer \<or> q_state q = QClaimed \<or> (case ids of None \<Rightarrow> False | Some only \<Rightarrow> q_id q \<notin> set only)
       then q else demoted_item q) items)"

definition clear_pending_queue :: "(string \<Rightarrow> string) \<Rightarrow> queued_message list \<Rightarrow> queued_message list" where
  "clear_pending_queue coll items = sort_queue coll (filter user_held items)"

end
