(* ===== verification/QueueStored.thy ===== *)
theory QueueStored
  imports QueueOps
begin

text \<open>
  A queue that is written is read back: the members of a stored item (\<open>item_json\<close>), the well-formed
  items (\<open>item_ok\<close>) and the proof that \<open>normalizeQueuedMessages\<close> gives such a queue back, sorted.
\<close>

section \<open>Members of a stored item\<close>

lemma map_of_opt_text_member [simp]: "map_of (opt_text_member k v) k' = (if k = k' then v else None)"
  by (auto simp: opt_text_member_def split: option.splits)

lemmas members = jget_def map_add_def

lemma claim_json_members [simp]:
  "jget (claim_json c) ''ownerPid'' = Some (JNum (cl_ownerPid c))"
  "jget (claim_json c) ''ownerToken'' = Some (JStr (cl_ownerToken c))"
  "jget (claim_json c) ''claimedAt'' = Some (JStr (cl_claimedAt c))"
  "jget (claim_json c) ''source'' = map_option JStr (cl_source c)"
  by (simp_all add: claim_json_def members split: option.splits)

lemma jget_defined: "v \<noteq> Some JUndef \<Longrightarrow> jfield j k = v \<Longrightarrow> jget j k = v"
  by (auto simp: jget_def split: option.splits json.splits)

lemma claim_json_defined [simp]: "claim_json c \<noteq> JUndef"
  by (simp add: claim_json_def)

lemma mode_json_defined [simp]: "mode_json m \<noteq> JUndef"
  by (cases m) simp_all

lemma origin_json_defined [simp]: "origin_json og \<noteq> JUndef"
  by (cases og) simp_all

lemma map_option_defined: "(\<And>x. f x \<noteq> JUndef) \<Longrightarrow> map_option f v \<noteq> Some JUndef"
  by (cases v) simp_all

lemma item_json_members [simp]:
  "jget (item_json q) ''id'' = Some (JStr (q_id q))"
  "jget (item_json q) ''threadId'' = Some (JStr (q_threadId q))"
  "jget (item_json q) ''content'' = Some (JStr (q_content q))"
  "jget (item_json q) ''workflowInvocationId'' = map_option JStr (q_workflowInvocationId q)"
  "jget (item_json q) ''mode'' = map_option mode_json (q_mode q)"
  "jget (item_json q) ''images'' = map_option JArr (q_images q)"
  "jget (item_json q) ''enqueuedAt'' = Some (JStr (q_enqueuedAt q))"
  "jget (item_json q) ''order'' = Some (JNum (q_order q))"
  "jget (item_json q) ''intent'' = Some (JStr (intent_text (q_intent q)))"
  "jget (item_json q) ''state'' = Some (JStr (state_text (q_state q)))"
  "jget (item_json q) ''claim'' = map_option claim_json (q_claim q)"
  "jget (item_json q) ''source'' = map_option JStr (q_source q)"
  "jget (item_json q) ''internal'' = (if q_internal q then Some (JBool True) else None)"
  "jget (item_json q) ''runId'' = map_option JStr (q_runId q)"
  "jget (item_json q) ''continuationOfRunId'' = map_option JStr (q_continuationOfRunId q)"
  "jget (item_json q) ''inboxIds'' = map_option (\<lambda>ids. JArr (map JStr ids)) (q_inboxIds q)"
  "jget (item_json q) ''subagentNotice'' = map_option JArr (q_subagentNotice q)"
  "jget (item_json q) ''stopGeneration'' = map_option JNum (q_stopGeneration q)"
  "jget (item_json q) ''permissionMode'' = map_option (\<lambda>m. JStr (permission_mode_text m)) (q_permissionMode q)"
  "jget (item_json q) ''sentFrom'' = map_option (\<lambda>node. JObj [(''node'', JStr node)]) (q_sentFrom q)"
  "jget (item_json q) ''steerRunId'' = map_option JStr (q_steerRunId q)"
  "jget (item_json q) ''origin'' = map_option origin_json (q_origin q)"
  by (rule jget_defined; simp add: item_json_def map_add_def map_option_defined split: option.splits)+

section \<open>Well-formed items\<close>

definition claim_ok :: "queue_claim \<Rightarrow> bool" where
  "claim_ok c \<longleftrightarrow> 0 < cl_ownerPid c \<and> trim (cl_ownerToken c) \<noteq> [] \<and> cl_claimedAt c \<noteq> []"

definition count_ok :: "int option \<Rightarrow> bool" where
  "count_ok v \<longleftrightarrow> (case v of None \<Rightarrow> True | Some n \<Rightarrow> 0 \<le> n \<and> n \<le> MAX_SAFE_INTEGER)"

fun origin_ok :: "queue_origin \<Rightarrow> bool" where
  "origin_ok (FromSchedule job key name sel) \<longleftrightarrow>
     job \<noteq> [] \<and> key \<noteq> [] \<and> name \<noteq> Some [] \<and> (case sel of None \<Rightarrow> True | Some v \<Rightarrow> valid_selection v)"
| "origin_ok (FromAgent a) \<longleftrightarrow> ag_threadId a \<noteq> [] \<and> ag_runId a \<noteq> [] \<and> count_ok (ag_hops a)"

definition receipt_ok :: "string option \<Rightarrow> queue_intent \<Rightarrow> bool" where
  "receipt_ok w i \<longleftrightarrow> (case w of None \<Rightarrow> True | Some x \<Rightarrow> is_workflow_uuid x \<and> i \<noteq> IntentSteer)"

text \<open>
  The item of a live queue: what every operation of the queue makes. The two states that end an item
  are never stored, a claimed item has a claim, and only a steering item is bound to a run.
\<close>

definition item_ok :: "queued_message \<Rightarrow> bool" where
  "item_ok q \<longleftrightarrow>
     trim (q_id q) \<noteq> [] \<and> trim (q_threadId q) \<noteq> [] \<and> q_enqueuedAt q \<noteq> [] \<and>
     receipt_ok (q_workflowInvocationId q) (q_intent q) \<and>
     (case q_mode q of None \<Rightarrow> True | Some m \<Rightarrow> norm_mode m = m) \<and>
     q_state q \<in> {QPending, QSteering, QClaimed} \<and>
     (q_state q = QSteering \<longrightarrow> q_intent q = IntentSteer) \<and> (q_state q = QClaimed \<longrightarrow> q_intent q = IntentNormal) \<and>
     (q_state q = QClaimed \<longleftrightarrow> q_claim q \<noteq> None) \<and>
     (case q_claim q of None \<Rightarrow> True | Some c \<Rightarrow> claim_ok c) \<and>
     q_runId q \<noteq> Some [] \<and> q_continuationOfRunId q \<noteq> Some [] \<and>
     q_inboxIds q \<noteq> Some [] \<and> q_subagentNotice q \<noteq> Some [] \<and> count_ok (q_stopGeneration q) \<and>
     q_sentFrom q \<noteq> Some [] \<and> q_steerRunId q \<noteq> Some [] \<and>
     (q_state q \<noteq> QSteering \<longrightarrow> q_steerRunId q = None) \<and>
     (case q_origin q of None \<Rightarrow> True | Some og \<Rightarrow> origin_ok og)"

section \<open>Reading back\<close>

lemma text_of_text [simp]: "v \<noteq> Some [] \<Longrightarrow> text_of (map_option JStr v) = v"
  by (cases v) (simp_all add: text_of_def)

lemma jstring_text [simp]: "jstring (map_option JStr v) = v" "jstring (Some (JStr x)) = Some x"
  by (cases v) (simp_all add: jstring_def)

lemma counts_number [simp]: "count_ok v \<Longrightarrow> counts (map_option JNum v) = v"
  by (cases v) (simp_all add: counts_def count_ok_def)

lemma normalize_claim_json [simp]: "claim_ok c \<Longrightarrow> normalize_claim now (Some (claim_json c)) = Some c"
  by (cases c) (simp add: normalize_claim_def claim_ok_def text_of_def)

lemma selection_defined: "valid_selection v \<Longrightarrow> v \<noteq> JUndef"
  by (auto simp: valid_selection_def jget_def jstring_def)

lemma schedule_members [simp]:
  "jget (origin_json (FromSchedule job key name sel)) ''kind'' = Some (JStr ''schedule'')"
  "jget (origin_json (FromSchedule job key name sel)) ''jobId'' = Some (JStr job)"
  "jget (origin_json (FromSchedule job key name sel)) ''occurrenceKey'' = Some (JStr key)"
  "jget (origin_json (FromSchedule job key name sel)) ''jobName'' = map_option JStr name"
  "sel \<noteq> Some JUndef \<Longrightarrow> jget (origin_json (FromSchedule job key name sel)) ''selection'' = sel"
  by (rule jget_defined; simp add: map_add_def map_option_defined split: option.splits)+

lemma agent_members [simp]:
  "jget (origin_json (FromAgent a)) ''kind'' = Some (JStr ''agent'')"
  "jget (origin_json (FromAgent a)) ''threadId'' = Some (JStr (ag_threadId a))"
  "jget (origin_json (FromAgent a)) ''runId'' = Some (JStr (ag_runId a))"
  "jget (origin_json (FromAgent a)) ''hops'' = map_option JNum (ag_hops a)"
  by (rule jget_defined; simp add: map_add_def map_option_defined split: option.splits)+

lemma normalize_origin_json [simp]: "origin_ok og \<Longrightarrow> normalize_origin (Some (origin_json og)) = Some og"
proof (cases og)
  case (FromSchedule job key name sel)
  assume ok: "origin_ok og"
  with FromSchedule have sel: "sel \<noteq> Some JUndef" by (auto dest: selection_defined)
  show ?thesis unfolding normalize_origin_def FromSchedule
    using ok FromSchedule sel
    by (auto simp del: origin_json.simps simp: text_of_def split: option.splits)
next
  case (FromAgent a)
  then show "origin_ok og \<Longrightarrow> ?thesis"
    by (cases a) (simp del: origin_json.simps add: normalize_origin_def text_of_def)
qed

lemma read_mode [simp]: "is_permission_mode (map_option (\<lambda>m. JStr (permission_mode_text m)) v) = v"
proof (cases v)
  case (Some m)
  then show ?thesis by (cases m) (simp_all add: is_permission_mode_def PERMISSION_MODES_def)
qed (simp add: is_permission_mode_def)

lemma read_state [simp]: "recognized_state (Some (JStr (state_text st))) = Some st"
  by (cases st) (simp_all add: recognized_state_def)

lemma read_intent [simp]: "intent_text i = ''steer'' \<longleftrightarrow> i = IntentSteer"
  by (cases i) simp_all

lemma read_texts [simp]: "ids \<noteq> Some [] \<Longrightarrow> all_texts (map_option (\<lambda>ids. JArr (map JStr ids)) ids) = ids"
proof (cases ids)
  case (Some xs)
  have "List.map_filter (\<lambda>x. jstring (Some x)) (map JStr xs) = xs"
    by (induction xs) (simp_all add: map_filter_simps)
  moreover assume "ids \<noteq> Some []"
  ultimately show ?thesis using Some by (auto simp: all_texts_def jstrings_def list_all_iff)
qed (simp add: all_texts_def)

lemma read_array [simp]: "jarray (map_option JArr v) = v"
  by (cases v) (simp_all add: jarray_def)

lemma read_receipt: "receipt_ok (q_workflowInvocationId q) (q_intent q) \<Longrightarrow> \<not> invalid_receipt (item_json q)"
  by (auto simp: invalid_receipt_def receipt_ok_def split: option.splits)

lemma read_item_json:
  assumes "item_ok q"
  shows "read_item now n (item_json q) (q_id q) (q_threadId q) (q_content q) (q_state q) = q"
proof -
  have claim: "(if q_state q = QClaimed then normalize_claim now (map_option claim_json (q_claim q)) else None) = q_claim q"
    using assms by (cases "q_claim q") (auto simp: item_ok_def)
  have mode: "map_option normalize_chat_mode (map_option mode_json (q_mode q)) = q_mode q"
    using assms by (cases "q_mode q") (auto simp: item_ok_def norm_mode_def)
  have intent: "(if Some (JStr (intent_text (q_intent q))) = Some (JStr ''steer'') then IntentSteer else IntentNormal) = q_intent q"
    by (cases "q_intent q") simp_all
  have node: "jget (JObj [(''node'', JStr x)]) ''node'' = Some (JStr x)" for x
    by (rule jget_defined) simp_all
  have sent: "Option.bind (map_option (\<lambda>node. JObj [(''node'', JStr node)]) (q_sentFrom q)) (\<lambda>v. text_of (jget v ''node'')) = q_sentFrom q"
    using assms by (cases "q_sentFrom q") (auto simp: item_ok_def node text_of_def)
  have origin: "normalize_origin (map_option origin_json (q_origin q)) = q_origin q"
    using assms by (cases "q_origin q") (auto simp: item_ok_def normalize_origin_def [of None])
  have notice: "(case q_subagentNotice q of Some [] \<Rightarrow> None | v \<Rightarrow> v) = q_subagentNotice q"
    using assms by (auto simp: item_ok_def split: option.splits list.splits)
  have at: "(case text_of (Some (JStr (q_enqueuedAt q))) of None \<Rightarrow> now | Some t \<Rightarrow> t) = q_enqueuedAt q"
    using assms by (simp add: item_ok_def text_of_def)
  have internal: "((if q_internal q then Some (JBool True) else None) = Some (JBool True)) = q_internal q" by simp
  have steer: "(if q_state q = QSteering then q_steerRunId q else None) = q_steerRunId q"
    using assms by (auto simp: item_ok_def)
  have rest: "text_of (map_option JStr (q_runId q)) = q_runId q" "text_of (map_option JStr (q_steerRunId q)) = q_steerRunId q"
    "text_of (map_option JStr (q_continuationOfRunId q)) = q_continuationOfRunId q"
    "all_texts (map_option (\<lambda>ids. JArr (map JStr ids)) (q_inboxIds q)) = q_inboxIds q"
    "counts (map_option JNum (q_stopGeneration q)) = q_stopGeneration q"
    using assms by (simp_all add: item_ok_def)
  show ?thesis
    unfolding read_item_def item_json_members claim mode intent sent origin at internal rest read_array read_mode notice steer jstring_text
    by simp
qed

lemma normalize_item_json:
  assumes "item_ok q"
  shows "normalize_entry now (Some (q_threadId q)) n (item_json q) = Inr (Some q)"
proof -
  have "\<not> invalid_receipt (item_json q)" using assms by (auto simp: item_ok_def dest: read_receipt)
  moreover have "trim (q_id q) \<noteq> []" "trim (q_threadId q) \<noteq> []" "q_state q \<noteq> QDrained" "q_state q \<noteq> QRemoved"
    using assms by (auto simp: item_ok_def)
  ultimately show ?thesis using read_item_json [OF assms] by (simp add: normalize_entry_def Let_def)
qed

lemma normalize_items_json:
  "\<forall>q \<in> set items. item_ok q \<and> q_threadId q = t \<Longrightarrow> normalize_entries now (Some t) n (map item_json items) = Inr items"
proof (induction items arbitrary: n)
  case (Cons q items)
  then have "normalize_entry now (Some t) n (item_json q) = Inr (Some q)"
    using normalize_item_json [of q] by auto
  with Cons show ?case by simp
qed simp

lemma renormalize_ok:
  "\<forall>q \<in> set items. item_ok q \<and> q_threadId q = t \<Longrightarrow> renormalize coll now t items = Inr (sort_queue coll items)"
  by (simp add: renormalize_def normalize_queued_messages_def normalize_items_json)

end
