(* ===== verification/QueueLaws.thy ===== *)
theory QueueLaws
  imports QueueStored
begin

text \<open>
  What the operations keep. \<open>queue_ok t\<close> says that the items are well-formed items of the thread \<open>t\<close>
  with distinct ids and distinct orders; every operation keeps it (\<open>apply_op_ok\<close>), and those that are not
  about claims leave the claimed items as they are (\<open>user_op_claims\<close>).
\<close>

section \<open>Sorting\<close>

lemma mset_sort_queue [simp]: "mset (sort_queue coll items) = mset items"
  by (simp add: sort_queue_def)

lemma set_sort_queue [simp]: "set (sort_queue coll items) = set items"
  by (simp add: sort_queue_def)

lemma sort_queue_idem [simp]: "sort_queue coll (sort_queue coll items) = sort_queue coll items"
  by (simp add: sort_queue_def sort_key_id_if_sorted)

lemma filter_sort_queue: "filter P (sort_queue coll items) = sort_queue coll (filter P items)"
  by (simp add: sort_queue_def filter_sort)

lemma queue_key_inj: "distinct (map q_order items) \<Longrightarrow> inj_on (queue_key coll) (set items)"
  by (auto simp: distinct_map queue_key_def inj_on_def)

lemma sort_queue_mset:
  assumes "mset xs = mset ys" "distinct (map q_order xs)"
  shows "sort_queue coll xs = sort_queue coll ys"
  unfolding sort_queue_def
  by (rule sort_key_inj_key_eq) (simp_all add: assms(1) queue_key_inj [OF assms(2)])

section \<open>Well-formed queues\<close>

definition queue_ok :: "string \<Rightarrow> queued_message list \<Rightarrow> bool" where
  "queue_ok t items \<longleftrightarrow>
     (\<forall>q \<in> set items. item_ok q \<and> q_threadId q = t) \<and> distinct (map q_id items) \<and> distinct (map q_order items)"

lemma queue_ok_mset: "mset xs = mset ys \<Longrightarrow> queue_ok t xs \<longleftrightarrow> queue_ok t ys"
  unfolding queue_ok_def by (metis mset_eq_setD mset_eq_imp_distinct_iff mset_map)

lemma queue_ok_sort [simp]: "queue_ok t (sort_queue coll items) \<longleftrightarrow> queue_ok t items"
  by (rule queue_ok_mset) simp

lemma queue_ok_filter [intro]: "queue_ok t items \<Longrightarrow> queue_ok t (filter P items)"
  by (auto simp: queue_ok_def distinct_map_filter)

lemma queue_ok_map:
  assumes "queue_ok t items"
    and "\<And>q. q \<in> set items \<Longrightarrow> item_ok (f q) \<and> q_id (f q) = q_id q \<and> q_order (f q) = q_order q \<and> q_threadId (f q) = q_threadId q"
  shows "queue_ok t (map f items)"
proof -
  have "map q_id (map f items) = map q_id items" "map q_order (map f items) = map q_order items"
    using assms(2) by (simp_all add: comp_def cong: map_cong)
  moreover have "\<forall>q \<in> set (map f items). item_ok q \<and> q_threadId q = t"
    using assms by (auto simp: queue_ok_def)
  ultimately show ?thesis using assms(1) unfolding queue_ok_def by metis
qed

lemma queue_ok_unique: "queue_ok t items \<Longrightarrow> q \<in> set items \<Longrightarrow> q' \<in> set items \<Longrightarrow> q_id q = q_id q' \<Longrightarrow> q = q'"
  unfolding queue_ok_def by (blast intro: distinct_key_unique)

lemma find_item_Some: "find_item i items = Some q \<Longrightarrow> q \<in> set items \<and> q_id q = i"
  unfolding find_item_def by (rule lookup_row_Some)

lemma find_item_mem: "queue_ok t items \<Longrightarrow> q \<in> set items \<Longrightarrow> find_item (q_id q) items = Some q"
  by (simp add: find_item_def lookup_row_mem queue_ok_def)

lemma find_item_id_mem: "queue_ok t items \<Longrightarrow> q \<in> set items \<Longrightarrow> q_id q = i \<Longrightarrow> find_item i items = Some q"
  using find_item_mem by blast

lemma put_item_map: "distinct (map q_id items) \<Longrightarrow> put_item i x items = map (\<lambda>q. if q_id q = i then x else q) items"
proof (induction items)
  case (Cons q qs)
  show ?case
  proof (cases "q_id q = i")
    case True
    have "map (\<lambda>q. if q_id q = i then x else q) qs = qs"
      by (intro map_idI) (use Cons.prems True in \<open>auto simp: image_iff\<close>)
    then show ?thesis using True by simp
  qed (use Cons in simp)
qed simp

lemma queue_ok_put:
  assumes "queue_ok t items" "find_item i items = Some q" "item_ok x" "q_id x = q_id q" "q_order x = q_order q" "q_threadId x = q_threadId q"
  shows "queue_ok t (put_item i x items)"
proof -
  have "distinct (map q_id items)" using assms(1) by (simp add: queue_ok_def)
  then show ?thesis unfolding put_item_map [OF \<open>distinct (map q_id items)\<close>]
  proof (intro queue_ok_map [OF assms(1)])
    fix y assume "y \<in> set items"
    moreover have "y = q" if "q_id y = i"
      using queue_ok_unique [OF assms(1) \<open>y \<in> set items\<close>] find_item_Some [OF assms(2)] that by simp
    ultimately show "item_ok (if q_id y = i then x else y) \<and> q_id (if q_id y = i then x else y) = q_id y \<and>
      q_order (if q_id y = i then x else y) = q_order y \<and> q_threadId (if q_id y = i then x else y) = q_threadId y"
      using assms by (auto simp: queue_ok_def)
  qed
qed

section \<open>Orders of new items\<close>

lemma next_order_greater: "q \<in> set items \<Longrightarrow> q_order q < next_order items"
proof -
  assume "q \<in> set items"
  then have "q_order q \<le> Max (q_order ` set items)" by (intro Max_ge) auto
  moreover have "next_order items = Max (q_order ` set items) + 1"
    using \<open>q \<in> set items\<close> by (auto simp: next_order_def)
  ultimately show ?thesis by linarith
qed

lemma front_order_less: "q \<in> set items \<Longrightarrow> front_order items < q_order q"
proof -
  assume "q \<in> set items"
  then have "Min (q_order ` set items) \<le> q_order q" by (intro Min_le) auto
  moreover have "front_order items = Min (q_order ` set items) - 1"
    using \<open>q \<in> set items\<close> by (auto simp: front_order_def)
  ultimately show ?thesis by linarith
qed

lemma queue_ok_snoc:
  assumes "queue_ok t items" "item_ok x" "q_threadId x = t" "q_id x \<notin> set (map q_id items)"
    "q_order x = next_order items \<or> q_order x = front_order items"
  shows "queue_ok t (items @ [x])"
proof -
  have "q_order q \<noteq> q_order x" if "q \<in> set items" for q
    using assms(5) next_order_greater [OF that] front_order_less [OF that] by auto
  then have "q_order x \<notin> q_order ` set items" by (metis imageE)
  then show ?thesis using assms(1-4) by (simp add: queue_ok_def)
qed

section \<open>Items the operations make\<close>

lemma norm_mode_idem [simp]: "norm_mode (norm_mode m) = norm_mode m"
  by (cases m) (auto simp: norm_mode_def normalize_chat_mode_def DEFAULT_CHAT_MODE_def)

definition input_ok :: "string \<Rightarrow> string \<Rightarrow> string \<Rightarrow> enqueue_input \<Rightarrow> bool" where
  "input_ok t now uuid input \<longleftrightarrow>
     in_threadId input = t \<and> now \<noteq> [] \<and> trim uuid \<noteq> [] \<and> (truthy (in_id input) \<longrightarrow> trim (the (in_id input)) \<noteq> []) \<and>
     in_workflowInvocationId input \<noteq> Some [] \<and> count_ok (in_stopGeneration input) \<and> in_sentFrom input \<noteq> Some [] \<and>
     (case in_origin input of None \<Rightarrow> True | Some og \<Rightarrow> origin_ok og)"

definition patch_ok :: "message_patch \<Rightarrow> bool" where
  "patch_ok patch \<longleftrightarrow> mp_sentFrom patch \<noteq> Some [] \<and>
     (case mp_origin patch of SetOrigin a \<Rightarrow> origin_ok (FromAgent a) | _ \<Rightarrow> True)"

definition owner_ok :: "string \<Rightarrow> claim_owner \<Rightarrow> bool" where
  "owner_ok now owner \<longleftrightarrow> now \<noteq> [] \<and> 0 < ow_pid owner \<and> trim (ow_token owner) \<noteq> [] \<and> ow_claimedAt owner \<noteq> Some []"

lemma non_blank_ok [simp]: "non_blank v \<noteq> Some []"
  by (auto simp: non_blank_def truthy_def)

lemma non_nil_ok [simp]: "non_nil v \<noteq> Some []"
  by (auto simp: non_nil_def)

lemma edit_refusal_None:
  "edit_refusal q = None \<longleftrightarrow> \<not> q_internal q \<and> \<not> truthy (q_workflowInvocationId q) \<and> non_nil (q_inboxIds q) = None \<and> waiting q"
  by (auto simp: edit_refusal_def waiting_def)

lemma patched_item_ok:
  assumes "item_ok q" "patch_ok patch"
  shows "item_ok (patched_item q patch content)"
proof -
  have "case q_mode (patched_item q patch content) of None \<Rightarrow> True | Some m \<Rightarrow> norm_mode m = m"
    using assms(1) by (auto simp: item_ok_def patched_item_def split: option.splits)
  moreover have "case q_origin (patched_item q patch content) of None \<Rightarrow> True | Some og \<Rightarrow> origin_ok og"
    using assms by (auto simp: item_ok_def patch_ok_def patched_item_def split: option.splits origin_patch.splits)
  ultimately show ?thesis
    using assms unfolding item_ok_def patch_ok_def patched_item_def
    by (auto split: option.splits)
qed

lemma promoted_item_ok:
  "item_ok q \<Longrightarrow> \<not> truthy (q_workflowInvocationId q) \<Longrightarrow> waiting q \<Longrightarrow> item_ok (promoted_item q run mode)"
  by (cases "q_workflowInvocationId q")
     (auto simp: item_ok_def promoted_item_def truthy_def waiting_def receipt_ok_def is_workflow_uuid_def)

lemma claimed_item_ok:
  "item_ok q \<Longrightarrow> drainable q \<Longrightarrow> owner_ok now owner \<Longrightarrow> item_ok (q\<lparr>q_state := QClaimed, q_claim := Some (claim_of now owner)\<rparr>)"
  by (auto simp: item_ok_def drainable_def owner_ok_def claim_of_def claim_ok_def split: option.splits)

lemma released_item_ok: "item_ok q \<Longrightarrow> q_state q = QClaimed \<Longrightarrow> item_ok (released_item q)"
  by (auto simp: item_ok_def released_item_def)

lemma demoted_item_ok: "item_ok q \<Longrightarrow> item_ok (demoted_item q)"
  by (auto simp: item_ok_def demoted_item_def receipt_ok_def split: option.splits)

lemma new_item_ok:
  assumes "input_ok t now uuid input"
    "\<And>w. in_workflowInvocationId input = Some w \<Longrightarrow> is_workflow_uuid w \<and> in_intent input \<noteq> Some IntentSteer" "trim t \<noteq> []"
  shows "item_ok (new_item now uuid items input)"
proof -
  have "trim (q_id (new_item now uuid items input)) \<noteq> []"
    using assms(1) by (auto simp: input_ok_def new_item_def non_blank_def split: option.splits)
  moreover have "case q_mode (new_item now uuid items input) of None \<Rightarrow> True | Some m \<Rightarrow> norm_mode m = m"
    by (auto simp: new_item_def split: option.splits)
  moreover have "receipt_ok (q_workflowInvocationId (new_item now uuid items input)) (q_intent (new_item now uuid items input))"
    using assms(2) by (auto simp: receipt_ok_def new_item_def split: option.splits)
  ultimately show ?thesis
    using assms(1,3) unfolding item_ok_def input_ok_def new_item_def by simp
qed

end
