(* ===== verification/QueueReorder.thy ===== *)
theory QueueReorder
  imports QueueLaws
begin

text \<open>
  \<open>reorderQueuedMessages\<close>: the pending items are given the existing orders in the new sequence. On a
  well-formed queue the pending items then stand in exactly the order asked for, and what the user does not own
  (claimed and internal items) is as it was.
\<close>

lemma map_filter_all: "(\<And>x. x \<in> set xs \<Longrightarrow> f x \<noteq> None) \<Longrightarrow> List.map_filter f xs = map (\<lambda>x. the (f x)) xs"
  by (induction xs) (auto simp: map_filter_simps split: option.splits)

lemma by_id_Some: "by_id pending i = Some q \<Longrightarrow> q \<in> set pending \<and> q_id q = i"
  unfolding by_id_def by (auto dest!: map_of_SomeD)

lemma by_id_mem: "distinct (map q_id pending) \<Longrightarrow> q \<in> set pending \<Longrightarrow> by_id pending (q_id q) = Some q"
  unfolding by_id_def by (rule map_of_is_SomeI) (simp_all add: comp_def image_iff rev_map [symmetric])

lemma by_id_ids: "by_id pending i \<noteq> None \<longleftrightarrow> i \<in> set (map q_id pending)"
  unfolding by_id_def by (auto simp: map_of_eq_None_iff image_iff)

lemma zip_ids:
  "set ids \<subseteq> set (map q_id pending) \<Longrightarrow> p \<in> set (zip ids (map q_order pending)) \<Longrightarrow> by_id pending (fst p) \<noteq> None"
  unfolding by_id_ids by (metis prod.collapse set_zip_leftD subsetD)

definition reslot :: "queued_message list \<Rightarrow> string \<times> int \<Rightarrow> queued_message" where
  "reslot pending p = (the (by_id pending (fst p)))\<lparr>q_order := snd p\<rparr>"

lemma slotted_map:
  assumes "set ids \<subseteq> set (map q_id pending)"
  shows "slotted pending ids = map (reslot pending) (zip ids (map q_order pending))"
proof -
  have "slotted pending ids =
    map (\<lambda>p. the (case p of (i, slot) \<Rightarrow> map_option (\<lambda>q. q\<lparr>q_order := slot\<rparr>) (by_id pending i))) (zip ids (map q_order pending))"
    unfolding slotted_def
  proof (intro map_filter_all)
    fix p assume "p \<in> set (zip ids (map q_order pending))"
    then have "by_id pending (fst p) \<noteq> None" by (rule zip_ids [OF assms(1)])
    then show "(case p of (i, slot) \<Rightarrow> map_option (\<lambda>q. q\<lparr>q_order := slot\<rparr>) (by_id pending i)) \<noteq> None"
      by (cases p) simp
  qed
  also have "\<dots> = map (reslot pending) (zip ids (map q_order pending))"
  proof (intro map_cong refl)
    fix p assume "p \<in> set (zip ids (map q_order pending))"
    then have "by_id pending (fst p) \<noteq> None" by (rule zip_ids [OF assms(1)])
    then show "the (case p of (i, slot) \<Rightarrow> map_option (\<lambda>q. q\<lparr>q_order := slot\<rparr>) (by_id pending i)) = reslot pending p"
      by (auto simp: reslot_def split: prod.splits)
  qed
  finally show ?thesis .
qed

lemma slotted_ids:
  assumes "set ids \<subseteq> set (map q_id pending)" "length ids = length pending"
  shows "map q_id (slotted pending ids) = ids"
proof -
  have "map q_id (slotted pending ids) = map fst (zip ids (map q_order pending))"
    unfolding slotted_map [OF assms(1)] map_map
  proof (intro map_cong refl)
    fix p assume "p \<in> set (zip ids (map q_order pending))"
    then have "by_id pending (fst p) \<noteq> None" by (rule zip_ids [OF assms(1)])
    then show "(q_id \<circ> reslot pending) p = fst p" by (auto simp: reslot_def dest: by_id_Some)
  qed
  then show ?thesis using assms(2) by simp
qed

lemma slotted_orders:
  "set ids \<subseteq> set (map q_id pending) \<Longrightarrow> length ids = length pending \<Longrightarrow> map q_order (slotted pending ids) = map q_order pending"
  by (simp add: slotted_map reslot_def comp_def map_snd_zip [unfolded])

lemma slotted_mem:
  assumes "set ids \<subseteq> set (map q_id pending)" "x \<in> set (slotted pending ids)"
  shows "\<exists>q \<in> set pending. \<exists>n. x = q\<lparr>q_order := n\<rparr>"
proof -
  from assms obtain p where p: "p \<in> set (zip ids (map q_order pending))" "x = reslot pending p"
    by (auto simp: slotted_map)
  then have "by_id pending (fst p) \<noteq> None" using zip_ids [OF assms(1)] by blast
  then obtain q where "by_id pending (fst p) = Some q" by auto
  with p(2) show ?thesis by (auto simp: reslot_def dest: by_id_Some)
qed

section \<open>The visible pending items\<close>

lemma item_ok_states: "item_ok q \<Longrightarrow> waiting q \<longleftrightarrow> q_state q \<noteq> QClaimed"
  by (auto simp: item_ok_def waiting_def)

lemma visible_pending_filter: "visible_pending coll items = sort_queue coll (filter (\<lambda>q. waiting q \<and> \<not> q_internal q) items)"
  by (simp add: visible_pending_def list_pending_queue_def filter_sort_queue conj_commute)

lemma visible_pending_sort [simp]: "visible_pending coll (sort_queue coll items) = visible_pending coll items"
  by (simp add: visible_pending_filter filter_sort_queue)

lemma visible_pending_filter_ok:
  "queue_ok t items \<Longrightarrow> visible_pending coll items = sort_queue coll (filter (\<lambda>q. \<not> user_held q) items)"
  unfolding visible_pending_filter
  by (intro arg_cong [where f = "sort_queue coll"] filter_cong refl) (auto simp: user_held_def queue_ok_def item_ok_states)

lemma queue_parts:
  "queue_ok t items \<Longrightarrow> mset items = mset (filter user_held items) + mset (visible_pending coll items)"
  by (simp add: visible_pending_filter_ok)

lemma visible_pending_ok:
  "queue_ok t items \<Longrightarrow> queue_ok t (visible_pending coll items)"
  by (simp add: visible_pending_filter_ok queue_ok_filter)

lemma sorted_orders: "sorted (map q_order (sort_queue coll items))"
proof -
  have "sorted_wrt (\<lambda>x y. queue_key coll x \<le> queue_key coll y) (sort_queue coll items)"
    using sorted_sort_key [of "queue_key coll" items] by (simp add: sort_queue_def sorted_map)
  then have "sorted_wrt (\<lambda>x y. q_order x \<le> q_order y) (sort_queue coll items)"
    by (rule sorted_wrt_mono_rel [rotated]) (auto simp: queue_key_def less_eq_prod_def)
  then show ?thesis by (simp add: sorted_map)
qed

lemma sort_queue_sorted:
  assumes "sorted (map q_order items)" "distinct (map q_order items)"
  shows "sort_queue coll items = items"
proof -
  have "sorted_wrt (\<lambda>x y. q_order x < q_order y) items"
    using assms by (metis sorted_wrt_map strict_sorted_iff)
  then have "sorted_wrt (\<lambda>x y. queue_key coll x \<le> queue_key coll y) items"
    by (rule sorted_wrt_mono_rel [rotated]) (auto simp: queue_key_def less_eq_prod_def)
  then show ?thesis by (simp add: sort_queue_def sort_key_id_if_sorted sorted_map)
qed

section \<open>Reordering\<close>

lemma item_ok_order [simp]: "item_ok (q\<lparr>q_order := n\<rparr>) \<longleftrightarrow> item_ok q"
  by (simp add: item_ok_def)

lemma reorder_accepts:
  assumes "queue_ok t items" "reorder_queued_messages coll items ids = Inr items'"
  shows "distinct ids" "length ids = length (visible_pending coll items)" "set ids = set (map q_id (visible_pending coll items))"
    "items' = sort_queue coll (filter user_held items @ slotted (visible_pending coll items) ids)"
proof -
  let ?p = "visible_pending coll items"
  show d: "distinct ids" and l: "length ids = length ?p"
    using assms(2) by (auto simp: reorder_queued_messages_def Let_def split: if_splits)
  have "\<forall>x \<in> set ids. x \<in> set (map q_id ?p)" and
    eq: "items' = sort_queue coll (filter user_held items @ slotted ?p ids)"
    using assms(2) by (auto simp: reorder_queued_messages_def Let_def find_None_iff_mem split: if_splits option.splits)
  then have "set ids \<subseteq> set (map q_id ?p)" by blast
  moreover have "card (set ids) = card (set (map q_id ?p))"
    using d l visible_pending_ok [OF assms(1), of coll] by (metis distinct_card length_map queue_ok_def)
  ultimately show "set ids = set (map q_id ?p)" by (intro card_subset_eq) simp_all
  show "items' = sort_queue coll (filter user_held items @ slotted ?p ids)" by (rule eq)
qed

lemma reorder_succeeds:
  assumes "mset ids = mset (map q_id (visible_pending coll items))" "queue_ok t items"
  shows "\<exists>items'. reorder_queued_messages coll items ids = Inr items'"
proof -
  let ?p = "visible_pending coll items"
  have "length ids = length (map q_id ?p)" using assms(1) by (metis size_mset)
  moreover have "distinct ids"
    using assms(1) visible_pending_ok [OF assms(2), of coll] by (metis mset_eq_imp_distinct_iff queue_ok_def)
  moreover have "List.find (\<lambda>x. x \<notin> set (map q_id ?p)) ids = None"
    unfolding find_None_iff_mem using mset_eq_setD [OF assms(1)] by blast
  ultimately show ?thesis by (simp add: reorder_queued_messages_def Let_def)
qed

lemma slotted_ok:
  assumes "queue_ok t pending" "set ids \<subseteq> set (map q_id pending)" "length ids = length pending" "distinct ids"
  shows "queue_ok t (slotted pending ids)"
proof -
  have "item_ok x \<and> q_threadId x = t" if "x \<in> set (slotted pending ids)" for x
    using slotted_mem [OF assms(2) that] assms(1) by (auto simp: queue_ok_def)
  moreover have "distinct (map q_order (slotted pending ids))"
    using assms(1) by (simp add: slotted_orders [OF assms(2,3)] queue_ok_def)
  ultimately show ?thesis using assms(4) by (simp add: queue_ok_def slotted_ids [OF assms(2,3)])
qed

lemma slotted_free:
  "set ids \<subseteq> set (map q_id pending) \<Longrightarrow> (\<And>q. q \<in> set pending \<Longrightarrow> \<not> user_held q) \<Longrightarrow> x \<in> set (slotted pending ids) \<Longrightarrow> \<not> user_held x"
  by (drule (1) slotted_mem) (auto simp: user_held_def)

lemma reorder_ok:
  assumes "queue_ok t items" "reorder_queued_messages coll items ids = Inr items'"
  shows "queue_ok t items'" "visible_pending coll items' = slotted (visible_pending coll items) ids"
    "filter user_held items' = sort_queue coll (filter user_held items)"
proof -
  let ?p = "visible_pending coll items" and ?held = "filter user_held items"
  let ?s = "slotted ?p ids"
  note acc = reorder_accepts [OF assms]
  have sub: "set ids \<subseteq> set (map q_id ?p)" using acc(3) by simp
  have pok: "queue_ok t ?p" by (rule visible_pending_ok [OF assms(1)])
  have sok: "queue_ok t ?s" by (rule slotted_ok [OF pok sub acc(2,1)])
  have hok: "queue_ok t ?held" using assms(1) by blast
  have parts: "queue_ok t (?held @ ?p)"
    using assms(1) queue_parts [OF assms(1), of coll] by (metis mset_append queue_ok_mset)
  have free: "\<not> user_held x" if "x \<in> set ?s" for x
    by (rule slotted_free [OF sub _ that]) (simp add: visible_pending_filter_ok [OF assms(1)])
  have "set (map q_id ?s) = set (map q_id ?p)" using acc(3) by (simp only: slotted_ids [OF sub acc(2)])
  then have ids: "q_id ` set ?s = q_id ` set ?p" by simp
  have "set (map q_order ?s) = set (map q_order ?p)" by (simp only: slotted_orders [OF sub acc(2)])
  then have orders: "q_order ` set ?s = q_order ` set ?p" by simp
  have "distinct (map q_id (?held @ ?s))" "distinct (map q_order (?held @ ?s))"
    using parts sok by (simp_all add: queue_ok_def ids orders)
  then have "queue_ok t (?held @ ?s)" using hok sok by (auto simp: queue_ok_def)
  then show ok: "queue_ok t items'" using acc(4) by simp
  have "filter user_held ?s = []" "filter (\<lambda>q. \<not> user_held q) ?s = ?s" using free by (simp_all add: filter_empty_conv)
  then show "filter user_held items' = sort_queue coll ?held"
    by (simp add: acc(4) filter_sort_queue)
  have "visible_pending coll items' = sort_queue coll ?s"
    using \<open>filter (\<lambda>q. \<not> user_held q) ?s = ?s\<close>
    by (simp add: visible_pending_filter_ok [OF ok]) (simp add: acc(4) filter_sort_queue)
  also have "\<dots> = ?s"
  proof (rule sort_queue_sorted)
    have "sorted (map q_order ?p)" by (simp add: visible_pending_filter sorted_orders)
    then show "sorted (map q_order ?s)" by (simp only: slotted_orders [OF sub acc(2)])
    show "distinct (map q_order ?s)" using sok by (simp add: queue_ok_def)
  qed
  finally show "visible_pending coll items' = ?s" .
qed

end
