(* ===== verification/QueueSafety.thy ===== *)
theory QueueSafety
  imports QueueReorder
begin

text \<open>
  The operations as calls on one queue (\<open>queue_call\<close>, \<open>perform_call\<close>): every call keeps \<open>queue_ok\<close>,
  and a call that is not about claims keeps the claimed items. A call that throws leaves the queue as it is.
\<close>

datatype queue_call =
    CallEnqueue enqueue_input
  | CallRemove string
  | CallReorder "string list"
  | CallEdit string message_patch
  | CallPromote string "string option" "permission_mode option"
  | CallDemote "string list option"
  | CallDropSteer "string list option"
  | CallClear
  | CallClaim claim_owner
  | CallRelease string "string option"
  | CallComplete string "string option"
  | CallReclaim "queue_claim \<Rightarrow> bool" "queued_message \<Rightarrow> bool"
  | CallDrain

fun perform_call ::
  "(string \<Rightarrow> string) \<Rightarrow> string \<Rightarrow> string \<Rightarrow> queue_call \<Rightarrow> queued_message list \<Rightarrow> queue_error + queued_message list" where
  "perform_call coll now uuid (CallEnqueue input) items = map_sum id fst (enqueue_message coll now uuid items input)"
| "perform_call coll now uuid (CallRemove i) items = Inr (fst (remove_queued_message items i))"
| "perform_call coll now uuid (CallReorder ids) items = reorder_queued_messages coll items ids"
| "perform_call coll now uuid (CallEdit i patch) items = map_sum id fst (edit_queued_message coll items i patch)"
| "perform_call coll now uuid (CallPromote i run mode) items = map_sum id fst (promote_queued_message_to_steer coll items i run mode)"
| "perform_call coll now uuid (CallDemote ids) items = Inr (demote_steer_items coll items ids)"
| "perform_call coll now uuid (CallDropSteer ids) items = Inr (drop_steer_items items ids)"
| "perform_call coll now uuid CallClear items = Inr (clear_pending_queue coll items)"
| "perform_call coll now uuid (CallClaim owner) items = Inr (fst (claim_next_normal coll now items owner))"
| "perform_call coll now uuid (CallRelease i token) items = Inr (fst (release_claim coll items i token))"
| "perform_call coll now uuid (CallComplete i token) items = Inr (fst (complete_claim items i token))"
| "perform_call coll now uuid (CallReclaim isLive accepted) items = Inr (fst (reclaim_abandoned_claims coll isLive accepted items))"
| "perform_call coll now uuid CallDrain items = Inr (fst (drain_next_normal coll items))"

text \<open>The inputs a caller hands in are values of their types, and a new identifier is new.\<close>

fun call_ok :: "string \<Rightarrow> string \<Rightarrow> string \<Rightarrow> queue_call \<Rightarrow> queued_message list \<Rightarrow> bool" where
  "call_ok t now uuid (CallEnqueue input) items \<longleftrightarrow> input_ok t now uuid input \<and> uuid \<notin> set (map q_id items)"
| "call_ok t now uuid (CallEdit i patch) items \<longleftrightarrow> patch_ok patch"
| "call_ok t now uuid (CallClaim owner) items \<longleftrightarrow> owner_ok now owner"
| "call_ok t now uuid _ items \<longleftrightarrow> True"

fun about_claims :: "queue_call \<Rightarrow> bool" where
  "about_claims (CallClaim _) = True"
| "about_claims (CallRelease _ _) = True"
| "about_claims (CallComplete _ _) = True"
| "about_claims (CallReclaim _ _) = True"
| "about_claims _ = False"

section \<open>Every call keeps the queue well-formed\<close>

lemma new_item_fields [simp]:
  "q_threadId (new_item now uuid items input) = in_threadId input"
  "q_order (new_item now uuid items input) = (if in_atFront input then front_order items else next_order items)"
  "q_state (new_item now uuid items input) = QPending"
  by (simp_all add: new_item_def)

lemma enqueue_cases:
  assumes "enqueue_message coll now uuid items input = Inr (items', q)"
  obtains (old) "items' = items" "q \<in> set items"
  | (new) "items' = sort_queue coll (items @ [q])" "q = new_item now uuid items input" "trim (in_threadId input) \<noteq> []"
      "\<And>w. in_workflowInvocationId input = Some w \<Longrightarrow> w \<noteq> [] \<Longrightarrow> is_workflow_uuid w \<and> in_intent input \<noteq> Some IntentSteer"
      "\<And>i. in_id input = Some i \<Longrightarrow> i \<noteq> [] \<Longrightarrow> i \<notin> set (map q_id items)"
proof (cases "items' = items \<and> q \<in> set items")
  case False
  then have "items' = sort_queue coll (items @ [q]) \<and> q = new_item now uuid items input \<and> trim (in_threadId input) \<noteq> [] \<and>
    (\<forall>w. in_workflowInvocationId input = Some w \<and> w \<noteq> [] \<longrightarrow> is_workflow_uuid w \<and> in_intent input \<noteq> Some IntentSteer) \<and>
    (\<forall>i. in_id input = Some i \<and> i \<noteq> [] \<longrightarrow> i \<notin> set (map q_id items))"
    using assms
    by (auto simp: enqueue_message_def Let_def truthy_def non_blank_def find_None_iff_mem
        split: if_splits option.splits dest: find_Some_iff_mem)
  then show ?thesis using new by blast
qed (use old in blast)

lemma enqueue_ok:
  assumes "queue_ok t items" "input_ok t now uuid input" "uuid \<notin> set (map q_id items)"
    "enqueue_message coll now uuid items input = Inr (items', q)"
  shows "queue_ok t items'"
  using assms(4)
proof (cases rule: enqueue_cases)
  case new
  have "q_id q \<notin> set (map q_id items)"
    using new(5) assms(3) by (auto simp: new(2) new_item_def non_blank_def truthy_def split: option.splits)
  moreover have "item_ok q"
    unfolding new(2) by (rule new_item_ok [OF assms(2)]) (use new(3,4) assms(2) in \<open>auto simp: input_ok_def\<close>)
  ultimately have "queue_ok t (items @ [q])"
    by (intro queue_ok_snoc [OF assms(1)]) (use assms(2) in \<open>auto simp: new(2) input_ok_def\<close>)
  then show ?thesis by (simp add: new(1))
qed (use assms in simp)

lemma find_item_queue_ok: "find_item i items = Some q \<Longrightarrow> queue_ok t items \<Longrightarrow> q \<in> set items \<and> q_id q = i \<and> item_ok q \<and> q_threadId q = t"
  using find_item_Some by (fastforce simp: queue_ok_def)

lemma edit_ok:
  assumes "queue_ok t items" "patch_ok patch" "edit_queued_message coll items i patch = Inr (items', q)"
  shows "queue_ok t items'"
proof -
  from assms(3) obtain c content where c: "find_item i items = Some c" "q = patched_item c patch content"
    "items' = sort_queue coll (put_item i q items)"
    by (auto simp: edit_queued_message_def Let_def split: option.splits if_splits sum.splits)
  then have "item_ok q" using find_item_queue_ok [OF c(1) assms(1)] patched_item_ok [OF _ assms(2)] by blast
  then show ?thesis using queue_ok_put [OF assms(1) c(1)] by (simp add: c(2,3) patched_item_def)
qed

lemma promote_ok:
  assumes "queue_ok t items" "promote_queued_message_to_steer coll items i run mode = Inr (items', q)"
  shows "queue_ok t items'"
proof -
  from assms(2) obtain c where c: "find_item i items = Some c" "q = promoted_item c run mode"
    "items' = sort_queue coll (put_item i q items)" "\<not> truthy (q_workflowInvocationId c)" "waiting c"
    by (auto simp: promote_queued_message_to_steer_def Let_def split: option.splits if_splits)
  then have "item_ok q" using find_item_queue_ok [OF c(1) assms(1)] promoted_item_ok by blast
  then show ?thesis using queue_ok_put [OF assms(1) c(1)] by (simp add: c(2,3) promoted_item_def)
qed

lemma release_ok: "queue_ok t items \<Longrightarrow> queue_ok t (fst (release_claim coll items i token))"
proof -
  assume ok: "queue_ok t items"
  have "queue_ok t (put_item i (released_item c) items)" if "find_item i items = Some c" "q_state c = QClaimed" for c
    using queue_ok_put [OF ok that(1), of "released_item c"] find_item_queue_ok [OF that(1) ok] released_item_ok [OF _ that(2)]
    by (simp add: released_item_def)
  then show ?thesis using ok by (simp add: release_claim_def split: option.splits)
qed

lemma next_normal_Some: "next_normal coll items = Some q \<Longrightarrow> q \<in> set items \<and> drainable q"
  unfolding next_normal_def list_pending_queue_def by (auto dest!: find_Some_iff_mem)

lemma claim_ok_queue:
  assumes "queue_ok t items" "owner_ok now owner"
  shows "queue_ok t (fst (claim_next_normal coll now items owner))"
proof (cases "next_normal coll items")
  case (Some q)
  let ?c = "q\<lparr>q_state := QClaimed, q_claim := Some (claim_of now owner)\<rparr>"
  note q = next_normal_Some [OF Some]
  have "item_ok ?c" using claimed_item_ok q assms by (simp add: queue_ok_def)
  then have "queue_ok t (map (\<lambda>x. if q_id x = q_id q then ?c else x) items)"
    using queue_ok_unique [OF assms(1)] q assms(1) by (intro queue_ok_map) (auto simp: queue_ok_def)
  then show ?thesis by (simp add: claim_next_normal_def Some Let_def)
qed (use assms in \<open>simp add: claim_next_normal_def\<close>)

lemma reclaim_kept:
  "fst (reclaim_items isLive accepted items) =
     map (\<lambda>q. if q_state q = QClaimed \<and> \<not> (case q_claim q of None \<Rightarrow> False | Some c \<Rightarrow> isLive c) then released_item q else q)
       (filter (\<lambda>q. \<not> (q_state q = QClaimed \<and> accepted q)) items)"
  by (induction items) (auto simp: Let_def split: prod.splits)

lemma reclaim_ok: "queue_ok t items \<Longrightarrow> queue_ok t (fst (reclaim_items isLive accepted items))"
  unfolding reclaim_kept
  by (intro queue_ok_map queue_ok_filter) (auto simp: queue_ok_def released_item_ok, auto simp: released_item_def)

lemma demote_ok: "queue_ok t items \<Longrightarrow> queue_ok t (demote_steer_items coll items ids)"
  unfolding demote_steer_items_def queue_ok_sort
  by (intro queue_ok_map) (auto simp: queue_ok_def demoted_item_ok, auto simp: demoted_item_def)

theorem perform_call_ok:
  assumes "queue_ok t items" "call_ok t now uuid call items" "perform_call coll now uuid call items = Inr items'"
  shows "queue_ok t items'"
proof (cases call)
  case (CallEnqueue input)
  with assms show ?thesis by (cases "enqueue_message coll now uuid items input") (auto intro: enqueue_ok)
next
  case (CallEdit i patch)
  with assms show ?thesis by (cases "edit_queued_message coll items i patch") (auto intro: edit_ok)
next
  case (CallPromote i run mode)
  with assms show ?thesis by (cases "promote_queued_message_to_steer coll items i run mode") (auto intro: promote_ok)
next
  case (CallReorder ids)
  with assms show ?thesis using reorder_ok(1) by simp
next
  case (CallReclaim isLive accepted)
  with assms show ?thesis
    using reclaim_ok [OF assms(1)] by (auto simp: reclaim_abandoned_claims_def split: prod.splits) (metis fst_conv)
next
  case (CallClaim owner)
  with assms show ?thesis using claim_ok_queue by auto
qed (use assms in \<open>auto simp: remove_queued_message_def without_def demote_ok drop_steer_items_def clear_pending_queue_def
      release_ok complete_claim_def drain_next_normal_def split: option.splits\<close>)

section \<open>Claimed items\<close>

lemma claimed_sort:
  "list_claimed_queue coll (sort_queue coll items) = list_claimed_queue coll items"
  by (simp add: list_claimed_queue_def filter_sort_queue)

lemma claims_same: "filter (\<lambda>q. q_state q = QClaimed) xs = filter (\<lambda>q. q_state q = QClaimed) ys \<Longrightarrow>
    list_claimed_queue coll xs = list_claimed_queue coll ys"
  by (simp add: list_claimed_queue_def)

lemma claimed_filter: "(\<And>q. q \<in> set items \<Longrightarrow> q_state q = QClaimed \<Longrightarrow> P q) \<Longrightarrow>
    list_claimed_queue coll (filter P items) = list_claimed_queue coll items"
  by (rule claims_same) (auto intro!: filter_cong)

lemma claimed_map:
  assumes "\<And>q. q \<in> set items \<Longrightarrow> q_state q = QClaimed \<Longrightarrow> f q = q"
    "\<And>q. q \<in> set items \<Longrightarrow> q_state q \<noteq> QClaimed \<Longrightarrow> q_state (f q) \<noteq> QClaimed"
  shows "list_claimed_queue coll (map f items) = list_claimed_queue coll items"
  using assms by (intro claims_same) (induction items, auto)

lemma claimed_put:
  assumes "queue_ok t items" "find_item i items = Some c" "q_state c \<noteq> QClaimed" "q_state x \<noteq> QClaimed"
  shows "list_claimed_queue coll (put_item i x items) = list_claimed_queue coll items"
proof -
  have "q_state q \<noteq> QClaimed" if "q \<in> set items" "q_id q = i" for q
    using queue_ok_unique [OF assms(1) that(1)] find_item_Some [OF assms(2)] assms(3) that(2) by metis
  moreover have "distinct (map q_id items)" using assms(1) by (simp add: queue_ok_def)
  ultimately show ?thesis using assms(4) by (auto simp: put_item_map intro!: claimed_map split: if_splits)
qed

lemma not_claimed: "waiting q \<Longrightarrow> q_state q \<noteq> QClaimed"
  by (auto simp: waiting_def)

lemma enqueue_claims:
  assumes "enqueue_message coll now uuid items input = Inr (items', q)"
  shows "list_claimed_queue coll items' = list_claimed_queue coll items"
  using assms
proof (cases rule: enqueue_cases)
  case new
  have "list_claimed_queue coll (items @ [q]) = list_claimed_queue coll items" by (rule claims_same) (simp add: new(2))
  then show ?thesis by (simp add: new(1) claimed_sort)
qed simp

lemma edit_claims:
  assumes "queue_ok t items" "edit_queued_message coll items i patch = Inr (items', q)"
  shows "list_claimed_queue coll items' = list_claimed_queue coll items"
proof -
  from assms(2) obtain c content where c: "find_item i items = Some c" "q = patched_item c patch content"
    "items' = sort_queue coll (put_item i q items)" "edit_refusal c = None"
    by (auto simp: edit_queued_message_def Let_def split: option.splits if_splits sum.splits)
  then show ?thesis
    using claimed_put [OF assms(1) c(1), of q] not_claimed by (auto simp: claimed_sort edit_refusal_None patched_item_def)
qed

lemma promote_claims:
  assumes "queue_ok t items" "promote_queued_message_to_steer coll items i run mode = Inr (items', q)"
  shows "list_claimed_queue coll items' = list_claimed_queue coll items"
proof -
  from assms(2) obtain c where c: "find_item i items = Some c" "q = promoted_item c run mode"
    "items' = sort_queue coll (put_item i q items)" "waiting c"
    by (auto simp: promote_queued_message_to_steer_def Let_def split: option.splits if_splits)
  then show ?thesis
    using claimed_put [OF assms(1) c(1), of q] not_claimed by (auto simp: claimed_sort promoted_item_def)
qed

lemma remove_claims:
  assumes "queue_ok t items"
  shows "list_claimed_queue coll (fst (remove_queued_message items i)) = list_claimed_queue coll items"
proof (cases "find_item i items")
  case (Some c)
  have "q_id q \<noteq> i" if "q \<in> set items" "q_state q = QClaimed" "q_state c \<noteq> QClaimed" for q
    using queue_ok_unique [OF assms that(1)] find_item_Some [OF Some] that(2,3) by metis
  then show ?thesis by (simp add: remove_queued_message_def Some without_def) (blast intro!: claimed_filter)
qed (simp add: remove_queued_message_def)

lemma reorder_claims:
  assumes "queue_ok t items" "reorder_queued_messages coll items ids = Inr items'"
  shows "list_claimed_queue coll items' = list_claimed_queue coll items"
proof -
  have "list_claimed_queue coll (filter user_held xs) = list_claimed_queue coll xs" for xs
    by (rule claimed_filter) (simp add: user_held_def)
  then show ?thesis by (metis reorder_ok(3) [OF assms] claimed_sort)
qed

lemma user_call_claims:
  assumes "queue_ok t items" "\<not> about_claims call" "perform_call coll now uuid call items = Inr items'"
  shows "list_claimed_queue coll items' = list_claimed_queue coll items"
proof (cases call)
  case (CallEnqueue input)
  with assms show ?thesis by (cases "enqueue_message coll now uuid items input") (auto intro: enqueue_claims)
next
  case (CallEdit i patch)
  with assms show ?thesis by (cases "edit_queued_message coll items i patch") (auto intro: edit_claims)
next
  case (CallPromote i run mode)
  with assms show ?thesis by (cases "promote_queued_message_to_steer coll items i run mode") (auto intro: promote_claims)
next
  case (CallReorder ids)
  with assms show ?thesis using reorder_claims by simp
next
  case (CallRemove i)
  with assms show ?thesis using remove_claims by auto
next
  case (CallDemote ids)
  have "list_claimed_queue coll (demote_steer_items coll items ids) = list_claimed_queue coll items"
    unfolding demote_steer_items_def claimed_sort by (rule claimed_map) (auto simp: demoted_item_def)
  with assms CallDemote show ?thesis by auto
next
  case (CallDropSteer ids)
  have "q_intent q = IntentNormal" if "q \<in> set items" "q_state q = QClaimed" for q
    using assms(1) that by (auto simp: queue_ok_def item_ok_def)
  then have "list_claimed_queue coll (drop_steer_items items ids) = list_claimed_queue coll items"
    by (auto simp: drop_steer_items_def intro!: claimed_filter split: option.splits)
  with assms CallDropSteer show ?thesis by auto
next
  case CallClear
  have "list_claimed_queue coll (clear_pending_queue coll items) = list_claimed_queue coll items"
    unfolding clear_pending_queue_def claimed_sort by (rule claimed_filter) (simp add: user_held_def)
  with assms CallClear show ?thesis by auto
next
  case CallDrain
  have "q_id q \<noteq> q_id d" if "q \<in> set items" "q_state q = QClaimed" "next_normal coll items = Some d" for q d
    using queue_ok_unique [OF assms(1) that(1)] next_normal_Some [OF that(3)] that(2) by (auto simp: drainable_def)
  then have "list_claimed_queue coll (fst (drain_next_normal coll items)) = list_claimed_queue coll items"
    by (auto simp: drain_next_normal_def claimed_sort without_def intro!: claimed_filter split: option.splits)
  with assms CallDrain show ?thesis by auto
qed (use assms in simp_all)

section \<open>Runs of calls\<close>

inductive queue_run :: "(string \<Rightarrow> string) \<Rightarrow> string \<Rightarrow> queue_call list \<Rightarrow> queued_message list \<Rightarrow> queued_message list \<Rightarrow> bool"
  for coll t where
  start: "queue_run coll t [] items items"
| answered: "queue_run coll t calls items items1 \<Longrightarrow> call_ok t now uuid call items1 \<Longrightarrow>
    perform_call coll now uuid call items1 = Inr items2 \<Longrightarrow> queue_run coll t (calls @ [call]) items items2"
| refused: "queue_run coll t calls items items1 \<Longrightarrow> perform_call coll now uuid call items1 = Inl e \<Longrightarrow>
    queue_run coll t (calls @ [call]) items items1"

lemma queue_run_ok: "queue_run coll t calls items items' \<Longrightarrow> queue_ok t items \<Longrightarrow> queue_ok t items'"
  by (induction rule: queue_run.induct) (auto intro: perform_call_ok)

lemma queue_run_claims:
  "queue_run coll t calls items items' \<Longrightarrow> queue_ok t items \<Longrightarrow> list_all (\<lambda>c. \<not> about_claims c) calls \<Longrightarrow>
   list_claimed_queue coll items' = list_claimed_queue coll items"
proof (induction rule: queue_run.induct)
  case (answered calls items items1 now uuid call items2)
  then have "list_claimed_queue coll items2 = list_claimed_queue coll items1"
    using user_call_claims [OF queue_run_ok [OF answered(1)] _ answered(3)] by simp
  with answered show ?case by simp
qed simp_all

section \<open>The next message\<close>

lemma next_normal_least:
  assumes "next_normal coll items = Some q" "x \<in> set items" "drainable x"
  shows "q_order q \<le> q_order x"
proof -
  let ?p = "list_pending_queue coll items"
  have "drainable z \<Longrightarrow> waiting z" for z by (simp add: drainable_def waiting_def)
  then have x: "x \<in> set ?p" using assms(2,3) by (simp add: list_pending_queue_def)
  from assms(1) obtain i where i: "i < length ?p" "?p ! i = q" "\<forall>j < i. \<not> drainable (?p ! j)"
    unfolding next_normal_def by (auto simp: find_Some_iff)
  from x obtain k where k: "k < length ?p" "?p ! k = x" by (auto simp: in_set_conv_nth)
  then have "i \<le> k" using i(3) assms(3) by (meson not_le)
  moreover have "sorted (map q_order ?p)" unfolding list_pending_queue_def by (rule sorted_orders)
  ultimately show ?thesis using i k sorted_nth_mono [of "map q_order ?p" i k] by simp
qed

lemma next_normal_None: "next_normal coll items = None \<Longrightarrow> x \<in> set items \<Longrightarrow> \<not> drainable x"
  by (auto simp: next_normal_def list_pending_queue_def find_None_iff_mem drainable_def waiting_def)

lemma claim_next_cases:
  assumes "queue_ok t items" "claim_next_normal coll now items owner = (items', Some c)"
  obtains q where "next_normal coll items = Some q" "c = q\<lparr>q_state := QClaimed, q_claim := Some (claim_of now owner)\<rparr>"
    "items' = sort_queue coll (put_item (q_id q) c items)"
  using assms by (auto simp: claim_next_normal_def Let_def put_item_map queue_ok_def split: option.splits)

lemma put_put:
  "distinct (map q_id items) \<Longrightarrow> q_id x = i \<Longrightarrow> put_item i y (put_item i x items) = put_item i y items"
  by (induction items) auto

lemma put_same: "distinct (map q_id items) \<Longrightarrow> find_item i items = Some q \<Longrightarrow> put_item i q items = items"
  by (induction items) (auto simp: find_item_def lookup_row_def)

lemma without_put: "q_id x = i \<Longrightarrow> distinct (map q_id items) \<Longrightarrow> without i (put_item i x items) = without i items"
  by (simp add: put_item_map without_def filter_map comp_def)
     (induction items, auto)

lemma put_item_mset:
  "distinct (map q_id xs) \<Longrightarrow> mset xs = mset ys \<Longrightarrow> mset (put_item i x xs) = mset (put_item i x ys)"
  using mset_eq_imp_distinct_iff [of "map q_id xs" "map q_id ys"] by (simp add: put_item_map)

end
