(* ===== verification/QueueJournal.thy ===== *)
theory QueueJournal
  imports QueueSafety Terminal
begin

text \<open>
  The journal of agent commands on a thread's queue: the rows of \<open>queue_commands\<close>
  (\<open>src/mms/run/QueueCommands.ts\<close>), what a command does to the items, its effects on the run
  database, and the recovery of unfinished commands (\<open>src/mms/queue/queueJournal.ts\<close>,
  \<open>src/mms/queue/durableQueue.ts\<close>, the effects in
  \<open>src/mms/orchestrator/OrchestratorService.ts\<close>). \<open>abandon\<close> tells whether the call that abandons a queued
  workflow command returns.
\<close>

section \<open>Rows\<close>

datatype queue_op = OpEnqueue | OpEdit | OpRemove | OpReorder | OpPromote

datatype command_status = CmdPending | CmdEffectsPending | CmdApplied | CmdFailed

record agent_actor =
  ac_threadId :: string
  ac_runId :: string
  ac_toolCallId :: string
  ac_hops :: "int option"

record command_intent =
  ci_op :: queue_op
  ci_threadId :: string
  ci_itemId :: string
  ci_item :: "queued_message option"
  ci_patch :: "message_patch option"
  ci_orderedIds :: "string list option"
  ci_expectedRevision :: "string option"
  ci_expectedRunId :: "string option"
  ci_steerRunId :: "string option"
  ci_permissionMode :: "permission_mode option"
  ci_actor :: "agent_actor option"
  ci_cancelRunIds :: "string list"
  ci_releaseInboxIds :: "string list"
  ci_abandonWorkflowInvocationId :: "string option"
  ci_fingerprint :: "string option"

text \<open>A result is the members of an object, as it was stored.\<close>

type_synonym command_result = "(string \<times> json) list"

record command_row =
  cr_commandKey :: string
  cr_threadId :: string
  cr_intent :: command_intent
  cr_status :: command_status
  cr_result :: "command_result option"
  cr_attempts :: nat
  cr_createdAt :: nat
  cr_appliedAt :: "nat option"

text \<open>
  The state the journal works on: the run database, the rows of \<open>queue_commands\<close> in it, the epochs the
  engine remembers of the runs it started, the queue file of each thread, and the threads a repair was scheduled for.
\<close>

record journal =
  jo_db :: store
  jo_commands :: "command_row list"
  jo_epochs :: "(string \<times> int) list"
  jo_queue :: "string \<Rightarrow> queued_message list"
  jo_repairs :: "string list"
  jo_abandoned :: "(string \<times> string) list"

definition QUEUE_COMMAND_MAX_ATTEMPTS :: nat where
  "QUEUE_COMMAND_MAX_ATTEMPTS = 5"

definition QUEUE_COMMAND_RETENTION_MS :: nat where
  "QUEUE_COMMAND_RETENTION_MS = 14 * 24 * 60 * 60 * 1000"

definition get_command :: "string \<Rightarrow> journal \<Rightarrow> command_row option" where
  "get_command key j = lookup_row cr_commandKey key (jo_commands j)"

definition update_commands :: "(command_row \<Rightarrow> bool) \<Rightarrow> (command_row \<Rightarrow> command_row) \<Rightarrow> journal \<Rightarrow> journal" where
  "update_commands P f j = j\<lparr>jo_commands := update_rows P f (jo_commands j)\<rparr>"

definition unfinished :: "command_row \<Rightarrow> bool" where
  "unfinished r \<longleftrightarrow> cr_status r = CmdPending \<or> cr_status r = CmdEffectsPending"

definition insert_pending :: "string \<Rightarrow> command_intent \<Rightarrow> journal \<Rightarrow> journal" where
  "insert_pending key intent j = j\<lparr>jo_commands := jo_commands j @
     [\<lparr>cr_commandKey = key, cr_threadId = ci_threadId intent, cr_intent = intent, cr_status = CmdPending, cr_result = None,
       cr_attempts = 0, cr_createdAt = clock (jo_db j), cr_appliedAt = None\<rparr>]\<rparr>"

definition list_unfinished :: "string \<Rightarrow> journal \<Rightarrow> command_row list" where
  "list_unfinished t j = sort_key cr_createdAt (filter (\<lambda>r. cr_threadId r = t \<and> unfinished r) (jo_commands j))"

definition unfinished_thread_ids :: "journal \<Rightarrow> string list" where
  "unfinished_thread_ids j = distinct_first (map cr_threadId (filter unfinished (jo_commands j)))"

definition compact_intent :: "command_intent \<Rightarrow> command_intent" where
  "compact_intent intent = \<lparr>ci_op = ci_op intent, ci_threadId = ci_threadId intent, ci_itemId = ci_itemId intent,
     ci_item = None, ci_patch = None, ci_orderedIds = None, ci_expectedRevision = None, ci_expectedRunId = None,
     ci_steerRunId = None, ci_permissionMode = None, ci_actor = None, ci_cancelRunIds = [], ci_releaseInboxIds = [],
     ci_abandonWorkflowInvocationId = None, ci_fingerprint = non_blank (ci_fingerprint intent)\<rparr>"

definition stored_result :: "command_result \<Rightarrow> command_result" where
  "stored_result r = jmembers (stored (JObj r))"

definition mark_applied :: "command_row \<Rightarrow> command_result \<Rightarrow> journal \<Rightarrow> journal" where
  "mark_applied row result j = update_commands (\<lambda>r. cr_commandKey r = cr_commandKey row)
     (\<lambda>r. r\<lparr>cr_status := CmdApplied, cr_result := Some (stored_result result), cr_intent := compact_intent (cr_intent row),
            cr_appliedAt := Some (clock (jo_db j))\<rparr>) j"

definition mark_effects_pending :: "command_row \<Rightarrow> command_result \<Rightarrow> journal \<Rightarrow> journal" where
  "mark_effects_pending row result j = update_commands (\<lambda>r. cr_commandKey r = cr_commandKey row)
     (\<lambda>r. r\<lparr>cr_status := CmdEffectsPending, cr_result := Some (stored_result result)\<rparr>) j"

definition command_failed :: "string \<Rightarrow> journal \<Rightarrow> bool" where
  "command_failed key j \<longleftrightarrow> (case get_command key j of None \<Rightarrow> False | Some r \<Rightarrow> cr_status r = CmdFailed)"

definition record_failure :: "string \<Rightarrow> journal \<Rightarrow> journal" where
  "record_failure key j = update_commands (\<lambda>r. cr_commandKey r = key \<and> unfinished r)
     (\<lambda>r. r\<lparr>cr_attempts := Suc (cr_attempts r),
            cr_status := (if QUEUE_COMMAND_MAX_ATTEMPTS \<le> Suc (cr_attempts r) then CmdFailed else cr_status r)\<rparr>) j"

text \<open>Finished and failed entries older than the retention; the entries of a thread that is gone.\<close>

definition prune_commands :: "nat \<Rightarrow> journal \<Rightarrow> journal" where
  "prune_commands now j = j\<lparr>jo_commands := filter (\<lambda>r. unfinished r \<or>
     int (case cr_appliedAt r of None \<Rightarrow> cr_createdAt r | Some a \<Rightarrow> a) \<ge> int now - int QUEUE_COMMAND_RETENTION_MS) (jo_commands j)\<rparr>"

definition delete_commands_of :: "string \<Rightarrow> journal \<Rightarrow> journal" where
  "delete_commands_of t j = j\<lparr>jo_commands := filter (\<lambda>r. cr_threadId r \<noteq> t) (jo_commands j)\<rparr>"

section \<open>What a command does to the items\<close>

record applied_intent =
  ai_items :: "queued_message list"
  ai_result :: command_result
  ai_skipped :: bool

definition opt_json :: "string option \<Rightarrow> json" where
  "opt_json v = (case v of None \<Rightarrow> JNull | Some x \<Rightarrow> JStr x)"

definition applied_as ::
  "(string \<Rightarrow> string) \<Rightarrow> (string \<Rightarrow> string) \<Rightarrow> command_intent \<Rightarrow> queued_message list \<Rightarrow> command_result \<Rightarrow> bool \<Rightarrow> applied_intent" where
  "applied_as coll digest intent items result skipped = \<lparr>ai_items = items,
     ai_result = result @ [(''itemId'', JStr (ci_itemId intent)), (''revision'', JStr (queue_revision coll digest items))],
     ai_skipped = skipped\<rparr>"

definition without_run :: "queued_message list \<Rightarrow> string \<Rightarrow> queued_message list" where
  "without_run items i = map (\<lambda>q. if q_id q \<noteq> i \<or> \<not> truthy (q_runId q) then q else q\<lparr>q_runId := None\<rparr>) items"

definition apply_promote ::
  "(string \<Rightarrow> string) \<Rightarrow> queued_message list \<Rightarrow> command_intent \<Rightarrow> string option \<Rightarrow> queue_error + queued_message list \<times> command_result" where
  "apply_promote coll items intent activeRunId =
     (let i = ci_itemId intent; present = find_item i items in
      if truthy (ci_steerRunId intent) \<and> activeRunId \<noteq> ci_steerRunId intent
      then Inr (if present \<noteq> None then without_run (demote_steer_items coll items (Some [i])) i else items,
                [(''outcome'', JStr ''requeued''), (''steerRunId'', opt_json (ci_steerRunId intent))])
      else
        let result = [(''outcome'', JStr ''promoted''), (''steerRunId'', opt_json (ci_steerRunId intent))] in
        case present of
          None \<Rightarrow> Inr (items, result)
        | Some q \<Rightarrow>
            if \<not> waiting q then Inr (items, result)
            else case promote_queued_message_to_steer coll items i (ci_steerRunId intent) (ci_permissionMode intent) of
                Inl e \<Rightarrow> Inl e
              | Inr (next, item) \<Rightarrow>
                  let steer = item\<lparr>q_runId := None\<rparr>
                  in Inr (map (\<lambda>x. if q_id x = q_id steer then steer else x) next, result))"

definition apply_intent ::
  "(string \<Rightarrow> string) \<Rightarrow> (string \<Rightarrow> string) \<Rightarrow> queued_message list \<Rightarrow> command_intent \<Rightarrow> string option \<Rightarrow> queue_error + applied_intent" where
  "apply_intent coll digest items intent activeRunId =
     (let finish = applied_as coll digest intent; i = ci_itemId intent in
      case ci_op intent of
        OpEnqueue \<Rightarrow>
          (let outcome = [(''outcome'', JStr ''enqueued'')] in
           case ci_item intent of
             None \<Rightarrow> Inr (finish items outcome False)
           | Some item \<Rightarrow>
               Inr (finish (if find_item (q_id item) items \<noteq> None then items else sort_queue coll (items @ [item])) outcome False))
      | OpEdit \<Rightarrow>
          (let outcome = [(''outcome'', JStr ''edited'')] in
           case (find_item i items, ci_patch intent) of
             (Some q, Some patch) \<Rightarrow>
               (case edit_queued_message coll items i patch of
                  Inr (next, item) \<Rightarrow> Inr (finish next outcome False)
                | Inl e \<Rightarrow> Inr (finish items outcome True))
           | _ \<Rightarrow> Inr (finish items outcome True))
      | OpRemove \<Rightarrow> Inr (finish (fst (remove_queued_message items i)) [(''outcome'', JStr ''removed'')] False)
      | OpReorder \<Rightarrow>
          (let outcome = [(''outcome'', JStr ''reordered'')] in
           case reorder_queued_messages coll items (case ci_orderedIds intent of None \<Rightarrow> [] | Some ids \<Rightarrow> ids) of
             Inr next \<Rightarrow> Inr (finish next outcome False)
           | Inl e \<Rightarrow> Inr (finish items outcome False))
      | OpPromote \<Rightarrow> map_sum id (\<lambda>(next, result). finish next result False) (apply_promote coll items intent activeRunId))"

section \<open>The effects of a command\<close>

definition queue_owner :: "string \<Rightarrow> string" where
  "queue_owner itemId = ''queue:'' @ itemId"

text \<open>\<open>RunEngine.mark\<close>: the write compares the epoch the engine remembers, when it remembers one.\<close>

definition expected_epoch :: "(string \<times> int) list \<Rightarrow> run_record \<Rightarrow> int" where
  "expected_epoch ep run = (case map_of ep (rr_runId run) of None \<Rightarrow> int (rr_epoch run) | Some e \<Rightarrow> e)"

definition mark_terminal ::
  "string \<Rightarrow> run_status \<Rightarrow> run_outcome \<Rightarrow> (string \<times> int) list \<Rightarrow> store \<Rightarrow> (store_error + store) \<times> (string \<times> int) list" where
  "mark_terminal runId status outcome ep s =
     (case get_run runId s of
        None \<Rightarrow> (Inl BadRequest, ep)
      | Some run \<Rightarrow>
          if int (rr_epoch run) \<noteq> expected_epoch ep run then (Inl StaleWrite, ep)
          else if rr_status run = RPaused then (Inl Conflict, ep)
          else case write_terminal_run run (expected_epoch ep run) status (Some outcome) (clock s) None None s of
              Inl e \<Rightarrow> (Inl e, ep)
            | Inr (next, s') \<Rightarrow>
                (Inr s', if terminal_run (rr_status next) then AList.delete runId ep else AList.update runId (int (rr_epoch next)) ep))"

text \<open>
  The loop over the queued runs of an item. A run of an earlier epoch is refused before its write begins and is left
  to the reconciler; a write that fails inside the transaction dooms the transaction, whatever its error is.
\<close>

fun cancel_queued_runs ::
  "run_outcome \<Rightarrow> string list \<Rightarrow> (string \<times> int) list \<Rightarrow> store \<Rightarrow> (store_error + store) \<times> (string \<times> int) list" where
  "cancel_queued_runs outcome [] ep s = (Inr s, ep)"
| "cancel_queued_runs outcome (r # rs) ep s =
     (case get_run r s of
        None \<Rightarrow> cancel_queued_runs outcome rs ep s
      | Some run \<Rightarrow>
          if rr_status run \<noteq> RQueued then cancel_queued_runs outcome rs ep s
          else if int (rr_epoch run) \<noteq> expected_epoch ep run then cancel_queued_runs outcome rs ep s
          else case mark_terminal r RCancelled outcome ep s of
              (Inl e, ep') \<Rightarrow> (Inl e, ep')
            | (Inr s', ep') \<Rightarrow> cancel_queued_runs outcome rs ep' s')"

definition release_own_rows :: "string \<Rightarrow> string list \<Rightarrow> string list run_txn" where
  "release_own_rows owner ids s =
     (let own = filter (\<lambda>r. ib_status r = IDelivered \<and> ib_deliveredBy r = Some owner) (get_many ids s) in
      if own = [] then Inr ([], s) else release (map ib_inboxId own) (Some owner) s)"

definition apply_effects ::
  "command_intent \<Rightarrow> (string \<times> int) list \<Rightarrow> store \<Rightarrow> (store_error + store) \<times> (string \<times> int) list" where
  "apply_effects intent ep s =
     (let outcome = empty_outcome\<lparr>oc_interruptedBy := Some (if ci_actor intent \<noteq> None then ByAgent else ByUser)\<rparr> in
      case cancel_queued_runs outcome (ci_cancelRunIds intent) ep s of
        (Inl e, ep') \<Rightarrow> (Inl e, ep')
      | (Inr s1, ep') \<Rightarrow>
          if ci_releaseInboxIds intent = [] then (Inr s1, ep')
          else (map_sum id snd (release_own_rows (queue_owner (ci_itemId intent)) (ci_releaseInboxIds intent) s1), ep'))"

definition audit :: "command_intent \<Rightarrow> string \<times> command_result \<Rightarrow> journal \<Rightarrow> journal" where
  "audit intent entry j =
     (case ci_actor intent of
        None \<Rightarrow> j
      | Some actor \<Rightarrow> j\<lparr>jo_db := append_event (ci_threadId intent) None ''agent.action''
          (EvJson (JObj (snd entry @ [(''action'', JStr (fst entry)), (''actorThreadId'', JStr (ac_threadId actor)),
             (''actorRunId'', JStr (ac_runId actor)), (''toolCallId'', JStr (ac_toolCallId actor))]))) (jo_db j)\<rparr>)"

definition schedule_repair :: "string \<Rightarrow> journal \<Rightarrow> journal" where
  "schedule_repair t j = j\<lparr>jo_repairs := jo_repairs j @ [t]\<rparr>"

section \<open>Finishing and recovering\<close>

definition either_ok :: "'e + 'a \<Rightarrow> 'a option" where
  "either_ok r = (case r of Inl e \<Rightarrow> None | Inr x \<Rightarrow> Some x)"

definition leave_pending :: "command_row \<Rightarrow> command_result \<Rightarrow> journal \<Rightarrow> journal" where
  "leave_pending row result j =
     schedule_repair (ci_threadId (cr_intent row)) (record_failure (cr_commandKey row) (mark_effects_pending row result j))"

definition finish_command :: "(string \<Rightarrow> bool) \<Rightarrow> command_row \<Rightarrow> command_result \<Rightarrow> journal \<Rightarrow> bool \<times> journal" where
  "finish_command abandon row result j =
     (let intent = cr_intent row;
          called = (case non_blank (ci_abandonWorkflowInvocationId intent) of
            None \<Rightarrow> Some j
          | Some w \<Rightarrow> if abandon w then Some (j\<lparr>jo_abandoned := jo_abandoned j @ [(w, ci_threadId intent)]\<rparr>) else None) in
      case called of
        None \<Rightarrow> (False, leave_pending row result j)
      | Some j1 \<Rightarrow>
          (case apply_effects intent (jo_epochs j1) (jo_db j1) of
             (Inl e, ep) \<Rightarrow> (False, leave_pending row result (j1\<lparr>jo_epochs := ep\<rparr>))
           | (Inr db, ep) \<Rightarrow> (True, mark_applied row result (j1\<lparr>jo_db := db, jo_epochs := ep\<rparr>))))"

definition active_run_id :: "string \<Rightarrow> store \<Rightarrow> queue_error + string option" where
  "active_run_id t s = map_sum (\<lambda>_. QFault ''conflict'') (map_option rr_runId) (get_active_run t s)"

definition save_message_queue ::
  "(string \<Rightarrow> string) \<Rightarrow> string \<Rightarrow> string \<Rightarrow> queued_message list \<Rightarrow> journal \<Rightarrow> queue_error + journal" where
  "save_message_queue coll now t items j =
     map_sum id (\<lambda>saved. j\<lparr>jo_queue := (jo_queue j)(t := saved)\<rparr>) (renormalize coll now t items)"

definition load_message_queue :: "(string \<Rightarrow> string) \<Rightarrow> string \<Rightarrow> string \<Rightarrow> journal \<Rightarrow> queue_error + queued_message list" where
  "load_message_queue coll now t j = renormalize coll now t (jo_queue j t)"

definition give_up_or_retry :: "string \<Rightarrow> command_row \<Rightarrow> journal \<Rightarrow> journal" where
  "give_up_or_retry t row j =
     (let j1 = record_failure (cr_commandKey row) j
      in if command_failed (cr_commandKey row) j1 then j1 else schedule_repair t j1)"

text \<open>One unfinished entry: its change to the items, when it is \<open>pending\<close>, then its effects and marker.\<close>

definition recover_entry ::
  "(string \<Rightarrow> string) \<Rightarrow> (string \<Rightarrow> string) \<Rightarrow> string \<Rightarrow> (string \<Rightarrow> bool) \<Rightarrow> string \<Rightarrow> command_row \<Rightarrow>
   queued_message list \<times> journal \<Rightarrow> queued_message list \<times> journal" where
  "recover_entry coll digest now abandon t row st =
     (let (current, j) = st in
      if cr_status row = CmdPending then
        (case Option.bind (either_ok (active_run_id t (jo_db j))) (\<lambda>active.
               either_ok (apply_intent coll digest current (cr_intent row) active)) of
           None \<Rightarrow> (current, give_up_or_retry t row j)
         | Some applied \<Rightarrow>
             (case renormalize coll now t (ai_items applied) of
                Inl e \<Rightarrow> (current, give_up_or_retry t row j)
              | Inr items \<Rightarrow>
                  (case save_message_queue coll now t items j of
                     Inl e \<Rightarrow> (items, give_up_or_retry t row j)
                   | Inr j1 \<Rightarrow>
                       let finishing = (if ai_skipped applied
                             then row\<lparr>cr_intent := (cr_intent row)\<lparr>ci_cancelRunIds := []\<rparr>\<rparr> else row)
                       in (items, snd (finish_command abandon finishing (ai_result applied) j1)))))
      else (current, snd (finish_command abandon row (case cr_result row of None \<Rightarrow> [] | Some r \<Rightarrow> r) j)))"

definition recover_queue_journal ::
  "(string \<Rightarrow> string) \<Rightarrow> (string \<Rightarrow> string) \<Rightarrow> string \<Rightarrow> (string \<Rightarrow> bool) \<Rightarrow> string \<Rightarrow>
   queued_message list \<Rightarrow> journal \<Rightarrow> queued_message list \<times> journal" where
  "recover_queue_journal coll digest now abandon t items j =
     fold (recover_entry coll digest now abandon t) (list_unfinished t j) (items, j)"

section \<open>Commands and changes\<close>

record planned_command =
  pc_intent :: command_intent
  pc_audit :: "(string \<times> command_result) option"
  pc_report :: command_result

record command_outcome =
  co_result :: command_result
  co_effectsSettled :: bool
  co_replayed :: bool
  co_items :: "queued_message list"

definition merge_members :: "command_result \<Rightarrow> command_result \<Rightarrow> command_result" where
  "merge_members base extra = fold (\<lambda>(k, v) acc. AList.update k v acc) extra base"

text \<open>A key that was used before: its stored result, or why it cannot be given.\<close>

definition replay_command ::
  "string \<Rightarrow> string option \<Rightarrow> command_row \<Rightarrow> queued_message list \<Rightarrow> queue_error + command_outcome" where
  "replay_command t fingerprint existing items =
     (if cr_threadId existing \<noteq> t then Inl (QConflict RequestConflict)
      else if fingerprint \<noteq> None \<and> ci_fingerprint (cr_intent existing) \<noteq> None \<and> ci_fingerprint (cr_intent existing) \<noteq> fingerprint
      then Inl (QConflict RequestConflict)
      else if cr_status existing = CmdPending then Inl (QFault ''An earlier attempt of this command is still being finished; try again.'')
      else if cr_status existing = CmdFailed \<and> cr_result existing = None then Inl (QConflict CommandFailed)
      else Inr \<lparr>co_result = (case cr_result existing of None \<Rightarrow> [] | Some r \<Rightarrow> r),
             co_effectsSettled = (cr_status existing = CmdApplied), co_replayed = True, co_items = items\<rparr>)"

text \<open>The three writes of a new command: the entry with its audit event, the queue file, the effects with the marker.\<close>

definition journal_command :: "string \<Rightarrow> string option \<Rightarrow> planned_command \<Rightarrow> journal \<Rightarrow> journal" where
  "journal_command key fingerprint planned j =
     (let intent = pc_intent planned;
          j1 = insert_pending key (if fingerprint \<noteq> None then intent\<lparr>ci_fingerprint := fingerprint\<rparr> else intent) j
      in case pc_audit planned of None \<Rightarrow> j1 | Some entry \<Rightarrow> audit intent entry j1)"

definition write_command ::
  "(string \<Rightarrow> string) \<Rightarrow> (string \<Rightarrow> string) \<Rightarrow> string \<Rightarrow> string \<Rightarrow> string option \<Rightarrow> planned_command \<Rightarrow> queued_message list \<Rightarrow> journal \<Rightarrow>
   queue_error + applied_intent \<times> queued_message list \<times> journal" where
  "write_command coll digest now t active planned items j =
     (case apply_intent coll digest items (pc_intent planned) active of
        Inl e \<Rightarrow> Inl e
      | Inr applied \<Rightarrow>
          (case renormalize coll now t (ai_items applied) of
             Inl e \<Rightarrow> Inl e
           | Inr next \<Rightarrow> map_sum id (\<lambda>j'. (applied, next, j')) (save_message_queue coll now t next j)))"

definition command_report :: "planned_command \<Rightarrow> applied_intent \<Rightarrow> command_result" where
  "command_report planned applied =
     merge_members (merge_members (ai_result applied) (pc_report planned))
       (if pc_audit planned \<noteq> None then [(''recorded'', JBool True)] else [])"

definition run_queue_command ::
  "(string \<Rightarrow> string) \<Rightarrow> (string \<Rightarrow> string) \<Rightarrow> string \<Rightarrow> (string \<Rightarrow> bool) \<Rightarrow> string \<Rightarrow> string \<Rightarrow> queued_message list \<Rightarrow>
   (queued_message list \<Rightarrow> string option \<Rightarrow> store \<Rightarrow> queue_error + planned_command) \<Rightarrow> string option \<Rightarrow> journal \<Rightarrow>
   (queue_error + command_outcome) \<times> journal" where
  "run_queue_command coll digest now abandon t key loaded plan fingerprint j =
     (let (items, j1) = recover_queue_journal coll digest now abandon t loaded j in
      case get_command key j1 of
        Some existing \<Rightarrow> (replay_command t fingerprint existing items, j1)
      | None \<Rightarrow>
          (case active_run_id t (jo_db j1) of
             Inl e \<Rightarrow> (Inl e, j1)
           | Inr active \<Rightarrow>
               (case plan items active (jo_db j1) of
                  Inl e \<Rightarrow> (Inl e, j1)
                | Inr planned \<Rightarrow>
                    let j2 = journal_command key fingerprint planned j1 in
                    (case write_command coll digest now t active planned items j2 of
                       Inl e \<Rightarrow> (Inl e, j2)
                     | Inr (applied, next, j3) \<Rightarrow>
                         (case get_command key j3 of
                            None \<Rightarrow> (Inl (QFault ''internal''), j3)
                          | Some row \<Rightarrow>
                              let result = command_report planned applied;
                                  (settled, j4) = finish_command abandon row result j3
                              in (Inr \<lparr>co_result = result, co_effectsSettled = settled, co_replayed = False, co_items = next\<rparr>, j4))))))"

definition run_durable_queue_command ::
  "(string \<Rightarrow> string) \<Rightarrow> (string \<Rightarrow> string) \<Rightarrow> string \<Rightarrow> (string \<Rightarrow> bool) \<Rightarrow> string \<Rightarrow> string \<Rightarrow>
   (queued_message list \<Rightarrow> string option \<Rightarrow> store \<Rightarrow> queue_error + planned_command) \<Rightarrow> string option \<Rightarrow> journal \<Rightarrow>
   (queue_error + command_outcome) \<times> journal" where
  "run_durable_queue_command coll digest now abandon t key plan fingerprint j =
     (case load_message_queue coll now t j of
        Inl e \<Rightarrow> (Inl e, j)
      | Inr loaded \<Rightarrow> run_queue_command coll digest now abandon t key loaded plan fingerprint j)"

text \<open>One change to a queue under its lock; unfinished commands are finished first.\<close>

definition mutate_durable_queue ::
  "(string \<Rightarrow> string) \<Rightarrow> (string \<Rightarrow> string) \<Rightarrow> string \<Rightarrow> (string \<Rightarrow> bool) \<Rightarrow> string \<Rightarrow>
   (queued_message list \<Rightarrow> queue_error + queued_message list) \<Rightarrow> journal \<Rightarrow> (queue_error + queued_message list) \<times> journal" where
  "mutate_durable_queue coll digest now abandon t mutator j =
     (case load_message_queue coll now t j of
        Inl e \<Rightarrow> (Inl e, j)
      | Inr loaded \<Rightarrow>
          let (current, j1) = recover_queue_journal coll digest now abandon t loaded j in
          (case mutator current of
             Inl e \<Rightarrow> (Inl e, j1)
           | Inr changed \<Rightarrow>
               (case renormalize coll now t changed of
                  Inl e \<Rightarrow> (Inl e, j1)
                | Inr next \<Rightarrow>
                    (case save_message_queue coll now t next j1 of
                       Inl e \<Rightarrow> (Inl e, j1)
                     | Inr j2 \<Rightarrow> (Inr next, j2)))))"

definition repair_queue_journal ::
  "(string \<Rightarrow> string) \<Rightarrow> (string \<Rightarrow> string) \<Rightarrow> string \<Rightarrow> (string \<Rightarrow> bool) \<Rightarrow> string \<Rightarrow> journal \<Rightarrow> (queue_error + queued_message list) \<times> journal" where
  "repair_queue_journal coll digest now abandon t j = mutate_durable_queue coll digest now abandon t Inr j"

end
