(* ===== verification/QueueRules.thy ===== *)
theory QueueRules
  imports AgentMessage QueueJournal
begin

text \<open>
  What an agent may do to the queue of a thread (\<open>queueCommandAsAgent\<close>, \<open>checkPromotion\<close> and their helpers in
  \<open>src/mms/orchestrator/OrchestratorService.ts\<close>), a person's edit, order and promotion of it, and the recovery at
  boot. \<open>rule_host\<close> is what the daemon knows besides the run database: which threads exist, are a bot's or wait for
  a merge-back, their titles and last chat mode, pending questions, and the live turn of a thread (its run, and
  whether it was aborted).
\<close>

section \<open>Who may do what\<close>

definition AGENT_MESSAGE_MAX_HOPS :: int where
  "AGENT_MESSAGE_MAX_HOPS = 3"

definition AGENT_QUEUE_MAX_PER_THREAD :: nat where
  "AGENT_QUEUE_MAX_PER_THREAD = 3"

definition REMOVED_TEXT_MAX_CHARS :: nat where
  "REMOVED_TEXT_MAX_CHARS = 8000"

record rule_host =
  rh_threadExists :: "string \<Rightarrow> bool"
  rh_botThread :: "string \<Rightarrow> bool"
  rh_mergeBack :: "string \<Rightarrow> bool"
  rh_titleOf :: "string \<Rightarrow> string option"
  rh_chatMode :: "string \<Rightarrow> chat_mode option"
  rh_questions :: "string \<Rightarrow> bool"
  rh_turn :: "string \<Rightarrow> (string option \<times> bool) option"

datatype agent_turn = TurnAgent | TurnPlan

fun turn_mode :: "agent_turn \<Rightarrow> chat_mode" where
  "turn_mode TurnAgent = NamedMode ''agent''"
| "turn_mode TurnPlan = NamedMode ''plan''"

datatype agent_command =
    AgEnqueue string agent_turn "string option"
  | AgEdit string "string option" "agent_turn option" string
  | AgRemove string string
  | AgReorder "string list" string
  | AgPromote string string string

fun expected_revision :: "agent_command \<Rightarrow> string option" where
  "expected_revision (AgEnqueue _ _ rev0) = rev0"
| "expected_revision (AgEdit _ _ _ rev0) = Some rev0"
| "expected_revision (AgRemove _ rev0) = Some rev0"
| "expected_revision (AgReorder _ rev0) = Some rev0"
| "expected_revision (AgPromote _ rev0 _) = Some rev0"

text \<open>\<open>bindingForRun\<close> and \<open>runPermissionMode\<close>: a binding without a mode, and no binding, read as \<open>ask\<close>.\<close>

definition binding_for_run :: "string \<Rightarrow> store \<Rightarrow> json option" where
  "binding_for_run runId s =
     List.find (\<lambda>b. jtruthy (Some b)) (List.map_filter at_executionBinding (rev (list_attempts runId s)))"

definition binding_mode :: "json \<Rightarrow> permission_mode" where
  "binding_mode b = (case is_permission_mode (Option.bind (jget b ''policy'') (\<lambda>p. jget p ''permissionMode'')) of
     None \<Rightarrow> ModeAsk | Some m \<Rightarrow> m)"

definition run_permission_mode :: "string \<Rightarrow> store \<Rightarrow> permission_mode" where
  "run_permission_mode runId s = (case binding_for_run runId s of None \<Rightarrow> ModeAsk | Some b \<Rightarrow> binding_mode b)"

definition strictest_mode :: "permission_mode option \<Rightarrow> permission_mode option \<Rightarrow> permission_mode option" where
  "strictest_mode a b =
     (case (a, b) of (None, _) \<Rightarrow> b | (Some x, None) \<Rightarrow> a | (Some x, Some y) \<Rightarrow> if is_stricter x y then a else b)"

definition with_agent_hops :: "agent_actor \<Rightarrow> store \<Rightarrow> queue_error + agent_actor" where
  "with_agent_hops actor s =
     (let hops = (case Option.bind (Option.bind (get_run (ac_runId actor) s) rr_outcome) oc_agentHops of
                    None \<Rightarrow> 0 | Some n \<Rightarrow> int n) + 1
      in if AGENT_MESSAGE_MAX_HOPS < hops then Inl (QDomain ''agent_hops_exceeded'') else Inr (actor\<lparr>ac_hops := Some hops\<rparr>))"

definition agent_origin_of :: "agent_actor \<Rightarrow> agent_origin" where
  "agent_origin_of a = \<lparr>ag_threadId = ac_threadId a, ag_runId = ac_runId a, ag_hops = ac_hops a\<rparr>"

definition from_agent :: "queued_message \<Rightarrow> bool" where
  "from_agent q \<longleftrightarrow> (case q_origin q of Some (FromAgent _) \<Rightarrow> True | _ \<Rightarrow> False)"

definition authored_by :: "agent_actor \<Rightarrow> queued_message \<Rightarrow> bool" where
  "authored_by actor q \<longleftrightarrow> (case q_origin q of Some (FromAgent a) \<Rightarrow> ag_threadId a = ac_threadId actor | _ \<Rightarrow> False)"

definition agent_items :: "(string \<Rightarrow> string) \<Rightarrow> queued_message list \<Rightarrow> nat" where
  "agent_items coll items = length (filter from_agent (list_pending_queue coll items))"

definition found_item :: "queued_message list \<Rightarrow> string \<Rightarrow> queue_error + queued_message" where
  "found_item items itemId =
     (case find_item itemId items of
        None \<Rightarrow> Inl (QConflict QueueItemNotFound)
      | Some q \<Rightarrow> if q_state q = QClaimed \<or> q_internal q then Inl (QConflict ItemStarted) else Inr q)"

definition not_steering :: "queued_message \<Rightarrow> queue_error + unit" where
  "not_steering q = (if q_state q = QSteering then Inl (QConflict ItemSteering) else Inr ())"

text \<open>\<open>ids.slice(0, ids.indexOf(id))\<close>; an absent id has the index -1, which leaves out the last element.\<close>

definition ahead_of :: "string \<Rightarrow> string list \<Rightarrow> string list" where
  "ahead_of i ids = (if i \<in> set ids then takeWhile (\<lambda>x. x \<noteq> i) ids else butlast ids)"

definition puts_ahead_of_others ::
  "(string \<Rightarrow> string) \<Rightarrow> queued_message list \<Rightarrow> string list \<Rightarrow> (queued_message \<Rightarrow> bool) \<Rightarrow> bool" where
  "puts_ahead_of_others coll items orderedIds authored =
     (let pending = visible_pending coll items; before = map q_id pending in
      list_ex (\<lambda>other. \<not> authored other \<and>
        list_ex (\<lambda>i. i \<notin> set (ahead_of (q_id other) before)) (ahead_of (q_id other) orderedIds)) pending)"

definition in_plan :: "rule_host \<Rightarrow> string \<Rightarrow> bool" where
  "in_plan host t \<longleftrightarrow> rh_chatMode host t = Some (NamedMode ''plan'')"

section \<open>Promotions\<close>

text \<open>
  \<open>checkPromotion\<close>: the run the text will join is the thread's active run, which must be the one the caller
  named, and no looser than the item and the caller allow. Answers the run and the mode the item keeps.
\<close>

definition check_promotion ::
  "string \<Rightarrow> queued_message option \<Rightarrow> string option \<Rightarrow> permission_mode option \<Rightarrow> store \<Rightarrow>
   queue_error + string option \<times> permission_mode option" where
  "check_promotion t item expectedRunId ceiling s =
     (case item of
        None \<Rightarrow> Inl (QConflict QueueItemNotFound)
      | Some q \<Rightarrow>
          (case active_run_id t s of
             Inl e \<Rightarrow> Inl e
           | Inr active \<Rightarrow>
               if expectedRunId \<noteq> None \<and> active \<noteq> expectedRunId
               then Inl (QConflict (case get_run (the expectedRunId) s of
                       None \<Rightarrow> RunNotActive
                     | Some named \<Rightarrow> if rr_threadId named = t \<and> rr_status named = RPaused then RunPaused else RunNotActive))
               else (case strictest_mode (q_permissionMode q) ceiling of
                   None \<Rightarrow> Inr (active, None)
                 | Some limit \<Rightarrow>
                     (case active of
                        None \<Rightarrow> Inl (QConflict RunNotActive)
                      | Some r \<Rightarrow>
                          (case binding_for_run r s of
                             None \<Rightarrow> Inl (QConflict RunNotReady)
                           | Some b \<Rightarrow>
                               if is_stricter limit (binding_mode b) then Inl (QConflict CeilingExceeded)
                               else Inr (Some r, Some limit))))))"

section \<open>The plan of a command\<close>

definition base_intent :: "string \<Rightarrow> agent_actor \<Rightarrow> queue_op \<Rightarrow> string \<Rightarrow> string option \<Rightarrow> command_intent" where
  "base_intent t actor op itemId rev0 = \<lparr>ci_op = op, ci_threadId = t, ci_itemId = itemId, ci_item = None, ci_patch = None,
     ci_orderedIds = None, ci_expectedRevision = rev0, ci_expectedRunId = None, ci_steerRunId = None,
     ci_permissionMode = None, ci_actor = Some actor, ci_cancelRunIds = [], ci_releaseInboxIds = [],
     ci_abandonWorkflowInvocationId = None, ci_fingerprint = None\<rparr>"

definition planned_as :: "command_intent \<Rightarrow> bool \<Rightarrow> string \<Rightarrow> command_result \<Rightarrow> planned_command" where
  "planned_as intent recorded action details =
     \<lparr>pc_intent = intent, pc_audit = (if recorded then Some (action, details) else None), pc_report = []\<rparr>"

definition owned_run :: "queued_message \<Rightarrow> string list" where
  "owned_run q = (case non_blank (q_runId q) of None \<Rightarrow> [] | Some r \<Rightarrow> [r])"

definition was_origin :: "queued_message \<Rightarrow> json" where
  "was_origin q = JStr (case q_origin q of
       Some (FromAgent _) \<Rightarrow> ''agent''
     | Some (FromSchedule _ _ _ _) \<Rightarrow> ''schedule''
     | None \<Rightarrow> (case q_source q of None \<Rightarrow> ''person'' | Some x \<Rightarrow> x))"

definition agent_input :: "string \<Rightarrow> string \<Rightarrow> chat_mode \<Rightarrow> permission_mode \<Rightarrow> agent_origin \<Rightarrow> enqueue_input" where
  "agent_input t content mode permissionMode origin =
     \<lparr>in_id = None, in_atFront = False, in_continuationOfRunId = None, in_threadId = t, in_content = content,
      in_workflowInvocationId = None, in_mode = Some mode, in_images = None, in_intent = None, in_source = Some ''mcp'',
      in_internal = False, in_runId = None, in_inboxIds = None, in_subagentNotice = None, in_stopGeneration = None,
      in_permissionMode = Some permissionMode, in_origin = Some (FromAgent origin), in_sentFrom = None\<rparr>"

text \<open>The words of an agent as another thread, or another writer's item, gets them.\<close>

definition labelled :: "rule_host \<Rightarrow> bool \<Rightarrow> agent_actor \<Rightarrow> string \<Rightarrow> string" where
  "labelled host label sender content =
     (if label then agent_message_text (ac_threadId sender) (rh_titleOf host (ac_threadId sender)) content else content)"

fun level_text :: "access_level \<Rightarrow> string" where
  "level_text Lineage = ''lineage''"
| "level_text Read = ''read''"
| "level_text Manage = ''manage''"

definition needs_manage :: "string \<Rightarrow> string \<Rightarrow> access_level \<Rightarrow> queue_error" where
  "needs_manage verb writer level = QAccess (verb @ writer @ '' queued needs the '' @ [CHR 0x22] @ ''manage'' @ [CHR 0x22] @
     '' agent access level (yours is '' @ [CHR 0x22] @ level_text level @ [CHR 0x22] @ '').'')"

definition other_writer :: "queued_message \<Rightarrow> string" where
  "other_writer q = (if q_origin q \<noteq> None then ''another agent'' else ''a person'')"

definition agent_full :: "(string \<Rightarrow> string) \<Rightarrow> queued_message list \<Rightarrow> queue_error + unit" where
  "agent_full coll items =
     (if AGENT_QUEUE_MAX_PER_THREAD \<le> agent_items coll items then Inl (QDomain ''agent_queue_full'') else Inr ())"

definition plan_enqueue ::
  "rule_host \<Rightarrow> (string \<Rightarrow> string) \<Rightarrow> string \<Rightarrow> string \<Rightarrow> string \<Rightarrow> agent_actor \<Rightarrow> string \<Rightarrow> agent_turn \<Rightarrow> string option \<Rightarrow>
   queued_message list \<Rightarrow> store \<Rightarrow> queue_error + planned_command" where
  "plan_enqueue host coll now uuid t actor content mode rev0 items s =
     (let cross = (t \<noteq> ac_threadId actor) in
      case agent_full coll items of
        Inl e \<Rightarrow> Inl e
      | Inr _ \<Rightarrow>
          (case with_agent_hops actor s of
             Inl e \<Rightarrow> Inl e
           | Inr sender \<Rightarrow>
               let turn = (if cross \<and> in_plan host t then TurnPlan else mode) in
               (case enqueue_message coll now uuid items (agent_input t (labelled host cross sender content)
                       (norm_mode (turn_mode turn)) (run_permission_mode (ac_runId actor) s) (agent_origin_of sender)) of
                  Inl e \<Rightarrow> Inl e
                | Inr (_, item) \<Rightarrow>
                    Inr (planned_as ((base_intent t actor OpEnqueue (q_id item) rev0)\<lparr>ci_item := Some item\<rparr>) cross ''queued_message''
                      [(''itemId'', JStr (q_id item)), (''length'', JNum (int (length content)))]))))"

text \<open>Who may edit: the writer of the message, or an agent with manage access; a plan turn stays one.\<close>

definition edit_rights ::
  "rule_host \<Rightarrow> string \<Rightarrow> agent_actor \<Rightarrow> access_level \<Rightarrow> agent_turn option \<Rightarrow> queued_message \<Rightarrow> queue_error + unit" where
  "edit_rights host t actor level mode q =
     (case edit_refusal q of
        Some refusal \<Rightarrow> Inl (QValidation refusal)
      | None \<Rightarrow>
          if (case q_origin q of Some (FromSchedule _ _ _ _) \<Rightarrow> True | _ \<Rightarrow> False)
          then Inl (QValidation ''A scheduled prompt keeps the text of its job; it cannot be edited by an agent.'')
          else if \<not> authored_by actor q \<and> level \<noteq> Manage then Inl (needs_manage ''Editing a message '' (other_writer q) level)
          else if mode = Some TurnAgent \<and> q_mode q = Some (NamedMode ''plan'') \<and> \<not> authored_by actor q 
          then Inl (QAccess ''A message queued as a plan turn cannot be turned into an agent turn by another writer.'')
          else if mode = Some TurnAgent \<and> t \<noteq> ac_threadId actor \<and> in_plan host t 
          then Inl (QAccess ''A thread kept in Plan takes messages from other agents as plan turns only.'')
          else Inr ())"

definition mode_patch :: "agent_turn option \<Rightarrow> message_patch" where
  "mode_patch mode = \<lparr>mp_content = None, mp_mode = map_option turn_mode mode, mp_origin = KeepOrigin, mp_permissionMode = None,
     mp_sentFrom = None, mp_dropRun = False\<rparr>"

definition content_patch ::
  "rule_host \<Rightarrow> (string \<Rightarrow> string) \<Rightarrow> string \<Rightarrow> agent_actor \<Rightarrow> agent_turn option \<Rightarrow> queued_message \<Rightarrow> string \<Rightarrow>
   queued_message list \<Rightarrow> store \<Rightarrow> queue_error + message_patch" where
  "content_patch host coll t actor mode q content items s =
     (let cross = (t \<noteq> ac_threadId actor) in
      case (if \<not> from_agent q then agent_full coll items else Inr ()) of
        Inl e \<Rightarrow> Inl e
      | Inr _ \<Rightarrow>
          map_sum id (\<lambda>sender. \<lparr>mp_content = Some (labelled host (cross \<or> \<not> authored_by actor q) sender content),
            mp_mode = (if cross \<and> in_plan host t then Some (turn_mode TurnPlan) else map_option turn_mode mode),
            mp_origin = SetOrigin (agent_origin_of sender),
            mp_permissionMode = strictest_mode (q_permissionMode q) (Some (run_permission_mode (ac_runId actor) s)),
            mp_sentFrom = None, mp_dropRun = True\<rparr>) (with_agent_hops actor s))"

definition plan_edit ::
  "rule_host \<Rightarrow> (string \<Rightarrow> string) \<Rightarrow> string \<Rightarrow> agent_actor \<Rightarrow> access_level \<Rightarrow> string \<Rightarrow> string option \<Rightarrow> agent_turn option \<Rightarrow>
   string \<Rightarrow> queued_message list \<Rightarrow> store \<Rightarrow> queue_error + planned_command" where
  "plan_edit host coll t actor level itemId content mode rev0 items s =
     (case found_item items itemId of
        Inl e \<Rightarrow> Inl e
      | Inr q \<Rightarrow>
          (case not_steering q of
             Inl e \<Rightarrow> Inl e
           | Inr _ \<Rightarrow>
               (case edit_rights host t actor level mode q of
                  Inl e \<Rightarrow> Inl e
                | Inr _ \<Rightarrow>
                    let recorded = (t \<noteq> ac_threadId actor \<or> \<not> authored_by actor q);
                        details = (\<lambda>len. [(''itemId'', JStr (q_id q))] @ len @
                          [(''changedMode'', JBool (mode \<noteq> None)), (''wasOrigin'', was_origin q)]);
                        base = base_intent t actor OpEdit (q_id q) (Some rev0) in
                    (case content of
                       None \<Rightarrow>
                         if mode = None then Inl (QValidation ''queue_edit needs content or mode.'')
                         else Inr (planned_as (base\<lparr>ci_patch := Some (mode_patch mode)\<rparr>) recorded ''edited_queued_message'' (details []))
                     | Some words \<Rightarrow>
                         map_sum id (\<lambda>patch. planned_as (base\<lparr>ci_patch := Some patch, ci_cancelRunIds := owned_run q\<rparr>) recorded
                           ''edited_queued_message'' (details [(''length'', JNum (int (length words)))]))
                           (content_patch host coll t actor mode q words items s)))))"

definition plan_remove ::
  "string \<Rightarrow> agent_actor \<Rightarrow> access_level \<Rightarrow> string \<Rightarrow> string \<Rightarrow> queued_message list \<Rightarrow> queue_error + planned_command" where
  "plan_remove t actor level itemId rev0 items =
     (case found_item items itemId of
        Inl e \<Rightarrow> Inl e
      | Inr q \<Rightarrow>
          (case not_steering q of
             Inl e \<Rightarrow> Inl e
           | Inr _ \<Rightarrow>
               if truthy (q_workflowInvocationId q) then Inl (QValidation ''A workflow command can only be removed from the app.'')
               else if \<not> authored_by actor q \<and> level \<noteq> Manage then Inl (needs_manage ''Removing a message '' (other_writer q) level)
               else Inr (planned_as ((base_intent t actor OpRemove (q_id q) (Some rev0))\<lparr>ci_cancelRunIds := owned_run q,
                        ci_releaseInboxIds := (case q_inboxIds q of None \<Rightarrow> [] | Some ids \<Rightarrow> ids)\<rparr>) True ''removed_queued_message''
                      ([(''itemId'', JStr (q_id q)), (''length'', JNum (int (length (q_content q)))),
                        (''removedText'', JStr (take REMOVED_TEXT_MAX_CHARS (q_content q)))] @
                       (if REMOVED_TEXT_MAX_CHARS < length (q_content q) then [(''removedTextCut'', JBool True)] else []) @
                       [(''wasOrigin'', was_origin q)]))))"

definition plan_reorder ::
  "(string \<Rightarrow> string) \<Rightarrow> string \<Rightarrow> agent_actor \<Rightarrow> access_level \<Rightarrow> string list \<Rightarrow> string \<Rightarrow> queued_message list \<Rightarrow>
   queue_error + planned_command" where
  "plan_reorder coll t actor level orderedIds rev0 items =
     (case reorder_queued_messages coll items orderedIds of
        Inl e \<Rightarrow> Inl e
      | Inr _ \<Rightarrow>
          if level \<noteq> Manage \<and> puts_ahead_of_others coll items orderedIds (authored_by actor) then Inl (needs_manage ''Putting a message ahead of one '' ''a person or another agent'' level)
          else Inr (planned_as ((base_intent t actor OpReorder (case orderedIds of [] \<Rightarrow> [] | i # _ \<Rightarrow> i) (Some rev0))
                      \<lparr>ci_orderedIds := Some orderedIds\<rparr>)
                 (t \<noteq> ac_threadId actor \<or> list_ex (\<lambda>q. \<not> authored_by actor q) (visible_pending coll items)) ''reordered_queue''
                 [(''count'', JNum (int (length orderedIds)))]))"

definition live_turn :: "rule_host \<Rightarrow> string \<Rightarrow> string option \<Rightarrow> bool" where
  "live_turn host t run \<longleftrightarrow> (case rh_turn host t of None \<Rightarrow> False | Some (r, aborted) \<Rightarrow> \<not> aborted \<and> r = run)"

definition plan_promote ::
  "rule_host \<Rightarrow> string \<Rightarrow> agent_actor \<Rightarrow> string \<Rightarrow> string \<Rightarrow> string \<Rightarrow> queued_message list \<Rightarrow> store \<Rightarrow>
   queue_error + planned_command" where
  "plan_promote host t actor itemId rev0 expectedRunId items s =
     (case found_item items itemId of
        Inl e \<Rightarrow> Inl e
      | Inr q \<Rightarrow>
          (case not_steering q of
             Inl e \<Rightarrow> Inl e
           | Inr _ \<Rightarrow>
               if truthy (q_workflowInvocationId q) then Inl (QValidation ''A workflow command cannot be promoted to steering input'')
               else if non_nil (q_inboxIds q) \<noteq> None then Inl (QValidation ''A queued subagent result is delivered as its own turn; it cannot be sent as a steer.'')
               else if rh_questions host t then Inl (QConflict QuestionsPending)
               else
                 (case check_promotion t (Some q) (Some expectedRunId) (Some (run_permission_mode (ac_runId actor) s)) s of
                    Inl e \<Rightarrow> Inl e
                  | Inr (run, limit) \<Rightarrow>
                      if \<not> live_turn host t run then Inl (QConflict RunNotReady)
                      else Inr (planned_as ((base_intent t actor OpPromote (q_id q) (Some rev0))\<lparr>ci_expectedRunId := Some expectedRunId,
                               ci_steerRunId := non_blank run, ci_permissionMode := limit, ci_cancelRunIds := owned_run q\<rparr>)
                             (t \<noteq> ac_threadId actor \<or> \<not> authored_by actor q) ''promoted_queued_message''
                             [(''itemId'', JStr (q_id q)), (''runId'', JStr expectedRunId)]))))"

text \<open>\<open>plan\<close> of \<open>queueCommandAsAgent\<close>.\<close>

definition plan_agent_command ::
  "rule_host \<Rightarrow> (string \<Rightarrow> string) \<Rightarrow> (string \<Rightarrow> string) \<Rightarrow> string \<Rightarrow> string \<Rightarrow> string \<Rightarrow> agent_actor \<Rightarrow> access_level \<Rightarrow> agent_command \<Rightarrow>
   queued_message list \<Rightarrow> string option \<Rightarrow> store \<Rightarrow> queue_error + planned_command" where
  "plan_agent_command host coll digest now uuid t actor level command items activeRunId s =
     (case assert_queue_revision coll digest items (expected_revision command) of
        Inl e \<Rightarrow> Inl e
      | Inr _ \<Rightarrow>
          (case command of
             AgEnqueue content mode rev0 \<Rightarrow> plan_enqueue host coll now uuid t actor content mode rev0 items s
           | AgEdit itemId content mode rev0 \<Rightarrow> plan_edit host coll t actor level itemId content mode rev0 items s
           | AgRemove itemId rev0 \<Rightarrow> plan_remove t actor level itemId rev0 items
           | AgReorder orderedIds rev0 \<Rightarrow> plan_reorder coll t actor level orderedIds rev0 items
           | AgPromote itemId rev0 run \<Rightarrow> plan_promote host t actor itemId rev0 run items s))"

text \<open>What the agent supplied, not the revision it read.\<close>

fun command_fields :: "agent_command \<Rightarrow> string \<times> json \<times> json \<times> json \<times> json \<times> json" where
  "command_fields (AgEnqueue content mode _) = (''enqueue'', JNull, JStr content, mode_json (turn_mode mode), JNull, JNull)"
| "command_fields (AgEdit itemId content mode _) =
     (''edit'', JStr itemId, opt_json content, or_null (map_option (\<lambda>m. mode_json (turn_mode m)) mode), JNull, JNull)"
| "command_fields (AgRemove itemId _) = (''remove'', JStr itemId, JNull, JNull, JNull, JNull)"
| "command_fields (AgReorder ids _) = (''reorder'', JNull, JNull, JNull, JArr (map JStr ids), JNull)"
| "command_fields (AgPromote itemId _ run) = (''promote'', JStr itemId, JNull, JNull, JNull, JStr run)"

definition command_fingerprint :: "(string \<Rightarrow> string) \<Rightarrow> string \<Rightarrow> agent_command \<Rightarrow> string" where
  "command_fingerprint digest t command =
     (let (op, itemId, content, mode, ids, run) = command_fields command
      in take 16 (digest (stringify (JArr [JStr op, JStr t, itemId, content, mode, ids, run]))))"

definition queue_command_as_agent ::
  "rule_host \<Rightarrow> (string \<Rightarrow> string) \<Rightarrow> (string \<Rightarrow> string) \<Rightarrow> string \<Rightarrow> string \<Rightarrow> (string \<Rightarrow> bool) \<Rightarrow> string \<Rightarrow> agent_actor \<Rightarrow>
   access_level \<Rightarrow> string \<Rightarrow> agent_command \<Rightarrow> journal \<Rightarrow> (queue_error + command_outcome) \<times> journal" where
  "queue_command_as_agent host coll digest now uuid abandon t actor level key command j =
     (if \<not> rh_threadExists host t then (Inl (QConflict QueueItemNotFound), j)
      else if rh_botThread host t then (Inl (QDomain ''bot_thread_read_only''), j)
      else if (case command of AgEnqueue _ _ _ \<Rightarrow> True | _ \<Rightarrow> False) \<and> rh_mergeBack host t
      then (Inl (QDomain ''merge_back_pending''), j)
      else run_durable_queue_command coll digest now abandon t key (plan_agent_command host coll digest now uuid t actor level command)
             (Some (command_fingerprint digest t command)) j)"

section \<open>A person's changes\<close>

definition person_reorder ::
  "(string \<Rightarrow> string) \<Rightarrow> (string \<Rightarrow> string) \<Rightarrow> string list \<Rightarrow> string option \<Rightarrow> queued_message list \<Rightarrow> queue_error + queued_message list" where
  "person_reorder coll digest orderedIds rev0 items =
     (case assert_queue_revision coll digest items rev0 of
        Inl e \<Rightarrow> Inl e | Inr _ \<Rightarrow> reorder_queued_messages coll items orderedIds)"

definition person_patch ::
  "queued_message option \<Rightarrow> string option \<Rightarrow> chat_mode option \<Rightarrow> permission_mode option \<Rightarrow> string option \<Rightarrow> message_patch" where
  "person_patch current content mode limit sentFrom =
     (let takesOver = (content \<noteq> None \<and> (case current of None \<Rightarrow> False | Some q \<Rightarrow> from_agent q)) in
      \<lparr>mp_content = content, mp_mode = mode, mp_origin = (if takesOver then DropOrigin else KeepOrigin),
       mp_permissionMode = (case limit of None \<Rightarrow> None | Some m \<Rightarrow> strictest_mode (Option.bind current q_permissionMode) (Some m)),
       mp_sentFrom = sentFrom, mp_dropRun = takesOver\<rparr>)"

definition person_edit ::
  "(string \<Rightarrow> string) \<Rightarrow> (string \<Rightarrow> string) \<Rightarrow> string \<Rightarrow> string option \<Rightarrow> chat_mode option \<Rightarrow> string option \<Rightarrow> permission_mode option \<Rightarrow>
   string option \<Rightarrow> queued_message list \<Rightarrow> queue_error + queued_message list" where
  "person_edit coll digest itemId content mode rev0 limit sentFrom items =
     (case assert_queue_revision coll digest items rev0 of
        Inl e \<Rightarrow> Inl e
      | Inr _ \<Rightarrow> map_sum id fst (edit_queued_message coll items itemId
                   (person_patch (find_item itemId items) content mode limit sentFrom)))"

definition person_promote ::
  "(string \<Rightarrow> string) \<Rightarrow> (string \<Rightarrow> string) \<Rightarrow> string \<Rightarrow> string \<Rightarrow> string option \<Rightarrow> string option \<Rightarrow> permission_mode option \<Rightarrow> store \<Rightarrow>
   queued_message list \<Rightarrow> queue_error + queued_message list" where
  "person_promote coll digest t itemId rev0 expectedRunId ceiling s items =
     (case assert_queue_revision coll digest items rev0 of
        Inl e \<Rightarrow> Inl e
      | Inr _ \<Rightarrow>
          if Option.bind (Option.bind (find_item itemId items) q_inboxIds) (\<lambda>ids. non_nil (Some ids)) \<noteq> None
          then Inl (QValidation ''A queued subagent result is delivered as its own turn; it cannot be sent as a steer.'')
          else
            (case check_promotion t (find_item itemId items) expectedRunId ceiling s of
               Inl e \<Rightarrow> Inl e
             | Inr (run, limit) \<Rightarrow>
                 map_sum id (\<lambda>(after, item). if \<not> truthy (q_runId item) then after
                    else map (\<lambda>q. if q_id q = q_id item then item\<lparr>q_runId := None\<rparr> else q) after)
                   (promote_queued_message_to_steer coll items itemId run limit)))"

section \<open>Boot\<close>

text \<open>Old finished entries and those of deleted threads go; every other thread's unfinished commands are finished.\<close>

definition recover_thread_on_boot ::
  "rule_host \<Rightarrow> (string \<Rightarrow> string) \<Rightarrow> (string \<Rightarrow> string) \<Rightarrow> string \<Rightarrow> (string \<Rightarrow> bool) \<Rightarrow> string \<Rightarrow> journal \<Rightarrow> journal" where
  "recover_thread_on_boot host coll digest now abandon t j =
     (if \<not> rh_threadExists host t then delete_commands_of t j else snd (repair_queue_journal coll digest now abandon t j))"

definition recover_queue_commands_on_boot ::
  "rule_host \<Rightarrow> (string \<Rightarrow> string) \<Rightarrow> (string \<Rightarrow> string) \<Rightarrow> string \<Rightarrow> (string \<Rightarrow> bool) \<Rightarrow> journal \<Rightarrow> journal" where
  "recover_queue_commands_on_boot host coll digest now abandon j =
     (let j1 = prune_commands (clock (jo_db j)) j
      in fold (recover_thread_on_boot host coll digest now abandon) (unfinished_thread_ids j1) j1)"

end
