(* ===== verification/ApprovalAnswers.thy ===== *)
theory ApprovalAnswers
  imports Approvals "HOL-Library.AList"
begin

text \<open>
  The operations of \<open>ThreadApprovals\<close> that settle a request, make and revoke the standing rules, deliver
  answers, recover at boot and consume a continuation grant.

  \<open>settleRow\<close> answers one request and, when the answer makes a standing rule, calls itself for the
  identical requests beside it; it also calls itself to report who won a race. Each call that recurses
  into siblings has settled a pending request first, so the number of pending requests bounds the depth:
  \<open>settle_approval\<close> runs with that much fuel and \<open>ApprovalTotal\<close> shows that it never runs out.
\<close>

datatype settle_fault = StoreFault store_error | NoFuel

type_synonym 'a answer_txn = "(settle_fault, store, 'a) txn"

definition store_step :: "'a run_txn \<Rightarrow> 'a answer_txn" where
  "store_step m s = (case m s of Inl e \<Rightarrow> Inl (StoreFault e) | Inr r \<Rightarrow> Inr r)"

record continuation_due =
  cd_threadId :: string
  cd_runId :: string
  cd_requestIds :: "string list"
  cd_uncertain :: bool

datatype settle_refusal = RUnknown | RAlreadyAnswered | RAlreadyCancelled | RRefused approval_refusal

record settled_answer =
  sa_decision :: approval_decision
  sa_scope :: "approval_scope option"
  sa_record :: approval_row
  sa_continuationDue :: "continuation_due option"
  sa_rule :: "approval_rule option"
  sa_siblings :: "string list"

datatype settle_outcome =
    AnswerSettled settled_answer
  | AnswerRefused settle_refusal (refused_answeredBy: "answered_by option")
      (refused_decision: "approval_decision option") (refused_cancelReason: "string option")

section \<open>The answer that is stored\<close>

definition with_answers :: "answers \<Rightarrow> answers \<Rightarrow> answers" where
  "with_answers ans extra = foldl (\<lambda>a (k, v). AList.update k v a) ans extra"

definition agent_answers :: "approval_question list \<Rightarrow> answers \<Rightarrow> answers" where
  "agent_answers qs ans =
     (let rest = AList.delete ''feedback'' ans in
      if custom_answer_of qs rest \<noteq> None then with_answers rest (answers_for qs DReject) else rest)"

definition answer_feedback ::
  "(string \<Rightarrow> string) \<Rightarrow> approval_question list \<Rightarrow> answers \<Rightarrow> answerer \<Rightarrow> approval_decision \<Rightarrow> string option" where
  "answer_feedback redact qs ans who decision =
     (case who of
        AgentAnswerer threadId run mode call acc \<Rightarrow>
          if decision = DReject then Some (agent_rejection_feedback threadId (agent_note_of redact qs ans)) else None
      | UserAnswerer via node mode \<Rightarrow>
          map_option (\<lambda>raw. take 2000 (redact raw)) (or_else (feedback_of ans) (custom_answer_of qs ans)))"

definition stored_answers ::
  "approval_question list \<Rightarrow> answers \<Rightarrow> answerer \<Rightarrow> string option \<Rightarrow> approval_option option \<Rightarrow> answers" where
  "stored_answers qs ans who feedback once =
     (let kept = (if is_user who then ans else agent_answers qs ans);
          said = (if truthy feedback then AList.update ''feedback'' (OneAnswer (the feedback)) kept else kept)
      in case (once, first_question qs) of
           (Some opt, Some q) \<Rightarrow> AList.update (aq_id q) (OneAnswer (ao_id opt)) said
         | _ \<Rightarrow> said)"

section \<open>Standing rules\<close>

definition RULE_SUMMARY_CHARS :: nat where
  "RULE_SUMMARY_CHARS = 500"

definition rule_summary :: "(string \<Rightarrow> string) \<Rightarrow> approval_question list \<Rightarrow> string" where
  "rule_summary redact qs =
     (let flat = trim (squeeze (redact (case first_question qs of None \<Rightarrow> [] | Some q \<Rightarrow> aq_prompt q))) in
      if RULE_SUMMARY_CHARS < length flat
      then take 300 flat @ '' ... '' @ drop (length flat - (RULE_SUMMARY_CHARS - 306)) flat
      else flat)"

definition find_rule :: "string \<Rightarrow> string \<Rightarrow> store \<Rightarrow> approval_rule option" where
  "find_rule threadId fingerprint s =
     List.find (\<lambda>r. ru_threadId r = threadId \<and> ru_fingerprint r = fingerprint) (approval_rules s)"

text \<open>\<open>INSERT \<dots> ON CONFLICT(thread_id, fingerprint) DO UPDATE\<close>\<close>

definition put_rule :: "approval_rule \<Rightarrow> store \<Rightarrow> store" where
  "put_rule rule s =
     (if find_rule (ru_threadId rule) (ru_fingerprint rule) s = None
      then s\<lparr>approval_rules := approval_rules s @ [rule]\<rparr>
      else s\<lparr>approval_rules := update_rows
             (\<lambda>r. ru_threadId r = ru_threadId rule \<and> ru_fingerprint r = ru_fingerprint rule)
             (\<lambda>r. r\<lparr>ru_grantedUnder := ru_grantedUnder rule, ru_summary := ru_summary rule,
                    ru_sourceRequestId := ru_sourceRequestId rule\<rparr>) (approval_rules s)\<rparr>)"

definition grant_rule :: "(string \<Rightarrow> string) \<Rightarrow> approval_row \<Rightarrow> store \<Rightarrow> approval_rule option \<times> store" where
  "grant_rule redact rec s =
     (case (ap_fingerprint rec, ap_permissionMode rec) of
        (Some fingerprint, Some mode) \<Rightarrow>
          if fingerprint = [] then (None, s)
          else
            let existing = find_rule (ap_threadId rec) fingerprint s;
                under = (case existing of None \<Rightarrow> mode
                  | Some r \<Rightarrow> narrow_permission_mode [Some (ru_grantedUnder r), Some mode]);
                row = \<lparr>ru_threadId = ap_threadId rec, ru_fingerprint = fingerprint,
                  ru_permissionKey = ap_permissionKey rec, ru_action = ap_action rec,
                  ru_summary = rule_summary redact (ap_questions rec), ru_grantedUnder = under,
                  ru_sourceRequestId = Some (ap_requestId rec), ru_createdAt = clock s\<rparr>;
                rule = row\<lparr>ru_createdAt := (case existing of None \<Rightarrow> clock s | Some r \<Rightarrow> ru_createdAt r)\<rparr>
            in (Some rule, approval_event ''approval.rule_granted'' rec
                  [(''fingerprint'', JStr fingerprint), (''permissionKey'', JStr (ap_permissionKey rec)),
                   (''grantedUnder'', JStr (mode_text under))] (put_rule row s))
      | _ \<Rightarrow> (None, s))"

definition match_rule :: "string \<Rightarrow> string \<Rightarrow> string option \<Rightarrow> permission_mode \<Rightarrow> store \<Rightarrow> approval_rule option" where
  "match_rule threadId permissionKey fingerprint currentMode s =
     (case fingerprint of
        None \<Rightarrow> None
      | Some fp \<Rightarrow>
          if fp = [] then None
          else case List.find (\<lambda>r. ru_threadId r = threadId \<and> ru_fingerprint r = fp \<and> ru_permissionKey r = permissionKey)
                 (approval_rules s) of
                 None \<Rightarrow> None
               | Some rule \<Rightarrow> if is_stricter currentMode (ru_grantedUnder rule) then None else Some rule)"

definition note_rule_applied :: "string \<Rightarrow> string option \<Rightarrow> approval_rule \<Rightarrow> store \<Rightarrow> store" where
  "note_rule_applied threadId runId rule =
     append_event threadId runId ''approval.rule_applied''
       (EvJson (JObj [(''fingerprint'', JStr (ru_fingerprint rule)), (''permissionKey'', JStr (ru_permissionKey rule)),
          (''grantedUnder'', JStr (mode_text (ru_grantedUnder rule)))]))"

definition list_rules :: "string \<Rightarrow> store \<Rightarrow> approval_rule list" where
  "list_rules threadId s = by_created ru_createdAt (filter (\<lambda>r. ru_threadId r = threadId) (approval_rules s))"

definition revoke_rule :: "approval_rule \<Rightarrow> store \<Rightarrow> store" where
  "revoke_rule rule s =
     append_event (ru_threadId rule) None ''approval.rule_revoked''
       (EvJson (JObj [(''fingerprint'', JStr (ru_fingerprint rule)), (''permissionKey'', JStr (ru_permissionKey rule))]))
       (s\<lparr>approval_rules := filter (\<lambda>r. \<not> (ru_threadId r = ru_threadId rule \<and> ru_fingerprint r = ru_fingerprint rule))
           (approval_rules s)\<rparr>)"

definition revoke_rules :: "string \<Rightarrow> string option \<Rightarrow> nat run_txn" where
  "revoke_rules threadId fingerprint s =
     (let rules = filter (\<lambda>r. case fingerprint of None \<Rightarrow> True | Some fp \<Rightarrow> ru_fingerprint r = fp) (list_rules threadId s)
      in Inr (length rules, fold revoke_rule rules s))"

text \<open>The rule's source request was answered by a person on the computer \<open>node\<close>.\<close>

definition made_by :: "string \<Rightarrow> store \<Rightarrow> approval_rule \<Rightarrow> bool" where
  "made_by node s rule =
     (case Option.bind (ru_sourceRequestId rule) (\<lambda>i. get_approval i s) of
        None \<Rightarrow> False
      | Some q \<Rightarrow> (case ap_answeredBy q of Some (AnsweredUser via n) \<Rightarrow> n = Some node | _ \<Rightarrow> False))"

definition list_rules_made_by :: "string \<Rightarrow> store \<Rightarrow> approval_rule list" where
  "list_rules_made_by node s = by_created ru_createdAt (filter (made_by node s) (approval_rules s))"

definition revoke_rules_made_by :: "string \<Rightarrow> (string \<times> string) option \<Rightarrow> nat run_txn" where
  "revoke_rules_made_by node only s =
     (let rules = filter (\<lambda>r. made_by node s r \<and> (case only of None \<Rightarrow> True
            | Some (t, fp) \<Rightarrow> ru_threadId r = t \<and> ru_fingerprint r = fp)) (approval_rules s)
      in Inr (length rules, fold revoke_rule rules s))"

section \<open>Settling\<close>

definition continuation_due_of :: "approval_row \<Rightarrow> store \<Rightarrow> continuation_due option" where
  "continuation_due_of rec s =
     (if \<not> truthy (ap_runId rec) then None
      else let runId = the (ap_runId rec) in
        if pending_for_run runId s \<noteq> [] then None
        else
          let rows = select_approvals (\<lambda>a. ap_runId a = Some runId \<and> ap_status a = PAnswered \<and>
                ap_deliveredAt a = None \<and> ap_answerPath a = PathContinue) s in
          if rows = [] then None
          else if \<not> list_ex (\<lambda>a. case ap_answeredBy a of Some (AnsweredUser via n) \<Rightarrow> True | _ \<Rightarrow> False) rows then None
          else Some \<lparr>cd_threadId = ap_threadId rec, cd_runId = runId, cd_requestIds = map ap_requestId rows,
                     cd_uncertain = list_ex ap_uncertain rows\<rparr>)"

definition answered_row ::
  "(string \<Rightarrow> string) \<Rightarrow> approval_row \<Rightarrow> answers \<Rightarrow> answerer \<Rightarrow> nat \<Rightarrow> approval_row \<Rightarrow> approval_row" where
  "answered_row redact row ans who at old =
     (let meaning = meaning_of (ap_questions row) ans;
          always = (meaning = (DAllow, Some ScopeAlways));
          once = (if always then once_allow_option (ap_questions row) else None);
          feedback = answer_feedback redact (ap_questions row) ans who (fst meaning)
      in old\<lparr>ap_status := PAnswered, ap_answers := Some (stored_answers (ap_questions row) ans who feedback once),
          ap_decision := Some (fst meaning), ap_decisionScope := snd meaning, ap_feedback := feedback,
          ap_answeredBy := Some (stored_answerer who), ap_settledAt := Some at\<rparr>)"

type_synonym row_settler = "approval_row \<Rightarrow> answers \<Rightarrow> answerer \<Rightarrow> bool \<Rightarrow> settle_outcome answer_txn"

definition allow_sibling :: "row_settler \<Rightarrow> answerer \<Rightarrow> bool \<Rightarrow> approval_row \<Rightarrow> string option answer_txn" where
  "allow_sibling again who deliver sibling =
     (case (once_allow_option (ap_questions sibling), first_question (ap_questions sibling)) of
        (Some once, Some q) \<Rightarrow>
          bindE (again sibling [(aq_id q, OneAnswer (ao_id once))] who deliver)
            (\<lambda>outcome. retE (case outcome of AnswerSettled a \<Rightarrow> Some (ap_requestId sibling) | _ \<Rightarrow> None))
      | _ \<Rightarrow> retE None)"

definition siblings_of :: "approval_row \<Rightarrow> store \<Rightarrow> approval_row list" where
  "siblings_of rec s =
     (if \<not> truthy (ap_fingerprint rec) then []
      else select_approvals (\<lambda>a. ap_status a = PPending \<and> ap_threadId a = ap_threadId rec \<and>
             ap_fingerprint a = ap_fingerprint rec \<and> ap_permissionKey a = ap_permissionKey rec \<and>
             ap_answerPath a = PathLive \<and> ap_requestId a \<noteq> ap_requestId rec) s)"

definition allow_siblings :: "row_settler \<Rightarrow> approval_row \<Rightarrow> answerer \<Rightarrow> bool \<Rightarrow> string list answer_txn" where
  "allow_siblings again rec who deliver s =
     bindE (forE (siblings_of rec s) (allow_sibling again who deliver)) (\<lambda>settled. retE (somes settled)) s"

definition respond_input :: "approval_row \<Rightarrow> effect_input" where
  "respond_input row = \<lparr>ei_effectId = None, ei_threadId = ap_threadId row, ei_runId = ap_runId row,
     ei_kind = RequestRespond, ei_payload = JObj [(''requestId'', JStr (ap_requestId row))], ei_availableAt = None\<rparr>"

definition deliver_answer :: "approval_row \<Rightarrow> bool \<Rightarrow> settled_answer \<Rightarrow> settle_outcome answer_txn" where
  "deliver_answer row deliver base =
     (if ap_answerPath row = PathLive
      then bindE (whenE deliver (bindE (store_step (enqueue (respond_input row))) (\<lambda>_. retE ())))
             (\<lambda>_. retE (AnswerSettled base))
      else bindE (getE (continuation_due_of (sa_record base)))
             (\<lambda>due. retE (AnswerSettled (base\<lparr>sa_continuationDue := due\<rparr>))))"

text \<open>The part of \<open>settleRow\<close> after the row was updated.\<close>

definition after_answer ::
  "(string \<Rightarrow> string) \<Rightarrow> row_settler \<Rightarrow> approval_row \<Rightarrow> approval_row \<Rightarrow> answers \<Rightarrow> answerer \<Rightarrow> bool \<Rightarrow> settle_outcome answer_txn" where
  "after_answer redact again row rec ans who deliver =
     (let meaning = meaning_of (ap_questions row) ans;
          always = (meaning = (DAllow, Some ScopeAlways)) in
      bindE (modE (approval_event ''approval.answered'' rec
               ((''decision'', JStr (decision_text (fst meaning))) # opt_str ''scope'' (map_option scope_text (snd meaning)) @
                [(''answeredBy'', answered_by_json (stored_answerer who)), (''answerPath'', JStr (path_text (ap_answerPath row)))]))) (\<lambda>_.
      bindE (if always \<and> is_user who then (\<lambda>s. Inr (grant_rule redact rec s)) else retE None) (\<lambda>rule.
      bindE (if rule \<noteq> None then allow_siblings again rec who deliver else retE []) (\<lambda>siblings.
      deliver_answer row deliver
        \<lparr>sa_decision = fst meaning, sa_scope = snd meaning, sa_record = rec, sa_continuationDue = None,
         sa_rule = rule, sa_siblings = siblings\<rparr>))))"

definition pending_step ::
  "(string \<Rightarrow> string) \<Rightarrow> row_settler \<Rightarrow> approval_row \<Rightarrow> answers \<Rightarrow> answerer \<Rightarrow> bool \<Rightarrow> settle_outcome answer_txn" where
  "pending_step redact again row ans who deliver s =
     (let meaning = meaning_of (ap_questions row) ans in
      case can_answer_approval (ap_threadId row) (ap_action row) (ap_reason row) who (fst meaning) (snd meaning) s of
        Some refusal \<Rightarrow> Inr (AnswerRefused (RRefused refusal) None None None, s)
      | None \<Rightarrow>
          if meaning = (DAllow, Some ScopeAlways) \<and> once_allow_option (ap_questions row) = None
          then Inr (AnswerRefused RUnknown None None None, s)
          else if approval_changes (ap_requestId row) (\<lambda>a. ap_status a = PPending) s \<noteq> 1
          then (case get_approval (ap_requestId row) s of
                  None \<Rightarrow> Inr (AnswerRefused RUnknown None None None, s)
                | Some current \<Rightarrow>
                    if ap_status current \<noteq> PPending
                    then again current (stored_answers (ap_questions row) ans who
                           (answer_feedback redact (ap_questions row) ans who (fst meaning))
                           (if meaning = (DAllow, Some ScopeAlways) then once_allow_option (ap_questions row) else None)) who deliver s
                    else Inr (AnswerRefused RUnknown None None None, s))
          else after_answer redact again row (answered_row redact row ans who (clock s) row) ans who deliver
                 (update_approval (ap_requestId row) (\<lambda>a. ap_status a = PPending) (answered_row redact row ans who (clock s)) s))"

definition settle_step ::
  "(string \<Rightarrow> string) \<Rightarrow> row_settler \<Rightarrow> approval_row \<Rightarrow> answers \<Rightarrow> answerer \<Rightarrow> bool \<Rightarrow> settle_outcome answer_txn" where
  "settle_step redact again row ans who deliver =
     (case ap_status row of
        PAnswered \<Rightarrow> retE (AnswerRefused RAlreadyAnswered (ap_answeredBy row) (ap_decision row) None)
      | PCancelled \<Rightarrow> retE (AnswerRefused RAlreadyCancelled None None
           (if truthy (ap_cancelReason row) then ap_cancelReason row else None))
      | PPending \<Rightarrow> pending_step redact again row ans who deliver)"

primrec settle_row :: "(string \<Rightarrow> string) \<Rightarrow> nat \<Rightarrow> row_settler" where
  "settle_row redact 0 = (\<lambda>row ans who deliver. failE NoFuel)"
| "settle_row redact (Suc n) = settle_step redact (settle_row redact n)"

definition waiting_requests :: "store \<Rightarrow> nat" where
  "waiting_requests s = length (filter (\<lambda>a. ap_status a = PPending) (approvals s))"

definition settle_fuel :: "store \<Rightarrow> nat" where
  "settle_fuel s = waiting_requests s + 2"

definition settle_approval :: "(string \<Rightarrow> string) \<Rightarrow> string \<Rightarrow> answers \<Rightarrow> answerer \<Rightarrow> bool \<Rightarrow> settle_outcome answer_txn" where
  "settle_approval redact requestId ans who deliver s =
     (case get_approval requestId s of
        None \<Rightarrow> Inr (AnswerRefused RUnknown None None None, s)
      | Some row \<Rightarrow> settle_row redact (settle_fuel s) row ans who deliver s)"

section \<open>A message that answers by denying\<close>

datatype send_settlement = SendRefused | SendSettled (ss_requestIds: "string list") (ss_denied: "string list")

definition deny_for_send :: "(string \<Rightarrow> string) \<Rightarrow> nat \<Rightarrow> string option \<Rightarrow> answerer \<Rightarrow> approval_row \<Rightarrow> string option answer_txn" where
  "deny_for_send redact fuel feedback who row =
     bindE (settle_row redact fuel row
              (with_answers (answers_for (ap_questions row) DReject)
                (if truthy feedback then [(''feedback'', OneAnswer (the feedback))] else [])) who False)
       (\<lambda>outcome. retE (case outcome of AnswerSettled a \<Rightarrow> Some (ap_requestId row) | _ \<Rightarrow> None))"

definition waiting_answers :: "string \<Rightarrow> store \<Rightarrow> approval_row list" where
  "waiting_answers threadId = select_approvals (\<lambda>a. ap_threadId a = threadId \<and> ap_status a = PAnswered \<and>
     ap_deliveredAt a = None \<and> ap_answerPath a = PathContinue)"

definition may_deny :: "answerer \<Rightarrow> store \<Rightarrow> approval_row \<Rightarrow> bool" where
  "may_deny who s row \<longleftrightarrow>
     can_answer_approval (ap_threadId row) (ap_action row) (ap_reason row) who DReject None s = None"

definition settle_for_send :: "(string \<Rightarrow> string) \<Rightarrow> string \<Rightarrow> string option \<Rightarrow> answerer \<Rightarrow> send_settlement answer_txn" where
  "settle_for_send redact threadId feedback who s =
     (let pending = list_pending_approvals (Some threadId) s in
      if list_ex (\<lambda>row. \<not> may_deny who s row) pending then Inr (SendRefused, s)
      else bindE (forE pending (deny_for_send redact (settle_fuel s) feedback who)) (\<lambda>outcomes.
           bindE (getE (waiting_answers threadId)) (\<lambda>waiting.
           retE (SendSettled (distinct_first (somes outcomes @ map ap_requestId waiting)) (somes outcomes)))) s)"

end
