(* ===== verification/ApprovalDelivery.thy ===== *)
theory ApprovalDelivery
  imports ApprovalAnswers
begin

text \<open>
  What happens to an answer afterwards: it is bound to the run that delivers it, retired by a Stop, or
  recovered at boot; and the one-shot grant that lets the continuing run repeat the approved action. Also
  which turns are a person's own, and the words of a refusal (\<open>approvalRights.ts\<close>).
\<close>

section \<open>Delivery\<close>

text \<open>One guarded update of a request; the event is recorded with the row as it is then.\<close>

definition stamp_delivery :: "string option \<Rightarrow> (string \<times> json) list \<Rightarrow> string \<Rightarrow> bool run_txn" where
  "stamp_delivery runId payload requestId s =
     (let P = (\<lambda>a. ap_status a = PAnswered \<and> ap_deliveredAt a = None);
          s' = update_approval requestId P (\<lambda>a. a\<lparr>ap_deliveredAt := Some (clock s),
                 ap_continuationRunId := (case runId of None \<Rightarrow> ap_continuationRunId a | Some r \<Rightarrow> Some r)\<rparr>) s in
      if approval_changes requestId P s \<noteq> 1 then Inr (False, s')
      else Inr (True, (case get_approval requestId s' of None \<Rightarrow> s'
             | Some rec \<Rightarrow> approval_event ''approval.delivered'' rec payload s')))"

definition bind_delivery :: "string list \<Rightarrow> string \<Rightarrow> nat run_txn" where
  "bind_delivery requestIds runId =
     bindE (forE requestIds (stamp_delivery (Some runId) [(''runId'', JStr runId)]))
       (\<lambda>oks. retE (length (filter id oks)))"

definition mark_answer_delivered :: "string \<Rightarrow> unit run_txn" where
  "mark_answer_delivered requestId = bindE (stamp_delivery None [] requestId) (\<lambda>_. retE ())"

definition deliverable_count :: "string list \<Rightarrow> store \<Rightarrow> nat" where
  "deliverable_count requestIds s =
     length (filter (\<lambda>i. case get_approval i s of None \<Rightarrow> False
       | Some a \<Rightarrow> ap_status a = PAnswered \<and> ap_deliveredAt a = None) requestIds)"

definition armed :: "string \<Rightarrow> approval_row \<Rightarrow> bool" where
  "armed threadId a \<longleftrightarrow> ap_threadId a = threadId \<and> ap_status a = PAnswered \<and>
     (ap_deliveredAt a = None \<or>
      ap_decision a = Some DAllow \<and> ap_grantConsumedAt a = None \<and> ap_continuationRunId a \<noteq> None)"

definition retired_row :: "nat \<Rightarrow> approval_row \<Rightarrow> approval_row" where
  "retired_row at a = a\<lparr>ap_deliveredAt := or_else (ap_deliveredAt a) (Some at),
     ap_grantConsumedAt := (if ap_decision a = Some DAllow then or_else (ap_grantConsumedAt a) (Some at)
        else ap_grantConsumedAt a)\<rparr>"

definition retire_row :: "nat \<Rightarrow> approval_row \<Rightarrow> bool run_txn" where
  "retire_row at row s =
     (let P = (\<lambda>a. ap_status a = PAnswered); s' = update_approval (ap_requestId row) P (retired_row at) s in
      if approval_changes (ap_requestId row) P s \<noteq> 1 then Inr (False, s')
      else Inr (True, approval_event ''approval.retired'' row [(''reason'', JStr ''stopped'')] s'))"

definition retire_delivery :: "string \<Rightarrow> nat run_txn" where
  "retire_delivery threadId s =
     bindE (forE (select_approvals (armed threadId) s) (retire_row (clock s)))
       (\<lambda>oks. retE (length (filter id oks))) s"

definition delete_approvals_for_thread :: "string \<Rightarrow> nat run_txn" where
  "delete_approvals_for_thread threadId s =
     Inr (length (filter (\<lambda>a. ap_threadId a = threadId) (approvals s)),
          s\<lparr>approval_rules := filter (\<lambda>r. ru_threadId r \<noteq> threadId) (approval_rules s),
            approvals := filter (\<lambda>a. ap_threadId a \<noteq> threadId) (approvals s)\<rparr>)"

definition cancel_approval :: "string \<Rightarrow> string \<Rightarrow> bool run_txn" where
  "cancel_approval requestId reason =
     bindE (cancel_approval_rows (\<lambda>a. ap_requestId a = requestId) reason) (\<lambda>closed. retE (length closed = 1))"

definition cancel_for_thread :: "string \<Rightarrow> string \<Rightarrow> approval_row list run_txn" where
  "cancel_for_thread threadId = cancel_approval_rows (\<lambda>a. ap_threadId a = threadId)"

definition cancel_for_run :: "string \<Rightarrow> string \<Rightarrow> approval_row list run_txn" where
  "cancel_for_run runId = cancel_approval_rows (\<lambda>a. ap_runId a = Some runId)"

section \<open>Boot\<close>

datatype boot_outcome = BootContinued string | BootCancelled string | BootUndelivered string | BootDropped

record boot_recovery =
  br_continued :: "string list"
  br_cancelled :: "string list"
  br_undelivered :: "string list"

definition boot_row :: "approval_row \<Rightarrow> bool" where
  "boot_row a \<longleftrightarrow> ap_status a = PPending \<or>
     ap_status a = PAnswered \<and> ap_deliveredAt a = None \<and> ap_answerPath a = PathLive"

definition run_of :: "approval_row \<Rightarrow> store \<Rightarrow> run_record option" where
  "run_of row s = (if truthy (ap_runId row) then get_run (the (ap_runId row)) s else None)"

definition close_at_boot :: "string \<Rightarrow> approval_row \<Rightarrow> boot_outcome run_txn" where
  "close_at_boot reason row =
     bindE (cancel_approval_rows (\<lambda>a. ap_requestId a = ap_requestId row) reason)
       (\<lambda>_. retE (BootCancelled (ap_requestId row)))"

definition continue_at_boot :: "(string \<Rightarrow> string list option) \<Rightarrow> run_record \<Rightarrow> approval_row \<Rightarrow> boot_outcome run_txn" where
  "continue_at_boot uncertainTools run row s =
     (let unsure = (rr_status run = RUncertain);
          named = (if unsure then Some (distinct_first (case uncertainTools (rr_runId run) of None \<Rightarrow> [] | Some ts \<Rightarrow> ts)) else None)
      in Inr (if ap_status row = PPending then BootContinued (ap_requestId row) else BootUndelivered (ap_requestId row),
           approval_event ''approval.continue'' row
             ((''uncertain'', JBool unsure) # (case named of None \<Rightarrow> [] | Some ts \<Rightarrow> [(''tools'', JArr (map JStr ts))]))
             (update_approval (ap_requestId row) (\<lambda>_. True)
               (\<lambda>a. a\<lparr>ap_answerPath := PathContinue, ap_uncertain := unsure, ap_uncertainTools := named\<rparr>) s)))"

definition recover_row ::
  "(string \<Rightarrow> string list option) \<Rightarrow> (string \<Rightarrow> bool) \<Rightarrow> nat \<Rightarrow> approval_row \<Rightarrow> boot_outcome run_txn" where
  "recover_row uncertainTools unattended at row s =
     (if ap_status row = PPending \<and> truthy (ap_runId row) \<and> unattended (the (ap_runId row))
      then close_at_boot ''timed_out'' row s
      else case run_of row s of
        Some run \<Rightarrow>
          if rr_status run = RInterrupted \<or> rr_status run = RUncertain
          then continue_at_boot uncertainTools run row s
          else if ap_status row = PPending then close_at_boot ''turn_ended'' row s
          else Inr (BootDropped, update_approval (ap_requestId row) (\<lambda>_. True) (\<lambda>a. a\<lparr>ap_deliveredAt := Some at\<rparr>) s)
      | None \<Rightarrow>
          if ap_status row = PPending then close_at_boot ''turn_ended'' row s
          else Inr (BootDropped, update_approval (ap_requestId row) (\<lambda>_. True) (\<lambda>a. a\<lparr>ap_deliveredAt := Some at\<rparr>) s))"

fun boot_continued :: "boot_outcome \<Rightarrow> string option" where
  "boot_continued (BootContinued i) = Some i" | "boot_continued _ = None"

fun boot_closed :: "boot_outcome \<Rightarrow> string option" where
  "boot_closed (BootCancelled i) = Some i" | "boot_closed _ = None"

fun boot_undelivered :: "boot_outcome \<Rightarrow> string option" where
  "boot_undelivered (BootUndelivered i) = Some i" | "boot_undelivered _ = None"

definition report_waiting :: "string list \<Rightarrow> approval_row list \<Rightarrow> string list" where
  "report_waiting = foldl (\<lambda>out row. if ap_requestId row \<in> set out then out else out @ [ap_requestId row])"

definition recover_approvals_on_boot ::
  "(string \<Rightarrow> string list option) \<Rightarrow> (string \<Rightarrow> bool) \<Rightarrow> boot_recovery run_txn" where
  "recover_approvals_on_boot uncertainTools unattended s =
     bindE (forE (select_approvals boot_row s) (recover_row uncertainTools unattended (clock s))) (\<lambda>outcomes.
     bindE (getE (select_approvals (\<lambda>a. ap_status a = PAnswered \<and> ap_deliveredAt a = None \<and> ap_answerPath a = PathContinue))) (\<lambda>waiting.
     retE \<lparr>br_continued = somes (map boot_continued outcomes), br_cancelled = somes (map boot_closed outcomes),
       br_undelivered = report_waiting (somes (map boot_undelivered outcomes)) waiting\<rparr>)) s"

section \<open>Continuation grants\<close>

definition grants_for :: "string \<Rightarrow> string \<Rightarrow> string \<Rightarrow> store \<Rightarrow> approval_row list" where
  "grants_for threadId runId fingerprint = select_approvals (\<lambda>a. ap_threadId a = threadId \<and>
     ap_continuationRunId a = Some runId \<and> ap_fingerprint a = Some fingerprint \<and>
     ap_decision a = Some DAllow \<and> ap_grantConsumedAt a = None)"

definition consume_continuation_grant :: "string \<Rightarrow> string \<Rightarrow> string option \<Rightarrow> bool run_txn" where
  "consume_continuation_grant threadId runId fingerprint s =
     (if \<not> truthy fingerprint then Inr (False, s)
      else case grants_for threadId runId (the fingerprint) s of
        [] \<Rightarrow> Inr (False, s)
      | row # _ \<Rightarrow>
          let P = (\<lambda>a. ap_grantConsumedAt a = None);
              s' = update_approval (ap_requestId row) P (\<lambda>a. a\<lparr>ap_grantConsumedAt := Some (clock s)\<rparr>) s in
          if approval_changes (ap_requestId row) P s \<noteq> 1 then Inr (False, s')
          else Inr (True, (case get_approval (ap_requestId row) s' of None \<Rightarrow> s'
                 | Some rec \<Rightarrow> approval_event ''approval.grant_consumed'' rec [(''runId'', JStr runId)] s')))"

section \<open>Whose turn\<close>

definition PERSON_SOURCES :: "string list" where
  "PERSON_SOURCES = [''gui'', ''cli'', ''resume_now'']"

definition started_by_person :: "string \<Rightarrow> string option \<Rightarrow> bool" where
  "started_by_person run_origin source =
     (run_origin = ''interactive'' \<and> (case source of None \<Rightarrow> False | Some x \<Rightarrow> x \<in> set PERSON_SOURCES))"

fun describe_approval_refusal :: "approval_refusal \<Rightarrow> string" where
  "describe_approval_refusal OwnRequest = ''An agent cannot answer its own approval request; the user does.''"
| "describe_approval_refusal PersonOnly = ''The provider asks for this itself (its own safety check, a path outside the allowed folders, or a rule the user made), so only the user can answer it.''"
| "describe_approval_refusal PersonTurn = ''The user started the turn that asks, so the user answers it. Agents answer for turns that agents, jobs or subagents started.''"
| "describe_approval_refusal NotParent = ''Only the parent of a subagent can answer its approval requests.''"
| "describe_approval_refusal ApprovalsDisabled = ''The user has not allowed agents to answer approvals on other threads (Settings > Agents). Ask the user to answer it.''"
| "describe_approval_refusal ProjectNotAllowed = ''That thread is in a project the user has not given agents access to. Ask the user to answer it.''"
| "describe_approval_refusal ModeForbids = ''Your permission mode would ask the user before this kind of action, so you cannot approve it for your subagent. Ask the user to answer it.''"
| "describe_approval_refusal AgentNoStandingGrant = ''Only the user can approve an action for the whole thread. Approve it once, or ask the user.''"
| "describe_approval_refusal BridgeNoStandingGrant = ''A linked device can allow a request once. \"Always for this thread\" is made in the app or the CLI, where the rule can be seen and revoked.''"
| "describe_approval_refusal DeviceModeForbids = ''The computer that runs this thread lets this device allow this request once, but not for the whole thread: its permission limit would ask about this kind of action. Raise the limit for this device on that computer, in Settings, Devices, or answer in the app there.''"

end
