(* ===== verification/Engine.thy ===== *)
theory Engine
  imports QueueRules Wake ApprovalDelivery
begin

text \<open>
  \<open>src/mms/run/RunEngine.ts\<close>: how a run starts, runs, pauses and ends. Each operation is one synchronous
  transaction over the run store; beside the store the engine remembers, in memory, the epoch it last wrote for
  each live run, and a write of a run that somebody else has written since is refused.

  An operation is a function of that memory and of the store. When it raises, the store is as it was before (the
  transaction is rolled back) but the memory is not: a Map has no rollback.
\<close>

section \<open>Operations\<close>

datatype engine_error = EngineFail store_error | EngineReject string | EngineFault settle_fault

type_synonym remembered = "(string \<times> int) list"

type_synonym 'a engine_op = "remembered \<Rightarrow> store \<Rightarrow> (engine_error + ('a \<times> store)) \<times> remembered"

definition retG :: "'a \<Rightarrow> 'a engine_op" where
  "retG x ep s = (Inr (x, s), ep)"

definition failG :: "engine_error \<Rightarrow> 'a engine_op" where
  "failG e ep s = (Inl e, ep)"

definition bindG :: "'a engine_op \<Rightarrow> ('a \<Rightarrow> 'b engine_op) \<Rightarrow> 'b engine_op" where
  "bindG m f ep s = (case m ep s of (Inl e, ep1) \<Rightarrow> (Inl e, ep1) | (Inr (x, s1), ep1) \<Rightarrow> f x ep1 s1)"

definition storeG :: "'a run_txn \<Rightarrow> 'a engine_op" where
  "storeG m ep s = (map_sum EngineFail id (m s), ep)"

definition readG :: "(store \<Rightarrow> 'a) \<Rightarrow> 'a engine_op" where
  "readG f ep s = (Inr (f s, s), ep)"

definition queryG :: "(store \<Rightarrow> store_error + 'a) \<Rightarrow> 'a engine_op" where
  "queryG f ep s = (map_sum EngineFail (\<lambda>x. (x, s)) (f s), ep)"

definition requireG :: "bool \<Rightarrow> engine_error \<Rightarrow> unit engine_op" where
  "requireG b e = (if b then retG () else failG e)"

definition whenG :: "bool \<Rightarrow> unit engine_op \<Rightarrow> unit engine_op" where
  "whenG b m = (if b then m else retG ())"

definition forgetG :: "string \<Rightarrow> unit engine_op" where
  "forgetG runId ep s = (Inr ((), s), AList.delete runId ep)"

text \<open>\<open>if (this.epochs.has(id)) this.epochs.set(id, next.epoch)\<close>\<close>

definition rememberG :: "run_record \<Rightarrow> unit engine_op" where
  "rememberG next ep s = (Inr ((), s),
     if map_of ep (rr_runId next) = None then ep else AList.update (rr_runId next) (int (rr_epoch next)) ep)"

fun forG :: "'x list \<Rightarrow> ('x \<Rightarrow> 'a engine_op) \<Rightarrow> 'a list engine_op" where
  "forG [] f = retG []"
| "forG (x # xs) f = bindG (f x) (\<lambda>y. bindG (forG xs f) (\<lambda>ys. retG (y # ys)))"

section \<open>A guarded write of one run\<close>

text \<open>A \<open>fresh\<close> write takes the run over: it adopts the stored epoch.\<close>

definition mark :: "string \<Rightarrow> bool \<Rightarrow> (run_record \<Rightarrow> int \<Rightarrow> run_record engine_op) \<Rightarrow> run_record engine_op" where
  "mark runId fresh write ep s =
     (case get_run runId s of
        None \<Rightarrow> (Inl (EngineFail BadRequest), ep)
      | Some run \<Rightarrow>
          let e = (if fresh then int (rr_epoch run) else expected_epoch ep run) in
          if int (rr_epoch run) \<noteq> e then (Inl (EngineFail StaleWrite), ep)
          else case write run e ep s of
              (Inl x, ep1) \<Rightarrow> (Inl x, ep1)
            | (Inr (next, s1), ep1) \<Rightarrow>
                (Inr (next, s1), if terminal_run (rr_status next) then AList.delete runId ep1
                   else AList.update runId (int (rr_epoch next)) ep1))"

definition require_status :: "run_record \<Rightarrow> run_status list \<Rightarrow> unit engine_op" where
  "require_status run allowed = requireG (rr_status run \<in> set allowed) (EngineFail BadRequest)"

definition write_terminal ::
  "run_record \<Rightarrow> int \<Rightarrow> run_status \<Rightarrow> run_outcome option \<Rightarrow> string option \<Rightarrow> (inbox_kind \<times> json) option \<Rightarrow>
   run_record run_txn" where
  "write_terminal run e status outcome resultText notice s =
     write_terminal_run run e status outcome (clock s) resultText notice s"

section \<open>Pauses\<close>

text \<open>Why a pause is closed; \<open>stale\<close> is not an end.\<close>

datatype pause_close = Ends pause_end | Stale

fun pause_end_str :: "pause_end \<Rightarrow> string" where
  "pause_end_str EndResume = ''resume''"
| "pause_end_str EndResumeNow = ''resume_now''"
| "pause_end_str EndUserMessage = ''user_message''"
| "pause_end_str EndCancel = ''cancel''"
| "pause_end_str EndStop = ''stop''"
| "pause_end_str EndDeleted = ''deleted''"

fun pause_close_str :: "pause_close \<Rightarrow> string" where
  "pause_close_str (Ends by0) = pause_end_str by0"
| "pause_close_str Stale = ''stale''"

definition hands_over :: "pause_end \<Rightarrow> bool" where
  "hands_over by0 \<longleftrightarrow> by0 = EndResume \<or> by0 = EndResumeNow"

definition is_manual :: "effect_record \<Rightarrow> bool" where
  "is_manual e \<longleftrightarrow> jfield (ef_payload e) ''manual'' = Some (JBool True)"

definition run_effects :: "effect_kind \<Rightarrow> string \<Rightarrow> store \<Rightarrow> effect_record list" where
  "run_effects kind runId s = filter (\<lambda>e. ef_kind e = kind) (effects_for_run runId s)"

text \<open>The pause of a run that is paused.\<close>

definition paused_run :: "string \<Rightarrow> store \<Rightarrow> (run_record \<times> run_pause) option" where
  "paused_run runId s = (case get_run runId s of
     None \<Rightarrow> None
   | Some run \<Rightarrow> if rr_status run \<noteq> RPaused then None
       else map_option (\<lambda>p. (run, p)) (oc_pause (the_outcome (rr_outcome run))))"

definition update_pause :: "string \<Rightarrow> (run_pause \<Rightarrow> run_pause) \<Rightarrow> run_record engine_op" where
  "update_pause runId patch ep s =
     (case paused_run runId s of
        None \<Rightarrow> failG (EngineReject ''conflict'')
      | Some (run, pause) \<Rightarrow>
          bindG (storeG (cas_run_outcome runId (int (rr_epoch run)) (empty_outcome\<lparr>oc_pause := Some (patch pause)\<rparr>)))
            (\<lambda>next. bindG (rememberG next) (\<lambda>_. retG next))) ep s"

definition end_outcome :: "pause_end \<Rightarrow> run_pause \<Rightarrow> run_outcome" where
  "end_outcome by0 pause =
     (if hands_over by0
      then empty_outcome\<lparr>oc_interruptedBy := Some ByProvider, oc_pause := Some (pause\<lparr>pa_endedBy := Some by0\<rparr>)\<rparr>
      else empty_outcome\<lparr>oc_interruptedBy := Some ByUser, oc_error := Some ''Paused by a usage limit; cancelled.'',
             oc_pause := Some (pause\<lparr>pa_endedBy := Some by0\<rparr>)\<rparr>)"

text \<open>The timers a closed pause drops: the pending ones, and for a stale pause only the automatic ones.\<close>

definition dropped_timers :: "string \<Rightarrow> pause_close \<Rightarrow> store \<Rightarrow> effect_record list" where
  "dropped_timers runId by0 s =
     filter (\<lambda>e. ef_status e = EPending \<and> \<not> (by0 = Stale \<and> is_manual e)) (run_effects RunResume runId s)"

definition cancel_effects :: "effect_record list \<Rightarrow> string \<Rightarrow> unit run_txn" where
  "cancel_effects es reason s =
     bindE (forE es (\<lambda>e. effect_cancel (ef_effectId e) (clock s) reason None)) (\<lambda>_. retE ()) s"

definition end_pause :: "string \<Rightarrow> pause_close \<Rightarrow> run_record engine_op" where
  "end_pause runId by0 ep s =
     (case paused_run runId s of
        None \<Rightarrow> failG (EngineReject ''conflict'')
      | Some (run, pause) \<Rightarrow>
          bindG (storeG (cancel_effects (dropped_timers runId by0 s) (pause_close_str by0))) (\<lambda>_.
          (case by0 of
             Stale \<Rightarrow> update_pause runId (\<lambda>p. p\<lparr>pa_autoResume := False, pa_stale := True\<rparr>)
           | Ends by1 \<Rightarrow>
               bindG (storeG (write_terminal run (int (rr_epoch run)) (if hands_over by1 then RInterrupted else RCancelled)
                        (Some (end_outcome by1 pause)) None None)) (\<lambda>next.
               bindG (forgetG runId) (\<lambda>_. retG next))))) ep s"

definition resume_payload :: "run_record \<Rightarrow> nat \<Rightarrow> bool \<Rightarrow> json" where
  "resume_payload run until manual =
     JObj ([(''kind'', JStr ''resume''), (''runId'', JStr (rr_runId run)), (''threadId'', JStr (rr_threadId run)),
        (''until'', JNum (int until))] @ (if manual then [(''manual'', JBool True)] else []))"

definition enqueue_resume :: "run_record \<Rightarrow> nat \<Rightarrow> nat \<Rightarrow> bool \<Rightarrow> effect_record run_txn" where
  "enqueue_resume run until availableAt manual =
     enqueue \<lparr>ei_effectId = None, ei_threadId = rr_threadId run, ei_runId = Some (rr_runId run), ei_kind = RunResume,
       ei_payload = resume_payload run until manual, ei_availableAt = Some availableAt\<rparr>"

text \<open>A timer of a run that is no longer paused would hold up the thread's next ones: the lane is first in, first out.\<close>

definition dead_timer :: "string \<Rightarrow> store \<Rightarrow> effect_record \<Rightarrow> bool" where
  "dead_timer exceptRunId s e \<longleftrightarrow> ef_kind e = RunResume \<and> ef_runId e \<noteq> Some exceptRunId \<and>
     (case Option.bind (ef_runId e) (\<lambda>r. if r = [] then None else get_run r s) of
        None \<Rightarrow> True | Some owner \<Rightarrow> rr_status owner \<noteq> RPaused)"

definition cancel_dead_resume_timers :: "string \<Rightarrow> string \<Rightarrow> unit run_txn" where
  "cancel_dead_resume_timers threadId exceptRunId s =
     bindE (forE (effects_for_thread threadId (Some EPending) s)
              (\<lambda>e s1. if dead_timer exceptRunId s1 e
                      then bindE (effect_cancel (ef_effectId e) (clock s) ''run_not_paused'' None) (\<lambda>_. retE ()) s1
                      else Inr ((), s1)))
       (\<lambda>_. retE ()) s"

text \<open>The timer that already does what a Resume now asks for.\<close>

definition resume_under_way :: "string \<Rightarrow> bool \<Rightarrow> store \<Rightarrow> effect_record option" where
  "resume_under_way runId manual s =
     (let timers = run_effects RunResume runId s;
          queued = List.find is_manual (filter (\<lambda>e. ef_status e = EPending) timers) in
      case List.find (\<lambda>e. ef_status e = ERunning) timers of
        None \<Rightarrow> queued
      | Some running \<Rightarrow> if \<not> manual \<or> is_manual running then Some running else queued)"

definition request_resume :: "string \<Rightarrow> bool \<Rightarrow> effect_record engine_op" where
  "request_resume runId manual ep s =
     (case get_run runId s of
        None \<Rightarrow> failG (EngineReject ''conflict'')
      | Some run \<Rightarrow>
          if rr_status run \<noteq> RPaused then failG (EngineReject ''conflict'')
          else (case resume_under_way runId manual s of
              Some e \<Rightarrow> retG e
            | None \<Rightarrow>
                bindG (storeG (cancel_effects (filter (\<lambda>e. ef_status e = EPending) (run_effects RunResume runId s))
                         ''resume_requested'')) (\<lambda>_.
                storeG (enqueue_resume run
                  (case oc_pause (the_outcome (rr_outcome run)) of None \<Rightarrow> clock s | Some p \<Rightarrow> pa_until p) (clock s) manual)))) ep s"

definition pause_attempt :: "run_record \<Rightarrow> unit run_txn" where
  "pause_attempt run s =
     (case Option.bind (rr_activeAttemptId run) (\<lambda>a. if a = [] then None else get_attempt a s) of
        None \<Rightarrow> Inr ((), s)
      | Some attempt \<Rightarrow>
          if at_status attempt = APending \<or> at_status attempt = ARunning
          then bindE (set_attempt_status (at_attemptId attempt) AInterrupted None None (Some (Some (clock s)))) (\<lambda>_. retE ()) s
          else Inr ((), s))"

definition arm_timer :: "run_record \<Rightarrow> run_pause \<Rightarrow> nat option \<Rightarrow> unit run_txn" where
  "arm_timer run pause resumeAt =
     (case resumeAt of
        None \<Rightarrow> retE ()
      | Some at \<Rightarrow>
          bindE (cancel_dead_resume_timers (rr_threadId run) (rr_runId run)) (\<lambda>_.
          bindE (enqueue_resume run (pa_until pause) at False) (\<lambda>_. retE ())))"

definition pause_run :: "string \<Rightarrow> run_pause \<Rightarrow> nat option \<Rightarrow> run_record engine_op" where
  "pause_run runId pause resumeAt =
     mark runId False (\<lambda>run e.
       bindG (require_status run [RRunning, RFinalizing]) (\<lambda>_.
       bindG (requireG (oc_stopRequested (the_outcome (rr_outcome run)) \<noteq> Some True) (EngineFail BadRequest)) (\<lambda>_.
       bindG (queryG (get_paused_run (rr_threadId run))) (\<lambda>other.
       bindG (requireG (other = None) (EngineFail Conflict)) (\<lambda>_.
       bindG (storeG (cas_run_status (rr_runId run) e RPaused
                (no_patch\<lparr>rp_outcome := Some (Some ((the_outcome (rr_outcome run))\<lparr>oc_pause := Some pause\<rparr>))\<rparr>))) (\<lambda>next.
       bindG (storeG (pause_attempt next)) (\<lambda>_.
       bindG (storeG (arm_timer next pause resumeAt)) (\<lambda>_.
       retG next))))))))"

section \<open>The life of a run\<close>

definition held_by_pause :: "run_record \<Rightarrow> bool" where
  "held_by_pause run \<longleftrightarrow> is_fenced_source (Some (rr_source run)) \<or> is_pause_held_source (Some (rr_source run)) \<or>
     oc_sentByAgent (the_outcome (rr_outcome run)) \<noteq> None"

definition first_attempt :: "run_record \<Rightarrow> string run_txn" where
  "first_attempt run =
     (case rr_activeAttemptId run of
        Some a \<Rightarrow> retE a
      | None \<Rightarrow> bindE (create_attempt (rr_runId run) Initial) (\<lambda>a. retE (at_attemptId a)))"

definition admit_now :: "run_record \<Rightarrow> unit run_txn" where
  "admit_now run s =
     (if is_fenced_source (Some (rr_source run)) then Inr ((), s)
      else Inr ((), s\<lparr>runs := update_rows (\<lambda>r. rr_runId r = rr_runId run)
             (\<lambda>r. r\<lparr>rr_stopGeneration := current_stop_generation (rr_threadId run) s\<rparr>) (runs s)\<rparr>))"

text \<open>
  A person's message that was queued before the pause ends it by starting; work started on the thread's behalf never
  runs beside a pause.
\<close>

definition start_pause :: "run_record \<Rightarrow> run_record option \<Rightarrow> unit engine_op" where
  "start_pause run paused = (case paused of
       None \<Rightarrow> retG ()
     | Some p \<Rightarrow>
         bindG (requireG (\<not> held_by_pause run) (EngineFail Conflict)) (\<lambda>_.
         bindG (end_pause (rr_runId p) (Ends EndUserMessage)) (\<lambda>_. retG ())))"

definition mark_starting :: "string \<Rightarrow> run_record engine_op" where
  "mark_starting runId =
     mark runId True (\<lambda>run e.
       bindG (require_status run [RQueued]) (\<lambda>_.
       bindG (queryG (get_active_run (rr_threadId run))) (\<lambda>active.
       bindG (requireG (\<forall>a \<in> set_option active. rr_runId a = rr_runId run) (EngineFail Conflict)) (\<lambda>_.
       bindG (queryG (get_paused_run (rr_threadId run))) (\<lambda>paused.
       bindG (start_pause run paused) (\<lambda>_.
       bindG (storeG (first_attempt run)) (\<lambda>attemptId.
       bindG (storeG (admit_now run)) (\<lambda>_.
       bindG (readG clock) (\<lambda>now.
       storeG (cas_run_status (rr_runId run) e RStarting
         (no_patch\<lparr>rp_startedAt := Some (Some now), rp_activeAttemptId := Some (Some attemptId)\<rparr>)))))))))))"

definition mark_running :: "string \<Rightarrow> run_record engine_op" where
  "mark_running runId =
     mark runId False (\<lambda>run e.
       bindG (require_status run [RStarting]) (\<lambda>_.
       bindG (storeG (cas_run_status (rr_runId run) e RRunning no_patch)) (\<lambda>next.
       bindG (case rr_activeAttemptId next of
                None \<Rightarrow> retG ()
              | Some a \<Rightarrow> if a = [] then retG ()
                  else bindG (readG clock) (\<lambda>now.
                       bindG (storeG (set_attempt_status a ARunning None (Some (Some now)) None)) (\<lambda>_. retG ()))) (\<lambda>_.
       retG next))))"

definition mark_finalizing :: "string \<Rightarrow> run_record engine_op" where
  "mark_finalizing runId =
     mark runId False (\<lambda>run e.
       bindG (require_status run [RRunning]) (\<lambda>_.
       storeG (cas_run_status (rr_runId run) e RFinalizing no_patch)))"

definition mark_terminal_run ::
  "string \<Rightarrow> run_status \<Rightarrow> run_outcome option \<Rightarrow> string option \<Rightarrow> (inbox_kind \<times> json) option \<Rightarrow> run_record engine_op" where
  "mark_terminal_run runId status outcome resultText notice =
     mark runId False (\<lambda>run e.
       bindG (requireG (rr_status run \<noteq> RPaused) (EngineFail Conflict)) (\<lambda>_.
       storeG (write_terminal run e status outcome resultText notice)))"

definition record_provider_ref :: "string \<Rightarrow> provider_ref \<Rightarrow> attempt_record engine_op" where
  "record_provider_ref runId ref ep s =
     (case get_run runId s of
        None \<Rightarrow> failG (EngineFail BadRequest)
      | Some run \<Rightarrow>
          if terminal_run (rr_status run) then failG (EngineFail BadRequest)
          else if int (rr_epoch run) \<noteq> expected_epoch ep run then failG (EngineFail StaleWrite)
          else case Option.bind (rr_activeAttemptId run) (\<lambda>a. if a = [] then None else get_attempt a s) of
              None \<Rightarrow> failG (EngineFail BadRequest)
            | Some attempt \<Rightarrow> storeG (set_attempt_status (at_attemptId attempt) (at_status attempt) (Some (Some ref)) None None)) ep s"

definition record_execution_binding :: "string \<Rightarrow> json \<Rightarrow> json engine_op" where
  "record_execution_binding runId binding ep s =
     (case get_run runId s of
        None \<Rightarrow> failG (EngineFail BadRequest)
      | Some run \<Rightarrow>
          (case rr_activeAttemptId run of
             None \<Rightarrow> failG (EngineFail BadRequest)
           | Some a \<Rightarrow> if a = [] then failG (EngineFail BadRequest) else storeG (set_attempt_binding a binding))) ep s"

definition record_access_grant :: "string \<Rightarrow> access_level \<Rightarrow> access_level option engine_op" where
  "record_access_grant runId level ep s = (Inr (set_run_access_grant runId level s), ep)"

definition needs_interrupt :: "string \<Rightarrow> store \<Rightarrow> bool" where
  "needs_interrupt runId s \<longleftrightarrow>
     (case get_run runId s of None \<Rightarrow> False | Some run \<Rightarrow> active_status (rr_status run)) \<and>
     \<not> list_ex (\<lambda>e. ef_status e = EPending \<or> ef_status e = ERunning) (run_effects TurnInterrupt runId s)"

end
