(* ===== verification/EngineStop.thy ===== *)
theory EngineStop
  imports Engine
begin

text \<open>
  A Stop of a thread and everything below it (\<open>RunEngine.stopSubtree\<close>): the subtree, what the Stop cancels, the
  order it does it in, its receipt and its replay. The ids of the claimed \<open>turn.start\<close> effects it cancels are part
  of the result: the caller aborts their local executions after the commit.
\<close>

section \<open>The subtree\<close>

definition add_child :: "nat \<Rightarrow> (string \<times> nat) list \<Rightarrow> lineage_record \<Rightarrow> (string \<times> nat) list" where
  "add_child depth found child =
     (if ln_relationship child = Subagent \<and> ln_threadId child \<notin> fst ` set found
      then found @ [(ln_threadId child, depth)] else found)"

definition add_children :: "string \<times> nat \<Rightarrow> store \<Rightarrow> (string \<times> nat) list \<Rightarrow> (string \<times> nat) list" where
  "add_children at s found = foldl (add_child (Suc (snd at))) found (list_child_threads (fst at) s)"

lemma add_child_new:
  "add_child d found row =
     found @ (if ln_relationship row = Subagent \<and> ln_threadId row \<notin> fst ` set found then [(ln_threadId row, d)] else [])"
  by (simp add: add_child_def)

lemma foldl_add_child:
  "\<exists>fresh. foldl (add_child d) found rows = found @ fresh \<and> distinct (map fst fresh) \<and>
     fst ` set fresh = ln_threadId ` {row \<in> set rows. ln_relationship row = Subagent} - fst ` set found \<and>
     snd ` set fresh \<subseteq> {d}"
proof (induction rows arbitrary: found)
  case (Cons row rows)
  let ?new = "if ln_relationship row = Subagent \<and> ln_threadId row \<notin> fst ` set found then [(ln_threadId row, d)] else []"
  obtain m where m: "foldl (add_child d) (found @ ?new) rows = (found @ ?new) @ m" "distinct (map fst m)"
    "fst ` set m = ln_threadId ` {row \<in> set rows. ln_relationship row = Subagent} - fst ` set (found @ ?new)"
    "snd ` set m \<subseteq> {d}"
    using Cons by blast
  have "distinct (map fst (?new @ m))"
    using m(2,3) by (auto simp: distinct_append)
  moreover have "fst ` set (?new @ m) = ln_threadId ` {r \<in> set (row # rows). ln_relationship r = Subagent} - fst ` set found"
  proof (cases "ln_relationship row = Subagent \<and> ln_threadId row \<notin> fst ` set found")
    case True
    then show ?thesis using m(3) by auto
  next
    case False
    then have "?new = []" by auto
    with m(3) False show ?thesis by auto
  qed
  moreover have "snd ` set (?new @ m) \<subseteq> {d}" using m(4) by auto
  moreover have "foldl (add_child d) found (row # rows) = found @ (?new @ m)"
    using m(1) by (simp add: add_child_new)
  ultimately show ?case by blast
qed simp

text \<open>What a round finds: the subagents of one thread that were not found before.\<close>

definition subagents_of :: "string \<Rightarrow> store \<Rightarrow> string set" where
  "subagents_of t s = ln_threadId ` {row \<in> set (lineage s). ln_parentThreadId row = t \<and> ln_relationship row = Subagent}"

lemma add_children_found:
  "\<exists>fresh. add_children at s found = found @ fresh \<and> distinct (map fst fresh) \<and>
     fst ` set fresh = subagents_of (fst at) s - fst ` set found \<and> snd ` set fresh \<subseteq> {Suc (snd at)}"
proof -
  have "{row \<in> set (list_child_threads (fst at) s). ln_relationship row = Subagent} =
      {row \<in> set (lineage s). ln_parentThreadId row = fst at \<and> ln_relationship row = Subagent}"
    by (auto simp: list_child_threads_def)
  then show ?thesis
    using foldl_add_child [of "Suc (snd at)" found "list_child_threads (fst at) s"]
    by (simp add: add_children_def subagents_of_def)
qed

text \<open>Every round finds a thread of the lineage table that was not found before, or only moves on.\<close>

function subtree_from :: "store \<Rightarrow> nat \<Rightarrow> (string \<times> nat) list \<Rightarrow> (string \<times> nat) list" where
  "subtree_from s i found =
     (if i < length found then subtree_from s (Suc i) (add_children (found ! i) s found) else found)"
  by pat_completeness auto
termination
proof (relation "measures [\<lambda>(s, i, found). card (ln_threadId ` set (lineage s) - fst ` set found),
    \<lambda>(s, i, found). length found - i]")
  fix s i and found :: "(string \<times> nat) list"
  assume i: "i < length found"
  obtain m where m: "add_children (found ! i) s found = found @ m"
    "fst ` set m = subagents_of (fst (found ! i)) s - fst ` set found"
    using add_children_found [of "found ! i" s found] by blast
  let ?left = "\<lambda>f. ln_threadId ` set (lineage s) - fst ` set f"
  show "((s, Suc i, add_children (found ! i) s found), (s, i, found))
      \<in> measures [\<lambda>(s, i, found). card (ln_threadId ` set (lineage s) - fst ` set found),
          \<lambda>(s, i, found). length found - i]"
  proof (cases "m = []")
    case True
    then show ?thesis using m(1) i by simp
  next
    case False
    then obtain t where "t \<in> fst ` set m" by (cases m) auto
    then have "t \<in> ?left found" "t \<notin> ?left (found @ m)"
      using m(2) by (auto simp: subagents_of_def)
    then have "?left (found @ m) \<subset> ?left found" by auto
    then have "card (?left (found @ m)) < card (?left found)"
      by (intro psubset_card_mono) auto
    then show ?thesis using m(1) by simp
  qed
qed simp

declare subtree_from.simps [simp del]

definition subtree_depths :: "string \<Rightarrow> store \<Rightarrow> (string \<times> nat) list" where
  "subtree_depths threadId s = subtree_from s 0 [(threadId, 0)]"

definition depth_of :: "(string \<times> nat) list \<Rightarrow> string \<Rightarrow> nat" where
  "depth_of depths t = (case map_of depths t of None \<Rightarrow> 0 | Some d \<Rightarrow> d)"

section \<open>Requests and answers\<close>

record stop_request =
  sr_threadId :: string
  sr_reason :: string
  sr_clientRequestId :: "string option"
  sr_runId :: "string option"
  sr_requester :: "string option"
  sr_clearQueue :: bool
  sr_actor :: "agent_actor option"

record stop_report =
  sp_threadId :: string
  sp_threads :: "string list"
  sp_generations :: "(string \<times> nat) list"
  sp_activeRuns :: "(string \<times> string) list"
  sp_cancelledRuns :: "(string \<times> string) list"
  sp_delegations :: "string list"
  sp_acknowledgedRows :: "string list"

datatype stop_answer =
    StopDone stop_report
  | StopIgnored string string "run_record option"
  | StopReplayed "(string \<times> json) list"

text \<open>A member that is there and not empty: \<open>request.runId ? \<dots>\<close>.\<close>

definition given :: "string option \<Rightarrow> string option" where
  "given v = (if v = Some [] then None else v)"

definition stop_receipt_key :: "string \<Rightarrow> string \<Rightarrow> string" where
  "stop_receipt_key threadId clientRequestId = ''stop-thread:'' @ threadId @ '':'' @ clientRequestId"

definition stop_key :: "stop_request \<Rightarrow> string option" where
  "stop_key q = map_option (\<lambda>c. if given (sr_runId q) \<noteq> None then c else stop_receipt_key (sr_threadId q) c)
     (given (sr_clientRequestId q))"

definition stop_kind :: "stop_request \<Rightarrow> string" where
  "stop_kind q = (if given (sr_runId q) \<noteq> None then ''stop'' else ''stop.thread'')"

definition run_refs :: "(string \<times> string) list \<Rightarrow> json" where
  "run_refs refs = JArr (map (\<lambda>(t, r). JObj [(''threadId'', JStr t), (''runId'', JStr r)]) refs)"

definition strings_json :: "string list \<Rightarrow> json" where
  "strings_json xs = JArr (map JStr xs)"

definition report_members :: "bool \<Rightarrow> stop_report \<Rightarrow> (string \<times> json) list" where
  "report_members replayed p =
     [(''replayed'', JBool replayed), (''threadId'', JStr (sp_threadId p)), (''threads'', strings_json (sp_threads p)),
      (''generations'', JObj (map (\<lambda>(t, g). (t, JNum (int g))) (sp_generations p))),
      (''activeRuns'', run_refs (sp_activeRuns p)), (''cancelledRuns'', run_refs (sp_cancelledRuns p)),
      (''delegations'', strings_json (sp_delegations p)), (''acknowledgedRows'', strings_json (sp_acknowledgedRows p))]"

definition empty_report :: "string \<Rightarrow> stop_report" where
  "empty_report threadId = \<lparr>sp_threadId = threadId, sp_threads = [threadId], sp_generations = [], sp_activeRuns = [],
     sp_cancelledRuns = [], sp_delegations = [], sp_acknowledgedRows = []\<rparr>"

definition stopped_outcome :: "run_record \<Rightarrow> json" where
  "stopped_outcome run = (let oc = the_outcome (rr_outcome run) in
     JObj ([(''status'', JStr (status_str (rr_status run)))] @ opt_member ''error'' (given (oc_error oc)) @
       opt_member ''interruptedBy'' (map_option interrupted_by_str (oc_interruptedBy oc))))"

fun stop_members :: "stop_answer \<Rightarrow> (string \<times> json) list" where
  "stop_members (StopDone p) = (''status'', JStr ''stopped'') # report_members False p"
| "stop_members (StopIgnored reason threadId run) =
     (''status'', JStr ''ignored'') # report_members False (empty_report threadId) @
     opt_member ''runId'' (map_option rr_runId run) @ [(''reason'', JStr reason)] @
     (case run of None \<Rightarrow> [] | Some r \<Rightarrow> [(''outcome'', stopped_outcome r)])"
| "stop_members (StopReplayed ms) = ms"

text \<open>The result of a Stop aimed at a run that is not the thread's active or paused run.\<close>

definition stale_stop_target :: "string \<Rightarrow> string \<Rightarrow> store \<Rightarrow> stop_answer option" where
  "stale_stop_target runId threadId s =
     (case get_run runId s of
        None \<Rightarrow> Some (StopIgnored ''run_not_found'' threadId None)
      | Some run \<Rightarrow>
          if rr_threadId run \<noteq> threadId then Some (StopIgnored ''run_not_found'' threadId None)
          else if active_status (rr_status run) \<or> rr_status run = RPaused then None
          else Some (StopIgnored ''run_not_active'' threadId (Some run)))"

definition jarray :: "json option \<Rightarrow> bool" where
  "jarray v = (case v of Some (JArr _) \<Rightarrow> True | _ \<Rightarrow> False)"

text \<open>The stored result, again; one written before Stops cascaded replays as the one run.\<close>

definition replayed_stop :: "receipt_record \<Rightarrow> string \<Rightarrow> string \<Rightarrow> (string \<times> json) list" where
  "replayed_stop receipt threadId commandKind =
     (let blank = report_members True (empty_report threadId); kept = rc_result receipt in
      if rc_threadId receipt \<noteq> threadId \<or> rc_commandKind receipt \<notin> {commandKind, ''stop.thread'', ''stop''}
      then blank @ [(''status'', JStr ''rejected''), (''reason'', JStr ''client_request_id_conflict'')]
      else if jarray (jfield kept ''threads'') then jpatch (jmembers kept) [(''replayed'', JBool True)]
      else blank @ [(''status'', JStr (if rc_status receipt = Accepted then ''stopped'' else ''ignored''))] @
        opt_member ''runId'' (given (jstring (jfield kept ''runId''))) @
        opt_member ''reason'' (given (jstring (jfield kept ''reason''))))"

definition put_stop_receipt :: "string option \<Rightarrow> string \<Rightarrow> string \<Rightarrow> stop_answer \<Rightarrow> unit run_txn" where
  "put_stop_receipt key commandKind threadId ans s =
     (case key of
        None \<Rightarrow> Inr ((), s)
      | Some k \<Rightarrow> bindE (put_receipt \<lparr>rc_clientRequestId = k, rc_threadId = threadId, rc_commandKind = commandKind,
            rc_status = (case ans of StopDone _ \<Rightarrow> Accepted | _ \<Rightarrow> Ignored), rc_result = JObj (stop_members ans),
            rc_createdAt = clock s\<rparr>) (\<lambda>_. retE ()) s)"

definition record_agent_action ::
  "string \<Rightarrow> string option \<Rightarrow> agent_actor \<Rightarrow> string \<Rightarrow> (string \<times> json) list \<Rightarrow> unit run_txn" where
  "record_agent_action threadId runId actor act details =
     modE (append_event threadId runId ''agent.action''
       (EvJson (JObj (details @ [(''action'', JStr act), (''actorThreadId'', JStr (ac_threadId actor)),
          (''actorRunId'', JStr (ac_runId actor)), (''toolCallId'', JStr (ac_toolCallId actor))]))))"

section \<open>What a Stop cancels\<close>

definition running_into :: "string list \<Rightarrow> store \<Rightarrow> delegation_record list" where
  "running_into threads s =
     sort_key dg_createdAt (filter (\<lambda>d. dg_status d = DRunning) (concat (map (\<lambda>t. list_for_child t s) threads)))"

definition stop_notice :: "delegation_record \<Rightarrow> json" where
  "stop_notice d = JObj [(''kind'', JStr ''delegation_stopped''), (''delegationId'', JStr (dg_delegationId d)),
     (''childThreadId'', JStr (dg_childThreadId d))]"

text \<open>The owner's notice goes in first: an owner that has not read it still counts as busy.\<close>

definition stop_delegation :: "string list \<Rightarrow> string option \<Rightarrow> delegation_record \<Rightarrow> unit run_txn" where
  "stop_delegation threads requester d s =
     bindE (whenE (dg_parentThreadId d \<notin> set threads \<and> requester \<noteq> Some (dg_parentThreadId d))
              (bindE (inbox_append (dg_parentThreadId d) (Some (dg_parentRunId d)) ReconcileNotice (stop_notice d) None)
                 (\<lambda>_. retE ()))) (\<lambda>_.
     bindE (set_delegation_status settle_hold (dg_delegationId d) DRunning DCancelled None (Some (Some (clock s))))
       (\<lambda>_. retE ())) s"

definition acknowledge_thread :: "string \<Rightarrow> string list run_txn" where
  "acknowledge_thread threadId s =
     (let rows = map ib_inboxId (list_by_status threadId IPending s @ list_by_status threadId IDelivered s) in
      bindE (mark_acknowledged rows) (\<lambda>_.
      bindE (cancel_acknowledged_wakes_in (clock s) (Some threadId)) (\<lambda>_. retE rows)) s)"

text \<open>A message a person typed is never lost silently, unless the Stop asked to clear the queue.\<close>

definition survives_stop :: "run_record \<Rightarrow> bool \<Rightarrow> bool" where
  "survives_stop run clearQueue \<longleftrightarrow> \<not> clearQueue \<and> \<not> is_fenced_source (Some (rr_source run))"

definition live_starts :: "string \<Rightarrow> store \<Rightarrow> effect_record list" where
  "live_starts runId s = filter (\<lambda>e. \<not> terminal_effect (ef_status e)) (run_effects TurnStart runId s)"

text \<open>Whether the run was cancelled, and the claimed starts of it.\<close>

definition cancel_queued_run :: "run_record \<Rightarrow> string \<Rightarrow> run_outcome \<Rightarrow> (bool \<times> string list) engine_op" where
  "cancel_queued_run run reason outcome ep s =
     (case get_run (rr_runId run) s of
        None \<Rightarrow> retG (False, [])
      | Some current \<Rightarrow>
          if rr_status current \<noteq> RQueued then retG (False, [])
          else
            let starts = live_starts (rr_runId run) s in
            bindG (storeG (cancel_effects starts reason)) (\<lambda>_.
            bindG (storeG (write_terminal current (int (rr_epoch current)) RCancelled (Some outcome) None None)) (\<lambda>_.
            bindG (forgetG (rr_runId run)) (\<lambda>_.
            retG (True, map ef_effectId (filter (\<lambda>e. ef_status e = ERunning) starts)))))) ep s"

definition note_stopped_by_agent :: "run_record \<Rightarrow> unit engine_op" where
  "note_stopped_by_agent run =
     (if oc_stopRequestedByAgent (the_outcome (rr_outcome run)) \<noteq> None then retG ()
      else bindG (storeG (cas_run_outcome (rr_runId run) (int (rr_epoch run))
             (empty_outcome\<lparr>oc_stopRequestedByAgent := Some ()\<rparr>))) rememberG)"

definition enqueue_interrupt :: "string \<Rightarrow> string \<Rightarrow> unit run_txn" where
  "enqueue_interrupt threadId runId =
     bindE (enqueue \<lparr>ei_effectId = None, ei_threadId = threadId, ei_runId = Some runId, ei_kind = TurnInterrupt,
       ei_payload = JObj [(''runId'', JStr runId), (''threadId'', JStr threadId)], ei_availableAt = None\<rparr>) (\<lambda>_. retE ())"

text \<open>An active run is asked to stop; a Stop a person already asked for stays theirs.\<close>

definition stop_active_run :: "stop_request \<Rightarrow> run_record \<Rightarrow> unit engine_op" where
  "stop_active_run q run =
     bindG (whenG (oc_stopRequested (the_outcome (rr_outcome run)) \<noteq> Some True)
              (bindG (storeG (cas_run_outcome (rr_runId run) (int (rr_epoch run))
                 (empty_outcome\<lparr>oc_stopRequested := Some True,
                    oc_stopRequestedByAgent := (if sr_actor q \<noteq> None then Some () else None)\<rparr>))) rememberG)) (\<lambda>_.
     bindG (readG (run_effects TurnSteer (rr_runId run))) (\<lambda>steers.
     bindG (storeG (cancel_effects (filter (\<lambda>e. ef_status e = EPending) steers) (sr_reason q))) (\<lambda>_.
     bindG (readG (needs_interrupt (rr_runId run))) (\<lambda>needed.
     whenG needed (storeG (enqueue_interrupt (rr_threadId run) (rr_runId run)))))))"

datatype run_stop = LeftAlone | AskedToStop | EndedByStop "string list"

definition stop_run :: "stop_request \<Rightarrow> run_record \<Rightarrow> run_stop engine_op" where
  "stop_run q run =
     (if rr_status run = RPaused then
        bindG (whenG (sr_actor q \<noteq> None) (note_stopped_by_agent run)) (\<lambda>_.
        bindG (end_pause (rr_runId run) (Ends EndStop)) (\<lambda>_. retG (EndedByStop [])))
      else if rr_status run = RQueued then
        (if survives_stop run (sr_clearQueue q) then retG LeftAlone
         else bindG (cancel_queued_run run (sr_reason q)
                (empty_outcome\<lparr>oc_interruptedBy := Some (if sr_actor q \<noteq> None then ByAgent else ByUser)\<rparr>))
                (\<lambda>(done0, claimed0). retG (if done0 then EndedByStop claimed0 else LeftAlone)))
      else if \<not> active_status (rr_status run) then retG LeftAlone
      else bindG (stop_active_run q run) (\<lambda>_. retG AskedToStop))"

definition run_ref :: "run_record \<Rightarrow> string \<times> string" where
  "run_ref run = (rr_threadId run, rr_runId run)"

definition claimed_starts :: "run_stop list \<Rightarrow> string list" where
  "claimed_starts stops = concat (map (\<lambda>x. case x of EndedByStop ids \<Rightarrow> ids | _ \<Rightarrow> []) stops)"

definition ended_by_stop :: "run_stop \<Rightarrow> bool" where
  "ended_by_stop x = (case x of EndedByStop _ \<Rightarrow> True | _ \<Rightarrow> False)"

definition refs_where :: "(run_stop \<Rightarrow> bool) \<Rightarrow> run_record list \<Rightarrow> run_stop list \<Rightarrow> (string \<times> string) list" where
  "refs_where P rs stops = map (run_ref \<circ> fst) (filter (P \<circ> snd) (zip rs stops))"

section \<open>The Stop\<close>

definition subtree_runs :: "string list \<Rightarrow> store \<Rightarrow> run_record list" where
  "subtree_runs threads s = filter (\<lambda>r. rr_threadId r \<in> set threads) (list_non_terminal_runs s)"

definition perform_stop :: "stop_request \<Rightarrow> (stop_answer \<times> string list) engine_op" where
  "perform_stop q =
     bindG (readG (subtree_depths (sr_threadId q))) (\<lambda>depths. let threads = map fst depths in
     bindG (storeG (\<lambda>s. Inr (bump_stop_generations threads s))) (\<lambda>generations.
     bindG (readG (\<lambda>s. sort_key (\<lambda>d. depth_of depths (dg_childThreadId d)) (running_into threads s))) (\<lambda>running.
     bindG (storeG (forE running (stop_delegation threads (sr_requester q)))) (\<lambda>_.
     bindG (storeG (forE threads acknowledge_thread)) (\<lambda>acknowledged.
     bindG (readG (subtree_runs threads)) (\<lambda>rs.
     bindG (forG rs (stop_run q)) (\<lambda>stops.
     let report = \<lparr>sp_threadId = sr_threadId q, sp_threads = threads, sp_generations = generations,
           sp_activeRuns = refs_where (\<lambda>x. x = AskedToStop) rs stops, sp_cancelledRuns = refs_where ended_by_stop rs stops,
           sp_delegations = map dg_delegationId (sort_key (\<lambda>d. - int (depth_of depths (dg_childThreadId d))) running),
           sp_acknowledgedRows = concat acknowledged\<rparr> in
     bindG (storeG (case sr_actor q of
              None \<Rightarrow> retE ()
            | Some actor \<Rightarrow> record_agent_action (sr_threadId q) (sr_runId q) actor ''stopped_run''
                [(''threads'', JNum (int (length threads))), (''activeRuns'', JNum (int (length (sp_activeRuns report)))),
                 (''cancelledRuns'', JNum (int (length (sp_cancelledRuns report))))])) (\<lambda>_.
     bindG (storeG (put_stop_receipt (stop_key q) (stop_kind q) (sr_threadId q) (StopDone report))) (\<lambda>_.
     retG (StopDone report, claimed_starts stops))))))))))"

definition ignore_stop :: "stop_request \<Rightarrow> string \<Rightarrow> stop_answer \<Rightarrow> (stop_answer \<times> string list) engine_op" where
  "ignore_stop q aimed ans =
     bindG (storeG (modE (append_event (sr_threadId q)
        (case ans of StopIgnored _ _ run \<Rightarrow> map_option rr_runId run | _ \<Rightarrow> None) ''command.ignored''
        (EvJson (JObj [(''kind'', JStr ''stop''), (''runId'', JStr aimed),
           (''reason'', (case ans of StopIgnored reason _ _ \<Rightarrow> JStr reason | _ \<Rightarrow> JUndef))]))))) (\<lambda>_.
     bindG (storeG (put_stop_receipt (stop_key q) (stop_kind q) (sr_threadId q) ans)) (\<lambda>_. retG (ans, [])))"

definition stop_subtree :: "stop_request \<Rightarrow> (stop_answer \<times> string list) engine_op" where
  "stop_subtree q ep s =
     (case Option.bind (stop_key q) (\<lambda>k. get_receipt k s) of
        Some receipt \<Rightarrow> retG (StopReplayed (replayed_stop receipt (sr_threadId q) (stop_kind q)), [])
      | None \<Rightarrow>
          (case given (sr_runId q) of
             None \<Rightarrow> perform_stop q
           | Some aimed \<Rightarrow>
               (case stale_stop_target aimed (sr_threadId q) s of
                  None \<Rightarrow> perform_stop q
                | Some ans \<Rightarrow> ignore_stop q aimed ans))) ep s"

text \<open>A replayed Stop whose runs are still live and have no interrupt waiting gets one again.\<close>

definition reinterrupt_one :: "string \<times> string \<Rightarrow> (string \<times> string) option run_txn" where
  "reinterrupt_one ref s =
     (if \<not> needs_interrupt (snd ref) s then Inr (None, s)
      else bindE (enqueue_interrupt (fst ref) (snd ref)) (\<lambda>_. retE (Some ref)) s)"

definition reinterrupt_stopped :: "(string \<times> string) list \<Rightarrow> (string \<times> string) list job" where
  "reinterrupt_stopped refs = then_job (commit_each refs reinterrupt_one) (\<lambda>rs. commit (retE (somes rs)))"

definition is_fenced :: "string \<Rightarrow> store \<Rightarrow> bool" where
  "is_fenced runId s \<longleftrightarrow> (case get_run runId s of None \<Rightarrow> False | Some run \<Rightarrow>
     is_fenced_source (Some (rr_source run)) \<and> is_run_admission_stale runId s)"

end
