(* ===== verification/EngineCommands.thy ===== *)
theory EngineCommands
  imports EngineStop
begin

text \<open>
  The commands of the engine (\<open>RunEngine.dispatch\<close>): a send, a Stop of one run and a steer. A command is decided
  once; its receipt answers every repeat. \<open>digest\<close> is the SHA-256 of \<open>node:crypto\<close>, \<open>redact\<close> the redaction of
  feedback, \<open>thread_live\<close> the host's view of which threads still exist; \<open>admit\<close> is the caller's admission check, an
  error it raises.
\<close>

section \<open>Commands and results\<close>

record send_delegation =
  sd_parentThreadId :: string
  sd_parentRunId :: string
  sd_prompt :: string
  sd_wake :: delegation_wake
  sd_modeCeiling :: "mode_ceiling option"
  sd_accessLevel :: "access_level option"
  sd_workspace :: "delegation_workspace option"
  sd_role :: "string option"
  sd_provider :: "string option"
  sd_model :: "string option"

record send_command =
  sc_threadId :: string
  sc_clientRequestId :: string
  sc_source :: string
  sc_userMessageId :: "string option"
  sc_continuationOfRunId :: "string option"
  sc_acknowledgeUncertain :: bool
  sc_delegation :: "send_delegation option"
  sc_prompt :: "string option"
  sc_settleApprovals :: "(string option \<times> answerer) option"
  sc_bindDelivery :: "string list option"
  sc_actor :: "agent_actor option"
  sc_agentOrigin :: "nat option"
  sc_queueBehindPause :: bool
  sc_refuseWhilePaused :: bool

record control_command =
  cc_threadId :: string
  cc_clientRequestId :: string
  cc_runId :: string
  cc_actor :: "agent_actor option"
  cc_textLength :: "nat option"
  cc_ceiling :: "permission_mode option"

datatype run_command = SendCommand send_command | StopCommand control_command | SteerCommand control_command

fun command_thread :: "run_command \<Rightarrow> string" where
  "command_thread (SendCommand c) = sc_threadId c"
| "command_thread (StopCommand c) = cc_threadId c"
| "command_thread (SteerCommand c) = cc_threadId c"

fun command_request_id :: "run_command \<Rightarrow> string" where
  "command_request_id (SendCommand c) = sc_clientRequestId c"
| "command_request_id (StopCommand c) = cc_clientRequestId c"
| "command_request_id (SteerCommand c) = cc_clientRequestId c"

fun command_kind :: "run_command \<Rightarrow> string" where
  "command_kind (SendCommand c) = ''send''"
| "command_kind (StopCommand c) = ''stop''"
| "command_kind (SteerCommand c) = ''steer''"

datatype command_answer =
    CmdAccepted (ca_runId: string) (ca_sequence: int) (ca_replayed: bool) (ca_endedPause: "json option") (ca_heldByPause: "json option")
  | CmdRejected string int bool
  | CmdIgnored string "string option" "json option" int bool

section \<open>Receipts\<close>

definition same_prompt :: "(string \<Rightarrow> string) \<Rightarrow> run_command \<Rightarrow> receipt_record \<Rightarrow> bool" where
  "same_prompt digest cmd receipt =
     (case cmd of
        SendCommand c \<Rightarrow>
          (case sc_prompt c of
             None \<Rightarrow> True
           | Some p \<Rightarrow>
               (case jfield (rc_result receipt) ''promptDigest'' of
                  Some (JStr d) \<Rightarrow> d = digest p
                | _ \<Rightarrow> True))
      | _ \<Rightarrow> True)"

text \<open>\<open>stored.x ? { x } : {}\<close> for a member that is an object.\<close>

definition present :: "json option \<Rightarrow> json option" where
  "present v = (if jtruthy v then v else None)"

definition string_or :: "json option \<Rightarrow> string \<Rightarrow> string" where
  "string_or v d = (case v of Some (JStr x) \<Rightarrow> x | _ \<Rightarrow> d)"

definition replay :: "receipt_record \<Rightarrow> command_answer" where
  "replay receipt =
     (let m = jfield (rc_result receipt); sequence = jnum (m ''sequence'') in
      case rc_status receipt of
        Accepted \<Rightarrow> CmdAccepted (string_or (m ''runId'') []) sequence True (present (m ''endedPause'')) (present (m ''heldByPause''))
      | Rejected \<Rightarrow> CmdRejected (string_or (m ''reason'') ''rejected'') sequence True
      | Ignored \<Rightarrow> CmdIgnored (string_or (m ''reason'') ''ignored'') (jstring (m ''runId'')) (m ''activeRunId'') sequence True)"

definition put_command_receipt :: "run_command \<Rightarrow> receipt_status \<Rightarrow> (string \<times> json) list \<Rightarrow> unit run_txn" where
  "put_command_receipt cmd status result s =
     bindE (put_receipt \<lparr>rc_clientRequestId = command_request_id cmd, rc_threadId = command_thread cmd,
        rc_commandKind = command_kind cmd, rc_status = status, rc_result = JObj result, rc_createdAt = clock s\<rparr>)
       (\<lambda>_. retE ()) s"

definition sequence_of :: "string \<Rightarrow> store \<Rightarrow> int" where
  "sequence_of threadId s = int (max_seq threadId s)"

definition refuse_command :: "string \<Rightarrow> string \<Rightarrow> command_answer engine_op" where
  "refuse_command threadId reason = bindG (readG (sequence_of threadId)) (\<lambda>n. retG (CmdRejected reason n False))"

section \<open>Sends\<close>

text \<open>A row from before levels existed counts as \<open>lineage\<close>.\<close>

definition narrowest_access :: "delegation_record list \<Rightarrow> access_level option" where
  "narrowest_access tasks = (if tasks = [] then None
     else narrow_agent_access (map (\<lambda>d. Some (case dg_accessLevel d of None \<Rightarrow> Lineage | Some l \<Rightarrow> l)) tasks) None)"

text \<open>The task a person's message to a subagent makes, so the parent hears its result.\<close>

definition tracked_follow_up :: "(string \<Rightarrow> bool) \<Rightarrow> send_command \<Rightarrow> store \<Rightarrow> store_error + send_delegation option" where
  "tracked_follow_up thread_live c s =
     (if sc_delegation c \<noteq> None then Inr (sc_delegation c)
      else if \<not> is_follow_up_source (sc_source c) then Inr None
      else case get_lineage (sc_threadId c) s of
        None \<Rightarrow> Inr None
      | Some link \<Rightarrow>
          if ln_relationship link \<noteq> Subagent \<or> \<not> thread_live (ln_parentThreadId link) then Inr None
          else
            let tasks = list_for_child (sc_threadId c) s in
            (case list_runs (ln_parentThreadId link) (Some 1) s of
               Inl e \<Rightarrow> Inl e
             | Inr rs \<Rightarrow>
                 Inr (case (List.find (\<lambda>d. dg_parentThreadId d = ln_parentThreadId link) tasks, rs) of
                     (Some first0, parentRun # _) \<Rightarrow>
                       Some \<lparr>sd_parentThreadId = ln_parentThreadId link, sd_parentRunId = rr_runId parentRun,
                         sd_prompt = (case sc_prompt c of None \<Rightarrow> [] | Some p \<Rightarrow> p), sd_wake = WakeAlways,
                         sd_modeCeiling = dg_modeCeiling first0, sd_accessLevel = narrowest_access tasks,
                         sd_workspace = dg_workspace first0, sd_role = dg_role first0,
                         sd_provider = dg_provider first0, sd_model = dg_model first0\<rparr>
                   | _ \<Rightarrow> None)))"

definition continuation_refusal :: "send_command \<Rightarrow> store \<Rightarrow> string option" where
  "continuation_refusal c s =
     (case given (sc_continuationOfRunId c) of
        None \<Rightarrow> None
      | Some i \<Rightarrow>
          (case get_run i s of
             None \<Rightarrow> Some ''continuation_not_found''
           | Some run \<Rightarrow>
               if rr_threadId run \<noteq> sc_threadId c then Some ''continuation_not_found''
               else if rr_status run = RPaused \<and> is_resume_source (Some (sc_source c)) then None
               else if \<not> terminal_run (rr_status run) then Some ''continuation_source_active''
               else if rr_status run = RUncertain \<and> \<not> sc_acknowledgeUncertain c then Some ''uncertain_not_acknowledged''
               else None))"

definition check_follow_up :: "string \<Rightarrow> send_delegation \<Rightarrow> unit engine_op" where
  "check_follow_up childThreadId d ep s =
     (if \<not> is_own_subagent childThreadId (sd_parentThreadId d) s then failG (EngineFail BadRequest)
      else case get_run (sd_parentRunId d) s of
        None \<Rightarrow> failG (EngineFail BadRequest)
      | Some parent \<Rightarrow>
          if rr_threadId parent \<noteq> sd_parentThreadId d then failG (EngineFail BadRequest)
          else if oc_stopRequested (the_outcome (rr_outcome parent)) = Some True then failG (EngineReject ''parent_stopping'')
          else if is_run_admission_stale (rr_runId parent) s then failG (EngineReject ''parent_stopping'')
          else retG ()) ep s"

definition agent_count :: "agent_actor \<Rightarrow> nat" where
  "agent_count actor = (case ac_hops actor of None \<Rightarrow> 1 | Some h \<Rightarrow> nat h)"

definition send_outcome :: "send_command \<Rightarrow> nat option \<Rightarrow> run_outcome option" where
  "send_outcome c carriedHops =
     (let oc0 = (case given (sc_continuationOfRunId c) of
            None \<Rightarrow> empty_outcome
          | Some i \<Rightarrow> empty_outcome\<lparr>oc_continuationOf := Some i,
              oc_resumedFromPause := (if \<not> is_resume_source (Some (sc_source c)) then None
                 else if sc_source c = ''resume'' then Some Auto else Some User)\<rparr>);
          oc1 = (case sc_actor c of
            Some a \<Rightarrow> oc0\<lparr>oc_sentByAgent := Some (), oc_agentHops := Some (agent_count a)\<rparr>
          | None \<Rightarrow> (case sc_agentOrigin c of
              Some h \<Rightarrow> oc0\<lparr>oc_sentByAgent := Some (), oc_agentHops := Some h\<rparr> | None \<Rightarrow> oc0));
          oc2 = (case carriedHops of None \<Rightarrow> oc1 | Some h \<Rightarrow> oc1\<lparr>oc_agentHops := Some h\<rparr>)
      in if oc2 = empty_outcome then None else Some oc2)"

text \<open>Why a send is refused before anything is written; none of these refusals is stored.\<close>

definition send_refusal :: "send_command \<Rightarrow> run_record option \<Rightarrow> store \<Rightarrow> string option" where
  "send_refusal c paused s =
     (let resuming = is_resume_source (Some (sc_source c)) in
      if paused \<noteq> None \<and> (is_fenced_source (Some (sc_source c)) \<or> is_pause_held_source (Some (sc_source c))) \<and> \<not> resuming
        then Some ''thread_paused''
      else if paused \<noteq> None \<and> (sc_actor c \<noteq> None \<or> sc_refuseWhilePaused c) \<and> \<not> resuming then Some ''thread_paused''
      else if resuming \<and> (paused = None \<or> sc_continuationOfRunId c \<noteq> map_option rr_runId paused) then Some ''pause_ended''
      else continuation_refusal c s)"

definition settle_for_command :: "(string \<Rightarrow> string) \<Rightarrow> send_command \<Rightarrow> send_settlement option engine_op" where
  "settle_for_command redact c ep s =
     (case sc_settleApprovals c of
        None \<Rightarrow> retG None
      | Some (feedback, who) \<Rightarrow> (\<lambda>ep1 s1.
          (map_sum EngineFault (\<lambda>(x, s2). (Some x, s2)) (settle_for_send redact (sc_threadId c) feedback who s1), ep1))) ep s"

definition tracked_input :: "send_command \<Rightarrow> string \<Rightarrow> send_delegation \<Rightarrow> store \<Rightarrow> delegation_input" where
  "tracked_input c childRunId d s =
     \<lparr>di_delegationId = None, di_parentRunId = sd_parentRunId d, di_parentThreadId = sd_parentThreadId d,
      di_childThreadId = sc_threadId c, di_childRunId = childRunId, di_provider = sd_provider d, di_model = sd_model d,
      di_prompt = sd_prompt d, di_wake = sd_wake d, di_modeCeiling = sd_modeCeiling d,
      di_accessLevel = narrow_agent_access [sd_accessLevel d, narrowest_access (list_for_child (sc_threadId c) s)] None,
      di_workspace = sd_workspace d, di_role = sd_role d\<rparr>"

definition bind_settlement :: "send_settlement option \<Rightarrow> string \<Rightarrow> unit run_txn" where
  "bind_settlement settlement runId =
     (case settlement of
        Some (SendSettled ids denied) \<Rightarrow> whenE (ids \<noteq> []) (bindE (bind_delivery ids runId) (\<lambda>_. retE ()))
      | _ \<Rightarrow> retE ())"

definition ended_pause_json :: "run_record \<Rightarrow> json" where
  "ended_pause_json paused = JObj ([(''runId'', JStr (rr_runId paused))] @
     opt_member ''resumeItemId'' (given (Option.bind (oc_pause (the_outcome (rr_outcome paused))) pa_resumeItemId)))"

definition resume_close :: "send_command \<Rightarrow> pause_end" where
  "resume_close c = (if \<not> is_resume_source (Some (sc_source c)) then EndUserMessage
     else if sc_source c = ''resume'' then EndResume else EndResumeNow)"

definition pause_of_send ::
  "send_command \<Rightarrow> run_record option \<Rightarrow> (json option \<times> json option) engine_op" where
  "pause_of_send c paused =
     (case paused of
        None \<Rightarrow> retG (None, None)
      | Some p \<Rightarrow>
          if sc_queueBehindPause c \<and> \<not> is_resume_source (Some (sc_source c))
          then retG (None, Some (JObj [(''runId'', JStr (rr_runId p))]))
          else bindG (end_pause (rr_runId p) (Ends (resume_close c))) (\<lambda>_. retG (Some (ended_pause_json p), None)))"

definition json_member :: "string \<Rightarrow> json option \<Rightarrow> (string \<times> json) list" where
  "json_member k v = (case v of None \<Rightarrow> [] | Some x \<Rightarrow> [(k, x)])"

text \<open>The audit row and the receipt are written with the run.\<close>

definition finish_send ::
  "(string \<Rightarrow> string) \<Rightarrow> send_command \<Rightarrow> run_record \<Rightarrow> json option \<times> json option \<Rightarrow> command_answer engine_op" where
  "finish_send digest c run pauses =
     bindG (storeG (case sc_actor c of None \<Rightarrow> retE ()
              | Some actor \<Rightarrow> record_agent_action (sc_threadId c) (Some (rr_runId run)) actor ''sent_message''
                  ([(''runId'', JStr (rr_runId run))] @
                   json_member ''length'' (map_option (\<lambda>p. JNum (int (length p))) (sc_prompt c))))) (\<lambda>_.
     bindG (readG (sequence_of (sc_threadId c))) (\<lambda>n.
     bindG (storeG (put_command_receipt (SendCommand c) Accepted
              ([(''runId'', JStr (rr_runId run)), (''sequence'', JNum n)] @ json_member ''endedPause'' (fst pauses) @
               json_member ''heldByPause'' (snd pauses) @
               json_member ''promptDigest'' (map_option (\<lambda>p. JStr (digest p)) (sc_prompt c))))) (\<lambda>_.
     retG (CmdAccepted (rr_runId run) n False (fst pauses) (snd pauses)))))"

definition write_tracked :: "(string \<Rightarrow> string) \<Rightarrow> send_command \<Rightarrow> send_delegation option \<Rightarrow> run_record \<Rightarrow> unit run_txn" where
  "write_tracked digest c tracked run s =
     (case tracked of
        None \<Rightarrow> Inr ((), s)
      | Some d \<Rightarrow> bindE (create_delegation digest (tracked_input c (rr_runId run) d s)) (\<lambda>_. retE ()) s)"

definition bind_answers :: "send_command \<Rightarrow> run_record \<Rightarrow> unit run_txn" where
  "bind_answers c run = (case sc_bindDelivery c of None \<Rightarrow> retE ()
     | Some ids \<Rightarrow> whenE (ids \<noteq> []) (bindE (bind_delivery ids (rr_runId run)) (\<lambda>_. retE ())))"

definition carried_hops :: "send_command \<Rightarrow> nat option engine_op" where
  "carried_hops c = (if sc_actor c \<noteq> None \<or> sc_agentOrigin c \<noteq> None then retG None
     else queryG (inherited_agent_hops (sc_threadId c) (sc_source c) (sc_continuationOfRunId c)))"

text \<open>The replacement exists before the pause ends, so a subagent's task stays \<open>running\<close> across the hand-over.\<close>

definition admit_send ::
  "(string \<Rightarrow> string) \<Rightarrow> (string \<Rightarrow> string) \<Rightarrow> send_command \<Rightarrow> send_delegation option \<Rightarrow> run_record option \<Rightarrow>
   command_answer engine_op" where
  "admit_send digest redact c tracked paused =
     bindG (settle_for_command redact c) (\<lambda>settlement.
     bindG (carried_hops c) (\<lambda>hops.
     bindG (storeG (create_run \<lparr>ri_threadId = sc_threadId c, ri_source = sc_source c,
              ri_clientRequestId = Some (sc_clientRequestId c), ri_userMessageId = sc_userMessageId c,
              ri_requestedAt = None, ri_outcome = send_outcome c hops\<rparr>)) (\<lambda>run.
     bindG (storeG (write_tracked digest c tracked run)) (\<lambda>_.
     bindG (storeG (bind_settlement settlement (rr_runId run))) (\<lambda>_.
     bindG (storeG (bind_answers c run)) (\<lambda>_.
     bindG (pause_of_send c paused) (finish_send digest c run)))))))"

definition nothing_due :: "send_command \<Rightarrow> store \<Rightarrow> bool" where
  "nothing_due c s = (case sc_bindDelivery c of None \<Rightarrow> False | Some ids \<Rightarrow> deliverable_count ids s = 0)"

definition commit_send ::
  "(string \<Rightarrow> string) \<Rightarrow> (string \<Rightarrow> string) \<Rightarrow> send_command \<Rightarrow> send_delegation option \<Rightarrow> command_answer engine_op" where
  "commit_send digest redact c tracked =
     bindG (queryG (get_paused_run (sc_threadId c))) (\<lambda>paused.
     bindG (readG (send_refusal c paused)) (\<lambda>refusal.
     case refusal of
       Some reason \<Rightarrow> refuse_command (sc_threadId c) reason
     | None \<Rightarrow>
         bindG (case sc_delegation c of None \<Rightarrow> retG () | Some d \<Rightarrow> check_follow_up (sc_threadId c) d) (\<lambda>_.
         bindG (readG (nothing_due c)) (\<lambda>idle.
         if idle then refuse_command (sc_threadId c) ''approvals_already_delivered''
         else admit_send digest redact c tracked paused))))"

section \<open>Stops and steers of one run\<close>

definition steer_refusal :: "control_command \<Rightarrow> store \<Rightarrow> string option" where
  "steer_refusal c s =
     (if cc_actor c = None then None
      else case binding_for_run (cc_runId c) s of
        None \<Rightarrow> Some ''steer_target_not_ready''
      | Some b \<Rightarrow>
          if is_stricter (case cc_ceiling c of None \<Rightarrow> ModeAsk | Some m \<Rightarrow> m) (binding_mode b)
          then Some ''ceiling_exceeded'' else None)"

definition accept_control ::
  "run_command \<Rightarrow> control_command \<Rightarrow> string \<Rightarrow> (string \<times> json) list \<Rightarrow> command_answer engine_op" where
  "accept_control cmd c act details =
     bindG (storeG (case cc_actor c of None \<Rightarrow> retE ()
              | Some actor \<Rightarrow> record_agent_action (cc_threadId c) (Some (cc_runId c)) actor act
                  ((''runId'', JStr (cc_runId c)) # details))) (\<lambda>_.
     bindG (readG (sequence_of (cc_threadId c))) (\<lambda>n.
     bindG (storeG (put_command_receipt cmd Accepted [(''runId'', JStr (cc_runId c)), (''sequence'', JNum n)])) (\<lambda>_.
     retG (CmdAccepted (cc_runId c) n False None None))))"

definition string_null :: "string option \<Rightarrow> json" where
  "string_null v = (case v of None \<Rightarrow> JNull | Some x \<Rightarrow> JStr x)"

definition ignore_control ::
  "run_command \<Rightarrow> control_command \<Rightarrow> run_record option \<Rightarrow> string option \<Rightarrow> command_answer engine_op" where
  "ignore_control cmd c run activeRunId =
     bindG (storeG (modE (append_event (cc_threadId c)
        (if map_option rr_threadId run = Some (cc_threadId c) then Some (cc_runId c) else None) ''command.ignored''
        (EvJson (JObj [(''kind'', JStr (command_kind cmd)), (''runId'', JStr (cc_runId c)),
           (''activeRunId'', string_null activeRunId), (''reason'', JStr ''run_not_active'')]))))) (\<lambda>_.
     bindG (readG (sequence_of (cc_threadId c))) (\<lambda>n.
     bindG (storeG (put_command_receipt cmd Ignored
              [(''runId'', JStr (cc_runId c)), (''activeRunId'', string_null activeRunId),
               (''reason'', JStr ''run_not_active''), (''sequence'', JNum n)])) (\<lambda>_.
     retG (CmdIgnored ''run_not_active'' (Some (cc_runId c)) (Some (string_null activeRunId)) n False))))"

definition commit_control :: "bool \<Rightarrow> run_command \<Rightarrow> control_command \<Rightarrow> command_answer engine_op" where
  "commit_control stop cmd c =
     bindG (readG (get_run (cc_runId c))) (\<lambda>run.
     bindG (queryG (get_active_run (cc_threadId c))) (\<lambda>active.
     let here = map_option rr_threadId run = Some (cc_threadId c) in
     if stop \<and> here \<and> map_option rr_status run = Some RPaused then
       bindG (case (cc_actor c, run) of (Some _, Some r) \<Rightarrow> note_stopped_by_agent r | _ \<Rightarrow> retG ()) (\<lambda>_.
       bindG (end_pause (cc_runId c) (Ends EndStop)) (\<lambda>_. accept_control cmd c ''stopped_run'' []))
     else if \<not> here \<or> map_option rr_runId active \<noteq> Some (cc_runId c) then
       ignore_control cmd c run (map_option rr_runId active)
     else
       bindG (readG (steer_refusal c)) (\<lambda>refusal.
       case (if stop then None else refusal) of
         Some reason \<Rightarrow> refuse_command (cc_threadId c) reason
       | None \<Rightarrow>
           bindG (case run of
                    Some r \<Rightarrow> whenG stop (bindG (storeG (cas_run_outcome (cc_runId c) (int (rr_epoch r))
                        (empty_outcome\<lparr>oc_stopRequested := Some True,
                           oc_stopRequestedByAgent := (if cc_actor c \<noteq> None then Some () else None)\<rparr>))) rememberG)
                  | None \<Rightarrow> retG ()) (\<lambda>_.
           accept_control cmd c (if stop then ''stopped_run'' else ''steered_run'')
             (json_member ''length'' (if stop then None else map_option (\<lambda>n. JNum (int n)) (cc_textLength c)))))))"

section \<open>Deciding a command\<close>

text \<open>A Stop that lost a race is refused; every other error is the caller's.\<close>

definition stop_race :: "string \<Rightarrow> command_answer engine_op \<Rightarrow> command_answer engine_op" where
  "stop_race threadId m ep s =
     (case m ep s of
        (Inl (EngineFail StaleWrite), ep1) \<Rightarrow> (Inr (CmdRejected ''stale_write'' (sequence_of threadId s) False, s), ep1)
      | r \<Rightarrow> r)"

definition admitted :: "engine_error option \<Rightarrow> unit engine_op" where
  "admitted admit = (case admit of None \<Rightarrow> retG () | Some e \<Rightarrow> failG e)"

definition carry_out ::
  "(string \<Rightarrow> string) \<Rightarrow> (string \<Rightarrow> string) \<Rightarrow> (string \<Rightarrow> bool) \<Rightarrow> run_command \<Rightarrow> command_answer engine_op" where
  "carry_out digest redact thread_live cmd =
     (case cmd of
        SendCommand c \<Rightarrow> bindG (queryG (tracked_follow_up thread_live c)) (commit_send digest redact c)
      | StopCommand c \<Rightarrow> stop_race (cc_threadId c) (commit_control True cmd c)
      | SteerCommand c \<Rightarrow> commit_control False cmd c)"

definition decide ::
  "(string \<Rightarrow> string) \<Rightarrow> (string \<Rightarrow> string) \<Rightarrow> (string \<Rightarrow> bool) \<Rightarrow> nat option \<Rightarrow> engine_error option \<Rightarrow> run_command \<Rightarrow>
   command_answer engine_op" where
  "decide digest redact thread_live expectedSequence admit cmd ep s =
     (case get_receipt (command_request_id cmd) s of
        Some receipt \<Rightarrow>
          retG (if rc_threadId receipt \<noteq> command_thread cmd \<or> rc_commandKind receipt \<noteq> command_kind cmd \<or>
                   \<not> same_prompt digest cmd receipt
                then CmdRejected ''client_request_id_conflict'' (sequence_of (command_thread cmd) s) False
                else replay receipt)
      | None \<Rightarrow>
          if (\<exists>n \<in> set_option expectedSequence. n \<noteq> max_seq (command_thread cmd) s)
          then retG (CmdRejected ''stale_sequence'' (sequence_of (command_thread cmd) s) False)
          else bindG (admitted admit) (\<lambda>_. carry_out digest redact thread_live cmd)) ep s"

text \<open>A send whose run, receipt and \<open>turn.start\<close> are written together.\<close>

definition send_with_start ::
  "(string \<Rightarrow> string) \<Rightarrow> (string \<Rightarrow> string) \<Rightarrow> (string \<Rightarrow> bool) \<Rightarrow> send_command \<Rightarrow> (string \<Rightarrow> json) \<Rightarrow> command_answer engine_op" where
  "send_with_start digest redact thread_live c payload =
     bindG (decide digest redact thread_live None None (SendCommand c)) (\<lambda>ans.
       case ans of
         CmdAccepted runId n replayed endedPause heldByPause \<Rightarrow>
           if replayed then retG ans
           else bindG (storeG (enqueue \<lparr>ei_effectId = None, ei_threadId = sc_threadId c, ei_runId = Some runId,
                  ei_kind = TurnStart, ei_payload = payload runId, ei_availableAt = None\<rparr>)) (\<lambda>_. retG ans)
       | _ \<Rightarrow> retG ans)"

end
