(* ===== verification/EngineBase.thy ===== *)
theory EngineBase
  imports EngineCommands
begin

text \<open>
  How the operations of the engine are reasoned about: the runs of the combinators, relations that hold of every
  successful run (\<open>every\<close>), and \<open>tame\<close>, what an operation that neither starts nor pauses a run may do to the runs.
\<close>

section \<open>The combinators\<close>

lemma bindG_Inr:
  "bindG m f ep s = (Inr (y, s'), ep') \<longleftrightarrow> (\<exists>x s1 ep1. m ep s = (Inr (x, s1), ep1) \<and> f x ep1 s1 = (Inr (y, s'), ep'))"
  by (auto simp: bindG_def split: prod.splits sum.splits)

lemma bindG_InrE:
  assumes "bindG m f ep s = (Inr (y, s'), ep')"
  obtains x s1 ep1 where "m ep s = (Inr (x, s1), ep1)" "f x ep1 s1 = (Inr (y, s'), ep')"
  using assms unfolding bindG_Inr by blast

lemma bindG_run: "m ep s = (Inr (x, s1), ep1) \<Longrightarrow> bindG m f ep s = f x ep1 s1"
  by (simp add: bindG_def)

lemma bindG_fail: "m ep s = (Inl e, ep1) \<Longrightarrow> bindG m f ep s = (Inl e, ep1)"
  by (simp add: bindG_def)

lemma retG_Inr: "retG x ep s = (Inr (y, s'), ep') \<longleftrightarrow> y = x \<and> s' = s \<and> ep' = ep"
  by (auto simp: retG_def)

lemma failG_Inr: "failG e ep s \<noteq> (Inr r, ep')"
  by (simp add: failG_def)

lemma storeG_Inr: "storeG m ep s = (Inr (x, s'), ep') \<longleftrightarrow> m s = Inr (x, s') \<and> ep' = ep"
  by (cases "m s") (auto simp: storeG_def)

lemma storeG_run: "m s = Inr (x, s') \<Longrightarrow> storeG m ep s = (Inr (x, s'), ep)"
  by (simp add: storeG_def)

lemma readG_Inr: "readG f ep s = (Inr (x, s'), ep') \<longleftrightarrow> x = f s \<and> s' = s \<and> ep' = ep"
  by (auto simp: readG_def)

lemma queryG_Inr: "queryG f ep s = (Inr (x, s'), ep') \<longleftrightarrow> f s = Inr x \<and> s' = s \<and> ep' = ep"
  by (cases "f s") (auto simp: queryG_def)

lemma requireG_Inr: "requireG b e ep s = (Inr (x, s'), ep') \<longleftrightarrow> b \<and> s' = s \<and> ep' = ep"
  by (auto simp: requireG_def retG_Inr failG_Inr)

lemma forgetG_Inr: "forgetG i ep s = (Inr (x, s'), ep') \<longleftrightarrow> s' = s \<and> ep' = AList.delete i ep"
  by (auto simp: forgetG_def)

lemma rememberG_Inr:
  "rememberG r ep s = (Inr (x, s'), ep') \<longleftrightarrow> s' = s \<and>
     ep' = (if map_of ep (rr_runId r) = None then ep else AList.update (rr_runId r) (int (rr_epoch r)) ep)"
  by (auto simp: rememberG_def)

lemmas engine_runs = bindG_Inr retG_Inr failG_Inr storeG_Inr readG_Inr queryG_Inr requireG_Inr forgetG_Inr rememberG_Inr

lemma mark_Inr:
  assumes "mark runId fresh write ep s = (Inr (next, s'), ep')"
  obtains run e ep1 where "get_run runId s = Some run" "int (rr_epoch run) = e"
    "\<not> fresh \<Longrightarrow> e = expected_epoch ep run" "write run e ep s = (Inr (next, s'), ep1)"
    "ep' = (if terminal_run (rr_status next) then AList.delete runId ep1 else AList.update runId (int (rr_epoch next)) ep1)"
  using assms by (auto simp: mark_def Let_def split: option.splits if_splits prod.splits sum.splits)

section \<open>Relations that hold of every run\<close>

definition every :: "(store \<Rightarrow> store \<Rightarrow> bool) \<Rightarrow> 'a engine_op \<Rightarrow> bool" where
  "every R m \<longleftrightarrow> (\<forall>ep s x s' ep'. m ep s = (Inr (x, s'), ep') \<longrightarrow> R s s')"

lemma everyI: "(\<And>ep s x s' ep'. m ep s = (Inr (x, s'), ep') \<Longrightarrow> R s s') \<Longrightarrow> every R m"
  by (auto simp: every_def)

lemma everyD: "every R m \<Longrightarrow> m ep s = (Inr (x, s'), ep') \<Longrightarrow> R s s'"
  unfolding every_def by blast

lemma every_store: "always R m \<Longrightarrow> every R (storeG m)"
  unfolding every_def storeG_Inr by (blast dest: alwaysD)

lemma every_fail: "every R (failG e)"
  by (simp add: every_def failG_Inr)

lemma every_split: "every R m \<Longrightarrow> every R n \<Longrightarrow> every R (if b then m else n)"
  by simp

context preorder_relation
begin

lemma every_pure:
  "every R (retG x)" "every R (readG f)" "every R (queryG q)" "every R (requireG b e)" "every R (forgetG i)"
  "every R (rememberG r)" "every R (require_status run allowed)"
  by (auto simp: every_def engine_runs require_status_def intro: refl)

lemma every_bind: "every R m \<Longrightarrow> (\<And>x. every R (f x)) \<Longrightarrow> every R (bindG m f)"
  unfolding every_def bindG_Inr by (blast intro: trans)

lemma every_when: "every R m \<Longrightarrow> every R (whenG b m)"
  by (simp add: whenG_def every_pure)

lemma every_for:
  assumes "\<And>x. every R (f x)"
  shows "every R (forG xs f)"
  by (induction xs) (simp_all add: every_pure every_bind assms)

lemma every_mark: "(\<And>run e. every R (write run e)) \<Longrightarrow> every R (mark runId fresh write)"
  by (rule everyI) (blast elim: mark_Inr dest: everyD)

end

section \<open>Tame operations\<close>

text \<open>No status becomes active or paused, a terminal one stays.\<close>

definition calmer_status :: "run_status \<Rightarrow> run_status \<Rightarrow> bool" where
  "calmer_status a b \<longleftrightarrow> (active_status b \<longrightarrow> active_status a) \<and> (b = RPaused \<longrightarrow> a = RPaused) \<and>
     (terminal_run a \<longrightarrow> b = a)"

definition calmer_run :: "run_record \<Rightarrow> run_record \<Rightarrow> bool" where
  "calmer_run r r' \<longleftrightarrow> rr_runId r' = rr_runId r \<and> rr_threadId r' = rr_threadId r \<and> rr_ordinal r' = rr_ordinal r \<and>
     rr_source r' = rr_source r \<and> rr_epoch r \<le> rr_epoch r' \<and> calmer_status (rr_status r) (rr_status r')"

text \<open>A run that holds no place in its thread: neither active nor paused.\<close>

definition no_place :: "run_record \<Rightarrow> bool" where
  "no_place r \<longleftrightarrow> \<not> active_status (rr_status r) \<and> rr_status r \<noteq> RPaused"

definition calmer :: "store \<Rightarrow> store \<Rightarrow> bool" where
  "calmer s s' \<longleftrightarrow> (\<exists>old new. runs s' = old @ new \<and> list_all2 calmer_run (runs s) old \<and> list_all no_place new)"

definition tame :: "store \<Rightarrow> store \<Rightarrow> bool" where
  "tame s s' \<longleftrightarrow> calmer s s' \<and> (runs_ok s \<longrightarrow> runs_ok s')"

lemma calmer_status_refl [simp]: "calmer_status a a"
  by (simp add: calmer_status_def)

lemma calmer_run_refl [simp]: "calmer_run r r"
  by (simp add: calmer_run_def)

lemma calmer_status_trans: "calmer_status a b \<Longrightarrow> calmer_status b c \<Longrightarrow> calmer_status a c"
  unfolding calmer_status_def by blast

lemma calmer_run_trans: "calmer_run a b \<Longrightarrow> calmer_run b c \<Longrightarrow> calmer_run a c"
  unfolding calmer_run_def by (auto elim: calmer_status_trans)

lemma calmer_no_place: "calmer_run r r' \<Longrightarrow> no_place r \<Longrightarrow> no_place r'"
  by (auto simp: calmer_run_def calmer_status_def no_place_def)

lemma calmer_news: "list_all2 calmer_run a b \<Longrightarrow> list_all no_place a \<Longrightarrow> list_all no_place b"
  by (induction rule: list_all2_induct) (auto dest: calmer_no_place)

lemma calmer_trans:
  assumes "calmer s s'" "calmer s' s''"
  shows "calmer s s''"
proof -
  obtain old new where 1: "runs s' = old @ new" "list_all2 calmer_run (runs s) old" "list_all no_place new"
    using assms(1) unfolding calmer_def by blast
  obtain old' new' where 2: "runs s'' = old' @ new'" "list_all2 calmer_run (old @ new) old'" "list_all no_place new'"
    using assms(2) unfolding calmer_def 1(1) by blast
  obtain a b where ab: "old' = a @ b" "list_all2 calmer_run old a" "list_all2 calmer_run new b"
    using 2(2) unfolding list_all2_append1 by blast
  have "list_all2 calmer_run (runs s) a"
    by (rule list_all2_trans [OF _ 1(2) ab(2)]) (rule calmer_run_trans)
  moreover have "list_all no_place b" by (rule calmer_news [OF ab(3) 1(3)])
  moreover have "runs s'' = a @ (b @ new')" using 2(1) ab(1) by simp
  ultimately show ?thesis
    unfolding calmer_def using 2(3) by (intro exI [of _ a] exI [of _ "b @ new'"] conjI) simp_all
qed

lemma calmer_runs_refl: "list_all2 calmer_run rows rows"
  by (rule list_all2_refl) (rule calmer_run_refl)

lemma tame_same: "runs s' = runs s \<Longrightarrow> tame s s'"
  unfolding tame_def calmer_def using calmer_runs_refl [of "runs s"]
  by (intro conjI exI [of _ "runs s"] exI [of _ "[]"]) (simp_all add: runs_ok_cong [of s' s])

lemma tame_trans: "tame s s' \<Longrightarrow> tame s' s'' \<Longrightarrow> tame s s''"
  unfolding tame_def using calmer_trans [of s s' s''] by blast

interpretation taming: preorder_relation tame
  by unfold_locales (simp add: tame_same, rule tame_trans)

lemma tame_same_always: "always same_runs m \<Longrightarrow> always tame m"
  by (auto simp: always_def same_runs_def intro: tame_same)

lemma tame_update:
  assumes "runs s' = update_rows P f (runs s)" "\<And>r. r \<in> set (runs s) \<Longrightarrow> P r \<Longrightarrow> calmer_run r (f r)"
  shows "tame s s'"
proof -
  have "list_all2 calmer_run (runs s) (runs s')"
    using assms by (auto simp: update_rows_def list_all2_conv_all_nth)
  moreover have "runs_ok s \<Longrightarrow> runs_ok s'"
  proof -
    have "map rr_runId (runs s') = map rr_runId (runs s)"
      using assms by (auto simp: update_rows_def calmer_run_def)
    then show "runs_ok s \<Longrightarrow> runs_ok s'"
      using assms by (auto simp: runs_ok_def set_update_rows calmer_run_def)
  qed
  moreover have "calmer s s'" if "list_all2 calmer_run (runs s) (runs s')"
    unfolding calmer_def using that by (intro exI [of _ "runs s'"] exI [of _ "[]"]) simp
  ultimately show ?thesis by (simp add: tame_def)
qed

section \<open>The writes of the store\<close>

lemma tame_create_run: "always tame (create_run input)"
proof (rule alwaysI)
  fix s r s' assume run: "create_run input s = Inr (r, s')"
  note new = create_run_Inr [OF run]
  have "calmer s s'"
    unfolding calmer_def using new(1,2)
    by (intro exI [of _ "runs s"] exI [of _ "[r]"]) (simp add: calmer_runs_refl no_place_def active_status_def)
  then show "tame s s'" using runs_ok_create_run run by (auto simp: tame_def)
qed

lemma write_cas_tame:
  assumes w: "write_cas next e s = Inr (x, s')" and t: "require_cas_target runId e s = Inr current"
    and n: "rr_runId next = rr_runId current" "calmer_status (rr_status current) (rr_status next)"
  shows "tame s s'"
proof -
  let ?P = "\<lambda>r. rr_runId r = rr_runId next \<and> int (rr_epoch r) = e"
  from w have one: "changes ?P (runs s) = 1" and rs: "runs s' = update_rows ?P (cas_set next) (runs s)"
    by (auto simp: write_cas_def Let_def split: if_splits)
  have cur: "current \<in> set (runs s)" "?P current"
    using t n(1) by (auto simp: require_cas_target_Inr get_run_def dest: lookup_row_Some)
  show ?thesis
  proof (rule tame_update [OF rs])
    fix r assume "r \<in> set (runs s)" "?P r"
    then have "r = current" using changes_1_unique [OF one] cur by blast
    with n(2) show "calmer_run r (cas_set next r)" by (simp add: calmer_run_def cas_set_def)
  qed
qed

lemma cas_outcome_tame: "always tame (cas_run_outcome runId e oc)"
  by (rule alwaysI) (auto simp: cas_run_outcome_def split: sum.splits elim!: write_cas_tame)

lemma cas_status_tame:
  assumes "cas_run_status runId e st p s = Inr (x, s')"
    and "\<And>r. get_run runId s = Some r \<Longrightarrow> \<not> terminal_run (rr_status r) \<Longrightarrow> calmer_status (rr_status r) st"
  shows "tame s s'"
  using assms by (auto simp: cas_run_status_def require_cas_target_Inr split: sum.splits elim!: write_cas_tame)

lemma terminal_not_active: "terminal_run st \<Longrightarrow> \<not> active_status st \<and> st \<noteq> RPaused"
  by (cases st) (simp_all add: active_status_def)

lemma cas_terminal_tame: "terminal_run st \<Longrightarrow> always tame (cas_run_status runId e st p)"
  by (rule alwaysI, erule cas_status_tame) (auto simp: calmer_status_def dest: terminal_not_active)

lemma write_terminal_run_tame: "terminal_run st \<Longrightarrow> always tame (write_terminal_run r e st oc at text notice)"
  unfolding write_terminal_run_tail
  by (intro taming.always_bind cas_terminal_tame tame_same_always terminal_tail_runs
      same_runs_weaken(2) [OF settle_always(2)] taming.always_ret)

lemma write_terminal_tame: "terminal_run st \<Longrightarrow> always tame (write_terminal r e st oc text notice)"
  using write_terminal_run_tame unfolding always_def write_terminal_def by blast

lemma create_attempt_tame: "always tame (create_attempt runId reason)"
proof (rule alwaysI)
  fix s a s' assume "create_attempt runId reason s = Inr (a, s')"
  from create_attempt_Inr [OF this] show "tame s s'"
    by (elim exE conjE) (erule tame_update, simp add: calmer_run_def)
qed

end
