(* ===== verification/EngineLaws.thy ===== *)
theory EngineLaws
  imports EngineBase
begin

text \<open>
  Every operation of the engine but \<open>markStarting\<close> and \<open>pauseRun\<close> is tame, and those two look first: a thread never
  has two active or two paused runs.
\<close>

section \<open>Operations that leave the runs alone\<close>

lemma effect_write_runs: "always same_runs (effect_write c n)"
  by (auto intro!: alwaysI simp: effect_write_def Let_def bindE_Inr same_runs_def effect_recorded_def split: if_splits
      dest!: settle_txn_publishing publishing_frame(2))

lemma effect_cancel_runs: "always same_runs (effect_cancel i now why by)"
proof (rule alwaysI)
  fix s x s' assume "effect_cancel i now why by s = Inr (x, s')"
  then show "same_runs s s'"
    using alwaysD [OF effect_write_runs]
    by (auto simp: effect_cancel_def settle_effect_def cancel_record_def bindE_Inr same_runs_def split: option.splits if_splits)
qed

lemma enqueue_runs: "always same_runs (enqueue input)"
  by (auto intro!: alwaysI simp: same_runs_def effect_recorded_def dest!: enqueue_Inr(2))

lemma inbox_append_runs: "always same_runs (inbox_append t r k p i)"
  by (auto intro!: alwaysI simp: same_runs_def dest: inbox_append_frame)

lemma set_attempt_runs: "always same_runs (set_attempt_status a st p b c)" "always same_runs (set_attempt_binding a x)"
  by (auto intro!: alwaysI simp: same_runs_def set_attempt_binding_def dest: set_attempt_status_runs split: option.splits)

lemma modE_runs: "(\<And>s. runs (f s) = runs s) \<Longrightarrow> always same_runs (modE f)"
  by (auto intro!: alwaysI simp: same_runs_def)

lemma create_delegation_runs: "always same_runs (create_delegation digest input)"
  by (auto intro!: alwaysI simp: same_runs_def create_delegation_def delegation_recorded_def Let_def split: option.splits if_splits)

lemma put_receipt_runs: "always same_runs (put_receipt rec)"
  by (auto intro!: alwaysI simp: same_runs_def put_receipt_def split: if_splits)

lemma bind_delivery_runs: "always same_runs (bind_delivery ids runId)"
proof -
  have "always same_runs (stamp_delivery r p i)" for r p i
    by (auto intro!: alwaysI simp: same_runs_def stamp_delivery_def Let_def update_approval_def approval_event_def
        split: option.splits if_splits)
  then show ?thesis
    unfolding bind_delivery_def by (intro running.always_loop running.always_ret)
qed

lemma settle_for_send_runs:
  assumes "settle_for_send redact t f who s = Inr (x, s')"
  shows "runs s' = runs s"
proof -
  let ?P = "\<lambda>u. runs u = runs s"
  have row: "keeps ?P (settle_row redact n row ans w d)" for n row ans w d
  proof (induction n arbitrary: row ans w d)
    case (Suc n)
    have enq: "keeps ?P (store_step (enqueue i))" for i
      using alwaysD [OF enqueue_runs] by (auto intro!: keepsI simp: store_step_def same_runs_def split: sum.splits)
    have sib: "keeps ?P (allow_siblings (settle_row redact n) rec w d)" for rec w d
    proof (rule keepsI)
      fix u y u' assume h: "runs u = runs s" "allow_siblings (settle_row redact n) rec w d u = Inr (y, u')"
      have "keeps ?P (allow_sibling (settle_row redact n) w d sb)" for sb
        unfolding allow_sibling_def by (intro keeps_bindE Suc.IH keeps_pure | auto split: option.split)+
      then have "keeps ?P (bindE (forE (siblings_of rec u) (allow_sibling (settle_row redact n) w d)) (\<lambda>xs. retE (somes xs)))"
        by (intro keeps_bindE keeps_forE keeps_pure)
      from keepsD [OF this, of u y u'] h show "runs u' = runs s" by (simp add: allow_siblings_def)
    qed
    have grant: "keeps ?P (\<lambda>u. Inr (grant_rule redact rec u))" for rec
      by (auto intro!: keepsI simp: grant_rule_def Let_def approval_event_def put_rule_def split: option.splits if_splits)
    have deliver: "keeps ?P (deliver_answer rw d b)" for rw d b
      unfolding deliver_answer_def by (intro keeps_if keeps_bindE keeps_whenE keeps_pure enq)
    have after: "keeps ?P (after_answer redact (settle_row redact n) rw rec a w d)" for rw rec a w d
      unfolding after_answer_def Let_def
      by (intro keeps_bindE keeps_modE keeps_if keeps_pure grant sib deliver) (simp add: approval_event_def)
    have upd: "runs (update_approval i c f u) = runs u" for i c f u
      by (simp add: update_approval_def)
    have step: "keeps ?P (pending_step redact (settle_row redact n) rw a w d)" for rw a w d
    proof (rule keepsI)
      fix u y u' assume h: "runs u = runs s" "pending_step redact (settle_row redact n) rw a w d u = Inr (y, u')"
      then show "runs u' = runs s"
        using keepsD [OF after, of rw "answered_row redact rw a w (clock u) rw" a w d _ y u'] keepsD [OF Suc.IH, of _ _ _ _ u y u'] upd
        by (auto simp: pending_step_def Let_def split: option.splits if_splits)
    qed
    show ?case
      by (cases "ap_status row") (simp_all add: settle_step_def step)
  qed simp
  have deny: "keeps ?P (deny_for_send redact n f who row)" for n row
    unfolding deny_for_send_def by (intro keeps_bindE row keeps_pure)
  have all: "keeps ?P (bindE (forE rows (deny_for_send redact n f who)) (\<lambda>outcomes.
      bindE (getE (waiting_answers t)) (\<lambda>waiting.
      retE (SendSettled (distinct_first (somes outcomes @ map ap_requestId waiting)) (somes outcomes)))))" for rows n
    by (intro keeps_bindE keeps_forE keeps_pure deny)
  show ?thesis
    using assms keepsD [OF all, of _ _ s x s'] by (auto simp: settle_for_send_def Let_def split: if_splits)
qed

lemmas run_frames = effect_cancel_runs enqueue_runs inbox_append_runs set_attempt_runs create_delegation_runs
  put_receipt_runs bind_delivery_runs running.always_ret

lemma tame_frames:
  "always tame (effect_cancel i now why by)" "always tame (enqueue input)" "always tame (inbox_append t r k p i')"
  "always tame (set_attempt_status a st pr b c)" "always tame (set_attempt_binding a x)"
  "always tame (create_delegation digest di)" "always tame (put_receipt rec)" "always tame (bind_delivery ids runId)"
  "always tame (set_delegation_status settle_hold d st1 st2 res at)" "always tame (mark_acknowledged rows)"
  by (intro tame_same_always run_frames same_runs_weaken(2) status_owners moves_always)+

lemma tame_mod: "(\<And>s. runs (f s) = runs s) \<Longrightarrow> always tame (modE f)"
  by (intro tame_same_always modE_runs)

text \<open>An operation that looks at its state and then is one of tame operations.\<close>

lemma always_look:
  assumes "\<And>u. always R (m u)"
  shows "always R (\<lambda>s. m s s)"
  using assms by (auto simp: always_def)

lemma every_look:
  assumes "\<And>u. every R (m u)"
  shows "every R (\<lambda>ep s. m s ep s)"
  using assms unfolding every_def by blast

lemma cancel_effects_tame: "always tame (cancel_effects es reason)"
proof -
  have "always tame (bindE (forE es (\<lambda>e. effect_cancel (ef_effectId e) now reason None)) (\<lambda>_. retE ()))" for now
    by (intro taming.always_loop tame_frames taming.always_ret)
  then have "always tame (\<lambda>s. bindE (forE es (\<lambda>e. effect_cancel (ef_effectId e) (clock s) reason None)) (\<lambda>_. retE ()) s)"
    by (rule always_look)
  then show ?thesis by (simp add: cancel_effects_def [abs_def])
qed

section \<open>Every operation that is tame\<close>

lemma update_pause_tame: "every tame (update_pause runId patch)"
proof (rule everyI)
  fix ep s x s' ep' assume run: "update_pause runId patch ep s = (Inr (x, s'), ep')"
  have m: "every tame (bindG (storeG (cas_run_outcome runId e oc)) (\<lambda>next. bindG (rememberG next) (\<lambda>_. retG next)))" for e oc
    by (intro taming.every_bind every_store cas_outcome_tame taming.every_pure)
  show "tame s s'"
    using run everyD [OF m] by (auto simp: update_pause_def failG_Inr split: option.splits)
qed

lemma end_pause_tame: "every tame (end_pause runId by0)"
proof (rule everyI)
  fix ep s x s' ep' assume run: "end_pause runId by0 ep s = (Inr (x, s'), ep')"
  have m: "every tame (bindG (storeG (cancel_effects es why)) (\<lambda>_. (case by0 of
       Stale \<Rightarrow> update_pause runId p
     | Ends by1 \<Rightarrow> bindG (storeG (write_terminal run e (if hands_over by1 then RInterrupted else RCancelled) (oc by1) None None))
         (\<lambda>next. bindG (forgetG runId) (\<lambda>_. retG next)))))" for es why p run e oc
    by (intro taming.every_bind every_store cancel_effects_tame)
      (cases by0, simp_all add: update_pause_tame taming.every_bind every_store write_terminal_tame taming.every_pure)
  show "tame s s'"
    using run everyD [OF m] by (auto simp: end_pause_def failG_Inr split: option.splits)
qed

lemma enqueue_resume_tame: "always tame (enqueue_resume run until at manual)"
  unfolding enqueue_resume_def by (rule tame_frames)

lemma request_resume_tame: "every tame (request_resume runId manual)"
proof (rule everyI)
  fix ep s x s' ep' assume run: "request_resume runId manual ep s = (Inr (x, s'), ep')"
  have m: "every tame (bindG (storeG (cancel_effects es why)) (\<lambda>_. storeG (enqueue_resume r u a b)))" for es why r u a b
    by (intro taming.every_bind every_store cancel_effects_tame enqueue_resume_tame)
  show "tame s s'"
    using run everyD [OF m] everyD [OF taming.every_pure(1)]
    by (auto simp: request_resume_def failG_Inr split: option.splits if_splits)
qed

lemma active_moves_tame:
  assumes "cas_run_status (rr_runId run) e st p s = Inr (x, s')" "get_run runId s = Some run"
    and "active_status (rr_status run)" "active_status st"
  shows "tame s s'"
proof (rule cas_status_tame [OF assms(1)])
  fix r assume "get_run (rr_runId run) s = Some r"
  moreover have "rr_runId run = runId" using assms(2) by (auto simp: get_run_def dest: lookup_row_Some)
  ultimately have "r = run" using assms(2) by simp
  then show "calmer_status (rr_status r) st"
    using assms(3,4) by (auto simp: calmer_status_def active_status_def)
qed

lemma mark_finalizing_tame: "every tame (mark_finalizing runId)"
proof (rule everyI)
  fix ep s x s' ep' assume "mark_finalizing runId ep s = (Inr (x, s'), ep')"
  then show "tame s s'"
    unfolding mark_finalizing_def
    by (rule mark_Inr) (auto simp: engine_runs require_status_def active_status_def elim!: active_moves_tame)
qed

lemma marked_active:
  assumes w: "bindG (require_status r allowed) (\<lambda>_. bindG (storeG (cas_run_status (rr_runId r) e st p)) f) ep s = (Inr (x, s'), ep1)"
    and r: "get_run runId s = Some r" "list_all active_status allowed" "active_status st" and f: "\<And>n. every tame (f n)"
  shows "tame s s'"
proof -
  from w obtain n s1 where c: "cas_run_status (rr_runId r) e st p s = Inr (n, s1)" "f n ep s1 = (Inr (x, s'), ep1)"
    "rr_status r \<in> set allowed"
    by (auto simp: engine_runs require_status_def)
  have "tame s s1"
    by (rule active_moves_tame [OF c(1) r(1)]) (use c(3) r(2,3) in \<open>auto simp: list_all_iff\<close>)
  then show ?thesis using everyD [OF f c(2)] by (rule tame_trans)
qed

lemma mark_running_tame: "every tame (mark_running runId)"
proof (rule everyI)
  fix ep s x s' ep' assume run: "mark_running runId ep s = (Inr (x, s'), ep')"
  let ?tail = "\<lambda>nx. bindG (case rr_activeAttemptId nx of None \<Rightarrow> retG () | Some a \<Rightarrow> if a = [] then retG ()
      else bindG (readG clock) (\<lambda>now. bindG (storeG (set_attempt_status a ARunning None (Some (Some now)) None)) (\<lambda>_. retG ())))
      (\<lambda>_. retG nx)"
  have tail: "every tame (?tail nx)" for nx
    by (cases "rr_activeAttemptId nx") (auto intro!: taming.every_bind taming.every_pure every_store tame_frames)
  from run show "tame s s'"
    unfolding mark_running_def
    by (rule mark_Inr, elim marked_active) (auto simp: active_status_def tail)
qed

lemma mark_terminal_tame: "terminal_run st \<Longrightarrow> every tame (mark_terminal_run runId st oc text notice)"
  unfolding mark_terminal_run_def
  by (intro taming.every_mark taming.every_bind taming.every_pure every_store write_terminal_tame)

lemma record_tame:
  "every tame (record_provider_ref runId ref)" "every tame (record_execution_binding runId binding)"
  "every tame (record_access_grant runId level)"
proof -
  have s: "every tame (storeG (set_attempt_status a st p b c))" "every tame (storeG (set_attempt_binding a j))" for a st p b c j
    by (intro every_store tame_frames)+
  show "every tame (record_provider_ref runId ref)"
    by (rule everyI) (auto simp: record_provider_ref_def failG_Inr split: option.splits if_splits dest: everyD [OF s(1)])
  show "every tame (record_execution_binding runId binding)"
    by (rule everyI) (auto simp: record_execution_binding_def failG_Inr split: option.splits if_splits dest: everyD [OF s(2)])
  show "every tame (record_access_grant runId level)"
  proof (rule everyI)
    fix ep s x s' ep' assume "record_access_grant runId level ep s = (Inr (x, s'), ep')"
    then have "set_run_access_grant runId level s = (x, s')" by (simp add: record_access_grant_def)
    from set_run_access_grant_runs [OF this] show "tame s s'"
      by (auto intro: tame_same elim!: tame_update simp: calmer_run_def)
  qed
qed

section \<open>A Stop is tame\<close>

lemma wakes_tame: "always tame (cancel_acknowledged_wakes_in now t)"
proof -
  have w: "always tame (cancel_wake_run now runId)" for runId
  proof (rule alwaysI)
    fix s x s' assume "cancel_wake_run now runId s = Inr (x, s')"
    then show "tame s s'"
      using alwaysD [OF write_terminal_run_tame [of RCancelled]] tame_same [of s s]
      by (auto simp: cancel_wake_run_def bindE_Inr split: option.splits if_splits)
  qed
  have steps: "always tame (bindE (effect_cancel (ef_effectId e) now why None) (\<lambda>_.
      bindE (cancel_wake_run now (payload_run_id (ef_payload e))) (\<lambda>_. bindE (modE (wake_cancelled e [])) (\<lambda>_. retE y))))" for e why y
    by (intro taming.always_bind tame_frames w tame_mod taming.always_ret) (simp add: wake_cancelled_def)
  then have one: "always tame (cancel_one_wake now e)" for e
    by (auto intro!: alwaysI simp: cancel_one_wake_def split: if_splits dest: alwaysD [OF steps] intro: tame_same)
  have "always tame (\<lambda>s. if all_acknowledged e s then cancel_one_wake now e s else Inr (None, s))" for e
    by (auto intro!: alwaysI split: if_splits dest: alwaysD [OF one] intro: tame_same)
  then have "always tame (bindE (forE es (\<lambda>e s. if all_acknowledged e s then cancel_one_wake now e s else Inr (None, s))) (\<lambda>rs. retE (somes rs)))" for es
    by (intro taming.always_loop taming.always_ret)
  then show ?thesis by (auto simp: always_def cancel_acknowledged_wakes_in_def)
qed

lemma stop_store_tame:
  "always tame (stop_delegation threads requester d)" "always tame (acknowledge_thread t)"
  "always tame (put_stop_receipt key kind t ans)" "always tame (record_agent_action t r actor act details)"
  "always tame (enqueue_interrupt t i)" "always tame (\<lambda>s. Inr (bump_stop_generations ts s))"
proof -
  have "always tame (bindE (whenE b (bindE (inbox_append t r k p i) (\<lambda>_. retE ()))) (\<lambda>_.
      bindE (set_delegation_status settle_hold i' DRunning DCancelled None at) (\<lambda>_. retE ())))" for b t r k p i i' at
    by (intro taming.always_bind taming.always_when tame_frames taming.always_ret)
  then show "always tame (stop_delegation threads requester d)"
    by (simp add: always_def stop_delegation_def)
  have "always tame (bindE (mark_acknowledged ids) (\<lambda>_. bindE (cancel_acknowledged_wakes_in now t) (\<lambda>_. retE y)))" for ids now t y
    by (intro taming.always_bind tame_frames wakes_tame taming.always_ret)
  then show "always tame (acknowledge_thread t)"
    using alwaysD by (intro alwaysI) (fastforce simp: acknowledge_thread_def Let_def)
  have "always tame (bindE (put_receipt rec) (\<lambda>_. retE ()))" for rec
    by (intro taming.always_bind tame_frames taming.always_ret)
  then show "always tame (put_stop_receipt key kind t ans)"
    using tame_same by (auto simp: always_def put_stop_receipt_def split: option.splits)
  show "always tame (record_agent_action t r actor act details)"
    unfolding record_agent_action_def by (rule tame_mod) simp
  show "always tame (enqueue_interrupt t i)"
    unfolding enqueue_interrupt_def by (intro taming.always_bind tame_frames taming.always_ret)
  show "always tame (\<lambda>s. Inr (bump_stop_generations ts s))"
    by (auto simp: always_def intro!: tame_same dest: bump_stop_generations_Pair)
qed

lemma cancel_queued_tame: "every tame (cancel_queued_run run reason oc)"
proof (rule everyI)
  fix ep s x s' ep' assume h: "cancel_queued_run run reason oc ep s = (Inr (x, s'), ep')"
  have m: "every tame (bindG (storeG (cancel_effects es why)) (\<lambda>_. bindG (storeG (write_terminal c e RCancelled o1 None None)) (\<lambda>_.
      bindG (forgetG i) (\<lambda>_. retG y))))" for es why c e o1 i y
    by (intro taming.every_bind every_store cancel_effects_tame write_terminal_tame taming.every_pure) simp
  show "tame s s'"
    using h everyD [OF m] tame_same
    by (auto simp: cancel_queued_run_def Let_def retG_Inr split: option.splits if_splits)
qed

lemma note_tame: "every tame (note_stopped_by_agent run)"
  unfolding note_stopped_by_agent_def
  by (intro every_split taming.every_bind every_store cas_outcome_tame taming.every_pure)

lemma stop_active_tame: "every tame (stop_active_run q run)"
  unfolding stop_active_run_def
  by (intro taming.every_bind taming.every_when every_store cas_outcome_tame taming.every_pure cancel_effects_tame stop_store_tame)

lemma stop_run_tame: "every tame (stop_run q run)"
  unfolding stop_run_def
  by (intro every_split taming.every_bind taming.every_when note_tame end_pause_tame taming.every_pure cancel_queued_tame stop_active_tame)
    (simp add: taming.every_pure split: prod.split)

lemma perform_stop_tame: "every tame (perform_stop q)"
proof -
  have actor: "always tame (case a of None \<Rightarrow> retE () | Some actor \<Rightarrow> record_agent_action t r actor act details)" for a t r act details
    by (cases a) (simp_all add: taming.always_ret stop_store_tame)
  show ?thesis
    unfolding perform_stop_def Let_def
    by (intro taming.every_bind taming.every_pure every_store taming.always_forE taming.every_for stop_store_tame stop_run_tame actor)
qed

lemma stop_subtree_tame: "every tame (stop_subtree q)"
proof (rule everyI)
  fix ep s x s' ep' assume h: "stop_subtree q ep s = (Inr (x, s'), ep')"
  have ign: "every tame (ignore_stop q a ans)" for a ans
    unfolding ignore_stop_def
    by (intro taming.every_bind every_store tame_mod stop_store_tame taming.every_pure) simp
  show "tame s s'"
    using h everyD [OF perform_stop_tame] everyD [OF ign] tame_same
    by (auto simp: stop_subtree_def retG_Inr split: option.splits)
qed

end
