(* ===== verification/EngineSlots.thy ===== *)
theory EngineSlots
  imports EngineLaws
begin

text \<open>
  Commands are tame, and with them everything but the start and the pause of a run: so over every sequence of
  operations of the engine, and of whatever else writes the run store tamely, a thread has at most one active and at
  most one paused run.
\<close>

section \<open>Commands\<close>

lemma refuse_tame: "every tame (refuse_command t reason)"
  unfolding refuse_command_def by (intro taming.every_bind taming.every_pure)

lemma check_follow_up_tame: "every tame (check_follow_up t d)"
  by (rule everyI)
    (auto simp: check_follow_up_def failG_Inr retG_Inr split: if_splits option.splits intro: tame_same)

lemma settle_for_command_tame: "every tame (settle_for_command redact c)"
proof (rule everyI)
  fix ep s x s' ep' assume run: "settle_for_command redact c ep s = (Inr (x, s'), ep')"
  show "tame s s'"
  proof (cases "sc_settleApprovals c")
    case None
    with run show ?thesis by (simp add: settle_for_command_def retG_Inr tame_same)
  next
    case (Some fw)
    then obtain f who where fw: "sc_settleApprovals c = Some (f, who)" by (cases fw) simp
    obtain y where "settle_for_send redact (sc_threadId c) f who s = Inr (y, s')"
      using run fw by (cases "settle_for_send redact (sc_threadId c) f who s") (auto simp: settle_for_command_def)
    then show ?thesis by (intro tame_same settle_for_send_runs)
  qed
qed

lemma pause_of_send_tame: "every tame (pause_of_send c paused)"
  by (cases paused) (simp_all add: pause_of_send_def taming.every_pure taming.every_bind end_pause_tame)

lemma receipt_tame: "always tame (put_command_receipt cmd st result)"
proof -
  have "always tame (bindE (put_receipt rec) (\<lambda>_. retE ()))" for rec
    by (intro taming.always_bind tame_frames taming.always_ret)
  from alwaysD [OF this] show ?thesis by (auto intro!: alwaysI simp: put_command_receipt_def)
qed

lemma actor_tame:
  "always tame (case a of None \<Rightarrow> retE () | Some actor \<Rightarrow> record_agent_action t r actor act details)"
  by (cases a) (simp_all add: taming.always_ret stop_store_tame)

lemma finish_send_tame: "every tame (finish_send digest c run pauses)"
  unfolding finish_send_def by (intro taming.every_bind every_store actor_tame receipt_tame taming.every_pure)

lemma send_parts_tame:
  "always tame (write_tracked digest c tracked run)" "always tame (bind_settlement st r)" "always tame (bind_answers c run)"
  "every tame (carried_hops c)"
proof -
  have del: "always tame (bindE (create_delegation digest i) (\<lambda>_. retE ()))" for i
    by (intro taming.always_bind tame_frames taming.always_ret)
  show "always tame (write_tracked digest c tracked run)"
    by (auto intro!: alwaysI simp: write_tracked_def split: option.splits dest: alwaysD [OF del] intro: tame_same)
  have bind: "always tame (whenE b (bindE (bind_delivery ids r) (\<lambda>_. retE ())))" for b ids r
    by (intro taming.always_when taming.always_bind tame_frames taming.always_ret)
  show "always tame (bind_settlement st r)"
    unfolding bind_settlement_def by (simp add: taming.always_ret bind split: option.split send_settlement.split)
  show "always tame (bind_answers c run)"
    unfolding bind_answers_def by (simp add: taming.always_ret bind split: option.split)
  show "every tame (carried_hops c)"
    unfolding carried_hops_def by (intro every_split taming.every_pure)
qed

lemma commit_send_tame: "every tame (commit_send digest redact c tracked)"
proof -
  have follow: "every tame (case d of None \<Rightarrow> retG () | Some d \<Rightarrow> check_follow_up t d)" for d t
    by (cases d) (simp_all add: taming.every_pure check_follow_up_tame)
  have admit: "every tame (admit_send digest redact c tracked paused)" for paused
    unfolding admit_send_def
    by (intro taming.every_bind every_store settle_for_command_tame send_parts_tame tame_create_run pause_of_send_tame finish_send_tame)
  have body: "every tame (case refusal of Some reason \<Rightarrow> refuse_command t reason
     | None \<Rightarrow> bindG (case d of None \<Rightarrow> retG () | Some d \<Rightarrow> check_follow_up t d) (\<lambda>_. bindG (readG (nothing_due c)) (\<lambda>idle.
         if idle then refuse_command t why else admit_send digest redact c tracked paused)))" for refusal t d why paused
    by (cases refusal) (simp_all add: refuse_tame taming.every_bind follow taming.every_pure admit every_split)
  show ?thesis
    unfolding commit_send_def by (intro taming.every_bind taming.every_pure body)
qed

lemma accept_control_tame: "every tame (accept_control cmd c act details)"
  unfolding accept_control_def by (intro taming.every_bind every_store actor_tame receipt_tame taming.every_pure)

lemma ignore_control_tame: "every tame (ignore_control cmd c run active)"
  unfolding ignore_control_def by (intro taming.every_bind every_store tame_mod receipt_tame taming.every_pure) simp

lemma commit_control_tame: "every tame (commit_control stop cmd c)"
proof -
  have noted: "every tame (case (a, r) of (Some _, Some r) \<Rightarrow> note_stopped_by_agent r | _ \<Rightarrow> retG ())" for a r
    by (cases a; cases r) (simp_all add: note_tame taming.every_pure)
  have ask: "every tame (case r of Some r \<Rightarrow> whenG b (bindG (storeG (cas_run_outcome i (int (rr_epoch r)) oc)) rememberG) | None \<Rightarrow> retG ())"
    for r b i oc
    by (cases r) (simp_all add: taming.every_pure taming.every_when taming.every_bind every_store cas_outcome_tame)
  have body: "every tame (case refusal of Some reason \<Rightarrow> refuse_command t reason
      | None \<Rightarrow> bindG (case r of Some r \<Rightarrow> whenG b (bindG (storeG (cas_run_outcome i (int (rr_epoch r)) oc)) rememberG) | None \<Rightarrow> retG ())
          (\<lambda>_. accept_control cmd c act details))" for refusal t r b i oc act details
    by (cases refusal) (simp_all add: refuse_tame taming.every_bind ask accept_control_tame)
  show ?thesis
    unfolding commit_control_def Let_def
    by (intro taming.every_bind taming.every_pure every_split noted end_pause_tame accept_control_tame ignore_control_tame body)
qed

lemma decide_tame: "every tame (decide digest redact there expected admit cmd)"
proof (rule everyI)
  fix ep s x s' ep' assume run: "decide digest redact there expected admit cmd ep s = (Inr (x, s'), ep')"
  have race: "every tame (stop_race t m)" if "every tame m" for t m
  proof (rule everyI)
    fix ep s x s' ep' assume h: "stop_race t m ep s = (Inr (x, s'), ep')"
    obtain r ep1 where m: "m ep s = (r, ep1)" by force
    show "tame s s'"
    proof (cases r)
      case (Inl e)
      with h m show ?thesis
        by (auto simp: stop_race_def tame_same split: engine_error.splits store_error.splits)
    next
      case (Inr p)
      with h m have "m ep s = (Inr (x, s'), ep')" by (auto simp: stop_race_def)
      then show ?thesis by (rule everyD [OF that])
    qed
  qed
  have out: "every tame (carry_out digest redact there cmd)"
    unfolding carry_out_def
    by (cases cmd) (simp_all add: taming.every_bind taming.every_pure commit_send_tame commit_control_tame race)
  have adm: "every tame (admitted admit)"
    by (cases admit) (simp_all add: admitted_def taming.every_pure every_fail)
  have "every tame (bindG (admitted admit) (\<lambda>_. carry_out digest redact there cmd))"
    by (intro taming.every_bind adm out)
  from everyD [OF this] run show "tame s s'"
    by (auto simp: decide_def retG_Inr split: option.splits if_splits intro: tame_same)
qed

lemma send_with_start_tame: "every tame (send_with_start digest redact there c payload)"
proof -
  have start: "every tame (case ans of CmdAccepted r n rep a b \<Rightarrow> if rep then retG ans
      else bindG (storeG (enqueue (i r))) (\<lambda>_. retG ans) | _ \<Rightarrow> retG ans)" for ans i
    by (cases ans) (simp_all add: taming.every_pure taming.every_bind every_store tame_frames)
  show ?thesis
    unfolding send_with_start_def by (intro taming.every_bind decide_tame start)
qed

section \<open>The places of a thread\<close>

definition places :: "(run_status \<Rightarrow> bool) \<Rightarrow> string \<Rightarrow> store \<Rightarrow> nat" where
  "places P t s = length (filter (\<lambda>r. rr_threadId r = t \<and> P (rr_status r)) (runs s))"

text \<open>A run that is active or paused holds the place of its thread.\<close>

definition holds_place :: "run_status \<Rightarrow> bool" where
  "holds_place st \<longleftrightarrow> active_status st \<or> st = RPaused"

definition slots_ok :: "store \<Rightarrow> bool" where
  "slots_ok s \<longleftrightarrow> list_all (\<lambda>r. places holds_place (rr_threadId r) s \<le> 1) (runs s)"

lemma slots_ok_iff: "slots_ok s \<longleftrightarrow> (\<forall>t. places holds_place t s \<le> 1)"
proof
  assume ok: "slots_ok s"
  show "\<forall>t. places holds_place t s \<le> 1"
  proof
    fix t
    show "places holds_place t s \<le> 1"
    proof (cases "\<exists>r \<in> set (runs s). rr_threadId r = t")
      case True
      with ok show ?thesis by (auto simp: slots_ok_def list_all_iff)
    next
      case False
      then show ?thesis by (auto simp: places_def filter_empty_conv)
    qed
  qed
qed (simp add: slots_ok_def list_all_iff)

text \<open>A thread's place is held by its active run or by its paused one.\<close>

lemma holders: "places holds_place t s = places active_status t s + places (\<lambda>st. st = RPaused) t s"
proof -
  have "length (filter (\<lambda>r. rr_threadId r = t \<and> holds_place (rr_status r)) rows) =
      length (filter (\<lambda>r. rr_threadId r = t \<and> active_status (rr_status r)) rows) +
      length (filter (\<lambda>r. rr_threadId r = t \<and> rr_status r = RPaused) rows)" for rows
    by (induction rows) (auto simp: holds_place_def active_status_def)
  then show ?thesis by (simp add: places_def)
qed

lemma calmer_places:
  assumes "calmer s s'" "P = active_status \<or> P = (\<lambda>st. st = RPaused) \<or> P = holds_place"
  shows "places P t s' \<le> places P t s"
proof -
  obtain old new where o: "runs s' = old @ new" "list_all2 calmer_run (runs s) old" "list_all no_place new"
    using assms(1) unfolding calmer_def by blast
  let ?c = "\<lambda>rows. length (filter (\<lambda>r. rr_threadId r = t \<and> P (rr_status r)) rows)"
  have "?c b \<le> ?c a" if "list_all2 calmer_run a b" for a b
    using that
  proof (induction rule: list_all2_induct)
    case (Cons x xs y ys)
    then show ?case using assms(2) by (auto simp: calmer_run_def calmer_status_def holds_place_def)
  qed simp
  from this [OF o(2)] have "?c old \<le> ?c (runs s)" .
  moreover have "?c new = 0"
    using o(3) assms(2) by (auto simp: filter_empty_conv list_all_iff no_place_def holds_place_def)
  ultimately show ?thesis by (simp add: places_def o(1))
qed

lemma tame_places: "tame s s' \<Longrightarrow> places holds_place t s' \<le> places holds_place t s"
  using calmer_places by (auto simp: tame_def)

lemma tame_slots: "tame s s' \<Longrightarrow> slots_ok s \<Longrightarrow> slots_ok s'"
  unfolding slots_ok_iff by (blast intro: le_trans [OF tame_places])

lemma tame_runs_ok: "tame s s' \<Longrightarrow> runs_ok s \<Longrightarrow> runs_ok s'"
  by (simp add: tame_def)

lemma tame_get:
  assumes "tame s s'" "get_run i s = Some r"
  shows "\<exists>r'. get_run i s' = Some r' \<and> calmer_run r r'"
proof -
  obtain old new where o: "runs s' = old @ new" "list_all2 calmer_run (runs s) old"
    using assms(1) unfolding tame_def calmer_def by blast
  have "\<exists>r'. lookup_row rr_runId i (b @ new) = Some r' \<and> calmer_run r r'"
    if "list_all2 calmer_run a b" "lookup_row rr_runId i a = Some r" for a b
    using that by (induction rule: list_all2_induct) (auto simp: lookup_row_def calmer_run_def split: if_splits)
  from this [OF o(2)] assms(2) o(1) show ?thesis by (simp add: get_run_def)
qed

text \<open>One run moves: it leaves its old place and takes its new one.\<close>

lemma filter_replaced:
  assumes "distinct rows" "r \<in> set rows"
  shows "length (filter Q (map (\<lambda>x. if x = r then n else x) rows)) + (if Q r then 1 else 0) =
    length (filter Q rows) + (if Q n then 1 else 0)"
  using assms
proof (induction rows)
  case (Cons x rows)
  show ?case
  proof (cases "x = r")
    case True
    with Cons.prems have "map (\<lambda>x. if x = r then n else x) rows = rows" by (auto intro: map_idI)
    with True show ?thesis by simp
  qed (use Cons in auto)
qed simp

lemma places_move:
  assumes ok: "runs_ok s" and c: "cas_run_status runId e st p s = Inr (next, s')" and r: "get_run runId s = Some r"
  shows "places P t s' + (if t = rr_threadId r \<and> P (rr_status r) then 1 else 0) =
      places P t s + (if t = rr_threadId r \<and> P st then 1 else 0)" "runs_ok s'" "rr_threadId next = rr_threadId r"
proof -
  obtain r' where r': "get_run runId s = Some r'" "rr_threadId next = rr_threadId r'" "rr_runId next = rr_runId r'"
    "rr_ordinal next = rr_ordinal r'" "rr_status next = st"
    "runs s' = map (\<lambda>x. if x = r' then next else x) (runs s)"
    by (rule cas_run_status_Inr [OF c ok]) simp
  with r have [simp]: "r' = r" by simp
  have d: "distinct (runs s)" using runs_okD(1) [OF ok] by (simp add: distinct_map)
  have "r \<in> set (runs s)" using r by (auto simp: get_run_def dest: lookup_row_Some)
  from filter_replaced [OF d this, of "\<lambda>x. rr_threadId x = t \<and> P (rr_status x)" "next"]
  show "places P t s' + (if t = rr_threadId r \<and> P (rr_status r) then 1 else 0) =
      places P t s + (if t = rr_threadId r \<and> P st then 1 else 0)"
    using r' by (simp add: places_def eq_commute cong: if_cong)
  have "map rr_runId (runs s') = map rr_runId (runs s)" using r'(3,6) by simp
  moreover have "\<forall>x \<in> set (runs s'). rr_runId x = run_id (rr_threadId x) (rr_ordinal x)"
    using ok r'(2-4) by (auto simp: runs_ok_def r'(6))
  ultimately show "runs_ok s'" using ok by (simp add: runs_ok_def)
  show "rr_threadId next = rr_threadId r" using r'(2) by simp
qed

lemma only_run_None: "only_run P t s = Inr None \<longleftrightarrow> \<not> (\<exists>r \<in> set (runs s). rr_threadId r = t \<and> P r)"
proof -
  have "take 2 (sort_key rr_ordinal xs) = [] \<longleftrightarrow> xs = []" for xs :: "run_record list"
    by (metis length_sort length_0_conv list.size(3) take_eq_Nil zero_neq_numeral)
  from this [of "filter (\<lambda>r. rr_threadId r = t \<and> P r) (runs s)"] show ?thesis
    by (auto simp: only_run_def filter_empty_conv split: list.splits)
qed

lemma no_places: "places P t s = 0 \<longleftrightarrow> \<not> (\<exists>r \<in> set (runs s). rr_threadId r = t \<and> P (rr_status r))"
  by (auto simp: places_def filter_empty_conv)

lemma only_run_Some: "only_run P t s = Inr (Some r) \<Longrightarrow> r \<in> set (runs s) \<and> rr_threadId r = t \<and> P r"
proof -
  assume "only_run P t s = Inr (Some r)"
  then have "take 2 (sort_key rr_ordinal (filter (\<lambda>r. rr_threadId r = t \<and> P r) (runs s))) = [r]"
    by (auto simp: only_run_def split: list.splits)
  then have "r \<in> set (sort_key rr_ordinal (filter (\<lambda>r. rr_threadId r = t \<and> P r) (runs s)))"
    by (metis in_set_takeD list.set_intros(1))
  then show ?thesis by simp
qed

lemma only_run_defined:
  assumes "length (filter (\<lambda>r. rr_threadId r = t \<and> P r) (runs s)) \<le> 1"
  shows "\<not> isl (only_run P t s)"
proof -
  obtain xs where xs: "sort_key rr_ordinal (filter (\<lambda>r. rr_threadId r = t \<and> P r) (runs s)) = xs" "length xs \<le> 1"
    using assms by simp
  then show ?thesis by (cases xs) (auto simp: only_run_def)
qed

lemma slots_found: "slots_ok s \<Longrightarrow> \<not> isl (get_active_run t s) \<and> \<not> isl (get_paused_run t s)"
  unfolding get_active_run_def get_paused_run_def
proof (intro conjI only_run_defined)
  assume ok: "slots_ok s"
  then have "places active_status t s + places (\<lambda>st. st = RPaused) t s \<le> 1"
    unfolding slots_ok_iff holders by blast
  then show "length (filter (\<lambda>r. rr_threadId r = t \<and> active_status (rr_status r)) (runs s)) \<le> 1"
    "length (filter (\<lambda>r. rr_threadId r = t \<and> rr_status r = RPaused) (runs s)) \<le> 1"
    by (simp_all add: places_def)
qed

section \<open>Starting and pausing\<close>

lemma engine_slotsI:
  assumes ok: "runs_ok s" "slots_ok s" and c: "cas_run_status runId e st p s = Inr (next, s')" and r: "get_run runId s = Some r"
    and free: "holds_place (rr_status r) \<or> places holds_place (rr_threadId r) s = 0"
  shows "runs_ok s' \<and> slots_ok s'"
proof
  show "runs_ok s'" by (rule places_move(2) [OF ok(1) c r])
  have "places holds_place t s' \<le> 1" for t
  proof -
    have "places holds_place t s \<le> 1" using ok(2) by (simp add: slots_ok_iff)
    with places_move(1) [OF ok(1) c r, of holds_place t] free show ?thesis by (auto split: if_splits)
  qed
  then show "slots_ok s'" by (simp add: slots_ok_iff)
qed

lemma found_run_id: "get_run i s = Some r \<Longrightarrow> rr_runId r = i \<and> r \<in> set (runs s)"
  by (auto simp: get_run_def dest: lookup_row_Some)

lemma get_active_None: "runs_ok s \<Longrightarrow> get_run i s = Some r \<Longrightarrow> rr_status r = RQueued \<Longrightarrow>
    get_active_run t s = Inr a \<Longrightarrow> \<forall>x \<in> set_option a. rr_runId x = rr_runId r \<Longrightarrow> a = None"
proof (rule ccontr)
  assume h: "runs_ok s" "get_run i s = Some r" "rr_status r = RQueued" "get_active_run t s = Inr a"
    "\<forall>x \<in> set_option a. rr_runId x = rr_runId r" "a \<noteq> None"
  obtain x where a: "a = Some x" using h(6) by blast
  then have "x \<in> set_option a" by simp
  with h(5) have id: "rr_runId x = rr_runId r" by blast
  have "x \<in> set (runs s)" "active_status (rr_status x)"
    using only_run_Some [of "\<lambda>r. active_status (rr_status r)" t s x] h(4) a by (simp_all add: get_active_run_def)
  moreover have "x = r"
    by (rule distinct_key_unique [OF runs_okD(1) [OF h(1)] calculation(1) _ id]) (simp add: found_run_id [OF h(2)])
  ultimately show False using h(3) by (simp add: active_status_def)
qed

lemma start_pause_tame: "every tame (start_pause run paused)"
  by (cases paused) (simp_all add: start_pause_def taming.every_pure taming.every_bind end_pause_tame)

lemma first_attempt_tame: "always tame (first_attempt run)"
  unfolding first_attempt_def
  by (cases "rr_activeAttemptId run") (simp_all add: taming.always_ret taming.always_bind create_attempt_tame)

lemma admit_now_tame: "always tame (admit_now run)"
proof (rule alwaysI)
  fix s x s' assume "admit_now run s = Inr (x, s')"
  then show "tame s s'"
    by (auto simp: admit_now_def tame_same split: if_splits
        intro!: tame_update [where P = "\<lambda>r. rr_runId r = rr_runId run" and f = "\<lambda>r. r\<lparr>rr_stopGeneration := current_stop_generation (rr_threadId run) s\<rparr>"]
        simp: calmer_run_def)
qed

text \<open>The end of a pause frees the place of its thread.\<close>

lemma places_same: "runs s' = runs s \<Longrightarrow> places P t s' = places P t s"
  by (simp add: places_def)

lemma end_pause_frees:
  assumes run: "end_pause i (Ends by0) ep s = (Inr (x, s'), ep')" and ok: "runs_ok s"
    and p: "get_run i s = Some r" "rr_status r = RPaused"
  shows "places holds_place (rr_threadId r) s' + 1 = places holds_place (rr_threadId r) s"
proof -
  let ?st = "if hands_over by0 then RInterrupted else RCancelled"
  obtain pause y s1 z where w: "cancel_effects (dropped_timers i (Ends by0) s) (pause_end_str by0) s = Inr (y, s1)"
    "write_terminal r (int (rr_epoch r)) ?st (Some (end_outcome by0 pause)) None None s1 = Inr (z, s')"
    using run p by (auto simp: end_pause_def paused_run_def engine_runs split: option.splits)
  have same1: "runs s1 = runs s"
  proof -
    have "always same_runs (\<lambda>s. bindE (forE es (\<lambda>e. effect_cancel (ef_effectId e) (clock s) why None)) (\<lambda>_. retE ()) s)" for es why
      by (rule always_look) (intro running.always_loop effect_cancel_runs running.always_ret)
    from alwaysD [OF this w(1) [unfolded cancel_effects_def]] show ?thesis by (simp add: same_runs_def)
  qed
  from w(2) obtain s2 n u s3 c where steps: "cas_run_status (rr_runId r) (int (rr_epoch r)) ?st
      (no_patch\<lparr>rp_completedAt := Some (Some (clock s1)), rp_outcome := map_option Some (terminal_outcome (rr_outcome r) (Some (end_outcome by0 pause)))\<rparr>) s1 = Inr (n, s2)"
    "terminal_tail n (clock s1) None c None s2 = Inr (u, s3)" "settle_txn (rr_threadId n) s3 = Inr ((), s')"
    unfolding write_terminal_def write_terminal_run_tail bindE_Inr by auto
  have "runs s' = runs s2"
    using alwaysD [OF terminal_tail_runs steps(2)] alwaysD [OF settle_always(2) steps(3)]
    by (simp add: same_runs_def owners_kept_def)
  moreover have "rr_runId r = i" "get_run (rr_runId r) s1 = Some r"
    using p(1) same1 by (auto simp: get_run_def dest: lookup_row_Some)
  moreover have "\<not> holds_place ?st" "holds_place (rr_status r)" using p(2) by (auto simp: holds_place_def active_status_def)
  ultimately show ?thesis
    using places_move(1) [OF _ steps(1), of r holds_place "rr_threadId r"] ok same1 places_same [of s' s2] places_same [of s1 s]
      runs_ok_cong [of s1 s] by simp
qed

text \<open>What a start leaves between its checks and its write.\<close>

lemma mark_starting_Inr:
  assumes "mark_starting runId ep s = (Inr (next, s'), ep')"
  obtains run active paused u e p s1 ep1 where "get_run runId s = Some run" "rr_status run = RQueued"
    "get_active_run (rr_threadId run) s = Inr active" "\<forall>a \<in> set_option active. rr_runId a = rr_runId run"
    "get_paused_run (rr_threadId run) s = Inr paused" "start_pause run paused ep s = (Inr (u, s1), ep1)"
    "\<exists>s2. tame s1 s2 \<and> cas_run_status (rr_runId run) e RStarting p s2 = Inr (next, s')"
proof -
  from assms [unfolded mark_starting_def] show thesis
  proof (rule mark_Inr)
    fix run e epx
    assume r: "get_run runId s = Some run"
      and w: "bindG (require_status run [RQueued]) (\<lambda>_.
       bindG (queryG (get_active_run (rr_threadId run))) (\<lambda>active.
       bindG (requireG (\<forall>a \<in> set_option active. rr_runId a = rr_runId run) (EngineFail Conflict)) (\<lambda>_.
       bindG (queryG (get_paused_run (rr_threadId run))) (\<lambda>paused.
       bindG (start_pause run paused) (\<lambda>_.
       bindG (storeG (first_attempt run)) (\<lambda>attemptId.
       bindG (storeG (admit_now run)) (\<lambda>_.
       bindG (readG clock) (\<lambda>now.
       storeG (cas_run_status (rr_runId run) e RStarting
         (no_patch\<lparr>rp_startedAt := Some (Some now), rp_activeAttemptId := Some (Some attemptId)\<rparr>)))))))))) ep s = (Inr (next, s'), epx)"
    from w obtain active paused s1 ep1 u a s2 y s3 where steps: "rr_status run = RQueued"
      "get_active_run (rr_threadId run) s = Inr active" "\<forall>a \<in> set_option active. rr_runId a = rr_runId run"
      "get_paused_run (rr_threadId run) s = Inr paused" "start_pause run paused ep s = (Inr (u, s1), ep1)"
      "first_attempt run s1 = Inr (a, s2)" "admit_now run s2 = Inr (y, s3)"
      "cas_run_status (rr_runId run) e RStarting
         (no_patch\<lparr>rp_startedAt := Some (Some (clock s3)), rp_activeAttemptId := Some (Some a)\<rparr>) s3 = Inr (next, s')"
      by (elim bindG_InrE) (simp only: queryG_Inr storeG_Inr readG_Inr requireG_Inr require_status_def set_simps, clarify, rule that; (assumption | simp))
    have "tame s1 s3"
      using alwaysD [OF first_attempt_tame steps(6)] alwaysD [OF admit_now_tame steps(7)] by (rule tame_trans)
    with that r steps show thesis by blast
  qed
qed

lemma start_frees:
  assumes ok: "runs_ok s" "slots_ok s" and none: "places active_status t s = 0"
    and q: "get_paused_run t s = Inr paused" and run: "start_pause r paused ep s = (Inr (u, s1), ep1)"
  shows "places holds_place t s1 = 0"
proof (cases paused)
  case None
  then have "places (\<lambda>st. st = RPaused) t s = 0" using q by (simp add: get_paused_run_def only_run_None no_places)
  moreover have "s1 = s" using run None by (simp add: start_pause_def retG_Inr)
  ultimately show ?thesis using none by (simp add: holders)
next
  case (Some p)
  have p: "p \<in> set (runs s)" "rr_threadId p = t" "rr_status p = RPaused"
    using only_run_Some [of "\<lambda>r. rr_status r = RPaused" t s p] q Some by (simp_all add: get_paused_run_def)
  obtain x ep2 where e: "end_pause (rr_runId p) (Ends EndUserMessage) ep s = (Inr (x, s1), ep2)"
    using run Some by (auto simp: start_pause_def engine_runs)
  have "get_run (rr_runId p) s = Some p"
    using lookup_row_mem [OF runs_okD(1) [OF ok(1)] p(1)] by (simp add: get_run_def)
  from end_pause_frees [OF e ok(1) this p(3)] ok(2) p(2) show ?thesis by (auto simp: slots_ok_iff dest: spec [of _ t])
qed

lemma mark_starting_slots:
  assumes run: "mark_starting runId ep s = (Inr (next, s'), ep')" and ok: "runs_ok s" "slots_ok s"
  shows "runs_ok s' \<and> slots_ok s'"
proof (rule mark_starting_Inr [OF run])
  fix r active paused u e p s1 ep1
  assume r: "get_run runId s = Some r" "rr_status r = RQueued" "get_active_run (rr_threadId r) s = Inr active"
    "\<forall>a \<in> set_option active. rr_runId a = rr_runId r" "get_paused_run (rr_threadId r) s = Inr paused"
    "start_pause r paused ep s = (Inr (u, s1), ep1)"
    and "\<exists>s2. tame s1 s2 \<and> cas_run_status (rr_runId r) e RStarting p s2 = Inr (next, s')"
  then obtain s2 where s2: "tame s1 s2" "cas_run_status (rr_runId r) e RStarting p s2 = Inr (next, s')" by blast
  have "active = None" by (rule get_active_None [OF ok(1) r(1,2,3,4)])
  then have "places active_status (rr_threadId r) s = 0"
    using r(3) by (simp add: get_active_run_def only_run_None no_places)
  from start_frees [OF ok this r(5,6)] have free: "places holds_place (rr_threadId r) s1 = 0" .
  have t: "tame s s2" using everyD [OF start_pause_tame r(6)] s2(1) by (rule tame_trans)
  obtain x where x: "get_run (rr_runId r) s2 = Some x" "rr_threadId x = rr_threadId r"
    using tame_get [OF t, of "rr_runId r" r] r(1) found_run_id [OF r(1)] by (auto simp: calmer_run_def)
  have "places holds_place (rr_threadId x) s2 = 0"
    using free tame_places [OF s2(1), of "rr_threadId r"] x(2) by simp
  then show ?thesis
    by (intro engine_slotsI [OF tame_runs_ok [OF t ok(1)] tame_slots [OF t ok(2)] s2(2) x(1)]) simp
qed

lemma pause_attempt_tame: "always tame (pause_attempt run)"
proof -
  have "always tame (bindE (set_attempt_status a st p b c) (\<lambda>_. retE ()))" for a st p b c
    by (intro taming.always_bind tame_frames taming.always_ret)
  from alwaysD [OF this] show ?thesis
    by (intro alwaysI) (fastforce simp: pause_attempt_def tame_same split: option.splits if_splits)
qed

lemma dead_timers_tame: "always tame (cancel_dead_resume_timers t i)"
proof -
  have one: "always tame (bindE (effect_cancel e now why None) (\<lambda>_. retE ()))" for e now why
    by (intro taming.always_bind tame_frames taming.always_ret)
  have "always tame (\<lambda>s1. if dead_timer i s1 e then bindE (effect_cancel (ef_effectId e) now why None) (\<lambda>_. retE ()) s1
      else Inr ((), s1))" for e now why
    by (auto intro!: alwaysI split: if_splits dest: alwaysD [OF one] intro: tame_same)
  then have loop: "always tame (bindE (forE es (\<lambda>e s1. if dead_timer i s1 e
      then bindE (effect_cancel (ef_effectId e) now why None) (\<lambda>_. retE ()) s1 else Inr ((), s1))) (\<lambda>_. retE ()))" for es now why
    by (intro taming.always_loop taming.always_ret)
  show ?thesis
    by (rule alwaysI) (unfold cancel_dead_resume_timers_def, erule alwaysD [OF loop])
qed

lemma arm_timer_tame: "always tame (arm_timer run pause at)"
  by (cases at) (simp_all add: arm_timer_def taming.always_ret taming.always_bind dead_timers_tame enqueue_resume_tame)

lemma pause_run_Inr:
  assumes "pause_run runId pause at ep s = (Inr (next, s'), ep')"
  obtains r n e s1 p where "get_run runId s = Some r" "rr_status r = RRunning \<or> rr_status r = RFinalizing"
    "get_paused_run (rr_threadId r) s = Inr None"
    "p = no_patch\<lparr>rp_outcome := Some (Some ((the_outcome (rr_outcome r))\<lparr>oc_pause := Some pause\<rparr>))\<rparr>"
    "cas_run_status (rr_runId r) e RPaused p s = Inr (n, s1)" "tame s1 s'"
proof -
  from assms [unfolded pause_run_def] show thesis
  proof (rule mark_Inr)
    fix r e epx
    assume r: "get_run runId s = Some r"
      and w: "bindG (require_status r [RRunning, RFinalizing]) (\<lambda>_.
       bindG (requireG (oc_stopRequested (the_outcome (rr_outcome r)) \<noteq> Some True) (EngineFail BadRequest)) (\<lambda>_.
       bindG (queryG (get_paused_run (rr_threadId r))) (\<lambda>other.
       bindG (requireG (other = None) (EngineFail Conflict)) (\<lambda>_.
       bindG (storeG (cas_run_status (rr_runId r) e RPaused
                (no_patch\<lparr>rp_outcome := Some (Some ((the_outcome (rr_outcome r))\<lparr>oc_pause := Some pause\<rparr>))\<rparr>))) (\<lambda>next.
       bindG (storeG (pause_attempt next)) (\<lambda>_.
       bindG (storeG (arm_timer next pause at)) (\<lambda>_.
       retG next))))))) ep s = (Inr (next, s'), epx)"
    obtain n s1 x s2 y where c: "rr_status r = RRunning \<or> rr_status r = RFinalizing"
      "get_paused_run (rr_threadId r) s = Inr None"
      "cas_run_status (rr_runId r) e RPaused (no_patch\<lparr>rp_outcome := Some (Some ((the_outcome (rr_outcome r))\<lparr>oc_pause := Some pause\<rparr>))\<rparr>) s = Inr (n, s1)"
      "pause_attempt n s1 = Inr (x, s2)" "arm_timer n pause at s2 = Inr (y, s')"
      using w
      by (elim bindG_InrE) (simp only: queryG_Inr storeG_Inr requireG_Inr retG_Inr require_status_def, clarify, rule that; (assumption | simp))
    have "tame s1 s'"
      using alwaysD [OF pause_attempt_tame c(4)] alwaysD [OF arm_timer_tame c(5)] by (rule tame_trans)
    with that r c show thesis by blast
  qed
qed

lemma pause_run_slots:
  assumes run: "pause_run runId pause at ep s = (Inr (next, s'), ep')" and ok: "runs_ok s" "slots_ok s"
  shows "runs_ok s' \<and> slots_ok s'"
proof (rule pause_run_Inr [OF run])
  fix r n e s1 p
  assume r: "get_run runId s = Some r" "rr_status r = RRunning \<or> rr_status r = RFinalizing"
    and c: "cas_run_status (rr_runId r) e RPaused p s = Inr (n, s1)" and t: "tame s1 s'"
  have "get_run (rr_runId r) s = Some r" using r found_run_id [OF r(1)] by simp
  then have "runs_ok s1 \<and> slots_ok s1"
    by (rule engine_slotsI [OF ok c]) (use r(2) in \<open>auto simp: holds_place_def active_status_def\<close>)
  then show ?thesis using tame_runs_ok [OF t] tame_slots [OF t] by blast
qed

end
