(* ===== verification/EngineSteps.thy ===== *)
theory EngineSteps
  imports EngineSlots
begin

text \<open>
  Sequences of calls into the engine, and what holds after every one of them.
\<close>

section \<open>Calls\<close>

datatype engine_call =
    CallStarting string
  | CallRunning string
  | CallFinalizing string
  | CallTerminal string run_status "run_outcome option" "string option" "(inbox_kind \<times> json) option"
  | CallPause string run_pause "nat option"
  | CallResume string bool
  | CallEndPause string pause_close
  | CallUpdatePause string "run_pause \<Rightarrow> run_pause"
  | CallProviderRef string provider_ref
  | CallBinding string json
  | CallGrant string access_level
  | CallStop stop_request
  | CallDispatch "nat option" "engine_error option" run_command
  | CallSend send_command "string \<Rightarrow> json"

text \<open>A call that raises leaves the store as it was; what it forgot stays forgotten.\<close>

definition left_after :: "'a engine_op \<Rightarrow> remembered \<times> store \<Rightarrow> remembered \<times> store" where
  "left_after m st = (case m (fst st) (snd st) of (Inl e, ep) \<Rightarrow> (ep, snd st) | (Inr (x, s), ep) \<Rightarrow> (ep, s))"

text \<open>The type of a terminal write allows terminal statuses only.\<close>

fun engine_does ::
  "(string \<Rightarrow> string) \<Rightarrow> (string \<Rightarrow> string) \<Rightarrow> (string \<Rightarrow> bool) \<Rightarrow> engine_call \<Rightarrow> remembered \<times> store \<Rightarrow> remembered \<times> store" where
  "engine_does digest redact there (CallStarting i) = left_after (mark_starting i)"
| "engine_does digest redact there (CallRunning i) = left_after (mark_running i)"
| "engine_does digest redact there (CallFinalizing i) = left_after (mark_finalizing i)"
| "engine_does digest redact there (CallTerminal i st oc t n) =
     (if terminal_run st then left_after (mark_terminal_run i st oc t n) else id)"
| "engine_does digest redact there (CallPause i p at) = left_after (pause_run i p at)"
| "engine_does digest redact there (CallResume i m) = left_after (request_resume i m)"
| "engine_does digest redact there (CallEndPause i b) = left_after (end_pause i b)"
| "engine_does digest redact there (CallUpdatePause i f) = left_after (update_pause i f)"
| "engine_does digest redact there (CallProviderRef i r) = left_after (record_provider_ref i r)"
| "engine_does digest redact there (CallBinding i b) = left_after (record_execution_binding i b)"
| "engine_does digest redact there (CallGrant i l) = left_after (record_access_grant i l)"
| "engine_does digest redact there (CallStop q) = left_after (stop_subtree q)"
| "engine_does digest redact there (CallDispatch e a c) = left_after (decide digest redact there e a c)"
| "engine_does digest redact there (CallSend c p) = left_after (send_with_start digest redact there c p)"

text \<open>Between two calls anything else may write the store, as long as it starts and pauses no run.\<close>

inductive engine_steps ::
  "(string \<Rightarrow> string) \<Rightarrow> (string \<Rightarrow> string) \<Rightarrow> (string \<Rightarrow> bool) \<Rightarrow> remembered \<times> store \<Rightarrow> remembered \<times> store \<Rightarrow> bool"
  for digest redact there st where
  engine_idle: "engine_steps digest redact there st st"
| engine_called: "engine_steps digest redact there st st' \<Longrightarrow>
     engine_steps digest redact there st (engine_does digest redact there call st')"
| engine_others: "engine_steps digest redact there st (ep, s) \<Longrightarrow> tame s s' \<Longrightarrow> engine_steps digest redact there st (ep, s')"

definition placed_ok :: "store \<Rightarrow> bool" where
  "placed_ok s \<longleftrightarrow> runs_ok s \<and> slots_ok s"

lemma tame_placed: "tame s s' \<Longrightarrow> placed_ok s \<Longrightarrow> placed_ok s'"
  by (simp add: placed_ok_def tame_runs_ok tame_slots)

lemma left_after_placed:
  assumes "\<And>ep s x s' ep'. m ep s = (Inr (x, s'), ep') \<Longrightarrow> placed_ok s \<Longrightarrow> placed_ok s'" "placed_ok (snd st)"
  shows "placed_ok (snd (left_after m st))"
proof -
  obtain r ep where "m (fst st) (snd st) = (r, ep)" by force
  with assms show ?thesis by (cases r) (auto simp: left_after_def)
qed

lemma left_after_tame: "every tame m \<Longrightarrow> placed_ok (snd st) \<Longrightarrow> placed_ok (snd (left_after m st))"
  by (rule left_after_placed) (auto dest: everyD tame_placed)

lemmas tame_calls = mark_running_tame mark_finalizing_tame mark_terminal_tame request_resume_tame end_pause_tame
  update_pause_tame record_tame stop_subtree_tame decide_tame send_with_start_tame

lemma engine_does_placed: "placed_ok (snd st) \<Longrightarrow> placed_ok (snd (engine_does digest redact there call st))"
proof (cases call)
  case (CallStarting i)
  have "placed_ok s'" if "mark_starting i ep s = (Inr (x, s'), ep')" "placed_ok s" for ep s x s' ep'
    using mark_starting_slots [OF that(1)] that(2) by (simp add: placed_ok_def)
  then show "placed_ok (snd st) \<Longrightarrow> ?thesis" using left_after_placed [of "mark_starting i" st] by (simp add: CallStarting)
next
  case (CallPause i p at)
  have "placed_ok s'" if "pause_run i p at ep s = (Inr (x, s'), ep')" "placed_ok s" for ep s x s' ep'
    using pause_run_slots [OF that(1)] that(2) by (simp add: placed_ok_def)
  then show "placed_ok (snd st) \<Longrightarrow> ?thesis" using left_after_placed [of "pause_run i p at" st] by (simp add: CallPause)
qed (simp_all add: left_after_tame tame_calls)

text \<open>
  C16: One run at a time: over every sequence of calls into the engine, failing ones included, and of writes of
  the other parts of the program between them (none of which starts or pauses a run), a thread never has more
  than one run that is active or paused. So nothing ever runs beside a paused run, and the two queries that look for
  the active and the paused run of a thread always answer.
\<close>

theorem one_run_at_a_time:
  assumes "engine_steps digest redact there st st'" "runs_ok (snd st)" "slots_ok (snd st)"
  shows "runs_ok (snd st') \<and> slots_ok (snd st') \<and>
    length (filter (\<lambda>r. rr_threadId r = t \<and> (active_status (rr_status r) \<or> rr_status r = RPaused)) (runs (snd st'))) \<le> 1 \<and>
    \<not> isl (get_active_run t (snd st')) \<and> \<not> isl (get_paused_run t (snd st'))"
proof -
  from assms have ok: "placed_ok (snd st')"
  proof (induction rule: engine_steps.induct)
    case (engine_called st')
    then show ?case by (intro engine_does_placed) simp
  next
    case (engine_others ep s s')
    then show ?case using tame_placed by simp
  qed (simp add: placed_ok_def)
  then have "places holds_place t (snd st') \<le> 1" by (simp add: placed_ok_def slots_ok_iff)
  then show ?thesis using slots_found ok by (simp add: placed_ok_def places_def holds_place_def)
qed

section \<open>An example\<close>

definition example_send :: "string \<Rightarrow> string \<Rightarrow> send_command" where
  "example_send requestId source = \<lparr>sc_threadId = ''t'', sc_clientRequestId = requestId, sc_source = source,
     sc_userMessageId = None, sc_continuationOfRunId = None, sc_acknowledgeUncertain = False, sc_delegation = None,
     sc_prompt = Some ''hello'', sc_settleApprovals = None, sc_bindDelivery = None, sc_actor = None, sc_agentOrigin = None,
     sc_queueBehindPause = False, sc_refuseWhilePaused = False\<rparr>"

definition example_pause :: run_pause where
  "example_pause = \<lparr>pa_until = 99, pa_estimated = False, pa_provider = None, pa_limitKind = None, pa_count = 1,
     pa_autoResume = True, pa_resumeItemId = None, pa_resumeRequested = None, pa_stale = False, pa_endedBy = None\<rparr>"

definition first_id :: string where "first_id = ''run:thread:t:ordinal:1''"

definition second_id :: string where "second_id = ''run:thread:t:ordinal:2''"

text \<open>Two messages; the first turn hits a usage limit and pauses, and a scheduled run cannot start beside the pause.\<close>

definition example_calls :: "engine_call list" where
  "example_calls = [CallDispatch None None (SendCommand (example_send ''a'' ''gui'')), CallStarting first_id, CallRunning first_id,
     CallDispatch None None (SendCommand (example_send ''b'' ''schedule'')), CallPause first_id example_pause (Some 99),
     CallStarting second_id]"

definition do_calls :: "engine_call list \<Rightarrow> remembered \<times> store" where
  "do_calls cs = fold (engine_does (\<lambda>x. x) (\<lambda>x. x) (\<lambda>_. True)) cs ([], empty_store 7 nat_str)"

lemma do_calls_steps: "engine_steps (\<lambda>x. x) (\<lambda>x. x) (\<lambda>_. True) ([], empty_store 7 nat_str) (do_calls cs)"
  unfolding do_calls_def
  by (induction cs rule: rev_induct) (auto intro: engine_idle engine_called)

lemma empty_placed: "runs_ok (empty_store n u)" "slots_ok (empty_store n u)"
  by (simp_all add: runs_ok_def slots_ok_def empty_store_def)

lemma one_run_at_a_time_witness:
  "slots_ok (snd (do_calls example_calls)) \<and>
   map rr_status (runs (snd (do_calls example_calls))) = [RPaused, RQueued]"
proof
  show "slots_ok (snd (do_calls example_calls))"
    using one_run_at_a_time [OF do_calls_steps [of example_calls]] empty_placed by simp
  show "map rr_status (runs (snd (do_calls example_calls))) = [RPaused, RQueued]" by code_simp
qed

section \<open>What an agent's Stop leaves\<close>

text \<open>
  A Stop acknowledges the inbox rows of its subtree before it ends the runs there. When an agent asked for it, the
  terminal write of a queued integration run then tells the thread that the integration was cut off: that row is
  pending after the Stop, and the next pass of the wakes starts a run for it.
\<close>

definition integration_run :: run_input where
  "integration_run = \<lparr>ri_threadId = ''t'', ri_source = ''integration'', ri_clientRequestId = None, ri_userMessageId = None,
     ri_requestedAt = None, ri_outcome = None\<rparr>"

definition agent_stop :: stop_request where
  "agent_stop = \<lparr>sr_threadId = ''t'', sr_reason = ''agent'', sr_clientRequestId = None, sr_runId = None, sr_requester = None,
     sr_clearQueue = False, sr_actor = Some \<lparr>ac_threadId = ''o'', ac_runId = ''r'', ac_toolCallId = ''c'', ac_hops = None\<rparr>\<rparr>"

definition stopped_integration :: store where
  "stopped_integration = (case create_run integration_run (empty_store 7 nat_str) of
     Inl e \<Rightarrow> empty_store 7 nat_str | Inr (r, s) \<Rightarrow> snd (left_after (stop_subtree agent_stop) ([], s)))"

lemma agent_stop_leaves_a_notice:
  "map rr_status (runs stopped_integration) = [RCancelled] \<and>
   map (\<lambda>r. (ib_threadId r, ib_kind r, ib_status r)) (inbox stopped_integration) = [(''t'', ReconcileNotice, IPending)] \<and>
   map (\<lambda>r. (rr_threadId r, rr_source r, rr_status r)) (runs (snd (wake_threads [] (\<lambda>_. None) 7 stopped_integration))) =
     [(''t'', ''integration'', RCancelled), (''t'', ''wake'', RQueued)]"
  by code_simp

end
