(* ===== verification/EnginePauses.thy ===== *)
theory EnginePauses
  imports EngineSteps Repairs
begin

text \<open>
  Pauses: ending one always succeeds and takes its timers with it, and only a person's message starts beside one, which
  ends it.
\<close>

section \<open>Cancelling effects\<close>

definition effect_ended :: "nat \<Rightarrow> string \<Rightarrow> effect_record \<Rightarrow> effect_record" where
  "effect_ended now reason e = e\<lparr>ef_status := ECancelled, ef_lastError := Some reason, ef_leaseExpiresAt := None,
     ef_updatedAt := now, ef_completedAt := Some now\<rparr>"

lemma effect_ended_same: "same_effect e (effect_ended now reason e)"
  by (simp add: same_effect_def effect_ended_def)

lemma cancel_is_write:
  assumes "outbox_ok s" "e \<in> set (effects s)" "ef_status e = EPending \<or> ef_status e = ERunning"
  shows "effect_cancel (ef_effectId e) now reason None s =
    bindE (effect_write e (effect_ended now reason e)) (\<lambda>x. retE (Settled x)) s"
  using assms mem_get_effect [of s e]
  by (auto simp: effect_cancel_def settle_effect_def cancel_record_def effect_ended_def outbox_ok_def)

lemma publishing_attempts: "publishing s s' \<Longrightarrow> attempts s' = attempts s \<and> clock s' = clock s"
  by (simp add: publishing_frame)

lemma cancel_loop:
  assumes "outbox_ok s" "set es \<subseteq> set (effects s)" "distinct es"
    and "\<forall>e \<in> set es. ef_status e = EPending \<or> ef_status e = ERunning"
  shows "\<exists>xs s'. forE es (\<lambda>e. effect_cancel (ef_effectId e) now reason None) s = Inr (xs, s') \<and> outbox_ok s' \<and>
    effects s' = map (\<lambda>x. if x \<in> set es then effect_ended now reason x else x) (effects s) \<and>
    runs s' = runs s \<and> attempts s' = attempts s \<and> clock s' = clock s"
  using assms
proof (induction es arbitrary: s)
  case (Cons e es)
  have eok: "effect_ok s" using Cons.prems(1) by (simp add: outbox_ok_def)
  have e: "e \<in> set (effects s)" "ef_status e = EPending \<or> ef_status e = ERunning" using Cons.prems by simp_all
  obtain s1 where s1: "effect_write e (effect_ended now reason e) s = Inr (effect_ended now reason e, s1)" "outbox_ok s1"
    "effects s1 = map (\<lambda>x. if ef_effectId x = ef_effectId (effect_ended now reason e) then effect_ended now reason e else x) (effects s)"
    "runs s1 = runs s" "publishing (effect_recorded (effect_ended now reason e) (put_effect (effect_ended now reason e) s)) s1"
    using effect_write_outbox [OF Cons.prems(1) e(1) effect_ended_same] by blast
  have id: "(ef_effectId x = ef_effectId (effect_ended now reason e)) = (x = e)" if "x \<in> set (effects s)" for x
    using effect_ok_unique [OF eok that e(1)] by (auto simp: effect_ended_def)
  have eff: "effects s1 = map (\<lambda>x. if x = e then effect_ended now reason e else x) (effects s)"
    unfolding s1(3) using id by simp
  have at: "attempts s1 = attempts s" "clock s1 = clock s"
    using publishing_attempts [OF s1(5)] by (simp_all add: effect_recorded_def put_effect_def)
  have "set es \<subseteq> set (effects s1)"
    using Cons.prems(2,3) unfolding eff by force
  then obtain xs s' where s': "forE es (\<lambda>e. effect_cancel (ef_effectId e) now reason None) s1 = Inr (xs, s')" "outbox_ok s'"
    "effects s' = map (\<lambda>x. if x \<in> set es then effect_ended now reason x else x) (effects s1)" "runs s' = runs s1"
    "attempts s' = attempts s1" "clock s' = clock s1"
    using Cons.IH [OF s1(2)] Cons.prems by auto
  have "effect_ended now reason e \<notin> set es"
    using Cons.prems(4) by (auto simp: effect_ended_def)
  then have "effects s' = map (\<lambda>x. if x \<in> set (e # es) then effect_ended now reason x else x) (effects s)"
    unfolding s'(3) eff map_map by (intro map_cong refl) (use Cons.prems(3) in \<open>auto simp: comp_def\<close>)
  moreover have "effect_cancel (ef_effectId e) now reason None s = Inr (Settled (effect_ended now reason e), s1)"
    unfolding cancel_is_write [OF Cons.prems(1) e] using s1(1) by (simp add: bindE_def retE_def)
  ultimately show ?case using s'(1,2,4-6) s1(4) at by simp
qed simp

lemma cancel_effects_total:
  assumes "outbox_ok s" "set es \<subseteq> set (effects s)" "distinct es"
    and "\<forall>e \<in> set es. ef_status e = EPending \<or> ef_status e = ERunning"
  shows "\<exists>s'. cancel_effects es reason s = Inr ((), s') \<and> outbox_ok s' \<and>
    effects s' = map (\<lambda>x. if x \<in> set es then effect_ended (clock s) reason x else x) (effects s) \<and>
    runs s' = runs s \<and> attempts s' = attempts s \<and> clock s' = clock s"
  using cancel_loop [OF assms, of "clock s" reason] by (auto simp: cancel_effects_def bindE_def retE_def)

section \<open>The end of a pause\<close>

lemma paused_run_Some:
  "paused_run i s = Some (run, pause) \<longleftrightarrow>
     get_run i s = Some run \<and> rr_status run = RPaused \<and> oc_pause (the_outcome (rr_outcome run)) = Some pause"
  by (auto simp: paused_run_def split: option.splits)

lemma dropped_mem: "e \<in> set (dropped_timers i by0 s) \<longleftrightarrow> e \<in> set (effects s) \<and> ef_runId e = Some i \<and>
    ef_kind e = RunResume \<and> ef_status e = EPending \<and> \<not> (by0 = Stale \<and> is_manual e)"
  by (auto simp: dropped_timers_def run_effects_def effects_for_run_def)

lemma dropped_cancel:
  assumes "outbox_ok s"
  shows "\<exists>s'. cancel_effects (dropped_timers i by0 s) reason s = Inr ((), s') \<and> outbox_ok s' \<and>
    effects s' = map (\<lambda>x. if x \<in> set (dropped_timers i by0 s) then effect_ended (clock s) reason x else x) (effects s) \<and>
    runs s' = runs s \<and> attempts s' = attempts s \<and> clock s' = clock s"
proof (rule cancel_effects_total [OF assms])
  show "distinct (dropped_timers i by0 s)"
    using assms by (simp add: dropped_timers_def run_effects_def effects_for_run_def outbox_ok_def distinct_effects)
qed (auto simp: dropped_mem)

lemma engine_ok_same:
  "engine_ok s \<Longrightarrow> outbox_ok s' \<Longrightarrow> runs s' = runs s \<Longrightarrow> attempts s' = attempts s \<Longrightarrow> engine_ok s'"
  by (simp add: engine_ok_def runs_ok_def attempts_ok_def get_run_def)

definition ended_status :: "pause_end \<Rightarrow> run_status" where
  "ended_status by0 = (if hands_over by0 then RInterrupted else RCancelled)"

lemma end_outcome_pause: "oc_pause (end_outcome by0 pause) = Some (pause\<lparr>pa_endedBy := Some by0\<rparr>)"
  by (simp add: end_outcome_def)

lemma terminal_outcome_pause:
  "oc_pause x = Some p \<Longrightarrow> oc_pause (the_outcome (terminal_outcome old (Some x))) = Some p"
  by (simp add: terminal_outcome_def Let_def the_outcome_def merge_outcome_def or_else_def)

text \<open>
  A pause can always be ended: for a paused run \<open>endPause\<close> returns, the run is terminal (interrupted when it
  is handed over to its continuation, cancelled otherwise) and says how its pause ended, none of its timers is
  pending any more, and no other run and no other effect is changed. The engine forgets the run.
\<close>

theorem pause_always_ends:
  assumes ok: "engine_ok s" and paused: "paused_run runId s = Some (run, pause)"
  shows "\<exists>next s'. end_pause runId (Ends by0) ep s = (Inr (next, s'), AList.delete runId ep) \<and> engine_ok s' \<and>
    get_run runId s' = Some next \<and> rr_status next = ended_status by0 \<and>
    oc_pause (the_outcome (rr_outcome next)) = Some (pause\<lparr>pa_endedBy := Some by0\<rparr>) \<and>
    effects s' = map (\<lambda>e. if e \<in> set (dropped_timers runId (Ends by0) s)
      then effect_ended (clock s) (pause_end_str by0) e else e) (effects s) \<and>
    \<not> list_ex (\<lambda>e. ef_status e = EPending) (run_effects RunResume runId s') \<and>
    (\<forall>i. i \<noteq> runId \<longrightarrow> get_run i s' = get_run i s)"
proof -
  have r: "get_run runId s = Some run" "rr_status run = RPaused" "rr_runId run = runId"
    using paused found_run_id by (auto simp: paused_run_Some)
  have obx: "outbox_ok s" using ok by (simp add: engine_ok_def)
  obtain s1 where s1: "cancel_effects (dropped_timers runId (Ends by0) s) (pause_end_str by0) s = Inr ((), s1)" "outbox_ok s1"
    "effects s1 = map (\<lambda>x. if x \<in> set (dropped_timers runId (Ends by0) s) then effect_ended (clock s) (pause_end_str by0) x else x) (effects s)"
    "runs s1 = runs s" "attempts s1 = attempts s" "clock s1 = clock s"
    using dropped_cancel [OF obx] by blast
  have k1: "engine_ok s1" by (rule engine_ok_same [OF ok s1(2,4,5)])
  have live: "live_run run s1" using r s1(4) by (simp add: live_run_def get_run_def)
  have t: "terminal_run (ended_status by0)" by (simp add: ended_status_def)
  obtain x s' where w: "write_terminal_run run (int (rr_epoch run)) (ended_status by0) (Some (end_outcome by0 pause)) (clock s1) None None s1 = Inr (x, s')"
    "ended_only run (ended_status by0) (end_outcome by0 pause) s1 s'" "rr_status x = ended_status by0"
    using end_run [OF k1 live t] by blast
  have run': "end_pause runId (Ends by0) ep s = (Inr (x, s'), AList.delete runId ep)"
    using w(1) s1(1) paused
    by (simp add: end_pause_def bindG_def storeG_def write_terminal_def forgetG_def retG_def ended_status_def)
  obtain y where y: "get_run runId s' = Some y" "rr_status y = ended_status by0"
    "rr_outcome y = terminal_outcome (rr_outcome run) (Some (end_outcome by0 pause))"
    "effects s' = effects s1" "engine_ok s'" "\<forall>i. i \<noteq> runId \<longrightarrow> get_run i s' = get_run i s1"
    using w(2) r(3) by (auto simp: ended_only_def)
  have "get_run runId s' = Some x"
    using write_terminal_run_Inr(3) [OF _ _ w(1)] k1 r(3) by (simp add: engine_ok_def)
  with y have x: "rr_outcome x = terminal_outcome (rr_outcome run) (Some (end_outcome by0 pause))" "get_run runId s' = Some x"
    by simp_all
  have "ef_status e \<noteq> EPending" if "e \<in> set (run_effects RunResume runId s')" for e
  proof
    assume p: "ef_status e = EPending"
    from that obtain e0 where e0: "e0 \<in> set (effects s)"
      "e = (if e0 \<in> set (dropped_timers runId (Ends by0) s) then effect_ended (clock s) (pause_end_str by0) e0 else e0)"
      "ef_runId e = Some runId" "ef_kind e = RunResume"
      by (auto simp: run_effects_def effects_for_run_def y(4) s1(3))
    with p show False
      by (cases "e0 \<in> set (dropped_timers runId (Ends by0) s)") (auto simp: dropped_mem effect_ended_def)
  qed
  then have none: "\<not> list_ex (\<lambda>e. ef_status e = EPending) (run_effects RunResume runId s')"
    by (auto simp: list_ex_iff)
  show ?thesis
    using run' y(4-6) x s1(3,4) w(3) none terminal_outcome_pause [OF end_outcome_pause]
    by (intro exI [of _ x] exI [of _ s']) (simp add: get_run_def)
qed

section \<open>An example\<close>

text \<open>A run that waits for its limit to reset, with the timer that resumes it.\<close>

definition waiting_run :: run_record where
  "waiting_run = stopping_run\<lparr>rr_status := RPaused, rr_outcome := Some (empty_outcome\<lparr>oc_pause := Some example_pause\<rparr>)\<rparr>"

definition waiting_timer :: effect_record where
  "waiting_timer = new_effect \<lparr>ei_effectId = None, ei_threadId = ''t'', ei_runId = Some (rr_runId waiting_run), ei_kind = RunResume,
     ei_payload = resume_payload waiting_run 99 False, ei_availableAt = Some 99\<rparr> (empty_store 5 nat_str)"

definition waiting_store :: store where
  "waiting_store = (empty_store 5 nat_str)\<lparr>runs := [waiting_run], effects := [waiting_timer]\<rparr>"

lemma waiting_store_ok: "engine_ok waiting_store"
proof -
  have "outbox_ok waiting_store"
    by (simp add: outbox_ok_def waiting_store_def empty_store_def held_def task_ok_def fresh_uuids_def inbox_ok_def
      effect_ok_def delivery_local_def inj_def settled_except_def settled_no_task)
  moreover have "runs_ok waiting_store"
    by (simp add: runs_ok_def waiting_store_def waiting_run_def stopping_run_def)
  ultimately show ?thesis
    by (simp add: engine_ok_def waiting_store_def waiting_run_def stopping_run_def attempts_ok_def empty_store_def)
qed

lemma pause_always_ends_witness:
  "\<exists>next s'. end_pause (rr_runId waiting_run) (Ends EndUserMessage) [] waiting_store = (Inr (next, s'), []) \<and>
     rr_status next = RCancelled \<and> effects s' = [effect_ended 5 ''user_message'' waiting_timer]"
proof -
  have p: "paused_run (rr_runId waiting_run) waiting_store = Some (waiting_run, example_pause)"
    by (simp add: paused_run_def waiting_store_def get_run_def lookup_row_def waiting_run_def the_outcome_def)
  have d: "waiting_timer \<in> set (dropped_timers (rr_runId waiting_run) (Ends EndUserMessage) waiting_store)"
    by (simp add: dropped_mem) (simp add: waiting_store_def waiting_timer_def new_effect_def Let_def)
  have e: "effects waiting_store = [waiting_timer]" "clock waiting_store = 5" by (simp_all add: waiting_store_def empty_store_def)
  from pause_always_ends [OF waiting_store_ok p, of EndUserMessage "[]"] d e show ?thesis
    by (fastforce simp: ended_status_def hands_over_def)
qed

end
