(* ===== verification/NetStore.thy ===== *)
theory NetStore
  imports Json
begin

text \<open>
  The ledger database of the network layer (\<open>src/mms/net/store/database.ts\<close>): error codes, safe
  integers, identifiers (\<open>src/shared/net/ids.ts\<close>; the random bits of the n-th new one are \<open>net_random n\<close>), the canonical JSON text (\<open>net/sync/codec.ts\<close>) whose
  length and equality the ledgers use, the tables of the execution, budget, quota and rate ledgers, and
  the transaction with its row and byte limits.

  An outermost transaction starts with empty counters; a nested one joins it. Faults of the disk, the
  fences of a corrupt file and the observers called after a commit are not part of the model.
\<close>

section \<open>Errors and numbers\<close>

datatype net_error =
    NUnsupportedVersion | NIncompatiblePeer | NUpgradeRequired | NDowngradeUnsupported | NBadRequest | NTooLarge
  | NBadSignature | NBadDelegation | NPeerKeyMismatch | NRevoked | NDisabled | NNotEnrolled | NNotMember | NForbidden
  | NInviteInvalid | NRosterConflict | NConflict | NStreamUnknown | NSnapshotRequired | NMetaStale | NSpaceFrozen
  | NRateLimited | NQuotaExceeded | NStorageFull | NStorageCorrupt | NKeystoreLocked | NKeystoreMissing | NClockSkew
  | NRouteUnreachable | NPeerOffline | NAuthorityOffline | NDeadlineExceeded | NCancelled | NBudgetExhausted
  | NOutcomeUncertain | NInternal

definition max_safe :: int where
  "max_safe = 9007199254740991"

definition bounded :: "int \<Rightarrow> int \<Rightarrow> bool" where
  "bounded minimum n \<longleftrightarrow> minimum \<le> n \<and> - max_safe \<le> n \<and> n \<le> max_safe"

definition check_integer :: "int \<Rightarrow> int \<Rightarrow> net_error + int" where
  "check_integer minimum n = (if bounded minimum n then Inr n else Inl NBadRequest)"

text \<open>\<open>sum\<close>: every partial sum is a safe integer.\<close>

fun sum_from :: "int \<Rightarrow> int list \<Rightarrow> net_error + int" where
  "sum_from acc [] = Inr acc"
| "sum_from acc (n # ns) =
     (if bounded 0 n \<and> bounded 0 (acc + n) then sum_from (acc + n) ns else Inl NBadRequest)"

definition checked_sum :: "int list \<Rightarrow> net_error + int" where
  "checked_sum ns = sum_from 0 ns"

section \<open>Identifiers\<close>

datatype id_kind = IdUser | IdNode | IdBot | IdSpace | IdStream | IdEvent | IdExecution | IdRpc | IdInvite | IdDispatch

fun id_prefix :: "id_kind \<Rightarrow> string" where
  "id_prefix IdUser = ''usr''"
| "id_prefix IdNode = ''nod''"
| "id_prefix IdBot = ''bot''"
| "id_prefix IdSpace = ''spc''"
| "id_prefix IdStream = ''str''"
| "id_prefix IdEvent = ''evt''"
| "id_prefix IdExecution = ''exe''"
| "id_prefix IdRpc = ''rpc''"
| "id_prefix IdInvite = ''inv''"
| "id_prefix IdDispatch = ''dsp''"

definition id_char :: "char \<Rightarrow> bool" where
  "id_char c \<longleftrightarrow> c \<in> set ''0123456789abcdefghjkmnpqrstvwxyz''"

definition is_id :: "id_kind \<Rightarrow> string \<Rightarrow> bool" where
  "is_id kind value \<longleftrightarrow> length value = 30 \<and> take 4 value = id_prefix kind @ ''_'' \<and> list_all id_char (drop 4 value)"

text \<open>\<open>newId\<close>: a random value of 128 bits as 26 characters, the last one first.\<close>

definition id_digit :: "nat \<Rightarrow> char" where
  "id_digit d = ''0123456789abcdefghjkmnpqrstvwxyz'' ! (d mod 32)"

fun id_body :: "nat \<Rightarrow> nat \<Rightarrow> string" where
  "id_body 0 v = []"
| "id_body (Suc n) v = id_body n (v div 32) @ [id_digit v]"

definition new_id :: "id_kind \<Rightarrow> nat \<Rightarrow> string" where
  "new_id kind v = id_prefix kind @ ''_'' @ id_body 26 v"

section \<open>Canonical JSON\<close>

definition MAX_JSON_DEPTH :: nat where
  "MAX_JSON_DEPTH = 32"

definition MAX_JSON_NODES :: nat where
  "MAX_JSON_NODES = 16384"

text \<open>\<open>nodes\<close> counts the values and keys written so far.\<close>

lemma size_list_sort [simp]: "size_list f (sort_key k xs) = size_list f xs"
proof -
  have "size_list f ys = sum_mset (image_mset (\<lambda>x. Suc (f x)) (mset ys))" for ys
    by (induction ys) auto
  then show ?thesis by (metis mset_sort)
qed

function canonical_text :: "nat \<Rightarrow> json \<Rightarrow> nat \<Rightarrow> net_error + string \<times> nat"
  and canonical_items :: "nat \<Rightarrow> json list \<Rightarrow> nat \<Rightarrow> net_error + string list \<times> nat"
  and canonical_members :: "nat \<Rightarrow> (string \<times> json) list \<Rightarrow> nat \<Rightarrow> net_error + string list \<times> nat" where
  "canonical_text depth v nodes =
     (if MAX_JSON_DEPTH < depth \<or> MAX_JSON_NODES < Suc nodes then Inl NTooLarge
      else case v of
        JUndef \<Rightarrow> Inl NBadRequest
      | JNull \<Rightarrow> Inr (''null'', Suc nodes)
      | JBool b \<Rightarrow> Inr (if b then ''true'' else ''false'', Suc nodes)
      | JNum n \<Rightarrow> if \<bar>n\<bar> \<le> max_safe then Inr (int_str n, Suc nodes) else Inl NBadRequest
      | JStr x \<Rightarrow> Inr (quote x, Suc nodes)
      | JArr xs \<Rightarrow> (case canonical_items (Suc depth) xs (Suc nodes) of
            Inl e \<Rightarrow> Inl e | Inr (ts, m) \<Rightarrow> Inr (''['' @ join '','' ts @ '']'', m))
      | JObj kvs \<Rightarrow> (case canonical_members (Suc depth) (sort_key fst kvs) (Suc nodes) of
            Inl e \<Rightarrow> Inl e | Inr (ts, m) \<Rightarrow> Inr (''{'' @ join '','' ts @ ''}'', m)))"
| "canonical_items depth [] nodes = Inr ([], nodes)"
| "canonical_items depth (x # xs) nodes =
     (case canonical_text depth x nodes of
        Inl e \<Rightarrow> Inl e
      | Inr (t, m) \<Rightarrow> (case canonical_items depth xs m of Inl e \<Rightarrow> Inl e | Inr (ts, k) \<Rightarrow> Inr (t # ts, k)))"
| "canonical_members depth [] nodes = Inr ([], nodes)"
| "canonical_members depth ((key, x) # kvs) nodes =
     (if MAX_JSON_DEPTH < depth \<or> MAX_JSON_NODES < Suc nodes then Inl NTooLarge
      else case canonical_text depth x (Suc nodes) of
        Inl e \<Rightarrow> Inl e
      | Inr (t, m) \<Rightarrow>
          (case canonical_members depth kvs m of
             Inl e \<Rightarrow> Inl e | Inr (ts, k) \<Rightarrow> Inr ((quote key @ '':'' @ t) # ts, k)))"
  by pat_completeness auto
termination
  by (relation "measure (\<lambda>x. case x of Inl (_, v, _) \<Rightarrow> Suc (2 * size v)
       | Inr (Inl (_, xs, _)) \<Rightarrow> 2 * size_list size xs
       | Inr (Inr (_, kvs, _)) \<Rightarrow> 2 * size_list (size_prod (\<lambda>_. 0) size) kvs)") auto

definition canonical_json :: "json \<Rightarrow> net_error + string" where
  "canonical_json v = (case canonical_text 0 v 0 of Inl e \<Rightarrow> Inl e | Inr (t, _) \<Rightarrow> Inr t)"

text \<open>\<open>Buffer.byteLength\<close> of the text in UTF-8.\<close>

definition utf8_length :: "string \<Rightarrow> nat" where
  "utf8_length x = sum_list (map (\<lambda>c. if of_char c < (128::nat) then 1 else 2) x)"

definition same_json :: "json \<Rightarrow> json \<Rightarrow> net_error + bool" where
  "same_json a b =
     (case canonical_json a of
        Inl e \<Rightarrow> Inl e
      | Inr x \<Rightarrow> (case canonical_json b of Inl e \<Rightarrow> Inl e | Inr y \<Rightarrow> Inr (x = y)))"

section \<open>The tables\<close>

datatype execution_state =
    XAccepted | XRunning | XWaitingApproval | XCompleted | XFailed | XCancelled | XUncertain | XExpired

record execution_row =
  xr_id :: string
  xr_scope :: string
  xr_target :: string
  xr_trigger :: string
  xr_payloadHash :: string
  xr_state :: execution_state
  xr_startedAt :: int
  xr_updatedAt :: int
  xr_result :: "json option"
  xr_error :: "(string \<times> string) option"
  xr_binding :: "json option"

record budget_config_row =
  bf_bot :: string
  bf_space :: string
  bf_units :: int

record budget_daily_row =
  bd_bot :: string
  bd_space :: string
  bd_day :: int
  bd_units :: int
  bd_spent :: int

record budget_reservation_row =
  br_execution :: string
  br_bot :: string
  br_space :: string
  br_day :: int
  br_ceiling :: int
  br_settled :: "int option"

record budget_call_row =
  bc_execution :: string
  bc_id :: string
  bc_maximum :: int
  bc_spent :: "int option"

record quota_config_row =
  qf_scope :: string
  qf_units :: int

record quota_reservation_row =
  qr_scope :: string
  qr_id :: string
  qr_units :: int
  qr_released :: bool

record rate_config_row =
  rf_scope :: string
  rf_principal :: string
  rf_maxUnits :: int
  rf_windowMs :: int
  rf_lastNow :: int

record rate_charge_row =
  rg_scope :: string
  rg_principal :: string
  rg_id :: string
  rg_createdAt :: int
  rg_units :: int

record net_store =
  net_clock :: int
  net_random :: "nat \<Rightarrow> nat"
  net_next_id :: nat
  in_transaction :: bool
  txn_rows :: nat
  txn_bytes :: nat
  executions :: "execution_row list"
  budget_configs :: "budget_config_row list"
  budget_days :: "budget_daily_row list"
  reservations :: "budget_reservation_row list"
  calls :: "budget_call_row list"
  quota_configs :: "quota_config_row list"
  quota_reservations :: "quota_reservation_row list"
  rate_configs :: "rate_config_row list"
  rate_charges :: "rate_charge_row list"

definition empty_net_store :: "int \<Rightarrow> (nat \<Rightarrow> nat) \<Rightarrow> net_store" where
  "empty_net_store now random = \<lparr>net_clock = now, net_random = random, net_next_id = 0, in_transaction = False, txn_rows = 0,
     txn_bytes = 0, executions = [], budget_configs = [], budget_days = [], reservations = [], calls = [],
     quota_configs = [], quota_reservations = [], rate_configs = [], rate_charges = []\<rparr>"

type_synonym 'a net_txn = "(net_error, net_store, 'a) txn"

section \<open>Transactions\<close>

definition STORE_TXN_MAX_ROWS :: nat where
  "STORE_TXN_MAX_ROWS = 500"

definition STORE_TXN_MAX_BYTES :: nat where
  "STORE_TXN_MAX_BYTES = 1024 * 1024"

definition net_transaction :: "'a net_txn \<Rightarrow> 'a net_txn" where
  "net_transaction work s =
     (if in_transaction s then work s
      else case work (s\<lparr>in_transaction := True, txn_rows := 0, txn_bytes := 0\<rparr>) of
        Inl e \<Rightarrow> Inl e
      | Inr (x, s') \<Rightarrow> Inr (x, s'\<lparr>in_transaction := False\<rparr>))"

definition charge :: "nat \<Rightarrow> nat \<Rightarrow> unit net_txn" where
  "charge rows bytes s =
     (let s' = s\<lparr>txn_rows := txn_rows s + rows, txn_bytes := txn_bytes s + bytes\<rparr> in
      if STORE_TXN_MAX_ROWS < txn_rows s' \<or> STORE_TXN_MAX_BYTES < txn_bytes s' then Inl NTooLarge else Inr ((), s'))"

text \<open>A computation without effects, as a step.\<close>

definition liftE :: "'e + 'a \<Rightarrow> ('e, 's, 'a) txn" where
  "liftE r s = (case r of Inl e \<Rightarrow> Inl e | Inr x \<Rightarrow> Inr (x, s))"

definition integerE :: "int \<Rightarrow> int \<Rightarrow> unit net_txn" where
  "integerE minimum n = requireE (bounded minimum n) NBadRequest"

end
