(* ===== verification/Budgets.thy ===== *)
theory Budgets
  imports NetStore "HOL-Library.Product_Lexorder"
begin

text \<open>
  The budget ledger of bots (\<open>src/mms/net/store/budgets.ts\<close>): a daily allowance for a bot in a space,
  reservations of executions against it, provider calls against a reservation, settlement, and the
  transfer of a bot's accounting to another computer.
\<close>

section \<open>Lookups\<close>

definition DAY_MS :: int where
  "DAY_MS = 86400000"

definition day_of :: "int \<Rightarrow> net_error + int" where
  "day_of now = (case check_integer 0 now of Inl e \<Rightarrow> Inl e | Inr n \<Rightarrow> Inr (n div DAY_MS))"

definition budget_ids :: "string \<Rightarrow> string \<Rightarrow> unit net_txn" where
  "budget_ids botId space = requireE (is_id IdBot botId \<and> is_id IdSpace space) NBadRequest"

definition check_call_id :: "string \<Rightarrow> unit net_txn" where
  "check_call_id i = requireE (i \<noteq> [] \<and> length i \<le> 128) NBadRequest"

definition get_execution :: "string \<Rightarrow> net_store \<Rightarrow> execution_row option" where
  "get_execution i s = lookup_row xr_id i (executions s)"

definition get_config :: "string \<Rightarrow> string \<Rightarrow> net_store \<Rightarrow> budget_config_row option" where
  "get_config botId space s = List.find (\<lambda>c. bf_bot c = botId \<and> bf_space c = space) (budget_configs s)"

definition bucket_key :: "budget_daily_row \<Rightarrow> string \<times> string \<times> int" where
  "bucket_key d = (bd_bot d, bd_space d, bd_day d)"

definition get_daily :: "string \<Rightarrow> string \<Rightarrow> int \<Rightarrow> net_store \<Rightarrow> budget_daily_row option" where
  "get_daily botId space day s = lookup_row bucket_key (botId, space, day) (budget_days s)"

definition get_reservation :: "string \<Rightarrow> net_store \<Rightarrow> budget_reservation_row option" where
  "get_reservation execution s = lookup_row br_execution execution (reservations s)"

definition required_reservation :: "string \<Rightarrow> budget_reservation_row net_txn" where
  "required_reservation execution s =
     (case get_reservation execution s of None \<Rightarrow> Inl NBadRequest | Some r \<Rightarrow> Inr (r, s))"

definition call_key :: "budget_call_row \<Rightarrow> string \<times> string" where
  "call_key c = (bc_execution c, bc_id c)"

definition get_call :: "string \<Rightarrow> string \<Rightarrow> net_store \<Rightarrow> budget_call_row option" where
  "get_call execution i s = lookup_row call_key (execution, i) (calls s)"

definition calls_of :: "string \<Rightarrow> net_store \<Rightarrow> budget_call_row list" where
  "calls_of execution s = filter (\<lambda>c. bc_execution c = execution) (calls s)"

definition in_bucket :: "string \<times> string \<times> int \<Rightarrow> budget_reservation_row \<Rightarrow> bool" where
  "in_bucket b r \<longleftrightarrow> (br_bot r, br_space r, br_day r) = b"

text \<open>What a bucket has spent or still holds for executions that have not settled.\<close>

definition charged :: "string \<Rightarrow> string \<Rightarrow> int \<Rightarrow> int \<Rightarrow> net_store \<Rightarrow> net_error + int" where
  "charged botId space day spent s =
     checked_sum (spent # map br_ceiling
       (filter (\<lambda>r. in_bucket (botId, space, day) r \<and> br_settled r = None) (reservations s)))"

section \<open>Budgets\<close>

definition upsert_config :: "budget_config_row \<Rightarrow> net_store \<Rightarrow> net_store" where
  "upsert_config c s =
     (if get_config (bf_bot c) (bf_space c) s = None then s\<lparr>budget_configs := budget_configs s @ [c]\<rparr>
      else s\<lparr>budget_configs := update_rows (\<lambda>x. bf_bot x = bf_bot c \<and> bf_space x = bf_space c)
             (\<lambda>x. x\<lparr>bf_units := bf_units c\<rparr>) (budget_configs s)\<rparr>)"

definition set_units :: "string \<Rightarrow> string \<Rightarrow> int \<Rightarrow> int \<Rightarrow> net_store \<Rightarrow> net_store" where
  "set_units botId space day units s =
     s\<lparr>budget_days := update_rows (\<lambda>d. bucket_key d = (botId, space, day)) (\<lambda>d. d\<lparr>bd_units := units\<rparr>) (budget_days s)\<rparr>"

definition set_daily_budget :: "string \<Rightarrow> string \<Rightarrow> int \<Rightarrow> unit net_txn" where
  "set_daily_budget botId space units =
     bindE (budget_ids botId space) (\<lambda>_.
     bindE (integerE 1 units) (\<lambda>_.
     net_transaction (\<lambda>s.
       bindE (liftE (day_of (net_clock s))) (\<lambda>day s.
         case get_daily botId space day s of
           None \<Rightarrow> bindE (charge 1 0) (\<lambda>_. modE (upsert_config \<lparr>bf_bot = botId, bf_space = space, bf_units = units\<rparr>)) s
         | Some daily \<Rightarrow>
             (case charged botId space day (bd_spent daily) s of
                Inl e \<Rightarrow> Inl e
              | Inr committed \<Rightarrow>
                  if units < committed then Inl NBudgetExhausted
                  else bindE (charge 2 0) (\<lambda>_. modE (\<lambda>s. set_units botId space day units
                         (upsert_config \<lparr>bf_bot = botId, bf_space = space, bf_units = units\<rparr> s))) s)) s)))"

text \<open>The day's bucket, opened with the configured units when the day has none yet.\<close>

definition open_bucket :: "string \<Rightarrow> string \<Rightarrow> int \<Rightarrow> int \<Rightarrow> budget_daily_row net_txn" where
  "open_bucket botId space day units s =
     (case get_daily botId space day s of
        Some d \<Rightarrow> Inr (d, s)
      | None \<Rightarrow>
          (let d = \<lparr>bd_bot = botId, bd_space = space, bd_day = day, bd_units = units, bd_spent = 0\<rparr> in
           bindE (charge 1 0) (\<lambda>_. bindE (modE (\<lambda>s. s\<lparr>budget_days := budget_days s @ [d]\<rparr>)) (\<lambda>_. retE d)) s))"

definition new_reservation :: "string \<Rightarrow> string \<Rightarrow> string \<Rightarrow> int \<Rightarrow> int \<Rightarrow> unit net_txn" where
  "new_reservation botId space execution units day s =
     (case get_execution execution s of
        None \<Rightarrow> Inl NBadRequest
      | Some x \<Rightarrow>
          if xr_scope x \<noteq> space \<or> xr_target x \<noteq> botId \<or> xr_state x \<noteq> XAccepted then Inl NBadRequest
          else case get_config botId space s of
            None \<Rightarrow> Inl NBudgetExhausted
          | Some c \<Rightarrow>
              bindE (open_bucket botId space day (bf_units c)) (\<lambda>daily s.
              bindE (liftE (charged botId space day (bd_spent daily) s)) (\<lambda>committed.
              bindE (liftE (checked_sum [committed, units])) (\<lambda>needed.
              bindE (requireE (needed \<le> bd_units daily) NBudgetExhausted) (\<lambda>_.
              bindE (charge 1 0) (\<lambda>_.
              modE (\<lambda>s. s\<lparr>reservations := reservations s @ [\<lparr>br_execution = execution, br_bot = botId, br_space = space,
                br_day = day, br_ceiling = units, br_settled = None\<rparr>]\<rparr>))))) s) s)"

definition reserve :: "string \<Rightarrow> string \<Rightarrow> string \<Rightarrow> int \<Rightarrow> int \<Rightarrow> unit net_txn" where
  "reserve botId space execution units now =
     bindE (budget_ids botId space) (\<lambda>_.
     bindE (integerE 1 units) (\<lambda>_.
     bindE (liftE (day_of now)) (\<lambda>day.
     net_transaction (\<lambda>s.
       case get_reservation execution s of
         Some p \<Rightarrow> if br_bot p \<noteq> botId \<or> br_space p \<noteq> space \<or> br_ceiling p \<noteq> units then Inl NConflict else Inr ((), s)
       | None \<Rightarrow> new_reservation botId space execution units day s))))"

definition known_spend :: "budget_call_row list \<Rightarrow> int list option" where
  "known_spend cs = (if list_ex (\<lambda>c. bc_spent c = None) cs then None else Some (List.map_filter bc_spent cs))"

definition record_settlement :: "budget_reservation_row \<Rightarrow> int \<Rightarrow> int \<Rightarrow> net_store \<Rightarrow> net_store" where
  "record_settlement r spentUnits spent s =
     s\<lparr>budget_days := update_rows (\<lambda>d. bucket_key d = (br_bot r, br_space r, br_day r)) (\<lambda>d. d\<lparr>bd_spent := spent\<rparr>) (budget_days s),
       reservations := update_rows (\<lambda>x. br_execution x = br_execution r) (\<lambda>x. x\<lparr>br_settled := Some spentUnits\<rparr>) (reservations s)\<rparr>"

definition settle_reservation :: "budget_reservation_row \<Rightarrow> int \<Rightarrow> unit net_txn" where
  "settle_reservation r spentUnits s =
     (case known_spend (calls_of (br_execution r) s) of
        None \<Rightarrow> Inl NOutcomeUncertain
      | Some known \<Rightarrow>
          bindE (liftE (checked_sum known)) (\<lambda>accounted.
          bindE (requireE (accounted \<le> spentUnits \<and> spentUnits \<le> br_ceiling r) NBudgetExhausted) (\<lambda>_ s.
            case get_daily (br_bot r) (br_space r) (br_day r) s of
              None \<Rightarrow> Inl NStorageCorrupt
            | Some daily \<Rightarrow>
                bindE (liftE (checked_sum [bd_spent daily, spentUnits])) (\<lambda>spent.
                bindE (charge 2 0) (\<lambda>_. modE (record_settlement r spentUnits spent))) s)) s)"

definition settle :: "string \<Rightarrow> int \<Rightarrow> unit net_txn" where
  "settle execution spentUnits =
     bindE (integerE 0 spentUnits) (\<lambda>_.
     net_transaction (
       bindE (required_reservation execution) (\<lambda>r.
         case br_settled r of
           Some units \<Rightarrow> requireE (units = spentUnits) NConflict
         | None \<Rightarrow> settle_reservation r spentUnits)))"

definition remaining :: "string \<Rightarrow> string \<Rightarrow> int \<Rightarrow> net_store \<Rightarrow> net_error + int" where
  "remaining botId space now s =
     (if \<not> (is_id IdBot botId \<and> is_id IdSpace space) then Inl NBadRequest
      else case day_of now of
        Inl e \<Rightarrow> Inl e
      | Inr day \<Rightarrow>
          (case get_daily botId space day s of
             None \<Rightarrow> Inr (case get_config botId space s of None \<Rightarrow> 0 | Some c \<Rightarrow> bf_units c)
           | Some daily \<Rightarrow>
               (case charged botId space day (bd_spent daily) s of
                  Inl e \<Rightarrow> Inl e
                | Inr committed \<Rightarrow> check_integer 0 (bd_units daily - committed))))"

section \<open>Provider calls\<close>

text \<open>\<open>call.spent ?? call.maximum\<close>: what a call may still cost.\<close>

definition call_charge :: "budget_call_row \<Rightarrow> int" where
  "call_charge c = (case bc_spent c of None \<Rightarrow> bc_maximum c | Some n \<Rightarrow> n)"

definition new_call :: "budget_reservation_row \<Rightarrow> string \<Rightarrow> string \<Rightarrow> int \<Rightarrow> unit net_txn" where
  "new_call r execution callId maximumUnits s =
     (if map_option xr_state (get_execution execution s) \<noteq> Some XRunning then Inl NForbidden
      else
        bindE (liftE (checked_sum (map call_charge (calls_of execution s)))) (\<lambda>committed.
        bindE (liftE (checked_sum [committed, maximumUnits])) (\<lambda>needed.
        bindE (requireE (needed \<le> br_ceiling r) NBudgetExhausted) (\<lambda>_.
        bindE (charge 1 0) (\<lambda>_.
        modE (\<lambda>s. s\<lparr>calls := calls s @ [\<lparr>bc_execution = execution, bc_id = callId, bc_maximum = maximumUnits,
          bc_spent = None\<rparr>]\<rparr>))))) s)"

definition authorize_call :: "string \<Rightarrow> string \<Rightarrow> int \<Rightarrow> unit net_txn" where
  "authorize_call execution callId maximumUnits =
     bindE (integerE 0 maximumUnits) (\<lambda>_.
     bindE (check_call_id callId) (\<lambda>_.
     net_transaction (
       bindE (required_reservation execution) (\<lambda>r s.
         if br_settled r \<noteq> None then Inl NConflict
         else case get_call execution callId s of
           Some c \<Rightarrow> if bc_maximum c \<noteq> maximumUnits then Inl NConflict else Inr ((), s)
         | None \<Rightarrow> new_call r execution callId maximumUnits s))))"

definition record_call_spend :: "string \<Rightarrow> string \<Rightarrow> int \<Rightarrow> net_store \<Rightarrow> net_store" where
  "record_call_spend execution callId spentUnits s =
     s\<lparr>calls := update_rows (\<lambda>c. call_key c = (execution, callId)) (\<lambda>c. c\<lparr>bc_spent := Some spentUnits\<rparr>) (calls s)\<rparr>"

definition settle_call :: "string \<Rightarrow> string \<Rightarrow> int \<Rightarrow> unit net_txn" where
  "settle_call execution callId spentUnits =
     bindE (integerE 0 spentUnits) (\<lambda>_.
     bindE (check_call_id callId) (\<lambda>_.
     net_transaction (
       bindE (required_reservation execution) (\<lambda>r s.
         case get_call execution callId s of
           None \<Rightarrow> Inl NBadRequest
         | Some c \<Rightarrow>
             (case bc_spent c of
                Some units \<Rightarrow> if units \<noteq> spentUnits then Inl NConflict else Inr ((), s)
              | None \<Rightarrow>
                  if br_settled r \<noteq> None then Inl NConflict
                  else if bc_maximum c < spentUnits then Inl NBudgetExhausted
                  else bindE (charge 1 0) (\<lambda>_. modE (record_call_spend execution callId spentUnits)) s)))))"

section \<open>Transfer to another computer\<close>

record transfer_daily =
  td_space :: string
  td_day :: int
  td_budgetUnits :: int
  td_spentUnits :: int

record transfer_call =
  tc_id :: string
  tc_maximumUnits :: int
  tc_spentUnits :: "int option"

record transfer_reservation =
  tv_execution :: string
  tv_space :: string
  tv_day :: int
  tv_ceilingUnits :: int
  tv_settledUnits :: "int option"
  tv_calls :: "transfer_call list"

record bot_transfer =
  bt_bot :: string
  bt_daily :: "transfer_daily list"
  bt_reservations :: "transfer_reservation list"

definition export_daily :: "budget_daily_row \<Rightarrow> transfer_daily" where
  "export_daily d = \<lparr>td_space = bd_space d, td_day = bd_day d, td_budgetUnits = bd_units d, td_spentUnits = bd_spent d\<rparr>"

definition export_call :: "budget_call_row \<Rightarrow> transfer_call" where
  "export_call c = \<lparr>tc_id = bc_id c, tc_maximumUnits = bc_maximum c, tc_spentUnits = bc_spent c\<rparr>"

definition export_reservation :: "net_store \<Rightarrow> budget_reservation_row \<Rightarrow> transfer_reservation" where
  "export_reservation s r = \<lparr>tv_execution = br_execution r, tv_space = br_space r, tv_day = br_day r,
     tv_ceilingUnits = br_ceiling r, tv_settledUnits = br_settled r,
     tv_calls = map export_call (sort_key bc_id (calls_of (br_execution r) s))\<rparr>"

definition export_for :: "string \<Rightarrow> net_store \<Rightarrow> bot_transfer" where
  "export_for botId s = \<lparr>bt_bot = botId,
     bt_daily = map export_daily (sort_key (\<lambda>d. (bd_space d, bd_day d)) (filter (\<lambda>d. bd_bot d = botId) (budget_days s))),
     bt_reservations = map (export_reservation s) (sort_key br_execution (filter (\<lambda>r. br_bot r = botId) (reservations s)))\<rparr>"

definition opt_num :: "string \<Rightarrow> int option \<Rightarrow> (string \<times> json) list" where
  "opt_num k v = (case v of None \<Rightarrow> [] | Some n \<Rightarrow> [(k, JNum n)])"

definition daily_json :: "transfer_daily \<Rightarrow> json" where
  "daily_json d = JObj [(''space'', JStr (td_space d)), (''day'', JNum (td_day d)),
     (''budgetUnits'', JNum (td_budgetUnits d)), (''spentUnits'', JNum (td_spentUnits d))]"

definition call_json :: "transfer_call \<Rightarrow> json" where
  "call_json c = JObj ([(''id'', JStr (tc_id c)), (''maximumUnits'', JNum (tc_maximumUnits c))] @
     opt_num ''spentUnits'' (tc_spentUnits c))"

definition reservation_json :: "transfer_reservation \<Rightarrow> json" where
  "reservation_json r = JObj ([(''execution'', JStr (tv_execution r)), (''space'', JStr (tv_space r)),
     (''day'', JNum (tv_day r)), (''ceilingUnits'', JNum (tv_ceilingUnits r))] @
     opt_num ''settledUnits'' (tv_settledUnits r) @ [(''calls'', JArr (map call_json (tv_calls r)))])"

definition transfer_json :: "bot_transfer \<Rightarrow> json" where
  "transfer_json t = JObj [(''bot'', JStr (bt_bot t)), (''daily'', JArr (map daily_json (bt_daily t))),
     (''reservations'', JArr (map reservation_json (bt_reservations t)))]"

text \<open>\<open>seen\<close> is the code's \<open>bucketKeys\<close>: a key \<open>space/day\<close> as the pair it spells.\<close>

fun check_buckets :: "(string \<times> int) list \<Rightarrow> transfer_daily list \<Rightarrow> net_error + (string \<times> int) list" where
  "check_buckets seen [] = Inr seen"
| "check_buckets seen (b # bs) =
     (if \<not> is_id IdSpace (td_space b) \<or> \<not> bounded 0 (td_day b) \<or> \<not> bounded 1 (td_budgetUnits b) \<or>
         \<not> bounded 0 (td_spentUnits b) then Inl NBadRequest
      else if (td_space b, td_day b) \<in> set seen \<or> td_budgetUnits b < td_spentUnits b then Inl NBadRequest
      else check_buckets ((td_space b, td_day b) # seen) bs)"

definition transfer_charge :: "transfer_call \<Rightarrow> int" where
  "transfer_charge c = (case tc_spentUnits c of None \<Rightarrow> tc_maximumUnits c | Some n \<Rightarrow> n)"

fun check_calls :: "bool \<Rightarrow> string list \<Rightarrow> int \<Rightarrow> transfer_call list \<Rightarrow> net_error + int" where
  "check_calls settled seen acc [] = Inr acc"
| "check_calls settled seen acc (c # cs) =
     (if tc_id c = [] \<or> 128 < length (tc_id c) \<or> \<not> bounded 0 (tc_maximumUnits c) then Inl NBadRequest
      else if tc_id c \<in> set seen then Inl NBadRequest
      else if (case tc_spentUnits c of None \<Rightarrow> settled | Some n \<Rightarrow> \<not> bounded 0 n \<or> tc_maximumUnits c < n)
      then Inl NBadRequest
      else case checked_sum [acc, transfer_charge c] of
        Inl e \<Rightarrow> Inl e
      | Inr acc' \<Rightarrow> check_calls settled (tc_id c # seen) acc' cs)"

definition STOPPED_STATES :: "execution_state list" where
  "STOPPED_STATES = [XCompleted, XFailed, XCancelled, XUncertain, XExpired]"

definition check_reservation ::
  "string \<Rightarrow> (string \<times> int) list \<Rightarrow> string list \<Rightarrow> transfer_reservation \<Rightarrow> net_store \<Rightarrow> net_error + unit" where
  "check_reservation botId buckets seen r s =
     (if \<not> bounded 0 (tv_day r) \<or> \<not> bounded 1 (tv_ceilingUnits r) \<or>
         (case tv_settledUnits r of None \<Rightarrow> False | Some n \<Rightarrow> \<not> bounded 0 n) then Inl NBadRequest
      else if (case get_execution (tv_execution r) s of None \<Rightarrow> True
           | Some x \<Rightarrow> xr_scope x \<noteq> tv_space r \<or> xr_target x \<noteq> botId \<or> xr_state x \<notin> set STOPPED_STATES)
      then Inl NConflict
      else if tv_execution r \<in> set seen \<or> (tv_space r, tv_day r) \<notin> set buckets \<or>
         (case tv_settledUnits r of None \<Rightarrow> False | Some n \<Rightarrow> tv_ceilingUnits r < n) then Inl NBadRequest
      else case check_calls (tv_settledUnits r \<noteq> None) [] 0 (tv_calls r) of
        Inl e \<Rightarrow> Inl e
      | Inr total_charge \<Rightarrow>
          if tv_ceilingUnits r < total_charge \<or>
             (case tv_settledUnits r of None \<Rightarrow> False | Some n \<Rightarrow> n < total_charge) then Inl NBadRequest
          else Inr ())"

fun check_reservations ::
  "string \<Rightarrow> (string \<times> int) list \<Rightarrow> string list \<Rightarrow> transfer_reservation list \<Rightarrow> net_store \<Rightarrow> net_error + unit" where
  "check_reservations botId buckets seen [] s = Inr ()"
| "check_reservations botId buckets seen (r # rs) s =
     (case check_reservation botId buckets seen r s of
        Inl e \<Rightarrow> Inl e
      | Inr _ \<Rightarrow> check_reservations botId buckets (tv_execution r # seen) rs s)"

definition import_bucket :: "string \<Rightarrow> transfer_reservation list \<Rightarrow> transfer_daily \<Rightarrow> unit net_txn" where
  "import_bucket botId rs b =
     (let matching = filter (\<lambda>r. tv_space r = td_space b \<and> tv_day r = td_day b) rs in
      bindE (liftE (checked_sum (List.map_filter tv_settledUnits matching))) (\<lambda>settled.
      bindE (requireE (settled = td_spentUnits b) NConflict) (\<lambda>_.
      bindE (liftE (checked_sum (td_spentUnits b #
               map tv_ceilingUnits (filter (\<lambda>r. tv_settledUnits r = None) matching)))) (\<lambda>committed.
      bindE (requireE (committed \<le> td_budgetUnits b) NConflict) (\<lambda>_.
      bindE (charge 1 0) (\<lambda>_ s.
        if get_daily botId (td_space b) (td_day b) s \<noteq> None then Inl NConflict
        else Inr ((), s\<lparr>budget_days := budget_days s @ [\<lparr>bd_bot = botId, bd_space = td_space b, bd_day = td_day b,
               bd_units = td_budgetUnits b, bd_spent = td_spentUnits b\<rparr>]\<rparr>)))))))"

definition import_call :: "string \<Rightarrow> transfer_call \<Rightarrow> unit net_txn" where
  "import_call execution c =
     bindE (charge 1 0) (\<lambda>_ s.
       if get_call execution (tc_id c) s \<noteq> None then Inl NConflict
       else Inr ((), s\<lparr>calls := calls s @ [\<lparr>bc_execution = execution, bc_id = tc_id c,
              bc_maximum = tc_maximumUnits c, bc_spent = tc_spentUnits c\<rparr>]\<rparr>))"

definition import_reservation :: "string \<Rightarrow> transfer_reservation \<Rightarrow> unit net_txn" where
  "import_reservation botId r =
     bindE (charge 1 0) (\<lambda>_.
     bindE (\<lambda>s. if get_reservation (tv_execution r) s \<noteq> None then Inl NConflict
            else Inr ((), s\<lparr>reservations := reservations s @ [\<lparr>br_execution = tv_execution r, br_bot = botId,
                   br_space = tv_space r, br_day = tv_day r, br_ceiling = tv_ceilingUnits r,
                   br_settled = tv_settledUnits r\<rparr>]\<rparr>)) (\<lambda>_.
     bindE (forE (tv_calls r) (import_call (tv_execution r))) (\<lambda>_. retE ())))"

definition transfer_count :: "bot_transfer \<Rightarrow> nat" where
  "transfer_count t = length (bt_daily t) + sum_list (map (\<lambda>r. 1 + length (tv_calls r)) (bt_reservations t))"

definition install_transfer :: "string \<Rightarrow> bot_transfer \<Rightarrow> unit net_txn" where
  "install_transfer botId t =
     bindE (liftE (check_buckets [] (bt_daily t))) (\<lambda>buckets s.
     bindE (liftE (check_reservations botId buckets [] (bt_reservations t) s)) (\<lambda>_.
     bindE (forE (bt_daily t) (import_bucket botId (bt_reservations t))) (\<lambda>_.
     bindE (forE (bt_reservations t) (import_reservation botId)) (\<lambda>_. retE ()))) s)"

definition import_for :: "string \<Rightarrow> bot_transfer \<Rightarrow> unit net_txn" where
  "import_for botId t =
     bindE (requireE (botId = bt_bot t \<and> is_id IdBot botId) NBadRequest) (\<lambda>_.
     bindE (requireE (transfer_count t \<le> 500) NTooLarge) (\<lambda>_.
     bindE (liftE (canonical_json (transfer_json t))) (\<lambda>text_of.
     bindE (requireE (utf8_length text_of \<le> 1024 * 1024) NTooLarge) (\<lambda>_.
     net_transaction (\<lambda>s.
       let current = export_for botId s in
       if bt_daily current \<noteq> [] \<or> bt_reservations current \<noteq> []
       then bindE (liftE (same_json (transfer_json current) (transfer_json t))) (\<lambda>eq. requireE eq NConflict) s
       else install_transfer botId t s)))))"

end
