(* ===== verification/Executions.thy ===== *)
theory Executions
  imports Budgets
begin

text \<open>
  The execution ledger (\<open>src/mms/net/store/executions.ts\<close>): one row for each accepted trigger of a
  bot or of a node's request, found again by its key, moved through its states, recovered after a
  restart, pruned and transferred. \<open>sideEffects\<close> and \<open>beforeDelete\<close> are callbacks of the services: they
  run inside the transaction and are parameters here (an absent callback is \<open>no_effects\<close>). The fault
  checkpoints of the code are not part of the model.
\<close>

section \<open>Records\<close>

definition terminal_states :: "execution_state list" where
  "terminal_states = [XCompleted, XFailed, XCancelled, XUncertain, XExpired]"

fun execution_transitions :: "execution_state \<Rightarrow> execution_state list" where
  "execution_transitions XAccepted = [XRunning, XFailed, XCancelled, XUncertain]"
| "execution_transitions XRunning = [XWaitingApproval, XCompleted, XFailed, XCancelled, XUncertain]"
| "execution_transitions XWaitingApproval = [XRunning, XCancelled, XUncertain]"
| "execution_transitions XCompleted = []"
| "execution_transitions XFailed = []"
| "execution_transitions XCancelled = []"
| "execution_transitions XUncertain = []"
| "execution_transitions XExpired = []"

record execution_key =
  ek_scope :: string
  ek_target :: string
  ek_trigger :: string

datatype admit_outcome = Admitted execution_row | DuplicateAdmit execution_row

type_synonym execution_effects = "execution_row \<Rightarrow> unit net_txn"

definition no_effects :: execution_effects where
  "no_effects x = retE ()"

definition row_key :: "execution_row \<Rightarrow> execution_key" where
  "row_key x = \<lparr>ek_scope = xr_scope x, ek_target = xr_target x, ek_trigger = xr_trigger x\<rparr>"

fun state_text :: "execution_state \<Rightarrow> string" where
  "state_text XAccepted = ''accepted''"
| "state_text XRunning = ''running''"
| "state_text XWaitingApproval = ''waitingApproval''"
| "state_text XCompleted = ''completed''"
| "state_text XFailed = ''failed''"
| "state_text XCancelled = ''cancelled''"
| "state_text XUncertain = ''uncertain''"
| "state_text XExpired = ''expired''"

definition error_json :: "string \<times> string \<Rightarrow> json" where
  "error_json e = JObj [(''code'', JStr (fst e)), (''message'', JStr (snd e))]"

definition optional_member :: "string \<Rightarrow> json option \<Rightarrow> (string \<times> json) list" where
  "optional_member k v = (case v of None \<Rightarrow> [] | Some x \<Rightarrow> [(k, x)])"

definition execution_json :: "execution_row \<Rightarrow> json" where
  "execution_json x = JObj ([(''id'', JStr (xr_id x)), (''scope'', JStr (xr_scope x)), (''target'', JStr (xr_target x)),
     (''trigger'', JStr (xr_trigger x)), (''payloadHash'', JStr (xr_payloadHash x)), (''state'', JStr (state_text (xr_state x))),
     (''startedAt'', JNum (xr_startedAt x)), (''updatedAt'', JNum (xr_updatedAt x))] @
     optional_member ''result'' (xr_result x) @ optional_member ''error'' (map_option error_json (xr_error x)) @
     optional_member ''binding'' (xr_binding x))"

text \<open>The bytes a value takes, as \<open>charge\<close> counts them.\<close>

definition charge_json :: "nat \<Rightarrow> json \<Rightarrow> unit net_txn" where
  "charge_json rows v = bindE (liftE (canonical_json v)) (\<lambda>t. charge rows (utf8_length t))"

section \<open>Reading\<close>

definition find_execution :: "execution_key \<Rightarrow> net_store \<Rightarrow> execution_row option" where
  "find_execution k s = lookup_row row_key k (executions s)"

definition required_execution :: "string \<Rightarrow> execution_row net_txn" where
  "required_execution i s = (case get_execution i s of None \<Rightarrow> Inl NBadRequest | Some x \<Rightarrow> Inr (x, s))"

definition hash_char :: "char \<Rightarrow> bool" where
  "hash_char c \<longleftrightarrow> c \<in> set ''0123456789abcdef''"

definition valid_key :: "execution_key \<Rightarrow> string \<Rightarrow> bool" where
  "valid_key k hash \<longleftrightarrow> (is_id IdSpace (ek_scope k) \<or> is_id IdNode (ek_scope k)) \<and> ek_target k \<noteq> [] \<and> ek_trigger k \<noteq> [] \<and>
     length (ek_target k) \<le> 256 \<and> length (ek_trigger k) \<le> 256 \<and> length hash = 64 \<and> list_all hash_char hash"

definition validate_key :: "execution_key \<Rightarrow> string \<Rightarrow> int \<Rightarrow> unit net_txn" where
  "validate_key k hash now = bindE (integerE 0 now) (\<lambda>_. requireE (valid_key k hash) NBadRequest)"

section \<open>Admission\<close>

text \<open>The constraints of the table: \<open>id\<close> is its primary key and the trigger key is unique.\<close>

definition insert_execution_row :: "execution_row \<Rightarrow> unit net_txn" where
  "insert_execution_row x s =
     (if get_execution (xr_id x) s \<noteq> None \<or> find_execution (row_key x) s \<noteq> None then Inl NConflict
      else Inr ((), s\<lparr>executions := executions s @ [x]\<rparr>))"

definition next_execution_id :: "string option \<Rightarrow> string net_txn" where
  "next_execution_id planned s =
     (case planned of
        Some i \<Rightarrow> Inr (i, s)
      | None \<Rightarrow> Inr (new_id IdExecution (net_random s (net_next_id s)), s\<lparr>net_next_id := Suc (net_next_id s)\<rparr>))"

definition new_execution :: "execution_key \<Rightarrow> string \<Rightarrow> int \<Rightarrow> execution_state \<Rightarrow> string \<Rightarrow> execution_row" where
  "new_execution k hash now state i = \<lparr>xr_id = i, xr_scope = ek_scope k, xr_target = ek_target k,
     xr_trigger = ek_trigger k, xr_payloadHash = hash, xr_state = state, xr_startedAt = now, xr_updatedAt = now,
     xr_result = None, xr_error = None, xr_binding = None\<rparr>"

definition install_execution :: "execution_effects \<Rightarrow> execution_row \<Rightarrow> admit_outcome net_txn" where
  "install_execution sideEffects x s =
     bindE (charge_json 1 (execution_json x)) (\<lambda>_.
     bindE (insert_execution_row x) (\<lambda>_.
     bindE (sideEffects x) (\<lambda>_.
     bindE (required_execution (xr_id x)) (\<lambda>y. retE (Admitted y))))) s"

definition insert_new ::
  "execution_key \<Rightarrow> string \<Rightarrow> int \<Rightarrow> execution_state \<Rightarrow> execution_effects \<Rightarrow> string option \<Rightarrow> admit_outcome net_txn" where
  "insert_new k hash now state sideEffects planned =
     bindE (next_execution_id planned) (\<lambda>i. install_execution sideEffects (new_execution k hash now state i))"

definition insert_execution ::
  "execution_key \<Rightarrow> string \<Rightarrow> int \<Rightarrow> execution_state \<Rightarrow> execution_effects \<Rightarrow> string option \<Rightarrow> admit_outcome net_txn" where
  "insert_execution k hash now state sideEffects planned =
     bindE (validate_key k hash now) (\<lambda>_.
     bindE (requireE (case planned of None \<Rightarrow> True | Some i \<Rightarrow> is_id IdExecution i) NBadRequest) (\<lambda>_.
     net_transaction (\<lambda>s.
       case find_execution k s of
         Some p \<Rightarrow> if xr_payloadHash p \<noteq> hash then Inl NConflict else Inr (DuplicateAdmit p, s)
       | None \<Rightarrow>
           if (case planned of None \<Rightarrow> False | Some i \<Rightarrow> get_execution i s \<noteq> None) then Inl NConflict
           else insert_new k hash now state sideEffects planned s)))"

definition admit :: "execution_key \<Rightarrow> string \<Rightarrow> int \<Rightarrow> execution_effects \<Rightarrow> string option \<Rightarrow> admit_outcome net_txn" where
  "admit k hash now sideEffects planned = insert_execution k hash now XAccepted sideEffects planned"

datatype expire_outcome = Expired execution_row | DuplicateExpire execution_row

definition expire :: "execution_key \<Rightarrow> string \<Rightarrow> int \<Rightarrow> execution_effects \<Rightarrow> string option \<Rightarrow> expire_outcome net_txn" where
  "expire k hash now sideEffects planned =
     bindE (insert_execution k hash now XExpired sideEffects planned) (\<lambda>r.
       retE (case r of Admitted x \<Rightarrow> Expired x | DuplicateAdmit x \<Rightarrow> DuplicateExpire x))"

section \<open>Binding and transitions\<close>

definition update_execution :: "string \<Rightarrow> (execution_row \<Rightarrow> execution_row) \<Rightarrow> net_store \<Rightarrow> net_store" where
  "update_execution i f s = s\<lparr>executions := update_rows (\<lambda>x. xr_id x = i) f (executions s)\<rparr>"

definition bind_run :: "string \<Rightarrow> json \<Rightarrow> unit net_txn" where
  "bind_run i binding s =
     (if \<not> in_transaction s then Inl NBadRequest
      else net_transaction (
        bindE (required_execution i) (\<lambda>x.
          case xr_binding x of
            Some old \<Rightarrow> bindE (liftE (same_json old binding)) (\<lambda>eq. requireE eq NConflict)
          | None \<Rightarrow>
              bindE (requireE (xr_state x = XAccepted \<and> Some (xr_scope x) = jstring (jfield binding ''space'') \<and>
                Some (xr_target x) = jstring (jfield binding ''bot'')) NConflict) (\<lambda>_.
              bindE (charge_json 1 binding) (\<lambda>_.
              modE (update_execution i (\<lambda>x. x\<lparr>xr_binding := Some (stored binding)\<rparr>)))))) s)"

text \<open>\<open>patch\<close>: the members \<open>result\<close> and \<open>error\<close> it has.\<close>

record execution_patch =
  pa_result :: "json option"
  pa_error :: "(string \<times> string) option"

definition empty_patch :: execution_patch where
  "empty_patch = \<lparr>pa_result = None, pa_error = None\<rparr>"

definition or_null :: "json option \<Rightarrow> json" where
  "or_null v = (case v of None \<Rightarrow> JNull | Some x \<Rightarrow> x)"

definition differs :: "json option \<Rightarrow> json option \<Rightarrow> net_error + bool" where
  "differs old patched =
     (case patched of
        None \<Rightarrow> Inr False
      | Some v \<Rightarrow> (case same_json (or_null old) v of Inl e \<Rightarrow> Inl e | Inr eq \<Rightarrow> Inr (\<not> eq)))"

definition patched_execution :: "execution_row \<Rightarrow> execution_patch \<Rightarrow> execution_state \<Rightarrow> int \<Rightarrow> execution_row" where
  "patched_execution x p to now =
     x\<lparr>xr_result := (case pa_result p of None \<Rightarrow> xr_result x | Some v \<Rightarrow> Some v),
       xr_error := (case pa_error p of None \<Rightarrow> xr_error x | Some e \<Rightarrow> Some e), xr_state := to, xr_updatedAt := now\<rparr>"

definition replayed :: "execution_row \<Rightarrow> execution_patch \<Rightarrow> execution_row net_txn" where
  "replayed x p =
     bindE (liftE (differs (xr_result x) (pa_result p))) (\<lambda>r.
     bindE (requireE (\<not> r) NConflict) (\<lambda>_.
     bindE (liftE (differs (map_option error_json (xr_error x)) (map_option error_json (pa_error p)))) (\<lambda>e.
     bindE (requireE (\<not> e) NConflict) (\<lambda>_. retE x))))"

definition write_execution :: "execution_row \<Rightarrow> net_store \<Rightarrow> net_store" where
  "write_execution n = update_execution (xr_id n) (\<lambda>x. x\<lparr>xr_state := xr_state n, xr_updatedAt := xr_updatedAt n,
     xr_result := map_option stored (xr_result n), xr_error := xr_error n\<rparr>)"

definition commit_transition :: "execution_effects \<Rightarrow> execution_row \<Rightarrow> execution_row net_txn" where
  "commit_transition sideEffects n s =
     bindE (charge_json 1 (execution_json n)) (\<lambda>_.
     bindE (modE (write_execution n)) (\<lambda>_.
     bindE (sideEffects n) (\<lambda>_. required_execution (xr_id n)))) s"

definition apply_transition ::
  "execution_state \<Rightarrow> int \<Rightarrow> execution_patch \<Rightarrow> execution_effects \<Rightarrow> execution_row \<Rightarrow> execution_row net_txn" where
  "apply_transition to now patch sideEffects x s =
     (if xr_state x = to then replayed x patch s
      else if xr_state x \<in> set terminal_states \<or> to \<notin> set (execution_transitions (xr_state x)) then Inl NConflict
      else if now < xr_updatedAt x then Inl NBadRequest
      else commit_transition sideEffects (patched_execution x patch to now) s)"

definition transition_execution ::
  "string \<Rightarrow> execution_state \<Rightarrow> int \<Rightarrow> execution_patch \<Rightarrow> execution_effects \<Rightarrow> execution_row net_txn" where
  "transition_execution i to now patch sideEffects =
     bindE (integerE 0 now) (\<lambda>_.
     net_transaction (bindE (required_execution i) (apply_transition to now patch sideEffects)))"

section \<open>Recovery after a restart\<close>

definition active_states :: "execution_state list" where
  "active_states = [XAccepted, XRunning, XWaitingApproval]"

definition active_batch :: "net_store \<Rightarrow> execution_row list" where
  "active_batch s = take 100 (sort_key xr_id (filter (\<lambda>x. xr_state x \<in> set active_states) (executions s)))"

definition recover_execution :: "int \<Rightarrow> execution_effects \<Rightarrow> execution_row \<Rightarrow> execution_row net_txn" where
  "recover_execution now sideEffects x =
     (if xr_state x = XAccepted
      then transition_execution (xr_id x) XFailed now (empty_patch\<lparr>pa_error :=
        Some (''not_started'', ''Execution was accepted but had not started before restart.'')\<rparr>) sideEffects
      else transition_execution (xr_id x) XUncertain now (empty_patch\<lparr>pa_error :=
        Some (''outcome_uncertain'', ''Execution may have performed unrecorded effects before restart.'')\<rparr>) sideEffects)"

text \<open>
  Each record is recovered in a transaction of its own: when one throws, what the earlier ones
  committed stays.
\<close>

fun recover_batch :: "int \<Rightarrow> execution_effects \<Rightarrow> execution_row list \<Rightarrow> net_store \<Rightarrow> (net_error + execution_row list) \<times> net_store" where
  "recover_batch now fx [] s = (Inr [], s)"
| "recover_batch now fx (x # xs) s =
     (case recover_execution now fx x s of
        Inl e \<Rightarrow> (Inl e, s)
      | Inr (y, s1) \<Rightarrow>
          (case recover_batch now fx xs s1 of
             (Inl e, s2) \<Rightarrow> (Inl e, s2)
           | (Inr ys, s2) \<Rightarrow> (Inr (y # ys), s2)))"

text \<open>\<open>for (;;)\<close>: \<open>None\<close> when the loop does not end.\<close>

partial_function (option) recover_loop ::
  "int \<Rightarrow> execution_effects \<Rightarrow> execution_row list \<Rightarrow> net_store \<Rightarrow> ((net_error + execution_row list) \<times> net_store) option" where
  "recover_loop now fx changed s =
     (if active_batch s = [] then Some (Inr changed, s)
      else case recover_batch now fx (active_batch s) s of
        (Inl e, s1) \<Rightarrow> Some (Inl e, s1)
      | (Inr ys, s1) \<Rightarrow> recover_loop now fx (changed @ ys) s1)"

declare recover_loop.simps [code]

definition recover_after_restart ::
  "int \<Rightarrow> execution_effects \<Rightarrow> net_store \<Rightarrow> ((net_error + execution_row list) \<times> net_store) option" where
  "recover_after_restart now fx s =
     (if bounded 0 now then recover_loop now fx [] s else Some (Inl NBadRequest, s))"

section \<open>Pruning\<close>

definition PRUNE_BATCH :: nat where
  "PRUNE_BATCH = 100"

definition prunable :: "int \<Rightarrow> net_store \<Rightarrow> execution_row \<Rightarrow> bool" where
  "prunable olderThan s x \<longleftrightarrow> ''nod_'' \<le> xr_scope x \<and> xr_scope x < ''nod`'' \<and> xr_state x \<in> set terminal_states \<and>
     xr_updatedAt x < olderThan \<and> list_all (\<lambda>r. br_execution r \<noteq> xr_id x) (reservations s)"

definition prune_ids :: "int \<Rightarrow> nat \<Rightarrow> net_store \<Rightarrow> string list" where
  "prune_ids olderThan n s =
     map xr_id (take n (sort_key (\<lambda>x. (xr_updatedAt x, xr_id x)) (filter (prunable olderThan s) (executions s))))"

text \<open>A row a reservation refers to cannot go: the foreign key of the reservations.\<close>

definition delete_execution :: "string \<Rightarrow> unit net_txn" where
  "delete_execution i s =
     (if list_ex (\<lambda>r. br_execution r = i) (reservations s) then Inl NConflict
      else Inr ((), s\<lparr>executions := filter (\<lambda>x. xr_id x \<noteq> i) (executions s)\<rparr>))"

definition prune :: "int \<Rightarrow> nat \<Rightarrow> (string list \<Rightarrow> unit net_txn) \<Rightarrow> nat net_txn" where
  "prune olderThan limit beforeDelete =
     bindE (integerE 0 olderThan) (\<lambda>_.
     net_transaction (\<lambda>s.
       let ids = prune_ids olderThan limit s in
       if ids = [] then Inr (0, s)
       else bindE (charge (2 * length ids) 0) (\<lambda>_.
            bindE (beforeDelete ids) (\<lambda>_.
            bindE (forE ids delete_execution) (\<lambda>_. retE (length ids)))) s))"

section \<open>Transfer to another computer\<close>

definition export_executions :: "string \<Rightarrow> net_store \<Rightarrow> execution_row list" where
  "export_executions target s =
     sort_key (\<lambda>x. (xr_scope x, xr_trigger x)) (filter (\<lambda>x. xr_target x = target) (executions s))"

definition stored_execution :: "execution_row \<Rightarrow> execution_row" where
  "stored_execution x = x\<lparr>xr_result := map_option stored (xr_result x), xr_binding := map_option stored (xr_binding x)\<rparr>"

definition import_execution :: "string \<Rightarrow> execution_row \<Rightarrow> unit net_txn" where
  "import_execution target x =
     bindE (validate_key (row_key x) (xr_payloadHash x) (xr_startedAt x)) (\<lambda>_.
     bindE (integerE 0 (xr_updatedAt x)) (\<lambda>_.
     bindE (requireE (is_id IdExecution (xr_id x) \<and> xr_target x = target \<and> xr_state x \<in> set terminal_states) NBadRequest) (\<lambda>_ s.
       case find_execution (row_key x) s of
         Some p \<Rightarrow> bindE (liftE (same_json (execution_json p) (execution_json x))) (\<lambda>eq. requireE eq NConflict) s
       | None \<Rightarrow>
           if get_execution (xr_id x) s \<noteq> None then Inl NConflict
           else bindE (charge_json 1 (execution_json x)) (\<lambda>_. insert_execution_row (stored_execution x)) s)))"

definition import_executions :: "string \<Rightarrow> execution_row list \<Rightarrow> unit net_txn" where
  "import_executions target rows =
     bindE (requireE (length rows \<le> 500) NTooLarge) (\<lambda>_.
     bindE (liftE (canonical_json (JArr (map execution_json rows)))) (\<lambda>t.
     bindE (requireE (utf8_length t \<le> 1024 * 1024) NTooLarge) (\<lambda>_.
     net_transaction (
       bindE (forE rows (import_execution target)) (\<lambda>_. retE ())))))"

end
