(* ===== verification/BudgetLaws.thy ===== *)
theory BudgetLaws
  imports Budgets
begin

text \<open>
  What the budget ledger promises. \<open>budget_ok\<close> is the invariant of its tables; \<open>account\<close> is the
  abstract view of a day's bucket: its limit and what it has committed (spent, or held for executions
  that have not settled). Every operation is a sequence of steps of the abstract accounts, none of
  which commits more than the limit.
\<close>

section \<open>Checked sums\<close>

lemma sum_from_Inr: "sum_from acc ns = Inr n \<Longrightarrow> n = acc + sum_list ns \<and> (\<forall>x \<in> set ns. 0 \<le> x)"
  by (induction ns arbitrary: acc) (force simp: bounded_def split: if_splits)+

lemma checked_sum_Inr: "checked_sum ns = Inr n \<Longrightarrow> n = sum_list ns \<and> (\<forall>x \<in> set ns. 0 \<le> x)"
  using sum_from_Inr by (fastforce simp: checked_sum_def)

lemma sum_from_ok:
  "(\<And>x. x \<in> set ns \<Longrightarrow> 0 \<le> x) \<Longrightarrow> 0 \<le> acc \<Longrightarrow> acc + sum_list ns \<le> max_safe \<Longrightarrow> sum_from acc ns = Inr (acc + sum_list ns)"
proof (induction ns arbitrary: acc)
  case (Cons n ns)
  have "0 \<le> sum_list ns" using Cons.prems(1) by (intro sum_list_nonneg) simp
  moreover have "0 \<le> n" using Cons.prems(1) by simp
  ultimately have "bounded 0 n \<and> bounded 0 (acc + n)"
    using Cons.prems(2,3) by (simp add: bounded_def max_safe_def)
  moreover have "sum_from (acc + n) ns = Inr (acc + n + sum_list ns)"
    using Cons.IH [of "acc + n"] Cons.prems \<open>0 \<le> n\<close> by (simp add: add.assoc)
  ultimately show ?case by (simp add: add.assoc)
qed simp

lemma checked_sum_ok:
  "(\<And>x. x \<in> set ns \<Longrightarrow> 0 \<le> x) \<Longrightarrow> sum_list ns \<le> max_safe \<Longrightarrow> checked_sum ns = Inr (sum_list ns)"
  using sum_from_ok [of ns 0] by (simp add: checked_sum_def)

section \<open>Transactions\<close>

lemma keeps_net_transaction:
  assumes "keeps P work" "\<And>(s :: net_store) b r y. P (s\<lparr>in_transaction := b, txn_rows := r, txn_bytes := y\<rparr>) = P s"
  shows "keeps P (net_transaction work)"
proof
  fix s x s' assume P: "P s" and run: "net_transaction work s = Inr (x, s')"
  show "P s'"
  proof (cases "in_transaction s")
    case True
    with run P keepsD [OF assms(1)] show ?thesis by (simp add: net_transaction_def)
  next
    case False
    then obtain s1 where s1: "work (s\<lparr>in_transaction := True, txn_rows := 0, txn_bytes := 0\<rparr>) = Inr (x, s1)"
      "s' = s1\<lparr>in_transaction := False\<rparr>"
      using run by (auto simp: net_transaction_def split: sum.splits)
    have "P s1" using keepsD [OF assms(1) s1(1)] assms(2) P by blast
    then show ?thesis
      using assms(2) [where s = s1 and b = False and r = "txn_rows s1" and y = "txn_bytes s1"] by (simp add: s1(2))
  qed
qed

lemma charge_Inr: "charge r y s = Inr (x, s') \<Longrightarrow> s' = s\<lparr>txn_rows := txn_rows s + r, txn_bytes := txn_bytes s + y\<rparr>"
  by (auto simp: charge_def Let_def split: if_splits)

lemma liftE_Inr [simp]: "liftE r s = Inr (x, s') \<longleftrightarrow> r = Inr x \<and> s' = s"
  by (auto simp: liftE_def split: sum.splits)

lemma liftE_Inl [simp]: "liftE r s = Inl e \<longleftrightarrow> r = Inl e"
  by (auto simp: liftE_def split: sum.splits)

lemma integerE_Inr [simp]: "integerE m n s = Inr (x, s') \<longleftrightarrow> bounded m n \<and> s' = s"
  by (auto simp: integerE_def)

section \<open>The invariant\<close>

definition call_total :: "budget_call_row list \<Rightarrow> int" where
  "call_total cs = sum_list (map call_charge cs)"

definition held_units :: "string \<times> string \<times> int \<Rightarrow> budget_reservation_row list \<Rightarrow> int" where
  "held_units b rs = sum_list (map br_ceiling (filter (\<lambda>r. in_bucket b r \<and> br_settled r = None) rs))"

definition settled_units :: "string \<times> string \<times> int \<Rightarrow> budget_reservation_row list \<Rightarrow> int" where
  "settled_units b rs = sum_list (List.map_filter br_settled (filter (in_bucket b) rs))"

definition bucket_ok :: "net_store \<Rightarrow> budget_daily_row \<Rightarrow> bool" where
  "bucket_ok s d \<longleftrightarrow> is_id IdBot (bd_bot d) \<and> is_id IdSpace (bd_space d) \<and> bounded 0 (bd_day d) \<and>
     bounded 1 (bd_units d) \<and> bd_spent d = settled_units (bucket_key d) (reservations s) \<and>
     bd_spent d + held_units (bucket_key d) (reservations s) \<le> bd_units d"

definition calls_within :: "int option \<Rightarrow> int \<Rightarrow> budget_call_row list \<Rightarrow> bool" where
  "calls_within settled ceiling cs \<longleftrightarrow> call_total cs \<le> ceiling \<and>
     (case settled of None \<Rightarrow> True
      | Some n \<Rightarrow> bounded 0 n \<and> n \<le> ceiling \<and> (\<forall>c \<in> set cs. bc_spent c \<noteq> None) \<and> call_total cs \<le> n)"

definition reservation_ok :: "net_store \<Rightarrow> budget_reservation_row \<Rightarrow> bool" where
  "reservation_ok s r \<longleftrightarrow> bounded 1 (br_ceiling r) \<and>
     get_daily (br_bot r) (br_space r) (br_day r) s \<noteq> None \<and>
     (\<exists>x. get_execution (br_execution r) s = Some x \<and> xr_scope x = br_space r \<and> xr_target x = br_bot r) \<and>
     calls_within (br_settled r) (br_ceiling r) (calls_of (br_execution r) s)"

definition call_ok :: "net_store \<Rightarrow> budget_call_row \<Rightarrow> bool" where
  "call_ok s c \<longleftrightarrow> bc_id c \<noteq> [] \<and> length (bc_id c) \<le> 128 \<and> get_reservation (bc_execution c) s \<noteq> None \<and>
     bounded 0 (bc_maximum c) \<and> (case bc_spent c of None \<Rightarrow> True | Some n \<Rightarrow> bounded 0 n \<and> n \<le> bc_maximum c)"

definition budget_ok :: "net_store \<Rightarrow> bool" where
  "budget_ok s \<longleftrightarrow> distinct (map bucket_key (budget_days s)) \<and> distinct (map br_execution (reservations s)) \<and>
     distinct (map call_key (calls s)) \<and> list_all (bucket_ok s) (budget_days s) \<and>
     list_all (reservation_ok s) (reservations s) \<and> list_all (call_ok s) (calls s) \<and>
     list_all (\<lambda>c. bounded 1 (bf_units c)) (budget_configs s)"

definition account :: "net_store \<Rightarrow> string \<times> string \<times> int \<Rightarrow> (int \<times> int) option" where
  "account s b = (case lookup_row bucket_key b (budget_days s) of
     None \<Rightarrow> None | Some d \<Rightarrow> Some (bd_units d, bd_spent d + held_units b (reservations s)))"

text \<open>The abstract accounts: a limit and what is committed of it.\<close>

inductive account_step :: "('k \<Rightarrow> (int \<times> int) option) \<Rightarrow> ('k \<Rightarrow> (int \<times> int) option) \<Rightarrow> bool" where
  as_open: "A b = None \<Longrightarrow> 1 \<le> limit \<Longrightarrow> account_step A (A(b \<mapsto> (limit, 0)))"
| as_limit: "A b = Some (limit, c) \<Longrightarrow> c \<le> limit' \<Longrightarrow> account_step A (A(b \<mapsto> (limit', c)))"
| as_hold: "A b = Some (limit, c) \<Longrightarrow> 0 \<le> n \<Longrightarrow> c + n \<le> limit \<Longrightarrow> account_step A (A(b \<mapsto> (limit, c + n)))"
| as_release: "A b = Some (limit, c) \<Longrightarrow> 0 \<le> n \<Longrightarrow> n \<le> c \<Longrightarrow> account_step A (A(b \<mapsto> (limit, c - n)))"

definition ledger_from :: "(string \<times> string \<times> int \<Rightarrow> (int \<times> int) option) \<Rightarrow> net_store \<Rightarrow> bool" where
  "ledger_from A s \<longleftrightarrow> budget_ok s \<and> account_step\<^sup>*\<^sup>* A (account s)"

text \<open>Both read the five tables only.\<close>

definition same_budgets :: "net_store \<Rightarrow> net_store \<Rightarrow> bool" where
  "same_budgets s s' \<longleftrightarrow> budget_days s' = budget_days s \<and> reservations s' = reservations s \<and> calls s' = calls s \<and>
     executions s' = executions s \<and> budget_configs s' = budget_configs s"

lemma same_budgets_ok:
  assumes "same_budgets s s'"
  shows "budget_ok s' = budget_ok s" "account s' = account s"
proof -
  have t: "budget_days s' = budget_days s" "reservations s' = reservations s" "calls s' = calls s"
    "executions s' = executions s" "budget_configs s' = budget_configs s"
    using assms by (simp_all add: same_budgets_def)
  have "bucket_ok s' = bucket_ok s" "reservation_ok s' = reservation_ok s" "call_ok s' = call_ok s"
    by (simp_all add: fun_eq_iff bucket_ok_def reservation_ok_def call_ok_def get_daily_def get_execution_def
        get_reservation_def calls_of_def t)
  then show "budget_ok s' = budget_ok s" by (simp add: budget_ok_def t)
  show "account s' = account s" by (simp only: fun_eq_iff account_def t) simp
qed

lemma ledger_txn_fields [simp]:
  "ledger_from A (s\<lparr>in_transaction := b, txn_rows := r, txn_bytes := y\<rparr>) = ledger_from A s"
  "ledger_from A (s\<lparr>txn_rows := r, txn_bytes := y\<rparr>) = ledger_from A s"
  using same_budgets_ok [of s "s\<lparr>in_transaction := b, txn_rows := r, txn_bytes := y\<rparr>"]
    same_budgets_ok [of s "s\<lparr>txn_rows := r, txn_bytes := y\<rparr>"]
  by (simp_all add: ledger_from_def same_budgets_def)

lemma keeps_charge [intro]: "keeps (ledger_from A) (charge r y)"
  by (auto intro!: keepsI dest: charge_Inr)

lemmas keeps_ledger_transaction = keeps_net_transaction [where P = "ledger_from A" for A, OF _ ledger_txn_fields(1)]

section \<open>The writes\<close>

lemma held_units_sum:
  "held_units b rs = sum_list (map (\<lambda>r. if in_bucket b r \<and> br_settled r = None then br_ceiling r else 0) rs)"
  by (induction rs) (auto simp: held_units_def)

lemma settled_units_sum:
  "settled_units b rs = sum_list (map (\<lambda>r. if in_bucket b r then case br_settled r of None \<Rightarrow> 0 | Some n \<Rightarrow> n else 0) rs)"
  by (induction rs) (auto simp: settled_units_def map_filter_simps split: option.splits)

lemma units_append [simp]:
  "held_units b (rs @ [r]) = held_units b rs + (if in_bucket b r \<and> br_settled r = None then br_ceiling r else 0)"
  "settled_units b (rs @ [r]) =
     settled_units b rs + (if in_bucket b r then case br_settled r of None \<Rightarrow> 0 | Some n \<Rightarrow> n else 0)"
  by (simp_all add: held_units_sum settled_units_sum)

lemma sum_update_row:
  fixes f :: "'r \<Rightarrow> int"
  assumes "distinct (map key rs)" "r \<in> set rs"
  shows "sum_list (map f (update_rows (\<lambda>x. key x = key r) g rs)) = sum_list (map f rs) - f r + f (g r)"
  using assms
proof (induction rs)
  case (Cons a rs)
  show ?case
  proof (cases "a = r")
    case True
    then have "key x \<noteq> key r" if "x \<in> set rs" for x
      using Cons.prems(1) imageI [OF that, of key] by (metis distinct.simps(2) list.simps(9) set_map)
    then have "update_rows (\<lambda>x. key x = key r) g rs = rs"
      unfolding update_rows_def by (intro map_idI) simp
    with True show ?thesis by (simp add: update_rows_def)
  next
    case False
    with Cons have "r \<in> set rs" "key a \<noteq> key r" by (auto dest: imageI [of r _ key])
    with Cons show ?thesis by (simp add: update_rows_def)
  qed
qed simp

lemma bucket_key_in: "in_bucket b r \<longleftrightarrow> b = (br_bot r, br_space r, br_day r)"
  by (auto simp: in_bucket_def)

lemma budget_okD:
  assumes "budget_ok s"
  shows "distinct (map bucket_key (budget_days s))" "distinct (map br_execution (reservations s))"
    "distinct (map call_key (calls s))"
    "d \<in> set (budget_days s) \<Longrightarrow> bucket_ok s d" "r \<in> set (reservations s) \<Longrightarrow> reservation_ok s r"
    "c \<in> set (calls s) \<Longrightarrow> call_ok s c" "f \<in> set (budget_configs s) \<Longrightarrow> bounded 1 (bf_units f)"
  using assms by (auto simp: budget_ok_def list_all_iff)

lemma get_daily_mem: "get_daily botId space day s = Some d \<Longrightarrow> d \<in> set (budget_days s) \<and> bucket_key d = (botId, space, day)"
  unfolding get_daily_def by (rule lookup_row_Some)

lemma get_reservation_mem: "get_reservation x s = Some r \<Longrightarrow> r \<in> set (reservations s) \<and> br_execution r = x"
  unfolding get_reservation_def by (rule lookup_row_Some)

lemma get_call_mem: "get_call x i s = Some c \<Longrightarrow> c \<in> set (calls s) \<and> bc_execution c = x \<and> bc_id c = i"
  unfolding get_call_def using lookup_row_Some [of call_key "(x, i)" "calls s" c] by (simp add: call_key_def)

lemma account_Some:
  "get_daily botId space day s = Some d \<Longrightarrow>
   account s (botId, space, day) = Some (bd_units d, bd_spent d + held_units (botId, space, day) (reservations s))"
  by (simp add: account_def get_daily_def)

text \<open>Opening a day.\<close>

lemma open_day:
  assumes ok: "budget_ok s" and none: "get_daily botId space day s = None"
    and ids: "is_id IdBot botId" "is_id IdSpace space" "bounded 0 day" "bounded 1 units"
  defines "d \<equiv> \<lparr>bd_bot = botId, bd_space = space, bd_day = day, bd_units = units, bd_spent = 0\<rparr>"
  shows "budget_ok (s\<lparr>budget_days := budget_days s @ [d]\<rparr>)"
    "account (s\<lparr>budget_days := budget_days s @ [d]\<rparr>) = (account s)((botId, space, day) \<mapsto> (units, 0))"
    "account s (botId, space, day) = None"
proof -
  let ?b = "(botId, space, day)" and ?s = "s\<lparr>budget_days := budget_days s @ [d]\<rparr>"
  have key: "bucket_key d = ?b" by (simp add: d_def bucket_key_def)
  have free: "\<not> in_bucket ?b r" if "r \<in> set (reservations s)" for r
    using budget_okD(5) [OF ok that] none by (auto simp: reservation_ok_def bucket_key_in)
  have "held_units ?b rs = 0 \<and> settled_units ?b rs = 0" if "set rs \<subseteq> set (reservations s)" for rs
    using that free by (induction rs) (auto simp: held_units_sum settled_units_sum)
  then have zero: "held_units ?b (reservations s) = 0" "settled_units ?b (reservations s) = 0" by simp_all
  have get: "get_daily p q n ?s = (case get_daily p q n s of None \<Rightarrow> if (p, q, n) = ?b then Some d else None | Some x \<Rightarrow> Some x)" for p q n
    by (auto simp: get_daily_def lookup_row_append key split: option.splits)
  have "bucket_ok ?s = bucket_ok s" by (simp add: bucket_ok_def fun_eq_iff)
  moreover have "bucket_ok s d"
    using ids zero by (simp add: bucket_ok_def key) (simp add: d_def bounded_def)
  moreover have "reservation_ok s r \<Longrightarrow> reservation_ok ?s r" for r
    by (auto simp: reservation_ok_def get get_execution_def calls_of_def split: option.splits)
  moreover have "call_ok ?s = call_ok s" by (simp add: call_ok_def get_reservation_def fun_eq_iff)
  moreover have "?b \<notin> set (map bucket_key (budget_days s))"
    using none by (auto simp: get_daily_def lookup_row_None)
  ultimately show "budget_ok ?s"
    using ok by (auto simp: budget_ok_def list_all_iff key)
  show "account ?s = (account s)(?b \<mapsto> (units, 0))"
    using none zero(1) by (auto simp: fun_eq_iff account_def lookup_row_append key get_daily_def split: option.splits)
      (simp_all add: d_def)
  show "account s ?b = None"
    using none by (simp add: account_def get_daily_def)
qed

text \<open>Holding units for an execution.\<close>

lemma hold_units:
  assumes ok: "budget_ok s" and none: "get_reservation x s = None" and d: "get_daily botId space day s = Some d"
    and run: "get_execution x s = Some row" "xr_scope row = space" "xr_target row = botId"
    and units: "bounded 1 units" "bd_spent d + held_units (botId, space, day) (reservations s) + units \<le> bd_units d"
  defines "r \<equiv> \<lparr>br_execution = x, br_bot = botId, br_space = space, br_day = day, br_ceiling = units, br_settled = None\<rparr>"
  shows "budget_ok (s\<lparr>reservations := reservations s @ [r]\<rparr>)"
    "account (s\<lparr>reservations := reservations s @ [r]\<rparr>) = (account s)((botId, space, day) \<mapsto>
       (bd_units d, bd_spent d + held_units (botId, space, day) (reservations s) + units))"
proof -
  let ?b = "(botId, space, day)" and ?s = "s\<lparr>reservations := reservations s @ [r]\<rparr>"
  have bucket: "in_bucket b r \<longleftrightarrow> b = ?b" for b by (simp add: r_def bucket_key_in)
  have free: "bc_execution c \<noteq> x" if "c \<in> set (calls s)" for c
    using budget_okD(6) [OF ok that] none by (auto simp: call_ok_def)
  then have calls: "calls_of x ?s = []" "calls_of i ?s = calls_of i s" for i by (simp_all add: calls_of_def)
  have "bucket_ok ?s y" if y: "y \<in> set (budget_days s)" for y
  proof (cases "bucket_key y = ?b")
    case True
    then have "y = d"
      using distinct_key_unique [OF budget_okD(1) [OF ok] y] get_daily_mem [OF d] by simp
    with budget_okD(4) [OF ok y] units(2) True show ?thesis
      by (simp add: bucket_ok_def bucket) (simp add: r_def)
  next
    case False
    with budget_okD(4) [OF ok y] show ?thesis by (simp add: bucket_ok_def bucket)
  qed
  moreover have "reservation_ok ?s y" if "y \<in> set (reservations s)" for y
    using budget_okD(5) [OF ok that] by (simp add: reservation_ok_def get_daily_def get_execution_def calls)
  moreover have "reservation_ok ?s r"
    using d run units(1)
    by (simp add: reservation_ok_def r_def get_daily_def get_execution_def calls_within_def call_total_def bounded_def)
      (use calls(1) in \<open>simp add: r_def call_total_def\<close>)
  moreover have "call_ok ?s c" if "c \<in> set (calls s)" for c
    using budget_okD(6) [OF ok that] by (auto simp: call_ok_def get_reservation_def lookup_row_append split: option.splits)
  moreover have "x \<notin> set (map br_execution (reservations s))"
    using none by (auto simp: get_reservation_def lookup_row_None)
  ultimately show "budget_ok ?s"
    using ok by (auto simp: budget_ok_def list_all_iff) (simp add: r_def)
  show "account ?s = (account s)(?b \<mapsto> (bd_units d, bd_spent d + held_units ?b (reservations s) + units))"
    using d by (auto simp: fun_eq_iff account_def get_daily_def bucket split: option.splits) (simp_all add: r_def)
qed

text \<open>Settling a reservation.\<close>

lemma lookup_update_key:
  "(\<And>x. key (f x) = key x) \<Longrightarrow> lookup_row key k (update_rows P f rows) \<noteq> None \<longleftrightarrow> lookup_row key k rows \<noteq> None"
  by (simp add: lookup_row_update)

lemma settle_units:
  assumes ok: "budget_ok s" and r: "r \<in> set (reservations s)" "br_settled r = None"
    and d: "get_daily (br_bot r) (br_space r) (br_day r) s = Some d"
    and n: "bounded 0 n" "n \<le> br_ceiling r" "\<forall>c \<in> set (calls_of (br_execution r) s). bc_spent c \<noteq> None"
      "call_total (calls_of (br_execution r) s) \<le> n"
  shows "budget_ok (record_settlement r n (bd_spent d + n) s)"
    "account (record_settlement r n (bd_spent d + n) s) = (account s)((br_bot r, br_space r, br_day r) \<mapsto>
       (bd_units d, bd_spent d + held_units (br_bot r, br_space r, br_day r) (reservations s) - (br_ceiling r - n)))"
proof -
  let ?b = "(br_bot r, br_space r, br_day r)" and ?s = "record_settlement r n (bd_spent d + n) s"
  let ?f = "\<lambda>x. x\<lparr>br_settled := Some n\<rparr>" and ?g = "\<lambda>y. y\<lparr>bd_spent := bd_spent d + n\<rparr>"
  have dk: "d \<in> set (budget_days s)" "bucket_key d = ?b" using get_daily_mem [OF d] by simp_all
  have rs: "reservations ?s = update_rows (\<lambda>x. br_execution x = br_execution r) ?f (reservations s)"
    "budget_days ?s = update_rows (\<lambda>y. bucket_key y = ?b) ?g (budget_days s)"
    "calls ?s = calls s" "executions ?s = executions s" "budget_configs ?s = budget_configs s"
    by (simp_all add: record_settlement_def)
  have upd: "sum_list (map h (reservations ?s)) = sum_list (map h (reservations s)) - h r + h (?f r)" for h :: "_ \<Rightarrow> int"
    unfolding rs(1) by (rule sum_update_row [OF budget_okD(2) [OF ok] r(1)])
  have held: "held_units b (reservations ?s) = held_units b (reservations s) - (if b = ?b then br_ceiling r else 0)" for b
    unfolding held_units_sum upd using r(2) by (simp add: bucket_key_in)
  have settled: "settled_units b (reservations ?s) = settled_units b (reservations s) + (if b = ?b then n else 0)" for b
    unfolding settled_units_sum upd using r(2) by (simp add: bucket_key_in)
  have key: "bucket_key (?g y) = bucket_key y" for y by (simp add: bucket_key_def)
  have days: "get_daily p q m ?s \<noteq> None \<longleftrightarrow> get_daily p q m s \<noteq> None" for p q m
    unfolding get_daily_def rs(2) by (rule lookup_update_key) (rule key)
  have same_calls: "calls_of i ?s = calls_of i s" for i by (simp add: calls_of_def rs(3))
  have "bucket_ok ?s z" if z: "z \<in> set (budget_days ?s)" for z
  proof -
    obtain y where y: "y \<in> set (budget_days s)" "z = (if bucket_key y = ?b then ?g y else y)"
      using z by (auto simp: rs(2) set_update_rows)
    show ?thesis
    proof (cases "bucket_key y = ?b")
      case True
      then have "y = d" using distinct_key_unique [OF budget_okD(1) [OF ok] y(1) dk(1)] dk(2) by simp
      have "bucket_ok ?s (?g d)"
        using budget_okD(4) [OF ok dk(1)] n(2)
        unfolding bucket_ok_def key dk(2) held settled by simp
      with True show ?thesis by (simp add: y(2) \<open>y = d\<close>)
    next
      case False
      with budget_okD(4) [OF ok y(1)] show ?thesis by (simp add: y(2) bucket_ok_def held settled)
    qed
  qed
  moreover have "reservation_ok ?s z" if z: "z \<in> set (reservations ?s)" for z
  proof -
    obtain y where y: "y \<in> set (reservations s)" "z = (if br_execution y = br_execution r then ?f y else y)"
      using z by (auto simp: rs(1) set_update_rows)
    show ?thesis
    proof (cases "br_execution y = br_execution r")
      case True
      then have "y = r" using distinct_key_unique [OF budget_okD(2) [OF ok] y(1) r(1)] by simp
      with True budget_okD(5) [OF ok y(1)] n show ?thesis
        by (simp add: y(2) reservation_ok_def days same_calls get_execution_def rs(4) calls_within_def del: not_None_eq)
    next
      case False
      with budget_okD(5) [OF ok y(1)] show ?thesis
        by (simp add: y(2) reservation_ok_def days same_calls get_execution_def rs(4) del: not_None_eq)
    qed
  qed
  moreover have "get_reservation i ?s \<noteq> None \<longleftrightarrow> get_reservation i s \<noteq> None" for i
    unfolding get_reservation_def rs(1) by (rule lookup_update_key) simp
  then have "call_ok ?s = call_ok s" by (simp add: fun_eq_iff call_ok_def del: not_None_eq)
  ultimately show "budget_ok ?s"
    using ok unfolding budget_ok_def list_all_iff by (simp add: rs(3,5)) (simp add: rs(1,2) key)
  show "account ?s = (account s)(?b \<mapsto> (bd_units d, bd_spent d + held_units ?b (reservations s) - (br_ceiling r - n)))"
  proof
    fix b
    have "lookup_row bucket_key b (budget_days ?s) = map_option (\<lambda>y. if bucket_key y = ?b then ?g y else y) (lookup_row bucket_key b (budget_days s))"
      unfolding rs(2) by (rule lookup_row_update) (rule key)
    then show "account ?s b = ((account s)(?b \<mapsto>
        (bd_units d, bd_spent d + held_units ?b (reservations s) - (br_ceiling r - n)))) b"
      using d dk(2) lookup_row_Some [of bucket_key b "budget_days s"]
      by (auto simp: account_def held get_daily_def split: option.split)
  qed
qed

text \<open>Calls do not touch the accounts.\<close>

lemma account_calls [simp]: "account (s\<lparr>calls := cs\<rparr>) = account s"
proof
  show "account (s\<lparr>calls := cs\<rparr>) b = account s b" for b
    by (cases "lookup_row bucket_key b (budget_days s)") (simp_all add: account_def)
qed

lemma calls_ok:
  assumes ok: "budget_ok s" and d: "distinct (map call_key cs)" and c: "\<forall>c \<in> set cs. call_ok s c"
    and r: "\<forall>r \<in> set (reservations s). calls_within (br_settled r) (br_ceiling r)
      (filter (\<lambda>c. bc_execution c = br_execution r) cs)"
  shows "budget_ok (s\<lparr>calls := cs\<rparr>)"
proof -
  have "bucket_ok (s\<lparr>calls := cs\<rparr>) = bucket_ok s" "call_ok (s\<lparr>calls := cs\<rparr>) = call_ok s"
    by (simp_all add: fun_eq_iff bucket_ok_def call_ok_def get_reservation_def)
  with assms show ?thesis
    by (auto simp: budget_ok_def list_all_iff reservation_ok_def calls_of_def get_daily_def get_execution_def)
qed

lemma add_call:
  assumes ok: "budget_ok s" and r: "get_reservation x s = Some r" "br_settled r = None" and none: "get_call x i s = None"
    and i: "i \<noteq> []" "length i \<le> 128" and m: "bounded 0 m" "call_total (calls_of x s) + m \<le> br_ceiling r"
  shows "budget_ok (s\<lparr>calls := calls s @ [\<lparr>bc_execution = x, bc_id = i, bc_maximum = m, bc_spent = None\<rparr>]\<rparr>)"
proof (rule calls_ok [OF ok])
  let ?c = "\<lparr>bc_execution = x, bc_id = i, bc_maximum = m, bc_spent = None\<rparr>"
  have rm: "r \<in> set (reservations s)" "br_execution r = x" using get_reservation_mem [OF r(1)] by simp_all
  show "distinct (map call_key (calls s @ [?c]))"
    using budget_okD(3) [OF ok] none by (auto simp: get_call_def lookup_row_None call_key_def)
  show "\<forall>c \<in> set (calls s @ [?c]). call_ok s c"
    using budget_okD(6) [OF ok] r(1) i m(1) by (auto simp: call_ok_def)
  show "\<forall>y \<in> set (reservations s). calls_within (br_settled y) (br_ceiling y)
      (filter (\<lambda>c. bc_execution c = br_execution y) (calls s @ [?c]))"
  proof
    fix y assume y: "y \<in> set (reservations s)"
    have w: "calls_within (br_settled y) (br_ceiling y) (calls_of (br_execution y) s)"
      using budget_okD(5) [OF ok y] by (simp add: reservation_ok_def)
    show "calls_within (br_settled y) (br_ceiling y) (filter (\<lambda>c. bc_execution c = br_execution y) (calls s @ [?c]))"
    proof (cases "br_execution y = x")
      case True
      then have "y = r" using distinct_key_unique [OF budget_okD(2) [OF ok] y rm(1)] rm(2) by simp
      with m(2) r(2) rm(2) show ?thesis
        by (simp add: calls_within_def calls_of_def call_total_def call_charge_def)
    next
      case False
      with w show ?thesis by (simp add: calls_of_def)
    qed
  qed
qed

lemma spend_call:
  assumes ok: "budget_ok s" and r: "get_reservation x s = Some r" "br_settled r = None"
    and c: "get_call x i s = Some c" "bc_spent c = None" and n: "bounded 0 n" "n \<le> bc_maximum c"
  shows "budget_ok (record_call_spend x i n s)"
proof -
  let ?P = "\<lambda>c. call_key c = (x, i)" and ?f = "\<lambda>c. c\<lparr>bc_spent := Some n\<rparr>"
  have rm: "r \<in> set (reservations s)" "br_execution r = x" using get_reservation_mem [OF r(1)] by simp_all
  have cm: "c \<in> set (calls s)" "bc_execution c = x" "bc_id c = i" using get_call_mem [OF c(1)] by simp_all
  have only: "y = c" if "y \<in> set (calls s)" "call_key y = (x, i)" for y
    using distinct_key_unique [OF budget_okD(3) [OF ok] that(1) cm(1)] that(2) cm(2,3) by (simp add: call_key_def)
  have less: "call_total (filter Q (update_rows ?P ?f cs)) \<le> call_total (filter Q cs)"
    if "set cs \<subseteq> set (calls s)" "\<And>y. Q (?f y) = Q y" for cs Q
    using that
  proof (induction cs)
    case (Cons a cs)
    have "call_charge (if ?P a then ?f a else a) \<le> call_charge a"
      using Cons.prems(1) only c(2) n(2) by (auto simp: call_charge_def)
    with Cons show ?case by (auto simp: call_total_def update_rows_def)
  qed (simp add: update_rows_def)
  have "budget_ok (s\<lparr>calls := update_rows ?P ?f (calls s)\<rparr>)"
  proof (rule calls_ok [OF ok])
    show "distinct (map call_key (update_rows ?P ?f (calls s)))"
      using budget_okD(3) [OF ok] by (simp add: call_key_def)
    show "\<forall>y \<in> set (update_rows ?P ?f (calls s)). call_ok s y"
      using budget_okD(6) [OF ok] only n by (auto simp: set_update_rows call_ok_def)
    show "\<forall>y \<in> set (reservations s). calls_within (br_settled y) (br_ceiling y)
        (filter (\<lambda>c. bc_execution c = br_execution y) (update_rows ?P ?f (calls s)))"
    proof
      fix y assume y: "y \<in> set (reservations s)"
      let ?Q = "\<lambda>c. bc_execution c = br_execution y"
      have w: "calls_within (br_settled y) (br_ceiling y) (filter ?Q (calls s))"
        using budget_okD(5) [OF ok y] by (simp add: reservation_ok_def calls_of_def)
      have le: "call_total (filter ?Q (update_rows ?P ?f (calls s))) \<le> call_total (filter ?Q (calls s))"
        by (rule less) simp_all
      have known: "\<forall>z \<in> set (filter ?Q (update_rows ?P ?f (calls s))). bc_spent z \<noteq> None"
        if "\<forall>z \<in> set (filter ?Q (calls s)). bc_spent z \<noteq> None"
        using that by (auto simp: set_update_rows)
      show "calls_within (br_settled y) (br_ceiling y) (filter ?Q (update_rows ?P ?f (calls s)))"
        using w le known by (auto simp: calls_within_def split: option.splits)
    qed
  qed
  then show ?thesis by (simp add: record_call_spend_def)
qed

text \<open>Changing the allowance.\<close>

lemma upsert_ok:
  assumes "budget_ok s" "bounded 1 (bf_units c)"
  shows "budget_ok (upsert_config c s)" "account (upsert_config c s) = account s"
    "get_daily botId space day (upsert_config c s) = get_daily botId space day s"
    "reservations (upsert_config c s) = reservations s" "budget_days (upsert_config c s) = budget_days s"
proof -
  have "upsert_config c s = s\<lparr>budget_configs := budget_configs (upsert_config c s)\<rparr>"
    "list_all (\<lambda>c. bounded 1 (bf_units c)) (budget_configs (upsert_config c s))"
    using assms by (auto simp: upsert_config_def budget_ok_def list_all_iff set_update_rows)
  then obtain cs where cs: "upsert_config c s = s\<lparr>budget_configs := cs\<rparr>" "list_all (\<lambda>c. bounded 1 (bf_units c)) cs"
    by metis
  have "bucket_ok (s\<lparr>budget_configs := cs\<rparr>) = bucket_ok s" "reservation_ok (s\<lparr>budget_configs := cs\<rparr>) = reservation_ok s"
    "call_ok (s\<lparr>budget_configs := cs\<rparr>) = call_ok s"
    by (simp_all add: fun_eq_iff bucket_ok_def reservation_ok_def call_ok_def get_daily_def get_execution_def
        get_reservation_def calls_of_def)
  with assms(1) cs(2) show "budget_ok (upsert_config c s)" by (simp add: cs(1) budget_ok_def)
  have "account (s\<lparr>budget_configs := cs\<rparr>) b = account s b" for b
    by (cases "lookup_row bucket_key b (budget_days s)") (simp_all add: account_def)
  then show "account (upsert_config c s) = account s" by (auto simp: cs(1))
  show "get_daily botId space day (upsert_config c s) = get_daily botId space day s"
    "reservations (upsert_config c s) = reservations s" "budget_days (upsert_config c s) = budget_days s"
    by (simp_all add: cs(1) get_daily_def)
qed

lemma set_units_ok:
  assumes ok: "budget_ok s" and d: "get_daily botId space day s = Some d" and u: "bounded 1 units"
    and le: "bd_spent d + held_units (botId, space, day) (reservations s) \<le> units"
  shows "budget_ok (set_units botId space day units s)"
    "account (set_units botId space day units s) = (account s)((botId, space, day) \<mapsto>
       (units, bd_spent d + held_units (botId, space, day) (reservations s)))"
proof -
  let ?b = "(botId, space, day)" and ?s = "set_units botId space day units s"
  let ?g = "\<lambda>d. d\<lparr>bd_units := units\<rparr>"
  have dk: "d \<in> set (budget_days s)" "bucket_key d = ?b" using get_daily_mem [OF d] by simp_all
  have key: "bucket_key (?g y) = bucket_key y" for y by (simp add: bucket_key_def)
  have days: "budget_days ?s = update_rows (\<lambda>y. bucket_key y = ?b) ?g (budget_days s)" by (simp add: set_units_def)
  have get: "get_daily p q m ?s \<noteq> None \<longleftrightarrow> get_daily p q m s \<noteq> None" for p q m
    unfolding get_daily_def days by (rule lookup_update_key) (rule key)
  have "bucket_ok ?s z" if z: "z \<in> set (budget_days ?s)" for z
  proof -
    obtain y where y: "y \<in> set (budget_days s)" "z = (if bucket_key y = ?b then ?g y else y)"
      using z by (auto simp: days set_update_rows)
    have "y = d" if "bucket_key y = ?b"
      using distinct_key_unique [OF budget_okD(1) [OF ok] y(1) dk(1)] dk(2) that by simp
    with budget_okD(4) [OF ok y(1)] u le dk(2) show ?thesis
      by (auto simp: y(2) bucket_ok_def key set_units_def)
  qed
  moreover have "reservation_ok ?s = reservation_ok s"
    by (simp add: fun_eq_iff reservation_ok_def get get_execution_def calls_of_def del: not_None_eq) (simp add: set_units_def)
  moreover have "call_ok ?s = call_ok s"
    by (simp add: fun_eq_iff call_ok_def get_reservation_def set_units_def)
  ultimately show "budget_ok ?s"
    using ok unfolding budget_ok_def list_all_iff by (simp add: days key) (simp add: set_units_def)
  show "account ?s = (account s)(?b \<mapsto> (units, bd_spent d + held_units ?b (reservations s)))"
  proof
    fix b
    have "lookup_row bucket_key b (budget_days ?s) = map_option (\<lambda>y. if bucket_key y = ?b then ?g y else y) (lookup_row bucket_key b (budget_days s))"
      unfolding days by (rule lookup_row_update) (rule key)
    then show "account ?s b = ((account s)(?b \<mapsto> (units, bd_spent d + held_units ?b (reservations s)))) b"
      using d dk(2) lookup_row_Some [of bucket_key b "budget_days s"]
      by (auto simp: account_def get_daily_def set_units_def split: option.split)
  qed
qed

section \<open>The operations\<close>

lemma charged_Inr: "charged botId space day spent s = Inr n \<Longrightarrow> n = spent + held_units (botId, space, day) (reservations s)"
  using checked_sum_Inr by (fastforce simp: charged_def held_units_def)

lemma ledger_step1: "ledger_from A s \<Longrightarrow> budget_ok s' \<Longrightarrow> account_step (account s) (account s') \<Longrightarrow> ledger_from A s'"
  by (auto simp: ledger_from_def)

lemma ledger_step0: "ledger_from A s \<Longrightarrow> budget_ok s' \<Longrightarrow> account s' = account s \<Longrightarrow> ledger_from A s'"
  by (auto simp: ledger_from_def)

lemma keeps_lift [simp, intro]: "keeps P (liftE r)"
  by (auto simp: keeps_def)

lemma keeps_check [simp, intro]:
  "keeps P (integerE m n)" "keeps P (budget_ids botId space)" "keeps P (check_call_id i)" "keeps P (required_reservation x)"
  by (auto simp: keeps_def integerE_def budget_ids_def check_call_id_def required_reservation_def split: option.splits)

lemma set_daily_budget_keeps: "keeps (ledger_from A) (set_daily_budget botId space units)"
proof (cases "bounded 1 units")
  case False
  then show ?thesis by (auto simp: keeps_def set_daily_budget_def bindE_Inr)
next
  case True
  let ?c = "\<lparr>bf_bot = botId, bf_space = space, bf_units = units\<rparr>"
  have body: "ledger_from A s'"
    if ok: "ledger_from A s" and run: "(case get_daily botId space day s of
           None \<Rightarrow> bindE (charge 1 0) (\<lambda>_. modE (upsert_config ?c)) s
         | Some daily \<Rightarrow>
             (case charged botId space day (bd_spent daily) s of
                Inl e \<Rightarrow> Inl e
              | Inr committed \<Rightarrow>
                  if units < committed then Inl NBudgetExhausted
                  else bindE (charge 2 0) (\<lambda>_. modE (\<lambda>s. set_units botId space day units (upsert_config ?c s))) s)) = Inr (x, s')"
    for s day x s'
  proof (cases "get_daily botId space day s")
    case None
    with run obtain y s1 where s1: "charge 1 0 s = Inr (y, s1)" "s' = upsert_config ?c s1"
      by (auto simp: bindE_Inr)
    have "ledger_from A s1" using keepsD [OF keeps_charge s1(1) ok] .
    then show ?thesis
      using upsert_ok [of s1 ?c] True by (auto simp: s1(2) ledger_from_def)
  next
    case (Some d)
    with run obtain committed y s1 where s1: "charged botId space day (bd_spent d) s = Inr committed" "committed \<le> units"
      "charge 2 0 s = Inr (y, s1)" "s' = set_units botId space day units (upsert_config ?c s1)"
      by (auto simp: bindE_Inr split: sum.splits if_splits)
    have l: "ledger_from A s1" using keepsD [OF keeps_charge s1(3) ok] .
    then have b: "budget_ok s1" by (simp add: ledger_from_def)
    have d: "get_daily botId space day s1 = Some d" "reservations s1 = reservations s"
      using Some charge_Inr [OF s1(3)] by (simp_all add: get_daily_def)
    note up = upsert_ok [OF b, of ?c, simplified, OF True]
    have le: "bd_spent d + held_units (botId, space, day) (reservations (upsert_config ?c s1)) \<le> units"
      using charged_Inr [OF s1(1)] s1(2) by (simp add: up d(2))
    note st = set_units_ok [OF up(1) _ True le]
    have "account_step (account s1) (account s')"
      unfolding s1(4) st(2) [simplified up, OF d(1)]
      using account_Some [OF d(1)] le by (intro as_limit) (simp_all add: up)
    with st(1) l show ?thesis by (simp add: s1(4) up d(1) ledger_step1)
  qed
  show ?thesis
    unfolding set_daily_budget_def
    by (intro keeps_bindE keeps_check keeps_ledger_transaction keepsI)
      (auto simp: bindE_Inr dest: body)
qed

lemma open_bucket_ledger:
  assumes run: "open_bucket botId space day units s = Inr (d, s')" and l: "ledger_from A s"
    and ids: "is_id IdBot botId" "is_id IdSpace space" "bounded 0 day" "bounded 1 units"
  shows "ledger_from A s'" "get_daily botId space day s' = Some d" "executions s' = executions s"
    "reservations s' = reservations s"
proof -
  have "ledger_from A s' \<and> get_daily botId space day s' = Some d \<and> executions s' = executions s \<and>
    reservations s' = reservations s"
  proof (cases "get_daily botId space day s")
    case (Some x)
    with run l show ?thesis by (simp add: open_bucket_def)
  next
    case None
    let ?d = "\<lparr>bd_bot = botId, bd_space = space, bd_day = day, bd_units = units, bd_spent = 0\<rparr>"
    obtain y s1 where s1: "charge 1 0 s = Inr (y, s1)" "s' = s1\<lparr>budget_days := budget_days s1 @ [?d]\<rparr>" "d = ?d"
      using run None by (auto simp: open_bucket_def Let_def bindE_Inr)
    have l1: "ledger_from A s1" by (rule keepsD [OF keeps_charge s1(1) l])
    then have b: "budget_ok s1" by (simp add: ledger_from_def)
    have none: "get_daily botId space day s1 = None"
      using None charge_Inr [OF s1(1)] by (simp add: get_daily_def)
    note od = open_day [OF b none ids]
    have "account_step (account s1) (account s')"
      unfolding s1(2) od(2) using od(3) ids(4) by (intro as_open) (simp_all add: bounded_def)
    with od(1) l1 have "ledger_from A s'" by (simp add: s1(2) ledger_step1)
    with none show ?thesis
      using charge_Inr [OF s1(1)] by (simp add: s1(2,3) get_daily_def lookup_row_append bucket_key_def)
  qed
  then show "ledger_from A s'" "get_daily botId space day s' = Some d" "executions s' = executions s"
    "reservations s' = reservations s" by simp_all
qed

lemma new_reservation_keeps:
  assumes run: "new_reservation botId space x units day s = Inr (y, s')" and l: "ledger_from A s"
    and ids: "is_id IdBot botId" "is_id IdSpace space" "bounded 0 day" "bounded 1 units"
    and none: "get_reservation x s = None"
  shows "ledger_from A s'"
proof -
  obtain row c where row: "get_execution x s = Some row" "xr_scope row = space" "xr_target row = botId"
    "get_config botId space s = Some c"
    using run by (auto simp: new_reservation_def split: option.splits if_splits)
  have c: "bounded 1 (bf_units c)"
    using l row(4) find_Some_iff_mem [of _ "budget_configs s" c]
    by (auto simp: get_config_def ledger_from_def dest: budget_okD(7))
  obtain d s1 s2 z committed needed where s1: "open_bucket botId space day (bf_units c) s = Inr (d, s1)"
    "charged botId space day (bd_spent d) s1 = Inr committed" "checked_sum [committed, units] = Inr needed"
    "needed \<le> bd_units d" "charge 1 0 s1 = Inr (z, s2)"
    "s' = s2\<lparr>reservations := reservations s2 @ [\<lparr>br_execution = x, br_bot = botId, br_space = space, br_day = day,
       br_ceiling = units, br_settled = None\<rparr>]\<rparr>"
    using run row by (auto simp: new_reservation_def bindE_Inr split: if_splits)
  note ob = open_bucket_ledger [OF s1(1) l ids(1-3) c]
  have l2: "ledger_from A s2" by (rule keepsD [OF keeps_charge s1(5) ob(1)])
  then have b: "budget_ok s2" by (simp add: ledger_from_def)
  have s2: "get_daily botId space day s2 = Some d" "reservations s2 = reservations s" "get_execution i s2 = get_execution i s"
    "get_reservation x s2 = None" for i
    using ob(2-4) none charge_Inr [OF s1(5)] by (simp_all add: get_daily_def get_execution_def get_reservation_def)
  have le: "bd_spent d + held_units (botId, space, day) (reservations s2) + units \<le> bd_units d"
    using charged_Inr [OF s1(2)] checked_sum_Inr [OF s1(3)] s1(4) ob(4) by (simp add: s2(2))
  note h = hold_units [OF b s2(4) s2(1) _ row(2,3) ids(4) le]
  have "account_step (account s2) (account s')"
    unfolding s1(6) h(2) [OF trans [OF s2(3) row(1)]]
    using account_Some [OF s2(1)] le ids(4) by (intro as_hold) (simp_all add: bounded_def)
  with h(1) [OF trans [OF s2(3) row(1)]] l2 show ?thesis
    by (simp add: s1(6) ledger_step1)
qed

lemma day_of_bounded: "day_of now = Inr day \<Longrightarrow> bounded 0 day"
proof -
  assume "day_of now = Inr day"
  then have "bounded 0 now" "day = now div 86400000"
    by (auto simp: day_of_def check_integer_def DAY_MS_def split: if_splits)
  moreover have "0 \<le> now div 86400000" "now div 86400000 \<le> now" if "0 \<le> now"
    using that int_div_less_self [of now 86400000] by (cases "now = 0", simp_all)+
  ultimately show ?thesis by (simp add: bounded_def max_safe_def)
qed

lemma reserve_keeps: "keeps (ledger_from A) (reserve botId space x units now)"
proof
  let ?work = "\<lambda>day s. case get_reservation x s of
      Some p \<Rightarrow> if br_bot p \<noteq> botId \<or> br_space p \<noteq> space \<or> br_ceiling p \<noteq> units then Inl NConflict else Inr ((), s)
    | None \<Rightarrow> new_reservation botId space x units day s"
  fix s y s' assume l: "ledger_from A s" and run: "reserve botId space x units now s = Inr (y, s')"
  then obtain day where ids: "is_id IdBot botId" "is_id IdSpace space" "bounded 1 units" "day_of now = Inr day"
    "net_transaction (?work day) s = Inr (y, s')"
    by (auto simp: reserve_def bindE_Inr budget_ids_def)
  have "keeps (ledger_from A) (?work day)"
  proof
    fix s y s' assume "ledger_from A s" "?work day s = Inr (y, s')"
    then show "ledger_from A s'"
      using new_reservation_keeps [OF _ _ ids(1,2) day_of_bounded [OF ids(4)] ids(3)]
      by (cases "get_reservation x s") (auto split: if_splits)
  qed
  from keepsD [OF keeps_ledger_transaction [OF this] ids(5) l] show "ledger_from A s'" .
qed

lemma settle_reservation_keeps:
  assumes run: "settle_reservation r n s = Inr (y, s')" and l: "ledger_from A s"
    and r: "get_reservation x s = Some r" "br_settled r = None" and n: "bounded 0 n"
  shows "ledger_from A s'"
proof -
  have rm: "r \<in> set (reservations s)" "br_execution r = x" using get_reservation_mem [OF r(1)] by simp_all
  let ?cs = "calls_of (br_execution r) s"
  obtain known d spent z s1 where s1: "known_spend ?cs = Some known" "checked_sum known \<noteq> Inl NInternal"
    "sum_list known \<le> n" "n \<le> br_ceiling r" "get_daily (br_bot r) (br_space r) (br_day r) s = Some d"
    "spent = bd_spent d + n" "charge 2 0 s = Inr (z, s1)" "s' = record_settlement r n spent s1"
    using run by (fastforce simp: settle_reservation_def bindE_Inr split: option.splits dest: checked_sum_Inr)
  have known: "\<forall>c \<in> set ?cs. bc_spent c \<noteq> None" "known = List.map_filter bc_spent ?cs"
    using s1(1) by (auto simp: known_spend_def list_ex_iff split: if_splits)
  have "sum_list (List.map_filter bc_spent cs) = call_total cs" if "\<forall>c \<in> set cs. bc_spent c \<noteq> None" for cs
    using that by (induction cs) (auto simp: map_filter_simps call_total_def call_charge_def)
  then have total_le: "call_total ?cs \<le> n" using known s1(3) by simp
  have l1: "ledger_from A s1" by (rule keepsD [OF keeps_charge s1(7) l])
  then have b: "budget_ok s1" by (simp add: ledger_from_def)
  have same: "reservations s1 = reservations s" "get_daily p q m s1 = get_daily p q m s" "calls_of i s1 = calls_of i s" for p q m i
    using charge_Inr [OF s1(7)] by (simp_all add: get_daily_def calls_of_def)
  note st = settle_units [OF b, of r d n, unfolded same, OF rm(1) r(2) s1(5) n s1(4) known(1) total_le]
  have "account_step (account s1) (account s')"
    unfolding s1(8,6) st(2)
  proof (rule as_release [where A = "account s1" and n = "br_ceiling r - n"])
    show "account s1 (br_bot r, br_space r, br_day r) =
      Some (bd_units d, bd_spent d + held_units (br_bot r, br_space r, br_day r) (reservations s))"
      using account_Some [of "br_bot r" "br_space r" "br_day r" s1 d] s1(5) by (simp add: same)
    show "0 \<le> br_ceiling r - n" using s1(4) by simp
    have nonneg: "0 \<le> br_ceiling y" if "y \<in> set (reservations s)" for y
      using that l budget_okD(5) [of s y] by (simp add: ledger_from_def reservation_ok_def bounded_def)
    have "br_ceiling r \<le> held_units (br_bot r, br_space r, br_day r) (reservations s)"
      unfolding held_units_def using rm(1) r(2) nonneg
      by (intro member_le_sum_list) (auto simp: bucket_key_in)
    moreover have "0 \<le> bd_spent d"
    proof -
      have "bucket_ok s d" using l get_daily_mem [OF s1(5)] by (auto simp: ledger_from_def dest: budget_okD(4))
      then have "bd_spent d = settled_units (bucket_key d) (reservations s)" by (simp add: bucket_ok_def)
      moreover have "0 \<le> settled_units bk rs" if "set rs \<subseteq> set (reservations s)" for bk rs
        using that l
      proof (induction rs)
        case (Cons y rs)
        have "reservation_ok s y" using Cons.prems by (auto simp: ledger_from_def dest: budget_okD(5))
        with Cons show ?case
          by (auto simp: settled_units_sum reservation_ok_def calls_within_def bounded_def split: option.splits)
      qed (simp add: settled_units_sum)
      ultimately show ?thesis by simp
    qed
    ultimately show "br_ceiling r - n \<le> bd_spent d + held_units (br_bot r, br_space r, br_day r) (reservations s)"
      using n by (simp add: bounded_def)
  qed
  with st(1) l1 show ?thesis by (simp add: s1(6,8) ledger_step1)
qed

lemma settle_budget_keeps: "keeps (ledger_from A) (settle x n)"
proof
  let ?work = "bindE (required_reservation x) (\<lambda>r.
         case br_settled r of
           Some units \<Rightarrow> requireE (units = n) NConflict
         | None \<Rightarrow> settle_reservation r n)"
  fix s y s' assume l: "ledger_from A s" and run: "settle x n s = Inr (y, s')"
  then have n: "bounded 0 n" and t: "net_transaction ?work s = Inr (y, s')"
    by (auto simp: settle_def bindE_Inr)
  have "keeps (ledger_from A) ?work"
  proof (rule keepsI)
    fix s y s' assume l: "ledger_from A s" and run: "?work s = Inr (y, s')"
    then obtain r where r: "get_reservation x s = Some r"
      "(case br_settled r of Some units \<Rightarrow> requireE (units = n) NConflict | None \<Rightarrow> settle_reservation r n) s = Inr (y, s')"
      by (auto simp: bindE_Inr required_reservation_def split: option.splits)
    then show "ledger_from A s'"
      using l settle_reservation_keeps [OF _ l r(1) _ n] by (cases "br_settled r") auto
  qed
  from keepsD [OF keeps_ledger_transaction [OF this] t l] show "ledger_from A s'" .
qed

lemma call_total_checked: "checked_sum (map call_charge cs) = Inr n \<Longrightarrow> n = call_total cs"
  by (auto simp: call_total_def dest: checked_sum_Inr)

lemma authorize_call_keeps: "keeps (ledger_from A) (authorize_call x i m)"
proof
  let ?work = "bindE (required_reservation x) (\<lambda>r s.
         if br_settled r \<noteq> None then Inl NConflict
         else case get_call x i s of
           Some c \<Rightarrow> if bc_maximum c \<noteq> m then Inl NConflict else Inr ((), s)
         | None \<Rightarrow> new_call r x i m s)"
  fix s y s' assume l: "ledger_from A s" and run: "authorize_call x i m s = Inr (y, s')"
  then have m: "bounded 0 m" and i: "i \<noteq> []" "length i \<le> 128" and t: "net_transaction ?work s = Inr (y, s')"
    by (auto simp: authorize_call_def bindE_Inr check_call_id_def)
  have "keeps (ledger_from A) ?work"
  proof (rule keepsI)
    fix s y s' assume l: "ledger_from A s" and run: "?work s = Inr (y, s')"
    then obtain r where r: "get_reservation x s = Some r" "br_settled r = None"
      and rest: "(case get_call x i s of Some c \<Rightarrow> if bc_maximum c \<noteq> m then Inl NConflict else Inr ((), s)
         | None \<Rightarrow> new_call r x i m s) = Inr (y, s')"
      by (auto simp: bindE_Inr required_reservation_def split: option.splits if_splits)
    show "ledger_from A s'"
    proof (cases "get_call x i s")
      case (Some c)
      with rest l show ?thesis by (simp split: if_splits)
    next
      case None
      with rest obtain committed needed z s1 where s1: "checked_sum (map call_charge (calls_of x s)) = Inr committed"
        "checked_sum [committed, m] = Inr needed" "needed \<le> br_ceiling r" "charge 1 0 s = Inr (z, s1)"
        "s' = s1\<lparr>calls := calls s1 @ [\<lparr>bc_execution = x, bc_id = i, bc_maximum = m, bc_spent = None\<rparr>]\<rparr>"
        by (auto simp: new_call_def bindE_Inr split: if_splits)
      have l1: "ledger_from A s1" by (rule keepsD [OF keeps_charge s1(4) l])
      then have b: "budget_ok s1" by (simp add: ledger_from_def)
      have same: "get_reservation x s1 = Some r" "get_call x i s1 = None" "calls_of x s1 = calls_of x s"
        using r(1) None charge_Inr [OF s1(4)] by (simp_all add: get_reservation_def get_call_def calls_of_def)
      have "call_total (calls_of x s1) + m \<le> br_ceiling r"
        using call_total_checked [OF s1(1)] checked_sum_Inr [OF s1(2)] s1(3) by (simp add: same)
      from add_call [OF b same(1) r(2) same(2) i m this] show ?thesis
        using ledger_step0 [OF l1] by (simp add: s1(5))
    qed
  qed
  from keepsD [OF keeps_ledger_transaction [OF this] t l] show "ledger_from A s'" .
qed

lemma settle_call_keeps: "keeps (ledger_from A) (settle_call x i n)"
proof
  let ?work = "bindE (required_reservation x) (\<lambda>r s.
         case get_call x i s of
           None \<Rightarrow> Inl NBadRequest
         | Some c \<Rightarrow>
             (case bc_spent c of
                Some units \<Rightarrow> if units \<noteq> n then Inl NConflict else Inr ((), s)
              | None \<Rightarrow>
                  if br_settled r \<noteq> None then Inl NConflict
                  else if bc_maximum c < n then Inl NBudgetExhausted
                  else bindE (charge 1 0) (\<lambda>_. modE (record_call_spend x i n)) s))"
  fix s y s' assume l: "ledger_from A s" and run: "settle_call x i n s = Inr (y, s')"
  then have n: "bounded 0 n" and t: "net_transaction ?work s = Inr (y, s')"
    by (auto simp: settle_call_def bindE_Inr check_call_id_def)
  have "keeps (ledger_from A) ?work"
  proof (rule keepsI)
    fix s y s' assume l: "ledger_from A s" and run: "?work s = Inr (y, s')"
    then obtain r c where r: "get_reservation x s = Some r" "get_call x i s = Some c"
      and rest: "(case bc_spent c of
                Some units \<Rightarrow> if units \<noteq> n then Inl NConflict else Inr ((), s)
              | None \<Rightarrow>
                  if br_settled r \<noteq> None then Inl NConflict
                  else if bc_maximum c < n then Inl NBudgetExhausted
                  else bindE (charge 1 0) (\<lambda>_. modE (record_call_spend x i n)) s) = Inr (y, s')"
      by (auto simp: bindE_Inr required_reservation_def split: option.splits)
    show "ledger_from A s'"
    proof (cases "bc_spent c")
      case (Some units)
      with rest l show ?thesis by (simp split: if_splits)
    next
      case None
      with rest obtain z s1 where s1: "br_settled r = None" "n \<le> bc_maximum c" "charge 1 0 s = Inr (z, s1)"
        "s' = record_call_spend x i n s1"
        by (auto simp: bindE_Inr split: if_splits)
      have l1: "ledger_from A s1" by (rule keepsD [OF keeps_charge s1(3) l])
      then have b: "budget_ok s1" by (simp add: ledger_from_def)
      have same: "get_reservation x s1 = Some r" "get_call x i s1 = Some c"
        using r charge_Inr [OF s1(3)] by (simp_all add: get_reservation_def get_call_def)
      from spend_call [OF b same(1) s1(1) same(2) None n s1(2)] show ?thesis
        using ledger_step0 [OF l1] by (simp add: s1(4) record_call_spend_def)
    qed
  qed
  from keepsD [OF keeps_ledger_transaction [OF this] t l] show "ledger_from A s'" .
qed

end
