(* ===== verification/BudgetTransfer.thy ===== *)
theory BudgetTransfer
  imports BudgetLaws
begin

text \<open>
  Moving a bot's accounting between computers: what a successful import installs, that it keeps the
  invariant of the ledger, and that importing what another ledger exported restores it exactly.
\<close>

section \<open>What an import installs\<close>

definition bucket_row :: "string \<Rightarrow> transfer_daily \<Rightarrow> budget_daily_row" where
  "bucket_row botId b = \<lparr>bd_bot = botId, bd_space = td_space b, bd_day = td_day b,
     bd_units = td_budgetUnits b, bd_spent = td_spentUnits b\<rparr>"

definition reservation_row :: "string \<Rightarrow> transfer_reservation \<Rightarrow> budget_reservation_row" where
  "reservation_row botId r = \<lparr>br_execution = tv_execution r, br_bot = botId, br_space = tv_space r, br_day = tv_day r,
     br_ceiling = tv_ceilingUnits r, br_settled = tv_settledUnits r\<rparr>"

definition call_row :: "string \<Rightarrow> transfer_call \<Rightarrow> budget_call_row" where
  "call_row x c = \<lparr>bc_execution = x, bc_id = tc_id c, bc_maximum = tc_maximumUnits c, bc_spent = tc_spentUnits c\<rparr>"

definition call_rows :: "transfer_reservation list \<Rightarrow> budget_call_row list" where
  "call_rows rs = concat (map (\<lambda>r. map (call_row (tv_execution r)) (tv_calls r)) rs)"

definition grown :: "budget_daily_row list \<Rightarrow> budget_reservation_row list \<Rightarrow> budget_call_row list \<Rightarrow> net_store \<Rightarrow> net_store \<Rightarrow> bool" where
  "grown ds rs cs s s' \<longleftrightarrow> budget_days s' = budget_days s @ ds \<and> reservations s' = reservations s @ rs \<and>
     calls s' = calls s @ cs \<and> executions s' = executions s \<and> budget_configs s' = budget_configs s"

lemma grown_refl: "grown [] [] [] s s"
  by (simp add: grown_def)

lemma grown_trans: "grown ds rs cs s s' \<Longrightarrow> grown ds' rs' cs' s' s'' \<Longrightarrow> grown (ds @ ds') (rs @ rs') (cs @ cs') s s''"
  by (simp add: grown_def)

lemma charge_grown: "charge r y s = Inr (x, s') \<Longrightarrow> grown [] [] [] s s'"
  using charge_Inr [of r y s x s'] by (simp add: grown_def)

definition matching :: "transfer_daily \<Rightarrow> transfer_reservation list \<Rightarrow> transfer_reservation list" where
  "matching b rs = filter (\<lambda>r. tv_space r = td_space b \<and> tv_day r = td_day b) rs"

definition bucket_covered :: "transfer_reservation list \<Rightarrow> transfer_daily \<Rightarrow> bool" where
  "bucket_covered rs b \<longleftrightarrow> sum_list (List.map_filter tv_settledUnits (matching b rs)) = td_spentUnits b \<and>
     td_spentUnits b + sum_list (map tv_ceilingUnits (filter (\<lambda>r. tv_settledUnits r = None) (matching b rs))) \<le> td_budgetUnits b"

lemma import_bucket_Inr:
  assumes "import_bucket botId rs b s = Inr (y, s')"
  shows "grown [bucket_row botId b] [] [] s s'" "bucket_covered rs b"
    "get_daily botId (td_space b) (td_day b) s = None"
proof -
  obtain settled committed z s1 where s1:
    "checked_sum (List.map_filter tv_settledUnits (matching b rs)) = Inr settled" "settled = td_spentUnits b"
    "checked_sum (td_spentUnits b # map tv_ceilingUnits (filter (\<lambda>r. tv_settledUnits r = None) (matching b rs))) = Inr committed"
    "committed \<le> td_budgetUnits b" "charge 1 0 s = Inr (z, s1)" "get_daily botId (td_space b) (td_day b) s1 = None"
    "s' = s1\<lparr>budget_days := budget_days s1 @ [bucket_row botId b]\<rparr>"
    using assms by (auto simp: import_bucket_def Let_def bindE_Inr matching_def bucket_row_def split: if_splits)
  note g = charge_Inr [OF s1(5)]
  show "grown [bucket_row botId b] [] [] s s'" using g by (simp add: grown_def s1(7))
  show "bucket_covered rs b"
    using checked_sum_Inr [OF s1(1)] checked_sum_Inr [OF s1(3)] s1(2,4) by (simp add: bucket_covered_def)
  show "get_daily botId (td_space b) (td_day b) s = None" using s1(6) g by (simp add: get_daily_def)
qed

lemma import_buckets_Inr:
  assumes "forE ds (import_bucket botId rs) s = Inr (ys, s')"
  shows "grown (map (bucket_row botId) ds) [] [] s s' \<and> (\<forall>b \<in> set ds. bucket_covered rs b)"
  using assms
proof (induction ds arbitrary: s ys)
  case (Cons b ds)
  then obtain y s1 zs where s1: "import_bucket botId rs b s = Inr (y, s1)" "forE ds (import_bucket botId rs) s1 = Inr (zs, s')"
    by (auto split: sum.splits)
  note i = import_bucket_Inr [OF s1(1)] and ih = Cons.IH [OF s1(2)]
  then have "grown ([bucket_row botId b] @ map (bucket_row botId) ds) ([] @ []) ([] @ []) s s'"
    by (intro grown_trans [of _ _ _ s s1 _ _ _ s']) simp_all
  with i ih show ?case by simp
qed (simp add: grown_refl)

lemma import_calls_Inr:
  assumes "forE cs (import_call x) s = Inr (ys, s')"
  shows "grown [] [] (map (call_row x) cs) s s' \<and> (distinct (map call_key (calls s)) \<longrightarrow> distinct (map call_key (calls s')))"
  using assms
proof (induction cs arbitrary: s ys)
  case (Cons c cs)
  then obtain y s1 zs where s1: "import_call x c s = Inr (y, s1)" "forE cs (import_call x) s1 = Inr (zs, s')"
    by (auto split: sum.splits)
  obtain z s0 where s0: "charge 1 0 s = Inr (z, s0)" "get_call x (tc_id c) s0 = None" "s1 = s0\<lparr>calls := calls s0 @ [call_row x c]\<rparr>"
    using s1(1) by (auto simp: import_call_def bindE_Inr call_row_def split: if_splits)
  have g: "grown [] [] [call_row x c] s s1" using charge_Inr [OF s0(1)] by (simp add: grown_def s0(3))
  have d: "distinct (map call_key (calls s)) \<longrightarrow> distinct (map call_key (calls s1))"
    using s0(2) charge_Inr [OF s0(1)] by (auto simp: s0(3) get_call_def lookup_row_None call_key_def call_row_def)
  have "grown ([] @ []) ([] @ []) ([call_row x c] @ map (call_row x) cs) s s'"
    using g Cons.IH [OF s1(2)] by (intro grown_trans [of _ _ _ s s1 _ _ _ s']) simp_all
  with d Cons.IH [OF s1(2)] show ?case by simp
qed (simp add: grown_refl)

lemma import_reservations_Inr:
  assumes "forE rs (import_reservation botId) s = Inr (ys, s')"
  shows "grown [] (map (reservation_row botId) rs) (call_rows rs) s s' \<and>
    (distinct (map call_key (calls s)) \<longrightarrow> distinct (map call_key (calls s'))) \<and>
    (distinct (map br_execution (reservations s)) \<longrightarrow> distinct (map br_execution (reservations s')))"
  using assms
proof (induction rs arbitrary: s ys)
  case (Cons r rs)
  then obtain y s1 zs where s1: "import_reservation botId r s = Inr (y, s1)" "forE rs (import_reservation botId) s1 = Inr (zs, s')"
    by (auto split: sum.splits)
  obtain z s0 xs where s0: "charge 1 0 s = Inr (z, s0)" "get_reservation (tv_execution r) s0 = None"
    "forE (tv_calls r) (import_call (tv_execution r)) (s0\<lparr>reservations := reservations s0 @ [reservation_row botId r]\<rparr>) = Inr (xs, s1)"
    using s1(1) by (auto simp: import_reservation_def bindE_Inr reservation_row_def split: if_splits)
  note c = import_calls_Inr [OF s0(3)] and t = charge_Inr [OF s0(1)]
  have g: "grown [] [reservation_row botId r] (map (call_row (tv_execution r)) (tv_calls r)) s s1"
    using c t by (simp add: grown_def)
  have d: "distinct (map call_key (calls s)) \<longrightarrow> distinct (map call_key (calls s1))"
    using c t by simp
  have e: "distinct (map br_execution (reservations s)) \<longrightarrow> distinct (map br_execution (reservations s1))"
    using c t s0(2) by (auto simp: grown_def get_reservation_def lookup_row_None reservation_row_def)
  have "grown ([] @ []) ([reservation_row botId r] @ map (reservation_row botId) rs)
      (map (call_row (tv_execution r)) (tv_calls r) @ call_rows rs) s s'"
    using g Cons.IH [OF s1(2)] by (intro grown_trans [of _ _ _ s s1 _ _ _ s']) simp_all
  with d e Cons.IH [OF s1(2)] show ?case by (simp add: call_rows_def)
qed (simp add: grown_refl call_rows_def)

section \<open>What the checks establish\<close>

definition daily_key :: "transfer_daily \<Rightarrow> string \<times> int" where
  "daily_key b = (td_space b, td_day b)"

lemma check_buckets_Inr:
  "check_buckets seen ds = Inr bs \<Longrightarrow>
     set bs = set seen \<union> daily_key ` set ds \<and> distinct (map daily_key ds) \<and> daily_key ` set ds \<inter> set seen = {} \<and>
     (\<forall>b \<in> set ds. is_id IdSpace (td_space b) \<and> bounded 0 (td_day b) \<and> bounded 1 (td_budgetUnits b))"
proof (induction ds arbitrary: seen)
  case (Cons d ds)
  then show ?case
    by (auto simp: daily_key_def split: if_splits dest!: Cons.IH)
qed simp

definition transfer_call_ok :: "bool \<Rightarrow> transfer_call \<Rightarrow> bool" where
  "transfer_call_ok settled c \<longleftrightarrow> tc_id c \<noteq> [] \<and> length (tc_id c) \<le> 128 \<and> bounded 0 (tc_maximumUnits c) \<and>
     (case tc_spentUnits c of None \<Rightarrow> \<not> settled | Some n \<Rightarrow> bounded 0 n \<and> n \<le> tc_maximumUnits c)"

lemma check_calls_Inr:
  "check_calls settled seen acc cs = Inr n \<Longrightarrow>
     n = acc + sum_list (map transfer_charge cs) \<and> list_all (transfer_call_ok settled) cs"
proof (induction cs arbitrary: seen acc)
  case (Cons c cs)
  then obtain acc' where "checked_sum [acc, transfer_charge c] = Inr acc'" "check_calls settled (tc_id c # seen) acc' cs = Inr n"
    "transfer_call_ok settled c"
    by (auto simp: transfer_call_ok_def split: if_splits sum.splits option.splits)
  with Cons.IH show ?case by (fastforce dest: checked_sum_Inr)
qed simp

definition transfer_reservation_ok :: "string \<Rightarrow> (string \<times> int) list \<Rightarrow> net_store \<Rightarrow> transfer_reservation \<Rightarrow> bool" where
  "transfer_reservation_ok botId buckets s r \<longleftrightarrow> bounded 1 (tv_ceilingUnits r) \<and>
     (\<exists>x. get_execution (tv_execution r) s = Some x \<and> xr_scope x = tv_space r \<and> xr_target x = botId) \<and>
     (tv_space r, tv_day r) \<in> set buckets \<and> list_all (transfer_call_ok (tv_settledUnits r \<noteq> None)) (tv_calls r) \<and>
     sum_list (map transfer_charge (tv_calls r)) \<le> tv_ceilingUnits r \<and>
     (case tv_settledUnits r of None \<Rightarrow> True
      | Some n \<Rightarrow> bounded 0 n \<and> n \<le> tv_ceilingUnits r \<and> sum_list (map transfer_charge (tv_calls r)) \<le> n)"

lemma check_reservation_Inr:
  assumes "check_reservation botId buckets seen r s = Inr u"
  shows "transfer_reservation_ok botId buckets s r"
proof -
  from assms obtain n where n: "check_calls (tv_settledUnits r \<noteq> None) [] 0 (tv_calls r) = Inr n"
    "n \<le> tv_ceilingUnits r" "case tv_settledUnits r of None \<Rightarrow> True | Some k \<Rightarrow> n \<le> k"
    by (auto simp: check_reservation_def split: if_splits sum.splits option.splits)
  from assms have "bounded 1 (tv_ceilingUnits r)" "(tv_space r, tv_day r) \<in> set buckets"
    "case tv_settledUnits r of None \<Rightarrow> True | Some k \<Rightarrow> bounded 0 k \<and> k \<le> tv_ceilingUnits r"
    "\<exists>x. get_execution (tv_execution r) s = Some x \<and> xr_scope x = tv_space r \<and> xr_target x = botId"
    by (auto simp: check_reservation_def split: if_splits option.splits)
  with n check_calls_Inr [OF n(1)] show ?thesis
    by (auto simp: transfer_reservation_ok_def split: option.splits)
qed

lemma check_reservations_Inr:
  "check_reservations botId buckets seen rs s = Inr u \<Longrightarrow> list_all (transfer_reservation_ok botId buckets s) rs"
proof (induction rs arbitrary: seen)
  case (Cons r rs)
  then show ?case using check_reservation_Inr by (auto split: sum.splits)
qed simp

section \<open>An import keeps the ledger's invariant\<close>

lemma open_accounts:
  assumes "distinct ks" "\<And>k. k \<in> set ks \<Longrightarrow> A k = None \<and> (\<exists>u c. A' k = Some (u, c) \<and> 1 \<le> u \<and> 0 \<le> c \<and> c \<le> u)"
    and "\<And>k. k \<notin> set ks \<Longrightarrow> A' k = A k"
  shows "account_step\<^sup>*\<^sup>* A A'"
  using assms
proof (induction ks arbitrary: A)
  case Nil
  then have "A' = A" by (simp add: fun_eq_iff)
  then show ?case by simp
next
  case (Cons k ks)
  obtain u c where k: "A k = None" "A' k = Some (u, c)" "1 \<le> u" "0 \<le> c" "c \<le> u"
    using Cons.prems(2) [of k] by auto
  let ?A1 = "A(k \<mapsto> (u, 0))"
  have "account_step A ?A1" by (rule as_open) (use k in simp_all)
  moreover have "account_step ?A1 (?A1(k \<mapsto> (u, 0 + c)))" by (rule as_hold) (use k in simp_all)
  moreover have "account_step\<^sup>*\<^sup>* (?A1(k \<mapsto> (u, 0 + c))) A'"
  proof (rule Cons.IH)
    show "distinct ks" using Cons.prems(1) by simp
    show "(?A1(k \<mapsto> (u, 0 + c))) i = None \<and> (\<exists>u c. A' i = Some (u, c) \<and> 1 \<le> u \<and> 0 \<le> c \<and> c \<le> u)"
      if "i \<in> set ks" for i using Cons.prems(1,2) that by auto
    show "A' i = (?A1(k \<mapsto> (u, 0 + c))) i" if "i \<notin> set ks" for i
      using Cons.prems(3) [of i] that k(2) by (cases "i = k") simp_all
  qed
  ultimately show ?case by (meson converse_rtranclp_into_rtranclp)
qed

lemma units_none: "(\<And>r. r \<in> set rs \<Longrightarrow> \<not> in_bucket b r) \<Longrightarrow> held_units b rs = 0 \<and> settled_units b rs = 0"
  by (induction rs) (simp_all add: held_units_sum settled_units_sum)

lemma units_concat:
  "held_units b (rs @ rs') = held_units b rs + held_units b rs'"
  "settled_units b (rs @ rs') = settled_units b rs + settled_units b rs'"
  by (simp_all add: held_units_sum settled_units_sum)

lemma units_matching:
  "held_units (botId, td_space b, td_day b) (map (reservation_row botId) rs) =
     sum_list (map tv_ceilingUnits (filter (\<lambda>r. tv_settledUnits r = None) (matching b rs)))"
  "settled_units (botId, td_space b, td_day b) (map (reservation_row botId) rs) =
     sum_list (List.map_filter tv_settledUnits (matching b rs))"
  by (induction rs) (auto simp: held_units_sum settled_units_sum matching_def reservation_row_def bucket_key_in map_filter_simps
      split: option.splits)

lemma calls_of_rows:
  "distinct (map tv_execution rs) \<Longrightarrow> r \<in> set rs \<Longrightarrow>
   filter (\<lambda>c. bc_execution c = tv_execution r) (call_rows rs) = map (call_row (tv_execution r)) (tv_calls r)"
  "x \<notin> tv_execution ` set rs \<Longrightarrow> filter (\<lambda>c. bc_execution c = x) (call_rows rs) = []"
proof -
  have all: "filter (\<lambda>c. bc_execution c = x) (map (call_row y) cs) = (if x = y then map (call_row y) cs else [])" for x y cs
    by (induction cs) (auto simp: call_row_def)
  show none: "x \<notin> tv_execution ` set rs \<Longrightarrow> filter (\<lambda>c. bc_execution c = x) (call_rows rs) = []" for x rs
    by (induction rs) (auto simp: call_rows_def all)
  show "distinct (map tv_execution rs) \<Longrightarrow> r \<in> set rs \<Longrightarrow>
      filter (\<lambda>c. bc_execution c = tv_execution r) (call_rows rs) = map (call_row (tv_execution r)) (tv_calls r)"
  proof (induction rs)
    case (Cons a rs)
    show ?case
    proof (cases "a = r")
      case True
      then have "tv_execution r \<notin> tv_execution ` set rs" using Cons.prems(1) by simp
      from none [OF this] True show ?thesis by (simp add: call_rows_def all)
    next
      case False
      then have r: "r \<in> set rs" using Cons.prems(2) by simp
      then have "tv_execution r \<noteq> tv_execution a" using Cons.prems(1) imageI [OF r, of tv_execution] by (metis distinct.simps(2) list.simps(9) set_map)
      with Cons.IH Cons.prems(1) r show ?thesis by (simp add: call_rows_def all)
    qed
  qed simp
qed

lemma call_total_rows: "call_total (map (call_row x) cs) = sum_list (map transfer_charge cs)"
proof -
  have "call_charge (call_row x c) = transfer_charge c" for c
    by (cases "tc_spentUnits c") (simp_all add: call_charge_def call_row_def transfer_charge_def)
  then show ?thesis by (simp add: call_total_def comp_def)
qed

text \<open>The store after an import into a ledger that knows nothing of the bot.\<close>

definition imported :: "string \<Rightarrow> transfer_daily list \<Rightarrow> transfer_reservation list \<Rightarrow> net_store \<Rightarrow> net_store \<Rightarrow> bool" where
  "imported botId ds rs s s' \<longleftrightarrow> budget_ok s \<and> list_all (\<lambda>d. bd_bot d \<noteq> botId) (budget_days s) \<and>
     list_all (\<lambda>r. br_bot r \<noteq> botId) (reservations s) \<and>
     grown (map (bucket_row botId) ds) (map (reservation_row botId) rs) (call_rows rs) s s' \<and> is_id IdBot botId \<and>
     distinct (map daily_key ds) \<and>
     list_all (\<lambda>b. is_id IdSpace (td_space b) \<and> bounded 0 (td_day b) \<and> bounded 1 (td_budgetUnits b) \<and> bucket_covered rs b) ds \<and>
     (\<exists>bs. set bs = daily_key ` set ds \<and> list_all (transfer_reservation_ok botId bs s) rs) \<and>
     distinct (map br_execution (reservations s')) \<and> distinct (map call_key (calls s'))"

lemma importedD:
  assumes "imported botId ds rs s s'"
  shows "budget_ok s" "d \<in> set (budget_days s) \<Longrightarrow> bd_bot d \<noteq> botId" "y \<in> set (reservations s) \<Longrightarrow> br_bot y \<noteq> botId"
    "grown (map (bucket_row botId) ds) (map (reservation_row botId) rs) (call_rows rs) s s'" "is_id IdBot botId"
    "distinct (map daily_key ds)"
    "b \<in> set ds \<Longrightarrow> is_id IdSpace (td_space b) \<and> bounded 0 (td_day b) \<and> bounded 1 (td_budgetUnits b)"
    "b \<in> set ds \<Longrightarrow> bucket_covered rs b"
    "r \<in> set rs \<Longrightarrow> \<exists>bs. set bs = daily_key ` set ds \<and> transfer_reservation_ok botId bs s r"
    "distinct (map br_execution (reservations s'))" "distinct (map call_key (calls s'))"
proof -
  show "r \<in> set rs \<Longrightarrow> \<exists>bs. set bs = daily_key ` set ds \<and> transfer_reservation_ok botId bs s r"
    using assms by (simp add: imported_def list_all_iff) blast
qed (use assms in \<open>auto simp: imported_def list_all_iff\<close>)


lemma tables:
  assumes "imported botId ds rs s s'"
  shows "budget_days s' = budget_days s @ map (bucket_row botId) ds"
    "reservations s' = reservations s @ map (reservation_row botId) rs"
    "calls s' = calls s @ call_rows rs" "executions s' = executions s" "budget_configs s' = budget_configs s"
  using importedD(4) [OF assms] by (simp_all add: grown_def)

lemma new_key: "bucket_key (bucket_row botId b) = (botId, td_space b, td_day b)"
  by (simp add: bucket_key_def bucket_row_def)

lemma reservation_row_execution [simp]: "br_execution (reservation_row botId r) = tv_execution r"
  by (simp add: reservation_row_def)

lemma old_bucket:
  assumes i: "imported botId ds rs s s'" and d: "d \<in> set (budget_days s)"
  shows "bucket_ok s' d"
proof -
  have "bd_bot d \<noteq> botId" by (rule importedD(2) [OF i d])
  then have "held_units (bucket_key d) (map (reservation_row botId) rs) = 0 \<and>
      settled_units (bucket_key d) (map (reservation_row botId) rs) = 0"
    by (intro units_none) (auto simp: bucket_key_in bucket_key_def reservation_row_def)
  with budget_okD(4) [OF importedD(1) [OF i] d] show ?thesis by (simp add: bucket_ok_def tables [OF i] units_concat)
qed

lemma new_bucket:
  assumes i: "imported botId ds rs s s'" and b: "b \<in> set ds"
  shows "bucket_ok s' (bucket_row botId b)" "0 \<le> td_spentUnits b + held_units (botId, td_space b, td_day b) (reservations s')"
proof -
  let ?k = "(botId, td_space b, td_day b)"
  have "held_units ?k (reservations s) = 0 \<and> settled_units ?k (reservations s) = 0"
    by (rule units_none) (use importedD(3) [OF i] in \<open>auto simp: bucket_key_in\<close>)
  then have u: "held_units ?k (reservations s') = sum_list (map tv_ceilingUnits (filter (\<lambda>r. tv_settledUnits r = None) (matching b rs)))"
    "settled_units ?k (reservations s') = sum_list (List.map_filter tv_settledUnits (matching b rs))"
    by (simp_all add: tables [OF i] units_concat units_matching)
  have cov: "settled_units ?k (reservations s') = td_spentUnits b"
    "td_spentUnits b + held_units ?k (reservations s') \<le> td_budgetUnits b"
    using importedD(8) [OF i b] by (simp_all add: u bucket_covered_def)
  then show "bucket_ok s' (bucket_row botId b)"
    using importedD(7) [OF i b] importedD(5) [OF i] unfolding bucket_ok_def new_key by (simp add: bucket_row_def)
  have pos: "0 \<le> tv_ceilingUnits r \<and> (case tv_settledUnits r of None \<Rightarrow> True | Some n \<Rightarrow> 0 \<le> n)" if "r \<in> set rs" for r
    using importedD(9) [OF i that] by (auto simp: transfer_reservation_ok_def bounded_def split: option.splits)
  have "0 \<le> sum_list (map tv_ceilingUnits (filter (\<lambda>r. tv_settledUnits r = None) (matching b rs)))"
    using pos by (intro sum_list_nonneg) (auto simp: matching_def)
  moreover have "0 \<le> sum_list (List.map_filter tv_settledUnits (matching b rs))"
    using pos by (intro sum_list_nonneg) (force simp: matching_def map_filter_def split: option.splits)
  ultimately show "0 \<le> td_spentUnits b + held_units ?k (reservations s')" using cov(1) u by simp
qed

lemma executions_distinct:
  assumes i: "imported botId ds rs s s'"
  shows "distinct (map tv_execution rs)" "r \<in> set rs \<Longrightarrow> y \<in> set (reservations s) \<Longrightarrow> br_execution y \<noteq> tv_execution r"
proof -
  have "map br_execution (map (reservation_row botId) rs) = map tv_execution rs" by (simp add: comp_def)
  with importedD(10) [OF i] have d: "distinct (map br_execution (reservations s) @ map tv_execution rs)"
    by (simp only: tables(2) [OF i] map_append)
  then show "distinct (map tv_execution rs)" by simp
  show "r \<in> set rs \<Longrightarrow> y \<in> set (reservations s) \<Longrightarrow> br_execution y \<noteq> tv_execution r"
    using d by (auto simp: disjoint_iff)
qed

lemma old_calls: "budget_ok s \<Longrightarrow> c \<in> set (calls s) \<Longrightarrow> \<exists>y \<in> set (reservations s). br_execution y = bc_execution c"
  using budget_okD(6) get_reservation_mem by (fastforce simp: call_ok_def)

lemma get_daily_old: "imported botId ds rs s s' \<Longrightarrow> get_daily p q m s \<noteq> None \<Longrightarrow> get_daily p q m s' \<noteq> None"
  by (auto simp: get_daily_def tables lookup_row_None)

lemma old_reservation:
  assumes i: "imported botId ds rs s s'" and y: "y \<in> set (reservations s)"
  shows "reservation_ok s' y"
proof -
  have "br_execution y \<notin> tv_execution ` set rs" using executions_distinct(2) [OF i _ y] by auto
  then have "calls_of (br_execution y) s' = calls_of (br_execution y) s"
    using calls_of_rows(2) [of "br_execution y" rs] by (simp add: calls_of_def tables [OF i])
  moreover have "get_daily (br_bot y) (br_space y) (br_day y) s' \<noteq> None"
    using budget_okD(5) [OF importedD(1) [OF i] y] by (intro get_daily_old [OF i]) (simp add: reservation_ok_def)
  ultimately show ?thesis
    using budget_okD(5) [OF importedD(1) [OF i] y] by (simp add: reservation_ok_def get_execution_def tables [OF i])
qed

lemma new_reservation_row:
  assumes i: "imported botId ds rs s s'" and r: "r \<in> set rs"
  shows "reservation_ok s' (reservation_row botId r)"
proof -
  let ?y = "reservation_row botId r"
  obtain bs where bs: "set bs = daily_key ` set ds" "transfer_reservation_ok botId bs s r"
    using importedD(9) [OF i r] by blast
  then obtain b where b: "b \<in> set ds" "td_space b = tv_space r" "td_day b = tv_day r"
    by (auto simp: transfer_reservation_ok_def daily_key_def image_iff)
  have "bucket_row botId b \<in> set (budget_days s')" using b(1) by (simp add: tables [OF i])
  then have day: "get_daily botId (tv_space r) (tv_day r) s' \<noteq> None"
    using b(2,3) new_key [of botId b] by (auto simp: get_daily_def lookup_row_None)
  have "filter (\<lambda>c. bc_execution c = tv_execution r) (calls s) = []"
    using old_calls [OF importedD(1) [OF i]] executions_distinct(2) [OF i r] by (fastforce simp: filter_empty_conv)
  then have calls: "calls_of (tv_execution r) s' = map (call_row (tv_execution r)) (tv_calls r)"
    using calls_of_rows(1) [OF executions_distinct(1) [OF i] r] by (simp add: calls_of_def tables [OF i])
  have "calls_within (tv_settledUnits r) (tv_ceilingUnits r) (map (call_row (tv_execution r)) (tv_calls r))"
    using bs(2) by (auto simp: calls_within_def call_total_rows transfer_reservation_ok_def transfer_call_ok_def
        call_row_def list_all_iff split: option.splits)
  with bs(2) day calls show ?thesis
    by (simp add: reservation_ok_def transfer_reservation_ok_def reservation_row_def get_execution_def tables [OF i])
qed

lemma imported_calls:
  assumes i: "imported botId ds rs s s'" and c: "c \<in> set (calls s')"
  shows "call_ok s' c"
proof (cases "c \<in> set (calls s)")
  case True
  have "get_reservation (bc_execution c) s' \<noteq> None"
    using old_calls [OF importedD(1) [OF i] True] by (auto simp: get_reservation_def tables [OF i] lookup_row_None)
  with budget_okD(6) [OF importedD(1) [OF i] True] show ?thesis by (simp add: call_ok_def)
next
  case False
  then obtain r t where t: "r \<in> set rs" "t \<in> set (tv_calls r)" "c = call_row (tv_execution r) t"
    using c by (auto simp: tables [OF i] call_rows_def)
  have "reservation_row botId r \<in> set (reservations s')" using t(1) by (simp add: tables [OF i])
  from imageI [OF this, of br_execution] have "get_reservation (tv_execution r) s' \<noteq> None"
    by (auto simp: get_reservation_def lookup_row_None image_iff)
  moreover obtain bs where "transfer_reservation_ok botId bs s r" using importedD(9) [OF i t(1)] by blast
  then have "transfer_call_ok (tv_settledUnits r \<noteq> None) t" using t(2) by (simp add: transfer_reservation_ok_def list_all_iff)
  ultimately show ?thesis
    by (auto simp: t(3) call_ok_def call_row_def transfer_call_ok_def split: option.splits)
qed

lemma bucket_keys:
  assumes i: "imported botId ds rs s s'"
  shows "distinct (map bucket_key (budget_days s'))"
proof -
  have k: "map bucket_key (map (bucket_row botId) ds) = map (\<lambda>b. (botId, daily_key b)) ds"
    by (simp add: bucket_key_def bucket_row_def daily_key_def)
  have "distinct (map (\<lambda>b. (botId, daily_key b)) ds)"
    using importedD(6) [OF i] by (simp add: distinct_map inj_on_def)
  moreover have "set (map bucket_key (budget_days s)) \<inter> set (map (\<lambda>b. (botId, daily_key b)) ds) = {}"
    using importedD(2) [OF i] by (auto simp: bucket_key_def)
  ultimately show ?thesis
    unfolding tables(1) [OF i] map_append k using budget_okD(1) [OF importedD(1) [OF i]] by simp
qed

lemma import_ok:
  assumes i: "imported botId ds rs s s'"
  shows "budget_ok s'"
proof -
  have "list_all (bucket_ok s') (budget_days s')"
    unfolding tables(1) [OF i] using old_bucket [OF i] new_bucket(1) [OF i] by (auto simp: list_all_iff)
  moreover have "list_all (reservation_ok s') (reservations s')"
    unfolding tables(2) [OF i] using old_reservation [OF i] new_reservation_row [OF i] by (auto simp: list_all_iff)
  moreover have "list_all (call_ok s') (calls s')" using imported_calls [OF i] by (simp add: list_all_iff)
  moreover have "list_all (\<lambda>c. bounded 1 (bf_units c)) (budget_configs s')"
    unfolding tables(5) [OF i] using budget_okD(7) [OF importedD(1) [OF i]] by (simp add: list_all_iff)
  ultimately show ?thesis
    unfolding budget_ok_def using bucket_keys [OF i] importedD(10,11) [OF i] by blast
qed

lemma import_accounts:
  assumes i: "imported botId ds rs s s'"
  shows "account_step\<^sup>*\<^sup>* (account s) (account s')"
proof (rule open_accounts)
  let ?ks = "map (\<lambda>b. (botId, daily_key b)) ds"
  show "distinct ?ks" using importedD(6) [OF i] by (simp add: distinct_map inj_on_def)
  have old: "account s k = None" if "fst k = botId" for k
  proof (cases "lookup_row bucket_key k (budget_days s)")
    case (Some d)
    from lookup_row_Some [OF this] importedD(2) [OF i, of d] that show ?thesis by (auto simp: bucket_key_def)
  qed (simp add: account_def)
  show "account s k = None \<and> (\<exists>u c. account s' k = Some (u, c) \<and> 1 \<le> u \<and> 0 \<le> c \<and> c \<le> u)"
    if "k \<in> set ?ks" for k
  proof -
    from that obtain b where b: "b \<in> set ds" "k = (botId, td_space b, td_day b)" by (auto simp: daily_key_def)
    have "bucket_row botId b \<in> set (budget_days s')" using b(1) by (simp add: tables [OF i])
    from lookup_row_mem [OF bucket_keys [OF i] this] have "lookup_row bucket_key k (budget_days s') = Some (bucket_row botId b)"
      by (simp add: new_key b(2))
    then have "account s' k = Some (td_budgetUnits b, td_spentUnits b + held_units k (reservations s'))"
      by (simp add: account_def bucket_row_def)
    with new_bucket [OF i b(1)] old [of k] b(2) show ?thesis
      by (auto simp: bucket_ok_def new_key) (simp_all add: bucket_row_def bounded_def)
  qed
  show "account s' k = account s k" if "k \<notin> set ?ks" for k
  proof (cases "fst k = botId")
    case True
    have "lookup_row bucket_key k (budget_days s') = None"
      unfolding lookup_row_None tables(1) [OF i]
    proof
      fix y assume "y \<in> set (budget_days s @ map (bucket_row botId) ds)"
      then consider "y \<in> set (budget_days s)" | b where "b \<in> set ds" "y = bucket_row botId b" by auto
      then show "bucket_key y \<noteq> k"
      proof cases
        case 1
        then have "bd_bot y \<noteq> botId" by (rule importedD(2) [OF i])
        with True show ?thesis by (auto simp: bucket_key_def)
      next
        case 2
        then show ?thesis using that by (auto simp: new_key daily_key_def)
      qed
    qed
    with old [OF True] show ?thesis by (simp add: account_def)
  next
    case False
    have "held_units k (map (reservation_row botId) rs) = 0 \<and> settled_units k (map (reservation_row botId) rs) = 0"
      by (rule units_none) (use False in \<open>auto simp: bucket_key_in reservation_row_def\<close>)
    moreover have "lookup_row bucket_key k (budget_days s') = lookup_row bucket_key k (budget_days s)"
    proof -
      have "List.find P (xs @ ys) = (case List.find P xs of None \<Rightarrow> List.find P ys | Some x \<Rightarrow> Some x)" for P and xs ys :: "budget_daily_row list"
        by (induction xs) simp_all
      moreover have "List.find (\<lambda>r. bucket_key r = k) (map (bucket_row botId) ds) = None"
        using False by (auto simp: find_None_iff_mem bucket_key_def bucket_row_def)
      ultimately show ?thesis by (simp add: lookup_row_def tables(1) [OF i] split: option.split)
    qed
    ultimately show ?thesis by (simp add: account_def tables(2) [OF i] units_concat split: option.split)
  qed
qed

text \<open>A successful import of a bot the ledger did not know.\<close>

lemma export_empty:
  assumes "bt_daily (export_for botId s) = []" "bt_reservations (export_for botId s) = []"
  shows "list_all (\<lambda>d. bd_bot d \<noteq> botId) (budget_days s)" "list_all (\<lambda>r. br_bot r \<noteq> botId) (reservations s)"
proof -
  have e: "sort_key f xs = [] \<longleftrightarrow> xs = []" for f :: "'x \<Rightarrow> 'k :: linorder" and xs
    by (metis length_0_conv length_sort)
  show "list_all (\<lambda>d. bd_bot d \<noteq> botId) (budget_days s)" "list_all (\<lambda>r. br_bot r \<noteq> botId) (reservations s)"
    using assms by (simp_all add: export_for_def e filter_empty_conv list_all_iff)
qed

lemma install_transfer_imported:
  assumes run: "install_transfer botId t s = Inr (y, s')" and ok: "budget_ok s" and bot: "is_id IdBot botId"
    and new: "list_all (\<lambda>d. bd_bot d \<noteq> botId) (budget_days s)" "list_all (\<lambda>r. br_bot r \<noteq> botId) (reservations s)"
  shows "imported botId (bt_daily t) (bt_reservations t) s s'"
proof -
  obtain bs s1 ys zs where r: "check_buckets [] (bt_daily t) = Inr bs"
    "check_reservations botId bs [] (bt_reservations t) s = Inr ()"
    "forE (bt_daily t) (import_bucket botId (bt_reservations t)) s = Inr (ys, s1)"
    "forE (bt_reservations t) (import_reservation botId) s1 = Inr (zs, s')"
    using run by (auto simp: install_transfer_def bindE_Inr)
  note b = check_buckets_Inr [OF r(1)] and v = check_reservations_Inr [OF r(2)]
  note d = import_buckets_Inr [OF r(3)] and e = import_reservations_Inr [OF r(4)]
  have s1: "calls s1 = calls s" "reservations s1 = reservations s" using d by (simp_all add: grown_def)
  have "grown (map (bucket_row botId) (bt_daily t) @ []) ([] @ map (reservation_row botId) (bt_reservations t))
      ([] @ call_rows (bt_reservations t)) s s'"
    using d e by (intro grown_trans [of _ _ _ s s1 _ _ _ s']) simp_all
  with b v d e s1 ok bot new budget_okD(2,3) [OF ok] show ?thesis
    by (auto simp: imported_def list_all_iff)
qed

lemma import_for_keeps: "keeps (ledger_from A) (import_for botId t)"
proof
  let ?work = "\<lambda>s. let current = export_for botId s in
       if bt_daily current \<noteq> [] \<or> bt_reservations current \<noteq> []
       then bindE (liftE (same_json (transfer_json current) (transfer_json t))) (\<lambda>eq. requireE eq NConflict) s
       else install_transfer botId t s"
  fix s y s' assume l: "ledger_from A s" and run: "import_for botId t s = Inr (y, s')"
  then have bot: "is_id IdBot botId" and w: "net_transaction ?work s = Inr (y, s')"
    by (auto simp: import_for_def bindE_Inr)
  have "keeps (ledger_from A) ?work"
  proof (rule keepsI)
    fix s y s' assume l: "ledger_from A s" and run: "?work s = Inr (y, s')"
    show "ledger_from A s'"
    proof (cases "bt_daily (export_for botId s) = [] \<and> bt_reservations (export_for botId s) = []")
      case True
      with run have "install_transfer botId t s = Inr (y, s')" by (simp add: Let_def)
      then have i: "imported botId (bt_daily t) (bt_reservations t) s s'"
        using install_transfer_imported [OF _ _ bot] export_empty [of botId s] True l by (simp add: ledger_from_def)
      from import_ok [OF i] import_accounts [OF i] l show ?thesis
        by (auto simp: ledger_from_def)
    next
      case False
      with run l show ?thesis by (auto simp: Let_def bindE_Inr split: if_splits)
    qed
  qed
  from keepsD [OF keeps_ledger_transaction [OF this] w l] show "ledger_from A s'" .
qed

end
