(* ===== verification/ExecutionLaws.thy ===== *)
theory ExecutionLaws
  imports Executions BudgetTransfer
begin

text \<open>
  The programs the services build over the ledgers of the network store, and the contract an invariant
  has to meet to survive all of them. \<open>ledger_call\<close> is the set of these programs: the operations of the
  two ledgers, nested in each other's transactions and callbacks, in any order, with decisions taken on
  what they read. The locale \<open>ledger_contract\<close> lists what the single writes must keep.
\<close>

section \<open>Identifiers\<close>

lemma length_id_body [simp]: "length (id_body n v) = n"
  by (induction n arbitrary: v) auto

lemma id_digit_char: "id_char (id_digit d)"
proof -
  have "d mod 32 < length ''0123456789abcdefghjkmnpqrstvwxyz''" by simp
  then have "id_digit d \<in> set ''0123456789abcdefghjkmnpqrstvwxyz''" unfolding id_digit_def by (rule nth_mem)
  then show ?thesis by (simp only: id_char_def)
qed

lemma id_body_chars: "list_all id_char (id_body n v)"
  by (induction n arbitrary: v) (simp_all add: id_digit_char)

lemma new_id_shape: "is_id kind (new_id kind v)"
  by (cases kind) (simp_all add: is_id_def new_id_def id_body_chars)

lemma id_digit_inject: "id_digit a = id_digit b \<longleftrightarrow> a mod 32 = b mod 32"
proof -
  have "distinct ''0123456789abcdefghjkmnpqrstvwxyz''" by simp
  then show ?thesis
    unfolding id_digit_def by (rule nth_eq_iff_index_eq) simp_all
qed

lemma id_body_inject: "id_body n v = id_body n w \<longleftrightarrow> v mod 32 ^ n = w mod 32 ^ n"
proof (induction n arbitrary: v w)
  case (Suc n)
  have split: "32 * a + b = 32 * c + d \<longleftrightarrow> a = c \<and> b = d" if "b < 32" "d < 32" for a b c d :: nat
    using that by (cases rule: linorder_cases [of a c]) auto
  have m: "u mod 32 ^ Suc n = 32 * (u div 32 mod 32 ^ n) + u mod 32" for u :: nat
    by (simp only: power_Suc mod_mult2_eq)
  have "v mod 32 ^ Suc n = w mod 32 ^ Suc n \<longleftrightarrow> v div 32 mod 32 ^ n = w div 32 mod 32 ^ n \<and> v mod 32 = w mod 32"
    unfolding m by (rule split) (simp_all only: mod_less_divisor zero_less_numeral)
  then show ?case by (simp only: id_body.simps append1_eq_conv Suc.IH id_digit_inject)
qed simp

lemma space_not_node: "is_id IdSpace x \<Longrightarrow> \<not> (''nod_'' \<le> x \<and> x < ''nod`'')"
proof
  assume "is_id IdSpace x" "''nod_'' \<le> x \<and> x < ''nod`''"
  then have "take 4 x = ''spc_''" "x < ''nod`''" by (simp_all add: is_id_def)
  then show False
    by (cases x) simp_all
qed

section \<open>Programs over the ledgers\<close>

inductive ledger_call :: "unit net_txn \<Rightarrow> bool" where
  lc_return: "ledger_call (retE ())"
| lc_fail: "ledger_call (failE e)"
| lc_read: "(\<And>s. ledger_call (f s)) \<Longrightarrow> ledger_call (\<lambda>s. f s s)"
| lc_then: "ledger_call m \<Longrightarrow> ledger_call n \<Longrightarrow> ledger_call (bindE m (\<lambda>_. n))"
| lc_transaction: "ledger_call m \<Longrightarrow> ledger_call (net_transaction m)"
| lc_set_daily_budget: "ledger_call (set_daily_budget botId space units)"
| lc_reserve: "ledger_call (reserve botId space execution units now)"
| lc_settle: "ledger_call (settle execution units)"
| lc_authorize_call: "ledger_call (authorize_call execution callId units)"
| lc_settle_call: "ledger_call (settle_call execution callId units)"
| lc_import_for: "ledger_call (import_for botId t)"
| lc_admit: "(\<And>x. ledger_call (fx x)) \<Longrightarrow> (\<And>r. ledger_call (f r)) \<Longrightarrow> ledger_call (bindE (admit k hash now fx planned) f)"
| lc_expire: "(\<And>x. ledger_call (fx x)) \<Longrightarrow> (\<And>r. ledger_call (g r)) \<Longrightarrow> ledger_call (bindE (expire k hash now fx planned) g)"
| lc_bind_run: "ledger_call (bind_run i binding)"
| lc_transition: "(\<And>x. ledger_call (fx x)) \<Longrightarrow> (\<And>r. ledger_call (h r)) \<Longrightarrow>
    ledger_call (bindE (transition_execution i to now patch fx) h)"
| lc_prune: "(\<And>ids. ledger_call (before ids)) \<Longrightarrow> (\<And>n. ledger_call (j n)) \<Longrightarrow>
    ledger_call (bindE (prune olderThan limit before) j)"
| lc_import_executions: "ledger_call (import_executions target rows)"

section \<open>The contract of an invariant\<close>

definition well_formed :: "execution_row \<Rightarrow> bool" where
  "well_formed x \<longleftrightarrow> is_id IdExecution (xr_id x) \<and> valid_key (row_key x) (xr_payloadHash x) \<and>
     bounded 0 (xr_startedAt x) \<and> bounded 0 (xr_updatedAt x)"

definition permitted :: "execution_row \<Rightarrow> execution_row \<Rightarrow> bool" where
  "permitted x n \<longleftrightarrow> xr_id n = xr_id x \<and> xr_state x \<notin> set terminal_states \<and>
     xr_state n \<in> set (execution_transitions (xr_state x)) \<and> xr_updatedAt x \<le> xr_updatedAt n \<and> bounded 0 (xr_updatedAt n)"

locale ledger_contract =
  fixes inv :: "net_store \<Rightarrow> bool"
  assumes counters: "inv (s\<lparr>in_transaction := b, txn_rows := r, txn_bytes := y\<rparr>) = inv s"
    and next_id: "inv s \<Longrightarrow> inv (s\<lparr>net_next_id := j\<rparr>)"
    and set_daily_budget: "keeps inv (set_daily_budget botId space units)"
    and reserve: "keeps inv (reserve botId space execution units now)"
    and settle: "keeps inv (settle execution units)"
    and authorize_call: "keeps inv (authorize_call execution callId units)"
    and settle_call: "keeps inv (settle_call execution callId units)"
    and import_for: "keeps inv (import_for botId t)"
    and insert_row: "inv s \<Longrightarrow> get_execution (xr_id x) s = None \<Longrightarrow> find_execution (row_key x) s = None \<Longrightarrow> well_formed x \<Longrightarrow>
      inv (s\<lparr>executions := executions s @ [x]\<rparr>)"
    and bind_row: "inv s \<Longrightarrow> get_execution i s = Some x \<Longrightarrow> xr_state x = XAccepted \<Longrightarrow> xr_binding x = None \<Longrightarrow>
      inv (update_execution i (\<lambda>x. x\<lparr>xr_binding := Some binding\<rparr>) s)"
    and write_row: "inv s \<Longrightarrow> get_execution (xr_id n) s = Some x \<Longrightarrow> permitted x n \<Longrightarrow> inv (write_execution n s)"
    and delete_row: "inv s0 \<Longrightarrow> x \<in> set (executions s0) \<Longrightarrow> prunable t0 s0 x \<Longrightarrow> inv s \<Longrightarrow>
      list_all (\<lambda>r. br_execution r \<noteq> xr_id x) (reservations s) \<Longrightarrow>
      inv (s\<lparr>executions := filter (\<lambda>e. xr_id e \<noteq> xr_id x) (executions s)\<rparr>)"
begin

lemma transaction: "keeps inv m \<Longrightarrow> keeps inv (net_transaction m)"
  by (rule keeps_net_transaction [OF _ counters])

lemma charge_keeps: "charge r y s = Inr (u, s') \<Longrightarrow> inv s' = inv s"
  using counters [where s = s and b = "in_transaction s" and r = "txn_rows s + r" and y = "txn_bytes s + y"]
  by (auto dest!: charge_Inr)

lemma charge_json_keeps: "charge_json r v s = Inr (u, s') \<Longrightarrow> inv s' = inv s"
  by (auto simp: charge_json_def bindE_Inr dest: charge_keeps)

lemma charge_json_tables: "charge_json r v s = Inr (u, s') \<Longrightarrow> executions s' = executions s"
  by (auto simp: charge_json_def bindE_Inr dest!: charge_Inr)

lemma insert_execution_row_keeps:
  "well_formed x \<Longrightarrow> keeps inv (insert_execution_row x)"
  by (rule keepsI) (auto simp: insert_execution_row_def intro: insert_row split: if_splits)

lemma next_execution_id_keeps:
  assumes "next_execution_id planned s = Inr (i, s')" "inv s" "case planned of None \<Rightarrow> True | Some j \<Rightarrow> is_id IdExecution j"
  shows "inv s'" "is_id IdExecution i"
  using assms next_id new_id_shape by (auto simp: next_execution_id_def split: option.splits)

lemma insert_keeps:
  assumes fx: "\<And>x. keeps inv (fx x)"
  shows "keeps inv (insert_execution k hash now state fx planned)"
proof
  let ?planned = "case planned of None \<Rightarrow> True | Some i \<Rightarrow> is_id IdExecution i"
  let ?work = "\<lambda>s. case find_execution k s of
         Some p \<Rightarrow> if xr_payloadHash p \<noteq> hash then Inl NConflict else Inr (DuplicateAdmit p, s)
       | None \<Rightarrow>
           if (case planned of None \<Rightarrow> False | Some i \<Rightarrow> get_execution i s \<noteq> None) then Inl NConflict
           else insert_new k hash now state fx planned s"
  fix s r s' assume inv: "inv s" and run: "insert_execution k hash now state fx planned s = Inr (r, s')"
  then have v: "bounded 0 now" "valid_key k hash" ?planned and t: "net_transaction ?work s = Inr (r, s')"
    by (auto simp: insert_execution_def validate_key_def bindE_Inr)
  have "keeps inv ?work"
  proof (rule keepsI)
    fix s r s' assume inv: "inv s" and run: "?work s = Inr (r, s')"
    show "inv s'"
    proof (cases "find_execution k s")
      case (Some p)
      with run inv show ?thesis by (simp split: if_splits)
    next
      case None
      with run have "insert_new k hash now state fx planned s = Inr (r, s')" by (simp split: if_splits)
      then obtain i s1 x u s2 s3 s4 where n: "next_execution_id planned s = Inr (i, s1)"
        "x = new_execution k hash now state i"
        "charge_json 1 (execution_json x) s1 = Inr (u, s2)" "insert_execution_row x s2 = Inr ((), s3)"
        "fx x s3 = Inr ((), s4)" "s' = s4"
        by (auto simp: insert_new_def install_execution_def bindE_Inr required_execution_def split: option.splits)
      have "well_formed x"
        using v next_execution_id_keeps(2) [OF n(1) inv v(3)] by (cases k) (simp add: well_formed_def n(2) new_execution_def row_key_def)
      then have "inv s3"
        using keepsD [OF insert_execution_row_keeps n(4)] next_execution_id_keeps(1) [OF n(1) inv v(3)] charge_json_keeps [OF n(3)]
        by simp
      with keepsD [OF fx n(5)] n(6) show ?thesis by simp
    qed
  qed
  from keepsD [OF transaction [OF this] t inv] show "inv s'" .
qed

lemma bind_run_keeps: "keeps inv (bind_run i binding)"
proof
  let ?work = "bindE (required_execution i) (\<lambda>x.
          case xr_binding x of
            Some old \<Rightarrow> bindE (liftE (same_json old binding)) (\<lambda>eq. requireE eq NConflict)
          | None \<Rightarrow>
              bindE (requireE (xr_state x = XAccepted \<and> Some (xr_scope x) = jstring (jfield binding ''space'') \<and>
                Some (xr_target x) = jstring (jfield binding ''bot'')) NConflict) (\<lambda>_.
              bindE (charge_json 1 binding) (\<lambda>_.
              modE (update_execution i (\<lambda>x. x\<lparr>xr_binding := Some (stored binding)\<rparr>)))))"
  fix s y s' assume inv: "inv s" and run: "bind_run i binding s = Inr (y, s')"
  then have t: "net_transaction ?work s = Inr (y, s')" by (simp add: bind_run_def split: if_splits)
  have "keeps inv ?work"
  proof (rule keepsI)
    fix s y s' assume inv: "inv s" and run: "?work s = Inr (y, s')"
    then obtain x where x: "get_execution i s = Some x" by (auto simp: bindE_Inr required_execution_def split: option.splits)
    show "inv s'"
    proof (cases "xr_binding x")
      case None
      with run x obtain u s1 where s1: "xr_state x = XAccepted" "charge_json 1 binding s = Inr (u, s1)"
        "s' = update_execution i (\<lambda>x. x\<lparr>xr_binding := Some (stored binding)\<rparr>) s1"
        by (auto simp: bindE_Inr required_execution_def)
      have "get_execution i s1 = Some x" using x charge_json_tables [OF s1(2)] by (simp add: get_execution_def)
      then show ?thesis
        unfolding s1(3) using None s1(1) inv charge_json_keeps [OF s1(2)] by (intro bind_row) simp_all
    next
      case (Some old)
      with run x inv show ?thesis by (auto simp: bindE_Inr required_execution_def)
    qed
  qed
  from keepsD [OF transaction [OF this] t inv] show "inv s'" .
qed

lemma replayed_same: "replayed x p s = Inr (y, s') \<Longrightarrow> s' = s"
  by (auto simp: replayed_def bindE_Inr)

lemma transition_keeps:
  assumes fx: "\<And>x. keeps inv (fx x)"
  shows "keeps inv (transition_execution i to now patch fx)"
proof
  let ?rest = "apply_transition to now patch fx"
  fix s y s' assume inv: "inv s" and run: "transition_execution i to now patch fx s = Inr (y, s')"
  then have now: "bounded 0 now" and t: "net_transaction (bindE (required_execution i) ?rest) s = Inr (y, s')"
    by (auto simp: transition_execution_def bindE_Inr)
  have "keeps inv (bindE (required_execution i) ?rest)"
  proof (rule keepsI)
    fix s y s' assume inv: "inv s" and run: "bindE (required_execution i) ?rest s = Inr (y, s')"
    then obtain x where x: "get_execution i s = Some x" "?rest x s = Inr (y, s')"
      by (auto simp: bindE_Inr required_execution_def split: option.splits)
    have xi: "xr_id x = i" using x(1) lookup_row_Some [of xr_id i] by (auto simp: get_execution_def)
    show "inv s'"
    proof (cases "xr_state x = to")
      case True
      with x(2) inv replayed_same [of x patch s y s'] show ?thesis by (simp add: apply_transition_def)
    next
      case False
      let ?n = "patched_execution x patch to now"
      from False x(2) obtain u s1 s2 where s1:
        "xr_state x \<notin> set terminal_states" "to \<in> set (execution_transitions (xr_state x))" "xr_updatedAt x \<le> now"
        "charge_json 1 (execution_json ?n) s = Inr (u, s1)" "fx ?n (write_execution ?n s1) = Inr ((), s2)"
        "required_execution i s2 = Inr (y, s')"
        by (auto simp: apply_transition_def commit_transition_def patched_execution_def xi bindE_Inr split: if_splits)
      have g: "get_execution (xr_id ?n) s1 = Some x"
        using x(1) charge_json_tables [OF s1(4)] by (simp add: patched_execution_def get_execution_def xi)
      have p: "permitted x ?n" using s1(1-3) now by (simp add: permitted_def patched_execution_def)
      have "inv (write_execution ?n s1)"
        by (rule write_row [OF _ g p]) (use charge_json_keeps [OF s1(4)] inv in simp)
      with keepsD [OF fx s1(5)] s1(6) show ?thesis by (auto simp: required_execution_def split: option.splits)
    qed
  qed
  from keepsD [OF transaction [OF this] t inv] show "inv s'" .
qed

lemma delete_execution_keeps:
  assumes inv: "inv s0" and x: "x \<in> set (executions s0)" "prunable t s0 x" "i = xr_id x"
  shows "keeps inv (delete_execution i)"
  using delete_row [OF inv x(1,2)]
  by (auto intro!: keepsI simp: delete_execution_def list_ex_iff list_all_iff x(3) split: if_splits)

lemma prune_keeps:
  assumes before: "\<And>ids. keeps inv (before ids)"
  shows "keeps inv (prune olderThan limit before)"
proof
  let ?work = "\<lambda>s. let ids = prune_ids olderThan limit s in
       if ids = [] then Inr (0, s)
       else bindE (charge (2 * length ids) 0) (\<lambda>_.
            bindE (before ids) (\<lambda>_.
            bindE (forE ids delete_execution) (\<lambda>_. retE (length ids)))) s"
  fix s y s' assume inv: "inv s" and run: "prune olderThan limit before s = Inr (y, s')"
  then have t: "net_transaction ?work s = Inr (y, s')" by (auto simp: prune_def bindE_Inr)
  have "keeps inv ?work"
  proof (rule keepsI)
    fix s y s' assume inv: "inv s" and run: "?work s = Inr (y, s')"
    let ?ids = "prune_ids olderThan limit s"
    show "inv s'"
    proof (cases "?ids = []")
      case False
      with run obtain u s1 v s2 ys where s1: "charge (2 * length ?ids) 0 s = Inr (u, s1)" "before ?ids s1 = Inr (v, s2)"
        "forE ?ids delete_execution s2 = Inr (ys, s')"
        by (auto simp: Let_def bindE_Inr)
      have "inv s2" using keepsD [OF before s1(2)] charge_keeps [OF s1(1)] inv by simp
      moreover have "keeps inv (delete_execution i)" if "i \<in> set ?ids" for i
      proof -
        from that obtain x where "x \<in> set (executions s)" "prunable olderThan s x" "i = xr_id x"
          by (auto simp: prune_ids_def dest!: in_set_takeD)
        from delete_execution_keeps [OF inv this] show ?thesis .
      qed
      then have k: "keeps inv (forE ?ids delete_execution)" by (rule keeps_forE)
      ultimately show ?thesis using keepsD [OF k s1(3)] by simp
    qed (use run inv in \<open>simp add: Let_def\<close>)
  qed
  from keepsD [OF transaction [OF this] t inv] show "inv s'" .
qed

lemma import_execution_keeps: "keeps inv (import_execution target x)"
proof
  fix s y s' assume inv: "inv s" and run: "import_execution target x s = Inr (y, s')"
  then have v: "valid_key (row_key x) (xr_payloadHash x)" "bounded 0 (xr_startedAt x)" "bounded 0 (xr_updatedAt x)"
    "is_id IdExecution (xr_id x)"
    and rest: "(case find_execution (row_key x) s of
         Some p \<Rightarrow> bindE (liftE (same_json (execution_json p) (execution_json x))) (\<lambda>eq. requireE eq NConflict) s
       | None \<Rightarrow>
           if get_execution (xr_id x) s \<noteq> None then Inl NConflict
           else bindE (charge_json 1 (execution_json x)) (\<lambda>_. insert_execution_row (stored_execution x)) s) = Inr (y, s')"
    by (auto simp: import_execution_def validate_key_def bindE_Inr)
  have w: "well_formed (stored_execution x)" using v by (simp add: well_formed_def stored_execution_def row_key_def)
  show "inv s'"
  proof (cases "find_execution (row_key x) s")
    case (Some p)
    with rest inv show ?thesis by (auto simp: bindE_Inr)
  next
    case None
    with rest obtain u s1 where "charge_json 1 (execution_json x) s = Inr (u, s1)"
      "insert_execution_row (stored_execution x) s1 = Inr (y, s')"
      by (auto simp: bindE_Inr split: if_splits)
    with keepsD [OF insert_execution_row_keeps [OF w]] charge_json_keeps inv show ?thesis by blast
  qed
qed

lemma import_executions_keeps: "keeps inv (import_executions target rows)"
proof
  let ?work = "bindE (forE rows (import_execution target)) (\<lambda>_. retE ())"
  fix s y s' assume inv: "inv s" and run: "import_executions target rows s = Inr (y, s')"
  then have t: "net_transaction ?work s = Inr (y, s')"
    unfolding import_executions_def bindE_Inr requireE_Inr liftE_Inr by blast
  have "keeps inv (forE rows (import_execution target))" by (rule keeps_forE) (rule import_execution_keeps)
  then have "keeps inv ?work" by (rule keeps_bindE) simp
  from keepsD [OF transaction [OF this] t inv] show "inv s'" .
qed

theorem ledger_call_keeps: "ledger_call m \<Longrightarrow> keeps inv m"
proof (induction rule: ledger_call.induct)
  case (lc_read f)
  then show ?case by (auto simp: keeps_def)
next
  case (lc_admit fx f k hash now planned)
  then show ?case by (auto simp: admit_def intro!: keeps_bindE insert_keeps)
next
  case (lc_expire fx g k hash now planned)
  then show ?case by (auto simp: expire_def intro!: keeps_bindE insert_keeps)
next
  case (lc_transition fx h i to now patch)
  then show ?case by (auto intro!: keeps_bindE transition_keeps)
next
  case (lc_prune before j olderThan limit)
  then show ?case by (auto intro!: keeps_bindE prune_keeps)
qed (auto intro: set_daily_budget reserve settle authorize_call settle_call import_for transaction bind_run_keeps
    import_executions_keeps)

end

end
