(* ===== verification/NetLaws.thy ===== *)
theory NetLaws
  imports ExecutionLaws
begin

text \<open>
  The two contracts of the network ledgers that every program over them keeps: the books of the budget
  ledger with their abstract accounts, and the outcomes of the executions of a space.
\<close>

section \<open>The books\<close>

lemma executions_changed:
  assumes l: "ledger_from A s"
    and x: "\<And>i x. list_ex (\<lambda>r. br_execution r = i) (reservations s) \<Longrightarrow> lookup_row xr_id i (executions s) = Some x \<Longrightarrow>
      \<exists>x'. lookup_row xr_id i xs = Some x' \<and> xr_scope x' = xr_scope x \<and> xr_target x' = xr_target x"
  shows "ledger_from A (s\<lparr>executions := xs\<rparr>)"
proof -
  let ?s = "s\<lparr>executions := xs\<rparr>"
  have b: "budget_ok s" using l by (simp add: ledger_from_def)
  have "reservation_ok ?s r" if r: "r \<in> set (reservations s)" for r
  proof -
    obtain x where "get_execution (br_execution r) s = Some x" "xr_scope x = br_space r" "xr_target x = br_bot r"
      using budget_okD(5) [OF b r] by (auto simp: reservation_ok_def)
    moreover have "list_ex (\<lambda>q. br_execution q = br_execution r) (reservations s)" using r by (auto simp: list_ex_iff)
    ultimately have "\<exists>x. get_execution (br_execution r) ?s = Some x \<and> xr_scope x = br_space r \<and> xr_target x = br_bot r"
      using x by (fastforce simp: get_execution_def)
    with budget_okD(5) [OF b r] show ?thesis by (simp add: reservation_ok_def get_daily_def calls_of_def)
  qed
  moreover have "bucket_ok ?s = bucket_ok s" "call_ok ?s = call_ok s"
    by (simp_all add: fun_eq_iff bucket_ok_def call_ok_def get_reservation_def)
  ultimately have "budget_ok ?s" using b by (simp add: budget_ok_def list_all_iff)
  moreover have "account ?s = account s" by (rule ext) (simp add: account_def split: option.split)
  ultimately show ?thesis using l by (simp add: ledger_from_def)
qed

lemma ledger_next_id: "ledger_from A (s\<lparr>net_next_id := j\<rparr>) = ledger_from A s"
  using same_budgets_ok [of s "s\<lparr>net_next_id := j\<rparr>"] by (simp add: ledger_from_def same_budgets_def)

lemma ledger_update_execution:
  assumes "ledger_from A s" "\<And>x. xr_id (f x) = xr_id x" "\<And>x. xr_scope (f x) = xr_scope x" "\<And>x. xr_target (f x) = xr_target x"
  shows "ledger_from A (update_execution i f s)"
  unfolding update_execution_def
  by (rule executions_changed [OF assms(1)]) (auto simp: lookup_row_update assms(2-4))

lemma lookup_filter:
  "lookup_row key k rows = Some x \<Longrightarrow> P x \<Longrightarrow> (\<And>r. key r = k \<Longrightarrow> P r) \<Longrightarrow> lookup_row key k (filter P rows) = Some x"
  by (induction rows) (auto simp: lookup_row_def split: if_splits)

interpretation books: ledger_contract "ledger_from A" for A
proof
  fix s :: net_store and x t0 s0
  assume l: "ledger_from A s" and free: "list_all (\<lambda>r. br_execution r \<noteq> xr_id x) (reservations s)"
  show "ledger_from A (s\<lparr>executions := filter (\<lambda>e. xr_id e \<noteq> xr_id x) (executions s)\<rparr>)"
  proof (rule executions_changed [OF l])
    fix i y assume "list_ex (\<lambda>r. br_execution r = i) (reservations s)" and y: "lookup_row xr_id i (executions s) = Some y"
    then have "i \<noteq> xr_id x" using free by (auto simp: list_all_iff list_ex_iff)
    then have "lookup_row xr_id i (filter (\<lambda>e. xr_id e \<noteq> xr_id x) (executions s)) = Some y"
      using lookup_filter [OF y] lookup_row_Some [OF y] by simp
    then show "\<exists>x'. lookup_row xr_id i (filter (\<lambda>e. xr_id e \<noteq> xr_id x) (executions s)) = Some x' \<and>
      xr_scope x' = xr_scope y \<and> xr_target x' = xr_target y" by simp
  qed
next
  fix s x
  assume l: "ledger_from A s"
  show "ledger_from A (s\<lparr>executions := executions s @ [x]\<rparr>)"
    by (rule executions_changed [OF l]) (simp add: lookup_row_append)
next
  show "ledger_from A (s\<lparr>in_transaction := b, txn_rows := r, txn_bytes := y\<rparr>) = ledger_from A s" for s b r y
    by (rule ledger_txn_fields(1))
qed (auto simp: ledger_next_id write_execution_def intro: set_daily_budget_keeps reserve_keeps settle_budget_keeps
    authorize_call_keeps settle_call_keeps import_for_keeps ledger_update_execution)

section \<open>The outcomes\<close>

definition executions_ok :: "net_store \<Rightarrow> bool" where
  "executions_ok s \<longleftrightarrow> distinct (map xr_id (executions s)) \<and> distinct (map row_key (executions s)) \<and>
     list_all well_formed (executions s)"

inductive execution_path :: "execution_state \<Rightarrow> execution_state \<Rightarrow> bool" where
  path_refl: "execution_path a a"
| path_step: "execution_path a b \<Longrightarrow> b \<notin> set terminal_states \<Longrightarrow> c \<in> set (execution_transitions b) \<Longrightarrow> execution_path a c"

inductive_simps execution_path_terminal: "execution_path XCompleted b" "execution_path XFailed b" "execution_path XCancelled b"
  "execution_path XUncertain b" "execution_path XExpired b"

text \<open>What a row becomes: the same trigger, further along its states; a terminal one stays as it is.\<close>

definition continues :: "execution_row \<Rightarrow> execution_row \<Rightarrow> bool" where
  "continues x x' \<longleftrightarrow> xr_id x' = xr_id x \<and> row_key x' = row_key x \<and> xr_payloadHash x' = xr_payloadHash x \<and>
     xr_startedAt x' = xr_startedAt x \<and> xr_updatedAt x \<le> xr_updatedAt x' \<and> execution_path (xr_state x) (xr_state x') \<and>
     (xr_binding x \<noteq> None \<longrightarrow> xr_binding x' = xr_binding x) \<and> (xr_state x \<in> set terminal_states \<longrightarrow> x' = x)"

definition outcomes_from :: "execution_row list \<Rightarrow> net_store \<Rightarrow> bool" where
  "outcomes_from X s \<longleftrightarrow> executions_ok s \<and>
     (\<forall>x \<in> set X. is_id IdSpace (xr_scope x) \<longrightarrow> (\<exists>x'. get_execution (xr_id x) s = Some x' \<and> continues x x'))"

lemma outcomes_tables: "executions s' = executions s \<Longrightarrow> outcomes_from X s' = outcomes_from X s"
  by (simp add: outcomes_from_def executions_ok_def get_execution_def)

lemma outcomes_start: "executions_ok s \<Longrightarrow> outcomes_from (executions s) s"
  using lookup_row_mem [of xr_id "executions s"]
  by (auto simp: outcomes_from_def executions_ok_def get_execution_def continues_def intro: path_refl)

text \<open>The operations of the budget ledger do not write the executions.\<close>

definition same_executions :: "execution_row list \<Rightarrow> net_store \<Rightarrow> bool" where
  "same_executions E s \<longleftrightarrow> executions s = E"

lemma keeps_same_transaction: "keeps (same_executions E) m \<Longrightarrow> keeps (same_executions E) (net_transaction m)"
  by (rule keeps_net_transaction) (simp_all add: same_executions_def)

lemma keeps_same_charge [intro]: "keeps (same_executions E) (charge r y)"
  by (auto intro!: keepsI simp: same_executions_def dest: charge_Inr)

lemma keeps_same_lift [intro]: "keeps (same_executions E) (liftE r)" "keeps (same_executions E) (integerE m n)"
  "keeps (same_executions E) (budget_ids p q)" "keeps (same_executions E) (check_call_id i)"
  "keeps (same_executions E) (required_reservation i)"
  by (auto intro!: keepsI simp: budget_ids_def check_call_id_def required_reservation_def split: option.splits)

lemma keeps_same_transactionI:
  "(\<And>s y s'. m s = Inr (y, s') \<Longrightarrow> executions s' = executions s) \<Longrightarrow> keeps (same_executions E) (net_transaction m)"
  by (rule keeps_same_transaction) (auto intro!: keepsI simp: same_executions_def)

lemma same_writes [simp]:
  "executions (upsert_config c s) = executions s" "executions (set_units botId space day units s) = executions s"
  "executions (record_settlement r n m s) = executions s" "executions (record_call_spend i j n s) = executions s"
  by (simp_all add: upsert_config_def set_units_def record_settlement_def record_call_spend_def)

lemma charge_executions: "charge r y s = Inr (u, s') \<Longrightarrow> executions s' = executions s"
  by (auto dest!: charge_Inr)

lemma set_daily_budget_same: "keeps (same_executions E) (set_daily_budget botId space units)"
  unfolding set_daily_budget_def
proof (intro keeps_bindE keeps_same_lift keeps_same_transactionI)
  fix s y s'
  let ?row = "\<lparr>bf_bot = botId, bf_space = space, bf_units = units\<rparr>"
  let ?work = "\<lambda>day s. case get_daily botId space day s of
           None \<Rightarrow> bindE (charge 1 0) (\<lambda>_. modE (upsert_config ?row)) s
         | Some daily \<Rightarrow>
             (case charged botId space day (bd_spent daily) s of
                Inl e \<Rightarrow> Inl e
              | Inr committed \<Rightarrow>
                  if units < committed then Inl NBudgetExhausted
                  else bindE (charge 2 0) (\<lambda>_. modE (\<lambda>s. set_units botId space day units (upsert_config ?row s))) s)"
  assume "bindE (liftE (day_of (net_clock s))) ?work s = Inr (y, s')"
  then obtain day where w: "?work day s = Inr (y, s')" by (auto simp: bindE_Inr)
  show "executions s' = executions s"
  proof (cases "get_daily botId space day s")
    case None
    with w show ?thesis by (auto simp: bindE_Inr dest!: charge_executions)
  next
    case (Some d)
    with w show ?thesis
      by (cases "charged botId space day (bd_spent d) s") (auto simp: bindE_Inr dest!: charge_executions split: if_splits)
  qed
qed

lemma reserve_same: "keeps (same_executions E) (reserve botId space execution units now)"
  unfolding reserve_def
  by (intro keeps_bindE keeps_same_lift keeps_same_transactionI)
    (auto simp: bindE_Inr new_reservation_def open_bucket_def Let_def dest!: charge_executions split: option.splits if_splits)

lemma settle_same: "keeps (same_executions E) (settle execution units)"
  unfolding settle_def
  by (intro keeps_bindE keeps_same_lift keeps_same_transactionI)
    (auto simp: bindE_Inr required_reservation_def settle_reservation_def dest!: charge_executions
      split: option.splits if_splits)

lemma authorize_call_same: "keeps (same_executions E) (authorize_call execution callId units)"
  unfolding authorize_call_def
  by (intro keeps_bindE keeps_same_lift keeps_same_transactionI)
    (auto simp: bindE_Inr required_reservation_def new_call_def dest!: charge_executions split: option.splits if_splits)

lemma settle_call_same: "keeps (same_executions E) (settle_call execution callId units)"
  unfolding settle_call_def
  by (intro keeps_bindE keeps_same_lift keeps_same_transactionI)
    (auto simp: bindE_Inr required_reservation_def dest!: charge_executions split: option.splits if_splits)

lemma install_transfer_same:
  assumes "install_transfer botId t s = Inr (y, s')"
  shows "executions s' = executions s"
proof -
  obtain s1 ys zs where "forE (bt_daily t) (import_bucket botId (bt_reservations t)) s = Inr (ys, s1)"
    "forE (bt_reservations t) (import_reservation botId) s1 = Inr (zs, s')"
    using assms by (auto simp: install_transfer_def bindE_Inr)
  from import_buckets_Inr [OF this(1)] import_reservations_Inr [OF this(2)] show ?thesis by (simp add: grown_def)
qed

lemma import_for_same: "keeps (same_executions E) (import_for botId t)"
proof
  fix s y s' assume e: "same_executions E s" and run: "import_for botId t s = Inr (y, s')"
  let ?work = "\<lambda>s. let current = export_for botId s in
       if bt_daily current \<noteq> [] \<or> bt_reservations current \<noteq> []
       then bindE (liftE (same_json (transfer_json current) (transfer_json t))) (\<lambda>eq. requireE eq NConflict) s
       else install_transfer botId t s"
  have w: "net_transaction ?work s = Inr (y, s')"
    using run unfolding import_for_def bindE_Inr requireE_Inr liftE_Inr by blast
  have "keeps (same_executions E) (net_transaction ?work)"
    by (rule keeps_same_transactionI) (auto simp: Let_def bindE_Inr intro: install_transfer_same split: if_splits)
  from keepsD [OF this w e] show "same_executions E s'" .
qed

lemma keeps_outcomes:
  assumes "\<And>E. keeps (same_executions E) m"
  shows "keeps (outcomes_from X) m"
proof
  fix s y s' assume o: "outcomes_from X s" and run: "m s = Inr (y, s')"
  have "same_executions (executions s) s'" by (rule keepsD [OF assms run]) (simp add: same_executions_def)
  then show "outcomes_from X s'" using o outcomes_tables [of s' s X] by (simp add: same_executions_def)
qed

lemma continues_trans: "continues x y \<Longrightarrow> continues y z \<Longrightarrow> continues x z"
proof -
  have path: "execution_path a b \<Longrightarrow> execution_path b c \<Longrightarrow> execution_path a c" for a b c
    by (rotate_tac, induction rule: execution_path.induct) (auto intro: path_step)
  assume xy: "continues x y" and yz: "continues y z"
  then have "execution_path (xr_state x) (xr_state z)" using path by (auto simp: continues_def)
  with xy yz show ?thesis by (auto simp: continues_def)
qed

lemma outcomes_update:
  assumes o: "outcomes_from X s" and x: "get_execution i s = Some x" and c: "continues x (f x)"
    and id: "\<And>x. xr_id (f x) = xr_id x" "\<And>x. row_key (f x) = row_key x" and w: "well_formed (f x)"
  shows "outcomes_from X (update_execution i f s)"
proof -
  let ?s = "update_execution i f s"
  have ok: "executions_ok s" using o by (simp add: outcomes_from_def)
  have xs: "x \<in> set (executions s)" "xr_id x = i"
    using lookup_row_Some [of xr_id i "executions s" x] x by (auto simp: get_execution_def)
  have only: "y = x" if "y \<in> set (executions s)" "xr_id y = i" for y
    using distinct_key_unique [of xr_id "executions s" y x] ok that xs by (simp add: executions_ok_def)
  have "executions_ok ?s"
    using ok w only by (auto simp: executions_ok_def update_execution_def id set_update_rows list_all_iff)
  moreover have "\<exists>x'. get_execution (xr_id y) ?s = Some x' \<and> continues y x'"
    if y: "y \<in> set X" "is_id IdSpace (xr_scope y)" for y
  proof -
    obtain y' where y': "get_execution (xr_id y) s = Some y'" "continues y y'"
      using o y by (auto simp: outcomes_from_def)
    have "get_execution (xr_id y) ?s = Some (if xr_id y' = i then f y' else y')"
      using y'(1) by (simp add: get_execution_def update_execution_def lookup_row_update id)
    moreover have "continues y' (if xr_id y' = i then f y' else y')"
    proof (cases "xr_id y' = i")
      case True
      then have "y' = x" using only [of y'] lookup_row_Some [of xr_id "xr_id y" "executions s" y'] y'(1)
        by (simp add: get_execution_def)
      with c True show ?thesis by simp
    qed (simp add: continues_def path_refl)
    ultimately show ?thesis using continues_trans [OF y'(2)] by blast
  qed
  ultimately show ?thesis by (simp add: outcomes_from_def)
qed

interpretation outcomes: ledger_contract "outcomes_from X" for X
proof
  fix s :: net_store and x
  assume o: "outcomes_from X s" and new: "get_execution (xr_id x) s = None" "find_execution (row_key x) s = None" "well_formed x"
  show "outcomes_from X (s\<lparr>executions := executions s @ [x]\<rparr>)"
    using o new
    by (auto simp: outcomes_from_def executions_ok_def get_execution_def find_execution_def lookup_row_None lookup_row_append)
next
  fix s i x binding
  assume o: "outcomes_from X s" and x: "get_execution i s = Some x" "xr_state x = XAccepted" "xr_binding x = None"
  have "well_formed x"
    using o lookup_row_Some [of xr_id i "executions s" x] x(1)
    by (simp add: outcomes_from_def executions_ok_def list_all_iff get_execution_def)
  then show "outcomes_from X (update_execution i (\<lambda>x. x\<lparr>xr_binding := Some binding\<rparr>) s)"
    using x(2,3) by (intro outcomes_update [OF o x(1)])
      (simp_all add: continues_def path_refl row_key_def well_formed_def terminal_states_def)
next
  fix s n x
  assume o: "outcomes_from X s" and x: "get_execution (xr_id n) s = Some x" and p: "permitted x n"
  have "well_formed x"
    using o lookup_row_Some [of xr_id "xr_id n" "executions s" x] x
    by (simp add: outcomes_from_def executions_ok_def list_all_iff get_execution_def)
  moreover have "execution_path (xr_state x) (xr_state n)"
    using p by (intro path_step [OF path_refl]) (simp_all add: permitted_def)
  ultimately show "outcomes_from X (write_execution n s)"
    unfolding write_execution_def using p
    by (intro outcomes_update [OF o x]) (simp_all add: continues_def row_key_def well_formed_def permitted_def)
next
  fix s0 x t0 s
  assume o0: "outcomes_from X s0" and x: "x \<in> set (executions s0)" "prunable t0 s0 x" and o: "outcomes_from X s"
  let ?s = "s\<lparr>executions := filter (\<lambda>e. xr_id e \<noteq> xr_id x) (executions s)\<rparr>"
  have "executions_ok ?s"
    using o by (auto simp: outcomes_from_def executions_ok_def list_all_iff distinct_map_filter)
  moreover have "\<exists>x'. get_execution (xr_id y) ?s = Some x' \<and> continues y x'"
    if y: "y \<in> set X" "is_id IdSpace (xr_scope y)" for y
  proof -
    obtain y' where y': "get_execution (xr_id y) s = Some y'" "continues y y'"
      using o y by (auto simp: outcomes_from_def)
    obtain y0 where y0: "get_execution (xr_id y) s0 = Some y0" "continues y y0"
      using o0 y by (auto simp: outcomes_from_def)
    have "xr_id y \<noteq> xr_id x"
    proof
      assume "xr_id y = xr_id x"
      moreover have "get_execution (xr_id x) s0 = Some x"
        using o0 x(1) lookup_row_mem [of xr_id "executions s0" x] by (simp add: outcomes_from_def executions_ok_def get_execution_def)
      ultimately have "row_key x = row_key y" using y0 by (simp add: continues_def)
      then have "is_id IdSpace (xr_scope x)" using y(2) by (simp add: row_key_def)
      from space_not_node [OF this] x(2) show False unfolding prunable_def by blast
    qed
    then have "get_execution (xr_id y) ?s = Some y'"
      using y' lookup_filter [of xr_id "xr_id y" "executions s" y'] by (simp add: get_execution_def continues_def)
    with y'(2) show ?thesis by blast
  qed
  ultimately show "outcomes_from X ?s" by (simp add: outcomes_from_def)
next
  show "keeps (outcomes_from X) (set_daily_budget botId space units)" for botId space units
    by (rule keeps_outcomes [OF set_daily_budget_same])
next
  show "keeps (outcomes_from X) (reserve botId space execution units now)" for botId space execution units now
    by (rule keeps_outcomes [OF reserve_same])
next
  show "keeps (outcomes_from X) (settle execution units)" for execution units
    by (rule keeps_outcomes [OF settle_same])
next
  show "keeps (outcomes_from X) (authorize_call execution callId units)" for execution callId units
    by (rule keeps_outcomes [OF authorize_call_same])
next
  show "keeps (outcomes_from X) (settle_call execution callId units)" for execution callId units
    by (rule keeps_outcomes [OF settle_call_same])
next
  show "keeps (outcomes_from X) (import_for botId t)" for botId t
    by (rule keeps_outcomes [OF import_for_same])
next
  show "outcomes_from X (s\<lparr>in_transaction := b, txn_rows := r, txn_bytes := y\<rparr>) = outcomes_from X s" for s b r y
    by (rule outcomes_tables) simp
next
  show "outcomes_from X s \<Longrightarrow> outcomes_from X (s\<lparr>net_next_id := j\<rparr>)" for s j
    using outcomes_tables [of "s\<lparr>net_next_id := j\<rparr>" s X] by simp
qed

end
