(* ===== verification/NetPrograms.thy ===== *)
theory NetPrograms
  imports NetLaws
begin

text \<open>
  The properties of the network ledgers: what every program over them keeps, admission exactly once,
  what a reservation may take, and recovery after a restart.
\<close>

section \<open>An example program\<close>

definition example_bot :: string where
  "example_bot = ''bot_00000000000000000000000000''"

definition example_space :: string where
  "example_space = ''spc_00000000000000000000000000''"

definition example_hash :: string where
  "example_hash = replicate 64 (CHR ''a'')"

definition example_trigger :: execution_key where
  "example_trigger = \<lparr>ek_scope = example_space, ek_target = example_bot, ek_trigger = ''t''\<rparr>"

definition example_day_store :: net_store where
  "example_day_store = (empty_net_store 1000 (\<lambda>n. n))\<lparr>budget_configs := [\<lparr>bf_bot = example_bot, bf_space = example_space, bf_units = 100\<rparr>]\<rparr>"

text \<open>A trigger is admitted with a reservation of 40 units, runs and settles 30 of them.\<close>

definition example_admission :: "admit_outcome net_txn" where
  "example_admission = admit example_trigger example_hash 1000
     (\<lambda>x. reserve example_bot example_space (xr_id x) 40 1000) None"

definition example_id :: string where
  "example_id = new_id IdExecution 0"

definition example_program :: "unit net_txn" where
  "example_program = bindE example_admission (\<lambda>_.
     bindE (transition_execution example_id XRunning 1001 empty_patch no_effects) (\<lambda>_.
     bindE (authorize_call example_id ''c'' 35) (\<lambda>_.
     bindE (settle_call example_id ''c'' 30) (\<lambda>_.
     bindE (transition_execution example_id XCompleted 1002 empty_patch (\<lambda>_. settle example_id 30)) (\<lambda>_. retE ())))))"

lemma example_admission_call: "(\<And>r. ledger_call (f r)) \<Longrightarrow> ledger_call (bindE example_admission f)"
  unfolding example_admission_def by (rule lc_admit) (rule lc_reserve)

lemma no_effects_call: "ledger_call (no_effects x)"
  unfolding no_effects_def by (rule lc_return)

lemma example_program_call: "ledger_call example_program"
  unfolding example_program_def
  by (intro example_admission_call lc_transition no_effects_call lc_then lc_authorize_call lc_settle_call lc_settle lc_return)

lemma example_day_store_ok: "budget_ok example_day_store" "executions_ok example_day_store"
  by (simp_all add: budget_ok_def executions_ok_def example_day_store_def empty_net_store_def bounded_def max_safe_def)

lemma example_program_runs: "\<not> isl (example_program example_day_store)"
  by code_simp

section \<open>Every program over the ledgers\<close>

text \<open>C15: whatever program over the ledgers runs - reservations, provider calls, settlements, imports and
  the operations on executions, nested in each other's transactions and callbacks - the books stay in order:
  each day's bucket has spent exactly what its settled reservations cost, and what it has spent and holds
  never exceeds its limit.\<close>

theorem books_balance:
  assumes "ledger_call m" "budget_ok s" "m s = Inr (y, s')"
  shows "budget_ok s' \<and> list_all (\<lambda>d. bd_spent d = settled_units (bucket_key d) (reservations s') \<and>
     bd_spent d + held_units (bucket_key d) (reservations s') \<le> bd_units d) (budget_days s')"
proof -
  have "ledger_from (account s) s'"
    using assms(2) by (intro keepsD [OF books.ledger_call_keeps [OF assms(1)] assms(3)]) (simp add: ledger_from_def)
  then have "budget_ok s'" by (simp add: ledger_from_def)
  have "bd_spent d = settled_units (bucket_key d) (reservations s') \<and>
      bd_spent d + held_units (bucket_key d) (reservations s') \<le> bd_units d" if "d \<in> set (budget_days s')" for d
    using budget_okD(4) [OF \<open>budget_ok s'\<close> that] unfolding bucket_ok_def by blast
  then show ?thesis using \<open>budget_ok s'\<close> unfolding list_all_iff by blast
qed

theorem books_balance_witness:
  "\<exists>y s'. example_program example_day_store = Inr (y, s') \<and> budget_ok s' \<and>
     list_all (\<lambda>d. bd_spent d = settled_units (bucket_key d) (reservations s') \<and>
       bd_spent d + held_units (bucket_key d) (reservations s') \<le> bd_units d) (budget_days s')"
proof -
  obtain y s' where r: "example_program example_day_store = Inr (y, s')" using succeeds [OF example_program_runs] by blast
  with books_balance [OF example_program_call example_day_store_ok(1) r] show ?thesis by blast
qed

text \<open>C17: an execution of a space is never lost: after any program over the ledgers it is still there under
  its id, with its trigger and payload, further along the permitted transitions; once it is terminal nothing
  changes it, and its binding to a run is set once.\<close>

theorem outcomes_final:
  assumes "ledger_call m" "executions_ok s" "m s = Inr (y, s')" "x \<in> set (executions s)" "is_id IdSpace (xr_scope x)"
  shows "executions_ok s' \<and> (\<exists>x'. get_execution (xr_id x) s' = Some x' \<and> continues x x' \<and>
     (xr_state x \<in> set terminal_states \<longrightarrow> x' = x))"
proof -
  have "outcomes_from (executions s) s'"
    by (rule keepsD [OF outcomes.ledger_call_keeps [OF assms(1)] assms(3) outcomes_start [OF assms(2)]])
  then show ?thesis using assms(4,5) by (auto simp: outcomes_from_def continues_def)
qed

definition example_settled :: "unit net_txn" where
  "example_settled = bindE (set_daily_budget example_bot example_space 200) (\<lambda>_.
     bindE (admit (example_trigger\<lparr>ek_trigger := ''u''\<rparr>) example_hash 1003 no_effects None) (\<lambda>_.
     bindE (prune 5000 100 (\<lambda>_. retE ())) (\<lambda>_. retE ())))"

lemma example_settled_call: "ledger_call example_settled"
  unfolding example_settled_def by (intro lc_then lc_set_daily_budget lc_admit lc_prune no_effects_call lc_return)

definition example_settled_store :: net_store where
  "example_settled_store = (case example_program example_day_store of Inl _ \<Rightarrow> example_day_store | Inr (_, s) \<Rightarrow> s)"

lemma example_settled_runs:
  "\<not> isl (example_settled example_settled_store)"
  "list_all (\<lambda>x. is_id IdSpace (xr_scope x) \<and> xr_state x = XCompleted) (executions example_settled_store)"
  "executions example_settled_store \<noteq> []"
  by code_simp+

lemma example_settled_store_ok: "executions_ok example_settled_store"
proof -
  obtain y s' where r: "example_program example_day_store = Inr (y, s')" using succeeds [OF example_program_runs] by blast
  from keepsD [OF outcomes.ledger_call_keeps [OF example_program_call] r outcomes_start [OF example_day_store_ok(2)]]
  show ?thesis by (simp add: example_settled_store_def r outcomes_from_def)
qed

theorem outcomes_final_witness:
  "\<exists>x y s'. x \<in> set (executions example_settled_store) \<and> example_settled example_settled_store = Inr (y, s') \<and>
     executions_ok s' \<and> get_execution (xr_id x) s' = Some x \<and> xr_state x = XCompleted"
proof -
  obtain y s' where r: "example_settled example_settled_store = Inr (y, s')"
    using succeeds [OF example_settled_runs(1)] by blast
  obtain x where x: "x \<in> set (executions example_settled_store)" using example_settled_runs(3) by fastforce
  then have "is_id IdSpace (xr_scope x)" "xr_state x = XCompleted"
    using example_settled_runs(2) by (simp_all add: list_all_iff)
  with outcomes_final [OF example_settled_call example_settled_store_ok r x] x r show ?thesis
    by (auto simp: terminal_states_def)
qed

section \<open>Admission exactly once\<close>

lemma net_transaction_pure:
  assumes "\<And>t. in_transaction t \<Longrightarrow> m t = Inr (x, t)" "in_transaction s \<Longrightarrow> m s = Inr (x, s)"
  shows "\<exists>s'. net_transaction m s = Inr (x, s') \<and> same_budgets s s'"
  using assms by (cases "in_transaction s") (simp_all add: net_transaction_def same_budgets_def)

lemma inserted_row:
  assumes run: "insert_new k hash now st fx planned s = Inr (r, s1)" and ok: "executions_ok s"
    and fx: "\<And>x. ledger_call (fx x)" and k: "valid_key k hash" "bounded 0 now" "is_id IdSpace (ek_scope k)"
    and planned: "case planned of None \<Rightarrow> True | Some i \<Rightarrow> is_id IdExecution i"
  shows "\<exists>x. r = Admitted x \<and> get_execution (xr_id x) s1 = Some x \<and> row_key x = k \<and> xr_payloadHash x = hash \<and> executions_ok s1"
proof -
  obtain i t u t1 t2 x where n: "next_execution_id planned s = Inr (i, t)"
    "charge_json 1 (execution_json (new_execution k hash now st i)) t = Inr (u, t1)"
    "insert_execution_row (new_execution k hash now st i) t1 = Inr ((), t2)"
    "fx (new_execution k hash now st i) t2 = Inr ((), s1)" "get_execution i s1 = Some x" "r = Admitted x"
    using run by (auto simp: insert_new_def install_execution_def bindE_Inr required_execution_def new_execution_def
        split: option.splits)
  let ?x = "new_execution k hash now st i"
  have start: "outcomes_from [] s" using ok by (simp add: outcomes_from_def)
  note nid = outcomes.next_execution_id_keeps [OF n(1) start planned]
  have "outcomes_from [] t1" using nid(1) outcomes.charge_json_keeps [OF n(2)] by simp
  moreover have "well_formed ?x"
    using nid(2) k by (cases k) (simp add: well_formed_def new_execution_def row_key_def)
  ultimately have "outcomes_from [] t2"
    using keepsD [OF outcomes.insert_execution_row_keeps n(3)] by blast
  then have "executions_ok t2" by (simp add: outcomes_from_def)
  then have "outcomes_from (executions t2) s1"
    by (intro keepsD [OF outcomes.ledger_call_keeps [OF fx] n(4)] outcomes_start)
  moreover have "?x \<in> set (executions t2)" using n(3) by (auto simp: insert_execution_row_def split: if_splits)
  moreover have "is_id IdSpace (xr_scope ?x)" using k(3) by (simp add: new_execution_def)
  ultimately obtain x' where "get_execution i s1 = Some x'" "continues ?x x'" "executions_ok s1"
    by (auto simp: outcomes_from_def new_execution_def)
  with n(5,6) show ?thesis
    using lookup_row_Some [of xr_id i "executions s1" x]
    by (cases k) (auto simp: continues_def row_key_def new_execution_def get_execution_def)
qed

lemma find_by_key:
  "executions_ok s \<Longrightarrow> get_execution i s = Some x \<Longrightarrow> find_execution (row_key x) s = Some x"
  using lookup_row_mem [of row_key "executions s" x] lookup_row_Some [of xr_id i "executions s" x]
  by (simp add: executions_ok_def find_execution_def get_execution_def)

text \<open>C18: a trigger of a space is admitted exactly once. After an admission and any program over the ledgers,
  admitting the same trigger and payload again - whatever the time, the planned id and the side effects -
  reports the execution that was admitted first and changes nothing, its side effects not run; the same
  trigger with another payload is a conflict. (A trigger whose scope is a node, a remote call, is not meant: its
  execution is pruned when it is old, and the trigger is admitted anew after that.)\<close>

theorem admission_once:
  assumes "executions_ok s" "is_id IdSpace (ek_scope k)" "admit k hash now fx planned s = Inr (Admitted x, s1)"
    and "\<And>x. ledger_call (fx x)" "ledger_call m" "m s1 = Inr (y, s2)"
    and "bounded 0 now'" "planned' = None \<or> planned' = Some i \<and> is_id IdExecution i" "valid_key k hash'"
  shows "\<exists>x' s3. continues x x' \<and> admit k hash now' fx' planned' s2 = Inr (DuplicateAdmit x', s3) \<and> same_budgets s2 s3 \<and>
     (hash' \<noteq> hash \<longrightarrow> admit k hash' now' fx' planned' s2 = Inl NConflict)"
proof -
  let ?work = "\<lambda>h n g p s. case find_execution k s of
         Some p \<Rightarrow> if xr_payloadHash p \<noteq> h then Inl NConflict else Inr (DuplicateAdmit p, s)
       | None \<Rightarrow>
           if (case p of None \<Rightarrow> False | Some i \<Rightarrow> get_execution i s \<noteq> None) then Inl NConflict
           else insert_new k h n XAccepted g p s"
  have v: "valid_key k hash" "bounded 0 now" "case planned of None \<Rightarrow> True | Some i \<Rightarrow> is_id IdExecution i"
    and t: "net_transaction (?work hash now fx planned) s = Inr (Admitted x, s1)"
    using assms(3) by (auto simp: admit_def insert_execution_def validate_key_def bindE_Inr)
  obtain t0 t1 where t0: "executions t0 = executions s" "insert_new k hash now XAccepted fx planned t0 = Inr (Admitted x, t1)"
    "executions s1 = executions t1"
  proof (cases "in_transaction s")
    case True
    with t that [of s s1] show ?thesis by (auto simp: net_transaction_def split: option.splits if_splits)
  next
    case False
    let ?t = "s\<lparr>in_transaction := True, txn_rows := 0, txn_bytes := 0\<rparr>"
    obtain t1 where "?work hash now fx planned ?t = Inr (Admitted x, t1)" "s1 = t1\<lparr>in_transaction := False\<rparr>"
      using t False by (auto simp: net_transaction_def split: sum.splits)
    with that [of ?t t1] show ?thesis by (auto split: option.splits if_splits)
  qed
  have "executions_ok t0" using assms(1) t0(1) by (simp add: executions_ok_def)
  from inserted_row [OF t0(2) this assms(4) v(1,2) assms(2) v(3)]
  have x: "get_execution (xr_id x) s1 = Some x" "row_key x = k" "xr_payloadHash x = hash" "executions_ok s1"
    using t0(3) by (auto simp: get_execution_def executions_ok_def)
  have xs: "x \<in> set (executions s1)" "is_id IdSpace (xr_scope x)"
    using lookup_row_Some [of xr_id "xr_id x" "executions s1" x] x(1,2) assms(2) by (auto simp: get_execution_def row_key_def)
  have "outcomes_from (executions s1) s2"
    by (rule keepsD [OF outcomes.ledger_call_keeps [OF assms(5)] assms(6) outcomes_start [OF x(4)]])
  with xs obtain x' where x': "get_execution (xr_id x) s2 = Some x'" "continues x x'" "executions_ok s2"
    by (auto simp: outcomes_from_def)
  have f: "find_execution k s2 = Some x'" "xr_payloadHash x' = hash"
    using find_by_key [OF x'(3,1)] x'(2) x(2,3) by (simp_all add: continues_def)
  have p: "case planned' of None \<Rightarrow> True | Some i \<Rightarrow> is_id IdExecution i" using assms(8) by auto
  have start: "admit k h now' fx' planned' s2 = net_transaction (?work h now' fx' planned') s2" if "valid_key k h" for h
    using assms(7) that p by (simp add: admit_def insert_execution_def validate_key_def bindE_def integerE_def requireE_def retE_def)
  have same: "find_execution k (s2\<lparr>in_transaction := True, txn_rows := 0, txn_bytes := 0\<rparr>) = find_execution k s2"
    by (simp add: find_execution_def)
  have "\<exists>s3. net_transaction (?work hash now' fx' planned') s2 = Inr (DuplicateAdmit x', s3) \<and> same_budgets s2 s3"
    using f same by (cases "in_transaction s2") (simp_all add: net_transaction_def same_budgets_def)
  moreover have "net_transaction (?work hash' now' fx' planned') s2 = Inl NConflict" if "hash' \<noteq> hash"
    using f same that by (cases "in_transaction s2") (simp_all add: net_transaction_def)
  ultimately show ?thesis using x'(2) start [OF v(1)] start [OF assms(9)] by auto
qed

lemma example_admission_runs:
  "case example_admission example_day_store of Inr (Admitted x, s1) \<Rightarrow> \<not> isl (example_settled s1) | _ \<Rightarrow> False"
  by code_simp

theorem admission_once_witness:
  "\<exists>x s1 y s2 x' s3. example_admission example_day_store = Inr (Admitted x, s1) \<and> example_settled s1 = Inr (y, s2) \<and>
     continues x x' \<and> admit example_trigger example_hash 2000 no_effects None s2 = Inr (DuplicateAdmit x', s3) \<and>
     same_budgets s2 s3 \<and> admit example_trigger (replicate 64 (CHR ''b'')) 2000 no_effects None s2 = Inl NConflict"
proof -
  obtain x s1 where a: "example_admission example_day_store = Inr (Admitted x, s1)" "\<not> isl (example_settled s1)"
  proof (cases "example_admission example_day_store")
    case (Inr p)
    then show ?thesis using example_admission_runs that by (cases p; cases "fst p") auto
  qed (use example_admission_runs in simp)
  obtain y s2 where s2: "example_settled s1 = Inr (y, s2)" using succeeds [OF a(2)] by blast
  have key: "is_id IdSpace (ek_scope example_trigger)" "valid_key example_trigger (replicate 64 (CHR ''b''))"
    "replicate 64 (CHR ''b'') \<noteq> example_hash" by code_simp+
  have now: "bounded 0 2000" by (simp add: bounded_def max_safe_def)
  from admission_once [OF example_day_store_ok(2) key(1) a(1) [unfolded example_admission_def] lc_reserve
      example_settled_call s2 now _ key(2), of None _ no_effects] key(3) a(1) s2
  show ?thesis by blast
qed

end
