(* ===== verification/NetBounds.thy ===== *)
theory NetBounds
  imports NetPrograms
begin

text \<open>
  What a reservation may take of a day's budget, what recovery after a restart leaves, and what a new
  identifier looks like.
\<close>

section \<open>Reservations\<close>

lemma units_nonneg:
  assumes "budget_ok s" "set rs \<subseteq> set (reservations s)"
  shows "0 \<le> held_units b rs \<and> 0 \<le> settled_units b rs"
  using assms(2)
proof (induction rs)
  case (Cons r rs)
  have "reservation_ok s r" using Cons.prems budget_okD(5) [OF assms(1)] by simp
  with Cons show ?case
    by (auto simp: held_units_sum settled_units_sum reservation_ok_def calls_within_def bounded_def split: option.splits)
qed (simp add: held_units_sum settled_units_sum)

lemma ceiling_nonneg: "budget_ok s \<Longrightarrow> r \<in> set (reservations s) \<Longrightarrow> 0 \<le> br_ceiling r"
  using budget_okD(5) [of s r] by (simp add: reservation_ok_def bounded_def)

lemma bucket_bounds:
  assumes ok: "budget_ok s" and d: "get_daily botId space day s = Some d"
  shows "0 \<le> bd_spent d" "0 \<le> held_units (botId, space, day) (reservations s)"
    "bd_spent d + held_units (botId, space, day) (reservations s) \<le> bd_units d" "bounded 1 (bd_units d)"
proof -
  have b: "bucket_ok s d" "bucket_key d = (botId, space, day)" using budget_okD(4) [OF ok] get_daily_mem [OF d] by simp_all
  then show "0 \<le> bd_spent d" using units_nonneg [OF ok order_refl] unfolding bucket_ok_def by simp
  show "0 \<le> held_units (botId, space, day) (reservations s)" using units_nonneg [OF ok order_refl] by simp
  show "bd_spent d + held_units (botId, space, day) (reservations s) \<le> bd_units d" "bounded 1 (bd_units d)"
    using b unfolding bucket_ok_def by simp_all
qed

lemma charged_exact:
  assumes ok: "budget_ok s" and d: "get_daily botId space day s = Some d"
  shows "charged botId space day (bd_spent d) s = Inr (bd_spent d + held_units (botId, space, day) (reservations s))"
proof -
  note b = bucket_bounds [OF assms]
  let ?ns = "map br_ceiling (filter (\<lambda>r. in_bucket (botId, space, day) r \<and> br_settled r = None) (reservations s))"
  have pos: "0 \<le> x" if "x \<in> set (bd_spent d # ?ns)" for x
    using that b(1) ceiling_nonneg [OF ok] by auto
  have "sum_list (bd_spent d # ?ns) \<le> max_safe" using b(3,4) by (simp add: held_units_def bounded_def)
  from checked_sum_ok [OF pos this] show ?thesis by (simp add: charged_def held_units_def)
qed

definition left_units :: "string \<Rightarrow> string \<Rightarrow> int \<Rightarrow> net_store \<Rightarrow> int" where
  "left_units botId space day s =
     (case get_daily botId space day s of
        None \<Rightarrow> (case get_config botId space s of None \<Rightarrow> 0 | Some c \<Rightarrow> bf_units c)
      | Some d \<Rightarrow> bd_units d - (bd_spent d + held_units (botId, space, day) (reservations s)))"

lemma config_bounds: "budget_ok s \<Longrightarrow> get_config botId space s = Some c \<Longrightarrow> bounded 1 (bf_units c)"
  by (erule budget_okD(7)) (auto simp: get_config_def dest: find_Some_iff_mem)

lemma left_units_bounded:
  assumes ok: "budget_ok s"
  shows "0 \<le> left_units botId space day s \<and> left_units botId space day s \<le> max_safe"
proof (cases "get_daily botId space day s")
  case None
  show ?thesis
  proof (cases "get_config botId space s")
    case (Some c)
    with None config_bounds [OF ok Some] show ?thesis by (simp add: left_units_def bounded_def)
  qed (simp add: None left_units_def max_safe_def)
next
  case (Some d)
  with bucket_bounds [OF ok Some] show ?thesis by (simp add: left_units_def bounded_def)
qed

lemma day_of_exact: "bounded 0 now \<Longrightarrow> day_of now = Inr (now div DAY_MS)"
  by (simp add: day_of_def check_integer_def)

lemma remaining_exact:
  assumes "budget_ok s" "is_id IdBot botId" "is_id IdSpace space" "bounded 0 now"
  shows "remaining botId space now s = Inr (left_units botId space (now div DAY_MS) s)"
proof (cases "get_daily botId space (now div DAY_MS) s")
  case None
  with assms(2-4) show ?thesis by (simp add: remaining_def day_of_exact left_units_def)
next
  case (Some d)
  with assms(2-4) charged_exact [OF assms(1) Some] left_units_bounded [OF assms(1), of botId space "now div DAY_MS"]
  show ?thesis by (simp add: remaining_def day_of_exact left_units_def check_integer_def bounded_def max_safe_def)
qed

lemma charge_small: "txn_rows s + r \<le> 500 \<Longrightarrow> txn_bytes s + y \<le> 1048576 \<Longrightarrow>
  charge r y s = Inr ((), s\<lparr>txn_rows := txn_rows s + r, txn_bytes := txn_bytes s + y\<rparr>)"
  by (simp add: charge_def Let_def STORE_TXN_MAX_ROWS_def STORE_TXN_MAX_BYTES_def)

lemma unopened_units:
  "budget_ok s \<Longrightarrow> get_daily botId space day s = None \<Longrightarrow> held_units (botId, space, day) (reservations s) = 0"
  using units_none [of "reservations s" "(botId, space, day)"] budget_okD(5) [of s]
  by (fastforce simp: bucket_key_in reservation_ok_def)

lemma reserve_step:
  assumes ok: "budget_ok s" and u: "bounded 1 units" and free: "get_reservation x s = None"
    and row: "get_execution x s = Some row" "xr_scope row = space" "xr_target row = botId" "xr_state row = XAccepted"
    and c: "get_config botId space s = Some c" and room: "txn_rows s = 0" "txn_bytes s = 0"
  shows "if units \<le> left_units botId space day s
    then \<exists>s'. new_reservation botId space x units day s = Inr ((), s') \<and> left_units botId space day s' = left_units botId space day s - units
    else \<exists>e. new_reservation botId space x units day s = Inl e"
proof -
  let ?b = "(botId, space, day)"
  obtain d s1 where s1: "open_bucket botId space day (bf_units c) s = Inr (d, s1)" "get_daily botId space day s1 = Some d"
    "reservations s1 = reservations s" "txn_rows s1 \<le> 1" "txn_bytes s1 = 0"
    "left_units botId space day s = bd_units d - (bd_spent d + held_units ?b (reservations s))"
    "bd_spent d + held_units ?b (reservations s) \<le> max_safe" "0 \<le> bd_spent d + held_units ?b (reservations s)"
    "charged botId space day (bd_spent d) s1 = Inr (bd_spent d + held_units ?b (reservations s))" "bd_units d \<le> max_safe"
  proof (cases "get_daily botId space day s")
    case (Some d)
    note b = bucket_bounds [OF ok Some]
    show ?thesis
      by (rule that [of d s]) (use Some b charged_exact [OF ok Some] room in
          \<open>auto simp: open_bucket_def left_units_def bounded_def\<close>)
  next
    case None
    let ?d = "\<lparr>bd_bot = botId, bd_space = space, bd_day = day, bd_units = bf_units c, bd_spent = 0\<rparr>"
    let ?s = "s\<lparr>txn_rows := 1, txn_bytes := 0, budget_days := budget_days s @ [?d]\<rparr>"
    have held: "held_units ?b (reservations s) = 0" by (rule unopened_units [OF ok None])
    have o: "open_bucket botId space day (bf_units c) s = Inr (?d, ?s)"
      using None charge_small [of s 1 0] room by (simp add: open_bucket_def Let_def bindE_def modE_def retE_def)
    have g: "get_daily botId space day ?s = Some ?d"
      using None by (simp add: get_daily_def lookup_row_append bucket_key_def)
    have "charged botId space day 0 ?s = Inr 0"
    proof -
      show ?thesis
        using ceiling_nonneg [OF ok] checked_sum_ok [of "0 # map br_ceiling (filter (\<lambda>r. in_bucket ?b r \<and> br_settled r = None) (reservations s))"] held
        by (auto simp: charged_def held_units_def max_safe_def)
    qed
    then show ?thesis
      using None o g held c config_bounds [OF ok c] by (intro that [of ?d ?s]) (auto simp: left_units_def bounded_def max_safe_def)
  qed
  let ?k = "bd_spent d + held_units ?b (reservations s)"
  have run: "new_reservation botId space x units day s =
    bindE (liftE (checked_sum [?k, units])) (\<lambda>needed. bindE (requireE (needed \<le> bd_units d) NBudgetExhausted) (\<lambda>_.
      bindE (charge 1 0) (\<lambda>_. modE (\<lambda>s. s\<lparr>reservations := reservations s @ [\<lparr>br_execution = x, br_bot = botId, br_space = space,
                br_day = day, br_ceiling = units, br_settled = None\<rparr>]\<rparr>)))) s1"
    using row c s1(1,9) by (simp add: new_reservation_def bindE_def liftE_def)
  show ?thesis
  proof (cases "units \<le> left_units botId space day s")
    case True
    then have le: "?k + units \<le> bd_units d" using s1(6) by simp
    then have mx: "?k + units \<le> max_safe" using s1(10) by simp
    have "checked_sum [?k, units] = Inr (sum_list [?k, units])"
      by (rule checked_sum_ok) (use u s1(8) mx in \<open>auto simp: bounded_def\<close>)
    then have sum: "checked_sum [?k, units] = Inr (?k + units)" by simp
    let ?r = "\<lparr>br_execution = x, br_bot = botId, br_space = space, br_day = day, br_ceiling = units, br_settled = None\<rparr>"
    let ?s = "s1\<lparr>txn_rows := txn_rows s1 + 1, txn_bytes := txn_bytes s1, reservations := reservations s1 @ [?r]\<rparr>"
    have "new_reservation botId space x units day s = Inr ((), ?s)"
      unfolding run using sum le charge_small [of s1 1 0] s1(4,5)
      by (simp add: bindE_def liftE_def requireE_def retE_def modE_def)
    moreover have "left_units botId space day ?s = left_units botId space day s - units"
      using s1(2,3,6) by (simp add: left_units_def get_daily_def bucket_key_in)
    ultimately show ?thesis using True by auto
  next
    case False
    then have "\<not> ?k + units \<le> bd_units d" using s1(6) by simp
    moreover have "checked_sum [?k, units] = Inr n \<Longrightarrow> n = ?k + units" for n by (auto dest: checked_sum_Inr)
    ultimately have "new_reservation botId space x units day s \<noteq> Inr r" for r
      unfolding run by (cases r) (auto simp: bindE_Inr)
    then show ?thesis using False by (metis sum.exhaust)
  qed
qed

text \<open>C19: what the ledger says is left of a bot's day is what a new reservation may take: \<open>remaining\<close> never
  fails and is never negative; a reservation of an accepted execution succeeds exactly when its units fit,
  and then what is left has shrunk by these units; otherwise it is refused and nothing changes.\<close>

theorem reserve_within_remaining:
  assumes "budget_ok s" "\<not> in_transaction s" "is_id IdBot botId" "is_id IdSpace space" "bounded 0 now" "bounded 1 units"
    and "get_reservation x s = None" "get_execution x s = Some row" "xr_scope row = space" "xr_target row = botId"
      "xr_state row = XAccepted" "get_config botId space s \<noteq> None"
  shows "\<exists>n. remaining botId space now s = Inr n \<and> 0 \<le> n \<and>
     (if units \<le> n then \<exists>s'. reserve botId space x units now s = Inr ((), s') \<and> remaining botId space now s' = Inr (n - units)
      else \<exists>e. reserve botId space x units now s = Inl e)"
proof -
  let ?n = "left_units botId space (now div DAY_MS) s"
  let ?t = "s\<lparr>in_transaction := True, txn_rows := 0, txn_bytes := 0\<rparr>"
  obtain c where c: "get_config botId space s = Some c" using assms(12) by blast
  have t: "budget_ok ?t" using assms(1) same_budgets_ok(1) [of s ?t] by (simp add: same_budgets_def)
  have same: "left_units botId space day ?t = left_units botId space day s" for day
    by (simp add: left_units_def get_daily_def get_config_def split: option.split)
  have step: "if units \<le> ?n
    then \<exists>s'. new_reservation botId space x units (now div DAY_MS) ?t = Inr ((), s') \<and>
      left_units botId space (now div DAY_MS) s' = ?n - units
    else \<exists>e. new_reservation botId space x units (now div DAY_MS) ?t = Inl e"
  proof -
    have "get_reservation x ?t = None" "get_execution x ?t = Some row" "get_config botId space ?t = Some c"
      using assms(7,8) c by (simp_all add: get_reservation_def get_execution_def get_config_def)
    from reserve_step [OF t assms(6) this(1,2) assms(9-11) this(3), of "now div DAY_MS"] show ?thesis
      unfolding same by simp
  qed
  have run: "reserve botId space x units now s =
    (case new_reservation botId space x units (now div DAY_MS) ?t of Inl e \<Rightarrow> Inl e
     | Inr (y, s') \<Rightarrow> Inr (y, s'\<lparr>in_transaction := False\<rparr>))"
    using assms(2-7) day_of_exact [OF assms(5)]
    by (simp add: reserve_def bindE_def budget_ids_def requireE_def retE_def integerE_def liftE_def net_transaction_def
        get_reservation_def)
  show ?thesis
  proof (cases "units \<le> ?n")
    case True
    then obtain s1 where s1: "new_reservation botId space x units (now div DAY_MS) ?t = Inr ((), s1)"
      "left_units botId space (now div DAY_MS) s1 = ?n - units" using step by auto
    let ?s = "s1\<lparr>in_transaction := False\<rparr>"
    have r: "reserve botId space x units now s = Inr ((), ?s)" by (simp add: run s1(1))
    have "ledger_from (account s) ?s"
      by (rule keepsD [OF reserve_keeps r]) (use assms(1) in \<open>simp add: ledger_from_def\<close>)
    then have "budget_ok ?s" by (simp add: ledger_from_def)
    moreover have "left_units botId space (now div DAY_MS) ?s = ?n - units"
      using s1(2) by (simp add: left_units_def get_daily_def get_config_def split: option.splits)
    ultimately have "remaining botId space now ?s = Inr (?n - units)"
      using remaining_exact assms(3-5) by simp
    with r True remaining_exact [OF assms(1,3,4,5)] left_units_bounded [OF assms(1)] show ?thesis by auto
  next
    case False
    with step run remaining_exact [OF assms(1,3,4,5)] left_units_bounded [OF assms(1)] show ?thesis by auto
  qed
qed

definition example_accepted_store :: net_store where
  "example_accepted_store = example_day_store\<lparr>executions := [new_execution example_trigger example_hash 1000 XAccepted example_id]\<rparr>"

theorem reserve_within_remaining_witness:
  "(\<exists>s'. reserve example_bot example_space example_id 100 1000 example_accepted_store = Inr ((), s') \<and>
     remaining example_bot example_space 1000 s' = Inr 0) \<and>
   (\<exists>e. reserve example_bot example_space example_id 101 1000 example_accepted_store = Inl e)"
proof
  let ?row = "new_execution example_trigger example_hash 1000 XAccepted example_id"
  have ok: "budget_ok example_accepted_store"
    by (simp add: example_accepted_store_def budget_ok_def example_day_store_def empty_net_store_def bounded_def max_safe_def)
  have facts: "\<not> in_transaction example_accepted_store" "is_id IdBot example_bot" "is_id IdSpace example_space"
    "bounded 0 1000" "bounded 1 100" "bounded 1 101" "get_reservation example_id example_accepted_store = None"
    "get_execution example_id example_accepted_store = Some ?row" "xr_scope ?row = example_space" "xr_target ?row = example_bot"
    "xr_state ?row = XAccepted" "get_config example_bot example_space example_accepted_store \<noteq> None"
    "remaining example_bot example_space 1000 example_accepted_store = Inr 100"
    by code_simp+
  show "\<exists>s'. reserve example_bot example_space example_id 100 1000 example_accepted_store = Inr ((), s') \<and>
     remaining example_bot example_space 1000 s' = Inr 0"
    using reserve_within_remaining [OF ok facts(1-5,7-12)] facts(13) by simp
  show "\<exists>e. reserve example_bot example_space example_id 101 1000 example_accepted_store = Inl e"
    using reserve_within_remaining [OF ok facts(1-4,6-12)] facts(13) by simp
qed

section \<open>Recovery after a restart\<close>

definition active :: "execution_row \<Rightarrow> bool" where
  "active x \<longleftrightarrow> xr_state x \<in> set active_states"

definition recovered :: "int \<Rightarrow> execution_row \<Rightarrow> execution_row" where
  "recovered now x = x\<lparr>xr_updatedAt := now, xr_result := map_option stored (xr_result x),
     xr_state := (if xr_state x = XAccepted then XFailed else XUncertain),
     xr_error := Some (if xr_state x = XAccepted
       then (''not_started'', ''Execution was accepted but had not started before restart.'')
       else (''outcome_uncertain'', ''Execution may have performed unrecorded effects before restart.''))\<rparr>"

lemma recovered_fields [simp]: "xr_id (recovered now x) = xr_id x" "\<not> active (recovered now x)"
  by (simp_all add: recovered_def active_def active_states_def)

definition quiet :: "execution_effects \<Rightarrow> bool" where
  "quiet fx \<longleftrightarrow> (\<forall>x s y s'. fx x s = Inr (y, s') \<longrightarrow> executions s' = executions s)"

lemma transition_effect:
  assumes run: "transition_execution i to now patch fx s = Inr (y, s')" and q: "quiet fx"
    and x: "get_execution i s = Some x" "xr_state x \<noteq> to"
  shows "executions s' = executions (write_execution (patched_execution x patch to now) s)"
proof -
  let ?n = "patched_execution x patch to now"
  have step: "executions t' = executions (write_execution ?n t)"
    if r: "bindE (required_execution i) (apply_transition to now patch fx) t = Inr (y, t')" and e: "executions t = executions s"
    for t t'
  proof -
    have "get_execution i t = Some x" using x(1) e by (simp add: get_execution_def)
    then obtain u t1 t2 where t: "charge_json 1 (execution_json ?n) t = Inr (u, t1)" "fx ?n (write_execution ?n t1) = Inr ((), t2)"
      "t' = t2"
      using r x(2)
      by (auto simp: bindE_Inr required_execution_def apply_transition_def commit_transition_def split: if_splits option.splits)
    have "executions t1 = executions t" using t(1) by (auto simp: charge_json_def bindE_Inr dest: charge_executions)
    with t q show ?thesis by (auto simp: quiet_def write_execution_def update_execution_def)
  qed
  have w: "net_transaction (bindE (required_execution i) (apply_transition to now patch fx)) s = Inr (y, s')"
    using run by (auto simp: transition_execution_def bindE_Inr)
  show ?thesis
  proof (cases "in_transaction s")
    case True
    with w step [of s s'] show ?thesis by (simp add: net_transaction_def)
  next
    case False
    let ?t = "s\<lparr>in_transaction := True, txn_rows := 0, txn_bytes := 0\<rparr>"
    obtain t' where "bindE (required_execution i) (apply_transition to now patch fx) ?t = Inr (y, t')"
      "s' = t'\<lparr>in_transaction := False\<rparr>"
      using w False by (auto simp: net_transaction_def split: sum.splits)
    with step [of ?t t'] show ?thesis by (simp add: write_execution_def update_execution_def)
  qed
qed

lemma recover_execution_effect:
  assumes run: "recover_execution now fx x s = Inr (y, s')" and q: "quiet fx"
    and x: "x \<in> set (executions s)" "active x" "distinct (map xr_id (executions s))"
  shows "executions s' = map (\<lambda>e. if xr_id e = xr_id x then recovered now x else e) (executions s)"
proof -
  have g: "get_execution (xr_id x) s = Some x"
    using lookup_row_mem [OF x(3,1)] by (simp add: get_execution_def)
  have only: "e = x" if "e \<in> set (executions s)" "xr_id e = xr_id x" for e
    by (rule distinct_key_unique [OF x(3) that(1) x(1) that(2)])
  show ?thesis
  proof (cases "xr_state x = XAccepted")
    case True
    with run transition_effect [OF _ q g] show ?thesis
      by (auto simp: recover_execution_def write_execution_def update_execution_def update_rows_def patched_execution_def
          recovered_def empty_patch_def dest!: only)
  next
    case False
    then have "xr_state x \<noteq> XUncertain" using x(2) by (auto simp: active_def active_states_def)
    with False run transition_effect [OF _ q g] show ?thesis
      by (auto simp: recover_execution_def write_execution_def update_execution_def update_rows_def patched_execution_def
          recovered_def empty_patch_def dest!: only)
  qed
qed

lemma recover_batch_effect:
  assumes "recover_batch now fx xs s = (Inr ys, s')" "quiet fx" "distinct (map xr_id xs)"
    and "\<forall>x \<in> set xs. x \<in> set (executions s) \<and> active x" "distinct (map xr_id (executions s))"
  shows "executions s' = map (\<lambda>e. if e \<in> set xs then recovered now e else e) (executions s)"
  using assms
proof (induction xs arbitrary: s ys)
  case (Cons x xs)
  obtain y s1 zs where s1: "recover_execution now fx x s = Inr (y, s1)" "recover_batch now fx xs s1 = (Inr zs, s')"
    using Cons.prems(1) by (auto split: sum.splits prod.splits)
  have x: "x \<in> set (executions s)" "active x" using Cons.prems(4) by simp_all
  have only: "e = x" if "e \<in> set (executions s)" "xr_id e = xr_id x" for e
    by (rule distinct_key_unique [OF Cons.prems(5) that(1) x(1) that(2)])
  have e1: "executions s1 = map (\<lambda>e. if e = x then recovered now e else e) (executions s)"
    unfolding recover_execution_effect [OF s1(1) Cons.prems(2) x Cons.prems(5)] using only by (intro map_cong) auto
  have "x \<notin> set xs" using Cons.prems(3) by auto
  then have mem: "\<forall>z \<in> set xs. z \<in> set (executions s1) \<and> active z"
    using Cons.prems(4) unfolding e1 by force
  have ids: "map xr_id (executions s1) = map xr_id (executions s)" unfolding e1 by simp
  have "executions s' = map (\<lambda>e. if e \<in> set xs then recovered now e else e) (executions s1)"
    using Cons.IH [OF s1(2) Cons.prems(2) _ mem] Cons.prems(3,5) by (simp add: ids)
  also have "\<dots> = map (\<lambda>e. if e \<in> set (x # xs) then recovered now e else e) (executions s)"
  proof -
    have "recovered now x \<notin> set xs" using Cons.prems(4) recovered_fields(2) [of now x] by (metis list.set_intros(2))
    with \<open>x \<notin> set xs\<close> show ?thesis unfolding e1 by (auto simp: comp_def)
  qed
  finally show ?case .
qed simp

lemma filter_less:
  "x \<in> set xs \<Longrightarrow> P x \<Longrightarrow> \<not> Q x \<Longrightarrow> (\<And>y. Q y \<Longrightarrow> P y) \<Longrightarrow> length (filter Q xs) < length (filter P xs)"
proof (induction xs)
  case (Cons a xs)
  have "length (filter Q xs) \<le> length (filter P xs)" using Cons.prems(4) by (induction xs) auto
  with Cons show ?case by auto
qed simp

lemma active_batch_props:
  assumes "distinct (map xr_id (executions s))"
  shows "distinct (map xr_id (active_batch s))" "\<forall>x \<in> set (active_batch s). x \<in> set (executions s) \<and> active x"
proof -
  let ?l = "sort_key xr_id (filter (\<lambda>x. xr_state x \<in> set active_states) (executions s))"
  have "distinct (map xr_id ?l)"
    using assms by (auto simp: distinct_map intro: inj_on_subset)
  then have "distinct (take 100 (map xr_id ?l))" by (rule distinct_take)
  then show "distinct (map xr_id (active_batch s))" by (simp add: active_batch_def take_map)
  show "\<forall>x \<in> set (active_batch s). x \<in> set (executions s) \<and> active x"
    by (auto simp: active_batch_def active_def dest: in_set_takeD)
qed

lemma active_batch_Nil: "active_batch s = [] \<longleftrightarrow> filter active (executions s) = []"
proof -
  have e: "sort_key f xs = [] \<longleftrightarrow> xs = []" for f :: "execution_row \<Rightarrow> string" and xs
    by (metis length_0_conv length_sort)
  show ?thesis by (simp add: active_batch_def e active_def [abs_def])
qed

lemma recover_loop_complete:
  assumes "quiet fx" "distinct (map xr_id (executions s))"
  shows "\<exists>r s'. recover_loop now fx changed s = Some (r, s') \<and>
     ((\<exists>e. r = Inl e) \<or> executions s' = map (\<lambda>x. if active x then recovered now x else x) (executions s))"
  using assms
proof (induction "length (filter active (executions s))" arbitrary: s changed rule: less_induct)
  case less
  show ?case
  proof (cases "active_batch s = []")
    case True
    then have "\<forall>x \<in> set (executions s). \<not> active x" by (simp add: active_batch_Nil filter_empty_conv)
    then have "map (\<lambda>x. if active x then recovered now x else x) (executions s) = executions s" by (simp add: map_idI)
    with True show ?thesis by (subst recover_loop.simps) simp
  next
    case False
    obtain r s1 where b: "recover_batch now fx (active_batch s) s = (r, s1)" by (cases "recover_batch now fx (active_batch s) s") auto
    show ?thesis
    proof (cases r)
      case (Inl e)
      with False b show ?thesis by (subst recover_loop.simps) simp
    next
      case (Inr ys)
      note p = active_batch_props [OF less.prems(2)]
      let ?B = "set (active_batch s)"
      have e1: "executions s1 = map (\<lambda>e. if e \<in> ?B then recovered now e else e) (executions s)"
        using recover_batch_effect [OF _ less.prems(1) p less.prems(2)] b Inr by blast
      have ids: "map xr_id (executions s1) = map xr_id (executions s)" unfolding e1 by simp
      obtain x where x: "x \<in> ?B" using False by fastforce
      have a: "active (if e \<in> ?B then recovered now e else e) \<longleftrightarrow> e \<notin> ?B \<and> active e" for e by simp
      have "length (filter active (executions s1)) = length (filter (\<lambda>e. e \<notin> ?B \<and> active e) (executions s))"
        unfolding e1 by (simp add: filter_map comp_def a)
      also have "\<dots> < length (filter active (executions s))"
        by (rule filter_less [of x]) (use x p(2) in auto)
      finally obtain r' s' where r': "recover_loop now fx (changed @ ys) s1 = Some (r', s')"
        "(\<exists>e. r' = Inl e) \<or> executions s' = map (\<lambda>x. if active x then recovered now x else x) (executions s1)"
        using less.hyps [of s1 "changed @ ys"] less.prems ids by auto
      have "recover_loop now fx changed s = Some (r', s')"
        using False b Inr r'(1) by (subst recover_loop.simps) simp
      moreover have "map (\<lambda>x. if active x then recovered now x else x) (executions s1) =
          map (\<lambda>x. if active x then recovered now x else x) (executions s)"
        unfolding e1 using p(2) by (simp add: comp_def)
      ultimately show ?thesis using r'(2) by auto
    qed
  qed
qed

text \<open>What a recovery does to a row, when a later one throws as well.\<close>

definition recovering :: "int \<Rightarrow> execution_row \<Rightarrow> execution_row \<Rightarrow> bool" where
  "recovering now x x' \<longleftrightarrow> x' = x \<or> (active x \<and> x' = recovered now x)"

lemma recovering_refl [simp]: "list_all2 (recovering now) xs xs"
  by (simp add: list_all2_refl recovering_def)

lemma recovering_trans:
  assumes "list_all2 (recovering now) xs ys" "list_all2 (recovering now) ys zs"
  shows "list_all2 (recovering now) xs zs"
  by (rule list_all2_trans [OF _ assms]) (auto simp: recovering_def)

lemma recovering_map: "\<forall>x \<in> set xs. P x \<longrightarrow> active x \<Longrightarrow> list_all2 (recovering now) xs (map (\<lambda>x. if P x then recovered now x else x) xs)"
  by (auto simp: list_all2_conv_all_nth recovering_def)

lemma recovering_done:
  assumes "list_all2 (recovering now) xs ys" "list_all (\<lambda>x. \<not> active x) ys"
  shows "ys = map (\<lambda>x. if active x then recovered now x else x) xs"
  using assms by (induction rule: list_all2_induct) (auto simp: recovering_def)

lemma recover_one:
  assumes run: "recover_execution now fx x s = Inr (y, s1)" and q: "quiet fx"
    and x: "x \<in> set (executions s)" "active x" "distinct (map xr_id (executions s))"
  shows "executions s1 = map (\<lambda>e. if e = x then recovered now e else e) (executions s)"
    "map xr_id (executions s1) = map xr_id (executions s)" "list_all2 (recovering now) (executions s) (executions s1)"
proof -
  have only: "e = x" if "e \<in> set (executions s)" "xr_id e = xr_id x" for e
    by (rule distinct_key_unique [OF x(3) that(1) x(1) that(2)])
  show e1: "executions s1 = map (\<lambda>e. if e = x then recovered now e else e) (executions s)"
    unfolding recover_execution_effect [OF run q x] using only by (intro map_cong) auto
  then show "map xr_id (executions s1) = map xr_id (executions s)" by simp
  show "list_all2 (recovering now) (executions s) (executions s1)"
    unfolding e1 by (rule recovering_map) (use x(2) in blast)
qed

lemma recover_batch_rows:
  assumes "recover_batch now fx xs s = (r, s')" "quiet fx" "distinct (map xr_id xs)"
    and "\<forall>x \<in> set xs. x \<in> set (executions s) \<and> active x" "distinct (map xr_id (executions s))"
  shows "list_all2 (recovering now) (executions s) (executions s')"
  using assms
proof (induction xs arbitrary: s r)
  case (Cons x xs)
  have x: "x \<in> set (executions s)" "active x" using Cons.prems(4) by simp_all
  show ?case
  proof (cases "recover_execution now fx x s")
    case (Inl e)
    then show ?thesis using Cons.prems(1) by simp
  next
    case (Inr p)
    obtain y s1 where p: "p = (y, s1)" by (cases p)
    note one = recover_one [OF Inr [unfolded p] Cons.prems(2) x Cons.prems(5)]
    obtain r2 where r2: "recover_batch now fx xs s1 = (r2, s')"
      using Cons.prems(1) Inr p by (auto split: sum.splits prod.splits)
    have "x \<notin> set xs" using Cons.prems(3) by auto
    then have "\<forall>z \<in> set xs. z \<in> set (executions s1) \<and> active z"
      using Cons.prems(4) unfolding one(1) by force
    then have "list_all2 (recovering now) (executions s1) (executions s')"
      using Cons.IH [OF r2 Cons.prems(2)] Cons.prems(3,5) by (simp add: one(2))
    then show ?thesis by (rule recovering_trans [OF one(3)])
  qed
qed simp

text \<open>When a row can be recovered: no clock in the future, and a record that fits a transaction.\<close>

definition recovery_row :: "int \<Rightarrow> execution_row \<Rightarrow> execution_row" where
  "recovery_row now x = (recovered now x)\<lparr>xr_result := xr_result x\<rparr>"

definition recoverable :: "int \<Rightarrow> execution_row \<Rightarrow> bool" where
  "recoverable now x \<longleftrightarrow> xr_updatedAt x \<le> now \<and>
     (case canonical_json (execution_json (recovery_row now x)) of Inl e \<Rightarrow> False | Inr t \<Rightarrow> utf8_length t \<le> STORE_TXN_MAX_BYTES)"

text \<open>Side effects that neither throw nor write executions.\<close>

definition accepting :: "execution_effects \<Rightarrow> bool" where
  "accepting fx \<longleftrightarrow> (\<forall>x s. \<exists>s'. fx x s = Inr ((), s') \<and> executions s' = executions s)"

lemma accepting_quiet: "accepting fx \<Longrightarrow> quiet fx"
  unfolding accepting_def quiet_def by (metis Pair_inject sum.inject(2))

lemma transition_total:
  assumes fx: "accepting fx" and n: "\<not> in_transaction s" "bounded 0 now"
    and x: "get_execution i s = Some x" "xr_state x \<noteq> to" "xr_state x \<notin> set terminal_states" "to \<in> set (execution_transitions (xr_state x))"
    and row: "xr_updatedAt x \<le> now" "canonical_json (execution_json (patched_execution x patch to now)) = Inr t"
      "utf8_length t \<le> STORE_TXN_MAX_BYTES"
  shows "\<exists>y s'. transition_execution i to now patch fx s = Inr (y, s') \<and> \<not> in_transaction s'"
proof -
  let ?n = "patched_execution x patch to now"
  let ?t = "s\<lparr>in_transaction := True, txn_rows := 0, txn_bytes := 0\<rparr>"
  let ?t1 = "?t\<lparr>txn_rows := 1, txn_bytes := utf8_length t\<rparr>"
  have charged: "charge_json 1 (execution_json ?n) ?t = Inr ((), ?t1)"
    using row(2,3) by (simp add: charge_json_def bindE_def liftE_def charge_def Let_def STORE_TXN_MAX_ROWS_def)
  have id: "xr_id ?n = i" using x(1) by (auto simp: patched_execution_def get_execution_def dest: lookup_row_Some)
  obtain t2 where t2: "fx ?n (write_execution ?n ?t1) = Inr ((), t2)" "executions t2 = executions (write_execution ?n ?t1)"
    using fx unfolding accepting_def by blast
  obtain z where "get_execution i t2 = Some z"
    using x(1) t2(2) by (auto simp: get_execution_def write_execution_def update_execution_def lookup_row_update)
  then have "bindE (required_execution i) (apply_transition to now patch fx) ?t = Inr (z, t2)"
    using x row(1) charged t2(1) id
    by (simp add: bindE_def required_execution_def apply_transition_def commit_transition_def get_execution_def modE_def)
  then show ?thesis
    using n by (simp add: transition_execution_def bindE_def integerE_def requireE_def net_transaction_def retE_def)
qed

lemma recover_total:
  assumes fx: "accepting fx" and n: "\<not> in_transaction s" "bounded 0 now"
    and x: "x \<in> set (executions s)" "active x" "distinct (map xr_id (executions s))" and ok: "recoverable now x"
  shows "\<exists>y s'. recover_execution now fx x s = Inr (y, s') \<and> \<not> in_transaction s'"
proof -
  have g: "get_execution (xr_id x) s = Some x"
    using lookup_row_mem [OF x(3,1)] by (simp add: get_execution_def)
  obtain t where t: "canonical_json (execution_json (recovery_row now x)) = Inr t" "utf8_length t \<le> STORE_TXN_MAX_BYTES" "xr_updatedAt x \<le> now"
    using ok by (auto simp: recoverable_def split: sum.splits)
  have row: "patched_execution x (empty_patch\<lparr>pa_error := xr_error (recovered now x)\<rparr>) (xr_state (recovered now x)) now = recovery_row now x"
    by (simp add: patched_execution_def empty_patch_def recovery_row_def recovered_def)
  note total = transition_total [OF fx n g, where to = "xr_state (recovered now x)" and t = t
    and patch = "empty_patch\<lparr>pa_error := xr_error (recovered now x)\<rparr>", unfolded row]
  have "recover_execution now fx x =
      transition_execution (xr_id x) (xr_state (recovered now x)) now (empty_patch\<lparr>pa_error := xr_error (recovered now x)\<rparr>) fx"
    by (simp add: recover_execution_def recovered_def)
  moreover have "xr_state x \<noteq> xr_state (recovered now x)" "xr_state x \<notin> set terminal_states"
    "xr_state (recovered now x) \<in> set (execution_transitions (xr_state x))"
    using x(2) by (auto simp: active_def active_states_def recovered_def terminal_states_def)
  ultimately show ?thesis using total t by simp
qed

lemma recover_batch_total:
  assumes "accepting fx" "\<not> in_transaction s" "bounded 0 now" "distinct (map xr_id xs)"
    and "\<forall>x \<in> set xs. x \<in> set (executions s) \<and> active x \<and> recoverable now x" "distinct (map xr_id (executions s))"
  shows "\<exists>ys s'. recover_batch now fx xs s = (Inr ys, s') \<and> \<not> in_transaction s'"
  using assms
proof (induction xs arbitrary: s)
  case (Cons x xs)
  have x: "x \<in> set (executions s)" "active x" "recoverable now x" using Cons.prems(5) by simp_all
  obtain y s1 where s1: "recover_execution now fx x s = Inr (y, s1)" "\<not> in_transaction s1"
    using recover_total [OF Cons.prems(1-3) x(1,2) Cons.prems(6) x(3)] by blast
  note one = recover_one [OF s1(1) accepting_quiet [OF Cons.prems(1)] x(1,2) Cons.prems(6)]
  have "x \<notin> set xs" using Cons.prems(4) by auto
  then have "\<forall>z \<in> set xs. z \<in> set (executions s1) \<and> active z \<and> recoverable now z"
    using Cons.prems(5) unfolding one(1) by force
  then obtain ys s' where "recover_batch now fx xs s1 = (Inr ys, s')" "\<not> in_transaction s'"
    using Cons.IH [OF Cons.prems(1) s1(2) Cons.prems(3)] Cons.prems(4,6) by (auto simp: one(2))
  then show ?case by (simp add: s1(1))
qed simp

lemma recover_loop_rows:
  assumes "quiet fx" "distinct (map xr_id (executions s))" "recover_loop now fx changed s = Some (r, s')"
  shows "list_all2 (recovering now) (executions s) (executions s') \<and> (\<not> isl r \<longrightarrow> list_all (\<lambda>x. \<not> active x) (executions s')) \<and>
    (accepting fx \<and> \<not> in_transaction s \<and> bounded 0 now \<and> (\<forall>x \<in> set (executions s). active x \<longrightarrow> recoverable now x) \<longrightarrow> \<not> isl r)"
  using assms
proof (induction "length (filter active (executions s))" arbitrary: s changed rule: less_induct)
  case less
  show ?case
  proof (cases "active_batch s = []")
    case True
    then have "list_all (\<lambda>x. \<not> active x) (executions s)" by (simp add: active_batch_Nil filter_empty_conv list_all_iff)
    moreover have "s' = s \<and> \<not> isl r" using less.prems(3) True by (subst (asm) recover_loop.simps) auto
    ultimately show ?thesis by simp
  next
    case False
    obtain r1 s1 where b: "recover_batch now fx (active_batch s) s = (r1, s1)"
      by (cases "recover_batch now fx (active_batch s) s") auto
    note p = active_batch_props [OF less.prems(2)]
    have rows: "list_all2 (recovering now) (executions s) (executions s1)"
      by (rule recover_batch_rows [OF b less.prems(1) p less.prems(2)])
    have total: "\<not> isl r1 \<and> \<not> in_transaction s1"
      if "accepting fx" "\<not> in_transaction s" "bounded 0 now" "\<forall>x \<in> set (executions s). active x \<longrightarrow> recoverable now x"
      using recover_batch_total [OF that(1-3) p(1) _ less.prems(2)] p(2) that(4) b by auto
    show ?thesis
    proof (cases r1)
      case (Inl e)
      then have "s' = s1 \<and> isl r" using less.prems(3) False b by (subst (asm) recover_loop.simps) auto
      with rows total Inl show ?thesis by auto
    next
      case (Inr ys)
      let ?B = "set (active_batch s)"
      have e1: "executions s1 = map (\<lambda>e. if e \<in> ?B then recovered now e else e) (executions s)"
        using recover_batch_effect [OF _ less.prems(1) p less.prems(2)] b Inr by blast
      have ids: "map xr_id (executions s1) = map xr_id (executions s)" unfolding e1 by simp
      obtain x where x: "x \<in> ?B" using False by fastforce
      have a: "active (if e \<in> ?B then recovered now e else e) \<longleftrightarrow> e \<notin> ?B \<and> active e" for e by simp
      have "length (filter active (executions s1)) = length (filter (\<lambda>e. e \<notin> ?B \<and> active e) (executions s))"
        unfolding e1 by (simp add: filter_map comp_def a)
      also have "\<dots> < length (filter active (executions s))"
        by (rule filter_less [of x]) (use x p(2) in auto)
      finally have fewer: "length (filter active (executions s1)) < length (filter active (executions s))" .
      have on: "recover_loop now fx (changed @ ys) s1 = Some (r, s')"
        using less.prems(3) False b Inr by (subst (asm) recover_loop.simps) simp
      have still: "\<forall>x \<in> set (executions s1). active x \<longrightarrow> recoverable now x" if "\<forall>x \<in> set (executions s). active x \<longrightarrow> recoverable now x"
        using that unfolding e1 by auto
      note rest = less.hyps [OF fewer less.prems(1) _ on]
      have "distinct (map xr_id (executions s1))" unfolding ids by (rule less.prems(2))
      note rest = rest [OF this]
      have "list_all2 (recovering now) (executions s) (executions s')"
        by (rule recovering_trans [OF rows]) (use rest in blast)
      with rest total still show ?thesis by blast
    qed
  qed
qed

text \<open>C20: recovery after a restart ends, and what it leaves: each accepted execution is as it was or has failed as not
  started, each running or waiting one is as it was or uncertain, the others are as they were. When it returns its
  list, no execution is active any more, so every active one was recovered. And it does return its list, instead of
  throwing, when it is called outside a transaction, no active execution is dated after \<open>now\<close>, each fits a transaction, and
  the side effects the caller runs for each neither throw nor write executions; in general they only must not write
  executions.\<close>

theorem recovery_completes:
  assumes "executions_ok s" "bounded 0 now" "quiet fx"
  shows "\<exists>r s'. recover_after_restart now fx s = Some (r, s') \<and>
     list_all2 (\<lambda>x x'. x' = x \<or> (active x \<and> x' = recovered now x)) (executions s) (executions s') \<and>
     (\<not> isl r \<longrightarrow> executions s' = map (\<lambda>x. if active x then recovered now x else x) (executions s) \<and>
        list_all (\<lambda>x. \<not> active x) (executions s')) \<and>
     (accepting fx \<and> \<not> in_transaction s \<and> list_all (\<lambda>x. active x \<longrightarrow> recoverable now x) (executions s) \<longrightarrow> \<not> isl r)"
proof -
  have d: "distinct (map xr_id (executions s))" using assms(1) by (simp add: executions_ok_def)
  from recover_loop_complete [OF assms(3) d, of now "[]"] obtain r s' where r: "recover_loop now fx [] s = Some (r, s')" by blast
  note rows = recover_loop_rows [OF assms(3) d r]
  then have "\<not> isl r \<longrightarrow> executions s' = map (\<lambda>x. if active x then recovered now x else x) (executions s)"
    using recovering_done by blast
  moreover have "recover_after_restart now fx s = Some (r, s')" using r assms(2) by (simp add: recover_after_restart_def)
  moreover have "list_all2 (\<lambda>x x'. x' = x \<or> (active x \<and> x' = recovered now x)) (executions s) (executions s')"
    using rows by (simp only: recovering_def [abs_def])
  ultimately show ?thesis using rows assms(2) by (intro exI [of _ r] exI [of _ s']) (unfold list_all_iff, blast)
qed

definition example_restart_store :: net_store where
  "example_restart_store = example_day_store\<lparr>executions :=
     [new_execution example_trigger example_hash 1000 XAccepted example_id,
      new_execution (example_trigger\<lparr>ek_trigger := ''u''\<rparr>) example_hash 1000 XRunning (new_id IdExecution 1),
      new_execution (example_trigger\<lparr>ek_trigger := ''v''\<rparr>) example_hash 1000 XCompleted (new_id IdExecution 2)]\<rparr>"

lemma example_recovery:
  "map_option (map_sum id (map xr_state) \<circ> fst) (recover_after_restart 2000 no_effects example_restart_store) = Some (Inr [XFailed, XUncertain])"
  by code_simp

theorem recovery_completes_witness:
  "\<exists>xs s'. recover_after_restart 2000 no_effects example_restart_store = Some (Inr xs, s') \<and>
     map xr_state xs = [XFailed, XUncertain] \<and> map xr_state (executions s') = [XFailed, XUncertain, XCompleted]"
proof -
  have "executions_ok example_restart_store" by code_simp
  moreover have "quiet no_effects" "accepting no_effects" by (auto simp: quiet_def accepting_def no_effects_def)
  moreover have "bounded 0 2000" by (simp add: bounded_def max_safe_def)
  moreover have "\<not> in_transaction example_restart_store" "list_all (\<lambda>x. active x \<longrightarrow> recoverable 2000 x) (executions example_restart_store)"
    by code_simp+
  ultimately obtain r s' where r: "recover_after_restart 2000 no_effects example_restart_store = Some (r, s')" "\<not> isl r"
    "executions s' = map (\<lambda>x. if active x then recovered 2000 x else x) (executions example_restart_store)"
    using recovery_completes [of example_restart_store 2000 no_effects] by blast
  with example_recovery obtain xs where xs: "r = Inr xs" "map xr_state xs = [XFailed, XUncertain]" by (cases r) auto
  have "map xr_state (map (\<lambda>x. if active x then recovered 2000 x else x) (executions example_restart_store)) =
    [XFailed, XUncertain, XCompleted]" by code_simp
  with r xs show ?thesis by auto
qed

section \<open>New identifiers\<close>

text \<open>C23: a new identifier has the shape every check of identifiers asks for - the prefix of its kind and 26
  characters of the alphabet - and of its kind only; two new ones are the same only when their kind and their
  128 random bits are.\<close>

theorem new_id_well_typed:
  "is_id kind (new_id kind v) \<and> (is_id kind' (new_id kind v) \<longleftrightarrow> kind' = kind) \<and>
   (new_id kind (v mod 2 ^ 128) = new_id kind' (w mod 2 ^ 128) \<longleftrightarrow> kind = kind' \<and> v mod 2 ^ 128 = w mod 2 ^ 128)"
proof -
  have prefix: "length (id_prefix k) = 3" for k by (cases k) simp_all
  have inj: "id_prefix k = id_prefix k' \<longleftrightarrow> k = k'" for k k' by (cases k; cases k') simp_all
  have "take 4 (new_id kind v) = id_prefix kind @ ''_''" using prefix [of kind] by (simp add: new_id_def)
  then have "is_id kind' (new_id kind v) \<longleftrightarrow> kind' = kind" using new_id_shape [of kind v] inj [of kind kind'] by (auto simp: is_id_def)
  moreover have "new_id kind a = new_id kind' b \<longleftrightarrow> kind = kind' \<and> id_body 26 a = id_body 26 b" for a b
    using prefix [of kind] prefix [of kind'] inj [of kind kind'] by (auto simp: new_id_def)
  moreover have "a mod 2 ^ 128 mod 32 ^ 26 = a mod 2 ^ 128" for a :: nat
    by (rule mod_less) (rule less_trans [OF mod_less_divisor], simp_all)
  ultimately show ?thesis using new_id_shape by (simp add: id_body_inject)
qed

end
