(* ===== verification/NetTransfer.thy ===== *)
theory NetTransfer
  imports NetPrograms
begin

text \<open>
  Moving a bot's books to another computer: what was exported and imported there is exported again as the
  same transfer, and importing it a second time changes nothing of the ledger.
\<close>

lemma sort_key_idem: "sort_key f (sort_key f xs) = sort_key f xs"
proof -
  have "sorted (map f ys) \<Longrightarrow> sort_key f ys = ys" for ys
    by (induction ys) (simp_all add: insort_is_Cons)
  then show ?thesis by (simp add: sorted_sort_key)
qed

lemma bucket_row_export: "bd_bot d = botId \<Longrightarrow> bucket_row botId (export_daily d) = d"
  by (cases d) (simp add: bucket_row_def export_daily_def)

lemma reservation_row_export: "br_bot r = botId \<Longrightarrow> reservation_row botId (export_reservation s r) = r"
  by (cases r) (simp add: reservation_row_def export_reservation_def)

lemma call_row_export: "bc_execution c = x \<Longrightarrow> call_row x (export_call c) = c"
  by (cases c) (simp add: call_row_def export_call_def)

lemma export_imported:
  assumes i: "imported botId (bt_daily (export_for botId s)) (bt_reservations (export_for botId s)) s2 s3"
  shows "export_for botId s3 = export_for botId s"
proof -
  let ?L = "sort_key (\<lambda>d. (bd_space d, bd_day d)) (filter (\<lambda>d. bd_bot d = botId) (budget_days s))"
  let ?R = "sort_key br_execution (filter (\<lambda>r. br_bot r = botId) (reservations s))"
  have t: "bt_daily (export_for botId s) = map export_daily ?L" "bt_reservations (export_for botId s) = map (export_reservation s) ?R"
    by (simp_all add: export_for_def)
  have rows: "map (bucket_row botId) (map export_daily ?L) = ?L" "map (reservation_row botId) (map (export_reservation s) ?R) = ?R"
    unfolding map_map comp_def by (rule map_idI; simp add: bucket_row_export reservation_row_export)+
  note tab = tables [OF i, unfolded t rows]
  have none: "filter (\<lambda>d. bd_bot d = botId) (budget_days s2) = []" "filter (\<lambda>r. br_bot r = botId) (reservations s2) = []"
    using importedD(2,3) [OF i] by (simp_all add: filter_empty_conv)
  have days: "filter (\<lambda>d. bd_bot d = botId) (budget_days s3) = ?L"
    unfolding tab(1) filter_append none by (simp add: filter_id_conv)
  have res: "filter (\<lambda>r. br_bot r = botId) (reservations s3) = ?R"
    unfolding tab(2) filter_append none by (simp add: filter_id_conv)
  have "export_reservation s3 r = export_reservation s r" if r: "r \<in> set ?R" for r
  proof -
    let ?x = "br_execution r" and ?C = "sort_key bc_id (calls_of (br_execution r) s)"
    have m: "export_reservation s r \<in> set (bt_reservations (export_for botId s))" using r by (simp add: t)
    have x: "tv_execution (export_reservation s r) = ?x" "tv_calls (export_reservation s r) = map export_call ?C"
      by (simp_all add: export_reservation_def)
    have "filter (\<lambda>c. bc_execution c = ?x) (calls s2) = []"
      using old_calls [OF importedD(1) [OF i]] executions_distinct(2) [OF i m] x(1) by (fastforce simp: filter_empty_conv)
    then have "calls_of ?x s3 = map (call_row ?x) (map export_call ?C)"
      using calls_of_rows(1) [OF executions_distinct(1) [OF i] m] tables(3) [OF i] x by (simp add: calls_of_def)
    also have "\<dots> = ?C"
      unfolding map_map comp_def by (rule map_idI) (auto simp: call_row_export calls_of_def)
    finally show ?thesis by (simp add: export_reservation_def sort_key_idem)
  qed
  then show ?thesis
    unfolding export_for_def days res sort_key_idem by (simp cong: map_cong)
qed

text \<open>An import adds rows of the bot and leaves everything else.\<close>

definition only_adds :: "string \<Rightarrow> net_store \<Rightarrow> net_store \<Rightarrow> bool" where
  "only_adds botId s s' \<longleftrightarrow> executions s' = executions s \<and> budget_configs s' = budget_configs s \<and>
     (\<exists>ds rs cs. budget_days s' = budget_days s @ ds \<and> list_all (\<lambda>d. bd_bot d = botId) ds \<and>
        reservations s' = reservations s @ rs \<and> list_all (\<lambda>r. br_bot r = botId) rs \<and>
        calls s' = calls s @ cs \<and> list_all (\<lambda>c. bc_execution c \<in> br_execution ` set rs) cs)"

lemma imported_adds:
  assumes "imported botId ds rs s s'"
  shows "only_adds botId s s'"
  using tables [OF assms]
  by (auto simp: only_adds_def list_all_iff bucket_row_def reservation_row_def call_rows_def call_row_def image_image)

lemma only_adds_same:
  "only_adds botId (s\<lparr>in_transaction := b, txn_rows := r, txn_bytes := z\<rparr>) s' \<longleftrightarrow> only_adds botId s s'"
  "only_adds botId s (s'\<lparr>in_transaction := b\<rparr>) \<longleftrightarrow> only_adds botId s s'"
  by (simp_all add: only_adds_def)

text \<open>C21: moving a bot to another computer keeps its books: when a ledger that knows nothing of the bot
  imports what another one exported, only rows of the bot are added there, exporting the bot from there gives the same
  transfer, and importing the transfer again leaves that ledger as it is (but for the counters of the transaction).\<close>

theorem transfer_roundtrip:
  assumes "budget_ok s2" "bt_daily (export_for botId s2) = []" "bt_reservations (export_for botId s2) = []"
    and run: "import_for botId (export_for botId s) s2 = Inr (y, s3)"
  shows "only_adds botId s2 s3 \<and> export_for botId s3 = export_for botId s \<and>
     (\<exists>rows bytes. import_for botId (export_for botId s) s3 = Inr ((), s3\<lparr>txn_rows := rows, txn_bytes := bytes\<rparr>))"
proof -
  let ?t = "export_for botId s"
  let ?work = "\<lambda>s. let current = export_for botId s in
       if bt_daily current \<noteq> [] \<or> bt_reservations current \<noteq> []
       then bindE (liftE (same_json (transfer_json current) (transfer_json ?t))) (\<lambda>eq. requireE eq NConflict) s
       else install_transfer botId ?t s"
  let ?open = "\<lambda>s :: net_store. s\<lparr>in_transaction := True, txn_rows := 0, txn_bytes := 0\<rparr>"
  obtain text_of where pre: "is_id IdBot botId" "transfer_count ?t \<le> 500" "canonical_json (transfer_json ?t) = Inr text_of"
    "utf8_length text_of \<le> 1024 * 1024" "botId = bt_bot ?t" and w: "net_transaction ?work s2 = Inr (y, s3)"
    using run unfolding import_for_def bindE_Inr requireE_Inr liftE_Inr by blast
  have same: "export_for botId (s\<lparr>in_transaction := b, txn_rows := r, txn_bytes := z\<rparr>) = export_for botId s"
    "export_for botId (s\<lparr>in_transaction := b\<rparr>) = export_for botId s" for s b r z
    by (simp_all add: export_for_def export_reservation_def [abs_def] calls_of_def)
  have first: "only_adds botId t t' \<and> export_for botId t' = ?t"
    if "install_transfer botId ?t t = Inr (y, t')" "budget_ok t" "bt_daily (export_for botId t) = []"
      "bt_reservations (export_for botId t) = []" for t t'
  proof -
    have i: "imported botId (bt_daily ?t) (bt_reservations ?t) t t'"
      by (rule install_transfer_imported [OF that(1,2) pre(1) export_empty [OF that(3,4)]])
    then show ?thesis using imported_adds export_imported by blast
  qed
  have e3: "only_adds botId s2 s3 \<and> export_for botId s3 = ?t"
  proof (cases "in_transaction s2")
    case True
    with w assms first [of s2 s3] show ?thesis by (simp add: net_transaction_def Let_def)
  next
    case False
    obtain t' where t': "?work (?open s2) = Inr (y, t')" "s3 = t'\<lparr>in_transaction := False\<rparr>"
      using w False by (auto simp: net_transaction_def split: sum.splits)
    have "budget_ok (?open s2)" using assms(1) same_budgets_ok(1) [of s2 "?open s2"] by (simp add: same_budgets_def)
    with t' assms(2,3) first [of "?open s2" t'] show ?thesis by (simp add: Let_def same only_adds_same)
  qed
  have again: "?work t = Inr ((), t)" if "export_for botId t = ?t" for t
  proof (cases "bt_daily ?t = [] \<and> bt_reservations ?t = []")
    case True
    with that show ?thesis
      by (simp add: Let_def install_transfer_def bindE_def liftE_def retE_def)
  next
    case False
    have "same_json (transfer_json ?t) (transfer_json ?t) = Inr True" by (simp add: same_json_def pre(3))
    with False that show ?thesis by (simp add: Let_def bindE_def liftE_def requireE_def retE_def)
  qed
  have "\<exists>rows bytes. net_transaction ?work s3 = Inr ((), s3\<lparr>txn_rows := rows, txn_bytes := bytes\<rparr>)"
  proof (cases "in_transaction s3")
    case True
    then have "net_transaction ?work s3 = Inr ((), s3\<lparr>txn_rows := txn_rows s3, txn_bytes := txn_bytes s3\<rparr>)"
      using again [of s3] e3 by (simp add: net_transaction_def)
    then show ?thesis by blast
  next
    case False
    have "export_for botId (?open s3) = ?t" using e3 by (simp add: same)
    from again [OF this] False have "net_transaction ?work s3 = Inr ((), s3\<lparr>txn_rows := 0, txn_bytes := 0\<rparr>)"
      by (simp add: net_transaction_def)
    then show ?thesis by blast
  qed
  moreover have "import_for botId ?t s3 = net_transaction ?work s3"
    unfolding import_for_def bindE_def liftE_def requireE_def retE_def pre(3)
    using pre(1,2,4,5) by simp
  ultimately show ?thesis using e3 by simp
qed

text \<open>A bot with one settled execution; the other computer has its outcome already.\<close>

definition example_books :: net_store where
  "example_books = (empty_net_store 5000 (\<lambda>n. n))\<lparr>
     executions := [new_execution example_trigger example_hash 1000 XCompleted example_id],
     budget_days := [\<lparr>bd_bot = example_bot, bd_space = example_space, bd_day = 0, bd_units = 100, bd_spent = 30\<rparr>],
     reservations := [\<lparr>br_execution = example_id, br_bot = example_bot, br_space = example_space, br_day = 0,
       br_ceiling = 40, br_settled = Some 30\<rparr>],
     calls := [\<lparr>bc_execution = example_id, bc_id = ''c'', bc_maximum = 35, bc_spent = Some 30\<rparr>]\<rparr>"

definition example_target :: net_store where
  "example_target = (empty_net_store 6000 (\<lambda>n. n))\<lparr>executions := executions example_books\<rparr>"

lemma example_transfer:
  "\<not> isl (import_for example_bot (export_for example_bot example_books) example_target)"
  "bt_reservations (export_for example_bot example_books) \<noteq> []"
  "bt_daily (export_for example_bot example_target) = []" "bt_reservations (export_for example_bot example_target) = []"
  by code_simp+

theorem transfer_roundtrip_witness:
  "\<exists>y s3. import_for example_bot (export_for example_bot example_books) example_target = Inr (y, s3) \<and>
     export_for example_bot s3 = export_for example_bot example_books \<and> bt_reservations (export_for example_bot s3) \<noteq> []"
proof -
  obtain y s3 where r: "import_for example_bot (export_for example_bot example_books) example_target = Inr (y, s3)"
    using succeeds [OF example_transfer(1)] by blast
  have "budget_ok example_target" by (simp add: budget_ok_def example_target_def empty_net_store_def)
  from transfer_roundtrip [OF this example_transfer(3,4) r] r example_transfer(2) show ?thesis by auto
qed

end
