(* ===== verification/NetLimits.thy ===== *)
theory NetLimits
  imports BudgetLaws
begin

text \<open>
  The quota and rate ledger (\<open>src/mms/net/store/limits.ts\<close>): units reserved of a scope's quota until they
  are released, and units charged to a principal in a sliding window. The key of a scope is its canonical
  JSON text. The invariants: a scope has never reserved more than its quota, and in no window of the
  configured length has a principal been charged more than its rate.
\<close>

section \<open>Scopes\<close>

datatype limit_scope = ProfileScope string | SpaceScope string

definition accounting_id :: "string \<Rightarrow> bool" where
  "accounting_id value \<longleftrightarrow> value \<noteq> [] \<and> length value \<le> 256"

fun scope_json :: "limit_scope \<Rightarrow> json" where
  "scope_json (ProfileScope i) = JObj [(''kind'', JStr ''profile''), (''profileId'', JStr i)]"
| "scope_json (SpaceScope i) = JObj [(''kind'', JStr ''space''), (''space'', JStr i)]"

fun scope_valid :: "limit_scope \<Rightarrow> bool" where
  "scope_valid (ProfileScope i) = accounting_id i"
| "scope_valid (SpaceScope i) = is_id IdSpace i"

definition scope_key :: "limit_scope \<Rightarrow> net_error + string" where
  "scope_key scope = (if scope_valid scope then canonical_json (scope_json scope) else Inl NBadRequest)"

definition scopeE :: "limit_scope \<Rightarrow> string net_txn" where
  "scopeE scope = liftE (scope_key scope)"

definition accountingE :: "string \<Rightarrow> unit net_txn" where
  "accountingE i = requireE (accounting_id i) NBadRequest"

section \<open>Quotas\<close>

definition quota_sum :: "string \<Rightarrow> net_store \<Rightarrow> int" where
  "quota_sum key s = sum_list (map qr_units (filter (\<lambda>r. qr_scope r = key \<and> \<not> qr_released r) (quota_reservations s)))"

definition quota_used :: "string \<Rightarrow> net_store \<Rightarrow> net_error + int" where
  "quota_used key s = check_integer 0 (quota_sum key s)"

definition get_quota :: "string \<Rightarrow> net_store \<Rightarrow> quota_config_row option" where
  "get_quota key s = lookup_row qf_scope key (quota_configs s)"

definition quota_key :: "quota_reservation_row \<Rightarrow> string \<times> string" where
  "quota_key r = (qr_scope r, qr_id r)"

definition get_quota_reservation :: "string \<Rightarrow> string \<Rightarrow> net_store \<Rightarrow> quota_reservation_row option" where
  "get_quota_reservation key i s = lookup_row quota_key (key, i) (quota_reservations s)"

definition upsert_quota :: "string \<Rightarrow> int \<Rightarrow> net_store \<Rightarrow> net_store" where
  "upsert_quota key units s =
     (if get_quota key s = None then s\<lparr>quota_configs := quota_configs s @ [\<lparr>qf_scope = key, qf_units = units\<rparr>]\<rparr>
      else s\<lparr>quota_configs := update_rows (\<lambda>c. qf_scope c = key) (\<lambda>c. c\<lparr>qf_units := units\<rparr>) (quota_configs s)\<rparr>)"

definition configure_quota :: "limit_scope \<Rightarrow> int \<Rightarrow> unit net_txn" where
  "configure_quota scope maximumUnits =
     bindE (scopeE scope) (\<lambda>key.
     bindE (integerE 0 maximumUnits) (\<lambda>_.
     net_transaction (\<lambda>s.
       case quota_used key s of
         Inl e \<Rightarrow> Inl e
       | Inr used \<Rightarrow>
           if maximumUnits < used then Inl NQuotaExceeded
           else bindE (charge 1 0) (\<lambda>_. modE (upsert_quota key maximumUnits)) s)))"

definition new_quota_reservation :: "string \<Rightarrow> string \<Rightarrow> int \<Rightarrow> unit net_txn" where
  "new_quota_reservation key i units s =
     (case get_quota key s of
        None \<Rightarrow> Inl NQuotaExceeded
      | Some maximum \<Rightarrow>
          bindE (liftE (quota_used key s)) (\<lambda>used.
          bindE (liftE (check_integer 0 (used + units))) (\<lambda>needed.
          bindE (requireE (needed \<le> qf_units maximum) NQuotaExceeded) (\<lambda>_.
          bindE (charge 1 0) (\<lambda>_.
          modE (\<lambda>s. s\<lparr>quota_reservations := quota_reservations s @
            [\<lparr>qr_scope = key, qr_id = i, qr_units = units, qr_released = False\<rparr>]\<rparr>))))) s)"

definition reserve_quota :: "limit_scope \<Rightarrow> string \<Rightarrow> int \<Rightarrow> unit net_txn" where
  "reserve_quota scope reservationId units =
     bindE (scopeE scope) (\<lambda>key.
     bindE (accountingE reservationId) (\<lambda>_.
     bindE (integerE 0 units) (\<lambda>_.
     net_transaction (\<lambda>s.
       case get_quota_reservation key reservationId s of
         Some p \<Rightarrow> if qr_units p \<noteq> units then Inl NConflict else Inr ((), s)
       | None \<Rightarrow> new_quota_reservation key reservationId units s))))"

definition release_rows :: "string \<Rightarrow> string \<Rightarrow> net_store \<Rightarrow> net_store" where
  "release_rows key i s =
     s\<lparr>quota_reservations := update_rows (\<lambda>r. quota_key r = (key, i)) (\<lambda>r. r\<lparr>qr_released := True\<rparr>) (quota_reservations s)\<rparr>"

definition release_quota :: "limit_scope \<Rightarrow> string \<Rightarrow> unit net_txn" where
  "release_quota scope reservationId =
     bindE (scopeE scope) (\<lambda>key.
     bindE (accountingE reservationId) (\<lambda>_.
     net_transaction (\<lambda>s.
       case get_quota_reservation key reservationId s of
         None \<Rightarrow> Inl NBadRequest
       | Some r \<Rightarrow>
           if qr_released r then Inr ((), s)
           else bindE (charge 1 0) (\<lambda>_. modE (release_rows key reservationId)) s)))"

definition remaining_quota :: "limit_scope \<Rightarrow> net_store \<Rightarrow> net_error + int" where
  "remaining_quota scope s =
     (case scope_key scope of
        Inl e \<Rightarrow> Inl e
      | Inr key \<Rightarrow>
          (case get_quota key s of
             None \<Rightarrow> Inr 0
           | Some maximum \<Rightarrow>
               (case quota_used key s of Inl e \<Rightarrow> Inl e | Inr used \<Rightarrow> check_integer 0 (qf_units maximum - used))))"

section \<open>Rates\<close>

definition rate_key :: "rate_config_row \<Rightarrow> string \<times> string" where
  "rate_key c = (rf_scope c, rf_principal c)"

definition get_rate :: "string \<Rightarrow> string \<Rightarrow> net_store \<Rightarrow> rate_config_row option" where
  "get_rate key who s = lookup_row rate_key (key, who) (rate_configs s)"

definition get_charge :: "string \<Rightarrow> string \<Rightarrow> string \<Rightarrow> net_store \<Rightarrow> rate_charge_row option" where
  "get_charge key who i s =
     List.find (\<lambda>g. rg_scope g = key \<and> rg_principal g = who \<and> rg_id g = i) (rate_charges s)"

text \<open>The half-open window \<open>(now - window, now]\<close>.\<close>

definition in_window :: "string \<Rightarrow> string \<Rightarrow> int \<Rightarrow> int \<Rightarrow> rate_charge_row \<Rightarrow> bool" where
  "in_window key who now window g \<longleftrightarrow> rg_scope g = key \<and> rg_principal g = who \<and>
     now - window < rg_createdAt g \<and> rg_createdAt g \<le> now"

definition window_sum :: "string \<Rightarrow> string \<Rightarrow> int \<Rightarrow> int \<Rightarrow> rate_charge_row list \<Rightarrow> int" where
  "window_sum key who now window gs = sum_list (map rg_units (filter (in_window key who now window) gs))"

definition rate_used :: "string \<Rightarrow> string \<Rightarrow> int \<Rightarrow> int \<Rightarrow> net_store \<Rightarrow> net_error + int" where
  "rate_used key who now window s = check_integer 0 (window_sum key who now window (rate_charges s))"

definition upsert_rate :: "string \<Rightarrow> string \<Rightarrow> int \<Rightarrow> int \<Rightarrow> net_store \<Rightarrow> net_store" where
  "upsert_rate key who maximumUnits windowMs s =
     (if get_rate key who s = None
      then s\<lparr>rate_configs := rate_configs s @ [\<lparr>rf_scope = key, rf_principal = who, rf_maxUnits = maximumUnits,
        rf_windowMs = windowMs, rf_lastNow = 0\<rparr>]\<rparr>
      else s\<lparr>rate_configs := update_rows (\<lambda>c. rate_key c = (key, who))
        (\<lambda>c. c\<lparr>rf_maxUnits := maximumUnits, rf_windowMs := windowMs\<rparr>) (rate_configs s)\<rparr>)"

definition configure_rate :: "limit_scope \<Rightarrow> string \<Rightarrow> int \<Rightarrow> int \<Rightarrow> unit net_txn" where
  "configure_rate scope who maximumUnits windowMs =
     bindE (scopeE scope) (\<lambda>key.
     bindE (accountingE who) (\<lambda>_.
     bindE (integerE 1 maximumUnits) (\<lambda>_.
     bindE (integerE 1 windowMs) (\<lambda>_.
     net_transaction (
       bindE (charge 1 0) (\<lambda>_. modE (upsert_rate key who maximumUnits windowMs)))))))"

definition record_charge :: "string \<Rightarrow> string \<Rightarrow> string \<Rightarrow> int \<Rightarrow> int \<Rightarrow> net_store \<Rightarrow> net_store" where
  "record_charge key who i now units s =
     s\<lparr>rate_charges := rate_charges s @ [\<lparr>rg_scope = key, rg_principal = who, rg_id = i, rg_createdAt = now,
         rg_units = units\<rparr>],
       rate_configs := update_rows (\<lambda>c. rate_key c = (key, who)) (\<lambda>c. c\<lparr>rf_lastNow := now\<rparr>) (rate_configs s)\<rparr>"

definition new_charge :: "string \<Rightarrow> string \<Rightarrow> string \<Rightarrow> int \<Rightarrow> int \<Rightarrow> unit net_txn" where
  "new_charge key who i now units s =
     (case get_rate key who s of
        None \<Rightarrow> Inl NRateLimited
      | Some config \<Rightarrow>
          if now < rf_lastNow config then Inl NClockSkew
          else
            bindE (liftE (rate_used key who now (rf_windowMs config) s)) (\<lambda>used.
            bindE (liftE (check_integer 0 (used + units))) (\<lambda>needed.
            bindE (requireE (needed \<le> rf_maxUnits config) NRateLimited) (\<lambda>_.
            bindE (charge 2 0) (\<lambda>_.
            modE (record_charge key who i now units))))) s)"

definition charge_rate :: "limit_scope \<Rightarrow> string \<Rightarrow> string \<Rightarrow> int \<Rightarrow> int \<Rightarrow> unit net_txn" where
  "charge_rate scope who operationId now units =
     bindE (scopeE scope) (\<lambda>key.
     bindE (accountingE who) (\<lambda>_.
     bindE (accountingE operationId) (\<lambda>_.
     bindE (integerE 0 now) (\<lambda>_.
     bindE (integerE 1 units) (\<lambda>_.
     net_transaction (\<lambda>s.
       case get_charge key who operationId s of
         Some p \<Rightarrow> if rg_units p \<noteq> units then Inl NConflict else Inr ((), s)
       | None \<Rightarrow> new_charge key who operationId now units s))))))"

definition remaining_rate :: "limit_scope \<Rightarrow> string \<Rightarrow> int \<Rightarrow> net_store \<Rightarrow> net_error + int" where
  "remaining_rate scope who now s =
     (case scope_key scope of
        Inl e \<Rightarrow> Inl e
      | Inr key \<Rightarrow>
          if \<not> accounting_id who \<or> \<not> bounded 0 now then Inl NBadRequest
          else case get_rate key who s of
            None \<Rightarrow> Inr 0
          | Some config \<Rightarrow>
              if now < rf_lastNow config then Inl NClockSkew
              else case rate_used key who now (rf_windowMs config) s of
                Inl e \<Rightarrow> Inl e
              | Inr used \<Rightarrow> Inr (max 0 (rf_maxUnits config - used)))"

section \<open>The limits hold\<close>

definition quota_ok :: "string \<Rightarrow> net_store \<Rightarrow> bool" where
  "quota_ok key s \<longleftrightarrow> list_all (\<lambda>r. 0 \<le> qr_units r) (quota_reservations s) \<and>
     distinct (map quota_key (quota_reservations s)) \<and>
     (case get_quota key s of
        None \<Rightarrow> quota_sum key s = 0
      | Some c \<Rightarrow> bounded 0 (qf_units c) \<and> quota_sum key s \<le> qf_units c)"

definition rate_ok :: "string \<Rightarrow> string \<Rightarrow> int \<Rightarrow> int \<Rightarrow> net_store \<Rightarrow> bool" where
  "rate_ok key who maximum window s \<longleftrightarrow>
     (\<exists>c. get_rate key who s = Some c \<and> rf_maxUnits c = maximum \<and> rf_windowMs c = window \<and>
        (\<forall>g \<in> set (rate_charges s). rg_scope g = key \<longrightarrow> rg_principal g = who \<longrightarrow> 0 \<le> rg_units g \<and> rg_createdAt g \<le> rf_lastNow c)) \<and>
     (\<forall>t. window_sum key who t window (rate_charges s) \<le> maximum)"

text \<open>The operations, as one relation; the rate of the observed principal is not configured again.\<close>

inductive limit_step :: "string \<Rightarrow> string \<Rightarrow> net_store \<Rightarrow> net_store \<Rightarrow> bool" for key who where
  ls_configure_quota: "configure_quota scope n s = Inr (u, s') \<Longrightarrow> limit_step key who s s'"
| ls_reserve_quota: "reserve_quota scope i n s = Inr (u, s') \<Longrightarrow> limit_step key who s s'"
| ls_release_quota: "release_quota scope i s = Inr (u, s') \<Longrightarrow> limit_step key who s s'"
| ls_configure_rate: "configure_rate scope p n w s = Inr (u, s') \<Longrightarrow> scope_key scope \<noteq> Inr key \<or> p \<noteq> who \<Longrightarrow>
    limit_step key who s s'"
| ls_charge_rate: "charge_rate scope p i now n s = Inr (u, s') \<Longrightarrow> limit_step key who s s'"

definition limits_ok :: "string \<Rightarrow> string \<Rightarrow> int \<Rightarrow> int \<Rightarrow> net_store \<Rightarrow> bool" where
  "limits_ok key who maximum window s \<longleftrightarrow> quota_ok key s \<and> rate_ok key who maximum window s"

lemma quota_tables:
  assumes "quota_configs s' = quota_configs s" "quota_reservations s' = quota_reservations s"
  shows "quota_ok k s' = quota_ok k s"
proof -
  have "quota_sum k s' = quota_sum k s" "get_quota k s' = get_quota k s" using assms by (simp_all add: quota_sum_def get_quota_def)
  then show ?thesis by (simp add: quota_ok_def assms split: option.split)
qed

lemma rate_tables:
  assumes "rate_configs s' = rate_configs s" "rate_charges s' = rate_charges s"
  shows "rate_ok k p m w s' = rate_ok k p m w s"
  using assms by (simp add: rate_ok_def get_rate_def)

lemma limits_counters: "limits_ok k p m w (s\<lparr>in_transaction := b, txn_rows := r, txn_bytes := y\<rparr>) = limits_ok k p m w s"
  using quota_tables [of "s\<lparr>in_transaction := b, txn_rows := r, txn_bytes := y\<rparr>" s k]
    rate_tables [of "s\<lparr>in_transaction := b, txn_rows := r, txn_bytes := y\<rparr>" s k p m w]
  by (simp add: limits_ok_def)

lemma limits_charge: "charge r y s = Inr (u, s') \<Longrightarrow> limits_ok k p m w s' = limits_ok k p m w s"
  using limits_counters [where s = s and b = "in_transaction s" and r = "txn_rows s + r" and y = "txn_bytes s + y"]
  by (auto dest!: charge_Inr)

lemma charge_limit_tables:
  "charge r y s = Inr (u, s') \<Longrightarrow> quota_configs s' = quota_configs s \<and> quota_reservations s' = quota_reservations s \<and>
     rate_configs s' = rate_configs s \<and> rate_charges s' = rate_charges s"
  by (auto dest!: charge_Inr)

lemma limits_transaction: "keeps (limits_ok k p m w) f \<Longrightarrow> keeps (limits_ok k p m w) (net_transaction f)"
  by (rule keeps_net_transaction [OF _ limits_counters])

text \<open>The writes.\<close>

lemma quota_sum_append:
  "quota_sum key (s\<lparr>quota_reservations := quota_reservations s @ [r]\<rparr>) =
     quota_sum key s + (if qr_scope r = key \<and> \<not> qr_released r then qr_units r else 0)"
  by (simp add: quota_sum_def)

lemma quota_sum_release: "list_all (\<lambda>r. 0 \<le> qr_units r) (quota_reservations s) \<Longrightarrow> quota_sum key (release_rows k i s) \<le> quota_sum key s"
proof -
  have "sum_list (map qr_units (filter (\<lambda>r. qr_scope r = key \<and> \<not> qr_released r)
      (update_rows P (\<lambda>r. r\<lparr>qr_released := True\<rparr>) rs))) \<le>
    sum_list (map qr_units (filter (\<lambda>r. qr_scope r = key \<and> \<not> qr_released r) rs))"
    if "list_all (\<lambda>r. 0 \<le> qr_units r) rs" for P and rs :: "quota_reservation_row list"
    using that by (induction rs) (auto simp: update_rows_def)
  then show "list_all (\<lambda>r. 0 \<le> qr_units r) (quota_reservations s) \<Longrightarrow> quota_sum key (release_rows k i s) \<le> quota_sum key s"
    by (simp add: quota_sum_def release_rows_def)
qed

lemma quota_sum_nonneg: "list_all (\<lambda>r. 0 \<le> qr_units r) (quota_reservations s) \<Longrightarrow> 0 \<le> quota_sum key s"
  unfolding quota_sum_def by (intro sum_list_nonneg) (auto simp: list_all_iff)

lemma get_quota_upsert:
  "get_quota k (upsert_quota key n s) = (if k = key then Some \<lparr>qf_scope = key, qf_units = n\<rparr> else get_quota k s)"
proof (cases "get_quota key s")
  case None
  then show ?thesis by (auto simp: upsert_quota_def get_quota_def lookup_row_append split: option.split)
next
  case (Some c)
  then have "qf_scope c = key" unfolding get_quota_def by (auto dest: lookup_row_Some)
  moreover have "lookup_row qf_scope k (quota_configs s) = Some d \<Longrightarrow> qf_scope d = k" for d by (auto dest: lookup_row_Some)
  ultimately show ?thesis
    using Some by (cases "get_quota k s") (auto simp: upsert_quota_def get_quota_def lookup_row_update)
qed

lemma upsert_quota_other [simp]:
  "quota_reservations (upsert_quota key n s) = quota_reservations s" "quota_sum k (upsert_quota key n s) = quota_sum k s"
  "rate_configs (upsert_quota key n s) = rate_configs s" "rate_charges (upsert_quota key n s) = rate_charges s"
  by (simp_all add: upsert_quota_def quota_sum_def)

lemma configure_quota_keeps: "keeps (limits_ok k p m w) (configure_quota scope n)"
proof
  fix s u s' assume l: "limits_ok k p m w s" and run: "configure_quota scope n s = Inr (u, s')"
  let ?work = "\<lambda>key s. case quota_used key s of
         Inl e \<Rightarrow> Inl e
       | Inr used \<Rightarrow>
           if n < used then Inl NQuotaExceeded
           else bindE (charge 1 0) (\<lambda>_. modE (upsert_quota key n)) s"
  from run obtain key where n: "bounded 0 n" and w: "net_transaction (?work key) s = Inr (u, s')"
    by (auto simp: configure_quota_def scopeE_def bindE_Inr)
  have "keeps (limits_ok k p m w) (?work key)"
  proof (rule keepsI)
    fix s u s' assume l: "limits_ok k p m w s" and run: "?work key s = Inr (u, s')"
    then obtain used v s1 where s1: "quota_used key s = Inr used" "used \<le> n" "charge 1 0 s = Inr (v, s1)" "s' = upsert_quota key n s1"
      by (auto simp: bindE_Inr split: sum.splits if_splits)
    have q: "quota_sum key s1 \<le> n" using s1(1,2) charge_limit_tables [OF s1(3)] by (simp add: quota_used_def quota_sum_def check_integer_def split: if_splits)
    have "limits_ok k p m w s1" using l limits_charge [OF s1(3)] by simp
    then show "limits_ok k p m w s'"
      using n q rate_tables [of "upsert_quota key n s1" s1 k p m w]
      by (cases "k = key"; cases "get_quota k s1") (auto simp: s1(4) limits_ok_def quota_ok_def get_quota_upsert)
  qed
  from keepsD [OF limits_transaction [OF this] w l] show "limits_ok k p m w s'" .
qed

lemma reserve_quota_keeps: "keeps (limits_ok k p m w) (reserve_quota scope i n)"
proof
  fix s u s' assume l: "limits_ok k p m w s" and run: "reserve_quota scope i n s = Inr (u, s')"
  let ?work = "\<lambda>key s. case get_quota_reservation key i s of
         Some p \<Rightarrow> if qr_units p \<noteq> n then Inl NConflict else Inr ((), s)
       | None \<Rightarrow> new_quota_reservation key i n s"
  from run obtain key where n: "bounded 0 n" and w: "net_transaction (?work key) s = Inr (u, s')"
    by (auto simp: reserve_quota_def scopeE_def accountingE_def bindE_Inr)
  have "keeps (limits_ok k p m w) (?work key)"
  proof (rule keepsI)
    fix s u s' assume l: "limits_ok k p m w s" and run: "?work key s = Inr (u, s')"
    show "limits_ok k p m w s'"
    proof (cases "get_quota_reservation key i s")
      case (Some r)
      with run l show ?thesis by (simp split: if_splits)
    next
      case None
      let ?r = "\<lparr>qr_scope = key, qr_id = i, qr_units = n, qr_released = False\<rparr>"
      obtain c v s1 where s1: "get_quota key s = Some c" "quota_sum key s + n \<le> qf_units c" "charge 1 0 s = Inr (v, s1)"
        "s' = s1\<lparr>quota_reservations := quota_reservations s1 @ [?r]\<rparr>"
        using run None by (auto simp: new_quota_reservation_def quota_used_def check_integer_def bindE_Inr split: option.splits if_splits)
      have l1: "limits_ok k p m w s1" using l limits_charge [OF s1(3)] by simp
      have same: "get_quota key s1 = Some c" "quota_sum key s1 = quota_sum key s" "get_quota_reservation key i s1 = None"
        using s1(1) None charge_limit_tables [OF s1(3)] by (simp_all add: get_quota_def quota_sum_def get_quota_reservation_def)
      have fresh: "quota_key ?r \<notin> set (map quota_key (quota_reservations s1))"
        using same(3) by (auto simp: get_quota_reservation_def lookup_row_None quota_key_def)
      have get: "get_quota k s' = get_quota k s1" by (simp add: s1(4) get_quota_def)
      have sum: "quota_sum k s' = quota_sum k s1 + (if k = key then n else 0)"
        unfolding s1(4) quota_sum_append by simp
      have rows: "list_all (\<lambda>r. 0 \<le> qr_units r) (quota_reservations s') \<and> distinct (map quota_key (quota_reservations s'))"
        using l1 fresh n by (simp add: s1(4) limits_ok_def quota_ok_def bounded_def)
      have "quota_ok k s'"
        unfolding quota_ok_def get sum using rows l1 s1(2) same(1,2)
        by (cases "k = key"; cases "get_quota k s1") (auto simp: limits_ok_def quota_ok_def)
      moreover have "rate_ok k p m w s'" using l1 rate_tables [of s' s1 k p m w] by (simp add: s1(4) limits_ok_def)
      ultimately show ?thesis by (simp add: limits_ok_def)
    qed
  qed
  from keepsD [OF limits_transaction [OF this] w l] show "limits_ok k p m w s'" .
qed

lemma release_quota_keeps: "keeps (limits_ok k p m w) (release_quota scope i)"
proof
  fix s u s' assume l: "limits_ok k p m w s" and run: "release_quota scope i s = Inr (u, s')"
  let ?work = "\<lambda>key s. case get_quota_reservation key i s of
         None \<Rightarrow> Inl NBadRequest
       | Some r \<Rightarrow> if qr_released r then Inr ((), s) else bindE (charge 1 0) (\<lambda>_. modE (release_rows key i)) s"
  from run obtain key where w: "net_transaction (?work key) s = Inr (u, s')"
    by (auto simp: release_quota_def scopeE_def accountingE_def bindE_Inr)
  have "keeps (limits_ok k p m w) (?work key)"
  proof (rule keepsI)
    fix s u s' assume l: "limits_ok k p m w s" and run: "?work key s = Inr (u, s')"
    then consider "s' = s" | v s1 where "charge 1 0 s = Inr (v, s1)" "s' = release_rows key i s1"
      by (auto simp: bindE_Inr split: option.splits if_splits)
    then show "limits_ok k p m w s'"
    proof cases
      case 1
      with l show ?thesis by simp
    next
      case 2
      have l1: "limits_ok k p m w s1" using l limits_charge [OF 2(1)] by simp
      then have u: "list_all (\<lambda>r. 0 \<le> qr_units r) (quota_reservations s1)" by (simp add: limits_ok_def quota_ok_def)
      have r: "list_all (\<lambda>r. 0 \<le> qr_units r) (quota_reservations s')" "map quota_key (quota_reservations s') = map quota_key (quota_reservations s1)"
        "get_quota k s' = get_quota k s1" "rate_configs s' = rate_configs s1" "rate_charges s' = rate_charges s1"
        using u by (auto simp: 2(2) release_rows_def list_all_iff set_update_rows get_quota_def quota_key_def)
      have "quota_ok k s'"
        using l1 r(1-3) quota_sum_release [OF u, of k key i] quota_sum_nonneg [OF r(1), of k]
        by (auto simp: limits_ok_def quota_ok_def 2(2) split: option.splits)
      moreover have "rate_ok k p m w s'" using l1 rate_tables [OF r(4,5)] by (simp add: limits_ok_def)
      ultimately show ?thesis by (simp add: limits_ok_def)
    qed
  qed
  from keepsD [OF limits_transaction [OF this] w l] show "limits_ok k p m w s'" .
qed

lemma get_rate_upsert:
  "(k, p) \<noteq> (key, who) \<Longrightarrow> get_rate k p (upsert_rate key who n w s) = get_rate k p s"
proof (cases "get_rate key who s")
  case None
  then show "(k, p) \<noteq> (key, who) \<Longrightarrow> ?thesis"
    by (auto simp: upsert_rate_def get_rate_def lookup_row_append rate_key_def split: option.split)
next
  case (Some c)
  have "lookup_row rate_key (k, p) (rate_configs s) = Some d \<Longrightarrow> rate_key d = (k, p)" for d by (auto dest: lookup_row_Some)
  then show "(k, p) \<noteq> (key, who) \<Longrightarrow> ?thesis"
    using Some by (cases "get_rate k p s") (auto simp: upsert_rate_def get_rate_def lookup_row_update rate_key_def)
qed

lemma configure_rate_keeps:
  assumes "scope_key scope \<noteq> Inr k \<or> who \<noteq> p"
  shows "keeps (limits_ok k p m w) (configure_rate scope who n v)"
proof
  fix s u s' assume l: "limits_ok k p m w s" and run: "configure_rate scope who n v s = Inr (u, s')"
  let ?work = "\<lambda>key. bindE (charge 1 0) (\<lambda>_. modE (upsert_rate key who n v))"
  from run obtain key where key: "scope_key scope = Inr key" and t: "net_transaction (?work key) s = Inr (u, s')"
    unfolding configure_rate_def scopeE_def accountingE_def bindE_Inr requireE_Inr liftE_Inr integerE_Inr by blast
  have "keeps (limits_ok k p m w) (?work key)"
  proof (rule keepsI)
    fix s u s' assume l: "limits_ok k p m w s" and run: "?work key s = Inr (u, s')"
    then obtain z s1 where s1: "charge 1 0 s = Inr (z, s1)" "s' = upsert_rate key who n v s1" by (auto simp: bindE_Inr)
    have l1: "limits_ok k p m w s1" using l limits_charge [OF s1(1)] by simp
    have "get_rate k p s' = get_rate k p s1" unfolding s1(2) using assms key by (intro get_rate_upsert) auto
    moreover have "rate_charges s' = rate_charges s1" "quota_configs s' = quota_configs s1"
      "quota_reservations s' = quota_reservations s1" by (simp_all add: s1(2) upsert_rate_def)
    ultimately show "limits_ok k p m w s'" using l1 quota_tables [of s' s1 k] by (simp add: limits_ok_def rate_ok_def)
  qed
  from keepsD [OF limits_transaction [OF this] t l] show "limits_ok k p m w s'" .
qed

lemma window_sum_append:
  "window_sum k p t w (gs @ [g]) = window_sum k p t w gs + (if in_window k p t w g then rg_units g else 0)"
  by (simp add: window_sum_def)

lemma window_sum_later:
  assumes "\<forall>g \<in> set gs. rg_scope g = k \<longrightarrow> rg_principal g = p \<longrightarrow> 0 \<le> rg_units g \<and> rg_createdAt g \<le> now" "now \<le> t"
  shows "window_sum k p t w gs \<le> window_sum k p now w gs"
  using assms(1)
proof (induction gs)
  case (Cons g gs)
  have "in_window k p t w g \<Longrightarrow> in_window k p now w g"
    using Cons.prems assms(2) by (auto simp: in_window_def)
  moreover have "in_window k p now w g \<Longrightarrow> 0 \<le> rg_units g" using Cons.prems by (simp add: in_window_def)
  ultimately show ?case using Cons by (auto simp: window_sum_def)
qed (simp add: window_sum_def)

lemma record_charge_rate:
  assumes ok: "rate_ok k p m w s" and c: "get_rate key who s = Some c" and now: "rf_lastNow c \<le> now"
    and n: "1 \<le> n" and le: "window_sum key who now (rf_windowMs c) (rate_charges s) + n \<le> rf_maxUnits c"
  shows "rate_ok k p m w (record_charge key who i now n s)"
proof (cases "(key, who) = (k, p)")
  case False
  let ?s = "record_charge key who i now n s"
  have "lookup_row rate_key (k, p) (rate_configs s) = Some d \<Longrightarrow> rate_key d = (k, p)" for d by (auto dest: lookup_row_Some)
  then have "get_rate k p ?s = get_rate k p s"
    using False by (cases "get_rate k p s") (auto simp: record_charge_def get_rate_def lookup_row_update rate_key_def)
  moreover have "window_sum k p t w (rate_charges ?s) = window_sum k p t w (rate_charges s)" for t
    using False by (auto simp: record_charge_def window_sum_append in_window_def)
  ultimately show ?thesis using ok False by (auto simp: rate_ok_def record_charge_def)
next
  case True
  let ?s = "record_charge key who i now n s"
  have kw: "key = k" "who = p" using True by simp_all
  obtain d where d: "get_rate k p s = Some d" "rf_maxUnits d = m" "rf_windowMs d = w"
    "\<forall>g \<in> set (rate_charges s). rg_scope g = k \<longrightarrow> rg_principal g = p \<longrightarrow> 0 \<le> rg_units g \<and> rg_createdAt g \<le> rf_lastNow d"
    and sums: "\<And>t. window_sum k p t w (rate_charges s) \<le> m"
    using ok by (auto simp: rate_ok_def)
  have cd: "c = d" using c d(1) kw by simp
  have rk: "rate_key d = (k, p)" using d(1) by (auto simp: get_rate_def dest: lookup_row_Some)
  have "get_rate k p ?s = Some (d\<lparr>rf_lastNow := now\<rparr>)"
    using d(1) rk kw by (simp add: record_charge_def get_rate_def lookup_row_update rate_key_def)
  moreover have "\<forall>g \<in> set (rate_charges ?s). rg_scope g = k \<longrightarrow> rg_principal g = p \<longrightarrow> 0 \<le> rg_units g \<and> rg_createdAt g \<le> now"
    using d(4) now n cd by (force simp: record_charge_def)
  moreover have "window_sum k p t w (rate_charges ?s) \<le> m" for t
  proof (cases "now \<le> t")
    case True
    have old: "\<forall>g \<in> set (rate_charges s). rg_scope g = k \<longrightarrow> rg_principal g = p \<longrightarrow> 0 \<le> rg_units g \<and> rg_createdAt g \<le> now"
      using d(4) now cd by fastforce
    show ?thesis
      using window_sum_later [OF old True, of w] le n cd d(2,3) kw by (auto simp: record_charge_def window_sum_append)
  next
    case False
    then show ?thesis using sums [of t] by (simp add: record_charge_def window_sum_append in_window_def)
  qed
  ultimately show ?thesis using d(2,3) by (simp add: rate_ok_def)
qed

lemma charge_rate_keeps: "keeps (limits_ok k p m w) (charge_rate scope who i now n)"
proof
  fix s u s' assume l: "limits_ok k p m w s" and run: "charge_rate scope who i now n s = Inr (u, s')"
  let ?work = "\<lambda>key s. case get_charge key who i s of
         Some p \<Rightarrow> if rg_units p \<noteq> n then Inl NConflict else Inr ((), s)
       | None \<Rightarrow> new_charge key who i now n s"
  from run obtain key where n: "bounded 1 n" and t: "net_transaction (?work key) s = Inr (u, s')"
    unfolding charge_rate_def scopeE_def accountingE_def bindE_Inr requireE_Inr liftE_Inr integerE_Inr by blast
  have "keeps (limits_ok k p m w) (?work key)"
  proof (rule keepsI)
    fix s u s' assume l: "limits_ok k p m w s" and run: "?work key s = Inr (u, s')"
    show "limits_ok k p m w s'"
    proof (cases "get_charge key who i s")
      case (Some g)
      with run l show ?thesis by (simp split: if_splits)
    next
      case None
      with run obtain c z s1 where s1: "get_rate key who s = Some c" "rf_lastNow c \<le> now"
        "window_sum key who now (rf_windowMs c) (rate_charges s) + n \<le> rf_maxUnits c" "charge 2 0 s = Inr (z, s1)"
        "s' = record_charge key who i now n s1"
        by (auto simp: new_charge_def rate_used_def check_integer_def bindE_Inr split: option.splits if_splits)
      note same = charge_limit_tables [OF s1(4)]
      have l1: "limits_ok k p m w s1" using l limits_charge [OF s1(4)] by simp
      have "rate_ok k p m w s'"
        unfolding s1(5) using l1 s1(1-3) n same
        by (intro record_charge_rate [where c = c]) (simp_all add: limits_ok_def get_rate_def bounded_def)
      moreover have "quota_ok k s'" using l1 quota_tables [of s' s1 k] by (simp add: s1(5) limits_ok_def record_charge_def)
      ultimately show ?thesis by (simp add: limits_ok_def)
    qed
  qed
  from keepsD [OF limits_transaction [OF this] t l] show "limits_ok k p m w s'" .
qed

lemma limit_step_keeps: "limit_step k p s s' \<Longrightarrow> limits_ok k p m w s \<Longrightarrow> limits_ok k p m w s'"
  by (induction rule: limit_step.induct)
    (blast intro: keepsD [OF configure_quota_keeps] keepsD [OF reserve_quota_keeps] keepsD [OF release_quota_keeps]
      keepsD [OF configure_rate_keeps] keepsD [OF charge_rate_keeps])+

section \<open>Properties\<close>

text \<open>C22: the limits hold whatever is done under them: after any sequence of quota and rate operations a scope has
  reserved at most its configured quota (nothing when it has none), and at no instant do the charges of the
  last window exceed the rate of a principal, as long as that rate is not configured again.\<close>

theorem limits_hold:
  assumes "(limit_step key who)\<^sup>*\<^sup>* s s'" "quota_ok key s" "rate_ok key who maximum window s"
  shows "(case get_quota key s' of None \<Rightarrow> quota_sum key s' = 0 | Some c \<Rightarrow> quota_sum key s' \<le> qf_units c) \<and>
     window_sum key who t window (rate_charges s') \<le> maximum"
proof -
  have "limits_ok key who maximum window s'"
    using assms(1)
  proof (induction rule: rtranclp_induct)
    case base
    then show ?case using assms(2,3) by (simp add: limits_ok_def)
  next
    case (step s1 s2)
    then show ?case using limit_step_keeps by blast
  qed
  then show ?thesis by (auto simp: limits_ok_def quota_ok_def rate_ok_def split: option.splits)
qed

definition example_scope :: limit_scope where
  "example_scope = ProfileScope ''p''"

definition example_scope_key :: string where
  "example_scope_key = (case scope_key example_scope of Inl _ \<Rightarrow> [] | Inr k \<Rightarrow> k)"

definition example_limits :: net_store where
  "example_limits = (empty_net_store 0 (\<lambda>n. n))\<lparr>rate_configs := [\<lparr>rf_scope = example_scope_key, rf_principal = ''u'',
     rf_maxUnits = 5, rf_windowMs = 1000, rf_lastNow = 0\<rparr>]\<rparr>"

definition example_charge :: "string \<Rightarrow> int \<Rightarrow> int \<Rightarrow> unit net_txn" where
  "example_charge i now n = charge_rate example_scope ''u'' i now n"

definition after :: "unit net_txn \<Rightarrow> net_store \<Rightarrow> net_store" where
  "after m s = (case m s of Inl _ \<Rightarrow> s | Inr (_, s') \<Rightarrow> s')"

lemma example_charges:
  "\<not> isl (example_charge ''a'' 100 3 example_limits)"
  "\<not> isl (example_charge ''b'' 200 2 (after (example_charge ''a'' 100 3) example_limits))"
  "quota_ok example_scope_key example_limits" "scope_key example_scope = Inr example_scope_key"
  "window_sum example_scope_key ''u'' 200 1000 (rate_charges (after (example_charge ''b'' 200 2) (after (example_charge ''a'' 100 3) example_limits))) = 5"
  by code_simp+

lemma example_limits_ok: "rate_ok example_scope_key ''u'' 5 1000 example_limits"
  by (auto simp: rate_ok_def example_limits_def get_rate_def lookup_row_def rate_key_def empty_net_store_def window_sum_def)

theorem limits_hold_witness:
  "\<exists>s'. (limit_step example_scope_key ''u'')\<^sup>*\<^sup>* example_limits s' \<and>
     window_sum example_scope_key ''u'' 200 1000 (rate_charges s') = 5 \<and>
     window_sum example_scope_key ''u'' 1100 1000 (rate_charges s') \<le> 5"
proof -
  let ?s1 = "after (example_charge ''a'' 100 3) example_limits"
  let ?s2 = "after (example_charge ''b'' 200 2) ?s1"
  have "example_charge ''a'' 100 3 example_limits = Inr ((), ?s1)"
    using succeeds [OF example_charges(1)] by (auto simp: after_def)
  moreover have "example_charge ''b'' 200 2 ?s1 = Inr ((), ?s2)"
    using succeeds [OF example_charges(2)] by (auto simp: after_def)
  ultimately have run: "(limit_step example_scope_key ''u'')\<^sup>*\<^sup>* example_limits ?s2"
    unfolding example_charge_def by (meson ls_charge_rate converse_rtranclp_into_rtranclp r_into_rtranclp)
  from limits_hold [OF run example_charges(3) example_limits_ok, of 1100] run example_charges(5) show ?thesis by blast
qed

lemma rate_used_exact:
  assumes ok: "rate_ok key who maximum window s" and m: "bounded 1 maximum"
  shows "rate_used key who t window s = Inr (window_sum key who t window (rate_charges s))"
    "0 \<le> window_sum key who t window (rate_charges s)" "window_sum key who t window (rate_charges s) \<le> maximum"
proof -
  show le: "window_sum key who t window (rate_charges s) \<le> maximum" using ok by (simp add: rate_ok_def)
  have "0 \<le> window_sum key who t window gs" if "set gs \<subseteq> set (rate_charges s)" for gs
    unfolding window_sum_def using ok that by (intro sum_list_nonneg) (auto simp: rate_ok_def in_window_def)
  then show ge: "0 \<le> window_sum key who t window (rate_charges s)" by simp
  show "rate_used key who t window s = Inr (window_sum key who t window (rate_charges s))"
    using le ge m by (simp add: rate_used_def check_integer_def bounded_def max_safe_def)
qed

text \<open>what a charge answers: the same operation again changes nothing when its units are the same and is a
  conflict otherwise; a clock before the last charge is reported as skew by the charge and by the remaining
  units alike; else the charge succeeds exactly when its units are within what remains of the window, and
  then that much less remains.\<close>

theorem rate_charge_answers:
  assumes "rate_ok key who maximum window s" "bounded 1 maximum" "scope_key scope = Inr key" "\<not> in_transaction s"
    and "accounting_id who" "accounting_id i" "bounded 0 now" "bounded 1 n" "1 \<le> window" "get_rate key who s = Some c"
  shows "case get_charge key who i s of
       Some g \<Rightarrow> if rg_units g = n then \<exists>s'. charge_rate scope who i now n s = Inr ((), s') \<and> rate_charges s' = rate_charges s
         else charge_rate scope who i now n s = Inl NConflict
     | None \<Rightarrow>
         if now < rf_lastNow c
         then charge_rate scope who i now n s = Inl NClockSkew \<and> remaining_rate scope who now s = Inl NClockSkew
         else \<exists>left. remaining_rate scope who now s = Inr left \<and> 0 \<le> left \<and>
           (if n \<le> left
            then \<exists>s'. charge_rate scope who i now n s = Inr ((), s') \<and> remaining_rate scope who now s' = Inr (left - n)
            else \<exists>e. charge_rate scope who i now n s = Inl e)"
proof -
  let ?t = "s\<lparr>in_transaction := True, txn_rows := 0, txn_bytes := 0\<rparr>"
  have c: "rf_maxUnits c = maximum" "rf_windowMs c = window" using assms(1,10) by (auto simp: rate_ok_def)
  have run: "charge_rate scope who i now n s =
    (case (case get_charge key who i ?t of Some p \<Rightarrow> if rg_units p \<noteq> n then Inl NConflict else Inr ((), ?t)
           | None \<Rightarrow> new_charge key who i now n ?t) of
       Inl e \<Rightarrow> Inl e | Inr (y, s') \<Rightarrow> Inr (y, s'\<lparr>in_transaction := False\<rparr>))"
    using assms(3-8)
    by (simp add: charge_rate_def scopeE_def accountingE_def integerE_def requireE_def liftE_def retE_def bindE_def net_transaction_def)
  have get: "get_charge key who i ?t = get_charge key who i s" by (simp add: get_charge_def)
  show ?thesis
  proof (cases "get_charge key who i s")
    case (Some g)
    with run get show ?thesis by simp
  next
    case None
    note u = rate_used_exact [OF assms(1,2)]
    let ?used = "window_sum key who now window (rate_charges s)"
    have gt: "get_rate key who ?t = Some c" using assms(10) by (simp add: get_rate_def)
    have ut: "rate_used key who now window ?t = Inr ?used" using u(1) by (simp add: rate_used_def)
    have rem: "\<not> now < rf_lastNow c \<Longrightarrow> remaining_rate scope who now s = Inr (maximum - ?used)"
      using assms(3,5,7,10) c u(1,3) [of now] by (simp add: remaining_rate_def)
    show ?thesis
    proof (cases "now < rf_lastNow c")
      case True
      with None run get gt assms(3,5,7,10) show ?thesis by (simp add: new_charge_def remaining_rate_def)
    next
      case False
      have fit: "check_integer 0 (?used + n) = Inr (?used + n)" if "?used + n \<le> maximum"
        using that u(2) [of now] assms(2,8) by (simp add: check_integer_def bounded_def max_safe_def)
      show ?thesis
      proof (cases "n \<le> maximum - ?used")
        case True
        let ?s = "(record_charge key who i now n (s\<lparr>in_transaction := True, txn_bytes := 0, txn_rows := Suc (Suc 0)\<rparr>))\<lparr>in_transaction := False\<rparr>"
        have r: "charge_rate scope who i now n s = Inr ((), ?s)"
          using None run get gt False True fit c ut
          by (simp add: new_charge_def bindE_def liftE_def requireE_def retE_def modE_def charge_def Let_def
              STORE_TXN_MAX_ROWS_def STORE_TXN_MAX_BYTES_def)
        have "rate_ok key who maximum window (record_charge key who i now n s)"
          by (rule record_charge_rate [OF assms(1,10)]) (use False True assms(8) c in \<open>simp_all add: bounded_def\<close>)
        then have ok: "rate_ok key who maximum window ?s"
          using rate_tables [of ?s "record_charge key who i now n s" key who maximum window] by (simp add: record_charge_def)
        have rk: "rate_key c = (key, who)" using assms(10) by (auto simp: get_rate_def dest: lookup_row_Some)
        have g: "get_rate key who ?s = Some (c\<lparr>rf_lastNow := now\<rparr>)"
          using assms(10) rk by (simp add: record_charge_def get_rate_def lookup_row_update rate_key_def)
        have "window_sum key who now window (rate_charges ?s) = ?used + n"
          using assms(9) by (simp add: record_charge_def window_sum_append in_window_def)
        then have "remaining_rate scope who now ?s = Inr (maximum - ?used - n)"
          using assms(3,5,7) g c rate_used_exact [OF ok assms(2), of now] by (simp add: remaining_rate_def)
        with None False True rem r u(3) [of now] show ?thesis by auto
      next
        case ov: False
        have "check_integer 0 (?used + n) = Inr m \<Longrightarrow> maximum < m" for m
          using ov by (auto simp: check_integer_def split: if_splits)
        then have "new_charge key who i now n ?t \<noteq> Inr r" for r
          using gt False c ut by (cases r) (auto simp: new_charge_def bindE_Inr)
        then obtain e where "new_charge key who i now n ?t = Inl e" by (metis sum.exhaust)
        with None False ov rem run get u(3) [of now] show ?thesis by auto
      qed
    qed
  qed
qed

theorem rate_charge_answers_witness:
  "(\<exists>s'. charge_rate example_scope ''u'' ''a'' 100 5 example_limits = Inr ((), s') \<and> remaining_rate example_scope ''u'' 100 s' = Inr 0) \<and>
   (\<exists>e. charge_rate example_scope ''u'' ''a'' 100 6 example_limits = Inl e)"
proof -
  let ?c = "\<lparr>rf_scope = example_scope_key, rf_principal = ''u'', rf_maxUnits = 5, rf_windowMs = 1000, rf_lastNow = 0\<rparr>"
  have f: "bounded 1 5" "\<not> in_transaction example_limits" "accounting_id ''u''" "accounting_id ''a''" "bounded 0 100"
    "bounded 1 6" "1 \<le> (1000 :: int)" "get_rate example_scope_key ''u'' example_limits = Some ?c"
    "get_charge example_scope_key ''u'' ''a'' example_limits = None" "remaining_rate example_scope ''u'' 100 example_limits = Inr 5"
    by code_simp+
  from rate_charge_answers [OF example_limits_ok f(1) example_charges(4) f(2-5) f(1) f(7,8)]
    rate_charge_answers [OF example_limits_ok f(1) example_charges(4) f(2-5) f(6) f(7,8)] f(9,10)
  show ?thesis by simp
qed

end
