(* ===== verification/ApprovalMoves.thy ===== *)
theory ApprovalMoves
  imports ApprovalDelivery OutboxSteps
begin

text \<open>
  What the operations of \<open>ThreadApprovals\<close> do to the tables of requests and rules. Every operation is a
  sequence of \<open>approval_move\<close>s: one row updated within what its status still allows, one fresh request,
  one rule granted on the answer that asks for it, or rules revoked. Invariants are shown once per move.
\<close>

section \<open>How a request may change\<close>

definition same_subject :: "approval_row \<Rightarrow> approval_row \<Rightarrow> bool" where
  "same_subject a b \<longleftrightarrow> ap_requestId b = ap_requestId a \<and> ap_threadId b = ap_threadId a \<and> ap_runId b = ap_runId a \<and>
     ap_action b = ap_action a \<and> ap_permissionKey b = ap_permissionKey a \<and> ap_fingerprint b = ap_fingerprint a \<and>
     ap_questions b = ap_questions a \<and> ap_reason b = ap_reason a \<and> ap_permissionMode b = ap_permissionMode a \<and>
     ap_createdAt b = ap_createdAt a"

definition same_answer :: "approval_row \<Rightarrow> approval_row \<Rightarrow> bool" where
  "same_answer a b \<longleftrightarrow> ap_status b = ap_status a \<and> ap_answers b = ap_answers a \<and> ap_decision b = ap_decision a \<and>
     ap_decisionScope b = ap_decisionScope a \<and> ap_feedback b = ap_feedback a \<and> ap_answeredBy b = ap_answeredBy a \<and>
     ap_cancelReason b = ap_cancelReason a \<and> ap_settledAt b = ap_settledAt a"

text \<open>Settled once, delivered once, granted to one run, consumed once.\<close>

definition later :: "approval_row \<Rightarrow> approval_row \<Rightarrow> bool" where
  "later a b \<longleftrightarrow> same_subject a b \<and> (ap_status a = PPending \<or> same_answer a b) \<and>
     (ap_deliveredAt a = None \<or>
      ap_deliveredAt b = ap_deliveredAt a \<and> ap_continuationRunId b = ap_continuationRunId a) \<and>
     (ap_grantConsumedAt a = None \<or> ap_grantConsumedAt b = ap_grantConsumedAt a)"

lemma later_refl [simp]: "later a a"
  by (simp add: later_def same_subject_def same_answer_def)

lemma later_trans [trans]: "later a b \<Longrightarrow> later b c \<Longrightarrow> later a c"
  by (auto simp: later_def same_subject_def same_answer_def)

lemma later_fixed:
  assumes "later a b"
  shows "ap_requestId b = ap_requestId a" "ap_threadId b = ap_threadId a" "ap_fingerprint b = ap_fingerprint a"
    "ap_permissionMode b = ap_permissionMode a" "ap_questions b = ap_questions a" "ap_permissionKey b = ap_permissionKey a"
    "ap_runId b = ap_runId a" "ap_action b = ap_action a" "ap_reason b = ap_reason a" "ap_createdAt b = ap_createdAt a"
  using assms by (simp_all add: later_def same_subject_def)

section \<open>A well-formed request\<close>

text \<open>Who may have given a standing "always": a person, and through a bridge only from a named computer.\<close>

fun standing_answerer :: "answered_by option \<Rightarrow> bool" where
  "standing_answerer (Some (AnsweredUser via node)) = (via = Some ViaBridge \<longrightarrow> node \<noteq> None)"
| "standing_answerer _ = False"

definition request_ok :: "approval_row \<Rightarrow> bool" where
  "request_ok a \<longleftrightarrow>
     (ap_status a = PAnswered \<longleftrightarrow> ap_decision a \<noteq> None) \<and>
     (ap_status a = PAnswered \<longleftrightarrow> ap_answeredBy a \<noteq> None) \<and>
     (ap_status a = PCancelled \<longleftrightarrow> ap_cancelReason a \<noteq> None) \<and>
     (ap_deliveredAt a \<noteq> None \<longrightarrow> ap_status a = PAnswered) \<and>
     (ap_continuationRunId a \<noteq> None \<longrightarrow> ap_deliveredAt a \<noteq> None) \<and>
     (ap_grantConsumedAt a \<noteq> None \<longrightarrow> ap_decision a = Some DAllow) \<and>
     (ap_decision a = Some DAllow \<and> ap_decisionScope a = Some ScopeAlways \<longrightarrow> standing_answerer (ap_answeredBy a))"

section \<open>The moves\<close>

text \<open>The request a rule was granted on: answered "allow, always" by a person, under the rule's mode or a looser one.\<close>

definition evidence :: "approval_rule \<Rightarrow> approval_row \<Rightarrow> bool" where
  "evidence r a \<longleftrightarrow> ru_sourceRequestId r = Some (ap_requestId a) \<and> ap_threadId a = ru_threadId r \<and>
     ap_fingerprint a = Some (ru_fingerprint r) \<and> ap_status a = PAnswered \<and> ap_decision a = Some DAllow \<and>
     ap_decisionScope a = Some ScopeAlways \<and> standing_answerer (ap_answeredBy a) \<and>
     (\<exists>m. ap_permissionMode a = Some m \<and> ru_grantedUnder r \<le> m)"

inductive approval_move :: "store \<Rightarrow> store \<Rightarrow> bool" where
  quiet: "approvals s' = approvals s \<Longrightarrow> approval_rules s' = approval_rules s \<Longrightarrow> approval_move s s'"
| updated: "(\<And>a. a \<in> set (approvals s) \<Longrightarrow> cond a \<Longrightarrow> later a (f a)) \<Longrightarrow>
    (\<And>a. a \<in> set (approvals s) \<Longrightarrow> cond a \<Longrightarrow> request_ok a \<Longrightarrow> request_ok (f a)) \<Longrightarrow>
    approvals s' = update_rows cond f (approvals s) \<Longrightarrow> approval_rules s' = approval_rules s \<Longrightarrow> approval_move s s'"
| asked: "get_approval (ap_requestId a) s = None \<Longrightarrow> ap_status a = PPending \<Longrightarrow> request_ok a \<Longrightarrow>
    approvals s' = approvals s @ [a] \<Longrightarrow> approval_rules s' = approval_rules s \<Longrightarrow> approval_move s s'"
| granted: "a \<in> set (approvals s) \<Longrightarrow> evidence rule a \<Longrightarrow> ru_fingerprint rule \<noteq> [] \<Longrightarrow>
    approvals s' = approvals s \<Longrightarrow> approval_rules s' = approval_rules (put_rule rule s) \<Longrightarrow> approval_move s s'"
| revoked: "approvals s' = approvals s \<Longrightarrow> approval_rules s' = filter keep (approval_rules s) \<Longrightarrow> approval_move s s'"

abbreviation approval_moves :: "store \<Rightarrow> store \<Rightarrow> bool" where
  "approval_moves \<equiv> approval_move\<^sup>*\<^sup>*"

interpretation moving: preorder_relation approval_moves
  by unfold_locales (blast intro: rtranclp_trans)+

lemma move_one [intro]: "approval_move s s' \<Longrightarrow> approval_moves s s'"
  by blast

section \<open>Invariants of the moves\<close>

definition rules_ok :: "store \<Rightarrow> bool" where
  "rules_ok s \<longleftrightarrow> distinct (map (\<lambda>r. (ru_threadId r, ru_fingerprint r)) (approval_rules s)) \<and>
     (\<forall>r \<in> set (approval_rules s). ru_fingerprint r \<noteq> [] \<and> (\<exists>a \<in> set (approvals s). evidence r a))"

definition approvals_ok :: "store \<Rightarrow> bool" where
  "approvals_ok s \<longleftrightarrow> distinct (map ap_requestId (approvals s)) \<and> (\<forall>a \<in> set (approvals s). request_ok a) \<and> rules_ok s"

text \<open>Every request of \<open>s\<close> is still there, later or the same.\<close>

definition requests_later :: "store \<Rightarrow> store \<Rightarrow> bool" where
  "requests_later s s' \<longleftrightarrow> (\<forall>a \<in> set (approvals s). \<exists>b \<in> set (approvals s'). later a b)"

lemma requests_later_refl: "requests_later s s"
  unfolding requests_later_def by (blast intro: later_refl)

lemma requests_later_trans: "requests_later s s' \<Longrightarrow> requests_later s' s'' \<Longrightarrow> requests_later s s''"
  unfolding requests_later_def by (meson later_trans)

lemma evidence_later: "evidence r a \<Longrightarrow> later a b \<Longrightarrow> evidence r b"
  by (auto simp: evidence_def later_def same_subject_def same_answer_def)

lemma move_later: "approval_move s s' \<Longrightarrow> requests_later s s'"
proof (induction rule: approval_move.induct)
  case (updated s cond f s')
  show ?case
    unfolding requests_later_def
  proof
    fix a assume a: "a \<in> set (approvals s)"
    show "\<exists>b \<in> set (approvals s'). later a b"
    proof (cases "cond a")
      case True
      then show ?thesis using updated a by (auto simp: set_update_rows)
    next
      case False
      then have "a \<in> set (approvals s')" using updated a by (force simp: set_update_rows)
      then show ?thesis by (blast intro: later_refl)
    qed
  qed
qed (unfold requests_later_def, (auto intro!: bexI later_refl)+)

lemma put_rule_approvals [simp]: "approvals (put_rule r s) = approvals s"
  by (simp add: put_rule_def)

lemma put_rule_rules:
  assumes "distinct (map (\<lambda>r. (ru_threadId r, ru_fingerprint r)) (approval_rules s))"
  shows "distinct (map (\<lambda>r. (ru_threadId r, ru_fingerprint r)) (approval_rules (put_rule rule s)))"
    "r \<in> set (approval_rules (put_rule rule s)) \<Longrightarrow>
      r \<in> set (approval_rules s) \<or> ru_threadId r = ru_threadId rule \<and> ru_fingerprint r = ru_fingerprint rule \<and>
        ru_sourceRequestId r = ru_sourceRequestId rule \<and> ru_grantedUnder r = ru_grantedUnder rule"
proof -
  let ?k = "\<lambda>r. (ru_threadId r, ru_fingerprint r)"
  have "map ?k (update_rows P (\<lambda>r. r\<lparr>ru_grantedUnder := g, ru_summary := m, ru_sourceRequestId := q\<rparr>) rs) = map ?k rs"
    for P g m q rs by simp
  with assms show "distinct (map ?k (approval_rules (put_rule rule s)))"
    by (auto simp: put_rule_def find_rule_def find_None_iff)
  show "r \<in> set (approval_rules s) \<or> ru_threadId r = ru_threadId rule \<and> ru_fingerprint r = ru_fingerprint rule \<and>
        ru_sourceRequestId r = ru_sourceRequestId rule \<and> ru_grantedUnder r = ru_grantedUnder rule"
    if "r \<in> set (approval_rules (put_rule rule s))"
    using that by (auto simp: put_rule_def set_update_rows split: if_splits)
qed

lemma rules_ok_later:
  assumes "rules_ok s" "requests_later s s'" "approval_rules s' = approval_rules s"
  shows "rules_ok s'"
  using assms unfolding rules_ok_def requests_later_def by (metis evidence_later)

lemma move_ok: "approval_move s s' \<Longrightarrow> approvals_ok s \<Longrightarrow> approvals_ok s'"
proof (induction rule: approval_move.induct)
  case (quiet s' s)
  then show ?case by (simp add: approvals_ok_def rules_ok_def)
next
  case (updated s cond f s')
  have key: "ap_requestId (f a) = ap_requestId a" if "a \<in> set (approvals s)" "cond a" for a
    using updated(1) [OF that] by (simp add: later_def same_subject_def)
  have "map ap_requestId (approvals s') = map ap_requestId (approvals s)"
    using key by (simp add: updated.hyps update_rows_def)
  moreover have "requests_later s s'" by (rule move_later) (rule approval_move.updated, fact+)
  ultimately show ?case
    using updated by (auto simp: approvals_ok_def set_update_rows intro: rules_ok_later)
next
  case (asked a s s')
  have "requests_later s s'" using asked unfolding requests_later_def by (auto intro!: bexI later_refl)
  with asked show ?case
    by (auto simp: approvals_ok_def get_approval_def lookup_row_None intro: rules_ok_later)
next
  case (granted a s rule s')
  from granted have d: "distinct (map (\<lambda>r. (ru_threadId r, ru_fingerprint r)) (approval_rules s))"
    and old: "\<And>r. r \<in> set (approval_rules s) \<Longrightarrow> ru_fingerprint r \<noteq> [] \<and> (\<exists>a \<in> set (approvals s). evidence r a)"
    by (auto simp: approvals_ok_def rules_ok_def)
  have "ru_fingerprint r \<noteq> [] \<and> (\<exists>a \<in> set (approvals s). evidence r a)" if "r \<in> set (approval_rules (put_rule rule s))" for r
    using put_rule_rules(2) [OF d that]
  proof
    assume "ru_threadId r = ru_threadId rule \<and> ru_fingerprint r = ru_fingerprint rule \<and>
        ru_sourceRequestId r = ru_sourceRequestId rule \<and> ru_grantedUnder r = ru_grantedUnder rule"
    with granted show ?thesis by (auto simp: evidence_def)
  qed (rule old)
  with put_rule_rules(1) [OF d] granted show ?case by (simp add: approvals_ok_def rules_ok_def)
next
  case (revoked s' s keep)
  then show ?case by (auto simp: approvals_ok_def rules_ok_def intro: distinct_map_filter)
qed

lemma moves_ok: "approval_moves s s' \<Longrightarrow> approvals_ok s \<Longrightarrow> approvals_ok s'"
  by (induction rule: rtranclp_induct) (auto intro: move_ok)

lemma moves_later: "approval_moves s s' \<Longrightarrow> requests_later s s'"
  by (induction rule: rtranclp_induct) (auto intro: requests_later_refl requests_later_trans move_later)

end
