(* ===== verification/ApprovalLaws.thy ===== *)
theory ApprovalLaws
  imports ApprovalMoves
begin

text \<open>
  Every operation of \<open>ThreadApprovals\<close> is a sequence of moves, and settling never runs out of fuel.
\<close>

section \<open>Frames\<close>

lemma approval_event_frame [simp]:
  "approvals (approval_event ty row p s) = approvals s"
  "approval_rules (approval_event ty row p s) = approval_rules s"
  "clock (approval_event ty row p s) = clock s"
  "lineage (approval_event ty row p s) = lineage s"
  "effects (approval_event ty row p s) = effects s"
  by (simp_all add: approval_event_def)

lemma update_approval_frame [simp]:
  "approvals (update_approval i cond f s) = update_rows (\<lambda>a. ap_requestId a = i \<and> cond a) f (approvals s)"
  "approval_rules (update_approval i cond f s) = approval_rules s"
  "clock (update_approval i cond f s) = clock s"
  "lineage (update_approval i cond f s) = lineage s"
  by (simp_all add: update_approval_def)

lemma enqueue_approvals:
  "enqueue input s = Inr (e, s') \<Longrightarrow> approvals s' = approvals s \<and> approval_rules s' = approval_rules s"
  by (auto simp: enqueue_def effect_recorded_def Let_def split: if_splits option.splits)

text \<open>One row updated, guarded by a condition on the stored row, and possibly an event.\<close>

lemma row_update_move:
  assumes "\<And>a. cond a \<Longrightarrow> later a (f a)" "\<And>a. cond a \<Longrightarrow> request_ok a \<Longrightarrow> request_ok (f a)"
    and "approvals s' = approvals (update_approval i cond f s)" "approval_rules s' = approval_rules s"
  shows "approval_move s s'"
  by (rule approval_move.updated [of s "\<lambda>a. ap_requestId a = i \<and> cond a" f])
    (use assms in \<open>auto\<close>)

section \<open>The operations on one row\<close>

lemma create_move: "create_approval input s = Inr (a, s') \<Longrightarrow> approval_move s s'"
  by (rule approval_move.asked [of a])
    (auto simp: create_approval_def Let_def request_ok_def split: if_splits)

lemma cancel_row_move: "always approval_moves (cancel_approval_row reason at row)"
proof (rule alwaysI)
  fix s x s' assume run: "cancel_approval_row reason at row s = Inr (x, s')"
  let ?f = "\<lambda>a. a\<lparr>ap_status := PCancelled, ap_cancelReason := Some reason, ap_settledAt := Some at\<rparr>"
  show "approval_moves s s'"
  proof (cases "x = None")
    case True
    then have "s' = s" using run by (auto simp: cancel_approval_row_def Let_def split: if_splits)
    then show ?thesis by simp
  next
    case False
    then have "approvals s' = approvals (update_approval (ap_requestId row) (\<lambda>a. ap_status a = PPending) ?f s)"
      "approval_rules s' = approval_rules s"
      using run by (auto simp: cancel_approval_row_def Let_def split: if_splits)
    then have "approval_move s s'"
      by (rule row_update_move [rotated 2]) (auto simp: later_def same_subject_def request_ok_def)
    then show ?thesis ..
  qed
qed

lemma cancel_rows_move: "always approval_moves (cancel_approval_rows cond reason)"
proof (rule alwaysI)
  fix s x s' assume "cancel_approval_rows cond reason s = Inr (x, s')"
  then show "approval_moves s s'"
    unfolding cancel_approval_rows_def
    by (rule alwaysD [rotated]) (intro moving.always_loop cancel_row_move moving.always_ret)
qed

lemma stamp_delivery_move: "always approval_moves (stamp_delivery runId payload requestId)"
proof (rule alwaysI)
  fix s x s' assume run: "stamp_delivery runId payload requestId s = Inr (x, s')"
  let ?f = "\<lambda>a. a\<lparr>ap_deliveredAt := Some (clock s),
                 ap_continuationRunId := (case runId of None \<Rightarrow> ap_continuationRunId a | Some r \<Rightarrow> Some r)\<rparr>"
  have "approvals s' = approvals (update_approval requestId (\<lambda>a. ap_status a = PAnswered \<and> ap_deliveredAt a = None) ?f s)"
    "approval_rules s' = approval_rules s"
    using run by (auto simp: stamp_delivery_def Let_def split: if_splits option.splits)
  then have "approval_move s s'"
    by (rule row_update_move [rotated 2]) (auto simp: later_def same_subject_def same_answer_def request_ok_def split: option.splits)
  then show "approval_moves s s'" ..
qed

lemma retire_row_move: "always approval_moves (retire_row at row)"
proof (rule alwaysI)
  fix s x s' assume run: "retire_row at row s = Inr (x, s')"
  have "approvals s' = approvals (update_approval (ap_requestId row) (\<lambda>a. ap_status a = PAnswered) (retired_row at) s)"
    "approval_rules s' = approval_rules s"
    using run by (auto simp: retire_row_def Let_def split: if_splits)
  then have "approval_move s s'"
    by (rule row_update_move [rotated 2])
      (auto simp: later_def same_subject_def same_answer_def request_ok_def retired_row_def or_else_def split: option.splits)
  then show "approval_moves s s'" ..
qed

lemma delivery_moves:
  "always approval_moves (bind_delivery ids runId)" "always approval_moves (mark_answer_delivered i)"
  "always approval_moves (cancel_approval i reason)" "always approval_moves (cancel_for_thread t reason)"
  "always approval_moves (cancel_for_run r reason)"
  unfolding bind_delivery_def mark_answer_delivered_def cancel_approval_def cancel_for_thread_def cancel_for_run_def
  by (intro moving.always_loop moving.always_bind stamp_delivery_move cancel_rows_move moving.always_ret)+

lemma retire_moves: "always approval_moves (retire_delivery threadId)"
proof (rule alwaysI)
  fix s x s' assume "retire_delivery threadId s = Inr (x, s')"
  then show "approval_moves s s'"
    unfolding retire_delivery_def
    by (rule alwaysD [rotated]) (intro moving.always_loop retire_row_move moving.always_ret)
qed

text \<open>With unique ids, the row a query found is the only one its id updates.\<close>

lemma ids_unique:
  "approvals_ok s \<Longrightarrow> a \<in> set (approvals s) \<Longrightarrow> b \<in> set (approvals s) \<Longrightarrow> ap_requestId a = ap_requestId b \<Longrightarrow> a = b"
  by (auto simp: approvals_ok_def dest: distinct_key_unique)

lemma found_row_move:
  assumes ok: "approvals_ok s" and row: "row \<in> set (approvals s)"
    and f: "later row (f row)" "request_ok row \<Longrightarrow> request_ok (f row)"
    and s': "approvals s' = approvals (update_approval (ap_requestId row) cond f s)" "approval_rules s' = approval_rules s"
  shows "approval_move s s'"
proof (rule approval_move.updated [of s "\<lambda>a. ap_requestId a = ap_requestId row \<and> cond a" f])
  show "later a (f a)" if "a \<in> set (approvals s)" "ap_requestId a = ap_requestId row \<and> cond a" for a
    using ids_unique [OF ok that(1) row] that f by simp
  show "request_ok (f a)" if "a \<in> set (approvals s)" "ap_requestId a = ap_requestId row \<and> cond a" "request_ok a" for a
    using ids_unique [OF ok that(1) row] that f by simp
qed (use s' in simp_all)

lemma consume_move:
  assumes run: "consume_continuation_grant t r fp s = Inr (x, s')" and ok: "approvals_ok s"
  shows "approval_moves s s'"
proof (cases "\<not> truthy fp \<or> grants_for t r (the fp) s = []")
  case True
  then show ?thesis using run by (auto simp: consume_continuation_grant_def split: if_splits)
next
  case False
  then obtain row rest where g: "grants_for t r (the fp) s = row # rest" "truthy fp" by (auto simp: neq_Nil_conv)
  let ?f = "\<lambda>a. a\<lparr>ap_grantConsumedAt := Some (clock s)\<rparr>"
  have "row \<in> set (grants_for t r (the fp) s)" by (simp add: g)
  then have row: "row \<in> set (approvals s)" "ap_decision row = Some DAllow" "ap_grantConsumedAt row = None"
    by (auto simp: grants_for_def select_approvals_def)
  have "approvals s' = approvals (update_approval (ap_requestId row) (\<lambda>a. ap_grantConsumedAt a = None) ?f s)"
    "approval_rules s' = approval_rules s"
    using run g by (auto simp: consume_continuation_grant_def Let_def split: if_splits option.splits)
  then have "approval_move s s'"
    by (rule found_row_move [OF ok row(1), rotated 2])
      (use row in \<open>auto simp: later_def same_subject_def same_answer_def request_ok_def\<close>)
  then show ?thesis ..
qed

section \<open>Settling\<close>

text \<open>The row a call of \<open>settleRow\<close> carries was read from the table, perhaps earlier in the transaction.\<close>

definition known :: "store \<Rightarrow> approval_row \<Rightarrow> bool" where
  "known s row \<longleftrightarrow> (\<exists>a \<in> set (approvals s). later row a)"

lemma known_row: "row \<in> set (approvals s) \<Longrightarrow> known s row"
  unfolding known_def by (blast intro: later_refl)

lemma known_moves: "known s row \<Longrightarrow> approval_moves s s' \<Longrightarrow> known s' row"
  using moves_later [of s s'] unfolding known_def requests_later_def by (meson later_trans)

lemma known_loop:
  assumes step: "\<And>x t y t'. x \<in> set xs \<Longrightarrow> approvals_ok t \<Longrightarrow> known t x \<Longrightarrow> f x t = Inr (y, t') \<Longrightarrow> approval_moves t t'"
    and run: "forE xs f s = Inr (ys, s')" and ok: "approvals_ok s" and xs: "\<And>x. x \<in> set xs \<Longrightarrow> known s x"
  shows "approval_moves s s'"
proof (rule forE_induct_state [where P = "approval_moves s" and f = f and xs = xs and s = s, OF _ _ run])
  fix x t y t' assume x: "x \<in> set xs" and t: "approval_moves s t" and run: "f x t = Inr (y, t')"
  from step [OF x moves_ok [OF t ok] known_moves [OF xs [OF x] t] run] t
  show "approval_moves s t'" by (rule rtranclp_trans [rotated])
qed simp

lemma may_always:
  "can_answer_approval t act reason who DAllow (Some ScopeAlways) s = None \<Longrightarrow> standing_answerer (Some (stored_answerer who))"
  by (cases who) (auto simp: can_answer_approval_def user_refusal_def truthy_def split: if_splits option.splits)

lemma answered_row_later: "request_ok a \<Longrightarrow> ap_status a = PPending \<Longrightarrow> later a (answered_row redact row ans who at a)"
  by (auto simp: later_def same_subject_def answered_row_def Let_def request_ok_def)

lemma answered_row_ok:
  assumes "request_ok a" "ap_status a = PPending"
    and "can_answer_approval t act reason who (fst (meaning_of (ap_questions row) ans)) (snd (meaning_of (ap_questions row) ans)) s = None"
  shows "request_ok (answered_row redact row ans who at a)"
proof -
  have "standing_answerer (Some (stored_answerer who))"
    if "fst (meaning_of (ap_questions row) ans) = DAllow" "snd (meaning_of (ap_questions row) ans) = Some ScopeAlways"
    using assms(3) that may_always by simp
  with assms(1,2) show ?thesis by (auto simp: request_ok_def answered_row_def Let_def)
qed

lemma narrow_two: "narrow_permission_mode [Some a, Some b] = min a b"
  by (auto simp: narrow_permission_mode_def is_stricter_def less_permission_mode_def less_eq_permission_mode_def min_def
      intro: antisym split: if_splits)

text \<open>A rule is granted on a stored row that is the evidence for it.\<close>

lemma grant_rule_move:
  assumes run: "grant_rule redact rec s = (rule, s')"
    and a: "a \<in> set (approvals s)" "ap_requestId a = ap_requestId rec" "ap_threadId a = ap_threadId rec"
      "ap_fingerprint a = ap_fingerprint rec" "ap_permissionMode a = ap_permissionMode rec"
      "ap_status a = PAnswered" "ap_decision a = Some DAllow" "ap_decisionScope a = Some ScopeAlways"
      "standing_answerer (ap_answeredBy a)"
  shows "approval_moves s s'"
proof (cases "ap_fingerprint rec = None \<or> ap_fingerprint rec = Some [] \<or> ap_permissionMode rec = None")
  case True
  then show ?thesis using run by (auto simp: grant_rule_def split: option.splits)
next
  case False
  then obtain fp mode where f: "ap_fingerprint rec = Some fp" "fp \<noteq> []" "ap_permissionMode rec = Some mode" by auto
  let ?under = "case find_rule (ap_threadId rec) fp s of None \<Rightarrow> mode
     | Some r \<Rightarrow> narrow_permission_mode [Some (ru_grantedUnder r), Some mode]"
  let ?row = "\<lparr>ru_threadId = ap_threadId rec, ru_fingerprint = fp, ru_permissionKey = ap_permissionKey rec,
     ru_action = ap_action rec, ru_summary = rule_summary redact (ap_questions rec), ru_grantedUnder = ?under,
     ru_sourceRequestId = Some (ap_requestId rec), ru_createdAt = clock s\<rparr>"
  have "?under \<le> mode" by (simp add: narrow_two split: option.splits)
  with a f have "evidence ?row a" by (simp add: evidence_def)
  moreover have "approvals s' = approvals s" "approval_rules s' = approval_rules (put_rule ?row s)"
    using run f by (auto simp: grant_rule_def Let_def)
  ultimately have "approval_move s s'"
    using a f by (intro approval_move.granted [of a s ?row]) simp_all
  then show ?thesis ..
qed

text \<open>What the update of the settled row leaves in the table.\<close>

lemma answered_in_table:
  assumes ok: "approvals_ok s" and row: "known s row"
    and one: "approval_changes (ap_requestId row) (\<lambda>a. ap_status a = PPending) s = 1"
  obtains a where "a \<in> set (approvals s)" "later row a" "ap_status a = PPending"
proof -
  from row obtain a where a: "a \<in> set (approvals s)" "later row a" by (auto simp: known_def)
  from one have "filter (\<lambda>a. ap_requestId a = ap_requestId row \<and> ap_status a = PPending) (approvals s) \<noteq> []"
    by (auto simp: approval_changes_def changes_def)
  then obtain b where b: "b \<in> set (approvals s)" "ap_requestId b = ap_requestId row" "ap_status b = PPending"
    by (auto simp: filter_empty_conv)
  have "b = a" using ids_unique [OF ok b(1) a(1)] b later_fixed [OF a(2)] by simp
  with that a b show thesis by blast
qed

definition settles :: "row_settler \<Rightarrow> bool" where
  "settles again \<longleftrightarrow> (\<forall>row ans who d s x s'. again row ans who d s = Inr (x, s') \<longrightarrow> approvals_ok s \<longrightarrow> known s row \<longrightarrow>
     approval_moves s s')"

lemma allow_sibling_moves:
  assumes "settles again" "allow_sibling again who d row s = Inr (x, s')" "approvals_ok s" "known s row"
  shows "approval_moves s s'"
  using assms unfolding settles_def
  by (auto simp: allow_sibling_def bindE_Inr split: option.splits)

lemma allow_siblings_moves:
  assumes "settles again" "allow_siblings again rec who d s = Inr (x, s')" "approvals_ok s"
  shows "approval_moves s s'"
proof -
  from assms(2) obtain ys where run: "forE (siblings_of rec s) (allow_sibling again who d) s = Inr (ys, s')"
    by (auto simp: allow_siblings_def bindE_Inr)
  show ?thesis
  proof (rule known_loop [OF _ run assms(3)])
    show "known s row" if "row \<in> set (siblings_of rec s)" for row
      using that by (auto simp: siblings_of_def select_approvals_def intro: known_row split: if_splits)
  qed (rule allow_sibling_moves [OF assms(1)])
qed

lemma deliver_answer_moves: "deliver_answer row d base s = Inr (x, s') \<Longrightarrow> approval_moves s s'"
  by (auto simp: deliver_answer_def bindE_Inr whenE_Inr store_step_def dest!: enqueue_approvals
      intro!: move_one approval_move.quiet split: if_splits sum.splits)

lemma bindE_modE: "bindE (modE f) g s = g () (f s)"
  by (simp add: bindE_def modE_def)

lemma after_answer_moves:
  assumes again: "settles again" and run: "after_answer redact again row rec ans who d s = Inr (x, s')" and ok: "approvals_ok s"
    and a: "a \<in> set (approvals s)" "ap_requestId a = ap_requestId rec" "ap_threadId a = ap_threadId rec"
      "ap_fingerprint a = ap_fingerprint rec" "ap_permissionMode a = ap_permissionMode rec"
      "ap_status a = PAnswered" "ap_decision a = Some (fst (meaning_of (ap_questions row) ans))"
      "ap_decisionScope a = snd (meaning_of (ap_questions row) ans)" "request_ok a"
  shows "approval_moves s s'"
proof -
  let ?always = "meaning_of (ap_questions row) ans = (DAllow, Some ScopeAlways)"
  define s1 where "s1 = approval_event ''approval.answered'' rec
     ((''decision'', JStr (decision_text (fst (meaning_of (ap_questions row) ans)))) #
       opt_str ''scope'' (map_option scope_text (snd (meaning_of (ap_questions row) ans))) @
       [(''answeredBy'', answered_by_json (stored_answerer who)), (''answerPath'', JStr (path_text (ap_answerPath row)))]) s"
  from run obtain rule s2 sibs s3 base where
    g: "(if ?always \<and> is_user who then (\<lambda>s. Inr (grant_rule redact rec s)) else retE None) s1 =
      (Inr (rule, s2) :: settle_fault + _)"
    and sib: "(if rule \<noteq> None then allow_siblings again rec who d else retE []) s2 = Inr (sibs, s3)"
    and del: "deliver_answer row d base s3 = Inr (x, s')"
    unfolding after_answer_def Let_def bindE_modE bindE_Inr s1_def by blast
  have s1: "approvals s1 = approvals s" "approval_rules s1 = approval_rules s" by (simp_all add: s1_def)
  have 1: "approval_moves s s1" using s1 by (blast intro: approval_move.quiet)
  have 2: "approval_moves s1 s2"
  proof (cases "?always \<and> is_user who")
    case True
    then have "grant_rule redact rec s1 = (rule, s2)" using g by simp
    moreover have "standing_answerer (ap_answeredBy a)" using a True by (auto simp: request_ok_def)
    ultimately show ?thesis using a s1 True by (intro grant_rule_move [of redact rec s1 rule s2 a]) simp_all
  next
    case False
    then have "s2 = s1" using g by (auto split: if_splits)
    then show ?thesis by simp
  qed
  have ok2: "approvals_ok s2" using moves_ok [OF 2 moves_ok [OF 1 ok]] .
  have 3: "approval_moves s2 s3"
  proof (cases "rule = None")
    case False
    then show ?thesis using sib allow_siblings_moves [OF again _ ok2] by auto
  qed (use sib in auto)
  from 1 2 3 deliver_answer_moves [OF del] show ?thesis by (meson rtranclp_trans)
qed

lemma pending_step_moves:
  assumes again: "settles again" and run: "pending_step redact again row ans who d s = Inr (x, s')"
    and ok: "approvals_ok s" and row: "known s row"
  shows "approval_moves s s'"
proof -
  let ?m = "meaning_of (ap_questions row) ans" and ?i = "ap_requestId row" and ?P = "\<lambda>a. ap_status a = PPending"
  let ?f = "answered_row redact row ans who (clock s)"
  show ?thesis
  proof (cases "can_answer_approval (ap_threadId row) (ap_action row) (ap_reason row) who (fst ?m) (snd ?m) s \<noteq> None \<or>
      ?m = (DAllow, Some ScopeAlways) \<and> once_allow_option (ap_questions row) = None")
    case True
    then show ?thesis using run by (auto simp: pending_step_def Let_def split: option.splits if_splits)
  next
    case refused: False
    show ?thesis
    proof (cases "approval_changes ?i ?P s = 1")
      case False
      then show ?thesis
      proof (cases "\<exists>c. get_approval ?i s = Some c \<and> ap_status c \<noteq> PPending")
        case True
        then obtain c b where c: "get_approval ?i s = Some c" and re: "again c b who d s = Inr (x, s')"
          using run refused False by (auto simp: pending_step_def Let_def)
        have "known s c" using c by (auto simp: get_approval_def dest!: lookup_row_Some intro: known_row)
        then show ?thesis using again re ok unfolding settles_def by blast
      qed (use run refused False in \<open>auto simp: pending_step_def Let_def split: option.splits if_splits\<close>)
    next
      case True
      then obtain a where a: "a \<in> set (approvals s)" "later row a" "?P a"
        by (rule answered_in_table [OF ok row])
      let ?s1 = "update_approval ?i ?P ?f s"
      have okf: "request_ok (?f b)" if "request_ok b" "?P b" for b
        using that refused by (auto intro: answered_row_ok)
      have "approval_move s ?s1"
      proof (rule approval_move.updated [of s "\<lambda>b. ap_requestId b = ?i \<and> ?P b" ?f])
        show "later b (?f b)" if "b \<in> set (approvals s)" "ap_requestId b = ?i \<and> ?P b" for b
          using that ok by (intro answered_row_later) (auto simp: approvals_ok_def)
      qed (auto intro: okf)
      then have m1: "approval_moves s ?s1" ..
      have ok1: "approvals_ok ?s1" using moves_ok [OF m1 ok] .
      have rok: "request_ok a" using ok a by (auto simp: approvals_ok_def)
      have rest: "after_answer redact again row (?f row) ans who d ?s1 = Inr (x, s')"
        using run refused True by (auto simp: pending_step_def Let_def)
      have mem: "?f a \<in> set (approvals ?s1)"
        using a later_fixed [OF a(2)] by (auto simp: set_update_rows)
      have "approval_moves ?s1 s'"
        by (rule after_answer_moves [OF again rest ok1 mem _ _ _ _ _ _ _ okf [OF rok a(3)]])
          (use later_fixed [OF a(2)] in \<open>simp_all add: answered_row_def Let_def\<close>)
      with m1 show ?thesis by (rule rtranclp_trans)
    qed
  qed
qed

lemma settle_row_moves: "settles (settle_row redact n)"
proof (induction n)
  case (Suc n)
  then show ?case
    unfolding settles_def settle_row.simps settle_step_def
    by (auto split: approval_status.splits dest: pending_step_moves [OF Suc])
qed (simp add: settles_def)

lemma settle_row_movesD:
  "settle_row redact n row ans who d s = Inr (x, s') \<Longrightarrow> approvals_ok s \<Longrightarrow> known s row \<Longrightarrow> approval_moves s s'"
  using settle_row_moves [of redact n] unfolding settles_def by blast

lemma get_approval_known: "get_approval i s = Some row \<Longrightarrow> known s row"
  by (auto simp: get_approval_def dest!: lookup_row_Some intro: known_row)

lemma settle_moves: "settle_approval redact i ans who d s = Inr (x, s') \<Longrightarrow> approvals_ok s \<Longrightarrow> approval_moves s s'"
  unfolding settle_approval_def by (cases "get_approval i s") (auto intro: settle_row_movesD get_approval_known)

lemma settle_for_send_moves:
  assumes run: "settle_for_send redact t fb who s = Inr (x, s')" and ok: "approvals_ok s"
  shows "approval_moves s s'"
proof (cases "list_ex (\<lambda>row. \<not> may_deny who s row) (list_pending_approvals (Some t) s)")
  case False
  then obtain ys where loop: "forE (list_pending_approvals (Some t) s) (deny_for_send redact (settle_fuel s) fb who) s = Inr (ys, s')"
    using run by (auto simp: settle_for_send_def bindE_Inr)
  have step: "approval_moves u u'" if "deny_for_send redact n fb who row u = Inr (y, u')" "approvals_ok u" "known u row"
    for n row u y u'
    using that by (auto simp: deny_for_send_def bindE_Inr intro: settle_row_movesD)
  show ?thesis
  proof (rule known_loop [OF _ loop ok])
    show "known s row" if "row \<in> set (list_pending_approvals (Some t) s)" for row
      using that by (auto simp: list_pending_approvals_def select_approvals_def intro: known_row)
  qed (rule step)
qed (use run in \<open>auto simp: settle_for_send_def\<close>)

section \<open>Revoking rules\<close>

lemma revoke_rule_move: "approval_move s (revoke_rule r s)"
  by (rule approval_move.revoked [where keep = "\<lambda>x. \<not> (ru_threadId x = ru_threadId r \<and> ru_fingerprint x = ru_fingerprint r)"])
    (simp_all add: revoke_rule_def)

lemma revoke_all_moves: "approval_moves s (fold revoke_rule rs s)"
  by (induction rs arbitrary: s) (auto intro: converse_rtranclp_into_rtranclp revoke_rule_move)

lemma revoke_moves:
  "always approval_moves (revoke_rules t fp)" "always approval_moves (revoke_rules_made_by node only)"
  by (auto intro!: alwaysI simp: revoke_rules_def revoke_rules_made_by_def Let_def revoke_all_moves)

end
