(* ===== verification/ApprovalBoot.thy ===== *)
theory ApprovalBoot
  imports ApprovalLaws
begin

text \<open>
  Boot recovery of approval requests, shown equal to a map over the table: what becomes of each request is
  a function of the request and its run, whatever the order the rows are visited in.
\<close>

section \<open>The reference\<close>

definition cancelled_row :: "string \<Rightarrow> nat \<Rightarrow> approval_row \<Rightarrow> approval_row" where
  "cancelled_row reason at a = a\<lparr>ap_status := PCancelled, ap_cancelReason := Some reason, ap_settledAt := Some at\<rparr>"

definition continuing :: "approval_row \<Rightarrow> store \<Rightarrow> run_record option" where
  "continuing a s = (case run_of a s of None \<Rightarrow> None
     | Some run \<Rightarrow> if rr_status run = RInterrupted \<or> rr_status run = RUncertain then Some run else None)"

definition left_alone :: "(string \<Rightarrow> bool) \<Rightarrow> approval_row \<Rightarrow> bool" where
  "left_alone unattended a \<longleftrightarrow> truthy (ap_runId a) \<and> unattended (the (ap_runId a))"

definition booted_row ::
  "(string \<Rightarrow> string list option) \<Rightarrow> (string \<Rightarrow> bool) \<Rightarrow> store \<Rightarrow> approval_row \<Rightarrow> approval_row" where
  "booted_row uncertainTools unattended s a =
     (if ap_status a = PPending \<and> left_alone unattended a then cancelled_row ''timed_out'' (clock s) a
      else case continuing a s of
        Some run \<Rightarrow> a\<lparr>ap_answerPath := PathContinue, ap_uncertain := rr_status run = RUncertain,
          ap_uncertainTools := (if rr_status run = RUncertain
            then Some (distinct_first (case uncertainTools (rr_runId run) of None \<Rightarrow> [] | Some ts \<Rightarrow> ts)) else None)\<rparr>
      | None \<Rightarrow> if ap_status a = PPending then cancelled_row ''turn_ended'' (clock s) a else a\<lparr>ap_deliveredAt := Some (clock s)\<rparr>)"

definition boot_fate :: "(string \<Rightarrow> bool) \<Rightarrow> store \<Rightarrow> approval_row \<Rightarrow> boot_outcome" where
  "boot_fate unattended s a =
     (if ap_status a = PPending \<and> left_alone unattended a then BootCancelled (ap_requestId a)
      else case continuing a s of
        Some run \<Rightarrow> if ap_status a = PPending then BootContinued (ap_requestId a) else BootUndelivered (ap_requestId a)
      | None \<Rightarrow> if ap_status a = PPending then BootCancelled (ap_requestId a) else BootDropped)"

text \<open>The tables boot recovery reads and does not change.\<close>

definition boot_frame :: "store \<Rightarrow> store \<Rightarrow> bool" where
  "boot_frame s s' \<longleftrightarrow> runs s' = runs s \<and> clock s' = clock s \<and> approval_rules s' = approval_rules s"

lemma update_one_row:
  assumes "distinct (map ap_requestId (approvals s))" "a \<in> set (approvals s)"
  shows "update_rows (\<lambda>b. ap_requestId b = ap_requestId a) f (approvals s) =
     update_rows (\<lambda>b. ap_requestId b = ap_requestId a) (\<lambda>_. f a) (approvals s)"
    "P a \<Longrightarrow> update_rows (\<lambda>b. ap_requestId b = ap_requestId a \<and> P b) f (approvals s) =
     update_rows (\<lambda>b. ap_requestId b = ap_requestId a) (\<lambda>_. f a) (approvals s)"
  using distinct_key_unique [OF assms(1) _ assms(2)] by (auto simp: update_rows_def)

lemma filter_one_row:
  assumes "distinct (map ap_requestId (approvals s))" "a \<in> set (approvals s)" "P a"
  shows "filter (\<lambda>b. P b \<and> ap_requestId b = ap_requestId a) (approvals s) = [a]"
proof -
  have "filter (\<lambda>b. P b \<and> ap_requestId b = ap_requestId a) rows = [a]"
    if "distinct (map ap_requestId rows)" "a \<in> set rows" for rows
    using that assms(3) by (induction rows) (auto simp: filter_empty_conv rev_image_eqI)
  with assms show ?thesis by blast
qed

lemma cancel_one:
  assumes d: "distinct (map ap_requestId (approvals s))" and a: "a \<in> set (approvals s)" "ap_status a = PPending"
  shows "\<exists>s'. cancel_approval_rows (\<lambda>b. ap_requestId b = ap_requestId a) reason s = Inr ([cancelled_row reason (clock s) a], s') \<and>
    approvals s' = update_rows (\<lambda>b. ap_requestId b = ap_requestId a) (\<lambda>_. cancelled_row reason (clock s) a) (approvals s) \<and>
    boot_frame s s'"
proof -
  let ?P = "\<lambda>b. ap_requestId b = ap_requestId a \<and> ap_status b = PPending"
  have one: "changes ?P (approvals s) = 1"
    by (rule changes_unique [OF d a(1)]) (use a in auto)
  have sel: "by_created ap_createdAt (filter (\<lambda>b. ap_status b = PPending \<and> ap_requestId b = ap_requestId a) (approvals s)) = [a]"
    by (simp add: filter_one_row [OF d a(1)] a by_created_def)
  show ?thesis
    by (simp add: cancel_approval_rows_def sel cancel_approval_row_def Let_def one bindE_apply retE_def somes_def
      map_filter_simps cancelled_row_def update_one_row(2) [OF d a(1), of "\<lambda>b. ap_status b = PPending", OF a(2)] boot_frame_def)
qed

definition boot_step ::
  "(string \<Rightarrow> string list option) \<Rightarrow> (string \<Rightarrow> bool) \<Rightarrow> approval_row \<Rightarrow> store \<Rightarrow> store \<Rightarrow> bool" where
  "boot_step named unattended a s s' \<longleftrightarrow>
     approvals s' = update_rows (\<lambda>b. ap_requestId b = ap_requestId a) (\<lambda>_. booted_row named unattended s a) (approvals s) \<and>
     boot_frame s s'"

lemma close_at_boot_exact:
  assumes "distinct (map ap_requestId (approvals s))" "a \<in> set (approvals s)" "ap_status a = PPending"
    and "booted_row named unattended s a = cancelled_row reason (clock s) a"
  shows "\<exists>s'. close_at_boot reason a s = Inr (BootCancelled (ap_requestId a), s') \<and> boot_step named unattended a s s'"
  using cancel_one [OF assms(1-3), of reason] assms(4)
  by (auto simp: close_at_boot_def bindE_apply boot_step_def)

lemma recover_row_exact:
  assumes d: "distinct (map ap_requestId (approvals s))" and a: "a \<in> set (approvals s)"
  shows "\<exists>s'. recover_row named unattended (clock s) a s = Inr (boot_fate unattended s a, s') \<and> boot_step named unattended a s s'"
proof -
  note close = close_at_boot_exact [OF d a]
  have drop: "\<exists>s'. Inr (BootDropped, update_approval (ap_requestId a) (\<lambda>_. True) (\<lambda>b. b\<lparr>ap_deliveredAt := Some (clock s)\<rparr>) s)
      = (Inr (BootDropped, s') :: store_error + _) \<and> boot_step named unattended a s s'"
    if "ap_status a \<noteq> PPending" "continuing a s = None"
    using that update_one_row(1) [OF d a, of "\<lambda>b. b\<lparr>ap_deliveredAt := Some (clock s)\<rparr>"]
    by (auto simp: boot_step_def booted_row_def boot_frame_def update_approval_def)
  consider (alone) "ap_status a = PPending" "left_alone unattended a"
    | (run) run where "\<not> (ap_status a = PPending \<and> left_alone unattended a)" "continuing a s = Some run"
    | (dead) "\<not> (ap_status a = PPending \<and> left_alone unattended a)" "continuing a s = None"
    by fastforce
  then show ?thesis
  proof cases
    case alone
    then show ?thesis
      using close [of named unattended "''timed_out''"] by (simp add: recover_row_def booted_row_def boot_fate_def left_alone_def)
  next
    case run
    then have r: "run_of a s = Some run" "rr_status run = RInterrupted \<or> rr_status run = RUncertain"
      by (auto simp: continuing_def split: option.splits if_splits)
    let ?g = "\<lambda>a. a\<lparr>ap_answerPath := PathContinue, ap_uncertain := rr_status run = RUncertain,
          ap_uncertainTools := (if rr_status run = RUncertain
            then Some (distinct_first (case named (rr_runId run) of None \<Rightarrow> [] | Some ts \<Rightarrow> ts)) else None)\<rparr>"
    have "recover_row named unattended (clock s) a s = continue_at_boot named run a s"
      using run r by (auto simp: recover_row_def left_alone_def)
    moreover have "booted_row named unattended s a = ?g a"
      using run by (auto simp: booted_row_def)
    ultimately show ?thesis
      using run r update_one_row(1) [OF d a, of ?g]
      by (auto simp: continue_at_boot_def Let_def boot_step_def boot_frame_def boot_fate_def approval_event_def append_event_def
          update_approval_def)
  next
    case dead
    then show ?thesis
    proof (cases "ap_status a = PPending")
      case True
      with dead have "recover_row named unattended (clock s) a s = close_at_boot ''turn_ended'' a s"
        by (auto simp: recover_row_def left_alone_def continuing_def split: option.splits if_splits)
      with True dead close [of named unattended "''turn_ended''"] show ?thesis
        by (simp add: booted_row_def boot_fate_def)
    next
      case False
      with dead drop show ?thesis
        by (auto simp: recover_row_def boot_fate_def continuing_def split: option.splits if_splits)
    qed
  qed
qed

section \<open>The loop\<close>

lemma boot_frame_reads:
  assumes "boot_frame s s'"
  shows "booted_row named unattended s' = booted_row named unattended s" "boot_fate unattended s' = boot_fate unattended s"
proof -
  have c: "continuing a s' = continuing a s" "clock s' = clock s" for a
    using assms by (simp_all add: boot_frame_def continuing_def run_of_def get_run_def)
  show "booted_row named unattended s' = booted_row named unattended s" "boot_fate unattended s' = boot_fate unattended s"
    unfolding fun_eq_iff booted_row_def boot_fate_def c by simp_all
qed

lemma booted_row_id [simp]: "ap_requestId (booted_row named unattended s a) = ap_requestId a"
  by (simp add: booted_row_def cancelled_row_def split: option.splits)

lemma recover_rows_exact:
  assumes "distinct (map ap_requestId (approvals s))" "distinct (map ap_requestId xs)" "set xs \<subseteq> set (approvals s)"
  shows "\<exists>s'. forE xs (recover_row named unattended (clock s)) s = Inr (map (boot_fate unattended s) xs, s') \<and>
    approvals s' = map (\<lambda>a. if a \<in> set xs then booted_row named unattended s a else a) (approvals s) \<and> boot_frame s s'"
  using assms
proof (induction xs arbitrary: s)
  case Nil
  then show ?case by (simp add: boot_frame_def)
next
  case (Cons x xs)
  let ?b = "booted_row named unattended s"
  from recover_row_exact [of s x named unattended] Cons.prems obtain s1 where
    run1: "recover_row named unattended (clock s) x s = Inr (boot_fate unattended s x, s1)"
    and s1: "approvals s1 = update_rows (\<lambda>b. ap_requestId b = ap_requestId x) (\<lambda>_. ?b x) (approvals s)" "boot_frame s s1"
    by (auto simp: boot_step_def)
  have other: "ap_requestId y \<noteq> ap_requestId x" if "y \<in> set xs" for y
  proof -
    have "ap_requestId y \<in> ap_requestId ` set xs" using that by (rule imageI)
    then show ?thesis using Cons.prems(2) by auto
  qed
  have ids: "map ap_requestId (approvals s1) = map ap_requestId (approvals s)"
    unfolding s1 update_rows_def by simp
  have sub: "set xs \<subseteq> set (approvals s1)"
    using Cons.prems(3) other unfolding s1 set_update_rows by (auto intro!: rev_image_eqI)
  from Cons.IH [of s1] ids Cons.prems sub s1(2) obtain s' where
    run: "forE xs (recover_row named unattended (clock s1)) s1 = Inr (map (boot_fate unattended s) xs, s')"
    and s': "approvals s' = map (\<lambda>a. if a \<in> set xs then ?b a else a) (approvals s1)" "boot_frame s1 s'"
    by (auto simp: boot_frame_reads)
  have same: "a = x" if "a \<in> set (approvals s)" "ap_requestId a = ap_requestId x" for a
    using distinct_key_unique [OF Cons.prems(1) that(1) _ that(2)] Cons.prems(3) by simp
  have "approvals s' = map (\<lambda>a. if a \<in> set (x # xs) then ?b a else a) (approvals s)"
    unfolding s' s1 update_rows_def map_map
  proof (rule map_cong [OF HOL.refl])
    fix a assume a: "a \<in> set (approvals s)"
    have "?b x \<notin> set xs" using other [of "?b x"] by auto
    then show "((\<lambda>a. if a \<in> set xs then ?b a else a) \<circ> (\<lambda>b. if ap_requestId b = ap_requestId x then ?b x else b)) a =
        (if a \<in> set (x # xs) then ?b a else a)"
      using same [OF a] other by auto
  qed
  moreover have "boot_frame s s'" using s1(2) s'(2) by (simp add: boot_frame_def)
  moreover have "clock s1 = clock s" using s1(2) by (simp add: boot_frame_def)
  ultimately show ?case using run1 run by auto
qed

lemma distinct_by_created: "distinct (map key rows) \<Longrightarrow> distinct (map key (by_created c rows))"
  by (simp add: by_created_def distinct_map inj_on_def)

lemma boot_rows_exact:
  assumes "distinct (map ap_requestId (approvals s))"
  shows "\<exists>s'. forE (select_approvals boot_row s) (recover_row named unattended (clock s)) s =
      Inr (map (boot_fate unattended s) (select_approvals boot_row s), s') \<and>
    approvals s' = map (\<lambda>a. if boot_row a then booted_row named unattended s a else a) (approvals s) \<and> boot_frame s s'"
proof -
  have "distinct (map ap_requestId (select_approvals boot_row s))"
    unfolding select_approvals_def using assms by (intro distinct_by_created distinct_map_filter)
  moreover have "set (select_approvals boot_row s) \<subseteq> set (approvals s)" by (auto simp: select_approvals_def)
  ultimately obtain s' where
    "forE (select_approvals boot_row s) (recover_row named unattended (clock s)) s =
      Inr (map (boot_fate unattended s) (select_approvals boot_row s), s')"
    "approvals s' = map (\<lambda>a. if a \<in> set (select_approvals boot_row s) then booted_row named unattended s a else a) (approvals s)"
    "boot_frame s s'"
    using recover_rows_exact [OF assms] by blast
  moreover have "map (\<lambda>a. if a \<in> set (select_approvals boot_row s) then booted_row named unattended s a else a) (approvals s) =
      map (\<lambda>a. if boot_row a then booted_row named unattended s a else a) (approvals s)"
    by (auto simp: select_approvals_def)
  ultimately show ?thesis by auto
qed

section \<open>Boot as moves\<close>

lemma booted_row_cases:
  obtains (closed) reason where "ap_status a = PPending" "booted_row named unattended s a = cancelled_row reason (clock s) a"
  | (continued) unsure names where
      "booted_row named unattended s a = a\<lparr>ap_answerPath := PathContinue, ap_uncertain := unsure, ap_uncertainTools := names\<rparr>"
  | (dropped) "ap_status a \<noteq> PPending" "booted_row named unattended s a = a\<lparr>ap_deliveredAt := Some (clock s)\<rparr>"
proof (cases "ap_status a = PPending \<and> left_alone unattended a")
  case True
  then show thesis by (intro closed [of "''timed_out''"]) (simp_all add: booted_row_def)
next
  case attended: False
  show thesis
  proof (cases "continuing a s")
    case None
    then show thesis
      using attended closed [of "''turn_ended''"] dropped by (cases "ap_status a = PPending") (simp_all add: booted_row_def)
  next
    case (Some run)
    have "booted_row named unattended s a = a\<lparr>ap_answerPath := PathContinue, ap_uncertain := rr_status run = RUncertain,
        ap_uncertainTools := (if rr_status run = RUncertain
          then Some (distinct_first (case named (rr_runId run) of None \<Rightarrow> [] | Some ts \<Rightarrow> ts)) else None)\<rparr>"
      unfolding booted_row_def Some using attended by auto
    then show thesis by (rule continued)
  qed
qed

lemma booted_row_later:
  assumes "boot_row a" "request_ok a"
  shows "later a (booted_row named unattended s a) \<and> request_ok (booted_row named unattended s a)"
proof (cases rule: booted_row_cases [of a named unattended s])
  case closed
  with assms show ?thesis by (auto simp: later_def same_subject_def request_ok_def cancelled_row_def)
next
  case continued
  then have "request_ok (booted_row named unattended s a) = request_ok a" by (simp add: request_ok_def)
  with continued assms show ?thesis by (simp add: later_def same_subject_def same_answer_def)
next
  case dropped
  with assms show ?thesis by (auto simp: boot_row_def later_def same_subject_def same_answer_def request_ok_def)
qed

lemma boot_moves:
  assumes run: "recover_approvals_on_boot named unattended s = Inr (r, s')" and ok: "approvals_ok s"
  shows "approval_moves s s'"
proof -
  from boot_rows_exact [of s named unattended] ok obtain s1 where
    loop: "forE (select_approvals boot_row s) (recover_row named unattended (clock s)) s =
      Inr (map (boot_fate unattended s) (select_approvals boot_row s), s1)"
    and s1: "approvals s1 = map (\<lambda>a. if boot_row a then booted_row named unattended s a else a) (approvals s)" "boot_frame s s1"
    by (auto simp: approvals_ok_def)
  have "s' = s1" using run loop by (auto simp: recover_approvals_on_boot_def bindE_Inr)
  moreover have "approval_move s s1"
  proof (rule approval_move.updated [of s boot_row "booted_row named unattended s"])
    show "later a (booted_row named unattended s a)" if "a \<in> set (approvals s)" "boot_row a" for a
      using that ok booted_row_later [of a] by (auto simp: approvals_ok_def)
    show "request_ok (booted_row named unattended s a)" if "boot_row a" "request_ok a" for a
      using that booted_row_later [of a] by blast
  qed (use s1 in \<open>simp_all add: update_rows_def boot_frame_def\<close>)
  ultimately show ?thesis by blast
qed

end
