(* ===== verification/ApprovalTotal.thy ===== *)
theory ApprovalTotal
  imports ApprovalBoot
begin

text \<open>
  Settling always returns. Every call that recurses into siblings has first turned a pending request into an
  answered one, so the fuel \<open>settle_approval\<close> starts with, the number of pending requests and two, is enough; and more
  fuel never changes the result.
\<close>

section \<open>Pending requests are used up\<close>

lemma pending_after_update:
  assumes "\<And>a. ap_status (f a) \<noteq> PPending"
  shows "waiting_requests (update_approval i (\<lambda>a. ap_status a = PPending) f s) + approval_changes i (\<lambda>a. ap_status a = PPending) s =
    waiting_requests s"
proof -
  have "length (filter (\<lambda>a. ap_status a = PPending) (update_rows (\<lambda>a. ap_requestId a = i \<and> ap_status a = PPending) f rows)) +
      changes (\<lambda>a. ap_requestId a = i \<and> ap_status a = PPending) rows = length (filter (\<lambda>a. ap_status a = PPending) rows)" for rows
    using assms by (induction rows) (auto simp: update_rows_def changes_def)
  then show ?thesis by (simp add: waiting_requests_def approval_changes_def)
qed

lemma waiting_requests_cong: "approvals s' = approvals s \<Longrightarrow> waiting_requests s' = waiting_requests s"
  by (simp add: waiting_requests_def)

text \<open>A transaction returns, with no more pending requests than before, whenever there are at most \<open>k\<close>.\<close>

definition returns :: "nat \<Rightarrow> 'a answer_txn \<Rightarrow> bool" where
  "returns k m \<longleftrightarrow> (\<forall>s. waiting_requests s \<le> k \<longrightarrow> (\<exists>x s'. m s = Inr (x, s') \<and> waiting_requests s' \<le> waiting_requests s))"

lemma returnsD:
  assumes "returns k m" "waiting_requests s \<le> k"
  obtains x s' where "m s = Inr (x, s')" "waiting_requests s' \<le> waiting_requests s"
  using assms by (auto simp: returns_def)

lemma returns_ret [simp]: "returns k (retE x)" "returns k (getE f)"
  by (simp_all add: returns_def)

lemma returns_bind:
  assumes "returns k m" "\<And>x. returns k (f x)"
  shows "returns k (bindE m f)"
  unfolding returns_def
proof (intro allI impI)
  fix s assume s: "waiting_requests s \<le> k"
  obtain x t where t: "m s = Inr (x, t)" "waiting_requests t \<le> waiting_requests s" by (rule returnsD [OF assms(1) s])
  obtain y u where "f x t = Inr (y, u)" "waiting_requests u \<le> waiting_requests t"
    by (rule returnsD [OF assms(2), of t x]) (use s t in auto)
  with t show "\<exists>y u. bindE m f s = Inr (y, u) \<and> waiting_requests u \<le> waiting_requests s" by (auto simp: bindE_apply)
qed

lemma returns_forE:
  assumes "\<And>x. x \<in> set xs \<Longrightarrow> returns k (f x)"
  shows "returns k (forE xs f)"
  unfolding returns_def
proof (intro allI impI)
  fix s assume "waiting_requests s \<le> k"
  then show "\<exists>ys s'. forE xs f s = Inr (ys, s') \<and> waiting_requests s' \<le> waiting_requests s"
    using assms
  proof (induction xs arbitrary: s)
    case (Cons x xs)
    obtain y t where t: "f x s = Inr (y, t)" "waiting_requests t \<le> waiting_requests s"
      using Cons.prems by (meson list.set_intros(1) returnsD)
    with Cons.IH [of t] Cons.prems obtain ys u where "forE xs f t = Inr (ys, u)" "waiting_requests u \<le> waiting_requests t"
      by auto
    with t show ?case by (auto intro: le_trans)
  qed simp
qed

section \<open>Settling returns\<close>

definition row_returns :: "nat \<Rightarrow> row_settler \<Rightarrow> bool" where
  "row_returns k again \<longleftrightarrow> (\<forall>row ans who d. returns k (again row ans who d))"

lemma allow_siblings_returns:
  assumes "row_returns k again"
  shows "returns k (allow_siblings again rec who d)"
proof -
  have one: "returns k (allow_sibling again who d row)" for row
    using assms by (auto simp: allow_sibling_def row_returns_def intro!: returns_bind split: option.split)
  have "returns k (bindE (forE rows (allow_sibling again who d)) (\<lambda>ys. retE (somes ys)))" for rows
    by (intro returns_bind returns_forE one returns_ret)
  then show ?thesis unfolding returns_def allow_siblings_def by blast
qed

lemma deliver_answer_returns: "returns k (deliver_answer row d base)"
proof -
  have "\<forall>s. \<exists>e s'. enqueue (respond_input row) s = Inr (e, s')"
    by (auto simp: enqueue_def respond_input_def Let_def split: option.split)
  then have "\<exists>x s'. store_step (enqueue (respond_input row)) s = Inr (x, s') \<and> waiting_requests s' \<le> waiting_requests s" for s
  proof -
    from \<open>\<forall>s. \<exists>e s'. _ = Inr (e, s')\<close> obtain e s' where e: "enqueue (respond_input row) s = Inr (e, s')" by blast
    from enqueue_approvals [OF e] show ?thesis by (simp add: store_step_def e waiting_requests_def)
  qed
  then have "returns k (store_step (enqueue (respond_input row)))" by (simp add: returns_def)
  then have "returns k (whenE d (bindE (store_step (enqueue (respond_input row))) (\<lambda>_. retE ())))"
    by (simp add: whenE_def returns_bind)
  then show ?thesis
    unfolding deliver_answer_def by (auto intro!: returns_bind)
qed

lemma after_answer_returns:
  assumes "row_returns k again"
  shows "returns k (after_answer redact again row rec ans who d)"
proof -
  have "returns k (modE (approval_event ty r p))" for ty r p
    by (simp add: returns_def waiting_requests_def)
  moreover have "returns k (\<lambda>s. Inr (grant_rule redact rec s))"
    unfolding returns_def by (auto simp: grant_rule_def Let_def waiting_requests_def split: option.split)
  ultimately show ?thesis
    unfolding after_answer_def Let_def
    by (intro returns_bind) (auto intro: allow_siblings_returns [OF assms] deliver_answer_returns)
qed

lemma settle_row_closed:
  "ap_status row \<noteq> PPending \<Longrightarrow>
   \<exists>x s'. settle_row redact (Suc n) row ans who d s = Inr (x, s') \<and> waiting_requests s' \<le> waiting_requests s"
  by (cases "ap_status row") (simp_all add: settle_step_def)

lemma settle_row_returns: "Suc k < n \<Longrightarrow> row_returns k (settle_row redact n)"
proof (induction n arbitrary: k)
  case (Suc n)
  show ?case
    unfolding row_returns_def returns_def
  proof (intro allI impI)
    fix row ans who d s assume s: "waiting_requests s \<le> k"
    obtain m where n: "n = Suc m" using Suc.prems by (cases n) auto
    let ?P = "\<lambda>a. ap_status a = PPending" and ?f = "answered_row redact row ans who (clock s)"
    let ?s1 = "update_approval (ap_requestId row) ?P ?f s"
    have "\<exists>x s'. pending_step redact (settle_row redact n) row ans who d s = Inr (x, s') \<and> waiting_requests s' \<le> waiting_requests s"
    proof (cases "approval_changes (ap_requestId row) ?P s = 1")
      case True
      have "waiting_requests ?s1 + 1 = waiting_requests s"
        using pending_after_update [of ?f "ap_requestId row" s] True by (simp add: answered_row_def Let_def)
      moreover from this s have "Suc (k - 1) < n" "waiting_requests ?s1 \<le> k - 1" using Suc.prems by auto
      moreover note returnsD [OF after_answer_returns [OF Suc.IH [OF \<open>Suc (k - 1) < n\<close>]] \<open>waiting_requests ?s1 \<le> k - 1\<close>,
          of redact row "?f row" ans who d]
      ultimately obtain x u where
        "after_answer redact (settle_row redact n) row (?f row) ans who d ?s1 = Inr (x, u)" "waiting_requests u \<le> waiting_requests s"
        by (metis le_add1 le_trans)
      with True show ?thesis by (auto simp: pending_step_def Let_def split: option.split)
    next
      case False
      then show ?thesis
        unfolding n
        by (auto simp: pending_step_def Let_def simp del: settle_row.simps intro!: settle_row_closed split: option.split)
    qed
    then show "\<exists>x s'. settle_row redact (Suc n) row ans who d s = Inr (x, s') \<and> waiting_requests s' \<le> waiting_requests s"
      by (auto simp: settle_step_def split: approval_status.split)
  qed
qed simp

section \<open>More fuel changes nothing\<close>

definition refines :: "'a answer_txn \<Rightarrow> 'a answer_txn \<Rightarrow> bool" where
  "refines m m' \<longleftrightarrow> (\<forall>s r. m s = Inr r \<longrightarrow> m' s = Inr r)"

lemma refinesD: "refines m m' \<Longrightarrow> m s = Inr r \<Longrightarrow> m' s = Inr r"
  unfolding refines_def by blast

lemma refines_refl [simp]: "refines m m"
  by (simp add: refines_def)

lemma refines_bind:
  assumes "refines m m'" "\<And>x. refines (f x) (f' x)"
  shows "refines (bindE m f) (bindE m' f')"
  unfolding refines_def
proof (intro allI impI)
  fix s r assume "bindE m f s = Inr r"
  then obtain x t where "m s = Inr (x, t)" "f x t = Inr r" by (auto simp: bindE_apply split: sum.splits)
  with refinesD [OF assms(1)] refinesD [OF assms(2)] show "bindE m' f' s = Inr r" by (simp add: bindE_apply)
qed

lemma refines_forE:
  assumes "\<And>x. refines (f x) (g x)"
  shows "refines (forE xs f) (forE xs g)"
  unfolding refines_def
proof (intro allI impI)
  fix s r assume "forE xs f s = Inr r"
  then show "forE xs g s = Inr r"
  proof (induction xs arbitrary: s r)
    case (Cons x xs)
    then obtain y t ys u where "f x s = Inr (y, t)" "forE xs f t = Inr (ys, u)" "r = (y # ys, u)"
      by (auto split: sum.splits)
    with Cons.IH refinesD [OF assms] show ?case by simp
  qed simp
qed

definition extends :: "row_settler \<Rightarrow> row_settler \<Rightarrow> bool" where
  "extends f g \<longleftrightarrow> (\<forall>row ans who d. refines (f row ans who d) (g row ans who d))"

lemma allow_siblings_refines:
  assumes "extends f g"
  shows "refines (allow_siblings f rec who d) (allow_siblings g rec who d)"
proof -
  have "refines (allow_sibling f who d row) (allow_sibling g who d row)" for row
    using assms by (auto simp: allow_sibling_def extends_def intro!: refines_bind split: option.split)
  then have "refines (bindE (forE rows (allow_sibling f who d)) (\<lambda>ys. retE (somes ys)))
      (bindE (forE rows (allow_sibling g who d)) (\<lambda>ys. retE (somes ys)))" for rows
    by (intro refines_bind refines_forE refines_refl)
  then show ?thesis unfolding refines_def allow_siblings_def by blast
qed

lemma after_answer_refines:
  assumes "extends f g"
  shows "refines (after_answer redact f row rec ans who d) (after_answer redact g row rec ans who d)"
  unfolding after_answer_def Let_def
  by (intro refines_bind refines_refl) (simp add: allow_siblings_refines [OF assms])

lemma settle_step_refines:
  assumes "extends f g"
  shows "extends (settle_step redact f) (settle_step redact g)"
proof -
  have "pending_step redact g row ans who d s = Inr r" if "pending_step redact f row ans who d s = Inr r" for row ans who d s r
  proof -
    have again: "g row ans who d s = Inr r" if "f row ans who d s = Inr r" for row ans who d s r
      using assms that unfolding extends_def by (blast dest: refinesD)
    let ?m = "meaning_of (ap_questions row) ans" and ?P = "\<lambda>a. ap_status a = PPending"
    show ?thesis
    proof (cases "can_answer_approval (ap_threadId row) (ap_action row) (ap_reason row) who (fst ?m) (snd ?m) s")
      case (Some refusal)
      then show ?thesis using that by (simp add: pending_step_def Let_def)
    next
      case None
      show ?thesis
      proof (cases "?m = (DAllow, Some ScopeAlways) \<and> once_allow_option (ap_questions row) = None")
        case True
        then show ?thesis using that None by (simp add: pending_step_def Let_def)
      next
        case once: False
        show ?thesis
        proof (cases "approval_changes (ap_requestId row) ?P s = 1")
          case True
          then show ?thesis
            using that None once refinesD [OF after_answer_refines [OF assms]] unfolding pending_step_def Let_def if_not_P [OF once]
            by simp
        next
          case False
          then show ?thesis
            using that None again unfolding pending_step_def Let_def if_not_P [OF once]
            by (cases "get_approval (ap_requestId row) s") (auto split: if_splits)
        qed
      qed
    qed
  qed
  then show ?thesis
    unfolding extends_def refines_def settle_step_def by (auto split: approval_status.splits)
qed

lemma settle_row_mono: "n \<le> m \<Longrightarrow> extends (settle_row redact n) (settle_row redact m)"
proof (induction n arbitrary: m)
  case (Suc n)
  then obtain k where "m = Suc k" "n \<le> k" by (cases m) auto
  with Suc.IH show ?case by (simp add: settle_step_refines)
qed (simp add: extends_def refines_def)

end
