(* ===== verification/ApprovalSafety.thy ===== *)
theory ApprovalSafety
  imports ApprovalTotal
begin

text \<open>
  What the requests and rules of a thread promise, over any sequence of operations of \<open>ThreadApprovals\<close>
  interleaved with anything else the program does to other tables.
\<close>

section \<open>The lineage walk\<close>

definition parent_rel :: "store \<Rightarrow> (string \<times> string) set" where
  "parent_rel s = {(c, p). map_option ln_parentThreadId (get_lineage c s) = Some p}"

definition ancestors :: "string \<Rightarrow> store \<Rightarrow> string set" where
  "ancestors t s = {p. (t, p) \<in> (parent_rel s)\<^sup>+}"

lemma parent_rel_fun: "(c, p) \<in> parent_rel s \<Longrightarrow> (c, q) \<in> parent_rel s \<Longrightarrow> p = q"
  by (auto simp: parent_rel_def)

lemma parent_closure_step:
  assumes "(c, q) \<in> parent_rel s"
  shows "(c, x) \<in> (parent_rel s)\<^sup>+ \<longleftrightarrow> x = q \<or> (q, x) \<in> (parent_rel s)\<^sup>+"
proof
  assume "(c, x) \<in> (parent_rel s)\<^sup>+"
  then show "x = q \<or> (q, x) \<in> (parent_rel s)\<^sup>+"
  proof (rule converse_tranclE)
    show ?thesis if "(c, x) \<in> parent_rel s" using parent_rel_fun [OF assms that] by simp
    show ?thesis if "(c, y) \<in> parent_rel s" "(y, x) \<in> (parent_rel s)\<^sup>+" for y
      using parent_rel_fun [OF assms that(1)] that(2) by simp
  qed
next
  assume "x = q \<or> (q, x) \<in> (parent_rel s)\<^sup>+"
  then show "(c, x) \<in> (parent_rel s)\<^sup>+"
    using assms trancl_into_trancl2 [OF assms, of x] by blast
qed

lemma ancestors_parents: "ancestors t s \<subseteq> set (map ln_parentThreadId (lineage s))"
proof -
  have "p \<in> set (map ln_parentThreadId (lineage s))" if "(c, p) \<in> parent_rel s" for c p
    using that by (auto simp: parent_rel_def get_lineage_def dest!: lookup_row_Some)
  then show ?thesis unfolding ancestors_def by (blast elim: tranclE)
qed

lemma finite_ancestors: "finite (ancestors t s)"
  by (rule finite_subset [OF ancestors_parents]) simp

lemma card_ancestors: "card (ancestors t s) \<le> length (lineage s)"
  using card_mono [OF _ ancestors_parents] card_length [of "map ln_parentThreadId (lineage s)"]
  by (metis (no_types, lifting) List.finite_set le_trans length_map)

lemma stays_inside:
  assumes closed: "\<And>x y. x \<in> A \<Longrightarrow> (x, y) \<in> R \<Longrightarrow> y \<in> A" and "(c, x) \<in> R\<^sup>+" "c \<in> A"
  shows "x \<in> A"
  using assms(2,3) by (induction rule: trancl_induct) (auto intro: closed)

text \<open>
  Where the walk stands: \<open>out\<close> holds the ancestors passed, the rest lie above \<open>current\<close>, and only
  \<open>current\<close> has its parent outside.
\<close>

definition walking :: "store \<Rightarrow> string \<Rightarrow> string \<Rightarrow> string list \<Rightarrow> bool" where
  "walking s t current out \<longleftrightarrow>
     (\<forall>x. (t, x) \<in> (parent_rel s)\<^sup>+ \<longleftrightarrow> x \<in> set out \<or> (current, x) \<in> (parent_rel s)\<^sup>+) \<and> distinct out \<and>
     (\<forall>x \<in> set out. \<forall>y. x \<noteq> current \<longrightarrow> (x, y) \<in> parent_rel s \<longrightarrow> y \<in> set out)"

lemma ancestors_from_exact:
  "walking s t current out \<Longrightarrow> set (ancestors_from n current out s) \<subseteq> ancestors t s \<and>
   (card (ancestors t s) \<le> length out + n \<longrightarrow> set (ancestors_from n current out s) = ancestors t s)"
proof (induction n arbitrary: current out)
  case 0
  then have sub: "set out \<subseteq> ancestors t s" and "distinct out" by (auto simp: walking_def ancestors_def)
  then have "card (set out) = length out" by (simp add: distinct_card)
  then have "set out = ancestors t s" if "card (ancestors t s) \<le> length out"
    using that sub finite_ancestors by (intro card_seteq) auto
  with sub show ?case by simp
next
  case (Suc n)
  then have w: "\<And>x. (t, x) \<in> (parent_rel s)\<^sup>+ \<longleftrightarrow> x \<in> set out \<or> (current, x) \<in> (parent_rel s)\<^sup>+"
    and d: "distinct out"
    and closed: "\<And>x y. x \<in> set out \<Longrightarrow> x \<noteq> current \<Longrightarrow> (x, y) \<in> parent_rel s \<Longrightarrow> y \<in> set out"
    unfolding walking_def by blast+
  show ?case
  proof (cases "get_lineage current s")
    case None
    then have "(current, y) \<notin> parent_rel s" for y by (simp add: parent_rel_def)
    then have "(current, x) \<notin> (parent_rel s)\<^sup>+" for x by (metis converse_tranclE)
    with w have "set out = ancestors t s" by (auto simp: ancestors_def)
    with None show ?thesis by simp
  next
    case (Some link)
    let ?q = "ln_parentThreadId link"
    have q: "(current, ?q) \<in> parent_rel s" using Some by (simp add: parent_rel_def)
    show ?thesis
    proof (cases "?q \<in> set out")
      case True
      have "x \<in> set out" if "(current, x) \<in> (parent_rel s)\<^sup>+" for x
      proof -
        have inside: "y \<in> set out" if "x \<in> set out" "(x, y) \<in> parent_rel s" for x y
          using that closed [of x y] True parent_rel_fun [OF q, of y] by blast
        have "x = ?q \<or> (?q, x) \<in> (parent_rel s)\<^sup>+" using that by (simp add: parent_closure_step [OF q])
        then show ?thesis using True stays_inside [of "set out" "parent_rel s" ?q x] inside by blast
      qed
      with w have "set out = ancestors t s" by (auto simp: ancestors_def)
      with Some True show ?thesis by simp
    next
      case False
      have "walking s t ?q (out @ [?q])"
        unfolding walking_def
      proof (intro conjI allI ballI impI)
        show "(t, x) \<in> (parent_rel s)\<^sup>+ \<longleftrightarrow> x \<in> set (out @ [?q]) \<or> (?q, x) \<in> (parent_rel s)\<^sup>+" for x
          using w [of x] parent_closure_step [OF q, of x] by auto
        show "distinct (out @ [?q])" using d False by simp
        show "y \<in> set (out @ [?q])" if "x \<in> set (out @ [?q])" "x \<noteq> ?q" "(x, y) \<in> parent_rel s" for x y
          using that closed [of x y] parent_rel_fun [OF q, of y] by auto
      qed
      from Suc.IH [OF this] Some False show ?thesis by (simp add: add.commute)
    qed
  qed
qed

lemma ancestors_of_exact:
  "set (ancestors_of t s) \<subseteq> ancestors t s"
  "card (ancestors t s) \<le> LINEAGE_MAX_DEPTH \<Longrightarrow> set (ancestors_of t s) = ancestors t s"
  using ancestors_from_exact [of s t t "[]" LINEAGE_MAX_DEPTH] by (simp_all add: ancestors_of_def walking_def)

section \<open>Sequences of operations\<close>

datatype approval_op =
    OpCreate new_approval
  | OpSettle string answers answerer bool
  | OpSend string "string option" answerer
  | OpBind "string list" string
  | OpDelivered string
  | OpRetire string
  | OpCancel string string
  | OpCancelThread string string
  | OpCancelRun string string
  | OpBoot "string \<Rightarrow> string list option" "string \<Rightarrow> bool"
  | OpConsume string string "string option"
  | OpRevoke string "string option"
  | OpRevokeMadeBy string "(string \<times> string) option"
  | OpForgetThread string

text \<open>The state a call leaves: a rollback leaves it as it was.\<close>

definition left_by :: "('e, store, 'a) txn \<Rightarrow> store \<Rightarrow> store" where
  "left_by m s = (case m s of Inl e \<Rightarrow> s | Inr (x, s') \<Rightarrow> s')"

fun perform :: "(string \<Rightarrow> string) \<Rightarrow> approval_op \<Rightarrow> store \<Rightarrow> store" where
  "perform redact (OpCreate input) = left_by (create_approval input)"
| "perform redact (OpSettle i ans who deliver) = left_by (settle_approval redact i ans who deliver)"
| "perform redact (OpSend t feedback who) = left_by (settle_for_send redact t feedback who)"
| "perform redact (OpBind ids runId) = left_by (bind_delivery ids runId)"
| "perform redact (OpDelivered i) = left_by (mark_answer_delivered i)"
| "perform redact (OpRetire t) = left_by (retire_delivery t)"
| "perform redact (OpCancel i reason) = left_by (cancel_approval i reason)"
| "perform redact (OpCancelThread t reason) = left_by (cancel_for_thread t reason)"
| "perform redact (OpCancelRun r reason) = left_by (cancel_for_run r reason)"
| "perform redact (OpBoot named unattended) = left_by (recover_approvals_on_boot named unattended)"
| "perform redact (OpConsume t r fp) = left_by (consume_continuation_grant t r fp)"
| "perform redact (OpRevoke t fp) = left_by (revoke_rules t fp)"
| "perform redact (OpRevokeMadeBy node only) = left_by (revoke_rules_made_by node only)"
| "perform redact (OpForgetThread t) = left_by (delete_approvals_for_thread t)"

inductive approval_run :: "(string \<Rightarrow> string) \<Rightarrow> approval_op list \<Rightarrow> store \<Rightarrow> store \<Rightarrow> bool" for redact where
  start: "approval_run redact [] s s"
| call: "approval_run redact ops s t \<Longrightarrow> approval_run redact (ops @ [call]) s (perform redact call t)"
| elsewhere: "approval_run redact ops s t \<Longrightarrow> approvals u = approvals t \<Longrightarrow> approval_rules u = approval_rules t \<Longrightarrow>
    approval_run redact ops s u"

lemma left_byI: "(\<And>x s'. m s = Inr (x, s') \<Longrightarrow> P s') \<Longrightarrow> P s \<Longrightarrow> P (left_by m s)"
  by (auto simp: left_by_def split: sum.split)

lemma left_by_moves: "(\<And>x s'. m s = Inr (x, s') \<Longrightarrow> approval_moves s s') \<Longrightarrow> approval_moves s (left_by m s)"
  by (rule left_byI) auto

lemma perform_moves:
  assumes ok: "approvals_ok s" and keep: "\<And>t. call \<noteq> OpForgetThread t"
  shows "approval_moves s (perform redact call s)"
proof (cases call)
  case (OpCreate input)
  then show ?thesis by (auto intro!: left_by_moves dest: create_move)
next
  case (OpForgetThread t)
  with keep show ?thesis by blast
qed (auto intro!: left_by_moves dest: settle_moves [OF _ ok] settle_for_send_moves [OF _ ok] boot_moves [OF _ ok]
    consume_move [OF _ ok] alwaysD [OF delivery_moves(1)] alwaysD [OF delivery_moves(2)] alwaysD [OF delivery_moves(3)]
    alwaysD [OF delivery_moves(4)] alwaysD [OF delivery_moves(5)] alwaysD [OF retire_moves] alwaysD [OF revoke_moves(1)]
    alwaysD [OF revoke_moves(2)])

lemma forget_thread_ok: "approvals_ok s \<Longrightarrow> approvals_ok (perform redact (OpForgetThread t) s)"
  by (auto simp: left_by_def delete_approvals_for_thread_def approvals_ok_def rules_ok_def distinct_map_filter)
    (metis evidence_def)

lemma perform_ok: "approvals_ok s \<Longrightarrow> approvals_ok (perform redact call s)"
  using forget_thread_ok perform_moves moves_ok by (metis approval_op.exhaust)

lemma approvals_ok_cong: "approvals u = approvals t \<Longrightarrow> approval_rules u = approval_rules t \<Longrightarrow> approvals_ok u = approvals_ok t"
  by (simp add: approvals_ok_def rules_ok_def)

lemma approval_run_ok: "approval_run redact ops s t \<Longrightarrow> approvals_ok s \<Longrightarrow> approvals_ok t"
proof (induction rule: approval_run.induct)
  case (elsewhere ops s t u)
  then show ?case using approvals_ok_cong [of u t] by blast
qed (auto intro: perform_ok)

lemma perform_later:
  assumes "approvals_ok s" "a \<in> set (approvals s)" "call \<noteq> OpForgetThread (ap_threadId a)"
  shows "\<exists>b \<in> set (approvals (perform redact call s)). later a b"
proof (cases "\<exists>t. call = OpForgetThread t")
  case True
  then obtain t where "call = OpForgetThread t" "t \<noteq> ap_threadId a" using assms(3) by blast
  then have "a \<in> set (approvals (perform redact call s))"
    using assms(2) by (auto simp: left_by_def delete_approvals_for_thread_def)
  then show ?thesis by (blast intro: later_refl)
next
  case False
  with perform_moves [OF assms(1), of call redact] assms(2) show ?thesis
    by (auto dest!: moves_later simp: requests_later_def)
qed

lemma approval_run_later:
  assumes "approval_run redact ops s t" "approvals_ok s" "a \<in> set (approvals s)" "OpForgetThread (ap_threadId a) \<notin> set ops"
  shows "\<exists>b \<in> set (approvals t). later a b"
  using assms
proof (induction rule: approval_run.induct)
  case (start s)
  then show ?case by (blast intro: later_refl)
next
  case (call ops s t c)
  then obtain b where b: "b \<in> set (approvals t)" "later a b" by auto
  have "\<exists>x \<in> set (approvals (perform redact c t)). later b x"
    by (rule perform_later [OF approval_run_ok [OF call.hyps call.prems(1)] b(1)])
      (use call.prems(3) later_fixed [OF b(2)] in auto)
  then show ?case using later_trans [OF b(2)] by blast
next
  case (elsewhere ops s t u)
  then show ?case by simp
qed

lemma found_by_id:
  "approvals_ok t \<Longrightarrow> b \<in> set (approvals t) \<Longrightarrow> get_approval (ap_requestId b) t = Some b"
  by (auto simp: get_approval_def approvals_ok_def intro: lookup_row_mem)

section \<open>Properties\<close>

text \<open>C24: Only a person makes a standing rule. Over any sequence of operations on requests and rules, from
  empty tables, every standing rule stands on a stored request of its thread with its fingerprint that a person
  answered "allow, always" (through a bridge only from a named computer), and the mode it was granted under is
  no looser than the one the request was asked under. A rule that answers a request on its own is one of the
  thread's, for that fingerprint, and never where the thread's current mode is stricter than the rule's.\<close>

theorem standing_rules_are_a_persons:
  assumes "approval_run redact ops s t" "approvals s = []" "approval_rules s = []"
  shows "(\<forall>r \<in> set (approval_rules t). \<exists>a \<in> set (approvals t). ru_sourceRequestId r = Some (ap_requestId a) \<and>
      ap_threadId a = ru_threadId r \<and> ap_fingerprint a = Some (ru_fingerprint r) \<and> ap_decision a = Some DAllow \<and>
      ap_decisionScope a = Some ScopeAlways \<and>
      (\<exists>via node. ap_answeredBy a = Some (AnsweredUser via node) \<and> (via = Some ViaBridge \<longrightarrow> node \<noteq> None)) \<and>
      (\<exists>m. ap_permissionMode a = Some m \<and> ru_grantedUnder r \<le> m)) \<and>
    (\<forall>threadId key fp mode r. match_rule threadId key fp mode t = Some r \<longrightarrow>
      r \<in> set (approval_rules t) \<and> ru_threadId r = threadId \<and> fp = Some (ru_fingerprint r) \<and> ru_grantedUnder r \<le> mode)"
proof (intro conjI allI impI ballI)
  have "approvals_ok s" using assms by (simp add: approvals_ok_def rules_ok_def)
  from approval_run_ok [OF assms(1) this] have "rules_ok t" by (simp add: approvals_ok_def)
  then show "\<exists>a \<in> set (approvals t). ru_sourceRequestId r = Some (ap_requestId a) \<and>
      ap_threadId a = ru_threadId r \<and> ap_fingerprint a = Some (ru_fingerprint r) \<and> ap_decision a = Some DAllow \<and>
      ap_decisionScope a = Some ScopeAlways \<and>
      (\<exists>via node. ap_answeredBy a = Some (AnsweredUser via node) \<and> (via = Some ViaBridge \<longrightarrow> node \<noteq> None)) \<and>
      (\<exists>m. ap_permissionMode a = Some m \<and> ru_grantedUnder r \<le> m)" if "r \<in> set (approval_rules t)" for r
  proof -
    from \<open>rules_ok t\<close> that obtain a where a: "a \<in> set (approvals t)" "evidence r a" by (auto simp: rules_ok_def)
    then have "standing_answerer (ap_answeredBy a)" by (simp add: evidence_def)
    then have "\<exists>via node. ap_answeredBy a = Some (AnsweredUser via node) \<and> (via = Some ViaBridge \<longrightarrow> node \<noteq> None)"
      by (cases "ap_answeredBy a" rule: standing_answerer.cases) auto
    with a show ?thesis by (auto simp: evidence_def)
  qed
qed (auto simp: match_rule_def is_stricter_def less_eq_permission_mode_def dest!: find_Some_iff_mem split: option.splits if_splits)

text \<open>C25: A request is settled once. Once answered or cancelled, it keeps its status, answers, decision, scope,
  feedback, answerer, reason and time through any sequence of operations that does not delete its thread; an
  answer that was delivered keeps the time and the run it was delivered to, and a grant that was consumed stays
  consumed.\<close>

theorem settled_once:
  assumes "approval_run redact ops s t" "approvals_ok s" "a \<in> set (approvals s)" "ap_status a \<noteq> PPending"
    and "OpForgetThread (ap_threadId a) \<notin> set ops"
  shows "\<exists>b. get_approval (ap_requestId a) t = Some b \<and> same_subject a b \<and> same_answer a b \<and>
    (ap_deliveredAt a \<noteq> None \<longrightarrow> ap_deliveredAt b = ap_deliveredAt a \<and> ap_continuationRunId b = ap_continuationRunId a) \<and>
    (ap_grantConsumedAt a \<noteq> None \<longrightarrow> ap_grantConsumedAt b = ap_grantConsumedAt a)"
proof -
  from approval_run_later [OF assms(1-3,5)] obtain b where b: "b \<in> set (approvals t)" "later a b" ..
  have "get_approval (ap_requestId a) t = Some b"
    using found_by_id [OF approval_run_ok [OF assms(1,2)] b(1)] later_fixed [OF b(2)] by simp
  with b assms(4) show ?thesis by (auto simp: later_def)
qed

text \<open>C26: A continuation grant is used once. What lets a continuing run repeat an action without asking is a
  stored request of that thread with the same fingerprint that was answered "allow" and delivered to exactly that
  run; from then on that request is consumed and never grants anything again, to that run or another, whatever
  happens short of deleting the thread.\<close>

theorem grant_used_once:
  assumes "consume_continuation_grant threadId runId fp s = Inr (True, s')" "approvals_ok s"
    and "approval_run redact ops s' t" "OpForgetThread threadId \<notin> set ops"
  shows "\<exists>a b. a \<in> set (approvals s) \<and> ap_threadId a = threadId \<and> ap_fingerprint a = fp \<and> fp \<noteq> None \<and>
    ap_continuationRunId a = Some runId \<and> ap_decision a = Some DAllow \<and> ap_answeredBy a \<noteq> None \<and> ap_grantConsumedAt a = None \<and>
    get_approval (ap_requestId a) t = Some b \<and> ap_grantConsumedAt b = Some (clock s) \<and>
    (\<forall>anyThread anyRun anyFp. b \<notin> set (grants_for anyThread anyRun anyFp t))"
proof -
  let ?f = "\<lambda>a. a\<lparr>ap_grantConsumedAt := Some (clock s)\<rparr>"
  from assms(1) obtain row rest where g: "grants_for threadId runId (the fp) s = row # rest" and fp: "truthy fp"
    and upd: "approvals s' = approvals (update_approval (ap_requestId row) (\<lambda>a. ap_grantConsumedAt a = None) ?f s)"
    by (auto simp: consume_continuation_grant_def Let_def split: if_splits list.splits option.splits)
  have "row \<in> set (grants_for threadId runId (the fp) s)" by (simp add: g)
  then have row: "row \<in> set (approvals s)" "ap_threadId row = threadId" "ap_continuationRunId row = Some runId"
    "ap_fingerprint row = fp" "fp \<noteq> None" "ap_decision row = Some DAllow" "ap_grantConsumedAt row = None"
    using fp by (auto simp: grants_for_def select_approvals_def truthy_def)
  have answered: "ap_answeredBy row \<noteq> None" using row assms(2) by (auto simp: approvals_ok_def request_ok_def)
  have mem: "?f row \<in> set (approvals s')" using row upd by (auto simp: set_update_rows)
  have ok: "approvals_ok s'" using moves_ok [OF consume_move [OF assms(1,2)] assms(2)] .
  have "\<exists>b \<in> set (approvals t). later (?f row) b"
    by (rule approval_run_later [OF assms(3) ok mem]) (use row assms(4) in simp)
  then obtain b where b: "b \<in> set (approvals t)" "later (?f row) b" ..
  then have "ap_grantConsumedAt b = Some (clock s)" "ap_requestId b = ap_requestId row"
    by (simp_all add: later_def same_subject_def)
  moreover have "get_approval (ap_requestId row) t = Some b"
    using found_by_id [OF approval_run_ok [OF assms(3) ok] b(1)] calculation(2) by simp
  moreover have "b \<notin> set (grants_for anyThread anyRun anyFp t)" for anyThread anyRun anyFp
    using calculation(1) by (simp add: grants_for_def select_approvals_def)
  ultimately show ?thesis using row answered by blast
qed

end
