(* ===== verification/ApprovalPromises.thy ===== *)
theory ApprovalPromises
  imports ApprovalSafety
begin

text \<open>
  What answering promises: it returns, an agent answers only what it may, boot leaves nothing waiting for a
  provider that is gone.
\<close>

section \<open>Answering returns\<close>

text \<open>C27: Answering always returns. \<open>settle\<close> and \<open>settleForSend\<close> end with a result on every state and input, the
  fuel they start with is enough however many identical requests an "always" settles, and any larger amount gives
  the same result and the same state.\<close>

theorem answering_returns:
  "(\<exists>x s'. settle_approval redact i ans who deliver s = Inr (x, s') \<and>
      (\<forall>row n. get_approval i s = Some row \<longrightarrow> settle_fuel s \<le> n \<longrightarrow> settle_row redact n row ans who deliver s = Inr (x, s'))) \<and>
   (\<exists>y t. settle_for_send redact threadId feedback who s = Inr (y, t))"
proof
  have enough: "row_returns (waiting_requests s) (settle_row redact (settle_fuel s))"
    by (rule settle_row_returns) (simp add: settle_fuel_def)
  show "\<exists>x s'. settle_approval redact i ans who deliver s = Inr (x, s') \<and>
      (\<forall>row n. get_approval i s = Some row \<longrightarrow> settle_fuel s \<le> n \<longrightarrow> settle_row redact n row ans who deliver s = Inr (x, s'))"
  proof (cases "get_approval i s")
    case (Some row)
    obtain x s' where run: "settle_row redact (settle_fuel s) row ans who deliver s = Inr (x, s')"
      using enough unfolding row_returns_def by (blast elim: returnsD [OF _ order_refl])
    have "settle_row redact n row ans who deliver s = Inr (x, s')" if "settle_fuel s \<le> n" for n
      using settle_row_mono [OF that, of redact] run unfolding extends_def by (blast dest: refinesD)
    with Some run show ?thesis by (auto simp: settle_approval_def)
  qed (simp add: settle_approval_def)
  have "returns (waiting_requests s) (deny_for_send redact (settle_fuel s) feedback who row)" for row
    using enough by (auto simp: deny_for_send_def row_returns_def intro!: returns_bind)
  then have "returns (waiting_requests s) (bindE (forE rows (deny_for_send redact (settle_fuel s) feedback who)) (\<lambda>outcomes.
       bindE (getE (waiting_answers threadId)) (\<lambda>waiting.
       retE (SendSettled (distinct_first (somes outcomes @ map ap_requestId waiting)) (somes outcomes)))))" for rows
    by (intro returns_bind returns_forE returns_ret)
  from returnsD [OF this order_refl] show "\<exists>y t. settle_for_send redact threadId feedback who s = Inr (y, t)"
    unfolding settle_for_send_def Let_def by (metis (no_types, lifting))
qed

section \<open>What an agent may answer\<close>

lemma settled_row_inv:
  assumes "settle_row redact (Suc (Suc n)) row ans who deliver s = Inr (AnswerSettled out, s')"
  shows "ap_status row = PPending"
    "can_answer_approval (ap_threadId row) (ap_action row) (ap_reason row) who
       (fst (meaning_of (ap_questions row) ans)) (snd (meaning_of (ap_questions row) ans)) s = None"
    "after_answer redact (settle_row redact (Suc n)) row (answered_row redact row ans who (clock s) row) ans who deliver
       (update_approval (ap_requestId row) (\<lambda>a. ap_status a = PPending) (answered_row redact row ans who (clock s)) s) =
     Inr (AnswerSettled out, s')"
proof -
  show pending: "ap_status row = PPending"
    using assms by (cases "ap_status row") (auto simp: settle_step_def)
  have closed: "settle_row redact (Suc n) c a w d u \<noteq> Inr (AnswerSettled x, v)" if "ap_status c \<noteq> PPending" for c a w d u x v
    using that by (cases "ap_status c") (auto simp: settle_step_def)
  have run: "pending_step redact (settle_row redact (Suc n)) row ans who deliver s = Inr (AnswerSettled out, s')"
    using assms pending by (simp add: settle_step_def del: settle_row.simps(2) add: settle_row.simps(2) [of redact "Suc n"])
  then show "can_answer_approval (ap_threadId row) (ap_action row) (ap_reason row) who
       (fst (meaning_of (ap_questions row) ans)) (snd (meaning_of (ap_questions row) ans)) s = None"
    by (auto simp: pending_step_def Let_def split: option.splits)
  with run closed show "after_answer redact (settle_row redact (Suc n)) row (answered_row redact row ans who (clock s) row) ans who deliver
       (update_approval (ap_requestId row) (\<lambda>a. ap_status a = PPending) (answered_row redact row ans who (clock s)) s) =
     Inr (AnswerSettled out, s')"
    unfolding pending_step_def Let_def by (auto simp del: settle_row.simps split: if_splits option.splits)
qed

lemma agent_makes_no_rule:
  assumes "after_answer redact again row rec ans who deliver s = Inr (AnswerSettled out, s')" "\<not> is_user who"
  shows "sa_rule out = None \<and> sa_siblings out = [] \<and> approval_rules s' = approval_rules s \<and> approvals s' = approvals s"
proof -
  have "deliver_answer row deliver \<lparr>sa_decision = a, sa_scope = b, sa_record = rec, sa_continuationDue = None, sa_rule = None,
      sa_siblings = []\<rparr> u = Inr (AnswerSettled out, s') \<Longrightarrow>
    sa_rule out = None \<and> sa_siblings out = [] \<and> approval_rules s' = approval_rules u \<and> approvals s' = approvals u" for a b u
    by (auto simp: deliver_answer_def bindE_Inr whenE_Inr store_step_def dest!: enqueue_approvals split: if_splits sum.splits)
  with assms show ?thesis unfolding after_answer_def Let_def bindE_modE by (fastforce simp: bindE_apply retE_def)
qed

text \<open>C28: An agent answers only what it may. When an agent's answer settles a request, the request is of another
  thread, its provider does not reserve it for a person, and the agent's own permission mode allows the action
  without asking; the thread is the agent's direct subagent, or the agent has manage access, the switch for
  answering approvals and access to the project, and then, provided that neither of the two threads has more than
  64 ancestors, they have nothing in common in the lineage (the transitive parent relation): neither above the other
  and no common ancestor. The answer is never "always" and no standing rule changes. For a deeper lineage the walk does
  not see all of it and nothing is claimed about it (\<open>deep_lineage_is_unseen\<close> below).\<close>

theorem agent_answers_what_it_may:
  assumes "settle_approval redact i ans (AgentAnswerer agent runId mode toolCall acc) deliver s = Inr (AnswerSettled out, s')"
  shows "\<exists>row. get_approval i s = Some row \<and> ap_threadId row \<noteq> agent \<and> \<not> truthy (ap_reason row) \<and>
    permission_mode_allows mode (ap_action row) \<and> (sa_decision out, sa_scope out) \<noteq> (DAllow, Some ScopeAlways) \<and>
    sa_rule out = None \<and> approval_rules s' = approval_rules s \<and>
    ((\<exists>link. get_lineage (ap_threadId row) s = Some link \<and> ln_parentThreadId link = agent \<and> ln_relationship link = Subagent) \<or>
     (\<exists>a. acc = Some a \<and> aa_level a = Manage \<and> aa_answerApprovals a \<and>
        aa_projectAllowed a (ap_threadId row) = ProjectAllowed True \<and>
        (card (ancestors agent s) \<le> LINEAGE_MAX_DEPTH \<and> card (ancestors (ap_threadId row) s) \<le> LINEAGE_MAX_DEPTH \<longrightarrow>
          agent \<notin> ancestors (ap_threadId row) s \<and> ap_threadId row \<notin> ancestors agent s \<and>
          ancestors (ap_threadId row) s \<inter> ancestors agent s = {})))"
proof -
  let ?who = "AgentAnswerer agent runId mode toolCall acc"
  obtain row where row: "get_approval i s = Some row"
    and run: "settle_row redact (Suc (Suc (waiting_requests s))) row ans ?who deliver s = Inr (AnswerSettled out, s')"
    using assms(1) by (auto simp: settle_approval_def settle_fuel_def simp del: settle_row.simps split: option.splits)
  let ?m = "meaning_of (ap_questions row) ans"
  note inv = settled_row_inv [OF run]
  have may: "ap_threadId row \<noteq> agent" "\<not> truthy (ap_reason row)" "permission_mode_allows mode (ap_action row)"
    "\<not> (fst ?m = DAllow \<and> snd ?m = Some ScopeAlways)"
    "is_own_subagent (ap_threadId row) agent s \<or> access_refusal (ap_threadId row) agent acc s = None"
    using inv(2) by (auto simp: can_answer_approval_def split: if_splits option.splits)
  have norule: "sa_rule out = None" "approval_rules s' = approval_rules s"
    using agent_makes_no_rule [OF inv(3)] by auto
  have said: "(sa_decision out, sa_scope out) = ?m"
    using inv(3) by (auto simp: after_answer_def Let_def bindE_modE bindE_Inr deliver_answer_def split: if_splits)
  have walk: "set (ancestors_of t s) = ancestors t s" if "card (ancestors t s) \<le> LINEAGE_MAX_DEPTH" for t
    using ancestors_of_exact(2) that by blast
  let ?own = "\<exists>link. get_lineage (ap_threadId row) s = Some link \<and> ln_parentThreadId link = agent \<and> ln_relationship link = Subagent"
  let ?far = "\<exists>a. acc = Some a \<and> aa_level a = Manage \<and> aa_answerApprovals a \<and>
        aa_projectAllowed a (ap_threadId row) = ProjectAllowed True \<and>
        (card (ancestors agent s) \<le> LINEAGE_MAX_DEPTH \<and> card (ancestors (ap_threadId row) s) \<le> LINEAGE_MAX_DEPTH \<longrightarrow>
          agent \<notin> ancestors (ap_threadId row) s \<and> ap_threadId row \<notin> ancestors agent s \<and>
          ancestors (ap_threadId row) s \<inter> ancestors agent s = {})"
  from may(5) have "?own \<or> ?far"
  proof
    assume "is_own_subagent (ap_threadId row) agent s"
    then have ?own by (auto simp: is_own_subagent_def split: option.splits)
    then show ?thesis ..
  next
    assume "access_refusal (ap_threadId row) agent acc s = None"
    then obtain a where a: "acc = Some a" "aa_level a = Manage" "aa_answerApprovals a"
      "aa_projectAllowed a (ap_threadId row) = ProjectAllowed True"
      and apart: "agent \<notin> set (ancestors_of (ap_threadId row) s)" "ap_threadId row \<notin> set (ancestors_of agent s)"
        "set (ancestors_of (ap_threadId row) s) \<inter> set (ancestors_of agent s) = {}"
      by (auto simp: access_refusal_def Let_def list_ex_iff split: option.splits if_splits)
    have ?far
    proof (intro exI [of _ a] conjI impI a)
      assume "card (ancestors agent s) \<le> LINEAGE_MAX_DEPTH \<and> card (ancestors (ap_threadId row) s) \<le> LINEAGE_MAX_DEPTH"
      with apart show "agent \<notin> ancestors (ap_threadId row) s" "ap_threadId row \<notin> ancestors agent s"
        "ancestors (ap_threadId row) s \<inter> ancestors agent s = {}" by (simp_all add: walk)
    qed
    then show ?thesis ..
  qed
  with row may norule said show ?thesis by (intro exI [of _ row]) auto
qed

section \<open>A lineage deeper than the walk\<close>

text \<open>
  A thread whose ancestors exceed the depth the walk stops at: the walk does not see the last of them, so an agent
  with manage access answers a request of the thread at the top of its own lineage.
\<close>

definition deep_thread :: "nat \<Rightarrow> string" where
  "deep_thread n = CHR ''t'' # nat_str n"

definition deep_link :: "nat \<Rightarrow> lineage_record" where
  "deep_link n = \<lparr>ln_threadId = deep_thread n, ln_parentThreadId = deep_thread (Suc n),
     ln_parentRunId = ''run'', ln_relationship = Fork, ln_createdAt = 0\<rparr>"

definition deep_store :: store where
  "deep_store = (empty_store 0 (\<lambda>_. []))\<lparr>lineage := map deep_link [0..<65]\<rparr>"

lemma deep_parent: "n < 65 \<Longrightarrow> (deep_thread n, deep_thread (Suc n)) \<in> parent_rel deep_store"
proof -
  assume n: "n < 65"
  have "lookup_row ln_threadId (ln_threadId (deep_link n)) (map deep_link [0..<65]) = Some (deep_link n)"
    by (rule lookup_row_mem) (use n in \<open>auto simp: distinct_map inj_on_def deep_link_def deep_thread_def\<close>)
  then show ?thesis by (simp add: parent_rel_def get_lineage_def deep_store_def deep_link_def)
qed

lemma deep_lineage_is_unseen:
  "deep_thread 65 \<in> ancestors (deep_thread 0) deep_store"
  "can_answer_approval (deep_thread 65) ActEdit None
     (AgentAnswerer (deep_thread 0) ''run'' ModeFull None
       (Some \<lparr>aa_level = Manage, aa_answerApprovals = True, aa_projectAllowed = (\<lambda>_. ProjectAllowed True)\<rparr>))
     DAllow None deep_store = None"
proof -
  have "n \<le> 65 \<Longrightarrow> 0 < n \<Longrightarrow> (deep_thread 0, deep_thread n) \<in> (parent_rel deep_store)\<^sup>+" for n
  proof (induction n)
    case (Suc n)
    then show ?case
      using deep_parent [of n] by (cases "n = 0") (auto intro: trancl_into_trancl)
  qed simp
  then show "deep_thread 65 \<in> ancestors (deep_thread 0) deep_store" by (simp add: ancestors_def)
qed code_simp

section \<open>Boot\<close>

lemma set_report_waiting: "set (report_waiting out rows) = set out \<union> ap_requestId ` set rows"
  unfolding report_waiting_def by (induction rows arbitrary: out) auto

lemma set_somes_map: "set (somes (map f xs)) = {y. \<exists>x \<in> set xs. f x = Some y}"
  by (induction xs) (auto simp: somes_def map_filter_simps split: option.splits)

lemma mem_select [simp]: "a \<in> set (select_approvals P s) \<longleftrightarrow> a \<in> set (approvals s) \<and> P a"
  by (auto simp: select_approvals_def)

text \<open>What the fate of a row says of the row it becomes.\<close>

lemma fate_row:
  assumes "boot_row a"
  shows "boot_continued (boot_fate unattended s a) = (if ap_status (booted_row named unattended s a) = PPending then Some (ap_requestId a) else None)"
    "boot_closed (boot_fate unattended s a) = (if ap_status (booted_row named unattended s a) = PCancelled then Some (ap_requestId a) else None)"
    "boot_undelivered (boot_fate unattended s a) =
      (if ap_status (booted_row named unattended s a) = PAnswered \<and> ap_deliveredAt (booted_row named unattended s a) = None
       then Some (ap_requestId a) else None)"
    "ap_status (booted_row named unattended s a) = PPending \<Longrightarrow>
      ap_answerPath (booted_row named unattended s a) = PathContinue \<and> continuing a s \<noteq> None \<and> \<not> left_alone unattended a"
    "ap_status (booted_row named unattended s a) = PAnswered \<Longrightarrow> ap_deliveredAt (booted_row named unattended s a) = None \<Longrightarrow>
      ap_answerPath (booted_row named unattended s a) = PathContinue"
  using assms
  by (cases "continuing a s"; cases "ap_status a"; cases "left_alone unattended a";
      simp add: boot_row_def boot_fate_def booted_row_def cancelled_row_def)+

lemma booted_row_run: "ap_runId (booted_row named unattended s a) = ap_runId a"
  by (cases rule: booted_row_cases [of a named unattended s]) (simp_all add: cancelled_row_def)

definition gone :: "(string \<Rightarrow> string list option) \<Rightarrow> (string \<Rightarrow> bool) \<Rightarrow> store \<Rightarrow> approval_row \<Rightarrow> approval_row" where
  "gone named unattended s a = (if boot_row a then booted_row named unattended s a else a)"

lemma gone_waits:
  "ap_status (gone named unattended s a) = PPending \<Longrightarrow>
    boot_row a \<and> ap_answerPath (gone named unattended s a) = PathContinue \<and>
    continuing (gone named unattended s a) s \<noteq> None \<and> \<not> left_alone unattended (gone named unattended s a)"
proof (cases "boot_row a")
  case True
  assume "ap_status (gone named unattended s a) = PPending"
  with True fate_row(4) [of a named unattended s] show ?thesis
    by (auto simp: gone_def continuing_def run_of_def left_alone_def booted_row_run split: if_splits)
qed (auto simp: gone_def boot_row_def split: if_splits)

lemma gone_undelivered:
  "ap_status (gone named unattended s a) = PAnswered \<Longrightarrow> ap_deliveredAt (gone named unattended s a) = None \<Longrightarrow>
    ap_answerPath (gone named unattended s a) = PathContinue"
  using fate_row(5) [of a named unattended s] by (cases "ap_answerPath a") (auto simp: gone_def boot_row_def split: if_splits)

lemma gone_id [simp]: "ap_requestId (gone named unattended s a) = ap_requestId a"
  by (simp add: gone_def)

text \<open>C29: Boot recovery of approvals is a map over the requests, and leaves none waiting for a provider that is
  gone. The loop over the rows, with its closures and updates, gives exactly the table in which each request that
  waited for an answer or whose live answer was not delivered has become what its own state and its run's say, and
  every other row is as it was. Then every pending request is answered by a continue turn, its run is interrupted or
  uncertain and attended; the report names exactly the pending requests as continued and exactly the answered
  requests without a delivery as undelivered, and these are delivered by a continue turn too.\<close>

theorem boot_is_a_map:
  assumes "distinct (map ap_requestId (approvals s))"
  shows "\<exists>report s'. recover_approvals_on_boot named unattended s = Inr (report, s') \<and>
    approvals s' = map (\<lambda>a. if boot_row a then booted_row named unattended s a else a) (approvals s) \<and>
    approval_rules s' = approval_rules s \<and>
    (\<forall>a \<in> set (approvals s'). ap_status a = PPending \<longrightarrow>
       ap_answerPath a = PathContinue \<and> continuing a s \<noteq> None \<and> \<not> left_alone unattended a) \<and>
    (\<forall>a \<in> set (approvals s'). ap_status a = PAnswered \<and> ap_deliveredAt a = None \<longrightarrow> ap_answerPath a = PathContinue) \<and>
    set (br_continued report) = {ap_requestId a |a. a \<in> set (approvals s') \<and> ap_status a = PPending} \<and>
    set (br_undelivered report) = {ap_requestId a |a. a \<in> set (approvals s') \<and> ap_status a = PAnswered \<and> ap_deliveredAt a = None}"
proof -
  let ?g = "gone named unattended s" and ?rows = "select_approvals boot_row s" and ?fates = "map (boot_fate unattended s)"
  from boot_rows_exact [OF assms, of named unattended] obtain s' where
    loop: "forE ?rows (recover_row named unattended (clock s)) s = Inr (?fates ?rows, s')"
    and s': "approvals s' = map ?g (approvals s)" "boot_frame s s'"
    by (auto simp: gone_def [abs_def])
  let ?waiting = "select_approvals (\<lambda>a. ap_status a = PAnswered \<and> ap_deliveredAt a = None \<and> ap_answerPath a = PathContinue) s'"
  let ?report = "\<lparr>br_continued = somes (map boot_continued (?fates ?rows)), br_cancelled = somes (map boot_closed (?fates ?rows)),
    br_undelivered = report_waiting (somes (map boot_undelivered (?fates ?rows))) ?waiting\<rparr>"
  have run: "recover_approvals_on_boot named unattended s = Inr (?report, s')"
    by (simp add: recover_approvals_on_boot_def bindE_apply loop getE_def retE_def)
  have path: "\<forall>a \<in> set (approvals s'). ap_status a = PAnswered \<and> ap_deliveredAt a = None \<longrightarrow> ap_answerPath a = PathContinue"
    unfolding s' using gone_undelivered by auto
  have wait: "\<forall>a \<in> set (approvals s'). ap_status a = PPending \<longrightarrow>
       ap_answerPath a = PathContinue \<and> continuing a s \<noteq> None \<and> \<not> left_alone unattended a"
    unfolding s' using gone_waits [of named unattended s] by auto
  have continued: "set (br_continued ?report) = {ap_requestId a |a. a \<in> set (approvals s') \<and> ap_status a = PPending}"
  proof -
    have "set (br_continued ?report) = {i. \<exists>a \<in> set (approvals s). boot_row a \<and> ap_status (?g a) = PPending \<and> i = ap_requestId a}"
      by (auto simp: set_somes_map fate_row(1) [of _ unattended s named] gone_def split: if_splits)
    also have "\<dots> = {ap_requestId (?g a) |a. a \<in> set (approvals s) \<and> ap_status (?g a) = PPending}"
      using gone_waits [of named unattended s] by auto
    also have "\<dots> = {ap_requestId a |a. a \<in> set (approvals s') \<and> ap_status a = PPending}"
      unfolding s' set_map by blast
    finally show ?thesis .
  qed
  have undelivered: "set (br_undelivered ?report) =
      {ap_requestId a |a. a \<in> set (approvals s') \<and> ap_status a = PAnswered \<and> ap_deliveredAt a = None}"
  proof -
    have "set (somes (map boot_undelivered (?fates ?rows))) =
        {i. \<exists>a \<in> set (approvals s). boot_row a \<and> ap_status (?g a) = PAnswered \<and> ap_deliveredAt (?g a) = None \<and> i = ap_requestId a}"
      by (auto simp: set_somes_map fate_row(3) [of _ unattended s named] gone_def split: if_splits)
    also have "\<dots> \<subseteq> {ap_requestId (?g a) |a. a \<in> set (approvals s) \<and> ap_status (?g a) = PAnswered \<and> ap_deliveredAt (?g a) = None}"
      by auto
    also have "\<dots> = {ap_requestId a |a. a \<in> set (approvals s') \<and> ap_status a = PAnswered \<and> ap_deliveredAt a = None}"
      unfolding s' set_map by blast
    finally show ?thesis using path by (auto simp: set_report_waiting)
  qed
  have rules: "approval_rules s' = approval_rules s" using s'(2) by (simp add: boot_frame_def)
  have rows: "approvals s' = map (\<lambda>a. if boot_row a then booted_row named unattended s a else a) (approvals s)"
    by (simp add: s' gone_def)
  from run rows rules wait path continued undelivered show ?thesis by blast
qed

end
