(* ===== verification/ApprovalExamples.thy ===== *)
theory ApprovalExamples
  imports ApprovalPromises
begin

text \<open>The properties of approval requests at concrete stores.\<close>

definition example_options :: "approval_option list" where
  "example_options = [\<lparr>ao_id = ''once'', ao_label = ''Allow'', ao_decision = DAllow, ao_scope = Some ScopeOnce\<rparr>,
     \<lparr>ao_id = ''always'', ao_label = ''Always'', ao_decision = DAllow, ao_scope = Some ScopeAlways\<rparr>,
     \<lparr>ao_id = ''no'', ao_label = ''Deny'', ao_decision = DReject, ao_scope = None\<rparr>]"

definition example_ask :: "string \<Rightarrow> new_approval" where
  "example_ask i = \<lparr>na_requestId = i, na_threadId = ''t'', na_runId = Some ''r'', na_instanceId = ''x'', na_provider = ''p'',
     na_action = ActEdit, na_permissionKey = ''edit'', na_fingerprint = Some ''f'',
     na_questions = [\<lparr>aq_id = ''q'', aq_prompt = ''Edit a'', aq_options = example_options, aq_allowMultiple = False\<rparr>],
     na_reason = None, na_answerPath = None, na_permissionMode = Some ModeAsk\<rparr>"

definition example_person :: answerer where
  "example_person = UserAnswerer (Some ViaGui) None None"

text \<open>Two identical requests of thread \<open>t\<close>, then the first answered "always".\<close>

definition asked_store :: store where
  "asked_store = perform id (OpCreate (example_ask ''b'')) (perform id (OpCreate (example_ask ''a'')) (empty_store 5 (\<lambda>_. [])))"

definition always_store :: store where
  "always_store = perform id (OpSettle ''a'' [(''q'', OneAnswer ''always'')] example_person False) asked_store"

lemma asked_run: "approval_run redact [OpCreate (example_ask ''a''), OpCreate (example_ask ''b'')] (empty_store 5 (\<lambda>_. [])) asked_store"
proof -
  have "approval_run redact ([] @ [OpCreate (example_ask ''a'')]) (empty_store 5 (\<lambda>_. []))
      (perform redact (OpCreate (example_ask ''a'')) (empty_store 5 (\<lambda>_. [])))"
    by (rule approval_run.call) (rule approval_run.start)
  from approval_run.call [OF this, where call = "OpCreate (example_ask ''b'')"] show ?thesis by (simp add: asked_store_def)
qed

lemma always_run:
  "approval_run id [OpCreate (example_ask ''a''), OpCreate (example_ask ''b''),
     OpSettle ''a'' [(''q'', OneAnswer ''always'')] example_person False] (empty_store 5 (\<lambda>_. [])) always_store"
  using approval_run.call [OF asked_run [of id], where call = "OpSettle ''a'' [(''q'', OneAnswer ''always'')] example_person False"]
  by (simp only: always_store_def append.simps)

lemma empty_ok: "approvals_ok (empty_store n u)"
  by (simp add: approvals_ok_def rules_ok_def empty_store_def)

lemma always_shape:
  "map (\<lambda>a. (ap_requestId a, ap_status a, ap_decision a)) (approvals always_store) =
     [(''a'', PAnswered, Some DAllow), (''b'', PAnswered, Some DAllow)]"
  "map (\<lambda>r. (ru_threadId r, ru_fingerprint r, ru_grantedUnder r)) (approval_rules always_store) = [(''t'', ''f'', ModeAsk)]"
  by code_simp+

theorem standing_rules_are_a_persons_witness:
  "\<exists>r \<in> set (approval_rules always_store). \<exists>a \<in> set (approvals always_store).
     ru_sourceRequestId r = Some (ap_requestId a) \<and> ap_decisionScope a = Some ScopeAlways"
proof -
  obtain r where "r \<in> set (approval_rules always_store)" using always_shape(2) by fastforce
  then show ?thesis
    using conjunct1 [OF standing_rules_are_a_persons [OF always_run]] by (fastforce simp: empty_store_def)
qed

lemma always_ok: "approvals_ok always_store"
  by (rule approval_run_ok [OF always_run empty_ok])

lemma first_always:
  "hd (approvals always_store) \<in> set (approvals always_store)" "ap_requestId (hd (approvals always_store)) = ''a''"
  "ap_status (hd (approvals always_store)) = PAnswered" "ap_decision (hd (approvals always_store)) = Some DAllow"
  using always_shape(1) by (cases "approvals always_store"; simp)+

theorem settled_once_witness:
  "\<exists>b. get_approval ''a'' (perform id (OpCancelThread ''t'' ''stopped'') always_store) = Some b \<and> ap_decision b = Some DAllow"
proof -
  have run: "approval_run id [OpCancelThread ''t'' ''stopped''] always_store (perform id (OpCancelThread ''t'' ''stopped'') always_store)"
    using approval_run.call [OF approval_run.start, where call = "OpCancelThread ''t'' ''stopped''"] by (simp only: append.simps)
  from settled_once [OF run always_ok first_always(1)] first_always show ?thesis by (auto simp: same_answer_def)
qed

text \<open>An answer that was given to run \<open>r2\<close> of thread \<open>t\<close>.\<close>

definition granted_store :: store where
  "granted_store = (empty_store 7 (\<lambda>_. []))\<lparr>approvals := [(hd (approvals asked_store))\<lparr>ap_answerPath := PathContinue,
     ap_status := PAnswered, ap_decision := Some DAllow, ap_answeredBy := Some (AnsweredUser None None),
     ap_deliveredAt := Some 6, ap_continuationRunId := Some ''r2''\<rparr>]\<rparr>"

lemma asked_shape:
  "map (\<lambda>a. (ap_requestId a, ap_threadId a, ap_fingerprint a, ap_status a, ap_decision a, ap_answeredBy a)) (approvals asked_store) =
     [(''a'', ''t'', Some ''f'', PPending, None, None), (''b'', ''t'', Some ''f'', PPending, None, None)]"
  "map (\<lambda>a. (ap_cancelReason a, ap_deliveredAt a, ap_continuationRunId a, ap_grantConsumedAt a, ap_decisionScope a)) (approvals asked_store) =
     [(None, None, None, None, None), (None, None, None, None, None)]"
  "approval_rules asked_store = []"
  by code_simp+

lemma granted_ok: "approvals_ok granted_store"
proof -
  have "ap_grantConsumedAt (hd (approvals asked_store)) = None" "ap_decisionScope (hd (approvals asked_store)) = None"
    "ap_cancelReason (hd (approvals asked_store)) = None"
    using asked_shape(2) by (cases "approvals asked_store"; simp)+
  then show ?thesis by (simp add: granted_store_def approvals_ok_def rules_ok_def request_ok_def empty_store_def)
qed

theorem grant_used_once_witness:
  "\<exists>s'. consume_continuation_grant ''t'' ''r2'' (Some ''f'') granted_store = Inr (True, s') \<and>
    (\<exists>b. get_approval ''a'' s' = Some b \<and> ap_grantConsumedAt b = Some 7)"
proof -
  have "(case consume_continuation_grant ''t'' ''r2'' (Some ''f'') granted_store of Inr (x, s') \<Rightarrow> x | Inl e \<Rightarrow> False)"
    by code_simp
  then obtain s' where run: "consume_continuation_grant ''t'' ''r2'' (Some ''f'') granted_store = Inr (True, s')"
    by (auto split: sum.splits prod.splits)
  have ids: "ap_requestId a = ''a''" if "a \<in> set (approvals granted_store)" for a
    using that asked_shape(1) by (cases "approvals asked_store") (auto simp: granted_store_def)
  have "clock granted_store = 7" by (simp add: granted_store_def empty_store_def)
  with grant_used_once [OF run granted_ok approval_run.start] ids run show ?thesis by fastforce
qed

theorem answering_returns_witness:
  "\<exists>x s'. settle_approval id ''a'' [] example_person False asked_store = Inr (x, s') \<and>
    settle_row id 9 (hd (approvals asked_store)) [] example_person False asked_store = Inr (x, s')"
proof -
  have "get_approval ''a'' asked_store = Some (hd (approvals asked_store))"
    using asked_shape(1) by (cases "approvals asked_store") (auto simp: get_approval_def lookup_row_def)
  moreover have "settle_fuel asked_store \<le> 9" by code_simp
  ultimately show ?thesis
    using conjunct1 [OF answering_returns [of id "''a''" "[]" example_person False asked_store "''t''" None]] by blast
qed

text \<open>The parent \<open>p\<close> of the subagent \<open>t\<close> allows its request once.\<close>

definition family_store :: store where
  "family_store = asked_store\<lparr>lineage := [\<lparr>ln_threadId = ''t'', ln_parentThreadId = ''p'', ln_parentRunId = ''r0'',
     ln_relationship = Subagent, ln_createdAt = 0\<rparr>]\<rparr>"

theorem agent_answers_what_it_may_witness:
  "\<exists>out s'. settle_approval id ''a'' [(''q'', OneAnswer ''once'')] (AgentAnswerer ''p'' ''r0'' ModeFull None None) False family_store =
      Inr (AnswerSettled out, s') \<and> sa_rule out = None \<and> approval_rules s' = approval_rules family_store"
proof -
  have "(case settle_approval id ''a'' [(''q'', OneAnswer ''once'')] (AgentAnswerer ''p'' ''r0'' ModeFull None None) False family_store of
      Inr (AnswerSettled out, s') \<Rightarrow> True | _ \<Rightarrow> False)"
    by code_simp
  then obtain out s' where run: "settle_approval id ''a'' [(''q'', OneAnswer ''once'')] (AgentAnswerer ''p'' ''r0'' ModeFull None None)
      False family_store = Inr (AnswerSettled out, s')"
    by (auto split: sum.splits prod.splits settle_outcome.splits)
  from agent_answers_what_it_may [OF run] run show ?thesis by blast
qed

text \<open>A restart after the run \<open>r\<close> was cut off: both requests continue.\<close>

definition cut_off_store :: store where
  "cut_off_store = asked_store\<lparr>runs := [(hd (runs example_run))\<lparr>rr_runId := ''r'', rr_status := RInterrupted\<rparr>]\<rparr>"

theorem boot_is_a_map_witness:
  "\<exists>report s'. recover_approvals_on_boot (\<lambda>_. None) (\<lambda>_. False) cut_off_store = Inr (report, s') \<and>
    (\<forall>a \<in> set (approvals s'). ap_status a = PPending \<longrightarrow> ap_answerPath a = PathContinue) \<and>
    set (br_continued report) = {ap_requestId a |a. a \<in> set (approvals s') \<and> ap_status a = PPending}"
proof -
  have "map ap_requestId (approvals asked_store) = [''a'', ''b'']"
    using arg_cong [OF asked_shape(1), of "map fst"] by (simp add: comp_def)
  then have "distinct (map ap_requestId (approvals cut_off_store))" by (simp add: cut_off_store_def)
  from boot_is_a_map [OF this, of "\<lambda>_. None" "\<lambda>_. False"] obtain report s' where
    run: "recover_approvals_on_boot (\<lambda>_. None) (\<lambda>_. False) cut_off_store = Inr (report, s')"
    and wait: "\<forall>a \<in> set (approvals s'). ap_status a = PPending \<longrightarrow> ap_answerPath a = PathContinue \<and>
      continuing a cut_off_store \<noteq> None \<and> \<not> left_alone (\<lambda>_. False) a"
    and rep: "set (br_continued report) = {ap_requestId a |a. a \<in> set (approvals s') \<and> ap_status a = PPending}"
    by (elim exE conjE) (rule that)
  from wait have "\<forall>a \<in> set (approvals s'). ap_status a = PPending \<longrightarrow> ap_answerPath a = PathContinue" by simp
  with run rep show ?thesis by (intro exI [of _ report] exI [of _ s'] conjI)
qed

end
