(* ===== verification/QueueRepeat.thy ===== *)
theory QueueRepeat
  imports QueueJournal
begin

text \<open>
  Applying a command's intent to a queue it was already applied to changes idle and reports the same:
  what lets a command that was cut off be finished from its entry alone.
\<close>

section \<open>Intents\<close>

text \<open>The intent a plan makes: an enqueued item is a well-formed item of the thread, new and behind or before all others.\<close>

definition intent_ok :: "string \<Rightarrow> queued_message list \<Rightarrow> command_intent \<Rightarrow> bool" where
  "intent_ok t items intent \<longleftrightarrow> ci_threadId intent = t \<and>
     (case ci_item intent of None \<Rightarrow> True
      | Some x \<Rightarrow> item_ok x \<and> q_threadId x = t \<and> (q_order x = next_order items \<or> q_order x = front_order items)) \<and>
     (case ci_patch intent of None \<Rightarrow> True | Some p \<Rightarrow> patch_ok p)"

lemma revision_sort [simp]: "queue_revision coll digest (sort_queue coll items) = queue_revision coll digest items"
  by (simp add: queue_revision_def)

lemma applied_as_simps [simp]:
  "ai_items (applied_as coll digest intent items r b) = items"
  "ai_skipped (applied_as coll digest intent items r b) = b"
  by (simp_all add: applied_as_def)

lemma applied_as_same:
  "sort_queue coll xs = sort_queue coll ys \<Longrightarrow>
   ai_result (applied_as coll digest intent xs r b) = ai_result (applied_as coll digest intent ys r b)"
  by (simp add: applied_as_def) (metis revision_sort)

lemma sort_queue_ok: "queue_ok t xs \<Longrightarrow> mset xs = mset ys \<Longrightarrow> sort_queue coll xs = sort_queue coll ys"
  by (rule sort_queue_mset) (simp_all add: queue_ok_def)

lemma find_item_None: "find_item i items = None \<longleftrightarrow> i \<notin> q_id ` set items"
  by (auto simp: find_item_def lookup_row_None)

lemma find_item_mset: "queue_ok t xs \<Longrightarrow> mset xs = mset ys \<Longrightarrow> find_item i xs = find_item i ys"
proof (cases "find_item i xs")
  case None
  assume "mset xs = mset ys"
  then have "set xs = set ys" by (rule mset_eq_setD)
  then have "find_item i ys = None" using None unfolding find_item_None by simp
  with None show ?thesis by simp
next
  case (Some q)
  assume a: "queue_ok t xs" "mset xs = mset ys"
  then have "q \<in> set ys" "q_id q = i" using find_item_Some [OF Some] mset_eq_setD by blast+
  with a have "find_item i ys = Some q" by (metis find_item_id_mem queue_ok_mset)
  with Some show ?thesis by simp
qed

lemma find_item_sort [simp]: "queue_ok t items \<Longrightarrow> find_item i (sort_queue coll items) = find_item i items"
  by (rule find_item_mset [where t = t]) simp_all

lemma item_ok_run: "item_ok q \<Longrightarrow> item_ok (q\<lparr>q_runId := None\<rparr>)"
  by (auto simp: item_ok_def)

section \<open>The operations, repeated\<close>

lemma put_item_found:
  assumes "queue_ok t items" "find_item i items = Some q" "q_id x = i"
  shows "find_item i (put_item i x items) = Some x"
proof -
  have "distinct (map q_id items)" using assms(1) by (simp add: queue_ok_def)
  then show ?thesis using assms(2,3) by (induction items) (auto simp: find_item_def lookup_row_def)
qed

lemma edited_content_again:
  "edited_content c patch = Inr content \<Longrightarrow> edited_content (patched_item c patch content) patch = Inr content"
  by (auto simp: edited_content_def patched_item_def split: option.splits if_splits)

lemma patched_again: "patched_item (patched_item c patch content) patch content = patched_item c patch content"
  by (cases c) (auto simp: patched_item_def split: option.splits origin_patch.splits)

lemma edit_again:
  assumes "queue_ok t items" "patch_ok patch" "edit_queued_message coll items i patch = Inr (next, x)"
  shows "edit_queued_message coll next i patch = Inr (next, x)"
proof -
  from assms(3) obtain c content where c: "find_item i items = Some c" "q_state c \<noteq> QSteering" "edit_refusal c = None"
    "edited_content c patch = Inr content" "x = patched_item c patch content" "next = sort_queue coll (put_item i x items)"
    by (auto simp: edit_queued_message_def Let_def split: option.splits if_splits sum.splits)
  have xid: "q_id x = i" using find_item_Some [OF c(1)] by (simp add: c(5) patched_item_def)
  have ok: "queue_ok t next" by (rule edit_ok [OF assms])
  have d: "distinct (map q_id items)" "distinct (map q_id next)" using assms(1) ok by (simp_all add: queue_ok_def)
  have found: "find_item i next = Some x"
    using put_item_found [OF assms(1) c(1) xid] ok unfolding c(6) queue_ok_sort by simp
  have "q_state x = q_state c" "edit_refusal x = None"
    using c(3) by (simp_all add: c(5) edit_refusal_None patched_item_def waiting_def)
  then have "edit_queued_message coll next i patch = Inr (sort_queue coll (put_item i x next), x)"
    using c(2) edited_content_again [OF c(4)] by (simp add: edit_queued_message_def found c(5) [symmetric] patched_again [of c patch content, folded c(5)])
  also have "put_item i x next = next" by (rule put_same [OF d(2) found])
  finally show ?thesis by (simp add: c(6))
qed

lemma promote_again:
  assumes "queue_ok t items" "promote_queued_message_to_steer coll items i run mode = Inr (next, x)"
  defines "steer \<equiv> x\<lparr>q_runId := None\<rparr>"
  defines "out \<equiv> map (\<lambda>q. if q_id q = q_id steer then steer else q) next"
  shows "find_item i out = Some steer" "waiting steer" "queue_ok t out" "sort_queue coll out = out"
    "promote_queued_message_to_steer coll out i run mode = Inr (out, steer)"
proof -
  from assms(2) obtain c where c: "find_item i items = Some c" "\<not> truthy (q_workflowInvocationId c)" "\<not> q_internal c" "waiting c"
    "x = promoted_item c run mode" "next = sort_queue coll (put_item i x items)"
    by (auto simp: promote_queued_message_to_steer_def Let_def split: option.splits if_splits)
  have ok: "queue_ok t next" by (rule promote_ok [OF assms(1,2)])
  have xid: "q_id x = i" "q_id steer = i" using find_item_Some [OF c(1)] by (simp_all add: c(5) promoted_item_def steer_def)
  have found: "find_item i next = Some x"
    using put_item_found [OF assms(1) c(1) xid(1)] ok unfolding c(6) queue_ok_sort by simp
  have out: "out = put_item i steer next"
    using ok by (simp add: out_def xid put_item_map queue_ok_def)
  have "item_ok steer"
    using find_item_queue_ok [OF found ok] item_ok_run by (simp add: steer_def)
  then show ok': "queue_ok t out"
    unfolding out using find_item_Some [OF found] by (intro queue_ok_put [OF ok found]) (simp_all add: steer_def)
  show found': "find_item i out = Some steer" unfolding out by (rule put_item_found [OF ok found xid(2)])
  have "map q_order out = map q_order next"
    unfolding out_def using queue_ok_unique [OF ok] find_item_Some [OF found] by (auto simp: steer_def)
  then show sorted: "sort_queue coll out = out"
    using ok' sorted_orders [of coll "put_item i x items"] by (intro sort_queue_sorted) (simp_all add: c(6) queue_ok_def)
  show w: "waiting steer" by (simp add: steer_def c(5) promoted_item_def waiting_def)
  have "promoted_item steer run mode = steer"
    by (cases c) (auto simp: steer_def c(5) promoted_item_def split: option.splits)
  moreover have "put_item i steer out = out"
    using ok' by (intro put_same found') (simp add: queue_ok_def)
  ultimately show "promote_queued_message_to_steer coll out i run mode = Inr (out, steer)"
    using c(2,3) w sorted
    by (simp add: promote_queued_message_to_steer_def found' Let_def)
       (simp add: steer_def c(5) promoted_item_def)
qed

lemma without_run_map: "without_run items i = map (\<lambda>q. if q_id q = i \<and> truthy (q_runId q) then q\<lparr>q_runId := None\<rparr> else q) items"
  by (auto simp: without_run_def)

lemma without_run_ok: "queue_ok t items \<Longrightarrow> queue_ok t (without_run items i)"
  unfolding without_run_map by (rule queue_ok_map) (auto simp: queue_ok_def item_ok_run)

lemma without_run_idem: "without_run (without_run items i) i = without_run items i"
  by (simp add: without_run_def comp_def truthy_def cong: map_cong if_cong)

lemma without_run_sort: "sort_queue coll (without_run items i) = without_run (sort_queue coll items) i"
proof -
  have "queue_key coll (if q_id q \<noteq> i \<or> \<not> truthy (q_runId q) then q else q\<lparr>q_runId := None\<rparr>) = queue_key coll q" for q
    by (simp add: queue_key_def)
  then show ?thesis unfolding sort_queue_def without_run_def sort_key_map by simp
qed

lemma demote_map_again: "demoted_item (demoted_item q) = demoted_item q" "q_intent (demoted_item q) = IntentNormal" "q_id (demoted_item q) = q_id q"
  by (simp_all add: demoted_item_def)

lemma demote_again:
  "demote_steer_items coll (without_run (demote_steer_items coll items ids) i) ids = without_run (demote_steer_items coll items ids) i"
proof -
  let ?d = "\<lambda>q. if q_intent q \<noteq> IntentSteer \<or> q_state q = QClaimed \<or> (case ids of None \<Rightarrow> False | Some only \<Rightarrow> q_id q \<notin> set only)
       then q else demoted_item q"
  let ?w = "\<lambda>q. if q_id q \<noteq> i \<or> \<not> truthy (q_runId q) then q else q\<lparr>q_runId := None\<rparr>"
  have idle: "?d (?w (?d q)) = ?w (?d q)" for q
    by (auto simp: demoted_item_def split: option.splits)
  have "without_run (demote_steer_items coll items ids) i = sort_queue coll (map (\<lambda>q. ?w (?d q)) items)"
    unfolding demote_steer_items_def without_run_sort [symmetric] by (simp only: without_run_def map_map comp_def)
  moreover have "map ?d (sort_queue coll (map (\<lambda>q. ?w (?d q)) items)) = sort_queue coll (map (\<lambda>q. ?w (?d q)) items)"
  proof (rule map_idI)
    fix q assume "q \<in> set (sort_queue coll (map (\<lambda>q. ?w (?d q)) items))"
    then obtain x where "q = ?w (?d x)" unfolding set_sort_queue set_map by (rule imageE)
    then show "?d q = q" by (simp only: idle)
  qed
  ultimately show ?thesis by (simp add: demote_steer_items_def)
qed

lemma remove_again: "remove_queued_message (fst (remove_queued_message items i)) i = (fst (remove_queued_message items i), None)"
proof -
  have "find_item i (without i items) = None" by (auto simp: find_item_None without_def)
  then show ?thesis by (auto simp: remove_queued_message_def split: option.splits)
qed

lemma slotted_again:
  assumes "queue_ok t pending" "set ids = set (map q_id pending)" "length ids = length pending" "distinct ids"
  shows "slotted (slotted pending ids) ids = slotted pending ids"
proof -
  let ?s = "slotted pending ids"
  have sub: "set ids \<subseteq> set (map q_id pending)" using assms(2) by simp
  have sid: "map q_id ?s = ids" by (rule slotted_ids [OF sub assms(3)])
  have sub': "set ids \<subseteq> set (map q_id ?s)" by (simp only: sid)
  have len: "length ?s = length ids" using arg_cong [OF sid, of length] by simp
  have "slotted ?s ids = map (reslot ?s) (zip ids (map q_order ?s))" by (rule slotted_map [OF sub'])
  also have "\<dots> = map (reslot ?s) (map (\<lambda>q. (q_id q, q_order q)) ?s)"
    by (subst sid [symmetric]) (simp add: zip_map_map zip_same_conv_map)
  also have "\<dots> = ?s"
  proof (simp, rule map_idI)
    fix q assume "q \<in> set ?s"
    moreover have "distinct (map q_id ?s)" using assms(4) by (simp only: sid)
    ultimately have "by_id ?s (q_id q) = Some q" by (intro by_id_mem)
    then show "(reslot ?s \<circ> (\<lambda>q. (q_id q, q_order q))) q = q" by (simp add: reslot_def)
  qed
  finally show ?thesis .
qed

lemma reorder_again:
  assumes "queue_ok t items" "reorder_queued_messages coll items ids = Inr next"
  shows "reorder_queued_messages coll next ids = Inr next"
proof -
  let ?p = "visible_pending coll items" and ?p' = "visible_pending coll next"
  note acc = reorder_accepts [OF assms] and ok = reorder_ok [OF assms]
  have sub: "set ids \<subseteq> set (map q_id ?p)" using acc(3) by simp
  have "mset ids = mset (map q_id ?p')" by (simp only: ok(2) slotted_ids [OF sub acc(2)])
  then obtain next' where run: "reorder_queued_messages coll next ids = Inr next'"
    using reorder_succeeds [OF _ ok(1)] by blast
  have "next' = sort_queue coll (filter user_held next @ slotted ?p' ids)" by (rule reorder_accepts(4) [OF ok(1) run])
  also have "slotted ?p' ids = ?p'"
    unfolding ok(2) by (rule slotted_again [OF visible_pending_ok [OF assms(1)] acc(3,2,1)])
  also have "sort_queue coll (filter user_held next @ ?p') = sort_queue coll next"
    by (rule sort_queue_ok [symmetric, OF ok(1)]) (use queue_parts [OF ok(1), of coll] in simp)
  also have "\<dots> = next" by (simp add: acc(4))
  finally show ?thesis using run by simp
qed

section \<open>Intents, repeated\<close>

text \<open>What it takes for a second application: the same report, and the items the first one left.\<close>

definition repeats :: "(string \<Rightarrow> string) \<Rightarrow> (string \<Rightarrow> string) \<Rightarrow> command_intent \<Rightarrow> string option \<Rightarrow> applied_intent \<Rightarrow> bool" where
  "repeats coll digest intent act a \<longleftrightarrow>
     (\<exists>a'. apply_intent coll digest (sort_queue coll (ai_items a)) intent act = Inr a' \<and>
        sort_queue coll (ai_items a') = sort_queue coll (ai_items a) \<and> ai_result a' = ai_result a \<and> ai_skipped a' = ai_skipped a)"

lemma repeatsI:
  assumes "apply_intent coll digest (sort_queue coll items) intent act = Inr (applied_as coll digest intent items' r b)"
    "sort_queue coll items' = sort_queue coll items"
  shows "repeats coll digest intent act (applied_as coll digest intent items r b)"
  unfolding repeats_def using assms applied_as_same [OF assms(2)] by auto

lemma enqueue_repeats:
  assumes "queue_ok t items" "sort_queue coll items = items" "intent_ok t items intent" "ci_op intent = OpEnqueue"
    "apply_intent coll digest items intent act = Inr a"
  shows "queue_ok t (ai_items a) \<and> repeats coll digest intent act a"
proof (cases "ci_item intent")
  case None
  with assms show ?thesis by (auto simp: apply_intent_def Let_def intro!: repeatsI)
next
  case (Some x)
  let ?next = "if find_item (q_id x) items \<noteq> None then items else sort_queue coll (items @ [x])"
  have a: "a = applied_as coll digest intent ?next [(''outcome'', JStr ''enqueued'')] False"
    using assms(4,5) Some by (simp add: apply_intent_def Let_def)
  have ok: "queue_ok t ?next"
    using assms(1,3) Some by (auto simp: intent_ok_def find_item_None intro: queue_ok_snoc)
  have "sort_queue coll ?next = ?next" using assms(2) by simp
  moreover have "find_item (q_id x) ?next \<noteq> None"
  proof (cases "find_item (q_id x) items")
    case None
    then have "?next = sort_queue coll (items @ [x])" by simp
    moreover have "q_id x \<in> q_id ` set (sort_queue coll (items @ [x]))" by simp
    ultimately show ?thesis using find_item_None by metis
  qed simp
  ultimately have "apply_intent coll digest (sort_queue coll ?next) intent act =
    Inr (applied_as coll digest intent ?next [(''outcome'', JStr ''enqueued'')] False)"
    using assms(4) Some by (simp only: apply_intent_def Let_def queue_op.case option.case if_True simp_thms)
  then show ?thesis using ok unfolding a by (auto intro: repeatsI)
qed

lemma edit_repeats:
  assumes "queue_ok t items" "sort_queue coll items = items" "intent_ok t items intent" "ci_op intent = OpEdit"
    "apply_intent coll digest items intent act = Inr a"
  shows "queue_ok t (ai_items a) \<and> repeats coll digest intent act a"
proof -
  let ?i = "ci_itemId intent" and ?r = "[(''outcome'', JStr ''edited'')]"
  show ?thesis
  proof (cases "\<exists>q p next x. find_item ?i items = Some q \<and> ci_patch intent = Some p \<and> edit_queued_message coll items ?i p = Inr (next, x)")
    case False
    then have idle: "apply_intent coll digest items intent act = Inr (applied_as coll digest intent items ?r True)"
      using False unfolding apply_intent_def Let_def assms(4) queue_op.case
      by (auto split: option.splits sum.splits prod.splits)
    then have "a = applied_as coll digest intent items ?r True" using assms(5) by simp
    moreover have "apply_intent coll digest (sort_queue coll items) intent act = Inr (applied_as coll digest intent items ?r True)"
      unfolding assms(2)
      by (rule idle)
    ultimately show ?thesis using assms(1) by (auto intro: repeatsI)
  next
    case True
    then obtain q p "next" x where e: "find_item ?i items = Some q" "ci_patch intent = Some p" "edit_queued_message coll items ?i p = Inr (next, x)"
      by blast
    have p: "patch_ok p" using assms(3) e(2) by (simp add: intent_ok_def)
    have ok: "queue_ok t next" by (rule edit_ok [OF assms(1) p e(3)])
    have a: "a = applied_as coll digest intent next ?r False"
      using assms(4,5) e by (simp add: apply_intent_def Let_def)
    have again: "edit_queued_message coll next ?i p = Inr (next, x)" by (rule edit_again [OF assms(1) p e(3)])
    then have "find_item ?i next \<noteq> None" by (auto simp: edit_queued_message_def split: option.splits)
    moreover have "sort_queue coll next = next"
      using e(3) by (auto simp: edit_queued_message_def Let_def split: option.splits if_splits sum.splits)
    ultimately have "apply_intent coll digest (sort_queue coll next) intent act = Inr (applied_as coll digest intent next ?r False)"
      using assms(4) e(2) again by (auto simp: apply_intent_def Let_def)
    then show ?thesis using ok unfolding a by (auto intro: repeatsI)
  qed
qed

lemma remove_repeats:
  assumes "queue_ok t items" "sort_queue coll items = items" "ci_op intent = OpRemove"
    "apply_intent coll digest items intent act = Inr a"
  shows "queue_ok t (ai_items a) \<and> repeats coll digest intent act a"
proof -
  let ?i = "ci_itemId intent" and ?r = "[(''outcome'', JStr ''removed'')]"
  let ?next = "fst (remove_queued_message items ?i)"
  have a: "a = applied_as coll digest intent ?next ?r False"
    using assms(3,4) by (simp add: apply_intent_def Let_def)
  have "sort_queue coll ?next = ?next"
    using assms(2) by (auto simp: remove_queued_message_def without_def filter_sort_queue [symmetric] split: option.splits)
  moreover have "queue_ok t ?next"
    using assms(1) by (auto simp: remove_queued_message_def without_def split: option.splits)
  ultimately show ?thesis
    using assms(3) remove_again [of items ?i] unfolding a
    by (auto simp: apply_intent_def Let_def intro!: repeatsI)
qed

lemma reorder_repeats:
  assumes "queue_ok t items" "sort_queue coll items = items" "ci_op intent = OpReorder"
    "apply_intent coll digest items intent act = Inr a"
  shows "queue_ok t (ai_items a) \<and> repeats coll digest intent act a"
proof -
  let ?ids = "case ci_orderedIds intent of None \<Rightarrow> [] | Some ids \<Rightarrow> ids" and ?r = "[(''outcome'', JStr ''reordered'')]"
  show ?thesis
  proof (cases "reorder_queued_messages coll items ?ids")
    case (Inl e)
    then have a: "a = applied_as coll digest intent items ?r False"
      using assms(3,4) by (simp add: apply_intent_def Let_def)
    have "apply_intent coll digest (sort_queue coll items) intent act = Inr (applied_as coll digest intent items ?r False)"
      using assms(2,3) Inl by (simp add: apply_intent_def Let_def)
    then show ?thesis using assms(1) unfolding a by (auto intro: repeatsI)
  next
    case (Inr "next")
    then have a: "a = applied_as coll digest intent next ?r False"
      using assms(3,4) by (simp add: apply_intent_def Let_def)
    have "sort_queue coll next = next" using reorder_accepts(4) [OF assms(1) Inr] by simp
    then have "apply_intent coll digest (sort_queue coll next) intent act = Inr (applied_as coll digest intent next ?r False)"
      using assms(3) reorder_again [OF assms(1) Inr] by (simp add: apply_intent_def Let_def)
    then show ?thesis using reorder_ok(1) [OF assms(1) Inr] unfolding a by (auto intro: repeatsI)
  qed
qed

lemma run_none_twice: "x\<lparr>q_runId := None, q_runId := None\<rparr> = x\<lparr>q_runId := None\<rparr>" for x :: queued_message
  by (cases x) simp

lemma promote_repeats:
  assumes "queue_ok t items" "sort_queue coll items = items" "ci_op intent = OpPromote"
    "apply_intent coll digest items intent act = Inr a"
  shows "queue_ok t (ai_items a) \<and> repeats coll digest intent act a"
proof -
  let ?i = "ci_itemId intent"
  have run: "apply_intent coll digest xs intent act =
      map_sum id (\<lambda>(next, r). applied_as coll digest intent next r False) (apply_promote coll xs intent act)" for xs
    using assms(3) by (simp add: apply_intent_def Let_def)
  obtain out r where out: "apply_promote coll items intent act = Inr (out, r)" "a = applied_as coll digest intent out r False"
    using assms(4) unfolding run by (cases "apply_promote coll items intent act") auto
  have "queue_ok t out \<and> sort_queue coll out = out \<and> apply_promote coll out intent act = Inr (out, r)"
  proof (cases "truthy (ci_steerRunId intent) \<and> act \<noteq> ci_steerRunId intent")
    case True
    show ?thesis
    proof (cases "find_item ?i items")
      case None
      then show ?thesis using True out(1) assms(1,2) by (auto simp: apply_promote_def Let_def)
    next
      case (Some q)
      let ?o = "without_run (demote_steer_items coll items (Some [?i])) ?i"
      have o: "out = ?o" using True Some out(1) by (simp add: apply_promote_def Let_def)
      have ok: "queue_ok t ?o" using assms(1) by (simp add: without_run_ok demote_ok)
      have "sort_queue coll ?o = ?o" unfolding without_run_sort by (simp add: demote_steer_items_def)
      moreover have "without_run (demote_steer_items coll ?o (Some [?i])) ?i = ?o"
        by (simp add: demote_again without_run_idem)
      moreover have "apply_promote coll ?o intent act =
          Inr (if find_item ?i ?o \<noteq> None then without_run (demote_steer_items coll ?o (Some [?i])) ?i else ?o, r)"
        using True out(1) by (auto simp: apply_promote_def Let_def)
      ultimately show ?thesis using ok unfolding o by simp
    qed
  next
    case False
    show ?thesis
    proof (cases "\<exists>q. find_item ?i items = Some q \<and> waiting q")
      case no: False
      then have "apply_promote coll items intent act = Inr (items, r) \<and> out = items"
        using False out(1) by (auto simp: apply_promote_def Let_def split: option.splits)
      then show ?thesis using assms(1,2) by simp
    next
      case True
      then obtain "next" x where p: "promote_queued_message_to_steer coll items ?i (ci_steerRunId intent) (ci_permissionMode intent) = Inr (next, x)"
        and o: "out = map (\<lambda>q. if q_id q = q_id (x\<lparr>q_runId := None\<rparr>) then x\<lparr>q_runId := None\<rparr> else q) next"
        and r: "r = [(''outcome'', JStr ''promoted''), (''steerRunId'', opt_json (ci_steerRunId intent))]"
        using False out(1) by (auto simp: apply_promote_def Let_def split: sum.splits)
      note again = promote_again [OF assms(1) p, folded o]
      have "map (\<lambda>q. if q_id q = q_id (x\<lparr>q_runId := None\<rparr>) then x\<lparr>q_runId := None\<rparr> else q) out = out"
        using queue_ok_unique [OF again(3)] find_item_Some [OF again(1)] by (intro map_idI) (metis (no_types, lifting))
      then have "map (\<lambda>q. if q_id q = q_id x then x\<lparr>q_runId := None, q_runId := None\<rparr> else q) out = out"
        by (simp add: run_none_twice cong: if_cong)
      then have "apply_promote coll out intent act = Inr (out, r)"
        using False again(1,2,5) r by (auto simp: apply_promote_def Let_def)
      then show ?thesis using again(3,4) by simp
    qed
  qed
  then show ?thesis unfolding out(2) using run by (auto intro!: repeatsI)
qed

lemma apply_repeats:
  assumes "queue_ok t items" "sort_queue coll items = items" "intent_ok t items intent"
    "apply_intent coll digest items intent act = Inr a"
  shows "queue_ok t (ai_items a) \<and> repeats coll digest intent act a"
proof (cases "ci_op intent")
  case OpEnqueue
  then show ?thesis using enqueue_repeats [OF assms(1-3)] assms(4) by blast
next
  case OpEdit
  then show ?thesis using edit_repeats [OF assms(1-3)] assms(4) by blast
qed (use remove_repeats [OF assms(1,2)] reorder_repeats [OF assms(1,2)] promote_repeats [OF assms(1,2)] assms(4) in blast)+

end
