(* ===== verification/QueueEffects.thy ===== *)
theory QueueEffects
  imports QueueRepeat TerminalLaws
begin

text \<open>
  The effects of a queue command on the run database: they end the queued runs the item owned and no other run,
  and do not depend on which epochs the process remembers, as long as none of these runs was moved by another process.
\<close>

lemma write_terminal_get:
  assumes ok: "runs_ok s" and run: "write_terminal_run r e st oc at text notice s = Inr (next, s')"
  shows "runs_ok s'" "get_run i s' = (if i = rr_runId r then Some next else get_run i s)" "rr_status next = st"
proof -
  let ?p = "no_patch\<lparr>rp_completedAt := Some (Some at), rp_outcome := map_option Some (terminal_outcome (rr_outcome r) oc)\<rparr>"
  let ?c = "st \<noteq> RUncertain \<and> oc_interruptedBy (the_outcome oc) \<noteq> Some ByDaemonRestart"
  from run obtain s1 y s2 where steps: "cas_run_status (rr_runId r) e st ?p s = Inr (next, s1)"
    "terminal_tail next at text ?c notice s1 = Inr (y, s2)" "settle_txn (rr_threadId next) s2 = Inr ((), s')"
    unfolding write_terminal_run_tail bindE_Inr by auto
  have same: "runs s' = runs s1"
    using alwaysD [OF terminal_tail_runs steps(2)] alwaysD [OF settle_always(2) steps(3)]
    by (simp add: same_runs_def owners_kept_def)
  obtain x where x: "get_run (rr_runId r) s = Some x" "rr_runId next = rr_runId x" "rr_threadId next = rr_threadId x"
    "rr_ordinal next = rr_ordinal x" "rr_status next = st" "runs s1 = map (\<lambda>y. if y = x then next else y) (runs s)"
    by (rule cas_run_status_Inr [OF steps(1) ok]) simp
  have mem: "x \<in> set (runs s)" "rr_runId x = rr_runId r"
    using x(1) by (auto simp: get_run_def dest: lookup_row_Some)
  show "rr_status next = st" by (rule x(5))
  have "get_run i s1 = (if i = rr_runId x then Some next else get_run i s)"
    by (rule get_run_map [OF ok mem(1) x(2,6)])
  then show "get_run i s' = (if i = rr_runId r then Some next else get_run i s)"
    using same mem(2) by (simp add: get_run_def)
  have "map rr_runId (runs s1) = map rr_runId (runs s)" using x(2) by (simp add: x(6))
  moreover have "rr_runId z = run_id (rr_threadId z) (rr_ordinal z)" if "z \<in> set (runs s1)" for z
    using that runs_okD(2) [OF ok] mem(1) x(2-4) by (auto simp: x(6))
  ultimately have "runs_ok s1" using ok by (simp add: runs_ok_def)
  then show "runs_ok s'" using same by (simp add: runs_ok_def)
qed

text \<open>No process moved a run of the list since this one saw it.\<close>

definition current_run :: "(string \<times> int) list \<Rightarrow> run_record \<Rightarrow> bool" where
  "current_run ep run \<longleftrightarrow> int (rr_epoch run) = expected_epoch ep run"

definition epochs_current :: "(string \<times> int) list \<Rightarrow> string list \<Rightarrow> store \<Rightarrow> bool" where
  "epochs_current ep ids s \<longleftrightarrow>
     (\<forall>i \<in> set ids. \<forall>run. get_run i s = Some run \<longrightarrow> rr_status run = RQueued \<longrightarrow> current_run ep run)"

lemma current_run_forgotten [simp]: "current_run [] run"
  by (simp add: current_run_def expected_epoch_def)

lemma get_run_id: "get_run i s = Some run \<Longrightarrow> rr_runId run = i"
  by (auto simp: get_run_def dest: lookup_row_Some)

lemma current_run_forget:
  "rr_runId run \<noteq> i \<Longrightarrow> current_run (AList.delete i ep) run \<longleftrightarrow> current_run ep run"
  by (simp add: current_run_def expected_epoch_def AList.delete_conv')

lemma mark_terminal_Inr:
  assumes "runs_ok s" "mark_terminal i RCancelled oc ep s = (Inr s', ep')"
  shows "runs_ok s' \<and> ep' = AList.delete i ep \<and> (\<exists>next. rr_status next = RCancelled \<and>
    (\<forall>k. get_run k s' = (if k = i then Some next else get_run k s)))"
proof -
  from assms(2) obtain run "next" where run: "get_run i s = Some run"
    "write_terminal_run run (expected_epoch ep run) RCancelled (Some oc) (clock s) None None s = Inr (next, s')"
    "ep' = (if terminal_run (rr_status next) then AList.delete i ep else AList.update i (int (rr_epoch next)) ep)"
    by (auto simp: mark_terminal_def split: option.splits if_splits sum.splits prod.splits)
  note w = write_terminal_get [OF assms(1) run(2)]
  then show ?thesis using run(3) get_run_id [OF run(1)] by auto
qed

text \<open>The effects do not depend on what the process remembers.\<close>

lemma mark_terminal_epochs:
  assumes "get_run i s = Some run" "current_run ep run" "current_run ep2 run"
  shows "fst (mark_terminal i RCancelled oc ep s) = fst (mark_terminal i RCancelled oc ep2 s)"
proof -
  have "expected_epoch ep run = expected_epoch ep2 run" using assms(2,3) by (simp add: current_run_def)
  then show ?thesis using assms by (simp add: mark_terminal_def split: sum.splits prod.splits)
qed

lemma cancel_epochs:
  "runs_ok s \<Longrightarrow> epochs_current ep ids s \<Longrightarrow> epochs_current ep2 ids s \<Longrightarrow>
   fst (cancel_queued_runs oc ids ep s) = fst (cancel_queued_runs oc ids ep2 s)"
proof (induction ids arbitrary: ep ep2 s)
  case (Cons i ids)
  have tail: "epochs_current ep ids s" "epochs_current ep2 ids s" using Cons.prems(2,3) by (simp_all add: epochs_current_def)
  show ?case
  proof (cases "\<exists>run. get_run i s = Some run \<and> rr_status run = RQueued")
    case False
    then show ?thesis using Cons.IH [OF Cons.prems(1) tail] by (cases "get_run i s") auto
  next
    case True
    then obtain run where run: "get_run i s = Some run" "rr_status run = RQueued" by blast
    have cur: "current_run ep run" "current_run ep2 run" using Cons.prems(2,3) run by (auto simp: epochs_current_def)
    obtain r1 e1 r2 e2 where m: "mark_terminal i RCancelled oc ep s = (r1, e1)" "mark_terminal i RCancelled oc ep2 s = (r2, e2)"
      by (cases "mark_terminal i RCancelled oc ep s"; cases "mark_terminal i RCancelled oc ep2 s")
    have r: "r1 = r2" using mark_terminal_epochs [OF run(1) cur, of oc] m by simp
    show ?thesis
    proof (cases r1)
      case (Inl e)
      then show ?thesis using r m run cur by (simp add: current_run_def)
    next
      case (Inr s1)
      note w1 = mark_terminal_Inr [OF Cons.prems(1) m(1) [unfolded Inr]]
        and w2 = mark_terminal_Inr [OF Cons.prems(1) m(2) [folded r, unfolded Inr]]
      from w1 obtain nx where nx: "rr_status nx = RCancelled" "\<And>k. get_run k s1 = (if k = i then Some nx else get_run k s)" by blast
      have "epochs_current e1 ids s1" "epochs_current e2 ids s1"
        using tail w1 w2 nx get_run_id by (auto simp: epochs_current_def current_run_forget split: if_splits)
      then have "fst (cancel_queued_runs oc ids e1 s1) = fst (cancel_queued_runs oc ids e2 s1)"
        using Cons.IH [of s1] w1 by blast
      then show ?thesis
        using m(1) [unfolded Inr] m(2) [folded r, unfolded Inr] run cur by (simp add: current_run_def)
    qed
  qed
qed simp

lemma effects_epochs:
  assumes "runs_ok s" "epochs_current ep (ci_cancelRunIds intent) s" "epochs_current ep2 (ci_cancelRunIds intent) s"
  shows "fst (apply_effects intent ep s) = fst (apply_effects intent ep2 s)"
  using cancel_epochs [OF assms] unfolding apply_effects_def Let_def
  by (auto split: prod.splits sum.splits if_splits) (metis fst_conv sum.inject sum.distinct)+

text \<open>Which runs end.\<close>

lemma cancel_runs:
  assumes "runs_ok s" "cancel_queued_runs oc ids ep s = (Inr s', ep')"
  shows "runs_ok s' \<and> (\<forall>i run. get_run i s = Some run \<longrightarrow> (\<exists>run'. get_run i s' = Some run' \<and>
    (if i \<in> set ids \<and> rr_status run = RQueued \<and> current_run ep run then rr_status run' = RCancelled else run' = run)))"
  using assms
proof (induction ids arbitrary: ep s)
  case (Cons i ids)
  show ?case
  proof (cases "\<exists>run. get_run i s = Some run \<and> rr_status run = RQueued \<and> current_run ep run")
    case False
    then have skip: "cancel_queued_runs oc ids ep s = (Inr s', ep')"
      using Cons.prems(2) by (auto simp: current_run_def split: option.splits if_splits)
    show ?thesis using Cons.IH [OF Cons.prems(1) skip] False by fastforce
  next
    case True
    then obtain run where run: "get_run i s = Some run" "rr_status run = RQueued" "current_run ep run" by blast
    then obtain s1 e1 where m: "mark_terminal i RCancelled oc ep s = (Inr s1, e1)" "cancel_queued_runs oc ids e1 s1 = (Inr s', ep')"
      using Cons.prems(2) by (auto simp: current_run_def split: prod.splits sum.splits)
    note w = mark_terminal_Inr [OF Cons.prems(1) m(1)]
    then obtain nx where nx: "rr_status nx = RCancelled" "\<And>k. get_run k s1 = (if k = i then Some nx else get_run k s)" by blast
    have rest: "\<exists>r'. get_run k s' = Some r' \<and>
        (if k \<in> set ids \<and> rr_status r = RQueued \<and> current_run e1 r then rr_status r' = RCancelled else r' = r)"
      if "get_run k s1 = Some r" for k r
      using Cons.IH [OF _ m(2)] w that by blast
    show ?thesis
    proof (intro conjI allI impI)
      show "runs_ok s'" using Cons.IH [OF _ m(2)] w by blast
      fix k r assume k: "get_run k s = Some r"
      show "\<exists>r'. get_run k s' = Some r' \<and>
        (if k \<in> set (i # ids) \<and> rr_status r = RQueued \<and> current_run ep r then rr_status r' = RCancelled else r' = r)"
      proof (cases "k = i")
        case True
        then show ?thesis using rest [of i nx] nx run k by auto
      next
        case False
        then have "current_run e1 r = current_run ep r"
          using w current_run_forget [of r i ep] get_run_id [OF k] by auto
        then show ?thesis using rest [of k r] nx k False by auto
      qed
    qed
  qed
qed auto

end
