(* ===== verification/QueueRecovery.thy ===== *)
theory QueueRecovery
  imports QueueEffects
begin

text \<open>
  A queue command that is cut off is finished from its entry. A crash loses what the process keeps in memory
  (\<open>crash\<close>: the remembered epochs and the scheduled repairs); the run database and the queue files stay as they
  were. The recovered state is the state the command would have left, up to the text of the stored result
  (\<open>same_but_report\<close>).
\<close>

definition crash :: "journal \<Rightarrow> journal" where
  "crash j = j\<lparr>jo_epochs := [], jo_repairs := []\<rparr>"

definition same_row :: "command_row \<Rightarrow> command_row \<Rightarrow> bool" where
  "same_row a b \<longleftrightarrow> a\<lparr>cr_result := None\<rparr> = b\<lparr>cr_result := None\<rparr>"

definition same_but_report :: "journal \<Rightarrow> journal \<Rightarrow> bool" where
  "same_but_report j j' \<longleftrightarrow> jo_db j = jo_db j' \<and> jo_queue j = jo_queue j' \<and> jo_abandoned j = jo_abandoned j' \<and>
     list_all2 same_row (jo_commands j) (jo_commands j')"

lemma same_row_fields:
  "same_row a b \<longleftrightarrow> cr_commandKey a = cr_commandKey b \<and> cr_threadId a = cr_threadId b \<and> cr_intent a = cr_intent b \<and>
     cr_status a = cr_status b \<and> cr_attempts a = cr_attempts b \<and> cr_createdAt a = cr_createdAt b \<and> cr_appliedAt a = cr_appliedAt b"
  by (cases a; cases b) (auto simp: same_row_def)

lemma same_row_refl [simp]: "same_row a a"
  by (simp add: same_row_def)

lemma same_rows_refl: "list_all2 same_row rs rs"
  by (simp add: list.rel_refl)

lemma update_same:
  assumes "list_all2 same_row xs ys" "\<And>a b. same_row a b \<Longrightarrow> P a = P' b \<and> (P a \<longrightarrow> same_row (f a) (g b))"
  shows "list_all2 same_row (update_rows P f xs) (update_rows P' g ys)"
  using assms(1) unfolding update_rows_def by (induction rule: list_all2_induct) (use assms(2) in auto)

lemma crash_simps [simp]:
  "jo_db (crash j) = jo_db j" "jo_commands (crash j) = jo_commands j" "jo_queue (crash j) = jo_queue j"
  "jo_abandoned (crash j) = jo_abandoned j" "jo_epochs (crash j) = []"
  by (simp_all add: crash_def)

lemma crash_queue: "(crash j)\<lparr>jo_queue := f\<rparr> = crash (j\<lparr>jo_queue := f\<rparr>)"
  by (cases j) (simp add: crash_def)

lemma applied_same:
  assumes "same_but_report j j'"
  shows "same_but_report (mark_applied row r1 j) (mark_applied row r2 j')"
  using assms unfolding same_but_report_def mark_applied_def update_commands_def
  by (auto intro!: update_same simp: same_row_fields)

lemma pending_same:
  assumes "same_but_report j j'"
  shows "same_but_report (leave_pending row r1 j) (leave_pending row r2 j')"
proof -
  have "same_but_report (mark_effects_pending row r1 j) (mark_effects_pending row r2 j')"
    using assms unfolding same_but_report_def mark_effects_pending_def update_commands_def
    by (auto intro!: update_same simp: same_row_fields)
  then have "same_but_report (record_failure k (mark_effects_pending row r1 j)) (record_failure k (mark_effects_pending row r2 j'))" for k
    unfolding same_but_report_def record_failure_def update_commands_def
    by (auto intro!: update_same simp: same_row_fields unfinished_def)
  then show ?thesis by (simp add: leave_pending_def schedule_repair_def same_but_report_def)
qed

text \<open>Finishing an entry does the same in both processes.\<close>

lemma finish_same:
  assumes same: "same_but_report j j'" and ok: "runs_ok (jo_db j)"
    and cur: "epochs_current (jo_epochs j) (ci_cancelRunIds (cr_intent row)) (jo_db j)"
      "epochs_current (jo_epochs j') (ci_cancelRunIds (cr_intent row)) (jo_db j)"
  shows "fst (finish_command abandon row r1 j) = fst (finish_command abandon row r2 j') \<and>
    same_but_report (snd (finish_command abandon row r1 j)) (snd (finish_command abandon row r2 j'))"
proof -
  let ?in = "cr_intent row"
  have db: "jo_db j' = jo_db j" using same by (simp add: same_but_report_def)
  let ?call = "\<lambda>j. case non_blank (ci_abandonWorkflowInvocationId ?in) of None \<Rightarrow> Some j
      | Some w \<Rightarrow> if abandon w then Some (j\<lparr>jo_abandoned := jo_abandoned j @ [(w, ci_threadId ?in)]\<rparr>) else None"
  show ?thesis
  proof (cases "?call j")
    case None
    then have "?call j' = None" by (auto split: option.splits if_splits)
    with None show ?thesis using pending_same [OF same] by (simp add: finish_command_def)
  next
    case (Some j1)
    then obtain j1' where j1': "?call j' = Some j1'" by (auto split: option.splits if_splits)
    have s1: "same_but_report j1 j1'" "jo_epochs j1 = jo_epochs j" "jo_epochs j1' = jo_epochs j'" "jo_db j1 = jo_db j" "jo_db j1' = jo_db j"
      using Some j1' same db by (auto simp: same_but_report_def split: option.splits if_splits)
    obtain res ep ep' where eff: "apply_effects ?in (jo_epochs j) (jo_db j) = (res, ep)" "apply_effects ?in (jo_epochs j') (jo_db j) = (res, ep')"
      using effects_epochs [OF ok cur] by (cases "apply_effects ?in (jo_epochs j) (jo_db j)";
          cases "apply_effects ?in (jo_epochs j') (jo_db j)") auto
    have with_ep: "same_but_report (j1\<lparr>jo_epochs := ep\<rparr>) (j1'\<lparr>jo_epochs := ep'\<rparr>)"
      "same_but_report (j1\<lparr>jo_db := db, jo_epochs := ep\<rparr>) (j1'\<lparr>jo_db := db, jo_epochs := ep'\<rparr>)" for db
      using s1(1) by (simp_all add: same_but_report_def)
    show ?thesis
      using Some j1' eff s1 pending_same [OF with_ep(1)] applied_same [OF with_ep(2)]
      by (cases res) (simp_all add: finish_command_def Let_def)
  qed
qed

lemma finish_queue: "jo_queue (snd (finish_command abandon row r j)) = jo_queue j"
  by (auto simp: finish_command_def Let_def leave_pending_def schedule_repair_def record_failure_def mark_effects_pending_def
      mark_applied_def update_commands_def split: option.splits prod.splits sum.splits)

section \<open>Reading and saving a well-formed queue\<close>

lemma renormalize_queue: "queue_ok t items \<Longrightarrow> renormalize coll now t items = Inr (sort_queue coll items)"
  by (rule renormalize_ok) (simp add: queue_ok_def)

lemma load_ok: "queue_ok t (jo_queue j t) \<Longrightarrow> load_message_queue coll now t j = Inr (sort_queue coll (jo_queue j t))"
  by (simp add: load_message_queue_def renormalize_queue)

lemma save_ok: "queue_ok t items \<Longrightarrow>
    save_message_queue coll now t items j = Inr (j\<lparr>jo_queue := (jo_queue j)(t := sort_queue coll items)\<rparr>)"
  by (simp add: save_message_queue_def renormalize_queue)

lemma no_unfinished: "list_unfinished t j = [] \<Longrightarrow> recover_queue_journal coll digest now abandon t items j = (items, j)"
  by (simp add: recover_queue_journal_def)

section \<open>The entry of a command\<close>

definition entry_of :: "string \<Rightarrow> string option \<Rightarrow> planned_command \<Rightarrow> journal \<Rightarrow> command_row" where
  "entry_of key fingerprint planned j =
     (let intent = pc_intent planned;
          stored = (if fingerprint \<noteq> None then intent\<lparr>ci_fingerprint := fingerprint\<rparr> else intent)
      in \<lparr>cr_commandKey = key, cr_threadId = ci_threadId intent, cr_intent = stored, cr_status = CmdPending, cr_result = None,
          cr_attempts = 0, cr_createdAt = clock (jo_db j), cr_appliedAt = None\<rparr>)"

lemma journal_command_simps:
  "jo_commands (journal_command key fp planned j) = jo_commands j @ [entry_of key fp planned j]"
  "jo_queue (journal_command key fp planned j) = jo_queue j"
  "jo_epochs (journal_command key fp planned j) = jo_epochs j"
  "jo_abandoned (journal_command key fp planned j) = jo_abandoned j"
  "runs (jo_db (journal_command key fp planned j)) = runs (jo_db j)"
  by (auto simp: journal_command_def insert_pending_def entry_of_def audit_def Let_def split: option.splits)

lemma entry_of_simps [simp]:
  "cr_status (entry_of key fp planned j) = CmdPending" "cr_threadId (entry_of key fp planned j) = ci_threadId (pc_intent planned)"
  "cr_commandKey (entry_of key fp planned j) = key" "cr_createdAt (entry_of key fp planned j) = clock (jo_db j)"
  "ci_cancelRunIds (cr_intent (entry_of key fp planned j)) = ci_cancelRunIds (pc_intent planned)"
  by (simp_all add: entry_of_def Let_def)

lemma apply_intent_fingerprint:
  "apply_intent coll digest items (intent\<lparr>ci_fingerprint := f\<rparr>) act = apply_intent coll digest items intent act"
proof -
  have fields: "ci_op (intent\<lparr>ci_fingerprint := f\<rparr>) = ci_op intent" "ci_itemId (intent\<lparr>ci_fingerprint := f\<rparr>) = ci_itemId intent"
    "ci_item (intent\<lparr>ci_fingerprint := f\<rparr>) = ci_item intent" "ci_patch (intent\<lparr>ci_fingerprint := f\<rparr>) = ci_patch intent"
    "ci_orderedIds (intent\<lparr>ci_fingerprint := f\<rparr>) = ci_orderedIds intent"
    "ci_steerRunId (intent\<lparr>ci_fingerprint := f\<rparr>) = ci_steerRunId intent"
    "ci_permissionMode (intent\<lparr>ci_fingerprint := f\<rparr>) = ci_permissionMode intent" by simp_all
  have report: "applied_as coll digest (intent\<lparr>ci_fingerprint := f\<rparr>) = applied_as coll digest intent"
    by (intro ext) (simp add: applied_as_def)
  have promote: "apply_promote coll items (intent\<lparr>ci_fingerprint := f\<rparr>) act = apply_promote coll items intent act"
    unfolding apply_promote_def Let_def fields by (rule refl)
  show ?thesis unfolding apply_intent_def Let_def fields report promote by (rule refl)
qed

lemma apply_entry: "apply_intent coll digest items (cr_intent (entry_of key fp planned j)) act = apply_intent coll digest items (pc_intent planned) act"
  by (simp add: entry_of_def Let_def apply_intent_fingerprint)

lemma unfinished_entry:
  assumes "list_unfinished t j = []" "ci_threadId (pc_intent planned) = t"
  shows "list_unfinished t (journal_command key fp planned j) = [entry_of key fp planned j]"
proof -
  have "set (list_unfinished t j) = {r \<in> set (jo_commands j). cr_threadId r = t \<and> unfinished r}"
    by (auto simp: list_unfinished_def)
  then have "filter (\<lambda>r. cr_threadId r = t \<and> unfinished r) (jo_commands j) = []"
    using assms(1) by (auto simp: filter_empty_conv)
  then show ?thesis
    using assms(2) by (simp add: list_unfinished_def journal_command_simps unfinished_def)
qed

lemma active_runs: "runs s = runs s' \<Longrightarrow> active_run_id t s = active_run_id t s'"
  by (simp add: active_run_id_def get_active_run_def only_run_def)

section \<open>Recovery\<close>

text \<open>The change of an entry whose intent applies: the items are saved and the effects follow.\<close>

lemma recover_pending:
  assumes "list_unfinished t j = [row]" "cr_status row = CmdPending" "active_run_id t (jo_db j) = Inr active"
    "apply_intent coll digest items (cr_intent row) active = Inr applied" "queue_ok t (ai_items applied)" "\<not> ai_skipped applied"
  shows "recover_queue_journal coll digest now abandon t items j =
    (let next = sort_queue coll (ai_items applied) in
     (next, snd (finish_command abandon row (ai_result applied) (j\<lparr>jo_queue := (jo_queue j)(t := next)\<rparr>))))"
  using assms renormalize_queue [OF assms(5)] save_ok [of t "sort_queue coll (ai_items applied)"]
  by (simp add: recover_queue_journal_def recover_entry_def either_ok_def Let_def)

lemma repair_after_recovery:
  assumes "load_message_queue coll now t j = Inr loaded" "recover_queue_journal coll digest now abandon t loaded j = (items, j1)"
    "queue_ok t items" "sort_queue coll items = items" "jo_queue j1 t = items"
  shows "repair_queue_journal coll digest now abandon t j = (Inr items, j1)"
proof -
  have "j1\<lparr>jo_queue := (jo_queue j1)(t := items)\<rparr> = j1" using assms(5) by (metis fun_upd_triv journal.surjective journal.update_convs(4))
  then show ?thesis
    using assms renormalize_queue [OF assms(3)] save_ok [OF assms(3)]
    by (simp add: repair_queue_journal_def mutate_durable_queue_def)
qed

text \<open>The uninterrupted command, as the three writes it makes.\<close>

lemma run_command_Inr:
  fixes fp :: "string option"
  assumes ok: "queue_ok t (jo_queue j t)" and free: "list_unfinished t j = []" "get_command key j = None"
    and plan: "active_run_id t (jo_db j) = Inr active" "plan (sort_queue coll (jo_queue j t)) active (jo_db j) = Inr planned"
    and run: "apply_intent coll digest (sort_queue coll (jo_queue j t)) (pc_intent planned) active = Inr applied"
      "queue_ok t (ai_items applied)"
  defines "row \<equiv> entry_of key fp planned j" and "final \<equiv> sort_queue coll (ai_items applied)"
  defines "j3 \<equiv> (journal_command key fp planned j)\<lparr>jo_queue := (jo_queue j)(t := final)\<rparr>"
  shows "run_durable_queue_command coll digest now abandon t key plan fp j =
    (let (settled, j4) = finish_command abandon row (command_report planned applied) j3
     in (Inr \<lparr>co_result = command_report planned applied, co_effectsSettled = settled, co_replayed = False, co_items = final\<rparr>, j4))"
proof -
  have key: "get_command key (journal_command key fp planned j) = Some row"
    using free(2) by (simp add: get_command_def journal_command_simps lookup_row_append row_def)
  have w: "write_command coll digest now t active planned (sort_queue coll (jo_queue j t)) (journal_command key fp planned j) =
      Inr (applied, final, j3)"
    using run renormalize_queue [OF run(2)] save_ok [of t final coll now]
    by (simp add: write_command_def final_def j3_def journal_command_simps)
  have "get_command key j3 = Some row" using key by (simp add: j3_def get_command_def)
  then show ?thesis
    using load_ok [OF ok] free plan w
    by (simp add: run_durable_queue_command_def run_queue_command_def no_unfinished Let_def)
qed

lemma crash_recovery:
  assumes ok: "queue_ok t (jo_queue j t)" "runs_ok (jo_db j)" and free: "list_unfinished t j = []" "get_command key j = None"
    and plan: "active_run_id t (jo_db j) = Inr active" "plan (sort_queue coll (jo_queue j t)) active (jo_db j) = Inr planned"
      "intent_ok t (sort_queue coll (jo_queue j t)) (pc_intent planned)"
    and run: "apply_intent coll digest (sort_queue coll (jo_queue j t)) (pc_intent planned) active = Inr applied" "\<not> ai_skipped applied"
    and cur: "epochs_current (jo_epochs j) (ci_cancelRunIds (pc_intent planned)) (jo_db j)"
  shows "\<exists>out j4 j5. run_durable_queue_command coll digest now abandon t key plan fp j = (Inr out, j4) \<and>
     repair_queue_journal coll digest now2 abandon t (crash (journal_command key fp planned j)) = (Inr (co_items out), j5) \<and>
     repair_queue_journal coll digest now2 abandon t
       (crash ((journal_command key fp planned j)\<lparr>jo_queue := (jo_queue j)(t := co_items out)\<rparr>)) = (Inr (co_items out), j5) \<and>
     same_but_report j5 j4 \<and> queue_ok t (co_items out) \<and> jo_queue j4 t = co_items out \<and> \<not> co_replayed out \<and>
     co_result out = command_report planned applied"
proof -
  let ?items = "sort_queue coll (jo_queue j t)" and ?j2 = "journal_command key fp planned j" and ?row = "entry_of key fp planned j"
  let ?next = "sort_queue coll (ai_items applied)"
  let ?j3 = "?j2\<lparr>jo_queue := (jo_queue j)(t := ?next)\<rparr>"
  have iok: "queue_ok t ?items" using ok(1) by simp
  have rep: "queue_ok t (ai_items applied)" "repeats coll digest (pc_intent planned) active applied"
    using apply_repeats [OF iok _ plan(3) run(1)] by simp_all
  obtain settled j4 where fin: "finish_command abandon ?row (command_report planned applied) ?j3 = (settled, j4)"
    by (cases "finish_command abandon ?row (command_report planned applied) ?j3")
  let ?out = "\<lparr>co_result = command_report planned applied, co_effectsSettled = settled, co_replayed = False, co_items = ?next\<rparr>"
  have whole: "run_durable_queue_command coll digest now abandon t key plan fp j = (Inr ?out, j4)"
    using run_command_Inr [where plan = plan, OF ok(1) free plan(1,2) run(1) rep(1)] fin by simp
  have thread: "ci_threadId (pc_intent planned) = t" using plan(3) by (simp add: intent_ok_def)
  let ?c3 = "crash ?j3"
  define j5 where "j5 = snd (finish_command abandon ?row (ai_result applied) ?c3)"
  have unf: "list_unfinished t j' = [?row]" if "jo_commands j' = jo_commands ?j2" for j'
    using unfinished_entry [OF free(1) thread] that by (simp add: list_unfinished_def)
  have act: "active_run_id t (jo_db j') = Inr active" if "jo_db j' = jo_db ?j2" for j'
    using active_runs [of "jo_db j'" "jo_db j"] plan(1) that by (simp add: journal_command_simps)
  have early: "recover_queue_journal coll digest now2 abandon t ?items (crash ?j2) = (?next, j5)"
    using recover_pending [OF unf _ act _ rep(1) run(2), of "crash ?j2"] run(1)
    by (simp add: apply_entry j5_def crash_queue journal_command_simps Let_def)
  from rep(2) obtain a' where a': "apply_intent coll digest ?next (pc_intent planned) active = Inr a'"
    "sort_queue coll (ai_items a') = ?next" "ai_result a' = ai_result applied" "ai_skipped a' = ai_skipped applied"
    unfolding repeats_def by blast
  have a'ok: "queue_ok t (ai_items a')"
    using rep(1) a'(2) by (metis queue_ok_sort)
  have late: "recover_queue_journal coll digest now2 abandon t ?next ?c3 = (?next, j5)"
    using recover_pending [OF unf _ act _ a'ok, of ?c3] a' run(2)
    by (simp add: apply_entry j5_def crash_queue journal_command_simps Let_def)
  have saved: "jo_queue j5 t = ?next" by (simp add: j5_def finish_queue)
  have "repair_queue_journal coll digest now2 abandon t (crash ?j2) = (Inr ?next, j5)"
  proof (rule repair_after_recovery [OF _ early _ _ saved])
    show "load_message_queue coll now2 t (crash ?j2) = Inr ?items"
      using load_ok [of t "crash ?j2"] ok(1) by (simp add: journal_command_simps)
  qed (use rep(1) in simp_all)
  moreover have "repair_queue_journal coll digest now2 abandon t ?c3 = (Inr ?next, j5)"
  proof (rule repair_after_recovery [OF _ late _ _ saved])
    show "load_message_queue coll now2 t ?c3 = Inr ?next"
      using load_ok [of t ?c3] rep(1) by simp
  qed (use rep(1) in simp_all)
  moreover have "same_but_report j5 j4"
  proof -
    have "same_but_report ?c3 ?j3" by (simp add: same_but_report_def same_rows_refl)
    moreover have "get_run i (jo_db ?j2) = get_run i (jo_db j)" for i by (simp add: get_run_def journal_command_simps)
    then have "epochs_current (jo_epochs ?j3) (ci_cancelRunIds (cr_intent ?row)) (jo_db ?c3)"
      "epochs_current (jo_epochs ?c3) (ci_cancelRunIds (cr_intent ?row)) (jo_db ?c3)"
      using cur by (simp_all add: epochs_current_def journal_command_simps)
    moreover have "runs_ok (jo_db ?c3)" using ok(2) by (simp add: runs_ok_def journal_command_simps)
    ultimately show ?thesis using finish_same fin unfolding j5_def by (metis snd_conv)
  qed
  moreover have "jo_queue j4 t = ?next" using finish_queue [of abandon ?row "command_report planned applied" ?j3] fin by simp
  ultimately show ?thesis using whole rep(1) by (intro exI [of _ ?out] exI [of _ j4] exI [of _ j5]) simp
qed

end
