(* ===== verification/QueueEntries.thy ===== *)
theory QueueEntries
  imports QueueRecovery
begin

text \<open>
  The entries of the journal over any sequence of commands and changes: an entry that is applied or failed is
  final, an unfinished one was tried fewer than five times, and a finished command is answered from its entry.
\<close>

section \<open>What a write touches\<close>

definition touches :: "string \<Rightarrow> journal \<Rightarrow> journal \<Rightarrow> bool" where
  "touches k j j' \<longleftrightarrow> (\<exists>f. jo_commands j' = map f (jo_commands j) \<and>
     (\<forall>r. cr_commandKey (f r) = cr_commandKey r \<and> (cr_commandKey r \<noteq> k \<longrightarrow> f r = r)))"

lemma touches_same: "jo_commands j' = jo_commands j \<Longrightarrow> touches k j j'"
  unfolding touches_def by (rule exI [of _ id]) simp

lemma touches_trans: "touches k j j1 \<Longrightarrow> touches k j1 j2 \<Longrightarrow> touches k j j2"
proof -
  assume "touches k j j1" "touches k j1 j2"
  then obtain f g where "jo_commands j1 = map f (jo_commands j)" "jo_commands j2 = map g (jo_commands j1)"
    "\<And>r. cr_commandKey (f r) = cr_commandKey r \<and> (cr_commandKey r \<noteq> k \<longrightarrow> f r = r)"
    "\<And>r. cr_commandKey (g r) = cr_commandKey r \<and> (cr_commandKey r \<noteq> k \<longrightarrow> g r = r)"
    unfolding touches_def by blast
  then show ?thesis unfolding touches_def by (intro exI [of _ "g \<circ> f"]) simp
qed

lemma touches_update:
  "(\<And>r. P r \<Longrightarrow> cr_commandKey r = k) \<Longrightarrow> (\<And>r. cr_commandKey (f r) = cr_commandKey r) \<Longrightarrow> touches k j (update_commands P f j)"
  unfolding touches_def update_commands_def update_rows_def
  by (intro exI [of _ "\<lambda>r. if P r then f r else r"]) auto

lemma touches_marks:
  "touches (cr_commandKey row) j (mark_applied row r j)" "touches (cr_commandKey row) j (mark_effects_pending row r j)"
  "touches k j (record_failure k j)"
  unfolding mark_applied_def mark_effects_pending_def record_failure_def by (auto intro: touches_update)

lemma touches_repair: "touches k j (schedule_repair t j')" if "touches k j j'"
  using that by (simp add: schedule_repair_def touches_def)

lemma leave_pending_touches: "touches (cr_commandKey row) j (leave_pending row r j)"
  unfolding leave_pending_def by (blast intro: touches_repair touches_trans touches_marks)

lemma give_up_touches: "touches (cr_commandKey row) j (give_up_or_retry t row j)"
  by (auto simp: give_up_or_retry_def Let_def intro: touches_repair touches_marks)

lemma touches_from: "jo_commands j1 = jo_commands j \<Longrightarrow> touches k j1 j2 \<Longrightarrow> touches k j j2"
  by (simp add: touches_def)

lemma finish_touches: "touches (cr_commandKey row) j (snd (finish_command abandon row r j))"
  unfolding finish_command_def Let_def
  by (auto split: option.splits prod.splits sum.splits
      intro: touches_from [OF _ leave_pending_touches] touches_from [OF _ touches_marks(1)])

section \<open>Well-formed entries\<close>

definition entry_ok :: "command_row \<Rightarrow> bool" where
  "entry_ok r \<longleftrightarrow> cr_attempts r \<le> QUEUE_COMMAND_MAX_ATTEMPTS \<and> (unfinished r \<longrightarrow> cr_attempts r < QUEUE_COMMAND_MAX_ATTEMPTS)"

definition commands_ok :: "journal \<Rightarrow> bool" where
  "commands_ok j \<longleftrightarrow> distinct (map cr_commandKey (jo_commands j)) \<and> list_all entry_ok (jo_commands j)"

definition still_open :: "string \<Rightarrow> journal \<Rightarrow> bool" where
  "still_open k j \<longleftrightarrow> list_all (\<lambda>r. cr_commandKey r = k \<longrightarrow> unfinished r) (jo_commands j)"

lemma commands_ok_cong: "jo_commands j = jo_commands j' \<Longrightarrow> commands_ok j = commands_ok j'"
  by (simp add: commands_ok_def)

lemma commands_ok_update:
  assumes "commands_ok j" "\<And>r. cr_commandKey (f r) = cr_commandKey r"
    "\<And>r. r \<in> set (jo_commands j) \<Longrightarrow> P r \<Longrightarrow> entry_ok r \<Longrightarrow> entry_ok (f r)"
  shows "commands_ok (update_commands P f j)"
proof -
  have "map cr_commandKey (jo_commands (update_commands P f j)) = map cr_commandKey (jo_commands j)"
    using assms(2) by (simp add: update_commands_def)
  then show ?thesis
    using assms(1,3) unfolding commands_ok_def by (auto simp: update_commands_def set_update_rows list_all_iff)
qed

lemma record_failure_ok: "commands_ok j \<Longrightarrow> commands_ok (record_failure k j)"
  unfolding record_failure_def
  by (rule commands_ok_update) (auto simp: entry_ok_def unfinished_def)

lemma marks_ok:
  assumes "commands_ok j" "still_open (cr_commandKey row) j"
  shows "commands_ok (mark_applied row r j)" "commands_ok (mark_effects_pending row r j)"
  unfolding mark_applied_def mark_effects_pending_def
  using assms(2) by (auto intro!: commands_ok_update [OF assms(1)] simp: entry_ok_def unfinished_def still_open_def list_all_iff)

lemma leave_pending_ok:
  assumes "commands_ok j" "still_open (cr_commandKey row) j"
  shows "commands_ok (leave_pending row r j)"
  using record_failure_ok [OF marks_ok(2) [OF assms], of "cr_commandKey row" r]
  by (simp add: leave_pending_def schedule_repair_def commands_ok_def)

lemma still_open_cong: "jo_commands j = jo_commands j' \<Longrightarrow> still_open k j = still_open k j'"
  by (simp add: still_open_def)

lemma finish_ok:
  assumes "commands_ok j" "still_open (cr_commandKey row) j"
  shows "commands_ok (snd (finish_command abandon row r j))"
proof -
  have same: "commands_ok j' \<and> still_open (cr_commandKey row) j'" if "jo_commands j' = jo_commands j" for j'
    using assms commands_ok_cong [OF that] still_open_cong [OF that] by simp
  show ?thesis
    unfolding finish_command_def Let_def
    by (auto split: option.splits prod.splits sum.splits intro!: leave_pending_ok marks_ok simp: same assms)
qed

section \<open>Recovery\<close>

lemma save_commands: "save_message_queue coll now t items j = Inr j' \<Longrightarrow> jo_commands j' = jo_commands j"
  by (auto simp: save_message_queue_def map_sum_def split: sum.splits)

lemma recover_entry_step:
  assumes "commands_ok j" "still_open (cr_commandKey row) j"
  shows "commands_ok (snd (recover_entry coll digest now abandon t row (items, j))) \<and>
    touches (cr_commandKey row) j (snd (recover_entry coll digest now abandon t row (items, j)))"
proof -
  have give: "commands_ok (give_up_or_retry t row j)"
    using record_failure_ok [OF assms(1)] by (auto simp: give_up_or_retry_def Let_def schedule_repair_def commands_ok_def)
  have fin: "commands_ok (snd (finish_command abandon row' r j')) \<and> touches (cr_commandKey row) j (snd (finish_command abandon row' r j'))"
    if "jo_commands j' = jo_commands j" "cr_commandKey row' = cr_commandKey row" for j' row' r
    using finish_ok [of j' row' abandon r] finish_touches [of row' j' abandon r] touches_from [OF that(1)] that assms
      commands_ok_cong [OF that(1)] still_open_cong [OF that(1)] by simp
  show ?thesis
    unfolding recover_entry_def Let_def
    using give give_up_touches [of row j t]
    by (auto split: option.splits sum.splits if_splits prod.splits dest: save_commands
        intro!: conjunct1 [OF fin] conjunct2 [OF fin])
qed

lemma touches_keeps:
  assumes "touches k j j'" "r \<in> set (jo_commands j)" "cr_commandKey r \<noteq> k"
  shows "r \<in> set (jo_commands j')"
proof -
  obtain f where "jo_commands j' = map f (jo_commands j)" "f r = r" using assms unfolding touches_def by blast
  then show ?thesis using assms(2) by (metis imageI list.set_map)
qed

lemma open_if_unfinished:
  "commands_ok j \<Longrightarrow> row \<in> set (jo_commands j) \<Longrightarrow> unfinished row \<Longrightarrow> still_open (cr_commandKey row) j"
  unfolding still_open_def list_all_iff commands_ok_def by (metis distinct_key_unique)

lemma recover_fold:
  assumes "commands_ok j" "distinct (map cr_commandKey rows)" "\<And>row. row \<in> set rows \<Longrightarrow> row \<in> set (jo_commands j) \<and> unfinished row"
  shows "commands_ok (snd (fold (recover_entry coll digest now abandon t) rows (items, j))) \<and>
    (\<forall>r \<in> set (jo_commands j). cr_commandKey r \<notin> set (map cr_commandKey rows) \<longrightarrow>
       r \<in> set (jo_commands (snd (fold (recover_entry coll digest now abandon t) rows (items, j)))))"
  using assms
proof (induction rows arbitrary: items j)
  case (Cons row rows)
  obtain items1 j1 where one: "recover_entry coll digest now abandon t row (items, j) = (items1, j1)"
    by (cases "recover_entry coll digest now abandon t row (items, j)")
  have "still_open (cr_commandKey row) j" using Cons.prems open_if_unfinished by auto
  then have step: "commands_ok j1" "touches (cr_commandKey row) j j1"
    using recover_entry_step [OF Cons.prems(1), of row coll digest now abandon t items] one by simp_all
  have "row' \<in> set (jo_commands j1) \<and> unfinished row'" if "row' \<in> set rows" for row'
  proof -
    have "cr_commandKey row' \<noteq> cr_commandKey row" using Cons.prems(2) that by (metis distinct.simps(2) image_eqI list.set_map list.simps(9))
    then show ?thesis using touches_keeps [OF step(2), of row'] Cons.prems(3) that by auto
  qed
  then show ?case
    using Cons.IH [OF step(1), of items1] Cons.prems(2) touches_keeps [OF step(2)] by (auto simp: one)
qed simp

lemma unfinished_distinct: "commands_ok j \<Longrightarrow> distinct (map cr_commandKey (list_unfinished t j))"
proof -
  assume ok: "commands_ok j"
  have "distinct (map cr_commandKey (filter (\<lambda>r. cr_threadId r = t \<and> unfinished r) (jo_commands j)))"
    using ok by (simp add: commands_ok_def distinct_map_filter)
  moreover have "mset (map cr_commandKey (list_unfinished t j)) =
      mset (map cr_commandKey (filter (\<lambda>r. cr_threadId r = t \<and> unfinished r) (jo_commands j)))"
    by (simp add: list_unfinished_def)
  ultimately show ?thesis by (metis mset_eq_imp_distinct_iff)
qed

lemma recover_ok:
  assumes "commands_ok j" "recover_queue_journal coll digest now abandon t items j = (items', j')"
  shows "commands_ok j'" "\<And>r. r \<in> set (jo_commands j) \<Longrightarrow> \<not> unfinished r \<Longrightarrow> r \<in> set (jo_commands j')"
proof -
  let ?rows = "list_unfinished t j"
  have rows: "row \<in> set (jo_commands j) \<and> unfinished row" if "row \<in> set ?rows" for row
    using that by (simp add: list_unfinished_def)
  note d = unfinished_distinct [OF assms(1), of t]
  note f = recover_fold [OF assms(1) d rows, of coll digest now abandon t items, folded recover_queue_journal_def]
  show "commands_ok j'" using f assms(2) by simp
  fix r assume r: "r \<in> set (jo_commands j)" "\<not> unfinished r"
  have "cr_commandKey r \<notin> set (map cr_commandKey ?rows)"
  proof
    assume "cr_commandKey r \<in> set (map cr_commandKey ?rows)"
    then obtain row where "row \<in> set ?rows" "cr_commandKey r = cr_commandKey row" by auto
    moreover have "row \<in> set (jo_commands j)" "unfinished row" using rows [OF \<open>row \<in> set ?rows\<close>] by simp_all
    ultimately show False
      using distinct_key_unique [of cr_commandKey "jo_commands j" r row] r assms(1) by (simp add: commands_ok_def)
  qed
  then show "r \<in> set (jo_commands j')" using f assms(2) r(1) by auto
qed

section \<open>Runs of the journal\<close>

definition finals_kept :: "journal \<Rightarrow> journal \<Rightarrow> bool" where
  "finals_kept j j' \<longleftrightarrow> (\<forall>r \<in> set (jo_commands j). \<not> unfinished r \<longrightarrow> r \<in> set (jo_commands j'))"

lemma finals_kept_refl: "jo_commands j' = jo_commands j \<Longrightarrow> finals_kept j j'"
  by (simp add: finals_kept_def)

lemma finals_kept_trans: "finals_kept j j1 \<Longrightarrow> finals_kept j1 j2 \<Longrightarrow> finals_kept j j2"
  by (simp add: finals_kept_def)

lemma recover_keeps:
  "commands_ok j \<Longrightarrow> recover_queue_journal coll digest now abandon t items j = (items', j') \<Longrightarrow> commands_ok j' \<and> finals_kept j j'"
  using recover_ok [of j coll digest now abandon t items items' j'] by (simp add: finals_kept_def)

lemma kept_same: "commands_ok j1 \<and> finals_kept j j1 \<Longrightarrow> jo_commands j' = jo_commands j1 \<Longrightarrow> commands_ok j' \<and> finals_kept j j'"
  by (simp add: commands_ok_def finals_kept_def)

lemma mutate_keeps:
  assumes "commands_ok j" "mutate_durable_queue coll digest now abandon t mutator j = (res, j')"
  shows "commands_ok j' \<and> finals_kept j j'"
proof (cases "load_message_queue coll now t j")
  case (Inl e)
  with assms show ?thesis by (simp add: mutate_durable_queue_def finals_kept_def)
next
  case (Inr loaded)
  obtain current j1 where rec: "recover_queue_journal coll digest now abandon t loaded j = (current, j1)"
    by (cases "recover_queue_journal coll digest now abandon t loaded j")
  have "jo_commands j' = jo_commands j1"
    using assms(2) Inr rec by (auto simp: mutate_durable_queue_def dest: save_commands split: sum.splits)
  then show ?thesis by (rule kept_same [OF recover_keeps [OF assms(1) rec]])
qed

lemma journal_command_ok:
  assumes "commands_ok j" "get_command key j = None"
  shows "commands_ok (journal_command key fp planned j)" "still_open key (journal_command key fp planned j)"
  using assms by (auto simp: commands_ok_def still_open_def journal_command_simps get_command_def lookup_row_None list_all_iff
      entry_ok_def unfinished_def QUEUE_COMMAND_MAX_ATTEMPTS_def entry_of_def Let_def)

lemma write_commands: "write_command coll digest now t active planned items j = Inr (applied, next, j') \<Longrightarrow> jo_commands j' = jo_commands j"
  by (auto simp: write_command_def map_sum_def dest: save_commands split: sum.splits)

lemma fresh_command_keeps:
  assumes ok: "commands_ok j" "get_command key j = None" and row: "get_command key j3 = Some row"
    and j3: "jo_commands j3 = jo_commands (journal_command key fp planned j)"
  shows "commands_ok (snd (finish_command abandon row r j3)) \<and> finals_kept j (snd (finish_command abandon row r j3))"
proof
  have key: "cr_commandKey row = key" using row by (auto simp: get_command_def dest: lookup_row_Some)
  have "commands_ok j3 \<and> still_open key j3"
    using journal_command_ok [OF ok, of fp planned] j3 by (simp add: commands_ok_def still_open_def)
  then show "commands_ok (snd (finish_command abandon row r j3))" using finish_ok key by simp
  have "r' \<in> set (jo_commands (snd (finish_command abandon row r j3)))" if "r' \<in> set (jo_commands j)" for r'
  proof (rule touches_keeps [OF finish_touches])
    show "r' \<in> set (jo_commands j3)" using that by (simp add: j3 journal_command_simps)
    show "cr_commandKey r' \<noteq> cr_commandKey row" using ok(2) that key by (auto simp: get_command_def lookup_row_None)
  qed
  then show "finals_kept j (snd (finish_command abandon row r j3))" by (simp add: finals_kept_def)
qed

lemma run_command_keeps:
  assumes "commands_ok j" "run_queue_command coll digest now abandon t key loaded plan fp j = (res, j')"
  shows "commands_ok j' \<and> finals_kept j j'"
proof -
  obtain items j1 where rec: "recover_queue_journal coll digest now abandon t loaded j = (items, j1)"
    by (cases "recover_queue_journal coll digest now abandon t loaded j")
  note kept1 = recover_keeps [OF assms(1) rec]
  show ?thesis
  proof (cases "get_command key j1 = None \<and> (\<exists>active planned. active_run_id t (jo_db j1) = Inr active \<and> plan items active (jo_db j1) = Inr planned)")
    case False
    then have "j' = j1" using assms(2) rec by (auto simp: run_queue_command_def split: option.splits sum.splits)
    then show ?thesis using kept1 by simp
  next
    case True
    then obtain active planned where free: "get_command key j1 = None" and plan: "active_run_id t (jo_db j1) = Inr active"
      "plan items active (jo_db j1) = Inr planned" by blast
    let ?j2 = "journal_command key fp planned j1"
    have kept2: "commands_ok ?j2 \<and> finals_kept j ?j2"
      using kept1 journal_command_ok(1) [of j1 key] free by (simp add: finals_kept_def journal_command_simps)
    show ?thesis
    proof (cases "write_command coll digest now t active planned items ?j2")
      case (Inl e)
      then have "j' = ?j2" using assms(2) by (simp add: run_queue_command_def rec free plan Let_def)
      then show ?thesis using kept2 by simp
    next
      case (Inr w)
      obtain applied after j3 where w: "w = (applied, after, j3)" by (cases w)
      have j3: "jo_commands j3 = jo_commands ?j2" using write_commands Inr w by simp
      show ?thesis
      proof (cases "get_command key j3")
        case None
        then have "j' = j3" using assms(2) Inr by (simp add: run_queue_command_def rec free plan Let_def w)
        then show ?thesis using kept_same [OF kept2 j3] by simp
      next
        case (Some row)
        let ?last = "snd (finish_command abandon row (command_report planned applied) j3)"
        have "j' = ?last"
          using assms(2) Inr Some by (simp add: run_queue_command_def rec free plan Let_def w split: prod.splits)
        moreover have "commands_ok ?last \<and> finals_kept j1 ?last"
          using fresh_command_keeps [OF _ free Some j3] kept1 by simp
        ultimately show ?thesis using kept1 finals_kept_trans by blast
      qed
    qed
  qed
qed

text \<open>
  What may happen to the journal while the thread \<open>t\<close> exists and no prune is later than \<open>until\<close>: commands, changes and
  repairs of any thread, restarts, the prune of old entries and the deletion of other threads.
\<close>

inductive journal_run ::
  "(string \<Rightarrow> string) \<Rightarrow> (string \<Rightarrow> string) \<Rightarrow> string \<Rightarrow> nat \<Rightarrow> journal \<Rightarrow> journal \<Rightarrow> bool" for coll digest t until where
  start: "journal_run coll digest t until j j"
| command: "journal_run coll digest t until j j1 \<Longrightarrow>
    run_durable_queue_command coll digest now abandon t' key plan fp j1 = (res, j2) \<Longrightarrow> journal_run coll digest t until j j2"
| change: "journal_run coll digest t until j j1 \<Longrightarrow> mutate_durable_queue coll digest now abandon t' mutator j1 = (res', j2) \<Longrightarrow>
    journal_run coll digest t until j j2"
| restart: "journal_run coll digest t until j j1 \<Longrightarrow> journal_run coll digest t until j (crash j1)"
| repair: "journal_run coll digest t until j j1 \<Longrightarrow> repair_queue_journal coll digest now abandon t' j1 = (res'', j2) \<Longrightarrow>
    journal_run coll digest t until j j2"
| pruned: "journal_run coll digest t until j j1 \<Longrightarrow> at \<le> until \<Longrightarrow> journal_run coll digest t until j (prune_commands at j1)"
| deleted: "journal_run coll digest t until j j1 \<Longrightarrow> t' \<noteq> t \<Longrightarrow> journal_run coll digest t until j (delete_commands_of t' j1)"

text \<open>The finished entries of the thread that no prune up to \<open>until\<close> takes.\<close>

definition retained :: "string \<Rightarrow> nat \<Rightarrow> command_row \<Rightarrow> bool" where
  "retained t until r \<longleftrightarrow> \<not> unfinished r \<and> cr_threadId r = t \<and>
     until \<le> (case cr_appliedAt r of None \<Rightarrow> cr_createdAt r | Some a \<Rightarrow> a) + QUEUE_COMMAND_RETENTION_MS"

lemma filtered_ok: "commands_ok j \<Longrightarrow> commands_ok (j\<lparr>jo_commands := filter P (jo_commands j)\<rparr>)"
  by (auto simp: commands_ok_def distinct_map_filter list_all_iff)

lemma journal_run_keeps:
  "journal_run coll digest t until j j' \<Longrightarrow> commands_ok j \<Longrightarrow>
   commands_ok j' \<and> (\<forall>r \<in> set (jo_commands j). retained t until r \<longrightarrow> r \<in> set (jo_commands j'))"
proof (induction rule: journal_run.induct)
  case (command j j1 now abandon t' key plan fp res j2)
  have "commands_ok j2 \<and> finals_kept j1 j2"
    using command run_command_keeps [of j1 coll digest now abandon t' key _ plan fp res j2]
    by (auto simp: run_durable_queue_command_def finals_kept_def split: sum.splits)
  then show ?case using command by (simp add: finals_kept_def retained_def)
next
  case (change j j1 now abandon t' mutator res' j2)
  then show ?case
    using mutate_keeps [of j1 coll digest now abandon t' mutator res' j2] by (simp add: finals_kept_def retained_def)
next
  case (restart j j1)
  then show ?case by (simp add: commands_ok_def)
next
  case (repair j j1 now abandon t' res'' j2)
  have "commands_ok j2 \<and> finals_kept j1 j2"
    using repair mutate_keeps [of j1 coll digest now abandon t' _ res'' j2] by (simp add: repair_queue_journal_def)
  then show ?case using repair by (simp add: finals_kept_def retained_def)
next
  case (pruned j j1 at)
  have "r \<in> set (jo_commands (prune_commands at j1))" if "r \<in> set (jo_commands j1)" "retained t until r" for r
    using that pruned(2) by (auto simp: prune_commands_def retained_def split: option.splits)
  then show ?case using pruned filtered_ok by (simp add: prune_commands_def)
next
  case (deleted j j1 t')
  then show ?case using filtered_ok by (auto simp: delete_commands_of_def retained_def)
qed simp

section \<open>Replays\<close>

lemma finish_settles:
  assumes "finish_command abandon row r j = (True, j')"
  shows "jo_commands j' = update_rows (\<lambda>x. cr_commandKey x = cr_commandKey row)
     (\<lambda>x. x\<lparr>cr_status := CmdApplied, cr_result := Some (stored_result r), cr_intent := compact_intent (cr_intent row),
            cr_appliedAt := Some (clock (jo_db j'))\<rparr>) (jo_commands j)"
  using assms by (auto simp: finish_command_def Let_def mark_applied_def update_commands_def split: option.splits prod.splits sum.splits if_splits)

text \<open>A finished entry answers for its command.\<close>

lemma replay_applied:
  assumes "queue_ok t (jo_queue j t)" "list_unfinished t j = []" "get_command key j = Some row" "cr_threadId row = t"
    "cr_status row = CmdApplied" "cr_result row = Some r"
    "fp = None \<or> ci_fingerprint (cr_intent row) = None \<or> ci_fingerprint (cr_intent row) = fp"
  shows "run_durable_queue_command coll digest now abandon t key plan fp j =
    (Inr \<lparr>co_result = r, co_effectsSettled = True, co_replayed = True, co_items = sort_queue coll (jo_queue j t)\<rparr>, j)"
  using assms load_ok [OF assms(1)]
  by (auto simp: run_durable_queue_command_def run_queue_command_def no_unfinished replay_command_def)

end
