(* ===== verification/QueueRuleLaws.thy ===== *)
theory QueueRuleLaws
  imports QueueRules QueueEntries
begin

text \<open>
  What the plan of an agent's command allows: each plan with the change its intent makes, as one effect on the items.
\<close>

section \<open>Inputs and effects\<close>

definition rule_inputs_ok :: "string \<Rightarrow> string \<Rightarrow> agent_actor \<Rightarrow> queued_message list \<Rightarrow> bool" where
  "rule_inputs_ok now uuid actor items \<longleftrightarrow>
     now \<noteq> [] \<and> trim uuid \<noteq> [] \<and> uuid \<notin> set (map q_id items) \<and> ac_threadId actor \<noteq> [] \<and> ac_runId actor \<noteq> []"

text \<open>An item carries no more than it did: its limit is at most the one it had.\<close>

definition no_looser :: "permission_mode option \<Rightarrow> permission_mode option \<Rightarrow> bool" where
  "no_looser old new \<longleftrightarrow> (case old of None \<Rightarrow> True | Some m \<Rightarrow> (case new of None \<Rightarrow> False | Some m' \<Rightarrow> m' \<le> m))"

text \<open>The item is the agent's: its origin is the agent's run at most three agent messages from a person, its limit at most the run's.\<close>

definition written_by :: "agent_actor \<Rightarrow> permission_mode \<Rightarrow> queued_message \<Rightarrow> bool" where
  "written_by actor mode q \<longleftrightarrow>
     (\<exists>h. 0 < h \<and> h \<le> AGENT_MESSAGE_MAX_HOPS \<and>
        q_origin q = Some (FromAgent \<lparr>ag_threadId = ac_threadId actor, ag_runId = ac_runId actor, ag_hops = Some h\<rparr>)) \<and>
     no_looser (Some mode) (q_permissionMode q)"

lemma no_looser_refl [simp]: "no_looser m m"
  by (simp add: no_looser_def split: option.splits)

lemma no_looser_trans: "no_looser a b \<Longrightarrow> no_looser b c \<Longrightarrow> no_looser a c"
  by (auto simp: no_looser_def split: option.splits)

lemma strictest_no_looser: "no_looser a (strictest_mode a b)" "no_looser b (strictest_mode a b)"
  by (auto simp: no_looser_def strictest_mode_def is_stricter_def less_eq_permission_mode_def split: option.splits)

lemma strictest_Some: "strictest_mode a b = Some m \<Longrightarrow> no_looser a (Some m) \<and> no_looser b (Some m)"
  by (metis strictest_no_looser)

lemma hops_Inr:
  "with_agent_hops actor s = Inr sender \<Longrightarrow> \<exists>h. sender = actor\<lparr>ac_hops := Some h\<rparr> \<and> 0 < h \<and> h \<le> AGENT_MESSAGE_MAX_HOPS"
  by (auto simp: with_agent_hops_def Let_def split: if_splits option.splits)

lemma sender_origin:
  assumes "with_agent_hops actor s = Inr sender" "q_origin q = Some (FromAgent (agent_origin_of sender))"
    "no_looser (Some mode) (q_permissionMode q)"
  shows "written_by actor mode q"
  using hops_Inr [OF assms(1)] assms(2,3) by (auto simp: written_by_def agent_origin_of_def)

lemma written_from_agent: "written_by actor mode q \<Longrightarrow> from_agent q"
  by (auto simp: written_by_def from_agent_def)

lemma found_item_Inr:
  "found_item items i = Inr q \<Longrightarrow> find_item i items = Some q \<and> q_state q \<noteq> QClaimed \<and> \<not> q_internal q"
  by (auto simp: found_item_def split: option.splits if_splits)

lemma found_waiting:
  assumes "queue_ok t items" "found_item items i = Inr q"
  shows "find_item i items = Some q" "waiting q" "\<not> q_internal q" "q \<in> set items" "q_id q = i"
proof -
  note f = found_item_Inr [OF assms(2)]
  show m: "q \<in> set items" "q_id q = i" using find_item_Some [of i items q] f by simp_all
  show "find_item i items = Some q" "\<not> q_internal q" using f by simp_all
  show "waiting q" using m(1) assms(1) f by (auto simp: queue_ok_def item_ok_def waiting_def)
qed

lemma plan_fields [simp]:
  "pc_intent (planned_as intent recorded action details) = intent" "pc_report (planned_as intent recorded action details) = []"
  by (simp_all add: planned_as_def)

lemma base_intent_fields [simp]:
  "ci_op (base_intent t actor op i r) = op" "ci_threadId (base_intent t actor op i r) = t" "ci_itemId (base_intent t actor op i r) = i"
  "ci_item (base_intent t actor op i r) = None" "ci_patch (base_intent t actor op i r) = None"
  "ci_orderedIds (base_intent t actor op i r) = None" "ci_steerRunId (base_intent t actor op i r) = None"
  "ci_permissionMode (base_intent t actor op i r) = None"
  by (simp_all add: base_intent_def)

section \<open>Each command\<close>

lemma enqueue_effect:
  assumes ok: "queue_ok t items" "rule_inputs_ok now uuid actor items"
    and plan: "plan_enqueue host coll now uuid t actor content mode rev0 items s = Inr p"
    and run: "apply_intent coll digest items (pc_intent p) act = Inr a"
  shows "\<exists>x. mset (ai_items a) = add_mset x (mset items) \<and> q_id x \<notin> set (map q_id items) \<and> q_order x = next_order items \<and>
     written_by actor (run_permission_mode (ac_runId actor) s) x \<and> agent_items coll items < AGENT_QUEUE_MAX_PER_THREAD \<and>
     intent_ok t items (pc_intent p)"
proof -
  obtain sender m items' x where
    room: "agent_items coll items < AGENT_QUEUE_MAX_PER_THREAD" and hops: "with_agent_hops actor s = Inr sender"
    and enq: "enqueue_message coll now uuid items (agent_input t (labelled host (t \<noteq> ac_threadId actor) sender content)
       (norm_mode m) (run_permission_mode (ac_runId actor) s) (agent_origin_of sender)) = Inr (items', x)"
    and intent: "pc_intent p = (base_intent t actor OpEnqueue (q_id x) rev0)\<lparr>ci_item := Some x\<rparr>"
    using plan by (auto simp: plan_enqueue_def Let_def agent_full_def split: sum.splits if_splits)
  let ?input = "agent_input t (labelled host (t \<noteq> ac_threadId actor) sender content)
       (norm_mode m) (run_permission_mode (ac_runId actor) s) (agent_origin_of sender)"
  have x: "x = new_item now uuid items ?input" "trim t \<noteq> []"
    using enq by (auto simp: enqueue_message_def agent_input_def non_blank_def truthy_def Let_def split: if_splits)
  have xf: "q_id x = uuid" "q_order x = next_order items" "q_threadId x = t"
    "q_origin x = Some (FromAgent (agent_origin_of sender))" "q_permissionMode x = Some (run_permission_mode (ac_runId actor) s)"
    by (simp_all add: x(1) new_item_def agent_input_def non_blank_def truthy_def)
  have new: "q_id x \<notin> set (map q_id items)" using ok(2) by (simp add: xf rule_inputs_ok_def)
  have "input_ok t now uuid ?input"
    using ok(2) hops_Inr [OF hops] by (auto simp: input_ok_def agent_input_def rule_inputs_ok_def truthy_def count_ok_def agent_origin_of_def
        AGENT_MESSAGE_MAX_HOPS_def MAX_SAFE_INTEGER_def)
  then have "item_ok x" unfolding x(1) by (rule new_item_ok) (use x(2) in \<open>simp_all add: agent_input_def\<close>)
  then have "intent_ok t items (pc_intent p)" by (simp add: intent_ok_def intent xf)
  moreover have "find_item (q_id x) items = None" using new by (simp add: find_item_None)
  then have "mset (ai_items a) = add_mset x (mset items)"
    using run by (auto simp: apply_intent_def intent Let_def)
  moreover have "written_by actor (run_permission_mode (ac_runId actor) s) x"
    by (rule sender_origin [OF hops]) (simp_all add: xf)
  ultimately show ?thesis using new xf room by blast
qed

lemma edit_effect:
  assumes ok: "queue_ok t items" "rule_inputs_ok now uuid actor items"
    and plan: "plan_edit host coll t actor level i content mode rev0 items s = Inr p"
    and run: "apply_intent coll digest items (pc_intent p) act = Inr a"
  shows "\<exists>q q'. find_item i items = Some q \<and> (authored_by actor q \<or> level = Manage) \<and>
     (mset (ai_items a) = mset (map (\<lambda>x. if q_id x = i then q' else x) items) \<or> ai_items a = items \<and> q' = q) \<and>
     q_id q' = i \<and> q_order q' = q_order q \<and> q_internal q' = q_internal q \<and> waiting q' = waiting q \<and>
     no_looser (q_permissionMode q) (q_permissionMode q') \<and>
     (q_content q' = q_content q \<and> q_origin q' = q_origin q \<or> written_by actor (run_permission_mode (ac_runId actor) s) q') \<and>
     (from_agent q' \<longrightarrow> from_agent q \<or> agent_items coll items < AGENT_QUEUE_MAX_PER_THREAD) \<and>
     intent_ok t items (pc_intent p)"
proof -
  obtain q where q: "found_item items i = Inr q" and rights: "edit_rights host t actor level mode q = Inr ()"
    using plan by (auto simp: plan_edit_def split: sum.splits)
  note f = found_waiting [OF ok(1) q]
  have may: "authored_by actor q \<or> level = Manage"
    using rights by (auto simp: edit_rights_def split: option.splits if_splits)
  obtain patch where intent: "ci_op (pc_intent p) = OpEdit" "ci_itemId (pc_intent p) = i" "ci_patch (pc_intent p) = Some patch"
      "ci_threadId (pc_intent p) = t" "ci_item (pc_intent p) = None" "patch_ok patch"
    and patch: "mp_content patch = None \<and> mp_origin patch = KeepOrigin \<and> mp_permissionMode patch = None \<or>
      (\<exists>sender. with_agent_hops actor s = Inr sender \<and> mp_origin patch = SetOrigin (agent_origin_of sender) \<and>
         mp_permissionMode patch = strictest_mode (q_permissionMode q) (Some (run_permission_mode (ac_runId actor) s)) \<and>
         (from_agent q \<or> agent_items coll items < AGENT_QUEUE_MAX_PER_THREAD))"
  proof (cases content)
    case None
    then have p: "pc_intent p = (base_intent t actor OpEdit i (Some rev0))\<lparr>ci_patch := Some (mode_patch mode)\<rparr>"
      using plan f(5) by (auto simp: plan_edit_def q Let_def split: sum.splits if_splits)
    show ?thesis by (rule that [of "mode_patch mode"]) (simp_all add: p mode_patch_def patch_ok_def)
  next
    case (Some words)
    then obtain patch where cp: "content_patch host coll t actor mode q words items s = Inr patch"
      and p: "pc_intent p = (base_intent t actor OpEdit i (Some rev0))\<lparr>ci_patch := Some patch, ci_cancelRunIds := owned_run q\<rparr>"
      using plan f(5) by (auto simp: plan_edit_def q Let_def map_sum_def split: sum.splits if_splits)
    have room: "from_agent q \<or> agent_items coll items < AGENT_QUEUE_MAX_PER_THREAD"
      using cp by (cases "from_agent q"; cases "AGENT_QUEUE_MAX_PER_THREAD \<le> agent_items coll items")
        (simp_all add: content_patch_def Let_def agent_full_def)
    obtain sender where hops: "with_agent_hops actor s = Inr sender"
      using cp by (cases "with_agent_hops actor s") (auto simp: content_patch_def Let_def split: sum.splits)
    have "(if \<not> from_agent q then agent_full coll items else Inr ()) = Inr ()"
      using room by (auto simp: agent_full_def)
    then have "patch = \<lparr>mp_content = Some (labelled host (t \<noteq> ac_threadId actor \<or> \<not> authored_by actor q) sender words),
            mp_mode = (if t \<noteq> ac_threadId actor \<and> in_plan host t then Some (turn_mode TurnPlan) else map_option turn_mode mode),
            mp_origin = SetOrigin (agent_origin_of sender),
            mp_permissionMode = strictest_mode (q_permissionMode q) (Some (run_permission_mode (ac_runId actor) s)),
            mp_sentFrom = None, mp_dropRun = True\<rparr>"
      using cp by (simp add: content_patch_def Let_def hops)
    then have pt: "mp_origin patch = SetOrigin (agent_origin_of sender)" "mp_sentFrom patch = None"
        "mp_permissionMode patch = strictest_mode (q_permissionMode q) (Some (run_permission_mode (ac_runId actor) s))"
      by simp_all
    have "patch_ok patch"
      using hops_Inr [OF hops] ok(2) by (auto simp: patch_ok_def pt agent_origin_of_def rule_inputs_ok_def count_ok_def
          AGENT_MESSAGE_MAX_HOPS_def MAX_SAFE_INTEGER_def)
    moreover have "\<exists>sender. with_agent_hops actor s = Inr sender \<and> mp_origin patch = SetOrigin (agent_origin_of sender) \<and>
        mp_permissionMode patch = strictest_mode (q_permissionMode q) (Some (run_permission_mode (ac_runId actor) s)) \<and>
        (from_agent q \<or> agent_items coll items < AGENT_QUEUE_MAX_PER_THREAD)"
      using hops pt room by blast
    ultimately show ?thesis by (intro that [of patch]) (simp_all add: p)
  qed
  have iok: "intent_ok t items (pc_intent p)" by (simp add: intent_ok_def intent)
  show ?thesis
  proof (cases "edit_queued_message coll items i patch")
    case (Inl e)
    then have "ai_items a = items" using run by (auto simp: apply_intent_def intent f(1) Let_def)
    then show ?thesis by (intro exI [of _ q]) (use f may iok in simp)
  next
    case (Inr r)
    obtain after q' where r: "r = (after, q')" by (cases r)
    have run': "edit_queued_message coll items i patch = Inr (after, q')" using Inr r by simp
    then obtain words where e: "q' = patched_item q patch words" "after = sort_queue coll (put_item i q' items)"
      "mp_content patch = None \<longrightarrow> words = q_content q"
      using f(1) by (auto simp: edit_queued_message_def edited_content_def Let_def split: option.splits if_splits sum.splits)
    have "distinct (map q_id items)" using ok(1) by (simp add: queue_ok_def)
    then have "mset (ai_items a) = mset (map (\<lambda>x. if q_id x = i then q' else x) items)"
      using run run' by (auto simp: apply_intent_def intent f(1) Let_def e(2) put_item_map)
    moreover have "no_looser (q_permissionMode q) (q_permissionMode q')"
      using patch by (auto simp: e(1) patched_item_def dest: strictest_Some split: option.splits)
    moreover have "q_content q' = q_content q \<and> q_origin q' = q_origin q \<and> from_agent q' = from_agent q \<or>
        written_by actor (run_permission_mode (ac_runId actor) s) q' \<and> (from_agent q \<or> agent_items coll items < AGENT_QUEUE_MAX_PER_THREAD)"
      using patch
    proof
      assume "mp_content patch = None \<and> mp_origin patch = KeepOrigin \<and> mp_permissionMode patch = None"
      then show ?thesis using e by (auto simp: patched_item_def from_agent_def)
    next
      assume "\<exists>sender. with_agent_hops actor s = Inr sender \<and> mp_origin patch = SetOrigin (agent_origin_of sender) \<and>
         mp_permissionMode patch = strictest_mode (q_permissionMode q) (Some (run_permission_mode (ac_runId actor) s)) \<and>
         (from_agent q \<or> agent_items coll items < AGENT_QUEUE_MAX_PER_THREAD)"
      then obtain sender where sender: "with_agent_hops actor s = Inr sender" "mp_origin patch = SetOrigin (agent_origin_of sender)"
        "mp_permissionMode patch = strictest_mode (q_permissionMode q) (Some (run_permission_mode (ac_runId actor) s))"
        "from_agent q \<or> agent_items coll items < AGENT_QUEUE_MAX_PER_THREAD" by blast
      have "written_by actor (run_permission_mode (ac_runId actor) s) q'"
        using strictest_no_looser(2) [of "Some (run_permission_mode (ac_runId actor) s)" "q_permissionMode q"]
        by (intro sender_origin [OF sender(1)]) (auto simp: e(1) patched_item_def sender no_looser_def split: option.splits)
      then show ?thesis using sender(4) by blast
    qed
    moreover have "q_id q' = i" "q_order q' = q_order q" "q_internal q' = q_internal q" "waiting q' = waiting q"
      using f(5) by (simp_all add: e(1) patched_item_def waiting_def)
    ultimately show ?thesis using f(1) may iok by blast
  qed
qed


lemma remove_effect:
  assumes ok: "queue_ok t items" and plan: "plan_remove t actor level i rev0 items = Inr p"
    and run: "apply_intent coll digest items (pc_intent p) act = Inr a"
  shows "\<exists>q. find_item i items = Some q \<and> (authored_by actor q \<or> level = Manage) \<and> ai_items a = without i items \<and>
     intent_ok t items (pc_intent p)"
proof -
  obtain q where q: "found_item items i = Inr q" and may: "authored_by actor q \<or> level = Manage"
    and intent: "ci_op (pc_intent p) = OpRemove" "ci_itemId (pc_intent p) = q_id q" "ci_threadId (pc_intent p) = t"
      "ci_item (pc_intent p) = None" "ci_patch (pc_intent p) = None"
    using plan by (auto simp: plan_remove_def split: sum.splits if_splits)
  note f = found_waiting [OF ok q]
  have "ai_items a = fst (remove_queued_message items i)" using run f(5) by (auto simp: apply_intent_def intent Let_def)
  then have "ai_items a = without i items" using f found_item_Inr [OF q] by (simp add: remove_queued_message_def)
  then show ?thesis using f(1) may by (auto simp: intent_ok_def intent)
qed

lemma reorder_effect:
  assumes plan: "plan_reorder coll t actor level ids rev0 items = Inr p"
    and run: "apply_intent coll digest items (pc_intent p) act = Inr a"
  shows "reorder_queued_messages coll items ids = Inr (ai_items a) \<and>
     (level = Manage \<or> \<not> puts_ahead_of_others coll items ids (authored_by actor)) \<and> intent_ok t items (pc_intent p)"
proof -
  obtain after where "reorder_queued_messages coll items ids = Inr after" "level = Manage \<or> \<not> puts_ahead_of_others coll items ids (authored_by actor)"
    and intent: "ci_op (pc_intent p) = OpReorder" "ci_orderedIds (pc_intent p) = Some ids" "ci_threadId (pc_intent p) = t"
      "ci_item (pc_intent p) = None" "ci_patch (pc_intent p) = None"
    using plan by (auto simp: plan_reorder_def split: sum.splits if_splits)
  then show ?thesis using run by (auto simp: apply_intent_def Let_def intent_ok_def)
qed

lemma check_promotion_limit:
  "check_promotion t (Some q) e ceiling s = Inr (run, limit) \<Longrightarrow> limit = strictest_mode (q_permissionMode q) ceiling"
  by (auto simp: check_promotion_def split: sum.splits option.splits if_splits)

text \<open>A promotion, or the demotion that replaces it, changes how the item runs and never its words.\<close>

definition rerouted :: "queued_message \<Rightarrow> queued_message \<Rightarrow> bool" where
  "rerouted q q' \<longleftrightarrow> q_id q' = q_id q \<and> q_order q' = q_order q \<and> q_internal q' = q_internal q \<and> waiting q' = waiting q \<and>
     no_looser (q_permissionMode q) (q_permissionMode q') \<and> q_content q' = q_content q \<and> q_mode q' = q_mode q \<and> q_origin q' = q_origin q"

lemma rerouted_refl [simp]: "rerouted q q"
  by (simp add: rerouted_def)

lemma promote_effect:
  assumes ok: "queue_ok t items"
    and plan: "plan_promote host t actor i rev0 run0 items s = Inr p"
    and run: "apply_intent coll digest items (pc_intent p) act = Inr a"
  shows "(\<exists>f. mset (ai_items a) = mset (map f items) \<and> (\<forall>q \<in> set items. rerouted q (f q))) \<and> intent_ok t items (pc_intent p)"
proof -
  obtain q run1 limit where q: "found_item items i = Inr q"
    and check: "check_promotion t (Some q) (Some run0) (Some (run_permission_mode (ac_runId actor) s)) s = Inr (run1, limit)"
    and intent: "ci_op (pc_intent p) = OpPromote" "ci_itemId (pc_intent p) = q_id q" "ci_threadId (pc_intent p) = t"
      "ci_item (pc_intent p) = None" "ci_patch (pc_intent p) = None" "ci_permissionMode (pc_intent p) = limit"
    using plan by (auto simp: plan_promote_def split: sum.splits if_splits)
  note f = found_waiting [OF ok q]
  have iok: "intent_ok t items (pc_intent p)" by (simp add: intent_ok_def intent)
  obtain out r where out: "apply_promote coll items (pc_intent p) act = Inr (out, r)" "ai_items a = out"
    using run by (cases "apply_promote coll items (pc_intent p) act") (auto simp: apply_intent_def intent Let_def)
  have "\<exists>f. mset out = mset (map f items) \<and> (\<forall>x \<in> set items. rerouted x (f x))"
  proof (cases "truthy (ci_steerRunId (pc_intent p)) \<and> act \<noteq> ci_steerRunId (pc_intent p)")
    case True
    let ?d = "\<lambda>x. if q_intent x \<noteq> IntentSteer \<or> q_state x = QClaimed \<or> (q_id x \<notin> {i}) then x else demoted_item x"
    let ?w = "\<lambda>x. if q_id x \<noteq> i \<or> \<not> truthy (q_runId x) then x else x\<lparr>q_runId := None\<rparr>"
    have "out = without_run (demote_steer_items coll items (Some [i])) i"
      using True out(1) f(1,5) by (simp add: apply_promote_def Let_def intent)
    then have "mset out = mset (map (?w \<circ> ?d) items)"
      by (simp add: without_run_def demote_steer_items_def sort_queue_def multiset.map_comp)
    moreover have "rerouted x ((?w \<circ> ?d) x)" if "x \<in> set items" for x
      using that ok by (auto simp: rerouted_def demoted_item_def waiting_def queue_ok_def item_ok_def)
    ultimately show ?thesis by blast
  next
    case False
    then obtain after x where pr: "promote_queued_message_to_steer coll items i (ci_steerRunId (pc_intent p)) limit = Inr (after, x)"
      and o: "out = map (\<lambda>y. if q_id y = q_id (x\<lparr>q_runId := None\<rparr>) then x\<lparr>q_runId := None\<rparr> else y) after"
      using out(1) f(1,2,5) by (auto simp: apply_promote_def Let_def intent split: sum.splits)
    then obtain c where c: "find_item i items = Some c" "x = promoted_item c (ci_steerRunId (pc_intent p)) limit" "after = sort_queue coll (put_item i x items)"
      by (auto simp: promote_queued_message_to_steer_def Let_def split: option.splits if_splits)
    have "c = q" using c(1) f(1) by simp
    have x: "q_id x = i" using f(5) by (simp add: c(2) \<open>c = q\<close> promoted_item_def)
    let ?steer = "x\<lparr>q_runId := None\<rparr>"
    have "distinct (map q_id items)" using ok by (simp add: queue_ok_def)
    then have "mset out = mset (map (\<lambda>y. if q_id y = i then ?steer else y) items)"
      by (auto simp: o c(3) x put_item_map multiset.map_comp intro!: image_mset_cong)
    moreover have "rerouted q ?steer"
      using f(2) check_promotion_limit [OF check]
      by (auto simp: c(2) \<open>c = q\<close> rerouted_def promoted_item_def waiting_def dest: strictest_Some split: option.splits)
    moreover have "y = q" if "y \<in> set items" "q_id y = i" for y
      using queue_ok_unique [OF ok that(1) f(4)] that(2) f(5) by simp
    ultimately show ?thesis by (intro exI [of _ "\<lambda>y. if q_id y = i then ?steer else y"]) auto
  qed
  then show ?thesis using out(2) iok by simp
qed

section \<open>The plan is one of five\<close>

lemma plan_cases:
  assumes "plan_agent_command host coll digest now uuid t actor level command items act s = Inr p"
  obtains (enqueue) content mode rev0 where "plan_enqueue host coll now uuid t actor content mode rev0 items s = Inr p"
  | (edit) i content mode rev0 where "plan_edit host coll t actor level i content mode rev0 items s = Inr p"
  | (remove) i rev0 where "plan_remove t actor level i rev0 items = Inr p"
  | (reorder) ids rev0 where "plan_reorder coll t actor level ids rev0 items = Inr p"
  | (promote) i rev0 run0 where "plan_promote host t actor i rev0 run0 items s = Inr p"
  using assms by (cases command) (auto simp: plan_agent_command_def split: sum.splits)

end
