(* ===== verification/QueueAgents.thy ===== *)
theory QueueAgents
  imports QueueRuleLaws
begin

text \<open>
  What an agent's commands can never do to the queue of a thread, whatever it asks for: pass its words off as another's,
  loosen what an item may do, change or postpone messages it has no right to, or fill the queue.
\<close>

section \<open>Which messages are ahead\<close>

definition queue_ahead :: "queued_message list \<Rightarrow> queued_message \<Rightarrow> string set" where
  "queue_ahead items q = {q_id x |x. x \<in> set items \<and> waiting x \<and> \<not> q_internal x \<and> q_order x < q_order q}"

lemma takeWhile_before:
  assumes "sorted_wrt (\<lambda>x y. q_order x < q_order y) xs" "distinct (map q_id xs)" "q \<in> set xs"
  shows "set (takeWhile (\<lambda>i. i \<noteq> q_id q) (map q_id xs)) = {q_id x |x. x \<in> set xs \<and> q_order x < q_order q}"
  using assms
proof (induction xs)
  case (Cons x xs)
  show ?case
  proof (cases "x = q")
    case True
    then have "\<not> q_order y < q_order q" if "y \<in> set (x # xs)" for y using Cons.prems(1) that by (auto simp: not_less less_imp_le)
    then show ?thesis using True by auto
  next
    case False
    then have q: "q \<in> set xs" using Cons.prems(3) by simp
    then have "q_id x \<noteq> q_id q" "q_order x < q_order q" using Cons.prems(1,2) by auto
    then show ?thesis using Cons.IH [OF _ _ q] Cons.prems(1,2) by auto
  qed
qed simp

lemma ahead_of_visible:
  assumes "queue_ok t items" "q \<in> set items" "waiting q" "\<not> q_internal q"
  shows "set (ahead_of (q_id q) (map q_id (visible_pending coll items))) = queue_ahead items q"
proof -
  let ?p = "visible_pending coll items"
  have p: "?p = sort_queue coll (filter (\<lambda>q. waiting q \<and> \<not> q_internal q) items)" by (rule visible_pending_filter)
  have ok: "queue_ok t ?p" by (rule visible_pending_ok [OF assms(1)])
  have "sorted (map q_order ?p)" unfolding p by (rule sorted_orders)
  then have s: "sorted_wrt (\<lambda>x y. q_order x < q_order y) ?p"
    using ok by (metis queue_ok_def sorted_wrt_map strict_sorted_iff)
  have q: "q \<in> set ?p" using assms by (simp add: p)
  have d: "distinct (map q_id ?p)" using ok by (simp add: queue_ok_def)
  have "q_id q \<in> set (map q_id ?p)" using q by simp
  then have "set (ahead_of (q_id q) (map q_id ?p)) = {q_id x |x. x \<in> set ?p \<and> q_order x < q_order q}"
    using takeWhile_before [OF s d q] by (simp only: ahead_of_def if_True)
  then show ?thesis by (auto simp: queue_ahead_def p)
qed

section \<open>Messages of others\<close>

definition same_words :: "queued_message \<Rightarrow> queued_message \<Rightarrow> bool" where
  "same_words q q' \<longleftrightarrow> q_id q' = q_id q \<and> q_content q' = q_content q \<and> q_mode q' = q_mode q \<and> q_origin q' = q_origin q \<and>
     waiting q' = waiting q \<and> no_looser (q_permissionMode q) (q_permissionMode q')"

definition left_alone :: "queued_message list \<Rightarrow> queued_message \<Rightarrow> queued_message list \<Rightarrow> bool" where
  "left_alone items q items' \<longleftrightarrow> (\<exists>q' \<in> set items'. same_words q q' \<and> queue_ahead items' q' \<subseteq> queue_ahead items q)"

lemma same_words_refl [simp]: "same_words q q"
  by (simp add: same_words_def)

lemma left_alone_same:
  "q \<in> set items' \<Longrightarrow> (\<And>y. y \<in> set items' \<Longrightarrow> waiting y \<Longrightarrow> \<not> q_internal y \<Longrightarrow> q_order y < q_order q \<Longrightarrow>
     \<exists>x \<in> set items. q_id x = q_id y \<and> waiting x \<and> \<not> q_internal x \<and> q_order x < q_order q) \<Longrightarrow> left_alone items q items'"
  unfolding left_alone_def queue_ahead_def by (rule bexI [of _ q]) (auto, metis)

lemma set_of_mset: "mset xs = mset ys \<Longrightarrow> set xs = set ys"
  by (rule mset_eq_setD)

lemma enqueue_leaves:
  assumes "mset items' = add_mset x (mset items)" "q_order x = next_order items" "q \<in> set items"
  shows "left_alone items q items'"
proof -
  have s: "set items' = insert x (set items)" using assms(1) set_of_mset [of items' "x # items"] by simp
  have "q_order q < q_order x" using next_order_greater [OF assms(3)] assms(2) by simp
  then show ?thesis using s assms(3) by (intro left_alone_same) auto
qed

lemma edit_leaves:
  assumes "queue_ok t items" "find_item i items = Some c" "q \<in> set items" "q \<noteq> c"
    "mset items' = mset (map (\<lambda>x. if q_id x = i then c' else x) items) \<or> items' = items"
    "q_id c' = i" "q_order c' = q_order c" "q_internal c' = q_internal c" "waiting c' = waiting c"
  shows "left_alone items q items'"
  using assms(5)
proof
  assume "mset items' = mset (map (\<lambda>x. if q_id x = i then c' else x) items)"
  from set_of_mset [OF this] have s: "set items' = (\<lambda>x. if q_id x = i then c' else x) ` set items" by (simp only: set_map)
  have c: "c \<in> set items" "q_id c = i" using find_item_Some [OF assms(2)] by simp_all
  have "q_id q \<noteq> i" using queue_ok_unique [OF assms(1,3) c(1)] c(2) assms(4) by auto
  then show ?thesis using s assms(3,6-9) c by (intro left_alone_same) (auto split: if_splits)
qed (use assms(3) in \<open>auto intro: left_alone_same\<close>)

lemma remove_leaves:
  assumes "q \<in> set items" "q_id q \<noteq> i"
  shows "left_alone items q (without i items)"
  using assms by (intro left_alone_same) (auto simp: without_def)

lemma reroute_leaves:
  assumes "mset items' = mset (map f items)" "\<And>x. x \<in> set items \<Longrightarrow> rerouted x (f x)" "q \<in> set items"
  shows "left_alone items q items'"
proof -
  have s: "set items' = f ` set items" using set_of_mset [OF assms(1)] by simp
  have "queue_ahead items' (f q) \<subseteq> queue_ahead items q"
    using assms(2,3) by (fastforce simp: queue_ahead_def s rerouted_def)
  moreover have "same_words q (f q)" using assms(2) [OF assms(3)] by (simp add: same_words_def rerouted_def)
  ultimately show ?thesis using s assms(3) unfolding left_alone_def by blast
qed

lemma reorder_leaves:
  assumes "queue_ok t items" "reorder_queued_messages coll items ids = Inr items'" "q \<in> set items" "waiting q" "\<not> q_internal q"
    "\<not> puts_ahead_of_others coll items ids authored" "\<not> authored q"
  shows "left_alone items q items'"
proof -
  let ?p = "visible_pending coll items"
  note acc = reorder_accepts [OF assms(1,2)] and ok = reorder_ok [OF assms(1,2)]
  have sub: "set ids \<subseteq> set (map q_id ?p)" using acc(3) by simp
  have q: "q \<in> set ?p" using assms(3-5) by (simp add: visible_pending_filter)
  have "q_id q \<in> set (map q_id (slotted ?p ids))" using q acc(3) by (simp add: slotted_ids [OF sub acc(2)])
  then obtain q' where q': "q' \<in> set (slotted ?p ids)" "q_id q' = q_id q" by auto
  from slotted_mem [OF sub q'(1)] obtain c n where c: "c \<in> set ?p" "q' = c\<lparr>q_order := n\<rparr>" by blast
  have "c = q" using queue_ok_unique [OF visible_pending_ok [OF assms(1)] c(1) q] q'(2) c(2) by simp
  then have words: "same_words q q'" "waiting q'" "\<not> q_internal q'" using assms(4,5) c(2) by (simp_all add: same_words_def waiting_def)
  have mem: "q' \<in> set items'" using q'(1) acc(4) by simp
  have "queue_ahead items' q' = set (ahead_of (q_id q) ids)"
    using ahead_of_visible [OF ok(1) mem words(2,3), of coll] by (simp add: ok(2) slotted_ids [OF sub acc(2)] q'(2))
  moreover have "queue_ahead items q = set (ahead_of (q_id q) (map q_id ?p))"
    using ahead_of_visible [OF assms(1,3-5)] by simp
  moreover have "set (ahead_of (q_id q) ids) \<subseteq> set (ahead_of (q_id q) (map q_id ?p))"
    using assms(6,7) q unfolding puts_ahead_of_others_def Let_def list_ex_iff by blast
  ultimately show ?thesis using mem words(1) unfolding left_alone_def by blast
qed

lemma others_left_alone:
  assumes ok: "queue_ok t items" "rule_inputs_ok now uuid actor items"
    and plan: "plan_agent_command host coll digest now uuid t actor level command items act0 s = Inr p"
    and run: "apply_intent coll digest items (pc_intent p) act = Inr a"
    and other: "q \<in> set items" "waiting q" "\<not> q_internal q" "\<not> authored_by actor q" "level \<noteq> Manage"
  shows "left_alone items q (ai_items a)"
using plan
proof (cases rule: plan_cases)
  case (enqueue content mode rev0)
  show ?thesis using enqueue_effect [OF ok enqueue run] enqueue_leaves other(1) by blast
next
  case (edit i content mode rev0)
  from edit_effect [OF ok edit run] obtain c c' where c: "find_item i items = Some c" "authored_by actor c \<or> level = Manage"
    "mset (ai_items a) = mset (map (\<lambda>x. if q_id x = i then c' else x) items) \<or> ai_items a = items"
    "q_id c' = i" "q_order c' = q_order c" "q_internal c' = q_internal c" "waiting c' = waiting c" by blast
  have "q \<noteq> c" using c(2) other(4,5) by blast
  then show ?thesis using edit_leaves [OF ok(1) c(1) other(1) _ c(3-7)] by blast
next
  case (remove i rev0)
  from remove_effect [OF ok(1) remove run] obtain c where c: "find_item i items = Some c" "authored_by actor c"
    "ai_items a = without i items" using other(5) by blast
  have "q_id q \<noteq> i" using queue_ok_unique [OF ok(1) other(1)] find_item_Some [OF c(1)] c(2) other(4) by metis
  then show ?thesis using remove_leaves [OF other(1)] c(3) by simp
next
  case (reorder ids rev0)
  show ?thesis using reorder_effect [OF reorder run] reorder_leaves [OF ok(1) _ other(1-3)] other(4,5) by blast
next
  case (promote i rev0 run0)
  show ?thesis using promote_effect [OF ok(1) promote run] reroute_leaves other(1) by blast
qed


section \<open>Words and limits\<close>

definition accounted :: "agent_actor \<Rightarrow> permission_mode \<Rightarrow> queued_message list \<Rightarrow> queued_message \<Rightarrow> bool" where
  "accounted actor mode items q' \<longleftrightarrow>
     (\<exists>q \<in> set items. q_id q = q_id q' \<and> no_looser (q_permissionMode q) (q_permissionMode q') \<and>
        (q_content q' = q_content q \<and> q_origin q' = q_origin q \<or> written_by actor mode q')) \<or>
     q_id q' \<notin> set (map q_id items) \<and> written_by actor mode q'"

lemma accounted_same [intro]: "q \<in> set items \<Longrightarrow> accounted actor mode items q"
  unfolding accounted_def by (intro disjI1 bexI [of _ q]) simp_all

lemma reorder_accounted:
  assumes "queue_ok t items" "reorder_queued_messages coll items ids = Inr items'" "q' \<in> set items'"
  shows "accounted actor mode items q'"
proof -
  note acc = reorder_accepts [OF assms(1,2)]
  consider "q' \<in> set items" | "q' \<in> set (slotted (visible_pending coll items) ids)" using assms(3) acc(4) by auto
  then show ?thesis
  proof cases
    case 2
    then obtain q n where "q \<in> set (visible_pending coll items)" "q' = q\<lparr>q_order := n\<rparr>"
      using slotted_mem [of ids "visible_pending coll items" q'] acc(3) by auto
    then show ?thesis unfolding accounted_def by (intro disjI1 bexI [of _ q]) (auto simp: visible_pending_filter)
  qed blast
qed

lemma all_accounted:
  assumes ok: "queue_ok t items" "rule_inputs_ok now uuid actor items"
    and plan: "plan_agent_command host coll digest now uuid t actor level command items act0 s = Inr p"
    and run: "apply_intent coll digest items (pc_intent p) act = Inr a" and mem: "q' \<in> set (ai_items a)"
  shows "accounted actor (run_permission_mode (ac_runId actor) s) items q'"
using plan
proof (cases rule: plan_cases)
  case (enqueue content mode rev0)
  from enqueue_effect [OF ok enqueue run] obtain x where x: "mset (ai_items a) = add_mset x (mset items)"
    "q_id x \<notin> set (map q_id items)" "written_by actor (run_permission_mode (ac_runId actor) s) x" by blast
  have "set (ai_items a) = insert x (set items)" using x(1) set_of_mset [of "ai_items a" "x # items"] by simp
  then show ?thesis using mem x(2,3) by (auto simp: accounted_def)
next
  case (edit i content mode rev0)
  from edit_effect [OF ok edit run] obtain c c' where c: "find_item i items = Some c"
    "mset (ai_items a) = mset (map (\<lambda>x. if q_id x = i then c' else x) items) \<or> ai_items a = items"
    "q_id c' = i" "no_looser (q_permissionMode c) (q_permissionMode c')"
    "q_content c' = q_content c \<and> q_origin c' = q_origin c \<or> written_by actor (run_permission_mode (ac_runId actor) s) c'" by blast
  have "accounted actor (run_permission_mode (ac_runId actor) s) items c'"
    unfolding accounted_def by (intro disjI1 bexI [of _ c]) (use c(3-5) find_item_Some [OF c(1)] in auto)
  then show ?thesis using c(2)
  proof (elim disjE)
    assume "mset (ai_items a) = mset (map (\<lambda>x. if q_id x = i then c' else x) items)"
    from set_of_mset [OF this] have "q' \<in> (\<lambda>x. if q_id x = i then c' else x) ` set items" using mem by (simp only: set_map)
    then show ?thesis using \<open>accounted actor (run_permission_mode (ac_runId actor) s) items c'\<close> by (auto split: if_splits)
  qed (use mem in blast)
next
  case (remove i rev0)
  have "ai_items a = without i items" using remove_effect [OF ok(1) remove run] by blast
  then show ?thesis using mem by (auto simp: without_def)
next
  case (reorder ids rev0)
  show ?thesis using reorder_effect [OF reorder run] reorder_accounted [OF ok(1) _ mem] by blast
next
  case (promote i rev0 run0)
  obtain f where f: "mset (ai_items a) = mset (map f items)" "\<And>q. q \<in> set items \<Longrightarrow> rerouted q (f q)"
    using promote_effect [OF ok(1) promote run] by blast
  have "set (ai_items a) = f ` set items" using set_of_mset [OF f(1)] by simp
  then obtain q where q: "q \<in> set items" "q' = f q" using mem by blast
  show ?thesis unfolding accounted_def by (intro disjI1 bexI [of _ q]) (use f(2) [OF q(1)] q in \<open>auto simp: rerouted_def\<close>)
qed

section \<open>The number of agents' messages\<close>

definition agent_waits :: "queued_message \<Rightarrow> bool" where
  "agent_waits q \<longleftrightarrow> from_agent q \<and> waiting q"

lemma agent_items_count: "agent_items coll items = length (filter agent_waits items)"
proof -
  have "agent_items coll items = size (mset (filter from_agent (sort_queue coll (filter waiting items))))"
    by (simp add: agent_items_def list_pending_queue_def del: mset_filter)
  also have "\<dots> = size (filter_mset agent_waits (mset items))"
    by (simp add: agent_waits_def [abs_def] filter_filter_mset conj_commute)
  finally show ?thesis by (metis mset_filter size_mset)
qed

lemma count_mset: "mset xs = mset ys \<Longrightarrow> length (filter P xs) = length (filter P ys)"
  by (metis mset_filter size_mset)

lemma count_map: "(\<And>x. x \<in> set xs \<Longrightarrow> P (f x) = P x) \<Longrightarrow> length (filter P (map f xs)) = length (filter P xs)"
  by (induction xs) auto

lemma count_replace:
  assumes "distinct (map q_id items)" "find_item i items = Some c"
  shows "length (filter P (map (\<lambda>x. if q_id x = i then c' else x) items)) + (if P c then 1 else 0) =
    length (filter P items) + (if P c' then 1 else 0)"
  using assms
proof (induction items)
  case (Cons x xs)
  show ?case
  proof (cases "q_id x = i")
    case True
    then have "map (\<lambda>y. if q_id y = i then c' else y) xs = xs" using Cons.prems(1) by (intro map_idI) (auto simp: image_iff)
    then show ?thesis using True Cons.prems(2) by (simp add: find_item_def lookup_row_def)
  next
    case False
    then show ?thesis using Cons by (auto simp: find_item_def lookup_row_def)
  qed
qed (simp add: find_item_def lookup_row_def)

lemma slotted_count:
  assumes "queue_ok t p" "set ids = set (map q_id p)" "distinct ids" "length ids = length p" "\<And>q n. P (q\<lparr>q_order := n\<rparr>) = P q"
  shows "length (filter P (slotted p ids)) = length (filter P p)"
proof -
  let ?e = "\<lambda>q. q\<lparr>q_order := 0\<rparr>"
  let ?s = "slotted p ids"
  have sub: "set ids \<subseteq> set (map q_id p)" using assms(2) by simp
  have sid: "map q_id ?s = ids" by (rule slotted_ids [OF sub assms(4)])
  have erase: "map q_id (map ?e xs) = map q_id xs" for xs by (simp add: comp_def)
  have "distinct (map ?e ?s)" "distinct (map ?e p)"
    using erase [of ?s] erase [of p] sid assms(1,3) by (metis distinct_map queue_ok_def)+
  moreover have "set (map ?e ?s) = set (map ?e p)"
  proof
    show "set (map ?e ?s) \<subseteq> set (map ?e p)" using slotted_mem [OF sub] by fastforce
    show "set (map ?e p) \<subseteq> set (map ?e ?s)"
    proof
      fix y assume "y \<in> set (map ?e p)"
      then obtain c where c: "c \<in> set p" "y = ?e c" by auto
      then have "q_id c \<in> set (map q_id ?s)" using sid assms(2) by auto
      then obtain x where x: "x \<in> set ?s" "q_id x = q_id c" by auto
      from slotted_mem [OF sub x(1)] obtain c0 n where "c0 \<in> set p" "x = c0\<lparr>q_order := n\<rparr>" by blast
      moreover from this have "c0 = c" using queue_ok_unique [OF assms(1) _ c(1)] x(2) by simp
      ultimately show "y \<in> set (map ?e ?s)" using c(2) x(1) by (auto intro: rev_image_eqI)
    qed
  qed
  ultimately have "mset (map ?e ?s) = mset (map ?e p)" by (simp only: set_eq_iff_mset_eq_distinct)
  then have "length (filter P (map ?e ?s)) = length (filter P (map ?e p))" by (rule count_mset)
  then show ?thesis by (simp only: count_map assms(5))
qed

lemma cap_kept:
  assumes ok: "queue_ok t items" "rule_inputs_ok now uuid actor items"
    and plan: "plan_agent_command host coll digest now uuid t actor level command items act0 s = Inr p"
    and run: "apply_intent coll digest items (pc_intent p) act = Inr a"
    and cap: "agent_items coll items \<le> AGENT_QUEUE_MAX_PER_THREAD"
  shows "agent_items coll (ai_items a) \<le> AGENT_QUEUE_MAX_PER_THREAD"
using plan
proof (cases rule: plan_cases)
  case (enqueue content mode rev0)
  from enqueue_effect [OF ok enqueue run] obtain x where x: "mset (ai_items a) = mset (x # items)"
    "agent_items coll items < AGENT_QUEUE_MAX_PER_THREAD" by auto
  then show ?thesis using count_mset [OF x(1), of agent_waits] by (simp add: agent_items_count)
next
  case (edit i content mode rev0)
  from edit_effect [OF ok edit run] obtain c c' where c: "find_item i items = Some c"
    "mset (ai_items a) = mset (map (\<lambda>x. if q_id x = i then c' else x) items) \<or> ai_items a = items" "waiting c' = waiting c"
    "from_agent c' \<longrightarrow> from_agent c \<or> agent_items coll items < AGENT_QUEUE_MAX_PER_THREAD" by blast
  have d: "distinct (map q_id items)" using ok(1) by (simp add: queue_ok_def)
  show ?thesis
    using c(2)
  proof
    assume "mset (ai_items a) = mset (map (\<lambda>x. if q_id x = i then c' else x) items)"
    then have "length (filter agent_waits (ai_items a)) + (if agent_waits c then 1 else 0) =
        length (filter agent_waits items) + (if agent_waits c' then 1 else 0)"
      using count_replace [OF d c(1), of agent_waits c'] count_mset by metis
    then show ?thesis using c(3,4) cap by (auto simp: agent_items_count agent_waits_def split: if_splits)
  qed (use cap in simp)
next
  case (remove i rev0)
  have "ai_items a = without i items" using remove_effect [OF ok(1) remove run] by blast
  then have "agent_items coll (ai_items a) = length (filter (\<lambda>q. q_id q \<noteq> i) (filter agent_waits items))"
    by (simp add: agent_items_count without_def conj_commute)
  also have "\<dots> \<le> agent_items coll items" unfolding agent_items_count by (rule length_filter_le)
  finally show ?thesis using cap by simp
next
  case (reorder ids rev0)
  have r: "reorder_queued_messages coll items ids = Inr (ai_items a)" using reorder_effect [OF reorder run] by blast
  let ?p = "visible_pending coll items"
  note acc = reorder_accepts [OF ok(1) r]
  have "length (filter agent_waits (slotted ?p ids)) = length (filter agent_waits ?p)"
    by (rule slotted_count [OF visible_pending_ok [OF ok(1)] acc(3,1,2)]) (simp add: agent_waits_def from_agent_def waiting_def)
  moreover have "length (filter agent_waits items) = length (filter agent_waits (filter user_held items @ ?p))"
    by (rule count_mset) (use queue_parts [OF ok(1), of coll] in simp)
  moreover have "length (filter agent_waits (ai_items a)) = length (filter agent_waits (filter user_held items @ slotted ?p ids))"
    by (rule count_mset) (simp add: acc(4))
  ultimately show ?thesis using cap by (simp add: agent_items_count)
next
  case (promote i rev0 run0)
  obtain f where f: "mset (ai_items a) = mset (map f items)" "\<And>q. q \<in> set items \<Longrightarrow> rerouted q (f q)"
    using promote_effect [OF ok(1) promote run] by blast
  have "length (filter agent_waits (map f items)) = length (filter agent_waits items)"
    by (rule count_map) (use f(2) in \<open>auto simp: rerouted_def agent_waits_def from_agent_def\<close>)
  then show ?thesis using count_mset [OF f(1), of agent_waits] cap by (simp add: agent_items_count)
qed

end
