(* ===== verification/QueueRecovered.thy ===== *)
theory QueueRecovered
  imports QueueEntries
begin

text \<open>
  What the journal promises: a command that is cut off is finished as if it had not been, a settled command is
  never carried out twice, and recovery ends. Each on a concrete journal.
\<close>

section \<open>Recovery makes progress\<close>

definition tried :: "string \<Rightarrow> nat \<Rightarrow> journal \<Rightarrow> bool" where
  "tried k n j \<longleftrightarrow> list_all (\<lambda>r. cr_commandKey r = k \<longrightarrow> n \<le> cr_attempts r) (jo_commands j)"

definition open_tried :: "string \<Rightarrow> nat \<Rightarrow> journal \<Rightarrow> bool" where
  "open_tried k n j \<longleftrightarrow> list_all (\<lambda>r. cr_commandKey r = k \<longrightarrow> unfinished r \<longrightarrow> n \<le> cr_attempts r) (jo_commands j)"

lemma tried_same: "jo_commands j = jo_commands j' \<Longrightarrow> tried k n j = tried k n j'"
  by (simp add: tried_def)

lemma list_all_update_rows: "(\<And>x. x \<in> set xs \<Longrightarrow> Q (if P x then f x else x)) \<Longrightarrow> list_all Q (update_rows P f xs)"
  unfolding update_rows_def list_all_iff set_map by blast

lemma record_failure_tried: "tried k n j \<Longrightarrow> open_tried k (Suc n) (record_failure k j)"
  unfolding open_tried_def record_failure_def update_commands_def
  by (simp, rule list_all_update_rows) (simp add: tried_def list_all_iff)

lemma repair_tried: "open_tried k n j \<Longrightarrow> open_tried k n (schedule_repair t j)"
  by (simp add: open_tried_def schedule_repair_def)

lemma leave_pending_tried: "tried (cr_commandKey row) n j \<Longrightarrow> open_tried (cr_commandKey row) (Suc n) (leave_pending row r j)"
  unfolding leave_pending_def
  by (rule repair_tried, rule record_failure_tried)
    (simp add: tried_def mark_effects_pending_def update_commands_def list_all_update_rows list_all_iff [of _ "jo_commands j"])

lemma give_up_tried: "tried (cr_commandKey row) n j \<Longrightarrow> open_tried (cr_commandKey row) (Suc n) (give_up_or_retry t row j)"
  using record_failure_tried [of "cr_commandKey row" n j] by (simp add: give_up_or_retry_def Let_def repair_tried)

lemma mark_applied_tried: "open_tried (cr_commandKey row) n (mark_applied row r j)"
  unfolding open_tried_def mark_applied_def update_commands_def
  by (simp, rule list_all_update_rows) (simp add: unfinished_def)

lemma finish_tried:
  assumes "tried (cr_commandKey row) n j"
  shows "open_tried (cr_commandKey row) (Suc n) (snd (finish_command abandon row r j))"
proof -
  have same: "tried (cr_commandKey row) n j'" if "jo_commands j' = jo_commands j" for j'
    using assms tried_same [OF that] by simp
  show ?thesis
    unfolding finish_command_def Let_def
    by (auto split: option.splits prod.splits sum.splits intro!: leave_pending_tried mark_applied_tried simp: same assms)
qed

lemma recover_entry_tried:
  assumes "tried (cr_commandKey row) n j"
  shows "open_tried (cr_commandKey row) (Suc n) (snd (recover_entry coll digest now abandon t row (items, j)))"
proof -
  have fin: "open_tried (cr_commandKey row) (Suc n) (snd (finish_command abandon row' r j'))"
    if "jo_commands j' = jo_commands j" "cr_commandKey row' = cr_commandKey row" for j' row' r
    using finish_tried [of row' n j' abandon r] that assms tried_same [OF that(1)] by simp
  show ?thesis
    unfolding recover_entry_def Let_def
    using give_up_tried [OF assms, of t]
    by (auto split: option.splits sum.splits if_splits prod.splits dest: save_commands intro!: fin)
qed

lemma touches_back:
  assumes "touches k j j'" "r \<in> set (jo_commands j')" "cr_commandKey r \<noteq> k"
  shows "r \<in> set (jo_commands j)"
  using assms unfolding touches_def by auto

lemma recover_fold_tried:
  assumes "commands_ok j" "distinct (map cr_commandKey rows)"
    "\<And>row. row \<in> set rows \<Longrightarrow> row \<in> set (jo_commands j) \<and> unfinished row \<and> n \<le> cr_attempts row"
    "r \<in> set (jo_commands (snd (fold (recover_entry coll digest now abandon t) rows (items, j))))"
  shows "r \<in> set (jo_commands j) \<and> cr_commandKey r \<notin> set (map cr_commandKey rows) \<or>
    cr_commandKey r \<in> set (map cr_commandKey rows) \<and> (unfinished r \<longrightarrow> Suc n \<le> cr_attempts r)"
  using assms
proof (induction rows arbitrary: items j)
  case (Cons row rows)
  obtain items1 j1 where one: "recover_entry coll digest now abandon t row (items, j) = (items1, j1)"
    by (cases "recover_entry coll digest now abandon t row (items, j)")
  have row: "row \<in> set (jo_commands j)" "unfinished row" "n \<le> cr_attempts row" using Cons.prems(3) [of row] by simp_all
  have step: "commands_ok j1" "touches (cr_commandKey row) j j1"
    using recover_entry_step [OF Cons.prems(1) open_if_unfinished [OF Cons.prems(1) row(1,2)], of coll digest now abandon t items] one
    by simp_all
  have "tried (cr_commandKey row) n j"
    using Cons.prems(1) row unfolding tried_def list_all_iff commands_ok_def by (metis distinct_key_unique)
  then have done1: "open_tried (cr_commandKey row) (Suc n) j1"
    using recover_entry_tried [of row n j coll digest now abandon t items] one by simp
  have rest: "row' \<in> set (jo_commands j1) \<and> unfinished row' \<and> n \<le> cr_attempts row'" if "row' \<in> set rows" for row'
  proof -
    have "cr_commandKey row' \<noteq> cr_commandKey row"
      using Cons.prems(2) that by (metis distinct.simps(2) image_eqI list.set_map list.simps(9))
    then show ?thesis using touches_keeps [OF step(2), of row'] Cons.prems(3) that by auto
  qed
  have "r \<in> set (jo_commands j1) \<and> cr_commandKey r \<notin> set (map cr_commandKey rows) \<or>
      cr_commandKey r \<in> set (map cr_commandKey rows) \<and> (unfinished r \<longrightarrow> Suc n \<le> cr_attempts r)"
    using Cons.IH [OF step(1) _ rest] Cons.prems(2,4) by (simp add: one)
  then show ?case
  proof
    assume r: "r \<in> set (jo_commands j1) \<and> cr_commandKey r \<notin> set (map cr_commandKey rows)"
    show ?case
    proof (cases "cr_commandKey r = cr_commandKey row")
      case True
      then show ?thesis using r done1 by (auto simp: open_tried_def list_all_iff)
    next
      case False
      then show ?thesis using r touches_back [OF step(2)] by auto
    qed
  qed auto
qed simp

lemma recover_tried:
  assumes "commands_ok j" "\<And>r. r \<in> set (list_unfinished t j) \<Longrightarrow> n \<le> cr_attempts r"
    "recover_queue_journal coll digest now abandon t items j = (items', j')" "r \<in> set (list_unfinished t j')"
  shows "Suc n \<le> cr_attempts r"
proof -
  let ?rows = "list_unfinished t j"
  note d = unfinished_distinct [OF assms(1), of t]
  have "row \<in> set (jo_commands j) \<and> unfinished row \<and> n \<le> cr_attempts row" if "row \<in> set ?rows" for row
    using that assms(2) by (auto simp: list_unfinished_def)
  moreover have "r \<in> set (jo_commands (snd (fold (recover_entry coll digest now abandon t) ?rows (items, j))))"
    using assms(3,4) by (simp add: recover_queue_journal_def list_unfinished_def)
  ultimately have "r \<in> set (jo_commands j) \<and> cr_commandKey r \<notin> set (map cr_commandKey ?rows) \<or>
      cr_commandKey r \<in> set (map cr_commandKey ?rows) \<and> (unfinished r \<longrightarrow> Suc n \<le> cr_attempts r)"
    by (rule recover_fold_tried [OF assms(1) d])
  moreover have "cr_threadId r = t" "unfinished r" using assms(4) by (simp_all add: list_unfinished_def)
  ultimately show ?thesis by (auto simp: list_unfinished_def)
qed


section \<open>The entry a settled command leaves\<close>

definition answers_for :: "string \<Rightarrow> string \<Rightarrow> string option \<Rightarrow> command_result \<Rightarrow> command_row \<Rightarrow> bool" where
  "answers_for t key fp result r \<longleftrightarrow> cr_commandKey r = key \<and> cr_threadId r = t \<and> cr_status r = CmdApplied \<and>
     cr_result r = Some (stored_result result) \<and> (fp = None \<or> ci_fingerprint (cr_intent r) \<in> {None, fp})"

lemma settled_entry:
  assumes "run_queue_command coll digest now abandon t key loaded plan fp j = (Inr out, j')" "co_effectsSettled out" "\<not> co_replayed out"
    and thread: "\<And>items active db p. plan items active db = Inr p \<Longrightarrow> ci_threadId (pc_intent p) = t"
  shows "\<exists>r \<in> set (jo_commands j'). answers_for t key fp (co_result out) r \<and> cr_appliedAt r = Some (clock (jo_db j'))"
proof -
  obtain items j1 where rec: "recover_queue_journal coll digest now abandon t loaded j = (items, j1)"
    by (cases "recover_queue_journal coll digest now abandon t loaded j")
  have free: "get_command key j1 = None"
    using assms(1,3) rec by (auto simp: run_queue_command_def replay_command_def split: option.splits if_splits)
  obtain active planned where plan: "active_run_id t (jo_db j1) = Inr active" "plan items active (jo_db j1) = Inr planned"
    using assms(1) rec free by (auto simp: run_queue_command_def split: sum.splits)
  let ?j2 = "journal_command key fp planned j1"
  obtain applied after j3 where w: "write_command coll digest now t active planned items ?j2 = Inr (applied, after, j3)"
    using assms(1) by (auto simp: run_queue_command_def rec free plan Let_def split: sum.splits)
  have row: "get_command key j3 = Some (entry_of key fp planned j1)"
    using free write_commands [OF w] by (simp add: get_command_def journal_command_simps lookup_row_append)
  obtain settled j4 where fin: "finish_command abandon (entry_of key fp planned j1) (command_report planned applied) j3 = (settled, j4)"
    by (cases "finish_command abandon (entry_of key fp planned j1) (command_report planned applied) j3")
  have out: "out = \<lparr>co_result = command_report planned applied, co_effectsSettled = settled, co_replayed = False, co_items = after\<rparr>" "j' = j4"
    using assms(1) fin by (simp_all add: run_queue_command_def rec free plan Let_def w row)
  have "settled" using out assms(2) by simp
  let ?row = "entry_of key fp planned j1"
  let ?f = "\<lambda>x. x\<lparr>cr_status := CmdApplied, cr_result := Some (stored_result (command_report planned applied)),
            cr_intent := compact_intent (cr_intent ?row), cr_appliedAt := Some (clock (jo_db j'))\<rparr>"
  have "jo_commands j' = update_rows (\<lambda>x. cr_commandKey x = key) ?f (jo_commands j3)"
    using finish_settles [of abandon ?row "command_report planned applied" j3 j4] out(2) fin \<open>settled\<close> by simp
  moreover have "?row \<in> set (jo_commands j3)" using row by (auto simp: get_command_def dest: lookup_row_Some)
  ultimately have "?f ?row \<in> set (jo_commands j')" by (simp add: set_update_rows rev_image_eqI [of ?row])
  moreover have "answers_for t key fp (co_result out) (?f ?row)"
    using thread [OF plan(2)] by (auto simp: answers_for_def out compact_intent_def non_blank_def entry_of_def Let_def)
  moreover have "cr_appliedAt (?f ?row) = Some (clock (jo_db j'))" by simp
  ultimately show ?thesis by blast
qed

lemma answered_again:
  assumes "commands_ok j" "r \<in> set (jo_commands j)" "answers_for t key fp result r" "load_message_queue coll now t j = Inr loaded"
    "recover_queue_journal coll digest now abandon t loaded j = (items, j')"
  shows "run_durable_queue_command coll digest now abandon t key plan fp j =
    (Inr \<lparr>co_result = stored_result result, co_effectsSettled = True, co_replayed = True, co_items = items\<rparr>, j')"
proof -
  have r: "r \<in> set (jo_commands j')" "commands_ok j'"
    using recover_ok [OF assms(1,5)] assms(2,3) by (auto simp: answers_for_def unfinished_def)
  then have "get_command key j' = Some r"
    using lookup_row_mem [of cr_commandKey "jo_commands j'" r] assms(3) by (simp add: get_command_def commands_ok_def answers_for_def)
  then show ?thesis
    using assms(3-5) by (auto simp: run_durable_queue_command_def run_queue_command_def replay_command_def answers_for_def)
qed

section \<open>The promises\<close>

text \<open>
  C34: A queue command that is cut off is finished as if it had not been: whether the process stops after the
  command's entry was written or after the changed items were saved, the repair that follows gives the items and the
  state the command would have left without the interruption, up to the text of the stored result (and the
  uninterrupted command was not a replay, and saved those items).
\<close>

theorem interrupted_command_is_finished:
  assumes "queue_ok t (jo_queue j t)" "runs_ok (jo_db j)" "list_unfinished t j = []" "get_command key j = None"
    and "active_run_id t (jo_db j) = Inr active" "plan (sort_queue coll (jo_queue j t)) active (jo_db j) = Inr planned"
      "intent_ok t (sort_queue coll (jo_queue j t)) (pc_intent planned)"
    and "apply_intent coll digest (sort_queue coll (jo_queue j t)) (pc_intent planned) active = Inr applied" "\<not> ai_skipped applied"
    and "epochs_current (jo_epochs j) (ci_cancelRunIds (pc_intent planned)) (jo_db j)"
  shows "\<exists>out j4 j5. run_durable_queue_command coll digest now abandon t key plan fp j = (Inr out, j4) \<and>
     repair_queue_journal coll digest now2 abandon t (crash (journal_command key fp planned j)) = (Inr (co_items out), j5) \<and>
     repair_queue_journal coll digest now2 abandon t
       (crash ((journal_command key fp planned j)\<lparr>jo_queue := (jo_queue j)(t := co_items out)\<rparr>)) = (Inr (co_items out), j5) \<and>
     same_but_report j5 j4 \<and> jo_queue j4 t = co_items out \<and> \<not> co_replayed out"
  using crash_recovery [where plan = plan and abandon = abandon and now = now and ?now2.0 = now2 and fp = fp, OF assms] by blast

text \<open>
  C35: A command whose effects settled is not carried out again while its entry is retained. Whatever commands, changes,
  repairs, restarts and deletions of other threads follow, and whatever prunes run up to the end of the retention (14 days
  after it settled), a later call under the same key (for the same request) is answered with the stored result, whatever
  the plan it brings, and its state is the one the finishing of unfinished commands alone gives. (Entries older than that
  go at the next boot, and a deleted thread takes its entries along; no more is promised then.)
\<close>

theorem settled_command_replays:
  assumes "commands_ok j" "run_durable_queue_command coll digest now abandon t key plan fp j = (Inr out, j1)"
    and "co_effectsSettled out" "\<not> co_replayed out"
    and "\<And>items active db p. plan items active db = Inr p \<Longrightarrow> ci_threadId (pc_intent p) = t"
    and "journal_run coll digest t until j1 j2" "until \<le> clock (jo_db j1) + QUEUE_COMMAND_RETENTION_MS"
    and "load_message_queue coll now2 t j2 = Inr loaded"
    and "recover_queue_journal coll digest now2 abandon2 t loaded j2 = (items, j3)"
  shows "run_durable_queue_command coll digest now2 abandon2 t key plan2 fp j2 =
    (Inr \<lparr>co_result = stored_result (co_result out), co_effectsSettled = True, co_replayed = True, co_items = items\<rparr>, j3)"
proof -
  obtain loaded0 where l0: "load_message_queue coll now t j = Inr loaded0"
    "run_queue_command coll digest now abandon t key loaded0 plan fp j = (Inr out, j1)"
    using assms(2) by (auto simp: run_durable_queue_command_def split: sum.splits)
  have "\<exists>r \<in> set (jo_commands j1). answers_for t key fp (co_result out) r \<and> cr_appliedAt r = Some (clock (jo_db j1))"
    by (rule settled_entry [OF l0(2) assms(3,4)]) (rule assms(5))
  then obtain r where r: "r \<in> set (jo_commands j1)" "answers_for t key fp (co_result out) r"
    "cr_appliedAt r = Some (clock (jo_db j1))" by blast
  then have "retained t until r" using assms(7) by (simp add: retained_def answers_for_def unfinished_def)
  moreover have "commands_ok j1" using run_command_keeps [OF assms(1) l0(2)] by simp
  ultimately have "commands_ok j2" "r \<in> set (jo_commands j2)"
    using journal_run_keeps [OF assms(6)] r(1) by blast+
  then show ?thesis using answered_again r(2) assms(8,9) by blast
qed

text \<open>
  C36: Recovery ends: after five recoveries of a thread's commands none of them is unfinished, however often
  abandoning or an effect fails; what could not be finished is given up as failed.
\<close>

theorem recovery_ends:
  assumes "commands_ok j"
  shows "list_unfinished t (snd (((\<lambda>(items, j). recover_queue_journal coll digest now abandon t items j) ^^
    QUEUE_COMMAND_MAX_ATTEMPTS) (items, j))) = []"
proof -
  let ?step = "\<lambda>(items, j). recover_queue_journal coll digest now abandon t items j"
  have rounds: "commands_ok (snd ((?step ^^ n) (items, j))) \<and> (\<forall>r \<in> set (list_unfinished t (snd ((?step ^^ n) (items, j)))). n \<le> cr_attempts r)" for n
  proof (induction n)
    case 0
    then show ?case using assms by simp
  next
    case (Suc n)
    obtain items1 j1 items2 j2 where one: "(?step ^^ n) (items, j) = (items1, j1)"
      "recover_queue_journal coll digest now abandon t items1 j1 = (items2, j2)"
      by (cases "(?step ^^ n) (items, j)"; cases "recover_queue_journal coll digest now abandon t (fst ((?step ^^ n) (items, j))) (snd ((?step ^^ n) (items, j)))") auto
    then show ?case using Suc recover_ok(1) [OF _ one(2)] recover_tried [OF _ _ one(2)] by auto
  qed
  show ?thesis
  proof (rule ccontr)
    let ?last = "snd ((?step ^^ QUEUE_COMMAND_MAX_ATTEMPTS) (items, j))"
    assume "list_unfinished t ?last \<noteq> []"
    then obtain r where r: "r \<in> set (list_unfinished t ?last)" by (cases "list_unfinished t ?last") auto
    then have "cr_attempts r < QUEUE_COMMAND_MAX_ATTEMPTS"
      using rounds [of QUEUE_COMMAND_MAX_ATTEMPTS] by (auto simp: commands_ok_def list_all_iff entry_ok_def list_unfinished_def)
    then show False using rounds [of QUEUE_COMMAND_MAX_ATTEMPTS] r by fastforce
  qed
qed

end
