(* ===== verification/QueuePromises.thy ===== *)
theory QueuePromises
  imports QueueSafety
begin

text \<open>
  What the queue promises: what is written is read back, a claimed message is out of reach of every
  operation but those on claims, the oldest waiting message is claimed first and a release undoes the claim, a reorder gives
  exactly the order asked for.
\<close>

lemma claim_then_release:
  assumes "queue_ok t items" "claim_next_normal coll now items owner = (items', Some c)"
  shows "\<exists>q \<in> set items. drainable q \<and> c = q\<lparr>q_state := QClaimed, q_claim := Some (claim_of now owner)\<rparr> \<and> c \<in> set items' \<and>
     (\<forall>x \<in> set items. drainable x \<longrightarrow> q_order q \<le> q_order x) \<and>
     release_claim coll items' (q_id q) (Some (ow_token owner)) = (sort_queue coll items, Some q) \<and>
     (\<forall>token. token \<noteq> ow_token owner \<longrightarrow> release_claim coll items' (q_id q) (Some token) = (items', None) \<and>
        complete_claim items' (q_id q) (Some token) = (items', None)) \<and>
     complete_claim items' (q_id q) (Some (ow_token owner)) = (fst (drain_next_normal coll items), Some c)"
proof -
  obtain q where q: "next_normal coll items = Some q" "c = q\<lparr>q_state := QClaimed, q_claim := Some (claim_of now owner)\<rparr>"
    "items' = sort_queue coll (put_item (q_id q) c items)"
    by (rule claim_next_cases [OF assms])
  note mem = next_normal_Some [OF q(1)]
  let ?i = "q_id q"
  have d: "distinct (map q_id items)" "distinct (map q_order items)" using assms(1) by (simp_all add: queue_ok_def)
  have found0: "find_item ?i items = Some q" using mem find_item_mem [OF assms(1)] by blast
  have cid: "q_id c = ?i" "q_order c = q_order q" "q_state c = QClaimed" by (simp_all add: q(2))
  have ids: "distinct (map q_id (put_item ?i c items))" "map q_order (put_item ?i c items) = map q_order items"
  proof -
    have "map q_id (put_item ?i c items) = map q_id items"
      unfolding put_item_map [OF d(1)] by (auto simp: cid)
    then show "distinct (map q_id (put_item ?i c items))" using d(1) by simp
    show "map q_order (put_item ?i c items) = map q_order items"
      unfolding put_item_map [OF d(1)] using queue_ok_unique [OF assms(1)] mem by (auto simp: cid)
  qed
  then have ids': "distinct (map q_id items')"
    by (metis q(3) mset_eq_imp_distinct_iff mset_map mset_sort_queue)
  have mem': "c \<in> set items'" using mem by (auto simp: q(3) put_item_map [OF d(1)])
  then have found: "find_item ?i items' = Some c" unfolding find_item_def using lookup_row_mem [OF ids'] cid(1) by metis
  have undo: "released_item c = q"
    using assms(1) mem by (cases q) (auto simp: released_item_def q(2) queue_ok_def item_ok_def drainable_def)
  have "mset (put_item ?i q items') = mset (put_item ?i q (put_item ?i c items))"
    by (rule put_item_mset [OF ids']) (simp add: q(3))
  also have "\<dots> = mset items" by (simp add: put_put [OF d(1) cid(1)] put_same [OF d(1) found0])
  finally have "sort_queue coll (put_item ?i q items') = sort_queue coll items"
    using sort_queue_mset [of items "put_item ?i q items'"] d(2) by simp
  then have rel: "release_claim coll items' ?i (Some (ow_token owner)) = (sort_queue coll items, Some q)"
    by (simp add: release_claim_def found cid undo claim_passes_def) (simp add: q(2) claim_of_def)
  have "without ?i items' = sort_queue coll (without ?i items)"
    by (simp add: q(3) without_def filter_sort_queue) (simp add: without_put [OF cid(1) d(1), unfolded without_def])
  then have comp: "complete_claim items' ?i (Some (ow_token owner)) = (fst (drain_next_normal coll items), Some c)"
    by (simp add: complete_claim_def found cid drain_next_normal_def q(1) claim_passes_def) (simp add: q(2) claim_of_def)
  have other: "release_claim coll items' ?i (Some token) = (items', None) \<and> complete_claim items' ?i (Some token) = (items', None)"
    if "token \<noteq> ow_token owner" for token
    using that by (simp add: release_claim_def complete_claim_def found claim_passes_def) (simp add: q(2) claim_of_def)
  show ?thesis
    using mem q(2) mem' rel comp other next_normal_least [OF q(1)] by blast
qed

text \<open>
  C30: A queue that was written is read back: for any well-formed queue of a thread,
  \<open>normalizeQueuedMessages\<close> applied to the stored objects refuses nothing, drops nothing and changes no field; it gives
  the items in the order of the queue, and does so again when it is applied to its own result.
\<close>

theorem stored_queue_reads_back:
  assumes "queue_ok t items"
  shows "renormalize coll now t items = Inr (sort_queue coll items) \<and>
    renormalize coll now' t (sort_queue coll items) = Inr (sort_queue coll items) \<and>
    mset (sort_queue coll items) = mset items \<and> sorted (map q_order (sort_queue coll items))"
  using assms renormalize_ok [of items t] renormalize_ok [of "sort_queue coll items" t]
  by (simp add: queue_ok_def sorted_orders)

text \<open>
  C31: Over any sequence of operations on a well-formed queue (adding, removing, reordering, editing, promoting,
  demoting, clearing, claiming, releasing, completing, reclaiming, draining; refused ones included) the queue stays
  well-formed: distinct ids and orders, no item of another thread, a claim on exactly the claimed items. As long as
  no operation on claims is among them, the claimed items are the same items, unchanged, in the same order.
\<close>

theorem claimed_items_are_safe:
  assumes "queue_run coll t calls items items'" "queue_ok t items"
  shows "queue_ok t items' \<and> renormalize coll now t items' = Inr (sort_queue coll items') \<and>
    (list_all (\<lambda>call. \<not> about_claims call) calls \<longrightarrow> list_claimed_queue coll items' = list_claimed_queue coll items)"
  using queue_run_ok [OF assms] queue_run_claims [OF assms] renormalize_ok [of items' t]
  by (simp add: queue_ok_def)

text \<open>
  C32: The oldest waiting message runs first. A claim takes a pending normal message of least order, or finds
  none because there is none; it changes nothing but that message's state and claim. Releasing it with the owner's token gives
  the queue back as it was, completing it gives the queue a drain of that message would give, and neither does anything
  with another owner's token.
\<close>

theorem oldest_claimed_first:
  assumes "queue_ok t items" "claim_next_normal coll now items owner = (items', got)"
  shows "(case got of
     None \<Rightarrow> items' = sort_queue coll items \<and> (\<forall>x \<in> set items. \<not> drainable x)
   | Some c \<Rightarrow> \<exists>q \<in> set items. drainable q \<and> c = q\<lparr>q_state := QClaimed, q_claim := Some (claim_of now owner)\<rparr> \<and> c \<in> set items' \<and>
     (\<forall>x \<in> set items. drainable x \<longrightarrow> q_order q \<le> q_order x) \<and>
     release_claim coll items' (q_id q) (Some (ow_token owner)) = (sort_queue coll items, Some q) \<and>
     (\<forall>token. token \<noteq> ow_token owner \<longrightarrow> release_claim coll items' (q_id q) (Some token) = (items', None) \<and>
        complete_claim items' (q_id q) (Some token) = (items', None)) \<and>
     complete_claim items' (q_id q) (Some (ow_token owner)) = (fst (drain_next_normal coll items), Some c))"
proof (cases got)
  case None
  then show ?thesis
    using assms(2) next_normal_None by (auto simp: claim_next_normal_def Let_def split: option.splits)
next
  case (Some c)
  show ?thesis unfolding Some option.case by (rule claim_then_release [OF assms(1) assms(2) [unfolded Some]])
qed

text \<open>
  C33: A reorder of a well-formed queue is accepted exactly when it names every visible pending message once. The
  visible pending messages then stand in the order asked for, each unchanged but for its order, on the orders they had
  before; claimed and internal messages are untouched.
\<close>

theorem reorder_is_exact:
  assumes "queue_ok t items"
  shows "((\<exists>items'. reorder_queued_messages coll items ids = Inr items') \<longleftrightarrow> mset ids = mset (map q_id (visible_pending coll items))) \<and>
    (\<forall>items'. reorder_queued_messages coll items ids = Inr items' \<longrightarrow>
       map q_id (visible_pending coll items') = ids \<and>
       map q_order (visible_pending coll items') = map q_order (visible_pending coll items) \<and>
       (\<forall>x \<in> set (visible_pending coll items'). \<exists>q \<in> set (visible_pending coll items). \<exists>n. x = q\<lparr>q_order := n\<rparr>) \<and>
       filter user_held items' = sort_queue coll (filter user_held items))"
proof (intro conjI allI impI)
  let ?p = "visible_pending coll items"
  show "(\<exists>items'. reorder_queued_messages coll items ids = Inr items') \<longleftrightarrow> mset ids = mset (map q_id ?p)"
  proof
    assume "\<exists>items'. reorder_queued_messages coll items ids = Inr items'"
    then obtain items' where run: "reorder_queued_messages coll items ids = Inr items'" by blast
    have "distinct (map q_id ?p)" using visible_pending_ok [OF assms, of coll] by (simp add: queue_ok_def)
    then show "mset ids = mset (map q_id ?p)"
      using reorder_accepts(1,3) [OF assms run] set_eq_iff_mset_eq_distinct by metis
  qed (rule reorder_succeeds [OF _ assms])
next
  fix items' assume run: "reorder_queued_messages coll items ids = Inr items'"
  note acc = reorder_accepts [OF assms run] and ok = reorder_ok [OF assms run]
  have sub: "set ids \<subseteq> set (map q_id (visible_pending coll items))" using acc(3) by simp
  show "map q_id (visible_pending coll items') = ids" by (simp add: ok(2) slotted_ids [OF sub acc(2)])
  show "map q_order (visible_pending coll items') = map q_order (visible_pending coll items)"
    by (simp add: ok(2) slotted_orders [OF sub acc(2)])
  show "\<forall>x \<in> set (visible_pending coll items'). \<exists>q \<in> set (visible_pending coll items). \<exists>n. x = q\<lparr>q_order := n\<rparr>"
    unfolding ok(2) using slotted_mem [OF sub] by blast
  show "filter user_held items' = sort_queue coll (filter user_held items)" by (rule ok(3))
qed

end
