(* ===== verification/QueueExamples.thy ===== *)
theory QueueExamples
  imports QueuePromises
begin

text \<open>
  The promises of the queue on a concrete one: two waiting messages of thread \<open>t\<close>, stored out of order, and a
  message a process has claimed.
\<close>

definition example_message :: "string \<Rightarrow> int \<Rightarrow> queued_message" where
  "example_message i n = \<lparr>q_id = i, q_threadId = ''t'', q_content = ''text'', q_workflowInvocationId = None,
     q_mode = Some (NamedMode ''plan''), q_images = None, q_enqueuedAt = ''2026'', q_order = n, q_intent = IntentNormal,
     q_state = QPending, q_claim = None, q_source = None, q_internal = False, q_runId = Some ''r'',
     q_continuationOfRunId = None, q_inboxIds = None, q_subagentNotice = None, q_stopGeneration = Some 1,
     q_permissionMode = Some ModeAsk, q_sentFrom = None, q_steerRunId = None,
     q_origin = Some (FromAgent \<lparr>ag_threadId = ''p'', ag_runId = ''r0'', ag_hops = Some 1\<rparr>)\<rparr>"

definition example_claim :: queue_claim where
  "example_claim = \<lparr>cl_ownerPid = 7, cl_ownerToken = ''other'', cl_claimedAt = ''2026'', cl_source = Some ''gui''\<rparr>"

definition example_queue :: "queued_message list" where
  "example_queue = [example_message ''b'' 1, example_message ''a'' 0,
     (example_message ''c'' (-1))\<lparr>q_state := QClaimed, q_claim := Some example_claim\<rparr>]"

definition example_owner :: claim_owner where
  "example_owner = \<lparr>ow_pid = 8, ow_token = ''token'', ow_claimedAt = None, ow_source = None\<rparr>"

lemma example_queue_ok: "queue_ok ''t'' example_queue"
  by code_simp

theorem stored_queue_reads_back_witness:
  "renormalize (\<lambda>x. x) ''now'' ''t'' example_queue = Inr (sort_queue (\<lambda>x. x) example_queue) \<and>
   map q_id (sort_queue (\<lambda>x. x) example_queue) = [''c'', ''a'', ''b'']"
proof
  show "renormalize (\<lambda>x. x) ''now'' ''t'' example_queue = Inr (sort_queue (\<lambda>x. x) example_queue)"
    using stored_queue_reads_back [OF example_queue_ok] by blast
  show "map q_id (sort_queue (\<lambda>x. x) example_queue) = [''c'', ''a'', ''b'']" by code_simp
qed

theorem claimed_items_are_safe_witness:
  "list_claimed_queue (\<lambda>x. x) (clear_pending_queue (\<lambda>x. x) example_queue) = list_claimed_queue (\<lambda>x. x) example_queue \<and>
   map q_id (list_claimed_queue (\<lambda>x. x) example_queue) = [''c'']"
proof
  have "queue_run (\<lambda>x. x) ''t'' ([] @ [CallClear]) example_queue (clear_pending_queue (\<lambda>x. x) example_queue)"
    by (rule queue_run.answered [OF queue_run.start]) simp_all
  from claimed_items_are_safe [OF this example_queue_ok]
  show "list_claimed_queue (\<lambda>x. x) (clear_pending_queue (\<lambda>x. x) example_queue) = list_claimed_queue (\<lambda>x. x) example_queue"
    by simp
  show "map q_id (list_claimed_queue (\<lambda>x. x) example_queue) = [''c'']" by code_simp
qed

theorem oldest_claimed_first_witness:
  "\<exists>items' c. claim_next_normal (\<lambda>x. x) ''now'' example_queue example_owner = (items', Some c) \<and> q_id c = ''a'' \<and>
     fst (release_claim (\<lambda>x. x) items' ''a'' (Some ''token'')) = sort_queue (\<lambda>x. x) example_queue"
proof -
  obtain items' got where run: "claim_next_normal (\<lambda>x. x) ''now'' example_queue example_owner = (items', got)"
    by (cases "claim_next_normal (\<lambda>x. x) ''now'' example_queue example_owner")
  have "map_option q_id (snd (claim_next_normal (\<lambda>x. x) ''now'' example_queue example_owner)) = Some ''a''" by code_simp
  then obtain c where c: "got = Some c" "q_id c = ''a''" using run by auto
  have "ow_token example_owner = ''token''" by code_simp
  with oldest_claimed_first [OF example_queue_ok run] c run show ?thesis by auto
qed

theorem reorder_is_exact_witness:
  "\<exists>items'. reorder_queued_messages (\<lambda>x. x) example_queue [''b'', ''a''] = Inr items' \<and>
     map q_id (visible_pending (\<lambda>x. x) items') = [''b'', ''a'']"
proof -
  have "mset [''b'', ''a''] = mset (map q_id (visible_pending (\<lambda>x. x) example_queue))" by code_simp
  with reorder_is_exact [OF example_queue_ok] show ?thesis by blast
qed

end
