(* ===== verification/QueueRecoveredExamples.thy ===== *)
theory QueueRecoveredExamples
  imports QueueRecovered QueueExamples
begin

text \<open>
  The promises of the journal on a concrete one: an agent removes a queued message whose run is queued.
\<close>

definition example_intent :: command_intent where
  "example_intent = \<lparr>ci_op = OpRemove, ci_threadId = ''t'', ci_itemId = ''b'', ci_item = None, ci_patch = None,
     ci_orderedIds = None, ci_expectedRevision = None, ci_expectedRunId = None, ci_steerRunId = None,
     ci_permissionMode = None, ci_actor = Some \<lparr>ac_threadId = ''p'', ac_runId = ''r0'', ac_toolCallId = ''c'', ac_hops = None\<rparr>,
     ci_cancelRunIds = [''run:thread:t:ordinal:1''], ci_releaseInboxIds = [], ci_abandonWorkflowInvocationId = None,
     ci_fingerprint = None\<rparr>"

definition example_planned :: planned_command where
  "example_planned = \<lparr>pc_intent = example_intent, pc_audit = Some (''queue.remove'', [(''itemId'', JStr ''b'')]),
     pc_report = []\<rparr>"

definition example_plan :: "queued_message list \<Rightarrow> string option \<Rightarrow> store \<Rightarrow> queue_error + planned_command" where
  "example_plan items active db = Inr example_planned"

definition example_journal :: journal where
  "example_journal = \<lparr>jo_db = example_run, jo_commands = [], jo_epochs = [],
     jo_queue = (\<lambda>t. if t = ''t'' then example_queue else []), jo_repairs = [], jo_abandoned = []\<rparr>"

definition example_command :: "(queue_error + command_outcome) \<times> journal" where
  "example_command = run_durable_queue_command (\<lambda>x. x) (\<lambda>x. x) ''now'' (\<lambda>_. False) ''t'' ''key'' example_plan (Some ''f'') example_journal"

lemma example_journal_simps:
  "jo_db example_journal = example_run" "jo_commands example_journal = []" "jo_epochs example_journal = []"
  "jo_queue example_journal ''t'' = example_queue"
  by (simp_all add: example_journal_def)

lemma example_intent_ok: "intent_ok ''t'' (sort_queue (\<lambda>x. x) example_queue) example_intent"
  by code_simp

lemma example_active: "active_run_id ''t'' example_run = Inr None"
  by code_simp

lemma example_applied: "map_sum id ai_skipped (apply_intent (\<lambda>x. x) (\<lambda>x. x) (sort_queue (\<lambda>x. x) example_queue) example_intent None) = Inr False"
  by code_simp

lemma example_settles: "map_sum id (\<lambda>out. (co_effectsSettled out, co_replayed out, map q_id (co_items out))) (fst example_command) =
    Inr (True, False, [''c'', ''a''])"
  by code_simp

lemma example_command_Inr:
  obtains out j where "example_command = (Inr out, j)" "co_effectsSettled out" "\<not> co_replayed out" "map q_id (co_items out) = [''c'', ''a'']"
proof -
  have "fst example_command \<noteq> Inl e" for e using example_settles by auto
  then obtain out where out: "fst example_command = Inr out" by (cases "fst example_command") auto
  then show thesis using that [of out "snd example_command"] example_settles by (simp add: prod_eq_iff)
qed

lemma example_reads: "map_sum id (map q_id) (load_message_queue (\<lambda>x. x) ''later'' ''t'' (crash (snd example_command))) = Inr [''c'', ''a'']"
  by code_simp


theorem interrupted_command_is_finished_witness:
  "\<exists>out j4 j5. example_command = (Inr out, j4) \<and> map q_id (co_items out) = [''c'', ''a''] \<and>
     repair_queue_journal (\<lambda>x. x) (\<lambda>x. x) ''later'' (\<lambda>_. False) ''t''
       (crash (journal_command ''key'' (Some ''f'') example_planned example_journal)) = (Inr (co_items out), j5) \<and> same_but_report j5 j4"
proof -
  obtain applied where applied: "apply_intent (\<lambda>x. x) (\<lambda>x. x) (sort_queue (\<lambda>x. x) example_queue) example_intent None = Inr applied"
    "\<not> ai_skipped applied"
    using example_applied by (cases "apply_intent (\<lambda>x. x) (\<lambda>x. x) (sort_queue (\<lambda>x. x) example_queue) example_intent None") auto
  have pc: "pc_intent example_planned = example_intent" by (simp add: example_planned_def)
  have "\<exists>out j4 j5. example_command = (Inr out, j4) \<and>
     repair_queue_journal (\<lambda>x. x) (\<lambda>x. x) ''later'' (\<lambda>_. False) ''t''
       (crash (journal_command ''key'' (Some ''f'') example_planned example_journal)) = (Inr (co_items out), j5) \<and>
     repair_queue_journal (\<lambda>x. x) (\<lambda>x. x) ''later'' (\<lambda>_. False) ''t'' (crash ((journal_command ''key'' (Some ''f'') example_planned
       example_journal)\<lparr>jo_queue := (jo_queue example_journal)(''t'' := co_items out)\<rparr>)) = (Inr (co_items out), j5) \<and>
     same_but_report j5 j4 \<and> jo_queue j4 ''t'' = co_items out \<and> \<not> co_replayed out"
    unfolding example_command_def
    by (rule interrupted_command_is_finished [where active = None and applied = applied])
      (simp_all add: example_journal_simps example_queue_ok example_run_ok example_active example_plan_def pc example_intent_ok
        applied list_unfinished_def get_command_def lookup_row_None epochs_current_def)
  then obtain out j4 j5 where run: "example_command = (Inr out, j4)" "same_but_report j5 j4"
    "repair_queue_journal (\<lambda>x. x) (\<lambda>x. x) ''later'' (\<lambda>_. False) ''t''
       (crash (journal_command ''key'' (Some ''f'') example_planned example_journal)) = (Inr (co_items out), j5)" by blast
  moreover obtain out' j' where "example_command = (Inr out', j')" "map q_id (co_items out') = [''c'', ''a'']"
    by (rule example_command_Inr)
  ultimately show ?thesis by (metis prod.inject sum.inject(2))
qed

theorem settled_command_replays_witness:
  "\<exists>result items j3. run_durable_queue_command (\<lambda>x. x) (\<lambda>x. x) ''later'' (\<lambda>_. True) ''t'' ''key'' (\<lambda>_ _ _. Inl (QFault ''x'')) (Some ''f'')
     (prune_commands 7 (crash (snd example_command))) =
     (Inr \<lparr>co_result = result, co_effectsSettled = True, co_replayed = True, co_items = items\<rparr>, j3)"
proof -
  obtain out j1 where run: "example_command = (Inr out, j1)" "co_effectsSettled out" "\<not> co_replayed out"
    by (rule example_command_Inr)
  let ?j = "prune_commands 7 (crash j1)"
  have "load_message_queue (\<lambda>x. x) ''later'' ''t'' ?j = load_message_queue (\<lambda>x. x) ''later'' ''t'' (crash j1)"
    by (simp add: load_message_queue_def prune_commands_def)
  with example_reads [unfolded run(1) snd_conv] obtain loaded where loaded: "load_message_queue (\<lambda>x. x) ''later'' ''t'' ?j = Inr loaded"
    by (cases "load_message_queue (\<lambda>x. x) ''later'' ''t'' (crash j1)") auto
  obtain items j3 where rec: "recover_queue_journal (\<lambda>x. x) (\<lambda>x. x) ''later'' (\<lambda>_. True) ''t'' loaded ?j = (items, j3)"
    by (cases "recover_queue_journal (\<lambda>x. x) (\<lambda>x. x) ''later'' (\<lambda>_. True) ''t'' loaded ?j")
  have "commands_ok example_journal" by (simp add: commands_ok_def example_journal_simps)
  moreover have "journal_run (\<lambda>x. x) (\<lambda>x. x) ''t'' 7 j1 ?j"
    by (intro journal_run.pruned journal_run.restart journal_run.start order_refl)
  moreover have "7 \<le> clock (jo_db j1) + QUEUE_COMMAND_RETENTION_MS" by (simp add: QUEUE_COMMAND_RETENTION_MS_def)
  moreover have "ci_threadId (pc_intent p) = ''t''" if "example_plan items active db = Inr p" for items active db p
    using that by (auto simp: example_plan_def example_planned_def example_intent_def)
  ultimately show ?thesis
    using settled_command_replays [OF _ run(1) [unfolded example_command_def] run(2,3) _ _ _ loaded rec] unfolding run(1) snd_conv by blast
qed

definition stuck_journal :: journal where
  "stuck_journal = insert_pending ''key'' (example_intent\<lparr>ci_abandonWorkflowInvocationId := Some ''w''\<rparr>) example_journal"

theorem recovery_ends_witness:
  "list_unfinished ''t'' stuck_journal \<noteq> [] \<and>
   list_unfinished ''t'' (snd (((\<lambda>(items, j). recover_queue_journal (\<lambda>x. x) (\<lambda>x. x) ''now'' (\<lambda>_. False) ''t'' items j) ^^
     QUEUE_COMMAND_MAX_ATTEMPTS) (example_queue, stuck_journal))) = []"
proof
  show "list_unfinished ''t'' stuck_journal \<noteq> []" by code_simp
  have "commands_ok stuck_journal" by code_simp
  then show "list_unfinished ''t'' (snd (((\<lambda>(items, j). recover_queue_journal (\<lambda>x. x) (\<lambda>x. x) ''now'' (\<lambda>_. False) ''t'' items j) ^^
     QUEUE_COMMAND_MAX_ATTEMPTS) (example_queue, stuck_journal))) = []"
    by (rule recovery_ends)
qed

end
