(* ===== verification/QueueAgentPromises.thy ===== *)
theory QueueAgentPromises
  imports QueueAgents QueueRecoveredExamples
begin

text \<open>
  The promises of an agent's commands over a whole call of \<open>queueCommandAsAgent\<close>, and a concrete one: the agent of
  thread \<open>p\<close> edits the message it queued on thread \<open>t\<close>.
\<close>

section \<open>A call as a plan and its change\<close>

lemma plan_intent_ok:
  assumes ok: "queue_ok t items" "rule_inputs_ok now uuid actor items"
    and plan: "plan_agent_command host coll digest now uuid t actor level command items act0 s = Inr p"
    and run: "apply_intent coll digest items (pc_intent p) act = Inr a"
  shows "intent_ok t items (pc_intent p)"
using plan
proof (cases rule: plan_cases)
  case (enqueue content mode rev0)
  show ?thesis using enqueue_effect [OF ok enqueue run] by blast
next
  case (edit i content mode rev0)
  show ?thesis using edit_effect [OF ok edit run] by blast
next
  case (remove i rev0)
  show ?thesis using remove_effect [OF ok(1) remove run] by blast
next
  case (reorder ids rev0)
  show ?thesis using reorder_effect [OF reorder run] by blast
next
  case (promote i rev0 run0)
  show ?thesis using promote_effect [OF ok(1) promote run] by blast
qed

lemma fresh_command:
  assumes "run_queue_command coll digest now abandon t key loaded plan fp j = (Inr out, j')" "\<not> co_replayed out" "list_unfinished t j = []"
  shows "get_command key j = None \<and> (\<exists>active p a. active_run_id t (jo_db j) = Inr active \<and> plan loaded active (jo_db j) = Inr p \<and>
    apply_intent coll digest loaded (pc_intent p) active = Inr a)"
proof -
  have rec: "recover_queue_journal coll digest now abandon t loaded j = (loaded, j)" by (rule no_unfinished [OF assms(3)])
  have free: "get_command key j = None"
    using assms(1,2) by (auto simp: run_queue_command_def rec replay_command_def split: option.splits if_splits)
  obtain active p where plan: "active_run_id t (jo_db j) = Inr active" "plan loaded active (jo_db j) = Inr p"
    using assms(1) by (auto simp: run_queue_command_def rec free split: sum.splits)
  obtain w where "write_command coll digest now t active p loaded (journal_command key fp p j) = Inr w"
    using assms(1) by (cases "write_command coll digest now t active p loaded (journal_command key fp p j)")
      (auto simp: run_queue_command_def rec free plan Let_def)
  then have "\<exists>a. apply_intent coll digest loaded (pc_intent p) active = Inr a"
    by (auto simp: write_command_def split: sum.splits)
  then show ?thesis using free plan by blast
qed

lemma agent_command_run:
  assumes run: "queue_command_as_agent host coll digest now uuid abandon t actor level key command j = (Inr out, j')" "\<not> co_replayed out"
    and ok: "queue_ok t (jo_queue j t)" "list_unfinished t j = []" "rule_inputs_ok now uuid actor (jo_queue j t)"
  shows "\<exists>active p a. plan_agent_command host coll digest now uuid t actor level command (sort_queue coll (jo_queue j t)) active (jo_db j) = Inr p \<and>
    apply_intent coll digest (sort_queue coll (jo_queue j t)) (pc_intent p) active = Inr a \<and>
    co_items out = sort_queue coll (ai_items a) \<and> jo_queue j' t = co_items out"
proof -
  let ?items = "sort_queue coll (jo_queue j t)"
  let ?plan = "plan_agent_command host coll digest now uuid t actor level command"
  let ?fp = "Some (command_fingerprint digest t command)"
  have d: "run_durable_queue_command coll digest now abandon t key ?plan ?fp j = (Inr out, j')"
    using run(1) by (auto simp: queue_command_as_agent_def split: if_splits)
  then have "run_queue_command coll digest now abandon t key ?items ?plan ?fp j = (Inr out, j')"
    by (simp add: run_durable_queue_command_def load_ok [OF ok(1)])
  from fresh_command [OF this run(2) ok(2)] obtain active p a where f: "get_command key j = None"
    "active_run_id t (jo_db j) = Inr active" "?plan ?items active (jo_db j) = Inr p" "apply_intent coll digest ?items (pc_intent p) active = Inr a"
    by blast
  have iok: "queue_ok t ?items" "rule_inputs_ok now uuid actor ?items" using ok(1,3) by (simp_all add: rule_inputs_ok_def)
  have aok: "queue_ok t (ai_items a)"
    using apply_repeats [OF iok(1) sort_queue_idem plan_intent_ok [OF iok f(3,4)] f(4)] by blast
  obtain settled j4 where "finish_command abandon (entry_of key ?fp p j) (command_report p a)
      ((journal_command key ?fp p j)\<lparr>jo_queue := (jo_queue j)(t := sort_queue coll (ai_items a))\<rparr>) = (settled, j4)"
    by (cases "finish_command abandon (entry_of key ?fp p j) (command_report p a)
      ((journal_command key ?fp p j)\<lparr>jo_queue := (jo_queue j)(t := sort_queue coll (ai_items a))\<rparr>)")
  moreover from this have "jo_queue j4 = (jo_queue j)(t := sort_queue coll (ai_items a))"
    using finish_queue [of abandon "entry_of key ?fp p j" "command_report p a"
      "(journal_command key ?fp p j)\<lparr>jo_queue := (jo_queue j)(t := sort_queue coll (ai_items a))\<rparr>"] by simp
  ultimately have "co_items out = sort_queue coll (ai_items a) \<and> jo_queue j' t = sort_queue coll (ai_items a)"
    using run_command_Inr [where plan = ?plan and fp = ?fp, OF ok(1,2) f(1,2,3,4) aok, of now abandon] d by auto
  then show ?thesis using f(3,4) by auto
qed

section \<open>The promises\<close>

text \<open>
  C37: An agent without manage access leaves the messages of others alone, whatever command it gives: a waiting message
  it did not write is still in the queue, with its words, mode and origin and a limit no looser than it was, and no
  message is ahead of it that was not before.
\<close>

theorem agents_leave_others_alone:
  assumes "queue_command_as_agent host coll digest now uuid abandon t actor level key command j = (Inr out, j')" "\<not> co_replayed out"
    and "level \<noteq> Manage" "queue_ok t (jo_queue j t)" "list_unfinished t j = []" "rule_inputs_ok now uuid actor (jo_queue j t)"
    and "q \<in> set (jo_queue j t)" "waiting q" "\<not> q_internal q" "\<not> authored_by actor q"
  shows "\<exists>q' \<in> set (jo_queue j' t). same_words q q' \<and> queue_ahead (jo_queue j' t) q' \<subseteq> queue_ahead (jo_queue j t) q"
proof -
  let ?items = "sort_queue coll (jo_queue j t)"
  obtain active p a where r: "plan_agent_command host coll digest now uuid t actor level command ?items active (jo_db j) = Inr p"
    "apply_intent coll digest ?items (pc_intent p) active = Inr a" "jo_queue j' t = sort_queue coll (ai_items a)"
    using agent_command_run [OF assms(1,2,4-6)] by auto
  have "left_alone ?items q (ai_items a)"
    by (rule others_left_alone [OF _ _ r(1,2)]) (use assms in \<open>simp_all add: rule_inputs_ok_def\<close>)
  then show ?thesis by (simp add: left_alone_def queue_ahead_def r(3))
qed

text \<open>
  C38: An agent never passes its words off and never loosens a limit, whatever its access: every message of the queue
  after its command is one that was there, with the same words and origin and a limit no looser than before, or carries
  the agent's own origin, at most three agent messages from a person, and a limit no looser than the agent's run.
\<close>

theorem agents_words_are_theirs:
  assumes "queue_command_as_agent host coll digest now uuid abandon t actor level key command j = (Inr out, j')" "\<not> co_replayed out"
    and "queue_ok t (jo_queue j t)" "list_unfinished t j = []" "rule_inputs_ok now uuid actor (jo_queue j t)"
    and "q' \<in> set (jo_queue j' t)"
  shows "accounted actor (run_permission_mode (ac_runId actor) (jo_db j)) (jo_queue j t) q'"
proof -
  let ?items = "sort_queue coll (jo_queue j t)"
  obtain active p a where r: "plan_agent_command host coll digest now uuid t actor level command ?items active (jo_db j) = Inr p"
    "apply_intent coll digest ?items (pc_intent p) active = Inr a" "jo_queue j' t = sort_queue coll (ai_items a)"
    using agent_command_run [OF assms(1-5)] by auto
  have "accounted actor (run_permission_mode (ac_runId actor) (jo_db j)) ?items q'"
    by (rule all_accounted [OF _ _ r(1,2)]) (use assms r(3) in \<open>simp_all add: rule_inputs_ok_def\<close>)
  then show ?thesis by (simp add: accounted_def)
qed

text \<open>
  C39: Agents never fill a queue: when at most three waiting messages are from agents before an agent's command, at most
  three are after it.
\<close>

theorem agents_never_fill_the_queue:
  assumes "queue_command_as_agent host coll digest now uuid abandon t actor level key command j = (Inr out, j')" "\<not> co_replayed out"
    and "queue_ok t (jo_queue j t)" "list_unfinished t j = []" "rule_inputs_ok now uuid actor (jo_queue j t)"
    and "agent_items coll (jo_queue j t) \<le> AGENT_QUEUE_MAX_PER_THREAD"
  shows "agent_items coll (jo_queue j' t) \<le> AGENT_QUEUE_MAX_PER_THREAD"
proof -
  let ?items = "sort_queue coll (jo_queue j t)"
  have sorted: "agent_items coll (sort_queue coll xs) = agent_items coll xs" for xs
    using count_mset [of "sort_queue coll xs" xs agent_waits] by (simp only: agent_items_count mset_sort_queue)
  obtain active p a where r: "plan_agent_command host coll digest now uuid t actor level command ?items active (jo_db j) = Inr p"
    "apply_intent coll digest ?items (pc_intent p) active = Inr a" "jo_queue j' t = sort_queue coll (ai_items a)"
    using agent_command_run [OF assms(1-5)] by auto
  have "agent_items coll (ai_items a) \<le> AGENT_QUEUE_MAX_PER_THREAD"
    by (rule cap_kept [OF _ _ r(1,2)]) (use assms sorted in \<open>simp_all add: rule_inputs_ok_def\<close>)
  then show ?thesis by (simp add: r(3) sorted)
qed

text \<open>
  C40: The words of an agent cannot end their own label: in the text another thread receives, after the label the
  closing line stands at the very end and nowhere before, whatever the agent wrote; words that do not contain the line
  are passed on unchanged.
\<close>

theorem agents_words_stay_labelled:
  "\<exists>label. agent_message_text caller title content = label @ agent_message_body content @ [CHR 0x0A, CHR 0x0A] @ AGENT_MESSAGE_END \<and>
     (\<forall>u v. u @ AGENT_MESSAGE_END @ v = agent_message_body content @ [CHR 0x0A, CHR 0x0A] @ AGENT_MESSAGE_END \<longrightarrow> v = []) \<and>
     (\<not> sublist AGENT_MESSAGE_END content \<longrightarrow> agent_message_body content = content)"
proof -
  have "\<exists>label. agent_message_text caller title content = label @ agent_message_body content @ [CHR 0x0A, CHR 0x0A] @ AGENT_MESSAGE_END"
    unfolding agent_message_text_def append_assoc [symmetric] by blast
  moreover have "agent_message_body content = content" if "\<not> sublist AGENT_MESSAGE_END content"
    unfolding agent_message_body_def by (rule split_join_same [OF that])
  ultimately show ?thesis using closes_once by blast
qed

end
