(* ===== verification/QueueAgentExamples.thy ===== *)
theory QueueAgentExamples
  imports QueueAgentPromises
begin

text \<open>
  An agent's command on a concrete queue: the agent of thread \<open>p\<close> rewrites the message it queued on thread \<open>t\<close>, ahead of
  which a person's message waits.
\<close>

definition shared_queue :: "queued_message list" where
  "shared_queue = [example_message ''b'' 1, (example_message ''a'' 0)\<lparr>q_origin := None\<rparr>]"

definition shared_journal :: journal where
  "shared_journal = example_journal\<lparr>jo_queue := (\<lambda>t. if t = ''t'' then shared_queue else [])\<rparr>"

definition example_host :: rule_host where
  "example_host = \<lparr>rh_threadExists = (\<lambda>t. t = ''t'' \<or> t = ''p''), rh_botThread = (\<lambda>_. False), rh_mergeBack = (\<lambda>_. False),
     rh_titleOf = (\<lambda>_. Some ''Title''), rh_chatMode = (\<lambda>_. None), rh_questions = (\<lambda>_. False), rh_turn = (\<lambda>_. None)\<rparr>"

definition example_actor :: agent_actor where
  "example_actor = \<lparr>ac_threadId = ''p'', ac_runId = ''r0'', ac_toolCallId = ''c'', ac_hops = None\<rparr>"

definition example_rewrite :: agent_command where
  "example_rewrite = AgEdit ''b'' (Some ''new words'') None (queue_revision (\<lambda>x. x) (\<lambda>x. x) shared_queue)"

definition agent_call :: "(queue_error + command_outcome) \<times> journal" where
  "agent_call = queue_command_as_agent example_host (\<lambda>x. x) (\<lambda>x. x) ''now'' ''uuid'' (\<lambda>_. True) ''t'' example_actor Read ''key''
     example_rewrite shared_journal"

lemma shared_ok: "queue_ok ''t'' shared_queue" "rule_inputs_ok ''now'' ''uuid'' example_actor shared_queue"
  by code_simp+

lemma shared_simps:
  "jo_queue shared_journal ''t'' = shared_queue" "jo_commands shared_journal = []" "list_unfinished ''t'' shared_journal = []"
  by (simp_all add: shared_journal_def example_journal_def list_unfinished_def)

lemma agent_call_answers: "map_sum id co_replayed (fst agent_call) = Inr False"
  by code_simp

lemma agent_call_Inr:
  obtains out where "agent_call = (Inr out, snd agent_call)" "\<not> co_replayed out"
proof -
  have "fst agent_call \<noteq> Inl e" for e using agent_call_answers by auto
  then obtain out where "fst agent_call = Inr out" by (cases "fst agent_call") auto
  then show thesis using that [of out] agent_call_answers by (simp add: prod_eq_iff)
qed

theorem agents_leave_others_alone_witness:
  "\<exists>q' \<in> set (jo_queue (snd agent_call) ''t''). q_id q' = ''a'' \<and> q_content q' = ''text'' \<and>
     queue_ahead (jo_queue (snd agent_call) ''t'') q' \<subseteq> queue_ahead shared_queue ((example_message ''a'' 0)\<lparr>q_origin := None\<rparr>)"
proof -
  obtain out where run: "agent_call = (Inr out, snd agent_call)" "\<not> co_replayed out" by (rule agent_call_Inr)
  let ?q = "(example_message ''a'' 0)\<lparr>q_origin := None\<rparr>"
  have "\<exists>q' \<in> set (jo_queue (snd agent_call) ''t''). same_words ?q q' \<and>
      queue_ahead (jo_queue (snd agent_call) ''t'') q' \<subseteq> queue_ahead (jo_queue shared_journal ''t'') ?q"
    by (rule agents_leave_others_alone [OF run(1) [unfolded agent_call_def] run(2), folded agent_call_def])
      (simp_all add: shared_simps shared_ok, simp_all add: shared_queue_def waiting_def example_message_def authored_by_def)
  then show ?thesis by (auto simp: shared_simps same_words_def example_message_def)
qed

theorem agents_words_are_theirs_witness:
  "list_all (\<lambda>q. accounted example_actor ModeAsk shared_queue q) (jo_queue (snd agent_call) ''t'')"
proof -
  obtain out where run: "agent_call = (Inr out, snd agent_call)" "\<not> co_replayed out" by (rule agent_call_Inr)
  have mode: "run_permission_mode (ac_runId example_actor) (jo_db shared_journal) = ModeAsk" by code_simp
  have "accounted example_actor ModeAsk shared_queue q" if "q \<in> set (jo_queue (snd agent_call) ''t'')" for q
    using agents_words_are_theirs [OF run(1) [unfolded agent_call_def] run(2), folded agent_call_def, OF _ _ _ that]
    by (simp add: shared_simps shared_ok mode)
  then show ?thesis by (simp add: list_all_iff)
qed

theorem agents_never_fill_the_queue_witness:
  "agent_items (\<lambda>x. x) (jo_queue (snd agent_call) ''t'') \<le> 3"
proof -
  obtain out where run: "agent_call = (Inr out, snd agent_call)" "\<not> co_replayed out" by (rule agent_call_Inr)
  have "agent_items (\<lambda>x. x) shared_queue \<le> AGENT_QUEUE_MAX_PER_THREAD" by code_simp
  then have "agent_items (\<lambda>x. x) (jo_queue (snd agent_call) ''t'') \<le> AGENT_QUEUE_MAX_PER_THREAD"
    using agents_never_fill_the_queue [OF run(1) [unfolded agent_call_def] run(2), folded agent_call_def]
    by (simp add: shared_simps shared_ok)
  then show ?thesis by (simp add: AGENT_QUEUE_MAX_PER_THREAD_def)
qed

theorem agents_words_stay_labelled_witness:
  "\<exists>label. agent_message_text ''p'' (Some ''Title'') ''hello'' = label @ ''hello'' @ [CHR 0x0A, CHR 0x0A] @ AGENT_MESSAGE_END"
proof -
  have "\<not> sublist AGENT_MESSAGE_END ''hello''" by (auto simp: AGENT_MESSAGE_END_def sublist_Cons_right)
  then show ?thesis using agents_words_stay_labelled [of "''p''" "Some ''Title''" "''hello''"] by auto
qed

end
