(* ===== verification/Spec2Isabelle.thy ===== *)
theory Spec2Isabelle
  imports OutboxSteps TerminalLaws Repairs EnginePauses NetBounds NetTransfer NetLimits ApprovalExamples QueueAgentExamples
begin

text \<open>
  Verification of the durable core of Mousse, a desktop application that runs coding agents. Its daemon (MMS,
  \<open>src/mms\<close>) keeps what must survive a crash in a few stores, and this development models those stores and the
  rules over them: the run database with its run engine (\<open>src/mms/run\<close>), the message queue of a thread with the
  journal of agent commands on it (\<open>src/mms/queue\<close>), and the ledgers of the network layer
  (\<open>src/mms/net/store\<close>). Providers, user interface and network transports call these operations and are outside.

  \<^bold>\<open>How the code is represented.\<close>
  A transaction (\<open>db.transaction\<close>) is a function of the state that either fails (\<open>Inl\<close>: the code throws, the
  transaction is rolled back and the caller keeps the state it had) or returns a value and the new state; nested
  transactions join the outer one and are composition (theory Prelude). Code that runs outside a transaction and
  opens several returns the state also when it fails. A table is the list of its rows in \<open>rowid\<close> order; a row is a
  record whose fields have the source's names behind a two-letter prefix. Statuses are datatypes, the status tables
  (\<open>TRANSITIONS\<close>) functions, an error class is a datatype of its codes, an optional member is an \<open>option\<close>.
  ISO timestamps of the run database are milliseconds (\<open>nat\<close>), since \<open>toISOString\<close> orders as its text; the
  network ledgers keep integers as the code does and check \<open>Number.isSafeInteger\<close> where it does. Strings are
  lists of \<open>char\<close>, one per code unit below 256. JSON values are a datatype with \<open>stableStringify\<close> and
  \<open>JSON.parse\<close> over it (theory Json).

  \<^bold>\<open>Parameters.\<close>
  SHA-256 (\<open>digest\<close>), the collation of \<open>localeCompare\<close> (\<open>coll\<close>), the redaction of secrets, random ids (a supply
  \<open>uuids\<close>, \<open>net_random\<close>), the clock, the capabilities of a provider, the callbacks a host or a service installs,
  whether abandoning a workflow command returns (\<open>abandon\<close>) and the text of the current time (\<open>now\<close>).

  \<^bold>\<open>The run database.\<close>
  RunTypes, RunIds, RunState: \<open>types.ts\<close>, the ids, the tables; RunStore: \<open>RunStore.ts\<close> and
  \<open>stopGeneration.ts\<close>. Delegations, Hold, Settling: \<open>Delegations.ts\<close>, \<open>delegation/hold.ts\<close>, \<open>sources.ts\<close> and the
  work loop of \<open>RunStore.settleHold\<close>; the locale \<open>settle_provider\<close> is the contract every caller of settleHold relies
  on, with the queueing call inside the loop and the full call as its two instances. InboxBase, Inbox, InboxLaws:
  \<open>Inbox.ts\<close>. EffectOutbox, OutboxLaws, OutboxSteps: \<open>EffectOutbox.ts\<close> with its lanes and leases. Terminal,
  TerminalLaws: \<open>terminal.ts\<close>. Ledger: \<open>handoff/Transfers.ts\<close>, \<open>ToolInvocations.ts\<close>, \<open>DaemonEpoch.ts\<close>. Policy,
  Notice: \<open>CommandPolicy.ts\<close>, \<open>agentHops.ts\<close>, \<open>delegation/notice.ts\<close>. Wake, Restore: \<open>delegation/wake.ts\<close>.
  Reconciler, Repairs: \<open>Reconciler.ts\<close>, \<open>strandedRuns.ts\<close>. StatusTables has the status tables as instances of two
  interfaces. What is shown: no task waits on an idle subagent after any operation and each task publishes once;
  claims are exclusive and first in first out in a lane, and bounded up to the ones a defer gives back; settlements
  are compare-and-set on the lease and happen once; a terminal run keeps all but its access grant; the terminal write
  never fails for a live run; the reconciler interrupts exactly the silent runs.

  \<^bold>\<open>The run engine.\<close>
  \<open>RunEngine.ts\<close>: Engine has the life of a run (\<open>markStarting\<close> to \<open>markTerminal\<close>) and its pauses, EngineStop the Stop of
  a subtree with its receipt, EngineCommands the commands (\<open>dispatch\<close>, \<open>sendWithStart\<close>) with theirs. An operation is a
  function of the store and of the epochs the engine remembers; when it fails the store is rolled back and the memory
  is not. EngineBase holds the reasoning about them, EngineLaws and EngineSlots show that every operation but the start
  and the pause of a run is \<open>tame\<close> (it activates and pauses nothing) and that those two look first, EngineSteps that
  over any sequence of calls a thread has at most one run that is active or paused, EnginePauses that a pause can
  always be ended and takes its timers with it.

  \<^bold>\<open>Approvals.\<close>
  ApprovalTypes, Approvals, ApprovalAnswers, ApprovalDelivery: every operation of \<open>ThreadApprovals.ts\<close> and
  \<open>approvalRights.ts\<close>. ApprovalMoves reduces the operations to a few moves of the tables, ApprovalLaws shows that
  each operation is a sequence of them, ApprovalBoot that boot recovery is a map, ApprovalTotal that settling
  returns; ApprovalSafety, ApprovalPromises and ApprovalExamples hold the properties and their witnesses.

  \<^bold>\<open>The message queue.\<close>
  QueueItems, QueueOps: every operation of \<open>ThreadMessageQueue.ts\<close>, reading and writing of the stored form included.
  QueueJournal: \<open>run/QueueCommands.ts\<close>, \<open>queue/queueJournal.ts\<close>, \<open>queue/durableQueue.ts\<close> and the effects of a
  command in \<open>OrchestratorService.ts\<close>. QueueStored, QueueLaws, QueueReorder, QueueSafety, QueuePromises: a stored
  queue reads back, every operation keeps the queue well formed, an operation that is not about claims never touches a
  claimed message, reorder is exact. QueueRepeat, QueueEffects, QueueRecovery: applying a command a second time
  changes nothing, which makes recovery after a crash equal to the uninterrupted command. QueueEntries,
  QueueRecovered: a settled command is not carried out again while its entry is kept (14 days), and recovery ends. AgentMessage, QueueRules: what an
  agent's command may do (\<open>queueCommandAsAgent\<close>, \<open>checkPromotion\<close>, \<open>agentMessageText\<close>), a person's edit, order and
  promotion, recovery at boot. QueueRuleLaws, QueueAgents, QueueAgentPromises: an agent never changes or postpones
  messages it has no right to, its words carry its own origin and label, it never loosens a limit or fills the queue.

  \<^bold>\<open>The network ledgers.\<close>
  NetStore: \<open>net/store/database.ts\<close> and \<open>shared/net/ids.ts\<close>. Budgets, Executions, NetLimits: the three ledgers.
  ExecutionLaws defines the programs the services may build over them (\<open>ledger_call\<close>) and the locale
  \<open>ledger_contract\<close> an invariant has to meet to survive all of them; BudgetLaws, NetLaws, NetPrograms, NetBounds,
  BudgetTransfer, NetTransfer: the books balance, outcomes are final, a trigger of a space is admitted once, recovery
  completes, an export read back elsewhere exports as the same transfer and can be read again to no effect.

  \<^bold>\<open>Loops and fuel.\<close>
  \<open>settle_hold\<close> terminates on a measure: the tasks still running and the threads queued. \<open>settle_approval\<close> runs with as much
  fuel as there are pending requests, and two more: every call that recurses has settled one (ApprovalTotal). The
  walk over the ancestors of a thread stops after 64 steps, as the code does. \<open>subtree_from\<close> terminates on the threads of
  the lineage table not found yet. \<open>recover_loop\<close> of the executions is a
  \<open>partial_function\<close>: that it returns is proved (NetBounds). A queue command is tried five times. The printers of JSON
  recurse on its size; nothing else recurses but on data.

  \<^bold>\<open>Not modelled, and why.\<close>
  The asynchronous parts: \<open>EffectWorker.ts\<close> and \<open>OrchestratorService.ts\<close> drive provider sessions with promises and
  timers; of them only what the queue's journal calls is here. Of \<open>RunEngine.ts\<close>: delegate, fork, merge-back and
  integration, boot recovery, and the locks and events around its transactions. SQLite itself, row codecs, migrations and
  disk faults. Subscribers told after a commit. The queue lock file, execution leases and process checks. Workflows,
  bots, scheduled jobs, sharing of threads, transports of the network and their cryptography, providers, git, platform
  code, the user interface and the command line: systems of their own, most of it process, socket and file I/O.
  Numbers with a fraction in stored JSON, characters above 255, and the order of concurrent processes beyond what
  transactions and the queue lock serialise are outside the model. Smaller limits: a member of an outcome patch that is
  present but \<open>undefined\<close> is not told from an absent one; an execution binding without a policy reads as the mode
  ask (the code would throw); the queue's journal is not called inside a transaction (the code refuses that); the rate
  of a principal that is watched is not configured again.
\<close>

section \<open>The runs table as a state machine\<close>

text \<open>
  Every statement of the program that writes the table of runs: the operations of \<open>RunStore.ts\<close>, the one
  \<open>UPDATE\<close> of \<open>markStarting\<close> (which has checked that the run is queued), and what inbox, outbox, delegations and the
  terminal write do around them.
\<close>

inductive engine_step :: "store \<Rightarrow> store \<Rightarrow> bool" where
  es_create_run: "create_run input s = Inr (r, s') \<Longrightarrow> engine_step s s'"
| es_create_attempt: "create_attempt runId reason s = Inr (a, s') \<Longrightarrow> engine_step s s'"
| es_status: "cas_run_status runId e st p s = Inr (r, s') \<Longrightarrow> engine_step s s'"
| es_outcome: "cas_run_outcome runId e oc s = Inr (r, s') \<Longrightarrow> engine_step s s'"
| es_grant: "set_run_access_grant runId l s = (g, s') \<Longrightarrow> engine_step s s'"
| es_heartbeat: "touch_heartbeat runId now s = (b, s') \<Longrightarrow> engine_step s s'"
| es_attempt: "set_attempt_status attemptId ast ref st at s = Inr (a, s') \<Longrightarrow> engine_step s s'"
| es_delegation: "set_delegation_status settle_hold dId from to res at s = Inr (d, s') \<Longrightarrow> engine_step s s'"
| es_inbox: "inbox_step s s' \<Longrightarrow> engine_step s s'"
| es_outbox: "outbox_step s s' \<Longrightarrow> outbox_ok s \<Longrightarrow> engine_step s s'"
| es_admit: "get_run runId s = Some run \<Longrightarrow> rr_status run = RQueued \<Longrightarrow> admit_now run s = Inr (u, s') \<Longrightarrow> engine_step s s'"
| es_terminal: "write_terminal_run run e st oc at text notice s = Inr (r, s') \<Longrightarrow> engine_step s s'"

lemma write_terminal_run_evolves:
  assumes "write_terminal_run r e st oc at text notice s = Inr (next, s')"
  shows "store_evolves s s'"
proof -
  let ?p = "no_patch\<lparr>rp_completedAt := Some (Some at), rp_outcome := map_option Some (terminal_outcome (rr_outcome r) oc)\<rparr>"
  let ?c = "st \<noteq> RUncertain \<and> oc_interruptedBy (the_outcome oc) \<noteq> Some ByDaemonRestart"
  from assms obtain s1 y s2 where steps: "cas_run_status (rr_runId r) e st ?p s = Inr (next, s1)"
    "terminal_tail next at text ?c notice s1 = Inr (y, s2)" "settle_txn (rr_threadId next) s2 = Inr ((), s')"
    unfolding write_terminal_run_tail bindE_Inr by auto
  have "runs s' = runs s1"
    using alwaysD [OF terminal_tail_runs steps(2)] alwaysD [OF settle_always(2) steps(3)]
    by (simp add: same_runs_def owners_kept_def)
  then have "store_evolves s1 s'" by (rule store_evolves_same)
  with cas_run_status_evolves [OF steps(1)] show ?thesis by (rule store_evolves_trans)
qed

lemma engine_step_evolves: "engine_step s s' \<Longrightarrow> store_evolves s s'"
proof (induction rule: engine_step.induct)
  case (es_inbox s s')
  then show ?case using inbox_step_keeps [OF es_inbox(1), of "{}"] by (intro store_evolves_same) (simp add: inbox_evolves_def)
next
  case (es_outbox s s')
  then show ?case using outbox_step_keeps [OF es_outbox] by (intro store_evolves_same) simp
next
  case (es_delegation dId "from" to res at s d s')
  then show ?case using holding.status_runs [OF es_delegation(1)] by (intro store_evolves_same) simp
next
  case (es_attempt attemptId ast ref st at s a s')
  then show ?case by (intro store_evolves_same set_attempt_status_runs)
next
  case (es_admit runId s run u s')
  have "rr_runId run = runId" using es_admit(1) by (auto simp: get_run_def dest: lookup_row_Some)
  with es_admit show ?case
    by (auto simp: admit_now_def run_evolves_def split: if_splits
        intro!: store_evolves_update [where P = "\<lambda>r. rr_runId r = rr_runId run" and f = "\<lambda>r. r\<lparr>rr_stopGeneration := current_stop_generation (rr_threadId run) s\<rparr>"])
qed (blast intro: create_run_evolves create_attempt_evolves cas_run_status_evolves cas_run_outcome_evolves
    set_run_access_grant_evolves touch_heartbeat_evolves write_terminal_run_evolves)+

lemma engine_steps_evolve: "engine_step\<^sup>*\<^sup>* s s' \<Longrightarrow> store_evolves s s'"
  by (induction rule: rtranclp_induct) (blast intro: store_evolves_trans engine_step_evolves)+

text \<open>
  C10: A terminal run is final: along any sequence of writes of the runs table (creating runs and attempts, moving
  statuses and outcomes, heartbeats, the admission of a start, terminal writes) and of inbox, outbox and delegation
  writes between them, a run that has ended stays as it is in every field but one: its access grant.
\<close>

theorem terminal_run_final:
  assumes "engine_step\<^sup>*\<^sup>* s s'" "get_run runId s = Some r" "terminal_run (rr_status r)"
  shows "\<exists>g. get_run runId s' = Some (r\<lparr>rr_accessGrant := g\<rparr>)"
proof -
  obtain r' where r': "get_run runId s' = Some r'" "run_evolves r r'"
    using engine_steps_evolve [OF assms(1)] assms(2) by (auto simp: store_evolves_def)
  with assms(3) have "but_grant r' = but_grant r" by (simp add: run_evolves_def)
  then have "r' = r\<lparr>rr_accessGrant := rr_accessGrant r'\<rparr>" by (cases r; cases r'; simp add: but_grant_def)
  with r'(1) show ?thesis by metis
qed

definition ended_example :: store where
  "ended_example = (case cas_run_status ''run:thread:t:ordinal:1'' 0 RCancelled no_patch example_run of
     Inl e \<Rightarrow> example_run | Inr (r, s) \<Rightarrow> s)"

lemma terminal_run_final_witness:
  "\<exists>s'. engine_step ended_example s' \<and> s' \<noteq> ended_example \<and>
     map_option rr_status (get_run ''run:thread:t:ordinal:1'' s') = Some RCancelled"
proof -
  have "\<not> isl (create_run example_input ended_example)" by code_simp
  then obtain r s' where run: "create_run example_input ended_example = Inr (r, s')" using succeeds by blast
  then have step: "engine_step ended_example s'" by (rule es_create_run)
  then have steps: "engine_step\<^sup>*\<^sup>* ended_example s'" by (rule r_into_rtranclp [of engine_step])
  have "case get_run ''run:thread:t:ordinal:1'' ended_example of None \<Rightarrow> False | Some r \<Rightarrow> rr_status r = RCancelled"
    by code_simp
  then obtain x where x: "get_run ''run:thread:t:ordinal:1'' ended_example = Some x" "rr_status x = RCancelled"
    by (auto split: option.splits)
  have "s' \<noteq> ended_example"
    using create_run_Inr(1) [OF run] by auto
  with terminal_run_final [OF steps x(1)] x(2) step show ?thesis by fastforce
qed

end
